(* ===== verification/Prelude.thy ===== *)
theory Prelude
  imports Main "HOL-Library.Word"
begin

text \<open>
  Vocabulary shared by the component theories: the machine integers the Rust code uses,
  big- and little-endian byte strings, the two readers of a byte cursor, Rust's saturating
  subtraction, and the interface \<open>wire_codec\<close> that every fixed-width header format
  implements.  The collections \<open>wire\<close> (evaluation of readers on written bytes),
  \<open>step_simps\<close> (the effect of an operation on a field) and \<open>inv_intro\<close>
  (preservation of invariants) are what the component proofs simplify with.
\<close>

unbundle bit_operations_syntax

named_theorems wire \<open>readers applied to written bytes\<close>
named_theorems step_simps \<open>effect of an operation on the parts of a state\<close>
named_theorems inv_intro \<open>operations preserve invariants\<close>

type_synonym byte = "8 word"
type_synonym u8 = "8 word"
type_synonym u16 = "16 word"
type_synonym u32 = "32 word"
type_synonym u64 = "64 word"

section \<open>Bytes in network order\<close>

definition put_u16 :: "u16 \<Rightarrow> byte list" where
  "put_u16 w = [ucast (drop_bit 8 w), ucast w]"

definition put_u32 :: "u32 \<Rightarrow> byte list" where
  "put_u32 w = [ucast (drop_bit 24 w), ucast (drop_bit 16 w), ucast (drop_bit 8 w), ucast w]"

definition u16_of_be :: "byte \<Rightarrow> byte \<Rightarrow> u16" where
  "u16_of_be a b = push_bit 8 (ucast a) OR ucast b"

definition u32_of_be :: "byte \<Rightarrow> byte \<Rightarrow> byte \<Rightarrow> byte \<Rightarrow> u32" where
  "u32_of_be a b c d =
     push_bit 24 (ucast a) OR push_bit 16 (ucast b) OR push_bit 8 (ucast c) OR ucast d"

definition put_u16_le :: "u16 \<Rightarrow> byte list" where
  "put_u16_le w = [ucast w, ucast (drop_bit 8 w)]"

definition u16_of_le :: "byte \<Rightarrow> byte \<Rightarrow> u16" where
  "u16_of_le a b = push_bit 8 (ucast b) OR ucast a"

lemma length_put_u16 [simp]: "length (put_u16 w) = 2"
  by (simp add: put_u16_def)

lemma length_put_u32 [simp]: "length (put_u32 w) = 4"
  by (simp add: put_u32_def)

lemma length_put_u16_le [simp]: "length (put_u16_le w) = 2"
  by (simp add: put_u16_le_def)

lemma u16_of_be_put: "u16_of_be (ucast (drop_bit 8 w)) (ucast w) = w"
  by (rule bit_word_eqI) (auto simp: u16_of_be_def bit_simps)

lemma u16_of_le_put: "u16_of_le (ucast w) (ucast (drop_bit 8 w)) = w"
  by (rule bit_word_eqI) (auto simp: u16_of_le_def bit_simps)

lemma u32_of_be_put:
  "u32_of_be (ucast (drop_bit 24 w)) (ucast (drop_bit 16 w)) (ucast (drop_bit 8 w)) (ucast w) = w"
proof (rule bit_word_eqI)
  fix n
  assume "n < LENGTH(32)"
  then consider "n < 8" | "8 \<le> n" "n < 16" | "16 \<le> n" "n < 24" | "24 \<le> n" "n < 32"
    by fastforce
  then show "bit (u32_of_be (ucast (drop_bit 24 w)) (ucast (drop_bit 16 w))
               (ucast (drop_bit 8 w)) (ucast w)) n = bit w n"
    by cases (auto simp: u32_of_be_def bit_simps)
qed

lemma put_u16_of_be: "put_u16 (u16_of_be a b) = [a, b]"
proof -
  have "ucast (drop_bit 8 (u16_of_be a b)) = a"
    by (rule bit_word_eqI) (auto simp: u16_of_be_def bit_simps dest: bit_imp_le_length)
  moreover have "ucast (u16_of_be a b) = b"
    by (rule bit_word_eqI) (auto simp: u16_of_be_def bit_simps)
  ultimately show ?thesis by (simp add: put_u16_def)
qed

lemma put_u32_of_be: "put_u32 (u32_of_be a b c d) = [a, b, c, d]"
proof -
  have "ucast (drop_bit 24 (u32_of_be a b c d)) = a"
    by (rule bit_word_eqI) (auto simp: u32_of_be_def bit_simps dest: bit_imp_le_length)
  moreover have "ucast (drop_bit 16 (u32_of_be a b c d)) = b"
    by (rule bit_word_eqI) (auto simp: u32_of_be_def bit_simps dest: bit_imp_le_length)
  moreover have "ucast (drop_bit 8 (u32_of_be a b c d)) = c"
    by (rule bit_word_eqI) (auto simp: u32_of_be_def bit_simps dest: bit_imp_le_length)
  moreover have "ucast (u32_of_be a b c d) = d"
    by (rule bit_word_eqI) (auto simp: u32_of_be_def bit_simps)
  ultimately show ?thesis by (simp add: put_u32_def)
qed

lemma unat_of_nat_u16 [simp]: "n < 2 ^ 16 \<Longrightarrow> unat (of_nat n :: u16) = n"
  by (simp add: unsigned_of_nat take_bit_nat_eq_self)

lemma unat_of_nat_u32 [simp]: "n < 2 ^ 32 \<Longrightarrow> unat (of_nat n :: u32) = n"
  by (simp add: unsigned_of_nat take_bit_nat_eq_self)

section \<open>Reading from a cursor\<close>

text \<open>
  \<open>Buf::get_u8\<close>, \<open>get_u16\<close> and \<open>get_u32\<close> consume from the front and panic on a short
  buffer.  Every caller tests \<open>remaining()\<close> first; the readers below are only applied
  behind that test.
\<close>

definition get_u8 :: "byte list \<Rightarrow> byte \<times> byte list" where
  "get_u8 buf = (hd buf, tl buf)"

definition get_u16 :: "byte list \<Rightarrow> u16 \<times> byte list" where
  "get_u16 buf = (u16_of_be (buf ! 0) (buf ! 1), drop 2 buf)"

definition get_u32 :: "byte list \<Rightarrow> u32 \<times> byte list" where
  "get_u32 buf = (u32_of_be (buf ! 0) (buf ! 1) (buf ! 2) (buf ! 3), drop 4 buf)"

lemma get_u8_Cons [simp, wire]: "get_u8 (x # r) = (x, r)"
  by (simp add: get_u8_def)

lemma get_u16_put [simp, wire]: "get_u16 (put_u16 w @ r) = (w, r)"
  by (simp add: get_u16_def put_u16_def u16_of_be_put)

lemma get_u16_put_end [simp, wire]: "get_u16 (put_u16 w) = (w, [])"
  using get_u16_put [of w "[]"] by simp

lemma get_u32_put [simp, wire]: "get_u32 (put_u32 w @ r) = (w, r)"
  by (simp add: get_u32_def put_u32_def u32_of_be_put numeral_2_eq_2 numeral_3_eq_3)

lemma get_u8_eq: "get_u8 b = (x, r) \<Longrightarrow> b \<noteq> [] \<Longrightarrow> b = x # r"
  by (auto simp: get_u8_def)

lemma list_2: "2 \<le> length b \<Longrightarrow> b = b ! 0 # b ! 1 # drop 2 b"
  by (cases b; cases "tl b") auto

lemma get_u16_eq:
  assumes "get_u16 b = (w, r)" and "2 \<le> length b"
  shows "b = put_u16 w @ r"
  using assms list_2 [of b] by (auto simp: get_u16_def put_u16_of_be)

lemma list_4: "4 \<le> length b \<Longrightarrow> b = b ! 0 # b ! 1 # b ! 2 # b ! 3 # drop 4 b"
  by (cases b; cases "tl b"; cases "tl (tl b)"; cases "tl (tl (tl b))")
    (auto simp: numeral_2_eq_2 numeral_3_eq_3)

lemma get_u32_eq:
  assumes "get_u32 b = (w, r)" and "4 \<le> length b"
  shows "b = put_u32 w @ r"
  using assms list_4 [of b] by (auto simp: get_u32_def put_u32_of_be)

lemma length_get_u8: "get_u8 b = (x, r) \<Longrightarrow> length r = length b - 1"
  by (auto simp: get_u8_def)

lemma length_get_u16: "get_u16 b = (x, r) \<Longrightarrow> length r = length b - 2"
  by (auto simp: get_u16_def)

lemma length_get_u32: "get_u32 b = (x, r) \<Longrightarrow> length r = length b - 4"
  by (auto simp: get_u32_def)

section \<open>Fixed-size chunks of a buffer\<close>

lemma drop_concat_chunks:
  "\<forall>x \<in> set xs. length x = n \<Longrightarrow> i \<le> length xs \<Longrightarrow> drop (i * n) (concat xs) = concat (drop i xs)"
proof (induction xs arbitrary: i)
  case Nil
  then show ?case by simp
next
  case (Cons x xs)
  then show ?case by (cases i) simp_all
qed

lemma chunk_of_concat:
  assumes "\<forall>x \<in> set xs. length x = n" and "i < length xs"
  shows "take n (drop (i * n) (concat xs)) = xs ! i"
proof -
  have "drop i xs = xs ! i # drop (Suc i) xs" using assms(2) by (simp add: Cons_nth_drop_Suc)
  then show ?thesis using assms by (simp add: drop_concat_chunks)
qed

lemma length_concat_chunks: "\<forall>x \<in> set xs. length x = n \<Longrightarrow> length (concat xs) = length xs * n"
  by (induction xs) simp_all

text \<open>Rust's \<open>chunks\<close>, for a positive size: every chunk is full except perhaps the last.\<close>

function chunks :: "nat \<Rightarrow> 'a list \<Rightarrow> 'a list list" where
  "chunks n xs = (if n = 0 \<or> xs = [] then [] else take n xs # chunks n (drop n xs))"
  by pat_completeness auto
termination
  by (relation "measure (\<lambda>(n, xs). length xs)") (simp_all add: length_greater_0_conv [symmetric] del: length_greater_0_conv)

declare chunks.simps [simp del]

lemma chunks_Nil [simp]: "chunks n [] = []"
  by (simp add: chunks.simps)

lemma chunks_Cons: "0 < n \<Longrightarrow> xs \<noteq> [] \<Longrightarrow> chunks n xs = take n xs # chunks n (drop n xs)"
  by (subst chunks.simps) simp

lemma chunks_eq_Nil: "0 < n \<Longrightarrow> chunks n xs = [] \<longleftrightarrow> xs = []"
  by (subst chunks.simps) simp

lemma concat_take_chunks: "0 < n \<Longrightarrow> concat (take k (chunks n xs)) = take (k * n) xs"
proof (induction k arbitrary: xs)
  case (Suc k)
  show ?case
  proof (cases "xs = []")
    case False
    then show ?thesis
      using Suc by (simp add: chunks_Cons take_add)
  qed simp
qed simp

lemma chunks_bound: "0 < n \<Longrightarrow> \<forall>c \<in> set (chunks n xs). c \<noteq> [] \<and> length c \<le> n"
proof (induction n xs rule: chunks.induct)
  case (1 n xs)
  show ?case
  proof (cases "xs = []")
    case False
    with 1 have "\<forall>c \<in> set (chunks n (drop n xs)). c \<noteq> [] \<and> length c \<le> n"
      by simp
    with 1(2) False show ?thesis
      by (subst chunks_Cons) simp_all
  qed simp
qed

lemma concat_chunks: "0 < n \<Longrightarrow> concat (chunks n xs) = xs"
proof (induction n xs rule: chunks.induct)
  case (1 n xs)
  show ?case
  proof (cases "xs = []")
    case False
    with 1 have "concat (chunks n (drop n xs)) = drop n xs"
      by simp
    with 1(2) False show ?thesis
      by (subst chunks_Cons) simp_all
  qed simp
qed

section \<open>Saturating arithmetic\<close>

definition sat_sub :: "'a::len word \<Rightarrow> 'a word \<Rightarrow> 'a word" where
  "sat_sub a b = (if a < b then 0 else a - b)"

lemma unat_sat_sub: "unat (sat_sub a b) = unat a - unat b"
  by (auto simp: sat_sub_def word_less_nat_alt unat_sub_if')

lemma sat_sub_le: "sat_sub a b \<le> a"
  by (simp add: word_le_nat_alt unat_sat_sub)

section \<open>The interface of a fixed-width header format\<close>

text \<open>
  \<open>put\<close> is the code's \<open>write_to\<close>, \<open>get\<close> its \<open>read_from\<close> (the value and what is left
  of the cursor), \<open>width\<close> its \<open>WIRE_SIZE\<close>, and \<open>valid\<close> the values the reader accepts.
\<close>

locale wire_codec =
  fixes put :: "'a \<Rightarrow> byte list"
    and get :: "byte list \<Rightarrow> ('a \<times> byte list) option"
    and width :: nat
    and valid :: "'a \<Rightarrow> bool"
  assumes put_length: "length (put x) = width"
    and get_put: "valid x \<Longrightarrow> get (put x @ r) = Some (x, r)"
    and put_get: "get b = Some (x, r) \<Longrightarrow> b = put x @ r \<and> valid x"
begin

lemma get_put_end: "valid x \<Longrightarrow> get (put x) = Some (x, [])"
  using get_put [of x "[]"] by simp

lemma get_short: "length b < width \<Longrightarrow> get b = None"
  using put_get [of b] put_length by (cases "get b") force+

lemma get_Some_iff: "get b = Some (x, r) \<longleftrightarrow> valid x \<and> b = put x @ r"
  using get_put put_get by auto

lemma get_rest_length: "get b = Some (x, r) \<Longrightarrow> length b = width + length r"
  using put_get put_length by fastforce

lemma put_inj: "valid x \<Longrightarrow> valid y \<Longrightarrow> put x @ r = put y @ s \<Longrightarrow> x = y \<and> r = s"
  by (metis get_put option.inject prod.inject)

end

section \<open>The interface of a stateful stage that loses nothing\<close>

text \<open>
  \<open>step\<close> handles one request and may emit outputs; \<open>held\<close> is what the stage still keeps.
  Whatever comes in leaves in the same order or is still held.
\<close>

fun stage_run :: "('s \<Rightarrow> 'op \<Rightarrow> 'o list \<times> 's) \<Rightarrow> 's \<Rightarrow> 'op list \<Rightarrow> 'o list \<times> 's" where
  "stage_run step s [] = ([], s)"
| "stage_run step s (op # ops) =
     (let (out, s') = step s op; (outs, s'') = stage_run step s' ops in (out @ outs, s''))"

lemma stage_run_append:
  "stage_run step s (a @ b) =
   (let (r1, s1) = stage_run step s a; (r2, s2) = stage_run step s1 b in (r1 @ r2, s2))"
  by (induction a arbitrary: s) (simp_all add: split_beta Let_def)

locale fifo_stage =
  fixes step :: "'s \<Rightarrow> 'op \<Rightarrow> 'o list \<times> 's"
    and held :: "'s \<Rightarrow> 'a list"
    and taken :: "'op \<Rightarrow> 'a list"
    and given :: "'o \<Rightarrow> 'a list"
  assumes step_conserves:
    "concat (map given (fst (step s op))) @ held (snd (step s op)) = held s @ taken op"
begin

lemma run_conserves:
  "concat (map given (fst (stage_run step s ops))) @ held (snd (stage_run step s ops)) =
   held s @ concat (map taken ops)"
proof (induction ops arbitrary: s)
  case Nil
  then show ?case by simp
next
  case (Cons op ops)
  obtain out s' where s': "step s op = (out, s')" by fastforce
  obtain outs s'' where s'': "stage_run step s' ops = (outs, s'')" by fastforce
  from Cons [of s'] step_conserves [of s op] s' s''
  show ?case by simp
qed

end

end
