(* ===== verification/Codec.thy ===== *)
theory Codec
  imports Prelude Complex_Main
begin

text \<open>
  The enumerations of the wire format and the quality profile:
  \<open>crates/wzp-proto/src/codec_id.rs\<close>, \<open>media_type.rs\<close> and \<open>priority_mode.rs\<close>.
  \<open>fec_ratio\<close> is an \<open>f32\<close> in the code; here it is the exact value of the decimal literal.
\<close>

section \<open>Media type and priority mode\<close>

datatype MediaType = Audio | Video | Data | Control

fun media_type_to_wire :: "MediaType \<Rightarrow> u8" where
  "media_type_to_wire Audio = 0"
| "media_type_to_wire Video = 1"
| "media_type_to_wire Data = 2"
| "media_type_to_wire Control = 3"

definition media_type_from_wire :: "u8 \<Rightarrow> MediaType option" where
  "media_type_from_wire v =
     (if v = 0 then Some Audio else if v = 1 then Some Video
      else if v = 2 then Some Data else if v = 3 then Some Control else None)"

datatype PriorityMode = AudioFirst | VideoFirst | ScreenShare | Balanced

section \<open>Codec identifiers\<close>

datatype CodecId =
    Opus24k | Opus16k | Opus6k | Codec2_3200 | Codec2_1200 | ComfortNoise
  | Opus32k | Opus48k | Opus64k | H264Baseline | Av1Main | H265Main

fun bitrate_bps :: "CodecId \<Rightarrow> nat" where
  "bitrate_bps Opus24k = 24000"
| "bitrate_bps Opus16k = 16000"
| "bitrate_bps Opus6k = 6000"
| "bitrate_bps Opus32k = 32000"
| "bitrate_bps Opus48k = 48000"
| "bitrate_bps Opus64k = 64000"
| "bitrate_bps Codec2_3200 = 3200"
| "bitrate_bps Codec2_1200 = 1200"
| "bitrate_bps ComfortNoise = 0"
| "bitrate_bps H264Baseline = 2000000"
| "bitrate_bps H265Main = 2000000"
| "bitrate_bps Av1Main = 2000000"

fun frame_duration_ms :: "CodecId \<Rightarrow> nat" where
  "frame_duration_ms Opus24k = 20"
| "frame_duration_ms Opus16k = 20"
| "frame_duration_ms Opus32k = 20"
| "frame_duration_ms Opus48k = 20"
| "frame_duration_ms Opus64k = 20"
| "frame_duration_ms Opus6k = 40"
| "frame_duration_ms Codec2_3200 = 20"
| "frame_duration_ms Codec2_1200 = 40"
| "frame_duration_ms ComfortNoise = 20"
| "frame_duration_ms H264Baseline = 33"
| "frame_duration_ms H265Main = 33"
| "frame_duration_ms Av1Main = 33"

fun sample_rate_hz :: "CodecId \<Rightarrow> nat" where
  "sample_rate_hz Codec2_3200 = 8000"
| "sample_rate_hz Codec2_1200 = 8000"
| "sample_rate_hz _ = 48000"

definition codec_from_wire :: "u8 \<Rightarrow> CodecId option" where
  "codec_from_wire v =
     (if v = 0 then Some Opus24k else if v = 1 then Some Opus16k
      else if v = 2 then Some Opus6k else if v = 3 then Some Codec2_3200
      else if v = 4 then Some Codec2_1200 else if v = 5 then Some ComfortNoise
      else if v = 6 then Some Opus32k else if v = 7 then Some Opus48k
      else if v = 8 then Some Opus64k else if v = 9 then Some H264Baseline
      else if v = 11 then Some H265Main else if v = 12 then Some Av1Main else None)"

fun codec_to_wire :: "CodecId \<Rightarrow> u8" where
  "codec_to_wire Opus24k = 0"
| "codec_to_wire Opus16k = 1"
| "codec_to_wire Opus6k = 2"
| "codec_to_wire Codec2_3200 = 3"
| "codec_to_wire Codec2_1200 = 4"
| "codec_to_wire ComfortNoise = 5"
| "codec_to_wire Opus32k = 6"
| "codec_to_wire Opus48k = 7"
| "codec_to_wire Opus64k = 8"
| "codec_to_wire H264Baseline = 9"
| "codec_to_wire Av1Main = 12"
| "codec_to_wire H265Main = 11"

definition is_video :: "CodecId \<Rightarrow> bool" where
  "is_video c \<longleftrightarrow> c \<in> {H264Baseline, H265Main, Av1Main}"

definition is_opus :: "CodecId \<Rightarrow> bool" where
  "is_opus c \<longleftrightarrow> c \<in> {Opus6k, Opus16k, Opus24k, Opus32k, Opus48k, Opus64k}"

lemma media_type_from_to [simp, wire]: "media_type_from_wire (media_type_to_wire m) = Some m"
  by (cases m) (simp_all add: media_type_from_wire_def)

lemma media_type_to_from: "media_type_from_wire v = Some m \<Longrightarrow> media_type_to_wire m = v"
  by (auto simp: media_type_from_wire_def split: if_splits)

lemma codec_from_to [simp, wire]: "codec_from_wire (codec_to_wire c) = Some c"
  by (cases c) (simp_all add: codec_from_wire_def)

lemma codec_to_from: "codec_from_wire v = Some c \<Longrightarrow> codec_to_wire c = v"
  by (auto simp: codec_from_wire_def split: if_splits)

section \<open>Quality profiles\<close>

record QualityProfile =
  codec :: CodecId
  fec_ratio :: rat
  profile_frame_ms :: nat
  frames_per_block :: nat
  priority_mode :: PriorityMode
  video_bitrate_kbps :: "nat option"
  video_resolution :: "(nat \<times> nat) option"
  video_fps :: "nat option"

definition audio_profile :: "CodecId \<Rightarrow> rat \<Rightarrow> nat \<Rightarrow> nat \<Rightarrow> QualityProfile" where
  "audio_profile c r ms n =
     \<lparr>codec = c, fec_ratio = r, profile_frame_ms = ms, frames_per_block = n,
      priority_mode = AudioFirst, video_bitrate_kbps = None, video_resolution = None,
      video_fps = None\<rparr>"

definition GOOD :: QualityProfile where "GOOD = audio_profile Opus24k (1/5) 20 5"

definition DEGRADED :: QualityProfile where "DEGRADED = audio_profile Opus6k (1/2) 40 10"

definition CATASTROPHIC :: QualityProfile where "CATASTROPHIC = audio_profile Codec2_1200 1 40 8"

definition STUDIO_32K :: QualityProfile where "STUDIO_32K = audio_profile Opus32k (1/10) 20 5"

definition STUDIO_48K :: QualityProfile where "STUDIO_48K = audio_profile Opus48k (1/10) 20 5"

definition STUDIO_64K :: QualityProfile where "STUDIO_64K = audio_profile Opus64k (1/10) 20 5"

definition total_bitrate_kbps :: "QualityProfile \<Rightarrow> rat" where
  "total_bitrate_kbps p = (of_nat (bitrate_bps (codec p)) / 1000) * (1 + fec_ratio p)"

lemmas profile_defs = GOOD_def DEGRADED_def CATASTROPHIC_def STUDIO_32K_def STUDIO_48K_def
  STUDIO_64K_def audio_profile_def

end
