(* ===== verification/Packet.thy ===== *)
theory Packet
  imports Codec
begin

text \<open>
  The media wire format of \<open>crates/wzp-proto/src/packet.rs\<close>: the 16-byte v2 header, the
  quality-report trailer, whole packets, and the mini-frame compression with its per-stream
  context.  Buffers are byte lists; a \<open>read_from\<close> takes the cursor and returns the value with
  what is left of it.
\<close>

section \<open>The v2 media header\<close>

record MediaHeader =
  version :: u8
  flags :: u8
  media_type :: MediaType
  codec_id :: CodecId
  stream_id :: u8
  fec_ratio_wire :: u8
  seq :: u32
  timestamp :: u32
  fec_block :: u16

abbreviation (input) HEADER_SIZE :: nat where "HEADER_SIZE \<equiv> 16"

abbreviation (input) HEADER_VERSION :: u8 where "HEADER_VERSION \<equiv> 2"

definition header_write_to :: "MediaHeader \<Rightarrow> byte list" where
  "header_write_to h =
     version h # flags h # media_type_to_wire (media_type h) # codec_to_wire (codec_id h) #
     stream_id h # fec_ratio_wire h # put_u32 (seq h) @ put_u32 (timestamp h) @
     put_u16 (fec_block h)"

definition header_read_from :: "byte list \<Rightarrow> (MediaHeader \<times> byte list) option" where
  "header_read_from buf =
     (if length buf < HEADER_SIZE then None
      else let (v, buf) = get_u8 buf in
        if v \<noteq> HEADER_VERSION then None
        else let (fl, buf) = get_u8 buf; (mt, buf) = get_u8 buf in
          case media_type_from_wire mt of None \<Rightarrow> None
          | Some m \<Rightarrow> let (ci, buf) = get_u8 buf in
            case codec_from_wire ci of None \<Rightarrow> None
            | Some c \<Rightarrow>
                let (st, buf) = get_u8 buf; (fr, buf) = get_u8 buf; (sq, buf) = get_u32 buf;
                    (ts, buf) = get_u32 buf; (fb, buf) = get_u16 buf in
                Some (\<lparr>version = v, flags = fl, media_type = m, codec_id = c, stream_id = st,
                        fec_ratio_wire = fr, seq = sq, timestamp = ts, fec_block = fb\<rparr>, buf))"

definition FLAG_REPAIR :: u8 where "FLAG_REPAIR = 0x80"

definition FLAG_QUALITY :: u8 where "FLAG_QUALITY = 0x40"

definition FLAG_KEYFRAME :: u8 where "FLAG_KEYFRAME = 0x20"

definition FLAG_FRAME_END :: u8 where "FLAG_FRAME_END = 0x10"

definition is_repair :: "MediaHeader \<Rightarrow> bool" where
  "is_repair h \<longleftrightarrow> flags h AND FLAG_REPAIR \<noteq> 0"

definition has_quality :: "MediaHeader \<Rightarrow> bool" where
  "has_quality h \<longleftrightarrow> flags h AND FLAG_QUALITY \<noteq> 0"

definition is_keyframe :: "MediaHeader \<Rightarrow> bool" where
  "is_keyframe h \<longleftrightarrow> flags h AND FLAG_KEYFRAME \<noteq> 0"

definition is_frame_end :: "MediaHeader \<Rightarrow> bool" where
  "is_frame_end h \<longleftrightarrow> flags h AND FLAG_FRAME_END \<noteq> 0"

lemmas flag_defs = FLAG_REPAIR_def FLAG_QUALITY_def FLAG_KEYFRAME_def FLAG_FRAME_END_def
  is_repair_def has_quality_def is_keyframe_def is_frame_end_def

definition header_valid :: "MediaHeader \<Rightarrow> bool" where
  "header_valid h \<longleftrightarrow> version h = HEADER_VERSION"

lemma length_header_write_to [simp]: "length (header_write_to h) = HEADER_SIZE"
  by (simp add: header_write_to_def)

lemma header_read_write:
  "header_valid h \<Longrightarrow> header_read_from (header_write_to h @ r) = Some (h, r)"
  by (simp add: header_read_from_def header_write_to_def header_valid_def Let_def)

lemma split_header_bytes:
  assumes "HEADER_SIZE \<le> length b"
  obtains b0 b1 b2 b3 b4 b5 s t f r where
    "b = b0 # b1 # b2 # b3 # b4 # b5 # put_u32 s @ put_u32 t @ put_u16 f @ r"
proof -
  obtain b0 b1 b2 b3 b4 b5 s0 s1 s2 s3 t0 t1 t2 t3 f0 f1 r where
    "b = b0 # b1 # b2 # b3 # b4 # b5 # [s0, s1, s2, s3] @ [t0, t1, t2, t3] @ [f0, f1] @ r"
    using assms by (auto simp: numeral_eq_Suc Suc_le_length_iff)
  then show ?thesis using that by (metis put_u32_of_be put_u16_of_be)
qed

lemma header_write_read:
  assumes "header_read_from b = Some (h, r)"
  shows "b = header_write_to h @ r \<and> header_valid h"
proof -
  have len: "HEADER_SIZE \<le> length b"
    using assms by (auto simp: header_read_from_def split: if_splits)
  obtain b0 b1 b2 b3 b4 b5 s t f r' where
    b: "b = b0 # b1 # b2 # b3 # b4 # b5 # put_u32 s @ put_u32 t @ put_u16 f @ r'"
    using split_header_bytes [OF len] by metis
  show ?thesis
    using assms media_type_to_from codec_to_from
    by (auto simp: b header_read_from_def header_write_to_def header_valid_def Let_def
        split: if_splits option.splits)
qed

interpretation header: wire_codec header_write_to header_read_from HEADER_SIZE header_valid
  by unfold_locales (simp_all add: header_read_write header_write_read)

section \<open>The quality report trailer\<close>

record QualityReport =
  loss_pct :: u8
  rtt_4ms :: u8
  jitter_ms :: u8
  bitrate_cap_kbps :: u8

abbreviation (input) QR_SIZE :: nat where "QR_SIZE \<equiv> 4"

definition qr_write_to :: "QualityReport \<Rightarrow> byte list" where
  "qr_write_to q = [loss_pct q, rtt_4ms q, jitter_ms q, bitrate_cap_kbps q]"

definition qr_read_from :: "byte list \<Rightarrow> (QualityReport \<times> byte list) option" where
  "qr_read_from buf =
     (if length buf < QR_SIZE then None
      else let (a, buf) = get_u8 buf; (b, buf) = get_u8 buf; (c, buf) = get_u8 buf;
               (d, buf) = get_u8 buf in
        Some (\<lparr>loss_pct = a, rtt_4ms = b, jitter_ms = c, bitrate_cap_kbps = d\<rparr>, buf))"

text \<open>
  \<open>loss_percent\<close> is computed in \<open>f32\<close> by the code; the model keeps the exact quotient.
\<close>

definition loss_percent :: "QualityReport \<Rightarrow> rat" where
  "loss_percent q = of_nat (unat (loss_pct q)) / 255 * 100"

definition rtt_ms :: "QualityReport \<Rightarrow> nat" where
  "rtt_ms q = unat (rtt_4ms q) * 4"

lemma length_qr_write_to [simp]: "length (qr_write_to q) = QR_SIZE"
  by (simp add: qr_write_to_def)

interpretation qr: wire_codec qr_write_to qr_read_from QR_SIZE "\<lambda>_. True"
proof
  fix b x r
  assume "qr_read_from b = Some (x, r)"
  then show "b = qr_write_to x @ r \<and> True"
    by (auto simp: qr_read_from_def qr_write_to_def Let_def numeral_eq_Suc not_less
        Suc_le_length_iff split: if_splits)
qed (simp_all add: qr_read_from_def qr_write_to_def)

section \<open>Whole packets\<close>

record MediaPacket =
  header :: MediaHeader
  payload :: "byte list"
  quality_report :: "QualityReport option"

definition packet_to_bytes :: "MediaPacket \<Rightarrow> byte list" where
  "packet_to_bytes p =
     header_write_to (header p) @ payload p @
     (case quality_report p of None \<Rightarrow> [] | Some q \<Rightarrow> qr_write_to q)"

definition packet_from_bytes :: "byte list \<Rightarrow> MediaPacket option" where
  "packet_from_bytes data =
     (case header_read_from data of None \<Rightarrow> None
      | Some (h, _) \<Rightarrow>
        let remaining = length data - HEADER_SIZE in
        if has_quality h then
          if remaining < QR_SIZE then None
          else let pl = remaining - QR_SIZE; qr_start = HEADER_SIZE + pl in
            case qr_read_from (drop qr_start data) of None \<Rightarrow> None
            | Some (q, _) \<Rightarrow>
                Some \<lparr>header = h, payload = take pl (drop HEADER_SIZE data), quality_report = Some q\<rparr>
        else Some \<lparr>header = h, payload = take remaining (drop HEADER_SIZE data),
                    quality_report = None\<rparr>)"

definition packet_wf :: "MediaPacket \<Rightarrow> bool" where
  "packet_wf p \<longleftrightarrow> header_valid (header p) \<and> (has_quality (header p) \<longleftrightarrow> quality_report p \<noteq> None)"

lemma packet_from_to [wire]: "packet_wf p \<Longrightarrow> packet_from_bytes (packet_to_bytes p) = Some p"
  by (cases "quality_report p")
    (auto simp: packet_from_bytes_def packet_to_bytes_def packet_wf_def header.get_put
      qr.get_put_end Let_def)

lemma packet_to_from:
  assumes "packet_from_bytes d = Some p"
  shows "packet_wf p \<and> d = packet_to_bytes p"
proof -
  obtain h r where hr: "header_read_from d = Some (h, r)"
    using assms by (auto simp: packet_from_bytes_def split: option.splits)
  then have d: "d = header_write_to h @ r" and v: "header_valid h"
    by (auto simp: header.get_Some_iff)
  show ?thesis
  proof (cases "has_quality h")
    case True
    with assms obtain q s where q: "qr_read_from (drop (length r - QR_SIZE) r) = Some (q, s)"
      and len: "QR_SIZE \<le> length r"
      and p: "p = \<lparr>header = h, payload = take (length r - QR_SIZE) r, quality_report = Some q\<rparr>"
      by (auto simp: packet_from_bytes_def hr header.get_put v d Let_def split: if_splits option.splits)
    have e: "drop (length r - QR_SIZE) r = qr_write_to q @ s"
      using q by (simp add: qr.get_Some_iff)
    have "s = []" using arg_cong [OF e, of length] len by simp
    then have "r = take (length r - QR_SIZE) r @ qr_write_to q"
      using append_take_drop_id [of "length r - QR_SIZE" r] e by simp
    with True v d p show ?thesis by (simp add: packet_wf_def packet_to_bytes_def)
  next
    case False
    with assms v show ?thesis
      by (auto simp: d packet_from_bytes_def header.get_put [OF v] packet_wf_def
          packet_to_bytes_def Let_def)
  qed
qed

section \<open>Mini headers and their context\<close>

abbreviation (input) FRAME_TYPE_FULL :: byte where "FRAME_TYPE_FULL \<equiv> 0"

abbreviation (input) FRAME_TYPE_MINI :: byte where "FRAME_TYPE_MINI \<equiv> 1"

definition MINI_FRAME_FULL_INTERVAL :: u32 where "MINI_FRAME_FULL_INTERVAL = 50"

record MiniHeader =
  seq_delta :: u8
  timestamp_delta_ms :: u16
  mini_payload_len :: u16

abbreviation (input) MINI_SIZE :: nat where "MINI_SIZE \<equiv> 5"

definition mini_write_to :: "MiniHeader \<Rightarrow> byte list" where
  "mini_write_to m =
     seq_delta m # put_u16 (timestamp_delta_ms m) @ put_u16 (mini_payload_len m)"

definition mini_read_from :: "byte list \<Rightarrow> (MiniHeader \<times> byte list) option" where
  "mini_read_from buf =
     (if length buf < MINI_SIZE then None
      else let (d, buf) = get_u8 buf; (t, buf) = get_u16 buf; (l, buf) = get_u16 buf in
        Some (\<lparr>seq_delta = d, timestamp_delta_ms = t, mini_payload_len = l\<rparr>, buf))"

lemma length_mini_write_to [simp]: "length (mini_write_to m) = MINI_SIZE"
  by (simp add: mini_write_to_def)

lemma split_mini_bytes:
  assumes "MINI_SIZE \<le> length b"
  obtains b0 t l r where "b = b0 # put_u16 t @ put_u16 l @ r"
proof -
  obtain b0 t0 t1 l0 l1 r where "b = b0 # [t0, t1] @ [l0, l1] @ r"
    using assms by (auto simp: numeral_eq_Suc Suc_le_length_iff)
  then show ?thesis using that by (metis put_u16_of_be)
qed

interpretation mini: wire_codec mini_write_to mini_read_from MINI_SIZE "\<lambda>_. True"
proof
  fix b x r
  assume a: "mini_read_from b = Some (x, r)"
  then have "MINI_SIZE \<le> length b" by (auto simp: mini_read_from_def split: if_splits)
  then obtain b0 t l r' where b: "b = b0 # put_u16 t @ put_u16 l @ r'"
    by (rule split_mini_bytes)
  from a show "b = mini_write_to x @ r \<and> True"
    by (auto simp: b mini_read_from_def mini_write_to_def Let_def)
qed (simp_all add: mini_read_from_def mini_write_to_def)

text \<open>\<open>MiniFrameContextV2\<close> is its only field \<open>last\<close>.\<close>

type_synonym MiniFrameContext = "MediaHeader option"

definition ctx_update :: "MiniFrameContext \<Rightarrow> MediaHeader \<Rightarrow> MiniFrameContext" where
  "ctx_update ctx h = Some h"

definition ctx_expand :: "MiniFrameContext \<Rightarrow> MiniHeader \<Rightarrow> MediaHeader option \<times> MiniFrameContext" where
  "ctx_expand ctx m =
     (case ctx of None \<Rightarrow> (None, ctx)
      | Some base \<Rightarrow>
          let e = base\<lparr>seq := seq base + ucast (seq_delta m),
                       timestamp := timestamp base + ucast (timestamp_delta_ms m)\<rparr> in
          (Some e, Some e))"

definition encode_compact ::
    "MediaPacket \<Rightarrow> MiniFrameContext \<Rightarrow> u32 \<Rightarrow> byte list \<times> MiniFrameContext \<times> u32" where
  "encode_compact p ctx frames_since_full =
     (let full = FRAME_TYPE_FULL # header_write_to (header p) @ payload p @
                 (case quality_report p of None \<Rightarrow> [] | Some q \<Rightarrow> qr_write_to q) in
      if 0 < frames_since_full \<and> frames_since_full < MINI_FRAME_FULL_INTERVAL then
        case ctx of
          Some base \<Rightarrow>
            let ts_delta = ucast (timestamp (header p) - timestamp base);
                m = \<lparr>seq_delta = 1, timestamp_delta_ms = ts_delta,
                     mini_payload_len = of_nat (length (payload p))\<rparr> in
            (FRAME_TYPE_MINI # mini_write_to m @ payload p,
             ctx_update ctx (header p), frames_since_full + 1)
        | None \<Rightarrow> (full, ctx_update ctx (header p), 1)
      else (full, ctx_update ctx (header p), 1))"

definition decode_compact ::
    "byte list \<Rightarrow> MiniFrameContext \<Rightarrow> MediaPacket option \<times> MiniFrameContext" where
  "decode_compact buf ctx =
     (case buf of [] \<Rightarrow> (None, ctx)
      | frame_type # rest \<Rightarrow>
        if frame_type = FRAME_TYPE_FULL then
          case packet_from_bytes rest of None \<Rightarrow> (None, ctx)
          | Some pkt \<Rightarrow> (Some pkt, ctx_update ctx (header pkt))
        else if frame_type = FRAME_TYPE_MINI then
          if length rest < MINI_SIZE then (None, ctx)
          else case mini_read_from rest of None \<Rightarrow> (None, ctx)
          | Some (m, _) \<Rightarrow>
            let payload_start = 1 + MINI_SIZE;
                payload_end = payload_start + unat (mini_payload_len m) in
            if length buf < payload_end then (None, ctx)
            else let pl = take (payload_end - payload_start) (drop payload_start buf) in
              case ctx_expand ctx m of
                (None, ctx') \<Rightarrow> (None, ctx')
              | (Some h, ctx') \<Rightarrow>
                  (Some \<lparr>header = h, payload = pl, quality_report = None\<rparr>, ctx')
        else (None, ctx))"

section \<open>Compression correctness\<close>

text \<open>The sender emits a mini frame exactly in these states.\<close>

definition sends_mini :: "MiniFrameContext \<Rightarrow> u32 \<Rightarrow> bool" where
  "sends_mini ctx n \<longleftrightarrow> 0 < n \<and> n < MINI_FRAME_FULL_INTERVAL \<and> ctx \<noteq> None"

lemma encode_full:
  "\<not> sends_mini ctx n \<Longrightarrow>
   encode_compact p ctx n = (FRAME_TYPE_FULL # packet_to_bytes p, Some (header p), 1)"
  by (auto simp: encode_compact_def sends_mini_def packet_to_bytes_def ctx_update_def Let_def
      split: option.splits)

lemma encode_mini:
  "sends_mini (Some base) n \<Longrightarrow>
   encode_compact p (Some base) n =
     (FRAME_TYPE_MINI #
      mini_write_to \<lparr>seq_delta = 1,
        timestamp_delta_ms = ucast (timestamp (header p) - timestamp base),
        mini_payload_len = of_nat (length (payload p))\<rparr> @ payload p,
      Some (header p), n + 1)"
  by (auto simp: encode_compact_def sends_mini_def ctx_update_def Let_def)

lemma decode_full:
  "packet_wf p \<Longrightarrow>
   decode_compact (FRAME_TYPE_FULL # packet_to_bytes p) ctx = (Some p, Some (header p))"
  by (simp add: decode_compact_def packet_from_to ctx_update_def)

lemma decode_mini:
  assumes "length pl < 2 ^ 16"
  shows "decode_compact (FRAME_TYPE_MINI # mini_write_to \<lparr>seq_delta = d, timestamp_delta_ms = t,
           mini_payload_len = of_nat (length pl)\<rparr> @ pl) (Some base)
    = (let h = base\<lparr>seq := seq base + ucast d, timestamp := timestamp base + ucast t\<rparr> in
       (Some \<lparr>header = h, payload = pl, quality_report = None\<rparr>, Some h))"
  using assms
  by (simp add: decode_compact_def mini.get_put ctx_expand_def Let_def unat_of_nat)

text \<open>
  What a header may change from one packet to the next for a mini frame to describe it: the
  sequence number by one, the timestamp by less than \<open>2 ^ 16\<close>, nothing else.
\<close>

definition mini_compatible :: "MediaHeader \<Rightarrow> MediaHeader \<Rightarrow> bool" where
  "mini_compatible base h \<longleftrightarrow>
     h = base\<lparr>seq := seq base + 1, timestamp := timestamp h\<rparr> \<and>
     unat (timestamp h - timestamp base) < 2 ^ 16"

lemma ucast_u16_delta:
  fixes a b :: u32
  assumes "unat (a - b) < 2 ^ 16"
  shows "b + ucast (ucast (a - b) :: u16) = a"
proof -
  have "(ucast (ucast (a - b) :: u16) :: u32) = a - b"
    using assms by (simp add: word_unat_eq_iff unsigned_ucast_eq unsigned_take_bit_eq
        take_bit_nat_eq_self)
  then show ?thesis by simp
qed

fun encode_stream :: "MediaPacket list \<Rightarrow> MiniFrameContext \<Rightarrow> u32 \<Rightarrow> byte list list" where
  "encode_stream [] ctx n = []"
| "encode_stream (p # ps) ctx n =
     (let (b, ctx', n') = encode_compact p ctx n in b # encode_stream ps ctx' n')"

fun decode_stream :: "byte list list \<Rightarrow> MiniFrameContext \<Rightarrow> MediaPacket option list" where
  "decode_stream [] ctx = []"
| "decode_stream (b # bs) ctx =
     (let (r, ctx') = decode_compact b ctx in r # decode_stream bs ctx')"

fun mini_stream_ok :: "MediaPacket list \<Rightarrow> MiniFrameContext \<Rightarrow> u32 \<Rightarrow> bool" where
  "mini_stream_ok [] ctx n = True"
| "mini_stream_ok (p # ps) ctx n =
     ((if sends_mini ctx n
       then mini_compatible (the ctx) (header p) \<and> quality_report p = None \<and>
            length (payload p) < 2 ^ 16
       else packet_wf p) \<and>
      mini_stream_ok ps (Some (header p)) (if sends_mini ctx n then n + 1 else 1))"

text \<open>
  C38 (mini-frame compression is lossless on steady streams).  A sender that compresses a stream
  with \<open>encode_compact\<close>, starting without context, and a receiver that feeds the datagrams in
  order to \<open>decode_compact\<close> agree on every packet, as long as each packet the sender turns
  into a mini frame differs from its predecessor only in a sequence number one higher and a
  timestamp less than 65.536 s later, carries no quality report and is shorter than 64 KiB.
\<close>

theorem compact_stream_roundtrip:
  assumes "mini_stream_ok ps ctx n"
  shows "decode_stream (encode_stream ps ctx n) ctx = map Some ps"
  using assms
proof (induction ps arbitrary: ctx n)
  case Nil
  then show ?case by simp
next
  case (Cons p ps)
  show ?case
  proof (cases "sends_mini ctx n")
    case False
    with Cons show ?thesis by (simp add: encode_full decode_full)
  next
    case True
    then obtain base where c: "ctx = Some base" by (auto simp: sends_mini_def)
    with Cons.prems True have h: "header p = base\<lparr>seq := seq base + 1, timestamp := timestamp (header p)\<rparr>"
      and ts: "timestamp base + ucast (ucast (timestamp (header p) - timestamp base) :: u16) = timestamp (header p)"
      and q: "quality_report p = None" and l: "length (payload p) < 2 ^ 16"
      and ok: "mini_stream_ok ps (Some (header p)) (n + 1)"
      by (auto simp: mini_compatible_def ucast_u16_delta)
    have "\<lparr>header = header p, payload = payload p, quality_report = None\<rparr> = p"
      using q by simp
    then show ?thesis
      using Cons.IH [OF ok] True h
      by (simp add: c encode_mini decode_mini [OF l] ts Let_def)
  qed
qed

definition steady_packet :: "u32 \<Rightarrow> MediaPacket" where
  "steady_packet n =
     \<lparr>header = \<lparr>version = 2, flags = 0, media_type = Audio, codec_id = Opus24k, stream_id = 0,
        fec_ratio_wire = 20, seq = n, timestamp = 20 * n, fec_block = 0\<rparr>,
      payload = [1, 2, 3], quality_report = None\<rparr>"

theorem compact_stream_roundtrip_witness:
  "decode_stream (encode_stream [steady_packet 7, steady_packet 8, steady_packet 9] None 0) None
   = [Some (steady_packet 7), Some (steady_packet 8), Some (steady_packet 9)]"
proof -
  have "mini_stream_ok [steady_packet 7, steady_packet 8, steady_packet 9] None 0"
    by (simp add: steady_packet_def sends_mini_def packet_wf_def header_valid_def has_quality_def
        FLAG_QUALITY_def MINI_FRAME_FULL_INTERVAL_def mini_compatible_def)
  then show ?thesis using compact_stream_roundtrip by fastforce
qed

text \<open>
  Also (what a mini frame transmits).  Whatever packet the sender compresses, the receiver that
  shares its context decodes the sender's previous header with the sequence number advanced by
  exactly one and the timestamp by the low 16 bits of the difference: the flags, media type,
  codec, stream, FEC fields and quality report of the packet itself never arrive, and neither
  does a gap in its sequence numbers.
\<close>

theorem mini_frame_transmits:
  assumes "sends_mini (Some base) n" and "length (payload p) < 2 ^ 16"
  shows "fst (decode_compact (fst (encode_compact p (Some base) n)) (Some base)) =
    Some \<lparr>header = base\<lparr>seq := seq base + 1,
                        timestamp := timestamp base +
                          ucast (ucast (timestamp (header p) - timestamp base) :: u16)\<rparr>,
          payload = payload p, quality_report = None\<rparr>"
  using assms by (simp add: encode_mini decode_mini Let_def)

theorem mini_frame_transmits_witness:
  "fst (decode_compact (fst (encode_compact (steady_packet 10)
      (Some (header (steady_packet 7))) 1)) (Some (header (steady_packet 7)))) \<noteq> Some (steady_packet 10)"
proof -
  have "sends_mini (Some (header (steady_packet 7))) 1"
    by (simp add: sends_mini_def MINI_FRAME_FULL_INTERVAL_def)
  from mini_frame_transmits [OF this, of "steady_packet 10"] show ?thesis
    by (simp add: steady_packet_def)
qed

text \<open>
  Also (full headers recur).  The counter of frames since the last full header never exceeds the
  interval of 50, so at most 49 consecutive mini frames are sent.
\<close>

theorem frames_since_full_bounded:
  "n \<le> MINI_FRAME_FULL_INTERVAL \<Longrightarrow>
   snd (snd (encode_compact p ctx n)) \<le> MINI_FRAME_FULL_INTERVAL \<and>
   (hd (fst (encode_compact p ctx n)) = FRAME_TYPE_MINI \<longrightarrow>
      snd (snd (encode_compact p ctx n)) = n + 1 \<and> 0 < n)"
  by (cases "sends_mini ctx n"; cases ctx)
    (auto simp: encode_full encode_mini sends_mini_def MINI_FRAME_FULL_INTERVAL_def
      word_le_nat_alt word_less_nat_alt unat_word_ariths)

theorem frames_since_full_bounded_witness:
  "snd (snd (encode_compact (steady_packet 8) (Some (header (steady_packet 7))) 49)) \<le> 50"
  using frames_since_full_bounded [of 49 "steady_packet 8" "Some (header (steady_packet 7))"]
  by (simp add: MINI_FRAME_FULL_INTERVAL_def)

text \<open>
  Also (the media packet codec is exact).  \<open>from_bytes\<close> accepts a datagram precisely when it is
  the serialisation of a well-formed packet, and then returns that packet: version 2, and a
  quality report present exactly when the Q flag is set.
\<close>

theorem packet_codec_exact:
  "packet_from_bytes d = Some p \<longleftrightarrow> packet_wf p \<and> d = packet_to_bytes p"
  using packet_from_to packet_to_from by metis

text \<open>
  Also (the media header codec is exact).  \<open>read_from\<close> succeeds precisely on 16 bytes written by
  \<open>write_to\<close> for a version-2 header, consumes exactly them and leaves the rest of the cursor.
\<close>

theorem header_codec_exact:
  "header_read_from b = Some (h, r) \<longleftrightarrow> header_valid h \<and> b = header_write_to h @ r"
  by (rule header.get_Some_iff)

end
