(* ===== verification/Session.thy ===== *)
theory Session
  imports Prelude "HOL-Library.Sublist"
begin

text \<open>
  The call state machine of \<open>crates/wzp-proto/src/session.rs\<close>.  \<open>transition\<close> is the code's
  \<open>match (state, event)\<close>; an invalid pair is a \<open>TransitionError\<close> and leaves the session as
  it was.  Runs are sequences of \<open>transition\<close> calls of which some may be rejected.
\<close>

datatype SessionState = Idle | Connecting | Handshaking | Active | Rekeying | Closed

datatype TerminateReason = LocalHangup | RemoteHangup | TimedOut | Failed

datatype SessionEvent =
    Initiate | Connected | HandshakeComplete | RekeyStart | RekeyComplete
  | Terminate TerminateReason | ConnectionLost

record Session =
  state :: SessionState
  session_id :: "byte list"
  last_transition_ms :: u64
  rekey_count :: u32

datatype TransitionError = InvalidTransition SessionState SessionEvent

definition session_new :: "byte list \<Rightarrow> Session" where
  "session_new sid = \<lparr>state = Idle, session_id = sid, last_transition_ms = 0, rekey_count = 0\<rparr>"

text \<open>The target of a transition; \<open>rekey_count\<close> is a \<open>u32\<close> that wraps in a release build.\<close>

fun next_state :: "SessionState \<Rightarrow> SessionEvent \<Rightarrow> SessionState option" where
  "next_state Idle Initiate = Some Connecting"
| "next_state Connecting Connected = Some Handshaking"
| "next_state Connecting (Terminate r) = Some Closed"
| "next_state Connecting ConnectionLost = Some Closed"
| "next_state Handshaking HandshakeComplete = Some Active"
| "next_state Handshaking (Terminate r) = Some Closed"
| "next_state Handshaking ConnectionLost = Some Closed"
| "next_state Active RekeyStart = Some Rekeying"
| "next_state Active (Terminate r) = Some Closed"
| "next_state Active ConnectionLost = Some Closed"
| "next_state Rekeying RekeyComplete = Some Active"
| "next_state Rekeying (Terminate r) = Some Closed"
| "next_state Rekeying ConnectionLost = Some Closed"
| "next_state _ _ = None"

definition transition ::
    "Session \<Rightarrow> SessionEvent \<Rightarrow> u64 \<Rightarrow> (TransitionError + SessionState) \<times> Session" where
  "transition s ev now_ms =
     (case next_state (state s) ev of
        None \<Rightarrow> (Inl (InvalidTransition (state s) ev), s)
      | Some st \<Rightarrow>
          let s' = (if state s = Rekeying \<and> ev = RekeyComplete
                    then s\<lparr>rekey_count := rekey_count s + 1\<rparr> else s) in
          (Inr st, s'\<lparr>state := st, last_transition_ms := now_ms\<rparr>))"

definition is_media_active :: "Session \<Rightarrow> bool" where
  "is_media_active s \<longleftrightarrow> state s = Active \<or> state s = Rekeying"

definition time_in_state_ms :: "Session \<Rightarrow> u64 \<Rightarrow> u64" where
  "time_in_state_ms s now_ms = sat_sub now_ms (last_transition_ms s)"

section \<open>Runs\<close>

text \<open>A run offers events with their times; \<open>accepted\<close> collects the ones that took effect.\<close>

fun session_run :: "Session \<Rightarrow> (SessionEvent \<times> u64) list \<Rightarrow> SessionEvent list \<times> Session" where
  "session_run s [] = ([], s)"
| "session_run s ((ev, t) # evs) =
     (let (r, s') = transition s ev t; (acc, s'') = session_run s' evs in
      ((case r of Inl _ \<Rightarrow> acc | Inr _ \<Rightarrow> ev # acc), s''))"

text \<open>The protocol order the states stand for.\<close>

inductive path :: "SessionState \<Rightarrow> SessionEvent list \<Rightarrow> SessionState \<Rightarrow> bool" where
  path_nil: "path st [] st"
| path_cons: "next_state st ev = Some st' \<Longrightarrow> path st' evs st'' \<Longrightarrow> path st (ev # evs) st''"

inductive_cases path_ConsE: "path st (ev # evs) st''"

inductive_simps path_Nil: "path st [] st'"

lemma transition_error_unchanged [step_simps]:
  "fst (transition s ev t) = Inl e \<Longrightarrow> snd (transition s ev t) = s"
  by (auto simp: transition_def Let_def split: option.splits)

lemma transition_state:
  "fst (transition s ev t) = Inr st \<longleftrightarrow> next_state (state s) ev = Some st"
  by (auto simp: transition_def Let_def split: option.splits)

lemma transition_ok_state [step_simps]:
  "next_state (state s) ev = Some st \<Longrightarrow> state (snd (transition s ev t)) = st"
  by (simp add: transition_def Let_def)

lemma run_path:
  "session_run s evs = (acc, s') \<Longrightarrow> path (state s) acc (state s')"
proof (induction evs arbitrary: s acc s')
  case Nil
  then show ?case by (simp add: path_Nil)
next
  case (Cons e evs)
  obtain ev t where e: "e = (ev, t)" by (cases e)
  obtain acc1 where run: "session_run (snd (transition s ev t)) evs = (acc1, s')"
    and acc: "acc = (case fst (transition s ev t) of Inl _ \<Rightarrow> acc1 | Inr _ \<Rightarrow> ev # acc1)"
    using Cons.prems by (auto simp: e split: prod.splits)
  note IH = Cons.IH [OF run]
  show ?case
  proof (cases "fst (transition s ev t)")
    case (Inl x)
    with IH acc show ?thesis by (simp add: transition_error_unchanged)
  next
    case (Inr st)
    then have "next_state (state s) ev = Some st" by (simp add: transition_state)
    with IH acc Inr show ?thesis by (auto simp: transition_ok_state intro: path_cons)
  qed
qed

lemma path_snoc:
  "path st evs st1 \<Longrightarrow> next_state st1 ev = Some st2 \<Longrightarrow> path st (evs @ [ev]) st2"
  by (induction rule: path.induct) (auto intro: path.intros)

text \<open>What must have been accepted to be in a state.\<close>

fun required :: "SessionState \<Rightarrow> SessionEvent list" where
  "required Connecting = [Initiate]"
| "required Handshaking = [Initiate, Connected]"
| "required Active = [Initiate, Connected, HandshakeComplete]"
| "required Rekeying = [Initiate, Connected, HandshakeComplete, RekeyStart]"
| "required _ = []"

lemma next_required:
  assumes "next_state st ev = Some st'" "subseq (required st) pre"
  shows "subseq (required st') (pre @ [ev])"
proof -
  have "subseq (required st @ [ev]) (pre @ [ev])" using assms(2) by simp
  moreover have "subseq (required st') (required st @ [ev])"
    using assms(1) by (cases st; cases ev) (auto simp: subseq_Cons2_iff)
  ultimately show ?thesis using subseq_order.trans by blast
qed

lemma path_required:
  "path st evs st' \<Longrightarrow> subseq (required st) pre \<Longrightarrow> subseq (required st') (pre @ evs)"
proof (induction arbitrary: pre rule: path.induct)
  case (path_nil st)
  then show ?case by simp
next
  case (path_cons st ev st' evs st'')
  from path_cons.IH [OF next_required [OF path_cons.hyps(1) path_cons.prems]]
  show ?case by simp
qed

text \<open>
  C7 (media only after the handshake).  However the events arrive, if media may flow at the end
  of a run that started from a new session, then the accepted events contain, in this order,
  the initiation, the transport connection and the completed cryptographic handshake.
\<close>

theorem media_requires_handshake:
  assumes "session_run (session_new sid) evs = (acc, s)" and "is_media_active s"
  shows "subseq [Initiate, Connected, HandshakeComplete] acc"
proof -
  have "path Idle acc (state s)"
    using run_path [OF assms(1)] by (simp add: session_new_def)
  then have r: "subseq (required (state s)) acc"
    using path_required [of Idle acc "state s" "[]"] by simp
  show ?thesis
    using assms(2) r subseq_order.trans [of "[Initiate, Connected, HandshakeComplete]"
        "[Initiate, Connected, HandshakeComplete, RekeyStart]" acc]
    by (auto simp: is_media_active_def)
qed

theorem media_requires_handshake_witness:
  "subseq [Initiate, Connected, HandshakeComplete]
     (fst (session_run (session_new []) [(HandshakeComplete, 1), (Initiate, 2), (Connected, 3),
        (Initiate, 4), (HandshakeComplete, 5), (RekeyStart, 6)]))"
  by (rule media_requires_handshake [where evs = "[(HandshakeComplete, 1), (Initiate, 2),
        (Connected, 3), (Initiate, 4), (HandshakeComplete, 5), (RekeyStart, 6)]"
        and s = "\<lparr>state = Rekeying, session_id = [], last_transition_ms = 6, rekey_count = 0\<rparr>"
        and sid = "[]"])
    (simp_all add: session_new_def transition_def is_media_active_def)

lemma closed_absorbing: "state s = Closed \<Longrightarrow> session_run s evs = ([], s)"
  by (induction evs) (auto simp: transition_def)

lemma rekey_counted:
  "session_run s evs = (acc, s') \<Longrightarrow>
   rekey_count s' = rekey_count s + of_nat (count_list acc RekeyComplete)"
proof (induction evs arbitrary: s acc s')
  case Nil
  then show ?case by simp
next
  case (Cons e evs)
  obtain ev t where e: "e = (ev, t)" by (cases e)
  obtain acc1 where run: "session_run (snd (transition s ev t)) evs = (acc1, s')"
    and acc: "acc = (case fst (transition s ev t) of Inl _ \<Rightarrow> acc1 | Inr _ \<Rightarrow> ev # acc1)"
    using Cons.prems by (auto simp: e split: prod.splits)
  have "rekey_count (snd (transition s ev t)) + of_nat (count_list acc1 RekeyComplete) =
      rekey_count s + of_nat (count_list acc RekeyComplete)"
    by (cases "state s"; cases ev) (simp_all add: acc transition_def)
  with Cons.IH [OF run] show ?case by simp
qed

text \<open>
  Also (closed is final, rekeys are counted).  The rekey counter of a session is the number of
  accepted rekey completions (modulo \<open>2 ^ 32\<close>), and once a session is closed no event is
  accepted any more and nothing about it changes.
\<close>

theorem session_counts_and_closes:
  assumes "session_run (session_new sid) evs = (acc, s)"
  shows "rekey_count s = of_nat (count_list acc RekeyComplete) \<and>
    (state s = Closed \<longrightarrow> (\<forall>evs'. session_run s evs' = ([], s)))"
  using rekey_counted [OF assms] closed_absorbing by (simp add: session_new_def)

theorem session_counts_and_closes_witness:
  "rekey_count (snd (session_run (session_new []) [(Initiate, 1), (Connected, 2),
     (HandshakeComplete, 3), (RekeyStart, 4), (RekeyComplete, 5), (ConnectionLost, 6)])) = 1"
  using session_counts_and_closes [of "[]" "[(Initiate, 1), (Connected, 2),
     (HandshakeComplete, 3), (RekeyStart, 4), (RekeyComplete, 5), (ConnectionLost, 6)]"]
  by (simp add: session_new_def transition_def)

end
