(* ===== verification/Errors.thy ===== *)
theory Errors
  imports Prelude
begin

text \<open>
  The error enumerations of \<open>crates/wzp-proto/src/error.rs\<close> that the modelled operations
  return.  A fallible operation has a result \<open>error + 'a\<close> with \<open>Inl\<close> for the error.
\<close>

datatype FecError =
    BlockFull nat
  | InsufficientSymbols nat nat
  | InvalidBlock u8
  | FecInternal string

datatype CryptoError =
    DecryptionFailed
  | InvalidPublicKey
  | RekeyFailed string
  | ReplayDetected u32
  | CryptoInternal string

text \<open>A step of a fallible operation either fails or succeeds.\<close>

lemma sum_fail_cases: "(r = Inr ()) \<or> (\<exists>e. r = Inl e)"
  by (cases r) auto

lemma fst_snd_eq: "fst p = a \<Longrightarrow> snd p = b \<Longrightarrow> p = (a, b)"
  by (cases p) simp

end
