(* ===== verification/AntiReplay.thy ===== *)
theory AntiReplay
  imports Errors
begin

text \<open>
  The sliding-window replay filter of \<open>crates/wzp-crypto/src/anti_replay.rs\<close>: a bitmap of
  64-bit words in which bit \<open>k\<close> (word \<open>k div 64\<close>, bit \<open>k mod 64\<close>) says whether
  \<open>highest - k\<close> was accepted.  The word-shifting loop is modelled as the in-place loop it is.
  The specification is a filter over unbounded sequence numbers; the refinement theorem says
  that the bitmap computes exactly its answers.
\<close>

section \<open>The bitmap\<close>

record AntiReplayWindow =
  window_size :: u32
  highest :: u32
  bitmap :: "u64 list"
  initialized :: bool

definition with_window :: "nat \<Rightarrow> AntiReplayWindow" where
  "with_window n =
     \<lparr>window_size = of_nat n, highest = 0, bitmap = replicate ((n + 63) div 64) 0,
      initialized = False\<rparr>"

definition set_bit_at :: "nat \<Rightarrow> u64 list \<Rightarrow> u64 list" where
  "set_bit_at k bm =
     (let word = k div 64; b = k mod 64 in
      if word < length bm then bm[word := bm ! word OR push_bit b 1] else bm)"

definition get_bit_at :: "u64 list \<Rightarrow> nat \<Rightarrow> bool" where
  "get_bit_at bm k =
     (let word = k div 64; b = k mod 64 in
      if word < length bm then drop_bit b (bm ! word) AND 1 = 1 else False)"

definition shifted_word :: "u64 list \<Rightarrow> nat \<Rightarrow> nat \<Rightarrow> nat \<Rightarrow> u64" where
  "shifted_word bm word_shift bit_shift i =
     (if word_shift \<le> i then
        let v = push_bit bit_shift (bm ! (i - word_shift)) in
        if 0 < bit_shift \<and> word_shift < i
        then v OR drop_bit (64 - bit_shift) (bm ! (i - word_shift - 1)) else v
      else 0)"

text \<open>\<open>for i in (0..len).rev()\<close>: the highest index first, overwriting in place.\<close>

fun shift_loop :: "u64 list \<Rightarrow> nat \<Rightarrow> nat \<Rightarrow> nat \<Rightarrow> u64 list" where
  "shift_loop bm ws bs 0 = bm"
| "shift_loop bm ws bs (Suc i) = shift_loop (bm[i := shifted_word bm ws bs i]) ws bs i"

definition advance_window :: "nat \<Rightarrow> AntiReplayWindow \<Rightarrow> AntiReplayWindow" where
  "advance_window shift w =
     (if unat (window_size w) \<le> shift then w\<lparr>bitmap := map (\<lambda>_. 0) (bitmap w)\<rparr>
      else
        let word_shift = shift div 64; bit_shift = shift mod 64; len = length (bitmap w);
            moved = shift_loop (bitmap w) word_shift bit_shift len;
            cleared = replicate (min word_shift len) 0 @ drop (min word_shift len) moved;
            masked = (if word_shift < len \<and> 0 < bit_shift
                      then cleared[word_shift := cleared ! word_shift AND
                                     NOT (push_bit bit_shift 1 - 1)]
                      else cleared)
        in w\<lparr>bitmap := masked\<rparr>)"

definition check_and_update :: "AntiReplayWindow \<Rightarrow> u32 \<Rightarrow> (CryptoError + unit) \<times> AntiReplayWindow" where
  "check_and_update w sq =
     (if \<not> initialized w then
        (Inr (), w\<lparr>initialized := True, highest := sq, bitmap := set_bit_at 0 (bitmap w)\<rparr>)
      else
        let diff = sq - highest w in
        if diff = 0 then (Inl (ReplayDetected sq), w)
        else if diff < 0x80000000 then
          let w' = advance_window (unat diff) w in
          (Inr (), w'\<lparr>highest := sq, bitmap := set_bit_at 0 (bitmap w')\<rparr>)
        else
          let behind = unat (highest w - sq) in
          if unat (window_size w) \<le> behind then (Inl (ReplayDetected sq), w)
          else if get_bit_at (bitmap w) behind then (Inl (ReplayDetected sq), w)
          else (Inr (), w\<lparr>bitmap := set_bit_at behind (bitmap w)\<rparr>))"

section \<open>What the loops compute\<close>

definition bit_at :: "u64 list \<Rightarrow> nat \<Rightarrow> bool" where
  "bit_at bm k \<longleftrightarrow> k div 64 < length bm \<and> bit (bm ! (k div 64)) (k mod 64)"

lemma get_bit_at_eq: "get_bit_at bm k = bit_at bm k"
proof -
  have "(drop_bit n x AND 1 = (1 :: u64)) = bit x n" for n x
    by (auto simp: and_one_eq odd_iff_mod_2_eq_one [symmetric] bit_iff_odd_drop_bit)
  then show ?thesis by (simp add: get_bit_at_def bit_at_def Let_def conj_commute)
qed

lemma length_set_bit_at [simp]: "length (set_bit_at k bm) = length bm"
  by (simp add: set_bit_at_def Let_def)

lemma bit_set_bit_at:
  assumes "k div 64 < length bm"
  shows "bit_at (set_bit_at k bm) j \<longleftrightarrow> j = k \<or> bit_at bm j"
proof -
  have "j = k \<longleftrightarrow> j div 64 = k div 64 \<and> j mod 64 = k mod 64"
    by (metis div_mult_mod_eq)
  then show ?thesis
    using assms by (auto simp: set_bit_at_def bit_at_def Let_def nth_list_update bit_simps)
qed

lemma length_shift_loop [simp]: "length (shift_loop bm ws bs n) = length bm"
  by (induction n arbitrary: bm) auto

lemma shift_loop_nth:
  "n \<le> length bm \<Longrightarrow> i < length bm \<Longrightarrow>
   shift_loop bm ws bs n ! i = (if i < n then shifted_word bm ws bs i else bm ! i)"
proof (induction n arbitrary: bm)
  case 0
  then show ?case by simp
next
  case (Suc n)
  have "shifted_word (bm[n := x]) ws bs i = shifted_word bm ws bs i" if "i < n" for x
    using that by (simp add: shifted_word_def Let_def)
  with Suc show ?case by (auto simp: less_Suc_eq)
qed

lemma bit_shifted_word:
  assumes "bs < 64" and "j < 64"
  shows "bit (shifted_word bm ws bs i) j \<longleftrightarrow>
    (if bs \<le> j then ws \<le> i \<and> bit (bm ! (i - ws)) (j - bs)
     else ws < i \<and> bit (bm ! (i - ws - 1)) (64 + j - bs))"
  using assms
  by (auto simp: shifted_word_def Let_def bit_simps add.commute dest: bit_imp_le_length)

lemma bit_low_mask: "n < 64 \<Longrightarrow> bit (2 ^ n - 1 :: u64) j \<longleftrightarrow> j < n"
  by (auto simp: mask_eq_exp_minus_1 [symmetric] bit_simps)

lemma length_advance_window [simp]: "length (bitmap (advance_window s w)) = length (bitmap w)"
  by (simp add: advance_window_def Let_def)

lemma advance_window_fields [simp]:
  "window_size (advance_window s w) = window_size w"
  "highest (advance_window s w) = highest w"
  "initialized (advance_window s w) = initialized w"
  by (simp_all add: advance_window_def Let_def)

lemma div_mod_64: "(n :: nat) = 64 * q + r \<Longrightarrow> r < 64 \<Longrightarrow> n div 64 = q \<and> n mod 64 = r"
  by simp

lemma bit_advance_window:
  assumes "s < unat (window_size w)"
  shows "bit_at (bitmap (advance_window s w)) k \<longleftrightarrow>
    s \<le> k \<and> k div 64 < length (bitmap w) \<and> bit_at (bitmap w) (k - s)"
proof -
  define bm ws bs i j where d: "bm = bitmap w" "ws = s div 64" "bs = s mod 64" "i = k div 64"
    "j = k mod 64"
  have s: "s = 64 * ws + bs" and k: "k = 64 * i + j" and lt: "bs < 64" "j < 64"
    by (simp_all add: d)
  show ?thesis
  proof (cases "i < length bm")
    case False
    then show ?thesis by (simp add: bit_at_def d)
  next
    case True
    have "bit_at (bitmap (advance_window s w)) k \<longleftrightarrow> bit (shifted_word bm ws bs i) j \<and> \<not> k < s"
      using assms True lt
      by (auto simp: advance_window_def bit_at_def Let_def d [symmetric] nth_append
          shift_loop_nth nth_list_update bit_low_mask bit_simps bit_shifted_word min_def s k)
    also have "\<dots> \<longleftrightarrow> s \<le> k \<and> bit_at bm (k - s)"
    proof (cases "bs \<le> j")
      case c: True
      then have "s \<le> k \<longleftrightarrow> ws \<le> i" using lt by (auto simp: s k)
      moreover have "(k - s) div 64 = i - ws \<and> (k - s) mod 64 = j - bs" if "ws \<le> i"
        by (rule div_mod_64) (use that c lt in \<open>simp_all add: s k diff_mult_distrib2\<close>)
      ultimately show ?thesis
        using True lt c by (auto simp: bit_shifted_word bit_at_def)
    next
      case c: False
      then have "s \<le> k \<longleftrightarrow> ws < i" using lt by (auto simp: s k)
      moreover have "(k - s) div 64 = i - ws - 1 \<and> (k - s) mod 64 = 64 + j - bs" if "ws < i"
        by (rule div_mod_64) (use that c lt in \<open>simp_all add: s k diff_mult_distrib2\<close>)
      ultimately show ?thesis
        using True lt c by (auto simp: bit_shifted_word bit_at_def)
    qed
    finally show ?thesis using True by (simp add: d)
  qed
qed

lemma bit_advance_window_all:
  "unat (window_size w) \<le> s \<Longrightarrow> \<not> bit_at (bitmap (advance_window s w)) k"
  by (simp add: advance_window_def bit_at_def)

section \<open>The specification: a filter over unbounded sequence numbers\<close>

text \<open>
  A 32-bit sequence number is read as the unbounded number nearest to the highest one accepted
  so far (within \<open>2 ^ 31\<close>).  The filter accepts a packet that is newer than everything, or
  that lies inside the window and has not been accepted before.
\<close>

type_synonym replay_spec = "(int \<times> int list) option"

definition extended :: "int \<Rightarrow> u32 \<Rightarrow> int" where
  "extended H sq = H + sint (sq - word_of_int H)"

fun spec_check :: "nat \<Rightarrow> replay_spec \<Rightarrow> u32 \<Rightarrow> bool \<times> replay_spec" where
  "spec_check W None sq = (True, Some (uint sq, [uint sq]))"
| "spec_check W (Some (H, E)) sq =
     (let e = extended H sq in
      if H < e \<or> H - e < int W \<and> e \<notin> set E then (True, Some (max H e, e # E))
      else (False, Some (H, E)))"

fun window_run :: "AntiReplayWindow \<Rightarrow> u32 list \<Rightarrow> bool list" where
  "window_run w [] = []"
| "window_run w (sq # sqs) =
     (let (r, w') = check_and_update w sq in (r = Inr ()) # window_run w' sqs)"

fun spec_run :: "nat \<Rightarrow> replay_spec \<Rightarrow> u32 list \<Rightarrow> bool list" where
  "spec_run W s [] = []"
| "spec_run W s (sq # sqs) = (let (ok, s') = spec_check W s sq in ok # spec_run W s' sqs)"

definition represents :: "nat \<Rightarrow> AntiReplayWindow \<Rightarrow> replay_spec \<Rightarrow> bool" where
  "represents W w s \<longleftrightarrow>
     W < 2 ^ 32 \<and> window_size w = of_nat W \<and> length (bitmap w) = (W + 63) div 64 \<and>
     (case s of
        None \<Rightarrow> \<not> initialized w \<and> (\<forall>k. \<not> bit_at (bitmap w) k)
      | Some (H, E) \<Rightarrow> initialized w \<and> highest w = word_of_int H \<and>
          H \<in> set E \<and> (\<forall>e \<in> set E. e \<le> H) \<and>
          (\<forall>k < W. bit_at (bitmap w) k \<longleftrightarrow> H - int k \<in> set E))"

lemma represents_init: "W < 2 ^ 32 \<Longrightarrow> represents W (with_window W) None"
  by (simp add: represents_def with_window_def bit_at_def)

lemma signed_shift_mod:
  assumes "0 \<le> u" and "u < (2 :: int) ^ 32"
  shows "(u + 2 ^ 31) mod 2 ^ 32 - 2 ^ 31 = (if u < 2 ^ 31 then u else u - 2 ^ 32)"
proof (cases "u < 2 ^ 31")
  case True
  with assms show ?thesis by simp
next
  case False
  have "(u + 2 ^ 31) mod 2 ^ 32 = (u - 2 ^ 31 + 2 ^ 32) mod 2 ^ 32" by (simp add: add.commute)
  also have "\<dots> = u - 2 ^ 31" unfolding mod_add_self2 using assms False by simp
  finally show ?thesis using False by simp
qed

lemma sint_u32: "sint (x :: u32) = (if x < 0x80000000 then int (unat x) else int (unat x) - 2 ^ 32)"
proof -
  have "sint x = (uint x + 2 ^ 31) mod 2 ^ 32 - 2 ^ 31"
    by (simp add: sint_uint signed_take_bit_eq_take_bit_shift take_bit_eq_mod)
  moreover have "0 \<le> uint x" "uint x < 2 ^ 32"
    using uint_lt2p [of x] by simp_all
  ultimately show ?thesis
    using signed_shift_mod [of "uint x"] by (simp add: word_less_def)
qed

lemma unat_minus_u32: "x \<noteq> 0 \<Longrightarrow> int (unat (- x :: u32)) = 2 ^ 32 - int (unat x)"
proof -
  have "unat x < 2 ^ 32" using unsigned_less [of x] by simp
  then show "x \<noteq> 0 \<Longrightarrow> int (unat (- x)) = 2 ^ 32 - int (unat x)"
    using unat_sub_if' [of 0 x] unat_gt_0 [of x] by simp
qed

lemma word_of_extended: "word_of_int (extended H sq) = sq"
  by (simp add: extended_def)

lemma unat_window: "W < 2 ^ 32 \<Longrightarrow> unat (of_nat W :: u32) = W"
  by (simp add: unat_of_nat)

lemma check_ahead:
  assumes r: "represents W w (Some (H, E))"
    and d: "sq - highest w \<noteq> 0" "sq - highest w < 0x80000000"
  shows "fst (check_and_update w sq) = Inr () \<and> fst (spec_check W (Some (H, E)) sq) \<and>
    represents W (snd (check_and_update w sq)) (snd (spec_check W (Some (H, E)) sq))"
proof -
  define n e where n: "n = unat (sq - highest w)" and e: "e = extended H sq"
  have h: "highest w = word_of_int H" and W: "W < 2 ^ 32" "unat (window_size w) = W"
    and len: "length (bitmap w) = (W + 63) div 64"
    and bits: "\<And>k. k < W \<Longrightarrow> bit_at (bitmap w) k \<longleftrightarrow> H - int k \<in> set E"
    and le: "\<And>x. x \<in> set E \<Longrightarrow> x \<le> H"
    using r by (auto simp: represents_def unat_window)
  have en: "e = H + int n" using d by (simp add: e n extended_def h sint_u32)
  have n0: "0 < n" using d(1) by (simp add: n unat_gt_0)
  define bm where "bm = bitmap (advance_window n w)"
  have bits': "bit_at (set_bit_at 0 bm) k \<longleftrightarrow> e - int k \<in> set (e # E)" if k: "k < W" for k
  proof -
    have kl: "k div 64 < (W + 63) div 64" "0 < (W + 63) div 64" using k by linarith+
    have "bit_at bm k \<longleftrightarrow> n \<le> k \<and> H - int (k - n) \<in> set E"
      using bits [of "k - n"] k kl W(2)
      by (cases "n < W") (auto simp: bm_def bit_advance_window bit_advance_window_all len)
    also have "\<dots> \<longleftrightarrow> e - int k \<in> set E"
      using le [of "e - int k"] by (auto simp: en algebra_simps of_nat_diff)
    finally show ?thesis
      using kl by (auto simp: bit_set_bit_at bm_def len)
  qed
  have run: "check_and_update w sq =
      (Inr (), (advance_window n w)\<lparr>highest := sq, bitmap := set_bit_at 0 bm\<rparr>)"
    using r d by (simp add: check_and_update_def represents_def Let_def n bm_def)
  have spec: "spec_check W (Some (H, E)) sq = (True, Some (e, e # E))"
    using n0 by (simp add: e [symmetric] Let_def en)
  have w': "word_of_int e = sq" by (simp add: e word_of_extended)
  have le': "x \<le> e" if "x \<in> set E" for x using le [OF that] n0 by (simp add: en)
  show ?thesis
    using r bits' le' w'
    by (simp add: run spec represents_def bm_def len del: spec_check.simps)
qed

lemma check_behind:
  assumes r: "represents W w (Some (H, E))"
    and d: "\<not> sq - highest w < 0x80000000"
  shows "(fst (check_and_update w sq) = Inr ()) = fst (spec_check W (Some (H, E)) sq) \<and>
    represents W (snd (check_and_update w sq)) (snd (spec_check W (Some (H, E)) sq))"
proof -
  define n e where n: "n = unat (highest w - sq)" and e: "e = extended H sq"
  have h: "highest w = word_of_int H" and W: "W < 2 ^ 32" "unat (window_size w) = W"
    and len: "length (bitmap w) = (W + 63) div 64"
    and bits: "\<And>k. k < W \<Longrightarrow> bit_at (bitmap w) k \<longleftrightarrow> H - int k \<in> set E"
    and i: "initialized w"
    using r by (auto simp: represents_def unat_window)
  have d0: "sq - highest w \<noteq> 0" using d by auto
  have en: "e = H - int n"
    using d unat_minus_u32 [OF d0] by (simp add: e n extended_def h sint_u32)
  have n0: "0 < n" using d0 by (simp add: n unat_gt_0 word_neq_0_conv [symmetric])
  have run: "check_and_update w sq =
      (if W \<le> n then (Inl (ReplayDetected sq), w)
       else if e \<in> set E then (Inl (ReplayDetected sq), w)
       else (Inr (), w\<lparr>bitmap := set_bit_at n (bitmap w)\<rparr>))"
    using d d0 bits [of n] i
    by (auto simp: check_and_update_def Let_def n [symmetric] W get_bit_at_eq en)
  have spec: "spec_check W (Some (H, E)) sq =
      (if n < W \<and> e \<notin> set E then (True, Some (H, e # E)) else (False, Some (H, E)))"
    by (simp add: e [symmetric] Let_def) (auto simp: en)
  have "bit_at (set_bit_at n (bitmap w)) k \<longleftrightarrow> H - int k \<in> set (e # E)" if "k < W" "n < W" for k
  proof -
    have "n div 64 < (W + 63) div 64" using that by linarith
    then show ?thesis using bits [OF that(1)] by (auto simp: bit_set_bit_at len en)
  qed
  with r show ?thesis
    by (auto simp: run spec represents_def len en simp del: spec_check.simps)
qed

lemma check_first:
  assumes r: "represents W w None"
  shows "fst (check_and_update w sq) = Inr () \<and>
    represents W (snd (check_and_update w sq)) (snd (spec_check W None sq))"
proof -
  have "bit_at (set_bit_at 0 (bitmap w)) k \<longleftrightarrow> k = 0" if "k < W" for k
  proof -
    have "0 < (W + 63) div 64" using that by linarith
    then show ?thesis using r by (simp add: bit_set_bit_at represents_def)
  qed
  with r show ?thesis
    by (auto simp: check_and_update_def represents_def)
qed

lemma check_refines:
  assumes "represents W w s"
  shows "(fst (check_and_update w sq) = Inr ()) = fst (spec_check W s sq) \<and>
    represents W (snd (check_and_update w sq)) (snd (spec_check W s sq))"
proof (cases s)
  case None
  with assms check_first show ?thesis by force
next
  case (Some p)
  obtain H E where s: "s = Some (H, E)" using Some by (cases p) auto
  show ?thesis
  proof (cases "sq - highest w = 0")
    case True
    then have "extended H sq = H" "check_and_update w sq = (Inl (ReplayDetected sq), w)"
      using assms s by (auto simp: extended_def represents_def check_and_update_def)
    then show ?thesis using assms s by (auto simp: represents_def)
  next
    case False
    then show ?thesis
      using assms s check_ahead [of W w H E sq] check_behind [of W w H E sq] by auto
  qed
qed

lemma run_refines:
  "represents W w s \<Longrightarrow> window_run w sqs = spec_run W s sqs"
proof (induction sqs arbitrary: w s)
  case Nil
  then show ?case by simp
next
  case (Cons sq sqs)
  from check_refines [OF Cons.prems, of sq] Cons.IH show ?case
    by (cases "check_and_update w sq"; cases "spec_check W s sq") simp
qed

lemma window_run_spec: "W < 2 ^ 32 \<Longrightarrow> window_run (with_window W) sqs = spec_run W None sqs"
  by (rule run_refines) (rule represents_init)

text \<open>
  C2 (the bitmap implements the unbounded replay filter).  For every window size below
  \<open>2 ^ 32\<close> and every stream of 32-bit sequence numbers, in any order and across any number
  of wrap-arounds, \<open>check_and_update\<close> gives the answers of the specification: accept exactly
  what is newer than everything accepted so far, or lies less than the window size behind it
  and was not accepted before.
\<close>

theorem window_refines_spec:
  assumes "W < 2 ^ 32"
  shows "window_run (with_window W) sqs = spec_run W None sqs"
  by (rule window_run_spec [OF assms])

theorem window_refines_spec_witness:
  "window_run (with_window 64) [0xFFFFFFF0, 0xFFFFFFFF, 0, 0xFFFFFFFF, 0xFFFFFFF1, 0xFFFFFF00]
   = [True, True, True, False, True, False]"
proof -
  have "spec_run 64 None [0xFFFFFFF0, 0xFFFFFFFF, 0, 0xFFFFFFFF, 0xFFFFFFF1, 0xFFFFFF00]
    = [True, True, True, False, True, False]"
    by (simp add: extended_def sint_u32 Let_def unsigned_minus_1_eq_mask mask_eq_exp_minus_1)
  moreover have "(64 :: nat) < 2 ^ 32" by simp
  ultimately show ?thesis by (simp only: window_refines_spec)
qed

section \<open>Sessions that do not wrap\<close>

fun plain_filter :: "nat \<Rightarrow> nat list \<Rightarrow> nat list \<Rightarrow> bool list" where
  "plain_filter W seen [] = []"
| "plain_filter W seen (s # ss) =
     (let ok = s \<notin> set seen \<and> (\<forall>t \<in> set seen. t < s + W) in
      ok # plain_filter W (if ok then s # seen else seen) ss)"

definition plain_rep :: "replay_spec \<Rightarrow> nat list \<Rightarrow> bool" where
  "plain_rep s seen \<longleftrightarrow>
     (case s of None \<Rightarrow> seen = []
      | Some (H, E) \<Rightarrow> E = map int seen \<and> H \<in> set E \<and> (\<forall>e \<in> set E. e \<le> H) \<and> 0 \<le> H \<and> H < 2 ^ 31)"

lemma uint_small:
  assumes "unat sq < 2 ^ 31"
  shows "uint sq < 2 ^ 31"
proof -
  have "int (unat sq) < int (2 ^ 31)" using assms by (simp only: of_nat_less_iff)
  then show ?thesis by simp
qed

lemma extended_small:
  assumes "0 \<le> H" and "H < 2 ^ 31" and "unat sq < 2 ^ 31"
  shows "extended H sq = int (unat sq)"
proof -
  have u: "uint sq < 2 ^ 31" by (rule uint_small [OF assms(3)])
  have "0 \<le> uint sq" "H < 2147483648" "uint sq < 2147483648" using assms u by simp_all
  then have m: "(uint sq - H + 2147483648) mod 4294967296 = uint sq - H + 2147483648"
    using assms(1) by (intro mod_pos_pos_trivial) linarith+
  have "sint (sq - word_of_int H) = uint sq - H"
    using m
    by (simp add: sint_uint uint_word_ariths signed_take_bit_eq_take_bit_shift take_bit_eq_mod
        uint_word_of_int mod_simps)
  then show ?thesis by (simp add: extended_def)
qed

lemma plain_step:
  assumes "plain_rep s seen" and sq: "unat sq < 2 ^ 31"
  shows "fst (spec_check W s sq) = (unat sq \<notin> set seen \<and> (\<forall>t \<in> set seen. t < unat sq + W)) \<and>
    plain_rep (snd (spec_check W s sq))
      (if unat sq \<notin> set seen \<and> (\<forall>t \<in> set seen. t < unat sq + W) then unat sq # seen else seen)"
proof (cases s)
  case None
  with assms uint_small [OF sq] show ?thesis by (simp add: plain_rep_def)
next
  case (Some p)
  obtain H E where s: "s = Some (H, E)" using Some by (cases p) auto
  have E: "E = map int seen" and H: "H \<in> set E" "0 \<le> H" "H < 2 ^ 31"
    and le: "\<And>e. e \<in> set E \<Longrightarrow> e \<le> H"
    using assms s by (auto simp: plain_rep_def)
  obtain h where h: "H = int h" "h \<in> set seen" using H E by auto
  define n where n: "n = unat sq"
  have x: "extended H sq = int n" unfolding n by (rule extended_small [OF H(2,3) sq])
  have max: "t \<le> h" if "t \<in> set seen" for t using le [of "int t"] that E h by simp
  have ok: "(H < int n \<or> H - int n < int W \<and> int n \<notin> set E) \<longleftrightarrow>
      n \<notin> set seen \<and> (\<forall>t \<in> set seen. t < n + W)"
  proof -
    have "(\<forall>t \<in> set seen. t < n + W) \<longleftrightarrow> h < n + W"
      using max h(2) by (meson le_less_trans)
    moreover have "h < n \<Longrightarrow> n \<notin> set seen" using max by (meson leD)
    moreover have "int n \<in> set E \<longleftrightarrow> n \<in> set seen"
      by (simp only: E set_map inj_image_mem_iff [OF inj_of_nat])
    ultimately show ?thesis by (auto simp: h(1))
  qed
  have res: "spec_check W s sq =
      (if n \<notin> set seen \<and> (\<forall>t \<in> set seen. t < n + W)
       then (True, Some (max H (int n), int n # E)) else (False, Some (H, E)))"
    unfolding ok [symmetric] by (simp add: s x Let_def)
  have "n < 2 ^ 31" using sq by (simp add: n)
  then have "plain_rep (Some (max H (int n), int n # E)) (n # seen)"
    using H max by (fastforce simp: plain_rep_def E h(1) max_def)
  moreover have "plain_rep (Some (H, E)) seen"
    using H le by (simp add: plain_rep_def E)
  ultimately show ?thesis
    unfolding n [symmetric] res by simp
qed

lemma plain_run:
  "plain_rep s seen \<Longrightarrow> \<forall>x \<in> set sqs. unat x < 2 ^ 31 \<Longrightarrow>
   spec_run W s sqs = plain_filter W seen (map unat sqs)"
proof (induction sqs arbitrary: s seen)
  case Nil
  then show ?case by simp
next
  case (Cons sq sqs)
  from plain_step [OF Cons.prems(1), of sq W] Cons.prems(2) Cons.IH show ?case
    by (cases "spec_check W s sq") (auto simp: Let_def)
qed

text \<open>
  What a client of the filter reasons with: the window has accepted exactly \<open>seen\<close>, most
  recent first.
\<close>

definition tracks :: "nat \<Rightarrow> AntiReplayWindow \<Rightarrow> nat list \<Rightarrow> bool" where
  "tracks W w seen \<longleftrightarrow> (\<exists>s. represents W w s \<and> plain_rep s seen)"

lemma tracks_init: "W < 2 ^ 32 \<Longrightarrow> tracks W (with_window W) []"
  unfolding tracks_def by (rule exI [of _ None]) (simp add: represents_init plain_rep_def)

lemma tracks_step:
  assumes "tracks W w seen" and "unat sq < 2 ^ 31"
  shows "(fst (check_and_update w sq) = Inr ()) =
      (unat sq \<notin> set seen \<and> (\<forall>t \<in> set seen. t < unat sq + W)) \<and>
    tracks W (snd (check_and_update w sq))
      (if fst (check_and_update w sq) = Inr () then unat sq # seen else seen)"
proof -
  obtain s where s: "represents W w s" "plain_rep s seen" using assms(1) by (auto simp: tracks_def)
  from check_refines [OF s(1), of sq] plain_step [OF s(2) assms(2), of W]
  show ?thesis unfolding tracks_def
    by (auto intro!: exI [of _ "snd (spec_check W s sq)"] simp del: fst_conv split: if_splits)
qed

lemma tracks_check:
  assumes "check_and_update w sq = (r, w')" and "tracks W w seen" and "unat sq < 2 ^ 31"
  shows "(r = Inr ()) = (unat sq \<notin> set seen \<and> (\<forall>t \<in> set seen. t < unat sq + W))"
    and "tracks W w' (if r = Inr () then unat sq # seen else seen)"
  using tracks_step [OF assms(2,3)] unfolding assms(1) fst_conv snd_conv by blast+

text \<open>
  Also (no replay, no false rejection).  In a session whose sequence numbers stay below
  \<open>2 ^ 31\<close> a packet is accepted if and only if its number was not accepted before and every
  number accepted before is less than the window size ahead of it.
\<close>

theorem window_no_replay:
  assumes "W < 2 ^ 32" and "\<forall>x \<in> set sqs. unat x < 2 ^ 31"
  shows "window_run (with_window W) sqs = plain_filter W [] (map unat sqs)"
  using window_run_spec [OF assms(1)] plain_run [of None "[]" sqs W] assms(2)
  by (simp add: plain_rep_def)

theorem window_no_replay_witness:
  "window_run (with_window 64) [1000, 1001, 937, 939, 1000] = [True, True, False, True, False]"
proof -
  have "plain_filter 64 [] (map unat [1000, 1001, 937, 939, 1000 :: u32])
    = [True, True, False, True, False]" by simp
  moreover have "(64 :: nat) < 2 ^ 32" by simp
  ultimately show ?thesis
    using window_no_replay [of 64 "[1000, 1001, 937, 939, 1000]"] by (simp del: window_run.simps)
qed

section \<open>The interface a cryptographic session relies on\<close>

locale replay_filter =
  fixes check :: "'w \<Rightarrow> u32 \<Rightarrow> (CryptoError + unit) \<times> 'w"
    and good :: "'w \<Rightarrow> bool"
    and recorded :: "'w \<Rightarrow> u32 \<Rightarrow> bool"
  assumes good_check: "good w \<Longrightarrow> good (snd (check w s))"
    and rejected_unchanged: "fst (check w s) = Inl e \<Longrightarrow> snd (check w s) = w"
    and accepted_recorded: "good w \<Longrightarrow> fst (check w s) = Inr () \<Longrightarrow> recorded (snd (check w s)) s"
    and recorded_rejected: "good w \<Longrightarrow> recorded w s \<Longrightarrow> fst (check w s) \<noteq> Inr ()"
begin

lemma no_immediate_replay:
  "good w \<Longrightarrow> fst (check w s) = Inr () \<Longrightarrow> fst (check (snd (check w s)) s) \<noteq> Inr ()"
  by (rule recorded_rejected [OF good_check accepted_recorded])

lemma recorded_stays:
  "good w \<Longrightarrow> recorded w s \<Longrightarrow> snd (check w s) = w"
  using recorded_rejected rejected_unchanged by (cases "fst (check w s)") auto

end

definition window_good :: "AntiReplayWindow \<Rightarrow> bool" where
  "window_good w \<longleftrightarrow>
     length (bitmap w) = (unat (window_size w) + 63) div 64 \<and> 0 < unat (window_size w)"

definition window_recorded :: "AntiReplayWindow \<Rightarrow> u32 \<Rightarrow> bool" where
  "window_recorded w sq \<longleftrightarrow>
     initialized w \<and>
     (sq = highest w \<or>
      \<not> sq - highest w < 0x80000000 \<and> get_bit_at (bitmap w) (unat (highest w - sq)))"

lemma check_unchanged: "fst (check_and_update w sq) = Inl e \<Longrightarrow> snd (check_and_update w sq) = w"
  by (auto simp: check_and_update_def Let_def split: if_splits)

lemma window_good_check [inv_intro]: "window_good w \<Longrightarrow> window_good (snd (check_and_update w sq))"
  by (auto simp: check_and_update_def window_good_def Let_def)

lemma check_records:
  assumes "window_good w" and "fst (check_and_update w sq) = Inr ()"
  shows "window_recorded (snd (check_and_update w sq)) sq"
proof -
  define n where "n = unat (highest w - sq)"
  have "n div 64 < length (bitmap w)" if "n < unat (window_size w)"
    using that assms(1) unfolding window_good_def by linarith
  then show ?thesis
    using assms(2)
    by (auto simp: check_and_update_def window_recorded_def Let_def get_bit_at_eq
        n_def [symmetric] bit_set_bit_at split: if_splits)
qed

lemma recorded_rejects: "window_recorded w sq \<Longrightarrow> fst (check_and_update w sq) \<noteq> Inr ()"
  by (auto simp: check_and_update_def window_recorded_def Let_def)

interpretation window: replay_filter check_and_update window_good window_recorded
  by unfold_locales
    (simp_all add: window_good_check check_unchanged check_records recorded_rejects)

end
