(* ===== verification/Crypto.thy ===== *)
theory Crypto
  imports AntiReplay Packet
begin

text \<open>
  The media encryption of \<open>crates/wzp-crypto\<close> (\<open>nonce.rs\<close>, \<open>rekey.rs\<close>, \<open>session.rs\<close>, the
  session derivation of \<open>handshake.rs\<close>) and the transport wrapper of
  \<open>crates/wzp-client/src/encrypted_transport.rs\<close>.

  The primitives come from crates outside the repository and are parameters: the record
  \<open>primitives\<close> holds the AEAD, SHA-256, HKDF and X25519.  What the code relies on is stated as
  the hypotheses \<open>aead_opens\<close> (opening what was sealed under the same key, nonce and
  associated data gives the message back) and \<open>dh_commutes\<close>.  A session's cipher is its key.
  Random ephemeral secrets are arguments.  The \<open>debug_assert\<close> on timestamps in \<open>encrypt\<close> is
  compiled out of release builds and is not part of the model.
\<close>

section \<open>Primitives\<close>

type_synonym key = "byte list"

record primitives =
  seal :: "key \<Rightarrow> byte list \<Rightarrow> byte list \<Rightarrow> byte list \<Rightarrow> byte list option"
  unseal :: "key \<Rightarrow> byte list \<Rightarrow> byte list \<Rightarrow> byte list \<Rightarrow> byte list option"
  sha256 :: "byte list \<Rightarrow> byte list"
  hkdf :: "byte list option \<Rightarrow> byte list \<Rightarrow> string \<Rightarrow> nat \<Rightarrow> byte list"
  x25519_public :: "byte list \<Rightarrow> byte list"
  x25519 :: "byte list \<Rightarrow> byte list \<Rightarrow> byte list"

definition aead_opens :: "primitives \<Rightarrow> bool" where
  "aead_opens P \<longleftrightarrow> (\<forall>k n a m c. seal P k n a m = Some c \<longrightarrow> unseal P k n a c = Some m)"

definition dh_commutes :: "primitives \<Rightarrow> bool" where
  "dh_commutes P \<longleftrightarrow>
     (\<forall>a b. x25519 P a (x25519_public P b) = x25519 P b (x25519_public P a))"

section \<open>Nonces\<close>

datatype Direction = Send | Recv

fun direction_to_u8 :: "Direction \<Rightarrow> u8" where
  "direction_to_u8 Send = 0"
| "direction_to_u8 Recv = 1"

definition build_nonce :: "byte list \<Rightarrow> u32 \<Rightarrow> Direction \<Rightarrow> byte list" where
  "build_nonce sid sq d = sid @ put_u32 sq @ [direction_to_u8 d, 0, 0, 0]"

section \<open>The rekeying manager\<close>

abbreviation (input) REKEY_INTERVAL :: u64 where "REKEY_INTERVAL \<equiv> 65536"

record RekeyManager =
  current_key :: key
  last_rekey_at :: u64

definition rekey_new :: "key \<Rightarrow> RekeyManager" where
  "rekey_new k = \<lparr>current_key = k, last_rekey_at = 0\<rparr>"

definition should_rekey :: "RekeyManager \<Rightarrow> u64 \<Rightarrow> bool" where
  "should_rekey r packet_count \<longleftrightarrow> REKEY_INTERVAL \<le> sat_sub packet_count (last_rekey_at r)"

definition perform_rekey ::
  "primitives \<Rightarrow> RekeyManager \<Rightarrow> byte list \<Rightarrow> byte list \<Rightarrow> u64 \<Rightarrow> key \<times> RekeyManager" where
  "perform_rekey P r peer_pub our_secret packet_count =
     (let dh = x25519 P our_secret peer_pub;
          new_key = hkdf P (Some (current_key r)) dh ''warzone-rekey'' 32 in
      (new_key, r\<lparr>current_key := new_key, last_rekey_at := packet_count\<rparr>))"

section \<open>The session\<close>

record ChaChaSession =
  cipher :: key
  session_id :: "byte list"
  send_seq :: u32
  recv_seq :: u32
  rekey_mgr :: RekeyManager
  pending_rekey_secret :: "byte list option"
  sas_code :: "u32 option"
  anti_replay :: "u8 \<times> MediaType \<Rightarrow> AntiReplayWindow option"
  last_encrypt_timestamp :: "u32 option"

definition chacha_new :: "primitives \<Rightarrow> key \<Rightarrow> ChaChaSession" where
  "chacha_new P k =
     \<lparr>cipher = k, session_id = take 4 (sha256 P k), send_seq = 0, recv_seq = 0,
      rekey_mgr = rekey_new k, pending_rekey_secret = None, sas_code = None,
      anti_replay = (\<lambda>_. None), last_encrypt_timestamp = None\<rparr>"

definition set_sas :: "u32 \<Rightarrow> ChaChaSession \<Rightarrow> ChaChaSession" where
  "set_sas code s = s\<lparr>sas_code := Some code\<rparr>"

definition install_key :: "primitives \<Rightarrow> key \<Rightarrow> ChaChaSession \<Rightarrow> ChaChaSession" where
  "install_key P k s = s\<lparr>session_id := take 4 (sha256 P k), cipher := k\<rparr>"

definition parse_header :: "byte list \<Rightarrow> MediaHeader option" where
  "parse_header hb = (if length hb < HEADER_SIZE then None else map_option fst (header_read_from hb))"

fun default_window_size :: "MediaType \<Rightarrow> nat" where
  "default_window_size Audio = 64"
| "default_window_size Video = 1024"
| "default_window_size Data = 256"
| "default_window_size Control = 32"

definition default_window_for_media_type :: "MediaType \<Rightarrow> AntiReplayWindow" where
  "default_window_for_media_type m = with_window (default_window_size m)"

text \<open>
  \<open>encrypt\<close> and \<open>decrypt\<close> append to the caller's \<open>out\<close> vector; the result, the session and
  \<open>out\<close> after the call are returned.
\<close>

definition encrypt ::
  "primitives \<Rightarrow> ChaChaSession \<Rightarrow> byte list \<Rightarrow> byte list \<Rightarrow> byte list \<Rightarrow>
   (CryptoError + unit) \<times> ChaChaSession \<times> byte list" where
  "encrypt P s hb pt out =
     (case parse_header hb of
        None \<Rightarrow> (Inl (CryptoInternal ''header too short to derive nonce''), s, out)
      | Some h \<Rightarrow>
        (case seal P (cipher s) (build_nonce (session_id s) (seq h) Send) hb pt of
           None \<Rightarrow> (Inl (CryptoInternal ''encryption failed''), s, out)
         | Some c \<Rightarrow>
             (Inr (), s\<lparr>send_seq := send_seq s + 1,
                        last_encrypt_timestamp := Some (timestamp h)\<rparr>, out @ c)))"

definition decrypt ::
  "primitives \<Rightarrow> ChaChaSession \<Rightarrow> byte list \<Rightarrow> byte list \<Rightarrow> byte list \<Rightarrow>
   (CryptoError + unit) \<times> ChaChaSession \<times> byte list" where
  "decrypt P s hb ct out =
     (case parse_header hb of
        None \<Rightarrow> (Inl (CryptoInternal ''header too short to derive nonce''), s, out)
      | Some h \<Rightarrow>
        (case unseal P (cipher s) (build_nonce (session_id s) (seq h) Send) hb ct of
           None \<Rightarrow> (Inl DecryptionFailed, s, out)
         | Some pt \<Rightarrow>
           let out' = out @ pt; s' = s\<lparr>recv_seq := recv_seq s + 1\<rparr>;
               k = (stream_id h, media_type h);
               w = (case anti_replay s' k of
                      None \<Rightarrow> default_window_for_media_type (media_type h) | Some w \<Rightarrow> w);
               (r, w') = check_and_update w (seq h);
               s'' = s'\<lparr>anti_replay := (anti_replay s')(k \<mapsto> w')\<rparr> in
           (case r of
              Inl e \<Rightarrow> (Inl e, s'', take (length out' - length pt) out')
            | Inr _ \<Rightarrow> (Inr (), s'', out'))))"

text \<open>The fresh secret drawn by \<open>StaticSecret::random_from_rng\<close> is an argument.\<close>

definition initiate_rekey ::
  "primitives \<Rightarrow> byte list \<Rightarrow> ChaChaSession \<Rightarrow> (CryptoError + byte list) \<times> ChaChaSession" where
  "initiate_rekey P secret s =
     (Inr (x25519_public P secret), s\<lparr>pending_rekey_secret := Some secret\<rparr>)"

definition complete_rekey ::
  "primitives \<Rightarrow> byte list \<Rightarrow> ChaChaSession \<Rightarrow> (CryptoError + unit) \<times> ChaChaSession" where
  "complete_rekey P peer_pub s =
     (case pending_rekey_secret s of
        None \<Rightarrow> (Inl (RekeyFailed ''no pending rekey''), s)
      | Some secret \<Rightarrow>
          let s = s\<lparr>pending_rekey_secret := None\<rparr>;
              total_packets = ucast (send_seq s) + ucast (recv_seq s);
              (new_key, mgr) = perform_rekey P (rekey_mgr s) peer_pub secret total_packets;
              s = install_key P new_key (s\<lparr>rekey_mgr := mgr\<rparr>) in
          (Inr (), s\<lparr>send_seq := 0, recv_seq := 0\<rparr>))"

section \<open>Session derivation\<close>

record WarzoneKeyExchange =
  ephemeral_secret :: "byte list option"

definition generate_ephemeral ::
  "primitives \<Rightarrow> byte list \<Rightarrow> WarzoneKeyExchange \<Rightarrow> byte list \<times> WarzoneKeyExchange" where
  "generate_ephemeral P secret kx =
     (x25519_public P secret, kx\<lparr>ephemeral_secret := Some secret\<rparr>)"

definition u32_from_be_bytes :: "byte list \<Rightarrow> u32" where
  "u32_from_be_bytes b = u32_of_be (b ! 0) (b ! 1) (b ! 2) (b ! 3)"

definition derive_session ::
  "primitives \<Rightarrow> WarzoneKeyExchange \<Rightarrow> byte list \<Rightarrow> CryptoError + ChaChaSession" where
  "derive_session P kx peer_pub =
     (case ephemeral_secret kx of
        None \<Rightarrow>
          Inl (CryptoInternal ''no ephemeral key generated; call generate_ephemeral first'')
      | Some secret \<Rightarrow>
          let shared = x25519 P secret peer_pub;
              session_key = hkdf P None shared ''warzone-session-key'' 32;
              sas_key = hkdf P None shared ''warzone-sas-code'' 4;
              code = u32_from_be_bytes sas_key mod 10000 in
          Inr (set_sas code (chacha_new P session_key)))"

section \<open>The encrypting transport\<close>

text \<open>
  \<open>send_media\<close> without the inner transport: the packet handed on, or the error.
  \<open>recv_media\<close> on a packet the inner transport delivered.
\<close>

definition send_media ::
  "primitives \<Rightarrow> ChaChaSession \<Rightarrow> MediaPacket \<Rightarrow> (CryptoError + MediaPacket) \<times> ChaChaSession" where
  "send_media P s p =
     (let (r, s', c) = encrypt P s (header_write_to (header p)) (payload p) [] in
      (case r of
         Inl e \<Rightarrow> (Inl e, s')
       | Inr _ \<Rightarrow> (Inr \<lparr>header = header p, payload = c, quality_report = quality_report p\<rparr>, s')))"

definition recv_media ::
  "primitives \<Rightarrow> ChaChaSession \<Rightarrow> MediaPacket \<Rightarrow> (CryptoError + MediaPacket) \<times> ChaChaSession" where
  "recv_media P s p =
     (let (r, s', m) = decrypt P s (header_write_to (header p)) (payload p) [] in
      (case r of
         Inl e \<Rightarrow> (Inl e, s')
       | Inr _ \<Rightarrow> (Inr \<lparr>header = header p, payload = m, quality_report = quality_report p\<rparr>, s')))"

section \<open>Nonces are determined by session, number and direction\<close>

lemma direction_to_u8_inj: "direction_to_u8 d = direction_to_u8 d' \<longleftrightarrow> d = d'"
  by (cases d; cases d') auto

lemma put_u32_inj: "put_u32 a = put_u32 b \<longleftrightarrow> a = b"
  by (metis get_u32_put prod.inject)

lemma build_nonce_inj:
  assumes "length sid = length sid'"
  shows "build_nonce sid sq d = build_nonce sid' sq' d' \<longleftrightarrow> sid = sid' \<and> sq = sq' \<and> d = d'"
  using assms by (auto simp: build_nonce_def put_u32_inj direction_to_u8_inj)

section \<open>Decryption failures and successes\<close>

lemma decrypt_cases:
  obtains (short) "parse_header hb = None"
      "decrypt P s hb ct out = (Inl (CryptoInternal ''header too short to derive nonce''), s, out)"
  | (forged) h where "parse_header hb = Some h"
      "unseal P (cipher s) (build_nonce (session_id s) (seq h) Send) hb ct = None"
      "decrypt P s hb ct out = (Inl DecryptionFailed, s, out)"
  | (opened) h pt where "parse_header hb = Some h"
      "unseal P (cipher s) (build_nonce (session_id s) (seq h) Send) hb ct = Some pt"
proof -
  show ?thesis
    using that by (fastforce simp: decrypt_def split: option.splits)
qed

text \<open>The window of a stream, the default one when the stream is new.\<close>

definition window_of :: "ChaChaSession \<Rightarrow> u8 \<times> MediaType \<Rightarrow> AntiReplayWindow" where
  "window_of s k =
     (case anti_replay s k of None \<Rightarrow> default_window_for_media_type (snd k) | Some w \<Rightarrow> w)"

lemma decrypt_opened:
  assumes "parse_header hb = Some h"
    and "unseal P (cipher s) (build_nonce (session_id s) (seq h) Send) hb ct = Some pt"
    and "check_and_update (window_of s (stream_id h, media_type h)) (seq h) = (r, w')"
  shows "decrypt P s hb ct out =
    (r, s\<lparr>recv_seq := recv_seq s + 1,
          anti_replay := (anti_replay s)((stream_id h, media_type h) \<mapsto> w')\<rparr>,
     if r = Inr () then out @ pt else out)"
proof -
  have "check_and_update
    (case anti_replay s (stream_id h, media_type h) of
       None \<Rightarrow> default_window_for_media_type (media_type h) | Some w \<Rightarrow> w) (seq h) = (r, w')"
    using assms(3) by (simp add: window_of_def split: option.splits)
  then show ?thesis
    using assms(1,2) by (cases r) (auto simp: decrypt_def Let_def)
qed

section \<open>Concrete primitives\<close>

text \<open>
  Transparent primitives that satisfy the laws, for the witnesses: a sealed message carries
  its key, nonce and associated data in front, and a shared secret is the sum of the secrets.
\<close>

definition toy_add :: "byte list \<Rightarrow> byte list \<Rightarrow> byte list" where
  "toy_add a b = [hd (a @ [0]) + hd (b @ [0])]"

definition toy :: primitives where
  "toy = \<lparr>seal = (\<lambda>k n a m. Some (k @ n @ a @ m)),
          unseal = (\<lambda>k n a c. if take (length (k @ n @ a)) c = k @ n @ a
                              then Some (drop (length (k @ n @ a)) c) else None),
          sha256 = (\<lambda>b. take 32 (b @ replicate 32 7)),
          hkdf = (\<lambda>salt ikm info n. take n (ikm @ replicate n (of_nat (length info)))),
          x25519_public = (\<lambda>b. b), x25519 = toy_add\<rparr>"

lemma toy_opens: "aead_opens toy"
  by (simp add: aead_opens_def toy_def)

lemma toy_commutes: "dh_commutes toy"
  by (simp add: dh_commutes_def toy_def toy_add_def add.commute)

definition toy_header :: "u32 \<Rightarrow> MediaHeader" where
  "toy_header n =
     \<lparr>version = 2, flags = 0, media_type = Audio, codec_id = Opus24k, stream_id = 0,
      fec_ratio_wire = 0, seq = n, timestamp = 20 * n, fec_block = 0\<rparr>"

definition toy_packet :: "u32 \<Rightarrow> MediaPacket" where
  "toy_packet n = \<lparr>header = toy_header n, payload = [1, 2, ucast n], quality_report = None\<rparr>"

definition toy_sid :: "byte list" where
  "toy_sid = take 4 (sha256 toy [9])"

definition toy_sealed :: "u32 \<Rightarrow> byte list" where
  "toy_sealed n = [9] @ build_nonce toy_sid n Send @ header_write_to (toy_header n) @ [1, 2, ucast n]"

lemma toy_seal:
  "seal toy [9] (build_nonce (take 4 (sha256 toy [9])) n Send) (header_write_to (toy_header n))
     [1, 2, ucast n] = Some (toy_sealed n)"
  by (simp add: toy_def toy_sealed_def toy_sid_def)

lemma toy_unseal:
  "unseal toy [9] (build_nonce (take 4 (sha256 toy [9])) n Send) (header_write_to (toy_header n))
     (toy_sealed n) = Some [1, 2, ucast n]"
  using toy_opens toy_seal [of n] unfolding aead_opens_def by blast

lemma toy_header_fields [simp]:
  "seq (toy_header n) = n" "stream_id (toy_header n) = 0" "media_type (toy_header n) = Audio"
  by (simp_all add: toy_header_def)

lemma header_valid_toy: "header_valid (toy_header n)"
  by (simp add: header_valid_def toy_header_def)

lemma parse_header_write: "parse_header (header_write_to h) = (if header_valid h then Some h else None)"
proof (cases "header_valid h")
  case False
  then have "header_read_from (header_write_to h) = None"
    by (simp add: header_read_from_def header_write_to_def header_valid_def Let_def)
  then show ?thesis using False by (simp add: parse_header_def)
qed (simp add: parse_header_def header.get_put_end)

lemma parse_header_toy: "parse_header (header_write_to (toy_header n)) = Some (toy_header n)"
  by (simp add: parse_header_write header_valid_toy)

section \<open>Sessions under arbitrary traffic\<close>

text \<open>
  Everything that can happen to a session, and the packets it has let through: the stream, the
  media type and the number of each accepted packet.
\<close>

datatype crypto_op =
    OpEncrypt "byte list" "byte list"
  | OpDecrypt "byte list" "byte list"
  | OpInitiate "byte list"
  | OpComplete "byte list"

type_synonym accepted = "u8 \<times> MediaType \<times> u32"

definition packet_id :: "byte list \<Rightarrow> accepted option" where
  "packet_id hb = map_option (\<lambda>h. (stream_id h, media_type h, seq h)) (parse_header hb)"

fun crypto_step :: "primitives \<Rightarrow> ChaChaSession \<Rightarrow> crypto_op \<Rightarrow> accepted list \<times> ChaChaSession" where
  "crypto_step P s (OpEncrypt hb pt) = ([], fst (snd (encrypt P s hb pt [])))"
| "crypto_step P s (OpDecrypt hb ct) =
     (let (r, s', out) = decrypt P s hb ct [] in
      (if r = Inr () then [the (packet_id hb)] else [], s'))"
| "crypto_step P s (OpInitiate secret) = ([], snd (initiate_rekey P secret s))"
| "crypto_step P s (OpComplete pub) = ([], snd (complete_rekey P pub s))"

fun crypto_run :: "primitives \<Rightarrow> ChaChaSession \<Rightarrow> crypto_op list \<Rightarrow> accepted list" where
  "crypto_run P s [] = []"
| "crypto_run P s (op # ops) =
     (let (acc, s') = crypto_step P s op in acc @ crypto_run P s' ops)"

definition stream_seqs :: "u8 \<times> MediaType \<Rightarrow> accepted list \<Rightarrow> nat list" where
  "stream_seqs k acc = map (\<lambda>(_, _, s). unat s) (filter (\<lambda>(i, m, _). (i, m) = k) acc)"

definition session_tracks :: "ChaChaSession \<Rightarrow> accepted list \<Rightarrow> bool" where
  "session_tracks s acc \<longleftrightarrow>
     (\<forall>k. tracks (default_window_size (snd k)) (window_of s k) (stream_seqs k (rev acc)))"

definition short_seq :: "crypto_op \<Rightarrow> bool" where
  "short_seq op =
     (case op of
        OpDecrypt hb _ \<Rightarrow>
          (case packet_id hb of None \<Rightarrow> True | Some (_, _, s) \<Rightarrow> unat s < 2 ^ 31)
      | _ \<Rightarrow> True)"

lemma default_window_size_bound: "default_window_size m < 2 ^ 32"
  by (cases m) auto

lemma packet_id_toy: "packet_id (header_write_to (toy_header n)) = Some (0, Audio, n)"
  by (simp add: packet_id_def parse_header_toy)

lemma session_tracks_new: "session_tracks (chacha_new P k) []"
  by (simp add: session_tracks_def window_of_def chacha_new_def default_window_for_media_type_def
      stream_seqs_def tracks_init [OF default_window_size_bound])

lemma window_of_other [step_simps]:
  "window_of (fst (snd (encrypt P s hb pt out))) = window_of s"
  "window_of (snd (initiate_rekey P secret s)) = window_of s"
  "window_of (snd (complete_rekey P pub s)) = window_of s"
  by (auto simp: fun_eq_iff window_of_def encrypt_def initiate_rekey_def complete_rekey_def
      install_key_def perform_rekey_def Let_def split: option.splits)

lemma stream_seqs_mem: "(i, m, x) \<in> set acc \<Longrightarrow> unat x \<in> set (stream_seqs (i, m) (rev acc))"
  by (force simp: stream_seqs_def)

lemma stream_seqs_snoc:
  "stream_seqs k (rev (acc @ [(i, m, x)])) =
   (if k = (i, m) then unat x # stream_seqs k (rev acc) else stream_seqs k (rev acc))"
  by (auto simp: stream_seqs_def)

lemma decrypt_step_tracks:
  assumes "session_tracks s acc" and "short_seq (OpDecrypt hb ct)"
  shows "(\<exists>s'. crypto_step P s (OpDecrypt hb ct) = ([], s') \<and> session_tracks s' acc) \<or>
    (\<exists>x s'. crypto_step P s (OpDecrypt hb ct) = ([x], s') \<and> x \<notin> set acc \<and>
       session_tracks s' (acc @ [x]))"
proof (cases rule: decrypt_cases [of hb P s ct "[]"])
  case (opened h pt)
  define k where "k = (stream_id h, media_type h)"
  obtain r w' where c: "check_and_update (window_of s k) (seq h) = (r, w')" by fastforce
  have id: "packet_id hb = Some (stream_id h, media_type h, seq h)"
    using opened(1) by (simp add: packet_id_def)
  have "unat (seq h) < 2 ^ 31" using assms(2) id by (simp add: short_seq_def)
  moreover have "tracks (default_window_size (snd k)) (window_of s k) (stream_seqs k (rev acc))"
    using assms(1) unfolding session_tracks_def by blast
  ultimately have t: "r = Inr () \<Longrightarrow> unat (seq h) \<notin> set (stream_seqs k (rev acc))"
      "tracks (default_window_size (snd k)) w'
         (if r = Inr () then unat (seq h) # stream_seqs k (rev acc) else stream_seqs k (rev acc))"
    using tracks_check [OF c] by blast+
  define s' where
    "s' = s\<lparr>recv_seq := recv_seq s + 1, anti_replay := (anti_replay s)(k \<mapsto> w')\<rparr>"
  have win: "window_of s' j = (if j = k then w' else window_of s j)" for j
    by (simp add: window_of_def s'_def)
  have step: "crypto_step P s (OpDecrypt hb ct) =
      (if r = Inr () then [(stream_id h, media_type h, seq h)] else [], s')"
    using decrypt_opened [OF opened(1,2) c [unfolded k_def], of "[]"]
    by (simp add: id s'_def k_def)
  show ?thesis
  proof (cases "r = Inr ()")
    case True
    then have "session_tracks s' (acc @ [(stream_id h, media_type h, seq h)])"
      unfolding session_tracks_def win stream_seqs_snoc k_def [symmetric]
      using t True assms(1) by (simp add: session_tracks_def del: split_paired_All)
    moreover have "(stream_id h, media_type h, seq h) \<notin> set acc"
      using t(1) True stream_seqs_mem by (metis k_def)
    ultimately show ?thesis using step True by simp
  next
    case False
    then have "session_tracks s' acc"
      unfolding session_tracks_def win
      using t assms(1) by (simp add: session_tracks_def del: split_paired_All)
    then show ?thesis using step False by simp
  qed
qed (use assms(1) in simp_all)

lemma crypto_step_tracks:
  assumes "session_tracks s acc" and "short_seq op"
  shows "(\<exists>s'. crypto_step P s op = ([], s') \<and> session_tracks s' acc) \<or>
    (\<exists>x s'. crypto_step P s op = ([x], s') \<and> x \<notin> set acc \<and> session_tracks s' (acc @ [x]))"
  using assms decrypt_step_tracks [OF assms(1)]
  by (cases op) (auto simp: session_tracks_def step_simps)

lemma crypto_run_distinct:
  "session_tracks s acc \<Longrightarrow> \<forall>op \<in> set ops. short_seq op \<Longrightarrow> distinct acc \<Longrightarrow>
   distinct (acc @ crypto_run P s ops)"
proof (induction ops arbitrary: s acc)
  case Nil
  then show ?case by simp
next
  case (Cons op ops)
  have "short_seq op" using Cons.prems(2) by simp
  from crypto_step_tracks [OF Cons.prems(1) this, of P] show ?case
  proof (elim disjE exE conjE)
    fix s'
    assume "crypto_step P s op = ([], s')" "session_tracks s' acc"
    then show ?thesis using Cons.IH [of s' acc] Cons.prems by simp
  next
    fix x s'
    assume "crypto_step P s op = ([x], s')" "x \<notin> set acc" "session_tracks s' (acc @ [x])"
    then show ?thesis using Cons.IH [of s' "acc @ [x]"] Cons.prems by simp
  qed
qed

text \<open>
  C32 (no packet is accepted twice).  Whatever an attacker feeds a session, forged, replayed,
  reordered, on any number of streams and interleaved with rekeying and with our own
  encryption, no packet identity (stream, media type, sequence number) is accepted twice while
  sequence numbers stay below \<open>2 ^ 31\<close>.  This needs nothing of the primitives.
\<close>

theorem session_accepts_once:
  assumes "\<forall>op \<in> set ops. short_seq op"
  shows "distinct (crypto_run P (chacha_new P k) ops)"
  using crypto_run_distinct [OF session_tracks_new [of P k] assms, of P] by simp

theorem session_accepts_once_witness:
  "crypto_run toy (chacha_new toy [9])
     (OpDecrypt (header_write_to (toy_header 5)) (toy_sealed 5) #
      OpDecrypt (header_write_to (toy_header 5)) (toy_sealed 5) # []) = [(0, Audio, 5)] \<and>
   distinct (crypto_run toy (chacha_new toy [9])
     (OpDecrypt (header_write_to (toy_header 5)) (toy_sealed 5) #
      OpDecrypt (header_write_to (toy_header 5)) (toy_sealed 5) # []))"
proof -
  have "short_seq (OpDecrypt (header_write_to (toy_header 5)) c)" for c
    by (simp add: short_seq_def packet_id_toy)
  then have "distinct (crypto_run toy (chacha_new toy [9])
     (OpDecrypt (header_write_to (toy_header 5)) (toy_sealed 5) #
      OpDecrypt (header_write_to (toy_header 5)) (toy_sealed 5) # []))"
    by (intro session_accepts_once) simp
  moreover have "crypto_run toy (chacha_new toy [9])
     (OpDecrypt (header_write_to (toy_header 5)) (toy_sealed 5) #
      OpDecrypt (header_write_to (toy_header 5)) (toy_sealed 5) # []) = [(0, Audio, 5)]"
    by (simp add: decrypt_def parse_header_toy packet_id_toy toy_unseal Let_def chacha_new_def
        default_window_for_media_type_def with_window_def check_and_update_def)
  ultimately show ?thesis by simp
qed

section \<open>What peers share\<close>

definition matching :: "ChaChaSession \<Rightarrow> ChaChaSession \<Rightarrow> bool" where
  "matching s r \<longleftrightarrow> cipher s = cipher r \<and> session_id s = session_id r \<and>
     current_key (rekey_mgr s) = current_key (rekey_mgr r)"

text \<open>One round of rekeying: both sides draw a secret and complete with the other's key.\<close>

definition rekey_round ::
  "primitives \<Rightarrow> byte list \<times> byte list \<Rightarrow> ChaChaSession \<times> ChaChaSession \<Rightarrow>
   ChaChaSession \<times> ChaChaSession" where
  "rekey_round P ab sr =
     (let (pub_a, s) = (x25519_public P (fst ab), snd (initiate_rekey P (fst ab) (fst sr)));
          (pub_b, r) = (x25519_public P (snd ab), snd (initiate_rekey P (snd ab) (snd sr))) in
      (snd (complete_rekey P pub_b s), snd (complete_rekey P pub_a r)))"

lemma rekey_round_matching:
  assumes "dh_commutes P" and "matching (fst sr) (snd sr)"
  shows "matching (fst (rekey_round P ab sr)) (snd (rekey_round P ab sr))"
proof -
  have "x25519 P (fst ab) (x25519_public P (snd ab)) = x25519 P (snd ab) (x25519_public P (fst ab))"
    using assms(1) by (simp add: dh_commutes_def)
  then show ?thesis
    using assms(2)
    by (simp add: rekey_round_def matching_def initiate_rekey_def complete_rekey_def
        perform_rekey_def install_key_def Let_def)
qed

lemma rekey_rounds_matching:
  "dh_commutes P \<Longrightarrow> matching (fst sr) (snd sr) \<Longrightarrow>
   matching (fst (fold (rekey_round P) rounds sr)) (snd (fold (rekey_round P) rounds sr))"
  by (induction rounds arbitrary: sr) (simp_all add: rekey_round_matching)

lemma derive_session_pair:
  assumes "dh_commutes P"
  shows "derive_session P \<lparr>ephemeral_secret = Some a\<rparr> (x25519_public P b) =
         derive_session P \<lparr>ephemeral_secret = Some b\<rparr> (x25519_public P a)"
  using assms by (simp add: derive_session_def dh_commutes_def)

lemma rekey_keeps_sas [step_simps]:
  "sas_code (snd (initiate_rekey P x s)) = sas_code s"
  "sas_code (snd (complete_rekey P pub s)) = sas_code s"
  by (auto simp: initiate_rekey_def complete_rekey_def perform_rekey_def install_key_def Let_def
      split: option.splits)

lemma rekey_rounds_sas:
  "sas_code (fst (fold (rekey_round P) rounds sr)) = sas_code (fst sr) \<and>
   sas_code (snd (fold (rekey_round P) rounds sr)) = sas_code (snd sr)"
proof (induction rounds arbitrary: sr)
  case (Cons ab rounds)
  then show ?case by (simp add: rekey_round_def step_simps)
qed simp

text \<open>
  C39 (peers agree on keys).  When Diffie-Hellman commutes, the two ends of a handshake derive
  the same cipher key, the same session id and the same four-digit authentication string, and
  any number of mutual rekeyings keeps all of them equal.
\<close>

theorem peers_agree:
  assumes "dh_commutes P"
    and "derive_session P \<lparr>ephemeral_secret = Some a\<rparr> (x25519_public P b) = Inr s"
    and "derive_session P \<lparr>ephemeral_secret = Some b\<rparr> (x25519_public P a) = Inr r"
    and "fold (rekey_round P) rounds (s, r) = (s', r')"
  shows "cipher s' = cipher r' \<and> session_id s' = session_id r' \<and> sas_code s' = sas_code r' \<and>
    (\<exists>c. sas_code s' = Some c \<and> c < 10000)"
proof -
  have eq: "s = r" using derive_session_pair [OF assms(1), of a b] assms(2,3) by simp
  then have "matching s' r'"
    using rekey_rounds_matching [OF assms(1), of "(s, r)" rounds] assms(4)
    by (simp add: matching_def)
  moreover have "sas_code s' = sas_code s" "sas_code r' = sas_code r"
    using rekey_rounds_sas [of P rounds "(s, r)"] assms(4) by auto
  moreover have "\<exists>c. sas_code s = Some c \<and> c < 10000"
    using assms(2) by (auto simp: derive_session_def Let_def set_sas_def word_less_nat_alt unat_mod)
  ultimately show ?thesis using eq by (auto simp: matching_def)
qed

theorem peers_agree_witness:
  "\<exists>s r s' r'. derive_session toy \<lparr>ephemeral_secret = Some [3]\<rparr> (x25519_public toy [4]) = Inr s \<and>
     derive_session toy \<lparr>ephemeral_secret = Some [4]\<rparr> (x25519_public toy [3]) = Inr r \<and>
     fold (rekey_round toy) [([5], [6]), ([7], [8])] (s, r) = (s', r') \<and>
     cipher s' = cipher r' \<and> sas_code s' = sas_code r'"
proof -
  obtain s where s: "derive_session toy \<lparr>ephemeral_secret = Some [3]\<rparr> (x25519_public toy [4]) = Inr s"
    by (simp add: derive_session_def Let_def)
  then have r: "derive_session toy \<lparr>ephemeral_secret = Some [4]\<rparr> (x25519_public toy [3]) = Inr s"
    using derive_session_pair [OF toy_commutes, of "[3]" "[4]"] by simp
  obtain s' r' where f: "fold (rekey_round toy) [([5], [6]), ([7], [8])] (s, s) = (s', r')"
    by fastforce
  from peers_agree [OF toy_commutes s r f] s r f show ?thesis by blast
qed

lemma encrypt_out:
  "parse_header hb = Some h \<Longrightarrow>
   snd (snd (encrypt P s hb m out)) =
     out @ (case seal P (cipher s) (build_nonce (session_id s) (seq h) Send) hb m of
              None \<Rightarrow> [] | Some c \<Rightarrow> c)"
  by (simp add: encrypt_def split: option.splits)

text \<open>
  Also (the two directions share nonces).  Both ends seal with \<open>Direction::Send\<close>, the same key
  and the same session id.  So one nonce serves every packet of a given sequence number: of
  the initiator and of the responder, and of every stream, before and after rekeying.
\<close>

theorem directions_share_nonces:
  assumes "dh_commutes P"
    and "derive_session P \<lparr>ephemeral_secret = Some a\<rparr> (x25519_public P b) = Inr s"
    and "derive_session P \<lparr>ephemeral_secret = Some b\<rparr> (x25519_public P a) = Inr r"
    and "fold (rekey_round P) rounds (s, r) = (s', r')"
    and "parse_header hb1 = Some h1" and "parse_header hb2 = Some h2" and "seq h1 = seq h2"
  shows "\<exists>key nonce.
    snd (snd (encrypt P s' hb1 m1 [])) =
      (case seal P key nonce hb1 m1 of None \<Rightarrow> [] | Some c \<Rightarrow> c) \<and>
    snd (snd (encrypt P r' hb2 m2 [])) =
      (case seal P key nonce hb2 m2 of None \<Rightarrow> [] | Some c \<Rightarrow> c)"
proof -
  have "s = r" using derive_session_pair [OF assms(1), of a b] assms(2,3) by simp
  then have "matching s' r'"
    using rekey_rounds_matching [OF assms(1), of "(s, r)" rounds] assms(4)
    by (simp add: matching_def)
  then show ?thesis using assms(5-7) by (auto simp: encrypt_out matching_def)
qed

theorem directions_share_nonces_witness:
  "\<exists>s key nonce.
     derive_session toy \<lparr>ephemeral_secret = Some [3]\<rparr> (x25519_public toy [4]) = Inr s \<and>
     snd (snd (encrypt toy s (header_write_to (toy_header 5)) [1] [])) =
       (case seal toy key nonce (header_write_to (toy_header 5)) [1] of None \<Rightarrow> [] | Some c \<Rightarrow> c) \<and>
     snd (snd (encrypt toy s (header_write_to (toy_header 5\<lparr>stream_id := 1\<rparr>)) [2] [])) =
       (case seal toy key nonce (header_write_to (toy_header 5\<lparr>stream_id := 1\<rparr>)) [2] of
          None \<Rightarrow> [] | Some c \<Rightarrow> c)"
proof -
  obtain s where s: "derive_session toy \<lparr>ephemeral_secret = Some [3]\<rparr> (x25519_public toy [4]) = Inr s"
    by (simp add: derive_session_def Let_def)
  then have r: "derive_session toy \<lparr>ephemeral_secret = Some [4]\<rparr> (x25519_public toy [3]) = Inr s"
    using derive_session_pair [OF toy_commutes, of "[3]" "[4]"] by simp
  have f: "fold (rekey_round toy) [] (s, s) = (s, s)" by simp
  have h: "parse_header (header_write_to (toy_header 5\<lparr>stream_id := 1\<rparr>)) =
      Some (toy_header 5\<lparr>stream_id := 1\<rparr>)"
    by (simp add: parse_header_write header_valid_def toy_header_def)
  have "seq (toy_header 5) = seq (toy_header 5\<lparr>stream_id := 1\<rparr>)" by simp
  from directions_share_nonces [OF toy_commutes s r f parse_header_toy h this, of "[1]" "[2]"] s
  show ?thesis by blast
qed

section \<open>Delivery through the encrypting transport\<close>

fun send_run :: "primitives \<Rightarrow> ChaChaSession \<Rightarrow> MediaPacket list \<Rightarrow> (CryptoError + MediaPacket) list" where
  "send_run P s [] = []"
| "send_run P s (p # ps) = (let (r, s') = send_media P s p in r # send_run P s' ps)"

fun recv_run :: "primitives \<Rightarrow> ChaChaSession \<Rightarrow> MediaPacket list \<Rightarrow> (CryptoError + MediaPacket) list" where
  "recv_run P s [] = []"
| "recv_run P s (p # ps) = (let (r, s') = recv_media P s p in r # recv_run P s' ps)"

text \<open>
  The specification of the receiver: per stream and media type one replay filter over unbounded
  sequence numbers, the one the window refines; a packet it admits comes out as it was sent, any
  other is reported as a replay.
\<close>

fun delivered ::
  "(u8 \<times> MediaType \<Rightarrow> replay_spec) \<Rightarrow> MediaPacket list \<Rightarrow> (CryptoError + MediaPacket) list" where
  "delivered seen [] = []"
| "delivered seen (p # ps) =
     (let k = (stream_id (header p), media_type (header p));
          (ok, f) = spec_check (default_window_size (snd k)) (seen k) (seq (header p)) in
      (if ok then Inr p else Inl (ReplayDetected (seq (header p)))) # delivered (seen(k := f)) ps)"

lemma check_error: "fst (check_and_update w sq) = Inl e \<Longrightarrow> e = ReplayDetected sq"
  by (auto simp: check_and_update_def Let_def split: if_splits)

lemma recv_sealed:
  assumes P: "aead_opens P" and v: "header_valid (header p)"
    and c: "seal P (cipher s) (build_nonce (session_id s) (seq (header p)) Send)
              (header_write_to (header p)) (payload p) = Some ct"
    and k: "k = (stream_id (header p), media_type (header p))"
    and t: "represents (default_window_size (snd k)) (window_of s k) f"
    and ok: "spec_check (default_window_size (snd k)) f (seq (header p)) = (ok, f')"
  obtains w' where
    "recv_media P s (p\<lparr>payload := ct\<rparr>) =
      (if ok then Inr p else Inl (ReplayDetected (seq (header p))),
       s\<lparr>recv_seq := recv_seq s + 1, anti_replay := (anti_replay s)(k \<mapsto> w')\<rparr>)"
    and "represents (default_window_size (snd k)) w' f'"
proof -
  obtain r w' where c': "check_and_update (window_of s k) (seq (header p)) = (r, w')" by fastforce
  have "(r = Inr ()) = ok" and w': "represents (default_window_size (snd k)) w' f'"
    using check_refines [OF t, of "seq (header p)"] c' ok by simp_all
  then have r: "r = (if ok then Inr () else Inl (ReplayDetected (seq (header p))))"
    using check_error [of "window_of s k" "seq (header p)"] c' by (cases r) auto
  have "unseal P (cipher s) (build_nonce (session_id s) (seq (header p)) Send)
              (header_write_to (header p)) ct = Some (payload p)"
    using P c by (simp add: aead_opens_def)
  from decrypt_opened [OF _ this c' [unfolded k], of "[]"]
  have "recv_media P s (p\<lparr>payload := ct\<rparr>) =
      (if ok then Inr p else Inl (ReplayDetected (seq (header p))),
       s\<lparr>recv_seq := recv_seq s + 1, anti_replay := (anti_replay s)(k \<mapsto> w')\<rparr>)"
    by (simp add: recv_media_def parse_header_write v k r)
  then show ?thesis using that w' by blast
qed

text \<open>The packets in flight: each is what the sender's key seals of its original.\<close>

definition sealed_as :: "primitives \<Rightarrow> key \<Rightarrow> byte list \<Rightarrow> MediaPacket \<Rightarrow> MediaPacket \<Rightarrow> bool" where
  "sealed_as P k sid p q \<longleftrightarrow> header_valid (header p) \<and>
     (\<exists>ct. seal P k (build_nonce sid (seq (header p)) Send) (header_write_to (header p)) (payload p)
            = Some ct \<and> q = p\<lparr>payload := ct\<rparr>)"

lemma send_media_sealed:
  assumes "send_media P s p = (Inr q, s')"
  shows "sealed_as P (cipher s) (session_id s) p q \<and> cipher s' = cipher s \<and>
    session_id s' = session_id s"
proof -
  from assms have v: "header_valid (header p)"
    by (auto simp: send_media_def encrypt_def parse_header_write split: if_splits)
  from assms show ?thesis
    by (auto simp: send_media_def encrypt_def parse_header_write v sealed_as_def
        split: option.splits)
qed

lemma send_run_sealed:
  "send_run P s ps = map Inr qs \<Longrightarrow> list_all2 (sealed_as P (cipher s) (session_id s)) ps qs"
proof (induction ps arbitrary: s qs)
  case Nil
  then show ?case by simp
next
  case (Cons p ps)
  obtain q qs' s' where qs: "qs = q # qs'" and s': "send_media P s p = (Inr q, s')"
    and rest: "send_run P s' ps = map Inr qs'"
    using Cons.prems by (cases qs; cases "send_media P s p") auto
  from Cons.IH [OF rest] send_media_sealed [OF s'] show ?case by (simp add: qs)
qed

lemma recv_run_delivered:
  assumes P: "aead_opens P"
  shows "list_all2 (sealed_as P (cipher s) (session_id s)) ps qs \<Longrightarrow>
    (\<And>k. represents (default_window_size (snd k)) (window_of s k) (seen k)) \<Longrightarrow>
    recv_run P s qs = delivered seen ps"
proof (induction ps arbitrary: s seen qs)
  case Nil
  then show ?case by simp
next
  case (Cons p ps)
  define k where "k = (stream_id (header p), media_type (header p))"
  obtain ok f where ok: "spec_check (default_window_size (snd k)) (seen k) (seq (header p)) = (ok, f)"
    by fastforce
  obtain q qs' where q: "qs = q # qs'" "sealed_as P (cipher s) (session_id s) p q"
    and rest: "list_all2 (sealed_as P (cipher s) (session_id s)) ps qs'"
    using Cons.prems(1) by (auto simp: list_all2_Cons1)
  obtain ct where v: "header_valid (header p)" and qs: "qs = p\<lparr>payload := ct\<rparr> # qs'"
    and c: "seal P (cipher s) (build_nonce (session_id s) (seq (header p)) Send)
              (header_write_to (header p)) (payload p) = Some ct"
    using q by (auto simp: sealed_as_def)
  obtain w' where recv: "recv_media P s (p\<lparr>payload := ct\<rparr>) =
      (if ok then Inr p else Inl (ReplayDetected (seq (header p))),
       s\<lparr>recv_seq := recv_seq s + 1, anti_replay := (anti_replay s)(k \<mapsto> w')\<rparr>)"
    and w': "represents (default_window_size (snd k)) w' f"
    by (rule recv_sealed [OF P v c k_def Cons.prems(2) ok]) blast
  define s' where
    "s' = s\<lparr>recv_seq := recv_seq s + 1, anti_replay := (anti_replay s)(k \<mapsto> w')\<rparr>"
  have "represents (default_window_size (snd j)) (window_of s' j) ((seen(k := f)) j)" for j
    using w' Cons.prems(2) [of j] by (simp add: s'_def window_of_def)
  moreover have "list_all2 (sealed_as P (cipher s') (session_id s')) ps qs'"
    using rest by (simp add: s'_def)
  ultimately have "recv_run P s' qs' = delivered (seen(k := f)) ps" by (rule Cons.IH [rotated])
  then show ?case
    using ok by (simp add: qs recv s'_def [symmetric] k_def [symmetric])
qed

text \<open>
  C1 (end-to-end delivery).  Let a sender seal packets with one key, none of which it refuses,
  under an AEAD that opens what it sealed, and let the network deliver any selection of the sealed
  packets to a receiver with that key, in any order and with any duplicates.  Then the receiver
  returns every delivered packet exactly as it was sent, header, payload and quality report,
  whenever the replay filter of its stream over unbounded sequence numbers admits it, and reports a
  replay otherwise; no other outcome is possible, for any sequence numbers and across their
  wrap-around.
\<close>

theorem transport_delivers:
  assumes P: "aead_opens P"
    and sent: "send_run P (chacha_new P k) ps = map Inr qs"
    and ixs: "\<forall>i \<in> set ixs. i < length ps"
  shows "recv_run P (chacha_new P k) (map ((!) qs) ixs) = delivered (\<lambda>_. None) (map ((!) ps) ixs)"
proof (rule recv_run_delivered [OF P])
  have "list_all2 (sealed_as P (cipher (chacha_new P k)) (session_id (chacha_new P k))) ps qs"
    by (rule send_run_sealed [OF sent])
  then show "list_all2 (sealed_as P (cipher (chacha_new P k)) (session_id (chacha_new P k)))
      (map ((!) ps) ixs) (map ((!) qs) ixs)"
    using ixs by (auto simp: list_all2_conv_all_nth)
  show "represents (default_window_size (snd j)) (window_of (chacha_new P k) j) None" for j
    by (simp add: window_of_def chacha_new_def default_window_for_media_type_def
        represents_init [OF default_window_size_bound])
qed

theorem transport_delivers_witness:
  "recv_run toy (chacha_new toy [9])
     (map ((!) [toy_packet (- 1)\<lparr>payload := toy_sealed (- 1)\<rparr>, toy_packet 0\<lparr>payload := toy_sealed 0\<rparr>]) [1, 0, 1])
   = [Inr (toy_packet 0), Inr (toy_packet (- 1)), Inl (ReplayDetected 0)]"
proof -
  have "send_run toy (chacha_new toy [9]) [toy_packet (- 1), toy_packet 0] =
      map Inr [toy_packet (- 1)\<lparr>payload := toy_sealed (- 1)\<rparr>, toy_packet 0\<lparr>payload := toy_sealed 0\<rparr>]"
    using toy_seal [of "- 1"] toy_seal [of 0]
    by (simp add: send_media_def encrypt_def parse_header_toy toy_packet_def chacha_new_def)
  from transport_delivers [OF toy_opens this, of "[1, 0, 1]"] show ?thesis
    by (simp add: toy_packet_def toy_header_def extended_def sint_u32 unsigned_minus_1_eq_mask
        mask_eq_exp_minus_1 del: recv_run.simps)
qed

section \<open>Failures leave the caller's buffer alone\<close>

text \<open>
  Also (outcomes of decryption).  A failed decryption, whether the header is malformed, the tag
  does not verify or the packet is a replay, leaves the output buffer, the key, the session id
  and the rekeying state as they were; a successful one appends exactly the opened message.
\<close>

theorem decrypt_outcomes:
  "let (r, s', out') = decrypt P s hb ct out in
   cipher s' = cipher s \<and> session_id s' = session_id s \<and> rekey_mgr s' = rekey_mgr s \<and>
   (if r = Inr ()
    then \<exists>h pt. parse_header hb = Some h \<and> out' = out @ pt \<and>
           unseal P (cipher s) (build_nonce (session_id s) (seq h) Send) hb ct = Some pt
    else out' = out)"
proof (cases rule: decrypt_cases [of hb P s ct out])
  case (opened h pt)
  obtain r w' where
    "check_and_update (window_of s (stream_id h, media_type h)) (seq h) = (r, w')" by fastforce
  from decrypt_opened [OF opened this, of out] opened show ?thesis by simp
qed simp_all

text \<open>States reached by a run.\<close>

fun crypto_state :: "primitives \<Rightarrow> ChaChaSession \<Rightarrow> crypto_op list \<Rightarrow> ChaChaSession" where
  "crypto_state P s [] = s"
| "crypto_state P s (op # ops) = crypto_state P (snd (crypto_step P s op)) ops"

definition windows_good :: "ChaChaSession \<Rightarrow> bool" where
  "windows_good s \<longleftrightarrow> (\<forall>k. window_good (window_of s k))"

lemma windows_goodD: "windows_good s \<Longrightarrow> window_good (window_of s k)"
  by (cases k) (simp add: windows_good_def)

lemma windows_good_new: "windows_good (chacha_new P k)"
proof -
  have "window_good (default_window_for_media_type m)" for m
    by (cases m) (simp_all add: window_good_def default_window_for_media_type_def with_window_def)
  then show ?thesis by (simp add: windows_good_def window_of_def chacha_new_def)
qed

lemma windows_good_decrypt [inv_intro]:
  assumes "windows_good s"
  shows "windows_good (fst (snd (decrypt P s hb ct out)))"
proof (cases rule: decrypt_cases [of hb P s ct out])
  case (opened h pt)
  define k where "k = (stream_id h, media_type h)"
  obtain r w' where c: "check_and_update (window_of s k) (seq h) = (r, w')" by fastforce
  then have "window_good w'"
    using windows_goodD [OF assms, of k] window.good_check [of "window_of s k" "seq h"] by simp
  with decrypt_opened [OF opened c [unfolded k_def], of out] assms show ?thesis
    by (simp add: windows_good_def window_of_def)
qed (use assms in simp_all)

lemma windows_good_step [inv_intro]: "windows_good s \<Longrightarrow> windows_good (snd (crypto_step P s op))"
proof (cases op)
  case (OpDecrypt hb ct)
  assume "windows_good s"
  from windows_good_decrypt [OF this, of P hb ct "[]"] OpDecrypt show ?thesis
    by (simp add: split_beta)
qed (auto simp: windows_good_def step_simps)

lemma windows_good_run: "windows_good s \<Longrightarrow> windows_good (crypto_state P s ops)"
  by (induction ops arbitrary: s) (simp_all add: windows_good_step)

lemma decrypt_again:
  assumes g: "windows_good s" and ok: "decrypt P s hb ct out = (Inr (), s', out')"
    and same: "packet_id hb2 = packet_id hb"
  shows "fst (decrypt P s' hb2 ct2 out2) \<noteq> Inr ()"
proof (cases rule: decrypt_cases [of hb2 P s' ct2 out2])
  case (opened h2 pt2)
  obtain h pt where h: "parse_header hb = Some h"
    "unseal P (cipher s) (build_nonce (session_id s) (seq h) Send) hb ct = Some pt"
    using ok by (cases rule: decrypt_cases [of hb P s ct out]) auto
  define k where "k = (stream_id h, media_type h)"
  have id: "(stream_id h2, media_type h2) = k" "seq h2 = seq h"
    using same opened(1) h(1) by (simp_all add: packet_id_def k_def)
  obtain r w' where c: "check_and_update (window_of s k) (seq h) = (r, w')" by fastforce
  have rs: "r = Inr ()"
    "s' = s\<lparr>recv_seq := recv_seq s + 1, anti_replay := (anti_replay s)(k \<mapsto> w')\<rparr>"
    using decrypt_opened [OF h c [unfolded k_def], of out] ok by (simp_all add: k_def)
  then have w: "window_of s' k = w'" by (simp add: window_of_def)
  have "fst (check_and_update w' (seq h)) \<noteq> Inr ()"
    using window.no_immediate_replay [of "window_of s k" "seq h"] windows_goodD [OF g, of k] c rs(1)
    by simp
  then show ?thesis
    using decrypt_opened [OF opened prod.collapse [symmetric], of out2] id w by simp
qed simp_all

text \<open>
  Also (replays right away).  At any point of any session, without a bound on the sequence
  numbers, a packet that was just accepted is refused when it, or any packet with its stream,
  media type and number, comes again.
\<close>

theorem immediate_replay_refused:
  assumes "decrypt P (crypto_state P (chacha_new P k) ops) hb ct out = (Inr (), s', out')"
    and "packet_id hb2 = packet_id hb"
  shows "fst (decrypt P s' hb2 ct2 out2) \<noteq> Inr ()"
  by (rule decrypt_again [OF windows_good_run [OF windows_good_new] assms])

theorem immediate_replay_refused_witness:
  "\<exists>s'. decrypt toy (crypto_state toy (chacha_new toy [9]) [])
        (header_write_to (toy_header 0xFFFFFFFF)) (toy_sealed 0xFFFFFFFF) [] =
        (Inr (), s', [1, 2, 0xFF]) \<and>
     fst (decrypt toy s' (header_write_to (toy_header 0xFFFFFFFF)) (toy_sealed 0xFFFFFFFF) []) \<noteq> Inr ()"
proof -
  have "\<exists>s'. decrypt toy (crypto_state toy (chacha_new toy [9]) [])
        (header_write_to (toy_header 0xFFFFFFFF)) (toy_sealed 0xFFFFFFFF) [] =
        (Inr (), s', [1, 2, 0xFF])"
    by (simp add: decrypt_def parse_header_toy toy_unseal Let_def chacha_new_def
        default_window_for_media_type_def with_window_def check_and_update_def)
  then show ?thesis using immediate_replay_refused by blast
qed

end
