(* ===== verification/Trunk.thy ===== *)
theory Trunk
  imports Packet
begin

text \<open>
  Trunking: several sessions' packets in one datagram.  \<open>TrunkFrame\<close> is the frame format of
  \<open>crates/wzp-proto/src/packet.rs\<close>, \<open>TrunkBatcher\<close> the accumulator of
  \<open>crates/wzp-relay/src/trunk.rs\<close>, \<open>TrunkedForwarder\<close> its user in
  \<open>crates/wzp-relay/src/room.rs\<close> over \<open>send_trunk\<close> of \<open>crates/wzp-transport/src/quic.rs\<close>.
  The QUIC connection is a parameter: its datagram limit, and whether it takes a datagram.
\<close>

section \<open>Frames\<close>

record TrunkEntry =
  entry_session :: "byte \<times> byte"
  entry_payload :: "byte list"

abbreviation (input) ENTRY_OVERHEAD :: nat where "ENTRY_OVERHEAD \<equiv> 4"

type_synonym TrunkFrame = "TrunkEntry list"

definition trunk_wire_size :: "TrunkFrame \<Rightarrow> nat" where
  "trunk_wire_size f = 2 + sum_list (map (\<lambda>e. ENTRY_OVERHEAD + length (entry_payload e)) f)"

definition entry_encode :: "TrunkEntry \<Rightarrow> byte list" where
  "entry_encode e =
     [fst (entry_session e), snd (entry_session e)] @
     put_u16 (of_nat (length (entry_payload e))) @ entry_payload e"

definition trunk_encode :: "TrunkFrame \<Rightarrow> byte list" where
  "trunk_encode f = put_u16 (of_nat (length f)) @ concat (map entry_encode f)"

fun trunk_entries :: "nat \<Rightarrow> byte list \<Rightarrow> TrunkFrame option" where
  "trunk_entries 0 cursor = Some []"
| "trunk_entries (Suc n) cursor =
     (if length cursor < ENTRY_OVERHEAD then None
      else let (a, cursor) = get_u8 cursor; (b, cursor) = get_u8 cursor;
               (l, cursor) = get_u16 cursor; len = unat l in
        if length cursor < len then None
        else case trunk_entries n (drop len cursor) of
            None \<Rightarrow> None
          | Some es \<Rightarrow>
              Some (\<lparr>entry_session = (a, b), entry_payload = take len cursor\<rparr> # es))"

definition trunk_decode :: "byte list \<Rightarrow> TrunkFrame option" where
  "trunk_decode buf =
     (if length buf < 2 then None
      else let (count, cursor) = get_u16 buf in trunk_entries (unat count) cursor)"

text \<open>The counts and lengths that the 16-bit fields can express.\<close>

definition entry_fits :: "TrunkEntry \<Rightarrow> bool" where
  "entry_fits e \<longleftrightarrow> length (entry_payload e) < 2 ^ 16"

definition trunk_fits :: "TrunkFrame \<Rightarrow> bool" where
  "trunk_fits f \<longleftrightarrow> length f < 2 ^ 16 \<and> (\<forall>e \<in> set f. entry_fits e)"

lemma length_entry_encode: "length (entry_encode e) = ENTRY_OVERHEAD + length (entry_payload e)"
  by (simp add: entry_encode_def)

lemma length_trunk_encode: "length (trunk_encode f) = trunk_wire_size f"
  by (simp add: trunk_encode_def trunk_wire_size_def length_concat comp_def length_entry_encode)

lemma trunk_entries_encode:
  "\<forall>e \<in> set f. entry_fits e \<Longrightarrow> trunk_entries (length f) (concat (map entry_encode f) @ r) = Some f"
proof (induction f)
  case Nil
  then show ?case by simp
next
  case (Cons e f)
  have "unat (of_nat (length (entry_payload e)) :: u16) = length (entry_payload e)"
    using Cons.prems by (simp add: entry_fits_def)
  then show ?case using Cons by (simp add: entry_encode_def Let_def)
qed

lemma trunk_decode_encode:
  assumes "trunk_fits f"
  shows "trunk_decode (trunk_encode f @ r) = Some f"
proof -
  have "unat (of_nat (length f) :: u16) = length f"
    using assms by (simp add: trunk_fits_def)
  then show ?thesis
    using assms trunk_entries_encode [of f r]
    by (simp add: trunk_decode_def trunk_encode_def trunk_fits_def)
qed

lemma trunk_entries_Suc:
  "trunk_entries (Suc n) (x # y # put_u16 w @ c) =
   (if length c < unat w then None
    else case trunk_entries n (drop (unat w) c) of None \<Rightarrow> None
      | Some es \<Rightarrow> Some (\<lparr>entry_session = (x, y), entry_payload = take (unat w) c\<rparr> # es))"
  by (simp add: Let_def)

lemma trunk_entries_sound:
  "trunk_entries n b = Some f \<Longrightarrow>
   length f = n \<and> (\<forall>e \<in> set f. entry_fits e) \<and> (\<exists>r. b = concat (map entry_encode f) @ r)"
proof (induction n arbitrary: b f)
  case 0
  then show ?case by simp
next
  case (Suc n)
  have len: "4 \<le> length b" using Suc.prems by (auto split: if_splits)
  define l where "l = unat (u16_of_be (b ! 2) (b ! 3))"
  define c where "c = drop 4 b"
  have b: "b = b ! 0 # b ! 1 # put_u16 (u16_of_be (b ! 2) (b ! 3)) @ c"
    using list_4 [OF len] by (simp add: put_u16_of_be c_def)
  have "trunk_entries (Suc n) b =
      (if length c < l then None
       else case trunk_entries n (drop l c) of None \<Rightarrow> None
         | Some es \<Rightarrow> Some (\<lparr>entry_session = (b ! 0, b ! 1), entry_payload = take l c\<rparr> # es))"
    unfolding l_def by (subst b) (rule trunk_entries_Suc)
  with Suc.prems obtain es where l: "l \<le> length c" and es: "trunk_entries n (drop l c) = Some es"
    and f: "f = \<lparr>entry_session = (b ! 0, b ! 1), entry_payload = take l c\<rparr> # es"
    by (auto split: if_splits option.splits)
  obtain r where ih: "length es = n" "\<forall>e \<in> set es. entry_fits e"
      "drop l c = concat (map entry_encode es) @ r"
    using Suc.IH [OF es] by blast
  have "l < 2 ^ 16" unfolding l_def using unsigned_less [of "u16_of_be (b ! 2) (b ! 3)"] by simp
  moreover have "(of_nat l :: u16) = u16_of_be (b ! 2) (b ! 3)" by (simp add: l_def)
  moreover have "c = take l c @ drop l c" by simp
  ultimately show ?case
    using l ih f by (subst b) (simp add: entry_encode_def entry_fits_def, blast)
qed

text \<open>
  Also (the trunk format is exact).  Decoding succeeds on exactly the buffers that start with the
  encoding of a frame whose counts fit their 16-bit fields, and gives that frame back.
\<close>

theorem trunk_decode_exact:
  "trunk_decode b = Some f \<longleftrightarrow> trunk_fits f \<and> (\<exists>r. b = trunk_encode f @ r)"
proof
  assume d: "trunk_decode b = Some f"
  then have len: "2 \<le> length b" by (auto simp: trunk_decode_def split: if_splits)
  obtain count c where g: "get_u16 b = (count, c)" by fastforce
  with d len have "trunk_entries (unat count) c = Some f" by (simp add: trunk_decode_def)
  from trunk_entries_sound [OF this] obtain r where
    f: "length f = unat count" "\<forall>e \<in> set f. entry_fits e" "c = concat (map entry_encode f) @ r"
    by blast
  have "length f < 2 ^ 16" using f(1) unsigned_less [of count] by simp
  moreover have "b = put_u16 count @ c" by (rule get_u16_eq [OF g len])
  moreover have "of_nat (length f) = count" using f(1) by simp
  ultimately show "trunk_fits f \<and> (\<exists>r. b = trunk_encode f @ r)"
    using f(2,3) by (auto simp: trunk_fits_def trunk_encode_def)
qed (auto simp: trunk_decode_encode)

section \<open>The batcher\<close>

record TrunkBatcher =
  pending :: TrunkFrame
  pending_bytes :: nat
  max_entries :: nat
  max_bytes :: nat
  flush_interval_ms :: nat

abbreviation (input) FRAME_HEADER :: nat where "FRAME_HEADER \<equiv> 2"

definition batcher_new :: TrunkBatcher where
  "batcher_new =
     \<lparr>pending = [], pending_bytes = FRAME_HEADER, max_entries = 10, max_bytes = 1200,
      flush_interval_ms = 5\<rparr>"

definition should_flush :: "TrunkBatcher \<Rightarrow> bool" where
  "should_flush b \<longleftrightarrow> max_entries b \<le> length (pending b) \<or> max_bytes b \<le> pending_bytes b"

definition should_flush_with :: "nat \<Rightarrow> TrunkBatcher \<Rightarrow> bool" where
  "should_flush_with extra b \<longleftrightarrow>
     max_entries b < length (pending b) + 1 \<or> max_bytes b < pending_bytes b + extra"

definition take_pending :: "TrunkBatcher \<Rightarrow> TrunkFrame \<times> TrunkBatcher" where
  "take_pending b = (pending b, b\<lparr>pending := [], pending_bytes := FRAME_HEADER\<rparr>)"

definition batcher_push :: "TrunkEntry \<Rightarrow> TrunkBatcher \<Rightarrow> TrunkFrame option \<times> TrunkBatcher" where
  "batcher_push e b =
     (let entry_wire = ENTRY_OVERHEAD + length (entry_payload e) in
      if should_flush_with entry_wire b \<and> pending b \<noteq> [] then
        let (frame, b) = take_pending b in
        (Some frame, b\<lparr>pending := pending b @ [e], pending_bytes := pending_bytes b + entry_wire\<rparr>)
      else
        let b = b\<lparr>pending := pending b @ [e], pending_bytes := pending_bytes b + entry_wire\<rparr> in
        if should_flush b then (let (frame, b) = take_pending b in (Some frame, b))
        else (None, b))"

definition batcher_flush :: "TrunkBatcher \<Rightarrow> TrunkFrame option \<times> TrunkBatcher" where
  "batcher_flush b =
     (if pending b = [] then (None, b)
      else let (frame, b) = take_pending b in (Some frame, b))"

text \<open>The requests a batcher serves; the limit is public and its user adjusts it.\<close>

datatype batch_op = Push TrunkEntry | Flush | SetMaxBytes nat

fun batch_step :: "TrunkBatcher \<Rightarrow> batch_op \<Rightarrow> TrunkFrame list \<times> TrunkBatcher" where
  "batch_step b (Push e) = map_prod (\<lambda>f. case f of None \<Rightarrow> [] | Some x \<Rightarrow> [x]) id (batcher_push e b)"
| "batch_step b Flush = map_prod (\<lambda>f. case f of None \<Rightarrow> [] | Some x \<Rightarrow> [x]) id (batcher_flush b)"
| "batch_step b (SetMaxBytes m) = ([], b\<lparr>max_bytes := m\<rparr>)"

fun pushed :: "batch_op \<Rightarrow> TrunkEntry list" where
  "pushed (Push e) = [e]"
| "pushed _ = []"

interpretation batcher: fifo_stage batch_step pending pushed "\<lambda>f. f"
proof
  fix b op
  show "concat (map (\<lambda>f. f) (fst (batch_step b op))) @ pending (snd (batch_step b op)) =
      pending b @ pushed op"
    by (cases op) (simp_all add: batcher_push_def batcher_flush_def take_pending_def Let_def)
qed

text \<open>
  Also (the batcher loses nothing and keeps the order).  Whatever sequence of pushes, timer
  flushes and limit changes a batcher sees, the entries of the frames it emitted, followed by
  the entries it still holds, are the pushed entries in order.
\<close>

theorem batcher_lossless:
  "concat (fst (stage_run batch_step batcher_new ops)) @
     pending (snd (stage_run batch_step batcher_new ops)) = concat (map pushed ops)"
  using batcher.run_conserves [of batcher_new ops] by (simp add: batcher_new_def)

definition batch_inv :: "nat \<Rightarrow> nat \<Rightarrow> TrunkBatcher \<Rightarrow> bool" where
  "batch_inv me mb b \<longleftrightarrow>
     max_entries b = me \<and> max_bytes b = mb \<and> pending_bytes b = trunk_wire_size (pending b) \<and>
     (pending b \<noteq> [] \<longrightarrow> length (pending b) < me \<or> length (pending b) = 1) \<and>
     (pending_bytes b \<le> mb \<or> length (pending b) \<le> 1)"

definition frame_ok :: "nat \<Rightarrow> nat \<Rightarrow> TrunkFrame \<Rightarrow> bool" where
  "frame_ok me mb f \<longleftrightarrow> f \<noteq> [] \<and> length f \<le> me \<and> (trunk_wire_size f \<le> mb \<or> length f = 1)"

lemma trunk_wire_size_snoc:
  "trunk_wire_size (f @ [e]) = trunk_wire_size f + (ENTRY_OVERHEAD + length (entry_payload e))"
  by (simp add: trunk_wire_size_def)

lemma trunk_wire_size_Nil: "trunk_wire_size [] = FRAME_HEADER"
  by (simp add: trunk_wire_size_def)

lemma batch_inv_step:
  assumes "batch_inv me mb b" and "0 < me" and "\<And>m. op \<noteq> SetMaxBytes m"
  shows "batch_inv me mb (snd (batch_step b op)) \<and>
    (\<forall>f \<in> set (fst (batch_step b op)). frame_ok me mb f)"
proof (cases op)
  case (Push e)
  note defs = batch_inv_def frame_ok_def batcher_push_def take_pending_def should_flush_def
    should_flush_with_def Let_def trunk_wire_size_snoc trunk_wire_size_Nil Suc_le_eq
    trunk_wire_size_snoc [of "[]", simplified]
  show ?thesis
  proof (cases "pending b = []")
    case True
    then show ?thesis using assms(1,2) Push by (auto simp: defs)
  next
    case False
    then have "\<not> length (pending b) \<le> Suc 0 \<or> length (pending b) = Suc 0"
      by (cases "pending b") auto
    then show ?thesis using assms(1,2) Push False by (elim disjE) (auto simp: defs)
  qed
next
  case Flush
  then show ?thesis
    using assms(1,2)
    by (auto simp: batch_inv_def frame_ok_def batcher_flush_def take_pending_def
        trunk_wire_size_Nil le_Suc_eq)
next
  case (SetMaxBytes m)
  then show ?thesis using assms(3) by simp
qed

lemma batch_inv_new: "batch_inv me mb (batcher_new\<lparr>max_entries := me, max_bytes := mb\<rparr>)"
  by (simp add: batch_inv_def batcher_new_def trunk_wire_size_Nil)

lemma batch_run_bounds:
  "batch_inv me mb b \<Longrightarrow> 0 < me \<Longrightarrow> \<forall>op \<in> set ops. \<forall>m. op \<noteq> SetMaxBytes m \<Longrightarrow>
   \<forall>f \<in> set (fst (stage_run batch_step b ops)). frame_ok me mb f"
proof (induction ops arbitrary: b)
  case Nil
  then show ?case by simp
next
  case (Cons op ops)
  obtain out b' where b': "batch_step b op = (out, b')" by fastforce
  have "\<And>m. op \<noteq> SetMaxBytes m" using Cons.prems(3) by simp
  from batch_inv_step [OF Cons.prems(1,2) this] b' Cons.IH [of b'] Cons.prems(2,3)
  show ?case by (auto simp: split_beta)
qed

text \<open>
  Also (frame bounds).  With fixed limits every emitted frame is non-empty, has at most
  \<open>max_entries\<close> entries, and its encoding has at most \<open>max_bytes\<close> bytes, except that an entry
  too large for any frame travels alone.
\<close>

theorem batcher_frame_bounds:
  assumes "0 < me" and "\<forall>op \<in> set ops. \<forall>m. op \<noteq> SetMaxBytes m"
    and "f \<in> set (fst (stage_run batch_step (batcher_new\<lparr>max_entries := me, max_bytes := mb\<rparr>) ops))"
  shows "f \<noteq> [] \<and> length f \<le> me \<and> (length (trunk_encode f) \<le> mb \<or> length f = 1)"
  using batch_run_bounds [OF batch_inv_new assms(1,2), of mb] assms(3)
  by (auto simp: frame_ok_def length_trunk_encode)

theorem batcher_frame_bounds_witness:
  "let e = \<lparr>entry_session = (0, 1), entry_payload = [1, 2, 3]\<rparr>;
       fs = fst (stage_run batch_step (batcher_new\<lparr>max_entries := 5, max_bytes := 20\<rparr>)
                   [Push e, Push e, Push e, Flush]) in
   fs = [[e, e], [e]] \<and> (\<forall>f \<in> set fs. length (trunk_encode f) \<le> 20 \<or> length f = 1)"
proof -
  define e :: TrunkEntry where "e = \<lparr>entry_session = (0, 1), entry_payload = [1, 2, 3]\<rparr>"
  have "fst (stage_run batch_step (batcher_new\<lparr>max_entries := 5, max_bytes := 20\<rparr>)
            [Push e, Push e, Push e, Flush]) = [[e, e], [e]]"
    by (simp add: e_def batcher_push_def batcher_flush_def take_pending_def should_flush_def
        should_flush_with_def batcher_new_def)
  moreover from batcher_frame_bounds [of 5 "[Push e, Push e, Push e, Flush]" _ 20]
  have "f \<in> set (fst (stage_run batch_step (batcher_new\<lparr>max_entries := 5, max_bytes := 20\<rparr>)
            [Push e, Push e, Push e, Flush])) \<Longrightarrow> length (trunk_encode f) \<le> 20 \<or> length f = 1" for f
    by force
  ultimately show ?thesis unfolding e_def [symmetric] Let_def by metis
qed

section \<open>The trunked forwarder\<close>

datatype TransportError =
    DatagramTooLarge nat nat
  | TransportInternal string

record connection =
  max_datagram_size :: "nat option"
  send_datagram :: "byte list \<Rightarrow> bool"

definition send_trunk :: "connection \<Rightarrow> TrunkFrame \<Rightarrow> TransportError + byte list" where
  "send_trunk conn frame =
     (let data = trunk_encode frame;
          sent = (if send_datagram conn data then Inr data
                  else Inl (TransportInternal ''send trunk datagram error'')) in
      case max_datagram_size conn of
        None \<Rightarrow> sent
      | Some m \<Rightarrow> if m < length data then Inl (DatagramTooLarge (length data) m) else sent)"

record TrunkedForwarder =
  fw_batcher :: TrunkBatcher
  fw_session_id :: "byte \<times> byte"

definition refresh_limit :: "connection \<Rightarrow> TrunkBatcher \<Rightarrow> TrunkBatcher" where
  "refresh_limit conn b =
     (case max_datagram_size conn of None \<Rightarrow> b | Some mtu \<Rightarrow> b\<lparr>max_bytes := mtu\<rparr>)"

definition forwarder_new :: "connection \<Rightarrow> byte \<times> byte \<Rightarrow> TrunkedForwarder" where
  "forwarder_new conn sid =
     \<lparr>fw_batcher = refresh_limit conn batcher_new, fw_session_id = sid\<rparr>"

definition send_frame :: "connection \<Rightarrow> TrunkFrame option \<Rightarrow> TransportError + byte list option" where
  "send_frame conn f =
     (case f of None \<Rightarrow> Inr None
      | Some frame \<Rightarrow> (case send_trunk conn frame of Inl e \<Rightarrow> Inl e | Inr d \<Rightarrow> Inr (Some d)))"

definition forwarder_send ::
  "connection \<Rightarrow> MediaPacket \<Rightarrow> TrunkedForwarder \<Rightarrow>
   (TransportError + byte list option) \<times> TrunkedForwarder" where
  "forwarder_send conn pkt fw =
     (let b = refresh_limit conn (fw_batcher fw);
          e = \<lparr>entry_session = fw_session_id fw, entry_payload = packet_to_bytes pkt\<rparr>;
          (frame, b) = batcher_push e b in
      (send_frame conn frame, fw\<lparr>fw_batcher := b\<rparr>))"

definition forwarder_flush ::
  "connection \<Rightarrow> TrunkedForwarder \<Rightarrow> (TransportError + byte list option) \<times> TrunkedForwarder" where
  "forwarder_flush conn fw =
     (let (frame, b) = batcher_flush (fw_batcher fw) in
      (send_frame conn frame, fw\<lparr>fw_batcher := b\<rparr>))"

text \<open>The forwarder's life: packets to send and ticks of the 5 ms timer.\<close>

datatype fw_op = SendPkt MediaPacket | Tick

fun fw_step :: "connection \<Rightarrow> TrunkedForwarder \<Rightarrow> fw_op \<Rightarrow>
  (TransportError + byte list option) \<times> TrunkedForwarder" where
  "fw_step conn fw (SendPkt p) = forwarder_send conn p fw"
| "fw_step conn fw Tick = forwarder_flush conn fw"

fun fw_run :: "connection \<Rightarrow> TrunkedForwarder \<Rightarrow> fw_op list \<Rightarrow>
  (TransportError + byte list option) list \<times> TrunkedForwarder" where
  "fw_run conn fw [] = ([], fw)"
| "fw_run conn fw (op # ops) =
     (let (r, fw') = fw_step conn fw op; (rs, fw'') = fw_run conn fw' ops in (r # rs, fw''))"

fun sent_packets :: "fw_op list \<Rightarrow> MediaPacket list" where
  "sent_packets [] = []"
| "sent_packets (SendPkt p # ops) = p # sent_packets ops"
| "sent_packets (Tick # ops) = sent_packets ops"

text \<open>The datagrams that went out, and the entries the packets become.\<close>

definition datagrams :: "(TransportError + byte list option) list \<Rightarrow> byte list list" where
  "datagrams rs = List.map_filter (\<lambda>r. case r of Inl _ \<Rightarrow> None | Inr d \<Rightarrow> d) rs"

definition entry_of :: "byte \<times> byte \<Rightarrow> MediaPacket \<Rightarrow> TrunkEntry" where
  "entry_of sid p = \<lparr>entry_session = sid, entry_payload = packet_to_bytes p\<rparr>"

lemma datagrams_simps [simp]:
  "datagrams [] = []" "datagrams (Inr None # rs) = datagrams rs"
  "datagrams (Inr (Some d) # rs) = d # datagrams rs" "datagrams (Inl e # rs) = datagrams rs"
  by (simp_all add: datagrams_def List.map_filter_def)

definition entry_small :: "nat \<Rightarrow> TrunkEntry \<Rightarrow> bool" where
  "entry_small m e \<longleftrightarrow> FRAME_HEADER + ENTRY_OVERHEAD + length (entry_payload e) \<le> m"

definition open_conn :: "nat \<Rightarrow> connection \<Rightarrow> bool" where
  "open_conn m conn \<longleftrightarrow> max_datagram_size conn = Some m \<and> m < 2 ^ 16 \<and>
     (\<forall>d. length d \<le> m \<longrightarrow> send_datagram conn d)"

definition fw_inv :: "nat \<Rightarrow> TrunkedForwarder \<Rightarrow> bool" where
  "fw_inv m fw \<longleftrightarrow> batch_inv 10 m (fw_batcher fw) \<and>
     (\<forall>e \<in> set (pending (fw_batcher fw)). entry_small m e)"

lemma send_frame_delivers:
  assumes "open_conn m conn" and "frame_ok 10 m f" and small: "\<forall>e \<in> set f. entry_small m e"
  shows "send_frame conn (Some f) = Inr (Some (trunk_encode f)) \<and> trunk_fits f \<and> length f \<le> 10"
proof -
  have "trunk_wire_size f \<le> m"
    using assms(2) small
    by (auto simp: frame_ok_def entry_small_def trunk_wire_size_def length_Suc_conv)
  moreover have "trunk_fits f"
    using assms by (fastforce simp: trunk_fits_def frame_ok_def entry_fits_def entry_small_def
        open_conn_def)
  ultimately show ?thesis
    using assms(1,2)
    by (auto simp: send_frame_def send_trunk_def open_conn_def length_trunk_encode frame_ok_def Let_def)
qed

lemma fw_batch_step:
  assumes inv: "fw_inv m fw" and conn: "open_conn m conn"
    and new: "\<forall>e \<in> set (pushed op). entry_small m e" and op: "\<And>n. op \<noteq> SetMaxBytes n"
    and st: "batch_step (fw_batcher fw) op = (case fr of None \<Rightarrow> [] | Some f \<Rightarrow> [f], b)"
  shows "fw_inv m (fw\<lparr>fw_batcher := b\<rparr>) \<and>
    send_frame conn fr = Inr (map_option trunk_encode fr) \<and>
    (\<forall>f. fr = Some f \<longrightarrow> trunk_fits f \<and> length f \<le> 10) \<and>
    (case fr of None \<Rightarrow> [] | Some f \<Rightarrow> f) @ pending b = pending (fw_batcher fw) @ pushed op"
proof -
  have cons: "(case fr of None \<Rightarrow> [] | Some f \<Rightarrow> f) @ pending b = pending (fw_batcher fw) @ pushed op"
    using batcher.step_conserves [of "fw_batcher fw" op] st by (cases fr) auto
  have set: "set (case fr of None \<Rightarrow> [] | Some f \<Rightarrow> f) \<union> set (pending b) =
      set (pending (fw_batcher fw)) \<union> set (pushed op)"
    using arg_cong [OF cons, of set] by simp
  have "batch_inv 10 m b \<and> (\<forall>f. fr = Some f \<longrightarrow> frame_ok 10 m f)"
    using batch_inv_step [of 10 m "fw_batcher fw" op] inv op st
    by (cases fr) (auto simp: fw_inv_def)
  moreover have "\<forall>e \<in> set (case fr of None \<Rightarrow> [] | Some f \<Rightarrow> f) \<union> set (pending b). entry_small m e"
    unfolding set using inv new by (auto simp: fw_inv_def)
  ultimately have "fw_inv m (fw\<lparr>fw_batcher := b\<rparr>)"
    and "\<And>f. fr = Some f \<Longrightarrow> frame_ok 10 m f \<and> (\<forall>e \<in> set f. entry_small m e)"
    by (auto simp: fw_inv_def)
  with send_frame_delivers [OF conn] cons show ?thesis
    by (cases fr) (auto simp: send_frame_def)
qed

lemma fw_step_delivers:
  assumes "fw_inv m fw" and "open_conn m conn"
    and p: "\<forall>p \<in> set (sent_packets [op]). 6 + length (packet_to_bytes p) \<le> m"
    and st: "fw_step conn fw op = (r, fw')"
  obtains fr where "fw_inv m fw'" "fw_session_id fw' = fw_session_id fw"
    "r = Inr (map_option trunk_encode fr)" "\<forall>f. fr = Some f \<longrightarrow> trunk_fits f \<and> length f \<le> 10"
    "(case fr of None \<Rightarrow> [] | Some f \<Rightarrow> f) @ pending (fw_batcher fw') =
      pending (fw_batcher fw) @ map (entry_of (fw_session_id fw)) (sent_packets [op])"
proof (cases op)
  case (SendPkt p)
  define e where "e = entry_of (fw_session_id fw) p"
  have e: "entry_small m e"
    using p SendPkt by (simp add: e_def entry_of_def entry_small_def)
  obtain fr b where b: "batcher_push e (fw_batcher fw) = (fr, b)" by fastforce
  have "refresh_limit conn (fw_batcher fw) = fw_batcher fw"
    using assms(1,2) by (simp add: refresh_limit_def open_conn_def fw_inv_def batch_inv_def)
  then have "r = send_frame conn fr" "fw' = fw\<lparr>fw_batcher := b\<rparr>"
    using st SendPkt b by (simp_all add: forwarder_send_def entry_of_def [symmetric] e_def [symmetric])
  with fw_batch_step [OF assms(1,2), of "Push e" fr b] b e SendPkt that [of fr] e_def
  show ?thesis by simp
next
  case Tick
  obtain fr b where b: "batcher_flush (fw_batcher fw) = (fr, b)" by fastforce
  then have "r = send_frame conn fr" "fw' = fw\<lparr>fw_batcher := b\<rparr>"
    using st Tick by (simp_all add: forwarder_flush_def)
  with fw_batch_step [OF assms(1,2), of Flush fr b] b Tick that [of fr] show ?thesis by simp
qed

lemma sent_packets_append: "sent_packets (a @ b) = sent_packets a @ sent_packets b"
  by (induction a rule: sent_packets.induct) simp_all

lemma fw_run_delivers:
  "fw_inv m fw \<Longrightarrow> open_conn m conn \<Longrightarrow>
   \<forall>p \<in> set (sent_packets ops). 6 + length (packet_to_bytes p) \<le> m \<Longrightarrow>
   fw_run conn fw ops = (rs, fw') \<Longrightarrow>
   (\<forall>r \<in> set rs. \<not> isl r) \<and>
   (\<exists>fs. datagrams rs = map trunk_encode fs \<and> (\<forall>f \<in> set fs. trunk_fits f \<and> length f \<le> 10) \<and>
     concat fs @ pending (fw_batcher fw') =
       pending (fw_batcher fw) @ map (entry_of (fw_session_id fw)) (sent_packets ops))"
proof (induction ops arbitrary: fw rs)
  case Nil
  then show ?case by simp
next
  case (Cons op ops)
  obtain r fw1 where st: "fw_step conn fw op = (r, fw1)" by fastforce
  obtain rs1 where rs: "fw_run conn fw1 ops = (rs1, fw')" "rs = r # rs1"
    using Cons.prems(4) st by (auto split: prod.splits)
  have sp: "sent_packets (op # ops) = sent_packets [op] @ sent_packets ops"
    using sent_packets_append [of "[op]" ops] by simp
  then have "\<forall>p \<in> set (sent_packets [op]). 6 + length (packet_to_bytes p) \<le> m"
    "\<forall>p \<in> set (sent_packets ops). 6 + length (packet_to_bytes p) \<le> m"
    using Cons.prems(3) by auto
  note le = this
  obtain fr where fr: "fw_inv m fw1" "fw_session_id fw1 = fw_session_id fw"
    "r = Inr (map_option trunk_encode fr)" "\<forall>f. fr = Some f \<longrightarrow> trunk_fits f \<and> length f \<le> 10"
    "(case fr of None \<Rightarrow> [] | Some f \<Rightarrow> f) @ pending (fw_batcher fw1) =
      pending (fw_batcher fw) @ map (entry_of (fw_session_id fw)) (sent_packets [op])"
    by (rule fw_step_delivers [OF Cons.prems(1,2) le(1) st])
  obtain fs where fs: "\<forall>r \<in> set rs1. \<not> isl r" "datagrams rs1 = map trunk_encode fs"
    "\<forall>f \<in> set fs. trunk_fits f \<and> length f \<le> 10"
    "concat fs @ pending (fw_batcher fw') =
       pending (fw_batcher fw1) @ map (entry_of (fw_session_id fw)) (sent_packets ops)"
    using Cons.IH [OF fr(1) Cons.prems(2) le(2) rs(1)] fr(2) by auto
  show ?case
  proof (cases fr)
    case None
    then show ?thesis
      using fs fr(3,5) by (auto simp: rs(2) sp simp del: sent_packets.simps intro!: exI [of _ fs])
  next
    case (Some f)
    have "concat (f # fs) @ pending (fw_batcher fw') =
        pending (fw_batcher fw) @ map (entry_of (fw_session_id fw)) (sent_packets (op # ops))"
      using fs(4) fr(5) Some
      by (simp add: sp del: sent_packets.simps)
    then show ?thesis
      using fs fr(3,4) Some by (auto simp: rs(2) simp del: sent_packets.simps intro!: exI [of _ "f # fs"])
  qed
qed

lemma pending_after_tick: "pending (fw_batcher (snd (fw_step conn fw Tick))) = []"
  by (simp add: forwarder_flush_def batcher_flush_def take_pending_def)

lemma fw_run_append:
  "fw_run conn fw (a @ b) =
   (let (r1, f1) = fw_run conn fw a; (r2, f2) = fw_run conn f1 b in (r1 @ r2, f2))"
  by (induction a arbitrary: fw) (simp_all add: split_beta Let_def)

lemma flushed_run_delivers:
  assumes "open_conn m conn" and "\<forall>p \<in> set (sent_packets ops). 6 + length (packet_to_bytes p) \<le> m"
    and "fst (fw_run conn (forwarder_new conn sid) (ops @ [Tick])) = rs"
  shows "(\<forall>r \<in> set rs. \<not> isl r) \<and>
    (\<exists>fs. datagrams rs = map trunk_encode fs \<and> (\<forall>f \<in> set fs. trunk_fits f \<and> length f \<le> 10) \<and>
      concat fs = map (entry_of sid) (sent_packets ops))"
proof -
  obtain fw' where run: "fw_run conn (forwarder_new conn sid) (ops @ [Tick]) = (rs, fw')"
    using assms(3) by (cases "fw_run conn (forwarder_new conn sid) (ops @ [Tick])") auto
  have inv: "fw_inv m (forwarder_new conn sid)" and no: "pending (fw_batcher (forwarder_new conn sid)) = []"
    and sid: "fw_session_id (forwarder_new conn sid) = sid"
    using assms(1)
    by (simp_all add: fw_inv_def forwarder_new_def open_conn_def refresh_limit_def batch_inv_def
        batcher_new_def trunk_wire_size_Nil)
  have "pending (fw_batcher fw') = []"
    using run pending_after_tick by (auto simp: fw_run_append split_beta Let_def simp del: fw_step.simps)
  with fw_run_delivers [OF inv assms(1) _ run] assms(2) no sid show ?thesis
    by (simp add: sent_packets_append)
qed

definition sample_packet :: "byte list \<Rightarrow> MediaPacket" where
  "sample_packet d =
     \<lparr>header = \<lparr>version = 2, flags = 0, media_type = Audio, codec_id = Opus24k, stream_id = 0,
                fec_ratio_wire = 0, seq = 7, timestamp = 140, fec_block = 0\<rparr>,
      payload = d, quality_report = None\<rparr>"

lemma sample_packet_wf: "packet_wf (sample_packet d) \<and> length (packet_to_bytes (sample_packet d)) = 16 + length d"
  by (simp add: packet_wf_def sample_packet_def header_valid_def has_quality_def flag_defs
      packet_to_bytes_def)

text \<open>
  Also (a shrinking path loses the batch).  When the datagram limit falls below what is already
  batched, the next send flushes the batch at its old size: the connection refuses it as too
  large, and the whole batch is dropped, since only the new packet stays pending.
\<close>

theorem shrunk_limit_drops_batch:
  assumes "max_datagram_size conn = Some m" and "pending (fw_batcher fw) \<noteq> []"
    and "pending_bytes (fw_batcher fw) = trunk_wire_size (pending (fw_batcher fw))"
    and "m < trunk_wire_size (pending (fw_batcher fw))"
  shows "fst (forwarder_send conn p fw) =
      Inl (DatagramTooLarge (trunk_wire_size (pending (fw_batcher fw))) m) \<and>
    pending (fw_batcher (snd (forwarder_send conn p fw))) =
      [\<lparr>entry_session = fw_session_id fw, entry_payload = packet_to_bytes p\<rparr>]"
  using assms
  by (simp add: forwarder_send_def refresh_limit_def batcher_push_def should_flush_with_def
      take_pending_def send_frame_def send_trunk_def length_trunk_encode Let_def)

theorem shrunk_limit_drops_batch_witness:
  "let big = \<lparr>max_datagram_size = Some 1200, send_datagram = (\<lambda>_. True)\<rparr>;
       small = \<lparr>max_datagram_size = Some 40, send_datagram = (\<lambda>_. True)\<rparr>;
       fw = snd (fw_run big (forwarder_new big (0, 1))
                   [SendPkt (sample_packet [1]), SendPkt (sample_packet [2])]) in
   fst (forwarder_send small (sample_packet [3]) fw) = Inl (DatagramTooLarge 44 40)"
proof -
  define big where "big = \<lparr>max_datagram_size = Some 1200, send_datagram = (\<lambda>_ :: byte list. True)\<rparr>"
  define small where "small = \<lparr>max_datagram_size = Some 40, send_datagram = (\<lambda>_ :: byte list. True)\<rparr>"
  define fw where "fw = snd (fw_run big (forwarder_new big (0, 1))
    [SendPkt (sample_packet [1]), SendPkt (sample_packet [2])])"
  have fw: "pending (fw_batcher fw) \<noteq> []" "pending_bytes (fw_batcher fw) = 44"
    "trunk_wire_size (pending (fw_batcher fw)) = 44"
    by (simp_all add: fw_def big_def forwarder_new_def refresh_limit_def batcher_new_def
        forwarder_send_def batcher_push_def should_flush_def should_flush_with_def Let_def
        trunk_wire_size_def sample_packet_wf)
  have "max_datagram_size small = Some 40" by (simp add: small_def)
  from shrunk_limit_drops_batch [OF this fw(1)] fw
  have "fst (forwarder_send small (sample_packet [3]) fw) = Inl (DatagramTooLarge 44 40)" by simp
  then show ?thesis unfolding Let_def fw_def big_def small_def .
qed

end
