(* ===== verification/BTree.thy ===== *)
theory BTree
  imports Prelude "HOL-Library.AList"
begin

text \<open>
  Rust's maps as association lists: \<open>BTreeMap\<close> in strictly increasing key order, \<open>HashMap\<close>
  with distinct keys in no particular order (what iterates over one is stated up to order).
  The laws the components rely on are the locale \<open>keyed_map\<close>, interpreted on both.
\<close>

type_synonym ('k, 'v) btree = "('k \<times> 'v) list"

definition bt_ok :: "('k::linorder, 'v) btree \<Rightarrow> bool" where
  "bt_ok m \<longleftrightarrow> sorted_wrt (<) (map fst m)"

definition bt_lookup :: "('k::linorder, 'v) btree \<Rightarrow> 'k \<Rightarrow> 'v option" where
  "bt_lookup m k = map_of m k"

fun bt_insert :: "'k::linorder \<Rightarrow> 'v \<Rightarrow> ('k, 'v) btree \<Rightarrow> ('k, 'v) btree" where
  "bt_insert k v [] = [(k, v)]"
| "bt_insert k v ((j, w) # m) =
     (if k < j then (k, v) # (j, w) # m
      else if k = j then (k, v) # m else (j, w) # bt_insert k v m)"

definition bt_remove :: "'k::linorder \<Rightarrow> ('k, 'v) btree \<Rightarrow> ('k, 'v) btree" where
  "bt_remove k m = filter (\<lambda>e. fst e \<noteq> k) m"

definition bt_first :: "('k::linorder, 'v) btree \<Rightarrow> ('k \<times> 'v) option" where
  "bt_first m = (case m of [] \<Rightarrow> None | e # _ \<Rightarrow> Some e)"

lemma bt_ok_Nil [simp]: "bt_ok []"
  by (simp add: bt_ok_def)

lemma bt_lookup_Nil [simp]: "bt_lookup [] k = None"
  by (simp add: bt_lookup_def)

lemma bt_ok_Cons: "bt_ok ((k, v) # m) \<longleftrightarrow> (\<forall>j \<in> fst ` set m. k < j) \<and> bt_ok m"
  by (simp add: bt_ok_def)

lemma fst_set_bt_insert: "fst ` set (bt_insert k v m) = insert k (fst ` set m)"
  by (induction m rule: bt_insert.induct) (simp_all add: insert_commute)

lemma bt_ok_insert [inv_intro]: "bt_ok m \<Longrightarrow> bt_ok (bt_insert k v m)"
proof (induction m)
  case (Cons e m)
  obtain j w where e: "e = (j, w)" by (cases e)
  consider "k < j" | "k = j" | "j < k" by fastforce
  then show ?case
    using Cons by cases (auto simp: e bt_ok_Cons fst_set_bt_insert intro: less_trans)
qed (simp add: bt_ok_Cons)

lemma bt_ok_remove [inv_intro]: "bt_ok m \<Longrightarrow> bt_ok (bt_remove k m)"
  by (induction m) (auto simp: bt_ok_Cons bt_remove_def)

lemma bt_lookup_insert [simp]:
  "bt_lookup (bt_insert k v m) j = (if j = k then Some v else bt_lookup m j)"
  by (induction m) (auto simp: bt_lookup_def)

lemma bt_lookup_remove [simp]:
  "bt_lookup (bt_remove k m) j = (if j = k then None else bt_lookup m j)"
  by (induction m) (auto simp: bt_lookup_def bt_remove_def)

lemma bt_lookup_None: "bt_lookup m k = None \<longleftrightarrow> k \<notin> fst ` set m"
  by (auto simp: bt_lookup_def map_of_eq_None_iff)

lemma length_bt_insert:
  "bt_ok m \<Longrightarrow> length (bt_insert k v m) = (if bt_lookup m k = None then Suc (length m) else length m)"
  by (induction m) (force simp: bt_lookup_def bt_ok_Cons map_of_eq_None_iff)+

lemma bt_remove_absent: "bt_lookup m k = None \<Longrightarrow> bt_remove k m = m"
  by (auto simp: bt_lookup_None bt_remove_def intro!: filter_True)

lemma bt_remove_first: "bt_ok ((k, v) # m) \<Longrightarrow> bt_remove k ((k, v) # m) = m"
  by (auto simp: bt_remove_def bt_ok_Cons intro!: filter_True)

lemma length_bt_remove:
  "bt_ok m \<Longrightarrow> length (bt_remove k m) = (if bt_lookup m k = None then length m else length m - 1)"
proof (induction m)
  case Nil
  then show ?case by (simp add: bt_remove_def)
next
  case (Cons e m)
  obtain j w where e: "e = (j, w)" by (cases e)
  show ?case
  proof (cases "k = j")
    case True
    then show ?thesis using Cons.prems e by (simp add: bt_remove_first bt_lookup_def)
  next
    case False
    then show ?thesis
      using Cons e by (cases m) (auto simp: bt_ok_Cons bt_remove_def bt_lookup_def)
  qed
qed

lemma length_bt_remove_le: "length (bt_remove k m) \<le> length m"
  by (simp add: bt_remove_def)

locale keyed_map =
  fixes ok :: "'m \<Rightarrow> bool"
    and empty :: 'm
    and lookup :: "'m \<Rightarrow> 'k \<Rightarrow> 'v option"
    and insert :: "'k \<Rightarrow> 'v \<Rightarrow> 'm \<Rightarrow> 'm"
    and remove :: "'k \<Rightarrow> 'm \<Rightarrow> 'm"
    and count :: "'m \<Rightarrow> nat"
  assumes ok_empty: "ok empty" and lookup_empty: "lookup empty k = None"
    and ok_insert: "ok m \<Longrightarrow> ok (insert k v m)"
    and ok_remove: "ok m \<Longrightarrow> ok (remove k m)"
    and lookup_insert: "ok m \<Longrightarrow> lookup (insert k v m) j = (if j = k then Some v else lookup m j)"
    and lookup_remove: "ok m \<Longrightarrow> lookup (remove k m) j = (if j = k then None else lookup m j)"
    and count_empty: "count empty = 0"
    and count_insert:
      "ok m \<Longrightarrow> count (insert k v m) = (if lookup m k = None then Suc (count m) else count m)"
begin

text \<open>Filling an empty map: the last value written to a key is what it holds.\<close>

lemma fold_insert:
  "ok m \<Longrightarrow> ok (fold (\<lambda>(k, v). insert k v) kvs m) \<and>
   lookup (fold (\<lambda>(k, v). insert k v) kvs m) j =
     (case map_of (rev kvs) j of None \<Rightarrow> lookup m j | Some v \<Rightarrow> Some v)"
  by (induction kvs arbitrary: m)
    (auto simp: ok_insert lookup_insert map_add_def split: option.splits)

lemma fill_count_le:
  "ok m \<Longrightarrow> count (fold (\<lambda>(k, v). insert k v) kvs m) \<le> count m + length kvs"
proof (induction kvs arbitrary: m)
  case (Cons kv kvs)
  obtain k v where kv: "kv = (k, v)" by (cases kv)
  from Cons.IH [OF ok_insert [OF Cons.prems, of k v]] count_insert [OF Cons.prems, of k v] kv
  show ?case by (auto split: if_splits)
qed simp

end

interpretation btree: keyed_map bt_ok "[]" bt_lookup bt_insert bt_remove length
  by unfold_locales (simp_all add: bt_ok_insert bt_ok_remove length_bt_insert)

section \<open>Hash maps\<close>

type_synonym ('k, 'v) hashmap = "('k \<times> 'v) list"

definition hm_ok :: "('k, 'v) hashmap \<Rightarrow> bool" where
  "hm_ok m \<longleftrightarrow> distinct (map fst m)"

abbreviation (input) hm_get :: "('k, 'v) hashmap \<Rightarrow> 'k \<Rightarrow> 'v option" where
  "hm_get \<equiv> map_of"

abbreviation (input) hm_insert :: "'k \<Rightarrow> 'v \<Rightarrow> ('k, 'v) hashmap \<Rightarrow> ('k, 'v) hashmap" where
  "hm_insert \<equiv> AList.update"

abbreviation (input) hm_remove :: "'k \<Rightarrow> ('k, 'v) hashmap \<Rightarrow> ('k, 'v) hashmap" where
  "hm_remove \<equiv> AList.delete"

text \<open>\<open>get_mut\<close>: the entry of a key, if there is one, is rewritten in place.\<close>

definition hm_adjust :: "'k \<Rightarrow> ('v \<Rightarrow> 'v) \<Rightarrow> ('k, 'v) hashmap \<Rightarrow> ('k, 'v) hashmap" where
  "hm_adjust k f m = (case hm_get m k of None \<Rightarrow> m | Some v \<Rightarrow> hm_insert k (f v) m)"

text \<open>\<open>retain\<close>.\<close>

definition hm_retain :: "('k \<Rightarrow> 'v \<Rightarrow> bool) \<Rightarrow> ('k, 'v) hashmap \<Rightarrow> ('k, 'v) hashmap" where
  "hm_retain P m = filter (\<lambda>(k, v). P k v) m"

lemma hm_ok_Nil [simp]: "hm_ok []"
  by (simp add: hm_ok_def)

lemma hm_ok_insert [inv_intro]: "hm_ok m \<Longrightarrow> hm_ok (hm_insert k v m)"
  by (simp add: hm_ok_def distinct_update)

lemma hm_ok_remove [inv_intro]: "hm_ok m \<Longrightarrow> hm_ok (hm_remove k m)"
  by (simp add: hm_ok_def distinct_delete)

lemma hm_ok_adjust [inv_intro]: "hm_ok m \<Longrightarrow> hm_ok (hm_adjust k f m)"
  by (simp add: hm_adjust_def hm_ok_insert split: option.splits)

lemma hm_ok_retain [inv_intro]: "hm_ok m \<Longrightarrow> hm_ok (hm_retain P m)"
  by (induction m) (auto simp: hm_ok_def hm_retain_def)

lemma hm_get_insert [simp]: "hm_get (hm_insert k v m) j = (if j = k then Some v else hm_get m j)"
  by (simp add: update_conv')

lemma hm_get_remove [simp]: "hm_get (hm_remove k m) j = (if j = k then None else hm_get m j)"
  by (simp add: delete_conv')

lemma hm_get_adjust [simp]:
  "hm_get (hm_adjust k f m) j = (if j = k then map_option f (hm_get m k) else hm_get m j)"
  by (simp add: hm_adjust_def split: option.splits)

lemma hm_get_retain:
  "hm_ok m \<Longrightarrow> hm_get (hm_retain P m) k =
     (case hm_get m k of None \<Rightarrow> None | Some v \<Rightarrow> if P k v then Some v else None)"
  by (induction m)
    (auto simp: hm_ok_def hm_retain_def map_of_eq_None_iff split: option.splits if_splits)

lemma length_hm_insert:
  "length (hm_insert k v m) = (if hm_get m k = None then Suc (length m) else length m)"
  by (induction m) auto

text \<open>Every entry satisfies a predicate.\<close>

definition hm_all :: "('k \<Rightarrow> 'v \<Rightarrow> bool) \<Rightarrow> ('k, 'v) hashmap \<Rightarrow> bool" where
  "hm_all P m \<longleftrightarrow> (\<forall>k v. hm_get m k = Some v \<longrightarrow> P k v)"

lemma hm_allD: "hm_all P m \<Longrightarrow> hm_get m k = Some v \<Longrightarrow> P k v"
  by (simp add: hm_all_def)

lemma hm_all_Nil [simp]: "hm_all P []"
  by (simp add: hm_all_def)

lemma hm_all_mono: "hm_all P m \<Longrightarrow> (\<And>k v. P k v \<Longrightarrow> Q k v) \<Longrightarrow> hm_all Q m"
  by (simp add: hm_all_def)

lemma hm_all_insert [inv_intro]: "hm_all P m \<Longrightarrow> P k v \<Longrightarrow> hm_all P (hm_insert k v m)"
  by (simp add: hm_all_def)

lemma hm_all_remove [inv_intro]: "hm_all P m \<Longrightarrow> hm_all P (hm_remove k m)"
  by (simp add: hm_all_def)

lemma hm_all_retain: "hm_ok m \<Longrightarrow> hm_all P m \<Longrightarrow> hm_all (\<lambda>k v. P k v \<and> Q k v) (hm_retain Q m)"
  by (auto simp: hm_all_def hm_get_retain split: option.splits if_splits)

lemma hm_get_fold_remove:
  "hm_get (fold hm_remove ks m) j = (if j \<in> set ks then None else hm_get m j)"
  by (induction ks arbitrary: m) auto

lemma hm_ok_fold_remove: "hm_ok m \<Longrightarrow> hm_ok (fold hm_remove ks m)"
  by (induction ks arbitrary: m) (simp_all add: hm_ok_remove)

interpretation hashmap: keyed_map hm_ok "[]" hm_get hm_insert hm_remove length
  by unfold_locales (simp_all add: hm_ok_insert hm_ok_remove length_hm_insert)

end
