(* ===== verification/Jitter.thy ===== *)
theory Jitter
  imports BTree Packet Complex_Main
begin

text \<open>
  The adaptive jitter buffer of \<open>crates/wzp-proto/src/jitter.rs\<close>.  The buffer is a
  \<open>BTreeMap<u32, MediaPacket>\<close>, ordered by the raw sequence number; sequence arithmetic wraps
  at 32 bits.  The playout delay estimator computes in \<open>f64\<close>; the model computes the same
  expressions in exact rational numbers.  \<open>Instant::now()\<close> is the argument \<open>now\<close>, in
  milliseconds.  The statistics counters are unbounded.
\<close>

section \<open>Adaptive playout delay\<close>

record AdaptivePlayoutDelay =
  target_delay :: nat
  min_delay :: nat
  max_delay :: nat
  jitter_ema :: rat
  alpha_up :: rat
  alpha_down :: rat
  last_arrival_ms :: "nat option"
  last_expected_ms :: "nat option"
  safety_margin :: rat
  spike_detected_at :: "nat option"
  spike_cooldown_ms :: nat
  spike_threshold_multiplier :: rat

abbreviation (input) FRAME_DURATION_MS :: rat where "FRAME_DURATION_MS \<equiv> 20"
abbreviation (input) DEFAULT_SAFETY_MARGIN :: rat where "DEFAULT_SAFETY_MARGIN \<equiv> 2"
abbreviation (input) DEFAULT_ALPHA :: rat where "DEFAULT_ALPHA \<equiv> 5 / 100"

definition adaptive_new :: "nat \<Rightarrow> nat \<Rightarrow> AdaptivePlayoutDelay" where
  "adaptive_new lo hi =
     \<lparr>target_delay = lo, min_delay = lo, max_delay = hi, jitter_ema = 0,
      alpha_up = DEFAULT_ALPHA, alpha_down = DEFAULT_ALPHA, last_arrival_ms = None,
      last_expected_ms = None, safety_margin = DEFAULT_SAFETY_MARGIN, spike_detected_at = None,
      spike_cooldown_ms = 2000, spike_threshold_multiplier = 3\<rparr>"

definition set_mobile_mode :: "bool \<Rightarrow> AdaptivePlayoutDelay \<Rightarrow> AdaptivePlayoutDelay" where
  "set_mobile_mode enabled a =
     (if enabled
      then a\<lparr>safety_margin := 3, alpha_up := 3 / 10, alpha_down := 2 / 100,
             spike_threshold_multiplier := 3, spike_cooldown_ms := 2000\<rparr>
      else a\<lparr>safety_margin := DEFAULT_SAFETY_MARGIN, alpha_up := DEFAULT_ALPHA,
             alpha_down := DEFAULT_ALPHA, spike_threshold_multiplier := 3,
             spike_cooldown_ms := 2000\<rparr>)"

text \<open>\<open>Ord::clamp\<close>, which panics when the bounds are reversed; here \<open>lo \<le> hi\<close> always.\<close>

definition clamp :: "nat \<Rightarrow> nat \<Rightarrow> nat \<Rightarrow> nat" where
  "clamp lo hi x = (if x < lo then lo else if hi < x then hi else x)"

definition note_spike :: "nat \<Rightarrow> rat \<Rightarrow> AdaptivePlayoutDelay \<Rightarrow> AdaptivePlayoutDelay" where
  "note_spike now jitter a =
     (if 0 < jitter_ema a \<and> jitter_ema a * spike_threshold_multiplier a < jitter
      then a\<lparr>spike_detected_at := Some now\<rparr> else a)"

definition expire_spike :: "nat \<Rightarrow> AdaptivePlayoutDelay \<Rightarrow> AdaptivePlayoutDelay" where
  "expire_spike now a =
     (case spike_detected_at a of
        Some t \<Rightarrow> if spike_cooldown_ms a \<le> now - t then a\<lparr>spike_detected_at := None\<rparr> else a
      | None \<Rightarrow> a)"

definition next_ema :: "rat \<Rightarrow> AdaptivePlayoutDelay \<Rightarrow> rat" where
  "next_ema jitter a =
     (let alpha = (if jitter_ema a < jitter then alpha_up a else alpha_down a) in
      alpha * jitter + (1 - alpha) * jitter_ema a)"

definition delay_target :: "AdaptivePlayoutDelay \<Rightarrow> nat" where
  "delay_target a =
     (if spike_detected_at a \<noteq> None then max_delay a
      else
        let raw_target = of_int \<lceil>jitter_ema a / FRAME_DURATION_MS\<rceil> + safety_margin a in
        clamp (min_delay a) (max_delay a) (nat \<lfloor>raw_target\<rfloor>))"

definition delay_update :: "nat \<Rightarrow> nat \<Rightarrow> nat \<Rightarrow> AdaptivePlayoutDelay \<Rightarrow> AdaptivePlayoutDelay" where
  "delay_update now arrival expected a =
     (let a = (case (last_arrival_ms a, last_expected_ms a) of
          (Some last_arrival, Some last_expected) \<Rightarrow>
            let actual_delta = rat_of_nat arrival - rat_of_nat last_arrival;
                expected_delta = rat_of_nat expected - rat_of_nat last_expected;
                jitter = \<bar>actual_delta - expected_delta\<bar>;
                a = note_spike now jitter a;
                a = a\<lparr>jitter_ema := next_ema jitter a\<rparr>;
                a = expire_spike now a in
            a\<lparr>target_delay := delay_target a\<rparr>
        | _ \<Rightarrow> a)
      in a\<lparr>last_arrival_ms := Some arrival, last_expected_ms := Some expected\<rparr>)"

section \<open>The buffer\<close>

record JitterStats =
  packets_received :: nat
  packets_played :: nat
  packets_lost :: nat
  packets_late :: nat
  packets_duplicate :: nat
  current_depth :: nat
  total_decoded :: nat
  underruns :: nat
  overruns :: nat
  max_depth_seen :: nat

definition stats_default :: JitterStats where
  "stats_default =
     \<lparr>packets_received = 0, packets_played = 0, packets_lost = 0, packets_late = 0,
      packets_duplicate = 0, current_depth = 0, total_decoded = 0, underruns = 0, overruns = 0,
      max_depth_seen = 0\<rparr>"

record JitterBuffer =
  buffer :: "(u32, MediaPacket) btree"
  next_playout_seq :: u32
  max_depth :: nat
  target_depth :: nat
  min_depth :: nat
  jb_initialized :: bool
  stats :: JitterStats
  adaptive :: "AdaptivePlayoutDelay option"

datatype PlayoutResult = PPacket MediaPacket | Missing u32 | NotReady

definition jitter_new :: "nat \<Rightarrow> nat \<Rightarrow> nat \<Rightarrow> JitterBuffer" where
  "jitter_new target maxd mind =
     \<lparr>buffer = [], next_playout_seq = 0, max_depth = maxd, target_depth = target,
      min_depth = mind, jb_initialized = False, stats = stats_default, adaptive = None\<rparr>"

definition jitter_new_adaptive :: "nat \<Rightarrow> nat \<Rightarrow> JitterBuffer" where
  "jitter_new_adaptive lo hi =
     \<lparr>buffer = [], next_playout_seq = 0, max_depth = hi, target_depth = lo, min_depth = lo,
      jb_initialized = False, stats = stats_default, adaptive = Some (adaptive_new lo hi)\<rparr>"

definition jitter_default_5s :: JitterBuffer where
  "jitter_default_5s = jitter_new 50 250 25"

definition seq_before :: "u32 \<Rightarrow> u32 \<Rightarrow> bool" where
  "seq_before a b \<longleftrightarrow> (let diff = b - a in 0 < diff \<and> diff < 0x8000)"

abbreviation (input) upd_stats :: "(JitterStats \<Rightarrow> JitterStats) \<Rightarrow> JitterBuffer \<Rightarrow> JitterBuffer" where
  "upd_stats f jb \<equiv> jb\<lparr>stats := f (stats jb)\<rparr>"

text \<open>The eviction loop: the smallest raw key leaves while the buffer is over its depth.\<close>

definition evict_first :: "JitterBuffer \<Rightarrow> JitterBuffer" where
  "evict_first jb =
     (case bt_first (buffer jb) of
        None \<Rightarrow> jb
      | Some (oldest, _) \<Rightarrow>
          let jb = jb\<lparr>buffer := bt_remove oldest (buffer jb)\<rparr>;
              jb = upd_stats (\<lambda>s. s\<lparr>overruns := overruns s + 1\<rparr>) jb in
          if seq_before (next_playout_seq jb) (oldest + 1)
          then upd_stats (\<lambda>s. s\<lparr>packets_lost := packets_lost s + 1\<rparr>)
                 (jb\<lparr>next_playout_seq := oldest + 1\<rparr>)
          else jb)"

lemma evict_first_shrinks:
  "max_depth jb < length (buffer jb) \<Longrightarrow> length (buffer (evict_first jb)) < length (buffer jb)"
  by (cases "buffer jb")
    (auto simp: evict_first_def bt_first_def bt_remove_def Let_def less_Suc_eq_le)

lemma evict_first_max_depth [simp]: "max_depth (evict_first jb) = max_depth jb"
  by (simp add: evict_first_def Let_def split: option.splits)

function evict :: "JitterBuffer \<Rightarrow> JitterBuffer" where
  "evict jb = (if max_depth jb < length (buffer jb) then evict (evict_first jb) else jb)"
  by pat_completeness auto
termination
  by (relation "measure (\<lambda>jb. length (buffer jb))") (simp_all add: evict_first_shrinks)

declare evict.simps [simp del]

text \<open>
  \<open>push\<close> and \<open>push_with_arrival\<close> have the same body but for the arrival time handed to the
  estimator, and \<open>push\<close> alone also lowers \<open>min_depth\<close>: \<open>adapt\<close> is that step.
\<close>

definition record_depth :: "JitterBuffer \<Rightarrow> JitterBuffer" where
  "record_depth jb =
     (let d = length (buffer jb) in
      upd_stats (\<lambda>s. s\<lparr>current_depth := d, max_depth_seen := max (max_depth_seen s) d\<rparr>) jb)"

definition note_arrival :: "u32 \<Rightarrow> JitterBuffer \<Rightarrow> JitterBuffer" where
  "note_arrival sq jb =
     (let jb = upd_stats (\<lambda>s. s\<lparr>packets_received := packets_received s + 1\<rparr>) jb in
      if \<not> jb_initialized jb then jb\<lparr>next_playout_seq := sq, jb_initialized := True\<rparr> else jb)"

definition start_over :: "u32 \<Rightarrow> JitterBuffer \<Rightarrow> JitterBuffer" where
  "start_over sq jb =
     upd_stats (\<lambda>s. s\<lparr>packets_late := 0\<rparr>) (jb\<lparr>buffer := [], next_playout_seq := sq\<rparr>)"

definition store_packet :: "(JitterBuffer \<Rightarrow> JitterBuffer) \<Rightarrow> MediaPacket \<Rightarrow> JitterBuffer \<Rightarrow> JitterBuffer" where
  "store_packet adapt p jb =
     (let sq = seq (header p);
          jb = (if packets_played (stats jb) = 0 \<and> seq_before sq (next_playout_seq jb)
                then jb\<lparr>next_playout_seq := sq\<rparr> else jb);
          jb = adapt jb;
          jb = jb\<lparr>buffer := bt_insert sq p (buffer jb)\<rparr> in
      record_depth (evict jb))"

definition push_body :: "(JitterBuffer \<Rightarrow> JitterBuffer) \<Rightarrow> MediaPacket \<Rightarrow> JitterBuffer \<Rightarrow> JitterBuffer" where
  "push_body adapt p jb =
     (let sq = seq (header p); jb = note_arrival sq jb in
      if bt_lookup (buffer jb) sq \<noteq> None
      then upd_stats (\<lambda>s. s\<lparr>packets_duplicate := packets_duplicate s + 1\<rparr>) jb
      else if 0 < packets_played (stats jb) \<and> seq_before sq (next_playout_seq jb) then
        let backward_distance = next_playout_seq jb - sq in
        if 100 < backward_distance then store_packet adapt p (start_over sq jb)
        else upd_stats (\<lambda>s. s\<lparr>packets_late := packets_late s + 1\<rparr>) jb
      else store_packet adapt p jb)"

definition adapt_push :: "nat \<Rightarrow> MediaPacket \<Rightarrow> JitterBuffer \<Rightarrow> JitterBuffer" where
  "adapt_push now p jb =
     (case adaptive jb of None \<Rightarrow> jb
      | Some a \<Rightarrow>
          let expected_ms = unat (timestamp (header p)); arrival_ms = expected_ms;
              a = delay_update now arrival_ms expected_ms a in
          jb\<lparr>adaptive := Some a, target_depth := target_delay a,
             min_depth := min (min_depth jb) (target_delay a)\<rparr>)"

definition jitter_push :: "nat \<Rightarrow> MediaPacket \<Rightarrow> JitterBuffer \<Rightarrow> JitterBuffer" where
  "jitter_push now p = push_body (adapt_push now p) p"

definition adapt_arrival :: "nat \<Rightarrow> MediaPacket \<Rightarrow> nat \<Rightarrow> JitterBuffer \<Rightarrow> JitterBuffer" where
  "adapt_arrival now p arrival_ms jb =
     (case adaptive jb of None \<Rightarrow> jb
      | Some a \<Rightarrow>
          let a = delay_update now arrival_ms (unat (timestamp (header p))) a in
          jb\<lparr>adaptive := Some a, target_depth := target_delay a\<rparr>)"

definition push_with_arrival :: "nat \<Rightarrow> MediaPacket \<Rightarrow> nat \<Rightarrow> JitterBuffer \<Rightarrow> JitterBuffer" where
  "push_with_arrival now p arrival_ms = push_body (adapt_arrival now p arrival_ms) p"

definition jitter_pop :: "JitterBuffer \<Rightarrow> PlayoutResult \<times> JitterBuffer" where
  "jitter_pop jb =
     (if \<not> jb_initialized jb then (NotReady, jb)
      else if length (buffer jb) < min_depth jb \<and> packets_played (stats jb) = 0 then (NotReady, jb)
      else
        let sq = next_playout_seq jb; jb = jb\<lparr>next_playout_seq := sq + 1\<rparr> in
        case bt_lookup (buffer jb) sq of
          Some p \<Rightarrow>
            let jb = jb\<lparr>buffer := bt_remove sq (buffer jb)\<rparr> in
            (PPacket p, upd_stats (\<lambda>s. s\<lparr>packets_played := packets_played s + 1,
                                         current_depth := length (buffer jb)\<rparr>) jb)
        | None \<Rightarrow>
            (Missing sq, upd_stats (\<lambda>s. s\<lparr>packets_lost := packets_lost s + 1,
                                          current_depth := length (buffer jb)\<rparr>) jb))"

definition jitter_reset :: "JitterBuffer \<Rightarrow> JitterBuffer" where
  "jitter_reset jb = jb\<lparr>buffer := [], jb_initialized := False, stats := stats_default\<rparr>"

definition record_underrun :: "JitterBuffer \<Rightarrow> JitterBuffer" where
  "record_underrun = upd_stats (\<lambda>s. s\<lparr>underruns := underruns s + 1\<rparr>)"

definition record_decode :: "JitterBuffer \<Rightarrow> JitterBuffer" where
  "record_decode = upd_stats (\<lambda>s. s\<lparr>total_decoded := total_decoded s + 1\<rparr>)"

definition reset_stats :: "JitterBuffer \<Rightarrow> JitterBuffer" where
  "reset_stats jb = jb\<lparr>stats := stats_default\<lparr>current_depth := length (buffer jb)\<rparr>\<rparr>"

definition set_target_depth :: "nat \<Rightarrow> JitterBuffer \<Rightarrow> JitterBuffer" where
  "set_target_depth d jb = jb\<lparr>target_depth := min d (max_depth jb)\<rparr>"

section \<open>The buffer stays well formed and bounded\<close>

definition keyed :: "(u32, MediaPacket) btree \<Rightarrow> bool" where
  "keyed b \<longleftrightarrow> bt_ok b \<and> (\<forall>(k, p) \<in> set b. seq (header p) = k)"

lemma keyed_insert [inv_intro]: "keyed b \<Longrightarrow> keyed (bt_insert (seq (header p)) p b)"
proof -
  have "set (bt_insert k v m) \<subseteq> insert (k, v) (set m)" for k v and m :: "(u32, MediaPacket) btree"
    by (induction m rule: bt_insert.induct) auto
  then show "keyed b \<Longrightarrow> ?thesis" unfolding keyed_def by (blast intro: bt_ok_insert)
qed

lemma set_bt_remove: "set (bt_remove k b) \<subseteq> set b"
  by (auto simp: bt_remove_def)

lemma keyed_remove [inv_intro]: "keyed b \<Longrightarrow> keyed (bt_remove k b)"
  unfolding keyed_def using set_bt_remove [of k b] by (blast intro: bt_ok_remove)

lemma keyed_Nil [simp]: "keyed []"
  by (simp add: keyed_def)

lemma keyed_lookup: "keyed b \<Longrightarrow> bt_lookup b k = Some p \<Longrightarrow> seq (header p) = k"
  by (auto simp: keyed_def bt_lookup_def dest!: map_of_SomeD)

lemma set_bt_insert: "bt_ok b \<Longrightarrow> set (bt_insert k v b) \<subseteq> insert (k, v) (set b)"
  by (induction b rule: bt_insert.induct) (auto simp: bt_ok_Cons)

lemma evict_first_buffer:
  "buffer (evict_first jb) = (case bt_first (buffer jb) of None \<Rightarrow> [] | Some (k, _) \<Rightarrow> bt_remove k (buffer jb))"
  by (cases "buffer jb") (auto simp: evict_first_def bt_first_def Let_def)

lemma evict_first_inv:
  assumes "keyed (buffer jb)"
  shows "keyed (buffer (evict_first jb)) \<and> set (buffer (evict_first jb)) \<subseteq> set (buffer jb)"
  using assms keyed_remove [of "buffer jb"]
  by (auto simp: evict_first_buffer bt_remove_def split: option.splits)

lemma evict_id: "length (buffer jb) \<le> max_depth jb \<Longrightarrow> evict jb = jb"
  by (simp add: evict.simps)

lemma evict_more: "max_depth jb < length (buffer jb) \<Longrightarrow> evict jb = evict (evict_first jb)"
  by (subst evict.simps) simp

lemma evict_inv:
  "keyed (buffer jb) \<Longrightarrow>
   keyed (buffer (evict jb)) \<and> set (buffer (evict jb)) \<subseteq> set (buffer jb) \<and>
   length (buffer (evict jb)) \<le> max_depth jb \<and> max_depth (evict jb) = max_depth jb"
proof (induction jb rule: evict.induct)
  case (1 jb)
  show ?case
  proof (cases "max_depth jb < length (buffer jb)")
    case True
    from 1(1) [OF True] evict_first_inv [OF 1(2)] show ?thesis
      by (auto simp: evict_more [OF True])
  next
    case False
    then show ?thesis using 1(2) by (simp add: evict_id)
  qed
qed

definition jb_inv :: "nat \<Rightarrow> MediaPacket set \<Rightarrow> JitterBuffer \<Rightarrow> bool" where
  "jb_inv M A jb \<longleftrightarrow>
     keyed (buffer jb) \<and> snd ` set (buffer jb) \<subseteq> A \<and> length (buffer jb) \<le> M \<and> max_depth jb = M"

lemma jb_inv_stats [simp]: "jb_inv M A (upd_stats f jb) = jb_inv M A jb"
  by (simp add: jb_inv_def)

lemma jb_inv_note_arrival [simp]: "jb_inv M A (note_arrival sq jb) = jb_inv M A jb"
  by (simp add: jb_inv_def note_arrival_def Let_def)

lemma jb_inv_start_over [inv_intro]: "jb_inv M A jb \<Longrightarrow> jb_inv M A (start_over sq jb)"
  by (simp add: jb_inv_def start_over_def)

definition adapter_ok :: "(JitterBuffer \<Rightarrow> JitterBuffer) \<Rightarrow> bool" where
  "adapter_ok adapt \<longleftrightarrow>
     (\<forall>jb. buffer (adapt jb) = buffer jb \<and> max_depth (adapt jb) = max_depth jb)"

lemma jb_inv_store [inv_intro]:
  assumes inv: "jb_inv M A jb" and "p \<in> A" and adapt: "adapter_ok adapt"
  shows "jb_inv M A (store_packet adapt p jb)"
proof -
  define j where "j = adapt (if packets_played (stats jb) = 0 \<and>
      seq_before (seq (header p)) (next_playout_seq jb)
    then jb\<lparr>next_playout_seq := seq (header p)\<rparr> else jb)"
  have j: "keyed (buffer j)" "snd ` set (buffer j) \<subseteq> A" "max_depth j = M"
    using inv adapt by (auto simp: jb_inv_def j_def adapter_ok_def)
  have "keyed (bt_insert (seq (header p)) p (buffer j))" by (rule keyed_insert [OF j(1)])
  moreover have "set (bt_insert (seq (header p)) p (buffer j)) \<subseteq> insert (seq (header p), p) (set (buffer j))"
    using j(1) by (intro set_bt_insert) (simp add: keyed_def)
  moreover have "store_packet adapt p jb =
      record_depth (evict (j\<lparr>buffer := bt_insert (seq (header p)) p (buffer j)\<rparr>))"
    by (simp add: store_packet_def Let_def j_def)
  ultimately show ?thesis
    using evict_inv [of "j\<lparr>buffer := bt_insert (seq (header p)) p (buffer j)\<rparr>"] j(2,3) assms(2)
    by (fastforce simp: jb_inv_def record_depth_def Let_def)
qed

lemma jb_inv_push_body [inv_intro]:
  "jb_inv M A jb \<Longrightarrow> p \<in> A \<Longrightarrow> adapter_ok adapt \<Longrightarrow> jb_inv M A (push_body adapt p jb)"
  by (simp add: push_body_def Let_def jb_inv_store jb_inv_start_over)

lemma jb_inv_pop [inv_intro]: "jb_inv M A jb \<Longrightarrow> jb_inv M A (snd (jitter_pop jb))"
  using keyed_remove [of "buffer jb" "next_playout_seq jb"]
    length_bt_remove_le [of "next_playout_seq jb" "buffer jb"]
    set_bt_remove [of "next_playout_seq jb" "buffer jb"]
  by (fastforce simp: jb_inv_def jitter_pop_def Let_def split: option.splits)

datatype jb_op =
    JPush nat MediaPacket
  | JPushAt nat MediaPacket nat
  | JPop
  | JReset
  | JResetStats
  | JUnderrun
  | JDecode
  | JTarget nat

fun jb_step :: "JitterBuffer \<Rightarrow> jb_op \<Rightarrow> PlayoutResult list \<times> JitterBuffer" where
  "jb_step jb (JPush now p) = ([], jitter_push now p jb)"
| "jb_step jb (JPushAt now p t) = ([], push_with_arrival now p t jb)"
| "jb_step jb JPop = map_prod (\<lambda>r. [r]) id (jitter_pop jb)"
| "jb_step jb JReset = ([], jitter_reset jb)"
| "jb_step jb JResetStats = ([], reset_stats jb)"
| "jb_step jb JUnderrun = ([], record_underrun jb)"
| "jb_step jb JDecode = ([], record_decode jb)"
| "jb_step jb (JTarget d) = ([], set_target_depth d jb)"

fun pushed_packets :: "jb_op list \<Rightarrow> MediaPacket list" where
  "pushed_packets [] = []"
| "pushed_packets (JPush _ p # ops) = p # pushed_packets ops"
| "pushed_packets (JPushAt _ p _ # ops) = p # pushed_packets ops"
| "pushed_packets (_ # ops) = pushed_packets ops"

lemma adapter_ok_push: "adapter_ok (adapt_push now p)" "adapter_ok (adapt_arrival now p t)"
  by (auto simp: adapter_ok_def adapt_push_def adapt_arrival_def Let_def split: option.splits)

lemma jb_inv_step [inv_intro]:
  assumes "jb_inv M A jb" and "set (pushed_packets [op]) \<subseteq> A"
  shows "jb_inv M A (snd (jb_step jb op)) \<and>
    (\<forall>r \<in> set (fst (jb_step jb op)). case r of PPacket p \<Rightarrow> p \<in> A | _ \<Rightarrow> True)"
proof (cases op)
  case JPop
  have "p \<in> A" if "bt_lookup (buffer jb) k = Some p" for k p
    using assms(1) that by (force simp: jb_inv_def bt_lookup_def dest!: map_of_SomeD)
  then show ?thesis
    using jb_inv_pop [OF assms(1)] JPop
    by (auto simp: jitter_pop_def Let_def split: option.splits)
next
  case (JPush now p)
  then show ?thesis
    using jb_inv_push_body [OF assms(1) _ adapter_ok_push(1)] assms(2) by (simp add: jitter_push_def)
next
  case (JPushAt now p t)
  then show ?thesis
    using jb_inv_push_body [OF assms(1) _ adapter_ok_push(2)] assms(2)
    by (simp add: push_with_arrival_def)
qed (use assms in \<open>simp_all add: jb_inv_def jitter_reset_def reset_stats_def
    record_underrun_def record_decode_def set_target_depth_def\<close>)

lemma pushed_packets_Cons: "pushed_packets (op # ops) = pushed_packets [op] @ pushed_packets ops"
  by (cases op) simp_all

lemma jb_inv_run:
  "jb_inv M A jb \<Longrightarrow> set (pushed_packets ops) \<subseteq> A \<Longrightarrow> stage_run jb_step jb ops = (rs, jb') \<Longrightarrow>
   jb_inv M A jb' \<and> (\<forall>r \<in> set rs. case r of PPacket p \<Rightarrow> p \<in> A | _ \<Rightarrow> True)"
proof (induction ops arbitrary: jb rs)
  case Nil
  then show ?case by simp
next
  case (Cons op ops)
  obtain r1 jb1 where s1: "jb_step jb op = (r1, jb1)" by fastforce
  obtain r2 where s2: "stage_run jb_step jb1 ops = (r2, jb')" and rs: "rs = r1 @ r2"
    using Cons.prems(3) s1 by (auto split: prod.splits)
  have A: "set (pushed_packets [op]) \<subseteq> A" "set (pushed_packets ops) \<subseteq> A"
    using Cons.prems(2) pushed_packets_Cons [of op ops] by auto
  from jb_inv_step [OF Cons.prems(1) A(1)] s1 Cons.IH [OF _ A(2) s2] show ?case
    by (auto simp: rs)
qed

text \<open>
  Also (the jitter buffer is bounded and invents nothing).  Whatever is pushed, popped, reset or
  retuned, in any order and over any number of wrap-arounds, the buffer never holds more than
  \<open>max_depth\<close> packets, every packet in it sits under its own sequence number, and every packet
  it plays out was pushed.
\<close>

theorem jitter_bounded:
  assumes "stage_run jb_step (jitter_new target maxd mind) ops = (rs, jb)"
  shows "length (buffer jb) \<le> maxd \<and> keyed (buffer jb) \<and>
    (\<forall>p. PPacket p \<in> set rs \<longrightarrow> p \<in> set (pushed_packets ops))"
proof -
  have "jb_inv maxd (set (pushed_packets ops)) (jitter_new target maxd mind)"
    by (simp add: jb_inv_def jitter_new_def)
  from jb_inv_run [OF this subset_refl assms] show ?thesis
    by (force simp: jb_inv_def)
qed

section \<open>Reordering, losses and duplicates\<close>

lemma seq_before_offsets:
  assumes "unat (a - s0) < 0x8000" and "unat (b - s0) < 0x8000"
  shows "seq_before a b \<longleftrightarrow> unat (a - s0) < unat (b - s0)"
proof -
  define x y where "x = a - s0" and "y = b - s0"
  have "b - a = y - x" by (simp add: x_def y_def)
  moreover have "unat x < 0x8000" "unat y < 0x8000" using assms by (simp_all add: x_def y_def)
  then have "0 < y - x \<and> y - x < 0x8000 \<longleftrightarrow> unat x < unat y"
    by (auto simp: word_less_nat_alt unat_sub_if')
  ultimately show ?thesis by (simp add: seq_before_def x_def [symmetric] y_def [symmetric])
qed

text \<open>The packet a set of arrivals offers for a number: the first that carries it.\<close>

definition first_with :: "MediaPacket list \<Rightarrow> u32 \<Rightarrow> MediaPacket option" where
  "first_with ps k = map_of (map (\<lambda>p. (seq (header p), p)) ps) k"

definition seqs_of :: "MediaPacket list \<Rightarrow> u32 set" where
  "seqs_of ps = (\<lambda>p. seq (header p)) ` set ps"

lemma first_with_None: "first_with ps k = None \<longleftrightarrow> k \<notin> seqs_of ps"
  by (simp add: first_with_def seqs_of_def map_of_eq_None_iff image_image)

lemma first_with_single: "first_with [p] k = (if k = seq (header p) then Some p else None)"
  by (simp add: first_with_def)

lemma first_with_append:
  "first_with (ps @ qs) k = (case first_with ps k of None \<Rightarrow> first_with qs k | Some p \<Rightarrow> Some p)"
  by (simp add: first_with_def map_add_def split: option.splits)

lemma seqs_of_simps [simp]: "seqs_of [] = {}" "seqs_of (ps @ qs) = seqs_of ps \<union> seqs_of qs"
  "seqs_of [p] = {seq (header p)}" "finite (seqs_of ps)"
  by (auto simp: seqs_of_def)

definition filled :: "nat \<Rightarrow> nat \<Rightarrow> u32 \<Rightarrow> MediaPacket list \<Rightarrow> JitterBuffer \<Rightarrow> bool" where
  "filled maxd mind s0 ps jb \<longleftrightarrow>
     max_depth jb = maxd \<and> min_depth jb = mind \<and> adaptive jb = None \<and>
     packets_played (stats jb) = 0 \<and> (jb_initialized jb \<longleftrightarrow> ps \<noteq> []) \<and>
     (ps \<noteq> [] \<longrightarrow> next_playout_seq jb \<in> seqs_of ps \<and>
        (\<forall>k \<in> seqs_of ps. unat (next_playout_seq jb - s0) \<le> unat (k - s0))) \<and>
     bt_ok (buffer jb) \<and> length (buffer jb) = card (seqs_of ps) \<and>
     (\<forall>k. bt_lookup (buffer jb) k = first_with ps k)"

lemma filled_new: "filled maxd mind s0 [] (jitter_new t maxd mind)"
  by (simp add: filled_def jitter_new_def stats_default_def first_with_def)

lemma filled_note_arrival:
  "filled maxd mind s0 ps jb \<Longrightarrow>
   buffer (note_arrival sq jb) = buffer jb \<and> max_depth (note_arrival sq jb) = maxd \<and>
   min_depth (note_arrival sq jb) = mind \<and> adaptive (note_arrival sq jb) = None \<and>
   packets_played (stats (note_arrival sq jb)) = 0 \<and> jb_initialized (note_arrival sq jb) \<and>
   next_playout_seq (note_arrival sq jb) = (if ps = [] then sq else next_playout_seq jb)"
  by (auto simp: filled_def note_arrival_def Let_def)

lemma filled_push:
  assumes f: "filled maxd mind s0 ps jb"
    and off: "\<forall>k \<in> seqs_of (ps @ [p]). unat (k - s0) < 0x8000"
    and room: "card (seqs_of (ps @ [p])) \<le> maxd"
  shows "filled maxd mind s0 (ps @ [p]) (jitter_push now p jb)"
proof -
  define sq where "sq = seq (header p)"
  define j where "j = note_arrival sq jb"
  note n = filled_note_arrival [OF f, of sq, folded j_def]
  show ?thesis
  proof (cases "sq \<in> seqs_of ps")
    case True
    then have "ps \<noteq> []" by auto
    moreover have "bt_lookup (buffer j) sq \<noteq> None" using True f n first_with_None by (auto simp: filled_def)
    moreover have "first_with (ps @ [p]) = first_with ps"
      using True first_with_None [of ps sq]
      by (auto simp: fun_eq_iff first_with_append first_with_single sq_def split: option.splits)
    ultimately show ?thesis
      using f n True
      by (auto simp: jitter_push_def push_body_def Let_def sq_def [symmetric] j_def [symmetric]
          filled_def insert_absorb)
  next
    case False
    have new: "bt_lookup (buffer j) sq = None" using False f n first_with_None by (auto simp: filled_def)
    define nx where "nx = (if ps = [] then sq else next_playout_seq jb)"
    define j' where "j' = (if seq_before sq nx then j\<lparr>next_playout_seq := sq\<rparr> else j)"
    define b where "b = bt_insert sq p (buffer j)"
    have b: "bt_ok b" "length b = card (seqs_of (ps @ [p]))"
      "\<forall>k. bt_lookup b k = first_with (ps @ [p]) k"
      using f n False new first_with_None [of ps sq]
      by (auto simp: b_def filled_def bt_ok_insert length_bt_insert sq_def [symmetric]
          first_with_append first_with_single split: option.splits)
    have nxo: "nx \<in> seqs_of (ps @ [p])" "\<forall>k \<in> seqs_of ps. unat (nx - s0) \<le> unat (k - s0)"
      using f by (auto simp: nx_def filled_def sq_def)
    have before: "seq_before sq nx \<longleftrightarrow> unat (sq - s0) < unat (nx - s0)"
      using off nxo(1) by (intro seq_before_offsets) (auto simp: sq_def)
    have push: "jitter_push now p jb = record_depth (j'\<lparr>buffer := b\<rparr>)"
    proof -
      have "jitter_push now p jb = store_packet (adapt_push now p) p j"
        using new n by (simp add: jitter_push_def push_body_def Let_def sq_def [symmetric] j_def [symmetric])
      also have "\<dots> = record_depth (evict (j'\<lparr>buffer := b\<rparr>))"
        using n by (simp add: store_packet_def Let_def adapt_push_def j'_def b_def nx_def sq_def [symmetric])
      also have "evict (j'\<lparr>buffer := b\<rparr>) = j'\<lparr>buffer := b\<rparr>"
        using room b(2) n by (intro evict_id) (simp add: j'_def)
      finally show ?thesis .
    qed
    have "next_playout_seq j' = (if seq_before sq nx then sq else nx)"
      using n by (simp add: j'_def nx_def)
    then show ?thesis
      unfolding push using n b nxo before
      by (auto simp: filled_def record_depth_def Let_def j'_def sq_def [symmetric])
  qed
qed

lemma filled_pushes:
  "filled maxd mind s0 ps jb \<Longrightarrow> \<forall>k \<in> seqs_of (ps @ qs). unat (k - s0) < 0x8000 \<Longrightarrow>
   card (seqs_of (ps @ qs)) \<le> maxd \<Longrightarrow>
   fst (stage_run jb_step jb (map (JPush now) qs)) = [] \<and>
   filled maxd mind s0 (ps @ qs) (snd (stage_run jb_step jb (map (JPush now) qs)))"
proof (induction qs arbitrary: ps jb)
  case Nil
  then show ?case by simp
next
  case (Cons q qs)
  have "card (seqs_of (ps @ [q])) \<le> card (seqs_of (ps @ q # qs))"
    by (rule card_mono) (auto simp: seqs_of_def)
  moreover have "seqs_of (ps @ [q]) \<subseteq> seqs_of (ps @ q # qs)" by (auto simp: seqs_of_def)
  ultimately have "filled maxd mind s0 (ps @ [q]) (jitter_push now q jb)"
    using Cons.prems by (intro filled_push) auto
  from Cons.IH [OF this] Cons.prems show ?case by (simp add: split_beta)
qed

definition playout :: "MediaPacket list \<Rightarrow> u32 \<Rightarrow> PlayoutResult" where
  "playout ps k = (case first_with ps k of None \<Rightarrow> Missing k | Some p \<Rightarrow> PPacket p)"

text \<open>While playing, the next numbers up to \<open>bound\<close> are still in the buffer as they arrived.\<close>

definition playing :: "MediaPacket list \<Rightarrow> u32 \<Rightarrow> nat \<Rightarrow> JitterBuffer \<Rightarrow> bool" where
  "playing ps k n jb \<longleftrightarrow>
     jb_initialized jb \<and> next_playout_seq jb = k \<and>
     (min_depth jb \<le> length (buffer jb) \<or> 0 < packets_played (stats jb)) \<and>
     (\<forall>i < n. bt_lookup (buffer jb) (k + of_nat i) = first_with ps (k + of_nat i))"

lemma playing_pop:
  assumes p: "playing ps k (Suc n) jb" and n: "n < 2 ^ 32"
    and starts: "first_with ps k \<noteq> None \<or> 0 < packets_played (stats jb)"
  shows "fst (jitter_pop jb) = playout ps k \<and> playing ps (k + 1) n (snd (jitter_pop jb)) \<and>
    0 < packets_played (stats (snd (jitter_pop jb)))"
proof -
  have "bt_lookup (buffer jb) (k + of_nat 0) = first_with ps (k + of_nat 0)"
    using p unfolding playing_def by blast
  then have look: "bt_lookup (buffer jb) k = first_with ps k" by simp
  have later: "bt_lookup (buffer jb) (k + 1 + of_nat i) = first_with ps (k + 1 + of_nat i)"
    and other: "k + 1 + of_nat i \<noteq> k" if "i < n" for i
  proof -
    have "bt_lookup (buffer jb) (k + of_nat (Suc i)) = first_with ps (k + of_nat (Suc i))"
      using p that unfolding playing_def by blast
    then show "bt_lookup (buffer jb) (k + 1 + of_nat i) = first_with ps (k + 1 + of_nat i)"
      by (simp add: add.assoc)
    have "unat (of_nat (Suc i) :: u32) = Suc i" using that n by (intro unat_of_nat_u32) simp
    then have "(of_nat (Suc i) :: u32) \<noteq> 0" by fastforce
    then show "k + 1 + of_nat i \<noteq> k" by (simp add: add.assoc)
  qed
  show ?thesis
    using p starts look later other
    by (cases "first_with ps k")
      (auto simp: playing_def jitter_pop_def playout_def Let_def)
qed

lemma playing_pops:
  "playing ps k n jb \<Longrightarrow> n \<le> 2 ^ 32 \<Longrightarrow>
   first_with ps k \<noteq> None \<or> 0 < packets_played (stats jb) \<Longrightarrow>
   fst (stage_run jb_step jb (replicate n JPop)) = map (\<lambda>i. playout ps (k + of_nat i)) [0..<n]"
proof (induction n arbitrary: k jb)
  case 0
  then show ?case by simp
next
  case (Suc n)
  obtain r jb' where pop: "jitter_pop jb = (r, jb')" by fastforce
  have "r = playout ps k" "playing ps (k + 1) n jb'" "0 < packets_played (stats jb')"
    using playing_pop [OF Suc.prems(1) _ Suc.prems(3)] Suc.prems(2) pop by auto
  moreover from Suc.IH [OF this(2)] this(3) Suc.prems(2)
  have "fst (stage_run jb_step jb' (replicate n JPop)) =
      map (\<lambda>i. playout ps (k + 1 + of_nat i)) [0..<n]" by simp
  moreover have "map (\<lambda>i. playout ps (k + of_nat i)) [0..<Suc n] =
      playout ps k # map (\<lambda>i. playout ps (k + 1 + of_nat i)) [0..<n]"
    by (simp add: map_upt_Suc add.assoc del: upt_Suc)
  ultimately show ?case using pop by (simp add: split_beta del: upt_Suc)
qed

text \<open>
  C31 (playout order).  Let packets arrive in any order, with losses and duplicates, while their
  numbers lie within \<open>0x8000\<close> of the smallest one (which may be just before the wrap-around),
  fit the buffer's depth and reach its minimum depth.  Then playout goes through the numbers
  one by one from the smallest: where a packet arrived it plays its first copy, and where none
  did it reports exactly that number as missing.
\<close>

theorem jitter_plays_in_order:
  assumes "s0 \<in> seqs_of ps" and "\<forall>k \<in> seqs_of ps. unat (k - s0) < 0x8000"
    and "card (seqs_of ps) \<le> maxd" and "mind \<le> card (seqs_of ps)" and "n \<le> 2 ^ 32"
  shows "fst (stage_run jb_step (jitter_new t maxd mind) (map (JPush now) ps @ replicate n JPop)) =
    map (\<lambda>i. playout ps (s0 + of_nat i)) [0..<n]"
proof -
  obtain rs jb where run: "stage_run jb_step (jitter_new t maxd mind) (map (JPush now) ps) = (rs, jb)"
    by fastforce
  then have rs: "rs = []" and f: "filled maxd mind s0 ps jb"
    using filled_pushes [OF filled_new [of maxd mind s0 t], of ps now] assms(2,3) by simp_all
  have ne: "ps \<noteq> []" using assms(1) by auto
  have "unat (next_playout_seq jb - s0) \<le> unat (s0 - s0)"
    using f assms(1) ne unfolding filled_def by blast
  then have "next_playout_seq jb = s0" by (simp add: unat_eq_0)
  then have "playing ps s0 n jb"
    using f ne assms(4) by (auto simp: playing_def filled_def)
  moreover have "first_with ps s0 \<noteq> None" using assms(1) first_with_None by auto
  ultimately show ?thesis
    using playing_pops [of ps s0 n jb] assms(5) run rs
    by (simp add: stage_run_append split_beta Let_def del: jb_step.simps)
qed

definition probe :: "u32 \<Rightarrow> MediaPacket" where
  "probe n =
     \<lparr>header = \<lparr>version = 2, flags = 0, media_type = Audio, codec_id = Opus24k, stream_id = 0,
                fec_ratio_wire = 0, seq = n, timestamp = 20 * n, fec_block = 0\<rparr>,
      payload = [], quality_report = None\<rparr>"

lemma seq_probe [simp]: "seq (header (probe n)) = n"
  by (simp add: probe_def)

theorem jitter_plays_in_order_witness:
  "fst (stage_run jb_step (jitter_new 3 100 2)
     (map (JPush 0) [probe 0, probe 0xFFFFFFFF, probe 2, probe 0] @ replicate 5 JPop)) =
   [PPacket (probe 0xFFFFFFFF), PPacket (probe 0), Missing 1, PPacket (probe 2), Missing 3]"
proof -
  have s: "seqs_of [probe 0, probe 0xFFFFFFFF, probe 2, probe 0] = {0, 0xFFFFFFFF, 2}"
    by (auto simp: seqs_of_def)
  have "[0..<5] = [0, 1, 2, 3, 4]" by (simp add: upt_rec)
  then have "map (\<lambda>i. playout [probe 0, probe 0xFFFFFFFF, probe 2, probe 0] (0xFFFFFFFF + of_nat i)) [0..<5]
    = [PPacket (probe 0xFFFFFFFF), PPacket (probe 0), Missing 1, PPacket (probe 2), Missing 3]"
    by (simp add: playout_def first_with_def)
  moreover have "fst (stage_run jb_step (jitter_new 3 100 2)
     (map (JPush 0) [probe 0, probe 0xFFFFFFFF, probe 2, probe 0] @ replicate 5 JPop)) =
     map (\<lambda>i. playout [probe 0, probe 0xFFFFFFFF, probe 2, probe 0] (0xFFFFFFFF + of_nat i)) [0..<5]"
    by (rule jitter_plays_in_order) (simp_all add: s)
  ultimately show ?thesis by simp
qed

theorem jitter_bounded_witness:
  "let (rs, jb) = stage_run jb_step (jitter_new 1 1 1) [JPush 0 (probe 5), JPush 0 (probe 6), JPop] in
   rs = [PPacket (probe 6)] \<and> length (buffer jb) \<le> 1"
proof -
  obtain rs jb where run:
    "stage_run jb_step (jitter_new 1 1 1) [JPush 0 (probe 5), JPush 0 (probe 6), JPop] = (rs, jb)"
    by fastforce
  from jitter_bounded [OF run] have "length (buffer jb) \<le> 1" by simp
  moreover have "rs = [PPacket (probe 6)]"
    using run
    by (simp add: jitter_push_def push_body_def note_arrival_def store_packet_def adapt_push_def
        Let_def jitter_new_def stats_default_def seq_before_def record_depth_def evict_id evict_more
        evict_first_def bt_first_def bt_remove_def jitter_pop_def bt_lookup_def)
  ultimately show ?thesis using run by (simp del: jb_step.simps stage_run.simps)
qed

section \<open>New senders that the reset does not see\<close>

lemma pop_seq:
  assumes "keyed (buffer jb)" and "packets_played (stats jb) > 0" and "jb_initialized jb"
  shows "next_playout_seq (snd (jitter_pop jb)) = next_playout_seq jb + 1 \<and>
    keyed (buffer (snd (jitter_pop jb))) \<and> packets_played (stats (snd (jitter_pop jb))) > 0 \<and>
    jb_initialized (snd (jitter_pop jb)) \<and>
    (\<forall>q. fst (jitter_pop jb) = PPacket q \<longrightarrow> seq (header q) = next_playout_seq jb)"
proof (cases "bt_lookup (buffer jb) (next_playout_seq jb)")
  case None
  then show ?thesis using assms by (simp add: jitter_pop_def Let_def)
next
  case (Some p)
  from keyed_lookup [OF assms(1) Some] keyed_remove [OF assms(1)] assms(2,3) Some
  show ?thesis by (auto simp: jitter_pop_def Let_def)
qed

lemma pops_seq:
  "keyed (buffer jb) \<Longrightarrow> packets_played (stats jb) > 0 \<Longrightarrow> jb_initialized jb \<Longrightarrow>
   PPacket q \<in> set (fst (stage_run jb_step jb (replicate n JPop))) \<Longrightarrow>
   \<exists>i < n. seq (header q) = next_playout_seq jb + of_nat i"
proof (induction n arbitrary: jb)
  case 0
  then show ?case by simp
next
  case (Suc n)
  note p = pop_seq [OF Suc.prems(1-3)]
  consider "fst (jitter_pop jb) = PPacket q"
    | "PPacket q \<in> set (fst (stage_run jb_step (snd (jitter_pop jb)) (replicate n JPop)))"
    using Suc.prems(4) by (auto simp: split_beta)
  then show ?case
  proof cases
    case 1
    then show ?thesis using p by (intro exI [of _ 0]) simp
  next
    case 2
    from Suc.IH [OF _ _ _ this] p obtain i where
      "i < n" "seq (header q) = next_playout_seq jb + 1 + of_nat i" by auto
    then show ?thesis by (intro exI [of _ "Suc i"]) (simp add: add.assoc)
  qed
qed

lemma far_push:
  assumes "jb_inv M A jb" and "0 < packets_played (stats jb)" and "jb_initialized jb"
    and far: "0x8000 \<le> unat (next_playout_seq jb - seq (header p))"
    and new: "bt_lookup (buffer jb) (seq (header p)) = None" and room: "length (buffer jb) < M"
  shows "next_playout_seq (jitter_push now p jb) = next_playout_seq jb \<and>
    keyed (buffer (jitter_push now p jb)) \<and> 0 < packets_played (stats (jitter_push now p jb)) \<and>
    jb_initialized (jitter_push now p jb) \<and>
    bt_lookup (buffer (jitter_push now p jb)) (seq (header p)) = Some p"
proof -
  define j where "j = note_arrival (seq (header p)) jb"
  have j: "buffer j = buffer jb" "next_playout_seq j = next_playout_seq jb"
    "0 < packets_played (stats j)" "jb_initialized j" "max_depth j = M"
    using assms(1-3) by (simp_all add: j_def note_arrival_def Let_def jb_inv_def)
  have nb: "\<not> seq_before (seq (header p)) (next_playout_seq jb)"
    using far by (auto simp: seq_before_def word_less_nat_alt)
  define j' where "j' = adapt_push now p j"
  have j': "buffer j' = buffer jb" "next_playout_seq j' = next_playout_seq jb"
    "0 < packets_played (stats j')" "jb_initialized j'" "max_depth j' = M"
    using j by (auto simp: j'_def adapt_push_def Let_def split: option.splits)
  have k: "keyed (bt_insert (seq (header p)) p (buffer jb))"
    using assms(1) by (intro keyed_insert) (simp add: jb_inv_def)
  have "length (bt_insert (seq (header p)) p (buffer jb)) \<le> M"
    using assms(1) room new by (simp add: length_bt_insert jb_inv_def keyed_def)
  then have "jitter_push now p jb =
      record_depth (j'\<lparr>buffer := bt_insert (seq (header p)) p (buffer jb)\<rparr>)"
    using j nb new j'
    by (simp add: jitter_push_def push_body_def Let_def j_def [symmetric] store_packet_def
        j'_def [symmetric] evict_id)
  then show ?thesis using j' k by (simp add: record_depth_def Let_def)
qed

text \<open>
  Also (a distant backward jump is not taken for a new sender).  A sequence number at least
  \<open>0x8000\<close> behind the playout position does not count as earlier, so no reset happens: the
  packet is stored, playout stays where it was, and the packet is not played at any of the
  pops before the position has wrapped around to it.
\<close>

theorem distant_restart_is_not_played:
  assumes "stage_run jb_step (jitter_new t maxd mind) ops = (rs, jb)"
    and "0 < packets_played (stats jb)" and "jb_initialized jb"
    and "unat (next_playout_seq jb - seq (header p)) = d" and "0x8000 \<le> d"
    and "bt_lookup (buffer jb) (seq (header p)) = None" and "length (buffer jb) < maxd"
    and "n \<le> 2 ^ 32 - d"
  shows "bt_lookup (buffer (jitter_push now p jb)) (seq (header p)) = Some p \<and>
    PPacket p \<notin> set (fst (stage_run jb_step (jitter_push now p jb) (replicate n JPop)))"
proof -
  have inv: "jb_inv maxd UNIV jb"
    using jb_inv_run [OF _ _ assms(1), of maxd UNIV] by (simp add: jb_inv_def jitter_new_def)
  note far = far_push [OF inv assms(2,3) _ assms(6,7), unfolded assms(4), OF assms(5), of now]
  have "False" if play: "PPacket p \<in> set (fst (stage_run jb_step (jitter_push now p jb) (replicate n JPop)))"
  proof -
    obtain i where i: "i < n" "seq (header p) = next_playout_seq jb + of_nat i"
      using pops_seq [OF _ _ _ play] far by auto
    then have "next_playout_seq jb - seq (header p) = 0 - of_nat i" by simp
    then have "unat (0 - of_nat i :: u32) = d" using assms(4) by simp
    moreover have "unat (of_nat i :: u32) = i" using i(1) assms(8) by (intro unat_of_nat_u32) simp
    ultimately have "d = (if i = 0 then 0 else 2 ^ 32 - i)"
      using unat_sub_if' [of 0 "of_nat i :: u32"] by (simp split: if_splits)
    then show False using i(1) assms(5,8) by (auto split: if_splits)
  qed
  then show ?thesis using far by blast
qed

theorem distant_restart_is_not_played_witness:
  "let jb = snd (stage_run jb_step (jitter_new 1 10 1) [JPush 0 (probe 40000), JPop]) in
   PPacket (probe 0) \<notin> set (fst (stage_run jb_step (jitter_push 0 (probe 0) jb) (replicate 1000 JPop)))"
proof -
  obtain rs jb where run: "stage_run jb_step (jitter_new 1 10 1) [JPush 0 (probe 40000), JPop] = (rs, jb)"
    by fastforce
  then have jb: "0 < packets_played (stats jb)" "jb_initialized jb" "buffer jb = []"
    "next_playout_seq jb = 40001"
    by (auto simp: jitter_push_def push_body_def note_arrival_def store_packet_def adapt_push_def
        Let_def jitter_new_def stats_default_def seq_before_def record_depth_def evict_id
        jitter_pop_def bt_lookup_def bt_remove_def)
  then show ?thesis
    using distant_restart_is_not_played [OF run jb(1,2), of "probe 0" 40001 1000 0] run
    by (simp del: jb_step.simps stage_run.simps)
qed

section \<open>The playout delay stays within its bounds\<close>

datatype delay_op = Arrive nat nat nat | Mobile bool

fun delay_step :: "delay_op \<Rightarrow> AdaptivePlayoutDelay \<Rightarrow> AdaptivePlayoutDelay" where
  "delay_step (Arrive now arrival expected) = delay_update now arrival expected"
| "delay_step (Mobile m) = set_mobile_mode m"

text \<open>The jitter a sequence of arrivals shows: each pair of consecutive ones deviates by at most \<open>B\<close>.\<close>

fun jitter_within :: "rat \<Rightarrow> (nat \<times> nat) option \<Rightarrow> delay_op list \<Rightarrow> bool" where
  "jitter_within B prev [] = True"
| "jitter_within B prev (Mobile _ # ops) = jitter_within B prev ops"
| "jitter_within B prev (Arrive _ a e # ops) =
     ((case prev of None \<Rightarrow> True
       | Some (a', e') \<Rightarrow>
           \<bar>(rat_of_nat a - rat_of_nat a') - (rat_of_nat e - rat_of_nat e')\<bar> \<le> B) \<and>
      jitter_within B (Some (a, e)) ops)"

definition delay_inv :: "nat \<Rightarrow> nat \<Rightarrow> rat \<Rightarrow> AdaptivePlayoutDelay \<Rightarrow> bool" where
  "delay_inv lo hi B a \<longleftrightarrow>
     min_delay a = lo \<and> max_delay a = hi \<and> lo \<le> target_delay a \<and> target_delay a \<le> hi \<and>
     0 \<le> jitter_ema a \<and> jitter_ema a \<le> B \<and>
     0 \<le> alpha_up a \<and> alpha_up a \<le> 1 \<and> 0 \<le> alpha_down a \<and> alpha_down a \<le> 1"

definition last_arrival :: "AdaptivePlayoutDelay \<Rightarrow> (nat \<times> nat) option" where
  "last_arrival a =
     (case (last_arrival_ms a, last_expected_ms a) of (Some x, Some y) \<Rightarrow> Some (x, y) | _ \<Rightarrow> None)"

lemma clamp_bounds: "lo \<le> hi \<Longrightarrow> lo \<le> clamp lo hi x \<and> clamp lo hi x \<le> hi"
  by (simp add: clamp_def)

lemma convex_bound:
  assumes "0 \<le> (c :: rat)" "c \<le> 1" "0 \<le> x" "x \<le> B" "0 \<le> y" "y \<le> B"
  shows "0 \<le> c * x + (1 - c) * y \<and> c * x + (1 - c) * y \<le> B"
proof -
  have "c * x \<le> c * B" "(1 - c) * y \<le> (1 - c) * B"
    using assms by (auto intro: mult_left_mono)
  moreover have "c * B + (1 - c) * B = B" by (simp add: algebra_simps)
  ultimately show ?thesis using assms by (auto intro: add_nonneg_nonneg mult_nonneg_nonneg)
qed

lemma delay_inv_parts [inv_intro]:
  "delay_inv lo hi B a \<Longrightarrow> delay_inv lo hi B (note_spike now j a)"
  "delay_inv lo hi B a \<Longrightarrow> delay_inv lo hi B (expire_spike now a)"
  "delay_inv lo hi B a \<Longrightarrow> lo \<le> hi \<Longrightarrow> delay_inv lo hi B (a\<lparr>target_delay := delay_target a\<rparr>)"
  "delay_inv lo hi B a \<Longrightarrow> delay_inv lo hi B (set_mobile_mode m a)"
  "delay_inv lo hi B a \<Longrightarrow> delay_inv lo hi B (a\<lparr>last_arrival_ms := x, last_expected_ms := y\<rparr>)"
  by (auto simp: delay_inv_def note_spike_def expire_spike_def delay_target_def Let_def
      set_mobile_mode_def clamp_bounds split: option.splits)

lemma delay_inv_ema [inv_intro]:
  assumes "delay_inv lo hi B a" and "0 \<le> j" and "j \<le> B"
  shows "delay_inv lo hi B (a\<lparr>jitter_ema := next_ema j a\<rparr>)"
  using assms convex_bound [of "alpha_up a" j B "jitter_ema a"]
    convex_bound [of "alpha_down a" j B "jitter_ema a"]
  by (auto simp: delay_inv_def next_ema_def Let_def)

lemma last_arrival_update [simp]: "last_arrival (delay_update now x y a) = Some (x, y)"
  by (simp add: delay_update_def last_arrival_def Let_def)

lemma last_arrival_mobile [simp]: "last_arrival (set_mobile_mode m a) = last_arrival a"
  by (cases m) (simp_all add: last_arrival_def set_mobile_mode_def)

lemma delay_inv_update:
  assumes "delay_inv lo hi B a" and "lo \<le> hi"
    and "case last_arrival a of None \<Rightarrow> True | Some (x, y) \<Rightarrow>
           \<bar>(rat_of_nat arrival - rat_of_nat x) - (rat_of_nat expected - rat_of_nat y)\<bar> \<le> B"
  shows "delay_inv lo hi B (delay_update now arrival expected a)"
  using assms
  by (auto simp: delay_update_def last_arrival_def Let_def intro!: delay_inv_parts delay_inv_ema
      split: option.splits)

lemma delay_run:
  "delay_inv lo hi B a \<Longrightarrow> lo \<le> hi \<Longrightarrow> jitter_within B (last_arrival a) ops \<Longrightarrow>
   delay_inv lo hi B (fold delay_step ops a)"
proof (induction ops arbitrary: a)
  case Nil
  then show ?case by simp
next
  case (Cons op ops)
  then show ?case by (cases op) (simp_all add: delay_inv_update delay_inv_parts)
qed

text \<open>
  Also (playout delay).  Under any arrivals and mode switches the target delay stays between its
  configured bounds, and the jitter estimate is never negative and never above the largest
  deviation between consecutive arrivals.
\<close>

theorem playout_delay_bounds:
  assumes "lo \<le> hi" and "jitter_within B None ops" and "0 \<le> B"
  shows "lo \<le> target_delay (fold delay_step ops (adaptive_new lo hi)) \<and>
    target_delay (fold delay_step ops (adaptive_new lo hi)) \<le> hi \<and>
    0 \<le> jitter_ema (fold delay_step ops (adaptive_new lo hi)) \<and>
    jitter_ema (fold delay_step ops (adaptive_new lo hi)) \<le> B"
proof -
  have "delay_inv lo hi B (adaptive_new lo hi)"
    using assms by (simp add: delay_inv_def adaptive_new_def)
  moreover have "last_arrival (adaptive_new lo hi) = None"
    by (simp add: last_arrival_def adaptive_new_def)
  ultimately have "delay_inv lo hi B (fold delay_step ops (adaptive_new lo hi))"
    using delay_run assms by metis
  then show ?thesis by (simp add: delay_inv_def)
qed

theorem playout_delay_bounds_witness:
  "let a = fold delay_step [Mobile True, Arrive 0 0 0, Arrive 60 60 20] (adaptive_new 3 50) in
   jitter_ema a = 12 \<and> target_delay a \<le> 50 \<and> jitter_ema a \<le> 40"
proof -
  have "jitter_ema (fold delay_step [Mobile True, Arrive 0 0 0, Arrive 60 60 20] (adaptive_new 3 50)) = 12"
    by (simp add: delay_update_def note_spike_def expire_spike_def next_ema_def delay_target_def
        adaptive_new_def set_mobile_mode_def)
  moreover from playout_delay_bounds
    [of 3 50 40 "[Mobile True, Arrive 0 0 0, Arrive 60 60 20]"]
  have "target_delay (fold delay_step [Mobile True, Arrive 0 0 0, Arrive 60 60 20] (adaptive_new 3 50)) \<le> 50"
    by (simp del: fold.simps)
  ultimately show ?thesis by (simp only: Let_def) simp
qed

end
