(* ===== verification/Fec.thy ===== *)
theory Fec
  imports Errors Codec "HOL-Library.Multiset"
begin

text \<open>
  Forward error correction, \<open>crates/wzp-fec\<close>: the block format around RaptorQ
  (\<open>encoder.rs\<close>, \<open>decoder.rs\<close>), the profile mapping (\<open>adaptive.rs\<close>), the interleaver
  (\<open>interleave.rs\<close>) and the block bookkeeping (\<open>block_manager.rs\<close>).

  RaptorQ itself is a crate outside the repository and a parameter: \<open>rq_repair\<close> gives the
  data of the repair symbols of a block, \<open>rq_decode\<close> tries to recover the block from symbols
  tagged with their encoding symbol id.  What is assumed of it is \<open>rq_correct\<close>: from symbols
  that all belong to one block it never produces another block, it succeeds when every source
  symbol is there, and repair symbols have the symbol size; all this for the symbol size in use only (the program
  uses 256 everywhere).  Ratios are \<open>f32\<close> in the code and exact rationals here.
\<close>

section \<open>The fountain code as a parameter\<close>

type_synonym esi_packet = "nat \<times> byte list"

record fountain =
  rq_repair :: "u8 \<Rightarrow> nat \<Rightarrow> byte list \<Rightarrow> nat \<Rightarrow> byte list list"
  rq_decode :: "u8 \<Rightarrow> nat \<Rightarrow> nat \<Rightarrow> esi_packet list \<Rightarrow> byte list option"

abbreviation (input) slice :: "nat \<Rightarrow> nat \<Rightarrow> byte list \<Rightarrow> byte list" where
  "slice ss i data \<equiv> take ss (drop (i * ss) data)"

text \<open>Symbols of the block \<open>data\<close> of \<open>k\<close> source symbols of \<open>ss\<close> bytes.\<close>

definition genuine :: "fountain \<Rightarrow> u8 \<Rightarrow> nat \<Rightarrow> nat \<Rightarrow> byte list \<Rightarrow> esi_packet \<Rightarrow> bool" where
  "genuine F sbn ss k data p \<longleftrightarrow>
     (if fst p < k then snd p = slice ss (fst p) data
      else \<exists>n. fst p - k < length (rq_repair F sbn ss data n) \<and>
               snd p = rq_repair F sbn ss data n ! (fst p - k))"

text \<open>What is relied on of the code, for symbols of \<open>ss\<close> bytes.\<close>

definition rq_correct :: "fountain \<Rightarrow> nat \<Rightarrow> bool" where
  "rq_correct F ss \<longleftrightarrow>
     (\<forall>sbn data n. \<forall>d \<in> set (rq_repair F sbn ss data n). length d = ss) \<and>
     (\<forall>sbn k data ps. length data = k * ss \<longrightarrow> (\<forall>p \<in> set ps. genuine F sbn ss k data p) \<longrightarrow>
        rq_decode F sbn ss (k * ss) ps \<in> {None, Some data} \<and>
        ({..<k} \<subseteq> fst ` set ps \<longrightarrow> rq_decode F sbn ss (k * ss) ps \<noteq> None))"

lemma rq_correct_decode:
  "rq_correct F ss \<Longrightarrow> length data = k * ss \<Longrightarrow> \<forall>p \<in> set ps. genuine F sbn ss k data p \<Longrightarrow>
   rq_decode F sbn ss (k * ss) ps \<in> {None, Some data} \<and>
   ({..<k} \<subseteq> fst ` set ps \<longrightarrow> rq_decode F sbn ss (k * ss) ps \<noteq> None)"
  by (simp add: rq_correct_def)

section \<open>The encoder\<close>

abbreviation (input) LEN_PREFIX :: nat where "LEN_PREFIX \<equiv> 2"
abbreviation (input) DEFAULT_MAX_SYMBOL_SIZE :: u16 where "DEFAULT_MAX_SYMBOL_SIZE \<equiv> 256"

record FecEncoder =
  block_id :: u16
  enc_frames_per_block :: nat
  source_symbols :: "byte list list"
  symbol_size :: u16
  has_keyframe :: bool
  keyframe_ratio :: rat

definition encoder_new :: "nat \<Rightarrow> u16 \<Rightarrow> FecEncoder" where
  "encoder_new fpb ss =
     \<lparr>block_id = 0, enc_frames_per_block = fpb, source_symbols = [], symbol_size = ss,
      has_keyframe = False, keyframe_ratio = 0\<rparr>"

definition encoder_with_defaults :: "nat \<Rightarrow> FecEncoder" where
  "encoder_with_defaults fpb = encoder_new fpb DEFAULT_MAX_SYMBOL_SIZE"

definition set_keyframe_ratio :: "rat \<Rightarrow> FecEncoder \<Rightarrow> FecEncoder" where
  "set_keyframe_ratio r e = e\<lparr>keyframe_ratio := max r 0\<rparr>"

text \<open>
  One slot of the block: length prefix, payload cut to what fits, zeros.  The code writes into
  a zeroed buffer at offset \<open>i * ss\<close>.
\<close>

definition prefixed_slot :: "nat \<Rightarrow> byte list \<Rightarrow> byte list" where
  "prefixed_slot ss frame =
     (let max_payload = ss - LEN_PREFIX; payload_len = min (length frame) max_payload in
      put_u16_le (of_nat payload_len) @ take payload_len frame @
      replicate (ss - LEN_PREFIX - payload_len) 0)"

definition build_prefixed_block_data :: "byte list list \<Rightarrow> nat \<Rightarrow> byte list" where
  "build_prefixed_block_data symbols ss = concat (map (prefixed_slot ss) symbols)"

definition build_block_data :: "FecEncoder \<Rightarrow> byte list" where
  "build_block_data e = build_prefixed_block_data (source_symbols e) (unat (symbol_size e))"

definition add_source_symbol :: "byte list \<Rightarrow> FecEncoder \<Rightarrow> (FecError + unit) \<times> FecEncoder" where
  "add_source_symbol d e =
     (if enc_frames_per_block e \<le> length (source_symbols e)
      then (Inl (BlockFull (enc_frames_per_block e)), e)
      else (Inr (), e\<lparr>source_symbols := source_symbols e @ [d]\<rparr>))"

definition add_source_symbol_with_keyframe ::
  "byte list \<Rightarrow> bool \<Rightarrow> FecEncoder \<Rightarrow> (FecError + unit) \<times> FecEncoder" where
  "add_source_symbol_with_keyframe d kf e =
     (case add_source_symbol d e of
        (Inl err, e) \<Rightarrow> (Inl err, e)
      | (Inr _, e) \<Rightarrow> (Inr (), if kf then e\<lparr>has_keyframe := True\<rparr> else e))"

definition sbn_of :: "u16 \<Rightarrow> u8" where
  "sbn_of b = ucast (b AND 0xFF)"

definition generate_repair :: "fountain \<Rightarrow> rat \<Rightarrow> FecEncoder \<Rightarrow> FecError + (u16 \<times> byte list) list" where
  "generate_repair F ratio e =
     (if source_symbols e = [] then Inr []
      else
        let effective_ratio = (if has_keyframe e \<and> 0 < keyframe_ratio e then keyframe_ratio e else ratio);
            block_data = build_block_data e;
            num_source = length (source_symbols e);
            num_repair = nat \<lceil>of_nat num_source * effective_ratio\<rceil> in
        if num_repair = 0 then Inr []
        else
          let packets = rq_repair F (sbn_of (block_id e)) (unat (symbol_size e)) block_data num_repair in
          Inr (map (\<lambda>(i, d). (of_nat num_source + of_nat i, d)) (enumerate 0 packets)))"

definition finalize_block :: "FecEncoder \<Rightarrow> u16 \<times> FecEncoder" where
  "finalize_block e =
     (block_id e, e\<lparr>block_id := block_id e + 1, source_symbols := [], has_keyframe := False\<rparr>)"

definition source_packets_for_block :: "byte list list \<Rightarrow> nat \<Rightarrow> esi_packet list" where
  "source_packets_for_block symbols ss =
     (let d = build_prefixed_block_data symbols ss in
      map (\<lambda>i. (i, slice ss i d)) [0..<length symbols])"

section \<open>The decoder\<close>

abbreviation (input) BLOCK_STALE_SECS :: nat where "BLOCK_STALE_SECS \<equiv> 2"

record BlockState =
  num_source_symbols :: "nat option"
  packets :: "esi_packet list"
  block_symbol_size :: u16
  decoded :: bool
  block_result :: "byte list list option"
  decoded_at_ms :: "nat option"

record FecDecoder =
  fec_blocks :: "u16 \<Rightarrow> BlockState option"
  dec_symbol_size :: u16
  dec_frames_per_block :: nat

definition decoder_new :: "nat \<Rightarrow> u16 \<Rightarrow> FecDecoder" where
  "decoder_new fpb ss = \<lparr>fec_blocks = (\<lambda>_. None), dec_symbol_size = ss, dec_frames_per_block = fpb\<rparr>"

definition fresh_block :: "FecDecoder \<Rightarrow> BlockState" where
  "fresh_block d =
     \<lparr>num_source_symbols = Some (dec_frames_per_block d), packets = [],
      block_symbol_size = dec_symbol_size d, decoded = False, block_result = None,
      decoded_at_ms = None\<rparr>"

definition get_or_create_block :: "u16 \<Rightarrow> FecDecoder \<Rightarrow> BlockState" where
  "get_or_create_block bid d = (case fec_blocks d bid of None \<Rightarrow> fresh_block d | Some b \<Rightarrow> b)"

definition add_symbol :: "nat \<Rightarrow> u16 \<Rightarrow> u16 \<Rightarrow> byte list \<Rightarrow> FecDecoder \<Rightarrow> FecDecoder" where
  "add_symbol now bid symbol_index sdata d =
     (let ss = unat (dec_symbol_size d);
          b = get_or_create_block bid d;
          skip = (decoded b \<and> (case decoded_at_ms b of None \<Rightarrow> True
                   | Some t \<Rightarrow> \<not> BLOCK_STALE_SECS \<le> (now - t) div 1000)) in
      if skip then d\<lparr>fec_blocks := (fec_blocks d)(bid \<mapsto> b)\<rparr>
      else
        let b = (if decoded b
                 then b\<lparr>decoded := False, block_result := None, decoded_at_ms := None, packets := []\<rparr>
                 else b);
            len = min (length sdata) ss;
            padded = take len sdata @ replicate (ss - len) 0;
            b = b\<lparr>packets := packets b @ [(unat symbol_index, padded)]\<rparr> in
        d\<lparr>fec_blocks := (fec_blocks d)(bid \<mapsto> b)\<rparr>)"

definition split_frame :: "nat \<Rightarrow> byte list \<Rightarrow> nat \<Rightarrow> byte list" where
  "split_frame ss d i =
     (let off = i * ss in
      if length d < off + LEN_PREFIX then []
      else
        let payload_len = unat (u16_of_le (d ! off) (d ! (off + 1)));
            payload_start = off + LEN_PREFIX;
            payload_end = min (payload_start + payload_len) (length d) in
        take (payload_end - payload_start) (drop payload_start d))"

definition try_decode ::
  "fountain \<Rightarrow> nat \<Rightarrow> u16 \<Rightarrow> FecDecoder \<Rightarrow> byte list list option \<times> FecDecoder" where
  "try_decode F now bid d =
     (case fec_blocks d bid of
        None \<Rightarrow> (None, d)
      | Some b \<Rightarrow>
        (case block_result b of
           Some r \<Rightarrow> (Some r, d)
         | None \<Rightarrow>
           let num_source = (case num_source_symbols b of None \<Rightarrow> dec_frames_per_block d | Some n \<Rightarrow> n);
               ss = unat (block_symbol_size b);
               block_length = num_source * ss in
           (case rq_decode F (sbn_of bid) ss block_length (packets b) of
              None \<Rightarrow> (None, d)
            | Some out \<Rightarrow>
                let frames = map (split_frame ss out) [0..<num_source];
                    b = b\<lparr>decoded := True, decoded_at_ms := Some now, block_result := Some frames\<rparr> in
                (Some frames, d\<lparr>fec_blocks := (fec_blocks d)(bid \<mapsto> b)\<rparr>))))"

definition decoder_expire_before :: "u16 \<Rightarrow> FecDecoder \<Rightarrow> FecDecoder" where
  "decoder_expire_before bid d =
     d\<lparr>fec_blocks := (\<lambda>i. let distance = bid - i in
         if distance = 0 \<or> 32768 < distance then fec_blocks d i else None)\<rparr>"

section \<open>Configuration from the profile\<close>

record AdaptiveFec =
  fec_frames :: nat
  repair_ratio :: rat
  fec_symbol_size :: u16
  keyframe_repair_ratio :: rat

definition fec_from_profile :: "QualityProfile \<Rightarrow> AdaptiveFec" where
  "fec_from_profile p =
     \<lparr>fec_frames = frames_per_block p, repair_ratio = fec_ratio p, fec_symbol_size = 256,
      keyframe_repair_ratio = 1 / 2\<rparr>"

definition build_encoder :: "AdaptiveFec \<Rightarrow> FecEncoder" where
  "build_encoder a = set_keyframe_ratio (keyframe_repair_ratio a) (encoder_new (fec_frames a) (fec_symbol_size a))"

definition create_fec_pair :: "QualityProfile \<Rightarrow> FecEncoder \<times> FecDecoder" where
  "create_fec_pair p =
     (let cfg = fec_from_profile p in (build_encoder cfg, decoder_new (fec_frames cfg) (fec_symbol_size cfg)))"

section \<open>The block format\<close>

lemma length_prefixed_slot [simp]: "2 \<le> ss \<Longrightarrow> length (prefixed_slot ss f) = ss"
  by (simp add: prefixed_slot_def Let_def min_def)

lemma length_block_data: "2 \<le> ss \<Longrightarrow> length (build_prefixed_block_data fs ss) = length fs * ss"
  unfolding build_prefixed_block_data_def
  using length_concat_chunks [of "map (prefixed_slot ss) fs" ss] by simp

lemma block_slot:
  "2 \<le> ss \<Longrightarrow> i < length fs \<Longrightarrow> slice ss i (build_prefixed_block_data fs ss) = prefixed_slot ss (fs ! i)"
  unfolding build_prefixed_block_data_def
  using chunk_of_concat [of "map (prefixed_slot ss) fs" ss i] by simp

lemma split_frame_slot:
  assumes "2 \<le> ss" and "ss < 2 ^ 16" and "length d = k * ss" and "i < k"
    and slot: "slice ss i d = prefixed_slot ss f"
  shows "split_frame ss d i = take (ss - 2) f"
proof -
  define r where "r = drop (i * ss) d"
  have "Suc i * ss \<le> k * ss" using assms(4) by (intro mult_le_mono1) simp
  then have len: "ss \<le> length r" "i * ss + 2 \<le> length d" "i * ss < length d"
    using assms(1,3,4) by (simp_all add: r_def)
  define pl where "pl = min (length f) (ss - 2)"
  have r: "r = put_u16_le (of_nat pl) @ take pl f @ replicate (ss - 2 - pl) 0 @ drop ss r"
    using slot append_take_drop_id [of ss r]
    by (simp add: r_def [symmetric] prefixed_slot_def Let_def pl_def)
  have idx: "d ! (i * ss) = r ! 0" "d ! (i * ss + 1) = r ! 1"
    using len assms(1) by (simp_all add: r_def)
  have "r ! 0 = ucast (of_nat pl :: u16)" "r ! 1 = ucast (drop_bit 8 (of_nat pl :: u16))"
    by (subst r, simp add: put_u16_le_def)+
  then have pl: "unat (u16_of_le (d ! (i * ss)) (d ! (i * ss + 1))) = pl"
    unfolding idx using assms(2) by (simp only: u16_of_le_put) (simp add: pl_def)
  have "drop (i * ss + 2) d = drop 2 r" by (simp add: r_def add.commute)
  also have "\<dots> = take pl f @ replicate (ss - 2 - pl) 0 @ drop ss r"
    by (subst r) (simp add: put_u16_le_def)
  finally have payload: "take pl (drop (i * ss + 2) d) = take (ss - 2) f"
    by (simp add: pl_def min_def)
  have "i * ss + 2 + pl \<le> length d" using len(1) assms(1) by (simp add: r_def pl_def)
  then show ?thesis
    using len pl payload by (simp add: split_frame_def Let_def)
qed

lemma split_block:
  assumes "2 \<le> ss" and "ss < 2 ^ 16"
  shows "map (split_frame ss (build_prefixed_block_data fs ss)) [0..<length fs] = map (take (ss - 2)) fs"
proof -
  have "split_frame ss (build_prefixed_block_data fs ss) i = take (ss - 2) (fs ! i)"
    if "i < length fs" for i
    using split_frame_slot [OF assms length_block_data [OF assms(1)] that]
      block_slot [OF assms(1) that] by blast
  then show ?thesis by (intro nth_equalityI) simp_all
qed

section \<open>Recovery of a block\<close>

fun add_frames :: "byte list list \<Rightarrow> FecEncoder \<Rightarrow> FecEncoder" where
  "add_frames [] e = e"
| "add_frames (f # fs) e = add_frames fs (snd (add_source_symbol f e))"

lemma add_frames_full:
  "length (source_symbols e) + length fs \<le> enc_frames_per_block e \<Longrightarrow>
   add_frames fs e = e\<lparr>source_symbols := source_symbols e @ fs\<rparr>"
  by (induction fs arbitrary: e) (simp_all add: add_source_symbol_def)

text \<open>Everything an encoder sends of its current block: the source slots, then the repair.\<close>

definition block_symbols :: "fountain \<Rightarrow> rat \<Rightarrow> FecEncoder \<Rightarrow> (u16 \<times> byte list) list" where
  "block_symbols F ratio e =
     map (\<lambda>(i, d). (of_nat i, d)) (source_packets_for_block (source_symbols e) (unat (symbol_size e))) @
     (case generate_repair F ratio e of Inl _ \<Rightarrow> [] | Inr r \<Rightarrow> r)"

lemma block_symbols_genuine:
  assumes F: "rq_correct F (unat (symbol_size e))" and ss: "2 \<le> unat (symbol_size e)"
    and short: "length (block_symbols F ratio e) < 2 ^ 16" and p: "(i, d) \<in> set (block_symbols F ratio e)"
  shows "genuine F (sbn_of (block_id e)) (unat (symbol_size e)) (length (source_symbols e))
      (build_block_data e) (unat i, d) \<and> length d = unat (symbol_size e)"
proof -
  define k where "k = length (source_symbols e)"
  define n where "n = nat \<lceil>of_nat k *
    (if has_keyframe e \<and> 0 < keyframe_ratio e then keyframe_ratio e else ratio)\<rceil>"
  define R where "R = rq_repair F (sbn_of (block_id e)) (unat (symbol_size e)) (build_block_data e) n"
  have len_R: "\<forall>d \<in> set R. length d = unat (symbol_size e)"
    using F by (simp add: rq_correct_def R_def)
  have k: "k < 2 ^ 16"
    using short by (simp add: block_symbols_def source_packets_for_block_def k_def)
  have gen: "generate_repair F ratio e = Inr [] \<or> 0 < n \<and> generate_repair F ratio e =
      Inr (map (\<lambda>(i, d). (of_nat k + of_nat i, d)) (enumerate 0 R))"
    by (auto simp: generate_repair_def Let_def k_def n_def R_def)
  consider (src) j where "j < k" "i = of_nat j" "d = slice (unat (symbol_size e)) j (build_block_data e)"
    | (rep) j where "generate_repair F ratio e =
          Inr (map (\<lambda>(i, d). (of_nat k + of_nat i, d)) (enumerate 0 R))"
        "j < length R" "i = of_nat k + of_nat j" "d = R ! j"
    using p gen
    by (auto simp: block_symbols_def source_packets_for_block_def build_block_data_def k_def
        in_set_enumerate_eq)
  then show ?thesis
  proof cases
    case src
    have "unat (of_nat j :: u16) = j" using src(1) k by (intro unat_of_nat_u16) simp
    then show ?thesis
      using src ss block_slot [of "unat (symbol_size e)" j "source_symbols e"]
      by (simp add: genuine_def k_def build_block_data_def)
  next
    case rep
    have "k + j < 2 ^ 16"
      using short rep(1,2) by (simp add: block_symbols_def source_packets_for_block_def k_def)
    then have "unat i = k + j" using unat_of_nat_u16 [of "k + j"] rep(3) by simp
    then show ?thesis
      using rep len_R by (auto simp: genuine_def k_def [symmetric] R_def intro!: exI [of _ n])
  qed
qed

lemma add_symbol_fresh:
  assumes "\<forall>b. fec_blocks d bid = Some b \<longrightarrow> \<not> decoded b" and "length x = unat (dec_symbol_size d)"
  shows "add_symbol now bid i x d = d\<lparr>fec_blocks := (fec_blocks d)(bid \<mapsto>
    (get_or_create_block bid d)\<lparr>packets := packets (get_or_create_block bid d) @ [(unat i, x)]\<rparr>)\<rparr>"
proof -
  have "\<not> decoded (get_or_create_block bid d)"
    using assms(1) by (auto simp: get_or_create_block_def fresh_block_def split: option.splits)
  then show ?thesis using assms(2) by (simp add: add_symbol_def Let_def)
qed

definition receiving :: "nat \<Rightarrow> u16 \<Rightarrow> u16 \<Rightarrow> esi_packet list \<Rightarrow> FecDecoder \<Rightarrow> bool" where
  "receiving k ss bid ps d \<longleftrightarrow>
     dec_symbol_size d = ss \<and> dec_frames_per_block d = k \<and>
     get_or_create_block bid d = (fresh_block d)\<lparr>packets := ps\<rparr> \<and>
     (ps \<noteq> [] \<longrightarrow> fec_blocks d bid \<noteq> None)"

lemma receiving_new: "receiving k ss bid [] (decoder_new k ss)"
  by (simp add: receiving_def decoder_new_def get_or_create_block_def fresh_block_def)

lemma receiving_add:
  assumes r: "receiving k ss bid ps d" and x: "length x = unat ss"
  shows "receiving k ss bid (ps @ [(unat i, x)]) (add_symbol now bid i x d)"
proof -
  have "\<forall>b. fec_blocks d bid = Some b \<longrightarrow> \<not> decoded b"
    using r by (auto simp: receiving_def get_or_create_block_def fresh_block_def)
  from add_symbol_fresh [OF this, of x now i] r x show ?thesis
    by (simp add: receiving_def fresh_block_def get_or_create_block_def)
qed

lemma receiving_fold:
  "receiving k ss bid ps d \<Longrightarrow> \<forall>(i, x) \<in> set rs. length x = unat ss \<Longrightarrow>
   receiving k ss bid (ps @ map (map_prod unat id) rs)
     (fold (\<lambda>(i, x). add_symbol now bid i x) rs d)"
proof (induction rs arbitrary: ps d)
  case (Cons r rs)
  obtain i x where r: "r = (i, x)" by (cases r)
  from receiving_add [OF Cons.prems(1), of x i now] Cons.prems(2) r
    Cons.IH [of "ps @ [(unat i, x)]" "add_symbol now bid i x d"]
  show ?case by simp
qed simp

lemma try_decode_receiving:
  assumes "receiving k ss bid ps d" and "ps \<noteq> []"
  shows "fst (try_decode F now bid d) =
    map_option (\<lambda>out. map (split_frame (unat ss) out) [0..<k]) (rq_decode F (sbn_of bid) (unat ss) (k * unat ss) ps)"
proof -
  obtain b where b: "fec_blocks d bid = Some b" using assms by (auto simp: receiving_def)
  then have "b = (fresh_block d)\<lparr>packets := ps\<rparr>" "dec_frames_per_block d = k" "dec_symbol_size d = ss"
    using assms(1) by (simp_all add: receiving_def get_or_create_block_def)
  then show ?thesis
    using b by (simp add: try_decode_def fresh_block_def Let_def split: option.splits)
qed

text \<open>
  C13 (forward error correction recovers the frames).  An encoder is filled with a block of
  frames; the receiver gets any selection of its source and repair symbols, in any order and
  with repetitions.  Then decoding never yields anything but the frames, each cut to the two
  bytes less than the symbol size that fit after its length prefix, and it does yield them as
  soon as every source symbol arrived.
\<close>

theorem fec_recovers_block:
  assumes F: "rq_correct F (unat ss)" and ss: "2 \<le> unat ss" and ne: "rs \<noteq> []"
    and e: "e = add_frames fs (encoder_new (length fs) ss)"
    and short: "length (block_symbols F ratio e) < 2 ^ 16"
    and sub: "set rs \<subseteq> set (block_symbols F ratio e)"
    and d: "d = fold (\<lambda>(i, x). add_symbol now (block_id e) i x) rs (decoder_new (length fs) ss)"
  shows "fst (try_decode F now (block_id e) d) \<in> {None, Some (map (take (unat ss - 2)) fs)} \<and>
    ((\<forall>i < length fs. of_nat i \<in> fst ` set rs) \<longrightarrow>
       fst (try_decode F now (block_id e) d) = Some (map (take (unat ss - 2)) fs))"
proof -
  define k where "k = length fs"
  define data where "data = build_block_data e"
  define ps where "ps = map (map_prod unat id) rs"
  have e': "source_symbols e = fs" "symbol_size e = ss"
    using add_frames_full [of "encoder_new (length fs) ss" fs] e by (simp_all add: encoder_new_def)
  note gen = block_symbols_genuine [OF _ _ short, unfolded e', OF F ss]
  have "\<forall>(i, x) \<in> set rs. length x = unat ss" using gen sub by fastforce
  then have rec: "receiving k ss (block_id e) ps d"
    using receiving_fold [OF receiving_new, of rs ss k "block_id e" now] d
    by (simp add: k_def ps_def)
  have len: "length data = k * unat ss"
    using length_block_data [OF ss, of fs] by (simp add: data_def build_block_data_def e' k_def)
  have "\<forall>p \<in> set ps. genuine F (sbn_of (block_id e)) (unat ss) k data p"
    using gen sub by (fastforce simp: ps_def k_def data_def)
  then have dec: "rq_decode F (sbn_of (block_id e)) (unat ss) (k * unat ss) ps \<in> {None, Some data}"
      "{..<k} \<subseteq> fst ` set ps \<Longrightarrow> rq_decode F (sbn_of (block_id e)) (unat ss) (k * unat ss) ps \<noteq> None"
    using rq_correct_decode [OF F len] by blast+
  have frames: "map (split_frame (unat ss) data) [0..<k] = map (take (unat ss - 2)) fs"
    using split_block [OF ss, of fs] unsigned_less [of ss]
    by (simp add: data_def build_block_data_def e' k_def)
  have res: "fst (try_decode F now (block_id e) d) =
      map_option (\<lambda>out. map (split_frame (unat ss) out) [0..<k])
        (rq_decode F (sbn_of (block_id e)) (unat ss) (k * unat ss) ps)"
    using try_decode_receiving [OF rec] ne by (simp add: ps_def)
  have "{..<k} \<subseteq> fst ` set ps" if all: "\<forall>i < length fs. of_nat i \<in> fst ` set rs"
  proof
    fix i assume "i \<in> {..<k}"
    then obtain x where "(of_nat i, x) \<in> set rs" using all by (auto simp: k_def)
    moreover have "k < 2 ^ 16"
      using short by (simp add: block_symbols_def source_packets_for_block_def k_def e')
    then have "unat (of_nat i :: u16) = i" using \<open>i \<in> {..<k}\<close> by (intro unat_of_nat_u16) simp
    ultimately show "i \<in> fst ` set ps" by (force simp: ps_def)
  qed
  then show ?thesis using dec res frames by auto
qed

text \<open>A code that only repeats its source symbols satisfies the assumption.\<close>

definition plain_fountain :: fountain where
  "plain_fountain =
     \<lparr>rq_repair = (\<lambda>sbn ss data n. replicate n (replicate ss 0)),
      rq_decode = (\<lambda>sbn ss len ps.
        if ss = 0 then Some []
        else if \<forall>i \<in> set [0..<len div ss]. i \<in> fst ` set ps
        then Some (concat (map (\<lambda>i. the (map_of ps i)) [0..<len div ss])) else None)\<rparr>"

lemma concat_slices: "concat (map (\<lambda>i. slice ss i data) [0..<k]) = take (k * ss) data"
  by (induction k) (simp_all add: take_add [symmetric] add.commute)

lemma plain_fountain_correct: "rq_correct plain_fountain ss"
proof -
  have "rq_decode plain_fountain sbn ss (k * ss) ps \<in> {None, Some data} \<and>
      ({..<k} \<subseteq> fst ` set ps \<longrightarrow> rq_decode plain_fountain sbn ss (k * ss) ps \<noteq> None)"
    if len: "length data = k * ss" and gen: "\<forall>p \<in> set ps. genuine plain_fountain sbn ss k data p"
    for sbn k data ps
  proof (cases "ss = 0 \<or> \<not> {..<k} \<subseteq> fst ` set ps")
    case True
    then show ?thesis using len by (auto simp: plain_fountain_def)
  next
    case False
    have "the (map_of ps i) = slice ss i data" if i: "i < k" for i
    proof -
      from False i have "i \<in> fst ` set ps" by auto
      then obtain x where "map_of ps i = Some x" by (cases "map_of ps i") (auto simp: map_of_eq_None_iff)
      then show ?thesis using gen i by (auto dest!: map_of_SomeD simp: genuine_def)
    qed
    then have "concat (map (\<lambda>i. the (map_of ps i)) [0..<k]) = concat (map (\<lambda>i. slice ss i data) [0..<k])"
      by (intro arg_cong [of _ _ concat] map_cong) simp_all
    then have "rq_decode plain_fountain sbn ss (k * ss) ps = Some data"
      using False len concat_slices [of ss data k] by (auto simp: plain_fountain_def)
    then show ?thesis by simp
  qed
  moreover have "\<forall>d \<in> set (rq_repair plain_fountain sbn ss data n). length d = ss" for sbn data n
    by (simp add: plain_fountain_def)
  ultimately show ?thesis unfolding rq_correct_def by blast
qed

theorem fec_recovers_block_witness:
  "fst (try_decode plain_fountain 0 0
     (fold (\<lambda>(i, x). add_symbol 0 0 i x) [(1, [1, 0, 9, 0]), (2, [0, 0, 0, 0]), (0, [2, 0, 7, 8])]
        (decoder_new 2 4))) = Some [[7, 8], [9]]"
proof -
  define e where "e = add_frames [[7, 8], [9]] (encoder_new 2 4)"
  have e: "e = \<lparr>block_id = 0, enc_frames_per_block = 2, source_symbols = [[7, 8], [9]], symbol_size = 4,
      has_keyframe = False, keyframe_ratio = 0\<rparr>"
    by (simp add: e_def add_source_symbol_def encoder_new_def)
  have slots: "prefixed_slot 4 [7, 8] = [2, 0, 7, 8]" "prefixed_slot 4 [9] = [1, 0, 9, 0]"
    by (simp_all add: prefixed_slot_def put_u16_le_def)
  have zeros: "replicate 4 0 = [0, 0, 0, 0 :: byte]" by (simp add: numeral_eq_Suc)
  have two: "[0..<Suc (Suc 0)] = [0, Suc 0]" by (simp add: upt_rec)
  have syms: "block_symbols plain_fountain (1 / 2) e =
      [(0, [2, 0, 7, 8]), (1, [1, 0, 9, 0]), (2, [0, 0, 0, 0])]"
    by (simp add: block_symbols_def e source_packets_for_block_def build_prefixed_block_data_def
        slots two zeros generate_repair_def plain_fountain_def Let_def)
  define rs :: "(u16 \<times> byte list) list" where
    "rs = [(1, [1, 0, 9, 0]), (2, [0, 0, 0, 0]), (0, [2, 0, 7, 8])]"
  have "rs \<noteq> []" "set rs \<subseteq> set (block_symbols plain_fountain (1 / 2) e)"
    and all: "\<forall>i < length [[7, 8], [9 :: byte]]. of_nat i \<in> fst ` set rs"
    by (auto simp: rs_def syms less_Suc_eq)
  note rs = this
  have "e = add_frames [[7, 8], [9]] (encoder_new (length [[7, 8], [9 :: byte]]) 4)"
    by (simp add: e_def numeral_2_eq_2 del: add_frames.simps)
  moreover have "length (block_symbols plain_fountain (1 / 2) e) < 2 ^ 16" by (simp add: syms)
  moreover have "2 \<le> unat (4 :: u16)" by simp
  ultimately have "fst (try_decode plain_fountain 0 (block_id e)
     (fold (\<lambda>(i, x). add_symbol 0 (block_id e) i x) rs (decoder_new (length [[7, 8], [9 :: byte]]) 4))) =
     Some (map (take (unat (4 :: u16) - 2)) [[7, 8], [9]])"
    using fec_recovers_block [OF plain_fountain_correct _ rs(1) _ _ rs(2) refl] all by blast
  note main = this
  have len: "length [[7, 8], [9 :: byte]] = 2" and bid: "block_id e = 0" by (simp_all add: e)
  show ?thesis using main unfolding len bid rs_def by (simp del: fold.simps)
qed

section \<open>The interleaver\<close>

type_synonym Symbol = "u16 \<times> u16 \<times> bool \<times> byte list"

definition interleave_slot :: "Symbol list list \<Rightarrow> nat \<Rightarrow> Symbol list" where
  "interleave_slot blocks slot =
     concat (map (\<lambda>block. if slot < length block then [block ! slot] else []) blocks)"

text \<open>The spread depth is a field that \<open>interleave\<close> does not read.\<close>

definition interleave :: "nat \<Rightarrow> Symbol list list \<Rightarrow> Symbol list" where
  "interleave depth blocks =
     (if blocks = [] then []
      else
        let max_len = Max (set (0 # map length blocks)) in
        concat (map (interleave_slot blocks) [0..<max_len]))"

lemma mset_concat_append:
  "mset (concat (map (\<lambda>s. f s @ g s) xs)) = mset (concat (map f xs)) + mset (concat (map g xs))"
  by (induction xs) simp_all

lemma slots_of_block:
  "length b \<le> n \<Longrightarrow> concat (map (\<lambda>s. if s < length b then [b ! s] else []) [0..<n]) = b"
proof -
  have "concat (map (\<lambda>s. if s < length b then [b ! s] else []) [0..<n]) = take n b" for n
    by (induction n) (simp_all add: take_Suc_conv_app_nth)
  then show "length b \<le> n \<Longrightarrow> ?thesis" by simp
qed

lemma mset_slots:
  "\<forall>b \<in> set blocks. length b \<le> n \<Longrightarrow>
   mset (concat (map (interleave_slot blocks) [0..<n])) = mset (concat blocks)"
proof (induction blocks)
  case Nil
  then show ?case by (simp add: interleave_slot_def)
next
  case (Cons b blocks)
  have "interleave_slot (b # blocks) =
      (\<lambda>s. (if s < length b then [b ! s] else []) @ interleave_slot blocks s)"
    by (simp add: fun_eq_iff interleave_slot_def)
  then show ?case
    using Cons slots_of_block [of b n] by (simp only: mset_concat_append) simp
qed

text \<open>
  Also (interleaving is a permutation).  The transmission sequence holds every symbol of every
  block exactly as often as the blocks do.
\<close>

theorem interleave_permutes: "mset (interleave depth blocks) = mset (concat blocks)"
  using mset_slots [of blocks "Max (set (0 # map length blocks))"]
  by (cases "blocks = []") (simp_all add: interleave_def)

lemma interleave_equal:
  assumes "\<forall>b \<in> set blocks. length b = n" and "blocks \<noteq> []"
  shows "interleave depth blocks = concat (map (\<lambda>s. map (\<lambda>b. b ! s) blocks) [0..<n])"
proof -
  have "set (map length blocks) = {n}" using assms by (cases blocks) auto
  then have "Max (set (0 # map length blocks)) = n" by simp
  moreover have "interleave_slot blocks s = map (\<lambda>b. b ! s) blocks" if "s < n" for s
    using assms(1) that unfolding interleave_slot_def by (induction blocks) auto
  then have "map (interleave_slot blocks) [0..<n] = map (\<lambda>s. map (\<lambda>b. b ! s) blocks) [0..<n]"
    by (intro map_cong) simp_all
  ultimately show ?thesis
    using assms(2) unfolding interleave_def by (simp only: Let_def if_False)
qed

lemma interleave_nth:
  assumes "\<forall>b \<in> set blocks. length b = n" and "p < n * length blocks"
  shows "interleave depth blocks ! p = blocks ! (p mod length blocks) ! (p div length blocks)"
    and "length (interleave depth blocks) = n * length blocks"
proof -
  define k where "k = length blocks"
  have ne: "blocks \<noteq> []" using assms(2) by auto
  define rows where "rows = map (\<lambda>s. map (\<lambda>b. b ! s) blocks) [0..<n]"
  have rows: "\<forall>r \<in> set rows. length r = k" by (auto simp: rows_def k_def)
  have out: "interleave depth blocks = concat rows"
    using interleave_equal [OF assms(1) ne] by (simp add: rows_def)
  then show "length (interleave depth blocks) = n * length blocks"
    using length_concat_chunks [OF rows] by (simp add: rows_def k_def)
  have k: "0 < k" using ne by (simp add: k_def)
  have q: "p div k < n" using assms(2) by (simp add: k_def less_mult_imp_div_less)
  have "concat rows ! p = drop (p div k * k) (concat rows) ! (p mod k)"
  proof -
    have "p div k * k \<le> length (concat rows)"
      using length_concat_chunks [OF rows] q by (simp add: rows_def)
    then show ?thesis by (simp add: nth_drop)
  qed
  also have "\<dots> = take k (drop (p div k * k) (concat rows)) ! (p mod k)"
    using k by simp
  also have "\<dots> = rows ! (p div k) ! (p mod k)"
    using chunk_of_concat [OF rows, of "p div k"] q by (simp add: rows_def)
  also have "\<dots> = blocks ! (p mod k) ! (p div k)"
    using q k by (simp add: rows_def k_def)
  finally show "interleave depth blocks ! p = blocks ! (p mod length blocks) ! (p div length blocks)"
    by (simp add: out k_def)
qed

lemma residue_unique:
  fixes p q k :: nat
  assumes "p mod k = q mod k" and "p \<le> q" and "q < p + k"
  shows "p = q"
proof -
  have "k dvd q - p" using assms(1,2) by (metis mod_eq_dvd_iff_nat)
  then have "q - p = 0" using assms(2,3) by (cases "q - p = 0") (auto dest: dvd_imp_le)
  then show ?thesis using assms(2) by simp
qed

lemma residues_in_window:
  "0 < (k :: nat) \<Longrightarrow> card {p. s \<le> p \<and> p < s + N \<and> p mod k = j} \<le> (N + k - 1) div k"
proof (induction N arbitrary: s rule: less_induct)
  case (less N)
  have one: "card {p. s \<le> p \<and> p < s + M \<and> p mod k = j} \<le> 1" if "M \<le> k" for s M
  proof -
    have "finite {p. s \<le> p \<and> p < s + M \<and> p mod k = j}"
      by (rule finite_subset [of _ "{..<s + M}"]) auto
    moreover have "p = q" if "s \<le> p" "p < s + M" "p mod k = j" "s \<le> q" "q < s + M" "q mod k = j" for p q
      using residue_unique [of p k q] residue_unique [of q k p] that \<open>M \<le> k\<close> by linarith
    ultimately show ?thesis by (auto simp: card_le_Suc0_iff_eq)
  qed
  show ?case
  proof (cases "N \<le> k")
    case True
    then show ?thesis
    proof (cases "N = 0")
      case False
      then have "1 \<le> (N + k - 1) div k" using less.prems by (simp add: Suc_le_eq div_greater_zero_iff)
      then show ?thesis using one [OF True, of s] by linarith
    next
      case True
      then have "{p. s \<le> p \<and> p < s + N \<and> p mod k = j} = {}" by auto
      then show ?thesis by (simp only: card.empty)
    qed
  next
    case False
    have "{p. s \<le> p \<and> p < s + N \<and> p mod k = j} =
        {p. s \<le> p \<and> p < s + k \<and> p mod k = j} \<union> {p. s + k \<le> p \<and> p < s + k + (N - k) \<and> p mod k = j}"
      using False by auto
    then have "card {p. s \<le> p \<and> p < s + N \<and> p mod k = j} \<le>
        card {p. s \<le> p \<and> p < s + k \<and> p mod k = j} +
        card {p. s + k \<le> p \<and> p < s + k + (N - k) \<and> p mod k = j}"
      by (simp add: card_Un_le)
    also have "\<dots> \<le> 1 + (N - k + k - 1) div k"
      using one [of k s] less.IH [of "N - k" "s + k"] less.prems False by (intro add_mono) auto
    also have "\<dots> = (N + k - 1) div k"
    proof -
      have a: "N + k - 1 = (N - 1) + k" and b: "N - k + k - 1 = N - 1"
        using False less.prems by auto
      show ?thesis unfolding a b using less.prems by simp
    qed
    finally show ?thesis .
  qed
qed

text \<open>
  Also (bursts are spread).  When \<open>k\<close> blocks of equal length are interleaved, any \<open>N\<close> consecutive
  symbols of the transmission contain at most \<open>N / k\<close> (rounded up) symbols of any one block.
\<close>

theorem interleave_spreads_bursts:
  assumes eq: "\<forall>b \<in> set blocks. length b = n" and len: "length ids = length blocks"
    and tag: "\<forall>j < length blocks. \<forall>x \<in> set (blocks ! j). fst x = ids ! j" and dist: "distinct ids"
    and ne: "blocks \<noteq> []"
  shows "length (filter (\<lambda>x. fst x = bid) (take N (drop s (interleave depth blocks)))) \<le>
    (N + length blocks - 1) div length blocks"
proof -
  define k where "k = length blocks"
  define out where "out = interleave depth blocks"
  have k: "0 < k" using ne by (simp add: k_def)
  have lout: "length out = n * k"
    using interleave_equal [OF eq ne, of depth]
      length_concat_chunks [of "map (\<lambda>s. map (\<lambda>b. b ! s) blocks) [0..<n]" k]
    by (simp add: out_def k_def)
  have tagged: "fst (out ! p) = ids ! (p mod k)" if "p < n * k" for p
  proof -
    have "p mod k < k" "p div k < n" using that k by (simp_all add: less_mult_imp_div_less)
    then have "blocks ! (p mod k) ! (p div k) \<in> set (blocks ! (p mod k))"
      using eq by (simp add: k_def)
    then show ?thesis
      using interleave_nth(1) [OF eq, of p depth] that tag \<open>p mod k < k\<close> by (simp add: out_def k_def)
  qed
  obtain j where j: "\<And>p. p < k \<Longrightarrow> ids ! p = bid \<Longrightarrow> p = j"
    using dist len by (metis k_def nth_eq_iff_index_eq)
  have "{i. i < length (take N (drop s out)) \<and> fst (take N (drop s out) ! i) = bid} \<subseteq>
      (\<lambda>p. p - s) ` {p. s \<le> p \<and> p < s + N \<and> p mod k = j}"
  proof
    fix i
    assume "i \<in> {i. i < length (take N (drop s out)) \<and> fst (take N (drop s out) ! i) = bid}"
    then have i: "i < N" "s + i < n * k" "fst (out ! (s + i)) = bid" using lout by auto
    then have "(s + i) mod k = j" using tagged [of "s + i"] j k by simp
    then show "i \<in> (\<lambda>p. p - s) ` {p. s \<le> p \<and> p < s + N \<and> p mod k = j}"
      using i(1) by (intro image_eqI [of _ _ "s + i"]) simp_all
  qed
  moreover have fin: "finite {p. s \<le> p \<and> p < s + N \<and> p mod k = j}"
    by (rule finite_subset [of _ "{..<s + N}"]) auto
  ultimately have "card {i. i < length (take N (drop s out)) \<and> fst (take N (drop s out) ! i) = bid} \<le>
      card {p. s \<le> p \<and> p < s + N \<and> p mod k = j}"
    by (meson card_image_le card_mono finite_imageI order_trans)
  also have "\<dots> \<le> (N + k - 1) div k" by (rule residues_in_window [OF k])
  finally show ?thesis by (simp add: length_filter_conv_card out_def k_def)
qed

definition sample_block :: "u16 \<Rightarrow> Symbol list" where
  "sample_block b = [(b, 0, False, [1]), (b, 1, False, [2]), (b, 2, True, [3])]"

theorem interleave_spreads_bursts_witness:
  "length (filter (\<lambda>x. fst x = 6)
     (take 4 (drop 1 (interleave 3 [sample_block 5, sample_block 6, sample_block 7])))) \<le> 2"
proof -
  have "\<forall>j < length [sample_block 5, sample_block 6, sample_block 7].
      \<forall>x \<in> set ([sample_block 5, sample_block 6, sample_block 7] ! j). fst x = [5, 6, 7] ! j"
    by (auto simp: sample_block_def less_Suc_eq)
  from interleave_spreads_bursts [OF _ _ this, of 3 6 4 1 3] show ?thesis
    by (simp add: sample_block_def)
qed

section \<open>Block bookkeeping\<close>

datatype EncoderBlockState = Building | Pending | Sent | Acknowledged
datatype DecoderBlockState = Assembling | Complete | Expired

record EncoderBlockManager =
  current_id :: u16
  enc_blocks :: "u16 \<Rightarrow> EncoderBlockState option"

definition encoder_manager_new :: EncoderBlockManager where
  "encoder_manager_new = \<lparr>current_id = 0, enc_blocks = [0 \<mapsto> Building]\<rparr>"

definition next_block_id :: "EncoderBlockManager \<Rightarrow> u16 \<times> EncoderBlockManager" where
  "next_block_id m =
     (let bs = (enc_blocks m)(current_id m \<mapsto> Pending); cur = current_id m + 1 in
      (cur, m\<lparr>current_id := cur, enc_blocks := bs(cur \<mapsto> Building)\<rparr>))"

definition mark_sent :: "u16 \<Rightarrow> EncoderBlockManager \<Rightarrow> EncoderBlockManager" where
  "mark_sent b m = m\<lparr>enc_blocks := (enc_blocks m)(b \<mapsto> Sent)\<rparr>"

definition mark_acknowledged :: "u16 \<Rightarrow> EncoderBlockManager \<Rightarrow> EncoderBlockManager" where
  "mark_acknowledged b m = m\<lparr>enc_blocks := (enc_blocks m)(b \<mapsto> Acknowledged)\<rparr>"

definition prune_acknowledged :: "EncoderBlockManager \<Rightarrow> EncoderBlockManager" where
  "prune_acknowledged m =
     m\<lparr>enc_blocks := (\<lambda>b. if enc_blocks m b = Some Acknowledged then None else enc_blocks m b)\<rparr>"

record DecoderBlockManager =
  dec_blocks :: "u16 \<Rightarrow> DecoderBlockState option"
  completed :: "u16 set"

definition decoder_manager_new :: DecoderBlockManager where
  "decoder_manager_new = \<lparr>dec_blocks = (\<lambda>_. None), completed = {}\<rparr>"

definition touch :: "u16 \<Rightarrow> DecoderBlockManager \<Rightarrow> DecoderBlockManager" where
  "touch b m =
     (case dec_blocks m b of
        None \<Rightarrow> m\<lparr>dec_blocks := (dec_blocks m)(b \<mapsto> Assembling)\<rparr>
      | Some _ \<Rightarrow> m)"

definition mark_complete :: "u16 \<Rightarrow> DecoderBlockManager \<Rightarrow> DecoderBlockManager" where
  "mark_complete b m = m\<lparr>dec_blocks := (dec_blocks m)(b \<mapsto> Complete), completed := insert b (completed m)\<rparr>"

definition mark_expired :: "u16 \<Rightarrow> DecoderBlockManager \<Rightarrow> DecoderBlockManager" where
  "mark_expired b m = m\<lparr>dec_blocks := (dec_blocks m)(b \<mapsto> Expired), completed := completed m - {b}\<rparr>"

definition is_block_complete :: "u16 \<Rightarrow> DecoderBlockManager \<Rightarrow> bool" where
  "is_block_complete b m \<longleftrightarrow> b \<in> completed m"

definition behind :: "u16 \<Rightarrow> u16 \<Rightarrow> bool" where
  "behind b i \<longleftrightarrow> (let distance = b - i in 0 < distance \<and> distance \<le> 32768)"

definition manager_expire_before :: "u16 \<Rightarrow> DecoderBlockManager \<Rightarrow> DecoderBlockManager" where
  "manager_expire_before b m =
     m\<lparr>dec_blocks := (\<lambda>i. if dec_blocks m i \<noteq> None \<and> behind b i then Some Expired else dec_blocks m i),
       completed := {i \<in> completed m. \<not> (dec_blocks m i \<noteq> None \<and> behind b i)}\<rparr>"

definition prune_expired :: "DecoderBlockManager \<Rightarrow> DecoderBlockManager" where
  "prune_expired m =
     m\<lparr>dec_blocks := (\<lambda>b. if dec_blocks m b = Some Expired then None else dec_blocks m b)\<rparr>"

datatype manager_op = Touch u16 | Done u16 | Expire u16 | ExpireBefore u16 | Prune

fun manager_step :: "manager_op \<Rightarrow> DecoderBlockManager \<Rightarrow> DecoderBlockManager" where
  "manager_step (Touch b) = touch b"
| "manager_step (Done b) = mark_complete b"
| "manager_step (Expire b) = mark_expired b"
| "manager_step (ExpireBefore b) = manager_expire_before b"
| "manager_step Prune = prune_expired"

definition manager_inv :: "DecoderBlockManager \<Rightarrow> bool" where
  "manager_inv m \<longleftrightarrow> (\<forall>b. is_block_complete b m \<longleftrightarrow> dec_blocks m b = Some Complete)"

lemma manager_inv_step [inv_intro]: "manager_inv m \<Longrightarrow> manager_inv (manager_step op m)"
  by (cases op)
    (auto simp: manager_inv_def is_block_complete_def touch_def mark_complete_def mark_expired_def
      manager_expire_before_def prune_expired_def split: option.splits)

lemma manager_inv_run: "manager_inv m \<Longrightarrow> manager_inv (fold manager_step ops m)"
  by (induction ops arbitrary: m) (simp_all add: manager_inv_step)

text \<open>
  Also (the two records of completion agree).  After any history of a decoder's block manager the
  completed set holds exactly the blocks whose state is \<open>Complete\<close>, and expiring before a block
  leaves complete exactly those that were and are not among the 32768 ids behind it.
\<close>

theorem completion_consistent:
  "let m = fold manager_step ops decoder_manager_new in
   (is_block_complete b m = (dec_blocks m b = Some Complete)) \<and>
   (is_block_complete b (manager_expire_before c m) = (is_block_complete b m \<and> \<not> behind c b))"
proof -
  have "manager_inv decoder_manager_new"
    by (simp add: manager_inv_def is_block_complete_def decoder_manager_new_def)
  from manager_inv_run [OF this, of ops] show ?thesis
    by (auto simp: Let_def manager_inv_def is_block_complete_def manager_expire_before_def)
qed

end
