(* ===== verification/Calls.thy ===== *)
theory Calls
  imports BTree
begin

text \<open>
  The registry of direct calls, \<open>crates/wzp-relay/src/call_registry.rs\<close>: a hash map from call
  ids to call records and the operations that move a call through
  \<open>Pending \<rightarrow> Ringing \<rightarrow> Active \<rightarrow> Ended\<close>.  \<open>Instant::now()\<close> is the argument
  \<open>now\<close>, in milliseconds.  The life of a call is specified by the step relation
  \<open>call_next\<close>.
\<close>

section \<open>State\<close>

datatype DirectCallState = Pending | Ringing | Active | Ended

datatype CallAcceptMode = AcceptTrusted | AcceptGeneric | Reject

record DirectCall =
  call_id :: string
  caller_fingerprint :: string
  callee_fingerprint :: string
  call_state :: DirectCallState
  accept_mode :: "CallAcceptMode option"
  room_name :: "string option"
  created_at :: nat
  answered_at :: "nat option"
  ended_at :: "nat option"
  caller_reflexive_addr :: "string option"
  callee_reflexive_addr :: "string option"
  peer_relay_fp :: "string option"
  caller_local_addrs :: "string list"
  callee_local_addrs :: "string list"
  caller_mapped_addr :: "string option"
  callee_mapped_addr :: "string option"

type_synonym CallRegistry = "(string, DirectCall) hashmap"

section \<open>Operations\<close>

definition create_call :: "nat \<Rightarrow> string \<Rightarrow> string \<Rightarrow> string \<Rightarrow> CallRegistry \<Rightarrow> CallRegistry" where
  "create_call now cid caller callee reg =
     hm_insert cid
       \<lparr>call_id = cid, caller_fingerprint = caller, callee_fingerprint = callee,
        call_state = Pending, accept_mode = None, room_name = None, created_at = now,
        answered_at = None, ended_at = None, caller_reflexive_addr = None,
        callee_reflexive_addr = None, peer_relay_fp = None, caller_local_addrs = [],
        callee_local_addrs = [], caller_mapped_addr = None, callee_mapped_addr = None\<rparr> reg"

definition set_caller_local_addrs :: "string \<Rightarrow> string list \<Rightarrow> CallRegistry \<Rightarrow> CallRegistry" where
  "set_caller_local_addrs cid addrs = hm_adjust cid (\<lambda>c. c\<lparr>caller_local_addrs := addrs\<rparr>)"

definition set_callee_local_addrs :: "string \<Rightarrow> string list \<Rightarrow> CallRegistry \<Rightarrow> CallRegistry" where
  "set_callee_local_addrs cid addrs = hm_adjust cid (\<lambda>c. c\<lparr>callee_local_addrs := addrs\<rparr>)"

definition set_peer_relay_fp :: "string \<Rightarrow> string option \<Rightarrow> CallRegistry \<Rightarrow> CallRegistry" where
  "set_peer_relay_fp cid fp = hm_adjust cid (\<lambda>c. c\<lparr>peer_relay_fp := fp\<rparr>)"

definition set_caller_reflexive_addr :: "string \<Rightarrow> string option \<Rightarrow> CallRegistry \<Rightarrow> CallRegistry" where
  "set_caller_reflexive_addr cid a = hm_adjust cid (\<lambda>c. c\<lparr>caller_reflexive_addr := a\<rparr>)"

definition set_callee_reflexive_addr :: "string \<Rightarrow> string option \<Rightarrow> CallRegistry \<Rightarrow> CallRegistry" where
  "set_callee_reflexive_addr cid a = hm_adjust cid (\<lambda>c. c\<lparr>callee_reflexive_addr := a\<rparr>)"

definition set_caller_mapped_addr :: "string \<Rightarrow> string option \<Rightarrow> CallRegistry \<Rightarrow> CallRegistry" where
  "set_caller_mapped_addr cid a = hm_adjust cid (\<lambda>c. c\<lparr>caller_mapped_addr := a\<rparr>)"

definition set_callee_mapped_addr :: "string \<Rightarrow> string option \<Rightarrow> CallRegistry \<Rightarrow> CallRegistry" where
  "set_callee_mapped_addr cid a = hm_adjust cid (\<lambda>c. c\<lparr>callee_mapped_addr := a\<rparr>)"

definition set_ringing :: "string \<Rightarrow> CallRegistry \<Rightarrow> bool \<times> CallRegistry" where
  "set_ringing cid reg =
     (case hm_get reg cid of
        Some c \<Rightarrow> if call_state c = Pending then (True, hm_insert cid (c\<lparr>call_state := Ringing\<rparr>) reg)
                  else (False, reg)
      | None \<Rightarrow> (False, reg))"

definition set_active ::
  "nat \<Rightarrow> string \<Rightarrow> CallAcceptMode \<Rightarrow> string \<Rightarrow> CallRegistry \<Rightarrow> bool \<times> CallRegistry" where
  "set_active now cid mode room reg =
     (case hm_get reg cid of
        Some c \<Rightarrow>
          if call_state c = Pending \<or> call_state c = Ringing
          then (True, hm_insert cid (c\<lparr>call_state := Active, accept_mode := Some mode,
                                      room_name := Some room, answered_at := Some now\<rparr>) reg)
          else (False, reg)
      | None \<Rightarrow> (False, reg))"

definition end_call :: "nat \<Rightarrow> string \<Rightarrow> CallRegistry \<Rightarrow> DirectCall option \<times> CallRegistry" where
  "end_call now cid reg =
     (let reg = hm_adjust cid (\<lambda>c. c\<lparr>call_state := Ended, ended_at := Some now\<rparr>) reg in
      (hm_get reg cid, hm_remove cid reg))"

definition calls_for_fingerprint :: "string \<Rightarrow> CallRegistry \<Rightarrow> DirectCall list" where
  "calls_for_fingerprint fp reg =
     filter (\<lambda>c. call_state c \<noteq> Ended \<and> (caller_fingerprint c = fp \<or> callee_fingerprint c = fp))
       (map snd reg)"

definition peer_fingerprint :: "string \<Rightarrow> string \<Rightarrow> CallRegistry \<Rightarrow> string option" where
  "peer_fingerprint cid my_fp reg =
     map_option (\<lambda>c. if caller_fingerprint c = my_fp then callee_fingerprint c
                     else caller_fingerprint c) (hm_get reg cid)"

definition stale :: "nat \<Rightarrow> nat \<Rightarrow> DirectCall \<Rightarrow> bool" where
  "stale now timeout c \<longleftrightarrow> call_state c = Pending \<and> timeout < now - created_at c"

fun remove_all :: "string list \<Rightarrow> CallRegistry \<Rightarrow> DirectCall list \<times> CallRegistry" where
  "remove_all [] reg = ([], reg)"
| "remove_all (cid # ids) reg =
     (let (cs, reg') = remove_all ids (hm_remove cid reg) in
      (case hm_get reg cid of None \<Rightarrow> (cs, reg') | Some c \<Rightarrow> (c # cs, reg')))"

definition expire_stale :: "nat \<Rightarrow> nat \<Rightarrow> CallRegistry \<Rightarrow> DirectCall list \<times> CallRegistry" where
  "expire_stale now timeout reg =
     remove_all (map fst (filter (\<lambda>(_, c). stale now timeout c) reg)) reg"

definition active_count :: "CallRegistry \<Rightarrow> nat" where
  "active_count reg = length (filter (\<lambda>c. call_state c \<noteq> Ended) (map snd reg))"

section \<open>The life of a call\<close>

text \<open>What may happen to one call between two looks at the registry: \<open>None\<close> is no such call.\<close>

inductive call_next :: "DirectCallState option \<Rightarrow> DirectCallState option \<Rightarrow> bool" where
  call_place: "call_next None (Some Pending)"
| call_ring: "call_next (Some Pending) (Some Ringing)"
| call_answer: "s = Pending \<or> s = Ringing \<Longrightarrow> call_next (Some s) (Some Active)"
| call_drop: "call_next (Some s) None"
| call_stay: "call_next s s"

inductive_cases call_next_SomeE: "call_next (Some s) (Some t)"

code_pred call_next .

datatype registry_op =
    CreateCall string string string
  | SetCallerLocal string "string list"
  | SetCalleeLocal string "string list"
  | SetPeerRelay string "string option"
  | SetCallerReflexive string "string option"
  | SetCalleeReflexive string "string option"
  | SetCallerMapped string "string option"
  | SetCalleeMapped string "string option"
  | Ring string
  | Answer string CallAcceptMode string
  | End string
  | ExpireCalls nat

fun registry_step :: "nat \<Rightarrow> registry_op \<Rightarrow> CallRegistry \<Rightarrow> CallRegistry" where
  "registry_step now (CreateCall cid a b) reg = create_call now cid a b reg"
| "registry_step now (SetCallerLocal cid x) reg = set_caller_local_addrs cid x reg"
| "registry_step now (SetCalleeLocal cid x) reg = set_callee_local_addrs cid x reg"
| "registry_step now (SetPeerRelay cid x) reg = set_peer_relay_fp cid x reg"
| "registry_step now (SetCallerReflexive cid x) reg = set_caller_reflexive_addr cid x reg"
| "registry_step now (SetCalleeReflexive cid x) reg = set_callee_reflexive_addr cid x reg"
| "registry_step now (SetCallerMapped cid x) reg = set_caller_mapped_addr cid x reg"
| "registry_step now (SetCalleeMapped cid x) reg = set_callee_mapped_addr cid x reg"
| "registry_step now (Ring cid) reg = snd (set_ringing cid reg)"
| "registry_step now (Answer cid m r) reg = snd (set_active now cid m r reg)"
| "registry_step now (End cid) reg = snd (end_call now cid reg)"
| "registry_step now (ExpireCalls t) reg = snd (expire_stale now t reg)"

definition registry_run :: "(nat \<times> registry_op) list \<Rightarrow> CallRegistry \<Rightarrow> CallRegistry" where
  "registry_run ops = fold (\<lambda>(now, op). registry_step now op) ops"

lemmas setter_defs = set_caller_local_addrs_def set_callee_local_addrs_def set_peer_relay_fp_def
  set_caller_reflexive_addr_def set_callee_reflexive_addr_def set_caller_mapped_addr_def
  set_callee_mapped_addr_def

lemma remove_all_get:
  "hm_get (snd (remove_all ids reg)) k = (if k \<in> set ids then None else hm_get reg k)"
  by (induction ids arbitrary: reg) (auto simp: Let_def split_beta split: option.splits)

lemma remove_all_ok: "hm_ok reg \<Longrightarrow> hm_ok (snd (remove_all ids reg))"
  by (induction ids arbitrary: reg)
    (auto simp: Let_def split_beta hm_ok_remove split: option.splits)

lemma remove_all_fst:
  "distinct ids \<Longrightarrow> set (fst (remove_all ids reg)) = {c. \<exists>k \<in> set ids. hm_get reg k = Some c}"
proof (induction ids arbitrary: reg)
  case (Cons a ids)
  have "k \<in> set ids \<Longrightarrow> k \<noteq> a" for k using Cons.prems by auto
  then show ?case
    using Cons.IH [of "hm_remove a reg"] Cons.prems
    by (cases "hm_get reg a") (auto simp: Let_def split_beta)
qed simp

lemma stale_ids:
  assumes "hm_ok reg"
  shows "distinct (map fst (filter (\<lambda>(_, c). stale now t c) reg))"
    and "set (map fst (filter (\<lambda>(_, c). stale now t c) reg)) =
      {k. \<exists>c. hm_get reg k = Some c \<and> stale now t c}"
proof -
  show "distinct (map fst (filter (\<lambda>(_, c). stale now t c) reg))"
    using assms by (simp add: hm_ok_def distinct_map_filter)
  have "hm_get reg k = Some c \<longleftrightarrow> (k, c) \<in> set reg" for k c
    using assms by (simp add: hm_ok_def map_of_eq_Some_iff)
  then show "set (map fst (filter (\<lambda>(_, c). stale now t c) reg)) =
      {k. \<exists>c. hm_get reg k = Some c \<and> stale now t c}"
    by force
qed

lemma expire_get:
  "hm_ok reg \<Longrightarrow> hm_get (snd (expire_stale now t reg)) k =
     (case hm_get reg k of None \<Rightarrow> None | Some c \<Rightarrow> if stale now t c then None else Some c)"
  by (auto simp: expire_stale_def remove_all_get stale_ids(2) simp del: set_map split: option.splits)

definition call_wf :: "string \<Rightarrow> DirectCall \<Rightarrow> bool" where
  "call_wf k c \<longleftrightarrow>
     call_id c = k \<and> call_state c \<noteq> Ended \<and> ended_at c = None \<and>
     (call_state c = Active \<longleftrightarrow> room_name c \<noteq> None) \<and>
     (call_state c = Active \<longleftrightarrow> accept_mode c \<noteq> None) \<and>
     (call_state c = Active \<longleftrightarrow> answered_at c \<noteq> None)"

definition registry_wf :: "CallRegistry \<Rightarrow> bool" where
  "registry_wf reg \<longleftrightarrow> hm_ok reg \<and> (\<forall>k c. hm_get reg k = Some c \<longrightarrow> call_wf k c)"

lemma expire_ok: "hm_ok reg \<Longrightarrow> hm_ok (snd (expire_stale now t reg))"
  by (simp add: expire_stale_def remove_all_ok)

lemma registry_wf_insert: "registry_wf reg \<Longrightarrow> call_wf k c \<Longrightarrow> registry_wf (hm_insert k c reg)"
  by (simp add: registry_wf_def hm_ok_insert)

lemma registry_wf_remove: "registry_wf reg \<Longrightarrow> registry_wf (hm_remove k reg)"
  by (simp add: registry_wf_def hm_ok_remove)

lemma registry_wf_adjust:
  "registry_wf reg \<Longrightarrow> (\<And>c. call_wf k c \<Longrightarrow> call_wf k (f c)) \<Longrightarrow> registry_wf (hm_adjust k f reg)"
  by (auto simp: registry_wf_def hm_ok_adjust)

lemma registry_wfD: "registry_wf reg \<Longrightarrow> hm_get reg k = Some c \<Longrightarrow> call_wf k c"
  by (simp add: registry_wf_def)

lemma remove_adjust: "hm_remove k (hm_adjust k f reg) = hm_remove k reg"
proof -
  have "hm_remove k (hm_insert k v reg) = hm_remove k reg" for v
    by (induction reg) auto
  then show ?thesis by (simp add: hm_adjust_def split: option.splits)
qed

lemma registry_wf_step [inv_intro]:
  assumes "registry_wf reg"
  shows "registry_wf (registry_step now op reg)"
proof (cases op)
  case (CreateCall k a b)
  then show ?thesis
    using assms by (simp add: create_call_def registry_wf_insert call_wf_def)
next
  case (Ring k)
  then show ?thesis
    using assms registry_wfD [OF assms, of k]
    by (auto simp: set_ringing_def call_wf_def intro!: registry_wf_insert split: option.splits)
next
  case (Answer k m r)
  then show ?thesis
    using assms registry_wfD [OF assms, of k]
    by (auto simp: set_active_def call_wf_def intro!: registry_wf_insert split: option.splits)
next
  case (End k)
  then show ?thesis
    using assms by (simp add: end_call_def Let_def remove_adjust registry_wf_remove)
next
  case (ExpireCalls t)
  then show ?thesis
    using assms by (auto simp: registry_wf_def expire_ok expire_get split: option.splits if_splits)
qed (use assms in \<open>auto simp: setter_defs call_wf_def intro!: registry_wf_adjust\<close>)

lemma registry_wf_run: "registry_wf reg \<Longrightarrow> registry_wf (registry_run ops reg)"
  unfolding registry_run_def by (induction ops arbitrary: reg) (auto simp: registry_wf_step)

text \<open>
  Also (registry invariant).  After any history of the registry every call is filed under its own
  id, no ended call is left, and exactly the answered calls have a room, an accept mode and an
  answer time.
\<close>

theorem registry_invariant:
  "registry_wf (registry_run ops [])"
  by (rule registry_wf_run) (simp add: registry_wf_def)

text \<open>The state of a call in a registry.\<close>

definition state_of :: "CallRegistry \<Rightarrow> string \<Rightarrow> DirectCallState option" where
  "state_of reg k = map_option call_state (hm_get reg k)"

lemma state_of_step:
  assumes "hm_ok reg" and "\<And>a b. op = CreateCall k a b \<Longrightarrow> hm_get reg k = None"
  shows "call_next (state_of reg k) (state_of (registry_step now op reg) k)"
proof (cases op)
  case (ExpireCalls t)
  then show ?thesis
    using assms(1)
    by (auto simp: state_of_def expire_get stale_def intro: call_next.intros split: option.splits)
qed (use assms in \<open>auto simp: state_of_def create_call_def setter_defs set_ringing_def
    set_active_def end_call_def Let_def hm_adjust_def intro: call_next.intros split: option.splits\<close>)

text \<open>
  Also (lifecycle).  Whatever the registry does, a call that is not placed again under its own id
  moves along its life cycle: from pending to ringing or active, from ringing to active, or out
  of the registry; never backwards.
\<close>

theorem call_lifecycle:
  assumes "\<And>a b. op = CreateCall k a b \<Longrightarrow> hm_get (registry_run ops []) k = None"
  shows "call_next (state_of (registry_run ops []) k)
    (state_of (registry_step now op (registry_run ops [])) k)"
proof (rule state_of_step [OF _ assms])
  show "hm_ok (registry_run ops [])"
    using registry_wf_run [of "[]" ops] by (simp add: registry_wf_def)
qed

theorem call_lifecycle_witness:
  "call_next (Some Pending)
     (state_of (registry_step 5 (Answer ''c'' AcceptGeneric ''r'') (registry_run [(1, CreateCall ''c'' ''a'' ''b'')] [])) ''c'')"
proof -
  have "state_of (registry_run [(1, CreateCall ''c'' ''a'' ''b'')] []) ''c'' = Some Pending"
    by (simp add: registry_run_def create_call_def state_of_def)
  then show ?thesis
    using call_lifecycle [of "Answer ''c'' AcceptGeneric ''r''" "''c''" "[(1, CreateCall ''c'' ''a'' ''b'')]" 5]
    by simp
qed

text \<open>
  Also (expiry).  Expiring returns and removes exactly the calls that are still pending and older
  than the timeout.  A ringing call is never among them, however old.
\<close>

theorem expire_exact:
  assumes "expire_stale now t (registry_run ops []) = (cs, reg)"
  shows "set cs = {c. \<exists>k. hm_get (registry_run ops []) k = Some c \<and>
             call_state c = Pending \<and> t < now - created_at c} \<and>
    (\<forall>k c. hm_get reg k = Some c \<longleftrightarrow>
       hm_get (registry_run ops []) k = Some c \<and> \<not> (call_state c = Pending \<and> t < now - created_at c))"
proof -
  have ok: "hm_ok (registry_run ops [])"
    using registry_wf_run [of "[]" ops] by (simp add: registry_wf_def)
  have "set cs = {c. \<exists>k. hm_get (registry_run ops []) k = Some c \<and> stale now t c}"
    using assms remove_all_fst [OF stale_ids(1) [OF ok, of now t], of "registry_run ops []"]
    unfolding stale_ids(2) [OF ok] expire_stale_def by auto
  moreover have "hm_get reg k = Some c \<longleftrightarrow>
      hm_get (registry_run ops []) k = Some c \<and> \<not> stale now t c" for k c
    using expire_get [OF ok, of now t k] assms by (auto split: option.splits if_splits)
  ultimately show ?thesis by (simp add: stale_def)
qed

theorem expire_exact_witness:
  "let reg0 = registry_run [(0, CreateCall ''c'' ''a'' ''b''), (0, CreateCall ''d'' ''a'' ''b''), (1, Ring ''d'')] [] in
   map call_id (fst (expire_stale 90 30 reg0)) = [''c''] \<and>
   (\<forall>c \<in> set (fst (expire_stale 90 30 reg0)). call_state c = Pending)"
proof -
  define reg0 where "reg0 = registry_run
    [(0, CreateCall ''c'' ''a'' ''b''), (0, CreateCall ''d'' ''a'' ''b''), (1, Ring ''d'')] []"
  have "map call_id (fst (expire_stale 90 30 reg0)) = [''c'']"
    by (simp add: reg0_def registry_run_def create_call_def set_ringing_def expire_stale_def stale_def)
  moreover obtain cs reg where r: "expire_stale 90 30 reg0 = (cs, reg)" by fastforce
  ultimately show ?thesis
    using expire_exact [OF r [unfolded reg0_def]] r unfolding reg0_def [symmetric] Let_def by auto
qed

end
