(* ===== verification/Presence.thy ===== *)
theory Presence
  imports BTree Complex_Main
begin

text \<open>
  Who is where: the presence registry of \<open>crates/wzp-relay/src/presence.rs\<close> and the route
  resolution of \<open>route.rs\<close> on top of it.  The resolver relies on the registry through the
  locale \<open>presence_index\<close>.  Socket addresses are strings, times are milliseconds, and
  \<open>Instant::now()\<close> is the argument \<open>now\<close>.
\<close>

section \<open>The registry\<close>

type_synonym addr = string

datatype PresenceLocation = LocalRelay | Remote addr

record LocalPresence =
  local_fp :: string
  local_alias :: "string option"
  connected_at :: nat
  room :: "string option"

record RemotePresence =
  remote_fp :: string
  relay_addr :: addr
  last_seen :: nat

record PeerRelay =
  peer_addr :: addr
  fingerprints :: "string set"
  last_update :: nat
  rtt_ms :: "rat option"

record PresenceRegistry =
  locals :: "(string, LocalPresence) hashmap"
  remote :: "(string, RemotePresence) hashmap"
  peers :: "(addr, PeerRelay) hashmap"

definition presence_new :: PresenceRegistry where
  "presence_new = \<lparr>locals = [], remote = [], peers = []\<rparr>"

definition register_local ::
  "nat \<Rightarrow> string \<Rightarrow> string option \<Rightarrow> string option \<Rightarrow> PresenceRegistry \<Rightarrow> PresenceRegistry" where
  "register_local now fp al rm reg =
     reg\<lparr>locals := hm_insert fp
       \<lparr>local_fp = fp, local_alias = al, connected_at = now, room = rm\<rparr> (locals reg)\<rparr>"

definition unregister_local :: "string \<Rightarrow> PresenceRegistry \<Rightarrow> PresenceRegistry" where
  "unregister_local fp reg = reg\<lparr>locals := hm_remove fp (locals reg)\<rparr>"

text \<open>The reported set arrives as a list; it is iterated once and kept as a set.\<close>

definition insert_remotes :: "nat \<Rightarrow> addr \<Rightarrow> string list \<Rightarrow>
  (string, RemotePresence) hashmap \<Rightarrow> (string, RemotePresence) hashmap" where
  "insert_remotes now a =
     fold (\<lambda>fp. hm_insert fp \<lparr>remote_fp = fp, relay_addr = a, last_seen = now\<rparr>)"

definition update_peer :: "nat \<Rightarrow> addr \<Rightarrow> string list \<Rightarrow> PresenceRegistry \<Rightarrow> PresenceRegistry" where
  "update_peer now a fps reg =
     (let rem = insert_remotes now a fps (hm_retain (\<lambda>_ rp. relay_addr rp \<noteq> a) (remote reg));
          peer = (case hm_get (peers reg) a of
                    None \<Rightarrow> \<lparr>peer_addr = a, fingerprints = {}, last_update = now, rtt_ms = None\<rparr>
                  | Some p \<Rightarrow> p) in
      reg\<lparr>remote := rem,
          peers := hm_insert a (peer\<lparr>fingerprints := set fps, last_update := now\<rparr>) (peers reg)\<rparr>)"

definition lookup :: "PresenceRegistry \<Rightarrow> string \<Rightarrow> PresenceLocation option" where
  "lookup reg fp =
     (if hm_get (locals reg) fp \<noteq> None then Some LocalRelay
      else (case hm_get (remote reg) fp of
              Some rp \<Rightarrow> Some (Remote (relay_addr rp)) | None \<Rightarrow> None))"

definition local_fingerprints :: "PresenceRegistry \<Rightarrow> string set" where
  "local_fingerprints reg = set (map fst (locals reg))"

definition all_known :: "PresenceRegistry \<Rightarrow> (string \<times> PresenceLocation) list" where
  "all_known reg =
     map (\<lambda>(fp, _). (fp, LocalRelay)) (locals reg) @
     map (\<lambda>(fp, rp). (fp, Remote (relay_addr rp)))
       (filter (\<lambda>(fp, _). hm_get (locals reg) fp = None) (remote reg))"

definition expire_stale :: "nat \<Rightarrow> nat \<Rightarrow> PresenceRegistry \<Rightarrow> PresenceRegistry" where
  "expire_stale now timeout reg =
     (let cutoff = now - timeout in
      reg\<lparr>remote := hm_retain (\<lambda>_ rp. cutoff < last_seen rp) (remote reg),
          peers := hm_retain (\<lambda>_ p. \<not> last_update p \<le> cutoff) (peers reg)\<rparr>)"

section \<open>Routes\<close>

datatype Route = RouteLocal | DirectPeer addr | Chain "addr list" | NotFound

record RouteResolver =
  local_addr :: addr

definition resolve :: "RouteResolver \<Rightarrow> PresenceRegistry \<Rightarrow> string \<Rightarrow> Route" where
  "resolve rr reg fp =
     (case lookup reg fp of
        Some LocalRelay \<Rightarrow> RouteLocal
      | Some (Remote a) \<Rightarrow> DirectPeer a
      | None \<Rightarrow> NotFound)"

definition resolve_multi_hop :: "RouteResolver \<Rightarrow> PresenceRegistry \<Rightarrow> string \<Rightarrow> nat \<Rightarrow> Route" where
  "resolve_multi_hop rr reg fp max_hops = resolve rr reg fp"

definition route_json :: "RouteResolver \<Rightarrow> string \<Rightarrow> Route \<Rightarrow> string \<times> string \<times> addr list" where
  "route_json rr fp r =
     (let (route_type, relay_chain) = (case r of
          RouteLocal \<Rightarrow> (''local'', [local_addr rr])
        | DirectPeer a \<Rightarrow> (''direct_peer'', [local_addr rr, a])
        | Chain c \<Rightarrow> (''chain'', local_addr rr # c)
        | NotFound \<Rightarrow> (''not_found'', [])) in
      (fp, route_type, relay_chain))"

section \<open>Consistency of the registry\<close>

definition presence_inv :: "PresenceRegistry \<Rightarrow> bool" where
  "presence_inv reg \<longleftrightarrow>
     hm_ok (locals reg) \<and> hm_ok (remote reg) \<and> hm_ok (peers reg) \<and>
     (\<forall>fp rp. hm_get (remote reg) fp = Some rp \<longrightarrow>
        remote_fp rp = fp \<and>
        (\<exists>p. hm_get (peers reg) (relay_addr rp) = Some p \<and> fp \<in> fingerprints p \<and>
             last_update p = last_seen rp))"

lemma insert_remotes_get:
  "hm_get (insert_remotes now a fps m) fp =
     (if fp \<in> set fps then Some \<lparr>remote_fp = fp, relay_addr = a, last_seen = now\<rparr> else hm_get m fp)"
  unfolding insert_remotes_def by (induction fps arbitrary: m) auto

lemma insert_remotes_ok: "hm_ok m \<Longrightarrow> hm_ok (insert_remotes now a fps m)"
  unfolding insert_remotes_def by (induction fps arbitrary: m) (auto simp: hm_ok_insert)

datatype presence_op =
    RegisterLocal string "string option" "string option"
  | UnregisterLocal string
  | UpdatePeer addr "string list"
  | ExpireStale nat

fun presence_step :: "nat \<Rightarrow> presence_op \<Rightarrow> PresenceRegistry \<Rightarrow> PresenceRegistry" where
  "presence_step now (RegisterLocal fp al rm) reg = register_local now fp al rm reg"
| "presence_step now (UnregisterLocal fp) reg = unregister_local fp reg"
| "presence_step now (UpdatePeer a fps) reg = update_peer now a fps reg"
| "presence_step now (ExpireStale t) reg = expire_stale now t reg"

definition presence_run :: "(nat \<times> presence_op) list \<Rightarrow> PresenceRegistry" where
  "presence_run ops = fold (\<lambda>(now, op). presence_step now op) ops presence_new"

lemma presence_inv_update_peer [inv_intro]:
  assumes "presence_inv reg"
  shows "presence_inv (update_peer now a fps reg)"
proof -
  have "hm_get (hm_retain (\<lambda>_ rp. relay_addr rp \<noteq> a) (remote reg)) fp =
      (case hm_get (remote reg) fp of None \<Rightarrow> None
       | Some rp \<Rightarrow> if relay_addr rp \<noteq> a then Some rp else None)" for fp
    using assms by (simp add: presence_inv_def hm_get_retain)
  then show ?thesis
    using assms
    by (auto simp: presence_inv_def update_peer_def Let_def insert_remotes_get insert_remotes_ok
        hm_ok_insert hm_ok_retain split: option.splits if_splits)
qed

lemma presence_inv_step [inv_intro]: "presence_inv reg \<Longrightarrow> presence_inv (presence_step now op reg)"
proof (cases op)
  case (UpdatePeer a fps)
  then show "presence_inv reg \<Longrightarrow> ?thesis" by (simp add: presence_inv_update_peer)
next
  case (ExpireStale t)
  assume inv: "presence_inv reg"
  then have ok: "hm_ok (remote reg)" "hm_ok (peers reg)" by (simp_all add: presence_inv_def)
  have "\<exists>p. hm_get (peers (expire_stale now t reg)) (relay_addr rp) = Some p \<and> fp \<in> fingerprints p \<and>
      last_update p = last_seen rp \<and> remote_fp rp = fp"
    if "hm_get (remote (expire_stale now t reg)) fp = Some rp" for fp rp
  proof -
    have rp: "hm_get (remote reg) fp = Some rp" "now - t < last_seen rp"
      using that ok(1) by (auto simp: expire_stale_def Let_def hm_get_retain split: option.splits if_splits)
    then obtain p where "hm_get (peers reg) (relay_addr rp) = Some p" "fp \<in> fingerprints p"
      "last_update p = last_seen rp" "remote_fp rp = fp"
      using inv by (auto simp: presence_inv_def)
    then show ?thesis using rp(2) ok(2) by (simp add: expire_stale_def Let_def hm_get_retain)
  qed
  then show ?thesis
    using inv ExpireStale ok
    by (simp add: presence_inv_def) (force simp: expire_stale_def Let_def hm_ok_retain)
qed (auto simp: presence_inv_def register_local_def unregister_local_def hm_ok_insert hm_ok_remove)

lemma presence_inv_run: "presence_inv (presence_run ops)"
proof -
  have "presence_inv (fold (\<lambda>(now, op). presence_step now op) ops reg)" if "presence_inv reg" for reg
    using that by (induction ops arbitrary: reg) (auto simp: presence_inv_step)
  moreover have "presence_inv presence_new" by (simp add: presence_inv_def presence_new_def)
  ultimately show ?thesis unfolding presence_run_def by blast
qed

section \<open>The interface of the resolver\<close>

text \<open>
  What the resolver relies on: an index of locations in which a local registration wins, and
  in which a remote location is vouched for by what that peer last reported.
\<close>

locale presence_index =
  fixes ok :: "'r \<Rightarrow> bool"
    and find :: "'r \<Rightarrow> string \<Rightarrow> PresenceLocation option"
    and here :: "'r \<Rightarrow> string \<Rightarrow> bool"
    and reported :: "'r \<Rightarrow> addr \<Rightarrow> string \<Rightarrow> bool"
  assumes local_wins: "ok r \<Longrightarrow> here r fp \<Longrightarrow> find r fp = Some LocalRelay"
    and local_sound: "ok r \<Longrightarrow> find r fp = Some LocalRelay \<Longrightarrow> here r fp"
    and remote_sound: "ok r \<Longrightarrow> find r fp = Some (Remote a) \<Longrightarrow> \<not> here r fp \<and> reported r a fp"
begin

lemma location_cases:
  assumes "ok r"
  shows "(case find r fp of
            Some LocalRelay \<Rightarrow> here r fp
          | Some (Remote a) \<Rightarrow> \<not> here r fp \<and> reported r a fp
          | None \<Rightarrow> \<not> here r fp)"
proof (cases "find r fp")
  case None
  then show ?thesis using local_wins [OF assms, of fp] by auto
next
  case (Some l)
  then show ?thesis
    using local_sound [OF assms, of fp] remote_sound [OF assms, of fp] by (cases l) simp_all
qed

lemma found_somewhere:
  assumes "ok r" and "find r fp \<noteq> None"
  shows "here r fp \<or> (\<exists>a. reported r a fp)"
  using location_cases [OF assms(1), of fp] assms(2)
  by (auto split: option.splits PresenceLocation.splits)

end

definition is_here :: "PresenceRegistry \<Rightarrow> string \<Rightarrow> bool" where
  "is_here reg fp \<longleftrightarrow> fp \<in> local_fingerprints reg"

definition peer_reports :: "PresenceRegistry \<Rightarrow> addr \<Rightarrow> string \<Rightarrow> bool" where
  "peer_reports reg a fp \<longleftrightarrow> (\<exists>p. hm_get (peers reg) a = Some p \<and> fp \<in> fingerprints p)"

lemma is_here_get: "is_here reg fp \<longleftrightarrow> hm_get (locals reg) fp \<noteq> None"
  by (simp add: is_here_def local_fingerprints_def map_of_eq_None_iff)

interpretation index: presence_index presence_inv lookup is_here peer_reports
  by unfold_locales
    (auto simp: lookup_def is_here_get peer_reports_def presence_inv_def split: if_splits option.splits)

section \<open>Properties\<close>

text \<open>
  Also (routes are sound).  In every registry that a history of registrations, disconnects, peer
  reports and expiries produces, a fingerprint resolves to the local route exactly when it is
  registered here, and to a direct peer only when it is not registered here and that peer's
  latest report lists it; a relay chain is never produced.
\<close>

theorem route_sound:
  "case resolve rr (presence_run ops) fp of
     RouteLocal \<Rightarrow> is_here (presence_run ops) fp
   | DirectPeer a \<Rightarrow> \<not> is_here (presence_run ops) fp \<and> peer_reports (presence_run ops) a fp
   | Chain _ \<Rightarrow> False
   | NotFound \<Rightarrow> \<not> is_here (presence_run ops) fp"
  using index.location_cases [OF presence_inv_run [of ops], of fp]
  by (auto simp: resolve_def split: option.splits PresenceLocation.splits)

text \<open>
  Also (expiry).  Expiring with a timeout changes the location of a fingerprint only when it is
  remote and was last reported no later than the cut-off; it is then unknown.
\<close>

theorem expire_lookup:
  assumes "reg = presence_run ops"
  shows "lookup (expire_stale now t reg) fp =
    (if is_here reg fp then Some LocalRelay
     else case hm_get (remote reg) fp of
         None \<Rightarrow> None
       | Some rp \<Rightarrow> if now - t < last_seen rp then Some (Remote (relay_addr rp)) else None)"
proof -
  have "hm_ok (remote reg)" using presence_inv_run [of ops] assms by (simp add: presence_inv_def)
  then show ?thesis
    by (simp add: lookup_def expire_stale_def Let_def hm_get_retain is_here_get split: option.splits)
qed

theorem expire_lookup_witness:
  "let reg = presence_run [(10, UpdatePeer ''r'' [''x'']), (50, UpdatePeer ''s'' [''y''])] in
   lookup (expire_stale 60 20 reg) ''x'' = None \<and>
   lookup (expire_stale 60 20 reg) ''y'' = Some (Remote ''s'')"
  using expire_lookup [OF refl, of 60 20 "[(10, UpdatePeer ''r'' [''x'']), (50, UpdatePeer ''s'' [''y''])]" "''x''"]
    expire_lookup [OF refl, of 60 20 "[(10, UpdatePeer ''r'' [''x'']), (50, UpdatePeer ''s'' [''y''])]" "''y''"]
  by (simp add: presence_run_def presence_new_def update_peer_def insert_remotes_def is_here_get
      hm_retain_def)

text \<open>
  Also (a rival report makes the registry forget).  When two peers report the same fingerprint
  and the second then withdraws it, the fingerprint is unknown although the first peer's
  current report still lists it.
\<close>

theorem rival_report_forgets:
  assumes "a \<noteq> b" and "\<not> is_here (presence_run ops) fp"
    and "reg = presence_run (ops @ [(t1, UpdatePeer a [fp]), (t2, UpdatePeer b [fp]), (t3, UpdatePeer b [])])"
  shows "resolve rr reg fp = NotFound \<and> peer_reports reg a fp"
proof -
  have ok: "hm_ok (remote (presence_run ops))"
    using presence_inv_run [of ops] by (simp add: presence_inv_def)
  define r0 where "r0 = presence_run ops"
  have reg: "reg = update_peer t3 b [] (update_peer t2 b [fp] (update_peer t1 a [fp] r0))"
    by (simp add: assms(3) presence_run_def r0_def)
  have l: "locals reg = locals r0" by (simp add: reg update_peer_def Let_def)
  have "hm_get (remote (update_peer t2 b [fp] (update_peer t1 a [fp] r0))) fp =
      Some \<lparr>remote_fp = fp, relay_addr = b, last_seen = t2\<rparr>"
    by (simp add: update_peer_def Let_def insert_remotes_get)
  moreover have "hm_ok (remote (update_peer t2 b [fp] (update_peer t1 a [fp] r0)))"
    using ok by (simp add: update_peer_def Let_def insert_remotes_ok hm_ok_retain r0_def)
  ultimately have "hm_get (remote reg) fp = None"
    by (simp add: reg update_peer_def [of t3] Let_def insert_remotes_get hm_get_retain)
  moreover have "peer_reports reg a fp"
    using assms(1) by (simp add: reg peer_reports_def update_peer_def Let_def)
  ultimately show ?thesis
    using assms(2) l by (simp add: resolve_def lookup_def is_here_get r0_def)
qed

theorem rival_report_forgets_witness:
  "resolve \<lparr>local_addr = ''me''\<rparr>
     (presence_run ([] @ [(1, UpdatePeer ''r'' [''x'']), (2, UpdatePeer ''s'' [''x'']), (3, UpdatePeer ''s'' [])]))
     ''x'' = NotFound"
proof -
  have "\<not> is_here (presence_run []) ''x''"
    by (simp add: presence_run_def presence_new_def is_here_get)
  then show ?thesis using rival_report_forgets [OF _ _ refl, of "''r''" "''s''" "[]" "''x''"] by simp
qed

end
