(* ===== verification/Policy.thy ===== *)
theory Policy
  imports BTree Packet
begin

text \<open>
  Enforcement on the relay: the conformance meter and the token bucket of
  \<open>crates/wzp-relay/src/conformance.rs\<close>, the verdicts of \<open>verdict.rs\<close> and the escalation of
  \<open>response_policy.rs\<close>.  Times are nanoseconds; \<open>duration_since\<close> saturates at zero.  What the
  code computes in floating point (tokens, the payload average, the drift ratio) is exact here.
\<close>

abbreviation (input) SEC :: nat where "SEC \<equiv> 1000000000"

section \<open>The token bucket\<close>

record TokenBucket =
  capacity :: nat
  tokens :: rat
  refill_per_sec :: nat
  last_refill :: nat

definition bucket_new :: "nat \<Rightarrow> nat \<Rightarrow> nat \<Rightarrow> TokenBucket" where
  "bucket_new now cap refill =
     \<lparr>capacity = cap, tokens = of_nat cap, refill_per_sec = refill, last_refill = now\<rparr>"

definition for_audio_session :: "nat \<Rightarrow> TokenBucket" where
  "for_audio_session now =
     (let refill = 256000 div 8; cap = refill * 30 * 2 in bucket_new now cap refill)"

definition try_consume :: "nat \<Rightarrow> nat \<Rightarrow> TokenBucket \<Rightarrow> bool \<times> TokenBucket" where
  "try_consume bytes now b =
     (let elapsed = now - last_refill b;
          t = tokens b + of_nat elapsed / of_nat SEC * of_nat (refill_per_sec b);
          t = (if of_nat (capacity b) < t then of_nat (capacity b) else t);
          b = b\<lparr>last_refill := now\<rparr> in
      if of_nat bytes \<le> t then (True, b\<lparr>tokens := t - of_nat bytes\<rparr>)
      else (False, b\<lparr>tokens := t\<rparr>))"

fun granted :: "(nat \<times> nat) list \<Rightarrow> TokenBucket \<Rightarrow> nat" where
  "granted [] b = 0"
| "granted ((bytes, now) # rs) b =
     (let (ok, b') = try_consume bytes now b in (if ok then bytes else 0) + granted rs b')"

lemma try_consume_budget:
  assumes "try_consume bytes now b = (ok, b')" and "0 \<le> tokens b"
  shows "0 \<le> tokens b'" and "last_refill b' = now" and "refill_per_sec b' = refill_per_sec b"
    and "of_nat (if ok then bytes else 0) + tokens b' \<le>
      tokens b + of_nat (now - last_refill b) / of_nat SEC * of_nat (refill_per_sec b)"
  using assms by (auto simp: try_consume_def Let_def split: if_splits)

lemma granted_bound:
  "0 \<le> tokens b \<Longrightarrow> sorted (map snd rs) \<Longrightarrow> \<forall>r \<in> set rs. last_refill b \<le> snd r \<and> snd r \<le> T \<Longrightarrow>
   last_refill b \<le> T \<Longrightarrow>
   of_nat (granted rs b) \<le>
     tokens b + of_nat (T - last_refill b) / of_nat SEC * of_nat (refill_per_sec b)"
proof (induction rs arbitrary: b)
  case Nil
  then show ?case by simp
next
  case (Cons r rs)
  obtain bytes now where r: "r = (bytes, now)" by (cases r)
  obtain ok b' where b': "try_consume bytes now b = (ok, b')" by fastforce
  note t = try_consume_budget [OF b' Cons.prems(1)]
  define rate where "rate = rat_of_nat (refill_per_sec b)"
  have n: "last_refill b \<le> now" "now \<le> T" using Cons.prems(3) r by auto
  have "of_nat (granted rs b') \<le> tokens b' + of_nat (T - now) / of_nat SEC * rate"
    using Cons.IH [of b'] t(1-3) Cons.prems(2,3) n r by (auto simp: rate_def)
  moreover have "rat_of_nat (T - last_refill b) = of_nat (T - now) + of_nat (now - last_refill b)"
    using n by (simp flip: of_nat_add)
  then have "of_nat (T - last_refill b) / of_nat SEC * rate =
      of_nat (T - now) / of_nat SEC * rate + of_nat (now - last_refill b) / of_nat SEC * rate"
    by (simp add: add_divide_distrib distrib_right)
  moreover have "rat_of_nat (granted (r # rs) b) =
      of_nat (if ok then bytes else 0) + of_nat (granted rs b')"
    by (simp add: r b')
  ultimately show ?case
    using t(4) unfolding rate_def by linarith
qed

text \<open>
  Also (rate cap).  However requests arrive over time, the bytes a token bucket grants up to a
  time \<open>T\<close> never exceed its capacity plus what it refills in the time since it was created.
\<close>

theorem bucket_rate_cap:
  assumes "sorted (map snd rs)" and "\<forall>r \<in> set rs. t0 \<le> snd r \<and> snd r \<le> T" and "t0 \<le> T"
  shows "rat_of_nat (granted rs (bucket_new t0 cap rate)) \<le>
    of_nat cap + of_nat (T - t0) / of_nat SEC * of_nat rate"
  using granted_bound [of "bucket_new t0 cap rate" rs T] assms by (simp add: bucket_new_def)

theorem bucket_rate_cap_witness:
  "granted [(70, 0), (70, 0), (70, SEC)] (bucket_new 0 100 50) = 140 \<and>
   rat_of_nat (granted [(70, 0), (70, 0), (70, SEC)] (bucket_new 0 100 50)) \<le> 150"
proof -
  have "granted [(70, 0), (70, 0), (70, SEC)] (bucket_new 0 100 50) = 140"
    by (simp add: bucket_new_def try_consume_def Let_def)
  then show ?thesis
    using bucket_rate_cap [of "[(70, 0), (70, 0), (70, SEC)]" 0 SEC 100 50] by simp
qed

section \<open>The conformance meter\<close>

datatype Violation =
    BitrateExceeded | PacketRateExceeded | TimestampDrift | PayloadSizeExceeded | RateCapExceeded

abbreviation (input) DRIFT_WINDOW_SIZE :: nat where "DRIFT_WINDOW_SIZE \<equiv> 200"

record ConformanceMeter =
  window_start :: nat
  bytes_in_window :: nat
  packets_in_window :: nat
  drift_window :: "(u32 \<times> u32) list"
  ewma_payload_size :: rat
  token_bucket :: "TokenBucket option"

definition meter_new :: "nat \<Rightarrow> ConformanceMeter" where
  "meter_new now =
     \<lparr>window_start = now, bytes_in_window = 0, packets_in_window = 0, drift_window = [],
      ewma_payload_size = 0, token_bucket = None\<rparr>"

definition with_token_bucket :: "nat \<Rightarrow> TokenBucket \<Rightarrow> ConformanceMeter" where
  "with_token_bucket now b = (meter_new now)\<lparr>token_bucket := Some b\<rparr>"

definition ceiling_bps :: "CodecId \<Rightarrow> nat" where
  "ceiling_bps c = max (bitrate_bps c * 3 * 115 div 100) 2000"

definition max_pps :: "CodecId \<Rightarrow> nat" where
  "max_pps c = (let fd = frame_duration_ms c in if fd = 0 then 0 else 1000 div fd * 3)"

fun payload_size_bound :: "CodecId \<Rightarrow> nat" where
  "payload_size_bound Opus64k = 320"
| "payload_size_bound Opus48k = 240"
| "payload_size_bound Opus32k = 200"
| "payload_size_bound Opus24k = 160"
| "payload_size_bound Opus16k = 100"
| "payload_size_bound Opus6k = 90"
| "payload_size_bound Codec2_3200 = 30"
| "payload_size_bound Codec2_1200 = 30"
| "payload_size_bound ComfortNoise = 16"
| "payload_size_bound _ = 1400"

definition roll_window :: "nat \<Rightarrow> ConformanceMeter \<Rightarrow> ConformanceMeter" where
  "roll_window now m =
     (if SEC \<le> now - window_start m
      then m\<lparr>window_start := now, bytes_in_window := 0, packets_in_window := 0\<rparr> else m)"

definition pps_threshold :: "CodecId \<Rightarrow> nat" where
  "pps_threshold c = nat \<lfloor>rat_of_nat (max_pps c) * (3 / 2)\<rfloor>"

definition drifts :: "MediaHeader \<Rightarrow> (u32 \<times> u32) list \<Rightarrow> bool" where
  "drifts h w =
     (2 \<le> length w \<and>
      (let (first_seq, first_ts) = hd w; (last_seq, last_ts) = last w;
           ds = rat_of_nat (unat (last_seq - first_seq));
           dt = rat_of_nat (unat (last_ts - first_ts)) in
       0 < ds \<and>
       (let avg_ms_per_packet = dt / ds; frame_ms = rat_of_nat (frame_duration_ms (codec_id h)) in
        avg_ms_per_packet < frame_ms * (1 / 2) \<or> frame_ms * 2 < avg_ms_per_packet)))"

definition observe ::
  "MediaHeader \<Rightarrow> nat \<Rightarrow> nat \<Rightarrow> ConformanceMeter \<Rightarrow> (Violation + unit) \<times> ConformanceMeter" where
  "observe h payload_len now m =
     (let m = roll_window now m;
          packet_size = HEADER_SIZE + payload_len;
          m = m\<lparr>bytes_in_window := bytes_in_window m + packet_size,
                packets_in_window := packets_in_window m + 1\<rparr> in
      if ceiling_bps (codec_id h) div 8 < bytes_in_window m then (Inl BitrateExceeded, m)
      else if pps_threshold (codec_id h) < packets_in_window m then (Inl PacketRateExceeded, m)
      else
        let w = drift_window m @ [(seq h, timestamp h)];
            w = (if DRIFT_WINDOW_SIZE < length w then tl w else w);
            m = m\<lparr>drift_window := w\<rparr> in
        if drifts h w then (Inl TimestampDrift, m)
        else
          let m = m\<lparr>ewma_payload_size :=
                (5 / 100) * of_nat payload_len + (1 - 5 / 100) * ewma_payload_size m\<rparr> in
          if of_nat (payload_size_bound (codec_id h) * 2) < ewma_payload_size m
          then (Inl PayloadSizeExceeded, m)
          else case token_bucket m of
              None \<Rightarrow> (Inr (), m)
            | Some b \<Rightarrow>
                let (ok, b) = try_consume packet_size now b; m = m\<lparr>token_bucket := Some b\<rparr> in
                if ok then (Inr (), m) else (Inl RateCapExceeded, m))"

text \<open>What a meter has let through of a stream of packets, given as payload sizes and times.\<close>

fun conforming :: "MediaHeader list \<Rightarrow> (nat \<times> nat) list \<Rightarrow> ConformanceMeter \<Rightarrow> (nat \<times> nat) list" where
  "conforming (h # hs) ((len, now) # ps) m =
     (let (r, m') = observe h len now m in
      (if r = Inr () then (HEADER_SIZE + len, now) # conforming hs ps m' else conforming hs ps m'))"
| "conforming _ _ m = []"

lemma observe_window:
  assumes "window_start m \<le> now" and "now < window_start m + SEC" and "observe h len now m = (r, m')"
  shows "window_start m' = window_start m"
    and "bytes_in_window m' = bytes_in_window m + (HEADER_SIZE + len)"
    and "packets_in_window m' = packets_in_window m + 1"
    and "r = Inr () \<Longrightarrow> bytes_in_window m + (HEADER_SIZE + len) \<le> ceiling_bps (codec_id h) div 8"
    and "r = Inr () \<Longrightarrow> packets_in_window m + 1 \<le> pps_threshold (codec_id h)"
proof -
  have roll: "roll_window now m = m" using assms(1,2) by (simp add: roll_window_def)
  have "window_start m' = window_start m \<and> bytes_in_window m' = bytes_in_window m + (HEADER_SIZE + len) \<and>
    packets_in_window m' = packets_in_window m + 1 \<and>
    (r = Inr () \<longrightarrow> bytes_in_window m + (HEADER_SIZE + len) \<le> ceiling_bps (codec_id h) div 8 \<and>
       packets_in_window m + 1 \<le> pps_threshold (codec_id h))"
    using assms(3) unfolding observe_def roll Let_def
    by (auto split: if_splits option.splits prod.splits)
  then show "window_start m' = window_start m"
    and "bytes_in_window m' = bytes_in_window m + (HEADER_SIZE + len)"
    and "packets_in_window m' = packets_in_window m + 1"
    and "r = Inr () \<Longrightarrow> bytes_in_window m + (HEADER_SIZE + len) \<le> ceiling_bps (codec_id h) div 8"
    and "r = Inr () \<Longrightarrow> packets_in_window m + 1 \<le> pps_threshold (codec_id h)"
    by blast+
qed

lemma conforming_window:
  "\<forall>h \<in> set hs. codec_id h = c \<Longrightarrow>
   \<forall>p \<in> set ps. window_start m \<le> snd p \<and> snd p < window_start m + SEC \<Longrightarrow>
   (sum_list (map fst (conforming hs ps m)) + bytes_in_window m \<le>
      max (bytes_in_window m) (ceiling_bps c div 8)) \<and>
   (length (conforming hs ps m) + packets_in_window m \<le> max (packets_in_window m) (pps_threshold c))"
proof (induction hs ps m rule: conforming.induct)
  case (1 h hs len now ps m)
  obtain r m' where o: "observe h len now m = (r, m')" by fastforce
  have "window_start m \<le> now" "now < window_start m + SEC" using "1.prems"(2) by auto
  note w = observe_window [OF this o]
  define S L where "S = sum_list (map fst (conforming hs ps m'))" and "L = length (conforming hs ps m')"
  have ih: "S + bytes_in_window m' \<le> max (bytes_in_window m') (ceiling_bps c div 8)"
    "L + packets_in_window m' \<le> max (packets_in_window m') (pps_threshold c)"
    using "1.IH" "1.prems" o w(1) unfolding S_def L_def by (cases "r = Inr ()"; auto)+
  have run: "sum_list (map fst (conforming (h # hs) ((len, now) # ps) m)) =
      (if r = Inr () then HEADER_SIZE + len else 0) + S"
    "length (conforming (h # hs) ((len, now) # ps) m) = (if r = Inr () then 1 else 0) + L"
    using o by (simp_all add: S_def L_def)
  have c: "codec_id h = c" using "1.prems"(1) by simp
  show ?case
    unfolding run using ih w(2,3) w(4,5) [unfolded c]
    by (cases "r = Inr ()") (simp_all add: max_def split: if_splits)
qed auto

text \<open>
  Also (conformance ceiling).  Of the packets of one codec that reach a fresh meter within its
  one-second window, in any number and of any sizes, those found conforming never exceed the
  codec's byte ceiling nor its packet-rate threshold.
\<close>

theorem meter_window_ceiling:
  assumes "\<forall>h \<in> set hs. codec_id h = c" and "\<forall>p \<in> set ps. t0 \<le> snd p \<and> snd p < t0 + SEC"
    and "b = None \<or> b = Some bucket"
  shows "sum_list (map fst (conforming hs ps ((meter_new t0)\<lparr>token_bucket := b\<rparr>))) \<le> ceiling_bps c div 8 \<and>
    length (conforming hs ps ((meter_new t0)\<lparr>token_bucket := b\<rparr>)) \<le> pps_threshold c"
  using conforming_window [OF assms(1), of ps "(meter_new t0)\<lparr>token_bucket := b\<rparr>"] assms(2)
  by (simp add: meter_new_def)

theorem meter_window_ceiling_witness:
  "let h = \<lparr>version = 2, flags = 0, media_type = Audio, codec_id = ComfortNoise, stream_id = 0,
            fec_ratio_wire = 0, seq = 0, timestamp = 0, fec_block = 0\<rparr>;
       ok = conforming [h, h] [(10, 0), (240, 5)] ((meter_new 0)\<lparr>token_bucket := None\<rparr>) in
   ok = [(26, 0)] \<and> sum_list (map fst ok) \<le> 250"
proof -
  define h where "h = \<lparr>version = 2, flags = 0, media_type = Audio, codec_id = ComfortNoise,
    stream_id = 0, fec_ratio_wire = 0, seq = 0, timestamp = 0, fec_block = 0\<rparr>"
  have "conforming [h, h] [(10, 0), (240, 5)] ((meter_new 0)\<lparr>token_bucket := None\<rparr>) = [(26, 0)]"
    by (simp add: h_def observe_def roll_window_def meter_new_def drifts_def ceiling_bps_def
        pps_threshold_def max_pps_def Let_def)
  moreover have "sum_list (map fst (conforming [h, h] [(10, 0), (240, 5)]
      ((meter_new 0)\<lparr>token_bucket := None\<rparr>))) \<le> ceiling_bps ComfortNoise div 8"
    using meter_window_ceiling [of "[h, h]" ComfortNoise "[(10, 0), (240, 5)]" 0 None] by (simp add: h_def)
  ultimately show ?thesis unfolding h_def [symmetric] by (simp add: ceiling_bps_def)
qed

section \<open>Verdicts and escalation\<close>

datatype Verdict = Legitimate | Suspect | Abusive

datatype ViolationCode = CodeBitrate | CodePacketRate | CodeTimestampDrift | CodePayloadSize |
  CodeRateCap | CodeEntropy

fun code_name :: "ViolationCode \<Rightarrow> string" where
  "code_name CodeBitrate = ''Bitrate''"
| "code_name CodePacketRate = ''PacketRate''"
| "code_name CodeTimestampDrift = ''TimestampDrift''"
| "code_name CodePayloadSize = ''PayloadSize''"
| "code_name CodeRateCap = ''RateCap''"
| "code_name CodeEntropy = ''Entropy''"

text \<open>\<open>Close\<close> carries the code and the text of the typed hangup.\<close>

datatype Action = Allow | Throttle | Close ViolationCode string | Block

record ResponsePolicy =
  cooldowns :: "(string \<times> ViolationCode, nat) hashmap"
  block_duration :: nat

definition policy_new :: ResponsePolicy where
  "policy_new = \<lparr>cooldowns = [], block_duration = 86400 * SEC\<rparr>"

definition evaluate ::
  "nat \<Rightarrow> string \<Rightarrow> ViolationCode \<Rightarrow> Verdict \<Rightarrow> ResponsePolicy \<Rightarrow> Action \<times> ResponsePolicy" where
  "evaluate now fp code v p =
     (case v of
        Legitimate \<Rightarrow> (Allow, p)
      | Suspect \<Rightarrow> (Throttle, p)
      | Abusive \<Rightarrow>
          let k = (fp, code);
              is_repeat = (case hm_get (cooldowns p) k of
                             None \<Rightarrow> False | Some t \<Rightarrow> now - t < block_duration p) in
          if is_repeat then (Block, p)
          else (Close code (''Tier G enforcement: '' @ code_name code),
                p\<lparr>cooldowns := hm_insert k now (cooldowns p)\<rparr>))"

definition is_blocked :: "nat \<Rightarrow> string \<Rightarrow> ResponsePolicy \<Rightarrow> bool" where
  "is_blocked now fp p \<longleftrightarrow>
     list_ex (\<lambda>((f, _), t). f = fp \<and> now - t < block_duration p) (cooldowns p)"

definition prune :: "nat \<Rightarrow> ResponsePolicy \<Rightarrow> ResponsePolicy" where
  "prune now p = p\<lparr>cooldowns := hm_retain (\<lambda>_ t. now - t < block_duration p) (cooldowns p)\<rparr>"

text \<open>What the policy sees: verdicts at times, and the periodic clean-up.\<close>

datatype policy_event = Judge nat string ViolationCode Verdict | PruneAt nat

fun policy_step :: "ResponsePolicy \<Rightarrow> policy_event \<Rightarrow> Action option \<times> ResponsePolicy" where
  "policy_step p (Judge now fp code v) = map_prod Some id (evaluate now fp code v p)"
| "policy_step p (PruneAt now) = (None, prune now p)"

fun policy_run :: "ResponsePolicy \<Rightarrow> policy_event list \<Rightarrow> (policy_event \<times> Action option) list" where
  "policy_run p [] = []"
| "policy_run p (e # es) = (let (a, p') = policy_step p e in (e, a) # policy_run p' es)"

text \<open>A closing of \<open>(fp, code)\<close> at time \<open>t\<close> in a trace.\<close>

definition closed_at :: "(policy_event \<times> Action option) list \<Rightarrow> string \<Rightarrow> ViolationCode \<Rightarrow> nat \<Rightarrow> bool" where
  "closed_at tr fp code t \<longleftrightarrow> (\<exists>r. (Judge t fp code Abusive, Some (Close code r)) \<in> set tr)"

definition policy_inv :: "(policy_event \<times> Action option) list \<Rightarrow> ResponsePolicy \<Rightarrow> bool" where
  "policy_inv tr p \<longleftrightarrow> hm_ok (cooldowns p) \<and> block_duration p = 86400 * SEC \<and>
     (\<forall>fp code t. hm_get (cooldowns p) (fp, code) = Some t \<longrightarrow> closed_at tr fp code t)"

lemma closed_at_mono: "closed_at tr fp code t \<Longrightarrow> closed_at (tr @ x) fp code t"
  by (auto simp: closed_at_def)

lemma policy_inv_step:
  assumes "policy_inv tr p" and "policy_step p e = (a, p')"
  shows "policy_inv (tr @ [(e, a)]) p'"
proof (cases e)
  case (Judge now fp code v)
  show ?thesis
  proof (cases "a = Some (Close code (''Tier G enforcement: '' @ code_name code))")
    case True
    then have "p' = p\<lparr>cooldowns := hm_insert (fp, code) now (cooldowns p)\<rparr>" "v = Abusive"
      using assms(2) Judge by (auto simp: evaluate_def Let_def split: Verdict.splits if_splits)
    then show ?thesis
      using assms(1) True Judge
      by (auto simp: policy_inv_def hm_ok_insert closed_at_mono) (auto simp: closed_at_def)
  next
    case False
    then have "p' = p"
      using assms(2) Judge by (auto simp: evaluate_def Let_def split: Verdict.splits if_splits)
    then show ?thesis using assms(1) by (auto simp: policy_inv_def closed_at_mono)
  qed
next
  case (PruneAt now)
  then show ?thesis
    using assms
    by (auto simp: policy_inv_def prune_def hm_ok_retain hm_get_retain closed_at_mono
        split: option.splits if_splits)
qed

lemma policy_run_block:
  "policy_inv tr p \<Longrightarrow> (Judge now fp code v, Some Block) \<in> set (policy_run p es) \<Longrightarrow>
   v = Abusive \<and> (\<exists>t. closed_at (tr @ policy_run p es) fp code t \<and> now - t < 86400 * SEC)"
proof (induction es arbitrary: p tr)
  case Nil
  then show ?case by simp
next
  case (Cons e es)
  obtain a p' where s: "policy_step p e = (a, p')" by fastforce
  from Cons.prems(2) s consider "e = Judge now fp code v" "a = Some Block"
    | "(Judge now fp code v, Some Block) \<in> set (policy_run p' es)" by auto
  then show ?case
  proof cases
    case 1
    then obtain t where "v = Abusive" "hm_get (cooldowns p) (fp, code) = Some t"
      "now - t < block_duration p"
      using s by (auto simp: evaluate_def Let_def split: Verdict.splits if_splits option.splits)
    then have "closed_at (tr @ policy_run p (e # es)) fp code t" "now - t < 86400 * SEC"
      using Cons.prems(1) by (auto simp: policy_inv_def intro!: closed_at_mono)
    then show ?thesis using \<open>v = Abusive\<close> by blast
  next
    case 2
    from Cons.IH [OF policy_inv_step [OF Cons.prems(1) s] 2] s show ?thesis by simp
  qed
qed

text \<open>
  Also (blocking needs a repeat).  In any history of verdicts and clean-ups a block is only ever
  answered to an abusive verdict on a fingerprint that was closed for the same violation less
  than 24 hours before.
\<close>

theorem block_needs_repeat:
  assumes "(Judge now fp code v, Some Block) \<in> set (policy_run policy_new es)"
  shows "v = Abusive \<and> (\<exists>t r. (Judge t fp code Abusive, Some (Close code r)) \<in> set (policy_run policy_new es) \<and>
    now - t < 86400 * SEC)"
proof -
  have "policy_inv [] policy_new" by (simp add: policy_inv_def policy_new_def)
  from policy_run_block [OF this assms] show ?thesis by (auto simp: closed_at_def)
qed

theorem block_needs_repeat_witness:
  "\<exists>t r. (Judge t ''x'' CodeRateCap Abusive, Some (Close CodeRateCap r)) \<in>
     set (policy_run policy_new [Judge 5 ''x'' CodeRateCap Abusive, Judge 9 ''x'' CodeRateCap Abusive])"
proof -
  have "(Judge 9 ''x'' CodeRateCap Abusive, Some Block) \<in>
     set (policy_run policy_new [Judge 5 ''x'' CodeRateCap Abusive, Judge 9 ''x'' CodeRateCap Abusive])"
    by (simp add: evaluate_def policy_new_def)
  from block_needs_repeat [OF this] show ?thesis by blast
qed

text \<open>
  Also (the first strike already blocks).  A first abusive verdict closes the session, and from
  then on \<open>is_blocked\<close> answers true for the fingerprint for the whole 24 hours that are meant
  for repeat abuse.
\<close>

theorem first_strike_is_blocked:
  assumes "evaluate now fp code Abusive p = (Close code r, p')" and "now \<le> now'" and "now' < now + block_duration p"
  shows "is_blocked now' fp p'"
proof -
  have p': "p' = p\<lparr>cooldowns := hm_insert (fp, code) now (cooldowns p)\<rparr>"
    using assms(1) by (auto simp: evaluate_def Let_def split: if_splits)
  have "hm_get (hm_insert (fp, code) now (cooldowns p)) (fp, code) = Some now" by simp
  then have "((fp, code), now) \<in> set (hm_insert (fp, code) now (cooldowns p))" by (rule map_of_SomeD)
  moreover have "now' - now < block_duration p" using assms(2,3) by linarith
  ultimately show ?thesis
    unfolding is_blocked_def list_ex_iff p' by (intro bexI [of _ "((fp, code), now)"]) simp_all
qed

theorem first_strike_is_blocked_witness:
  "fst (evaluate 0 ''x'' CodeBitrate Abusive policy_new) = Close CodeBitrate ''Tier G enforcement: Bitrate'' \<and>
   is_blocked (7200 * SEC) ''x'' (snd (evaluate 0 ''x'' CodeBitrate Abusive policy_new))"
proof -
  have "evaluate 0 ''x'' CodeBitrate Abusive policy_new =
      (Close CodeBitrate ''Tier G enforcement: Bitrate'', snd (evaluate 0 ''x'' CodeBitrate Abusive policy_new))"
    by (simp add: evaluate_def policy_new_def)
  from first_strike_is_blocked [OF this, of "7200 * SEC"] show ?thesis
    by (simp add: policy_new_def evaluate_def)
qed

end
