(* ===== verification/Quality.thy ===== *)
theory Quality
  imports Packet
begin

text \<open>
  The adaptive quality controller of \<open>crates/wzp-proto/src/quality.rs\<close>: classification of a
  quality report into a tier, hysteresis on tier changes, upward probing.  \<open>Instant::now()\<close> is
  the argument \<open>now\<close> in milliseconds; \<open>elapsed\<close> saturates at zero.  The bandwidth estimator
  is an \<open>Arc\<close> that other tasks update; \<open>bwe\<close> is the rate it reports at the call, if one is
  attached.
\<close>

section \<open>Tiers\<close>

datatype Tier = Catastrophic | Degraded | Good | Studio32k | Studio48k | Studio64k

fun tier_rank :: "Tier \<Rightarrow> nat" where
  "tier_rank Catastrophic = 0"
| "tier_rank Degraded = 1"
| "tier_rank Good = 2"
| "tier_rank Studio32k = 3"
| "tier_rank Studio48k = 4"
| "tier_rank Studio64k = 5"

lemma tier_rank_inj: "tier_rank a = tier_rank b \<Longrightarrow> a = b"
  by (cases a; cases b) auto

instantiation Tier :: linorder
begin

definition less_eq_Tier :: "Tier \<Rightarrow> Tier \<Rightarrow> bool" where
  "less_eq_Tier a b \<longleftrightarrow> tier_rank a \<le> tier_rank b"

definition less_Tier :: "Tier \<Rightarrow> Tier \<Rightarrow> bool" where
  "less_Tier a b \<longleftrightarrow> tier_rank a < tier_rank b"

instance
  by standard (auto simp: less_eq_Tier_def less_Tier_def intro: tier_rank_inj)

end

lemmas tier_order = less_eq_Tier_def less_Tier_def

fun tier_profile :: "Tier \<Rightarrow> QualityProfile" where
  "tier_profile Studio64k = STUDIO_64K"
| "tier_profile Studio48k = STUDIO_48K"
| "tier_profile Studio32k = STUDIO_32K"
| "tier_profile Good = GOOD"
| "tier_profile Degraded = DEGRADED"
| "tier_profile Catastrophic = CATASTROPHIC"

datatype NetworkContext = WiFi | CellularLte | Cellular5g | Cellular3g | UnknownNet

definition is_cellular :: "NetworkContext \<Rightarrow> bool" where
  "is_cellular c \<longleftrightarrow> c \<in> {CellularLte, Cellular5g, Cellular3g}"

definition classify_with_context :: "QualityReport \<Rightarrow> NetworkContext \<Rightarrow> Tier" where
  "classify_with_context report context =
     (let loss = loss_percent report; rtt = rtt_ms report in
      if is_cellular context then
        if 25 < loss \<or> 500 < rtt then Catastrophic
        else if 8 < loss \<or> 300 < rtt then Degraded else Good
      else
        if 15 \<le> loss \<or> 200 \<le> rtt then Catastrophic
        else if 5 \<le> loss \<or> 100 \<le> rtt then Degraded
        else if 2 \<le> loss \<or> 80 \<le> rtt then Good
        else if 1 \<le> loss \<or> 50 \<le> rtt then Studio32k
        else if 30 \<le> rtt then Studio48k else Studio64k)"

definition classify :: "QualityReport \<Rightarrow> Tier" where
  "classify report = classify_with_context report UnknownNet"

fun downgrade :: "Tier \<Rightarrow> Tier option" where
  "downgrade Studio64k = Some Studio48k"
| "downgrade Studio48k = Some Studio32k"
| "downgrade Studio32k = Some Good"
| "downgrade Good = Some Degraded"
| "downgrade Degraded = Some Catastrophic"
| "downgrade Catastrophic = None"

definition is_studio :: "Tier \<Rightarrow> bool" where
  "is_studio t \<longleftrightarrow> t \<in> {Studio64k, Studio48k, Studio32k}"

fun upgrade_one_step :: "Tier \<Rightarrow> Tier option" where
  "upgrade_one_step Catastrophic = Some Degraded"
| "upgrade_one_step Degraded = Some Good"
| "upgrade_one_step Good = Some Studio32k"
| "upgrade_one_step Studio32k = Some Studio48k"
| "upgrade_one_step Studio48k = Some Studio64k"
| "upgrade_one_step Studio64k = None"

section \<open>The controller\<close>

record ProbeState =
  target_tier :: Tier
  target_profile :: QualityProfile
  probe_started :: nat
  probe_reports :: nat
  bad_reports :: nat

record AdaptiveQualityController =
  current_tier :: Tier
  current_profile :: QualityProfile
  consecutive_up :: nat
  consecutive_down :: nat
  history :: "QualityReport list"
  forced :: bool
  network_context :: NetworkContext
  fec_boost_until :: "nat option"
  fec_boost_amount :: rat
  probe :: "ProbeState option"
  stable_since :: "nat option"

abbreviation (input) DOWNGRADE_THRESHOLD :: nat where "DOWNGRADE_THRESHOLD \<equiv> 3"
abbreviation (input) CELLULAR_DOWNGRADE_THRESHOLD :: nat where "CELLULAR_DOWNGRADE_THRESHOLD \<equiv> 2"
abbreviation (input) UPGRADE_THRESHOLD :: nat where "UPGRADE_THRESHOLD \<equiv> 5"
abbreviation (input) STUDIO_UPGRADE_THRESHOLD :: nat where "STUDIO_UPGRADE_THRESHOLD \<equiv> 10"
abbreviation (input) HISTORY_SIZE :: nat where "HISTORY_SIZE \<equiv> 20"
abbreviation (input) FEC_BOOST_DURATION_MS :: nat where "FEC_BOOST_DURATION_MS \<equiv> 10000"
abbreviation (input) PROBE_STABLE_MS :: nat where "PROBE_STABLE_MS \<equiv> 30000"
abbreviation (input) PROBE_DURATION_MS :: nat where "PROBE_DURATION_MS \<equiv> 5000"
abbreviation (input) PROBE_MAX_BAD :: nat where "PROBE_MAX_BAD \<equiv> 1"
abbreviation (input) PROBE_COOLDOWN_MS :: nat where "PROBE_COOLDOWN_MS \<equiv> 60000"

definition controller_new :: AdaptiveQualityController where
  "controller_new =
     \<lparr>current_tier = Good, current_profile = GOOD, consecutive_up = 0, consecutive_down = 0,
      history = [], forced = False, network_context = UnknownNet, fec_boost_until = None,
      fec_boost_amount = 1 / 5, probe = None, stable_since = None\<rparr>"

definition signal_network_change ::
  "nat \<Rightarrow> NetworkContext \<Rightarrow> AdaptiveQualityController \<Rightarrow> AdaptiveQualityController" where
  "signal_network_change now new_context c =
     (let old = network_context c;
          c = c\<lparr>network_context := new_context\<rparr>;
          c = (if old = WiFi \<and> is_cellular new_context then
                 let c = (case downgrade (current_tier c) of
                            Some lower \<Rightarrow> c\<lparr>current_tier := lower, current_profile := tier_profile lower\<rparr>
                          | None \<Rightarrow> c) in
                 c\<lparr>consecutive_up := 0, consecutive_down := 0, forced := False\<rparr>
               else c) in
      c\<lparr>probe := None, stable_since := None, fec_boost_until := Some (now + FEC_BOOST_DURATION_MS)\<rparr>)"

definition fec_boost :: "nat \<Rightarrow> AdaptiveQualityController \<Rightarrow> rat" where
  "fec_boost now c =
     (case fec_boost_until c of
        Some until \<Rightarrow> if now < until then fec_boost_amount c else 0
      | None \<Rightarrow> 0)"

definition reset_counters :: "AdaptiveQualityController \<Rightarrow> AdaptiveQualityController" where
  "reset_counters c =
     c\<lparr>consecutive_up := 0, consecutive_down := 0, probe := None, stable_since := None\<rparr>"

definition tier_ceiling_bps :: "Tier \<Rightarrow> nat" where
  "tier_ceiling_bps t = nat \<lfloor>total_bitrate_kbps (tier_profile t) * 1000\<rfloor>"

definition downgrade_threshold :: "AdaptiveQualityController \<Rightarrow> nat" where
  "downgrade_threshold c =
     (if is_cellular (network_context c) then CELLULAR_DOWNGRADE_THRESHOLD else DOWNGRADE_THRESHOLD)"

definition try_transition ::
  "nat option \<Rightarrow> Tier \<Rightarrow> AdaptiveQualityController \<Rightarrow>
   QualityProfile option \<times> AdaptiveQualityController" where
  "try_transition bwe observed c =
     (if observed = current_tier c
      then (None, c\<lparr>consecutive_up := 0, consecutive_down := 0\<rparr>)
      else if observed < current_tier c then
        let c = c\<lparr>consecutive_up := 0, consecutive_down := consecutive_down c + 1\<rparr> in
        if downgrade_threshold c \<le> consecutive_down c
        then (Some (tier_profile observed),
              c\<lparr>current_tier := observed, current_profile := tier_profile observed,
                consecutive_down := 0\<rparr>)
        else (None, c)
      else
        let c = c\<lparr>consecutive_down := 0, consecutive_up := consecutive_up c + 1\<rparr>;
            threshold = (if Good \<le> current_tier c then STUDIO_UPGRADE_THRESHOLD else UPGRADE_THRESHOLD) in
        if threshold \<le> consecutive_up c then
          (case upgrade_one_step (current_tier c) of
             None \<Rightarrow> (None, c)
           | Some next_tier \<Rightarrow>
               if (case bwe of None \<Rightarrow> False
                   | Some bps \<Rightarrow> bps < tier_ceiling_bps next_tier * 130 div 100)
               then (None, c\<lparr>consecutive_up := 0\<rparr>)
               else (Some (tier_profile next_tier),
                     c\<lparr>current_tier := next_tier, current_profile := tier_profile next_tier,
                       consecutive_up := 0\<rparr>))
        else (None, c))"

definition continue_probe ::
  "nat \<Rightarrow> Tier \<Rightarrow> ProbeState \<Rightarrow> AdaptiveQualityController \<Rightarrow>
   QualityProfile option \<times> AdaptiveQualityController" where
  "continue_probe now observed p c =
     (let p = p\<lparr>probe_reports := probe_reports p + 1\<rparr>;
          p = (if observed < target_tier p then p\<lparr>bad_reports := bad_reports p + 1\<rparr> else p) in
      if PROBE_MAX_BAD < bad_reports p
      then (None, c\<lparr>probe := None, stable_since := Some (now + PROBE_COOLDOWN_MS)\<rparr>)
      else if PROBE_DURATION_MS \<le> now - probe_started p
      then (Some (target_profile p),
            c\<lparr>probe := None, current_tier := target_tier p, current_profile := target_profile p,
              consecutive_up := 0, stable_since := Some now\<rparr>)
      else (None, c\<lparr>probe := Some p\<rparr>))"

definition start_probe ::
  "nat \<Rightarrow> Tier \<Rightarrow> AdaptiveQualityController \<Rightarrow> QualityProfile option \<times> AdaptiveQualityController" where
  "start_probe now observed c =
     (if current_tier c \<le> observed then
        let c = (if stable_since c = None then c\<lparr>stable_since := Some now\<rparr> else c);
            since = the (stable_since c) in
        if PROBE_STABLE_MS \<le> now - since then
          (case upgrade_one_step (current_tier c) of
             Some next_tier \<Rightarrow>
               (Some (tier_profile next_tier),
                c\<lparr>probe := Some \<lparr>target_tier = next_tier, target_profile = tier_profile next_tier,
                                probe_started = now, probe_reports = 0, bad_reports = 0\<rparr>\<rparr>)
           | None \<Rightarrow> (None, c))
        else (None, c)
      else (None, c\<lparr>stable_since := None\<rparr>))"

definition check_probe ::
  "nat \<Rightarrow> Tier \<Rightarrow> AdaptiveQualityController \<Rightarrow> QualityProfile option \<times> AdaptiveQualityController" where
  "check_probe now observed c =
     (if forced c \<or> current_tier c = Studio64k then (None, c)
      else if is_cellular (network_context c) then (None, c)
      else case probe c of
          Some p \<Rightarrow> continue_probe now observed p c
        | None \<Rightarrow> start_probe now observed c)"

definition observe ::
  "nat \<Rightarrow> nat option \<Rightarrow> QualityReport \<Rightarrow> AdaptiveQualityController \<Rightarrow>
   QualityProfile option \<times> AdaptiveQualityController" where
  "observe now bwe report c =
     (let h = (if HISTORY_SIZE \<le> length (history c) then tl (history c) else history c);
          c = c\<lparr>history := h @ [report]\<rparr> in
      if forced c then (None, c)
      else
        let observed = classify_with_context report (network_context c) in
        case try_transition bwe observed c of
          (Some p, c) \<Rightarrow> (Some p, c\<lparr>probe := None, stable_since := None\<rparr>)
        | (None, c) \<Rightarrow> check_probe now observed c)"

definition force_profile :: "QualityProfile \<Rightarrow> AdaptiveQualityController \<Rightarrow> AdaptiveQualityController" where
  "force_profile p c =
     c\<lparr>current_profile := p, forced := True, consecutive_up := 0, consecutive_down := 0\<rparr>"

section \<open>Classification\<close>

lemma loss_percent_mono:
  assumes "loss_pct a \<le> loss_pct b"
  shows "loss_percent a \<le> loss_percent b"
proof -
  have "rat_of_nat (unat (loss_pct a)) \<le> rat_of_nat (unat (loss_pct b))"
    using assms by (simp only: of_nat_le_iff word_le_nat_alt)
  then show ?thesis
    unfolding loss_percent_def by (intro mult_right_mono divide_right_mono) simp_all
qed

lemma rtt_ms_mono: "rtt_4ms a \<le> rtt_4ms b \<Longrightarrow> rtt_ms a \<le> rtt_ms b"
  by (simp add: rtt_ms_def word_le_nat_alt)

lemma ladder_mono:
  fixes l l' :: rat and r r' :: nat
  assumes "l \<le> l'" and "r \<le> r'"
  shows "(if cell then if 25 < l' \<or> 500 < r' then Catastrophic
        else if 8 < l' \<or> 300 < r' then Degraded else Good
      else if 15 \<le> l' \<or> 200 \<le> r' then Catastrophic
        else if 5 \<le> l' \<or> 100 \<le> r' then Degraded
        else if 2 \<le> l' \<or> 80 \<le> r' then Good
        else if 1 \<le> l' \<or> 50 \<le> r' then Studio32k
        else if 30 \<le> r' then Studio48k else Studio64k)
    \<le> (if cell then if 25 < l \<or> 500 < r then Catastrophic
        else if 8 < l \<or> 300 < r then Degraded else Good
      else if 15 \<le> l \<or> 200 \<le> r then Catastrophic
        else if 5 \<le> l \<or> 100 \<le> r then Degraded
        else if 2 \<le> l \<or> 80 \<le> r then Good
        else if 1 \<le> l \<or> 50 \<le> r then Studio32k
        else if 30 \<le> r then Studio48k else Studio64k)"
proof -
  have l: "k \<le> l \<Longrightarrow> k \<le> l'" "k < l \<Longrightarrow> k < l'" for k using assms(1) by linarith+
  have r: "k \<le> r \<Longrightarrow> k \<le> r'" "k < r \<Longrightarrow> k < r'" for k using assms(2) by linarith+
  show ?thesis by (cases cell) (auto simp: less_eq_Tier_def dest: l r simp del: not_le not_less)
qed

text \<open>
  Classification is monotone: in every network context a report with no less loss and no
  less round-trip time is never put into a better tier, and on cellular networks no report is
  put into a studio tier.
\<close>

lemma classify_monotone:
  assumes "loss_pct a \<le> loss_pct b" and "rtt_4ms a \<le> rtt_4ms b"
  shows "classify_with_context b ctx \<le> classify_with_context a ctx \<and>
    (is_cellular ctx \<longrightarrow> \<not> is_studio (classify_with_context a ctx))"
proof -
  have mono: "loss_percent a \<le> loss_percent b" "rtt_ms a \<le> rtt_ms b"
    using assms by (simp_all add: loss_percent_mono rtt_ms_mono)
  then have "classify_with_context b ctx \<le> classify_with_context a ctx"
    unfolding classify_with_context_def Let_def
    by (rule ladder_mono)
  moreover have "is_cellular ctx \<Longrightarrow> \<not> is_studio (classify_with_context a ctx)"
    by (simp add: classify_with_context_def is_studio_def Let_def)
  ultimately show ?thesis by blast
qed

section \<open>What the controller keeps\<close>

datatype controller_op =
    Observe nat "nat option" QualityReport
  | NetworkChange nat NetworkContext
  | ResetCounters
  | ForceProfile QualityProfile

fun controller_step :: "controller_op \<Rightarrow> AdaptiveQualityController \<Rightarrow> AdaptiveQualityController" where
  "controller_step (Observe now bwe r) c = snd (observe now bwe r c)"
| "controller_step (NetworkChange now ctx) c = signal_network_change now ctx c"
| "controller_step ResetCounters c = reset_counters c"
| "controller_step (ForceProfile p) c = force_profile p c"

definition probe_ok :: "AdaptiveQualityController \<Rightarrow> bool" where
  "probe_ok c \<longleftrightarrow> (case probe c of None \<Rightarrow> True
     | Some p \<Rightarrow> upgrade_one_step (current_tier c) = Some (target_tier p) \<and>
               target_profile p = tier_profile (target_tier p) \<and> bad_reports p \<le> PROBE_MAX_BAD)"

lemma probe_ok_cong:
  "probe d = probe c \<Longrightarrow> current_tier d = current_tier c \<Longrightarrow> probe_ok d = probe_ok c"
  by (cases "probe c") (simp_all add: probe_ok_def)

definition controller_ok :: "AdaptiveQualityController \<Rightarrow> bool" where
  "controller_ok c \<longleftrightarrow> length (history c) \<le> HISTORY_SIZE \<and>
     consecutive_down c < DOWNGRADE_THRESHOLD \<and> consecutive_up c < STUDIO_UPGRADE_THRESHOLD \<and>
     probe_ok c"

lemma upgrade_one_step_gt: "upgrade_one_step t = Some u \<Longrightarrow> t < u"
  by (cases t) (auto simp: less_Tier_def)

lemma upgrade_one_step_None: "upgrade_one_step t = None \<longleftrightarrow> t = Studio64k"
  by (cases t) auto

lemma top_tier: "\<not> Studio64k < t"
  by (cases t) (auto simp: less_Tier_def)

lemma below_top: "t \<noteq> Studio64k \<Longrightarrow> t < Studio64k"
  by (cases t) (auto simp: less_Tier_def)

text \<open>What one transition attempt can do: nothing, a downgrade to the observed tier, one step up.\<close>

definition pushed :: "QualityReport \<Rightarrow> AdaptiveQualityController \<Rightarrow> AdaptiveQualityController" where
  "pushed r c = c\<lparr>history := (if HISTORY_SIZE \<le> length (history c) then tl (history c) else history c) @ [r]\<rparr>"

lemma pushed_simps [simp]:
  "current_tier (pushed r c) = current_tier c" "current_profile (pushed r c) = current_profile c"
  "consecutive_up (pushed r c) = consecutive_up c" "consecutive_down (pushed r c) = consecutive_down c"
  "forced (pushed r c) = forced c" "network_context (pushed r c) = network_context c"
  "probe (pushed r c) = probe c" "stable_since (pushed r c) = stable_since c"
  "downgrade_threshold (pushed r c) = downgrade_threshold c"
  by (simp_all add: pushed_def downgrade_threshold_def)

lemma length_pushed: "length (history c) \<le> HISTORY_SIZE \<Longrightarrow> length (history (pushed r c)) \<le> HISTORY_SIZE"
  by (simp add: pushed_def)

lemma observe_forced: "forced c \<Longrightarrow> observe now bwe r c = (None, pushed r c)"
  by (simp add: observe_def pushed_def Let_def)

lemma observe_transition:
  assumes "\<not> forced c"
    and "try_transition bwe (classify_with_context r (network_context c)) (pushed r c) = (Some p, c')"
  shows "observe now bwe r c = (Some p, c'\<lparr>probe := None, stable_since := None\<rparr>)"
  using assms by (simp add: observe_def pushed_def Let_def)

lemma observe_probe:
  assumes "\<not> forced c"
    and "try_transition bwe (classify_with_context r (network_context c)) (pushed r c) = (None, c')"
  shows "observe now bwe r c = check_probe now (classify_with_context r (network_context c)) c'"
  using assms by (simp add: observe_def pushed_def Let_def)

lemma try_transition_Some:
  assumes "try_transition bwe t c = (Some p, c')"
  shows "p = tier_profile (current_tier c') \<and> current_profile c' = p \<and> history c' = history c \<and>
    consecutive_up c' = 0 \<and> consecutive_down c' = 0 \<and> forced c' = forced c \<and>
    network_context c' = network_context c \<and>
    (current_tier c' = t \<and> t < current_tier c \<and> downgrade_threshold c \<le> consecutive_down c + 1 \<or>
     upgrade_one_step (current_tier c) = Some (current_tier c') \<and> current_tier c < t)"
  using assms
  by (auto simp: try_transition_def Let_def downgrade_threshold_def not_less_iff_gr_or_eq
      split: if_splits option.splits)

lemma try_transition_None:
  assumes "try_transition bwe t c = (None, c')"
  shows "current_tier c' = current_tier c \<and> current_profile c' = current_profile c \<and>
    history c' = history c \<and> forced c' = forced c \<and> network_context c' = network_context c \<and>
    probe c' = probe c \<and> stable_since c' = stable_since c"
  using assms
  by (auto simp: try_transition_def Let_def split: if_splits option.splits)

lemma try_transition_counts:
  assumes "try_transition bwe t c = (r, c')"
    and "consecutive_down c < DOWNGRADE_THRESHOLD" and "consecutive_up c < STUDIO_UPGRADE_THRESHOLD"
  shows "consecutive_down c' < DOWNGRADE_THRESHOLD \<and> consecutive_up c' < STUDIO_UPGRADE_THRESHOLD"
  using assms below_top
  by (auto simp: try_transition_def Let_def downgrade_threshold_def upgrade_one_step_None
      split: if_splits option.splits)

lemma check_probe_keeps:
  assumes "check_probe now t c = (r, c')"
  shows "history c' = history c \<and> forced c' = forced c \<and> network_context c' = network_context c \<and>
    consecutive_down c' = consecutive_down c \<and> consecutive_up c' \<le> consecutive_up c"
  using assms
  by (auto simp: check_probe_def continue_probe_def start_probe_def Let_def
      split: if_splits option.splits)

lemma check_probe_ok:
  assumes "check_probe now t c = (r, c')" and "probe_ok c"
  shows "probe_ok c'"
  using assms
  by (auto simp: probe_ok_def check_probe_def continue_probe_def start_probe_def Let_def
      split: if_splits option.splits)

lemma check_probe_tier:
  assumes "check_probe now t c = (r, c')" and "probe_ok c"
  shows "current_tier c' = current_tier c \<and> current_profile c' = current_profile c \<or>
    upgrade_one_step (current_tier c) = Some (current_tier c') \<and>
    r = Some (tier_profile (current_tier c')) \<and> current_profile c' = tier_profile (current_tier c')"
  using assms
  by (auto simp: probe_ok_def check_probe_def continue_probe_def start_probe_def Let_def
      split: if_splits option.splits)

lemma observe_ok:
  assumes "controller_ok c"
  shows "controller_ok (snd (observe now bwe r c))"
proof (cases "forced c")
  case True
  then show ?thesis using assms length_pushed
    by (auto simp: observe_forced controller_ok_def probe_ok_def split: option.splits)
next
  case False
  obtain res c' where tt:
    "try_transition bwe (classify_with_context r (network_context c)) (pushed r c) = (res, c')"
    by fastforce
  have counts: "consecutive_down c' < DOWNGRADE_THRESHOLD \<and> consecutive_up c' < STUDIO_UPGRADE_THRESHOLD"
    using try_transition_counts[OF tt] assms by (simp add: controller_ok_def)
  have len: "length (history (pushed r c)) \<le> HISTORY_SIZE"
    using assms length_pushed by (simp add: controller_ok_def)
  show ?thesis
  proof (cases res)
    case (Some p)
    then show ?thesis
      using observe_transition[OF False] tt counts len try_transition_Some[of bwe _ "pushed r c" p c']
      by (simp add: controller_ok_def probe_ok_def)
  next
    case None
    have same: "current_tier c' = current_tier c" "probe c' = probe c" "history c' = history (pushed r c)"
      using try_transition_None[OF tt[unfolded None]] by simp_all
    then have ok: "probe_ok c'" using assms probe_ok_cong[of c' c] by (simp add: controller_ok_def)
    obtain q c'' where cp: "check_probe now (classify_with_context r (network_context c)) c' = (q, c'')"
      by fastforce
    then show ?thesis
      using observe_probe[OF False tt[unfolded None]] check_probe_keeps[OF cp] check_probe_ok[OF cp ok]
        counts len same
      by (simp add: controller_ok_def)
  qed
qed

lemma controller_step_ok: "controller_ok c \<Longrightarrow> controller_ok (controller_step e c)"
proof (cases e)
  case (Observe now bwe r)
  assume "controller_ok c"
  then show ?thesis unfolding Observe controller_step.simps by (rule observe_ok)
qed (auto simp: signal_network_change_def reset_counters_def force_profile_def
      controller_ok_def probe_ok_def Let_def split: option.splits)

lemma reachable_ok: "controller_ok (fold controller_step es controller_new)"
proof -
  have "controller_ok controller_new"
    by (simp add: controller_ok_def controller_new_def probe_ok_def)
  then show ?thesis
    by (induction es rule: rev_induct) (simp_all add: controller_step_ok)
qed

text \<open>
  Also (the controller's invariant).  After any sequence of reports, network changes, resets and
  forced profiles the history holds at most 20 reports, both hysteresis counters are below the
  largest thresholds, and a running probe always aims exactly one tier above the current one
  with that tier's profile and has seen at most one bad report.
\<close>

theorem controller_invariant:
  "controller_ok (fold controller_step es controller_new)"
  by (rule reachable_ok)

section \<open>How the tier moves\<close>

text \<open>
  Also (one report moves the tier by the rules).  From every reachable state, one report either
  leaves tier and profile alone, or drops to exactly the tier observed once the context's
  threshold of consecutive worse reports is met, or climbs exactly one tier; and a change is
  always reported to the caller with the new tier's own profile.
\<close>

theorem observe_moves:
  assumes "controller_ok c" and "observe now bwe r c = (res, c')"
  shows "current_tier c' = current_tier c \<and> current_profile c' = current_profile c \<or>
    res = Some (tier_profile (current_tier c')) \<and>
    current_profile c' = tier_profile (current_tier c') \<and> \<not> forced c \<and>
    (upgrade_one_step (current_tier c) = Some (current_tier c') \<or>
     current_tier c' < current_tier c \<and>
     current_tier c' = classify_with_context r (network_context c) \<and>
     downgrade_threshold c \<le> consecutive_down c + 1)"
proof (cases "forced c")
  case True
  then show ?thesis using assms(2) by (auto simp: observe_forced)
next
  case False
  let ?t = "classify_with_context r (network_context c)"
  obtain p d where tt: "try_transition bwe ?t (pushed r c) = (p, d)" by fastforce
  show ?thesis
  proof (cases p)
    case (Some q)
    have "res = Some q" "current_tier c' = current_tier d" "current_profile c' = current_profile d"
      using observe_transition[OF False tt[unfolded Some]] assms(2) by auto
    then show ?thesis using try_transition_Some[OF tt[unfolded Some]] False by auto
  next
    case None
    have same: "current_tier d = current_tier c" "current_profile d = current_profile c"
      "probe d = probe c"
      using try_transition_None[OF tt[unfolded None]] by simp_all
    then have "probe_ok d" using assms(1) probe_ok_cong[of d c] by (simp add: controller_ok_def)
    moreover have "check_probe now ?t d = (res, c')"
      using observe_probe[OF False tt[unfolded None]] assms(2) by simp
    ultimately show ?thesis using check_probe_tier[of now ?t d res c'] same False by auto
  qed
qed

lemma observe_worse:
  assumes "\<not> forced c" and "probe_ok c" and "classify_with_context r (network_context c) < current_tier c"
    and "observe now bwe r c = (res, c')"
  shows "current_tier c' = classify_with_context r (network_context c) \<or>
    current_tier c \<le> current_tier c' \<and> consecutive_down c' = consecutive_down c + 1 \<and>
    consecutive_down c + 1 < downgrade_threshold c \<and> forced c' = forced c \<and>
    network_context c' = network_context c \<and> probe_ok c'"
proof -
  let ?t = "classify_with_context r (network_context c)"
  obtain p d where tt: "try_transition bwe ?t (pushed r c) = (p, d)" by fastforce
  show ?thesis
  proof (cases p)
    case (Some q)
    have "current_tier c' = current_tier d"
      using observe_transition[OF assms(1) tt[unfolded Some]] assms(4) by auto
    then show ?thesis using try_transition_Some[OF tt[unfolded Some]] assms(3) by auto
  next
    case None
    have same: "current_tier d = current_tier c" "probe d = probe c" "forced d = forced c"
      "network_context d = network_context c"
      using try_transition_None[OF tt[unfolded None]] by simp_all
    have down: "consecutive_down d = consecutive_down c + 1"
      "consecutive_down c + 1 < downgrade_threshold c"
      using tt None assms(3)
      by (auto simp: try_transition_def Let_def downgrade_threshold_def split: if_splits)
    have ok: "probe_ok d" using assms(2) probe_ok_cong[of d c] same by simp
    have cp: "check_probe now ?t d = (res, c')"
      using observe_probe[OF assms(1) tt[unfolded None]] assms(4) by simp
    have "current_tier c \<le> current_tier c'"
      using check_probe_tier[OF cp ok] same upgrade_one_step_gt by fastforce
    then show ?thesis using check_probe_keeps[OF cp] check_probe_ok[OF cp ok] same down by simp
  qed
qed

definition observe_step ::
  "nat \<times> nat option \<times> QualityReport \<Rightarrow> AdaptiveQualityController \<Rightarrow> AdaptiveQualityController" where
  "observe_step e c = (case e of (now, bwe, r) \<Rightarrow> snd (observe now bwe r c))"

lemma reports_bring_down:
  assumes "\<not> forced c" and "probe_ok c" and "t < current_tier c"
    and "\<forall>e\<in>set es. classify_with_context (snd (snd e)) (network_context c) = t"
    and "es \<noteq> []" and "downgrade_threshold c \<le> consecutive_down c + length es"
  shows "\<exists>i\<le>length es. current_tier (fold observe_step (take i es) c) = t"
  using assms
proof (induction es arbitrary: c)
  case Nil
  then show ?case by simp
next
  case (Cons e es)
  obtain now bwe r where e: "e = (now, bwe, r)" by (cases e) auto
  obtain res c' where obs: "observe now bwe r c = (res, c')" by fastforce
  have step: "observe_step e c = c'" using obs by (simp add: observe_step_def e)
  have t: "classify_with_context r (network_context c) = t" using Cons.prems(4) e by simp
  then have "classify_with_context r (network_context c) < current_tier c" using Cons.prems(3) by simp
  from observe_worse[OF Cons.prems(1,2) this obs]
  show ?case
  proof (elim disjE)
    assume "current_tier c' = classify_with_context r (network_context c)"
    then have "current_tier (fold observe_step (take 1 (e # es)) c) = t" using step t by simp
    then show ?thesis by (intro exI[of _ 1]) simp
  next
    assume more: "current_tier c \<le> current_tier c' \<and> consecutive_down c' = consecutive_down c + 1 \<and>
      consecutive_down c + 1 < downgrade_threshold c \<and> forced c' = forced c \<and>
      network_context c' = network_context c \<and> probe_ok c'"
    have thr: "downgrade_threshold c' = downgrade_threshold c"
      using more by (simp add: downgrade_threshold_def)
    have "\<exists>i\<le>length es. current_tier (fold observe_step (take i es) c') = t"
    proof (rule Cons.IH)
      show "t < current_tier c'" using Cons.prems(3) more by (meson order_less_le_trans)
      show "es \<noteq> []" "downgrade_threshold c' \<le> consecutive_down c' + length es"
        using Cons.prems(6) more thr by auto
    qed (use Cons.prems more in auto)
    then obtain i where "i \<le> length es" "current_tier (fold observe_step (take i es) c') = t" by blast
    then show ?thesis using step by (intro exI[of _ "Suc i"]) simp
  qed
qed

text \<open>
  Also (a worse path is followed promptly).  In every reachable state that is not forced, as many
  consecutive reports of one worse tier as the context's threshold (two on cellular, three
  elsewhere) bring the controller to that tier, at whatever times they arrive, whatever a
  running probe does meanwhile.
\<close>

theorem downgrade_is_prompt:
  assumes "c = fold controller_step ops controller_new" and "\<not> forced c" and "t < current_tier c"
    and "\<forall>e\<in>set es. classify_with_context (snd (snd e)) (network_context c) = t"
    and "length es = (if is_cellular (network_context c) then 2 else 3)"
  shows "\<exists>i\<le>length es. current_tier (fold observe_step (take i es) c) = t"
proof (rule reports_bring_down)
  show "probe_ok c" using assms(1) reachable_ok[of ops] by (simp add: controller_ok_def)
  show "es \<noteq> []" "downgrade_threshold c \<le> consecutive_down c + length es"
    using assms(5) by (auto simp: downgrade_threshold_def split: if_splits)
qed (use assms in auto)

definition sample_report :: "u8 \<Rightarrow> u8 \<Rightarrow> QualityReport" where
  "sample_report loss rtt =
     \<lparr>loss_pct = loss, rtt_4ms = rtt, jitter_ms = 10, bitrate_cap_kbps = 200\<rparr>"

lemmas sample_simps = sample_report_def classify_with_context_def is_cellular_def
  loss_percent_def rtt_ms_def

lemma observe_moves_witness:
  "let c = controller_new\<lparr>consecutive_down := 2\<rparr>;
       c' = snd (observe 7 None (sample_report 255 0) c) in
   controller_ok c \<and> current_tier c' = Catastrophic \<and>
   (current_tier c' = current_tier c \<and> current_profile c' = current_profile c \<or>
    fst (observe 7 None (sample_report 255 0) c) = Some (tier_profile (current_tier c')) \<and>
    current_profile c' = tier_profile (current_tier c') \<and> \<not> forced c \<and>
    (upgrade_one_step (current_tier c) = Some (current_tier c') \<or>
     current_tier c' < current_tier c \<and>
     current_tier c' = classify_with_context (sample_report 255 0) (network_context c) \<and>
     downgrade_threshold c \<le> consecutive_down c + 1))"
proof -
  let ?c = "controller_new\<lparr>consecutive_down := 2\<rparr>"
  have ok: "controller_ok ?c"
    by (simp add: controller_ok_def controller_new_def probe_ok_def)
  have tier: "current_tier (snd (observe 7 None (sample_report 255 0) ?c)) = Catastrophic"
    by (simp add: observe_def try_transition_def controller_new_def sample_simps less_Tier_def
        downgrade_threshold_def)
  show ?thesis
    unfolding Let_def
    using ok tier observe_moves[OF ok prod.collapse[symmetric],
        of 7 None "sample_report 255 0"] by blast
qed

lemma downgrade_is_prompt_witness:
  "\<exists>i\<le>3. current_tier (fold observe_step
       (take i [(0, None, sample_report 255 0), (1, None, sample_report 20 60), (2, None, sample_report 0 50)])
       (fold controller_step [ResetCounters] controller_new)) = Catastrophic"
proof -
  let ?es = "[(0::nat, None :: nat option, sample_report 255 0), (1, None, sample_report 20 60), (2, None, sample_report 0 50)]"
  let ?c = "fold controller_step [ResetCounters] controller_new"
  have c: "\<not> forced ?c" "Catastrophic < current_tier ?c" "network_context ?c = UnknownNet"
    by (simp_all add: reset_counters_def controller_new_def less_Tier_def)
  have "\<exists>i\<le>length ?es. current_tier (fold observe_step (take i ?es) ?c) = Catastrophic"
    by (rule downgrade_is_prompt[OF refl c(1,2)])
      (simp_all only: c(3), simp_all add: sample_simps)
  moreover have "length ?es = 3" by simp
  ultimately show ?thesis by (simp only:)
qed

section \<open>Failed probes\<close>

lemma profile_changes: "upgrade_one_step t = Some u \<Longrightarrow> tier_profile u \<noteq> tier_profile t"
  by (cases t) (auto simp: GOOD_def DEGRADED_def CATASTROPHIC_def STUDIO_32K_def STUDIO_48K_def
      STUDIO_64K_def audio_profile_def)

lemma observe_same_tier:
  assumes "\<not> forced c" and "classify_with_context r (network_context c) = current_tier c"
  shows "observe now bwe r c = check_probe now (current_tier c)
    ((pushed r c)\<lparr>consecutive_up := 0, consecutive_down := 0\<rparr>)"
  using observe_probe[OF assms(1)] assms(2) by (simp add: try_transition_def)

lemma probe_running_bad:
  assumes "\<not> forced c" and "\<not> is_cellular (network_context c)" and "current_tier c \<noteq> Studio64k"
    and "probe c = Some p" and "t < target_tier p" and "now < probe_started p + PROBE_DURATION_MS"
  shows "check_probe now t c =
    (None, if PROBE_MAX_BAD < bad_reports p + 1
      then c\<lparr>probe := None, stable_since := Some (now + PROBE_COOLDOWN_MS)\<rparr>
      else c\<lparr>probe := Some (p\<lparr>probe_reports := probe_reports p + 1, bad_reports := bad_reports p + 1\<rparr>)\<rparr>)"
  using assms by (auto simp: check_probe_def continue_probe_def Let_def)

text \<open>
  Also (a failed probe is silent).  Starting a probe hands the caller the next tier's profile, to
  switch the encoder to; when the probe then fails on two reports at the current tier, both
  calls return nothing and the controller's own profile is the old one, so the caller keeps
  sending at the probed profile while the controller's state says otherwise.
\<close>

theorem failed_probe_is_silent:
  assumes "controller_ok c" and "current_profile c = tier_profile (current_tier c)"
    and "probe c = None" and "observe t0 b0 r0 c = (Some prof, c1)" and "probe c1 \<noteq> None"
    and "t1 < t0 + PROBE_DURATION_MS" and "t2 < t0 + PROBE_DURATION_MS"
    and "classify_with_context r1 (network_context c) = current_tier c"
    and "classify_with_context r2 (network_context c) = current_tier c"
  shows "\<exists>c2 c3. observe t1 b1 r1 c1 = (None, c2) \<and> observe t2 b2 r2 c2 = (None, c3) \<and>
    probe c3 = None \<and> current_profile c3 = current_profile c \<and> prof \<noteq> current_profile c3"
proof -
  let ?t = "classify_with_context r0 (network_context c)"
  have unforced: "\<not> forced c" using assms(4) by (auto simp: observe_forced)
  obtain q d where tt: "try_transition b0 ?t (pushed r0 c) = (q, d)" by fastforce
  have q: "q = None"
    using observe_transition[OF unforced, of b0 r0 _ d t0] tt assms(4,5) by (cases q) auto
  have d: "current_tier d = current_tier c" "current_profile d = current_profile c"
    "probe d = None" "forced d = False" "network_context d = network_context c"
    using try_transition_None[OF tt[unfolded q]] assms(3) unforced by simp_all
  have "check_probe t0 ?t d = (Some prof, c1)"
    using observe_probe[OF unforced tt[unfolded q]] assms(4) by simp
  then have started: "probe c1 = Some \<lparr>target_tier = u, target_profile = tier_profile u,
      probe_started = t0, probe_reports = 0, bad_reports = 0\<rparr> \<and> prof = tier_profile u \<and>
      current_tier c1 = current_tier c \<and> current_profile c1 = current_profile c \<and> \<not> forced c1 \<and>
      network_context c1 = network_context c \<and> \<not> is_cellular (network_context c) \<and>
      current_tier c \<noteq> Studio64k \<and> upgrade_one_step (current_tier c) = Some u"
    if "upgrade_one_step (current_tier c) = Some u" for u
    using that d by (auto simp: check_probe_def start_probe_def Let_def split: if_splits option.splits)
  have "current_tier c \<noteq> Studio64k"
    using \<open>check_probe t0 ?t d = (Some prof, c1)\<close> d by (auto simp: check_probe_def split: if_splits)
  then obtain u where u: "upgrade_one_step (current_tier c) = Some u"
    using upgrade_one_step_None by blast
  note c1 = started[OF u]
  have lt: "current_tier c < u" using upgrade_one_step_gt[OF u] .
  obtain c2 where c2: "observe t1 b1 r1 c1 = (None, c2)" "probe c2 = Some \<lparr>target_tier = u,
      target_profile = tier_profile u, probe_started = t0, probe_reports = 1, bad_reports = 1\<rparr>"
      "current_tier c2 = current_tier c" "current_profile c2 = current_profile c" "\<not> forced c2"
      "network_context c2 = network_context c"
    using observe_same_tier[of c1 r1 t1 b1] probe_running_bad c1 lt assms(6,8) by simp
  show ?thesis
    using observe_same_tier[of c2 r2 t2 b2] probe_running_bad c1 c2 lt assms(2,7,9)
      profile_changes[OF u] by simp
qed

lemma failed_probe_is_silent_witness:
  "let c = controller_new\<lparr>stable_since := Some 0\<rparr>; c1 = snd (observe 30000 None (sample_report 6 0) c) in
   probe c1 \<noteq> None \<and>
   (\<exists>c2 c3. observe 31000 None (sample_report 6 0) c1 = (None, c2) \<and>
     observe 32000 None (sample_report 6 0) c2 = (None, c3) \<and>
     probe c3 = None \<and> current_profile c3 = current_profile c \<and> STUDIO_32K \<noteq> current_profile c3)"
proof -
  let ?c = "controller_new\<lparr>stable_since := Some 0\<rparr>"
  have good: "classify_with_context (sample_report 6 0) (network_context ?c) = current_tier ?c"
    by (simp add: controller_new_def sample_simps)
  have ok: "controller_ok ?c" "current_profile ?c = tier_profile (current_tier ?c)" "probe ?c = None"
    "\<not> forced ?c"
    by (simp_all add: controller_ok_def controller_new_def probe_ok_def)
  obtain c1 where c1: "observe 30000 None (sample_report 6 0) ?c = (Some STUDIO_32K, c1)" "probe c1 \<noteq> None"
    unfolding observe_same_tier[OF ok(4) good]
    by (simp add: check_probe_def start_probe_def pushed_def controller_new_def is_cellular_def)
  show ?thesis
    using failed_probe_is_silent[OF ok(1-3) c1 _ _ good good, of 31000 32000 None None] c1
    by (simp add: Let_def)
qed

end
