(* ===== verification/Room.thy ===== *)
theory Room
  imports Quality BTree
begin

text \<open>
  The relay's rooms, \<open>crates/wzp-relay/src/room.rs\<close>: membership and access control, the keyframe
  cache, suppression of picture-loss indications, layer selection, room-wide quality, and the
  forwarding of one media packet as the two receive loops do it.  Every handler is one atomic
  step on the manager's state; \<open>DashMap\<close>s and \<open>HashMap\<close>s are association lists, the static id
  counter is a field, a QUIC connection or WebSocket channel is the handle of its sender, and
  \<open>now\<close> is in milliseconds.  Metrics, logging and the observe-only conformance and video scores,
  which change nothing here, are left out.
\<close>

section \<open>Debug-tap statistics\<close>

record TapStats =
  in_pkts :: nat
  out_pkts :: nat
  seq_gaps :: nat
  codecs_seen :: "CodecId set"
  last_seq :: "u32 option"

definition tap_new :: TapStats where
  "tap_new = \<lparr>in_pkts = 0, out_pkts = 0, seq_gaps = 0, codecs_seen = {}, last_seq = None\<rparr>"

definition record_in :: "MediaPacket \<Rightarrow> nat \<Rightarrow> TapStats \<Rightarrow> TapStats" where
  "record_in pkt fan_out s =
     s\<lparr>in_pkts := in_pkts s + 1, out_pkts := out_pkts s + fan_out,
       codecs_seen := insert (codec_id (header pkt)) (codecs_seen s),
       seq_gaps := (case last_seq s of
           Some prev \<Rightarrow> if seq (header pkt) \<noteq> prev + 1 then seq_gaps s + 1 else seq_gaps s
         | None \<Rightarrow> seq_gaps s),
       last_seq := Some (seq (header pkt))\<rparr>"

definition reset_period :: "TapStats \<Rightarrow> TapStats" where
  "reset_period s = s\<lparr>in_pkts := 0, out_pkts := 0, seq_gaps := 0\<rparr>"

section \<open>Quality and layers\<close>

record ParticipantQuality =
  controller :: AdaptiveQualityController
  pq_tier :: Tier

definition pq_new :: ParticipantQuality where
  "pq_new = \<lparr>controller = controller_new, pq_tier = Good\<rparr>"

definition pq_observe :: "nat \<Rightarrow> QualityReport \<Rightarrow> ParticipantQuality \<Rightarrow> Tier option \<times> ParticipantQuality" where
  "pq_observe now report pq =
     (let c = snd (observe now None report (controller pq));
          pq = pq\<lparr>controller := c\<rparr>; new_tier = current_tier c in
      if new_tier \<noteq> pq_tier pq then (Some new_tier, pq\<lparr>pq_tier := new_tier\<rparr>) else (None, pq))"

definition weakest_tier :: "ParticipantQuality list \<Rightarrow> Tier" where
  "weakest_tier qs = (case qs of [] \<Rightarrow> Good | q # qs \<Rightarrow> fold min (map pq_tier qs) (pq_tier q))"

abbreviation (input) SIMULCAST_HIGH_THRESHOLD_KBPS :: nat where "SIMULCAST_HIGH_THRESHOLD_KBPS \<equiv> 3000"
abbreviation (input) SIMULCAST_MID_THRESHOLD_KBPS :: nat where "SIMULCAST_MID_THRESHOLD_KBPS \<equiv> 750"
abbreviation (input) LAYER_SWITCH_HYSTERESIS_MS :: nat where "LAYER_SWITCH_HYSTERESIS_MS \<equiv> 3000"

record ReceiverState =
  bwe_kbps :: nat
  rs_loss_pct :: nat
  selected_layer :: u8
  candidate_layer :: u8
  candidate_since :: nat

definition receiver_new :: "nat \<Rightarrow> ReceiverState" where
  "receiver_new now = \<lparr>bwe_kbps = 0, rs_loss_pct = 0, selected_layer = 0, candidate_layer = 0,
     candidate_since = now\<rparr>"

definition suggest_layer :: "nat \<Rightarrow> nat \<Rightarrow> u8" where
  "suggest_layer bwe loss =
     (if SIMULCAST_HIGH_THRESHOLD_KBPS < bwe \<and> loss < 2 then 2
      else if SIMULCAST_MID_THRESHOLD_KBPS < bwe then 1 else 0)"

definition receiver_update :: "nat \<Rightarrow> nat \<Rightarrow> nat \<Rightarrow> ReceiverState \<Rightarrow> ReceiverState" where
  "receiver_update bwe loss now s =
     (let is_first = bwe_kbps s = 0;
          s = s\<lparr>bwe_kbps := bwe, rs_loss_pct := loss\<rparr>;
          suggested = suggest_layer bwe loss in
      if suggested = selected_layer s
      then s\<lparr>candidate_layer := suggested, candidate_since := now\<rparr>
      else if is_first
      then s\<lparr>selected_layer := suggested, candidate_layer := suggested, candidate_since := now\<rparr>
      else if suggested \<noteq> candidate_layer s
      then s\<lparr>candidate_layer := suggested, candidate_since := now\<rparr>
      else if LAYER_SWITCH_HYSTERESIS_MS \<le> now - candidate_since s
      then s\<lparr>selected_layer := suggested\<rparr> else s)"

datatype RouteReason = SelectedLayer | H264SingleLayerCompat

definition video_route_reason :: "MediaPacket \<Rightarrow> u8 \<Rightarrow> RouteReason option" where
  "video_route_reason pkt layer =
     (if stream_id (header pkt) = layer then Some SelectedLayer
      else if codec_id (header pkt) = H264Baseline \<and>
              (stream_id (header pkt) = 0 \<or> stream_id (header pkt) = 1)
      then Some H264SingleLayerCompat else None)"

type_synonym ParticipantId = nat

definition outbound_video_stream_id :: "ParticipantId \<Rightarrow> u8" where
  "outbound_video_stream_id pid = of_nat ((pid - 1) mod 250 + 1)"

definition with_outbound_video_stream_id :: "MediaPacket \<Rightarrow> ParticipantId \<Rightarrow> MediaPacket" where
  "with_outbound_video_stream_id pkt pid =
     (if media_type (header pkt) = Video
      then pkt\<lparr>header := (header pkt)\<lparr>stream_id := outbound_video_stream_id pid\<rparr>\<rparr> else pkt)"

section \<open>Rooms\<close>

datatype ParticipantSender = Quic nat | WebSocket nat

datatype RoomEvent = LocalJoin string | LocalLeave string

record Participant =
  p_id :: ParticipantId
  p_addr :: string
  p_sender :: ParticipantSender
  p_fingerprint :: "string option"
  p_alias :: "string option"

record Room =
  participants :: "Participant list"
  qualities :: "(ParticipantId, ParticipantQuality) hashmap"
  room_tier :: Tier

definition room_new :: Room where
  "room_new = \<lparr>participants = [], qualities = [], room_tier = Good\<rparr>"

definition room_add ::
  "ParticipantId \<Rightarrow> string \<Rightarrow> ParticipantSender \<Rightarrow> string option \<Rightarrow> string option \<Rightarrow> Room \<Rightarrow> Room" where
  "room_add pid addr sender fp al r =
     r\<lparr>participants := participants r @
        [\<lparr>p_id = pid, p_addr = addr, p_sender = sender, p_fingerprint = fp, p_alias = al\<rparr>]\<rparr>"

definition room_remove :: "ParticipantId \<Rightarrow> Room \<Rightarrow> Room" where
  "room_remove pid r = r\<lparr>participants := filter (\<lambda>p. p_id p \<noteq> pid) (participants r)\<rparr>"

definition remove_by_fingerprint :: "string \<Rightarrow> Room \<Rightarrow> ParticipantId list \<times> Room" where
  "remove_by_fingerprint fp r =
     (let removed = map p_id (filter (\<lambda>p. p_fingerprint p = Some fp) (participants r)) in
      (removed, r\<lparr>participants := filter (\<lambda>p. p_fingerprint p \<noteq> Some fp) (participants r),
                  qualities := fold hm_remove removed (qualities r)\<rparr>))"

definition room_contains :: "Room \<Rightarrow> ParticipantId \<Rightarrow> bool" where
  "room_contains r pid \<longleftrightarrow> (\<exists>p \<in> set (participants r). p_id p = pid)"

definition room_others :: "ParticipantId \<Rightarrow> Room \<Rightarrow> (ParticipantId \<times> ParticipantSender) list" where
  "room_others pid r =
     map (\<lambda>p. (p_id p, p_sender p)) (filter (\<lambda>p. p_id p \<noteq> pid) (participants r))"

definition participant_list :: "Room \<Rightarrow> (string \<times> string option) list" where
  "participant_list r =
     map (\<lambda>p. (case p_fingerprint p of Some fp \<Rightarrow> fp | None \<Rightarrow> [], p_alias p)) (participants r)"

definition all_senders :: "Room \<Rightarrow> ParticipantSender list" where
  "all_senders r = map p_sender (participants r)"

section \<open>The room manager\<close>

abbreviation (input) KEYFRAME_CACHE_MAX_BYTES :: nat where "KEYFRAME_CACHE_MAX_BYTES \<equiv> 200000"
abbreviation (input) PLI_SUPPRESS_MS :: nat where "PLI_SUPPRESS_MS \<equiv> 200"

record KeyframeCacheEntry =
  packets :: "MediaPacket list"
  sequence_first :: u32
  timestamp_ms :: u32
  total_bytes :: nat

type_synonym KeyframeBuffer = KeyframeCacheEntry

type_synonym stream_key = "string \<times> ParticipantId \<times> u8"

record RoomManager =
  rooms :: "(string, Room) hashmap"
  acl :: "(string, string set) hashmap option"
  room_events :: "RoomEvent list"
  keyframe_cache :: "(stream_key, KeyframeCacheEntry) hashmap"
  keyframe_buffer :: "(stream_key, KeyframeBuffer) hashmap"
  pli_state :: "(stream_key, nat) hashmap"
  stream_owner :: "(string \<times> u8, ParticipantId) hashmap"
  receiver_states :: "(string \<times> ParticipantId, ReceiverState) hashmap"
  next_participant_id :: ParticipantId

definition manager_new :: RoomManager where
  "manager_new =
     \<lparr>rooms = [], acl = None, room_events = [], keyframe_cache = [], keyframe_buffer = [],
      pli_state = [], stream_owner = [], receiver_states = [], next_participant_id = 1\<rparr>"

definition manager_with_acl :: RoomManager where
  "manager_with_acl = manager_new\<lparr>acl := Some []\<rparr>"

definition allow :: "string \<Rightarrow> string \<Rightarrow> RoomManager \<Rightarrow> RoomManager" where
  "allow room fp rm =
     (case acl rm of None \<Rightarrow> rm
      | Some a \<Rightarrow>
          let allowed = (case hm_get a room of None \<Rightarrow> {} | Some s \<Rightarrow> s) in
          rm\<lparr>acl := Some (hm_insert room (insert fp allowed) a)\<rparr>)"

definition is_authorized :: "RoomManager \<Rightarrow> string \<Rightarrow> string option \<Rightarrow> bool" where
  "is_authorized rm room fp =
     (case (acl rm, fp) of
        (None, _) \<Rightarrow> True
      | (Some a, None) \<Rightarrow> False
      | (Some a, Some fp) \<Rightarrow> (case hm_get a room of None \<Rightarrow> True | Some allowed \<Rightarrow> fp \<in> allowed))"

definition clear_room_state :: "string \<Rightarrow> RoomManager \<Rightarrow> RoomManager" where
  "clear_room_state room rm =
     rm\<lparr>keyframe_cache := hm_retain (\<lambda>k _. fst k \<noteq> room) (keyframe_cache rm),
        keyframe_buffer := hm_retain (\<lambda>k _. fst k \<noteq> room) (keyframe_buffer rm),
        pli_state := hm_retain (\<lambda>k _. fst k \<noteq> room) (pli_state rm),
        stream_owner := hm_retain (\<lambda>k _. fst k \<noteq> room) (stream_owner rm),
        receiver_states := hm_retain (\<lambda>k _. fst k \<noteq> room) (receiver_states rm)\<rparr>"

definition clear_participant_state :: "string \<Rightarrow> ParticipantId \<Rightarrow> RoomManager \<Rightarrow> RoomManager" where
  "clear_participant_state room pid rm =
     rm\<lparr>keyframe_cache :=
          hm_retain (\<lambda>k _. \<not> (fst k = room \<and> fst (snd k) = pid)) (keyframe_cache rm),
        keyframe_buffer :=
          hm_retain (\<lambda>k _. \<not> (fst k = room \<and> fst (snd k) = pid)) (keyframe_buffer rm),
        pli_state := hm_retain (\<lambda>k _. \<not> (fst k = room \<and> fst (snd k) = pid)) (pli_state rm),
        stream_owner := hm_retain (\<lambda>k owner. \<not> (fst k = room \<and> owner = pid)) (stream_owner rm),
        receiver_states :=
          hm_retain (\<lambda>k _. \<not> (fst k = room \<and> snd k = pid)) (receiver_states rm)\<rparr>"

definition cached_keyframes_for_room :: "RoomManager \<Rightarrow> string \<Rightarrow> MediaPacket list list" where
  "cached_keyframes_for_room rm room =
     map (\<lambda>(k, e). map (\<lambda>pkt. with_outbound_video_stream_id pkt (fst (snd k))) (packets e))
       (filter (\<lambda>(k, _). fst k = room) (keyframe_cache rm))"

record JoinResult =
  joined_id :: ParticipantId
  update_count :: nat
  update_list :: "(string \<times> string option) list"
  update_senders :: "ParticipantSender list"
  join_keyframes :: "MediaPacket list list"

definition join ::
  "string \<Rightarrow> string \<Rightarrow> ParticipantSender \<Rightarrow> string option \<Rightarrow> string option \<Rightarrow> RoomManager \<Rightarrow>
   (string + JoinResult) \<times> RoomManager" where
  "join name addr sender fp al rm =
     (if \<not> is_authorized rm name fp then (Inl ''not authorized for this room'', rm)
      else
        let was_empty = (case hm_get (rooms rm) name of None \<Rightarrow> True | Some r \<Rightarrow> participants r = []);
            room = (case hm_get (rooms rm) name of None \<Rightarrow> room_new | Some r \<Rightarrow> r);
            (removed, room) = (case fp of None \<Rightarrow> ([], room) | Some f \<Rightarrow> remove_by_fingerprint f room);
            rm = fold (clear_participant_state name) removed rm;
            pid = next_participant_id rm;
            room = room_add pid addr sender fp al room;
            room = room\<lparr>qualities := hm_insert pid pq_new (qualities room)\<rparr>;
            rm = rm\<lparr>next_participant_id := pid + 1, rooms := hm_insert name room (rooms rm),
                    room_events := room_events rm @ (if was_empty then [LocalJoin name] else [])\<rparr> in
        (Inr \<lparr>joined_id = pid, update_count = length (participants room),
              update_list = participant_list room, update_senders = all_senders room,
              join_keyframes = cached_keyframes_for_room rm name\<rparr>, rm))"

text \<open>
  Leaving, in the two sections the code has: the participant goes under the lock of the room;
  when nobody is left the locks are dropped, and only then the room is taken out of the map.
\<close>

definition leave_seat ::
  "string \<Rightarrow> ParticipantId \<Rightarrow> Room \<Rightarrow> RoomManager \<Rightarrow>
   (nat \<times> (string \<times> string option) list \<times> ParticipantSender list) option \<times> RoomManager" where
  "leave_seat name pid room rm =
     (let room = room_remove pid (room\<lparr>qualities := hm_remove pid (qualities room)\<rparr>);
          rm = clear_participant_state name pid (rm\<lparr>rooms := hm_insert name room (rooms rm)\<rparr>) in
      (if participants room = [] then None
       else Some (length (participants room), participant_list room, all_senders room), rm))"

definition close_room :: "string \<Rightarrow> RoomManager \<Rightarrow> RoomManager" where
  "close_room name rm =
     (clear_room_state name (rm\<lparr>rooms := hm_remove name (rooms rm)\<rparr>))
       \<lparr>room_events := room_events rm @ [LocalLeave name]\<rparr>"

definition leave ::
  "string \<Rightarrow> ParticipantId \<Rightarrow> RoomManager \<Rightarrow>
   (nat \<times> (string \<times> string option) list \<times> ParticipantSender list) option \<times> RoomManager" where
  "leave name pid rm =
     (case hm_get (rooms rm) name of
        None \<Rightarrow> (None, rm)
      | Some room \<Rightarrow>
          (case leave_seat name pid room rm of
             (Some update, rm) \<Rightarrow> (Some update, rm)
           | (None, rm) \<Rightarrow> (None, close_room name rm)))"

lemma leave_as_one:
  "leave name pid rm =
     (case hm_get (rooms rm) name of
        None \<Rightarrow> (None, rm)
      | Some room \<Rightarrow>
          let room = room_remove pid (room\<lparr>qualities := hm_remove pid (qualities room)\<rparr>);
              rm = clear_participant_state name pid (rm\<lparr>rooms := hm_insert name room (rooms rm)\<rparr>) in
          if participants room = []
          then (None, (clear_room_state name (rm\<lparr>rooms := hm_remove name (rooms rm)\<rparr>))
                        \<lparr>room_events := room_events rm @ [LocalLeave name]\<rparr>)
          else (Some (length (participants room), participant_list room, all_senders room), rm))"
  by (simp add: leave_def leave_seat_def close_room_def Let_def split: option.split)

definition buffer_for :: "stream_key \<Rightarrow> MediaHeader \<Rightarrow> RoomManager \<Rightarrow> KeyframeBuffer" where
  "buffer_for key h rm =
     (case hm_get (keyframe_buffer rm) key of Some b \<Rightarrow> b
      | None \<Rightarrow> \<lparr>packets = [], sequence_first = seq h, timestamp_ms = timestamp h, total_bytes = 0\<rparr>)"

definition buffer_packet :: "MediaPacket \<Rightarrow> KeyframeBuffer \<Rightarrow> KeyframeBuffer" where
  "buffer_packet pkt b =
     (let h = header pkt; n = length (payload pkt);
          b = (if KEYFRAME_CACHE_MAX_BYTES < total_bytes b + n
               then b\<lparr>packets := [], total_bytes := 0, sequence_first := seq h,
                      timestamp_ms := timestamp h\<rparr> else b) in
      b\<lparr>packets := packets b @ [pkt], total_bytes := total_bytes b + n\<rparr>)"

definition update_keyframe_cache :: "string \<Rightarrow> ParticipantId \<Rightarrow> MediaPacket \<Rightarrow> RoomManager \<Rightarrow> RoomManager" where
  "update_keyframe_cache name sender pkt rm =
     (let h = header pkt; key = (name, sender, stream_id h) in
      if is_repair h then rm
      else if is_keyframe h then
        let b = buffer_packet pkt (buffer_for key h rm) in
        if is_frame_end h
        then rm\<lparr>keyframe_cache := hm_insert key b (keyframe_cache rm),
                keyframe_buffer := hm_insert key (b\<lparr>packets := [], total_bytes := 0\<rparr>) (keyframe_buffer rm)\<rparr>
        else rm\<lparr>keyframe_buffer := hm_insert key b (keyframe_buffer rm)\<rparr>
      else rm\<lparr>keyframe_buffer := hm_remove key (keyframe_buffer rm)\<rparr>)"

definition contains_participant :: "RoomManager \<Rightarrow> string \<Rightarrow> ParticipantId \<Rightarrow> bool" where
  "contains_participant rm name pid =
     (case hm_get (rooms rm) name of None \<Rightarrow> False | Some r \<Rightarrow> room_contains r pid)"

definition should_forward_pli :: "string \<Rightarrow> u8 \<Rightarrow> nat \<Rightarrow> RoomManager \<Rightarrow> ParticipantId option \<times> RoomManager" where
  "should_forward_pli name stream now rm =
     (case hm_get (stream_owner rm) (name, stream) of
        None \<Rightarrow> (None, rm)
      | Some sender \<Rightarrow>
          let key = (name, sender, stream) in
          if (case hm_get (pli_state rm) key of None \<Rightarrow> False
              | Some last_pli \<Rightarrow> now - last_pli < PLI_SUPPRESS_MS)
          then (None, rm)
          else (Some sender, rm\<lparr>pli_state := hm_insert key now (pli_state rm)\<rparr>))"

definition others_with_id :: "RoomManager \<Rightarrow> string \<Rightarrow> ParticipantId \<Rightarrow> (ParticipantId \<times> ParticipantSender) list" where
  "others_with_id rm name pid =
     (case hm_get (rooms rm) name of None \<Rightarrow> [] | Some r \<Rightarrow> room_others pid r)"

definition update_receiver_state ::
  "nat \<Rightarrow> string \<Rightarrow> ParticipantId \<Rightarrow> nat \<Rightarrow> nat \<Rightarrow> RoomManager \<Rightarrow> RoomManager" where
  "update_receiver_state now name pid bwe loss rm =
     (let s = (case hm_get (receiver_states rm) (name, pid) of Some s \<Rightarrow> s | None \<Rightarrow> receiver_new now) in
      rm\<lparr>receiver_states := hm_insert (name, pid) (receiver_update bwe loss now s) (receiver_states rm)\<rparr>)"

definition layer_of :: "RoomManager \<Rightarrow> string \<Rightarrow> ParticipantId \<Rightarrow> u8" where
  "layer_of rm name pid =
     (case hm_get (receiver_states rm) (name, pid) of Some s \<Rightarrow> selected_layer s | None \<Rightarrow> 0)"

definition room_size :: "RoomManager \<Rightarrow> string \<Rightarrow> nat" where
  "room_size rm name = (case hm_get (rooms rm) name of None \<Rightarrow> 0 | Some r \<Rightarrow> length (participants r))"

definition observe_quality ::
  "nat \<Rightarrow> string \<Rightarrow> ParticipantId \<Rightarrow> QualityReport \<Rightarrow> RoomManager \<Rightarrow>
   (Tier \<times> ParticipantSender list) option \<times> RoomManager" where
  "observe_quality now name pid report rm =
     (case hm_get (rooms rm) name of None \<Rightarrow> (None, rm)
      | Some room \<Rightarrow>
        (case hm_get (qualities room) pid of None \<Rightarrow> (None, rm)
         | Some pq \<Rightarrow>
            let (changed, pq) = pq_observe now report pq;
                room = room\<lparr>qualities := hm_insert pid pq (qualities room)\<rparr>;
                weakest = weakest_tier (map snd (qualities room)) in
            if changed = None \<or> weakest = room_tier room
            then (None, rm\<lparr>rooms := hm_insert name room (rooms rm)\<rparr>)
            else let room = room\<lparr>room_tier := weakest\<rparr> in
              (Some (weakest, all_senders room), rm\<lparr>rooms := hm_insert name room (rooms rm)\<rparr>)))"

section \<open>Forwarding\<close>

text \<open>
  One packet in the receive loops.  A QUIC peer gets the packet, on a video stream of the
  sender's own; a WebSocket peer gets the bare payload.  The result is \<open>None\<close> when the
  participant was replaced meanwhile: the loop stops and leaves.
\<close>

datatype Delivery = ToQuic ParticipantId nat MediaPacket | ToWs ParticipantId nat "byte list"

definition register_owner :: "string \<Rightarrow> ParticipantId \<Rightarrow> MediaPacket \<Rightarrow> RoomManager \<Rightarrow> RoomManager" where
  "register_owner name pid pkt rm =
     (if is_repair (header pkt) then rm
      else
        let rm = rm\<lparr>stream_owner := hm_insert (name, stream_id (header pkt)) pid (stream_owner rm)\<rparr> in
        if media_type (header pkt) = Video
        then rm\<lparr>stream_owner := hm_insert (name, outbound_video_stream_id pid) pid (stream_owner rm)\<rparr>
        else rm)"

definition route_to :: "RoomManager \<Rightarrow> string \<Rightarrow> MediaPacket \<Rightarrow> ParticipantId \<Rightarrow> bool" where
  "route_to rm name pkt other \<longleftrightarrow>
     (media_type (header pkt) = Video \<longrightarrow> video_route_reason pkt (layer_of rm name other) \<noteq> None)"

definition deliver :: "ParticipantId \<Rightarrow> MediaPacket \<Rightarrow> ParticipantId \<times> ParticipantSender \<Rightarrow> Delivery" where
  "deliver pid pkt o' =
     (case o' of (other, Quic t) \<Rightarrow> ToQuic other t (with_outbound_video_stream_id pkt pid)
      | (other, WebSocket ch) \<Rightarrow> ToWs other ch (payload pkt))"

definition forward_packet ::
  "string \<Rightarrow> ParticipantId \<Rightarrow> nat \<Rightarrow> MediaPacket \<Rightarrow> RoomManager \<Rightarrow>
   ((Tier \<times> ParticipantSender list) option \<times> Delivery list) option \<times> RoomManager" where
  "forward_packet name pid now pkt rm =
     (if \<not> contains_participant rm name pid then (None, snd (leave name pid rm))
      else
        let rm = update_keyframe_cache name pid pkt rm;
            rm = register_owner name pid pkt rm;
            (directive, rm) =
              (case quality_report pkt of None \<Rightarrow> (None, rm)
               | Some report \<Rightarrow>
                   let rm = update_receiver_state now name pid
                              (unat (bitrate_cap_kbps report)) (unat (loss_pct report)) rm in
                   observe_quality now name pid report rm);
            others = others_with_id rm name pid in
        (Some (directive,
           map (deliver pid pkt) (filter (\<lambda>(other, _). route_to rm name pkt other) others)), rm))"

section \<open>No state outlives its participant\<close>

text \<open>
  All per-stream and per-receiver state belongs to pairs of room and participant in \<open>S\<close>.
\<close>

definition state_within :: "(string \<Rightarrow> ParticipantId \<Rightarrow> bool) \<Rightarrow> RoomManager \<Rightarrow> bool" where
  "state_within S rm \<longleftrightarrow>
     hm_ok (keyframe_cache rm) \<and> hm_ok (keyframe_buffer rm) \<and> hm_ok (pli_state rm) \<and>
     hm_ok (stream_owner rm) \<and> hm_ok (receiver_states rm) \<and>
     hm_all (\<lambda>k _. S (fst k) (fst (snd k))) (keyframe_cache rm) \<and>
     hm_all (\<lambda>k _. S (fst k) (fst (snd k))) (keyframe_buffer rm) \<and>
     hm_all (\<lambda>k _. S (fst k) (fst (snd k))) (pli_state rm) \<and>
     hm_all (\<lambda>k owner. S (fst k) owner) (stream_owner rm) \<and>
     hm_all (\<lambda>k _. S (fst k) (snd k)) (receiver_states rm)"

lemma state_within_rooms [simp]:
  "state_within S (rm\<lparr>rooms := x\<rparr>) = state_within S rm"
  "state_within S (rm\<lparr>next_participant_id := i\<rparr>) = state_within S rm"
  "state_within S (rm\<lparr>room_events := es\<rparr>) = state_within S rm"
  "state_within S (rm\<lparr>acl := a\<rparr>) = state_within S rm"
  by (simp_all add: state_within_def)

lemma state_within_mono:
  "state_within S rm \<Longrightarrow> (\<And>n p. S n p \<Longrightarrow> T n p) \<Longrightarrow> state_within T rm"
  unfolding state_within_def by (auto elim!: hm_all_mono)

lemma state_within_clear_participant:
  assumes "state_within S rm"
  shows "state_within (\<lambda>n p. S n p \<and> \<not> (n = name \<and> p = pid)) (clear_participant_state name pid rm)"
  using assms
  unfolding state_within_def clear_participant_state_def
  by (auto intro: hm_ok_retain hm_all_retain)

lemma state_within_clear_all:
  assumes "state_within S rm"
  shows "state_within (\<lambda>n p. S n p \<and> \<not> (n = name \<and> p \<in> set pids))
    (fold (clear_participant_state name) pids rm)"
  using assms
proof (induction pids arbitrary: rm S)
  case (Cons pid pids)
  show ?case
    using Cons.IH[OF state_within_clear_participant[OF Cons.prems, of name pid]]
    by simp (erule state_within_mono, blast)
qed simp

lemma state_within_clear_room:
  assumes "state_within S rm"
  shows "state_within (\<lambda>n p. S n p \<and> n \<noteq> name) (clear_room_state name rm)"
  using assms
  unfolding state_within_def clear_room_state_def
  by (auto intro: hm_ok_retain hm_all_retain)

lemma state_within_keyframe:
  assumes "state_within S rm" and "S name pid"
  shows "state_within S (update_keyframe_cache name pid pkt rm)"
  using assms
  unfolding state_within_def update_keyframe_cache_def Let_def
  by (simp add: hm_ok_insert hm_ok_remove hm_all_insert hm_all_remove)

lemma state_within_owner:
  "state_within S rm \<Longrightarrow> S name pid \<Longrightarrow> state_within S (register_owner name pid pkt rm)"
  by (simp add: state_within_def register_owner_def Let_def hm_ok_insert hm_all_insert)

lemma state_within_receiver:
  "state_within S rm \<Longrightarrow> S name pid \<Longrightarrow> state_within S (update_receiver_state now name pid b l rm)"
  by (simp add: state_within_def update_receiver_state_def Let_def hm_ok_insert hm_all_insert)

lemma state_within_quality:
  "state_within S rm \<Longrightarrow> state_within S (snd (observe_quality now name pid q rm))"
  by (simp add: observe_quality_def Let_def split: option.split prod.split)

lemma state_within_pli:
  assumes "state_within S rm"
  shows "state_within S (snd (should_forward_pli name stream now rm))"
proof (cases "hm_get (stream_owner rm) (name, stream)")
  case (Some sender)
  then have "S name sender" using assms hm_allD by (fastforce simp: state_within_def)
  then show ?thesis
    using assms Some
    by (simp add: should_forward_pli_def Let_def state_within_def hm_ok_insert hm_all_insert)
qed (use assms in \<open>simp add: should_forward_pli_def\<close>)

section \<open>Rooms are well formed\<close>

definition room_ok :: "ParticipantId \<Rightarrow> Room \<Rightarrow> bool" where
  "room_ok n r \<longleftrightarrow> distinct (map p_id (participants r)) \<and>
     (\<forall>p \<in> set (participants r). 1 \<le> p_id p \<and> p_id p < n) \<and>
     hm_ok (qualities r) \<and> (\<forall>i. hm_get (qualities r) i \<noteq> None \<longleftrightarrow> room_contains r i) \<and>
     (\<forall>p q fp. p \<in> set (participants r) \<and> q \<in> set (participants r) \<and>
        p_fingerprint p = Some fp \<and> p_fingerprint q = Some fp \<longrightarrow> p_id p = p_id q)"

lemma room_ok_new: "room_ok n room_new"
  by (simp add: room_ok_def room_new_def room_contains_def)

lemma room_ok_mono: "room_ok n r \<Longrightarrow> n \<le> m \<Longrightarrow> room_ok m r"
  unfolding room_ok_def by (meson order_less_le_trans)

lemma room_contains_remove [simp]:
  "room_contains (room_remove pid r) i \<longleftrightarrow> room_contains r i \<and> i \<noteq> pid"
  by (auto simp: room_contains_def room_remove_def)

lemma room_ok_remove:
  assumes "room_ok n r"
  shows "room_ok n (room_remove pid (r\<lparr>qualities := hm_remove pid (qualities r)\<rparr>))"
  using assms
  by (auto simp: room_ok_def room_remove_def room_contains_def hm_ok_remove distinct_map
      inj_on_def simp del: map_of_eq_None_iff)

lemma remove_by_fingerprint_props:
  assumes "room_ok n r" and "remove_by_fingerprint fp r = (removed, r')"
  shows "room_ok n r'" and "room_contains r' i \<longleftrightarrow> room_contains r i \<and> i \<notin> set removed"
    and "\<forall>p \<in> set (participants r'). p_fingerprint p \<noteq> Some fp"
proof -
  have def: "removed = map p_id (filter (\<lambda>p. p_fingerprint p = Some fp) (participants r))"
    "participants r' = filter (\<lambda>p. p_fingerprint p \<noteq> Some fp) (participants r)"
    "qualities r' = fold hm_remove removed (qualities r)"
    using assms(2) by (auto simp: remove_by_fingerprint_def Let_def)
  have inj: "p = q" if "p \<in> set (participants r)" "q \<in> set (participants r)" "p_id p = p_id q" for p q
    using that assms(1) by (auto simp: room_ok_def distinct_map inj_on_def)
  show contains: "room_contains r' i \<longleftrightarrow> room_contains r i \<and> i \<notin> set removed" for i
    using inj by (auto simp: room_contains_def def)
  have "distinct (map p_id (participants r'))"
    using assms(1) by (auto simp: room_ok_def def distinct_map inj_on_def)
  then show "room_ok n r'"
    using assms(1) contains hm_ok_fold_remove hm_get_fold_remove[of removed "qualities r"]
    by (auto simp: room_ok_def def(2,3))
  show "\<forall>p \<in> set (participants r'). p_fingerprint p \<noteq> Some fp" by (simp add: def(2))
qed

lemma room_ok_join:
  assumes "room_ok n r" and "1 \<le> n" and "fp \<noteq> None \<longrightarrow> (\<forall>p \<in> set (participants r). p_fingerprint p \<noteq> fp)"
    and r'_def: "r' = (room_add n addr sender fp al r)\<lparr>qualities := hm_insert n pq_new (qualities r)\<rparr>"
  shows "room_ok (n + 1) r'" and "room_contains r' i \<longleftrightarrow> i = n \<or> room_contains r i"
proof -
  have ps: "participants r' = participants r @
    [\<lparr>p_id = n, p_addr = addr, p_sender = sender, p_fingerprint = fp, p_alias = al\<rparr>]"
    by (simp add: r'_def room_add_def)
  have qs: "qualities r' = hm_insert n pq_new (qualities r)" by (simp add: r'_def)
  show contains: "room_contains r' i \<longleftrightarrow> i = n \<or> room_contains r i" for i
    by (auto simp: room_contains_def ps)
  have "n \<notin> p_id ` set (participants r)" using assms(1) by (force simp: room_ok_def)
  then have "distinct (map p_id (participants r'))"
    using assms(1) by (simp add: room_ok_def ps)
  moreover have "\<forall>p \<in> set (participants r'). 1 \<le> p_id p \<and> p_id p < n + 1"
    using assms(1,2) by (auto simp: room_ok_def ps)
  moreover have "hm_ok (qualities r')" using assms(1) by (simp add: room_ok_def qs hm_ok_insert)
  moreover have "hm_get (qualities r') i \<noteq> None \<longleftrightarrow> room_contains r' i" for i
    using assms(1) contains[of i] by (simp add: room_ok_def qs)
  moreover have "p_id p = p_id q"
    if "p \<in> set (participants r')" "q \<in> set (participants r')"
      "p_fingerprint p = Some f" "p_fingerprint q = Some f" for p q f
  proof -
    have old: "p' \<in> set (participants r) \<Longrightarrow> q' \<in> set (participants r) \<Longrightarrow>
        p_fingerprint p' = Some f \<Longrightarrow> p_fingerprint q' = Some f \<Longrightarrow> p_id p' = p_id q'" for p' q'
      using assms(1) unfolding room_ok_def by blast
    have new: "x \<in> set (participants r) \<Longrightarrow> p_fingerprint x = Some f \<Longrightarrow> fp \<noteq> Some f" for x
      using assms(3) by auto
    have added: "x \<in> set (participants r') \<Longrightarrow> x \<notin> set (participants r) \<Longrightarrow>
        p_fingerprint x = fp \<and> p_id x = n" for x
      unfolding ps by auto
    show ?thesis
    proof (cases "p \<in> set (participants r)"; cases "q \<in> set (participants r)")
      assume "p \<in> set (participants r)" "q \<in> set (participants r)"
      then show ?thesis using that(3,4) by (rule old)
    next
      assume a: "p \<in> set (participants r)" "q \<notin> set (participants r)"
      then show ?thesis using added[OF that(2)] new[OF a(1)] that(3,4) by metis
    next
      assume a: "p \<notin> set (participants r)" "q \<in> set (participants r)"
      then show ?thesis using added[OF that(1)] new[OF a(2)] that(3,4) by metis
    next
      assume "p \<notin> set (participants r)" "q \<notin> set (participants r)"
      then show ?thesis using added that(1,2) by simp
    qed
  qed
  ultimately show "room_ok (n + 1) r'" unfolding room_ok_def by blast
qed

definition rooms_ok :: "RoomManager \<Rightarrow> bool" where
  "rooms_ok rm \<longleftrightarrow> hm_ok (rooms rm) \<and> 1 \<le> next_participant_id rm \<and>
     hm_all (\<lambda>_ r. room_ok (next_participant_id rm) r \<and> participants r \<noteq> []) (rooms rm) \<and>
     (\<forall>n m i. contains_participant rm n i \<and> contains_participant rm m i \<longrightarrow> n = m)"

definition room_inv :: "RoomManager \<Rightarrow> bool" where
  "room_inv rm \<longleftrightarrow> rooms_ok rm \<and> state_within (contains_participant rm) rm"

lemma contains_rooms: "rooms rm' = rooms rm \<Longrightarrow> contains_participant rm' = contains_participant rm"
  by (intro ext) (simp add: contains_participant_def)

lemma contains_insert_room:
  "rooms rm' = hm_insert name r (rooms rm) \<Longrightarrow>
   contains_participant rm' n i =
     (if n = name then room_contains r i else contains_participant rm n i)"
  by (simp add: contains_participant_def)

lemma contains_lt:
  "rooms_ok rm \<Longrightarrow> contains_participant rm n i \<Longrightarrow> 1 \<le> i \<and> i < next_participant_id rm"
  by (auto simp: rooms_ok_def contains_participant_def room_contains_def room_ok_def hm_all_def
      split: option.splits)

lemma fold_clear_rooms [simp]:
  "rooms (fold (clear_participant_state name) pids rm) = rooms rm"
  "next_participant_id (fold (clear_participant_state name) pids rm) = next_participant_id rm"
  "acl (fold (clear_participant_state name) pids rm) = acl rm"
  by (induction pids arbitrary: rm) (simp_all add: clear_participant_state_def)

lemma clear_rooms [simp]:
  "rooms (clear_participant_state name pid rm) = rooms rm"
  "next_participant_id (clear_participant_state name pid rm) = next_participant_id rm"
  "rooms (clear_room_state name rm) = rooms rm"
  "next_participant_id (clear_room_state name rm) = next_participant_id rm"
  by (simp_all add: clear_participant_state_def clear_room_state_def)

lemma rooms_ok_frame:
  "rooms rm' = rooms rm \<Longrightarrow> next_participant_id rm' = next_participant_id rm \<Longrightarrow> rooms_ok rm' = rooms_ok rm"
  by (simp add: rooms_ok_def contains_rooms[of rm' rm])

lemma rooms_ok_insert:
  assumes "rooms_ok rm" and "rooms rm' = hm_insert name r (rooms rm)"
    and "next_participant_id rm \<le> next_participant_id rm'"
    and "room_ok (next_participant_id rm') r" and "participants r \<noteq> []"
    and new: "\<And>i. room_contains r i \<Longrightarrow> contains_participant rm name i \<or> next_participant_id rm \<le> i"
  shows "rooms_ok rm'"
proof -
  have lt: "contains_participant rm n i \<Longrightarrow> i < next_participant_id rm" for n i
    using contains_lt[OF assms(1)] by blast
  have unique: "contains_participant rm n i \<Longrightarrow> contains_participant rm m i \<Longrightarrow> n = m" for n m i
    using assms(1) by (auto simp: rooms_ok_def)
  have "n = m" if "contains_participant rm' n i" "contains_participant rm' m i" for n m i
    using that new[of i] lt[of n i] lt[of m i] unique
    unfolding contains_insert_room[OF assms(2)]
    by (auto split: if_splits)
  moreover have "hm_all (\<lambda>_ r. room_ok (next_participant_id rm') r \<and> participants r \<noteq> []) (rooms rm')"
    using assms room_ok_mono
    by (auto simp: rooms_ok_def intro!: hm_all_insert elim!: hm_all_mono)
  ultimately show ?thesis
    using assms by (auto simp: rooms_ok_def hm_ok_insert)
qed

lemma join_form:
  assumes inv: "room_inv rm" and auth: "is_authorized rm name fp"
  obtains removed r evs where "snd (join name addr sender fp al rm) =
      (fold (clear_participant_state name) removed rm)
        \<lparr>next_participant_id := next_participant_id rm + 1, rooms := hm_insert name r (rooms rm),
         room_events := evs\<rparr>"
    and "\<And>i. room_contains r i \<longleftrightarrow>
      i = next_participant_id rm \<or> contains_participant rm name i \<and> i \<notin> set removed"
    and "room_ok (next_participant_id rm + 1) r" and "participants r \<noteq> []"
proof -
  define room where "room = (case hm_get (rooms rm) name of None \<Rightarrow> room_new | Some r \<Rightarrow> r)"
  obtain removed room1 where rem:
    "(case fp of None \<Rightarrow> ([], room) | Some f \<Rightarrow> remove_by_fingerprint f room) = (removed, room1)"
    by fastforce
  let ?N = "next_participant_id rm"
  define room2 where "room2 = (room_add ?N addr sender fp al room1)
    \<lparr>qualities := hm_insert ?N pq_new (qualities room1)\<rparr>"
  have ok: "room_ok ?N room"
    using inv room_ok_new
    by (auto simp: room_def room_inv_def rooms_ok_def dest: hm_allD split: option.split)
  have here: "room_contains room i \<longleftrightarrow> contains_participant rm name i" for i
    by (auto simp: room_def contains_participant_def room_new_def room_contains_def split: option.split)
  have ok1: "room_ok ?N room1 \<and> (\<forall>i. room_contains room1 i \<longleftrightarrow> room_contains room i \<and> i \<notin> set removed) \<and>
      (fp \<noteq> None \<longrightarrow> (\<forall>p \<in> set (participants room1). p_fingerprint p \<noteq> fp))"
    using rem ok remove_by_fingerprint_props[OF ok] by (auto split: option.splits)
  have N: "1 \<le> ?N" using inv by (simp add: room_inv_def rooms_ok_def)
  have ok2: "room_ok (?N + 1) room2" "room_contains room2 i \<longleftrightarrow> i = ?N \<or> room_contains room1 i" for i
    using ok1 N room_ok_join[of ?N room1 fp room2 addr sender al] by (simp_all add: room2_def)
  have add_qualities: "qualities (room_add n' a' s' f' l' r') = qualities r'" for n' a' s' f' l' r'
    by (simp add: room_add_def)
  show ?thesis
  proof (rule that[where removed = removed and r = room2])
    show "snd (join name addr sender fp al rm) =
      (fold (clear_participant_state name) removed rm)
        \<lparr>next_participant_id := ?N + 1, rooms := hm_insert name room2 (rooms rm),
         room_events := room_events (fold (clear_participant_state name) removed rm) @
          (if (case hm_get (rooms rm) name of None \<Rightarrow> True | Some r \<Rightarrow> participants r = [])
           then [LocalJoin name] else [])\<rparr>"
      using auth rem by (simp add: join_def Let_def room_def[symmetric] room2_def add_qualities)
    show "room_contains room2 i \<longleftrightarrow> i = ?N \<or> contains_participant rm name i \<and> i \<notin> set removed" for i
      using ok1 ok2(2)[of i] here by simp
  qed (use ok2 in \<open>simp_all add: room2_def room_add_def\<close>)
qed

lemma join_inv:
  assumes inv: "room_inv rm"
  shows "room_inv (snd (join name addr sender fp al rm))"
proof (cases "is_authorized rm name fp")
  case True
  let ?rm = "snd (join name addr sender fp al rm)"
  from join_form[OF inv True, of addr sender al] obtain removed r evs where
    eq: "?rm = (fold (clear_participant_state name) removed rm)
        \<lparr>next_participant_id := next_participant_id rm + 1, rooms := hm_insert name r (rooms rm),
         room_events := evs\<rparr>"
    and con: "\<And>i. room_contains r i \<longleftrightarrow>
      i = next_participant_id rm \<or> contains_participant rm name i \<and> i \<notin> set removed"
    and ok: "room_ok (next_participant_id rm + 1) r" "participants r \<noteq> []"
    by metis
  have rooms: "rooms ?rm = hm_insert name r (rooms rm)"
    "next_participant_id ?rm = next_participant_id rm + 1"
    by (simp_all add: eq)
  have "rooms_ok ?rm"
    using inv ok con rooms by (intro rooms_ok_insert[of rm ?rm name r]) (auto simp: room_inv_def)
  moreover have "state_within (contains_participant ?rm) ?rm"
    unfolding eq state_within_rooms
    by (rule state_within_mono[OF state_within_clear_all, of "contains_participant rm"])
      (use inv con in \<open>auto simp: contains_insert_room[of _ name r rm] room_inv_def\<close>)
  ultimately show ?thesis by (simp add: room_inv_def)
qed (use inv in \<open>simp add: join_def\<close>)

lemma leave_inv:
  assumes inv: "room_inv rm"
  shows "room_inv (snd (leave name pid rm))"
proof (cases "hm_get (rooms rm) name")
  case (Some room)
  define room1 where "room1 = room_remove pid (room\<lparr>qualities := hm_remove pid (qualities room)\<rparr>)"
  let ?rm1 = "clear_participant_state name pid (rm\<lparr>rooms := hm_insert name room1 (rooms rm)\<rparr>)"
  have ok: "room_ok (next_participant_id rm) room"
    using inv Some by (auto simp: room_inv_def rooms_ok_def dest: hm_allD)
  have here: "room_contains room i \<longleftrightarrow> contains_participant rm name i" for i
    using Some by (simp add: contains_participant_def)
  have c1: "room_contains room1 i \<longleftrightarrow> room_contains room i \<and> i \<noteq> pid" for i
    by (auto simp: room1_def room_contains_def room_remove_def)
  have st: "state_within (\<lambda>n p. contains_participant rm n p \<and> \<not> (n = name \<and> p = pid)) ?rm1"
    using inv by (intro state_within_clear_participant) (simp add: room_inv_def)
  show ?thesis
  proof (cases "participants room1 = []")
    case True
    let ?rm = "snd (leave name pid rm)"
    have rooms: "rooms ?rm = hm_remove name (hm_insert name room1 (rooms rm))"
      "next_participant_id ?rm = next_participant_id rm"
      using Some True by (simp_all add: leave_as_one Let_def room1_def)
    have con: "contains_participant ?rm n i \<longleftrightarrow> n \<noteq> name \<and> contains_participant rm n i" for n i
      by (simp add: contains_participant_def rooms)
    have "state_within (\<lambda>n p. (contains_participant rm n p \<and> \<not> (n = name \<and> p = pid)) \<and> n \<noteq> name) ?rm"
    proof -
      have eq: "?rm = (clear_room_state name (?rm1\<lparr>rooms := hm_remove name (rooms ?rm1)\<rparr>))
          \<lparr>room_events := room_events ?rm1 @ [LocalLeave name]\<rparr>"
        using Some True by (simp add: leave_as_one Let_def room1_def)
      show ?thesis
        unfolding eq state_within_rooms
        by (rule state_within_clear_room) (use st in \<open>simp only: state_within_rooms\<close>)
    qed
    then have "state_within (contains_participant ?rm) ?rm"
      by (rule state_within_mono) (simp add: con)
    moreover have "rooms_ok ?rm"
      using inv con rooms
      by (auto simp: rooms_ok_def room_inv_def hm_ok_insert hm_ok_remove hm_all_def) blast
    ultimately show ?thesis by (simp add: room_inv_def)
  next
    case False
    let ?rm = "snd (leave name pid rm)"
    have rm: "?rm = ?rm1" using Some False by (simp add: leave_as_one Let_def room1_def)
    have rooms: "rooms ?rm = hm_insert name room1 (rooms rm)"
      "next_participant_id ?rm = next_participant_id rm" by (simp_all add: rm)
    have "rooms_ok ?rm"
      using inv ok False rooms c1 here room_ok_remove[OF ok, of pid]
      by (intro rooms_ok_insert[of rm ?rm name room1]) (auto simp: room_inv_def room1_def)
    moreover have "state_within (contains_participant ?rm) ?rm"
      using st unfolding rm
      by (rule state_within_mono) (auto simp: contains_insert_room[of ?rm1 name room1 rm] c1 here)
    ultimately show ?thesis by (simp add: room_inv_def)
  qed
qed (use inv in \<open>simp add: leave_as_one\<close>)

lemma allow_inv: "room_inv rm \<Longrightarrow> room_inv (allow name fp rm)"
  by (simp add: allow_def room_inv_def rooms_ok_def contains_participant_def state_within_def
      split: option.splits cong: hm_all_def)

lemma keyframe_frame [simp]:
  "rooms (update_keyframe_cache name pid pkt rm) = rooms rm"
  "next_participant_id (update_keyframe_cache name pid pkt rm) = next_participant_id rm"
  by (simp_all add: update_keyframe_cache_def Let_def)

lemma owner_frame [simp]:
  "rooms (register_owner name pid pkt rm) = rooms rm"
  "next_participant_id (register_owner name pid pkt rm) = next_participant_id rm"
  by (simp_all add: register_owner_def Let_def)

lemma receiver_frame [simp]:
  "rooms (update_receiver_state now name pid b l rm) = rooms rm"
  "next_participant_id (update_receiver_state now name pid b l rm) = next_participant_id rm"
  by (simp_all add: update_receiver_state_def Let_def)

lemma pli_frame [simp]:
  "rooms (snd (should_forward_pli name stream now rm)) = rooms rm"
  "next_participant_id (snd (should_forward_pli name stream now rm)) = next_participant_id rm"
  by (simp_all add: should_forward_pli_def Let_def split: option.split)

lemma room_inv_frame:
  assumes "room_inv rm" and "rooms rm' = rooms rm" and "next_participant_id rm' = next_participant_id rm"
    and "state_within (contains_participant rm) rm'"
  shows "room_inv rm'"
  using assms by (simp add: room_inv_def rooms_ok_frame[of rm' rm] contains_rooms[of rm' rm])

lemma observe_quality_form:
  assumes "hm_get (rooms rm) name = Some r" and "hm_get (qualities r) pid = Some pq"
  shows "\<exists>pq' t. snd (observe_quality now name pid q rm) =
    rm\<lparr>rooms := hm_insert name (r\<lparr>qualities := hm_insert pid pq' (qualities r), room_tier := t\<rparr>) (rooms rm)\<rparr>"
proof -
  obtain ch pq' where pq': "pq_observe now q pq = (ch, pq')" by fastforce
  let ?qs = "hm_insert pid pq' (qualities r)"
  show ?thesis
  proof (cases "ch = None \<or> weakest_tier (map snd ?qs) = room_tier r")
    case True
    then show ?thesis
      using assms pq'
      by (intro exI[of _ pq'] exI[of _ "room_tier r"]) (auto simp: observe_quality_def Let_def)
  next
    case False
    then show ?thesis
      using assms pq'
      by (intro exI[of _ pq'] exI[of _ "weakest_tier (map snd ?qs)"])
        (auto simp: observe_quality_def Let_def)
  qed
qed

lemma observe_quality_rooms:
  assumes "rooms_ok rm"
  obtains "snd (observe_quality now name pid q rm) = rm"
  | room where "rooms (snd (observe_quality now name pid q rm)) = hm_insert name room (rooms rm)"
    "next_participant_id (snd (observe_quality now name pid q rm)) = next_participant_id rm"
    "room_ok (next_participant_id rm) room" "participants room \<noteq> []"
    "\<exists>r. hm_get (rooms rm) name = Some r \<and> participants room = participants r"
proof (cases "hm_get (rooms rm) name")
  case None
  then show ?thesis using that(1) by (simp add: observe_quality_def)
next
  case (Some r)
  have r: "room_ok (next_participant_id rm) r" "participants r \<noteq> []"
    using assms Some by (auto simp: rooms_ok_def dest: hm_allD)
  show ?thesis
  proof (cases "hm_get (qualities r) pid")
    case None
    then show ?thesis using that(1) Some by (simp add: observe_quality_def)
  next
    case q: (Some pq)
    obtain pq' t where form: "snd (observe_quality now name pid q rm) =
        rm\<lparr>rooms := hm_insert name (r\<lparr>qualities := hm_insert pid pq' (qualities r), room_tier := t\<rparr>) (rooms rm)\<rparr>"
      using observe_quality_form[OF Some q] by blast
    have "room_contains r pid" using r(1) q by (auto simp: room_ok_def)
    then have ok: "room_ok (next_participant_id rm)
        (r\<lparr>qualities := hm_insert pid pq' (qualities r), room_tier := t\<rparr>)"
      using r(1) by (auto simp: room_ok_def room_contains_def hm_ok_insert simp del: map_of_eq_None_iff)
    show ?thesis
      by (rule that(2)[of "r\<lparr>qualities := hm_insert pid pq' (qualities r), room_tier := t\<rparr>"])
        (use form ok r(2) Some in simp_all)
  qed
qed

lemma observe_quality_inv:
  assumes "room_inv rm"
  shows "room_inv (snd (observe_quality now name pid q rm)) \<and>
    contains_participant (snd (observe_quality now name pid q rm)) = contains_participant rm"
proof -
  have ok: "rooms_ok rm" using assms by (simp add: room_inv_def)
  show ?thesis
  proof (rule observe_quality_rooms[OF ok, of now name pid q])
    assume "snd (observe_quality now name pid q rm) = rm"
    then show ?thesis using assms by simp
  next
    fix room
    let ?rm = "snd (observe_quality now name pid q rm)"
    assume a: "rooms ?rm = hm_insert name room (rooms rm)"
      "next_participant_id ?rm = next_participant_id rm" "room_ok (next_participant_id rm) room"
      "participants room \<noteq> []" "\<exists>r. hm_get (rooms rm) name = Some r \<and> participants room = participants r"
    then have c: "room_contains room i \<longleftrightarrow> contains_participant rm name i" for i
      by (auto simp: contains_participant_def room_contains_def)
    have con: "contains_participant ?rm = contains_participant rm"
      by (intro ext) (simp add: contains_insert_room[OF a(1)] c)
    have "rooms_ok ?rm" by (rule rooms_ok_insert[OF ok a(1)]) (use a c in auto)
    moreover have "state_within (contains_participant ?rm) ?rm"
      unfolding con using assms by (intro state_within_quality) (simp add: room_inv_def)
    ultimately show ?thesis using con by (simp add: room_inv_def)
  qed
qed

text \<open>The state in which the packet's receivers are chosen.\<close>

definition packet_noted :: "string \<Rightarrow> ParticipantId \<Rightarrow> nat \<Rightarrow> MediaPacket \<Rightarrow> RoomManager \<Rightarrow> RoomManager" where
  "packet_noted name pid now pkt rm =
     (let rm = register_owner name pid pkt (update_keyframe_cache name pid pkt rm) in
      case quality_report pkt of None \<Rightarrow> rm
      | Some q \<Rightarrow> snd (observe_quality now name pid q
          (update_receiver_state now name pid (unat (bitrate_cap_kbps q)) (unat (loss_pct q)) rm)))"

lemma forward_member:
  assumes "contains_participant rm name pid"
  shows "\<exists>directive. forward_packet name pid now pkt rm =
    (Some (directive, map (deliver pid pkt)
       (filter (\<lambda>(other, _). route_to (packet_noted name pid now pkt rm) name pkt other)
         (others_with_id (packet_noted name pid now pkt rm) name pid))),
     packet_noted name pid now pkt rm)"
  using assms
  by (auto simp: forward_packet_def packet_noted_def Let_def split: option.split prod.split)

lemma packet_noted_inv:
  assumes "room_inv rm" and "contains_participant rm name pid"
  shows "room_inv (packet_noted name pid now pkt rm) \<and>
    contains_participant (packet_noted name pid now pkt rm) = contains_participant rm"
proof -
  let ?rm = "register_owner name pid pkt (update_keyframe_cache name pid pkt rm)"
  have st: "state_within (contains_participant rm) ?rm"
    using assms by (intro state_within_owner state_within_keyframe) (simp_all add: room_inv_def)
  then have rm: "room_inv ?rm" by (intro room_inv_frame[OF assms(1)]) simp_all
  have c: "contains_participant ?rm = contains_participant rm" by (rule contains_rooms) simp
  show ?thesis
  proof (cases "quality_report pkt")
    case None
    then show ?thesis using rm c by (simp add: packet_noted_def Let_def)
  next
    case (Some q)
    let ?rm2 = "update_receiver_state now name pid (unat (bitrate_cap_kbps q)) (unat (loss_pct q)) ?rm"
    have "state_within (contains_participant rm) ?rm2"
      using assms(2) st by (intro state_within_receiver)
    then have rm2: "room_inv ?rm2" by (intro room_inv_frame[OF assms(1)]) simp_all
    have c2: "contains_participant ?rm2 = contains_participant rm" by (rule contains_rooms) simp
    show ?thesis
      using Some observe_quality_inv[OF rm2, of now name pid q] c2
      by (simp add: packet_noted_def Let_def)
  qed
qed

datatype room_op =
    Join string string ParticipantSender "string option" "string option"
  | Leave string ParticipantId
  | AllowOp string string
  | Media string ParticipantId nat MediaPacket
  | Pli string u8 nat

fun room_step :: "room_op \<Rightarrow> RoomManager \<Rightarrow> RoomManager" where
  "room_step (Join name addr sender fp al) rm = snd (join name addr sender fp al rm)"
| "room_step (Leave name pid) rm = snd (leave name pid rm)"
| "room_step (AllowOp name fp) rm = allow name fp rm"
| "room_step (Media name pid now pkt) rm = snd (forward_packet name pid now pkt rm)"
| "room_step (Pli name stream now) rm = snd (should_forward_pli name stream now rm)"

lemma room_step_inv: "room_inv rm \<Longrightarrow> room_inv (room_step e rm)"
proof (cases e)
  case (Media name pid now pkt)
  assume inv: "room_inv rm"
  show ?thesis
  proof (cases "contains_participant rm name pid")
    case True
    then show ?thesis
      using packet_noted_inv[OF inv True] forward_member[OF True, of now pkt] Media by auto
  next
    case False
    then show ?thesis using leave_inv[OF inv] Media by (simp add: forward_packet_def)
  qed
next
  case (Pli name stream now)
  assume inv: "room_inv rm"
  then show ?thesis
    unfolding Pli room_step.simps
    by (intro room_inv_frame[OF inv]) (simp_all add: state_within_pli room_inv_def)
qed (auto simp: join_inv leave_inv allow_inv)

lemma manager_new_inv: "room_inv manager_new" "room_inv manager_with_acl"
  by (auto simp: room_inv_def rooms_ok_def state_within_def manager_new_def manager_with_acl_def
      contains_participant_def)

lemma room_run_inv: "room_inv rm \<Longrightarrow> room_inv (fold room_step es rm)"
  by (induction es arbitrary: rm) (simp_all add: room_step_inv)

text \<open>
  C33 (rooms are well formed and leave nothing behind).  After any history of joins, leaves,
  grants, packets and picture-loss requests, each handled as a whole before the next, with or
  without access control: no room is empty,
  participant ids are distinct over all rooms, no room has two participants with one fingerprint,
  exactly the participants of a room have a quality record there, and every cached or partial
  keyframe, every suppression entry, every stream owner and every receiver state belongs to a
  participant who is in that room now.
\<close>

theorem room_invariant:
  "room_inv (fold room_step es manager_new) \<and> room_inv (fold room_step es manager_with_acl)"
  by (simp add: room_run_inv manager_new_inv)

section \<open>Who receives a packet\<close>

fun receiver :: "Delivery \<Rightarrow> ParticipantId" where
  "receiver (ToQuic p t q) = p"
| "receiver (ToWs p c b) = p"

text \<open>
  What a delivery to a sender is: over its QUIC connection the packet, on the originator's own video
  stream, into its WebSocket channel the payload; never one by the handle of the other.
\<close>

fun carries :: "ParticipantId \<Rightarrow> MediaPacket \<Rightarrow> ParticipantSender \<Rightarrow> Delivery \<Rightarrow> bool" where
  "carries pid pkt (Quic t) (ToQuic p t' q) \<longleftrightarrow>
     t' = t \<and> payload q = payload pkt \<and> quality_report q = quality_report pkt \<and>
     header q = (if media_type (header pkt) = Video
                 then (header pkt)\<lparr>stream_id := outbound_video_stream_id pid\<rparr> else header pkt)"
| "carries pid pkt (WebSocket ch) (ToWs p ch' b) \<longleftrightarrow> ch' = ch \<and> b = payload pkt"
| "carries pid pkt (Quic t) (ToWs p ch' b) \<longleftrightarrow> False"
| "carries pid pkt (WebSocket ch) (ToQuic p t' q) \<longleftrightarrow> False"

text \<open>Who sits in a room, and with which sender.\<close>

definition seated :: "RoomManager \<Rightarrow> string \<Rightarrow> ParticipantId \<Rightarrow> ParticipantSender \<Rightarrow> bool" where
  "seated rm name i snder \<longleftrightarrow>
     (\<exists>r. hm_get (rooms rm) name = Some r \<and> (\<exists>p \<in> set (participants r). p_id p = i \<and> p_sender p = snder))"

lemma seated_others: "(i, snder) \<in> set (others_with_id rm name pid) \<Longrightarrow> seated rm name i snder"
  by (cases "hm_get (rooms rm) name") (auto simp: others_with_id_def room_others_def seated_def)

lemma seated_observe_quality: "seated (snd (observe_quality now n pid q rm)) = seated rm"
  by (intro ext) (auto simp: observe_quality_def seated_def Let_def split: option.splits prod.splits)

lemma seated_frame: "rooms rm' = rooms rm \<Longrightarrow> seated rm' = seated rm"
  by (intro ext) (simp add: seated_def)

lemma seated_noted: "seated (packet_noted name pid now pkt rm) = seated rm"
proof -
  let ?rm = "register_owner name pid pkt (update_keyframe_cache name pid pkt rm)"
  have "seated ?rm = seated rm" by (rule seated_frame) simp
  moreover have "seated (update_receiver_state now name pid b l ?rm) = seated ?rm" for b l
    by (rule seated_frame) simp
  ultimately show ?thesis
    by (simp add: packet_noted_def Let_def seated_observe_quality split: option.split)
qed

lemma receiver_deliver [simp]: "receiver (deliver pid pkt o') = fst o'"
  by (simp add: deliver_def split: prod.split ParticipantSender.split)

lemma carries_deliver: "carries pid pkt (snd o') (deliver pid pkt o')"
  by (auto simp: deliver_def with_outbound_video_stream_id_def split: prod.split ParticipantSender.split)

lemma others_with_id_props:
  assumes "room_inv rm"
  shows "distinct (map fst (others_with_id rm name pid))"
    and "fst ` set (others_with_id rm name pid) = {i. contains_participant rm name i \<and> i \<noteq> pid}"
proof -
  have "fst ` set (room_others pid r) = {i. room_contains r i \<and> i \<noteq> pid}" for r
    by (auto simp: room_others_def room_contains_def image_def)
  then show "fst ` set (others_with_id rm name pid) = {i. contains_participant rm name i \<and> i \<noteq> pid}"
    by (cases "hm_get (rooms rm) name") (simp_all add: others_with_id_def contains_participant_def)
  have "distinct (map p_id (participants r))" if "hm_get (rooms rm) name = Some r" for r
    using assms that by (auto simp: room_inv_def rooms_ok_def room_ok_def dest: hm_allD)
  then show "distinct (map fst (others_with_id rm name pid))"
    by (auto simp: others_with_id_def room_others_def comp_def distinct_map inj_on_def
        split: option.split)
qed

lemma distinct_map_filter_fst:
  "distinct (map fst xs) \<Longrightarrow> distinct (map fst (filter (\<lambda>(a, _). P a) xs))"
  by (induction xs) (auto simp: image_iff)

text \<open>
  C3 (who receives a packet).  In every well-formed state a packet of a participant goes to
  exactly the other participants of the same room, to each once and never back: an audio packet
  to all of them, a video packet to those whose selected layer is its stream or, for
  single-layer H.264, on stream 0 or 1.  Each gets it through the sender it sits in the room with: a
  QUIC peer, over its own connection, the packet unchanged but for the video stream number, which
  is the originator's; a WebSocket peer, into its own channel, the payload.
\<close>

theorem forwarding_exact:
  assumes "room_inv rm" and "contains_participant rm name pid"
    and "forward_packet name pid now pkt rm = (Some (directive, out), rm')"
  shows "distinct (map receiver out) \<and>
    receiver ` set out = {other. contains_participant rm name other \<and> other \<noteq> pid \<and>
      (media_type (header pkt) = Video \<longrightarrow>
        video_route_reason pkt (layer_of rm' name other) \<noteq> None)} \<and>
    (\<forall>d \<in> set out. \<exists>snder. seated rm name (receiver d) snder \<and> carries pid pkt snder d)"
proof -
  let ?rm = "packet_noted name pid now pkt rm"
  have rm': "rm' = ?rm" and out: "out = map (deliver pid pkt)
      (filter (\<lambda>(other, _). route_to ?rm name pkt other) (others_with_id ?rm name pid))"
    using assms(3) forward_member[OF assms(2), of now pkt] by auto
  note inv = packet_noted_inv[OF assms(1,2), of now pkt]
  have "map receiver out =
      map fst (filter (\<lambda>(other, _). route_to ?rm name pkt other) (others_with_id ?rm name pid))"
    by (simp add: out comp_def)
  then have "distinct (map receiver out)"
    using distinct_map_filter_fst others_with_id_props(1) inv by metis
  moreover have "receiver ` set out =
      {other \<in> fst ` set (others_with_id ?rm name pid). route_to ?rm name pkt other}"
    by (force simp: out image_iff)
  then have "receiver ` set out = {other. contains_participant rm name other \<and> other \<noteq> pid \<and>
      route_to ?rm name pkt other}"
    using others_with_id_props(2)[of ?rm name pid] inv by auto
  moreover have "\<forall>d \<in> set out. \<exists>snder. seated rm name (receiver d) snder \<and> carries pid pkt snder d"
  proof
    fix d assume "d \<in> set out"
    then obtain o' where o': "o' \<in> set (others_with_id ?rm name pid)" "d = deliver pid pkt o'"
      by (auto simp: out)
    then have "seated rm name (fst o') (snd o')"
      using seated_others[of "fst o'" "snd o'" ?rm name pid] by (simp add: seated_noted)
    then show "\<exists>snder. seated rm name (receiver d) snder \<and> carries pid pkt snder d"
      using carries_deliver[of pid pkt o'] o'(2) by auto
  qed
  ultimately show ?thesis by (auto simp: route_to_def rm')
qed

section \<open>Layer selection never leaves the lowest layer\<close>

definition lowest_layers :: "RoomManager \<Rightarrow> bool" where
  "lowest_layers rm \<longleftrightarrow> hm_ok (receiver_states rm) \<and>
     hm_all (\<lambda>_ s. selected_layer s = 0 \<and> candidate_layer s = 0) (receiver_states rm)"

lemma lowest_layers_frame:
  "receiver_states rm' = receiver_states rm \<Longrightarrow> lowest_layers rm' = lowest_layers rm"
  by (simp add: lowest_layers_def)

lemma suggest_layer_low: "bwe < 256 \<Longrightarrow> suggest_layer bwe loss = 0"
  by (simp add: suggest_layer_def)

lemma lowest_layers_report:
  assumes "lowest_layers rm" and "bwe < 256"
  shows "lowest_layers (update_receiver_state now name pid bwe loss rm)"
proof -
  let ?s = "case hm_get (receiver_states rm) (name, pid) of Some s \<Rightarrow> s | None \<Rightarrow> receiver_new now"
  have "selected_layer ?s = 0"
    using assms(1) by (auto simp: lowest_layers_def receiver_new_def dest: hm_allD split: option.split)
  then have "selected_layer (receiver_update bwe loss now ?s) = 0 \<and>
      candidate_layer (receiver_update bwe loss now ?s) = 0"
    using suggest_layer_low[OF assms(2)] by (simp add: receiver_update_def Let_def)
  then show ?thesis
    using assms(1)
    by (auto simp: lowest_layers_def update_receiver_state_def Let_def hm_ok_insert
        simp del: map_of_eq_None_iff intro!: hm_all_insert)
qed

lemma lowest_layers_retain:
  "lowest_layers rm \<Longrightarrow> receiver_states rm' = hm_retain P (receiver_states rm) \<Longrightarrow> lowest_layers rm'"
  unfolding lowest_layers_def
  by (auto simp: hm_ok_retain elim!: hm_all_mono[OF hm_all_retain])

lemma lowest_layers_clear:
  "lowest_layers rm \<Longrightarrow> lowest_layers (clear_participant_state name pid rm)"
  "lowest_layers rm \<Longrightarrow> lowest_layers (clear_room_state name rm)"
  by (auto intro!: lowest_layers_retain[of rm] simp: clear_participant_state_def clear_room_state_def)

lemma lowest_layers_fold:
  "lowest_layers rm \<Longrightarrow> lowest_layers (fold (clear_participant_state name) pids rm)"
  by (induction pids arbitrary: rm) (simp_all add: lowest_layers_clear)

lemma receiver_states_frame [simp]:
  "receiver_states (update_keyframe_cache name pid pkt rm) = receiver_states rm"
  "receiver_states (register_owner name pid pkt rm) = receiver_states rm"
  "receiver_states (snd (observe_quality now name pid q rm)) = receiver_states rm"
  "receiver_states (snd (should_forward_pli name stream now rm)) = receiver_states rm"
  "receiver_states (allow name fp rm) = receiver_states rm"
  by (simp_all add: update_keyframe_cache_def register_owner_def observe_quality_def
      should_forward_pli_def allow_def Let_def split: option.split prod.split)

lemma lowest_layers_join: "lowest_layers rm \<Longrightarrow> lowest_layers (snd (join name addr sender fp al rm))"
  using lowest_layers_fold[of rm name]
  by (simp add: join_def Let_def lowest_layers_def split: prod.split)

lemma lowest_layers_leave:
  assumes "lowest_layers rm"
  shows "lowest_layers (snd (leave name pid rm))"
proof -
  have clear: "lowest_layers (clear_participant_state name pid (rm\<lparr>rooms := x\<rparr>))" for x
    using assms lowest_layers_frame[of "rm\<lparr>rooms := x\<rparr>" rm] lowest_layers_clear(1) by simp
  have "lowest_layers (clear_room_state name ((clear_participant_state name pid (rm\<lparr>rooms := x\<rparr>))\<lparr>rooms := y\<rparr>))" for x y
    using clear[of x] lowest_layers_clear(2)
    by (simp add: lowest_layers_frame[of "clear_participant_state name pid (rm\<lparr>rooms := x\<rparr>)\<lparr>rooms := y\<rparr>"
        "clear_participant_state name pid (rm\<lparr>rooms := x\<rparr>)"])
  then show ?thesis
    using assms clear
    by (auto simp: leave_as_one Let_def lowest_layers_frame[of "_\<lparr>room_events := _\<rparr>"] split: option.split)
qed

lemma lowest_layers_noted:
  assumes "lowest_layers rm"
  shows "lowest_layers (packet_noted name pid now pkt rm)"
proof (cases "quality_report pkt")
  case None
  then show ?thesis
    using assms by (simp add: packet_noted_def Let_def lowest_layers_def)
next
  case (Some q)
  let ?rm = "register_owner name pid pkt (update_keyframe_cache name pid pkt rm)"
  have "lowest_layers ?rm" using assms by (simp add: lowest_layers_def)
  moreover have "unat (bitrate_cap_kbps q) < 256" using unsigned_less[of "bitrate_cap_kbps q"] by simp
  ultimately have "lowest_layers (update_receiver_state now name pid (unat (bitrate_cap_kbps q)) (unat (loss_pct q)) ?rm)"
    by (rule lowest_layers_report)
  then show ?thesis
    using Some by (simp add: packet_noted_def Let_def lowest_layers_def)
qed

lemma lowest_layers_step: "lowest_layers rm \<Longrightarrow> lowest_layers (room_step e rm)"
proof (cases e)
  case (Media name pid now pkt)
  assume "lowest_layers rm"
  then show ?thesis
    using forward_member[of rm name pid now pkt] lowest_layers_noted lowest_layers_leave Media
    by (cases "contains_participant rm name pid") (auto simp: forward_packet_def)
next
  case (AllowOp name fp)
  assume "lowest_layers rm"
  then show ?thesis unfolding AllowOp room_step.simps by (simp add: lowest_layers_def)
next
  case (Pli name stream now)
  assume "lowest_layers rm"
  then show ?thesis unfolding Pli room_step.simps by (simp add: lowest_layers_def)
qed (simp_all add: lowest_layers_join lowest_layers_leave)

lemma lowest_layers_run: "lowest_layers rm \<Longrightarrow> lowest_layers (fold room_step es rm)"
  by (induction es arbitrary: rm) (simp_all add: lowest_layers_step)

lemma layer_of_low: "lowest_layers rm \<Longrightarrow> layer_of rm name pid = 0"
  by (auto simp: layer_of_def lowest_layers_def dest: hm_allD split: option.split)

text \<open>
  Also (only the lowest layer is ever forwarded).  A quality report carries its bitrate in one
  byte, so the bandwidth the relay records never reaches the 750 kbps of the middle layer:
  whatever happened before, a video packet that is not single-layer H.264 and not on stream 0
  is delivered to nobody.
\<close>

theorem higher_layers_are_dropped:
  assumes "rm = fold room_step es manager_new \<or> rm = fold room_step es manager_with_acl"
    and "forward_packet name pid now pkt rm = (Some (directive, out), rm')"
    and "media_type (header pkt) = Video" and "stream_id (header pkt) \<noteq> 0"
    and "codec_id (header pkt) \<noteq> H264Baseline"
  shows "out = []"
proof -
  have "lowest_layers manager_new" "lowest_layers manager_with_acl"
    by (simp_all add: lowest_layers_def manager_new_def manager_with_acl_def)
  then have "lowest_layers rm" using assms(1) lowest_layers_run by blast
  then have low: "layer_of (packet_noted name pid now pkt rm) name other = 0" for other
    using lowest_layers_noted layer_of_low by blast
  have "contains_participant rm name pid"
    using assms(2) by (auto simp: forward_packet_def split: if_splits)
  from forward_member[OF this, of now pkt] assms(2)
  have "out = map (deliver pid pkt) (filter
      (\<lambda>(other, _). route_to (packet_noted name pid now pkt rm) name pkt other)
      (others_with_id (packet_noted name pid now pkt rm) name pid))"
    by auto
  then show ?thesis
    using assms(3-5) by (simp add: route_to_def low video_route_reason_def split_beta)
qed

section \<open>Picture-loss indications are spaced\<close>

fun pli_log :: "room_op list \<Rightarrow> RoomManager \<Rightarrow> (stream_key \<times> nat) list" where
  "pli_log [] rm = []"
| "pli_log (e # es) rm =
     (case e of
        Pli name stream now \<Rightarrow>
          (case fst (should_forward_pli name stream now rm) of
             None \<Rightarrow> [] | Some sender \<Rightarrow> [((name, sender, stream), now)])
      | _ \<Rightarrow> []) @ pli_log es (room_step e rm)"

lemma pli_get_clear:
  assumes "hm_ok (pli_state rm)"
  shows "hm_get (pli_state (clear_participant_state name pid rm)) (n, p, s) =
      (if n = name \<and> p = pid then None else hm_get (pli_state rm) (n, p, s))"
    and "hm_get (pli_state (clear_room_state name rm)) (n, p, s) =
      (if n = name then None else hm_get (pli_state rm) (n, p, s))"
    and "hm_ok (pli_state (clear_participant_state name pid rm))"
  using assms
  by (simp_all add: clear_participant_state_def clear_room_state_def hm_get_retain hm_ok_retain
      split: option.split)

lemma pli_get_clear_all:
  "hm_ok (pli_state rm) \<Longrightarrow>
   hm_get (pli_state (fold (clear_participant_state name) pids rm)) (n, p, s) =
     (if n = name \<and> p \<in> set pids then None else hm_get (pli_state rm) (n, p, s))"
  by (induction pids arbitrary: rm) (auto simp: pli_get_clear)

lemma pli_frames [simp]:
  "pli_state (update_keyframe_cache name pid pkt rm) = pli_state rm"
  "pli_state (register_owner name pid pkt rm) = pli_state rm"
  "pli_state (update_receiver_state now name pid b l rm) = pli_state rm"
  "pli_state (snd (observe_quality now name pid q rm)) = pli_state rm"
  "pli_state (allow name fp rm) = pli_state rm"
  by (simp_all add: update_keyframe_cache_def register_owner_def update_receiver_state_def
      observe_quality_def allow_def Let_def split: option.split prod.split)

text \<open>
  A participant that is still there after a step was there before, or just got a new id; and a
  step that is no picture-loss request keeps the suppression times of those who stay.
\<close>

lemma join_keeps:
  assumes "room_inv rm" and "contains_participant (snd (join name addr sender fp al rm)) n p"
    and "p < next_participant_id rm"
  shows "contains_participant rm n p \<and>
    hm_get (pli_state (snd (join name addr sender fp al rm))) (n, p, s) = hm_get (pli_state rm) (n, p, s)"
proof (cases "is_authorized rm name fp")
  case True
  let ?rm = "snd (join name addr sender fp al rm)"
  from join_form[OF assms(1) True, of addr sender al] obtain removed r evs where
    eq: "?rm = (fold (clear_participant_state name) removed rm)
        \<lparr>next_participant_id := next_participant_id rm + 1, rooms := hm_insert name r (rooms rm),
         room_events := evs\<rparr>"
    and con: "\<And>i. room_contains r i \<longleftrightarrow>
      i = next_participant_id rm \<or> contains_participant rm name i \<and> i \<notin> set removed"
    by metis
  have "hm_ok (pli_state rm)" using assms(1) by (simp add: room_inv_def state_within_def)
  then show ?thesis
    using assms(2,3) con[of p] contains_insert_room[of ?rm name r rm n p]
    by (auto simp: eq pli_get_clear_all split: if_splits)
qed (use assms in \<open>simp add: join_def\<close>)

lemma leave_keeps:
  assumes "room_inv rm" and "contains_participant (snd (leave name pid rm)) n p"
  shows "contains_participant rm n p \<and>
    hm_get (pli_state (snd (leave name pid rm))) (n, p, s) = hm_get (pli_state rm) (n, p, s)"
proof (cases "hm_get (rooms rm) name")
  case (Some room)
  have ok: "hm_ok (pli_state rm)" using assms(1) by (simp add: room_inv_def state_within_def)
  define room1 where "room1 = room_remove pid (room\<lparr>qualities := hm_remove pid (qualities room)\<rparr>)"
  define rm1 where "rm1 = clear_participant_state name pid (rm\<lparr>rooms := hm_insert name room1 (rooms rm)\<rparr>)"
  have c1: "room_contains room1 i \<longleftrightarrow> contains_participant rm name i \<and> i \<noteq> pid" for i
    using Some by (auto simp: room1_def room_contains_def room_remove_def contains_participant_def)
  have p1: "hm_get (pli_state rm1) (n, p, s) =
      (if n = name \<and> p = pid then None else hm_get (pli_state rm) (n, p, s))"
    using pli_get_clear(1)[of "rm\<lparr>rooms := hm_insert name room1 (rooms rm)\<rparr>" name pid n p s] ok
    by (simp add: rm1_def)
  have ok1: "hm_ok (pli_state rm1)"
    using pli_get_clear(3)[of "rm\<lparr>rooms := hm_insert name room1 (rooms rm)\<rparr>" name pid] ok
    by (simp add: rm1_def)
  show ?thesis
  proof (cases "participants room1 = []")
    case True
    have eq: "snd (leave name pid rm) = (clear_room_state name (rm1\<lparr>rooms := hm_remove name (rooms rm1)\<rparr>))
        \<lparr>room_events := room_events rm1 @ [LocalLeave name]\<rparr>"
      using Some True by (simp add: leave_as_one Let_def room1_def rm1_def)
    have "n \<noteq> name \<and> contains_participant rm n p"
      using assms(2) by (simp add: eq contains_participant_def rm1_def split: if_splits)
    then show ?thesis
      using p1 pli_get_clear(2)[of "rm1\<lparr>rooms := hm_remove name (rooms rm1)\<rparr>" name n p s] ok1
      by (simp add: eq)
  next
    case False
    have eq: "snd (leave name pid rm) = rm1" using Some False by (simp add: leave_as_one Let_def room1_def rm1_def)
    have "rooms rm1 = hm_insert name room1 (rooms rm)" by (simp add: rm1_def)
    from contains_insert_room[OF this, of n p] show ?thesis
      using assms(2) p1 by (auto simp: eq c1 split: if_splits)
  qed
qed (use assms in \<open>simp add: leave_as_one\<close>)

lemma media_keeps:
  assumes "room_inv rm" and "contains_participant (snd (forward_packet name pid now pkt rm)) n p"
  shows "contains_participant rm n p \<and>
    hm_get (pli_state (snd (forward_packet name pid now pkt rm))) (n, p, s) = hm_get (pli_state rm) (n, p, s)"
proof (cases "contains_participant rm name pid")
  case True
  have "pli_state (packet_noted name pid now pkt rm) = pli_state rm"
    by (simp add: packet_noted_def Let_def split: option.split)
  then show ?thesis
    using forward_member[OF True, of now pkt] packet_noted_inv[OF assms(1) True, of now pkt] assms(2)
    by auto
next
  case False
  then show ?thesis using leave_keeps[OF assms(1)] assms(2) by (simp add: forward_packet_def)
qed

text \<open>The key was forwarded at \<open>t\<close> or later, if its sender is still there.\<close>

definition forwarded_since :: "stream_key \<Rightarrow> nat \<Rightarrow> RoomManager \<Rightarrow> bool" where
  "forwarded_since k t rm \<longleftrightarrow> (case k of (n, p, s) \<Rightarrow> p < next_participant_id rm \<and>
     (contains_participant rm n p \<longrightarrow> (\<exists>u \<ge> t. hm_get (pli_state rm) (n, p, s) = Some u)))"

lemma next_id_mono: "next_participant_id rm \<le> next_participant_id (room_step e rm)"
proof (cases e)
  case (Media name pid now pkt)
  then show ?thesis
    by (auto simp: forward_packet_def leave_as_one observe_quality_def Let_def
        split: option.split prod.split)
qed (auto simp: join_def leave_as_one allow_def Let_def split: option.split prod.split)

lemma should_forward_cases:
  assumes "room_inv rm"
  obtains "should_forward_pli name stream now rm = (None, rm)"
  | sender where "contains_participant rm name sender"
    "should_forward_pli name stream now rm =
      (Some sender, rm\<lparr>pli_state := hm_insert (name, sender, stream) now (pli_state rm)\<rparr>)"
    "\<And>u. hm_get (pli_state rm) (name, sender, stream) = Some u \<Longrightarrow> u + PLI_SUPPRESS_MS \<le> now"
proof (cases "hm_get (stream_owner rm) (name, stream)")
  case None
  then show ?thesis using that(1) by (simp add: should_forward_pli_def)
next
  case (Some sender)
  have here: "contains_participant rm name sender"
    using assms Some hm_allD by (fastforce simp: room_inv_def state_within_def)
  show ?thesis
  proof (cases "\<exists>u. hm_get (pli_state rm) (name, sender, stream) = Some u \<and> now - u < PLI_SUPPRESS_MS")
    case True
    then show ?thesis using that(1) Some by (auto simp: should_forward_pli_def Let_def)
  next
    case False
    then have "u + PLI_SUPPRESS_MS \<le> now"
      if "hm_get (pli_state rm) (name, sender, stream) = Some u" for u
      using that by force
    then show ?thesis
      using that(2)[OF here] Some False
      by (auto simp: should_forward_pli_def Let_def split: option.split)
  qed
qed

lemma forwarded_since_step:
  assumes inv: "room_inv rm" and since: "forwarded_since k t rm"
  shows "forwarded_since k t (room_step e rm)"
proof -
  obtain n p s where k: "k = (n, p, s)" by (cases k) auto
  have lt: "p < next_participant_id rm" using since by (simp add: k forwarded_since_def)
  have old: "contains_participant rm n p \<Longrightarrow> \<exists>u \<ge> t. hm_get (pli_state rm) (n, p, s) = Some u"
    using since by (simp add: k forwarded_since_def)
  have "\<exists>u \<ge> t. hm_get (pli_state (room_step e rm)) (n, p, s) = Some u"
    if con: "contains_participant (room_step e rm) n p"
  proof (cases e)
    case (Pli name stream now)
    have here: "contains_participant rm n p"
      using con contains_rooms[OF pli_frame(1), of name stream now rm] Pli by simp
    from old[OF here] obtain u where u: "u \<ge> t" "hm_get (pli_state rm) (n, p, s) = Some u" by blast
    show ?thesis
    proof (rule should_forward_cases[OF inv, of name stream now], goal_cases)
      case 1
      then show ?case using Pli u by auto
    next
      case (2 sender)
      show ?case
      proof (cases "(n, p, s) = (name, sender, stream)")
        case True
        then have "t \<le> now" using 2(3)[of u] u by simp
        then show ?thesis using True 2(2) Pli by auto
      next
        case False
        then show ?thesis using 2(2) Pli u by auto
      qed
    qed
  next
    case (Join name addr sender fp al)
    then show ?thesis using join_keeps[OF inv _ lt, of name addr sender fp al n s] con old by auto
  next
    case (Leave name pid)
    then show ?thesis using leave_keeps[OF inv, of name pid n p s] con old by auto
  next
    case (Media name pid now pkt)
    then show ?thesis using media_keeps[OF inv, of name pid now pkt n p s] con old by auto
  next
    case (AllowOp name fp)
    have "rooms (allow name fp rm) = rooms rm" by (simp add: allow_def Let_def split: option.split)
    then show ?thesis using con old contains_rooms[of "allow name fp rm" rm] AllowOp by simp
  qed
  then show ?thesis using lt next_id_mono[of rm e] by (auto simp: forwarded_since_def k)
qed

lemma pli_log_after:
  assumes "room_inv rm" and "forwarded_since k t rm" and "(k, t') \<in> set (pli_log es rm)"
  shows "t + PLI_SUPPRESS_MS \<le> t'"
  using assms
proof (induction es arbitrary: rm)
  case (Cons e es)
  show ?case
  proof (cases "(k, t') \<in> set (pli_log es (room_step e rm))")
    case True
    then show ?thesis
      using Cons.IH[OF room_step_inv[OF Cons.prems(1)] forwarded_since_step[OF Cons.prems(1,2)]] by blast
  next
    case False
    then obtain name stream sender where e: "e = Pli name stream t'" "k = (name, sender, stream)"
      "fst (should_forward_pli name stream t' rm) = Some sender"
      using Cons.prems(3) by (auto split: room_op.splits option.splits)
    show ?thesis
      using e Cons.prems(2)
      by (rule_tac should_forward_cases[OF Cons.prems(1), of name stream t'])
        (force simp: forwarded_since_def)+
  qed
qed simp

lemma forwarded_now:
  assumes "room_inv rm" and "fst (should_forward_pli name stream now rm) = Some sender"
  shows "forwarded_since (name, sender, stream) now (snd (should_forward_pli name stream now rm))"
  using assms(2)
  by (rule_tac should_forward_cases[OF assms(1), of name stream now])
    (use contains_lt assms(1) in \<open>auto simp: forwarded_since_def room_inv_def\<close>)

lemma pli_log_spaced:
  assumes "room_inv rm"
  shows "sorted_wrt (\<lambda>(k, t) (k', t'). k = k' \<longrightarrow> t + PLI_SUPPRESS_MS \<le> t') (pli_log es rm)"
  using assms
proof (induction es arbitrary: rm)
  case (Cons e es)
  have rest: "sorted_wrt (\<lambda>(k, t) (k', t'). k = k' \<longrightarrow> t + PLI_SUPPRESS_MS \<le> t') (pli_log es (room_step e rm))"
    by (rule Cons.IH) (rule room_step_inv[OF Cons.prems])
  show ?case
  proof (cases "\<exists>name stream now sender. e = Pli name stream now \<and>
      fst (should_forward_pli name stream now rm) = Some sender")
    case True
    then obtain name stream now sender where e: "e = Pli name stream now"
      "fst (should_forward_pli name stream now rm) = Some sender" by blast
    have "now + PLI_SUPPRESS_MS \<le> t'"
      if "((name, sender, stream), t') \<in> set (pli_log es (room_step e rm))" for t'
      using pli_log_after[OF room_step_inv[OF Cons.prems] _ that] forwarded_now[OF Cons.prems e(2)]
      by (simp add: e(1))
    then show ?thesis using rest e by auto
  next
    case False
    then show ?thesis using rest by (auto split: room_op.split option.split)
  qed
qed simp

lemma spaced_per_key:
  "sorted_wrt (\<lambda>(k, t) (k', t'). k = k' \<longrightarrow> t + d \<le> t') xs \<Longrightarrow>
   sorted_wrt (\<lambda>t t'. t + d \<le> (t' :: nat)) (map snd (filter (\<lambda>e. fst e = key) xs))"
  by (induction xs) auto

text \<open>
  Also (picture-loss requests are throttled).  In any history, at whatever times the requests come,
  the requests the relay forwards for one stream of one sender in one room are at least 200 ms
  apart.
\<close>

theorem pli_spacing:
  "sorted_wrt (\<lambda>t t'. t + 200 \<le> t') (map snd (filter (\<lambda>e. fst e = key) (pli_log es manager_new)))"
  by (rule spaced_per_key) (rule pli_log_spaced, rule manager_new_inv)

section \<open>The room-wide quality directive\<close>

lemma fold_min:
  fixes t :: "'a::linorder"
  shows "fold min ts t \<in> insert t (set ts) \<and> (\<forall>u \<in> insert t (set ts). fold min ts t \<le> u)"
proof -
  have "fold min ts t = Min (insert t (set ts))" using Min.set_eq_fold[of t ts] by simp
  then show ?thesis using Min_in[of "insert t (set ts)"] Min_le[of "insert t (set ts)"] by simp
qed

lemma weakest_tier_least:
  "qs \<noteq> [] \<Longrightarrow> weakest_tier qs \<in> pq_tier ` set qs \<and> (\<forall>q \<in> set qs. weakest_tier qs \<le> pq_tier q)"
  using fold_min[of "map pq_tier (tl qs)" "pq_tier (hd qs)"]
  by (cases qs) (auto simp: weakest_tier_def)

lemma observe_quality_directive:
  assumes "observe_quality now name pid q rm = (Some (t, senders), rm')"
  shows "\<exists>r r'. hm_get (rooms rm) name = Some r \<and> hm_get (rooms rm') name = Some r' \<and>
    participants r' = participants r \<and> room_tier r \<noteq> t \<and> room_tier r' = t \<and>
    senders = all_senders r' \<and>
    t = weakest_tier (map snd (qualities r')) \<and> qualities r' \<noteq> []"
proof -
  obtain r where r: "hm_get (rooms rm) name = Some r"
    using assms by (auto simp: observe_quality_def split: option.splits)
  obtain pq where pq: "hm_get (qualities r) pid = Some pq"
    using assms r by (auto simp: observe_quality_def split: option.splits)
  obtain ch pq' where obs: "pq_observe now q pq = (ch, pq')" by fastforce
  let ?qs = "hm_insert pid pq' (qualities r)"
  have "hm_get ?qs pid \<noteq> None" by simp
  then have "?qs \<noteq> []" by force
  then show ?thesis
    using assms r pq obs
    by (auto simp: observe_quality_def Let_def all_senders_def split: if_splits)
qed

text \<open>
  Also (quality directives).  When a packet makes the relay send the room a quality directive, it
  names the weakest tier among the participants' records, which differs from the room's tier
  before and is the room's tier from then on, and it goes to every participant.
\<close>

theorem directive_is_weakest:
  assumes "forward_packet name pid now pkt rm = (Some (Some (t, senders), out), rm')"
  shows "\<exists>r r'. hm_get (rooms rm) name = Some r \<and> hm_get (rooms rm') name = Some r' \<and>
    room_tier r \<noteq> t \<and> room_tier r' = t \<and> senders = map p_sender (participants r) \<and>
    t \<in> (\<lambda>(_, q). pq_tier q) ` set (qualities r') \<and> (\<forall>(_, q) \<in> set (qualities r'). t \<le> pq_tier q)"
proof -
  let ?rm = "register_owner name pid pkt (update_keyframe_cache name pid pkt rm)"
  obtain q where q: "quality_report pkt = Some q"
    using assms by (auto simp: forward_packet_def Let_def split: if_splits option.splits)
  let ?rm2 = "update_receiver_state now name pid (unat (bitrate_cap_kbps q)) (unat (loss_pct q)) ?rm"
  have "observe_quality now name pid q ?rm2 = (Some (t, senders), rm')"
    using assms q by (auto simp: forward_packet_def Let_def split: if_splits prod.splits)
  then obtain r r' where rr: "hm_get (rooms rm) name = Some r" "hm_get (rooms rm') name = Some r'"
      "participants r' = participants r" "room_tier r \<noteq> t" "room_tier r' = t"
      "senders = all_senders r'" "t = weakest_tier (map snd (qualities r'))" "qualities r' \<noteq> []"
    using observe_quality_directive[of now name pid q ?rm2 t senders rm'] by auto
  have "t \<in> pq_tier ` set (map snd (qualities r'))" "\<forall>q \<in> set (map snd (qualities r')). t \<le> pq_tier q"
    using weakest_tier_least[of "map snd (qualities r')"] rr(7,8) by simp_all
  then show ?thesis using rr by (intro exI[of _ r] exI[of _ r']) (auto simp: all_senders_def)
qed

text \<open>
  Also (a leaver's tier stays).  Leaving never changes the room's tier, whatever the quality of
  the participant who left, and a report that does not move its own sender's tier changes
  nothing either: a room held down by one weak participant stays down after that participant
  is gone until some other participant's tier moves.
\<close>

lemma leave_keeps_room_tier:
  assumes "hm_get (rooms (snd (leave name pid rm))) n = Some r'"
  shows "\<exists>r. hm_get (rooms rm) n = Some r \<and> room_tier r' = room_tier r"
  using assms
  by (auto simp: leave_as_one Let_def room_remove_def split: option.splits if_splits)

lemma steady_report_keeps_room_tier:
  assumes "hm_get (rooms rm) name = Some r" and "hm_get (qualities r) pid = Some pq"
    and "fst (pq_observe now q pq) = None"
  shows "fst (observe_quality now name pid q rm) = None \<and>
    (\<exists>r'. hm_get (rooms (snd (observe_quality now name pid q rm))) name = Some r' \<and>
      room_tier r' = room_tier r)"
  using assms by (auto simp: observe_quality_def Let_def split: prod.splits)

text \<open>
  Also (a join into a closing room is lost).  Between the two sections of a leave that empties the room
  a newcomer may join it.  The join succeeds, and the second section takes the room away with the
  newcomer in it: nobody is in the room any more, and the newcomer's next packet ends its loop.
\<close>

lemma join_into_closing_room_is_lost:
  assumes "leave_seat name pid room rm = (None, rm1)"
    and "join name addr snder fp al rm1 = (Inr j, rm2)"
  shows "contains_participant rm2 name (joined_id j) \<and>
    \<not> contains_participant (close_room name rm2) name i \<and>
    fst (forward_packet name (joined_id j) now pkt (close_room name rm2)) = None"
proof -
  have "contains_participant rm2 name (joined_id j)"
    using assms(2)
    by (auto simp: join_def Let_def contains_participant_def room_contains_def room_add_def
        split: if_splits prod.splits)
  moreover have "\<not> contains_participant (close_room name rm2) name i" for i
    by (simp add: contains_participant_def close_room_def)
  ultimately show ?thesis by (simp add: forward_packet_def)
qed

text \<open>
  Also (a replaced loop reclaims its stream).  The loop of a participant looks once whether it is still
  in the room and then notes the packet.  If it is replaced in between, the stream belongs to it again,
  and picture-loss requests for the stream go to a participant who is not there.
\<close>

lemma replaced_loop_reclaims_stream:
  assumes "\<not> is_repair (header pkt)"
    and "hm_get (pli_state rm) (name, pid, stream_id (header pkt)) = None"
  shows "fst (should_forward_pli name (stream_id (header pkt)) now (register_owner name pid pkt rm)) = Some pid"
  using assms
  by (cases "stream_id (header pkt) = outbound_video_stream_id pid") (auto simp: should_forward_pli_def register_owner_def Let_def)

section \<open>Witnesses\<close>

definition demo_header :: "MediaType \<Rightarrow> CodecId \<Rightarrow> u8 \<Rightarrow> MediaHeader" where
  "demo_header mt c stream =
     \<lparr>version = 2, flags = 0, media_type = mt, codec_id = c, stream_id = stream, fec_ratio_wire = 0,
      seq = 7, timestamp = 140, fec_block = 0\<rparr>"

definition demo_packet :: "MediaType \<Rightarrow> CodecId \<Rightarrow> u8 \<Rightarrow> QualityReport option \<Rightarrow> MediaPacket" where
  "demo_packet mt c stream q =
     \<lparr>header = demo_header mt c stream, payload = [1, 2, 3], quality_report = q\<rparr>"

definition demo_ops :: "room_op list" where
  "demo_ops = [Join ''r'' ''a'' (Quic 1) (Some ''x'') None, Join ''r'' ''b'' (Quic 2) None None,
     Join ''r'' ''c'' (WebSocket 3) None None, Join ''s'' ''d'' (Quic 4) None None]"

lemmas room_eval = demo_ops_def manager_new_def join_def is_authorized_def room_new_def
  remove_by_fingerprint_def room_add_def Let_def

lemma demo_member: "contains_participant (fold room_step demo_ops manager_new) ''r'' 1"
  by (simp add: room_eval contains_participant_def room_contains_def)

lemma demo_inv: "room_inv (fold room_step demo_ops manager_new)"
  by (rule room_run_inv) (rule manager_new_inv)

lemma forwarding_exact_witness:
  "\<exists>directive out rm'.
     forward_packet ''r'' 1 0 (demo_packet Audio Opus24k 0 None) (fold room_step demo_ops manager_new)
       = (Some (directive, out), rm') \<and>
     distinct (map receiver out) \<and> receiver ` set out = {2, 3} \<and>
     set out \<subseteq> {ToQuic 2 2 (demo_packet Audio Opus24k 0 None), ToWs 3 3 [1, 2, 3]}"
proof -
  let ?rm = "fold room_step demo_ops manager_new"
  let ?pkt = "demo_packet Audio Opus24k 0 None"
  obtain directive out rm' where f: "forward_packet ''r'' 1 0 ?pkt ?rm = (Some (directive, out), rm')"
    using forward_member[OF demo_member, of 0 ?pkt] by blast
  have members: "contains_participant ?rm ''r'' i \<longleftrightarrow> i = 1 \<or> i = 2 \<or> i = 3" for i
    by (auto simp: room_eval contains_participant_def room_contains_def)
  have audio: "media_type (header ?pkt) = Audio" by (simp add: demo_packet_def demo_header_def)
  note exact = forwarding_exact[OF demo_inv demo_member f]
  have to: "receiver ` set out = {2, 3}" using exact audio by (auto simp: members)
  have seats: "seated ?rm ''r'' i snder \<Longrightarrow> (i, snder) \<in> {(1, Quic 1), (2, Quic 2), (3, WebSocket 3)}" for i snder
    by (auto simp: room_eval seated_def)
  have sub: "d \<in> {ToQuic 2 2 ?pkt, ToWs 3 3 [1, 2, 3]}" if d: "d \<in> set out" for d
  proof -
    obtain snder where s: "seated ?rm ''r'' (receiver d) snder" "carries 1 ?pkt snder d" using exact d by blast
    moreover have "receiver d \<in> {2, 3}" using imageI[OF d, of receiver] by (simp only: to)
    ultimately show ?thesis
      using seats[OF s(1)] audio by (cases d) (auto simp: demo_packet_def)
  qed
  have "distinct (map receiver out)" using exact by (rule conjunct1)
  then show ?thesis by (intro exI conjI subsetI) (rule f, assumption, rule to, rule sub)
qed

lemma higher_layers_are_dropped_witness:
  "\<exists>directive rm'.
     forward_packet ''r'' 1 0 (demo_packet Video Av1Main 2 None) (fold room_step demo_ops manager_new)
       = (Some (directive, []), rm')"
proof -
  let ?rm = "fold room_step demo_ops manager_new"
  let ?pkt = "demo_packet Video Av1Main 2 None"
  obtain directive out rm' where f: "forward_packet ''r'' 1 0 ?pkt ?rm = (Some (directive, out), rm')"
    using forward_member[OF demo_member, of 0 ?pkt] by blast
  have "out = []"
    by (rule higher_layers_are_dropped[OF _ f, of demo_ops])
      (simp_all add: demo_packet_def demo_header_def)
  then show ?thesis using f by blast
qed

definition demo_room :: Room where
  "demo_room =
     \<lparr>participants = [\<lparr>p_id = 1, p_addr = ''a'', p_sender = Quic 1, p_fingerprint = None, p_alias = None\<rparr>],
      qualities = [(1, \<lparr>controller = controller_new\<lparr>consecutive_down := 2\<rparr>, pq_tier = Good\<rparr>)],
      room_tier = Good\<rparr>"

lemma directive_is_weakest_witness:
  "\<exists>senders out rm' r r'.
     forward_packet ''r'' 1 0 (demo_packet Audio Opus24k 0 (Some (sample_report 255 255)))
       (manager_new\<lparr>rooms := [(''r'', demo_room)]\<rparr>) = (Some (Some (Catastrophic, senders), out), rm') \<and>
     hm_get (rooms rm') ''r'' = Some r' \<and> room_tier r' = Catastrophic \<and> senders = [Quic 1]"
proof -
  let ?pkt = "demo_packet Audio Opus24k 0 (Some (sample_report 255 255))"
  let ?rm = "manager_new\<lparr>rooms := [(''r'', demo_room)]\<rparr>"
  obtain senders out rm' where f:
    "forward_packet ''r'' 1 0 ?pkt ?rm = (Some (Some (Catastrophic, senders), out), rm')"
    by (simp add: forward_packet_def contains_participant_def room_contains_def demo_room_def
        manager_new_def demo_packet_def demo_header_def update_keyframe_cache_def register_owner_def
        is_repair_def is_keyframe_def FLAG_REPAIR_def FLAG_KEYFRAME_def update_receiver_state_def
        observe_quality_def pq_observe_def observe_def try_transition_def downgrade_threshold_def
        controller_new_def sample_simps less_Tier_def weakest_tier_def Let_def)
  from directive_is_weakest[OF f] f show ?thesis
    by (auto simp: manager_new_def demo_room_def)
qed

lemma join_into_closing_room_is_lost_witness:
  "\<exists>room rm1 j rm2. leave_seat ''s'' 4 room (fold room_step demo_ops manager_new) = (None, rm1) \<and>
     join ''s'' ''e'' (Quic 5) None None rm1 = (Inr j, rm2) \<and>
     \<not> contains_participant (close_room ''s'' rm2) ''s'' (joined_id j)"
proof -
  let ?rm = "fold room_step demo_ops manager_new"
  let ?room = "\<lparr>participants = [], qualities = [], room_tier = Good\<rparr>"
  obtain rm1 where l: "leave_seat ''s'' 4 ?room ?rm = (None, rm1)" "acl rm1 = acl ?rm"
    by (simp add: leave_seat_def room_remove_def Let_def clear_participant_state_def)
  have "acl ?rm = None" by (simp add: room_eval)
  with l(2) have "is_authorized rm1 ''s'' None" by (simp add: is_authorized_def)
  then obtain j rm2 where "join ''s'' ''e'' (Quic 5) None None rm1 = (Inr j, rm2)"
    by (auto simp: join_def Let_def split: prod.splits)
  then show ?thesis using join_into_closing_room_is_lost[OF l(1)] l(1) by blast
qed

end
