(* ===== verification/H264.thy ===== *)
theory H264
  imports Prelude
begin

text \<open>
  The H.264 framer and depacketizer, \<open>crates/wzp-video/src/framer.rs\<close> and \<open>depacketizer.rs\<close>:
  splitting an Annex-B access unit into NAL units, single-NAL packets and FU-A fragments, and
  putting the packets together again.  The scanner's index into the data is the suffix that is
  left; a payload limit for which the code divides by zero or underflows gives \<open>None\<close>.
\<close>

section \<open>Splitting into NAL units\<close>

text \<open>\<open>0x000001\<close> or \<open>0x00000001\<close> at the start of the suffix, with a byte to follow.\<close>

definition at_start_code :: "byte list \<Rightarrow> bool" where
  "at_start_code xs \<longleftrightarrow> xs ! 0 = 0 \<and> xs ! 1 = 0 \<and>
     (xs ! 2 = 1 \<or> xs ! 2 = 0 \<and> 4 < length xs \<and> xs ! 3 = 1)"

fun nal_end :: "byte list \<Rightarrow> nat" where
  "nal_end [] = 0"
| "nal_end (x # xs) =
     (if length xs < 3 then length (x # xs)
      else if at_start_code (x # xs) then 0 else Suc (nal_end xs))"

lemma nal_end_le: "nal_end xs \<le> length xs"
  by (induction xs) auto

function split_nals :: "byte list \<Rightarrow> byte list list" where
  "split_nals xs =
     (case dropWhile (\<lambda>b. b = 0) xs of
        [] \<Rightarrow> []
      | b # r \<Rightarrow>
          if b \<noteq> 1 then []
          else (if 0 < nal_end r then [take (nal_end r) r] else []) @ split_nals (drop (nal_end r) r))"
  by pat_completeness auto
termination
proof (relation "measure length")
  fix xs b r
  assume "dropWhile (\<lambda>b. b = (0 :: byte)) xs = b # r"
  moreover have "length (dropWhile (\<lambda>b. b = 0) xs) \<le> length xs" by (rule length_dropWhile_le)
  ultimately show "(drop (nal_end r) r, xs) \<in> measure length" by simp
qed simp

declare split_nals.simps [simp del]

section \<open>Framing\<close>

record FramedPacket =
  fp_payload :: "byte list"
  is_frame_end :: bool

definition fu_indicator :: "byte \<Rightarrow> byte" where
  "fu_indicator h = (h AND 0x60) OR 28"

definition fu_header :: "bool \<Rightarrow> bool \<Rightarrow> byte \<Rightarrow> byte" where
  "fu_header is_first is_last h =
     ((if is_first then 0x80 else 0) OR (if is_last then 0x40 else 0)) OR (h AND 0x1F)"

definition div_ceil :: "nat \<Rightarrow> nat \<Rightarrow> nat" where
  "div_ceil a b = (a + b - 1) div b"

function fu_fragments :: "nat \<Rightarrow> byte \<Rightarrow> bool \<Rightarrow> nat \<Rightarrow> nat \<Rightarrow> byte list \<Rightarrow> FramedPacket list" where
  "fu_fragments m h last_nal frags idx rest =
     (if rest = [] \<or> m \<le> 2 then []
      else
        let n = min (length rest) (m - 2); is_last = (idx + 1 = frags) in
        \<lparr>fp_payload = fu_indicator h # fu_header (idx = 0) is_last h # take n rest,
         is_frame_end = last_nal \<and> is_last\<rparr>
        # fu_fragments m h last_nal frags (idx + 1) (drop n rest))"
  by pat_completeness auto
termination
  by (relation "measure (\<lambda>(m, h, ln, t, i, rest). length rest)") auto

declare fu_fragments.simps [simp del]

definition frame_nal :: "nat \<Rightarrow> bool \<Rightarrow> byte list \<Rightarrow> FramedPacket list option" where
  "frame_nal m last_nal nal =
     (if length nal \<le> m then Some [\<lparr>fp_payload = nal, is_frame_end = last_nal\<rparr>]
      else if m \<le> 2 then None
      else Some (fu_fragments m (hd nal) last_nal (div_ceil (length nal - 1) (m - 2)) 0 (tl nal)))"

fun frame_nals :: "nat \<Rightarrow> byte list list \<Rightarrow> FramedPacket list option" where
  "frame_nals m [] = Some []"
| "frame_nals m (nal # nals) =
     (case frame_nal m (nals = []) nal of
        None \<Rightarrow> None
      | Some ps \<Rightarrow> (case frame_nals m nals of None \<Rightarrow> None | Some qs \<Rightarrow> Some (ps @ qs)))"

definition frame :: "nat \<Rightarrow> byte list \<Rightarrow> FramedPacket list option" where
  "frame m access_unit = frame_nals m (split_nals access_unit)"

section \<open>Depacketizing\<close>

record H264Depacketizer =
  buffer :: "byte list"
  in_fragment :: bool
  frag_header :: byte

abbreviation (input) START_CODE :: "byte list" where "START_CODE \<equiv> [0, 0, 1]"

definition depacketizer_new :: H264Depacketizer where
  "depacketizer_new = \<lparr>buffer = [], in_fragment = False, frag_header = 0\<rparr>"

definition start_nal :: "H264Depacketizer \<Rightarrow> H264Depacketizer" where
  "start_nal d = d\<lparr>buffer := buffer d @ START_CODE\<rparr>"

definition maybe_emit :: "bool \<Rightarrow> H264Depacketizer \<Rightarrow> byte list option \<times> H264Depacketizer" where
  "maybe_emit end d =
     (if end \<and> \<not> in_fragment d then
        if buffer d = [] then (None, d) else (Some (buffer d), d\<lparr>buffer := []\<rparr>)
      else (None, d))"

definition push_fu :: "byte list \<Rightarrow> bool \<Rightarrow> H264Depacketizer \<Rightarrow> byte list option \<times> H264Depacketizer" where
  "push_fu pl end d =
     (if length pl < 2 then maybe_emit end (d\<lparr>in_fragment := False\<rparr>)
      else
        let fu = pl ! 1;
            d = (if fu AND 0x80 \<noteq> 0 then
                   let h = (pl ! 0 AND 0xE0) OR (fu AND 0x1F);
                       d = start_nal (d\<lparr>frag_header := h\<rparr>) in
                   d\<lparr>buffer := buffer d @ [h], in_fragment := True\<rparr>
                 else d);
            d = (if in_fragment d then d\<lparr>buffer := buffer d @ drop 2 pl\<rparr> else d);
            d = (if fu AND 0x40 \<noteq> 0 then d\<lparr>in_fragment := False\<rparr> else d) in
        maybe_emit end d)"

definition depacketizer_push :: "byte list \<Rightarrow> bool \<Rightarrow> H264Depacketizer \<Rightarrow> byte list option \<times> H264Depacketizer" where
  "depacketizer_push pl end d =
     (if pl = [] then maybe_emit end d
      else if pl ! 0 AND 0x1F = 28 then push_fu pl end d
      else
        let d = d\<lparr>in_fragment := False\<rparr>; d = start_nal d in
        maybe_emit end (d\<lparr>buffer := buffer d @ pl\<rparr>))"

fun push_all :: "FramedPacket list \<Rightarrow> H264Depacketizer \<Rightarrow> byte list option list \<times> H264Depacketizer" where
  "push_all [] d = ([], d)"
| "push_all (p # ps) d =
     (let (r, d) = depacketizer_push (fp_payload p) (is_frame_end p) d; (rs, d) = push_all ps d in
      (r # rs, d))"

section \<open>Fragments are put together again\<close>

lemma fu_indicator_type: "fu_indicator h AND 0x1F = 28"
  by (simp add: fu_indicator_def word_ao_dist word_bw_assocs)

lemma fu_header_bits: "fu_header a b h AND 0x80 = (if a then 0x80 else 0)"
  "fu_header a b h AND 0x40 = (if b then 0x40 else 0)"
  "fu_header a b h AND 0x1F = h AND 0x1F"
  unfolding fu_header_def word_ao_dist word_bw_assocs
  by (cases a; cases b; simp)+

lemma fu_restore:
  assumes "h AND 0x80 = 0"
  shows "(fu_indicator h AND 0xE0) OR (fu_header a b h AND 0x1F) = h"
proof -
  have "(0x80 OR 0x7F :: byte) = - 1" by simp
  then have "h = h AND (0x80 OR 0x7F)" by (simp only: word_and_max)
  also have "\<dots> = h AND 0x7F" using assms by (simp only: bit.conj_disj_distrib) simp
  also have "\<dots> = h AND (0x60 OR 0x1F)" by simp
  also have "\<dots> = (h AND 0x60) OR (h AND 0x1F)" by (rule bit.conj_disj_distrib)
  finally have h: "(h AND 0x60) OR (h AND 0x1F) = h" ..
  have "fu_indicator h AND 0xE0 = h AND 0x60"
    by (simp add: fu_indicator_def word_ao_dist word_bw_assocs)
  then show ?thesis by (simp only: fu_header_bits h)
qed

lemma fu_header_first: "fu_header a b h AND 0x80 \<noteq> 0 \<longleftrightarrow> a"
  by (simp add: fu_header_bits)

lemma fu_header_last: "fu_header a b h AND 0x40 \<noteq> 0 \<longleftrightarrow> b"
  by (simp add: fu_header_bits)

lemma div_ceil_small: "0 < a \<Longrightarrow> a \<le> b \<Longrightarrow> div_ceil a b = 1"
  by (simp add: div_ceil_def le_div_geq)

lemma div_ceil_step: "0 < b \<Longrightarrow> b < a \<Longrightarrow> div_ceil a b = Suc (div_ceil (a - b) b)"
proof -
  assume "0 < b" "b < a"
  then have eq: "a + b - 1 = (a - b + b - 1) + b" by linarith
  show ?thesis using \<open>0 < b\<close> unfolding div_ceil_def eq by (subst div_add_self2) simp_all
qed

lemma div_ceil_pos: "0 < a \<Longrightarrow> 0 < b \<Longrightarrow> 0 < div_ceil a b"
  by (simp add: div_ceil_def div_greater_zero_iff)

text \<open>What pushing the packets of a piece of data does, for a piece that ends the unit or not.\<close>

definition somes :: "'a option list \<Rightarrow> 'a list" where
  "somes xs = concat (map (\<lambda>x. case x of None \<Rightarrow> [] | Some y \<Rightarrow> [y]) xs)"

lemma somes_simps [simp]:
  "somes [] = []" "somes (None # xs) = somes xs" "somes (Some y # xs) = y # somes xs"
  "somes (xs @ ys) = somes xs @ somes ys"
  by (simp_all add: somes_def)

definition absorbs :: "FramedPacket list \<Rightarrow> bool \<Rightarrow> byte list \<Rightarrow> H264Depacketizer \<Rightarrow> bool" where
  "absorbs ps ends data d \<longleftrightarrow>
     (let (rs, d') = push_all ps d in
      \<not> in_fragment d' \<and>
      (if ends then somes rs = [buffer d @ data] \<and> buffer d' = []
       else somes rs = [] \<and> buffer d' = buffer d @ data))"

lemma push_fragment:
  assumes "h AND 0x80 = 0" and "idx = 0 \<or> in_fragment d" and "body \<noteq> []"
    and data: "data = (if idx = 0 then START_CODE @ [h] else []) @ body"
  shows "\<exists>fh. depacketizer_push (fu_indicator h # fu_header (idx = 0) is_last h # body) (ends \<and> is_last) d =
    (if ends \<and> is_last
     then (Some (buffer d @ data), \<lparr>buffer = [], in_fragment = False, frag_header = fh\<rparr>)
     else (None, \<lparr>buffer = buffer d @ data, in_fragment = \<not> is_last, frag_header = fh\<rparr>))"
proof -
  let ?pl = "fu_indicator h # fu_header (idx = 0) is_last h # body"
  have push: "depacketizer_push ?pl e d = push_fu ?pl e d" for e
    using fu_indicator_type[of h] by (simp add: depacketizer_push_def)
  show ?thesis
    using assms(2,3) fu_restore[OF assms(1), of "idx = 0" is_last]
      fu_header_first[of "idx = 0" is_last h] fu_header_last[of "idx = 0" is_last h]
    unfolding push
    by (cases d; cases is_last; cases "idx = 0"; cases ends)
      (simp_all add: push_fu_def maybe_emit_def start_nal_def Let_def data)
qed

lemma push_all_append:
  "push_all (ps @ qs) d =
     (let (rs, d) = push_all ps d; (ss, d) = push_all qs d in (rs @ ss, d))"
  by (induction ps arbitrary: d) (simp_all add: split_beta Let_def)

lemma absorbs_append:
  assumes "absorbs ps False xs d"
    and "\<And>d' :: H264Depacketizer. \<not> in_fragment d' \<Longrightarrow> buffer d' = buffer d @ xs \<Longrightarrow> absorbs qs ends ys d'"
  shows "absorbs (ps @ qs) ends (xs @ ys) d"
  using assms by (fastforce simp: absorbs_def push_all_append split_beta Let_def)

lemma absorbs_cons:
  assumes "depacketizer_push pl (ends \<and> e) d = (None, d1)" and "buffer d1 = buffer d @ xs"
    and "absorbs ps ends ys d1"
  shows "absorbs (\<lparr>fp_payload = pl, is_frame_end = ends \<and> e\<rparr> # ps) ends (xs @ ys) d"
  using assms unfolding absorbs_def by (simp add: split_beta Let_def)

lemma fu_fragments_step:
  assumes "rest \<noteq> []" and "2 < m"
  shows "fu_fragments m h ends frags idx rest =
    \<lparr>fp_payload = fu_indicator h # fu_header (idx = 0) (idx + 1 = frags) h # take (m - 2) rest,
     is_frame_end = ends \<and> idx + 1 = frags\<rparr>
    # fu_fragments m h ends frags (idx + 1) (drop (m - 2) rest)"
proof -
  have t: "take (min (length rest) (m - 2)) rest = take (m - 2) rest"
    "drop (min (length rest) (m - 2)) rest = drop (m - 2) rest"
    by (simp_all add: min_def)
  show ?thesis
    using assms by (subst fu_fragments.simps) (simp add: Let_def t)
qed

lemma absorbs_fragments:
  assumes "2 < m" and "h AND 0x80 = 0" and "rest \<noteq> []"
    and "frags = idx + div_ceil (length rest) (m - 2)" and "idx = 0 \<or> in_fragment d"
  shows "absorbs (fu_fragments m h ends frags idx rest) ends
    ((if idx = 0 then START_CODE @ [h] else []) @ rest) d"
  using assms(3-5)
proof (induction "length rest" arbitrary: rest idx d rule: less_induct)
  case less
  let ?body = "take (m - 2) rest" and ?rest = "drop (m - 2) rest"
  let ?pre = "if idx = 0 then START_CODE @ [h] else []"
  have body: "?body \<noteq> []" using less.prems(1) assms(1) by simp
  obtain fh where push: "depacketizer_push
      (fu_indicator h # fu_header (idx = 0) (idx + 1 = frags) h # ?body) (ends \<and> idx + 1 = frags) d =
    (if ends \<and> idx + 1 = frags
     then (Some (buffer d @ ?pre @ ?body), \<lparr>buffer = [], in_fragment = False, frag_header = fh\<rparr>)
     else (None, \<lparr>buffer = buffer d @ ?pre @ ?body, in_fragment = idx + 1 \<noteq> frags, frag_header = fh\<rparr>))"
    using push_fragment[OF assms(2) less.prems(3) body refl, of "idx + 1 = frags" ends] by blast
  note step = fu_fragments_step[OF less.prems(1) assms(1), of h ends frags idx]
  show ?case
  proof (cases "length rest \<le> m - 2")
    case True
    then have "idx + 1 = frags"
      using less.prems div_ceil_small[of "length rest" "m - 2"] by simp
    moreover have nil: "fu_fragments m h ends frags i [] = []" for i by (simp add: fu_fragments.simps)
    moreover have "?body = rest" "?rest = []" using True by simp_all
    ultimately show ?thesis
      using push unfolding absorbs_def step by (cases ends) (simp_all add: Let_def)
  next
    case False
    then have frags: "frags = (idx + 1) + div_ceil (length ?rest) (m - 2)"
      using less.prems(2) assms(1) div_ceil_step[of "m - 2" "length rest"] by simp
    have "0 < div_ceil (length ?rest) (m - 2)"
      using False assms(1) by (intro div_ceil_pos) simp_all
    then have more: "idx + 1 \<noteq> frags" using frags by simp
    let ?d = "\<lparr>buffer = buffer d @ ?pre @ ?body, in_fragment = True, frag_header = fh\<rparr>"
    have "absorbs (fu_fragments m h ends frags (idx + 1) ?rest) ends
        ((if idx + 1 = 0 then START_CODE @ [h] else []) @ ?rest) ?d"
      using False assms(1) frags by (intro less.hyps) simp_all
    then have tail: "absorbs (fu_fragments m h ends frags (idx + 1) ?rest) ends ?rest ?d" by simp
    have pushed: "depacketizer_push
        (fu_indicator h # fu_header (idx = 0) (idx + 1 = frags) h # ?body) (ends \<and> idx + 1 = frags) d = (None, ?d)"
      unfolding push using more by simp
    have "absorbs (fu_fragments m h ends frags idx rest) ends ((?pre @ ?body) @ ?rest) d"
      unfolding step by (rule absorbs_cons[OF pushed _ tail]) simp
    then show ?thesis by (simp only: append.assoc append_take_drop_id)
  qed
qed

text \<open>The NAL units the format carries: no forbidden bit, and not of the fragment type.\<close>

definition plain_nal :: "byte list \<Rightarrow> bool" where
  "plain_nal nal \<longleftrightarrow> nal \<noteq> [] \<and> hd nal AND 0x80 = 0 \<and> hd nal AND 0x1F \<noteq> 28"

lemma absorbs_nal:
  assumes "plain_nal nal" and "3 \<le> m"
  shows "\<exists>ps. frame_nal m ends nal = Some ps \<and> absorbs ps ends (START_CODE @ nal) d"
proof (cases "length nal \<le> m")
  case True
  then show ?thesis
    using assms
    by (auto simp: frame_nal_def absorbs_def plain_nal_def depacketizer_push_def start_nal_def
        maybe_emit_def Let_def hd_conv_nth)
next
  case False
  obtain h rest where nal: "nal = h # rest" using assms(1) by (cases nal) (auto simp: plain_nal_def)
  have "absorbs (fu_fragments m h ends (div_ceil (length rest) (m - 2)) 0 rest) ends
      ((if 0 = (0::nat) then START_CODE @ [h] else []) @ rest) d"
    using assms False nal by (intro absorbs_fragments) (auto simp: plain_nal_def)
  then show ?thesis using False assms(2) by (auto simp: frame_nal_def nal)
qed

lemma absorbs_nals:
  assumes "nals \<noteq> []" and "\<forall>n \<in> set nals. plain_nal n" and "3 \<le> m"
  shows "\<exists>ps. frame_nals m nals = Some ps \<and> absorbs ps True (concat (map (\<lambda>n. START_CODE @ n) nals)) d"
  using assms(1,2)
proof (induction nals arbitrary: d)
  case (Cons n nals)
  obtain ps where ps: "frame_nal m (nals = []) n = Some ps" "absorbs ps (nals = []) (START_CODE @ n) d"
    using absorbs_nal[of n m "nals = []" d] Cons.prems assms(3) by auto
  show ?case
  proof (cases "nals = []")
    case True
    then show ?thesis using ps by auto
  next
    case False
    have "\<exists>qs. frame_nals m nals = Some qs" using Cons.IH[OF False] Cons.prems by (meson list.set_intros(2))
    then obtain qs where qs: "frame_nals m nals = Some qs" by blast
    have "absorbs (ps @ qs) True ((START_CODE @ n) @ concat (map (\<lambda>n. START_CODE @ n) nals)) d"
    proof (rule absorbs_append)
      show "absorbs ps False (START_CODE @ n) d" using ps(2) False by simp
    next
      fix d' :: H264Depacketizer
      assume "\<not> in_fragment d'"
      then show "absorbs qs True (concat (map (\<lambda>n. START_CODE @ n) nals)) d'"
        using Cons.IH[OF False, of d'] Cons.prems(2) qs by auto
    qed
    then show ?thesis using ps(1) qs by simp
  qed
qed simp

section \<open>The scanner finds the NAL units\<close>

text \<open>No three bytes \<open>000000\<close> or \<open>000001\<close>: what emulation prevention guarantees.\<close>

fun emulation_free :: "byte list \<Rightarrow> bool" where
  "emulation_free (a # b # c # r) \<longleftrightarrow> \<not> (a = 0 \<and> b = 0 \<and> (c = 0 \<or> c = 1)) \<and> emulation_free (b # c # r)"
| "emulation_free _ \<longleftrightarrow> True"

definition nal_ok :: "byte list \<Rightarrow> bool" where
  "nal_ok nal \<longleftrightarrow> plain_nal nal \<and> last nal \<noteq> 0 \<and> emulation_free nal"

text \<open>
  An access unit in Annex-B form: each NAL unit after a start code of four bytes or of three.  The encoders
  write four, the depacketizer writes three.
\<close>

definition start_code :: "bool \<Rightarrow> byte list" where
  "start_code four = (if four then [0, 0, 0, 1] else START_CODE)"

definition annex_b :: "(bool \<times> byte list) list \<Rightarrow> byte list" where
  "annex_b us = concat (map (\<lambda>(four, nal). start_code four @ nal) us)"

definition short_annex_b :: "byte list list \<Rightarrow> byte list" where
  "short_annex_b nals = annex_b (map (Pair False) nals)"

lemma short_annex_b: "short_annex_b nals = concat (map (\<lambda>n. START_CODE @ n) nals)"
  by (simp add: short_annex_b_def annex_b_def start_code_def comp_def)

lemma nal_end_whole: "nal \<noteq> [] \<Longrightarrow> last nal \<noteq> 0 \<Longrightarrow> emulation_free nal \<Longrightarrow> nal_end nal = length nal"
proof (induction nal rule: emulation_free.induct)
  case (1 a b c r)
  then show ?case by (auto simp: at_start_code_def)
qed auto

lemma nal_end_before_code:
  "nal \<noteq> [] \<Longrightarrow> last nal \<noteq> 0 \<Longrightarrow> emulation_free nal \<Longrightarrow> r \<noteq> [] \<Longrightarrow>
   nal_end (nal @ start_code four @ r) = length nal"
  by (induction nal rule: emulation_free.induct; cases r; cases four) (auto simp: at_start_code_def start_code_def)

lemma split_nals_annex_b: "\<forall>u \<in> set us. nal_ok (snd u) \<Longrightarrow> split_nals (annex_b us) = map snd us"
proof (induction us)
  case Nil
  then show ?case by (simp add: annex_b_def split_nals.simps)
next
  case (Cons u us)
  obtain four n where u: "u = (four, n)" by (cases u)
  have n: "n \<noteq> []" "last n \<noteq> 0" "emulation_free n"
    using Cons.prems by (auto simp: u nal_ok_def plain_nal_def)
  have e: "nal_end (n @ annex_b us) = length n"
  proof (cases us)
    case Nil
    then show ?thesis using nal_end_whole[OF n] by (simp add: annex_b_def)
  next
    case (Cons u' vs)
    obtain four' n' where u': "u' = (four', n')" by (cases u')
    then have "n' \<noteq> []" using Cons.prems Cons by (auto simp: nal_ok_def plain_nal_def)
    then show ?thesis
      using nal_end_before_code[OF n, of "n' @ annex_b vs" four'] Cons u' by (simp add: annex_b_def)
  qed
  have "split_nals (annex_b (u # us)) = n # split_nals (annex_b us)"
    using n(1) e by (subst split_nals.simps) (simp add: annex_b_def u start_code_def)
  then show ?case using Cons u by simp
qed

lemma fragments_bounded: "\<forall>p \<in> set (fu_fragments m h e t i rest). length (fp_payload p) \<le> m"
proof (induction m h e t i rest rule: fu_fragments.induct)
  case (1 m h e t i rest)
  then show ?case by (subst fu_fragments.simps) (auto simp: Let_def)
qed

lemma frame_nals_bounded:
  "frame_nals m nals = Some ps \<Longrightarrow> \<forall>p \<in> set ps. length (fp_payload p) \<le> m"
proof (induction nals arbitrary: ps)
  case (Cons n nals)
  then obtain qs rs where "frame_nal m (nals = []) n = Some qs" "frame_nals m nals = Some rs" "ps = qs @ rs"
    by (auto split: option.splits)
  then show ?case
    using Cons.IH fragments_bounded by (fastforce simp: frame_nal_def split: if_splits)
qed simp

lemma unit_absorbed:
  assumes "3 \<le> m" and "us \<noteq> []" and "\<forall>u \<in> set us. nal_ok (snd u)"
  obtains ps where "frame m (annex_b us) = Some ps" "absorbs ps True (short_annex_b (map snd us)) d"
proof -
  have "\<exists>ps. frame_nals m (map snd us) = Some ps \<and> absorbs ps True (short_annex_b (map snd us)) d"
    unfolding short_annex_b using assms by (intro absorbs_nals) (auto simp: nal_ok_def)
  then show thesis using that split_nals_annex_b[OF assms(3)] by (auto simp: frame_def)
qed

text \<open>
  C34 (video frames survive packetizing).  Take an access unit in Annex-B form, with NAL units as an encoder
  writes them, each after a start code of three or of four bytes.  It is framed, for every limit of at least
  three bytes, into packets within the limit; the depacketizer fed with them in order gives out one access unit,
  with its last packet.  That unit has the same NAL units in the same order, now all with start codes of three
  bytes; so an access unit that was written with those comes back byte for byte.
\<close>

theorem h264_roundtrip:
  assumes "3 \<le> m" and "us \<noteq> []" and "\<forall>u \<in> set us. nal_ok (snd u)"
  shows "\<exists>ps. frame m (annex_b us) = Some ps \<and> (\<forall>p \<in> set ps. length (fp_payload p) \<le> m) \<and>
    somes (fst (push_all ps depacketizer_new)) = [annex_b (map (\<lambda>u. (False, snd u)) us)] \<and>
    split_nals (annex_b (map (\<lambda>u. (False, snd u)) us)) = map snd us"
proof -
  obtain ps where ps: "frame m (annex_b us) = Some ps" "absorbs ps True (short_annex_b (map snd us)) depacketizer_new"
    by (rule unit_absorbed[OF assms])
  have short: "annex_b (map (\<lambda>u. (False, snd u)) us) = short_annex_b (map snd us)"
    by (simp add: short_annex_b_def comp_def)
  have "\<forall>u \<in> set (map (\<lambda>u. (False, snd u)) us). nal_ok (snd u)" using assms(3) by auto
  from split_nals_annex_b[OF this] have again: "split_nals (annex_b (map (\<lambda>u. (False, snd u)) us)) = map snd us"
    by (simp add: comp_def)
  show ?thesis
    using ps frame_nals_bounded[of m "split_nals (annex_b us)" ps] again
    by (auto simp: frame_def absorbs_def split_beta Let_def depacketizer_new_def short)
qed

definition demo_unit :: "(bool \<times> byte list) list" where
  "demo_unit = [(True, [0x67, 1, 2, 3]), (True, [0x68, 4]), (False, [0x65, 9, 8, 7, 6, 5, 4, 3, 2, 1])]"

lemma demo_unit_ok: "\<forall>u \<in> set demo_unit. nal_ok (snd u)" "demo_unit \<noteq> []"
  by (simp_all add: demo_unit_def nal_ok_def plain_nal_def)

lemma h264_roundtrip_witness:
  "\<exists>ps. frame 5 ([0, 0, 0, 1, 0x67, 1, 2, 3, 0, 0, 0, 1, 0x68, 4, 0, 0, 1, 0x65, 9, 8, 7, 6, 5, 4, 3, 2, 1]) = Some ps \<and>
    somes (fst (push_all ps depacketizer_new)) =
      [[0, 0, 1, 0x67, 1, 2, 3, 0, 0, 1, 0x68, 4, 0, 0, 1, 0x65, 9, 8, 7, 6, 5, 4, 3, 2, 1]]"
  using h264_roundtrip[OF _ demo_unit_ok(2,1), of 5] by (auto simp: demo_unit_def annex_b_def start_code_def)

text \<open>
  Also (a broken unit is glued to the next one).  Whatever state losses have left a depacketizer
  in, the next access unit that arrives completely comes out with everything still in the
  buffer in front of it: the remains of a unit whose last packet was lost are never dropped.
\<close>

theorem leftover_joins_next_unit:
  assumes "3 \<le> m" and "us \<noteq> []" and "\<forall>u \<in> set us. nal_ok (snd u)"
    and "frame m (annex_b us) = Some ps"
  shows "somes (fst (push_all ps d)) = [buffer d @ short_annex_b (map snd us)]"
proof -
  obtain qs where "frame m (annex_b us) = Some qs" "absorbs qs True (short_annex_b (map snd us)) d"
    by (rule unit_absorbed[OF assms(1-3)])
  then show ?thesis using assms(4) by (auto simp: absorbs_def split_beta Let_def)
qed

lemma leftover_joins_next_unit_witness:
  "somes (fst (push_all (the (frame 5 (annex_b demo_unit)))
     \<lparr>buffer = [0, 0, 1, 0x41, 7], in_fragment = True, frag_header = 0x41\<rparr>))
   = [[0, 0, 1, 0x41, 7] @ short_annex_b (map snd demo_unit)]"
proof -
  obtain ps where ps: "frame 5 (annex_b demo_unit) = Some ps"
    by (rule unit_absorbed[OF _ demo_unit_ok(2,1), of 5]) simp_all
  show ?thesis
    using leftover_joins_next_unit[OF _ demo_unit_ok(2,1) ps] ps by simp
qed

end
