(* ===== verification/Av1.thy ===== *)
theory Av1
  imports Prelude
begin

text \<open>
  AV1 bitstream units, \<open>crates/wzp-video/src/av1_obu.rs\<close>: LEB128 sizes, splitting a stream into
  OBUs, keyframe detection, the framer and the depacketizer.  \<open>usize\<close> has 64 bits; an offset
  that overflows it panics (in debug builds on the addition, in release builds on the slice
  whose end has wrapped below its start), which is \<open>None\<close> here.
\<close>

section \<open>OBU headers\<close>

abbreviation (input) FRAME_HEADER :: byte where "FRAME_HEADER \<equiv> 3"
abbreviation (input) FRAME :: byte where "FRAME \<equiv> 6"

record ObuHeader =
  obu_type :: byte
  has_size_field :: bool
  extension_flag :: bool

definition from_byte :: "byte \<Rightarrow> ObuHeader" where
  "from_byte b =
     \<lparr>obu_type = drop_bit 3 b AND 0x0F, has_size_field = (drop_bit 1 b AND 1 \<noteq> 0),
      extension_flag = (b AND 1 \<noteq> 0)\<rparr>"

definition to_byte :: "ObuHeader \<Rightarrow> byte" where
  "to_byte h =
     (push_bit 3 (obu_type h AND 0x0F) OR (if has_size_field h then 0x02 else 0))
       OR (if extension_flag h then 0x01 else 0)"

section \<open>LEB128\<close>

fun read_leb_loop :: "byte list \<Rightarrow> u64 \<Rightarrow> nat \<Rightarrow> nat \<Rightarrow> (u64 \<times> nat) option" where
  "read_leb_loop [] val shift i = None"
| "read_leb_loop (b # bs) val shift i =
     (let val = val OR push_bit shift (ucast (b AND 0x7F)) in
      if b AND 0x80 = 0 then Some (val, i + 1)
      else if 64 \<le> shift + 7 then None
      else read_leb_loop bs val (shift + 7) (i + 1))"

definition read_leb128 :: "byte list \<Rightarrow> (u64 \<times> nat) option" where
  "read_leb128 xs = read_leb_loop xs 0 0 0"

lemma unat_drop7: "unat (drop_bit 7 (v :: u64)) = unat v div 128"
  by (subst unat_drop_bit_eq, subst drop_bit_eq_div) simp

lemma drop_bit_less: "v \<noteq> 0 \<Longrightarrow> unat (drop_bit 7 (v :: u64)) < unat v"
proof -
  assume "v \<noteq> 0"
  then have "0 < unat v" by (simp add: unat_gt_0)
  then show ?thesis by (simp only: unat_drop7)
qed

function write_leb128 :: "u64 \<Rightarrow> byte list" where
  "write_leb128 v =
     (let b = ucast (v AND 0x7F); v' = drop_bit 7 v in
      if v' \<noteq> 0 then (b OR 0x80) # write_leb128 v' else [b])"
  by pat_completeness auto
termination
  by (relation "measure unat") (auto intro: drop_bit_less)

declare write_leb128.simps [simp del]

section \<open>Splitting a stream\<close>

function split_from :: "nat \<Rightarrow> byte list \<Rightarrow> (ObuHeader \<times> byte list) list option" where
  "split_from i xs =
     (case xs of
        [] \<Rightarrow> Some []
      | b # r \<Rightarrow>
          let h = from_byte b; n = (if extension_flag h then 1 else 0) in
          if length r < n \<or> \<not> has_size_field h then Some []
          else
            (case read_leb128 (drop n r) of
               None \<Rightarrow> Some []
             | Some (sz, consumed) \<Rightarrow>
                 let i = i + 1 + n + consumed; r = drop (n + consumed) r; len = unat sz in
                 if 2 ^ 64 \<le> i + len then None
                 else if length r < len then Some []
                 else map_option (\<lambda>os. (h, take len r) # os) (split_from (i + len) (drop len r))))"
  by pat_completeness auto
termination
  by (relation "measure (\<lambda>(i, xs). length xs)") auto

declare split_from.simps [simp del]

definition split_obus :: "byte list \<Rightarrow> (ObuHeader \<times> byte list) list option" where
  "split_obus xs = split_from 0 xs"

section \<open>Keyframes\<close>

definition read_bit :: "byte list \<Rightarrow> nat \<Rightarrow> bool" where
  "read_bit xs k \<longleftrightarrow>
     (if length xs \<le> k div 8 then False else drop_bit (7 - k mod 8) (xs ! (k div 8)) AND 1 \<noteq> 0)"

fun read_bits :: "byte list \<Rightarrow> nat \<Rightarrow> nat \<Rightarrow> u8 \<Rightarrow> u8" where
  "read_bits xs k 0 val = val"
| "read_bits xs k (Suc n) val =
     read_bits xs (k + 1) n (push_bit 1 val OR (if read_bit xs k then 1 else 0))"

fun first_frame_is_key :: "(ObuHeader \<times> byte list) list \<Rightarrow> bool" where
  "first_frame_is_key [] = False"
| "first_frame_is_key ((h, pl) # os) =
     (if \<not> (obu_type h = FRAME_HEADER \<or> obu_type h = FRAME) \<or> pl = [] then first_frame_is_key os
      else if read_bit pl 0 then first_frame_is_key os
      else read_bits pl 1 2 0 = 0)"

definition is_keyframe_obu :: "byte list \<Rightarrow> bool option" where
  "is_keyframe_obu xs = map_option first_frame_is_key (split_obus xs)"

section \<open>Framer and depacketizer\<close>

definition encode_obu :: "ObuHeader \<times> byte list \<Rightarrow> byte list" where
  "encode_obu o' = (case o' of (h, pl) \<Rightarrow> to_byte h # write_leb128 (of_nat (length pl)) @ pl)"

fun frame_loop :: "nat \<Rightarrow> (ObuHeader \<times> byte list) list \<Rightarrow> byte list list \<Rightarrow> byte list \<Rightarrow> byte list list" where
  "frame_loop m [] pkts cur = (if cur \<noteq> [] then pkts @ [cur] else pkts)"
| "frame_loop m (o' # os) pkts cur =
     (let d = encode_obu o' in
      if cur \<noteq> [] \<and> m < length cur + length d then frame_loop m os (pkts @ [cur]) d
      else frame_loop m os pkts (cur @ d))"

definition av1_frame :: "nat \<Rightarrow> byte list \<Rightarrow> byte list list option" where
  "av1_frame m au = map_option (\<lambda>os. if os = [] then [] else frame_loop m os [] []) (split_obus au)"

text \<open>The depacketizer is its buffer.\<close>

definition av1_push :: "byte list \<Rightarrow> bool \<Rightarrow> byte list \<Rightarrow> byte list option \<times> byte list" where
  "av1_push pl is_end buf =
     (let buf = buf @ pl in if is_end \<and> buf \<noteq> [] then (Some buf, []) else (None, buf))"

definition av1_reset :: "byte list \<Rightarrow> byte list" where
  "av1_reset buf = []"

section \<open>LEB128 round trip\<close>

lemma seven_bits: "(0x7F :: 'a::len word) = mask 7"
  by (simp add: mask_eq_decr_exp)

lemma leb_byte:
  fixes v :: u64
  defines "b \<equiv> ucast (v AND 0x7F) :: byte"
  shows "b AND 0x80 = 0" "(b OR 0x80) AND 0x80 \<noteq> 0" "(b OR 0x80) AND 0x7F = b" "b AND 0x7F = b"
    "ucast b = v AND 0x7F"
proof -
  have b7: "b AND 0x7F = b"
    unfolding b_def seven_bits by (rule bit_word_eqI) (auto simp: bit_simps)
  then show "b AND 0x7F = b" .
  have "b AND 0x80 = (b AND 0x7F) AND 0x80" by (simp only: b7)
  also have "\<dots> = b AND (0x7F AND 0x80)" by (rule and.assoc)
  finally show z: "b AND 0x80 = 0" by simp
  show "(b OR 0x80) AND 0x80 \<noteq> 0" by (simp only: word_ao_dist z) simp
  show "(b OR 0x80) AND 0x7F = b" by (simp only: word_ao_dist b7) simp
  show "ucast b = v AND 0x7F"
    unfolding b_def seven_bits by (rule bit_word_eqI) (auto simp: bit_simps)
qed

lemma leb_join:
  fixes v :: u64
  shows "push_bit s (v AND 0x7F) OR push_bit (s + 7) (drop_bit 7 v) = push_bit s v"
proof (rule bit_word_eqI)
  fix n
  assume "n < LENGTH(64)"
  moreover have "7 \<le> n - s \<Longrightarrow> 7 + (n - (s + 7)) = n - s" by simp
  ultimately show "bit (push_bit s (v AND 0x7F) OR push_bit (s + 7) (drop_bit 7 v)) n = bit (push_bit s v) n"
    unfolding seven_bits by (cases "n - s < 7") (auto simp: bit_simps)
qed

lemma read_write_loop:
  "s < 64 \<Longrightarrow> unat v < 2 ^ (64 - s) \<Longrightarrow>
   read_leb_loop (write_leb128 v @ rest) acc s i =
     Some (acc OR push_bit s v, i + length (write_leb128 v))"
proof (induction v arbitrary: acc s i rule: write_leb128.induct)
  case (1 v)
  let ?b = "ucast (v AND 0x7F) :: byte" and ?v = "drop_bit 7 v"
  show ?case
  proof (cases "?v = 0")
    case True
    then have "push_bit s v = push_bit s (v AND 0x7F)" using leb_join[of s v] by simp
    moreover have "write_leb128 v = [?b]"
      using True by (subst write_leb128.simps) (simp add: Let_def)
    ultimately show ?thesis using leb_byte[of v] by (simp add: Let_def)
  next
    case False
    have "unat ?v = unat v div 128" by (rule unat_drop7)
    moreover have "unat ?v \<noteq> 0" using False by (simp add: unat_eq_0)
    ultimately have big: "128 \<le> unat v" by (simp add: div_eq_0_iff not_less)
    have "7 < 64 - s"
    proof (rule ccontr)
      assume "\<not> 7 < 64 - s"
      then have "(2::nat) ^ (64 - s) \<le> 2 ^ 7" by (intro power_increasing) simp_all
      then show False using big "1.prems"(2) by simp
    qed
    then have s: "s + 7 < 64" "64 - s = 7 + (64 - (s + 7))" by simp_all
    have "unat ?v < 2 ^ (64 - (s + 7))"
    proof -
      have "unat v < 2 ^ (7 + (64 - (s + 7)))" using "1.prems"(2) by (simp only: s(2)[symmetric])
      then have "unat v < 2 ^ (64 - (s + 7)) * 128" by (simp only: power_add) simp
      then show ?thesis unfolding unat_drop7 by (rule less_mult_imp_div_less)
    qed
    then have ih: "read_leb_loop (write_leb128 ?v @ rest) acc' (s + 7) j =
        Some (acc' OR push_bit (s + 7) ?v, j + length (write_leb128 ?v))" for acc' j
      using "1.IH"[OF refl refl False, of "s + 7"] s(1) by blast
    have "write_leb128 v = (?b OR 0x80) # write_leb128 ?v"
      using False by (subst write_leb128.simps) (simp add: Let_def)
    moreover have "read_leb_loop ((?b OR 0x80) # bs) acc s i =
        read_leb_loop bs (acc OR push_bit s (v AND 0x7F)) (s + 7) (i + 1)" for bs
    proof -
      have no: "((?b OR 0x80) AND 0x80 = 0) = False" "(64 \<le> s + 7) = False"
        using leb_byte(2)[of v] s(1) by simp_all
      show ?thesis
        by (simp only: read_leb_loop.simps Let_def no if_False leb_byte(3)[of v] leb_byte(5)[of v])
    qed
    ultimately have "read_leb_loop (write_leb128 v @ rest) acc s i =
        Some ((acc OR push_bit s (v AND 0x7F)) OR push_bit (s + 7) ?v, i + 1 + length (write_leb128 ?v))"
      by (simp only: append_Cons ih)
    moreover have "length (write_leb128 v) = Suc (length (write_leb128 ?v))"
      using \<open>write_leb128 v = (?b OR 0x80) # write_leb128 ?v\<close> by simp
    ultimately show ?thesis by (simp only: or.assoc leb_join) simp
  qed
qed

lemma leb128_length: "length (write_leb128 v) \<le> 10"
proof -
  have len: "unat v < 2 ^ (7 * k) \<Longrightarrow> 0 < k \<Longrightarrow> length (write_leb128 v) \<le> k" for k v
  proof (induction k arbitrary: v)
    case (Suc k)
    have "unat (drop_bit 7 v) < 2 ^ (7 * k)"
    proof -
      have "unat v < 2 ^ (7 * k) * 128" using Suc.prems(1) by (simp add: power_add)
      then show ?thesis unfolding unat_drop7 by (rule less_mult_imp_div_less)
    qed
    moreover have "k = 0 \<Longrightarrow> drop_bit 7 v = 0"
      using \<open>unat (drop_bit 7 v) < 2 ^ (7 * k)\<close> by (simp add: unat_eq_0)
    ultimately show ?case
      using Suc.IH[of "drop_bit 7 v"] by (subst write_leb128.simps) (auto simp: Let_def)
  qed simp
  have "unat v < 2 ^ (7 * 10)" by (rule less_trans[OF unsigned_less]) simp
  then show ?thesis using len[of v 10] by simp
qed

lemma read_leb128_write: "read_leb128 (write_leb128 v @ rest) = Some (v, length (write_leb128 v))"
  using read_write_loop[of 0 v rest 0 0] unsigned_less[of v] by (simp add: read_leb128_def)

text \<open>
  Also (LEB128 sizes survive).  Reading back what \<open>write_leb128\<close> wrote gives the value and exactly
  the bytes written, for every 64-bit value and whatever follows; at most ten bytes are written.
\<close>

theorem leb128_roundtrip:
  "read_leb128 (write_leb128 v @ rest) = Some (v, length (write_leb128 v)) \<and>
   length (write_leb128 v) \<le> 10"
  using read_leb128_write leb128_length by blast

section \<open>Headers and streams\<close>

lemma nibble: "(0x0F :: byte) = mask 4"
  by (simp add: mask_eq_decr_exp)

lemma bit_to_byte:
  "bit (to_byte h) n \<longleftrightarrow> 3 \<le> n \<and> n < 7 \<and> bit (obu_type h) (n - 3) \<or> has_size_field h \<and> n = 1 \<or>
     extension_flag h \<and> n = 0"
  unfolding to_byte_def nibble by (auto simp: bit_simps)

lemma from_to_byte: "obu_type h = t AND 0x0F \<Longrightarrow> from_byte (to_byte h) = h"
proof -
  assume t: "obu_type h = t AND 0x0F"
  have "drop_bit 3 (to_byte h) AND 0x0F = obu_type h"
    unfolding nibble by (rule bit_word_eqI) (auto simp: bit_to_byte bit_simps t[unfolded nibble])
  moreover have "drop_bit 1 (to_byte h) AND 1 \<noteq> 0 \<longleftrightarrow> has_size_field h"
    using bit_to_byte[of h 1] bit_iff_odd_drop_bit[of "to_byte h" 1]
    by (simp add: and_one_eq odd_iff_mod_2_eq_one)
  moreover have "to_byte h AND 1 \<noteq> 0 \<longleftrightarrow> extension_flag h"
    using bit_to_byte[of h 0] by (simp add: and_one_eq bit_0 odd_iff_mod_2_eq_one)
  ultimately show ?thesis by (simp add: from_byte_def)
qed

definition obu_ok :: "ObuHeader \<times> byte list \<Rightarrow> bool" where
  "obu_ok o' \<longleftrightarrow> obu_type (fst o') AND 0x0F = obu_type (fst o') \<and> has_size_field (fst o') \<and>
     \<not> extension_flag (fst o')"

definition obu_stream :: "(ObuHeader \<times> byte list) list \<Rightarrow> byte list" where
  "obu_stream os = concat (map encode_obu os)"

lemma split_stream:
  "\<forall>o' \<in> set os. obu_ok o' \<Longrightarrow> i + length (obu_stream os) < 2 ^ 64 \<Longrightarrow>
   split_from i (obu_stream os) = Some os"
proof (induction os arbitrary: i)
  case Nil
  then show ?case by (simp add: obu_stream_def split_from.simps)
next
  case (Cons o' os)
  obtain h pl where o': "o' = (h, pl)" by (cases o')
  let ?leb = "write_leb128 (of_nat (length pl))"
  have ok: "from_byte (to_byte h) = h" "has_size_field h" "\<not> extension_flag h"
    using Cons.prems(1) from_to_byte[of h "obu_type h"] by (auto simp: obu_ok_def o')
  have stream: "obu_stream (o' # os) = to_byte h # ?leb @ pl @ obu_stream os"
    by (simp add: obu_stream_def encode_obu_def o')
  have "length pl < 2 ^ 64" using Cons.prems(2) by (simp add: stream)
  then have len: "unat (of_nat (length pl) :: u64) = length pl" by (simp add: unat_of_nat)
  have "split_from (i + 1 + length ?leb + length pl) (obu_stream os) = Some os"
    using Cons.prems by (intro Cons.IH) (auto simp: stream)
  moreover have "i + (1 + (length pl + length ?leb)) < 2 ^ 64"
    using Cons.prems(2) by (simp add: stream)
  ultimately show ?case
    unfolding stream
    using ok len Cons.prems(2) read_leb128_write[of "of_nat (length pl)" "pl @ obu_stream os"]
    by (subst split_from.simps) (simp add: Let_def o' stream ac_simps)
qed

lemma frame_loop_concat: "concat (frame_loop m os pkts cur) = concat pkts @ cur @ obu_stream os"
proof (induction os arbitrary: pkts cur)
  case (Cons o' os)
  then show ?case by (simp add: Let_def obu_stream_def)
qed (simp add: obu_stream_def)

lemma encode_obu_nonempty: "encode_obu o' \<noteq> []"
  by (simp add: encode_obu_def split: prod.split)

lemma frame_loop_nonempty: "[] \<notin> set pkts \<Longrightarrow> [] \<notin> set (frame_loop m os pkts cur)"
proof (induction os arbitrary: pkts cur)
  case (Cons o' os)
  show ?case
    using Cons.IH[of "pkts @ [cur]" "encode_obu o'"] Cons.IH[of pkts "cur @ encode_obu o'"] Cons.prems
    by (auto simp: Let_def)
qed simp

lemma frame_loop_bounded:
  assumes "\<forall>p \<in> set pkts. length p \<le> m \<or> p \<in> encode_obu ` S"
    and "cur = [] \<or> length cur \<le> m \<or> cur \<in> encode_obu ` S" and "set os \<subseteq> S"
  shows "\<forall>p \<in> set (frame_loop m os pkts cur). length p \<le> m \<or> p \<in> encode_obu ` S"
  using assms
proof (induction os arbitrary: pkts cur)
  case (Cons o' os)
  have step: "frame_loop m (o' # os) pkts cur =
      (if cur \<noteq> [] \<and> m < length cur + length (encode_obu o')
       then frame_loop m os (pkts @ [cur]) (encode_obu o') else frame_loop m os pkts (cur @ encode_obu o'))"
    by (simp add: Let_def)
  have o': "encode_obu o' \<in> encode_obu ` S" and os: "set os \<subseteq> S" using Cons.prems(3) by auto
  show ?case
  proof (cases "cur \<noteq> [] \<and> m < length cur + length (encode_obu o')")
    case True
    have "\<forall>p \<in> set (pkts @ [cur]). length p \<le> m \<or> p \<in> encode_obu ` S"
      using Cons.prems(1,2) True by simp
    from Cons.IH[OF this _ os, of "encode_obu o'"] o' show ?thesis
      unfolding step if_P[OF True] by blast
  next
    case False
    have "cur @ encode_obu o' = [] \<or> length (cur @ encode_obu o') \<le> m \<or> cur @ encode_obu o' \<in> encode_obu ` S"
      using False o' by (cases "cur = []") simp_all
    from Cons.IH[OF Cons.prems(1) this os] show ?thesis
      unfolding step using False by (simp only: if_False)
  qed
qed auto

text \<open>A receiver that is given the packets in order, the last one marked as the frame's end.\<close>

fun av1_receive :: "byte list list \<Rightarrow> byte list \<Rightarrow> byte list option list" where
  "av1_receive [] buf = []"
| "av1_receive (p # ps) buf = (let (r, buf) = av1_push p (ps = []) buf in r # av1_receive ps buf)"

lemma av1_receive_all:
  "pkts \<noteq> [] \<Longrightarrow> concat pkts \<noteq> [] \<or> buf \<noteq> [] \<Longrightarrow>
   av1_receive pkts buf = replicate (length pkts - 1) None @ [Some (buf @ concat pkts)]"
proof (induction pkts arbitrary: buf)
  case (Cons p ps)
  show ?case
  proof (cases "ps = []")
    case True
    then show ?thesis using Cons.prems by (auto simp: av1_push_def Let_def)
  next
    case False
    moreover have "concat ps \<noteq> [] \<or> buf @ p \<noteq> []" using Cons.prems(2) by auto
    ultimately have ih: "av1_receive ps (buf @ p) =
        replicate (length ps - 1) None @ [Some ((buf @ p) @ concat ps)]"
      using Cons.IH by blast
    have step: "av1_receive (p # ps) buf = None # av1_receive ps (buf @ p)"
      using False by (simp add: av1_push_def Let_def)
    show ?thesis unfolding step ih using False by (cases ps) simp_all
  qed
qed simp

text \<open>
  Also (AV1 frames survive packetizing).  A temporal unit of sized OBUs without extension headers
  splits into exactly those OBUs; the framer's packets hold whole OBUs, each packet within the
  limit unless it is one OBU that is too large; and the depacketizer returns the unit with the
  last packet.
\<close>

theorem av1_roundtrip:
  assumes "\<forall>o' \<in> set os. obu_ok o'" and "os \<noteq> []" and "length (obu_stream os) < 2 ^ 64"
  shows "split_obus (obu_stream os) = Some os \<and>
    (\<exists>pkts. av1_frame m (obu_stream os) = Some pkts \<and>
      (\<forall>p \<in> set pkts. length p \<le> m \<or> p \<in> encode_obu ` set os) \<and>
      av1_receive pkts [] = replicate (length pkts - 1) None @ [Some (obu_stream os)])"
proof -
  have split: "split_obus (obu_stream os) = Some os"
    using split_stream[OF assms(1), of 0] assms(3) by (simp add: split_obus_def)
  let ?pkts = "frame_loop m os [] []"
  have c: "concat ?pkts = obu_stream os" using frame_loop_concat[of m os "[]" "[]"] by simp
  have ne: "obu_stream os \<noteq> []"
    using assms(2) encode_obu_nonempty by (cases os) (auto simp: obu_stream_def)
  then have "?pkts \<noteq> []" using c by auto
  then have "av1_receive ?pkts [] = replicate (length ?pkts - 1) None @ [Some (obu_stream os)]"
    using av1_receive_all[of ?pkts "[]"] c ne by simp
  moreover have "\<forall>p \<in> set ?pkts. length p \<le> m \<or> p \<in> encode_obu ` set os"
    by (rule frame_loop_bounded) simp_all
  ultimately show ?thesis using split assms(2) by (simp add: av1_frame_def)
qed

definition demo_obus :: "(ObuHeader \<times> byte list) list" where
  "demo_obus = [(\<lparr>obu_type = 2, has_size_field = True, extension_flag = False\<rparr>, []),
                (\<lparr>obu_type = 6, has_size_field = True, extension_flag = False\<rparr>, [0x10, 7, 8])]"

lemma demo_obus_ok: "\<forall>o' \<in> set demo_obus. obu_ok o'" "demo_obus \<noteq> []"
  "length (obu_stream demo_obus) < 2 ^ 64"
proof -
  have "length (write_leb128 v) \<le> 10" for v using leb128_length[of v] .
  from this[of 0] this[of 3] show "length (obu_stream demo_obus) < 2 ^ 64"
    by (simp add: demo_obus_def obu_stream_def encode_obu_def)
qed (simp_all add: demo_obus_def obu_ok_def)

lemma av1_roundtrip_witness:
  "split_obus (obu_stream demo_obus) = Some demo_obus \<and>
    (\<exists>pkts. av1_frame 4 (obu_stream demo_obus) = Some pkts \<and>
      (\<forall>p \<in> set pkts. length p \<le> 4 \<or> p \<in> encode_obu ` set demo_obus) \<and>
      av1_receive pkts [] = replicate (length pkts - 1) None @ [Some (obu_stream demo_obus)])"
  by (rule av1_roundtrip[OF demo_obus_ok])

section \<open>Where the format breaks\<close>

text \<open>
  Also (extension headers are lost).  Framing an OBU that has an extension header drops the
  extension byte but keeps the flag that announces it, so the bytes sent differ from the
  access unit and their reader takes the size for the extension.
\<close>

theorem extension_header_lost:
  assumes "obu_type h AND 0x0F = obu_type h" and "has_size_field h" and "extension_flag h"
    and "length pl + 12 < 2 ^ 64"
  defines "leb \<equiv> write_leb128 (of_nat (length pl))"
  shows "av1_frame m (to_byte h # e # leb @ pl) = Some [to_byte h # leb @ pl] \<and>
    extension_flag (from_byte (to_byte h))"
proof -
  have h: "from_byte (to_byte h) = h" using from_to_byte[of h "obu_type h"] assms(1) by simp
  have "length pl < 2 ^ 64" using assms(4) by simp
  then have len: "unat (of_nat (length pl) :: u64) = length pl" by (simp add: unat_of_nat)
  have "length leb \<le> 10" using leb128_length by (simp add: leb_def)
  then have fits: "\<not> 2 ^ 64 \<le> 0 + 1 + 1 + length leb + length pl" using assms(4) by simp
  have "split_obus (to_byte h # e # leb @ pl) = Some [(h, pl)]"
    using h assms(2,3) len fits read_leb128_write[of "of_nat (length pl)" pl]
    by (simp add: split_obus_def split_from.simps[of 0] split_from.simps[of _ "[]"] Let_def leb_def)
  then show ?thesis
    using h assms(3) by (simp add: av1_frame_def encode_obu_def leb_def)
qed

lemma extension_header_lost_witness:
  "let h = \<lparr>obu_type = 6, has_size_field = True, extension_flag = True\<rparr>; leb = write_leb128 (of_nat 2) in
   av1_frame 100 (to_byte h # 0x20 # leb @ [1, 2]) = Some [to_byte h # leb @ [1, 2]] \<and>
   extension_flag (from_byte (to_byte h))"
  using extension_header_lost[of "\<lparr>obu_type = 6, has_size_field = True, extension_flag = True\<rparr>" "[1, 2]"
      100 "0x20"]
  by (simp add: Let_def)

text \<open>
  Also (a forged size panics).  An OBU whose size field reaches beyond the 64-bit address space
  does not make the splitter stop, it makes it panic, whatever the rest of the data is.
\<close>

theorem forged_size_panics:
  assumes "obu_type h AND 0x0F = obu_type h" and "has_size_field h" and "\<not> extension_flag h"
    and "2 ^ 64 \<le> 1 + length (write_leb128 v) + unat v"
  shows "split_obus (to_byte h # write_leb128 v @ rest) = None"
proof -
  have h: "from_byte (to_byte h) = h" using from_to_byte[of h "obu_type h"] assms(1) by simp
  show ?thesis
    using h assms(2-4) read_leb128_write[of v rest]
    by (simp add: split_obus_def split_from.simps[of 0] Let_def)
qed

lemma forged_size_panics_witness:
  "split_obus (to_byte \<lparr>obu_type = 6, has_size_field = True, extension_flag = False\<rparr>
     # write_leb128 (- 1) @ [1, 2, 3]) = None"
proof (rule forged_size_panics)
  have "unat (- 1 :: u64) = 2 ^ 64 - 1" by (simp add: unsigned_minus_1_eq_mask mask_eq_exp_minus_1)
  then show "2 ^ 64 \<le> 1 + length (write_leb128 (- 1)) + unat (- 1 :: u64)" by simp
qed simp_all

end
