(* ===== verification/Nack.thy ===== *)
theory Nack
  imports BTree Prelude
begin

text \<open>
  Retransmission of video packets, \<open>crates/wzp-video/src/nack.rs\<close>: the sender's cache of recent
  packets, and the receiver that turns gaps into negative acknowledgements or picture-loss
  indications.  Times and durations are in nanoseconds; \<open>duration_since\<close> saturates at zero.
\<close>

abbreviation (input) SEC :: nat where "SEC \<equiv> 1000000000"

section \<open>The sender's cache\<close>

record CachedPacket =
  cp_seq :: u32
  cp_data :: "byte list"
  cp_timestamp_ms :: u64

datatype NackAction = Nack "u32 list" | PictureLossIndication

record NackSender =
  sent :: "(nat \<times> CachedPacket) list"
  max_age :: nat

definition sender_new :: NackSender where
  "sender_new = \<lparr>sent = [], max_age = 500000000\<rparr>"

definition on_send :: "CachedPacket \<Rightarrow> nat \<Rightarrow> NackSender \<Rightarrow> NackSender" where
  "on_send pkt now s = s\<lparr>sent := sent s @ [(now, pkt)]\<rparr>"

definition sender_evict :: "nat \<Rightarrow> NackSender \<Rightarrow> NackSender" where
  "sender_evict now s = s\<lparr>sent := filter (\<lambda>(t, _). now - t \<le> max_age s) (sent s)\<rparr>"

fun find_seq :: "u32 \<Rightarrow> (nat \<times> CachedPacket) list \<Rightarrow> CachedPacket option" where
  "find_seq s [] = None"
| "find_seq s ((t, p) # xs) = (if cp_seq p = s then Some p else find_seq s xs)"

definition on_nack :: "u32 list \<Rightarrow> nat \<Rightarrow> NackSender \<Rightarrow> CachedPacket list \<times> NackSender" where
  "on_nack seqs now s =
     (let s = sender_evict now s in
      (concat (map (\<lambda>q. case find_seq q (sent s) of None \<Rightarrow> [] | Some p \<Rightarrow> [p]) seqs), s))"

definition sender_tick :: "nat \<Rightarrow> NackSender \<Rightarrow> NackSender" where
  "sender_tick now s = sender_evict now s"

section \<open>The receiver\<close>

record NackReceiver =
  frame_interval :: nat
  rtt :: nat
  missing :: "(u32, nat) btree"
  last_nack :: "(u32, nat) btree"
  next_expected :: u32
  nacks_this_sec :: nat
  sec_window :: nat
  max_nack_rate :: nat

definition receiver_new :: "nat \<Rightarrow> nat \<Rightarrow> nat \<Rightarrow> NackReceiver" where
  "receiver_new now interval r =
     \<lparr>frame_interval = interval, rtt = r, missing = [], last_nack = [], next_expected = 0,
      nacks_this_sec = 0, sec_window = now, max_nack_rate = 50\<rparr>"

definition set_rtt :: "nat \<Rightarrow> NackReceiver \<Rightarrow> NackReceiver" where
  "set_rtt r nr = nr\<lparr>rtt := r\<rparr>"

definition advance_rate_window :: "nat \<Rightarrow> NackReceiver \<Rightarrow> NackReceiver" where
  "advance_rate_window now nr =
     (if SEC \<le> now - sec_window nr then nr\<lparr>sec_window := now, nacks_this_sec := 0\<rparr> else nr)"

definition note_missing :: "nat \<Rightarrow> u32 \<Rightarrow> (u32, nat) btree \<Rightarrow> (u32, nat) btree" where
  "note_missing now s m = (if bt_lookup m s = None then bt_insert s now m else m)"

definition forget :: "u32 \<Rightarrow> NackReceiver \<Rightarrow> NackReceiver" where
  "forget s nr = nr\<lparr>missing := bt_remove s (missing nr), last_nack := bt_remove s (last_nack nr)\<rparr>"

definition on_packet :: "u32 \<Rightarrow> nat \<Rightarrow> NackReceiver \<Rightarrow> NackReceiver" where
  "on_packet s now nr =
     (let nr = advance_rate_window now nr; ahead = s - next_expected nr in
      if ahead = 0 then forget s (nr\<lparr>next_expected := next_expected nr + 1\<rparr>)
      else if ahead < 0x7FFFFFFF then
        let m = fold (\<lambda>k. note_missing now (next_expected nr + of_nat k)) [0..<unat ahead] (missing nr) in
        forget s (nr\<lparr>missing := m, next_expected := s + 1\<rparr>)
      else forget s nr)"

definition due :: "nat \<Rightarrow> NackReceiver \<Rightarrow> u32 \<times> nat \<Rightarrow> bool" where
  "due now nr e = (case e of (s, noticed_at) \<Rightarrow>
     frame_interval nr \<le> now - noticed_at \<and>
     (case bt_lookup (last_nack nr) s of None \<Rightarrow> True | Some t \<Rightarrow> rtt nr * 2 \<le> now - t))"

definition nack_tick :: "nat \<Rightarrow> NackReceiver \<Rightarrow> NackAction list \<times> NackReceiver" where
  "nack_tick now nr =
     (let nr = advance_rate_window now nr; seqs = map fst (filter (due now nr) (missing nr)) in
      if seqs = [] then ([], nr)
      else if rtt nr < frame_interval nr * 2 then
        let budget = max_nack_rate nr - nacks_this_sec nr in
        if budget = 0 then ([PictureLossIndication], nr)
        else
          let seqs = take budget seqs in
          ([Nack seqs],
           nr\<lparr>nacks_this_sec := nacks_this_sec nr + length seqs,
              last_nack := fold (\<lambda>s m. bt_insert s now m) seqs (last_nack nr)\<rparr>)
      else ([PictureLossIndication], nr))"

datatype nack_op = Packet u32 nat | Tick nat | Rtt nat

fun nack_step :: "nack_op \<Rightarrow> NackReceiver \<Rightarrow> NackAction list \<times> NackReceiver" where
  "nack_step (Packet s now) nr = ([], on_packet s now nr)"
| "nack_step (Tick now) nr = nack_tick now nr"
| "nack_step (Rtt r) nr = ([], set_rtt r nr)"

fun nack_run :: "nack_op list \<Rightarrow> NackReceiver \<Rightarrow> NackAction list \<times> NackReceiver" where
  "nack_run [] nr = ([], nr)"
| "nack_run (e # es) nr =
     (let (a, nr) = nack_step e nr; (as, nr) = nack_run es nr in (a @ as, nr))"

section \<open>The gaps are tracked exactly\<close>

lemma advance_rate_window_simps [simp]:
  "missing (advance_rate_window now nr) = missing nr"
  "last_nack (advance_rate_window now nr) = last_nack nr"
  "next_expected (advance_rate_window now nr) = next_expected nr"
  "rtt (advance_rate_window now nr) = rtt nr"
  "frame_interval (advance_rate_window now nr) = frame_interval nr"
  "max_nack_rate (advance_rate_window now nr) = max_nack_rate nr"
  by (simp_all add: advance_rate_window_def)

lemma lookup_note_missing:
  "bt_lookup (note_missing now s m) k \<noteq> None \<longleftrightarrow> k = s \<or> bt_lookup m k \<noteq> None"
  by (auto simp: note_missing_def)

lemma lookup_note_all:
  "bt_lookup (fold (\<lambda>k. note_missing now (b + of_nat k)) ks m) j \<noteq> None \<longleftrightarrow>
     (\<exists>k \<in> set ks. j = b + of_nat k) \<or> bt_lookup m j \<noteq> None"
  by (induction ks arbitrary: m) (auto simp: lookup_note_missing simp del: not_None_eq)

lemma nack_tick_missing [simp]:
  "missing (snd (nack_tick now nr)) = missing nr"
  "next_expected (snd (nack_tick now nr)) = next_expected nr"
  by (simp_all add: nack_tick_def Let_def)

text \<open>The numbers received so far, in a stream that does not wrap.\<close>

fun received :: "nack_op list \<Rightarrow> u32 set" where
  "received [] = {}"
| "received (Packet s now # es) = insert s (received es)"
| "received (_ # es) = received es"

definition tracks_gaps :: "u32 set \<Rightarrow> NackReceiver \<Rightarrow> bool" where
  "tracks_gaps R nr \<longleftrightarrow>
     (\<forall>s. bt_lookup (missing nr) s \<noteq> None \<longleftrightarrow> s < next_expected nr \<and> s \<notin> R) \<and>
     (\<forall>s \<in> R. s < next_expected nr) \<and> next_expected nr \<le> 0x7FFFFFFF"

lemma word_interval:
  fixes a s :: u32
  assumes "a \<le> s"
  shows "(\<exists>k \<in> set [0..<unat (s - a)]. j = a + of_nat k) \<longleftrightarrow> a \<le> j \<and> j < s"
proof
  have len: "unat (s - a) = unat s - unat a"
    using assms by (simp add: unat_sub)
  assume "\<exists>k \<in> set [0..<unat (s - a)]. j = a + of_nat k"
  then obtain k where k: "k < unat s - unat a" "j = a + of_nat k"
    by (auto simp: len)
  have "unat s < 2 ^ 32"
    by (rule order.strict_trans2[OF unsigned_less]) simp
  with k have "unat j = unat a + k"
    by (simp add: unat_word_ariths unat_of_nat)
  with k show "a \<le> j \<and> j < s"
    by (simp add: word_le_nat_alt word_less_nat_alt)
next
  assume j: "a \<le> j \<and> j < s"
  have "unat (j - a) = unat j - unat a" "unat (s - a) = unat s - unat a"
    using j assms by (simp_all add: unat_sub)
  then have "unat (j - a) \<in> set [0..<unat (s - a)]"
    using j by (auto simp: word_le_nat_alt word_less_nat_alt)
  moreover have "j = a + of_nat (unat (j - a))"
    by simp
  ultimately show "\<exists>k \<in> set [0..<unat (s - a)]. j = a + of_nat k" ..
qed

lemma ahead_of_late:
  fixes s n :: u32
  assumes "s < n" and "n \<le> 0x7FFFFFFF"
  shows "\<not> s - n < 0x7FFFFFFF" and "s - n \<noteq> 0"
proof -
  have "unat s < unat n" "unat n \<le> 0x7FFFFFFF"
    using assms by (simp_all add: word_less_nat_alt word_le_nat_alt)
  then have "unat (s - n) = 2 ^ 32 - (unat n - unat s)"
    by (simp add: unat_sub_if')
  with \<open>unat s < unat n\<close> \<open>unat n \<le> 0x7FFFFFFF\<close> show "\<not> s - n < 0x7FFFFFFF"
    by (simp add: word_less_nat_alt)
  show "s - n \<noteq> 0"
    using assms(1) by simp
qed

lemma lookup_forget:
  "bt_lookup (missing (forget s nr)) k = (if k = s then None else bt_lookup (missing nr) k)"
  by (simp add: forget_def)

lemma next_expected_forget [simp]: "next_expected (forget s nr) = next_expected nr"
  by (simp add: forget_def)

lemma on_packet_next:
  assumes "next_expected nr \<le> 0x7FFFFFFF" and "s < 0x7FFFFFFF"
  shows "next_expected (on_packet s now nr) =
     (if s < next_expected nr then next_expected nr else s + 1)"
proof (cases "s < next_expected nr")
  case True
  with ahead_of_late[OF True assms(1)] show ?thesis
    by (simp add: on_packet_def Let_def)
next
  case False
  have "s - next_expected nr \<le> s"
    using False by (simp add: word_sub_le)
  then have "s - next_expected nr < 0x7FFFFFFF"
    using assms(2) by (rule order.strict_trans1)
  with False show ?thesis
    by (auto simp: on_packet_def Let_def)
qed

lemma on_packet_missing:
  assumes "next_expected nr \<le> 0x7FFFFFFF" and "s < 0x7FFFFFFF"
  shows "bt_lookup (missing (on_packet s now nr)) j \<noteq> None \<longleftrightarrow>
     j \<noteq> s \<and> ((next_expected nr \<le> j \<and> j < s) \<or> bt_lookup (missing nr) j \<noteq> None)"
proof (cases "s < next_expected nr")
  case True
  with ahead_of_late[OF True assms(1)] show ?thesis
    by (auto simp: on_packet_def Let_def lookup_forget)
next
  case False
  then have le: "next_expected nr \<le> s"
    by simp
  have "s - next_expected nr \<le> s"
    using False by (simp add: word_sub_le)
  then have "s - next_expected nr < 0x7FFFFFFF"
    using assms(2) by (rule order.strict_trans1)
  then show ?thesis
    using lookup_note_all[of now "next_expected nr" "[0..<unat (s - next_expected nr)]"
        "missing nr" j] word_interval[OF le, of j]
    by (auto simp: on_packet_def Let_def lookup_forget simp del: not_None_eq)
qed

lemma tracks_gaps_packet:
  assumes "tracks_gaps R nr" and s: "s < 0x7FFFFFFF"
  shows "tracks_gaps (insert s R) (on_packet s now nr)"
proof -
  let ?n = "next_expected nr"
  have n: "?n \<le> 0x7FFFFFFF" and R: "\<And>x. x \<in> R \<Longrightarrow> x < ?n"
    and m: "\<And>x. bt_lookup (missing nr) x \<noteq> None \<longleftrightarrow> x < ?n \<and> x \<notin> R"
    using assms(1) by (auto simp: tracks_gaps_def)
  have "unat (s + 1) = unat s + 1"
    using s by (simp add: word_less_nat_alt unat_word_ariths)
  then have up: "x < s + 1 \<longleftrightarrow> x \<le> s" "s + 1 \<le> 0x7FFFFFFF" for x
    using s by (auto simp: word_less_nat_alt word_le_nat_alt)
  have next_eq: "next_expected (on_packet s now nr) = (if s < ?n then ?n else s + 1)"
    by (rule on_packet_next[OF n s])
  have "bt_lookup (missing (on_packet s now nr)) x \<noteq> None \<longleftrightarrow>
      x < (if s < ?n then ?n else s + 1) \<and> x \<notin> insert s R" for x
    unfolding on_packet_missing[OF n s] m using R[of x] up(1)[of x] by auto
  moreover have "\<forall>x \<in> insert s R. x < (if s < ?n then ?n else s + 1)"
    using R up(1) by fastforce
  ultimately show ?thesis
    using n up(2) unfolding tracks_gaps_def next_eq by simp
qed

fun in_first_half :: "nack_op \<Rightarrow> bool" where
  "in_first_half (Packet s now) = (s < 0x7FFFFFFF)"
| "in_first_half _ = True"

lemma tracks_gaps_run:
  assumes "tracks_gaps R nr" and "list_all in_first_half es"
  shows "tracks_gaps (R \<union> received es) (snd (nack_run es nr))"
  using assms
proof (induction es arbitrary: R nr)
  case (Cons e es)
  have "tracks_gaps (R \<union> received [e]) (snd (nack_step e nr))"
  proof (cases e)
    case (Packet s now)
    then show ?thesis
      using tracks_gaps_packet[OF Cons.prems(1)] Cons.prems(2) by simp
  qed (use Cons.prems(1) in \<open>simp_all add: tracks_gaps_def set_rtt_def\<close>)
  from Cons.IH[OF this] Cons.prems(2) show ?case
    by (cases e) (auto simp: case_prod_beta Un_assoc)
qed simp

text \<open>
  C37 (Nack.gaps_are_exact). After any sequence of arrivals, ticks and round-trip updates whose
  sequence numbers stay below 2^31 - 1, a number is listed as missing exactly when it is below the
  next expected number and has not been received, and the next expected number is above every
  number received.
\<close>

theorem gaps_are_exact:
  assumes "list_all in_first_half es"
  shows "(bt_lookup (missing (snd (nack_run es (receiver_new t interval r)))) s \<noteq> None \<longleftrightarrow>
       s < next_expected (snd (nack_run es (receiver_new t interval r))) \<and> s \<notin> received es) \<and>
     (s \<in> received es \<longrightarrow> s < next_expected (snd (nack_run es (receiver_new t interval r))))"
proof -
  have "tracks_gaps {} (receiver_new t interval r)"
    by (simp add: tracks_gaps_def receiver_new_def)
  from tracks_gaps_run[OF this assms] show ?thesis
    by (simp add: tracks_gaps_def)
qed

lemma gaps_example:
  "next_expected (snd (nack_run [Packet 0 1, Packet 4 2, Packet 2 3] (receiver_new 0 33 20))) = 5"
  by (simp add: on_packet_def receiver_new_def forget_def advance_rate_window_def)

theorem gaps_are_exact_witness:
  "bt_lookup (missing (snd (nack_run [Packet 0 1, Packet 4 2, Packet 2 3] (receiver_new 0 33 20)))) 3
     \<noteq> None"
  using gaps_are_exact[of "[Packet 0 1, Packet 4 2, Packet 2 3]" 0 33 20 3]
  unfolding gaps_example by simp

section \<open>Requests are rate-limited\<close>

fun requested :: "NackAction list \<Rightarrow> u32 list" where
  "requested [] = []"
| "requested (Nack seqs # as) = seqs @ requested as"
| "requested (PictureLossIndication # as) = requested as"

fun op_time :: "nack_op \<Rightarrow> nat" where
  "op_time (Packet s now) = now"
| "op_time (Tick now) = now"
| "op_time (Rtt r) = 0"

lemma requested_append: "requested (as @ bs) = requested as @ requested bs"
  by (induction as rule: requested.induct) simp_all

text \<open>Requests made so far, against the whole seconds the rate window has moved through.\<close>

definition within_budget :: "nat \<Rightarrow> nat \<Rightarrow> nat \<Rightarrow> NackReceiver \<Rightarrow> bool" where
  "within_budget t0 T n nr \<longleftrightarrow>
     t0 \<le> sec_window nr \<and> sec_window nr \<le> T \<and> max_nack_rate nr = 50 \<and> nacks_this_sec nr \<le> 50 \<and>
     n \<le> 50 * ((sec_window nr - t0) div SEC) + nacks_this_sec nr"

lemma within_budget_advance:
  assumes "within_budget t0 T n nr" and "now \<le> T"
  shows "within_budget t0 T n (advance_rate_window now nr)"
proof (cases "SEC \<le> now - sec_window nr")
  case True
  moreover have "t0 \<le> sec_window nr"
    using assms(1) by (simp add: within_budget_def)
  ultimately have "sec_window nr - t0 + SEC \<le> now - t0" and "t0 \<le> now"
    by linarith+
  then have "(sec_window nr - t0 + SEC) div SEC \<le> (now - t0) div SEC"
    by (intro div_le_mono)
  then have "(sec_window nr - t0) div SEC + 1 \<le> (now - t0) div SEC"
    by simp
  with assms True \<open>t0 \<le> now\<close> show ?thesis
    by (simp add: within_budget_def advance_rate_window_def)
qed (use assms in \<open>simp add: advance_rate_window_def\<close>)

lemma within_budget_forget [simp]:
  "within_budget t0 T n (forget s nr) = within_budget t0 T n nr"
  by (simp add: within_budget_def forget_def)

lemma within_budget_packet:
  assumes "within_budget t0 T n nr" and "now \<le> T"
  shows "within_budget t0 T n (on_packet s now nr)"
  using within_budget_advance[OF assms]
  by (auto simp: on_packet_def Let_def) (simp_all add: within_budget_def)

lemma within_budget_tick:
  assumes "within_budget t0 T n nr" and "now \<le> T"
  shows "within_budget t0 T (n + length (requested (fst (nack_tick now nr)))) (snd (nack_tick now nr))"
proof -
  let ?w = "advance_rate_window now nr"
  have "within_budget t0 T n ?w"
    by (rule within_budget_advance[OF assms])
  moreover have "within_budget t0 T (n + k) (?w\<lparr>nacks_this_sec := nacks_this_sec ?w + k, last_nack := l\<rparr>)"
    if "k \<le> max_nack_rate ?w - nacks_this_sec ?w" for k l
    using that \<open>within_budget t0 T n ?w\<close> by (auto simp: within_budget_def)
  ultimately show ?thesis
    by (simp add: nack_tick_def Let_def)
qed

lemma within_budget_run:
  assumes "within_budget t0 T n nr" and "\<forall>e \<in> set es. op_time e \<le> T"
  shows "within_budget t0 T (n + length (requested (fst (nack_run es nr)))) (snd (nack_run es nr))"
  using assms
proof (induction es arbitrary: n nr)
  case (Cons e es)
  have "within_budget t0 T (n + length (requested (fst (nack_step e nr)))) (snd (nack_step e nr))"
  proof (cases e)
    case (Rtt r)
    then show ?thesis using Cons.prems(1) by (simp add: within_budget_def set_rtt_def)
  qed (use Cons.prems within_budget_packet within_budget_tick in simp_all)
  from Cons.IH[OF this] Cons.prems(2) show ?case
    by (simp add: case_prod_beta requested_append add.assoc)
qed simp

text \<open>
  Also (Nack.nack_rate_cap). However many gaps the network or a sender produces, a receiver created
  at t0 asks for at most 50 packets per started second: after any operations no later than T it has
  requested at most 50 * ((T - t0) div 1 s + 1) sequence numbers.
\<close>

theorem nack_rate_cap:
  assumes "t0 \<le> T" and "\<forall>e \<in> set es. op_time e \<le> T"
  shows "length (requested (fst (nack_run es (receiver_new t0 interval r)))) \<le> 50 * ((T - t0) div SEC + 1)"
proof -
  have "within_budget t0 T 0 (receiver_new t0 interval r)"
    using assms(1) by (simp add: within_budget_def receiver_new_def)
  from within_budget_run[OF this assms(2)]
  have b: "within_budget t0 T (length (requested (fst (nack_run es (receiver_new t0 interval r)))))
      (snd (nack_run es (receiver_new t0 interval r)))"
    by simp
  moreover have "(sec_window (snd (nack_run es (receiver_new t0 interval r))) - t0) div SEC \<le> (T - t0) div SEC"
    using b by (intro div_le_mono diff_le_mono) (simp add: within_budget_def)
  ultimately show ?thesis
    by (simp add: within_budget_def)
qed

theorem nack_rate_cap_witness:
  "length (requested (fst (nack_run [Packet 0 1, Packet 2000 2, Tick 40, Tick 100] (receiver_new 0 33 20)))) \<le> 50"
  using nack_rate_cap[of 0 100 "[Packet 0 1, Packet 2000 2, Tick 40, Tick 100]" 33 20] by simp

text \<open>
  Also (Nack.requests_are_due). A tick requests only numbers that are missing, were noticed at
  least one frame interval ago and were not requested within the last two round trips; it requests
  each at most once; and it requests nothing when the round trip is two frame intervals or more.
\<close>

lemma requests_are_due:
  assumes "bt_ok (missing nr)"
  shows "distinct (requested (fst (nack_tick now nr))) \<and>
    (\<forall>s \<in> set (requested (fst (nack_tick now nr))).
       \<exists>t. (s, t) \<in> set (missing nr) \<and> due now nr (s, t) \<and> rtt nr < frame_interval nr * 2)"
proof -
  have "due now (advance_rate_window now nr) = due now nr"
    by (rule ext) (simp add: due_def split: prod.split option.split)
  moreover have "distinct (map fst (filter (due now nr) (missing nr)))"
    using assms by (metis bt_ok_def distinct_map_filter strict_sorted_iff)
  ultimately show ?thesis
    by (auto simp: nack_tick_def Let_def dest!: in_set_takeD) blast
qed

end
