(* ===== verification/Reassembly.thy ===== *)
theory Reassembly
  imports Packet BTree "HOL-Library.Multiset"
begin

text \<open>
  Video frames over datagrams, \<open>crates/wzp-video/src/transport.rs\<close>: an encoded frame is prefixed
  with its dimensions, cut into at most 255 fragments, and put together again by the receiver,
  which keys partial frames by their timestamp.
\<close>

section \<open>Sending\<close>

abbreviation (input) VIDEO_MAX_PAYLOAD :: nat where "VIDEO_MAX_PAYLOAD \<equiv> 1168"

definition VIDEO_FRAME_META_MAGIC :: "byte list" where
  "VIDEO_FRAME_META_MAGIC = [0x57, 0x5A, 0x56, 0x31]"

abbreviation (input) VIDEO_FRAME_META_LEN :: nat where "VIDEO_FRAME_META_LEN \<equiv> 8"

record VideoFrameMeta =
  meta_width :: u16
  meta_height :: u16

record ReassembledVideoFrame =
  rf_codec_id :: CodecId
  rf_is_keyframe :: bool
  rf_width :: "u16 option"
  rf_height :: "u16 option"
  rf_data :: "byte list"

definition u16_saturating :: "u32 \<Rightarrow> u16" where
  "u16_saturating w = ucast (min w 0xFFFF)"

definition framed :: "byte list \<Rightarrow> u32 \<Rightarrow> u32 \<Rightarrow> byte list" where
  "framed fr w h =
     VIDEO_FRAME_META_MAGIC @ put_u16 (u16_saturating w) @ put_u16 (u16_saturating h) @ fr"

definition fragment_flags :: "bool \<Rightarrow> bool \<Rightarrow> u8" where
  "fragment_flags kf is_last =
     (let fl = (if kf then 0 OR FLAG_KEYFRAME else 0) in
      if is_last then fl OR FLAG_FRAME_END else fl)"

definition fragment_packet ::
  "CodecId \<Rightarrow> bool \<Rightarrow> u32 \<Rightarrow> u32 \<Rightarrow> nat \<Rightarrow> nat \<times> byte list \<Rightarrow> MediaPacket" where
  "fragment_packet cd kf sq ts n ic =
     (case ic of (i, c) \<Rightarrow>
        \<lparr>header = \<lparr>version = HEADER_VERSION, flags = fragment_flags kf (i + 1 = n),
                   media_type = Video, codec_id = cd, stream_id = 0, fec_ratio_wire = 0,
                   seq = sq + of_nat i, timestamp = ts,
                   fec_block = push_bit 8 (of_nat i) OR of_nat n\<rparr>,
         payload = c, quality_report = None\<rparr>)"

definition packetize_video_frame ::
  "byte list \<Rightarrow> CodecId \<Rightarrow> bool \<Rightarrow> u32 \<Rightarrow> u32 \<Rightarrow> u32 \<Rightarrow> u32 \<Rightarrow> MediaPacket list \<times> u32" where
  "packetize_video_frame fr cd kf sq ts w h =
     (if fr = [] then ([], sq)
      else
        let cs = chunks VIDEO_MAX_PAYLOAD (framed fr w h); n = min (length cs) 255 in
        (map (fragment_packet cd kf sq ts n) (enumerate 0 (take 255 cs)), sq + of_nat n))"

section \<open>Receiving\<close>

record PendingFrame =
  fragments :: "(u8, byte list) hashmap"
  total_fragments :: u8
  pf_is_keyframe :: bool
  saw_frame_end :: bool
  pf_codec_id :: "CodecId option"

definition pending_default :: PendingFrame where
  "pending_default = \<lparr>fragments = [], total_fragments = 0, pf_is_keyframe = False,
     saw_frame_end = False, pf_codec_id = None\<rparr>"

type_synonym VideoReassembler = "(u32, PendingFrame) hashmap"

definition reassembler_new :: VideoReassembler where
  "reassembler_new = []"

definition split_video_frame_payload :: "byte list \<Rightarrow> VideoFrameMeta option \<times> byte list" where
  "split_video_frame_payload fr =
     (if length fr < VIDEO_FRAME_META_LEN \<or> take 4 fr \<noteq> VIDEO_FRAME_META_MAGIC then (None, fr)
      else (Some \<lparr>meta_width = u16_of_be (fr ! 4) (fr ! 5), meta_height = u16_of_be (fr ! 6) (fr ! 7)\<rparr>,
            drop VIDEO_FRAME_META_LEN fr))"

definition fragment_index :: "MediaHeader \<Rightarrow> u8" where
  "fragment_index h = ucast (drop_bit 8 (fec_block h))"

definition fragment_count :: "MediaHeader \<Rightarrow> u8" where
  "fragment_count h = ucast (fec_block h AND 0xFF)"

definition note_fragment :: "MediaPacket \<Rightarrow> PendingFrame \<Rightarrow> PendingFrame" where
  "note_fragment pkt e =
     (let h = header pkt;
          e = e\<lparr>fragments := hm_insert (fragment_index h) (payload pkt) (fragments e)\<rparr>;
          e = (if 0 < fragment_count h then e\<lparr>total_fragments := fragment_count h\<rparr> else e);
          e = (if is_keyframe h then e\<lparr>pf_is_keyframe := True\<rparr> else e);
          e = (if is_frame_end h then e\<lparr>saw_frame_end := True\<rparr> else e) in
      e\<lparr>pf_codec_id := Some (codec_id h)\<rparr>)"

fun collect_fragments :: "nat list \<Rightarrow> (u8, byte list) hashmap \<Rightarrow> byte list option" where
  "collect_fragments [] m = Some []"
| "collect_fragments (i # is) m =
     (case hm_get m (of_nat i) of None \<Rightarrow> None
      | Some c \<Rightarrow> map_option ((@) c) (collect_fragments is m))"

definition finish_frame :: "PendingFrame \<Rightarrow> ReassembledVideoFrame option" where
  "finish_frame e =
     (case pf_codec_id e of None \<Rightarrow> None
      | Some c \<Rightarrow>
        (case collect_fragments [0..<unat (total_fragments e)] (fragments e) of None \<Rightarrow> None
         | Some fr \<Rightarrow>
           let (meta, d) = split_video_frame_payload fr in
           Some \<lparr>rf_codec_id = c, rf_is_keyframe = pf_is_keyframe e,
                 rf_width = map_option meta_width meta, rf_height = map_option meta_height meta,
                 rf_data = d\<rparr>))"

definition reassembler_push ::
  "MediaPacket \<Rightarrow> VideoReassembler \<Rightarrow> ReassembledVideoFrame option \<times> VideoReassembler" where
  "reassembler_push pkt r =
     (let ts = timestamp (header pkt);
          e = note_fragment pkt (case hm_get r ts of None \<Rightarrow> pending_default | Some e \<Rightarrow> e);
          r = hm_insert ts e r; n = unat (total_fragments e) in
      if \<not> saw_frame_end e then (None, r)
      else if n = 0 \<or> length (fragments e) < n then (None, r)
      else (finish_frame e, hm_remove ts r))"

definition evict_stale :: "u32 \<Rightarrow> u32 \<Rightarrow> VideoReassembler \<Rightarrow> VideoReassembler" where
  "evict_stale now max_age r = hm_retain (\<lambda>ts _. now - ts \<le> max_age) r"


section \<open>The fragments of one frame\<close>

lemma fec_block_fields:
  assumes "i < 256" and "n < 256"
  shows "ucast (drop_bit 8 (push_bit 8 (of_nat i :: u16) OR of_nat n)) = (of_nat i :: u8)"
    and "ucast ((push_bit 8 (of_nat i :: u16) OR of_nat n) AND 0xFF) = (of_nat n :: u8)"
proof -
  let ?a = "of_nat i :: u8" and ?b = "of_nat n :: u8"
  have u: "unat ?a = i" "unat ?b = n"
    using assms by (simp_all add: unat_of_nat)
  have "(of_nat i :: u16) = ucast ?a" "(of_nat n :: u16) = ucast ?b"
    using u by (metis of_nat_unat)+
  then have e: "push_bit 8 (of_nat i :: u16) OR of_nat n = u16_of_be ?a ?b"
    by (simp add: u16_of_be_def)
  have f: "ucast (drop_bit 8 (u16_of_be ?a ?b)) = ?a" "ucast (u16_of_be ?a ?b) = ?b"
    using put_u16_of_be[of ?a ?b] by (simp_all add: put_u16_def)
  show "ucast (drop_bit 8 (push_bit 8 (of_nat i :: u16) OR of_nat n)) = ?a"
    unfolding e by (rule f)
  have "ucast (w AND 0xFF) = (ucast w :: u8)" for w :: u16
  proof -
    have "ucast (w AND mask 8) = (ucast w :: u8)"
      by (rule bit_word_eqI) (simp add: bit_simps)
    then show ?thesis by (simp add: mask_eq_exp_minus_1)
  qed
  then show "ucast ((push_bit 8 (of_nat i :: u16) OR of_nat n) AND 0xFF) = ?b"
    unfolding e using f(2) by simp
qed

lemma fragment_packet_props:
  assumes "i < n" and "n < 256"
  shows "fragment_index (header (fragment_packet cd kf sq ts n (i, c))) = of_nat i"
    and "fragment_count (header (fragment_packet cd kf sq ts n (i, c))) = of_nat n"
    and "is_keyframe (header (fragment_packet cd kf sq ts n (i, c))) = kf"
    and "is_frame_end (header (fragment_packet cd kf sq ts n (i, c))) = (i + 1 = n)"
    and "timestamp (header (fragment_packet cd kf sq ts n (i, c))) = ts"
    and "codec_id (header (fragment_packet cd kf sq ts n (i, c))) = cd"
    and "payload (fragment_packet cd kf sq ts n (i, c)) = c"
  using fec_block_fields[of i n] assms
  by (simp_all add: fragment_packet_def fragment_index_def fragment_count_def flag_defs
      fragment_flags_def Let_def)

text \<open>A partial frame that has exactly the fragments of \<open>is\<close>.\<close>

definition holds_fragments ::
  "byte list list \<Rightarrow> CodecId \<Rightarrow> bool \<Rightarrow> nat set \<Rightarrow> PendingFrame \<Rightarrow> bool" where
  "holds_fragments cs cd kf I e \<longleftrightarrow>
     I \<noteq> {} \<and> hm_ok (fragments e) \<and> fst ` set (fragments e) = of_nat ` I \<and>
     (\<forall>i \<in> I. hm_get (fragments e) (of_nat i) = Some (cs ! i)) \<and>
     total_fragments e = of_nat (length cs) \<and> pf_is_keyframe e = kf \<and> pf_codec_id e = Some cd \<and>
     (saw_frame_end e \<longleftrightarrow> length cs - 1 \<in> I)"

lemma of_nat_u8_inj: "inj_on (of_nat :: nat \<Rightarrow> u8) {..<256}"
  by (rule inj_on_inverseI[where g = unat]) (simp add: unat_of_nat)

lemma fst_set_update: "fst ` set (AList.update k v m) = insert k (fst ` set m)"
  by (simp add: dom_update dom_map_of_conv_image_fst [symmetric] update_conv' del: dom_update)


abbreviation frag ::
  "byte list list \<Rightarrow> CodecId \<Rightarrow> bool \<Rightarrow> u32 \<Rightarrow> u32 \<Rightarrow> nat \<Rightarrow> MediaPacket" where
  "frag cs cd kf sq ts i \<equiv> fragment_packet cd kf sq ts (length cs) (i, cs ! i)"

lemma note_fragment_first:
  assumes "i < length cs" and "length cs < 256"
  shows "holds_fragments cs cd kf {i} (note_fragment (frag cs cd kf sq ts i) pending_default)"
proof -
  have "(of_nat (length cs) :: u8) \<noteq> 0"
    using assms by (cases cs) (simp_all add: word_unat_eq_iff unat_of_nat del: of_nat_Suc)
  then show ?thesis
    using assms
    by (auto simp: note_fragment_def pending_default_def holds_fragments_def fragment_packet_props
        Let_def hm_ok_def word_gt_0)
qed

lemma note_fragment_next:
  assumes h: "holds_fragments cs cd kf I e" and i: "i < length cs" "length cs < 256"
    and I: "I \<subseteq> {..<length cs}" "i \<notin> I"
  shows "holds_fragments cs cd kf (insert i I) (note_fragment (frag cs cd kf sq ts i) e)"
proof -
  have "(of_nat (length cs) :: u8) \<noteq> 0"
    using i by (cases cs) (simp_all add: word_unat_eq_iff unat_of_nat del: of_nat_Suc)
  moreover have "(of_nat j :: u8) \<noteq> of_nat i" if "j \<in> I" for j
    using that I i by (auto simp: inj_on_eq_iff[OF of_nat_u8_inj] subset_iff)
  ultimately show ?thesis
    using h i
    by (auto simp: note_fragment_def holds_fragments_def fragment_packet_props Let_def
        hm_ok_insert fst_set_update word_gt_0)
qed

lemma holds_fragments_length:
  assumes "holds_fragments cs cd kf I e" and "I \<subseteq> {..<length cs}" and "length cs < 256"
  shows "length (fragments e) = card I"
proof -
  have "length (fragments e) = card (fst ` set (fragments e))"
    using assms(1) distinct_card[of "map fst (fragments e)"]
    by (simp add: holds_fragments_def hm_ok_def)
  also have "\<dots> = card ((of_nat :: nat \<Rightarrow> u8) ` I)"
    using assms(1) by (simp add: holds_fragments_def)
  also have "\<dots> = card I"
    using assms(2,3) by (intro card_image inj_on_subset[OF of_nat_u8_inj]) auto
  finally show ?thesis .
qed

lemma collect_fragments_all:
  "\<forall>i \<in> set is. hm_get m (of_nat i) = Some (cs ! i) \<Longrightarrow>
   collect_fragments is m = Some (concat (map ((!) cs) is))"
  by (induction "is") simp_all

definition reassembled :: "byte list list \<Rightarrow> CodecId \<Rightarrow> bool \<Rightarrow> ReassembledVideoFrame" where
  "reassembled cs cd kf =
     (let (meta, d) = split_video_frame_payload (concat cs) in
      \<lparr>rf_codec_id = cd, rf_is_keyframe = kf, rf_width = map_option meta_width meta,
       rf_height = map_option meta_height meta, rf_data = d\<rparr>)"

lemma finish_frame_all:
  assumes h: "holds_fragments cs cd kf {..<length cs} e" and "length cs < 256"
  shows "finish_frame e = Some (reassembled cs cd kf)"
proof -
  have "collect_fragments [0..<length cs] (fragments e) = Some (concat (map ((!) cs) [0..<length cs]))"
    using h by (intro collect_fragments_all) (auto simp: holds_fragments_def)
  then show ?thesis
    using assms
    by (simp add: finish_frame_def holds_fragments_def reassembled_def unat_of_nat map_nth
        split: prod.split)
qed

section \<open>Any order, any interleaving\<close>

datatype reassembly_op = Push MediaPacket | Evict u32 u32

fun deliveries :: "reassembly_op list \<Rightarrow> VideoReassembler \<Rightarrow> (u32 \<times> ReassembledVideoFrame) list" where
  "deliveries [] r = []"
| "deliveries (Push p # ops) r =
     (let (out, r) = reassembler_push p r in
      (case out of None \<Rightarrow> [] | Some f \<Rightarrow> [(timestamp (header p), f)]) @ deliveries ops r)"
| "deliveries (Evict now age # ops) r = deliveries ops (evict_stale now age r)"

fun packets_at :: "u32 \<Rightarrow> reassembly_op list \<Rightarrow> MediaPacket list" where
  "packets_at ts [] = []"
| "packets_at ts (Push p # ops) =
     (if timestamp (header p) = ts then p # packets_at ts ops else packets_at ts ops)"
| "packets_at ts (Evict now age # ops) = packets_at ts ops"

fun spares :: "u32 \<Rightarrow> reassembly_op \<Rightarrow> bool" where
  "spares ts (Push p) = True"
| "spares ts (Evict now age) = (now - ts \<le> age)"

lemma reassembler_push_other:
  "timestamp (header p) \<noteq> ts \<Longrightarrow> hm_get (snd (reassembler_push p r)) ts = hm_get r ts"
  by (simp add: reassembler_push_def Let_def)

lemma reassembler_push_ok: "hm_ok r \<Longrightarrow> hm_ok (snd (reassembler_push p r))"
  by (simp add: reassembler_push_def Let_def hm_ok_insert hm_ok_remove)

lemma deliveries_other:
  "packets_at ts ops = [] \<Longrightarrow> filter (\<lambda>d. fst d = ts) (deliveries ops r) = []"
proof (induction ts ops arbitrary: r rule: packets_at.induct)
  case (2 ts p ops)
  then show ?case
    by (auto simp: case_prod_beta Let_def split: if_splits option.split)
qed simp_all

definition state_at ::
  "byte list list \<Rightarrow> CodecId \<Rightarrow> bool \<Rightarrow> nat set \<Rightarrow> PendingFrame option \<Rightarrow> bool" where
  "state_at cs cd kf I s \<longleftrightarrow>
     (case s of None \<Rightarrow> I = {} | Some e \<Rightarrow> holds_fragments cs cd kf I e)"

lemma push_one_fragment:
  assumes st: "state_at cs cd kf I (hm_get r ts)" and i: "i < length cs" "length cs < 256"
    and I: "I \<subseteq> {..<length cs}" "i \<notin> I"
  shows "if insert i I = {..<length cs}
     then fst (reassembler_push (frag cs cd kf sq ts i) r) = Some (reassembled cs cd kf)
     else fst (reassembler_push (frag cs cd kf sq ts i) r) = None \<and>
          state_at cs cd kf (insert i I) (hm_get (snd (reassembler_push (frag cs cd kf sq ts i) r)) ts)"
proof -
  let ?p = "frag cs cd kf sq ts i"
  let ?e = "note_fragment ?p (case hm_get r ts of None \<Rightarrow> pending_default | Some e \<Rightarrow> e)"
  have h: "holds_fragments cs cd kf (insert i I) ?e"
    using st note_fragment_first[OF i] note_fragment_next[OF _ i I]
    by (auto simp: state_at_def split: option.splits)
  have sub: "insert i I \<subseteq> {..<length cs}"
    using I i by auto
  have len: "length (fragments ?e) = card (insert i I)"
    by (rule holds_fragments_length[OF h sub i(2)])
  have n: "unat (total_fragments ?e) = length cs"
    using h i(2) by (simp add: holds_fragments_def unat_of_nat)
  have ts: "timestamp (header ?p) = ts"
    by (rule fragment_packet_props(5)[OF i])
  show ?thesis
  proof (cases "insert i I = {..<length cs}")
    case True
    have "saw_frame_end ?e"
      using h i(1) unfolding True by (simp add: holds_fragments_def)
    moreover have "cs \<noteq> []"
      using i(1) by auto
    ultimately show ?thesis
      using True len n finish_frame_all[of cs cd kf ?e] h i(2)
      by (simp add: reassembler_push_def ts Let_def)
  next
    case False
    with sub have "card (insert i I) < length cs"
      using psubset_card_mono[of "{..<length cs}" "insert i I"] by auto
    with False len n h show ?thesis
      by (simp add: reassembler_push_def ts Let_def state_at_def)
  qed
qed

lemma deliveries_of_frame:
  assumes "state_at cs cd kf I (hm_get r ts)" and "hm_ok r" and "length cs < 256"
    and "packets_at ts ops = map (frag cs cd kf sq ts) is" and "distinct is"
    and "set is = {..<length cs} - I" and "is \<noteq> []" and "I \<subseteq> {..<length cs}"
    and "\<forall>e \<in> set ops. spares ts e"
  shows "filter (\<lambda>d. fst d = ts) (deliveries ops r) = [(ts, reassembled cs cd kf)]"
  using assms
proof (induction ops arbitrary: r I "is")
  case (Cons e ops)
  show ?case
  proof (cases e)
    case (Evict now age)
    have "hm_get (evict_stale now age r) ts = hm_get r ts"
      using Cons.prems(2,9) Evict by (simp add: evict_stale_def hm_get_retain split: option.split)
    then have "filter (\<lambda>d. fst d = ts) (deliveries ops (evict_stale now age r)) = [(ts, reassembled cs cd kf)]"
      using Cons.prems Evict
      by (intro Cons.IH[of I _ "is"]) (simp_all add: evict_stale_def hm_ok_retain)
    then show ?thesis by (simp add: Evict)
  next
    case (Push p)
    let ?r = "snd (reassembler_push p r)"
    have ok: "hm_ok ?r"
      by (rule reassembler_push_ok) (rule Cons.prems(2))
    show ?thesis
    proof (cases "timestamp (header p) = ts")
      case False
      have "filter (\<lambda>d. fst d = ts) (deliveries ops ?r) = [(ts, reassembled cs cd kf)]"
        using Cons.prems Push False ok
        by (intro Cons.IH[of I _ "is"]) (simp_all add: reassembler_push_other)
      with False show ?thesis
        by (simp add: Push case_prod_beta Let_def split: option.split)
    next
      case True
      with Cons.prems(4,7) Push obtain i "is'" where i: "is = i # is'" "p = frag cs cd kf sq ts i"
        "packets_at ts ops = map (frag cs cd kf sq ts) is'"
        by (cases "is") auto
      have I: "i < length cs" "i \<notin> I" "set is' = {..<length cs} - insert i I" "distinct is'"
        using Cons.prems(5,6) i(1) by auto
      note step = push_one_fragment[OF Cons.prems(1) I(1) Cons.prems(3) Cons.prems(8) I(2), of sq,
          folded i(2)]
      show ?thesis
      proof (cases "is' = []")
        case True
        with I Cons.prems(8) have "insert i I = {..<length cs}" by auto
        with step have "fst (reassembler_push p r) = Some (reassembled cs cd kf)" by simp
        with True i(3) show ?thesis
          using \<open>timestamp (header p) = ts\<close>
          by (simp add: Push case_prod_beta Let_def deliveries_other)
      next
        case False
        with I(3) have "insert i I \<noteq> {..<length cs}"
          by (metis Diff_cancel set_empty)
        with step have out: "fst (reassembler_push p r) = None"
          and st: "state_at cs cd kf (insert i I) (hm_get ?r ts)" by simp_all
        have sub: "insert i I \<subseteq> {..<length cs}" and sp: "\<forall>e \<in> set ops. spares ts e"
          using Cons.prems(8,9) I(1) by simp_all
        have "filter (\<lambda>d. fst d = ts) (deliveries ops ?r) = [(ts, reassembled cs cd kf)]"
          by (rule Cons.IH[OF st ok Cons.prems(3) i(3) I(4) I(3) False sub sp])
        with out show ?thesis
          by (simp add: Push case_prod_beta Let_def)
      qed
    qed
  qed
qed simp

lemma mset_eq_map_obtain:
  "mset xs = image_mset f M \<Longrightarrow> \<exists>zs. mset zs = M \<and> xs = map f zs"
proof (induction xs arbitrary: M)
  case (Cons x xs)
  then have "image_mset f M = add_mset x (mset xs)"
    by (metis mset.simps(2))
  from msed_map_invR[OF this] obtain M1 a
    where M1: "M = add_mset a M1" "f a = x" "image_mset f M1 = mset xs"
    by blast
  from Cons.IH[OF M1(3) [symmetric]] obtain zs where "mset zs = M1" "xs = map f zs"
    by blast
  with M1 have "mset (a # zs) = M \<and> x # xs = map f (a # zs)"
    by simp
  then show ?case ..
qed simp


lemma enumerate_map: "map f (enumerate 0 cs) = map (\<lambda>i. f (i, cs ! i)) [0..<length cs]"
  by (rule nth_equalityI) (simp_all add: nth_enumerate_eq)

lemma packetize_frags:
  assumes "fr \<noteq> []"
  shows "fst (packetize_video_frame fr cd kf sq ts w h) =
    map (frag (take 255 (chunks VIDEO_MAX_PAYLOAD (framed fr w h))) cd kf sq ts)
      [0..<length (take 255 (chunks VIDEO_MAX_PAYLOAD (framed fr w h)))]"
  using assms by (simp add: packetize_video_frame_def Let_def enumerate_map min.commute)

lemma reassembled_framed:
  assumes "concat cs = take n (framed fr w h)" and "8 \<le> n"
  shows "reassembled cs cd kf =
    \<lparr>rf_codec_id = cd, rf_is_keyframe = kf, rf_width = Some (u16_saturating w),
     rf_height = Some (u16_saturating h), rf_data = take (n - 8) fr\<rparr>"
proof -
  obtain m where n: "n = 8 + m" using assms(2) by (metis le_add_diff_inverse)
  have "framed fr w h =
      (VIDEO_FRAME_META_MAGIC @ put_u16 (u16_saturating w) @ put_u16 (u16_saturating h)) @ fr"
    by (simp add: framed_def)
  moreover have "length (VIDEO_FRAME_META_MAGIC @ put_u16 (u16_saturating w) @ put_u16 (u16_saturating h)) = 8"
    by (simp add: VIDEO_FRAME_META_MAGIC_def)
  ultimately have "concat cs = VIDEO_FRAME_META_MAGIC @ put_u16 (u16_saturating w) @
      put_u16 (u16_saturating h) @ take m fr"
    unfolding assms(1) n by (simp only: take_append) simp
  then show ?thesis
    by (simp add: n reassembled_def split_video_frame_payload_def VIDEO_FRAME_META_MAGIC_def
        put_u16_def u16_of_be_put)
qed

text \<open>
  C6 (Reassembly.frame_survives_reordering). The fragments of one frame may arrive in any order,
  mixed with the packets of other frames and with evictions that do not reach its timestamp: the
  frame is delivered exactly once, when its last fragment is in, with its codec, keyframe mark and
  dimensions (saturated at 65535) and its first 297832 bytes.  A longer frame is cut silently.
\<close>

theorem frame_survives_reordering:
  assumes "fr \<noteq> []" and "hm_ok r" and "hm_get r ts = None"
    and "mset (packets_at ts ops) = mset (fst (packetize_video_frame fr cd kf sq ts w h))"
    and "\<forall>e \<in> set ops. spares ts e"
  shows "filter (\<lambda>d. fst d = ts) (deliveries ops r) =
    [(ts, \<lparr>rf_codec_id = cd, rf_is_keyframe = kf, rf_width = Some (u16_saturating w),
           rf_height = Some (u16_saturating h), rf_data = take 297832 fr\<rparr>)]"
proof -
  let ?cs = "take 255 (chunks VIDEO_MAX_PAYLOAD (framed fr w h))"
  have "framed fr w h \<noteq> []"
    by (simp add: framed_def VIDEO_FRAME_META_MAGIC_def)
  then have n: "?cs \<noteq> []" "length ?cs < 256"
    by (simp_all add: chunks_eq_Nil)
  from assms(4) obtain zs where zs: "mset zs = mset [0..<length ?cs]"
    "packets_at ts ops = map (frag ?cs cd kf sq ts) zs"
    using mset_eq_map_obtain[of "packets_at ts ops" "frag ?cs cd kf sq ts" "mset [0..<length ?cs]"]
    unfolding packetize_frags[OF assms(1)] by auto
  have "set zs = {..<length ?cs}"
    unfolding mset_eq_setD[OF zs(1)] by (simp only: set_upt lessThan_atLeast0)
  moreover have "distinct zs"
    unfolding mset_eq_imp_distinct_iff[OF zs(1)] by (rule distinct_upt)
  moreover have "zs \<noteq> []"
    using mset_eq_length[OF zs(1)] n(1) by (simp only: length_upt) (auto simp: min_def split: if_splits)
  moreover have "state_at ?cs cd kf {} (hm_get r ts)"
    using assms(3) by (simp add: state_at_def)
  ultimately have "filter (\<lambda>d. fst d = ts) (deliveries ops r) = [(ts, reassembled ?cs cd kf)]"
    by (intro deliveries_of_frame[OF _ assms(2) n(2) zs(2) _ _ _ _ assms(5), where I = "{}"])
      (simp_all only: Diff_empty empty_subsetI not_False_eq_True)
  moreover have "concat ?cs = take 297840 (framed fr w h)"
    by (simp add: concat_take_chunks)
  ultimately show ?thesis
    by (simp add: reassembled_framed)
qed

definition demo_frame :: "byte list" where
  "demo_frame = replicate 2000 7"

lemma demo_frame_packets:
  "fst (packetize_video_frame demo_frame H264Baseline True 9 1000 640 480) =
   [fragment_packet H264Baseline True 9 1000 2 (0, take 1168 (framed demo_frame 640 480)),
    fragment_packet H264Baseline True 9 1000 2 (1, drop 1168 (framed demo_frame 640 480))]"
proof -
  have len: "length (framed demo_frame 640 480) = 2008"
    by (simp add: framed_def demo_frame_def VIDEO_FRAME_META_MAGIC_def)
  then have ne: "framed demo_frame 640 480 \<noteq> []" "drop 1168 (framed demo_frame 640 480) \<noteq> []"
    by auto
  have "chunks 1168 (framed demo_frame 640 480) =
      [take 1168 (framed demo_frame 640 480), drop 1168 (framed demo_frame 640 480)]"
    using len ne by (simp add: chunks_Cons)
  then show ?thesis
    by (simp add: packetize_video_frame_def demo_frame_def Let_def flip: numeral_2_eq_2)
qed

theorem frame_survives_reordering_witness:
  "filter (\<lambda>d. fst d = 1000)
     (deliveries [Push (fragment_packet H264Baseline True 9 1000 2 (1, drop 1168 (framed demo_frame 640 480))),
                  Evict 1500 2000,
                  Push (fragment_packet H264Baseline True 9 1000 2 (0, take 1168 (framed demo_frame 640 480)))]
        reassembler_new) =
   [(1000, \<lparr>rf_codec_id = H264Baseline, rf_is_keyframe = True, rf_width = Some 640,
            rf_height = Some 480, rf_data = demo_frame\<rparr>)]"
proof -
  have "(u16_saturating 640, u16_saturating 480) = (640, 480)" "take 297832 demo_frame = demo_frame"
    by (simp_all add: u16_saturating_def demo_frame_def)
  moreover have "timestamp (header (fragment_packet cd kf sq ts n c)) = ts" for cd kf sq ts n c
    by (simp add: fragment_packet_def split: prod.split)
  ultimately show ?thesis
    using frame_survives_reordering[of demo_frame reassembler_new 1000
        "[Push (fragment_packet H264Baseline True 9 1000 2 (1, drop 1168 (framed demo_frame 640 480))),
          Evict 1500 2000,
          Push (fragment_packet H264Baseline True 9 1000 2 (0, take 1168 (framed demo_frame 640 480)))]"
        H264Baseline True 9 640 480]
    unfolding demo_frame_packets
    by (simp add: reassembler_new_def) (simp add: demo_frame_def add_mset_commute)
qed

end
