(* ===== verification/Bandwidth.thy ===== *)
theory Bandwidth
  imports Packet
begin

text \<open>
  The bandwidth estimator, \<open>crates/wzp-proto/src/bandwidth.rs\<close>: delay- and loss-based congestion
  detection, the clamped estimate they drive, and the transport-feedback estimate that the video
  controller reads.  \<open>f64\<close> values are rationals, except in the exponential smoothing, whose
  half-life needs a real power.
\<close>

section \<open>Congestion by delay\<close>

datatype CongestionState = Underuse | Normal | Overuse

record DelayBasedDetector =
  baseline_rtt_ms :: rat
  rtt_ema :: rat
  dd_alpha :: rat
  threshold_ratio :: rat
  dd_state :: CongestionState
  initialized :: bool
  baseline_drift :: rat

abbreviation (input) F64_MAX :: rat where "F64_MAX \<equiv> 2 ^ 1024 - 2 ^ 971"

definition delay_detector_new :: DelayBasedDetector where
  "delay_detector_new = \<lparr>baseline_rtt_ms = F64_MAX, rtt_ema = 0, dd_alpha = 3 / 10,
     threshold_ratio = 3 / 2, dd_state = Normal, initialized = False, baseline_drift = 1 / 1000\<rparr>"

definition congestion_of :: "DelayBasedDetector \<Rightarrow> CongestionState" where
  "congestion_of d =
     (if baseline_rtt_ms d * threshold_ratio d < rtt_ema d then Overuse
      else if rtt_ema d < baseline_rtt_ms d * (11 / 10) then Underuse else Normal)"

definition note_rtt :: "rat \<Rightarrow> DelayBasedDetector \<Rightarrow> DelayBasedDetector" where
  "note_rtt rtt d =
     (if \<not> initialized d
      then d\<lparr>baseline_rtt_ms := rtt, rtt_ema := rtt, initialized := True, dd_state := Normal\<rparr>
      else
        let d = d\<lparr>baseline_rtt_ms := if rtt < baseline_rtt_ms d then rtt
                   else baseline_rtt_ms d + baseline_drift d * (rtt - baseline_rtt_ms d)\<rparr>;
            d = d\<lparr>rtt_ema := dd_alpha d * rtt + (1 - dd_alpha d) * rtt_ema d\<rparr> in
        d\<lparr>dd_state := congestion_of d\<rparr>)"

section \<open>Congestion by loss\<close>

record LossBasedDetector =
  loss_window :: "rat list"
  window_size :: nat
  threshold_pct :: rat

definition loss_detector_new :: LossBasedDetector where
  "loss_detector_new = \<lparr>loss_window = [], window_size = 10, threshold_pct = 5\<rparr>"

definition note_loss :: "rat \<Rightarrow> LossBasedDetector \<Rightarrow> LossBasedDetector" where
  "note_loss l d =
     (let w = (if window_size d \<le> length (loss_window d) then tl (loss_window d) else loss_window d) in
      d\<lparr>loss_window := w @ [l]\<rparr>)"

definition is_congested :: "LossBasedDetector \<Rightarrow> bool" where
  "is_congested d \<longleftrightarrow>
     loss_window d \<noteq> [] \<and>
     threshold_pct d < sum_list (loss_window d) / of_nat (length (loss_window d))"

section \<open>The estimator\<close>

record BandwidthEstimator =
  estimated_bw_kbps :: rat
  min_bw_kbps :: rat
  max_bw_kbps :: rat
  delay_detector :: DelayBasedDetector
  loss_detector :: LossBasedDetector
  cwnd_bps :: nat
  peer_remb_bps :: nat
  smoothed_bps :: nat
  last_smoothed_ms :: nat

abbreviation (input) DECREASE_FACTOR :: rat where "DECREASE_FACTOR \<equiv> 85 / 100"
abbreviation (input) INCREASE_FACTOR :: rat where "INCREASE_FACTOR \<equiv> 5 / 100"
abbreviation (input) U64_MAX :: nat where "U64_MAX \<equiv> 18446744073709551615"

definition bandwidth_new :: "rat \<Rightarrow> rat \<Rightarrow> rat \<Rightarrow> BandwidthEstimator" where
  "bandwidth_new initial lo hi =
     \<lparr>estimated_bw_kbps = initial, min_bw_kbps = lo, max_bw_kbps = hi,
      delay_detector = delay_detector_new, loss_detector = loss_detector_new,
      cwnd_bps = 0, peer_remb_bps = U64_MAX, smoothed_bps = 0, last_smoothed_ms = 0\<rparr>"

text \<open>\<open>f64::clamp\<close>, for bounds in order (it panics otherwise).\<close>

definition clamp :: "rat \<Rightarrow> rat \<Rightarrow> rat \<Rightarrow> rat" where
  "clamp lo hi x = (if x < lo then lo else if hi < x then hi else x)"

definition bandwidth_update :: "rat \<Rightarrow> rat \<Rightarrow> BandwidthEstimator \<Rightarrow> rat \<times> BandwidthEstimator" where
  "bandwidth_update rtt loss b =
     (let b = b\<lparr>delay_detector := note_rtt rtt (delay_detector b),
                loss_detector := note_loss loss (loss_detector b)\<rparr>;
          st = dd_state (delay_detector b); congested = is_congested (loss_detector b);
          e = (if st = Overuse \<or> congested then estimated_bw_kbps b * DECREASE_FACTOR
               else if st = Underuse \<and> \<not> congested
               then estimated_bw_kbps b + estimated_bw_kbps b * INCREASE_FACTOR
               else estimated_bw_kbps b);
          e = clamp (min_bw_kbps b) (max_bw_kbps b) e in
      (e, b\<lparr>estimated_bw_kbps := e\<rparr>))"

definition from_quality_report :: "QualityReport \<Rightarrow> BandwidthEstimator \<Rightarrow> rat \<times> BandwidthEstimator" where
  "from_quality_report q b = bandwidth_update (of_nat (rtt_ms q)) (loss_percent q) b"

definition recommended_profile :: "BandwidthEstimator \<Rightarrow> QualityProfile" where
  "recommended_profile b =
     (if 25 \<le> estimated_bw_kbps b then GOOD
      else if 8 \<le> estimated_bw_kbps b then DEGRADED else CATASTROPHIC)"

text \<open>\<open>as u64\<close> from a float saturates.\<close>

definition to_u64 :: "rat \<Rightarrow> nat" where
  "to_u64 x = min U64_MAX (nat \<lfloor>x\<rfloor>)"

definition ewma_bps :: "nat \<Rightarrow> nat \<Rightarrow> nat \<Rightarrow> nat" where
  "ewma_bps current new_bps dt =
     (if current = 0 \<or> dt = 0 then new_bps
      else let alpha = 1 - (1 / 2 :: real) powr (real dt / 2000) in
        min U64_MAX (nat \<lfloor>real current * (1 - alpha) + real new_bps * alpha\<rfloor>))"

definition update_smoothed :: "nat \<Rightarrow> nat \<Rightarrow> BandwidthEstimator \<Rightarrow> BandwidthEstimator" where
  "update_smoothed new_bps now b =
     b\<lparr>smoothed_bps := ewma_bps (smoothed_bps b) new_bps (now - last_smoothed_ms b),
       last_smoothed_ms := now\<rparr>"

text \<open>The product is a \<open>u64\<close> one, which wraps in a release build.\<close>

definition update_from_path :: "u64 \<Rightarrow> u32 \<Rightarrow> nat \<Rightarrow> BandwidthEstimator \<Rightarrow> BandwidthEstimator" where
  "update_from_path cwnd_bytes rtt now b =
     (let rtt_s = of_nat (max (unat rtt) 1) / 1000;
          c = to_u64 (of_nat (unat (cwnd_bytes * 8)) / rtt_s) in
      update_smoothed c now (b\<lparr>cwnd_bps := c\<rparr>))"

definition update_from_peer :: "u32 \<Rightarrow> nat \<Rightarrow> BandwidthEstimator \<Rightarrow> BandwidthEstimator" where
  "update_from_peer remb now b = update_smoothed (unat remb) now (b\<lparr>peer_remb_bps := unat remb\<rparr>)"

definition target_send_bps :: "BandwidthEstimator \<Rightarrow> nat" where
  "target_send_bps b = to_u64 (of_nat (min (cwnd_bps b) (peer_remb_bps b)) * (9 / 10))"


section \<open>The estimate and its bounds\<close>

fun reports :: "(rat \<times> rat) list \<Rightarrow> BandwidthEstimator \<Rightarrow> BandwidthEstimator" where
  "reports [] b = b"
| "reports ((rtt, loss) # rs) b = reports rs (snd (bandwidth_update rtt loss b))"

lemma reports_append: "reports (xs @ ys) b = reports ys (reports xs b)"
  by (induction xs b rule: reports.induct) simp_all

lemma bandwidth_update_parts:
  "min_bw_kbps (snd (bandwidth_update rtt loss b)) = min_bw_kbps b"
  "max_bw_kbps (snd (bandwidth_update rtt loss b)) = max_bw_kbps b"
  "delay_detector (snd (bandwidth_update rtt loss b)) = note_rtt rtt (delay_detector b)"
  "loss_detector (snd (bandwidth_update rtt loss b)) = note_loss loss (loss_detector b)"
  "estimated_bw_kbps (snd (bandwidth_update rtt loss b)) = fst (bandwidth_update rtt loss b)"
  by (simp_all add: bandwidth_update_def Let_def)

lemma reports_limits [simp]:
  "min_bw_kbps (reports rs b) = min_bw_kbps b"
  "max_bw_kbps (reports rs b) = max_bw_kbps b"
  by (induction rs b rule: reports.induct) (simp_all add: bandwidth_update_parts)

lemma clamp_within: "lo \<le> hi \<Longrightarrow> lo \<le> clamp lo hi x \<and> clamp lo hi x \<le> hi"
  by (simp add: clamp_def)

text \<open>
  Also (Bandwidth.estimate_bounded). After any non-empty sequence of reports the estimate lies
  between the configured floor and ceiling, whatever the initial value was.
\<close>

lemma estimate_bounded:
  assumes "rs \<noteq> []" and "min_bw_kbps b \<le> max_bw_kbps b"
  shows "min_bw_kbps b \<le> estimated_bw_kbps (reports rs b) \<and>
         estimated_bw_kbps (reports rs b) \<le> max_bw_kbps b"
proof -
  from assms(1) obtain xs r l where "rs = xs @ [(r, l)]"
    by (cases rs rule: rev_cases) auto
  then show ?thesis
    using clamp_within[OF assms(2)]
    by (simp add: reports_append bandwidth_update_parts) (simp add: bandwidth_update_def Let_def)
qed

section \<open>Sustained loss drives the estimate to the floor\<close>

definition lossy :: "LossBasedDetector \<Rightarrow> bool" where
  "lossy d \<longleftrightarrow> (\<forall>x \<in> set (loss_window d). threshold_pct d < x)"

lemma sum_list_above:
  fixes xs :: "rat list"
  shows "xs \<noteq> [] \<Longrightarrow> \<forall>x \<in> set xs. c < x \<Longrightarrow> c * of_nat (length xs) < sum_list xs"
proof (induction xs)
  case (Cons x xs)
  then show ?case
    by (cases "xs = []") (simp_all add: distrib_left)
qed simp

lemma lossy_congested: "lossy d \<Longrightarrow> loss_window d \<noteq> [] \<Longrightarrow> is_congested d"
  using sum_list_above[of "loss_window d" "threshold_pct d"]
  by (simp add: lossy_def is_congested_def pos_less_divide_eq)

lemma note_loss_lossy:
  "lossy d \<Longrightarrow> threshold_pct d < l \<Longrightarrow> lossy (note_loss l d) \<and> is_congested (note_loss l d)"
proof -
  assume a: "lossy d" "threshold_pct d < l"
  then have "lossy (note_loss l d)"
    by (cases "loss_window d") (auto simp: lossy_def note_loss_def Let_def)
  then show ?thesis
    by (simp add: lossy_congested note_loss_def)
qed

lemma note_loss_threshold [simp]: "threshold_pct (note_loss l d) = threshold_pct d"
  by (simp add: note_loss_def)

lemma reports_lossy:
  assumes "lossy (loss_detector b)" and "\<forall>(r, l) \<in> set rs. threshold_pct (loss_detector b) < l"
    and "0 \<le> min_bw_kbps b" and "min_bw_kbps b \<le> max_bw_kbps b"
    and "estimated_bw_kbps b = max (min_bw_kbps b) x" and "x \<le> max_bw_kbps b" and "0 \<le> x"
  shows "estimated_bw_kbps (reports rs b) = max (min_bw_kbps b) (x * DECREASE_FACTOR ^ length rs)"
  using assms
proof (induction rs b arbitrary: x rule: reports.induct)
  case (2 r l rs b)
  let ?b = "snd (bandwidth_update r l b)"
  have c: "is_congested (note_loss l (loss_detector b))" "lossy (note_loss l (loss_detector b))"
    using note_loss_lossy[of "loss_detector b" l] 2(2,3) by simp_all
  have "x * DECREASE_FACTOR \<le> max_bw_kbps b" "0 \<le> x * DECREASE_FACTOR"
    using 2(7,8) by (auto intro: order.trans[rotated])
  moreover have "estimated_bw_kbps ?b = max (min_bw_kbps b) (x * DECREASE_FACTOR)"
    using 2(4-8) c(1)
    by (auto simp: bandwidth_update_def Let_def clamp_def max_def)
  ultimately have "estimated_bw_kbps (reports rs ?b) =
      max (min_bw_kbps ?b) (x * DECREASE_FACTOR * DECREASE_FACTOR ^ length rs)"
    using 2(2-8) c(2) by (intro 2(1)) (auto simp: bandwidth_update_parts)
  then show ?case
    by (simp add: bandwidth_update_parts mult.assoc)
qed simp


text \<open>
  Also (Bandwidth.loss_backs_off). While every report shows more than 5 % loss, whatever the round
  trips are, the estimate of a new estimator falls by 15 % per report until it sits at the floor:
  after n reports it is the larger of the floor and 0.85^n times the initial estimate.
\<close>

theorem loss_backs_off:
  assumes "0 \<le> lo" and "lo \<le> initial" and "initial \<le> hi" and "\<forall>(rtt, loss) \<in> set rs. 5 < loss"
  shows "estimated_bw_kbps (reports rs (bandwidth_new initial lo hi)) =
    max lo (initial * DECREASE_FACTOR ^ length rs)"
proof -
  have "estimated_bw_kbps (reports rs (bandwidth_new initial lo hi)) =
      max (min_bw_kbps (bandwidth_new initial lo hi)) (initial * DECREASE_FACTOR ^ length rs)"
    using assms
    by (intro reports_lossy)
      (auto simp: bandwidth_new_def loss_detector_new_def lossy_def max_def)
  then show ?thesis
    by (simp add: bandwidth_new_def)
qed

theorem loss_backs_off_witness:
  "estimated_bw_kbps (reports [(30, 20), (900, 50), (20, 6)] (bandwidth_new 100 70 200)) = 70 \<and>
   estimated_bw_kbps (reports [(30, 20), (900, 50)] (bandwidth_new 100 70 200)) = 7225 / 100"
  using loss_backs_off[of 70 100 200 "[(30, 20), (900, 50), (20, 6)]"]
    loss_backs_off[of 70 100 200 "[(30, 20), (900, 50)]"]
  by (simp add: power_numeral_reduce power2_eq_square)

section \<open>An idle link is probed up to the ceiling\<close>

definition settled :: "rat \<Rightarrow> DelayBasedDetector \<Rightarrow> bool" where
  "settled rtt d \<longleftrightarrow>
     initialized d \<and> baseline_rtt_ms d = rtt \<and> rtt_ema d = rtt \<and> threshold_ratio d = 3 / 2"

definition lossless :: "LossBasedDetector \<Rightarrow> bool" where
  "lossless d \<longleftrightarrow> threshold_pct d = 5 \<and> (\<forall>x \<in> set (loss_window d). x = 0)"

lemma note_rtt_settled:
  assumes "settled rtt d" and "0 < rtt"
  shows "settled rtt (note_rtt rtt d) \<and> dd_state (note_rtt rtt d) = Underuse"
proof -
  have "dd_alpha d * rtt + (1 - dd_alpha d) * rtt = rtt"
    by (simp add: algebra_simps)
  then show ?thesis
    using assms by (simp add: settled_def note_rtt_def Let_def congestion_of_def)
qed

lemma sum_list_zero: "\<forall>x \<in> set xs. x = (0 :: rat) \<Longrightarrow> sum_list xs = 0"
  by (induction xs) simp_all

lemma note_loss_lossless: "lossless d \<Longrightarrow> lossless (note_loss 0 d) \<and> \<not> is_congested (note_loss 0 d)"
proof -
  assume "lossless d"
  then have "lossless (note_loss 0 d)"
    by (cases "loss_window d") (auto simp: lossless_def note_loss_def Let_def)
  then show ?thesis
    by (simp add: lossless_def is_congested_def sum_list_zero)
qed

lemma reports_idle:
  assumes "settled rtt (delay_detector b)" and "lossless (loss_detector b)" and "0 < rtt"
    and "estimated_bw_kbps b = min (max_bw_kbps b) x"
    and "min_bw_kbps b \<le> x" and "min_bw_kbps b \<le> max_bw_kbps b" and "0 \<le> x" and "0 \<le> max_bw_kbps b"
  shows "estimated_bw_kbps (reports (replicate n (rtt, 0)) b) = min (max_bw_kbps b) (x * (105 / 100) ^ n)"
  using assms
proof (induction n arbitrary: x b)
  case (Suc n)
  let ?b = "snd (bandwidth_update rtt 0 b)"
  let ?x = "x * (105 / 100)"
  note d = note_rtt_settled[OF Suc.prems(1,3)] note_loss_lossless[OF Suc.prems(2)]
  have up: "x \<le> ?x"
    using Suc.prems(7) by simp
  have "estimated_bw_kbps ?b = clamp (min_bw_kbps b) (max_bw_kbps b) (estimated_bw_kbps b * (105 / 100))"
    using d by (simp add: bandwidth_update_def Let_def mult.commute)
  also have "\<dots> = min (max_bw_kbps b) ?x"
    using Suc.prems(4-8) up by (auto simp: clamp_def min_def)
  finally have e: "estimated_bw_kbps ?b = min (max_bw_kbps ?b) ?x"
    by (simp add: bandwidth_update_parts)
  have "estimated_bw_kbps (reports (replicate n (rtt, 0)) ?b) = min (max_bw_kbps ?b) (?x * (105 / 100) ^ n)"
    using d up Suc.prems(3,5-8)
    by (intro Suc.IH[OF _ _ _ e]) (simp_all add: bandwidth_update_parts)
  then show ?case
    by (simp add: bandwidth_update_parts)
qed simp

text \<open>
  Also (Bandwidth.idle_link_probes_up). On a loss-free link with a constant positive round trip the
  first report holds the estimate and every further one raises it by 5 %, up to the ceiling.
\<close>

theorem idle_link_probes_up:
  assumes "0 < rtt" and "0 \<le> lo" and "lo \<le> initial" and "initial \<le> hi"
  shows "estimated_bw_kbps (reports (replicate (Suc n) (rtt, 0)) (bandwidth_new initial lo hi)) =
    min hi (initial * (105 / 100) ^ n)"
proof -
  let ?b = "snd (bandwidth_update rtt 0 (bandwidth_new initial lo hi))"
  have l: "lossless loss_detector_new"
    by (simp add: lossless_def loss_detector_new_def)
  have s: "settled rtt (note_rtt rtt delay_detector_new)" "dd_state (note_rtt rtt delay_detector_new) = Normal"
    by (simp_all add: settled_def note_rtt_def delay_detector_new_def)
  have "estimated_bw_kbps ?b = min (max_bw_kbps ?b) initial"
    using assms s note_loss_lossless[OF l]
    by (simp add: bandwidth_update_def bandwidth_new_def Let_def clamp_def)
  then have "estimated_bw_kbps (reports (replicate n (rtt, 0)) ?b) =
      min (max_bw_kbps ?b) (initial * (105 / 100) ^ n)"
    using assms s note_loss_lossless[OF l]
    by (intro reports_idle) (simp_all add: bandwidth_update_parts bandwidth_new_def)
  then show ?thesis
    by (simp add: bandwidth_update_parts bandwidth_new_def)
qed

section \<open>Transport feedback\<close>

text \<open>
  Also (Bandwidth.target_bounds). The sending target is at most nine tenths of the congestion
  window's rate and of the peer's limit, and it is zero until the first path sample.
\<close>

lemma target_bounds:
  "10 * target_send_bps b \<le> 9 * cwnd_bps b \<and> 10 * target_send_bps b \<le> 9 * peer_remb_bps b \<and>
   target_send_bps (bandwidth_new initial lo hi) = 0"
proof -
  let ?m = "min (cwnd_bps b) (peer_remb_bps b)"
  have "of_nat (nat \<lfloor>x\<rfloor>) \<le> x" if "0 \<le> x" for x :: rat
    using that by (simp add: of_nat_nat)
  from this[of "of_nat ?m * (9 / 10)"]
  have "(of_nat (10 * nat \<lfloor>of_nat ?m * (9 / 10 :: rat)\<rfloor>) :: rat) \<le> of_nat (9 * ?m)"
    by simp
  then have "10 * nat \<lfloor>of_nat ?m * (9 / 10 :: rat)\<rfloor> \<le> 9 * ?m"
    by (simp only: of_nat_le_iff)
  then have "10 * target_send_bps b \<le> 9 * ?m"
    unfolding target_send_bps_def to_u64_def by linarith
  then have "10 * target_send_bps b \<le> 9 * cwnd_bps b" "10 * target_send_bps b \<le> 9 * peer_remb_bps b"
    by linarith+
  then show ?thesis
    by (simp add: target_send_bps_def bandwidth_new_def to_u64_def)
qed

text \<open>
  Also (Bandwidth.ewma_between). The smoothed rate never leaves the interval between the previous
  value and the new sample, whatever the time between them.
\<close>

lemma ewma_between:
  assumes "current \<le> U64_MAX" and "new_bps \<le> U64_MAX"
  shows "min current new_bps \<le> ewma_bps current new_bps dt \<or> current = 0"
    and "ewma_bps current new_bps dt \<le> max current new_bps"
proof -
  define a where "a = 1 - (1 / 2 :: real) powr (real dt / 2000)"
  have a: "0 \<le> a" "a \<le> 1"
    using powr_mono'[of 0 "real dt / 2000" "1 / 2"] by (simp_all add: a_def)
  have "real (min current new_bps) * (1 - a) \<le> real current * (1 - a)"
    "real (min current new_bps) * a \<le> real new_bps * a"
    "real current * (1 - a) \<le> real (max current new_bps) * (1 - a)"
    "real new_bps * a \<le> real (max current new_bps) * a"
    using a by (auto intro!: mult_right_mono)
  then have lo: "real (min current new_bps) \<le> real current * (1 - a) + real new_bps * a"
    and hi: "real current * (1 - a) + real new_bps * a \<le> real (max current new_bps)"
    by (simp_all add: right_diff_distrib)
  have "min current new_bps \<le> nat \<lfloor>real current * (1 - a) + real new_bps * a\<rfloor>"
    using lo by (simp add: le_nat_floor)
  then show "min current new_bps \<le> ewma_bps current new_bps dt \<or> current = 0"
    using assms by (simp add: ewma_bps_def a_def [symmetric] min_def)
  have "nat \<lfloor>real current * (1 - a) + real new_bps * a\<rfloor> \<le> max current new_bps"
    using hi by linarith
  then show "ewma_bps current new_bps dt \<le> max current new_bps"
    by (simp add: ewma_bps_def a_def [symmetric] min.coboundedI2)
qed

end
