(* ===== verification/VideoControl.thy ===== *)
theory VideoControl
  imports Bandwidth
begin

text \<open>
  The video quality controller and the simulcast encoder: \<open>crates/wzp-video/src/controller.rs\<close>
  and \<open>simulcast.rs\<close>.  The shared bandwidth estimator is part of the state; the atomics are
  plain fields.  The powers of two in the smoothing are real.
\<close>

section \<open>Targets and step tables\<close>

record VideoTarget =
  bitrate_kbps :: nat
  fps :: nat
  width :: nat
  height :: nat

definition DISABLED :: VideoTarget where
  "DISABLED = \<lparr>bitrate_kbps = 0, fps = 0, width = 0, height = 0\<rparr>"

record Step =
  min_budget_kbps :: nat
  step_width :: nat
  step_height :: nat
  step_fps :: nat

abbreviation (input) step :: "nat \<Rightarrow> nat \<Rightarrow> nat \<Rightarrow> nat \<Rightarrow> Step" where
  "step b w h f \<equiv> \<lparr>min_budget_kbps = b, step_width = w, step_height = h, step_fps = f\<rparr>"

definition STEP_TABLE_H264 :: "Step list" where
  "STEP_TABLE_H264 =
     [step 4000 1280 720 30, step 2000 640 480 30, step 1000 480 360 30, step 500 480 360 15,
      step 250 320 240 15, step 150 320 240 10, step 100 240 180 10, step 50 240 180 5]"

definition STEP_TABLE_H265 :: "Step list" where
  "STEP_TABLE_H265 =
     [step 3200 1280 720 30, step 1600 640 480 30, step 800 480 360 30, step 400 480 360 15,
      step 200 320 240 15, step 120 320 240 10, step 80 240 180 10, step 40 240 180 5]"

definition STEP_TABLE_AV1 :: "Step list" where
  "STEP_TABLE_AV1 =
     [step 2800 1280 720 30, step 1400 640 480 30, step 700 480 360 30, step 350 480 360 15,
      step 175 320 240 15, step 105 320 240 10, step 70 240 180 10, step 35 240 180 5]"

lemmas step_tables = STEP_TABLE_H264_def STEP_TABLE_H265_def STEP_TABLE_AV1_def

fun step_table_for_codec :: "CodecId \<Rightarrow> Step list" where
  "step_table_for_codec H264Baseline = STEP_TABLE_H264"
| "step_table_for_codec H265Main = STEP_TABLE_H265"
| "step_table_for_codec Av1Main = STEP_TABLE_AV1"
| "step_table_for_codec _ = STEP_TABLE_H264"

abbreviation (input) AUDIO_FLOOR_KBPS :: nat where "AUDIO_FLOOR_KBPS \<equiv> 24"
abbreviation (input) AUDIO_FLOOR_SCREENCAST_KBPS :: nat where "AUDIO_FLOOR_SCREENCAST_KBPS \<equiv> 16"
abbreviation (input) BALANCED_AUDIO_RATIO :: rat where "BALANCED_AUDIO_RATIO \<equiv> 15 / 100"
abbreviation (input) SD_VIDEO_FLOOR_KBPS :: nat where "SD_VIDEO_FLOOR_KBPS \<equiv> 150"
abbreviation (input) U32_MAX :: nat where "U32_MAX \<equiv> 4294967295"

section \<open>The controller\<close>

datatype EncoderMode = NormalMode | SlideFallback

fun mode_byte :: "PriorityMode \<Rightarrow> u8" where
  "mode_byte AudioFirst = 0"
| "mode_byte VideoFirst = 1"
| "mode_byte ScreenShare = 2"
| "mode_byte Balanced = 3"

record VideoQualityController =
  bwe :: BandwidthEstimator
  vc_mode :: u8
  vc_codec :: u8
  vc_loss_pct :: u8
  vc_rtt_ms :: u32
  last_target :: VideoTarget
  last_tick_ms :: nat

definition with_codec :: "BandwidthEstimator \<Rightarrow> CodecId \<Rightarrow> VideoQualityController" where
  "with_codec b c =
     \<lparr>bwe = b, vc_mode = mode_byte AudioFirst, vc_codec = codec_to_wire c, vc_loss_pct = 0,
      vc_rtt_ms = 0, last_target = DISABLED, last_tick_ms = 0\<rparr>"

definition video_controller_new :: "BandwidthEstimator \<Rightarrow> VideoQualityController" where
  "video_controller_new b = with_codec b H264Baseline"

definition set_codec :: "CodecId \<Rightarrow> VideoQualityController \<Rightarrow> VideoQualityController" where
  "set_codec c vc = vc\<lparr>vc_codec := codec_to_wire c\<rparr>"

definition current_codec :: "VideoQualityController \<Rightarrow> CodecId" where
  "current_codec vc =
     (if vc_codec vc = 9 then H264Baseline else if vc_codec vc = 11 then H265Main
      else if vc_codec vc = 12 then Av1Main else H264Baseline)"

definition set_mode :: "PriorityMode \<Rightarrow> VideoQualityController \<Rightarrow> VideoQualityController" where
  "set_mode m vc = vc\<lparr>vc_mode := mode_byte m\<rparr>"

definition update_network :: "u8 \<Rightarrow> u32 \<Rightarrow> VideoQualityController \<Rightarrow> VideoQualityController" where
  "update_network l r vc = vc\<lparr>vc_loss_pct := l, vc_rtt_ms := r\<rparr>"

definition current_mode :: "VideoQualityController \<Rightarrow> PriorityMode" where
  "current_mode vc =
     (if vc_mode vc = 1 then VideoFirst else if vc_mode vc = 2 then ScreenShare
      else if vc_mode vc = 3 then Balanced else AudioFirst)"

text \<open>\<open>as u32\<close> truncates the estimate.\<close>

definition bwe_kbps :: "VideoQualityController \<Rightarrow> nat" where
  "bwe_kbps vc = (target_send_bps (bwe vc) div 1000) mod 2 ^ 32"

definition allocate :: "VideoQualityController \<Rightarrow> nat \<times> nat" where
  "allocate vc =
     (let b = bwe_kbps vc; table = step_table_for_codec (current_codec vc) in
      case current_mode vc of
        AudioFirst \<Rightarrow> let a = min AUDIO_FLOOR_KBPS b in (a, b - a)
      | VideoFirst \<Rightarrow>
          let floor = (if table = [] then 50 else min_budget_kbps (last table)); v = min floor b in (b - v, v)
      | ScreenShare \<Rightarrow> let a = min AUDIO_FLOOR_SCREENCAST_KBPS b in (a, b - a)
      | Balanced \<Rightarrow> let a = nat \<lfloor>of_nat b * BALANCED_AUDIO_RATIO\<rfloor> in (a, b - a))"

definition encoder_mode :: "VideoQualityController \<Rightarrow> EncoderMode" where
  "encoder_mode vc =
     (if current_mode vc \<noteq> ScreenShare then NormalMode
      else if snd (allocate vc) < SD_VIDEO_FLOOR_KBPS then SlideFallback else NormalMode)"

fun first_step :: "nat \<Rightarrow> Step list \<Rightarrow> VideoTarget" where
  "first_step budget [] = DISABLED"
| "first_step budget (s # ss) =
     (if min_budget_kbps s \<le> budget
      then \<lparr>bitrate_kbps = budget, fps = step_fps s, width = step_width s, height = step_height s\<rparr>
      else first_step budget ss)"

definition derive_target :: "VideoQualityController \<Rightarrow> nat \<Rightarrow> VideoTarget" where
  "derive_target vc budget = first_step budget (step_table_for_codec (current_codec vc))"

definition max_ratio :: "nat \<Rightarrow> real" where
  "max_ratio dt_ms = 2 powr (real dt_ms / 1000)"

definition to_u32 :: "real \<Rightarrow> nat" where
  "to_u32 x = min U32_MAX (nat \<lfloor>x\<rfloor>)"

definition smooth :: "VideoTarget \<Rightarrow> nat \<Rightarrow> VideoQualityController \<Rightarrow> VideoTarget" where
  "smooth raw dt_ms vc =
     (if bitrate_kbps raw = 0 then raw
      else let prev = last_target vc in
        if bitrate_kbps prev = 0 then raw
        else
          let lo = to_u32 (real (bitrate_kbps prev) / max_ratio dt_ms);
              hi = to_u32 (real (bitrate_kbps prev) * max_ratio dt_ms) in
          raw\<lparr>bitrate_kbps := max lo (min hi (bitrate_kbps raw))\<rparr>)"

definition elapsed :: "nat \<Rightarrow> VideoQualityController \<Rightarrow> nat" where
  "elapsed now vc = (if last_tick_ms vc = 0 then 1000 else now - last_tick_ms vc)"

definition finish_tick :: "nat \<Rightarrow> VideoTarget \<Rightarrow> VideoQualityController \<Rightarrow> VideoTarget \<times> VideoQualityController" where
  "finish_tick now raw vc =
     (let t = smooth raw (elapsed now vc) vc in (t, vc\<lparr>last_tick_ms := now, last_target := t\<rparr>))"

definition controller_tick :: "nat \<Rightarrow> VideoQualityController \<Rightarrow> VideoTarget \<times> VideoQualityController" where
  "controller_tick now vc = finish_tick now (derive_target vc (snd (allocate vc))) vc"

section \<open>Simulcast layers\<close>

record SimulcastLayer =
  layer_stream_id :: u8
  layer_width :: nat
  layer_height :: nat
  layer_kbps :: nat
  layer_fps :: nat

abbreviation (input) layer :: "u8 \<Rightarrow> nat \<Rightarrow> nat \<Rightarrow> nat \<Rightarrow> nat \<Rightarrow> SimulcastLayer" where
  "layer i w h b f \<equiv> \<lparr>layer_stream_id = i, layer_width = w, layer_height = h, layer_kbps = b, layer_fps = f\<rparr>"

definition ALL_LAYERS :: "SimulcastLayer list" where
  "ALL_LAYERS = [layer 0 480 270 150 15, layer 1 960 540 600 30, layer 2 1920 1080 2500 30]"

definition layers_bitrate_kbps :: nat where
  "layers_bitrate_kbps = sum_list (map layer_kbps ALL_LAYERS)"

definition cumulative :: "nat list" where
  "cumulative = [150, 150 + 600, layers_bitrate_kbps]"

definition highest_active :: "bool list \<Rightarrow> nat" where
  "highest_active active =
     (case filter (\<lambda>(a, c). a) (rev (zip active cumulative)) of [] \<Rightarrow> 0 | (a, c) # _ \<Rightarrow> c)"

definition tick_simulcast ::
  "nat \<Rightarrow> VideoQualityController \<Rightarrow> (SimulcastLayer \<times> bool) list \<times> VideoQualityController" where
  "tick_simulcast now vc =
     (let v = snd (allocate vc);
          active = map (\<lambda>c. c \<le> v) cumulative;
          top = highest_active active;
          raw = (if 0 < top then derive_target vc top else DISABLED) in
      (zip ALL_LAYERS active, snd (finish_tick now raw vc)))"


section \<open>The simulcast encoder\<close>

text \<open>
  The platform encoder is a parameter: a factory from dimensions and bit rate, a step that encodes
  a frame or fails, and a request for a keyframe.
\<close>

datatype VideoError = PlatformError string | InvalidInput string | NotInitialized

record 'e LayerState =
  config :: SimulcastLayer
  encoder :: 'e
  active :: bool

fun build_layers ::
  "(nat \<Rightarrow> nat \<Rightarrow> nat \<Rightarrow> VideoError + 'e) \<Rightarrow> SimulcastLayer list \<Rightarrow> VideoError + 'e LayerState list" where
  "build_layers factory [] = Inr []"
| "build_layers factory (c # cs) =
     (case factory (layer_width c) (layer_height c) (layer_kbps c * 1000) of
        Inl e \<Rightarrow> Inl e
      | Inr enc \<Rightarrow>
        (case build_layers factory cs of Inl e \<Rightarrow> Inl e
         | Inr ls \<Rightarrow> Inr (\<lparr>config = c, encoder = enc, active = True\<rparr> # ls)))"

definition simulcast_new ::
  "(nat \<Rightarrow> nat \<Rightarrow> nat \<Rightarrow> VideoError + 'e) \<Rightarrow> VideoError + 'e LayerState list" where
  "simulcast_new factory = build_layers factory ALL_LAYERS"

fun simulcast_encode ::
  "('e \<Rightarrow> 'f \<Rightarrow> (VideoError + byte list) \<times> 'e) \<Rightarrow> 'f \<Rightarrow> 'e LayerState list \<Rightarrow>
   (VideoError + (u8 \<times> byte list) list) \<times> 'e LayerState list" where
  "simulcast_encode enc fr [] = (Inr [], [])"
| "simulcast_encode enc fr (l # ls) =
     (if \<not> active l
      then let (out, ls) = simulcast_encode enc fr ls in (out, l # ls)
      else
        let (res, e) = enc (encoder l) fr; l = l\<lparr>encoder := e\<rparr> in
        case res of
          Inl err \<Rightarrow> (Inl err, l # ls)
        | Inr d \<Rightarrow>
            let (out, ls) = simulcast_encode enc fr ls in
            (map_sum id (\<lambda>ps. if d = [] then ps else (layer_stream_id (config l), d) # ps) out, l # ls))"

definition request_keyframe :: "('e \<Rightarrow> 'e) \<Rightarrow> 'e LayerState list \<Rightarrow> 'e LayerState list" where
  "request_keyframe req = map (\<lambda>l. if active l then l\<lparr>encoder := req (encoder l)\<rparr> else l)"

definition set_layer_mask :: "u8 \<Rightarrow> 'e LayerState list \<Rightarrow> 'e LayerState list" where
  "set_layer_mask msk ls =
     map (\<lambda>(idx, l). l\<lparr>active := (drop_bit idx msk AND 1 \<noteq> 0)\<rparr>) (enumerate 0 ls)"

definition layer_mask :: "'e LayerState list \<Rightarrow> u8" where
  "layer_mask ls = fold (\<lambda>(idx, l) m. if active l then m OR push_bit idx 1 else m) (enumerate 0 ls) 0"

section \<open>Budgets\<close>

text \<open>
  Also (VideoControl.allocate_splits). In every mode the two budgets add up to the estimate; audio
  keeps its floor in the modes that promise one, and at most 15 % in the balanced mode.
\<close>

lemma allocate_splits:
  "fst (allocate vc) + snd (allocate vc) = bwe_kbps vc \<and>
   (current_mode vc = AudioFirst \<longrightarrow> fst (allocate vc) = min 24 (bwe_kbps vc)) \<and>
   (current_mode vc = ScreenShare \<longrightarrow> fst (allocate vc) = min 16 (bwe_kbps vc)) \<and>
   (current_mode vc = Balanced \<longrightarrow> fst (allocate vc) = bwe_kbps vc * 15 div 100)"
proof -
  have "nat \<lfloor>of_nat b * (15 / 100 :: rat)\<rfloor> = b * 15 div 100" for b
  proof -
    have "of_nat b * (15 / 100 :: rat) = of_nat (b * 15) / of_nat 100" by simp
    then show ?thesis by (simp only: floor_divide_of_nat_eq nat_int)
  qed
  then show ?thesis
    by (cases "current_mode vc") (auto simp: allocate_def Let_def)
qed

lemma last_step_table: "min_budget_kbps (last (step_table_for_codec c)) \<in> {35, 40, 50}"
  "step_table_for_codec c \<noteq> []"
  by (cases c; simp add: step_tables)+

text \<open>
  Also (VideoControl.video_first_starves_video). The mode called video-first gives video no more than
  the lowest step of its table, 35, 40 or 50 kbps, and all the rest to audio, whatever the bandwidth;
  the picture never gets larger than 240 x 180 at 5 frames per second.
\<close>

theorem video_first_starves_video:
  assumes "current_mode vc = VideoFirst"
  shows "snd (allocate vc) \<le> 50 \<and>
    derive_target vc (snd (allocate vc)) \<in>
      {DISABLED, \<lparr>bitrate_kbps = snd (allocate vc), fps = 5, width = 240, height = 180\<rparr>}"
proof -
  have v: "snd (allocate vc) \<le> min_budget_kbps (last (step_table_for_codec (current_codec vc)))"
    using assms last_step_table(2)[of "current_codec vc"] by (simp add: allocate_def Let_def)
  have "current_codec vc \<in> {H264Baseline, H265Main, Av1Main}"
    by (simp add: current_codec_def)
  then show ?thesis
    using v by (auto simp: derive_target_def step_tables)
qed

text \<open>
  The tables are ordered: a first fit is a best fit, and more budget never gives a smaller picture.
\<close>

definition table_ordered :: "Step list \<Rightarrow> bool" where
  "table_ordered t \<longleftrightarrow>
     sorted_wrt (\<lambda>s r. min_budget_kbps r \<le> min_budget_kbps s \<and> step_width r \<le> step_width s \<and>
        step_height r \<le> step_height s \<and> step_fps r \<le> step_fps s) t"

lemma step_tables_ordered: "table_ordered (step_table_for_codec c)"
  by (cases c) (simp_all add: step_tables table_ordered_def)

lemma first_step_le_head:
  assumes "table_ordered (s # t)"
  shows "width (first_step b t) \<le> step_width s \<and> height (first_step b t) \<le> step_height s \<and>
    fps (first_step b t) \<le> step_fps s"
  using assms
proof (induction t)
  case Nil
  then show ?case by (simp add: DISABLED_def)
next
  case (Cons r t)
  then show ?case by (auto simp: table_ordered_def)
qed

lemma first_step_mono:
  assumes "table_ordered t" and "a \<le> b"
  shows "width (first_step a t) \<le> width (first_step b t) \<and>
    height (first_step a t) \<le> height (first_step b t) \<and> fps (first_step a t) \<le> fps (first_step b t)"
  using assms
proof (induction t)
  case (Cons s t)
  then have "table_ordered t" by (simp add: table_ordered_def)
  with Cons first_step_le_head[OF Cons.prems(1), of a] show ?case by auto
qed simp

lemma first_step_disabled:
  assumes "table_ordered t" and "t \<noteq> []" and "0 < min_budget_kbps (last t)"
  shows "bitrate_kbps (first_step b t) = (if min_budget_kbps (last t) \<le> b then b else 0)"
  using assms
proof (induction t)
  case (Cons s t)
  show ?case
  proof (cases "t = []")
    case False
    then have "last t \<in> set t" by simp
    then have "min_budget_kbps (last t) \<le> min_budget_kbps s"
      using Cons.prems(1) by (auto simp: table_ordered_def)
    moreover have "bitrate_kbps (first_step b t) = (if min_budget_kbps (last t) \<le> b then b else 0)"
      using Cons False by (simp add: table_ordered_def)
    ultimately show ?thesis using False by simp
  qed (simp add: DISABLED_def)
qed simp

text \<open>
  Also (VideoControl.more_budget_no_smaller_picture). For every codec, more video budget never
  gives a smaller or slower picture, and video is off exactly below the lowest step.
\<close>

theorem more_budget_no_smaller_picture:
  assumes "a \<le> b"
  shows "width (derive_target vc a) \<le> width (derive_target vc b) \<and>
    height (derive_target vc a) \<le> height (derive_target vc b) \<and>
    fps (derive_target vc a) \<le> fps (derive_target vc b) \<and>
    bitrate_kbps (derive_target vc b) =
      (if min_budget_kbps (last (step_table_for_codec (current_codec vc))) \<le> b then b else 0)"
proof -
  let ?t = "step_table_for_codec (current_codec vc)"
  have "0 < min_budget_kbps (last ?t)"
    using last_step_table(1)[of "current_codec vc"] by auto
  with first_step_mono[OF step_tables_ordered assms] step_tables_ordered last_step_table(2)
  show ?thesis
    by (simp add: derive_target_def first_step_disabled)
qed


theorem video_first_starves_video_witness:
  "snd (allocate (set_mode VideoFirst (video_controller_new
     ((bandwidth_new 0 0 0)\<lparr>cwnd_bps := 100000000, peer_remb_bps := 100000000\<rparr>)))) \<le> 50"
  using video_first_starves_video[of "set_mode VideoFirst (video_controller_new
     ((bandwidth_new 0 0 0)\<lparr>cwnd_bps := 100000000, peer_remb_bps := 100000000\<rparr>))"]
  by (simp add: current_mode_def set_mode_def)

theorem more_budget_no_smaller_picture_witness:
  "width (derive_target (video_controller_new (bandwidth_new 0 0 0)) 300) \<le>
   width (derive_target (video_controller_new (bandwidth_new 0 0 0)) 2500)"
  using more_budget_no_smaller_picture[of 300 2500] by simp

section \<open>Smoothing\<close>

fun ticks :: "(nat \<times> BandwidthEstimator \<times> u8 \<times> u8) list \<Rightarrow> VideoQualityController \<Rightarrow>
  VideoTarget list \<times> VideoQualityController" where
  "ticks [] vc = ([], vc)"
| "ticks ((now, b, m, c) # es) vc =
     (let (t, vc) = controller_tick now (vc\<lparr>bwe := b, vc_mode := m, vc_codec := c\<rparr>);
          (ts, vc) = ticks es vc in (t # ts, vc))"

lemma max_ratio_ge_1: "1 \<le> max_ratio d"
  by (simp add: max_ratio_def ge_one_powr_ge_zero)

lemma max_ratio_add: "max_ratio a * max_ratio b = max_ratio (a + b)"
  by (simp add: max_ratio_def add_divide_distrib powr_add [symmetric])

lemma to_u32_le: "0 \<le> x \<Longrightarrow> real (to_u32 x) \<le> x"
  by (simp add: to_u32_def min_def) linarith

lemma smooth_upper:
  assumes "bitrate_kbps (last_target vc) \<noteq> 0"
  shows "real (bitrate_kbps (smooth raw d vc)) \<le> real (bitrate_kbps (last_target vc)) * max_ratio d"
proof -
  let ?p = "real (bitrate_kbps (last_target vc))" and ?r = "max_ratio d"
  have r: "1 \<le> ?r" by (rule max_ratio_ge_1)
  have "?p / ?r \<le> ?p * ?r"
  proof -
    have "?p / ?r \<le> ?p" using r by (simp add: divide_le_eq mult_left_le mult_le_cancel_left1)
    also have "\<dots> \<le> ?p * ?r" using r by (simp add: mult_le_cancel_left1)
    finally show ?thesis .
  qed
  moreover have "real (to_u32 (?p / ?r)) \<le> ?p / ?r" "real (to_u32 (?p * ?r)) \<le> ?p * ?r"
    using r by (auto intro!: to_u32_le)
  ultimately have "real (max (to_u32 (?p / ?r)) (min (to_u32 (?p * ?r)) x)) \<le> ?p * ?r" for x
    by linarith
  moreover have "0 \<le> ?p * ?r" using r by simp
  ultimately show ?thesis
    using assms by (auto simp: smooth_def Let_def)
qed

lemma controller_tick_upper:
  assumes "bitrate_kbps (last_target vc) \<noteq> 0" and "last_tick_ms vc \<noteq> 0" and "last_tick_ms vc \<le> now"
  shows "real (bitrate_kbps (fst (controller_tick now vc))) \<le>
    real (bitrate_kbps (last_target vc)) * max_ratio (now - last_tick_ms vc)"
  using smooth_upper[OF assms(1)] assms(2)
  by (simp add: controller_tick_def finish_tick_def Let_def elapsed_def)

lemma controller_tick_state [simp]:
  "last_target (snd (controller_tick now vc)) = fst (controller_tick now vc)"
  "last_tick_ms (snd (controller_tick now vc)) = now"
  by (simp_all add: controller_tick_def finish_tick_def Let_def)

text \<open>
  Also (VideoControl.no_bitrate_jump). Between a tick that leaves video on and a later one, with any
  ticks, bandwidth samples, mode and codec changes in between, as long as no tick in between
  switches video off, the bit rate grows at most by a factor of two per second.
\<close>

theorem no_bitrate_jump:
  assumes "es \<noteq> []" and "sorted (last_tick_ms vc # map fst es)" and "last_tick_ms vc \<noteq> 0"
    and "\<forall>t \<in> set (last_target vc # butlast (fst (ticks es vc))). bitrate_kbps t \<noteq> 0"
  shows "real (bitrate_kbps (last (fst (ticks es vc)))) \<le>
    real (bitrate_kbps (last_target vc)) * 2 powr (real (fst (last es) - last_tick_ms vc) / 1000)"
proof -
  have "real (bitrate_kbps (last (fst (ticks es vc)))) \<le>
      real (bitrate_kbps (last_target vc)) * max_ratio (fst (last es) - last_tick_ms vc)"
    using assms
  proof (induction es arbitrary: vc)
    case (Cons e es)
    obtain now b m c where e: "e = (now, b, m, c)" by (cases e) auto
    let ?v = "vc\<lparr>bwe := b, vc_mode := m, vc_codec := c\<rparr>"
    let ?vc = "snd (controller_tick now ?v)" and ?t = "fst (controller_tick now ?v)"
    have first: "real (bitrate_kbps ?t) \<le> real (bitrate_kbps (last_target vc)) * max_ratio (now - last_tick_ms vc)"
      using controller_tick_upper[of ?v now] Cons.prems e by simp
    show ?case
    proof (cases "es = []")
      case True
      with first show ?thesis by (simp add: e case_prod_beta)
    next
      case False
      then have ne: "fst (ticks es ?vc) \<noteq> []" by (cases es) (auto simp: case_prod_beta)
      have "real (bitrate_kbps (last (fst (ticks es ?vc)))) \<le>
          real (bitrate_kbps (last_target ?vc)) * max_ratio (fst (last es) - last_tick_ms ?vc)"
        using Cons.prems False ne e
        by (intro Cons.IH) (auto simp: case_prod_beta)
      also have "\<dots> \<le> real (bitrate_kbps (last_target vc)) * max_ratio (now - last_tick_ms vc) *
          max_ratio (fst (last es) - now)"
        using first order.trans[OF zero_le_one max_ratio_ge_1]
        by (auto intro!: mult_right_mono)
      also have "\<dots> = real (bitrate_kbps (last_target vc)) * max_ratio (fst (last es) - last_tick_ms vc)"
      proof -
        have "last_tick_ms vc \<le> now" "now \<le> fst (last es)"
          using Cons.prems(2) False e by auto
        then show ?thesis by (simp add: max_ratio_add mult.assoc)
      qed
      finally show ?thesis using False ne by (simp add: e case_prod_beta)
    qed
  qed simp
  then show ?thesis by (simp add: max_ratio_def)
qed


definition demo_estimate :: "nat \<Rightarrow> BandwidthEstimator" where
  "demo_estimate bps = (bandwidth_new 0 0 0)\<lparr>cwnd_bps := bps, peer_remb_bps := bps\<rparr>"

definition demo_controller :: VideoQualityController where
  "demo_controller =
     (video_controller_new (demo_estimate 0))\<lparr>last_target := \<lparr>bitrate_kbps = 200, fps = 10, width = 320, height = 240\<rparr>,
        last_tick_ms := 500\<rparr>"

theorem no_bitrate_jump_witness:
  "bitrate_kbps (fst (controller_tick 1500 (demo_controller\<lparr>bwe := demo_estimate 9000000, vc_mode := 0, vc_codec := 9\<rparr>))) \<le> 400"
  using no_bitrate_jump[of "[(1500, demo_estimate 9000000, 0, 9)]" demo_controller]
  by (simp add: demo_controller_def case_prod_beta)

section \<open>Layers\<close>

text \<open>
  Also (VideoControl.simulcast_layers_fit). The active layers are the lowest ones, together they
  fit the video budget, and adding the next layer would not.
\<close>

lemma simulcast_layers_fit:
  fixes vc now
  defines "ls \<equiv> fst (tick_simulcast now vc)" and "n \<equiv> length (filter snd (fst (tick_simulcast now vc)))"
  shows "map fst ls = ALL_LAYERS \<and> map snd ls = replicate n True @ replicate (3 - n) False \<and>
    sum_list (map layer_kbps (take n ALL_LAYERS)) \<le> snd (allocate vc) \<and>
    (n < 3 \<longrightarrow> snd (allocate vc) < sum_list (map layer_kbps (take (Suc n) ALL_LAYERS)))"
proof -
  define v where "v = snd (allocate vc)"
  have ls: "ls = zip ALL_LAYERS [150 \<le> v, 750 \<le> v, 3250 \<le> v]"
    by (simp add: ls_def tick_simulcast_def Let_def cumulative_def layers_bitrate_kbps_def
        ALL_LAYERS_def v_def)
  consider "v < 150" | "150 \<le> v" "v < 750" | "750 \<le> v" "v < 3250" | "3250 \<le> v" by linarith
  then show ?thesis
    unfolding n_def ls_def [symmetric] ls v_def [symmetric]
    by cases (simp_all add: ALL_LAYERS_def numeral_2_eq_2 numeral_3_eq_3)
qed

text \<open>
  Also (VideoControl.layer_mask_roundtrip). Reading the mask back gives the three low bits written.
\<close>

lemma drop_bit_and_1: "drop_bit n (m :: u8) AND 1 \<noteq> 0 \<longleftrightarrow> bit m n"
  by (simp add: bit_iff_odd_drop_bit and_one_eq odd_iff_mod_2_eq_one)

lemma layer_mask_roundtrip:
  assumes "length ls = 3"
  shows "layer_mask (set_layer_mask m ls) = m AND 7"
proof -
  obtain a b c where ls: "ls = [a, b, c]"
    using assms by (auto simp: numeral_eq_Suc length_Suc_conv)
  have "(7 :: u8) = mask 3" by (simp add: mask_eq_exp_minus_1)
  moreover have "layer_mask (set_layer_mask m ls) = m AND mask 3"
    by (rule bit_word_eqI)
      (auto simp: ls layer_mask_def set_layer_mask_def drop_bit_and_1 bit_simps less_Suc_eq numeral_eq_Suc)
  ultimately show ?thesis by simp
qed

end
