(* ===== verification/Scorers.thy ===== *)
theory Scorers
  imports Packet Policy
begin

text \<open>
  The behavioural scorers of the relay, \<open>crates/wzp-relay/src/audio_scorer.rs\<close> and
  \<open>video_scorer.rs\<close>.  Times are in nanoseconds, averages and deviations are real numbers
  (\<open>f64\<close> and \<open>f32\<close> in the code).
\<close>

section \<open>Averages\<close>

definition mean :: "real list \<Rightarrow> real" where
  "mean xs = sum_list xs / real (length xs)"

definition variance :: "real list \<Rightarrow> real" where
  "variance xs = sum_list (map (\<lambda>x. (x - mean xs) * (x - mean xs)) xs) / real (length xs)"

definition secs :: "nat \<Rightarrow> real" where
  "secs d = real d / 1000000000"

text \<open>Coefficient of variation of at least \<open>n\<close> samples.\<close>

definition cov :: "nat \<Rightarrow> nat list \<Rightarrow> real option" where
  "cov n ds =
     (let xs = map secs ds in
      if length ds < n then None
      else if mean xs = 0 then None else Some (sqrt (variance xs) / mean xs))"

text \<open>A bounded queue: push at the back, drop the front beyond the bound.\<close>

definition push_bounded :: "nat \<Rightarrow> 'a \<Rightarrow> 'a list \<Rightarrow> 'a list" where
  "push_bounded n x q = (let q = q @ [x] in if n < length q then tl q else q)"

definition clamp01 :: "real \<Rightarrow> real" where
  "clamp01 x = max 0 (min 1 x)"

definition score_verdict :: "real \<Rightarrow> Verdict" where
  "score_verdict s = (if 7 / 10 \<le> s then Legitimate else if 3 / 10 \<le> s then Suspect else Abusive)"

section \<open>Audio\<close>

abbreviation (input) MAX_IAT_SAMPLES :: nat where "MAX_IAT_SAMPLES \<equiv> 200"
abbreviation (input) MAX_SIZE_SAMPLES :: nat where "MAX_SIZE_SAMPLES \<equiv> 200"
abbreviation (input) MAX_Q_INTERVALS :: nat where "MAX_Q_INTERVALS \<equiv> 32"
abbreviation (input) SILENCE_SIZE_THRESHOLD :: nat where "SILENCE_SIZE_THRESHOLD \<equiv> 16"
abbreviation (input) BITRATE_WINDOW_SECS :: nat where "BITRATE_WINDOW_SECS \<equiv> 30"

record AudioScorer =
  iat_samples :: "nat list"
  last_arrival :: "nat option"
  size_samples :: "nat list"
  silence_packets :: nat
  as_total_packets :: nat
  as_window_start :: nat
  as_window_bytes :: nat
  q_intervals :: "nat list"
  last_q_flag :: "nat option"
  declared_codec :: "CodecId option"

definition audio_scorer_new :: "nat \<Rightarrow> AudioScorer" where
  "audio_scorer_new now =
     \<lparr>iat_samples = [], last_arrival = None, size_samples = [], silence_packets = 0,
      as_total_packets = 0, as_window_start = now, as_window_bytes = 0, q_intervals = [],
      last_q_flag = None, declared_codec = None\<rparr>"

definition audio_observe :: "MediaHeader \<Rightarrow> nat \<Rightarrow> nat \<Rightarrow> AudioScorer \<Rightarrow> AudioScorer" where
  "audio_observe h len now s =
     (if media_type h \<noteq> Audio then s
      else
        let s = (if declared_codec s = None then s\<lparr>declared_codec := Some (codec_id h)\<rparr> else s);
            s = (case last_arrival s of None \<Rightarrow> s
                 | Some prev \<Rightarrow> s\<lparr>iat_samples := push_bounded MAX_IAT_SAMPLES (now - prev) (iat_samples s)\<rparr>);
            s = s\<lparr>last_arrival := Some now,
                  size_samples := push_bounded MAX_SIZE_SAMPLES len (size_samples s),
                  as_total_packets := as_total_packets s + 1\<rparr>;
            s = (if len \<le> SILENCE_SIZE_THRESHOLD then s\<lparr>silence_packets := silence_packets s + 1\<rparr> else s);
            s = (if BITRATE_WINDOW_SECS * 1000000000 \<le> now - as_window_start s
                 then s\<lparr>as_window_start := now, as_window_bytes := 0\<rparr> else s);
            s = s\<lparr>as_window_bytes := as_window_bytes s + (HEADER_SIZE + len)\<rparr> in
        if has_quality h then
          let s = (case last_q_flag s of None \<Rightarrow> s
                   | Some prev \<Rightarrow> s\<lparr>q_intervals := push_bounded MAX_Q_INTERVALS (now - prev) (q_intervals s)\<rparr>) in
          s\<lparr>last_q_flag := Some now\<rparr>
        else s)"

definition iat_cov :: "AudioScorer \<Rightarrow> real option" where
  "iat_cov s = cov 10 (iat_samples s)"

definition silence_fraction :: "AudioScorer \<Rightarrow> real" where
  "silence_fraction s =
     (if as_total_packets s = 0 then 0 else real (silence_packets s) / real (as_total_packets s))"

definition bitrate_ratio :: "AudioScorer \<Rightarrow> real option" where
  "bitrate_ratio s =
     (case declared_codec s of None \<Rightarrow> None
      | Some c \<Rightarrow>
        if bitrate_bps c = 0 then None
        else Some (real (as_window_bytes s) * 8 / real BITRATE_WINDOW_SECS / real (bitrate_bps c)))"

definition q_flag_cv :: "AudioScorer \<Rightarrow> real option" where
  "q_flag_cv s = cov 3 (q_intervals s)"

definition size_bimodality :: "AudioScorer \<Rightarrow> real option" where
  "size_bimodality s =
     (if length (size_samples s) < 20 then None
      else
        let small = length (filter (\<lambda>n. n \<le> SILENCE_SIZE_THRESHOLD) (size_samples s));
            p = real small / real (length (size_samples s)) in
        Some (1 - \<bar>p - 1 / 2\<bar> * 2))"

text \<open>What each feature takes off the score.\<close>

definition cov_penalty :: "AudioScorer \<Rightarrow> real" where
  "cov_penalty s =
     (case iat_cov s of None \<Rightarrow> 0
      | Some c \<Rightarrow> if 4 / 10 < c then min ((c - 4 / 10) / (6 / 10)) 1 * (25 / 100) else 0)"

definition silence_penalty :: "AudioScorer \<Rightarrow> real" where
  "silence_penalty s =
     (let f = silence_fraction s in
      if f < 2 / 100 then min ((2 / 100 - f) / (2 / 100)) 1 * (25 / 100)
      else if 60 / 100 < f then min ((f - 60 / 100) / (40 / 100)) 1 * (15 / 100) else 0)"

definition rate_penalty :: "AudioScorer \<Rightarrow> real" where
  "rate_penalty s =
     (case bitrate_ratio s of None \<Rightarrow> 0
      | Some r \<Rightarrow> if 120 / 100 < r then min ((r - 120 / 100) / (80 / 100)) 1 * (25 / 100) else 0)"

definition quality_flag_penalty :: "AudioScorer \<Rightarrow> real" where
  "quality_flag_penalty s =
     (case q_flag_cv s of
        Some c \<Rightarrow> if 5 / 10 < c then min ((c - 5 / 10) / (5 / 10)) 1 * (15 / 100) else 0
      | None \<Rightarrow> if 100 < as_total_packets s then 10 / 100 else 0)"

definition size_penalty :: "AudioScorer \<Rightarrow> real" where
  "size_penalty s =
     (case size_bimodality s of None \<Rightarrow> 0 | Some b \<Rightarrow> if b < 2 / 10 then 10 / 100 else 0)"

definition audio_legitimacy :: "AudioScorer \<Rightarrow> real option" where
  "audio_legitimacy s =
     (if as_total_packets s < 20 then None
      else Some (clamp01 (1 - cov_penalty s - silence_penalty s - rate_penalty s -
                   quality_flag_penalty s - size_penalty s)))"

definition audio_verdict :: "AudioScorer \<Rightarrow> Verdict option" where
  "audio_verdict s = map_option score_verdict (audio_legitimacy s)"

section \<open>Video\<close>

abbreviation (input) MAX_KF_SAMPLES :: nat where "MAX_KF_SAMPLES \<equiv> 50"
abbreviation (input) MIN_PACKETS :: nat where "MIN_PACKETS \<equiv> 30"
abbreviation (input) NO_KEYFRAME_THRESHOLD :: nat where "NO_KEYFRAME_THRESHOLD \<equiv> 120"
abbreviation (input) ALL_I_FRAME_THRESHOLD :: nat where "ALL_I_FRAME_THRESHOLD \<equiv> 30"

record VideoScorer =
  keyframe_iat_samples :: "nat list"
  last_keyframe_at :: "nat option"
  i_frame_count :: nat
  p_frame_count :: nat
  vs_window_start :: nat
  vs_window_bytes :: nat
  last_bwe_kbps :: "nat option"
  bitrate_at_last_bwe :: "real option"
  responsive_count :: nat
  unresponsive_count :: nat
  vs_total_packets :: nat

definition video_scorer_new :: "nat \<Rightarrow> VideoScorer" where
  "video_scorer_new now =
     \<lparr>keyframe_iat_samples = [], last_keyframe_at = None, i_frame_count = 0, p_frame_count = 0,
      vs_window_start = now, vs_window_bytes = 0, last_bwe_kbps = None, bitrate_at_last_bwe = None,
      responsive_count = 0, unresponsive_count = 0, vs_total_packets = 0\<rparr>"

definition current_bitrate :: "nat \<Rightarrow> VideoScorer \<Rightarrow> real" where
  "current_bitrate now s =
     (let e = secs (now - vs_window_start s) in
      if 0 < e then real (vs_window_bytes s) * 8 / 1000 / e else 0)"

definition note_frame :: "MediaHeader \<Rightarrow> nat \<Rightarrow> VideoScorer \<Rightarrow> VideoScorer" where
  "note_frame h now s =
     (if is_keyframe h then
        let s = s\<lparr>i_frame_count := i_frame_count s + 1\<rparr>;
            s = (case last_keyframe_at s of None \<Rightarrow> s
                 | Some prev \<Rightarrow> s\<lparr>keyframe_iat_samples :=
                     push_bounded MAX_KF_SAMPLES (now - prev) (keyframe_iat_samples s)\<rparr>) in
        s\<lparr>last_keyframe_at := Some now\<rparr>
      else s\<lparr>p_frame_count := p_frame_count s + 1\<rparr>)"

definition note_bwe :: "nat \<Rightarrow> nat \<Rightarrow> VideoScorer \<Rightarrow> VideoScorer" where
  "note_bwe now b s =
     (let rate = current_bitrate now s;
          s = (case last_bwe_kbps s of None \<Rightarrow> s
               | Some prev \<Rightarrow>
                   let drop = (if 0 < prev then (real prev - real b) / real prev else 0) in
                   if 30 / 100 < drop then
                     let last_rate = (case bitrate_at_last_bwe s of None \<Rightarrow> 0 | Some r \<Rightarrow> r);
                         rate_drop = (if 0 < last_rate then (last_rate - rate) / last_rate else 0) in
                     if 10 / 100 \<le> rate_drop
                     then s\<lparr>responsive_count := responsive_count s + 1\<rparr>
                     else s\<lparr>unresponsive_count := unresponsive_count s + 1\<rparr>
                   else s) in
      s\<lparr>last_bwe_kbps := Some b, bitrate_at_last_bwe := Some rate, vs_window_start := now,
        vs_window_bytes := 0\<rparr>)"

definition video_observe :: "MediaHeader \<Rightarrow> nat \<Rightarrow> nat \<Rightarrow> nat option \<Rightarrow> VideoScorer \<Rightarrow> VideoScorer" where
  "video_observe h len now b s =
     (if media_type h \<noteq> Video then s
      else
        let s = (if vs_total_packets s = 0 then s\<lparr>vs_window_start := now\<rparr> else s);
            s = s\<lparr>vs_total_packets := vs_total_packets s + 1\<rparr>;
            s = note_frame h now s;
            s = s\<lparr>vs_window_bytes := vs_window_bytes s + (HEADER_SIZE + len)\<rparr> in
        case b of None \<Rightarrow> s | Some b \<Rightarrow> note_bwe now b s)"

definition keyframe_regularity :: "VideoScorer \<Rightarrow> real option" where
  "keyframe_regularity s = map_option (\<lambda>c. 1 / (1 + c)) (cov 3 (keyframe_iat_samples s))"

definition ip_ratio :: "VideoScorer \<Rightarrow> real option" where
  "ip_ratio s =
     (if i_frame_count s = 0 then None
      else if p_frame_count s = 0 then Some 0
      else
        let p = real (p_frame_count s) / real (i_frame_count s) in
        Some (if 29 \<le> p then 1 else if p \<le> 5 then 0 else (p - 5) / (29 - 5)))"

definition bwe_responsiveness :: "VideoScorer \<Rightarrow> real option" where
  "bwe_responsiveness s =
     (let n = responsive_count s + unresponsive_count s in
      if n = 0 then None else Some (real (responsive_count s) / real n))"

definition video_legitimacy :: "VideoScorer \<Rightarrow> real option" where
  "video_legitimacy s =
     (if vs_total_packets s < MIN_PACKETS then None
      else
        let score = 1;
            score = (case keyframe_regularity s of
                       Some r \<Rightarrow> score - (1 - r) * (35 / 100)
                     | None \<Rightarrow> if i_frame_count s = 0 \<and> NO_KEYFRAME_THRESHOLD < vs_total_packets s
                               then score - 50 / 100 else score - 10 / 100);
            score = (if p_frame_count s = 0 \<and> ALL_I_FRAME_THRESHOLD < vs_total_packets s
                     then score - 60 / 100
                     else case ip_ratio s of
                       Some r \<Rightarrow> score - (1 - r) * (30 / 100) | None \<Rightarrow> score - 10 / 100);
            score = (case bwe_responsiveness s of
                       Some r \<Rightarrow> score - (1 - r) * (40 / 100) | None \<Rightarrow> score - 15 / 100) in
        Some (clamp01 score))"

definition video_verdict :: "VideoScorer \<Rightarrow> Verdict option" where
  "video_verdict s = map_option score_verdict (video_legitimacy s)"


section \<open>No single oddity condemns an audio stream\<close>

definition cov_anomaly :: "AudioScorer \<Rightarrow> bool" where
  "cov_anomaly s \<longleftrightarrow> (case iat_cov s of None \<Rightarrow> False | Some c \<Rightarrow> 4 / 10 < c)"

definition silence_anomaly :: "AudioScorer \<Rightarrow> bool" where
  "silence_anomaly s \<longleftrightarrow> silence_fraction s < 2 / 100 \<or> 60 / 100 < silence_fraction s"

definition rate_anomaly :: "AudioScorer \<Rightarrow> bool" where
  "rate_anomaly s \<longleftrightarrow> (case bitrate_ratio s of None \<Rightarrow> False | Some r \<Rightarrow> 120 / 100 < r)"

definition quality_flag_anomaly :: "AudioScorer \<Rightarrow> bool" where
  "quality_flag_anomaly s \<longleftrightarrow>
     (case q_flag_cv s of None \<Rightarrow> 100 < as_total_packets s | Some c \<Rightarrow> 5 / 10 < c)"

definition size_anomaly :: "AudioScorer \<Rightarrow> bool" where
  "size_anomaly s \<longleftrightarrow> (case size_bimodality s of None \<Rightarrow> False | Some b \<Rightarrow> b < 2 / 10)"

lemma penalty_le: "0 \<le> w \<Longrightarrow> min x 1 * w \<le> (w :: real)"
  using mult_right_mono[of "min x 1" 1 w] by simp

lemma penalties_bounded:
  "cov_penalty s \<le> (if cov_anomaly s then 25 / 100 else 0)"
  "silence_penalty s \<le> (if silence_anomaly s then 25 / 100 else 0)"
  "rate_penalty s \<le> (if rate_anomaly s then 25 / 100 else 0)"
  "quality_flag_penalty s \<le> (if quality_flag_anomaly s then 15 / 100 else 0)"
  "size_penalty s \<le> (if size_anomaly s then 10 / 100 else 0)"
proof -
  show "cov_penalty s \<le> (if cov_anomaly s then 25 / 100 else 0)"
    unfolding cov_penalty_def cov_anomaly_def
    by (cases "iat_cov s") (simp_all add: penalty_le)
  let ?f = "silence_fraction s"
  have low: "min ((2 / 100 - ?f) / (2 / 100)) 1 * (25 / 100) \<le> 25 / 100"
    and high: "min ((?f - 60 / 100) / (40 / 100)) 1 * (15 / 100) \<le> 25 / 100"
    by (rule penalty_le, simp) (rule order.trans[OF penalty_le], simp_all)
  consider "?f < 2 / 100" | "\<not> ?f < 2 / 100" "60 / 100 < ?f" | "\<not> ?f < 2 / 100" "\<not> 60 / 100 < ?f"
    by blast
  then show "silence_penalty s \<le> (if silence_anomaly s then 25 / 100 else 0)"
    unfolding silence_penalty_def silence_anomaly_def Let_def
    by cases (use low in simp, use high in simp, simp)
  show "rate_penalty s \<le> (if rate_anomaly s then 25 / 100 else 0)"
    unfolding rate_penalty_def rate_anomaly_def
    by (cases "bitrate_ratio s") (simp_all add: penalty_le)
  show "quality_flag_penalty s \<le> (if quality_flag_anomaly s then 15 / 100 else 0)"
    unfolding quality_flag_penalty_def quality_flag_anomaly_def
    by (cases "q_flag_cv s") (simp_all add: penalty_le)
  show "size_penalty s \<le> (if size_anomaly s then 10 / 100 else 0)"
    unfolding size_penalty_def size_anomaly_def
    by (cases "size_bimodality s") simp_all
qed

lemma score_lower:
  fixes x :: real
  assumes "min 1 (1 - p1 - p2 - p3 - p4 - p5) \<le> x"
    and "p1 \<le> b1" "p2 \<le> b2" "p3 \<le> b3" "p4 \<le> b4" "p5 \<le> b5"
    and "0 \<le> b1" "0 \<le> b2" "0 \<le> b3" "0 \<le> b4" "0 \<le> b5"
  shows "1 - b1 - b2 - b3 - b4 - b5 \<le> x"
  using assms by (simp add: min_def split: if_splits)

lemma audio_score_lower:
  assumes "audio_legitimacy s = Some x"
  shows "1 - (if cov_anomaly s then 25 / 100 else 0) - (if silence_anomaly s then 25 / 100 else 0)
     - (if rate_anomaly s then 25 / 100 else 0) - (if quality_flag_anomaly s then 15 / 100 else 0)
     - (if size_anomaly s then 10 / 100 else 0) \<le> x"
proof (rule score_lower[OF _ penalties_bounded])
  show "min 1 (1 - cov_penalty s - silence_penalty s - rate_penalty s - quality_flag_penalty s -
      size_penalty s) \<le> x"
    using assms by (auto simp: audio_legitimacy_def clamp01_def split: if_splits)
qed simp_all

text \<open>
  Also (Scorers.abuse_needs_three_anomalies). An audio stream is called abusive only when at least
  three of its five features are out of range at once; with at most one feature out of range it is
  legitimate.
\<close>

theorem abuse_needs_three_anomalies:
  "(audio_verdict s = Some Abusive \<longrightarrow>
      3 \<le> length (filter id [cov_anomaly s, silence_anomaly s, rate_anomaly s, quality_flag_anomaly s, size_anomaly s])) \<and>
   (20 \<le> as_total_packets s \<longrightarrow>
      length (filter id [cov_anomaly s, silence_anomaly s, rate_anomaly s, quality_flag_anomaly s, size_anomaly s]) \<le> 1 \<longrightarrow>
      audio_verdict s = Some Legitimate)"
proof (cases "audio_legitimacy s")
  case None
  then have "as_total_packets s < 20"
    by (simp add: audio_legitimacy_def Let_def split: if_splits)
  with None show ?thesis by (simp add: audio_verdict_def)
next
  case (Some x)
  from audio_score_lower[OF this] Some show ?thesis
    by (auto simp: audio_verdict_def score_verdict_def split: if_splits)
qed


section \<open>Video streams without keyframes\<close>

type_synonym video_sample = "MediaHeader \<times> nat \<times> nat \<times> nat option"

definition video_run :: "video_sample list \<Rightarrow> VideoScorer \<Rightarrow> VideoScorer" where
  "video_run = fold (\<lambda>(h, len, now, b). video_observe h len now b)"

lemma note_bwe_counts [simp]:
  "i_frame_count (note_bwe now b s) = i_frame_count s"
  "p_frame_count (note_bwe now b s) = p_frame_count s"
  "vs_total_packets (note_bwe now b s) = vs_total_packets s"
  "keyframe_iat_samples (note_bwe now b s) = keyframe_iat_samples s"
  by (simp_all add: note_bwe_def Let_def split: option.split)

lemma video_observe_counts:
  "i_frame_count (video_observe h len now b s) =
     i_frame_count s + (if media_type h = Video \<and> is_keyframe h then 1 else 0)"
  "p_frame_count (video_observe h len now b s) =
     p_frame_count s + (if media_type h = Video \<and> \<not> is_keyframe h then 1 else 0)"
  "vs_total_packets (video_observe h len now b s) =
     vs_total_packets s + (if media_type h = Video then 1 else 0)"
  by (simp_all add: video_observe_def note_frame_def Let_def split: option.split)

lemma video_observe_no_keyframe:
  "\<not> is_keyframe h \<Longrightarrow> keyframe_iat_samples (video_observe h len now b s) = keyframe_iat_samples s"
  by (simp add: video_observe_def note_frame_def Let_def split: option.split)

lemma video_observe_no_bwe:
  "responsive_count (video_observe h len now None s) = responsive_count s"
  "unresponsive_count (video_observe h len now None s) = unresponsive_count s"
  by (simp_all add: video_observe_def note_frame_def Let_def split: option.split)

definition silent_on_bwe :: "video_sample list \<Rightarrow> bool" where
  "silent_on_bwe xs \<longleftrightarrow> (\<forall>(h, len, now, b) \<in> set xs. b = None)"

definition keyframeless :: "video_sample list \<Rightarrow> bool" where
  "keyframeless xs \<longleftrightarrow> (\<forall>(h, len, now, b) \<in> set xs. media_type h = Video \<and> \<not> is_keyframe h)"

lemma video_run_keyframeless:
  assumes "keyframeless xs" and "silent_on_bwe xs"
  shows "i_frame_count (video_run xs s) = i_frame_count s \<and>
    p_frame_count (video_run xs s) = p_frame_count s + length xs \<and>
    vs_total_packets (video_run xs s) = vs_total_packets s + length xs \<and>
    keyframe_iat_samples (video_run xs s) = keyframe_iat_samples s \<and>
    responsive_count (video_run xs s) = responsive_count s \<and>
    unresponsive_count (video_run xs s) = unresponsive_count s"
  using assms
proof (induction xs arbitrary: s)
  case (Cons x xs)
  obtain h len now b where x: "x = (h, len, now, b)" by (cases x) auto
  with Cons.prems have "media_type h = Video" "\<not> is_keyframe h" "b = None" "keyframeless xs" "silent_on_bwe xs"
    by (auto simp: keyframeless_def silent_on_bwe_def)
  with Cons.IH[of "video_observe h len now b s"] show ?case
    by (simp add: x video_run_def video_observe_counts video_observe_no_keyframe video_observe_no_bwe)
qed (simp add: video_run_def)

text \<open>
  Also (Scorers.keyframeless_stream_is_abusive). A video stream that shows no keyframe in more than
  120 packets, with no bandwidth reports, is judged abusive; up to 120 packets, once there are 30,
  it is merely suspect.
\<close>

theorem keyframeless_stream_is_abusive:
  assumes "keyframeless xs" and "silent_on_bwe xs"
  shows "video_verdict (video_run xs (video_scorer_new t)) =
    (if length xs < 30 then None else if length xs \<le> 120 then Some Suspect else Some Abusive)"
proof -
  let ?s = "video_run xs (video_scorer_new t)"
  have c: "i_frame_count ?s = 0" "p_frame_count ?s = length xs" "vs_total_packets ?s = length xs"
    "keyframe_iat_samples ?s = []" "responsive_count ?s = 0" "unresponsive_count ?s = 0"
    using video_run_keyframeless[OF assms, of "video_scorer_new t"]
    by (simp_all add: video_scorer_new_def)
  have "keyframe_regularity ?s = None" "ip_ratio ?s = None" "bwe_responsiveness ?s = None"
    by (simp_all add: keyframe_regularity_def cov_def ip_ratio_def bwe_responsiveness_def c)
  then have "video_legitimacy ?s =
      (if length xs < 30 then None
       else Some (clamp01 (if length xs \<le> 120 then 65 / 100 else 25 / 100)))"
    by (simp add: video_legitimacy_def c Let_def)
  then show ?thesis
    by (simp add: video_verdict_def score_verdict_def clamp01_def)
qed

definition demo_video_header :: MediaHeader where
  "demo_video_header = \<lparr>version = 2, flags = 0, media_type = Video, codec_id = H264Baseline,
     stream_id = 0, fec_ratio_wire = 0, seq = 0, timestamp = 0, fec_block = 0\<rparr>"

theorem keyframeless_stream_is_abusive_witness:
  "video_verdict (video_run (replicate 200 (demo_video_header, 900, 5, None)) (video_scorer_new 0)) = Some Abusive"
  using keyframeless_stream_is_abusive[of "replicate 200 (demo_video_header, 900, 5, None)" 0]
  by (simp add: keyframeless_def silent_on_bwe_def demo_video_header_def is_keyframe_def)

lemma note_bwe_window [simp]:
  "vs_window_start (note_bwe now b s) = now"
  "vs_window_bytes (note_bwe now b s) = 0"
  "bitrate_at_last_bwe (note_bwe now b s) = Some (current_bitrate now s)"
  by (simp_all add: note_bwe_def Let_def)

lemma note_frame_window [simp]:
  "vs_window_start (note_frame h now s) = vs_window_start s"
  "vs_window_bytes (note_frame h now s) = vs_window_bytes s"
  by (simp_all add: note_frame_def Let_def split: option.split)

lemma observe_with_estimate:
  assumes "media_type h = Video"
  shows "vs_window_start (video_observe h len now (Some b) s) = now"
    and "vs_window_bytes (video_observe h len now (Some b) s) = 0"
    and "vs_total_packets s \<noteq> 0 \<Longrightarrow> bitrate_at_last_bwe (video_observe h len now (Some b) s) =
      Some (if vs_window_start s < now
            then real (vs_window_bytes s + (16 + len)) * 8 / 1000 / secs (now - vs_window_start s) else 0)"
  using assms by (simp_all add: video_observe_def Let_def current_bitrate_def secs_def)

text \<open>
  Also (Scorers.responsiveness_window). Every packet that comes with an estimate restarts the rate
  window, so the rate held against a drop of the estimate is that of one packet over one
  inter-packet gap.
\<close>

lemma responsiveness_window:
  assumes "media_type h = Video" and "media_type h' = Video"
  shows "bitrate_at_last_bwe (video_observe h' len' now' (Some b') (video_observe h len now (Some b) s)) =
    Some (if now < now' then real (16 + len') * 8 / 1000 / secs (now' - now) else 0)"
proof -
  let ?s = "video_observe h len now (Some b) s"
  have "vs_total_packets ?s \<noteq> 0"
    using assms by (simp add: video_observe_counts)
  then show ?thesis
    using observe_with_estimate(1,2)[OF assms(1), of len now b s]
      observe_with_estimate(3)[OF assms(2), of ?s len' now' b'] by simp
qed

end
