(* ===== verification/Federation.thy ===== *)
theory Federation
  imports Room
begin

text \<open>
  Federation between relays, \<open>crates/wzp-relay/src/federation.rs\<close>: the datagram filters, the
  routing of tagged media, the presence signals and the trust checks.  Times are in milliseconds.
  SHA-256 and the parsing of socket addresses are parameters.  A send names the peer link or the
  participant's transport it goes to; transport errors and metrics are not modelled.
\<close>

section \<open>Names\<close>

definition to_lower :: "char \<Rightarrow> char" where
  "to_lower c = (let n = of_char c :: nat in if 65 \<le> n \<and> n \<le> 90 then char_of (n + 32) else c)"

text \<open>Fingerprints are hexadecimal, so lower-casing ASCII is what \<open>to_lowercase\<close> does to them.\<close>

definition normalize_fp :: "string \<Rightarrow> string" where
  "normalize_fp fp = map to_lower (filter (\<lambda>c. c \<noteq> CHR '':'') fp)"

definition bytes_of :: "string \<Rightarrow> byte list" where
  "bytes_of s = map of_char s"

definition room_hash :: "(byte list \<Rightarrow> byte list) \<Rightarrow> string \<Rightarrow> byte list" where
  "room_hash sha name = take 8 (sha (bytes_of name))"

definition hex_digit :: "byte \<Rightarrow> char" where
  "hex_digit n = (if n < 10 then char_of (48 + unat n) else char_of (87 + unat n))"

definition hex_encode :: "byte list \<Rightarrow> string" where
  "hex_encode bs = concat (map (\<lambda>b. [hex_digit (drop_bit 4 b), hex_digit (b AND 15)]) bs)"

definition hash_room_name :: "(byte list \<Rightarrow> byte list) \<Rightarrow> string \<Rightarrow> string" where
  "hash_room_name sha name =
     hex_encode (take 16 (sha (bytes_of (''featherchat-group:'' @ name))))"

section \<open>Filters\<close>

record Deduplicator =
  entries :: "(u64, nat) hashmap"
  ttl :: nat

definition dedup_new :: Deduplicator where
  "dedup_new = \<lparr>entries = [], ttl = 2000\<rparr>"

definition u64_of_be :: "byte list \<Rightarrow> u64" where
  "u64_of_be bs = fold (\<lambda>b w. push_bit 8 w OR ucast b) bs 0"

definition dedup_key :: "byte list \<Rightarrow> u32 \<Rightarrow> u64 \<Rightarrow> u64" where
  "dedup_key rh sq extra = u64_of_be rh XOR ucast sq XOR extra"

definition is_dup :: "nat \<Rightarrow> u64 \<Rightarrow> Deduplicator \<Rightarrow> bool \<times> Deduplicator" where
  "is_dup now key d =
     (let d = (if 256 < length (entries d)
               then d\<lparr>entries := hm_retain (\<lambda>_ ts. now - ts < ttl d) (entries d)\<rparr> else d) in
      if (case hm_get (entries d) key of None \<Rightarrow> False | Some ts \<Rightarrow> now - ts < ttl d)
      then (True, d)
      else (False, d\<lparr>entries := hm_insert key now (entries d)\<rparr>))"

record RateLimiter =
  limiter_max_pps :: nat
  limiter_tokens :: nat
  limiter_start :: nat

definition limiter_new :: "nat \<Rightarrow> nat \<Rightarrow> RateLimiter" where
  "limiter_new now pps = \<lparr>limiter_max_pps = pps, limiter_tokens = pps, limiter_start = now\<rparr>"

definition limiter_allow :: "nat \<Rightarrow> RateLimiter \<Rightarrow> bool \<times> RateLimiter" where
  "limiter_allow now l =
     (let l = (if 1000 \<le> now - limiter_start l
               then l\<lparr>limiter_tokens := limiter_max_pps l, limiter_start := now\<rparr> else l) in
      if 0 < limiter_tokens l then (True, l\<lparr>limiter_tokens := limiter_tokens l - 1\<rparr>) else (False, l))"

section \<open>State\<close>

record RoomParticipant =
  rp_fingerprint :: string
  rp_alias :: "string option"
  rp_relay_label :: "string option"

record PeerLink =
  link_label :: string
  active_rooms :: "string list"
  remote_participants :: "(string, RoomParticipant list) hashmap"
  last_seen :: nat

record PeerConfig =
  peer_url :: string
  peer_fingerprint :: string
  peer_label :: "string option"

record TrustedConfig =
  trusted_fingerprint :: string
  trusted_label :: "string option"

record FederationManager =
  peers :: "PeerConfig list"
  trusted :: "TrustedConfig list"
  global_rooms :: "string list"
  room_mgr :: RoomManager
  local_tls_fp :: string
  peer_links :: "(string, PeerLink) hashmap"
  dedup :: Deduplicator
  rate_limiters :: "(string, RateLimiter) hashmap"
  dispatcher_wired :: bool

abbreviation (input) FEDERATION_RATE_LIMIT_PPS :: nat where "FEDERATION_RATE_LIMIT_PPS \<equiv> 500"
abbreviation (input) REMOTE_PARTICIPANT_STALE_SECS :: nat where "REMOTE_PARTICIPANT_STALE_SECS \<equiv> 15"

definition set_cross_relay_tx :: "FederationManager \<Rightarrow> FederationManager" where
  "set_cross_relay_tx fm = fm\<lparr>dispatcher_wired := True\<rparr>"

definition local_rooms :: "RoomManager \<Rightarrow> string list" where
  "local_rooms rm = map fst (rooms rm)"

definition local_senders :: "RoomManager \<Rightarrow> string \<Rightarrow> ParticipantSender list" where
  "local_senders rm name = (case hm_get (rooms rm) name of None \<Rightarrow> [] | Some r \<Rightarrow> all_senders r)"

definition local_participant_list :: "RoomManager \<Rightarrow> string \<Rightarrow> RoomParticipant list" where
  "local_participant_list rm name =
     (case hm_get (rooms rm) name of None \<Rightarrow> []
      | Some r \<Rightarrow> map (\<lambda>(fp, al). \<lparr>rp_fingerprint = fp, rp_alias = al, rp_relay_label = None\<rparr>) (participant_list r))"

section \<open>Global rooms\<close>

definition is_call_room :: "string \<Rightarrow> bool" where
  "is_call_room room \<longleftrightarrow> take 5 room = ''call-''"

definition resolve_global_room ::
  "(byte list \<Rightarrow> byte list) \<Rightarrow> FederationManager \<Rightarrow> string \<Rightarrow> string option" where
  "resolve_global_room sha fm room =
     (if is_call_room room then Some room
      else if room \<in> set (global_rooms fm) then Some room
      else find (\<lambda>name. hash_room_name sha name = room) (global_rooms fm))"

definition is_global_room :: "(byte list \<Rightarrow> byte list) \<Rightarrow> FederationManager \<Rightarrow> string \<Rightarrow> bool" where
  "is_global_room sha fm room \<longleftrightarrow> is_call_room room \<or> resolve_global_room sha fm room \<noteq> None"

definition global_room_hash :: "(byte list \<Rightarrow> byte list) \<Rightarrow> FederationManager \<Rightarrow> string \<Rightarrow> byte list" where
  "global_room_hash sha fm room =
     (case resolve_global_room sha fm room of Some c \<Rightarrow> room_hash sha c | None \<Rightarrow> room_hash sha room)"

section \<open>Media between relays\<close>

datatype FedOut =
    LocalDatagram nat "byte list"
  | LocalWs nat "byte list"
  | PeerDatagram string "byte list"

definition forward_to_peers :: "byte list \<Rightarrow> byte list \<Rightarrow> FederationManager \<Rightarrow> FedOut list" where
  "forward_to_peers rh media fm = map (\<lambda>(fp, _). PeerDatagram fp (rh @ media)) (peer_links fm)"

text \<open>The fold over the first sixteen bytes, byte \<open>i\<close> shifted by \<open>8 (i mod 8)\<close>.\<close>

definition payload_hash :: "byte list \<Rightarrow> u64" where
  "payload_hash media =
     fold (\<lambda>(i, b) h. h XOR push_bit (i mod 8 * 8) (ucast b)) (enumerate 0 (take 16 media)) 0"

definition room_for_hash ::
  "(byte list \<Rightarrow> byte list) \<Rightarrow> byte list \<Rightarrow> FederationManager \<Rightarrow> string option" where
  "room_for_hash sha rh fm =
     (let act = local_rooms (room_mgr fm) in
      case find (\<lambda>r. room_hash sha r = rh) act of Some r \<Rightarrow> Some r
      | None \<Rightarrow>
        (case find (\<lambda>r. global_room_hash sha fm r = rh) act of Some r \<Rightarrow> Some r
         | None \<Rightarrow> find (\<lambda>r. room_hash sha r = rh) (global_rooms fm)))"

definition note_seen :: "nat \<Rightarrow> string \<Rightarrow> FederationManager \<Rightarrow> FederationManager" where
  "note_seen now fp fm =
     fm\<lparr>peer_links := hm_adjust fp (\<lambda>l. l\<lparr>last_seen := now\<rparr>) (peer_links fm)\<rparr>"

definition admit :: "nat \<Rightarrow> string \<Rightarrow> FederationManager \<Rightarrow> bool \<times> FederationManager" where
  "admit now name fm =
     (let l = (case hm_get (rate_limiters fm) name of Some l \<Rightarrow> l
               | None \<Rightarrow> limiter_new now FEDERATION_RATE_LIMIT_PPS);
          (ok, l) = limiter_allow now l in
      (ok, fm\<lparr>rate_limiters := hm_insert name l (rate_limiters fm)\<rparr>))"

definition deliver_local :: "byte list \<Rightarrow> MediaPacket \<Rightarrow> ParticipantSender \<Rightarrow> FedOut" where
  "deliver_local media pkt s =
     (case s of Quic t \<Rightarrow> LocalDatagram t media | WebSocket c \<Rightarrow> LocalWs c (payload pkt))"

definition forward_on :: "string \<Rightarrow> byte list \<Rightarrow> byte list \<Rightarrow> FederationManager \<Rightarrow> FedOut list" where
  "forward_on src rh media fm =
     map (\<lambda>(fp, _). PeerDatagram fp (rh @ media)) (filter (\<lambda>(fp, _). fp \<noteq> src) (peer_links fm))"

definition handle_datagram ::
  "(byte list \<Rightarrow> byte list) \<Rightarrow> nat \<Rightarrow> string \<Rightarrow> byte list \<Rightarrow> FederationManager \<Rightarrow>
   FedOut list \<times> FederationManager" where
  "handle_datagram sha now src d fm =
     (if length d < 12 then ([], fm)
      else
        let rh = take 8 d; media = drop 8 d in
        case packet_from_bytes media of None \<Rightarrow> ([], fm)
        | Some pkt \<Rightarrow>
          let fm = note_seen now src fm;
              (dup, dd) = is_dup now (dedup_key rh (seq (header pkt)) (payload_hash media)) (dedup fm);
              fm = fm\<lparr>dedup := dd\<rparr> in
          if dup then ([], fm)
          else
            (case room_for_hash sha rh fm of None \<Rightarrow> ([], fm)
             | Some name \<Rightarrow>
                 let (ok, fm) = admit now name fm in
                 if \<not> ok then ([], fm)
                 else (map (deliver_local media pkt) (local_senders (room_mgr fm) name) @
                       forward_on src rh media fm, fm)))"


section \<open>Presence signals\<close>

datatype 'm FedSignal =
    GlobalRoomActive string "RoomParticipant list"
  | GlobalRoomInactive string
  | FederatedSignalForward 'm string
  | OtherSignal

datatype 'm SignalOut =
    ToPeer string "'m FedSignal"
  | RoomUpdateTo "ParticipantSender list" "RoomParticipant list"
  | ToDispatcher 'm string

fun unique_fingerprints :: "string set \<Rightarrow> RoomParticipant list \<Rightarrow> RoomParticipant list" where
  "unique_fingerprints seen [] = []"
| "unique_fingerprints seen (p # ps) =
     (if rp_fingerprint p \<in> seen then unique_fingerprints seen ps
      else p # unique_fingerprints (insert (rp_fingerprint p) seen) ps)"

definition remote_of :: "PeerLink \<Rightarrow> string \<Rightarrow> RoomParticipant list" where
  "remote_of l room = (case hm_get (remote_participants l) room of None \<Rightarrow> [] | Some ps \<Rightarrow> ps)"

definition get_remote_participants ::
  "(byte list \<Rightarrow> byte list) \<Rightarrow> string \<Rightarrow> FederationManager \<Rightarrow> RoomParticipant list" where
  "get_remote_participants sha room fm =
     unique_fingerprints {}
       (concat (map (\<lambda>(_, l).
          case resolve_global_room sha fm room of
            Some c \<Rightarrow> remote_of l c @ (if c \<noteq> room then remote_of l room else [])
          | None \<Rightarrow> remote_of l room) (peer_links fm)))"

definition tag_participants :: "string \<Rightarrow> RoomParticipant list \<Rightarrow> RoomParticipant list" where
  "tag_participants label ps =
     map (\<lambda>p. if rp_relay_label p = None then p\<lparr>rp_relay_label := Some label\<rparr> else p) ps"

definition same_global :: "(byte list \<Rightarrow> byte list) \<Rightarrow> FederationManager \<Rightarrow> string \<Rightarrow> string \<Rightarrow> bool" where
  "same_global sha fm r room \<longleftrightarrow> resolve_global_room sha fm r = resolve_global_room sha fm room"

definition merged_participants ::
  "(byte list \<Rightarrow> byte list) \<Rightarrow> string \<Rightarrow> FederationManager \<Rightarrow> RoomParticipant list" where
  "merged_participants sha local_room fm =
     unique_fingerprints {}
       (local_participant_list (room_mgr fm) local_room @
        concat (map (\<lambda>(_, l).
          case resolve_global_room sha fm local_room of None \<Rightarrow> []
          | Some c \<Rightarrow> remote_of l c @ (if c \<noteq> local_room then remote_of l local_room else []))
          (peer_links fm)))"

definition announce_to_others :: "string \<Rightarrow> 'm FedSignal \<Rightarrow> FederationManager \<Rightarrow> 'm SignalOut list" where
  "announce_to_others src msg fm =
     map (\<lambda>(fp, _). ToPeer fp msg) (filter (\<lambda>(fp, _). fp \<noteq> src) (peer_links fm))"

definition handle_room_active ::
  "(byte list \<Rightarrow> byte list) \<Rightarrow> string \<Rightarrow> string \<Rightarrow> RoomParticipant list \<Rightarrow> FederationManager \<Rightarrow>
   'm SignalOut list \<times> FederationManager" where
  "handle_room_active sha fp room ps fm =
     (if \<not> is_global_room sha fm room then ([], fm)
      else
        let tagged = (case hm_get (peer_links fm) fp of None \<Rightarrow> ps
                      | Some l \<Rightarrow> tag_participants (link_label l) ps);
            fm = fm\<lparr>peer_links := hm_adjust fp
                   (\<lambda>l. l\<lparr>active_rooms := List.insert room (active_rooms l),
                          remote_participants := hm_insert room tagged (remote_participants l)\<rparr>)
                   (peer_links fm)\<rparr> in
        (announce_to_others fp (GlobalRoomActive room tagged) fm @
         (case find (\<lambda>r. is_global_room sha fm r \<and> same_global sha fm r room) (local_rooms (room_mgr fm)) of
            None \<Rightarrow> []
          | Some r \<Rightarrow> [RoomUpdateTo (local_senders (room_mgr fm) r) (merged_participants sha r fm)]), fm))"

definition handle_room_inactive ::
  "(byte list \<Rightarrow> byte list) \<Rightarrow> string \<Rightarrow> string \<Rightarrow> FederationManager \<Rightarrow>
   'm SignalOut list \<times> FederationManager" where
  "handle_room_inactive sha fp room fm =
     (let canonical = resolve_global_room sha fm room;
          forget = (\<lambda>l. l\<lparr>active_rooms := removeAll room (active_rooms l),
             remote_participants :=
               (let m = hm_remove room (remote_participants l) in
                case canonical of None \<Rightarrow> m | Some c \<Rightarrow> hm_remove c m)\<rparr>);
          fm = fm\<lparr>peer_links := hm_adjust fp forget (peer_links fm)\<rparr>;
          remaining = unique_fingerprints {}
            (concat (map (\<lambda>(_, l). case canonical of None \<Rightarrow> [] | Some c \<Rightarrow> remote_of l c)
               (filter (\<lambda>(p, _). p \<noteq> fp) (peer_links fm))));
          act = local_rooms (room_mgr fm);
          here = find (\<lambda>r. same_global sha fm r room) act;
          msg = (if remaining \<noteq> [] \<or> here \<noteq> None
                 then GlobalRoomActive room (remaining @
                   (case here of None \<Rightarrow> [] | Some r \<Rightarrow> local_participant_list (room_mgr fm) r))
                 else GlobalRoomInactive room) in
      (announce_to_others fp msg fm @
       (case find (\<lambda>r. is_global_room sha fm r \<and> same_global sha fm r room) act of
          None \<Rightarrow> []
        | Some r \<Rightarrow> [RoomUpdateTo (local_senders (room_mgr fm) r)
            (unique_fingerprints {} (local_participant_list (room_mgr fm) r @ remaining))]), fm))"

definition handle_signal ::
  "(byte list \<Rightarrow> byte list) \<Rightarrow> nat \<Rightarrow> string \<Rightarrow> 'm FedSignal \<Rightarrow> FederationManager \<Rightarrow>
   'm SignalOut list \<times> FederationManager" where
  "handle_signal sha now fp msg fm =
     (let fm = note_seen now fp fm in
      case msg of
        GlobalRoomActive room ps \<Rightarrow> handle_room_active sha fp room ps fm
      | GlobalRoomInactive room \<Rightarrow> handle_room_inactive sha fp room fm
      | FederatedSignalForward m origin \<Rightarrow>
          if origin = local_tls_fp fm then ([], fm)
          else if dispatcher_wired fm then ([ToDispatcher m origin], fm) else ([], fm)
      | OtherSignal \<Rightarrow> ([], fm))"

section \<open>Links, events and trust\<close>

definition link_up :: "nat \<Rightarrow> string \<Rightarrow> string \<Rightarrow> FederationManager \<Rightarrow> FederationManager" where
  "link_up now fp label fm =
     fm\<lparr>peer_links := hm_insert fp \<lparr>link_label = label, active_rooms = [], remote_participants = [],
        last_seen = now\<rparr> (peer_links fm)\<rparr>"

definition link_down :: "string \<Rightarrow> FederationManager \<Rightarrow> FederationManager" where
  "link_down fp fm = fm\<lparr>peer_links := hm_remove fp (peer_links fm)\<rparr>"

definition announcements ::
  "(byte list \<Rightarrow> byte list) \<Rightarrow> string \<Rightarrow> FederationManager \<Rightarrow> 'm FedSignal list" where
  "announcements sha fp fm =
     map (\<lambda>r. GlobalRoomActive r (local_participant_list (room_mgr fm) r))
       (filter (is_global_room sha fm) (local_rooms (room_mgr fm))) @
     concat (map (\<lambda>(_, l). map (\<lambda>(r, ps). GlobalRoomActive r ps)
         (filter (\<lambda>(r, _). is_global_room sha fm r) (remote_participants l)))
       (filter (\<lambda>(p, _). p \<noteq> fp) (peer_links fm)))"

definition on_room_event ::
  "(byte list \<Rightarrow> byte list) \<Rightarrow> RoomEvent \<Rightarrow> FederationManager \<Rightarrow> 'm SignalOut list" where
  "on_room_event sha e fm =
     (case e of
        LocalJoin room \<Rightarrow>
          if is_global_room sha fm room
          then map (\<lambda>(p, _). ToPeer p (GlobalRoomActive room (local_participant_list (room_mgr fm) room)))
                 (peer_links fm)
          else []
      | LocalLeave room \<Rightarrow>
          if is_global_room sha fm room
          then map (\<lambda>(p, _). ToPeer p (GlobalRoomInactive room)) (peer_links fm) else [])"

definition broadcast_signal :: "'m FedSignal \<Rightarrow> FederationManager \<Rightarrow> 'm SignalOut list" where
  "broadcast_signal msg fm = map (\<lambda>(fp, _). ToPeer fp msg) (peer_links fm)"

definition send_signal_to_peer ::
  "string \<Rightarrow> 'm FedSignal \<Rightarrow> FederationManager \<Rightarrow> string + 'm SignalOut" where
  "send_signal_to_peer fp msg fm =
     (let n = normalize_fp fp in
      if hm_get (peer_links fm) n = None then Inl (''no active federation link for '' @ n)
      else Inr (ToPeer n msg))"

definition is_stale :: "nat \<Rightarrow> PeerLink \<Rightarrow> bool" where
  "is_stale now l \<longleftrightarrow> REMOTE_PARTICIPANT_STALE_SECS * 1000 < now - last_seen l \<and> remote_participants l \<noteq> []"

definition purge_link :: "PeerLink \<Rightarrow> PeerLink" where
  "purge_link l = l\<lparr>active_rooms := filter (\<lambda>r. r \<notin> fst ` set (remote_participants l)) (active_rooms l),
     remote_participants := []\<rparr>"

definition sweep_stale ::
  "(byte list \<Rightarrow> byte list) \<Rightarrow> nat \<Rightarrow> FederationManager \<Rightarrow> 'm SignalOut list \<times> FederationManager" where
  "sweep_stale sha now fm =
     (let affected = remdups (concat (map (\<lambda>(_, l). map fst (remote_participants l))
            (filter (\<lambda>(_, l). is_stale now l) (peer_links fm))));
          fm = fm\<lparr>peer_links := map (\<lambda>(p, l). (p, if is_stale now l then purge_link l else l)) (peer_links fm)\<rparr> in
      (concat (map (\<lambda>room.
          case find (\<lambda>r. same_global sha fm r room) (local_rooms (room_mgr fm)) of None \<Rightarrow> []
          | Some r \<Rightarrow> [RoomUpdateTo (local_senders (room_mgr fm) r)
              (unique_fingerprints {} (local_participant_list (room_mgr fm) r @ get_remote_participants sha r fm))])
          affected), fm))"

definition next_backoff :: "nat \<Rightarrow> nat" where
  "next_backoff b = min (b * 2) 300"

definition find_peer_by_fingerprint :: "string \<Rightarrow> FederationManager \<Rightarrow> PeerConfig option" where
  "find_peer_by_fingerprint fp fm =
     find (\<lambda>p. normalize_fp (peer_fingerprint p) = normalize_fp fp) (peers fm)"

definition find_peer_by_addr :: "(string \<Rightarrow> 'ip option) \<Rightarrow> 'ip \<Rightarrow> FederationManager \<Rightarrow> PeerConfig option" where
  "find_peer_by_addr parse ip fm = find (\<lambda>p. parse (peer_url p) = Some ip) (peers fm)"

definition find_trusted_by_fingerprint :: "string \<Rightarrow> FederationManager \<Rightarrow> TrustedConfig option" where
  "find_trusted_by_fingerprint fp fm =
     find (\<lambda>t. normalize_fp (trusted_fingerprint t) = normalize_fp fp) (trusted fm)"

text \<open>The outer option is the panic of slicing a fingerprint shorter than sixteen bytes.\<close>

definition check_inbound_trust ::
  "(string \<Rightarrow> 'ip option) \<Rightarrow> 'ip \<Rightarrow> string \<Rightarrow> FederationManager \<Rightarrow> string option option" where
  "check_inbound_trust parse ip hello fm =
     (case find_peer_by_addr parse ip fm of
        Some p \<Rightarrow> Some (Some (case peer_label p of Some l \<Rightarrow> l | None \<Rightarrow> peer_url p))
      | None \<Rightarrow>
        (case find_trusted_by_fingerprint hello fm of None \<Rightarrow> Some None
         | Some t \<Rightarrow>
           (case trusted_label t of Some l \<Rightarrow> Some (Some l)
            | None \<Rightarrow> if length hello < 16 then None else Some (Some (take 16 hello)))))"

section \<open>What the duplicate filter sees\<close>

definition datagram_key :: "byte list \<Rightarrow> u64" where
  "datagram_key d =
     (case packet_from_bytes (drop 8 d) of None \<Rightarrow> 0
      | Some pkt \<Rightarrow> dedup_key (take 8 d) (seq (header pkt)) (payload_hash (drop 8 d)))"

text \<open>Keys entered at or after \<open>t\<close>.\<close>

definition seen_since :: "nat \<Rightarrow> Deduplicator \<Rightarrow> u64 set" where
  "seen_since t d = {k. \<exists>ts. hm_get (entries d) k = Some ts \<and> t \<le> ts}"

definition dedup_ok :: "Deduplicator \<Rightarrow> bool" where
  "dedup_ok d \<longleftrightarrow> hm_ok (entries d) \<and> ttl d = 2000"

lemma is_dup_sweep:
  assumes "dedup_ok d" and "now < t + 2000"
  defines "e \<equiv> (if 256 < length (entries d)
      then d\<lparr>entries := hm_retain (\<lambda>_ ts. now - ts < ttl d) (entries d)\<rparr> else d)"
  shows "dedup_ok e" and "seen_since t e = seen_since t d"
  using assms
  by (auto simp: e_def dedup_ok_def seen_since_def hm_ok_retain hm_get_retain split: option.splits)

lemma is_dup_ok:
  assumes "dedup_ok d" and "t \<le> now" and "now < t + 2000"
  shows "dedup_ok (snd (is_dup now k d))"
    and "fst (is_dup now k d) \<Longrightarrow> seen_since t (snd (is_dup now k d)) = seen_since t d"
    and "\<not> fst (is_dup now k d) \<Longrightarrow>
      seen_since t (snd (is_dup now k d)) = insert k (seen_since t d) \<and> k \<notin> seen_since t d"
proof -
  let ?e = "if 256 < length (entries d)
      then d\<lparr>entries := hm_retain (\<lambda>_ ts. now - ts < ttl d) (entries d)\<rparr> else d"
  note e = is_dup_sweep[OF assms(1,3)]
  have dup: "fst (is_dup now k d) \<longleftrightarrow>
      (case hm_get (entries ?e) k of None \<Rightarrow> False | Some ts \<Rightarrow> now - ts < ttl ?e)"
    and res: "snd (is_dup now k d) = (if fst (is_dup now k d) then ?e
      else ?e\<lparr>entries := hm_insert k now (entries ?e)\<rparr>)"
    by (simp_all only: is_dup_def Let_def) (auto split: if_splits)
  show "dedup_ok (snd (is_dup now k d))"
    unfolding res using e(1) by (simp add: dedup_ok_def hm_ok_insert)
  show "seen_since t (snd (is_dup now k d)) = seen_since t d" if "fst (is_dup now k d)"
    unfolding res using that e(2) by simp
  show "seen_since t (snd (is_dup now k d)) = insert k (seen_since t d) \<and> k \<notin> seen_since t d"
    if n: "\<not> fst (is_dup now k d)"
  proof
    have "seen_since t (?e\<lparr>entries := hm_insert k now (entries ?e)\<rparr>) = insert k (seen_since t ?e)"
      using assms(2) by (auto simp: seen_since_def)
    then show "seen_since t (snd (is_dup now k d)) = insert k (seen_since t d)"
      unfolding res using n e(2) by simp
    have "ttl ?e = 2000"
      using e(1) by (simp add: dedup_ok_def)
    then have "k \<notin> seen_since t ?e"
      using n assms(3) unfolding dup by (auto simp: seen_since_def split: option.splits)
    then show "k \<notin> seen_since t d"
      using e(2) by simp
  qed
qed

text \<open>One datagram at one relay: it changes only filters and \<open>last_seen\<close>.\<close>

lemma fst_set_hm_adjust [simp]: "fst ` set (hm_adjust k f m) = fst ` set m"
proof -
  have "dom (hm_get (hm_adjust k f m)) = dom (hm_get m)"
    by (auto simp: dom_def)
  then show ?thesis
    by (simp add: dom_map_of_conv_image_fst)
qed

lemma handle_datagram_effect:
  assumes ok: "dedup_ok (dedup fm)" and links: "hm_ok (peer_links fm)"
    and t: "t \<le> now" "now < t + 2000"
    and h: "handle_datagram sha now src d fm = (outs, fm')"
  shows "dedup_ok (dedup fm') \<and> hm_ok (peer_links fm') \<and>
    fst ` set (peer_links fm') = fst ` set (peer_links fm) \<and>
    (\<forall>p b. PeerDatagram p b \<in> set outs \<longrightarrow> b = d \<and> p \<in> fst ` set (peer_links fm)) \<and>
    length (filter (\<lambda>out. \<exists>p b. out = PeerDatagram p b) outs) \<le> card (fst ` set (peer_links fm)) \<and>
    (if outs = []
     then seen_since t (dedup fm) \<subseteq> seen_since t (dedup fm')
     else datagram_key d \<notin> seen_since t (dedup fm) \<and>
          seen_since t (dedup fm') = insert (datagram_key d) (seen_since t (dedup fm)))"
proof -
  have same: ?thesis if "outs = []" "fm' = fm"
    using that ok links by simp
  show ?thesis
  proof (cases "length d < 12 \<or> packet_from_bytes (drop 8 d) = None")
    case True
    then have "handle_datagram sha now src d fm = ([], fm)"
      by (cases "length d < 12") (simp_all add: handle_datagram_def Let_def)
    with h show ?thesis by (intro same) simp_all
  next
    case False
    then obtain pkt where pkt: "packet_from_bytes (drop 8 d) = Some pkt" by auto
    let ?k = "datagram_key d"
    let ?s = "note_seen now src fm"
    have k: "dedup_key (take 8 d) (seq (header pkt)) (payload_hash (drop 8 d)) = ?k"
      by (simp add: datagram_key_def pkt)
    have s: "dedup ?s = dedup fm" "hm_ok (peer_links ?s)"
      "fst ` set (peer_links ?s) = fst ` set (peer_links fm)"
      using links by (simp_all add: note_seen_def hm_ok_adjust)
    obtain dup dd where dd: "is_dup now ?k (dedup fm) = (dup, dd)" by fastforce
    let ?f = "?s\<lparr>dedup := dd\<rparr>"
    have h': "handle_datagram sha now src d fm =
       (if dup then ([], ?f) else
          case room_for_hash sha (take 8 d) ?f of None \<Rightarrow> ([], ?f)
          | Some name \<Rightarrow> let (ok, g) = admit now name ?f in
              if \<not> ok then ([], g)
              else (map (deliver_local (drop 8 d) pkt) (local_senders (room_mgr g) name) @
                    forward_on src (take 8 d) (drop 8 d) g, g))"
      using False by (simp add: handle_datagram_def Let_def pkt k s(1) dd)
    have adm: "dedup (snd (admit now name ?f)) = dd" "peer_links (snd (admit now name ?f)) = peer_links ?s" for name
      by (simp_all add: admit_def Let_def case_prod_beta)
    have state: "dedup fm' = dd" "peer_links fm' = peer_links ?s"
      using h unfolding h' case_prod_beta Let_def by (auto simp: adm split: if_splits option.splits)
    have outs: "outs = [] \<or> (\<not> dup \<and> (\<exists>name. outs = map (deliver_local (drop 8 d) pkt) (local_senders (room_mgr fm') name) @
        forward_on src (take 8 d) (drop 8 d) fm'))"
      using h unfolding h' case_prod_beta Let_def by (auto split: if_splits option.splits)
    have dl: "deliver_local m q x \<noteq> PeerDatagram p b" for m q x p b
      by (simp add: deliver_local_def split: ParticipantSender.split)
    have "PeerDatagram p b \<in> set outs \<Longrightarrow> b = d \<and> p \<in> fst ` set (peer_links fm')" for p b
      using outs dl[of _ _ _ p b, symmetric] by (auto simp: forward_on_def image_iff) (metis fst_conv)
    then have fwd: "\<forall>p b. PeerDatagram p b \<in> set outs \<longrightarrow> b = d \<and> p \<in> fst ` set (peer_links fm)"
      using s(3) state(2) by simp
    have "length (filter (\<lambda>out. \<exists>p b. out = PeerDatagram p b) outs) \<le> length (peer_links fm')"
      using outs dl
      by (auto simp: forward_on_def filter_map o_def case_prod_beta intro: order.trans[OF length_filter_le])
    also have "\<dots> = card (fst ` set (peer_links fm'))"
      using s(2) unfolding state(2) hm_ok_def
      by (metis distinct_card length_map list.set_map)
    finally have len: "length (filter (\<lambda>out. \<exists>p b. out = PeerDatagram p b) outs) \<le> card (fst ` set (peer_links fm))"
      by (simp add: state s(3))
    show ?thesis
      using is_dup_ok[OF ok t, of ?k] outs fwd len dd s state by auto
  qed
qed


section \<open>Flooding stops\<close>

text \<open>
  A network of relays, named by their fingerprints, with the datagrams in flight between them as
  (source, destination, bytes).  A step delivers any one of them within the two seconds from \<open>t\<close>;
  the trace keeps who handled what and with which result.
\<close>

type_synonym relays = "string \<Rightarrow> FederationManager"

type_synonym flight = "string \<times> string \<times> byte list"

definition sends :: "string \<Rightarrow> FedOut list \<Rightarrow> flight list" where
  "sends r outs = concat (map (\<lambda>out. case out of PeerDatagram p b \<Rightarrow> [(r, p, b)] | _ \<Rightarrow> []) outs)"

inductive flood ::
  "(byte list \<Rightarrow> byte list) \<Rightarrow> nat \<Rightarrow> relays \<times> flight list \<Rightarrow>
   (string \<times> byte list \<times> FedOut list) list \<Rightarrow> relays \<times> flight list \<Rightarrow> bool"
  for sha t s0 where
  start: "flood sha t s0 [] s0"
| deliver: "flood sha t s0 tr (net, xs @ (src, r, d) # ys) \<Longrightarrow> t \<le> now \<Longrightarrow> now < t + 2000 \<Longrightarrow>
    handle_datagram sha now src d (net r) = (outs, fm) \<Longrightarrow>
    flood sha t s0 (tr @ [(r, d, outs)]) (net(r := fm), xs @ ys @ sends r outs)"

definition relays_ok :: "string set \<Rightarrow> relays \<Rightarrow> bool" where
  "relays_ok R net \<longleftrightarrow>
     (\<forall>r \<in> R. dedup_ok (dedup (net r)) \<and> hm_ok (peer_links (net r)) \<and>
        fst ` set (peer_links (net r)) \<subseteq> R)"

definition flights_ok :: "string set \<Rightarrow> u64 set \<Rightarrow> flight list \<Rightarrow> bool" where
  "flights_ok R K fs \<longleftrightarrow> (\<forall>(src, r, d) \<in> set fs. r \<in> R \<and> datagram_key d \<in> K)"

definition unseen :: "nat \<Rightarrow> string set \<Rightarrow> u64 set \<Rightarrow> relays \<Rightarrow> nat" where
  "unseen t R K net = (\<Sum>r \<in> R. card (K - seen_since t (dedup (net r))))"

lemma length_sends:
  "length (sends r outs) = length (filter (\<lambda>out. \<exists>p b. out = PeerDatagram p b) outs)"
  by (induction outs) (auto simp: sends_def split: FedOut.split)

lemma in_sends: "x \<in> set (sends r outs) \<longleftrightarrow> (\<exists>p b. x = (r, p, b) \<and> PeerDatagram p b \<in> set outs)"
  by (induction outs) (auto simp: sends_def split: FedOut.split)

lemma unseen_mono:
  assumes "finite R" "finite K" "r \<in> R" and "seen_since t (dedup (net r)) \<subseteq> seen_since t (dedup fm)"
  shows "unseen t R K (net(r := fm)) \<le> unseen t R K net"
  unfolding unseen_def by (rule sum_mono) (use assms in \<open>auto intro!: card_mono\<close>)

lemma unseen_less:
  assumes "finite R" "finite K" "r \<in> R" and "k \<in> K" and "k \<notin> seen_since t (dedup (net r))"
    and "seen_since t (dedup fm) = insert k (seen_since t (dedup (net r)))"
  shows "unseen t R K (net(r := fm)) < unseen t R K net"
  unfolding unseen_def
proof (rule sum_strict_mono_ex1[OF assms(1)])
  show "\<forall>x \<in> R. card (K - seen_since t (dedup ((net(r := fm)) x))) \<le> card (K - seen_since t (dedup (net x)))"
    using assms by (auto intro!: card_mono)
  have "card (K - seen_since t (dedup fm)) < card (K - seen_since t (dedup (net r)))"
    using assms by (intro psubset_card_mono) auto
  then show "\<exists>a \<in> R. card (K - seen_since t (dedup ((net(r := fm)) a))) < card (K - seen_since t (dedup (net a)))"
    using assms(3) by (intro bexI[of _ r]) simp_all
qed

definition accepts :: "string \<Rightarrow> u64 \<Rightarrow> (string \<times> byte list \<times> FedOut list) list \<Rightarrow> nat" where
  "accepts r k tr = length (filter (\<lambda>(q, d, outs). q = r \<and> datagram_key d = k \<and> outs \<noteq> []) tr)"

lemma flood_invariant:
  assumes "flood sha t (net0, fs0) tr s" and "finite R" and "finite K"
    and "relays_ok R net0" and "flights_ok R K fs0"
  shows "relays_ok R (fst s) \<and> flights_ok R K (snd s) \<and>
    length tr + length (snd s) + card R * unseen t R K (fst s) \<le> length fs0 + card R * unseen t R K net0 \<and>
    (\<forall>r \<in> R. \<forall>k. accepts r k tr \<le> (if k \<in> seen_since t (dedup (fst s r)) then 1 else 0))"
  using assms(1)
proof (induction rule: flood.induct)
  case start
  then show ?case using assms(4,5) by (simp add: accepts_def)
next
  case (deliver tr net xs src r d ys now outs fm)
  from deliver.IH have ok: "relays_ok R net" and fl: "flights_ok R K (xs @ (src, r, d) # ys)"
    and m: "length tr + length (xs @ (src, r, d) # ys) + card R * unseen t R K net \<le>
       length fs0 + card R * unseen t R K net0"
    and acc: "\<And>q k. q \<in> R \<Longrightarrow> accepts q k tr \<le> (if k \<in> seen_since t (dedup (net q)) then 1 else 0)"
    by auto
  have r: "r \<in> R" "datagram_key d \<in> K"
    using fl by (simp_all add: flights_ok_def)
  have okr: "dedup_ok (dedup (net r))" "hm_ok (peer_links (net r))" "fst ` set (peer_links (net r)) \<subseteq> R"
    using ok r(1) by (auto simp: relays_ok_def)
  note e = handle_datagram_effect[OF okr(1,2) deliver.hyps(2-4)]
  have fm_ok: "dedup_ok (dedup fm)" "hm_ok (peer_links fm)" "fst ` set (peer_links fm) \<subseteq> R"
    using e okr(3) by simp_all
  have relays: "relays_ok R (net(r := fm))"
    using ok fm_ok by (simp add: relays_ok_def)
  have "p \<in> R \<and> b = d" if "PeerDatagram p b \<in> set outs" for p b
    using e okr(3) that by blast
  then have "flights_ok R K (sends r outs)"
    using r(2) by (auto simp: flights_ok_def in_sends)
  then have flights: "flights_ok R K (xs @ ys @ sends r outs)"
    using fl by (simp add: flights_ok_def ball_Un)
  have sends: "length (sends r outs) \<le> card R"
    using e card_mono[OF assms(2) okr(3)] by (simp add: length_sends)
  show ?case
  proof (cases "outs = []")
    case True
    then have "unseen t R K (net(r := fm)) \<le> unseen t R K net"
      using e r(1) assms(2,3) by (intro unseen_mono) simp_all
    then have le: "card R * unseen t R K (net(r := fm)) \<le> card R * unseen t R K net"
      by (rule mult_le_mono2)
    have "length (tr @ [(r, d, outs)]) + length (xs @ ys @ sends r outs) + card R * unseen t R K (net(r := fm))
        \<le> length fs0 + card R * unseen t R K net0"
      using m le sends True unfolding length_append list.size by (simp only: length_sends filter.simps list.size)
    moreover have "accepts q k (tr @ [(r, d, outs)]) \<le> (if k \<in> seen_since t (dedup ((net(r := fm)) q)) then 1 else 0)"
      if "q \<in> R" for q k
      using acc[OF that, of k] True e by (auto simp: accepts_def split: if_splits)
    ultimately show ?thesis
      using relays flights by (simp del: fun_upd_apply)
  next
    case False
    then have new: "datagram_key d \<notin> seen_since t (dedup (net r))"
      "seen_since t (dedup fm) = insert (datagram_key d) (seen_since t (dedup (net r)))"
      using e by simp_all
    then have "Suc (unseen t R K (net(r := fm))) \<le> unseen t R K net"
      using r assms(2,3) by (intro Suc_leI unseen_less) simp_all
    then have le: "card R * Suc (unseen t R K (net(r := fm))) \<le> card R * unseen t R K net"
      by (rule mult_le_mono2)
    have "length (tr @ [(r, d, outs)]) + length (xs @ ys @ sends r outs) + card R * unseen t R K (net(r := fm))
        \<le> length fs0 + card R * unseen t R K net0"
      using m le sends unfolding length_append list.size mult_Suc_right by linarith
    moreover have "accepts q k (tr @ [(r, d, outs)]) \<le> (if k \<in> seen_since t (dedup ((net(r := fm)) q)) then 1 else 0)"
      if "q \<in> R" for q k
      using acc[OF that, of k] new False by (auto simp: accepts_def split: if_splits)
    ultimately show ?thesis
      using relays flights by (simp del: fun_upd_apply)
  qed
qed

text \<open>
  C5 (Federation.flooding_terminates). However relays are linked, cycles included, and in whatever
  order datagrams arrive within two seconds, forwarding them stops: n datagrams in flight among m
  relays are handled at most n + n m^2 times, and no relay passes on packets of one duplicate key
  more than once.
\<close>

theorem flooding_terminates:
  assumes "flood sha t (net, fs) tr s" and "finite R" and "relays_ok R net"
    and "\<forall>(src, r, d) \<in> set fs. r \<in> R"
  shows "length tr \<le> length fs + length fs * (card R * card R) \<and> (\<forall>r \<in> R. \<forall>k. accepts r k tr \<le> 1)"
proof -
  define K where "K = (\<lambda>(src, r, d). datagram_key d) ` set fs"
  have K: "finite K" "card K \<le> length fs"
    unfolding K_def by (simp_all add: order.trans[OF card_image_le card_length])
  have fl: "flights_ok R K fs"
    using assms(4) unfolding flights_ok_def K_def by force
  note inv = flood_invariant[OF assms(1,2) K(1) assms(3) fl]
  have "unseen t R K net \<le> (\<Sum>r \<in> R. card K)"
    unfolding unseen_def by (intro sum_mono card_mono) (use K in auto)
  also have "\<dots> \<le> card R * length fs"
    using K(2) by simp
  finally have "card R * unseen t R K net \<le> card R * (card R * length fs)"
    by (rule mult_le_mono2)
  also have "\<dots> = length fs * (card R * card R)"
    by (simp add: ac_simps)
  finally have "length tr \<le> length fs + length fs * (card R * card R)"
    using inv by linarith
  moreover have "accepts r k tr \<le> 1" if "r \<in> R" for r k
  proof -
    have "accepts r k tr \<le> (if k \<in> seen_since t (dedup (fst s r)) then 1 else 0)"
      using inv that by blast
    then show ?thesis by (rule order.trans) simp
  qed
  ultimately show ?thesis by simp
qed

definition demo_fm :: "string list \<Rightarrow> FederationManager" where
  "demo_fm ps = \<lparr>peers = [], trusted = [], global_rooms = [''g''], room_mgr = manager_new,
     local_tls_fp = [], peer_links = map (\<lambda>p. (p, \<lparr>link_label = p, active_rooms = [],
       remote_participants = [], last_seen = 0\<rparr>)) ps,
     dedup = dedup_new, rate_limiters = [], dispatcher_wired = False\<rparr>"

definition demo_net :: relays where
  "demo_net r = demo_fm (filter (\<lambda>p. p \<noteq> r) [''A'', ''B'', ''C''])"

definition demo_sha :: "byte list \<Rightarrow> byte list" where
  "demo_sha b = replicate 32 1"

definition demo_media :: MediaPacket where
  "demo_media = \<lparr>header = \<lparr>version = 2, flags = 0, media_type = Audio, codec_id = Opus24k,
     stream_id = 0, fec_ratio_wire = 0, seq = 5, timestamp = 100, fec_block = 0\<rparr>,
     payload = [1, 2, 3], quality_report = None\<rparr>"

definition demo_datagram :: "byte list" where
  "demo_datagram = replicate 8 1 @ packet_to_bytes demo_media"

lemma demo_parse: "packet_from_bytes (drop 8 demo_datagram) = Some demo_media"
  by (simp add: demo_datagram_def packet_from_to packet_wf_def header_valid_def demo_media_def
      has_quality_def FLAG_QUALITY_def)

lemma demo_handled:
  "fst (handle_datagram demo_sha 10 ''A'' demo_datagram (demo_net ''B'')) = [PeerDatagram ''C'' demo_datagram]"
proof -
  have "length demo_datagram = 27"
    by (simp add: demo_datagram_def packet_to_bytes_def demo_media_def)
  moreover have "room_hash demo_sha n = replicate 8 1" for n
    by (simp add: room_hash_def demo_sha_def)
  moreover have "take 8 demo_datagram = replicate 8 1"
    by (simp add: demo_datagram_def)
  ultimately show ?thesis
    by (simp add: handle_datagram_def demo_parse Let_def is_dup_def demo_net_def demo_fm_def
        dedup_new_def note_seen_def hm_adjust_def room_for_hash_def local_rooms_def manager_new_def
        admit_def limiter_allow_def limiter_new_def forward_on_def local_senders_def)
      (metis append_take_drop_id)
qed

theorem flooding_terminates_witness:
  "\<exists>tr s. flood demo_sha 0 (demo_net, [(''A'', ''B'', demo_datagram)]) tr s \<and>
     tr = [(''B'', demo_datagram, [PeerDatagram ''C'' demo_datagram])] \<and> length tr \<le> 10 \<and>
     accepts ''B'' (datagram_key demo_datagram) tr \<le> 1"
proof -
  obtain fm where h: "handle_datagram demo_sha 10 ''A'' demo_datagram (demo_net ''B'') =
      ([PeerDatagram ''C'' demo_datagram], fm)"
    using demo_handled by (metis prod.collapse)
  have f: "flood demo_sha 0 (demo_net, [(''A'', ''B'', demo_datagram)])
      ([] @ [(''B'', demo_datagram, [PeerDatagram ''C'' demo_datagram])])
      (demo_net(''B'' := fm), [] @ [] @ sends ''B'' [PeerDatagram ''C'' demo_datagram])"
    using flood.start[of demo_sha 0 "(demo_net, [(''A'', ''B'', demo_datagram)])"] h
    by (intro flood.deliver[where now = 10]) simp_all
  have "relays_ok {''A'', ''B'', ''C''} demo_net"
    by (auto simp: relays_ok_def demo_net_def demo_fm_def dedup_ok_def dedup_new_def hm_ok_def)
  from flooding_terminates[OF f _ this] f show ?thesis
    by (intro exI conjI) (assumption, simp_all)
qed

section \<open>Two speakers in step silence each other\<close>

lemma payload_hash_header: "payload_hash (packet_to_bytes p) = payload_hash (header_write_to (header p))"
  by (simp add: payload_hash_def packet_to_bytes_def)

lemma datagram_key_of_packet:
  assumes "packet_wf p" and "length rh = 8"
  shows "datagram_key (rh @ packet_to_bytes p) =
    dedup_key rh (seq (header p)) (payload_hash (header_write_to (header p)))"
  using assms by (simp add: datagram_key_def packet_from_to payload_hash_header)

text \<open>
  Also (Federation.equal_headers_collide). The hash that is to keep apart different speakers covers
  the sixteen header bytes and none of the payload: after a relay has passed on a packet, it drops
  every packet of that room with an equal header for two seconds, from any peer and with any
  payload.
\<close>

theorem equal_headers_collide:
  assumes "dedup_ok (dedup fm)" and "hm_ok (peer_links fm)" and "length rh = 8"
    and "packet_wf p" and "packet_wf q" and "header p = header q"
    and "fst (handle_datagram sha t src (rh @ packet_to_bytes p) fm) \<noteq> []"
    and "t \<le> now" and "now < t + 2000"
  shows "fst (handle_datagram sha now src' (rh @ packet_to_bytes q)
    (snd (handle_datagram sha t src (rh @ packet_to_bytes p) fm))) = []"
proof -
  let ?d = "rh @ packet_to_bytes p" and ?e = "rh @ packet_to_bytes q"
  obtain outs fm' where h: "handle_datagram sha t src ?d fm = (outs, fm')" by fastforce
  note e1 = handle_datagram_effect[OF assms(1,2) order.refl _ h]
  have k: "datagram_key ?d = datagram_key ?e"
    using assms(3-6) by (simp add: datagram_key_of_packet)
  have ok: "dedup_ok (dedup fm')" "hm_ok (peer_links fm')" "datagram_key ?e \<in> seen_since t (dedup fm')"
    using e1 assms(7) h k by auto
  obtain outs' fm'' where h': "handle_datagram sha now src' ?e fm' = (outs', fm'')" by fastforce
  from handle_datagram_effect[OF ok(1,2) assms(8,9) h'] ok(3) have "outs' = []"
    by (auto split: if_splits)
  then show ?thesis using h h' by simp
qed

lemma demo_net_ok: "dedup_ok (dedup (demo_net r))" "hm_ok (peer_links (demo_net r))"
  by (simp_all add: demo_net_def demo_fm_def dedup_ok_def dedup_new_def hm_ok_def o_def)

theorem equal_headers_collide_witness:
  "fst (handle_datagram demo_sha 500 ''C'' (replicate 8 1 @ packet_to_bytes (demo_media\<lparr>payload := [9, 9, 9, 9]\<rparr>))
     (snd (handle_datagram demo_sha 10 ''A'' demo_datagram (demo_net ''B'')))) = []"
  unfolding demo_datagram_def
  using demo_handled
  by (intro equal_headers_collide demo_net_ok)
    (simp_all add: demo_datagram_def packet_wf_def header_valid_def demo_media_def has_quality_def
      FLAG_QUALITY_def)

section \<open>Presence announcements circulate forever\<close>

type_synonym 'm message = "string \<times> string \<times> 'm FedSignal"

definition signals :: "string \<Rightarrow> 'm SignalOut list \<Rightarrow> 'm message list" where
  "signals r outs = concat (map (\<lambda>out. case out of ToPeer p m \<Rightarrow> [(r, p, m)] | _ \<Rightarrow> []) outs)"

inductive gossip ::
  "(byte list \<Rightarrow> byte list) \<Rightarrow> relays \<times> 'm message list \<Rightarrow> nat \<Rightarrow> relays \<times> 'm message list \<Rightarrow> bool"
  for sha s0 where
  start: "gossip sha s0 0 s0"
| handle: "gossip sha s0 n (net, xs @ (src, r, m) # ys) \<Longrightarrow>
    handle_signal sha now src m (net r) = (outs, fm) \<Longrightarrow>
    gossip sha s0 (Suc n) (net(r := fm), xs @ ys @ signals r outs)"

definition full_mesh :: "(byte list \<Rightarrow> byte list) \<Rightarrow> string set \<Rightarrow> string \<Rightarrow> relays \<Rightarrow> bool" where
  "full_mesh sha R room net \<longleftrightarrow>
     (\<forall>r \<in> R. hm_ok (peer_links (net r)) \<and> fst ` set (peer_links (net r)) = R - {r} \<and>
        is_global_room sha (net r) room)"

definition announcing :: "string set \<Rightarrow> string \<Rightarrow> 'm message list \<Rightarrow> bool" where
  "announcing R room ms \<longleftrightarrow>
     (\<forall>(src, r, m) \<in> set ms. src \<in> R \<and> r \<in> R \<and> src \<noteq> r \<and> (\<exists>ps. m = GlobalRoomActive room ps))"

lemma signals_announce:
  "signals r (announce_to_others src m fm @ outs) =
     map (\<lambda>(p, _). (r, p, m)) (filter (\<lambda>(p, _). p \<noteq> src) (peer_links fm)) @ signals r outs"
proof -
  have "signals r (map (\<lambda>(fp, _). ToPeer fp m) xs) = map (\<lambda>(p, _). (r, p, m)) xs" for xs :: "(string \<times> PeerLink) list"
    by (induction xs) (auto simp: signals_def)
  then show ?thesis by (simp add: announce_to_others_def) (simp add: signals_def)
qed

lemma keys_without:
  assumes "hm_ok m" and "k \<in> fst ` set m"
  shows "length (filter (\<lambda>(p, _). p \<noteq> k) m) = card (fst ` set m) - 1"
proof -
  have d: "distinct (map fst m)" using assms(1) by (simp add: hm_ok_def)
  have "length (filter (\<lambda>(p, _). p \<noteq> k) m) = length (filter (\<lambda>p. p \<noteq> k) (map fst m))"
    by (simp add: filter_map o_def case_prod_unfold)
  also have "\<dots> = card (set (filter (\<lambda>p. p \<noteq> k) (map fst m)))"
    using d by (simp only: distinct_filter distinct_card)
  also have "set (filter (\<lambda>p. p \<noteq> k) (map fst m)) = fst ` set m - {k}"
    by auto
  finally show ?thesis using assms(2) by simp
qed

lemma hm_ok_adjust_keys: "hm_ok m \<Longrightarrow> hm_ok (hm_adjust k f m)"
  by (rule hm_ok_adjust)

lemma is_global_room_links [simp]:
  "is_global_room sha (fm\<lparr>peer_links := x\<rparr>) room = is_global_room sha fm room"
  by (simp add: is_global_room_def resolve_global_room_def)

lemma announce_step:
  fixes outs :: "'m SignalOut list"
  assumes "hm_ok (peer_links fm)" and "is_global_room sha fm room" and "src \<in> fst ` set (peer_links fm)"
    and "handle_signal sha now src (GlobalRoomActive room ps) fm = (outs, fm')"
  shows "\<exists>tagged. signals r outs = map (\<lambda>(p, _). (r, p, GlobalRoomActive room tagged))
      (filter (\<lambda>(p, _). p \<noteq> src) (peer_links fm')) \<and>
    length (signals r outs) = card (fst ` set (peer_links fm)) - 1 \<and>
    hm_ok (peer_links fm') \<and> fst ` set (peer_links fm') = fst ` set (peer_links fm) \<and>
    is_global_room sha fm' room"
proof -
  let ?s = "note_seen now src fm"
  have s: "is_global_room sha ?s room" "hm_ok (peer_links ?s)"
    "fst ` set (peer_links ?s) = fst ` set (peer_links fm)"
    using assms(1,2) by (simp_all add: note_seen_def hm_ok_adjust)
  have h: "handle_room_active sha src room ps ?s = (outs, fm')"
    using assms(4) by (simp add: handle_signal_def Let_def)
  define tagged where "tagged = (case hm_get (peer_links ?s) src of None \<Rightarrow> ps
      | Some l \<Rightarrow> tag_participants (link_label l) ps)"
  define f :: "PeerLink \<Rightarrow> PeerLink" where "f = (\<lambda>l. l\<lparr>active_rooms := List.insert room (active_rooms l),
      remote_participants := hm_insert room tagged (remote_participants l)\<rparr>)"
  define rest :: "'m SignalOut list" where "rest =
    (case find (\<lambda>r. is_global_room sha fm' r \<and> same_global sha fm' r room) (local_rooms (room_mgr fm')) of
       None \<Rightarrow> []
     | Some r \<Rightarrow> [RoomUpdateTo (local_senders (room_mgr fm') r) (merged_participants sha r fm')])"
  have fm': "fm' = ?s\<lparr>peer_links := hm_adjust src f (peer_links ?s)\<rparr>"
    using h s(1) by (simp add: handle_room_active_def Let_def tagged_def f_def)
  have out: "outs = announce_to_others src (GlobalRoomActive room tagged) fm' @ rest"
    using h s(1) unfolding fm' rest_def f_def tagged_def
    by (simp add: handle_room_active_def Let_def)
  have rest: "signals r rest = []"
    by (cases "find (\<lambda>r. is_global_room sha fm' r \<and> same_global sha fm' r room) (local_rooms (room_mgr fm'))")
      (simp_all add: rest_def signals_def)
  have l: "hm_ok (peer_links fm')" "fst ` set (peer_links fm') = fst ` set (peer_links fm)"
    using s by (simp_all add: fm' hm_ok_adjust)
  have "signals r outs = map (\<lambda>(p, _). (r, p, GlobalRoomActive room tagged))
      (filter (\<lambda>(p, _). p \<noteq> src) (peer_links fm'))"
    by (simp add: out signals_announce rest)
  moreover have "is_global_room sha fm' room"
    using s(1) by (simp add: fm')
  ultimately show ?thesis
    using l keys_without[OF l(1), of src] assms(3) by auto
qed


text \<open>
  Also (Federation.presence_storm). Presence announcements have no duplicate filter.  Among three or
  more fully linked relays an announcement of a global room is passed on forever: after n messages
  handled in any order the number in flight has grown by n (m - 3), so three relays keep every
  announcement circulating and four or more multiply it.
\<close>

theorem presence_storm:
  assumes "gossip sha (net, ms) n s" and "3 \<le> card R" and "full_mesh sha R room net"
    and "announcing R room ms"
  shows "length (snd s) = length ms + n * (card R - 3)"
proof -
  have "full_mesh sha R room (fst s) \<and> announcing R room (snd s) \<and>
      length (snd s) = length ms + n * (card R - 3)"
    using assms(1)
  proof (induction rule: gossip.induct)
    case start
    then show ?case using assms(3,4) by simp
  next
    case (handle n net xs src r m ys now outs fm)
    from handle.IH have mesh: "full_mesh sha R room net"
      and ann: "announcing R room (xs @ (src, r, m) # ys)"
      and len: "length xs + length ys + 1 = length ms + n * (card R - 3)" by auto
    from ann obtain ps where m: "src \<in> R" "r \<in> R" "src \<noteq> r" "m = GlobalRoomActive room ps"
      by (auto simp: announcing_def)
    have links: "hm_ok (peer_links (net r))" "fst ` set (peer_links (net r)) = R - {r}"
      "is_global_room sha (net r) room"
      using mesh m(2) by (auto simp: full_mesh_def)
    have src: "src \<in> fst ` set (peer_links (net r))"
      using m links(2) by simp
    from announce_step[OF links(1,3) src handle.hyps(2)[unfolded m(4)], of r] obtain tagged where
      out: "signals r outs = map (\<lambda>(p, _). (r, p, GlobalRoomActive room tagged))
        (filter (\<lambda>(p, _). p \<noteq> src) (peer_links fm))"
      and l: "length (signals r outs) = card (R - {r}) - 1"
      and fm: "hm_ok (peer_links fm)" "fst ` set (peer_links fm) = R - {r}" "is_global_room sha fm room"
      unfolding links(2) by blast
    have "full_mesh sha R room (net(r := fm))"
      using mesh fm by (simp add: full_mesh_def)
    moreover have "announcing R room (signals r outs)"
    proof -
      have "p \<in> R \<and> p \<noteq> r" if "(p, l) \<in> set (peer_links fm)" for p l
        using that fm(2) by force
      then show ?thesis using m(2) by (auto simp: announcing_def out)
    qed
    then have "announcing R room (xs @ ys @ signals r outs)"
      using ann by (simp add: announcing_def ball_Un)
    moreover have "length (xs @ ys @ signals r outs) = length ms + Suc n * (card R - 3)"
      using len l m(2) assms(2) by (simp add: card_Diff_singleton)
    ultimately show ?case by (simp del: fun_upd_apply)
  qed
  then show ?thesis by simp
qed

theorem presence_storm_witness:
  "\<exists>s. gossip demo_sha (demo_net, [(''A'', ''B'', GlobalRoomActive ''g'' [] :: unit FedSignal)]) 1 s \<and>
     length (snd s) = 1"
proof -
  let ?m = "GlobalRoomActive ''g'' [] :: unit FedSignal"
  obtain outs fm where h: "handle_signal demo_sha 0 ''A'' ?m (demo_net ''B'') = (outs, fm)"
    by fastforce
  have g: "gossip demo_sha (demo_net, [(''A'', ''B'', ?m)]) (Suc 0)
      (demo_net(''B'' := fm), [] @ [] @ signals ''B'' outs)"
    by (rule gossip.handle[where net = demo_net and src = "''A''" and m = ?m and now = 0])
      (use h in \<open>simp_all add: gossip.start\<close>)
  have "is_global_room demo_sha (demo_net r) ''g''" for r
    by (simp add: is_global_room_def resolve_global_room_def demo_net_def demo_fm_def)
  then have "full_mesh demo_sha {''A'', ''B'', ''C''} ''g'' demo_net"
    by (auto simp: full_mesh_def demo_net_ok) (auto simp: demo_net_def demo_fm_def)
  from presence_storm[OF g _ this] g show ?thesis
    by (intro exI[of _ "(demo_net(''B'' := fm), [] @ [] @ signals ''B'' outs)"]) (simp add: announcing_def)
qed


section \<open>A private room leaks\<close>

lemma announce_to_others_mem:
  "p \<in> fst ` set (peer_links fm) \<Longrightarrow> p \<noteq> src \<Longrightarrow> ToPeer p msg \<in> set (announce_to_others src msg fm)"
  by (force simp: announce_to_others_def)

text \<open>
  Also (Federation.inactive_leaks_private_room). The handler of room-inactive does not ask whether
  the room is global.  For a name that is not, it picks the first local room that is not global
  either and announces that room's participants to every other peer.
\<close>

theorem inactive_leaks_private_room:
  fixes fm :: FederationManager and p :: string
  assumes "resolve_global_room sha fm room = None" and "local_rooms (room_mgr fm) = r # rs"
    and "resolve_global_room sha fm r = None" and "p \<in> fst ` set (peer_links fm)" and "p \<noteq> src"
  shows "ToPeer p (GlobalRoomActive room (local_participant_list (room_mgr fm) r))
    \<in> set (fst (handle_signal sha now src (GlobalRoomInactive room) fm))"
proof -
  have links: "resolve_global_room sha (f\<lparr>peer_links := x\<rparr>) q = resolve_global_room sha f q"
    "room_mgr (f\<lparr>peer_links := x\<rparr>) = room_mgr f" for f :: FederationManager and x q
    by (simp_all add: resolve_global_room_def)
  have empty: "concat (map (\<lambda>(_, l). []) xs) = []" for xs :: "(string \<times> PeerLink) list"
    by (induction xs) auto
  have here: "find (\<lambda>q. resolve_global_room sha fm q = None) (r # rs) = Some r"
    using assms(3) by simp
  let ?msg = "GlobalRoomActive room (local_participant_list (room_mgr fm) r)"
  have "\<exists>fm' rest. fst (handle_signal sha now src (GlobalRoomInactive room) fm) =
      announce_to_others src ?msg fm' @ rest \<and> fst ` set (peer_links fm') = fst ` set (peer_links fm)"
    using assms(1,2) here
    by (simp add: handle_signal_def handle_room_inactive_def Let_def note_seen_def links same_global_def
        empty del: find.simps(2)) (intro exI conjI, rule refl, simp)
  then show ?thesis
    using announce_to_others_mem[OF _ assms(5)] assms(4) by (metis Un_iff set_append)
qed

section \<open>A relay's own media comes back\<close>

lemma map_fst_hm_adjust: "map fst (hm_adjust k f m) = map fst m"
proof -
  have "map fst (AList.update k v m) = map fst m" if "hm_get m k \<noteq> None" for v
    using that by (induction m) auto
  then show ?thesis by (simp add: hm_adjust_def split: option.split)
qed

lemma forward_on_keys:
  "forward_on src rh media fm =
     map (\<lambda>p. PeerDatagram p (rh @ media)) (filter (\<lambda>p. p \<noteq> src) (map fst (peer_links fm)))"
  by (simp add: forward_on_def filter_map o_def case_prod_unfold)

lemma room_for_hash_frame:
  assumes "global_rooms fm' = global_rooms fm" and "room_mgr fm' = room_mgr fm"
  shows "room_for_hash sha rh fm' = room_for_hash sha rh fm"
proof -
  have "global_room_hash sha fm' = global_room_hash sha fm"
    by (rule ext) (simp add: global_room_hash_def resolve_global_room_def assms)
  then show ?thesis unfolding room_for_hash_def assms by (simp only:)
qed

lemma handle_fresh_datagram:
  assumes "packet_from_bytes (drop 8 d) = Some pkt" and "12 \<le> length d"
    and "entries (dedup fm) = []" and "rate_limiters fm = []" and "room_for_hash sha (take 8 d) fm = Some name"
  shows "fst (handle_datagram sha now src d fm) =
    map (deliver_local (drop 8 d) pkt) (local_senders (room_mgr fm) name) @
    map (\<lambda>p. PeerDatagram p d) (filter (\<lambda>p. p \<noteq> src) (map fst (peer_links fm)))"
proof -
  have "room_for_hash sha (take 8 d) (note_seen now src fm\<lparr>dedup := dd\<rparr>) = Some name" for dd
    using assms(5) room_for_hash_frame[of "note_seen now src fm\<lparr>dedup := dd\<rparr>" fm]
    by (simp add: note_seen_def)
  then show ?thesis
    using assms(1-4)
    by (simp add: handle_datagram_def Let_def is_dup_def admit_def limiter_allow_def limiter_new_def
        forward_on_keys note_seen_def map_fst_hm_adjust)
qed

definition echo_net :: relays where
  "echo_net r = (if r = ''A''
     then (demo_net ''A'')\<lparr>room_mgr := snd (join ''g'' ''10.0.0.1:1'' (Quic 7) None None manager_new)\<rparr>
     else demo_net r)"

lemma echo_local: "local_senders (room_mgr (echo_net ''A'')) ''g'' = [Quic 7]"
  "local_senders (room_mgr (echo_net ''B'')) ''g'' = []" "local_senders (room_mgr (echo_net ''C'')) ''g'' = []"
  by (simp_all add: echo_net_def join_def Let_def is_authorized_def manager_new_def room_new_def
      room_add_def local_senders_def all_senders_def clear_participant_state_def demo_net_def demo_fm_def)

lemma echo_rooms: "local_rooms (room_mgr (echo_net ''A'')) = [''g'']"
  "local_rooms (room_mgr (echo_net ''B'')) = []" "local_rooms (room_mgr (echo_net ''C'')) = []"
  by (simp_all add: echo_net_def join_def Let_def is_authorized_def manager_new_def local_rooms_def
      demo_net_def demo_fm_def)

lemma echo_handled:
  assumes "r \<in> {''A'', ''B'', ''C''}"
  shows "fst (handle_datagram demo_sha 10 src demo_datagram (echo_net r)) =
    (if r = ''A'' then [LocalDatagram 7 (packet_to_bytes demo_media)] else []) @
    map (\<lambda>p. PeerDatagram p demo_datagram) (filter (\<lambda>p. p \<noteq> src) (filter (\<lambda>p. p \<noteq> r) [''A'', ''B'', ''C'']))"
proof -
  have hash: "room_hash demo_sha n = replicate 8 1" for n
    by (simp add: room_hash_def demo_sha_def)
  have d: "take 8 demo_datagram = replicate 8 1" "drop 8 demo_datagram = packet_to_bytes demo_media"
    "length demo_datagram = 27"
    by (simp_all add: demo_datagram_def packet_to_bytes_def demo_media_def)
  have f: "entries (dedup (echo_net q)) = []" "rate_limiters (echo_net q) = []"
    "global_rooms (echo_net q) = [''g'']" "map fst (peer_links (echo_net q)) = filter (\<lambda>p. p \<noteq> q) [''A'', ''B'', ''C'']" for q
    by (simp_all add: echo_net_def demo_net_def demo_fm_def dedup_new_def o_def)
  have "room_for_hash demo_sha (take 8 demo_datagram) (echo_net r) = Some ''g''"
    using assms by (auto simp: room_for_hash_def echo_rooms hash d f)
  from handle_fresh_datagram[OF demo_parse _ f(1,2) this] show ?thesis
    using assms by (auto simp: d f echo_local deliver_local_def)
qed

text \<open>
  Also (Federation.own_media_echoes). A relay does not enter its own participants' packets into its
  duplicate filter.  With three linked relays a packet that relay A hands to B reaches C and comes
  back to A, which delivers it to all its own participants in the room, the speaker included.
\<close>

theorem own_media_echoes:
  "PeerDatagram ''B'' demo_datagram \<in> set (forward_to_peers (replicate 8 1) (packet_to_bytes demo_media) (echo_net ''A'')) \<and>
   (\<exists>tr s outs. flood demo_sha 0 (echo_net, [(''A'', ''B'', demo_datagram)]) tr s \<and>
      (''A'', demo_datagram, outs) \<in> set tr \<and> LocalDatagram 7 (packet_to_bytes demo_media) \<in> set outs)"
proof
  show "PeerDatagram ''B'' demo_datagram
      \<in> set (forward_to_peers (replicate 8 1) (packet_to_bytes demo_media) (echo_net ''A''))"
    by (simp add: forward_to_peers_def echo_net_def demo_net_def demo_fm_def demo_datagram_def)
  let ?d = demo_datagram
  obtain b where b: "handle_datagram demo_sha 10 ''A'' ?d (echo_net ''B'') = ([PeerDatagram ''C'' ?d], b)"
    using echo_handled[of "''B''" "''A''"] by (cases "handle_datagram demo_sha 10 ''A'' ?d (echo_net ''B'')") simp
  obtain c where c: "handle_datagram demo_sha 10 ''B'' ?d (echo_net ''C'') = ([PeerDatagram ''A'' ?d], c)"
    using echo_handled[of "''C''" "''B''"] by (cases "handle_datagram demo_sha 10 ''B'' ?d (echo_net ''C'')") simp
  obtain a where a: "handle_datagram demo_sha 10 ''C'' ?d (echo_net ''A'') =
      ([LocalDatagram 7 (packet_to_bytes demo_media), PeerDatagram ''B'' ?d], a)"
    using echo_handled[of "''A''" "''C''"] by (cases "handle_datagram demo_sha 10 ''C'' ?d (echo_net ''A'')") simp
  have f1: "flood demo_sha 0 (echo_net, [(''A'', ''B'', ?d)]) ([] @ [(''B'', ?d, [PeerDatagram ''C'' ?d])])
      (echo_net(''B'' := b), [] @ [] @ sends ''B'' [PeerDatagram ''C'' ?d])"
    by (rule flood.deliver[where now = 10 and src = "''A''"]) (use b in \<open>simp_all add: flood.start\<close>)
  let ?n1 = "echo_net(''B'' := b)" and ?t1 = "[(''B'', ?d, [PeerDatagram ''C'' ?d])]"
  have f2: "flood demo_sha 0 (echo_net, [(''A'', ''B'', ?d)]) (?t1 @ [(''C'', ?d, [PeerDatagram ''A'' ?d])])
      (?n1(''C'' := c), [] @ [] @ sends ''C'' [PeerDatagram ''A'' ?d])"
    by (rule flood.deliver[where now = 10 and src = "''B''"]) (use f1 c in \<open>simp_all add: sends_def\<close>)
  let ?n2 = "?n1(''C'' := c)" and ?t2 = "?t1 @ [(''C'', ?d, [PeerDatagram ''A'' ?d])]"
  let ?o = "[LocalDatagram 7 (packet_to_bytes demo_media), PeerDatagram ''B'' ?d]"
  have f3: "flood demo_sha 0 (echo_net, [(''A'', ''B'', ?d)]) (?t2 @ [(''A'', ?d, ?o)])
      (?n2(''A'' := a), [] @ [] @ sends ''A'' ?o)"
    by (rule flood.deliver[where now = 10 and src = "''C''"]) (use f2 a in \<open>simp_all add: sends_def\<close>)
  show "\<exists>tr s outs. flood demo_sha 0 (echo_net, [(''A'', ''B'', ?d)]) tr s \<and>
      (''A'', ?d, outs) \<in> set tr \<and> LocalDatagram 7 (packet_to_bytes demo_media) \<in> set outs"
    by (intro exI[of _ "?t2 @ [(''A'', ?d, ?o)]"] exI[of _ "(?n2(''A'' := a), [] @ [] @ sends ''A'' ?o)"]
        exI[of _ ?o] conjI, rule f3) simp_all
qed


definition leak_fm :: FederationManager where
  "leak_fm = (demo_fm [''B'', ''C''])\<lparr>room_mgr :=
     snd (join ''board'' ''10.0.0.1:1'' (Quic 7) (Some ''f00d'') (Some ''Alice'') manager_new)\<rparr>"

theorem inactive_leaks_private_room_witness:
  "ToPeer ''C'' (GlobalRoomActive ''x'' [\<lparr>rp_fingerprint = ''f00d'', rp_alias = Some ''Alice'', rp_relay_label = None\<rparr>])
   \<in> set (fst (handle_signal demo_sha 0 ''B'' (GlobalRoomInactive ''x'' :: unit FedSignal) leak_fm))"
proof -
  have rooms: "rooms (room_mgr leak_fm) =
      [(''board'', \<lparr>participants = [\<lparr>p_id = next_participant_id manager_new, p_addr = ''10.0.0.1:1'',
         p_sender = Quic 7, p_fingerprint = Some ''f00d'', p_alias = Some ''Alice''\<rparr>],
         qualities = [(next_participant_id manager_new, pq_new)], room_tier = Good\<rparr>)]"
    by (simp add: leak_fm_def join_def Let_def is_authorized_def manager_new_def room_new_def room_add_def
        remove_by_fingerprint_def)
  have len: "length (hash_room_name demo_sha n) = 32" for n
    by (simp add: hash_room_name_def hex_encode_def demo_sha_def length_concat sum_list_replicate)
  have "hash_room_name demo_sha n \<noteq> q" if "length q < 32" for n q
    using len[of n] that by auto
  then have "hash_room_name demo_sha n \<noteq> ''x''" "hash_room_name demo_sha n \<noteq> ''board''" for n
    by simp_all
  then have "resolve_global_room demo_sha leak_fm q = None" if "q \<in> {''x'', ''board''}" for q
    using that by (auto simp: resolve_global_room_def is_call_room_def leak_fm_def demo_fm_def)
  then show ?thesis
    using inactive_leaks_private_room[of demo_sha leak_fm "''x''" "''board''" "[]" "''C''" "''B''" 0,
        where ?'a = unit]
    by (simp add: local_rooms_def rooms local_participant_list_def participant_list_def)
      (simp add: leak_fm_def demo_fm_def)
qed

section \<open>The rate limiter\<close>

fun allowed :: "nat list \<Rightarrow> RateLimiter \<Rightarrow> nat" where
  "allowed [] l = 0"
| "allowed (now # ts) l =
     (let (ok, l) = limiter_allow now l in (if ok then 1 else 0) + allowed ts l)"

lemma allowed_bound:
  assumes "limiter_tokens l \<le> limiter_max_pps l" and "\<forall>t \<in> set ts. t \<le> T" and "limiter_start l \<le> T"
  shows "allowed ts l \<le> limiter_tokens l + limiter_max_pps l * ((T - limiter_start l) div 1000)"
  using assms
proof (induction ts arbitrary: l)
  case (Cons now ts)
  let ?l = "if 1000 \<le> now - limiter_start l
      then l\<lparr>limiter_tokens := limiter_max_pps l, limiter_start := now\<rparr> else l"
  have roll: "limiter_tokens ?l + limiter_max_pps l * ((T - limiter_start ?l) div 1000)
      \<le> limiter_tokens l + limiter_max_pps l * ((T - limiter_start l) div 1000)"
  proof (cases "1000 \<le> now - limiter_start l")
    case True
    with Cons.prems have "(T - now) + 1000 \<le> T - limiter_start l" by auto
    then have "((T - now) + 1000) div 1000 \<le> (T - limiter_start l) div 1000"
      by (rule div_le_mono)
    then have "limiter_max_pps l * ((T - now) div 1000 + 1) \<le> limiter_max_pps l * ((T - limiter_start l) div 1000)"
      by (intro mult_le_mono2) simp
    with True show ?thesis by (simp add: trans_le_add2)
  qed simp
  have l: "limiter_tokens ?l \<le> limiter_max_pps ?l" "limiter_start ?l \<le> T" "limiter_max_pps ?l = limiter_max_pps l"
    using Cons.prems by simp_all
  show ?case
  proof (cases "0 < limiter_tokens ?l")
    case True
    have "allowed ts (?l\<lparr>limiter_tokens := limiter_tokens ?l - 1\<rparr>) \<le>
        (limiter_tokens ?l - 1) + limiter_max_pps l * ((T - limiter_start ?l) div 1000)"
      using Cons.IH[of "?l\<lparr>limiter_tokens := limiter_tokens ?l - 1\<rparr>"] Cons.prems(2) l by simp
    with True roll have "1 + allowed ts (?l\<lparr>limiter_tokens := limiter_tokens ?l - 1\<rparr>)
      \<le> limiter_tokens l + limiter_max_pps l * ((T - limiter_start l) div 1000)" by linarith
    moreover have "limiter_allow now l = (True, ?l\<lparr>limiter_tokens := limiter_tokens ?l - 1\<rparr>)"
      using True by (simp add: limiter_allow_def Let_def)
    ultimately show ?thesis by (simp only: allowed.simps Let_def prod.case if_True)
  next
    case False
    have "allowed ts ?l \<le> limiter_tokens l + limiter_max_pps l * ((T - limiter_start l) div 1000)"
      using Cons.IH[of ?l] Cons.prems(2) l roll by simp
    moreover have "limiter_allow now l = (False, ?l)"
      using False by (simp add: limiter_allow_def Let_def)
    ultimately show ?thesis by (simp only: allowed.simps Let_def prod.case if_False)
  qed
qed simp

text \<open>
  Also (Federation.federation_rate_cap). A peer cannot get more than 500 packets of one room through
  in any started second after the limiter was created: by time T at most 500 * ((T - t0) div 1 s + 1).
\<close>

theorem federation_rate_cap:
  assumes "t0 \<le> T" and "\<forall>t \<in> set ts. t \<le> T"
  shows "allowed ts (limiter_new t0 FEDERATION_RATE_LIMIT_PPS) \<le> 500 * ((T - t0) div 1000 + 1)"
  using allowed_bound[of "limiter_new t0 500" ts T] assms by (simp add: limiter_new_def)

theorem federation_rate_cap_witness:
  "allowed (replicate 600 10 @ [1500]) (limiter_new 0 500) \<le> 1000"
  using federation_rate_cap[of 0 1500 "replicate 600 10 @ [1500]"] by auto

end
