(* ===== verification/Pipeline.thy ===== *)
theory Pipeline
  imports Packet Jitter Fec Quality
begin

text \<open>
  The media pipeline of a forwarding relay, \<open>crates/wzp-relay/src/pipeline.rs\<close>: packets are
  fed to the FEC decoder, recovered frames go through the jitter buffer and what it plays is
  renumbered and protected again.  The RaptorQ code is the parameter of \<open>Fec\<close>.  The loop that
  empties the jitter buffer is a partial function: \<open>None\<close> is a loop that never ends.
\<close>

section \<open>State\<close>

record PipelineConfig =
  initial_profile :: QualityProfile
  jitter_target :: nat
  jitter_max :: nat
  jitter_min :: nat

definition config_default :: PipelineConfig where
  "config_default =
     \<lparr>initial_profile = GOOD, jitter_target = 50, jitter_max = 250, jitter_min = 25\<rparr>"

record PipelineStats =
  st_received :: nat
  st_forwarded :: nat
  st_fec_recovered :: nat
  st_lost :: nat
  st_profile_changes :: nat

definition pipeline_stats_default :: PipelineStats where
  "pipeline_stats_default =
     \<lparr>st_received = 0, st_forwarded = 0, st_fec_recovered = 0, st_lost = 0, st_profile_changes = 0\<rparr>"

record RelayPipeline =
  fec_encoder :: FecEncoder
  fec_decoder :: FecDecoder
  jitter :: JitterBuffer
  quality :: AdaptiveQualityController
  pl_profile :: QualityProfile
  out_seq :: u32
  pl_stats :: PipelineStats

definition pipeline_new :: "PipelineConfig \<Rightarrow> RelayPipeline" where
  "pipeline_new cfg =
     (let (enc, dec) = create_fec_pair (initial_profile cfg) in
      \<lparr>fec_encoder = enc, fec_decoder = dec,
       jitter = jitter_new (jitter_target cfg) (jitter_max cfg) (jitter_min cfg),
       quality = controller_new, pl_profile = initial_profile cfg, out_seq = 0,
       pl_stats = pipeline_stats_default\<rparr>)"

text \<open>
  The 8-bit ratio of the header.  \<open>round\<close> is to the nearest integer, halves away from zero, and
  the cast to \<open>u8\<close> saturates.
\<close>

definition encode_fec_ratio :: "rat \<Rightarrow> u8" where
  "encode_fec_ratio r = of_nat (min 255 (nat \<lfloor>r * 100 + 1 / 2\<rfloor>))"

definition decode_fec_ratio :: "u8 \<Rightarrow> rat" where
  "decode_fec_ratio w = of_nat (unat w) / 100"

section \<open>Inbound\<close>

definition note_report :: "nat \<Rightarrow> QualityReport option \<Rightarrow> RelayPipeline \<Rightarrow> RelayPipeline" where
  "note_report now report p =
     (case report of None \<Rightarrow> p
      | Some qr \<Rightarrow>
          let (changed, c) = Quality.observe now None qr (quality p); p = p\<lparr>quality := c\<rparr> in
          case changed of None \<Rightarrow> p
          | Some new_profile \<Rightarrow>
              let (enc, dec) = create_fec_pair new_profile in
              p\<lparr>pl_profile := new_profile,
                pl_stats := pl_stats p\<lparr>st_profile_changes := st_profile_changes (pl_stats p) + 1\<rparr>,
                fec_encoder := enc, fec_decoder := dec\<rparr>)"

definition reconstructed :: "MediaHeader \<Rightarrow> nat \<Rightarrow> nat \<Rightarrow> byte list \<Rightarrow> MediaPacket" where
  "reconstructed h fpb i fr =
     \<lparr>header =
        \<lparr>version = 2, flags = 0, media_type = Audio, codec_id = codec_id h, stream_id = 0,
         fec_ratio_wire = fec_ratio_wire h,
         seq = ucast (fec_block h) * of_nat fpb + of_nat i,
         timestamp = timestamp h + of_nat i * of_nat (frame_duration_ms (codec_id h)),
         fec_block = (fec_block h AND 0xFF) OR push_bit 8 (ucast (of_nat i :: u8))\<rparr>,
      payload = fr, quality_report = None\<rparr>"

partial_function (option) drain ::
  "JitterBuffer \<Rightarrow> PipelineStats \<Rightarrow> MediaPacket list \<Rightarrow>
   (MediaPacket list \<times> JitterBuffer \<times> PipelineStats) option" where
  "drain jb st out =
     (let r = jitter_pop jb in
      case fst r of
        PPacket p \<Rightarrow> drain (snd r) (st\<lparr>st_forwarded := st_forwarded st + 1\<rparr>) (out @ [p])
      | Missing s \<Rightarrow> drain (snd r) (st\<lparr>st_lost := st_lost st + 1\<rparr>) out
      | NotReady \<Rightarrow> Some (out, snd r, st))"

definition decode_block :: "fountain \<Rightarrow> nat \<Rightarrow> MediaPacket \<Rightarrow> RelayPipeline \<Rightarrow> RelayPipeline" where
  "decode_block F now pkt p =
     (let h = header pkt;
          d = add_symbol now (fec_block h) (drop_bit 8 (fec_block h)) (payload pkt) (fec_decoder p);
          (frames, d) = try_decode F now (fec_block h) d in
      p\<lparr>fec_decoder := d,
        jitter := (case frames of None \<Rightarrow> jitter p
          | Some frs \<Rightarrow>
              fold (\<lambda>(i, fr). jitter_push now (reconstructed h (frames_per_block (pl_profile p)) i fr))
                (enumerate 0 frs) (jitter p))\<rparr>)"

definition ingest :: "fountain \<Rightarrow> nat \<Rightarrow> MediaPacket \<Rightarrow> RelayPipeline \<Rightarrow> (MediaPacket list \<times> RelayPipeline) option" where
  "ingest F now pkt p =
     (let p = p\<lparr>pl_stats := pl_stats p\<lparr>st_received := st_received (pl_stats p) + 1\<rparr>\<rparr>;
          p = decode_block F now pkt (note_report now (quality_report pkt) p) in
      case drain (jitter p) (pl_stats p) [] of
        None \<Rightarrow> None
      | Some (out, jb, st) \<Rightarrow> Some (out, p\<lparr>jitter := jb, pl_stats := st\<rparr>))"

section \<open>Outbound\<close>

definition repair_packet :: "MediaPacket \<Rightarrow> rat \<Rightarrow> u16 \<Rightarrow> u32 \<Rightarrow> u16 \<times> byte list \<Rightarrow> MediaPacket" where
  "repair_packet pkt ratio blk sq r =
     \<lparr>header =
        \<lparr>version = 2, flags = FLAG_REPAIR, media_type = Audio, codec_id = codec_id (header pkt),
         stream_id = 0, fec_ratio_wire = encode_fec_ratio ratio, seq = sq,
         timestamp = timestamp (header pkt), fec_block = blk OR push_bit 8 (fst r)\<rparr>,
      payload = snd r, quality_report = None\<rparr>"

fun send_repairs :: "MediaPacket \<Rightarrow> rat \<Rightarrow> u16 \<Rightarrow> u32 \<Rightarrow> (u16 \<times> byte list) list \<Rightarrow> MediaPacket list \<times> u32" where
  "send_repairs pkt ratio blk sq [] = ([], sq)"
| "send_repairs pkt ratio blk sq (r # rs) =
     (let (out, sq') = send_repairs pkt ratio blk (sq + 1) rs in
      (repair_packet pkt ratio blk sq r # out, sq'))"

definition prepare_outbound :: "fountain \<Rightarrow> MediaPacket \<Rightarrow> RelayPipeline \<Rightarrow> MediaPacket list \<times> RelayPipeline" where
  "prepare_outbound F pkt p =
     (let pkt = pkt\<lparr>header := (header pkt)\<lparr>seq := out_seq p\<rparr>\<rparr>;
          p = p\<lparr>out_seq := out_seq p + 1\<rparr>;
          p = p\<lparr>fec_encoder := snd (add_source_symbol (payload pkt) (fec_encoder p))\<rparr> in
      if frames_per_block (pl_profile p) \<le> length (source_symbols (fec_encoder p))
      then
        let ratio = fec_ratio (pl_profile p);
            (out, sq) = (case generate_repair F ratio (fec_encoder p) of
               Inl _ \<Rightarrow> ([], out_seq p)
             | Inr repairs \<Rightarrow>
                 send_repairs pkt ratio (Fec.block_id (fec_encoder p)) (out_seq p) repairs) in
        (pkt # out, p\<lparr>out_seq := sq, fec_encoder := snd (finalize_block (fec_encoder p))\<rparr>)
      else ([pkt], p))"

text \<open>What \<open>run_upstream\<close> and \<open>run_downstream\<close> of \<open>main.rs\<close> do with one received packet.\<close>

fun outbound_all :: "fountain \<Rightarrow> MediaPacket list \<Rightarrow> RelayPipeline \<Rightarrow> MediaPacket list \<times> RelayPipeline" where
  "outbound_all F [] p = ([], p)"
| "outbound_all F (q # qs) p =
     (let (out, p) = prepare_outbound F q p; (rest, p) = outbound_all F qs p in (out @ rest, p))"

definition relay_one :: "fountain \<Rightarrow> nat \<Rightarrow> MediaPacket \<Rightarrow> RelayPipeline \<Rightarrow> (MediaPacket list \<times> RelayPipeline) option" where
  "relay_one F now pkt p =
     (case ingest F now pkt p of None \<Rightarrow> None | Some (played, p) \<Rightarrow> Some (outbound_all F played p))"


section \<open>The loop that empties the jitter buffer\<close>

definition pop_ready :: "JitterBuffer \<Rightarrow> bool" where
  "pop_ready jb \<longleftrightarrow>
     jb_initialized jb \<and> (min_depth jb \<le> length (buffer jb) \<or> 0 < packets_played (stats jb))"

lemma pop_not_ready: "\<not> pop_ready jb \<Longrightarrow> jitter_pop jb = (NotReady, jb)"
  by (auto simp: pop_ready_def jitter_pop_def)

lemma pop_ready_again: "pop_ready jb \<Longrightarrow> fst (jitter_pop jb) \<noteq> NotReady \<and> pop_ready (snd (jitter_pop jb))"
  by (auto simp: pop_ready_def jitter_pop_def Let_def split: option.splits)

lemma drain_returns:
  assumes "drain jb st out = Some r"
  shows "\<not> pop_ready jb"
  using assms
proof (rule drain.raw_induct[of "\<lambda>jb st out r. \<not> pop_ready jb", rotated])
  fix f jb st out r
  assume "\<And>jb st out y. f jb st out = Some y \<Longrightarrow> \<not> pop_ready jb"
    and "(let r = jitter_pop jb in case fst r of
        PPacket p \<Rightarrow> f (snd r) (st\<lparr>st_forwarded := st_forwarded st + 1\<rparr>) (out @ [p])
      | Missing s \<Rightarrow> f (snd r) (st\<lparr>st_lost := st_lost st + 1\<rparr>) out
      | NotReady \<Rightarrow> Some (out, snd r, st)) = Some r"
  then show "\<not> pop_ready jb"
    using pop_ready_again[of jb] by (auto simp: Let_def split: PlayoutResult.splits)
qed

lemma drain_exact: "drain jb st out = (if pop_ready jb then None else Some (out, jb, st))"
proof (cases "pop_ready jb")
  case True
  then show ?thesis using drain_returns[of jb st out] by (cases "drain jb st out") auto
next
  case False
  then show ?thesis by (subst drain.simps) (simp add: pop_not_ready)
qed

text \<open>
  Also (the inbound half of a forwarding relay).  Whatever the state of the pipeline and whatever
  the packet, \<open>ingest\<close> either never returns or forwards nothing: once the jitter buffer may play,
  \<open>pop\<close> never answers \<open>NotReady\<close> again, and the loop that empties the buffer ends only on that
  answer.  It returns exactly when the buffer is still filling after the packet was fed in.
\<close>

theorem ingest_hangs_or_forwards_nothing:
  "case ingest F now pkt p of
     None \<Rightarrow> pop_ready (jitter (decode_block F now pkt (note_report now (quality_report pkt)
         (p\<lparr>pl_stats := pl_stats p\<lparr>st_received := st_received (pl_stats p) + 1\<rparr>\<rparr>))))
   | Some (out, p') \<Rightarrow>
       out = [] \<and> \<not> pop_ready (jitter p') \<and> st_forwarded (pl_stats p') = st_forwarded (pl_stats p)"
proof -
  have "st_forwarded (pl_stats (note_report now r p)) = st_forwarded (pl_stats p)"
    "pl_stats (decode_block F now pkt p) = pl_stats p" for r p
    by (simp_all add: note_report_def decode_block_def Let_def case_prod_unfold split: option.split)
  then show ?thesis by (simp add: ingest_def Let_def drain_exact)
qed


section \<open>Forwarding mode\<close>

text \<open>
  Every fountain code needs at least as many distinct encoding symbols as there are source symbols;
  RaptorQ's decoder answers \<open>None\<close> before that.
\<close>

definition rq_needs_all :: "fountain \<Rightarrow> bool" where
  "rq_needs_all F \<longleftrightarrow>
     (\<forall>sbn ss k ps. 0 < ss \<longrightarrow> card (fst ` set ps) < k \<longrightarrow> rq_decode F sbn ss (k * ss) ps = None)"

definition starved_block :: "nat \<Rightarrow> u16 \<Rightarrow> BlockState \<Rightarrow> bool" where
  "starved_block k bid b \<longleftrightarrow>
     num_source_symbols b = Some k \<and> block_symbol_size b = 256 \<and> \<not> decoded b \<and> block_result b = None \<and>
     fst ` set (packets b) \<subseteq> {unat (drop_bit 8 bid)}"

definition starved :: "FecDecoder \<Rightarrow> bool" where
  "starved d \<longleftrightarrow>
     2 \<le> dec_frames_per_block d \<and> dec_symbol_size d = 256 \<and>
     (\<forall>bid b. fec_blocks d bid = Some b \<longrightarrow> starved_block (dec_frames_per_block d) bid b)"

lemma starved_fresh_block:
  "dec_symbol_size d = 256 \<Longrightarrow> starved_block (dec_frames_per_block d) bid (fresh_block d)"
  by (simp add: starved_block_def fresh_block_def)

lemma starved_add:
  assumes "starved d"
  shows "starved (add_symbol now bid (drop_bit 8 bid) x d)"
proof -
  let ?b = "get_or_create_block bid d"
  have b: "starved_block (dec_frames_per_block d) bid ?b"
    using assms starved_fresh_block by (auto simp: get_or_create_block_def starved_def split: option.split)
  then have "\<not> decoded ?b" by (simp add: starved_block_def)
  then show ?thesis
    using assms b by (auto simp: add_symbol_def Let_def starved_def starved_block_def)
qed

lemma starved_decode:
  assumes F: "rq_needs_all F" and d: "starved d"
  shows "try_decode F now bid d = (None, d)"
proof (cases "fec_blocks d bid")
  case (Some b)
  then have b: "starved_block (dec_frames_per_block d) bid b" and k: "2 \<le> dec_frames_per_block d"
    using d by (auto simp: starved_def)
  then have "card (fst ` set (packets b)) \<le> 1"
    using card_mono[of "{unat (drop_bit 8 bid)}"] by (simp add: starved_block_def)
  then have "rq_decode F (sbn_of bid) 256 (dec_frames_per_block d * 256) (packets b) = None"
    using F k by (simp add: rq_needs_all_def)
  then show ?thesis
    using Some b by (simp add: try_decode_def starved_block_def Let_def)
qed (simp add: try_decode_def)

lemma starved_pair: "2 \<le> frames_per_block q \<Longrightarrow> starved (snd (create_fec_pair q))"
  by (simp add: create_fec_pair_def fec_from_profile_def decoder_new_def starved_def)

lemma observe_profile:
  assumes "probe_ok c" and "fst (Quality.observe now bwe r c) = Some q"
  shows "2 \<le> frames_per_block q"
proof -
  have known: "2 \<le> frames_per_block (tier_profile t)" for t
    by (cases t) (simp_all add: profile_defs)
  have "\<not> forced c" using assms(2) by (auto simp: Quality.observe_def Let_def)
  obtain o1 c1 where t: "try_transition bwe (classify_with_context r (network_context c)) (pushed r c) = (o1, c1)"
    by fastforce
  show ?thesis
  proof (cases o1)
    case (Some p)
    with t \<open>\<not> forced c\<close> assms(2) have "q = p" by (simp add: observe_transition)
    then show ?thesis using try_transition_Some t Some known by blast
  next
    case None
    then have "probe c1 = probe c \<or> probe c1 = None"
      using try_transition_None[of bwe _ "pushed r c" c1] t by (auto simp: pushed_simps)
    moreover have "fst (check_probe now (classify_with_context r (network_context c)) c1) = Some q"
      using t None \<open>\<not> forced c\<close> assms(2) by (simp add: observe_probe)
    ultimately show ?thesis
      using known assms(1)
      by (auto simp: check_probe_def continue_probe_def start_probe_def Let_def probe_ok_def
          split: if_splits option.splits) (metis known)+
  qed
qed

definition silent :: "RelayPipeline \<Rightarrow> bool" where
  "silent p \<longleftrightarrow>
     starved (fec_decoder p) \<and> \<not> jb_initialized (jitter p) \<and> controller_ok (quality p)"

lemma silent_note: "silent p \<Longrightarrow> silent (note_report now r p)"
  using observe_ok[of "quality p" now None] observe_profile[of "quality p" now None] starved_pair
  by (auto simp: note_report_def silent_def Let_def case_prod_unfold controller_ok_def
      split: option.split)

lemma silent_decode: "rq_needs_all F \<Longrightarrow> silent p \<Longrightarrow> silent (decode_block F now pkt p)"
  by (simp add: decode_block_def silent_def Let_def starved_add starved_decode)

lemma relay_one_silent:
  assumes "rq_needs_all F" and "silent p"
  shows "\<exists>p'. relay_one F now pkt p = Some ([], p') \<and> silent p'"
proof -
  let ?p = "decode_block F now pkt (note_report now (quality_report pkt)
    (p\<lparr>pl_stats := pl_stats p\<lparr>st_received := st_received (pl_stats p) + 1\<rparr>\<rparr>))"
  have s: "silent ?p" using assms by (intro silent_decode silent_note) (simp_all add: silent_def)
  then have "\<not> pop_ready (jitter ?p)" by (simp add: silent_def pop_ready_def)
  then have "ingest F now pkt p = Some ([], ?p)"
    by (simp add: ingest_def Let_def drain_exact)
  then show ?thesis using s by (simp add: relay_one_def)
qed

text \<open>A forwarding direction over a stream of packets with the times they are received at.\<close>

fun relay_all :: "fountain \<Rightarrow> (nat \<times> MediaPacket) list \<Rightarrow> RelayPipeline \<Rightarrow> (MediaPacket list \<times> RelayPipeline) option" where
  "relay_all F [] p = Some ([], p)"
| "relay_all F ((now, pkt) # es) p =
     (case relay_one F now pkt p of None \<Rightarrow> None
      | Some (out, p) \<Rightarrow>
          (case relay_all F es p of None \<Rightarrow> None
           | Some (rest, p) \<Rightarrow> Some (out @ rest, p)))"

lemma relay_all_silent:
  "rq_needs_all F \<Longrightarrow> silent p \<Longrightarrow> \<exists>p'. relay_all F es p = Some ([], p') \<and> silent p'"
proof (induction es arbitrary: p)
  case (Cons e es)
  obtain now pkt where e: "e = (now, pkt)" by fastforce
  obtain p1 where one: "relay_one F now pkt p = Some ([], p1)" and s: "silent p1"
    using relay_one_silent[OF Cons.prems] by blast
  show ?case using Cons.IH[OF Cons.prems(1) s] by (auto simp: e one)
qed simp

text \<open>
  C40 (a forwarding relay forwards nothing).  Start a pipeline on any profile with at least two
  frames in a block, as all the code's profiles have.  Whatever packets arrive, it returns from
  every one of them and sends none on: the full \<open>fec_block\<close> field, symbol index included, is taken
  for the block number, so no block ever holds two different symbols.
\<close>

theorem forward_mode_is_silent:
  assumes "rq_needs_all F" and "2 \<le> frames_per_block (initial_profile cfg)"
  shows "\<exists>p'. relay_all F es (pipeline_new cfg) = Some ([], p')"
proof -
  have "silent (pipeline_new cfg)"
    using starved_pair[OF assms(2)]
    by (simp add: pipeline_new_def silent_def case_prod_unfold jitter_new_def controller_ok_def
        controller_new_def probe_ok_def Let_def)
  from relay_all_silent[OF assms(1) this] show ?thesis by blast
qed

lemma plain_fountain_needs_all: "rq_needs_all plain_fountain"
proof -
  have "card (fst ` set ps) < k \<Longrightarrow> \<not> {..<k} \<subseteq> fst ` set ps" for k and ps :: "esi_packet list"
    using card_mono[of "fst ` set ps" "{..<k}"] by auto
  then show ?thesis
    unfolding rq_needs_all_def plain_fountain_def by (auto simp: subset_iff Ball_def)
qed

theorem forward_mode_is_silent_witness:
  "rq_needs_all plain_fountain \<and>
   (\<forall>es. \<exists>p'. relay_all plain_fountain es (pipeline_new config_default) = Some ([], p'))"
  using plain_fountain_needs_all forward_mode_is_silent[OF plain_fountain_needs_all, of config_default]
  by (simp add: config_default_def profile_defs)


section \<open>Outbound numbering\<close>

fun seq_from :: "u32 \<Rightarrow> nat \<Rightarrow> u32 list" where
  "seq_from a 0 = []"
| "seq_from a (Suc n) = a # seq_from (a + 1) n"

lemma seq_from_append: "seq_from a (m + n) = seq_from a m @ seq_from (a + of_nat m) n"
  by (induction m arbitrary: a) (simp_all add: algebra_simps)

lemma seq_from_map: "seq_from a n = map (\<lambda>i. a + of_nat i) [0..<n]"
  by (induction n arbitrary: a) (simp_all add: map_upt_Suc algebra_simps o_def del: upt_Suc)

definition numbers :: "u32 \<Rightarrow> MediaPacket list \<Rightarrow> u32 \<Rightarrow> bool" where
  "numbers a out b \<longleftrightarrow> map (seq \<circ> header) out = seq_from a (length out) \<and> b = a + of_nat (length out)"

lemma numbers_append: "numbers a xs b \<Longrightarrow> numbers b ys c \<Longrightarrow> numbers a (xs @ ys) c"
  by (simp add: numbers_def seq_from_append)

lemma numbers_Cons: "seq (header q) = a \<Longrightarrow> numbers (a + 1) qs b \<Longrightarrow> numbers a (q # qs) b"
  by (simp add: numbers_def)

lemma send_repairs_numbers:
  "send_repairs pkt ratio blk sq rs = (out, sq') \<Longrightarrow> numbers sq out sq'"
proof (induction rs arbitrary: sq out)
  case (Cons r rs)
  then show ?case
    by (auto simp: Let_def repair_packet_def case_prod_unfold intro!: numbers_Cons)
qed (simp add: numbers_def)

lemma prepare_outbound_numbers:
  "prepare_outbound F pkt p = (out, p') \<Longrightarrow> numbers (out_seq p) out (out_seq p')"
  by (auto simp: prepare_outbound_def Let_def numbers_def[of _ "[]"] split: prod.splits if_splits sum.splits
      intro!: numbers_Cons dest: send_repairs_numbers)

lemma outbound_all_numbers:
  "outbound_all F qs p = (out, p') \<Longrightarrow> numbers (out_seq p) out (out_seq p')"
proof (induction qs arbitrary: p out)
  case (Cons q qs)
  then show ?case
    by (auto simp: Let_def split: prod.splits intro: numbers_append prepare_outbound_numbers)
qed (simp add: numbers_def)

text \<open>
  Also (outbound packets are numbered without gaps).  Whatever a pipeline sends for a sequence of
  played packets, source and repair packets together carry consecutive sequence numbers from the
  pipeline's counter on, and the counter ends just behind the last of them.
\<close>

theorem outbound_is_consecutive:
  "let (out, p') = outbound_all F pkts p in
   map (seq \<circ> header) out = map (\<lambda>i. out_seq p + of_nat i) [0..<length out] \<and>
   out_seq p' = out_seq p + of_nat (length out)"
  using outbound_all_numbers[of F pkts p]
  by (simp add: numbers_def seq_from_map split: prod.split)

text \<open>
  Also (repair packets after block 255).  The header packs an 8-bit block and an 8-bit symbol; the
  block number is put there unmasked, so from block 256 on its high byte is mixed into the symbol
  index: the repair symbols 5 and 4 of block 256 both claim to be symbol 5 of block 0.
\<close>

lemma repair_ids_collide:
  "fec_block (header (repair_packet pkt ratio 256 sq (5, d))) =
   fec_block (header (repair_packet pkt ratio 256 sq' (4, d')))"
  by (simp add: repair_packet_def)

end
