(* ===== verification/SessionMgr.thy ===== *)
theory SessionMgr
  imports Session Pipeline BTree
begin

text \<open>
  The relay's session manager, \<open>crates/wzp-relay/src/session_mgr.rs\<close>: pipeline sessions of
  forwarding mode and the lightweight sessions of room mode, which share one limit.  The static
  counter of \<open>rand_session_id\<close> is a field of the state, the clock reading mixed into an id is an
  argument.
\<close>

section \<open>State and operations\<close>

type_synonym session_key = "byte list"

datatype TrackedState = TsActive | TsClosing

record SessionInfo =
  info_room :: string
  info_fingerprint :: "string option"
  connected_at :: nat
  info_state :: TrackedState

record RelaySession =
  rs_state :: Session
  upstream_pipeline :: RelayPipeline
  downstream_pipeline :: RelayPipeline
  rs_profile :: QualityProfile
  last_activity_ms :: u64

definition relay_session_new :: "session_key \<Rightarrow> PipelineConfig \<Rightarrow> RelaySession" where
  "relay_session_new sid config =
     \<lparr>rs_state = session_new sid,
      upstream_pipeline = pipeline_new config, downstream_pipeline = pipeline_new config,
      rs_profile = initial_profile config, last_activity_ms = 0\<rparr>"

definition relay_session_is_active :: "RelaySession \<Rightarrow> bool" where
  "relay_session_is_active s = is_media_active (rs_state s)"

record SessionManager =
  sessions :: "(session_key, RelaySession) hashmap"
  tracked :: "(session_key, SessionInfo) hashmap"
  max_sessions :: nat
  id_counter :: u64

definition session_manager_new :: "nat \<Rightarrow> SessionManager" where
  "session_manager_new m = \<lparr>sessions = [], tracked = [], max_sessions = m, id_counter = 1\<rparr>"

definition total_count :: "SessionManager \<Rightarrow> nat" where
  "total_count m = length (sessions m) + length (tracked m)"

definition create_pipeline_session ::
  "session_key \<Rightarrow> PipelineConfig \<Rightarrow> SessionManager \<Rightarrow> RelaySession option \<times> SessionManager" where
  "create_pipeline_session sid config m =
     (if max_sessions m \<le> total_count m then (None, m)
      else
        let m = (case hm_get (sessions m) sid of
               Some _ \<Rightarrow> m
             | None \<Rightarrow> m\<lparr>sessions := hm_insert sid (relay_session_new sid config) (sessions m)\<rparr>) in
        (hm_get (sessions m) sid, m))"

text \<open>\<open>get_session\<close> hands out a mutable reference: the caller's change is the argument.\<close>

definition get_session :: "session_key \<Rightarrow> (RelaySession \<Rightarrow> RelaySession) \<Rightarrow> SessionManager \<Rightarrow> SessionManager" where
  "get_session sid f m = m\<lparr>sessions := hm_adjust sid f (sessions m)\<rparr>"

definition remove_pipeline_session :: "session_key \<Rightarrow> SessionManager \<Rightarrow> RelaySession option \<times> SessionManager" where
  "remove_pipeline_session sid m =
     (hm_get (sessions m) sid, m\<lparr>sessions := hm_remove sid (sessions m)\<rparr>)"

definition pipeline_active_count :: "SessionManager \<Rightarrow> nat" where
  "pipeline_active_count m = length (filter (\<lambda>(_, s). relay_session_is_active s) (sessions m))"

definition expire_idle :: "u64 \<Rightarrow> u64 \<Rightarrow> SessionManager \<Rightarrow> nat \<times> SessionManager" where
  "expire_idle now_ms timeout_ms m =
     (let before = length (sessions m);
          m = m\<lparr>sessions := hm_retain (\<lambda>_ s. sat_sub now_ms (last_activity_ms s) < timeout_ms) (sessions m)\<rparr> in
      (before - length (sessions m), m))"

definition le_bytes :: "u64 \<Rightarrow> byte list" where
  "le_bytes v = map (\<lambda>i. ucast (drop_bit (8 * i) v)) [0..<8]"

definition rand_session_id :: "u64 \<Rightarrow> SessionManager \<Rightarrow> session_key \<times> SessionManager" where
  "rand_session_id nanos m =
     (le_bytes (id_counter m) @ le_bytes nanos, m\<lparr>id_counter := id_counter m + 1\<rparr>)"

text \<open>The error is the limit that its message prints.\<close>

definition create_session ::
  "nat \<Rightarrow> u64 \<Rightarrow> string \<Rightarrow> string option \<Rightarrow> SessionManager \<Rightarrow> (nat + session_key) \<times> SessionManager" where
  "create_session now nanos room fp m =
     (if max_sessions m \<le> total_count m then (Inl (max_sessions m), m)
      else
        let (sid, m) = rand_session_id nanos m in
        (Inr sid, m\<lparr>tracked := hm_insert sid
           \<lparr>info_room = room, info_fingerprint = fp, connected_at = now, info_state = TsActive\<rparr>
           (tracked m)\<rparr>))"

definition remove_session :: "session_key \<Rightarrow> SessionManager \<Rightarrow> SessionManager" where
  "remove_session sid m = m\<lparr>tracked := hm_remove sid (tracked m)\<rparr>"

definition active_count :: "SessionManager \<Rightarrow> nat" where
  "active_count m = length (filter (\<lambda>(_, s). info_state s = TsActive) (tracked m))"

definition sessions_in_room :: "string \<Rightarrow> SessionManager \<Rightarrow> session_key list" where
  "sessions_in_room room m = map fst (filter (\<lambda>(_, i). info_room i = room) (tracked m))"

definition session_info :: "session_key \<Rightarrow> SessionManager \<Rightarrow> SessionInfo option" where
  "session_info sid m = hm_get (tracked m) sid"

section \<open>Histories\<close>

datatype manager_op =
    CreatePipeline session_key PipelineConfig
  | UpdatePipeline session_key "RelaySession \<Rightarrow> RelaySession"
  | RemovePipeline session_key
  | ExpireIdle u64 u64
  | CreateSession nat u64 string "string option"
  | RemoveSession session_key

fun manager_step :: "manager_op \<Rightarrow> SessionManager \<Rightarrow> SessionManager" where
  "manager_step (CreatePipeline sid c) m = snd (create_pipeline_session sid c m)"
| "manager_step (UpdatePipeline sid f) m = get_session sid f m"
| "manager_step (RemovePipeline sid) m = snd (remove_pipeline_session sid m)"
| "manager_step (ExpireIdle now t) m = snd (expire_idle now t m)"
| "manager_step (CreateSession now nanos room fp) m = snd (create_session now nanos room fp m)"
| "manager_step (RemoveSession sid) m = remove_session sid m"

text \<open>The session of the room layer that a step opens, if it opens one.\<close>

fun opened :: "manager_op \<Rightarrow> SessionManager \<Rightarrow> session_key option" where
  "opened (CreateSession now nanos room fp) m =
     (case fst (create_session now nanos room fp m) of Inl _ \<Rightarrow> None | Inr sid \<Rightarrow> Some sid)"
| "opened _ m = None"

fun opened_all :: "manager_op list \<Rightarrow> SessionManager \<Rightarrow> session_key list" where
  "opened_all [] m = []"
| "opened_all (e # es) m =
     (case opened e m of None \<Rightarrow> [] | Some sid \<Rightarrow> [sid]) @ opened_all es (manager_step e m)"

section \<open>Session ids\<close>

lemma le_bytes_inj: "le_bytes v = le_bytes w \<longleftrightarrow> v = w"
proof
  assume e: "le_bytes v = le_bytes w"
  show "v = w"
  proof (rule bit_word_eqI)
    fix n assume n: "n < LENGTH(64)"
    have "le_bytes v ! (n div 8) = le_bytes w ! (n div 8)" using e by simp
    then have "(ucast (drop_bit (8 * (n div 8)) v) :: u8) = ucast (drop_bit (8 * (n div 8)) w)"
      using less_mult_imp_div_less[of n 8 8] n by (simp add: le_bytes_def)
    then have "bit (ucast (drop_bit (8 * (n div 8)) v) :: u8) (n mod 8) =
        bit (ucast (drop_bit (8 * (n div 8)) w) :: u8) (n mod 8)"
      by simp
    then show "bit v n = bit w n" by (simp add: bit_simps)
  qed
qed simp

lemma length_le_bytes [simp]: "length (le_bytes v) = 8"
  by (simp add: le_bytes_def)

section \<open>The limit\<close>

definition manager_inv :: "nat \<Rightarrow> SessionManager \<Rightarrow> bool" where
  "manager_inv k m \<longleftrightarrow>
     max_sessions m = k \<and> total_count m \<le> k \<and> hm_ok (sessions m) \<and> hm_ok (tracked m) \<and>
     hm_all (\<lambda>_ i. info_state i = TsActive) (tracked m)"

lemma length_hm_adjust [simp]: "length (hm_adjust k f m) = length m"
  by (simp add: hm_adjust_def length_hm_insert split: option.split)

lemma length_hm_retain: "length (hm_retain P m) \<le> length m"
  by (simp add: hm_retain_def)

lemma length_hm_remove: "length (hm_remove k m) \<le> length m"
  by (induction m) auto

lemma manager_step_inv: "manager_inv k m \<Longrightarrow> manager_inv k (manager_step e m)"
proof (cases e)
  case (CreatePipeline sid c)
  then show "manager_inv k m \<Longrightarrow> ?thesis"
    by (auto simp: manager_inv_def create_pipeline_session_def total_count_def Let_def
        length_hm_insert hm_ok_insert split: option.split)
next
  case (RemovePipeline sid)
  then show "manager_inv k m \<Longrightarrow> ?thesis"
    using length_hm_remove[of sid "sessions m"]
    by (auto simp: manager_inv_def remove_pipeline_session_def total_count_def hm_ok_remove)
next
  case (ExpireIdle now t)
  then show "manager_inv k m \<Longrightarrow> ?thesis"
    using length_hm_retain[of "\<lambda>_ s. sat_sub now (last_activity_ms s) < t" "sessions m"]
    by (auto simp: manager_inv_def expire_idle_def total_count_def Let_def hm_ok_retain)
next
  case (RemoveSession sid)
  then show "manager_inv k m \<Longrightarrow> ?thesis"
    using length_hm_remove[of sid "tracked m"]
    by (auto simp: manager_inv_def remove_session_def total_count_def hm_ok_remove hm_all_remove)
qed (auto simp: manager_inv_def get_session_def create_session_def rand_session_id_def
    total_count_def length_hm_insert intro: inv_intro)

lemma manager_run_inv: "manager_inv k m \<Longrightarrow> manager_inv k (fold manager_step es m)"
  by (induction es arbitrary: m) (simp_all add: manager_step_inv)

lemma manager_inv_new: "manager_inv k (session_manager_new k)"
  by (simp add: manager_inv_def session_manager_new_def total_count_def)

text \<open>
  Also (the session limit).  After any history of the two layers the sessions of both together never
  exceed the limit, no key is held twice, a new session of either layer is refused exactly when the
  limit is reached, and every session that room mode tracks counts as active.
\<close>

theorem session_limit:
  "let m = fold manager_step es (session_manager_new k) in
     total_count m \<le> k \<and> hm_ok (sessions m) \<and> hm_ok (tracked m) \<and>
     (\<forall>sid c. fst (create_pipeline_session sid c m) = None \<longleftrightarrow> total_count m = k) \<and>
     (\<forall>now nanos room fp. fst (create_session now nanos room fp m) = Inl k \<longleftrightarrow> total_count m = k) \<and>
     active_count m = length (tracked m)"
proof -
  define m where "m = fold manager_step es (session_manager_new k)"
  have i: "manager_inv k m" unfolding m_def by (rule manager_run_inv) (rule manager_inv_new)
  then have a: "\<forall>x \<in> set (tracked m). info_state (snd x) = TsActive"
    by (auto simp: manager_inv_def hm_all_def hm_ok_def)
  have "active_count m = length (tracked m)"
    unfolding active_count_def using a by (intro arg_cong[where f = length] filter_True) auto
  then show ?thesis
    using i unfolding m_def[symmetric]
    by (auto simp: manager_inv_def create_pipeline_session_def create_session_def Let_def
        rand_session_id_def split: option.split)
qed

lemma opened_fresh:
  "opened e m = Some sid \<Longrightarrow> take 8 sid = le_bytes (id_counter m) \<and>
     id_counter (manager_step e m) = id_counter m + 1"
  by (cases e) (auto simp: create_session_def rand_session_id_def split: if_splits)

lemma opened_none: "opened e m = None \<Longrightarrow> id_counter (manager_step e m) = id_counter m"
  by (cases e) (auto simp: create_session_def rand_session_id_def create_pipeline_session_def Let_def
      get_session_def remove_pipeline_session_def expire_idle_def remove_session_def
      split: if_splits option.splits)

lemma opened_all_ids:
  "map (take 8) (opened_all es m) =
     map (\<lambda>i. le_bytes (id_counter m + of_nat i)) [0..<length (opened_all es m)]"
proof (induction es arbitrary: m)
  case (Cons e es)
  show ?case
  proof (cases "opened e m")
    case None
    then show ?thesis using Cons.IH[of "manager_step e m"] opened_none[of e m] by simp
  next
    case (Some sid)
    then show ?thesis using Cons.IH[of "manager_step e m"] opened_fresh[of e m sid]
      by (simp add: map_upt_Suc algebra_simps o_def del: upt_Suc)
  qed
qed simp

text \<open>
  Also (session ids are never reused).  The room sessions that a manager opens during any history,
  whatever is removed in between and whatever the clock reads, have different ids, as long as
  at most \<open>2^64\<close> of them are opened.
\<close>

theorem session_ids_are_unique:
  assumes "length (opened_all es m) \<le> 2 ^ 64"
  shows "distinct (opened_all es m)"
proof -
  let ?n = "length (opened_all es m)"
  have "distinct (map (\<lambda>i. le_bytes (id_counter m + of_nat i)) [0..<?n])"
  proof (subst distinct_map, intro conjI inj_onI)
    fix i j assume "i \<in> set [0..<?n]" "j \<in> set [0..<?n]"
      and e: "le_bytes (id_counter m + of_nat i) = le_bytes (id_counter m + of_nat j)"
    then have "i < 2 ^ 64" "j < 2 ^ 64" using assms by simp_all
    then have "unat (of_nat i :: u64) = i" "unat (of_nat j :: u64) = j"
      by (simp_all add: unat_of_nat)
    moreover have w: "(of_nat i :: u64) = of_nat j" using e by (simp add: le_bytes_inj)
    ultimately show "i = j" by metis
  qed simp
  then show ?thesis
    by (simp only: opened_all_ids[symmetric] distinct_map)
qed

theorem session_ids_are_unique_witness:
  "distinct (opened_all [CreateSession 0 5 ''a'' None, CreateSession 0 5 ''a'' None]
     (session_manager_new 2)) \<and>
   length (opened_all [CreateSession 0 5 ''a'' None, CreateSession 0 5 ''a'' None]
     (session_manager_new 2)) = 2"
proof -
  let ?es = "[CreateSession 0 5 ''a'' None, CreateSession 0 5 ''a'' None]"
  have "length (opened_all ?es (session_manager_new 2)) = 2"
    by (simp add: create_session_def rand_session_id_def session_manager_new_def total_count_def)
  then show ?thesis using session_ids_are_unique[of ?es "session_manager_new 2"] by simp
qed

end
