(* ===== verification/AudioRing.thy ===== *)
theory AudioRing
  imports Prelude
begin

text \<open>
  The lock-free sample ring between the audio callback and the codec thread,
  \<open>crates/wzp-client/src/audio_ring.rs\<close> (the copy in \<open>crates/wzp-android\<close> differs only in
  comments and \<open>free_space\<close>).  First the operations as a whole, then the same operations cut into
  their single loads, copies and stores, so that the two threads interleave.  Positions are 64-bit
  words; the orderings of the atomics make every load see the latest published cursor.
\<close>

section \<open>Whole operations\<close>

abbreviation (input) RING_CAPACITY :: nat where "RING_CAPACITY \<equiv> 16384"
abbreviation (input) RING_CAPACITY_W :: u64 where "RING_CAPACITY_W \<equiv> 16384"
abbreviation (input) RING_MASK :: u64 where "RING_MASK \<equiv> 16383"

type_synonym i16 = "16 word"

record AudioRing =
  buf :: "i16 list"
  write_pos :: u64
  read_pos :: u64
  overflow_count :: u64
  underrun_count :: u64

definition ring_new :: AudioRing where
  "ring_new =
     \<lparr>buf = replicate RING_CAPACITY 0, write_pos = 0, read_pos = 0, overflow_count = 0, underrun_count = 0\<rparr>"

definition available :: "AudioRing \<Rightarrow> nat" where
  "available r = min (unat (write_pos r - read_pos r)) RING_CAPACITY"

definition free_space :: "AudioRing \<Rightarrow> nat" where
  "free_space r = RING_CAPACITY - available r"

definition slot :: "u64 \<Rightarrow> nat \<Rightarrow> nat" where
  "slot pos i = unat ((pos + of_nat i) AND RING_MASK)"

definition write_samples :: "u64 \<Rightarrow> i16 list \<Rightarrow> i16 list \<Rightarrow> i16 list" where
  "write_samples w samples b = fold (\<lambda>i b. b[slot w i := samples ! i]) [0..<length samples] b"

definition ring_write :: "i16 list \<Rightarrow> AudioRing \<Rightarrow> nat \<times> AudioRing" where
  "ring_write samples r =
     (let count = min (length samples) RING_CAPACITY in
      (count, r\<lparr>buf := write_samples (write_pos r) (take count samples) (buf r),
                write_pos := write_pos r + of_nat count\<rparr>))"

text \<open>\<open>read\<close> into a slice of length \<open>n\<close>: the samples it fills in.\<close>

definition ring_read :: "nat \<Rightarrow> AudioRing \<Rightarrow> i16 list \<times> AudioRing" where
  "ring_read n rg =
     (let w = write_pos rg; r = read_pos rg; avail = w - r;
          lapped = (RING_CAPACITY_W < avail);
          r = (if lapped then w - RING_CAPACITY_W else r);
          avail = (if lapped then RING_CAPACITY_W else avail);
          rg = (if lapped then rg\<lparr>overflow_count := overflow_count rg + 1\<rparr> else rg);
          count = min n (unat avail) in
      if count = 0
      then ([], if w = r then rg\<lparr>underrun_count := underrun_count rg + 1\<rparr> else rg)
      else (map (\<lambda>i. buf rg ! slot r i) [0..<count], rg\<lparr>read_pos := r + of_nat count\<rparr>))"

section \<open>The specification: a bounded queue that forgets its oldest samples\<close>

definition queue_write :: "i16 list \<Rightarrow> i16 list \<Rightarrow> nat \<times> i16 list" where
  "queue_write samples q =
     (let new = take RING_CAPACITY samples; q = q @ new in
      (length new, drop (length q - RING_CAPACITY) q))"

definition queue_read :: "nat \<Rightarrow> i16 list \<Rightarrow> i16 list \<times> i16 list" where
  "queue_read n q = (take n q, drop n q)"

datatype ring_op = Write "i16 list" | Read nat

datatype ring_result = Wrote nat | Got "i16 list"

fun ring_step :: "ring_op \<Rightarrow> AudioRing \<Rightarrow> ring_result \<times> AudioRing" where
  "ring_step (Write s) r = map_prod Wrote id (ring_write s r)"
| "ring_step (Read n) r = map_prod Got id (ring_read n r)"

fun queue_step :: "ring_op \<Rightarrow> i16 list \<Rightarrow> ring_result \<times> i16 list" where
  "queue_step (Write s) q = map_prod Wrote id (queue_write s q)"
| "queue_step (Read n) q = map_prod Got id (queue_read n q)"

fun results :: "(ring_op \<Rightarrow> 's \<Rightarrow> ring_result \<times> 's) \<Rightarrow> ring_op list \<Rightarrow> 's \<Rightarrow> ring_result list" where
  "results f [] s = []"
| "results f (e # es) s = (let (r, s) = f e s in r # results f es s)"

text \<open>How many samples a history offers.\<close>

fun offered :: "ring_op list \<Rightarrow> nat" where
  "offered [] = 0"
| "offered (Write s # es) = length s + offered es"
| "offered (Read n # es) = offered es"

section \<open>Slots\<close>

lemma and_ring_mask: "unat ((x :: u64) AND RING_MASK) = unat x mod RING_CAPACITY"
proof -
  have "x AND RING_MASK = take_bit 14 x"
    by (simp add: take_bit_eq_mask mask_eq_exp_minus_1)
  then show ?thesis by (simp only: unsigned_take_bit_eq) (simp add: take_bit_eq_mod)
qed

lemma slot_mod:
  assumes "p < 2 ^ 64" and "p mod RING_CAPACITY = q mod RING_CAPACITY"
  shows "slot (of_nat p) i = (q + i) mod RING_CAPACITY"
proof -
  have "unat (of_nat p + of_nat i :: u64) mod RING_CAPACITY = (p + i) mod 2 ^ 64 mod RING_CAPACITY"
    by (simp add: of_nat_add[symmetric] unat_of_nat del: of_nat_add)
  also have "\<dots> = (p + i) mod RING_CAPACITY" by (simp add: mod_mod_cancel)
  also have "\<dots> = (q + i) mod RING_CAPACITY" using assms(2) by (metis mod_add_left_eq)
  finally show ?thesis by (simp add: slot_def and_ring_mask)
qed


text \<open>The buffer holds the last \<open>RING_CAPACITY\<close> samples of a history.\<close>

definition holds :: "i16 list \<Rightarrow> i16 list \<Rightarrow> bool" where
  "holds b H \<longleftrightarrow> length b = RING_CAPACITY \<and>
     (\<forall>j < length H. length H - RING_CAPACITY \<le> j \<longrightarrow> b ! (j mod RING_CAPACITY) = H ! j)"

lemma near_slots_differ:
  fixes j k :: nat
  assumes "j < k" and "k < j + RING_CAPACITY"
  shows "j mod RING_CAPACITY \<noteq> k mod RING_CAPACITY"
proof
  assume "j mod RING_CAPACITY = k mod RING_CAPACITY"
  then have "RING_CAPACITY dvd k - j" using assms(1) by (simp add: mod_eq_dvd_iff_nat[symmetric])
  then show False using assms by (auto dest: dvd_imp_le)
qed

lemma holds_store: "holds b H \<Longrightarrow> holds (b[length H mod RING_CAPACITY := x]) (H @ [x])"
proof -
  assume h: "holds b H"
  have "b[length H mod RING_CAPACITY := x] ! (j mod RING_CAPACITY) = (H @ [x]) ! j"
    if "j < length (H @ [x])" "length (H @ [x]) - RING_CAPACITY \<le> j" for j
  proof (cases "j = length H")
    case True
    then show ?thesis using h by (simp add: holds_def)
  next
    case False
    then have "j < length H" "length H < j + RING_CAPACITY" using that by auto
    then show ?thesis using h near_slots_differ[of j "length H"] by (simp add: holds_def nth_append)
  qed
  then show ?thesis using h by (simp add: holds_def)
qed

lemma write_samples_Nil [simp]: "write_samples w [] b = b"
  by (simp add: write_samples_def)

lemma write_samples_snoc:
  "write_samples w (s @ [x]) b = (write_samples w s b)[slot w (length s) := x]"
proof -
  have "fold (\<lambda>i b. b[slot w i := (s @ [x]) ! i]) [0..<length s] b =
      fold (\<lambda>i b. b[slot w i := s ! i]) [0..<length s] b"
    by (rule fold_cong) (auto simp: nth_append)
  then show ?thesis by (simp add: write_samples_def)
qed

lemma holds_write:
  assumes "holds b H" and "length H < 2 ^ 64"
  shows "holds (write_samples (of_nat (length H)) s b) (H @ s)"
proof (induction s rule: rev_induct)
  case (snoc x s)
  have "slot (of_nat (length H)) (length s) = length (H @ s) mod RING_CAPACITY"
    using slot_mod[OF assms(2) refl] by simp
  then show ?case using holds_store[OF snoc, of x] by (simp add: write_samples_snoc)
qed (use assms in simp)

section \<open>The ring is the bounded queue\<close>

definition ring_rep :: "i16 list \<Rightarrow> nat \<Rightarrow> AudioRing \<Rightarrow> bool" where
  "ring_rep H r rg \<longleftrightarrow> holds (buf rg) H \<and> write_pos rg = of_nat (length H) \<and> read_pos rg = of_nat r \<and>
     r \<le> length H \<and> length H < 2 ^ 64"

definition unread :: "i16 list \<Rightarrow> nat \<Rightarrow> i16 list" where
  "unread H r = drop (max r (length H - RING_CAPACITY)) H"

lemma ring_rep_new: "ring_rep [] 0 ring_new"
  by (simp add: ring_rep_def ring_new_def holds_def)

lemma unat_pos_diff: "r \<le> n \<Longrightarrow> n < 2 ^ 64 \<Longrightarrow> unat (of_nat n - of_nat r :: u64) = n - r"
  by (simp add: of_nat_diff[symmetric] unat_of_nat del: of_nat_diff)

lemma drop_to_capacity: "drop (length (drop m xs) - k) (drop m xs) = drop (max m (length xs - k)) xs"
proof -
  have "length xs - m - k + m = max m (length xs - k) \<or> length xs \<le> m" by auto
  then show ?thesis by auto
qed

lemma ring_write_step:
  assumes "ring_rep H r rg" and "length H + length s < 2 ^ 64" and "ring_write s rg = (n, rg')"
  shows "ring_rep (H @ take RING_CAPACITY s) r rg'"
    and "queue_write s (unread H r) = (n, unread (H @ take RING_CAPACITY s) r)"
proof -
  let ?new = "take RING_CAPACITY s"
  have n: "take (min (length s) RING_CAPACITY) s = ?new" by (simp add: min_def)
  have "length (H @ ?new) < 2 ^ 64" using assms(2) by simp
  then show "ring_rep (H @ ?new) r rg'"
    using assms holds_write[of "buf rg" H ?new] by (auto simp: ring_rep_def ring_write_def Let_def n)
  let ?m = "max r (length H - RING_CAPACITY)"
  have m: "?m \<le> length H" using assms(1) by (simp add: ring_rep_def)
  have "unread H r @ ?new = drop ?m (H @ ?new)" using m by (simp add: unread_def)
  moreover have "max ?m (length (H @ ?new) - RING_CAPACITY) = max r (length (H @ ?new) - RING_CAPACITY)"
    by auto
  ultimately have "snd (queue_write s (unread H r)) = unread (H @ ?new) r"
    by (simp only: queue_write_def Let_def snd_conv drop_to_capacity) (simp only: unread_def)
  moreover have "fst (queue_write s (unread H r)) = n"
    using assms(3) by (auto simp: queue_write_def ring_write_def Let_def)
  ultimately show "queue_write s (unread H r) = (n, unread (H @ ?new) r)"
    by (simp add: prod_eq_iff)
qed

lemma ring_read_step:
  assumes "ring_rep H r rg" and "ring_read n rg = (out, rg')"
  shows "\<exists>r'. ring_rep H r' rg' \<and> queue_read n (unread H r) = (out, unread H r')"
proof -
  let ?L = "length H"
  define m where "m = max r (?L - RING_CAPACITY)"
  have H: "holds (buf rg) H" and w: "write_pos rg = of_nat ?L" and r: "read_pos rg = of_nat r"
    and le: "r \<le> ?L" "?L < 2 ^ 64" using assms(1) by (simp_all add: ring_rep_def)
  have m': "m = (if RING_CAPACITY < ?L - r then ?L - RING_CAPACITY else r)" by (auto simp: m_def)
  have m: "m \<le> ?L" "?L - m \<le> RING_CAPACITY" "m < 2 ^ 64" using le by (auto simp: m_def)
  have av: "unat (of_nat ?L - of_nat r :: u64) = ?L - r" using unat_pos_diff le by blast
  have lap: "RING_CAPACITY_W < of_nat ?L - (of_nat r :: u64) \<longleftrightarrow> RING_CAPACITY < ?L - r"
    by (simp add: word_less_nat_alt av)
  define rg1 where "rg1 = (if RING_CAPACITY < ?L - r then rg\<lparr>overflow_count := overflow_count rg + 1\<rparr> else rg)"
  have rg1_buf: "buf rg1 = buf rg" by (simp add: rg1_def)
  have rg1: "ring_rep H r rg1" using assms(1) by (simp add: rg1_def ring_rep_def)
  have mw: "(if RING_CAPACITY < ?L - r then of_nat ?L - RING_CAPACITY_W else of_nat r) = of_nat m"
    using le m' by (simp add: of_nat_diff)
  have aw: "unat (if RING_CAPACITY < ?L - r then RING_CAPACITY_W else of_nat ?L - of_nat r) = ?L - m"
    using av le by (simp add: m')
  have samples: "map (\<lambda>i. buf rg ! slot (of_nat m) i) [0..<k] = take k (drop m H)" if "k \<le> ?L - m" for k
  proof (rule nth_equalityI)
    fix i assume "i < length (map (\<lambda>i. buf rg ! slot (of_nat m) i) [0..<k])"
    then have "i < k" by simp
    then have "?L - RING_CAPACITY \<le> m + i" "m + i < ?L" using m that by (auto simp: m_def)
    then have "buf rg ! ((m + i) mod RING_CAPACITY) = H ! (m + i)" using H by (simp add: holds_def)
    moreover have "slot (of_nat m) i = (m + i) mod RING_CAPACITY" by (rule slot_mod[OF m(3) refl])
    ultimately show "map (\<lambda>i. buf rg ! slot (of_nat m) i) [0..<k] ! i = take k (drop m H) ! i"
      using \<open>i < k\<close> m(1) by simp
  qed (use that in simp)
  have un: "unread H r = drop m H" by (simp add: unread_def m_def)
  have read: "ring_read n rg =
      (let count = min n (?L - m) in
       if count = 0 then ([], if of_nat ?L = (of_nat m :: u64) then rg1\<lparr>underrun_count := underrun_count rg1 + 1\<rparr> else rg1)
       else (take count (drop m H), rg1\<lparr>read_pos := of_nat m + of_nat count\<rparr>))"
    using samples[of "min n (?L - m)"]
    unfolding ring_read_def Let_def w r lap mw aw rg1_def[symmetric]
    by (simp only: rg1_buf split: if_split)
  show ?thesis
  proof (cases "min n (?L - m) = 0")
    case True
    then have "drop n (drop m H) = drop m H" "take n (drop m H) = []"
      by (auto simp: min_def split: if_splits)
    with True have "out = []" "ring_rep H r rg'" "queue_read n (unread H r) = ([], unread H r)"
      using assms(2) read rg1 by (auto simp: ring_rep_def queue_read_def un)
    then show ?thesis by blast
  next
    case False
    define k where "k = min n (?L - m)"
    have k: "k \<noteq> 0" "k \<le> ?L - m" using False by (auto simp: k_def)
    have "(out, rg') = (take k (drop m H), rg1\<lparr>read_pos := of_nat m + of_nat k\<rparr>)"
      using k(1) assms(2) read unfolding k_def[symmetric] Let_def by simp
    then have o: "out = take k (drop m H)" "rg' = rg1\<lparr>read_pos := of_nat m + of_nat k\<rparr>" by simp_all
    have "ring_rep H (m + k) rg'" using rg1 k m(1) by (simp add: ring_rep_def o)
    moreover have "max (m + k) (?L - RING_CAPACITY) = m + k" using m' by auto
    then have "unread H (m + k) = drop n (drop m H)"
      by (auto simp: unread_def k_def min_def add.commute)
    then have "queue_read n (unread H r) = (out, unread H (m + k))"
      by (auto simp: un queue_read_def o k_def min_def)
    ultimately show ?thesis by blast
  qed
qed

lemma ring_results:
  "ring_rep H r rg \<Longrightarrow> length H + offered es < 2 ^ 64 \<Longrightarrow>
   results ring_step es rg = results queue_step es (unread H r)"
proof (induction es arbitrary: H r rg)
  case (Cons e es)
  show ?case
  proof (cases e)
    case (Write s)
    obtain n rg' where w: "ring_write s rg = (n, rg')" by fastforce
    have "length H + length s < 2 ^ 64" using Cons.prems(2) Write by simp
    note step = ring_write_step[OF Cons.prems(1) this w]
    have "length (H @ take RING_CAPACITY s) + offered es < 2 ^ 64" using Cons.prems(2) Write by simp
    from Cons.IH[OF step(1) this] show ?thesis by (simp add: Write w step(2))
  next
    case (Read n)
    obtain out rg' where rd: "ring_read n rg = (out, rg')" by fastforce
    obtain r' where r': "ring_rep H r' rg'" "queue_read n (unread H r) = (out, unread H r')"
      using ring_read_step[OF Cons.prems(1) rd] by blast
    show ?thesis using Cons.IH[OF r'(1)] Cons.prems(2) by (simp add: Read rd r'(2))
  qed
qed simp

text \<open>
  C35 (the sample ring is a bounded queue).  For every sequence of writes and reads of any sizes, one
  at a time, the ring gives the same answers as a queue that keeps the last \<open>RING_CAPACITY\<close> samples:
  a writer that laps the reader costs the reader its oldest samples and nothing else.  A single
  write takes at most the first \<open>RING_CAPACITY\<close> samples it is given.
\<close>

theorem ring_is_bounded_queue:
  assumes "offered es < 2 ^ 64"
  shows "results ring_step es ring_new = results queue_step es []"
  using ring_results[OF ring_rep_new, of es] assms by (simp add: unread_def)

theorem ring_is_bounded_queue_witness:
  "results ring_step [Write [1, 2, 3], Read 2, Read 5, Read 1] ring_new =
   [Wrote 3, Got [1, 2], Got [3], Got []]"
  using ring_is_bounded_queue[of "[Write [1, 2, 3], Read 2, Read 5, Read 1]"]
  by (simp add: queue_write_def queue_read_def)


section \<open>Two threads\<close>

text \<open>
  A turn of the producer or the consumer is its next atomic step: load the cursors and begin (with
  the argument the turn carries), copy one sample, or publish the cursor at the end.  \<open>written\<close> and
  \<open>delivered\<close> record the samples of the writes begun and the result of every read that returned.
\<close>

datatype producer = PIdle | PCopying "i16 list" nat

datatype consumer = CIdle | CCopying u64 nat "i16 list"

record ring_threads =
  ring :: AudioRing
  producer :: producer
  consumer :: consumer
  written :: "i16 list"
  delivered :: "i16 list list"

definition threads_new :: ring_threads where
  "threads_new = \<lparr>ring = ring_new, producer = PIdle, consumer = CIdle, written = [], delivered = []\<rparr>"

datatype turn = Producer "i16 list" | Consumer nat

definition producer_turn :: "i16 list \<Rightarrow> ring_threads \<Rightarrow> ring_threads" where
  "producer_turn samples t =
     (case producer t of
        PIdle \<Rightarrow>
          let s = take RING_CAPACITY samples in
          t\<lparr>producer := PCopying s 0, written := written t @ s\<rparr>
      | PCopying s i \<Rightarrow>
          if i < length s
          then t\<lparr>producer := PCopying s (i + 1),
                 ring := (ring t)\<lparr>buf := (buf (ring t))[slot (write_pos (ring t)) i := s ! i]\<rparr>\<rparr>
          else t\<lparr>producer := PIdle,
                 ring := (ring t)\<lparr>write_pos := write_pos (ring t) + of_nat (length s)\<rparr>\<rparr>)"

definition consumer_turn :: "nat \<Rightarrow> ring_threads \<Rightarrow> ring_threads" where
  "consumer_turn n t =
     (case consumer t of
        CIdle \<Rightarrow>
          (let rg = ring t; w = write_pos rg; r = read_pos rg; avail = w - r;
               lapped = (RING_CAPACITY_W < avail);
               r = (if lapped then w - RING_CAPACITY_W else r);
               avail = (if lapped then RING_CAPACITY_W else avail);
               rg = (if lapped then rg\<lparr>overflow_count := overflow_count rg + 1\<rparr> else rg);
               count = min n (unat avail) in
           if count = 0
           then t\<lparr>ring := if w = r then rg\<lparr>underrun_count := underrun_count rg + 1\<rparr> else rg,
                  delivered := delivered t @ [[]]\<rparr>
           else t\<lparr>ring := rg, consumer := CCopying r count []\<rparr>)
      | CCopying r count out \<Rightarrow>
          if length out < count
          then t\<lparr>consumer := CCopying r count (out @ [buf (ring t) ! slot r (length out)])\<rparr>
          else t\<lparr>consumer := CIdle, ring := (ring t)\<lparr>read_pos := r + of_nat count\<rparr>,
                 delivered := delivered t @ [out]\<rparr>)"

fun ring_turn :: "turn \<Rightarrow> ring_threads \<Rightarrow> ring_threads" where
  "ring_turn (Producer s) = producer_turn s"
| "ring_turn (Consumer n) = consumer_turn n"

text \<open>A run in which no write begins that is larger than the space free at that moment.\<close>

fun well_paced :: "turn list \<Rightarrow> ring_threads \<Rightarrow> bool" where
  "well_paced [] t \<longleftrightarrow> True"
| "well_paced (Producer s # ts) t \<longleftrightarrow>
     (producer t = PIdle \<longrightarrow> length s \<le> free_space (ring t)) \<and> well_paced ts (producer_turn s t)"
| "well_paced (Consumer n # ts) t \<longleftrightarrow> well_paced ts (consumer_turn n t)"

text \<open>
  The invariant of a paced run: \<open>H\<close> is what is published, \<open>i\<close> samples of the current write are
  stored beyond it, \<open>r\<close> samples have been read.
\<close>

definition paced_inv :: "i16 list \<Rightarrow> nat \<Rightarrow> ring_threads \<Rightarrow> bool" where
  "paced_inv H r t \<longleftrightarrow>
     r \<le> length H \<and> write_pos (ring t) = of_nat (length H) \<and> read_pos (ring t) = of_nat r \<and>
     overflow_count (ring t) = 0 \<and> concat (delivered t) = take r H \<and> length (written t) < 2 ^ 64 \<and>
     (case producer t of
        PIdle \<Rightarrow> written t = H \<and> holds (buf (ring t)) H \<and> length H - r \<le> RING_CAPACITY
      | PCopying s i \<Rightarrow> written t = H @ s \<and> i \<le> length s \<and> holds (buf (ring t)) (H @ take i s) \<and>
          length H + length s - r \<le> RING_CAPACITY) \<and>
     (case consumer t of
        CIdle \<Rightarrow> True
      | CCopying p count out \<Rightarrow> p = of_nat r \<and> r + count \<le> length H \<and> length out \<le> count \<and>
          out = take (length out) (drop r H))"

lemma paced_new: "paced_inv [] 0 threads_new"
  by (simp add: paced_inv_def threads_new_def ring_new_def holds_def)

lemma free_space_exact:
  assumes "write_pos rg = of_nat n" and "read_pos rg = of_nat r" and "r \<le> n" and "n < 2 ^ 64"
  shows "free_space rg = RING_CAPACITY - (n - r)"
  using assms unat_pos_diff[of r n] by (auto simp: free_space_def available_def min_def)

lemma paced_producer:
  assumes i: "paced_inv H r t" and room: "producer t = PIdle \<Longrightarrow> length s \<le> free_space (ring t)"
    and total: "length (written (producer_turn s t)) < 2 ^ 64"
  shows "\<exists>H'. paced_inv H' r (producer_turn s t)"
proof (cases "producer t")
  case PIdle
  have "length H < 2 ^ 64" "r \<le> length H" using i PIdle by (auto simp: paced_inv_def)
  then have "length s \<le> RING_CAPACITY - (length H - r)"
    using room[OF PIdle] free_space_exact[of "ring t" "length H" r] i by (simp add: paced_inv_def)
  then have "paced_inv H r (producer_turn s t)"
    using i total PIdle by (auto simp: paced_inv_def producer_turn_def Let_def split: consumer.splits)
  then show ?thesis by blast
next
  case (PCopying s' k)
  show ?thesis
  proof (cases "k < length s'")
    case True
    let ?H = "H @ take k s'"
    have "length (written t) = length H + length s'" using i PCopying by (simp add: paced_inv_def)
    then have "length H < 2 ^ 64" using i by (simp add: paced_inv_def)
    then have "slot (of_nat (length H)) k = length ?H mod RING_CAPACITY"
      using slot_mod[of "length H" "length H" k] True by simp
    moreover have "H @ take (Suc k) s' = ?H @ [s' ! k]" using True by (simp add: take_Suc_conv_app_nth)
    ultimately have "paced_inv H r (producer_turn s t)"
      using i PCopying True holds_store[of "buf (ring t)" ?H "s' ! k"]
      by (auto simp: paced_inv_def producer_turn_def split: consumer.splits)
    then show ?thesis by blast
  next
    case False
    then have "paced_inv (H @ s') r (producer_turn s t)"
      using i PCopying by (auto simp: paced_inv_def producer_turn_def split: consumer.splits)
    then show ?thesis by blast
  qed
qed

lemma holds_published:
  assumes "paced_inv H r t" and "r \<le> j" and "j < length H"
  shows "buf (ring t) ! (j mod RING_CAPACITY) = H ! j"
proof (cases "producer t")
  case PIdle
  then show ?thesis using assms by (auto simp: paced_inv_def holds_def)
next
  case (PCopying s i)
  then have "holds (buf (ring t)) (H @ take i s)" "length (H @ take i s) - RING_CAPACITY \<le> j"
    using assms by (auto simp: paced_inv_def)
  then have "buf (ring t) ! (j mod RING_CAPACITY) = (H @ take i s) ! j"
    using assms(3) by (simp add: holds_def)
  then show ?thesis using assms(3) by (simp add: nth_append)
qed

lemma paced_consumer:
  assumes i: "paced_inv H r t"
  shows "\<exists>r'. paced_inv H r' (consumer_turn n t)"
proof -
  have le: "r \<le> length H" "length H < 2 ^ 64" "length H - r \<le> RING_CAPACITY"
    using i by (auto simp: paced_inv_def split: producer.splits)
  show ?thesis
  proof (cases "consumer t")
    case CIdle
    have av: "unat (of_nat (length H) - of_nat r :: u64) = length H - r" using le unat_pos_diff by blast
    then have "\<not> RING_CAPACITY_W < of_nat (length H) - (of_nat r :: u64)"
      using le(3) by (simp add: word_less_nat_alt)
    then have "paced_inv H r (consumer_turn n t)"
      using i CIdle av le by (auto simp: paced_inv_def consumer_turn_def Let_def split: producer.splits)
    then show ?thesis by blast
  next
    case (CCopying p count out)
    then have c: "p = of_nat r" "r + count \<le> length H" "length out \<le> count" "out = take (length out) (drop r H)"
      using i by (simp_all add: paced_inv_def)
    show ?thesis
    proof (cases "length out < count")
      case True
      have "slot p (length out) = (r + length out) mod RING_CAPACITY"
        using slot_mod[of r r "length out"] le c(1) by simp
      then have "buf (ring t) ! slot p (length out) = drop r H ! length out"
        using holds_published[OF i, of "r + length out"] True c(2) by simp
      moreover have "take (Suc (length out)) (drop r H) = take (length out) (drop r H) @ [drop r H ! length out]"
        using True c(2) by (intro take_Suc_conv_app_nth) simp
      ultimately have "paced_inv H r (consumer_turn n t)"
        using i CCopying True c(1-3) c(4)[symmetric]
        by (simp add: paced_inv_def consumer_turn_def split: producer.splits)
      then show ?thesis by blast
    next
      case False
      then have "out = take count (drop r H)" using c(3,4) by simp
      then have "take (r + count) H = take r H @ out" by (simp add: take_add)
      then have "paced_inv H (r + count) (consumer_turn n t)"
        using i CCopying False c by (auto simp: paced_inv_def consumer_turn_def split: producer.splits)
      then show ?thesis by blast
    qed
  qed
qed

lemma written_grows: "\<exists>more. written (fold ring_turn ts t) = written t @ more"
proof (induction ts arbitrary: t)
  case (Cons u ts)
  have "\<exists>more. written (ring_turn u t) = written t @ more"
    by (cases u) (auto simp: producer_turn_def consumer_turn_def Let_def split: producer.split consumer.split)
  then show ?case using Cons.IH[of "ring_turn u t"] by auto
qed simp

lemma paced_run:
  "paced_inv H r t \<Longrightarrow> well_paced ts t \<Longrightarrow> length (written (fold ring_turn ts t)) < 2 ^ 64 \<Longrightarrow>
   \<exists>H' r'. paced_inv H' r' (fold ring_turn ts t)"
proof (induction ts arbitrary: H r t)
  case (Cons u ts)
  have "length (written (ring_turn u t)) < 2 ^ 64"
    using written_grows[of ts "ring_turn u t"] Cons.prems(3) by auto
  then have "\<exists>H' r'. paced_inv H' r' (ring_turn u t)"
    using Cons.prems(1,2) paced_producer[of H r t] paced_consumer[of H r t] by (cases u) (simp, blast)+
  then show ?case using Cons.IH Cons.prems(2,3) by (cases u) auto
qed auto

text \<open>
  Also (concurrent samples arrive in order).  Let the audio callback and the codec thread interleave
  step by step in any way.  If no write is begun that exceeds the free space seen at that moment,
  the results of all reads, put together, are a prefix of what was written, and no overflow is
  ever counted.
\<close>

theorem paced_threads_deliver_in_order:
  assumes "well_paced ts threads_new" and "length (written (fold ring_turn ts threads_new)) < 2 ^ 64"
  shows "let t = fold ring_turn ts threads_new in
    (\<exists>rest. written t = concat (delivered t) @ rest) \<and> overflow_count (ring t) = 0"
proof -
  obtain H r where i: "paced_inv H r (fold ring_turn ts threads_new)"
    using paced_run[OF paced_new assms] by blast
  then have d: "concat (delivered (fold ring_turn ts threads_new)) = take r H"
    and o: "overflow_count (ring (fold ring_turn ts threads_new)) = 0"
    by (simp_all add: paced_inv_def)
  obtain more where "written (fold ring_turn ts threads_new) = H @ more"
    using i by (auto simp: paced_inv_def split: producer.splits)
  then have "written (fold ring_turn ts threads_new) =
      concat (delivered (fold ring_turn ts threads_new)) @ (drop r H @ more)"
    unfolding d by simp
  then show ?thesis unfolding Let_def using o by blast
qed

text \<open>Whole phases of a run.\<close>

lemma producer_copies:
  assumes "producer t = PCopying s 0" and "k \<le> length s"
  shows "fold ring_turn (replicate k (Producer x)) t =
    t\<lparr>producer := PCopying s k, ring := (ring t)\<lparr>buf := write_samples (write_pos (ring t)) (take k s) (buf (ring t))\<rparr>\<rparr>"
  using assms(2)
proof (induction k)
  case 0
  then show ?case using assms(1) by simp
next
  case (Suc k)
  then have "take (Suc k) s = take k s @ [s ! k]" by (simp add: take_Suc_conv_app_nth)
  then show ?case
    using Suc
    by (simp add: replicate_append_same[symmetric] producer_turn_def write_samples_snoc del: replicate_Suc
        flip: replicate_append_same replicate_Suc)
qed

lemma consumer_copies:
  assumes "consumer t = CCopying r count out" and "length out + k \<le> count"
  shows "fold ring_turn (replicate k (Consumer n)) t =
    t\<lparr>consumer := CCopying r count (out @ map (\<lambda>i. buf (ring t) ! slot r (length out + i)) [0..<k])\<rparr>"
  using assms(2)
proof (induction k)
  case 0
  then show ?case using assms(1) by simp
next
  case (Suc k)
  then show ?case
    by (simp add: consumer_turn_def flip: replicate_append_same replicate_Suc)
qed


definition tearing_run :: "i16 list \<Rightarrow> i16 list \<Rightarrow> turn list" where
  "tearing_run s u =
     replicate (RING_CAPACITY + 2) (Producer s) @ [Consumer RING_CAPACITY, Consumer RING_CAPACITY] @
     replicate (RING_CAPACITY + 1) (Producer u) @ replicate RING_CAPACITY (Consumer RING_CAPACITY)"

lemma replicate_Suc_split: "replicate (n + 1) x = x # replicate n x" "replicate (n + 2) x = x # replicate n x @ [x]"
  by (simp_all add: replicate_append_same)

text \<open>
  Also (a lapped read is torn).  Without that pacing the module's claim that no index is accessed by
  both threads at once fails: for any two blocks of a full ring there is an interleaving in which a
  read returns the first sample of the one block followed by samples of the other, which is not even
  published yet, and no overflow is counted.
\<close>

theorem lapped_read_tears:
  assumes s: "length s = RING_CAPACITY" and u: "length u = RING_CAPACITY"
  shows "let t = fold ring_turn (tearing_run s u) threads_new in
    delivered t = [hd s # tl u] \<and> overflow_count (ring t) = 0 \<and>
    write_pos (ring t) = of_nat (length s)"
proof -
  define b1 where "b1 = write_samples 0 s (replicate RING_CAPACITY 0)"
  define b2 where "b2 = write_samples RING_CAPACITY_W u b1"
  have h1: "holds b1 s" using holds_write[of "replicate RING_CAPACITY 0" "[]" s] by (simp add: b1_def holds_def)
  have h2: "holds b2 (s @ u)" using holds_write[OF h1, of u] s by (simp add: b2_def)
  let ?n = "RING_CAPACITY"
  define T1 where "T1 = threads_new\<lparr>producer := PCopying s 0, written := s\<rparr>"
  have p1: "fold ring_turn (replicate (?n + 2) (Producer s)) threads_new =
      threads_new\<lparr>ring := ring_new\<lparr>buf := b1, write_pos := RING_CAPACITY_W\<rparr>, written := s\<rparr>"
  proof -
    have "producer_turn s threads_new = T1"
      using s by (simp add: T1_def producer_turn_def threads_new_def)
    moreover have "fold ring_turn (replicate ?n (Producer s)) T1 =
        T1\<lparr>producer := PCopying s ?n, ring := ring_new\<lparr>buf := b1\<rparr>\<rparr>"
      using producer_copies[of T1 s ?n s] s by (simp add: T1_def threads_new_def ring_new_def b1_def)
    ultimately show ?thesis
      unfolding replicate_Suc_split using s
      by (simp add: T1_def producer_turn_def threads_new_def ring_new_def)
  qed
  define T2 where "T2 = threads_new\<lparr>ring := ring_new\<lparr>buf := b1, write_pos := RING_CAPACITY_W\<rparr>,
      written := s, consumer := CCopying 0 ?n [b1 ! slot 0 0]\<rparr>"
  have p2: "fold ring_turn [Consumer ?n, Consumer ?n]
      (threads_new\<lparr>ring := ring_new\<lparr>buf := b1, write_pos := RING_CAPACITY_W\<rparr>, written := s\<rparr>) = T2"
    by (simp add: T2_def consumer_turn_def threads_new_def ring_new_def Let_def)
  define T3 where "T3 = T2\<lparr>producer := PCopying u 0, written := s @ u\<rparr>"
  have p3: "fold ring_turn (replicate (?n + 1) (Producer u)) T2 =
      T3\<lparr>producer := PCopying u ?n, ring := ring_new\<lparr>buf := b2, write_pos := RING_CAPACITY_W\<rparr>\<rparr>"
  proof -
    have "producer_turn u T2 = T3"
      using u by (simp add: T3_def T2_def producer_turn_def threads_new_def)
    then show ?thesis
      unfolding replicate_Suc_split using producer_copies[of T3 u ?n u] u
      by (simp add: T3_def T2_def threads_new_def ring_new_def b2_def)
  qed
  define out where "out = b1 ! slot 0 0 # map (\<lambda>i. b2 ! slot 0 (Suc i)) [0..<?n - 1]"
  have p4: "fold ring_turn (replicate ?n (Consumer ?n))
      (T3\<lparr>producer := PCopying u ?n, ring := ring_new\<lparr>buf := b2, write_pos := RING_CAPACITY_W\<rparr>\<rparr>) =
      T3\<lparr>producer := PCopying u ?n, consumer := CIdle,
         ring := ring_new\<lparr>buf := b2, write_pos := RING_CAPACITY_W, read_pos := RING_CAPACITY_W\<rparr>,
         delivered := [out]\<rparr>"
  proof -
    let ?T = "T3\<lparr>producer := PCopying u ?n, ring := ring_new\<lparr>buf := b2, write_pos := RING_CAPACITY_W\<rparr>\<rparr>"
    have split: "replicate ?n (Consumer ?n) = replicate (?n - 1) (Consumer ?n) @ [Consumer ?n]"
      using replicate_append_same[of "?n - 1" "Consumer ?n"] replicate_Suc[of "?n - 1" "Consumer ?n"] by simp
    have "fold ring_turn (replicate (?n - 1) (Consumer ?n)) ?T = ?T\<lparr>consumer := CCopying 0 ?n out\<rparr>"
      using consumer_copies[of ?T 0 ?n "[b1 ! slot 0 0]" "?n - 1" ?n]
      by (simp add: T3_def T2_def out_def ring_new_def)
    moreover have "length out = ?n" by (simp add: out_def)
    ultimately show ?thesis
      unfolding split by (simp add: consumer_turn_def T3_def T2_def threads_new_def ring_new_def)
  qed
  have slot0: "slot 0 i = i mod ?n" for i using slot_mod[of 0 0 i] by simp
  have "out = hd s # tl u"
  proof (rule nth_equalityI)
    fix i assume "i < length out"
    then have i: "i < ?n" by (simp add: out_def)
    show "out ! i = (hd s # tl u) ! i"
    proof (cases i)
      case 0
      have "b1 ! 0 = s ! 0" using h1 s unfolding holds_def by (metis le0 mod_0 diff_self_eq_0 zero_less_numeral)
      moreover have "s ! 0 = hd s" using s by (cases s) simp_all
      ultimately show ?thesis using 0 slot0[of 0] by (simp add: out_def)
    next
      case (Suc j)
      have "b2 ! ((?n + i) mod ?n) = (s @ u) ! (?n + i)" 
        using h2 s u i unfolding holds_def by (auto dest!: spec[of _ "?n + i"] simp del: mod_add_self1)
      then have "b2 ! i = u ! i" using i s by (simp add: nth_append)
      then show ?thesis using Suc i u slot0[of i] by (simp add: out_def nth_tl)
    qed
  qed (use u in \<open>simp add: out_def\<close>)
  then show ?thesis
    unfolding tearing_run_def fold_append comp_apply p1 p2 p3 p4 by (simp add: s ring_new_def)
qed

theorem lapped_read_tears_witness:
  "\<exists>ts. delivered (fold ring_turn ts threads_new) = [1 # replicate 16383 2] \<and>
     overflow_count (ring (fold ring_turn ts threads_new)) = 0"
proof -
  have "hd (replicate RING_CAPACITY (1 :: i16)) = 1" "tl (replicate RING_CAPACITY (2 :: i16)) = replicate 16383 2"
    by (simp_all add: hd_replicate)
  then show ?thesis
    using lapped_read_tears[of "replicate RING_CAPACITY 1" "replicate RING_CAPACITY 2"]
    by (auto simp: Let_def)
qed

text \<open>A paced run: three samples written, two copied by the reader while the last is stored.\<close>

definition demo_turns :: "turn list" where
  "demo_turns = [Producer [7], Producer [7], Producer [7], Consumer 4, Producer [8], Consumer 4,
     Producer [8], Consumer 4]"

theorem paced_threads_deliver_in_order_witness:
  "well_paced demo_turns threads_new \<and>
   (\<exists>rest. [7, 8] = concat (delivered (fold ring_turn demo_turns threads_new)) @ rest)"
proof -
  note eval = demo_turns_def producer_turn_def consumer_turn_def threads_new_def ring_new_def Let_def
    free_space_def available_def slot_def
  have w: "well_paced demo_turns threads_new" by (simp add: eval)
  have "written (fold ring_turn demo_turns threads_new) = [7, 8]"
    by (simp add: eval)
  then show ?thesis using w paced_threads_deliver_in_order[OF w] by (simp add: Let_def)
qed

end
