(* ===== verification/Dsp.thy ===== *)
theory Dsp
  imports Prelude Complex_Main
begin

text \<open>
  The signal processing around the codecs, \<open>crates/wzp-codec\<close>: the 48/8 kHz resamplers
  (\<open>resample.rs\<close>), the automatic gain control (\<open>agc.rs\<close>) and the silence detector
  (\<open>silence.rs\<close>).  The code computes in \<open>f64\<close>; the model computes in the reals.
\<close>

type_synonym pcm = "16 word list"

definition sample_of :: "16 word \<Rightarrow> real" where
  "sample_of s = of_int (sint s)"

section \<open>Stateful filters\<close>

text \<open>
  What a stateful sample processor promises its callers: cutting the stream into frames makes no
  difference.  \<open>good\<close> says which frame sizes it takes.
\<close>

locale streaming =
  fixes process :: "'a list \<Rightarrow> 's \<Rightarrow> 'b list \<times> 's"
    and ok :: "'s \<Rightarrow> bool" and good :: "'a list \<Rightarrow> bool"
  assumes process_Nil: "ok s \<Longrightarrow> process [] s = ([], s)"
    and process_append: "ok s \<Longrightarrow> good a \<Longrightarrow>
      process (a @ b) s =
        (fst (process a s) @ fst (process b (snd (process a s))), snd (process b (snd (process a s))))"
    and process_ok: "ok s \<Longrightarrow> ok (snd (process a s))"
begin

fun run_frames :: "'a list list \<Rightarrow> 's \<Rightarrow> 'b list \<times> 's" where
  "run_frames [] s = ([], s)"
| "run_frames (f # fs) s =
     (let (out, s) = process f s; (rest, s) = run_frames fs s in (out @ rest, s))"

lemma run_frames_concat: "ok s \<Longrightarrow> \<forall>f \<in> set fs. good f \<Longrightarrow> run_frames fs s = process (concat fs) s"
proof (induction fs arbitrary: s)
  case (Cons f fs)
  then have "run_frames fs (snd (process f s)) = process (concat fs) (snd (process f s))"
    using process_ok by simp
  then show ?case using process_append[OF Cons.prems(1), of f "concat fs"] Cons.prems(2)
    by (simp add: case_prod_unfold Let_def)
qed (simp add: process_Nil)

end

section \<open>The resampling filter\<close>

abbreviation (input) FIR_TAPS :: nat where "FIR_TAPS \<equiv> 48"
abbreviation (input) RATIO :: nat where "RATIO \<equiv> 6"

text \<open>The power series of the Bessel function: at most 25 terms, cut off once they are negligible.\<close>

fun bessel_terms :: "real \<Rightarrow> nat \<Rightarrow> nat \<Rightarrow> real \<Rightarrow> real \<Rightarrow> real" where
  "bessel_terms half_x 0 k acc term = acc"
| "bessel_terms half_x (Suc n) k acc term =
     (let term = term * ((half_x / real k) * (half_x / real k)); acc = acc + term in
      if term < acc / 10 ^ 12 then acc else bessel_terms half_x n (k + 1) acc term)"

definition bessel_i0 :: "real \<Rightarrow> real" where
  "bessel_i0 x = bessel_terms (x / 2) 25 1 1 1"

definition fir_tap :: "nat \<Rightarrow> real" where
  "fir_tap i =
     (let m = 47; fc = 3800 / 48000; n = real i - m / 2;
          sinc = (if \<bar>n\<bar> < 1 / 10 ^ 12 then 2 * fc else sin (2 * pi * fc * n) / (pi * n));
          t = 2 * real i / m - 1;
          kaiser = bessel_i0 (8 * sqrt (max (1 - t * t) 0)) / bessel_i0 8 in
      sinc * kaiser)"

definition build_fir_kernel :: "real list" where
  "build_fir_kernel =
     (let ker = map fir_tap [0..<FIR_TAPS]; s = sum_list ker in
      if 1 / 10 ^ 15 < \<bar>s\<bar> then map (\<lambda>k. k / s) ker else ker)"

record Resampler =
  kernel :: "real list"
  filter_history :: "real list"

definition resampler_new :: Resampler where
  "resampler_new = \<lparr>kernel = build_fir_kernel, filter_history = replicate (FIR_TAPS - 1) 0\<rparr>"

text \<open>One output of the filter, starting at position \<open>start\<close> of the work buffer.\<close>

definition fir_at :: "real list \<Rightarrow> real list \<Rightarrow> nat \<Rightarrow> real" where
  "fir_at ker work start =
     sum_list (map (\<lambda>k. if start + k < length work then work ! (start + k) * ker ! k else 0) [0..<FIR_TAPS])"

text \<open>\<open>f64::round\<close> takes halves away from zero; the cast follows a clamp to the range of \<open>i16\<close>.\<close>

definition round_away :: "real \<Rightarrow> int" where
  "round_away x = (if 0 \<le> x then \<lfloor>x + 1 / 2\<rfloor> else - \<lfloor>- x + 1 / 2\<rfloor>)"

definition to_sample :: "real \<Rightarrow> 16 word" where
  "to_sample x = of_int (max (- 32768) (min 32767 (round_away x)))"

text \<open>
  The next history is the tail of the work buffer; the code's other branch is for a work buffer
  shorter than the history it starts with, which does not exist.
\<close>

definition next_history :: "real list \<Rightarrow> Resampler \<Rightarrow> Resampler" where
  "next_history work d = d\<lparr>filter_history := drop (length work - length (filter_history d)) work\<rparr>"

definition downsample :: "pcm \<Rightarrow> Resampler \<Rightarrow> pcm \<times> Resampler" where
  "downsample input d =
     (let hist_len = length (filter_history d); work = filter_history d @ map sample_of input in
      (map (\<lambda>i. to_sample (fir_at (kernel d) work (hist_len + i * RATIO + 1 - FIR_TAPS)))
         [0..<length input div RATIO], next_history work d))"

definition stuff :: "pcm \<Rightarrow> real list" where
  "stuff input = concat (map (\<lambda>s. sample_of s # replicate (RATIO - 1) 0) input)"

definition upsample :: "pcm \<Rightarrow> Resampler \<Rightarrow> pcm \<times> Resampler" where
  "upsample input d =
     (let hist_len = length (filter_history d); work = filter_history d @ stuff input in
      (map (\<lambda>i. to_sample (fir_at (kernel d) work (hist_len + i + 1 - FIR_TAPS) * RATIO))
         [0..<length input * RATIO], next_history work d))"

definition resample_48k_to_8k :: "pcm \<Rightarrow> pcm" where
  "resample_48k_to_8k input = fst (downsample input resampler_new)"

definition resample_8k_to_48k :: "pcm \<Rightarrow> pcm" where
  "resample_8k_to_48k input = fst (upsample input resampler_new)"

section \<open>Framing does not matter\<close>

lemma fir_at_drop: "d \<le> length w \<Longrightarrow> fir_at ker (drop d w) s = fir_at ker w (d + s)"
  unfolding fir_at_def by (intro arg_cong[where f = sum_list] map_cong) (auto simp: add.assoc)

lemma fir_at_append: "s + FIR_TAPS \<le> length w \<Longrightarrow> fir_at ker (w @ v) s = fir_at ker w s"
  unfolding fir_at_def by (intro arg_cong[where f = sum_list] map_cong) (auto simp: nth_append)

definition full_history :: "Resampler \<Rightarrow> bool" where
  "full_history d \<longleftrightarrow> length (filter_history d) = FIR_TAPS - 1"

lemma kernel_next [simp]: "kernel (next_history w d) = kernel d"
  by (simp add: next_history_def)

lemma next_history_props:
  assumes "full_history d"
  shows "full_history (next_history (filter_history d @ x) d)"
    and "filter_history (next_history (filter_history d @ x) d) = drop (length x) (filter_history d @ x)"
    and "next_history (filter_history (next_history (filter_history d @ x) d) @ y)
           (next_history (filter_history d @ x) d) = next_history (filter_history d @ x @ y) d"
proof -
  show h: "filter_history (next_history (filter_history d @ x) d) = drop (length x) (filter_history d @ x)"
    by (simp add: next_history_def)
  then show "full_history (next_history (filter_history d @ x) d)"
    using assms by (simp add: full_history_def)
  have "drop (length x) (filter_history d @ x) @ y = drop (length x) (filter_history d @ x @ y)" by simp
  then show "next_history (filter_history (next_history (filter_history d @ x) d) @ y)
      (next_history (filter_history d @ x) d) = next_history (filter_history d @ x @ y) d"
    unfolding h by (simp add: next_history_def add.commute del: drop_append)
qed

text \<open>One filter for both directions: \<open>n\<close> outputs at a stride, over the work buffer.\<close>

definition fir_outputs :: "real list \<Rightarrow> nat \<Rightarrow> real list \<Rightarrow> nat \<Rightarrow> real list" where
  "fir_outputs ker stride work n = map (\<lambda>i. fir_at ker work (i * stride)) [0..<n]"

lemma map_upt_add: "map f [0..<m + n] = map f [0..<m] @ map (\<lambda>i. f (m + i)) [0..<n]"
  by (induction n) simp_all

lemma fir_outputs_append:
  assumes "length h = FIR_TAPS - 1" and "length x = m * stride" and "0 < stride"
  shows "fir_outputs ker stride (h @ x @ y) (m + n) =
    fir_outputs ker stride (h @ x) m @ fir_outputs ker stride (drop (length x) (h @ x) @ y) n"
proof -
  have "fir_at ker (h @ x @ y) (i * stride) = fir_at ker (h @ x) (i * stride)" if "i < m" for i
  proof -
    have "Suc i * stride \<le> m * stride" using that by (intro mult_le_mono1) simp
    then have "i * stride + FIR_TAPS \<le> length (h @ x)" using assms by simp
    then show ?thesis using fir_at_append[of "i * stride" "h @ x" ker y] by simp
  qed
  moreover have "fir_at ker (h @ x @ y) ((m + i) * stride) =
      fir_at ker (drop (length x) (h @ x) @ y) (i * stride)" for i
    using fir_at_drop[of "length x" "h @ x @ y" ker "i * stride"] assms
    by (simp add: algebra_simps)
  ultimately show ?thesis
    unfolding fir_outputs_def map_upt_add by (intro arg_cong2[where f = append] map_cong) simp_all
qed


lemma downsample_fir:
  "full_history d \<Longrightarrow> downsample a d =
     (map to_sample (fir_outputs (kernel d) RATIO (filter_history d @ map sample_of a) (length a div RATIO)),
      next_history (filter_history d @ map sample_of a) d)"
  by (simp add: downsample_def fir_outputs_def full_history_def Let_def)

lemma upsample_fir:
  "full_history d \<Longrightarrow> upsample a d =
     (map (\<lambda>x. to_sample (x * RATIO)) (fir_outputs (kernel d) 1 (filter_history d @ stuff a) (length a * RATIO)),
      next_history (filter_history d @ stuff a) d)"
  by (simp add: upsample_def fir_outputs_def full_history_def Let_def)

lemma length_stuff: "length (stuff a) = length a * RATIO"
  unfolding stuff_def by (induction a) simp_all

lemma stuff_append: "stuff (a @ b) = stuff a @ stuff b"
  by (simp add: stuff_def)

lemma full_history_downsample: "full_history d \<Longrightarrow> full_history (snd (downsample a d))"
  by (simp add: downsample_fir next_history_props)

lemma full_history_upsample: "full_history d \<Longrightarrow> full_history (snd (upsample a d))"
  by (simp add: upsample_fir next_history_props)

lemma empty_history: "full_history d \<Longrightarrow> next_history (filter_history d) d = d"
  by (simp add: next_history_def)

interpretation down: streaming downsample full_history "\<lambda>a. RATIO dvd length a"
proof unfold_locales
  fix d :: Resampler assume d: "full_history d"
  then show "downsample [] d = ([], d)" by (simp add: downsample_fir fir_outputs_def empty_history)
  show "full_history (snd (downsample a d))" for a using d by (rule full_history_downsample)
  fix a b :: pcm assume "RATIO dvd length a"
  then have l: "length (map sample_of a) = length a div RATIO * RATIO"
    "length (a @ b) div RATIO = length a div RATIO + length b div RATIO"
    by (auto elim: dvdE)
  have h: "length (filter_history d) = FIR_TAPS - 1" using d by (simp add: full_history_def)
  show "downsample (a @ b) d =
      (fst (downsample a d) @ fst (downsample b (snd (downsample a d))),
       snd (downsample b (snd (downsample a d))))"
    using fir_outputs_append[OF h l(1) _, of "kernel d" "map sample_of b" "length b div RATIO"] l(2)
      next_history_props[OF d, of "map sample_of a"]
    by (simp add: downsample_fir d)
qed

interpretation up: streaming upsample full_history "\<lambda>_. True"
proof unfold_locales
  fix d :: Resampler assume d: "full_history d"
  then show "upsample [] d = ([], d)" by (simp add: upsample_fir fir_outputs_def stuff_def empty_history)
  show "full_history (snd (upsample a d))" for a using d by (rule full_history_upsample)
  fix a b :: pcm
  have h: "length (filter_history d) = FIR_TAPS - 1" using d by (simp add: full_history_def)
  have l: "length (stuff a) = (length a * RATIO) * 1" by (simp add: length_stuff)
  show "upsample (a @ b) d =
      (fst (upsample a d) @ fst (upsample b (snd (upsample a d))), snd (upsample b (snd (upsample a d))))"
    using fir_outputs_append[OF h l _, of "kernel d" "stuff b" "length b * RATIO"]
      next_history_props[OF d, of "stuff a"]
    by (simp add: upsample_fir d stuff_append algebra_simps)
qed

lemma resampler_new_full: "full_history resampler_new"
  by (simp add: full_history_def resampler_new_def)

text \<open>
  Also (resampling is seamless).  Feeding a stream to the stateful resamplers frame by frame gives the
  very samples that one call on the whole stream gives, for any frames upwards and for frames of a
  multiple of six samples downwards: there is no seam between frames.
\<close>

theorem resampling_is_seamless:
  assumes "\<forall>f \<in> set fs. 6 dvd length f"
  shows "fst (down.run_frames fs resampler_new) = resample_48k_to_8k (concat fs) \<and>
    fst (up.run_frames gs resampler_new) = resample_8k_to_48k (concat gs)"
  using down.run_frames_concat[OF resampler_new_full, of fs] up.run_frames_concat[OF resampler_new_full, of gs]
    assms by (simp add: resample_48k_to_8k_def resample_8k_to_48k_def)

theorem resampling_is_seamless_witness:
  "fst (down.run_frames [[1, 2, 3, 4, 5, 6], [7, 8, 9, 10, 11, 12]] resampler_new) =
     resample_48k_to_8k [1, 2, 3, 4, 5, 6, 7, 8, 9, 10, 11, 12]"
proof -
  have "\<forall>f \<in> set [[1, 2, 3, 4, 5, 6], [7, 8, 9, 10, 11, 12 :: 16 word]]. 6 dvd length f"
    by (auto intro!: dvdI[of _ _ 1])
  from resampling_is_seamless[OF this, of "[]"] show ?thesis
    by (simp only: concat.simps append.simps)
qed

section \<open>Automatic gain control\<close>

record AutoGainControl =
  target_rms :: real
  current_gain :: real
  min_gain :: real
  max_gain :: real
  attack_alpha :: real
  release_alpha :: real
  agc_enabled :: bool

definition agc_new :: AutoGainControl where
  "agc_new =
     \<lparr>target_rms = 3000, current_gain = 1, min_gain = 1 / 2, max_gain = 32, attack_alpha = 3 / 10,
      release_alpha = 2 / 100, agc_enabled = True\<rparr>"

definition rms :: "pcm \<Rightarrow> real" where
  "rms p = (if p = [] then 0 else sqrt (sum_list (map (\<lambda>s. sample_of s * sample_of s) p) / length p))"

text \<open>The cast truncates towards zero.\<close>

definition limited :: "real \<Rightarrow> 16 word \<Rightarrow> 16 word" where
  "limited gain s =
     (let c = max (- 31000) (min 31000 (sample_of s * gain)) in
      of_int (if 0 \<le> c then \<lfloor>c\<rfloor> else - \<lfloor>- c\<rfloor>))"

definition agc_process :: "pcm \<Rightarrow> AutoGainControl \<Rightarrow> pcm \<times> AutoGainControl" where
  "agc_process p a =
     (if \<not> agc_enabled a then (p, a)
      else if rms p < 10 then (p, a)
      else
        let desired = max (min_gain a) (min (max_gain a) (target_rms a / rms p));
            alpha = (if desired < current_gain a then attack_alpha a else release_alpha a);
            a = a\<lparr>current_gain := current_gain a * (1 - alpha) + desired * alpha\<rparr> in
        (map (limited (current_gain a)) p, a))"

definition set_agc_enabled :: "bool \<Rightarrow> AutoGainControl \<Rightarrow> AutoGainControl" where
  "set_agc_enabled e a = a\<lparr>agc_enabled := e\<rparr>"

text \<open>The parameters \<open>new\<close> sets, which nothing changes afterwards.\<close>

definition agc_inv :: "AutoGainControl \<Rightarrow> bool" where
  "agc_inv a \<longleftrightarrow>
     min_gain a = 1 / 2 \<and> max_gain a = 32 \<and> attack_alpha a = 3 / 10 \<and> release_alpha a = 2 / 100 \<and>
     target_rms a = 3000 \<and> 1 / 2 \<le> current_gain a \<and> current_gain a \<le> 32"

lemma convex_between:
  fixes a b t :: real
  assumes "lo \<le> a" "a \<le> hi" "lo \<le> b" "b \<le> hi" "0 \<le> t" "t \<le> 1"
  shows "lo \<le> a * (1 - t) + b * t \<and> a * (1 - t) + b * t \<le> hi"
proof
  have "lo * (1 - t) + lo * t \<le> a * (1 - t) + b * t"
    using assms by (intro add_mono mult_right_mono) simp_all
  then show "lo \<le> a * (1 - t) + b * t" by (simp add: algebra_simps)
  have "a * (1 - t) + b * t \<le> hi * (1 - t) + hi * t"
    using assms by (intro add_mono mult_right_mono) simp_all
  then show "a * (1 - t) + b * t \<le> hi" by (simp add: algebra_simps)
qed

lemma agc_process_inv: "agc_inv a \<Longrightarrow> agc_inv (snd (agc_process p a))"
proof -
  assume a: "agc_inv a"
  let ?d = "max (min_gain a) (min (max_gain a) (target_rms a / rms p))"
  have "1 / 2 \<le> current_gain a * (1 - t) + ?d * t \<and> current_gain a * (1 - t) + ?d * t \<le> 32"
    if "t = 3 / 10 \<or> t = 2 / 100" for t
    using a that by (intro convex_between) (auto simp: agc_inv_def)
  then show ?thesis using a by (auto simp: agc_process_def agc_inv_def Let_def)
qed

lemma limited_bound: "\<bar>sint (limited g s)\<bar> \<le> 31000"
proof -
  define c where "c = max (- 31000) (min 31000 (sample_of s * g))"
  define k where "k = (if 0 \<le> c then \<lfloor>c\<rfloor> else - \<lfloor>- c\<rfloor>)"
  have "- 31000 \<le> c" "c \<le> 31000" by (auto simp: c_def)
  then have "\<lfloor>c\<rfloor> \<le> 31000" "\<lfloor>- c\<rfloor> \<le> 31000" by (simp_all add: floor_le_iff)
  moreover have "if 0 \<le> c then 0 \<le> \<lfloor>c\<rfloor> else 0 \<le> \<lfloor>- c\<rfloor>" by auto
  ultimately have k: "- 31000 \<le> k" "k \<le> 31000" unfolding k_def by (auto simp only: if_True if_False split: if_splits)
  then have "sint (of_int k :: 16 word) = k"
    by (simp add: signed_of_int signed_take_bit_int_eq_self)
  moreover have "limited g s = of_int k" by (simp only: limited_def c_def k_def Let_def)
  ultimately show ?thesis using k by (simp add: abs_le_iff)
qed

text \<open>
  Also (gain control never clips).  After any frames the gain lies between a half and 32, and a frame is
  either passed on unchanged - control off, or the frame nearly silent - or every sample of it is
  within the limit of 31000.
\<close>

theorem agc_never_clips:
  "let a = fold (\<lambda>p a. snd (agc_process p a)) ps agc_new; out = fst (agc_process p a) in
   1 / 2 \<le> current_gain a \<and> current_gain a \<le> 32 \<and>
   (out = p \<and> (\<not> agc_enabled a \<or> rms p < 10) \<or>
    length out = length p \<and> (\<forall>s \<in> set out. \<bar>sint s\<bar> \<le> 31000))"
proof -
  define a where "a = fold (\<lambda>p a. snd (agc_process p a)) ps agc_new"
  have "agc_inv (fold (\<lambda>p a. snd (agc_process p a)) ps b)" if "agc_inv b" for b
    using that by (induction ps arbitrary: b) (simp_all add: agc_process_inv)
  then have "agc_inv a" by (simp add: a_def agc_inv_def agc_new_def)
  then show ?thesis
    unfolding a_def[symmetric] by (auto simp: agc_process_def agc_inv_def Let_def limited_bound)
qed

section \<open>Silence detection\<close>

record SilenceDetector =
  threshold_rms :: real
  hangover_frames :: u32
  silent_frames :: u32
  is_suppressing :: bool

definition detector_new :: "real \<Rightarrow> u32 \<Rightarrow> SilenceDetector" where
  "detector_new t h =
     \<lparr>threshold_rms = t, hangover_frames = h, silent_frames = 0, is_suppressing = False\<rparr>"

definition is_silent :: "pcm \<Rightarrow> SilenceDetector \<Rightarrow> bool \<times> SilenceDetector" where
  "is_silent p d =
     (let energy = rms p;
          d = (if energy < threshold_rms d then
                 let d = d\<lparr>silent_frames := if silent_frames d = - 1 then - 1 else silent_frames d + 1\<rparr> in
                 if hangover_frames d < silent_frames d then d\<lparr>is_suppressing := True\<rparr> else d
               else d\<lparr>silent_frames := 0, is_suppressing := False\<rparr>) in
      (is_suppressing d, d))"

definition trailing_silence :: "real \<Rightarrow> pcm list \<Rightarrow> nat" where
  "trailing_silence t ps = length (takeWhile (\<lambda>p. rms p < t) (rev ps))"

definition detector_run :: "pcm list \<Rightarrow> SilenceDetector \<Rightarrow> SilenceDetector" where
  "detector_run ps d = fold (\<lambda>p d. snd (is_silent p d)) ps d"

lemma detector_run_state:
  assumes "h < 2 ^ 32 - 1"
  shows "let d = detector_run ps (detector_new t (of_nat h)) in
    threshold_rms d = t \<and> hangover_frames d = of_nat h \<and>
    unat (silent_frames d) = min (trailing_silence t ps) (2 ^ 32 - 1) \<and>
    is_suppressing d = (h < trailing_silence t ps)"
proof (induction ps rule: rev_induct)
  case Nil
  then show ?case by (simp add: detector_run_def detector_new_def trailing_silence_def)
next
  case (snoc p ps)
  let ?d = "detector_run ps (detector_new t (of_nat h))"
  have IH: "threshold_rms ?d = t" "hangover_frames ?d = of_nat h"
    "unat (silent_frames ?d) = min (trailing_silence t ps) (2 ^ 32 - 1)"
    "is_suppressing ?d = (h < trailing_silence t ps)"
    using snoc by (simp_all add: Let_def)
  have run: "detector_run (ps @ [p]) (detector_new t (of_nat h)) = snd (is_silent p ?d)"
    by (simp add: detector_run_def)
  let ?n = "if silent_frames ?d = - 1 then - 1 else silent_frames ?d + 1"
  have top: "unat (- 1 :: u32) = 2 ^ 32 - 1" by (simp add: unsigned_minus_1_eq_mask mask_eq_exp_minus_1)
  have n: "unat ?n = min (Suc (trailing_silence t ps)) (2 ^ 32 - 1)"
  proof (cases "silent_frames ?d = - 1")
    case True
    then show ?thesis using IH(3) top by simp
  next
    case False
    then have "1 + silent_frames ?d \<noteq> 0" by (simp add: add_eq_0_iff)
    then have "unat (silent_frames ?d + 1) = Suc (unat (silent_frames ?d))"
      using unatSuc[of "silent_frames ?d"] by (simp add: add.commute)
    moreover have "unat (silent_frames ?d) \<noteq> 2 ^ 32 - 1" 
      using False top word_unat_eq_iff[of "silent_frames ?d" "- 1"] by simp
    ultimately show ?thesis using False IH(3) by auto
  qed
  have h: "unat (of_nat h :: u32) = h" using assms by (simp add: unat_of_nat)
  show ?case
  proof (cases "rms p < t")
    case True
    then have "trailing_silence t (ps @ [p]) = Suc (trailing_silence t ps)"
      by (simp add: trailing_silence_def)
    moreover have "snd (is_silent p ?d) =
        ?d\<lparr>silent_frames := ?n, is_suppressing := is_suppressing ?d \<or> hangover_frames ?d < ?n\<rparr>"
      using True IH(1) by (simp add: is_silent_def Let_def)
    moreover have "(of_nat h < ?n) = (h < Suc (trailing_silence t ps))"
      unfolding word_less_nat_alt n h using assms by auto
    ultimately show ?thesis using IH n unfolding run by (simp del: One_nat_def) auto
  next
    case False
    then have "trailing_silence t (ps @ [p]) = 0" by (simp add: trailing_silence_def)
    then show ?thesis using False IH unfolding run by (simp add: is_silent_def Let_def)
  qed
qed

text \<open>
  Also (the hangover of silence suppression).  A frame is suppressed exactly when it and the frames
  right before it, more than the hangover in number, are all below the threshold.
\<close>

theorem suppression_is_exact:
  assumes "h < 2 ^ 32 - 1"
  shows "fst (is_silent p (detector_run ps (detector_new t (of_nat h)))) \<longleftrightarrow>
    h < trailing_silence t (ps @ [p])"
  using detector_run_state[OF assms, of "ps @ [p]" t] by (simp add: detector_run_def is_silent_def Let_def)

theorem suppression_is_exact_witness:
  "fst (is_silent [0] (detector_run [[500], [0], [0]] (detector_new 100 (of_nat 2))))"
  using suppression_is_exact[of 2 "[0]" "[[500], [0], [0]]" 100]
  by (simp add: trailing_silence_def rms_def sample_of_def)

end
