(* ===== verification/Dred.thy ===== *)
theory Dred
  imports Codec
begin

text \<open>
  Continuous tuning of the DRED redundancy, \<open>crates/wzp-proto/src/dred_tuner.rs\<close>.  \<open>f32\<close> values
  are rationals.
\<close>

record DredTuning =
  dred_frames :: nat
  expected_loss_pct :: nat

abbreviation (input) MIN_DRED_FRAMES :: nat where "MIN_DRED_FRAMES \<equiv> 5"
abbreviation (input) MAX_DRED_FRAMES :: nat where "MAX_DRED_FRAMES \<equiv> 104"
abbreviation (input) JITTER_SPIKE_RATIO :: rat where "JITTER_SPIKE_RATIO \<equiv> 13 / 10"
abbreviation (input) SPIKE_BOOST_COOLDOWN_CYCLES :: nat where "SPIKE_BOOST_COOLDOWN_CYCLES \<equiv> 10"

fun baseline_dred_frames :: "CodecId \<Rightarrow> nat" where
  "baseline_dred_frames Opus32k = 10"
| "baseline_dred_frames Opus48k = 10"
| "baseline_dred_frames Opus64k = 10"
| "baseline_dred_frames Opus16k = 20"
| "baseline_dred_frames Opus24k = 20"
| "baseline_dred_frames Opus6k = 50"
| "baseline_dred_frames _ = 0"

fun max_dred_frames_for :: "CodecId \<Rightarrow> nat" where
  "max_dred_frames_for Opus32k = 30"
| "max_dred_frames_for Opus48k = 30"
| "max_dred_frames_for Opus64k = 30"
| "max_dred_frames_for Opus16k = 50"
| "max_dred_frames_for Opus24k = 50"
| "max_dred_frames_for Opus6k = MAX_DRED_FRAMES"
| "max_dred_frames_for _ = 0"

record DredTuner =
  tuner_codec :: CodecId
  last_tuning :: DredTuning
  jitter_ewma :: rat
  spike_cooldown :: nat
  tuner_initialized :: bool

definition tuner_new :: "CodecId \<Rightarrow> DredTuner" where
  "tuner_new c =
     \<lparr>tuner_codec = c, last_tuning = \<lparr>dred_frames = baseline_dred_frames c, expected_loss_pct = 15\<rparr>,
      jitter_ewma = 0, spike_cooldown = 0, tuner_initialized = False\<rparr>"

definition set_tuner_codec :: "CodecId \<Rightarrow> DredTuner \<Rightarrow> DredTuner" where
  "set_tuner_codec c t = t\<lparr>tuner_codec := c, spike_cooldown := 0\<rparr>"

definition note_jitter :: "rat \<Rightarrow> DredTuner \<Rightarrow> DredTuner" where
  "note_jitter j t =
     (if \<not> tuner_initialized t then t\<lparr>jitter_ewma := j, tuner_initialized := True\<rparr>
      else
        let alpha = (if jitter_ewma t < j then 3 / 10 else 1 / 20) in
        t\<lparr>jitter_ewma := alpha * j + (1 - alpha) * jitter_ewma t\<rparr>)"

definition spiked :: "rat \<Rightarrow> DredTuner \<Rightarrow> bool" where
  "spiked j t \<longleftrightarrow> 1 < jitter_ewma t \<and> jitter_ewma t * JITTER_SPIKE_RATIO < j"

definition cool_down :: "rat \<Rightarrow> DredTuner \<Rightarrow> DredTuner" where
  "cool_down j t =
     (let t = (if spiked j t then t\<lparr>spike_cooldown := SPIKE_BOOST_COOLDOWN_CYCLES\<rparr> else t) in
      if 0 < spike_cooldown t then t\<lparr>spike_cooldown := spike_cooldown t - 1\<rparr> else t)"

definition frames_for_loss :: "CodecId \<Rightarrow> rat \<Rightarrow> nat" where
  "frames_for_loss c loss =
     (let baseline = baseline_dred_frames c; top_frames = max_dred_frames_for c;
          t = max 0 (min 40 loss) / 40;
          raw = of_nat baseline + t * of_nat (top_frames - baseline) in
      max MIN_DRED_FRAMES (min top_frames (nat \<lfloor>raw\<rfloor>)))"

definition expected_loss :: "rat \<Rightarrow> nat \<Rightarrow> nat" where
  "expected_loss loss rtt =
     (let phantom = (if 200 < rtt then min 15 (of_nat (rtt - 200) / 40) else 0) in
      nat \<lfloor>max 0 (min 100 (loss + phantom))\<rfloor>)"

definition tuner_update :: "rat \<Rightarrow> nat \<Rightarrow> nat \<Rightarrow> DredTuner \<Rightarrow> DredTuning option \<times> DredTuner" where
  "tuner_update loss rtt jit t =
     (if \<not> is_opus (tuner_codec t) then (None, t)
      else
        let t = cool_down (of_nat jit) (note_jitter (of_nat jit) t);
            frames = (if 0 < spike_cooldown t then max_dred_frames_for (tuner_codec t)
                      else frames_for_loss (tuner_codec t) loss);
            tuning = \<lparr>dred_frames = frames, expected_loss_pct = expected_loss loss rtt\<rparr> in
        if tuning \<noteq> last_tuning t then (Some tuning, t\<lparr>last_tuning := tuning\<rparr>) else (None, t))"

section \<open>Bounds\<close>

lemma opus_frames:
  "is_opus c \<Longrightarrow> MIN_DRED_FRAMES < baseline_dred_frames c \<and>
     baseline_dred_frames c < max_dred_frames_for c \<and> max_dred_frames_for c \<le> MAX_DRED_FRAMES"
  by (cases c) (auto simp: is_opus_def)

lemma frames_for_loss_eq:
  assumes "is_opus c"
  shows "frames_for_loss c loss =
      nat \<lfloor>of_nat (baseline_dred_frames c) +
        max 0 (min 40 loss) / 40 * of_nat (max_dred_frames_for c - baseline_dred_frames c)\<rfloor>"
    and "baseline_dred_frames c \<le> frames_for_loss c loss" "frames_for_loss c loss \<le> max_dred_frames_for c"
proof -
  let ?b = "baseline_dred_frames c" and ?m = "max_dred_frames_for c"
  let ?t = "max 0 (min 40 loss) / 40"
  define raw where "raw = of_nat ?b + ?t * of_nat (?m - ?b)"
  have b: "MIN_DRED_FRAMES < ?b" "?b < ?m" using opus_frames[OF assms] by simp_all
  have "0 \<le> ?t" "?t \<le> 1" by simp_all
  then have "0 \<le> ?t * rat_of_nat (?m - ?b)" "?t * rat_of_nat (?m - ?b) \<le> 1 * rat_of_nat (?m - ?b)"
    by (intro mult_nonneg_nonneg mult_right_mono; simp)+
  then have "of_nat ?b \<le> raw" "raw \<le> of_nat ?m" using b by (simp_all add: raw_def)
  then have "int ?b \<le> \<lfloor>raw\<rfloor>" "\<lfloor>raw\<rfloor> \<le> int ?m"
    by (simp_all add: le_floor_iff floor_le_iff)
  then have r: "?b \<le> nat \<lfloor>raw\<rfloor>" "nat \<lfloor>raw\<rfloor> \<le> ?m" by simp_all
  then have "frames_for_loss c loss = nat \<lfloor>raw\<rfloor>"
    using b unfolding frames_for_loss_def Let_def raw_def[symmetric] by (simp add: max_def min_def)
  then show "frames_for_loss c loss = nat \<lfloor>of_nat ?b + ?t * of_nat (?m - ?b)\<rfloor>"
    "?b \<le> frames_for_loss c loss" "frames_for_loss c loss \<le> ?m"
    using r by (simp_all only: raw_def)
qed

lemma frames_for_loss_mono:
  assumes "is_opus c" and "loss \<le> loss'"
  shows "frames_for_loss c loss \<le> frames_for_loss c loss'"
proof -
  have "max 0 (min 40 loss) / 40 \<le> max 0 (min 40 loss') / (40 :: rat)"
    using assms(2) by (intro divide_right_mono) auto
  then have "max 0 (min 40 loss) / 40 * rat_of_nat n \<le> max 0 (min 40 loss') / 40 * rat_of_nat n" for n
    by (intro mult_right_mono) simp_all
  then show ?thesis
    unfolding frames_for_loss_eq(1)[OF assms(1)] by (intro nat_mono floor_mono add_left_mono)
qed


section \<open>Runs\<close>

abbreviation (input) tuned :: "rat \<times> nat \<times> nat \<Rightarrow> DredTuner \<Rightarrow> DredTuner" where
  "tuned e t \<equiv> snd (tuner_update (fst e) (fst (snd e)) (snd (snd e)) t)"

lemma note_jitter_simps [simp]:
  "tuner_codec (note_jitter j t) = tuner_codec t" "spike_cooldown (note_jitter j t) = spike_cooldown t"
  by (simp_all add: note_jitter_def Let_def)

lemma cool_down_codec [simp]: "tuner_codec (cool_down j t) = tuner_codec t"
  by (simp add: cool_down_def Let_def)

lemma tuner_update_state:
  assumes "is_opus (tuner_codec t)"
  shows "tuner_codec (tuned (loss, rtt, jit) t) = tuner_codec t"
    and "spike_cooldown (tuned (loss, rtt, jit) t) =
      spike_cooldown (cool_down (of_nat jit) (note_jitter (of_nat jit) t))"
    and "last_tuning (tuned (loss, rtt, jit) t) =
      \<lparr>dred_frames = (if 0 < spike_cooldown (tuned (loss, rtt, jit) t)
         then max_dred_frames_for (tuner_codec t) else frames_for_loss (tuner_codec t) loss),
       expected_loss_pct = expected_loss loss rtt\<rparr>"
  using assms by (simp_all add: tuner_update_def Let_def)

text \<open>
  Also (redundancy follows the loss).  For an Opus codec every update leaves a tuning between the codec's
  baseline and its ceiling, at most 104 frames and 100 percent; without a spike boost it is the
  baseline at no loss, the ceiling from 40 percent on, and a higher loss never gives fewer frames.
\<close>

theorem redundancy_follows_loss:
  assumes "is_opus (tuner_codec t)" and "loss \<le> loss'"
  shows "let c = tuner_codec t; d = (\<lambda>x. last_tuning (snd (tuner_update x rtt jit t)));
             boosted = 0 < spike_cooldown (snd (tuner_update loss rtt jit t)) in
    baseline_dred_frames c \<le> dred_frames (d loss) \<and> dred_frames (d loss) \<le> max_dred_frames_for c \<and>
    max_dred_frames_for c \<le> MAX_DRED_FRAMES \<and> expected_loss_pct (d loss) \<le> 100 \<and>
    dred_frames (d loss) \<le> dred_frames (d loss') \<and>
    (boosted \<or> 40 \<le> loss \<longrightarrow> dred_frames (d loss) = max_dred_frames_for c) \<and>
    (\<not> boosted \<and> loss \<le> 0 \<longrightarrow> dred_frames (d loss) = baseline_dred_frames c)"
proof -
  let ?c = "tuner_codec t"
  note o = opus_frames[OF assms(1)]
  have top: "frames_for_loss ?c x = max_dred_frames_for ?c" if "40 \<le> x" for x
    using that o by (simp add: frames_for_loss_eq(1)[OF assms(1)] of_nat_diff)
  have bottom: "frames_for_loss ?c x = baseline_dred_frames ?c" if "x \<le> 0" for x
    using that by (simp add: frames_for_loss_eq(1)[OF assms(1)])
  have e: "expected_loss x rtt \<le> 100" for x
    by (simp add: expected_loss_def Let_def nat_le_iff floor_le_iff)
  show ?thesis
    using tuner_update_state[OF assms(1), of loss rtt jit] tuner_update_state[OF assms(1), of loss' rtt jit]
      frames_for_loss_eq(2,3)[OF assms(1), of loss] frames_for_loss_mono[OF assms] o top bottom e
    by (auto simp: Let_def)
qed

theorem redundancy_follows_loss_witness:
  "dred_frames (last_tuning (snd (tuner_update 0 0 0 (tuner_new Opus24k)))) = 20 \<and>
   dred_frames (last_tuning (snd (tuner_update 0 0 0 (tuner_new Opus24k)))) \<le>
   dred_frames (last_tuning (snd (tuner_update 20 0 0 (tuner_new Opus24k))))"
  using redundancy_follows_loss[of "tuner_new Opus24k" 0 20 0 0]
  by (simp add: tuner_new_def is_opus_def Let_def tuner_update_def cool_down_def note_jitter_def spiked_def)

text \<open>Updates that see no spike.\<close>

fun calm :: "(rat \<times> nat \<times> nat) list \<Rightarrow> DredTuner \<Rightarrow> bool" where
  "calm [] t \<longleftrightarrow> True"
| "calm (e # es) t \<longleftrightarrow>
     \<not> spiked (of_nat (snd (snd e))) (note_jitter (of_nat (snd (snd e))) t) \<and> calm es (tuned e t)"

lemma calm_cooldown:
  "is_opus (tuner_codec t) \<Longrightarrow> calm es t \<Longrightarrow> k \<le> length es \<Longrightarrow>
   spike_cooldown (fold tuned (take k es) t) = spike_cooldown t - k"
proof (induction es arbitrary: t k)
  case (Cons e es)
  show ?case
  proof (cases k)
    case (Suc j)
    have "spike_cooldown (tuned e t) = spike_cooldown t - 1" "tuner_codec (tuned e t) = tuner_codec t"
      using Cons.prems(1,2) tuner_update_state(1,2)[of t "fst e" "fst (snd e)" "snd (snd e)"]
      by (auto simp: cool_down_def Let_def)
    then show ?thesis using Cons.IH[of "tuned e t" j] Cons.prems Suc by simp
  qed simp
qed simp

text \<open>
  Also (how long a spike boost lasts).  After an update that detects a jitter spike, followed by updates
  that detect none, the boost is in force for that update and the next eight, nine cycles in
  all: the counter set to ten is already decremented in the update that sets it.
\<close>

theorem spike_boost_lasts_nine_cycles:
  assumes "is_opus (tuner_codec t)"
    and "spiked (of_nat jit) (note_jitter (of_nat jit) t)"
    and "calm es (snd (tuner_update loss rtt jit t))" and "k \<le> length es"
  shows "0 < spike_cooldown (fold tuned (take k es) (snd (tuner_update loss rtt jit t))) \<longleftrightarrow> k < 9"
proof -
  have "spike_cooldown (tuned (loss, rtt, jit) t) = 9" "is_opus (tuner_codec (tuned (loss, rtt, jit) t))"
    using assms(1,2) tuner_update_state(1,2)[OF assms(1), of loss rtt jit]
    by (simp_all add: cool_down_def Let_def)
  then show ?thesis using calm_cooldown[of "tuned (loss, rtt, jit) t" es k] assms(3,4) by auto
qed

definition demo_tuner :: DredTuner where
  "demo_tuner = (tuner_new Opus24k)\<lparr>jitter_ewma := 10, tuner_initialized := True\<rparr>"

theorem spike_boost_lasts_nine_cycles_witness:
  "0 < spike_cooldown (fold tuned (take 1 [(0, 0, 10)]) (snd (tuner_update 0 0 100 demo_tuner)))"
  using spike_boost_lasts_nine_cycles[of demo_tuner 100 "[(0, 0, 10)]" 0 0 1]
  by (simp add: demo_tuner_def tuner_new_def is_opus_def spiked_def note_jitter_def tuner_update_def
      cool_down_def Let_def)

end
