(* ===== verification/CallSend.thy ===== *)
theory CallSend
  imports Dsp Dred Pipeline
begin

text \<open>
  The sending side of a call, \<open>CallConfig\<close>, \<open>QualityAdapter\<close> and \<open>CallEncoder\<close> of
  \<open>crates/wzp-client/src/call.rs\<close>.  The echo canceller, the noise suppressor and the audio codec
  are parameters; gain control and silence detection are those of \<open>Dsp\<close>, the block code that of
  \<open>Fec\<close>.
\<close>

section \<open>Configuration\<close>

record CallConfig =
  cfg_profile :: QualityProfile
  cfg_jitter_target :: nat
  cfg_jitter_max :: nat
  cfg_jitter_min :: nat
  cfg_suppression_enabled :: bool
  cfg_silence_threshold_rms :: real
  cfg_silence_hangover_frames :: u32
  cfg_comfort_noise_level :: "16 word"
  cfg_noise_suppression :: bool
  cfg_mini_frames_enabled :: bool
  cfg_aec_delay_ms :: u32
  cfg_adaptive_jitter :: bool

definition call_config_default :: CallConfig where
  "call_config_default =
     \<lparr>cfg_profile = GOOD, cfg_jitter_target = 10, cfg_jitter_max = 250, cfg_jitter_min = 3,
      cfg_suppression_enabled = True, cfg_silence_threshold_rms = 100,
      cfg_silence_hangover_frames = 5, cfg_comfort_noise_level = 50, cfg_noise_suppression = True,
      cfg_mini_frames_enabled = True, cfg_aec_delay_ms = 40, cfg_adaptive_jitter = True\<rparr>"

definition call_config_from_profile :: "QualityProfile \<Rightarrow> CallConfig" where
  "call_config_from_profile p =
     (let (t, mx, mn) = (if p = CATASTROPHIC then (20, 500, 8)
                         else if p = DEGRADED then (15, 350, 5) else (10, 250, 3)) in
      call_config_default\<lparr>cfg_profile := p, cfg_jitter_target := t, cfg_jitter_max := mx,
        cfg_jitter_min := mn\<rparr>)"

section \<open>The quality adapter\<close>

record QualityAdapter =
  ad_window :: "QualityReport list"
  ad_max_window :: nat
  consecutive_same :: nat
  pending_profile :: "QualityProfile option"

abbreviation (input) HYSTERESIS_COUNT :: nat where "HYSTERESIS_COUNT \<equiv> 3"
abbreviation (input) ADAPTER_WINDOW :: nat where "ADAPTER_WINDOW \<equiv> 10"

definition adapter_new :: QualityAdapter where
  "adapter_new =
     \<lparr>ad_window = [], ad_max_window = ADAPTER_WINDOW, consecutive_same = 0, pending_profile = None\<rparr>"

definition adapter_ingest :: "QualityReport \<Rightarrow> QualityAdapter \<Rightarrow> QualityAdapter" where
  "adapter_ingest r a =
     (let w = (if ad_max_window a \<le> length (ad_window a) then tl (ad_window a) else ad_window a) in
      a\<lparr>ad_window := w @ [r]\<rparr>)"

definition adapter_classify :: "QualityReport \<Rightarrow> QualityProfile" where
  "adapter_classify r =
     (if 15 < loss_percent r \<or> 200 < rtt_ms r then CATASTROPHIC
      else if 5 < loss_percent r \<or> 100 < rtt_ms r then DEGRADED
      else GOOD)"

definition adapter_recommended :: "QualityAdapter \<Rightarrow> QualityProfile" where
  "adapter_recommended a = (if ad_window a = [] then GOOD else adapter_classify (last (ad_window a)))"

definition should_switch :: "QualityProfile \<Rightarrow> QualityAdapter \<Rightarrow> QualityProfile option \<times> QualityAdapter" where
  "should_switch current a =
     (let rec = adapter_recommended a in
      if rec = current then (None, a\<lparr>consecutive_same := 0, pending_profile := None\<rparr>)
      else
        let a = (if pending_profile a = Some rec
                 then a\<lparr>consecutive_same := consecutive_same a + 1\<rparr>
                 else a\<lparr>pending_profile := Some rec, consecutive_same := 1\<rparr>) in
        if HYSTERESIS_COUNT \<le> consecutive_same a
        then (Some rec, a\<lparr>consecutive_same := 0, pending_profile := None\<rparr>)
        else (None, a))"

text \<open>A caller that asks after every report and takes up what it is told.\<close>

fun adapter_run ::
  "QualityReport list \<Rightarrow> QualityProfile \<Rightarrow> QualityAdapter \<Rightarrow> QualityProfile \<times> QualityAdapter" where
  "adapter_run [] cur a = (cur, a)"
| "adapter_run (r # rs) cur a =
     (let (s, a) = should_switch cur (adapter_ingest r a) in
      adapter_run rs (case s of None \<Rightarrow> cur | Some p \<Rightarrow> p) a)"

section \<open>The encoder\<close>

record ('a, 'd, 'e) audio_lib =
  aec_process :: "pcm \<Rightarrow> 'a \<Rightarrow> pcm \<times> 'a"
  denoise_process :: "pcm \<Rightarrow> 'd \<Rightarrow> pcm \<times> 'd"
  audio_encode :: "pcm \<Rightarrow> 'e \<Rightarrow> byte list option \<times> 'e"
  audio_set_profile :: "QualityProfile \<Rightarrow> 'e \<Rightarrow> bool \<times> 'e"

record ('a, 'd, 'e) CallEncoder =
  audio_enc :: 'e
  fec_enc :: FecEncoder
  ce_profile :: QualityProfile
  ce_seq :: u32
  ce_block_id :: u8
  frame_in_block :: u8
  timestamp_ms :: u32
  aec :: 'a
  agc :: AutoGainControl
  silence_detector :: SilenceDetector
  suppression_enabled :: bool
  frames_suppressed :: nat
  cn_counter :: u32
  cn_level :: "16 word"
  denoiser :: 'd
  denoiser_enabled :: bool
  ce_mini_context :: MiniFrameContext
  ce_mini_frames_enabled :: bool
  ce_frames_since_full :: u32
  pending_quality_report :: "QualityReport option"

definition create_encoder :: "QualityProfile \<Rightarrow> FecEncoder" where
  "create_encoder p = build_encoder (fec_from_profile p)"

definition call_encoder_new :: "CallConfig \<Rightarrow> 'a \<Rightarrow> 'd \<Rightarrow> 'e \<Rightarrow> ('a, 'd, 'e) CallEncoder" where
  "call_encoder_new cfg aec0 den0 enc0 =
     \<lparr>audio_enc = enc0, fec_enc = create_encoder (cfg_profile cfg), ce_profile = cfg_profile cfg,
      ce_seq = 0, ce_block_id = 0, frame_in_block = 0, timestamp_ms = 0, aec = aec0, agc = agc_new,
      silence_detector = detector_new (cfg_silence_threshold_rms cfg) (cfg_silence_hangover_frames cfg),
      suppression_enabled = cfg_suppression_enabled cfg, frames_suppressed = 0, cn_counter = 0,
      cn_level = cfg_comfort_noise_level cfg, denoiser = den0,
      denoiser_enabled = cfg_noise_suppression cfg, ce_mini_context = None,
      ce_mini_frames_enabled = cfg_mini_frames_enabled cfg, ce_frames_since_full = 0,
      pending_quality_report = None\<rparr>"

definition serialize_compact ::
  "MediaPacket \<Rightarrow> ('a, 'd, 'e) CallEncoder \<Rightarrow> byte list \<times> ('a, 'd, 'e) CallEncoder" where
  "serialize_compact p e =
     (if ce_mini_frames_enabled e then
        let (b, ctx, n) = encode_compact p (ce_mini_context e) (ce_frames_since_full e) in
        (b, e\<lparr>ce_mini_context := ctx, ce_frames_since_full := n\<rparr>)
      else (packet_to_bytes p, e))"

datatype EncodeError = CodecFailed | FecFailed FecError

text \<open>Steps 1 to 3: echo cancellation, gain control, noise suppression.\<close>

definition clean_up ::
  "('a, 'd, 'e) audio_lib \<Rightarrow> pcm \<Rightarrow> ('a, 'd, 'e) CallEncoder \<Rightarrow> pcm \<times> ('a, 'd, 'e) CallEncoder" where
  "clean_up L p e =
     (let (p, ec) = aec_process L p (aec e);
          (p, gc) = agc_process p (agc e);
          (p, dn) = (if denoiser_enabled e then denoise_process L p (denoiser e) else (p, denoiser e)) in
      (p, e\<lparr>aec := ec, agc := gc, denoiser := dn\<rparr>))"

abbreviation (input) frame_ms :: "('a, 'd, 'e) CallEncoder \<Rightarrow> u32" where
  "frame_ms e \<equiv> of_nat (profile_frame_ms (ce_profile e))"

definition cn_due :: "u32 \<Rightarrow> bool" where
  "cn_due n \<longleftrightarrow> unat n mod 10 = 0"

definition suppress_frame ::
  "('a, 'd, 'e) CallEncoder \<Rightarrow> MediaPacket list \<times> ('a, 'd, 'e) CallEncoder" where
  "suppress_frame e =
     (let e = e\<lparr>frames_suppressed := frames_suppressed e + 1, cn_counter := cn_counter e + 1,
                timestamp_ms := timestamp_ms e + frame_ms e\<rparr> in
      if cn_due (cn_counter e)
      then
        let cn_pkt =
          \<lparr>header =
             \<lparr>version = 2, flags = 0, media_type = Audio, codec_id = ComfortNoise, stream_id = 0,
              fec_ratio_wire = 0, seq = ce_seq e, timestamp = timestamp_ms e,
              fec_block = ucast (ce_block_id e)\<rparr>,
           payload = [ucast (cn_level e)], quality_report = None\<rparr> in
        ([cn_pkt], e\<lparr>ce_seq := ce_seq e + 1\<rparr>)
      else ([], e))"

definition source_packet :: "byte list \<Rightarrow> ('a, 'd, 'e) CallEncoder \<Rightarrow> MediaPacket" where
  "source_packet encoded e =
     \<lparr>header =
        \<lparr>version = 2,
         flags = (if pending_quality_report e \<noteq> None then 0 OR FLAG_QUALITY else 0),
         media_type = Audio, codec_id = codec (ce_profile e), stream_id = 0,
         fec_ratio_wire = (if is_opus (codec (ce_profile e)) then 0
                           else encode_fec_ratio (fec_ratio (ce_profile e))),
         seq = ce_seq e, timestamp = timestamp_ms e,
         fec_block = (if is_opus (codec (ce_profile e)) then 0
                      else ucast (ce_block_id e) OR push_bit 8 (ucast (frame_in_block e)))\<rparr>,
      payload = encoded, quality_report = pending_quality_report e\<rparr>"

definition call_repair_packet :: "QualityProfile \<Rightarrow> u32 \<Rightarrow> u8 \<Rightarrow> u32 \<Rightarrow> u16 \<times> byte list \<Rightarrow> MediaPacket" where
  "call_repair_packet p ts blk sq r =
     \<lparr>header =
        \<lparr>version = 2, flags = FLAG_REPAIR, media_type = Audio, codec_id = codec p, stream_id = 0,
         fec_ratio_wire = encode_fec_ratio (fec_ratio p), seq = sq, timestamp = ts,
         fec_block = ucast blk OR push_bit 8 (fst r)\<rparr>,
      payload = snd r, quality_report = None\<rparr>"

fun call_repairs ::
  "QualityProfile \<Rightarrow> u32 \<Rightarrow> u8 \<Rightarrow> u32 \<Rightarrow> (u16 \<times> byte list) list \<Rightarrow> MediaPacket list \<times> u32" where
  "call_repairs p ts blk sq [] = ([], sq)"
| "call_repairs p ts blk sq (r # rs) =
     (let (out, sq') = call_repairs p ts blk (sq + 1) rs in (call_repair_packet p ts blk sq r # out, sq'))"

definition close_block ::
  "fountain \<Rightarrow> ('a, 'd, 'e) CallEncoder \<Rightarrow> MediaPacket list \<times> ('a, 'd, 'e) CallEncoder" where
  "close_block F e =
     (let (out, sq) = (case generate_repair F (fec_ratio (ce_profile e)) (fec_enc e) of
          Inl _ \<Rightarrow> ([], ce_seq e)
        | Inr repairs \<Rightarrow> call_repairs (ce_profile e) (timestamp_ms e) (ce_block_id e) (ce_seq e) repairs) in
      (out, e\<lparr>ce_seq := sq, fec_enc := snd (finalize_block (fec_enc e)),
              ce_block_id := ce_block_id e + 1, frame_in_block := 0\<rparr>))"

definition send_voice ::
  "fountain \<Rightarrow> byte list \<Rightarrow> ('a, 'd, 'e) CallEncoder \<Rightarrow>
   (EncodeError + MediaPacket list) \<times> ('a, 'd, 'e) CallEncoder" where
  "send_voice F encoded e =
     (let src = source_packet encoded e;
          e = e\<lparr>pending_quality_report := None, ce_seq := ce_seq e + 1,
                timestamp_ms := timestamp_ms e + frame_ms e\<rparr> in
      if is_opus (codec (ce_profile e)) then (Inr [src], e)
      else
        (case add_source_symbol encoded (fec_enc e) of
           (Inl err, fe) \<Rightarrow> (Inl (FecFailed err), e\<lparr>fec_enc := fe\<rparr>)
         | (Inr _, fe) \<Rightarrow>
             let e = e\<lparr>fec_enc := fe, frame_in_block := frame_in_block e + 1\<rparr> in
             if frames_per_block (ce_profile e) \<le> unat (frame_in_block e)
             then let (repairs, e) = close_block F e in (Inr (src # repairs), e)
             else (Inr [src], e)))"

definition encode_frame ::
  "('a, 'd, 'e) audio_lib \<Rightarrow> fountain \<Rightarrow> pcm \<Rightarrow> ('a, 'd, 'e) CallEncoder \<Rightarrow>
   (EncodeError + MediaPacket list) \<times> ('a, 'd, 'e) CallEncoder" where
  "encode_frame L F p e =
     (let (p, e) = clean_up L p e;
          (silent, e) = (if suppression_enabled e
             then let (b, d) = Dsp.is_silent p (silence_detector e) in (b, e\<lparr>silence_detector := d\<rparr>)
             else (False, e)) in
      if silent then (let (out, e) = suppress_frame e in (Inr out, e))
      else
        let e = e\<lparr>cn_counter := 0\<rparr>;
            (encoded, ae) = audio_encode L p (audio_enc e);
            e = e\<lparr>audio_enc := ae\<rparr> in
        case encoded of None \<Rightarrow> (Inl CodecFailed, e)
        | Some b \<Rightarrow> send_voice F b e)"

definition set_call_profile ::
  "('a, 'd, 'e) audio_lib \<Rightarrow> QualityProfile \<Rightarrow> ('a, 'd, 'e) CallEncoder \<Rightarrow> bool \<times> ('a, 'd, 'e) CallEncoder" where
  "set_call_profile L p e =
     (let (ok, ae) = audio_set_profile L p (audio_enc e); e = e\<lparr>audio_enc := ae\<rparr> in
      if ok then (True, e\<lparr>fec_enc := create_encoder p, ce_profile := p, frame_in_block := 0\<rparr>)
      else (False, e))"

definition set_pending_quality_report ::
  "QualityReport \<Rightarrow> ('a, 'd, 'e) CallEncoder \<Rightarrow> ('a, 'd, 'e) CallEncoder" where
  "set_pending_quality_report r e = e\<lparr>pending_quality_report := Some r\<rparr>"

definition set_call_agc_enabled :: "bool \<Rightarrow> ('a, 'd, 'e) CallEncoder \<Rightarrow> ('a, 'd, 'e) CallEncoder" where
  "set_call_agc_enabled b e = e\<lparr>agc := set_agc_enabled b (agc e)\<rparr>"


section \<open>Hysteresis\<close>

definition adapter_inv :: "QualityReport list \<Rightarrow> QualityProfile \<Rightarrow> QualityAdapter \<Rightarrow> bool" where
  "adapter_inv rs cur a \<longleftrightarrow>
     consecutive_same a < HYSTERESIS_COUNT \<and> consecutive_same a \<le> length rs \<and>
     (consecutive_same a = 0 \<longrightarrow> pending_profile a = None) \<and>
     (0 < consecutive_same a \<longrightarrow> (\<exists>p. pending_profile a = Some p \<and> p \<noteq> cur \<and>
        (\<forall>x \<in> set (drop (length rs - consecutive_same a) rs). adapter_classify x = p)))"

lemma adapter_step:
  "should_switch cur (adapter_ingest r a) =
     (let a' = adapter_ingest r a; p = adapter_classify r in
      if p = cur then (None, a'\<lparr>consecutive_same := 0, pending_profile := None\<rparr>)
      else
        let n = (if pending_profile a = Some p then consecutive_same a + 1 else 1) in
        if HYSTERESIS_COUNT \<le> n
        then (Some p, a'\<lparr>consecutive_same := 0, pending_profile := None\<rparr>)
        else (None, a'\<lparr>consecutive_same := n, pending_profile := Some p\<rparr>))"
  by (cases a) (auto simp: should_switch_def adapter_recommended_def adapter_ingest_def Let_def)

lemma adapter_ingest_fields [simp]:
  "consecutive_same (adapter_ingest r a) = consecutive_same a"
  "pending_profile (adapter_ingest r a) = pending_profile a"
  by (simp_all add: adapter_ingest_def Let_def)

lemma adapter_inv_step:
  assumes i: "adapter_inv rs cur a" and s: "should_switch cur (adapter_ingest r a) = (o1, a')"
  shows "adapter_inv (rs @ [r]) (case o1 of None \<Rightarrow> cur | Some p \<Rightarrow> p) a' \<and>
    (\<forall>p. o1 = Some p \<longrightarrow> p \<noteq> cur \<and> 2 \<le> length rs \<and>
       (\<forall>x \<in> set (drop (length rs - 2) rs) \<union> {r}. adapter_classify x = p))"
proof (cases "adapter_classify r = cur")
  case True
  then show ?thesis using s by (auto simp: adapter_step adapter_inv_def Let_def)
next
  case False
  show ?thesis
  proof (cases "pending_profile a = Some (adapter_classify r)")
    case True
    then have "0 < consecutive_same a" using i by (auto simp: adapter_inv_def)
    then have k: "consecutive_same a < 3" "consecutive_same a \<le> length rs"
      "\<forall>x \<in> set (drop (length rs - consecutive_same a) rs). adapter_classify x = adapter_classify r"
      using i True by (auto simp: adapter_inv_def)
    show ?thesis
    proof (cases "consecutive_same a = 2")
      case True
      then show ?thesis using s k False \<open>pending_profile a = Some (adapter_classify r)\<close>
        by (auto simp: adapter_step adapter_inv_def Let_def)
    next
      case two: False
      have "Suc (length rs) - Suc (consecutive_same a) = length rs - consecutive_same a" by simp
      then show ?thesis using s k False True two \<open>0 < consecutive_same a\<close>
        by (auto simp: adapter_step adapter_inv_def Let_def)
    qed
  next
    case other: False
    then show ?thesis using s False by (auto simp: adapter_step adapter_inv_def Let_def)
  qed
qed

lemma adapter_inv_run:
  "adapter_inv rs cur a \<Longrightarrow> adapter_run qs cur a = (cur', a') \<Longrightarrow> adapter_inv (rs @ qs) cur' a'"
proof (induction qs arbitrary: rs cur a)
  case (Cons q qs)
  obtain o1 a1 where s: "should_switch cur (adapter_ingest q a) = (o1, a1)" by fastforce
  show ?case
    using Cons.IH[of "rs @ [q]" "case o1 of None \<Rightarrow> cur | Some p \<Rightarrow> p" a1] adapter_inv_step[OF Cons.prems(1) s]
      Cons.prems(2) s by simp
qed simp

lemma adapter_run_append:
  "adapter_run (xs @ ys) cur a = (let (cur, a) = adapter_run xs cur a in adapter_run ys cur a)"
  by (induction xs arbitrary: cur a) (simp_all add: case_prod_unfold Let_def)

lemma adapter_inv_new: "adapter_inv [] cur adapter_new"
  by (simp add: adapter_inv_def adapter_new_def)

lemma adapter_three:
  assumes "adapter_inv rs cur a" and "adapter_classify x = p" "adapter_classify y = p" "adapter_classify z = p"
  shows "fst (adapter_run [x, y, z] cur a) = p"
proof -
  have "consecutive_same a \<in> {0, 1, 2}" "consecutive_same a = 0 \<Longrightarrow> pending_profile a = None"
    using assms(1) by (auto simp: adapter_inv_def)
  then show ?thesis using assms(2-4) by (auto simp: adapter_step Let_def)
qed

text \<open>
  Also (hysteresis of the quality adapter).  Ask after every report and take up the answer: the profile
  changes only with a report that, like the two before it, recommends the new profile, and three
  reports in a row that recommend a profile always lead to it.
\<close>

theorem adapter_hysteresis:
  "(adapter_classify x = p \<longrightarrow> adapter_classify y = p \<longrightarrow> adapter_classify z = p \<longrightarrow>
      fst (adapter_run (rs @ [x, y, z]) cur adapter_new) = p) \<and>
   (fst (adapter_run (rs @ [r]) cur adapter_new) \<noteq> fst (adapter_run rs cur adapter_new) \<longrightarrow>
      2 \<le> length rs \<and>
      (\<forall>q \<in> set (drop (length rs - 2) rs) \<union> {r}.
         adapter_classify q = fst (adapter_run (rs @ [r]) cur adapter_new)))"
proof -
  obtain cur1 a1 where run: "adapter_run rs cur adapter_new = (cur1, a1)" by fastforce
  have i: "adapter_inv rs cur1 a1" using adapter_inv_run[OF adapter_inv_new run] by simp
  obtain o1 a2 where s: "should_switch cur1 (adapter_ingest r a1) = (o1, a2)" by fastforce
  show ?thesis
    using adapter_three[OF i] adapter_inv_step[OF i s]
    by (auto simp: adapter_run_append run s split: option.splits)
qed

theorem adapter_hysteresis_witness:
  "fst (adapter_run [sample_report 255 0, sample_report 255 0, sample_report 255 0] GOOD adapter_new) = CATASTROPHIC \<and>
   fst (adapter_run [sample_report 255 0, sample_report 255 0] GOOD adapter_new) \<noteq> CATASTROPHIC"
proof -
  let ?r = "sample_report 255 0"
  have c: "adapter_classify ?r = CATASTROPHIC"
    by (simp add: adapter_classify_def loss_percent_def sample_report_def)
  have "CATASTROPHIC \<noteq> GOOD" by (simp add: profile_defs)
  then show ?thesis
    using adapter_hysteresis[of ?r CATASTROPHIC ?r ?r "[]" GOOD ?r] c
    by (simp add: adapter_step Let_def adapter_new_def)
qed


section \<open>The packet stream\<close>

fun encode_run ::
  "('a, 'd, 'e) audio_lib \<Rightarrow> fountain \<Rightarrow> pcm list \<Rightarrow> ('a, 'd, 'e) CallEncoder \<Rightarrow>
   (EncodeError + MediaPacket list list) \<times> ('a, 'd, 'e) CallEncoder" where
  "encode_run L F [] e = (Inr [], e)"
| "encode_run L F (p # ps) e =
     (case encode_frame L F p e of
        (Inl err, e) \<Rightarrow> (Inl err, e)
      | (Inr out, e) \<Rightarrow>
          (case encode_run L F ps e of
             (Inl err, e) \<Rightarrow> (Inl err, e)
           | (Inr outs, e) \<Rightarrow> (Inr (out # outs), e)))"

definition voice :: "MediaPacket \<Rightarrow> bool" where
  "voice p \<longleftrightarrow> \<not> is_repair (header p) \<and> codec_id (header p) \<noteq> ComfortNoise"

definition fec_position :: "QualityProfile \<Rightarrow> nat \<Rightarrow> u16" where
  "fec_position q k =
     (if is_opus (codec q) then 0
      else ucast (of_nat (k div frames_per_block q) :: u8) OR
           push_bit 8 (ucast (of_nat (k mod frames_per_block q) :: u8)))"

text \<open>The state of an encoder that has sent \<open>k\<close> voice frames.\<close>

definition enc_inv :: "QualityProfile \<Rightarrow> nat \<Rightarrow> ('a, 'd, 'e) CallEncoder \<Rightarrow> bool" where
  "enc_inv q k e \<longleftrightarrow>
     ce_profile e = q \<and>
     (\<not> is_opus (codec q) \<longrightarrow>
        ce_block_id e = of_nat (k div frames_per_block q) \<and>
        frame_in_block e = of_nat (k mod frames_per_block q) \<and>
        enc_frames_per_block (fec_enc e) = frames_per_block q \<and>
        length (source_symbols (fec_enc e)) = k mod frames_per_block q)"

definition profile_ok :: "QualityProfile \<Rightarrow> bool" where
  "profile_ok q \<longleftrightarrow> 1 \<le> frames_per_block q \<and> frames_per_block q < 256 \<and> codec q \<noteq> ComfortNoise"

lemma call_repairs_numbers: "call_repairs q ts blk sq rs = (out, sq') \<Longrightarrow> numbers sq out sq'"
proof (induction rs arbitrary: sq out)
  case (Cons r rs)
  then show ?case
    by (auto simp: Let_def call_repair_packet_def case_prod_unfold intro!: numbers_Cons)
qed (simp add: numbers_def)

lemma call_repairs_repair:
  "call_repairs q ts blk sq rs = (out, sq') \<Longrightarrow> \<forall>p \<in> set out. is_repair (header p)"
proof (induction rs arbitrary: sq out)
  case (Cons r rs)
  then show ?case
    by (auto simp: Let_def call_repair_packet_def case_prod_unfold flag_defs) force
qed simp

lemma close_block_props:
  assumes "close_block F e = (out, e')"
  shows "numbers (ce_seq e) out (ce_seq e')" and "\<forall>p \<in> set out. is_repair (header p)"
    and "timestamp_ms e' = timestamp_ms e" and "ce_profile e' = ce_profile e"
    and "ce_block_id e' = ce_block_id e + 1" and "frame_in_block e' = 0"
    and "source_symbols (fec_enc e') = []"
    and "enc_frames_per_block (fec_enc e') = enc_frames_per_block (fec_enc e)"
  using assms call_repairs_numbers call_repairs_repair
  by (auto simp: close_block_def finalize_block_def numbers_def[of _ "[]"] Let_def
      split: sum.splits prod.splits)

lemma is_repair_source [simp]: "\<not> is_repair (header (source_packet b e))"
  by (simp add: source_packet_def flag_defs)

definition sent_frame ::
  "('a, 'd, 'e) CallEncoder \<Rightarrow> QualityProfile \<Rightarrow> nat \<Rightarrow> MediaPacket list \<Rightarrow> ('a, 'd, 'e) CallEncoder \<Rightarrow> bool" where
  "sent_frame e q k out e' \<longleftrightarrow>
     numbers (ce_seq e) out (ce_seq e') \<and> timestamp_ms e' = timestamp_ms e + frame_ms e \<and>
     enc_inv q (k + length (filter voice out)) e' \<and> length (filter voice out) \<le> 1 \<and>
     (\<forall>p \<in> set (filter voice out). timestamp (header p) = timestamp_ms e \<and>
        fec_block (header p) = fec_position q k)"

lemma suppress_frame_sent:
  "enc_inv q k e \<Longrightarrow> suppress_frame e = (out, e') \<Longrightarrow> sent_frame e q k out e'"
  by (auto simp: suppress_frame_def sent_frame_def enc_inv_def numbers_def voice_def Let_def
      split: if_splits)

lemma send_voice_sent:
  assumes i: "enc_inv q k e" and q: "profile_ok q"
  shows "\<exists>out e'. send_voice F b e = (Inr out, e') \<and> sent_frame e q k out e'"
proof (cases "is_opus (codec q)")
  case True
  then show ?thesis
    using i q
    by (auto simp: send_voice_def Let_def enc_inv_def sent_frame_def numbers_def voice_def
        source_packet_def fec_position_def profile_ok_def flag_defs)
next
  case False
  let ?K = "frames_per_block q" and ?src = "source_packet b e"
  have K: "0 < ?K" "?K < 256" "codec q \<noteq> ComfortNoise" using q by (auto simp: profile_ok_def)
  have st: "ce_profile e = q" "ce_block_id e = of_nat (k div ?K)" "frame_in_block e = of_nat (k mod ?K)"
    "enc_frames_per_block (fec_enc e) = ?K" "length (source_symbols (fec_enc e)) = k mod ?K"
    using i False by (simp_all add: enc_inv_def)
  have "k mod ?K < ?K" using K by simp
  then have add: "add_source_symbol b (fec_enc e) =
      (Inr (), (fec_enc e)\<lparr>source_symbols := source_symbols (fec_enc e) @ [b]\<rparr>)"
    by (simp add: add_source_symbol_def st)
  define e1 where "e1 = e\<lparr>pending_quality_report := None, ce_seq := ce_seq e + 1,
      timestamp_ms := timestamp_ms e + frame_ms e,
      fec_enc := (fec_enc e)\<lparr>source_symbols := source_symbols (fec_enc e) @ [b]\<rparr>,
      frame_in_block := frame_in_block e + 1\<rparr>"
  have n: "unat (frame_in_block e1) = Suc (k mod ?K)"
  proof -
    have "frame_in_block e1 = of_nat (Suc (k mod ?K))" by (simp add: e1_def st)
    then show ?thesis using \<open>k mod ?K < ?K\<close> K(2) by (simp only: unat_of_nat) simp
  qed
  have src: "numbers (ce_seq e) (?src # rest) sq" if "numbers (ce_seq e + 1) rest sq" for rest sq
    using that by (intro numbers_Cons) (simp_all add: source_packet_def)
  have v: "voice ?src" "timestamp (header ?src) = timestamp_ms e" "fec_block (header ?src) = fec_position q k"
    using K(3) False st by (simp_all add: voice_def) (simp_all add: source_packet_def fec_position_def)
  have send: "send_voice F b e =
      (if ?K \<le> Suc (k mod ?K) then let (repairs, e2) = close_block F e1 in (Inr (?src # repairs), e2)
       else (Inr [?src], e1))"
    using False n by (simp add: send_voice_def Let_def st(1) add) (simp add: e1_def st)
  show ?thesis
  proof (cases "?K \<le> Suc (k mod ?K)")
    case True
    obtain rep e2 where c: "close_block F e1 = (rep, e2)" by fastforce
    note cp = close_block_props[OF c]
    have "Suc k mod ?K = 0" "Suc k div ?K = Suc (k div ?K)"
      using True \<open>k mod ?K < ?K\<close> by (auto simp: mod_Suc div_Suc)
    moreover have "filter voice rep = []" using cp(2) by (auto simp: voice_def filter_empty_conv)
    ultimately have "sent_frame e q k (?src # rep) e2"
      using cp v src[of rep "ce_seq e2"] st False
      by (simp add: sent_frame_def enc_inv_def e1_def add.commute)
    then show ?thesis using send True c by auto
  next
    case part: False
    then have "Suc k mod ?K = Suc (k mod ?K)" "Suc k div ?K = k div ?K"
      by (auto simp: mod_Suc div_Suc)
    then have "sent_frame e q k [?src] e1"
      using v src[of "[]" "ce_seq e + 1"] st False
      by (simp add: sent_frame_def enc_inv_def e1_def numbers_def add.commute)
    then show ?thesis using send part by auto
  qed
qed


lemma clean_up_frame:
  "clean_up L p e = (p', e') \<Longrightarrow> ce_profile e' = ce_profile e \<and> ce_block_id e' = ce_block_id e \<and>
     frame_in_block e' = frame_in_block e \<and> fec_enc e' = fec_enc e \<and> ce_seq e' = ce_seq e \<and>
     timestamp_ms e' = timestamp_ms e \<and> cn_counter e' = cn_counter e \<and>
     frames_suppressed e' = frames_suppressed e"
  by (auto simp: clean_up_def case_prod_unfold Let_def)

definition never_fails :: "('a, 'd, 'e) audio_lib \<Rightarrow> bool" where
  "never_fails L \<longleftrightarrow> (\<forall>p e. fst (audio_encode L p e) \<noteq> None)"

lemma encode_frame_sent:
  assumes L: "never_fails L" and i: "enc_inv q k e" and q: "profile_ok q"
  shows "\<exists>out e'. encode_frame L F p e = (Inr out, e') \<and> sent_frame e q k out e'"
proof -
  obtain p1 e1 where c: "clean_up L p e = (p1, e1)" by fastforce
  note cf = clean_up_frame[OF c]
  obtain silent e2 where s: "(if suppression_enabled e1
      then let (b, d) = Dsp.is_silent p1 (silence_detector e1) in (b, e1\<lparr>silence_detector := d\<rparr>)
      else (False, e1)) = (silent, e2)" by fastforce
  then have e2: "ce_profile e2 = ce_profile e" "ce_block_id e2 = ce_block_id e" "fec_enc e2 = fec_enc e"
    "frame_in_block e2 = frame_in_block e" "ce_seq e2 = ce_seq e" "timestamp_ms e2 = timestamp_ms e"
    using cf by (auto split: if_splits prod.splits)
  have same: "sent_frame e q k out e'" if "sent_frame x q k out e'" "ce_profile x = ce_profile e"
    "ce_seq x = ce_seq e" "timestamp_ms x = timestamp_ms e" for x :: "('a, 'b, 'c) CallEncoder" and out e'
    using that by (simp add: sent_frame_def)
  show ?thesis
  proof (cases silent)
    case True
    obtain out e3 where f: "suppress_frame e2 = (out, e3)" by fastforce
    have "enc_inv q k e2" using i e2 by (simp add: enc_inv_def)
    then have "sent_frame e q k out e3" using suppress_frame_sent[OF _ f] same e2 by blast
    then show ?thesis using c s f True by (simp add: encode_frame_def)
  next
    case False
    obtain b ae where a: "audio_encode L p1 (audio_enc e2) = (Some b, ae)"
      using L unfolding never_fails_def by (metis option.exhaust prod.collapse)
    let ?e3 = "e2\<lparr>cn_counter := 0, audio_enc := ae\<rparr>"
    have "enc_inv q k ?e3" using i e2 by (simp add: enc_inv_def)
    then obtain out e4 where v: "send_voice F b ?e3 = (Inr out, e4)" "sent_frame ?e3 q k out e4"
      using send_voice_sent[OF _ q] by blast
    then have "sent_frame e q k out e4" by (intro same[OF v(2)]) (simp_all add: e2)
    then show ?thesis using c s a v(1) False by (simp add: encode_frame_def Let_def)
  qed
qed

lemma encode_run_sent:
  assumes L: "never_fails L" and q: "profile_ok q"
  shows "enc_inv q k e \<Longrightarrow> \<exists>outs e'. encode_run L F ps e = (Inr outs, e') \<and>
    length outs = length ps \<and> numbers (ce_seq e) (concat outs) (ce_seq e') \<and>
    (\<forall>i < length ps. \<forall>p \<in> set (outs ! i). voice p \<longrightarrow>
       timestamp (header p) = timestamp_ms e + of_nat (i * profile_frame_ms q)) \<and>
    map (fec_block \<circ> header) (filter voice (concat outs)) =
      map (fec_position q) [k..<k + length (filter voice (concat outs))]"
proof (induction ps arbitrary: k e)
  case Nil
  then show ?case by (simp add: numbers_def)
next
  case (Cons p ps)
  obtain out e1 where f: "encode_frame L F p e = (Inr out, e1)" and sf: "sent_frame e q k out e1"
    using encode_frame_sent[OF L Cons.prems q] by blast
  let ?n = "length (filter voice out)"
  have n: "numbers (ce_seq e) out (ce_seq e1)" and t: "timestamp_ms e1 = timestamp_ms e + frame_ms e"
    and i1: "enc_inv q (k + ?n) e1" and le: "?n \<le> 1"
    and v: "\<forall>x \<in> set (filter voice out). timestamp (header x) = timestamp_ms e \<and>
      fec_block (header x) = fec_position q k"
    using sf unfolding sent_frame_def by blast+
  have ms: "frame_ms e = of_nat (profile_frame_ms q)" using Cons.prems by (simp add: enc_inv_def)
  obtain outs e2 where r: "encode_run L F ps e1 = (Inr outs, e2)" "length outs = length ps"
    "numbers (ce_seq e1) (concat outs) (ce_seq e2)"
    and ts: "\<forall>i < length ps. \<forall>x \<in> set (outs ! i). voice x \<longrightarrow>
      timestamp (header x) = timestamp_ms e1 + of_nat (i * profile_frame_ms q)"
    and fp: "map (fec_block \<circ> header) (filter voice (concat outs)) =
      map (fec_position q) [k + ?n..<k + ?n + length (filter voice (concat outs))]"
    using Cons.IH[OF i1] by blast
  have "\<forall>x \<in> set ((out # outs) ! i). voice x \<longrightarrow>
      timestamp (header x) = timestamp_ms e + of_nat (i * profile_frame_ms q)" if "i < length (p # ps)" for i
    using that v ts t ms by (cases i) (auto simp: algebra_simps)
  moreover have "map (fec_block \<circ> header) (filter voice out) = map (fec_position q) [k..<k + ?n]"
    using v le by (cases "filter voice out") (auto simp: upt_rec)
  then have "map (fec_block \<circ> header) (filter voice (concat (out # outs))) =
      map (fec_position q) [k..<k + length (filter voice (concat (out # outs)))]"
    using fp upt_add_eq_append[of k "k + ?n" "length (filter voice (concat outs))"]
    by (simp add: add.assoc)
  ultimately show ?case
    using f r numbers_append[OF n r(3)] by (intro exI[of _ "out # outs"] exI[of _ e2]) (simp add: o_def)
qed

text \<open>
  C36 (the packet stream of a call).  As long as the audio codec does not fail, encoding never fails.
  Over any captured frames, silent or not, all packets carry consecutive sequence numbers from 0; the
  voice packet of frame \<open>i\<close> is stamped \<open>i\<close> frame lengths, so silence leaves a gap in time and none in
  numbering; and the \<open>k\<close>-th voice packet takes place \<open>k mod n\<close> of block \<open>k div n\<close> for a profile with
  blocks of \<open>n\<close> frames, and none for Opus.
\<close>

theorem encoder_stream:
  assumes "never_fails L" and "profile_ok (cfg_profile cfg)"
  shows "\<exists>outs e'. encode_run L F ps (call_encoder_new cfg a d c) = (Inr outs, e') \<and>
    length outs = length ps \<and>
    map (seq \<circ> header) (concat outs) = map of_nat [0..<length (concat outs)] \<and>
    (\<forall>i < length ps. \<forall>p \<in> set (outs ! i). voice p \<longrightarrow>
       timestamp (header p) = of_nat (i * profile_frame_ms (cfg_profile cfg))) \<and>
    map (fec_block \<circ> header) (filter voice (concat outs)) =
      map (fec_position (cfg_profile cfg)) [0..<length (filter voice (concat outs))]"
proof -
  let ?e = "call_encoder_new cfg a d c"
  have "enc_inv (cfg_profile cfg) 0 ?e"
    by (simp add: enc_inv_def call_encoder_new_def create_encoder_def build_encoder_def
        fec_from_profile_def set_keyframe_ratio_def encoder_new_def)
  from encode_run_sent[OF assms this, of F ps] show ?thesis
    by (auto simp: numbers_def seq_from_map call_encoder_new_def)
qed

definition copy_lib :: "(unit, unit, unit) audio_lib" where
  "copy_lib =
     \<lparr>aec_process = Pair, denoise_process = Pair,
      audio_encode = (\<lambda>p u. (Some (map ucast p), u)), audio_set_profile = (\<lambda>_ u. (True, u))\<rparr>"

theorem encoder_stream_witness:
  "never_fails copy_lib \<and>
   (\<exists>outs e'. encode_run copy_lib plain_fountain [[0], [1]]
        (call_encoder_new (call_config_from_profile CATASTROPHIC) () () ()) = (Inr outs, e') \<and>
      map (seq \<circ> header) (concat outs) = map of_nat [0..<length (concat outs)])"
proof -
  have l: "never_fails copy_lib" by (simp add: never_fails_def copy_lib_def)
  have "profile_ok (cfg_profile (call_config_from_profile CATASTROPHIC))"
    by (simp add: profile_ok_def call_config_from_profile_def call_config_default_def profile_defs)
  from encoder_stream[OF l this, of plain_fountain "[[0], [1]]" "()" "()" "()"] l show ?thesis by blast
qed

section \<open>Comfort noise\<close>

lemma encode_frame_suppressed:
  assumes "encode_frame L F p e = (Inr out, e')" and "frames_suppressed e' \<noteq> frames_suppressed e"
  shows "frames_suppressed e' = Suc (frames_suppressed e) \<and> cn_counter e' = cn_counter e + 1 \<and>
    length out = (if cn_due (cn_counter e') then 1 else 0)"
proof -
  obtain p1 e1 where c: "clean_up L p e = (p1, e1)" by fastforce
  note cf = clean_up_frame[OF c]
  have voiced: "frames_suppressed (snd (send_voice F b x)) = frames_suppressed x" for b and x :: "('a, 'b, 'c) CallEncoder"
    by (auto simp: send_voice_def close_block_def Let_def split: sum.split prod.split)
  show ?thesis
    using assms cf c
    by (auto simp: encode_frame_def suppress_frame_def Let_def split: if_splits prod.splits option.splits
        dest!: arg_cong[of "send_voice _ _ _" _ "frames_suppressed \<circ> snd"]
        simp: voiced)
qed


lemma encode_frame_counts:
  "encode_frame L F p e = (Inr out, e') \<Longrightarrow> frames_suppressed e' \<le> Suc (frames_suppressed e)"
  using encode_frame_suppressed[of L F p e out e'] by (cases "frames_suppressed e' = frames_suppressed e") auto

lemma encode_run_counts:
  "encode_run L F ps e = (Inr outs, e') \<Longrightarrow> frames_suppressed e' \<le> frames_suppressed e + length ps"
proof (induction ps arbitrary: e outs)
  case (Cons p ps)
  then obtain out e1 outs' where "encode_frame L F p e = (Inr out, e1)" "encode_run L F ps e1 = (Inr outs', e')"
    by (auto split: prod.splits sum.splits)
  then show ?case using encode_frame_counts[of L F p e out e1] Cons.IH[of e1 outs'] by simp
qed simp

lemma cn_packets:
  "encode_run L F ps e = (Inr outs, e') \<Longrightarrow> frames_suppressed e' = frames_suppressed e + length ps \<Longrightarrow>
   cn_counter e = of_nat c \<Longrightarrow> c + length ps < 2 ^ 32 \<Longrightarrow>
   length (concat outs) + c div 10 = (c + length ps) div 10"
proof (induction ps arbitrary: e outs c)
  case (Cons p ps)
  then obtain out e1 outs' where f: "encode_frame L F p e = (Inr out, e1)"
    and r: "encode_run L F ps e1 = (Inr outs', e')" and o: "outs = out # outs'"
    by (auto split: prod.splits sum.splits)
  have "frames_suppressed e1 \<le> Suc (frames_suppressed e)" using encode_frame_counts[OF f] .
  then have s: "frames_suppressed e1 = Suc (frames_suppressed e)"
    using encode_run_counts[OF r] Cons.prems(2) by simp
  have cn: "cn_counter e1 = of_nat (Suc c)" "length out = (if cn_due (cn_counter e1) then 1 else 0)"
    using encode_frame_suppressed[OF f] s Cons.prems(3) by (simp_all add: add.commute)
  have "unat (of_nat (Suc c) :: u32) = Suc c" using Cons.prems(4) by (simp only: unat_of_nat) simp
  then have "length out + c div 10 = Suc c div 10"
    unfolding cn cn_due_def by (auto simp: div_Suc)
  then show ?case using Cons.IH[OF r _ cn(1)] s Cons.prems(2,4) o by simp
qed simp

text \<open>
  Also (comfort noise).  Over a stretch of \<open>n\<close> captured frames that are all suppressed, beginning after
  a voiced frame, the encoder sends exactly \<open>n div 10\<close> packets.
\<close>

theorem comfort_noise_rate:
  assumes "encode_run L F ps e = (Inr outs, e')" and "cn_counter e = 0"
    and "frames_suppressed e' = frames_suppressed e + length ps" and "length ps < 2 ^ 32"
  shows "length (concat outs) = length ps div 10"
  using cn_packets[OF assms(1,3), of 0] assms(2,4) by simp

definition silent_encoder :: "(unit, unit, unit) CallEncoder" where
  "silent_encoder = call_encoder_new (call_config_default\<lparr>cfg_silence_hangover_frames := 0\<rparr>) () () ()"

theorem comfort_noise_rate_witness:
  "\<exists>outs e'. encode_run copy_lib plain_fountain (replicate 10 [0]) silent_encoder = (Inr outs, e') \<and>
     length (concat outs) = 1"
proof -
  define cfg where "cfg = call_config_default\<lparr>cfg_silence_hangover_frames := 0\<rparr>"
  have rms: "rms [0] = 0" by (simp add: rms_def sample_of_def)
  have quiet: "\<exists>out e'. encode_frame copy_lib plain_fountain [0] e = (Inr out, e') \<and>
      frames_suppressed e' = Suc (frames_suppressed e) \<and> suppression_enabled e' \<and>
      threshold_rms (silence_detector e') = 100 \<and> hangover_frames (silence_detector e') = 0"
    if "suppression_enabled e" "threshold_rms (silence_detector e) = 100" "hangover_frames (silence_detector e) = 0"
    for e :: "(unit, unit, unit) CallEncoder"
  proof -
    have "(0 :: u32) < (if x = - 1 then - 1 else x + 1)" for x :: u32
      by (auto simp: word_gt_0 eq_neg_iff_add_eq_0 [symmetric])
    then show ?thesis
      using that
      by (auto simp: encode_frame_def clean_up_def copy_lib_def agc_process_def rms is_silent_def
          suppress_frame_def Let_def)
  qed
  have "\<exists>outs e'. encode_run copy_lib plain_fountain (replicate n [0]) e = (Inr outs, e') \<and>
      frames_suppressed e' = frames_suppressed e + n"
    if "suppression_enabled e" "threshold_rms (silence_detector e) = 100" "hangover_frames (silence_detector e) = 0"
    for n and e :: "(unit, unit, unit) CallEncoder"
    using that
  proof (induction n arbitrary: e)
    case (Suc n)
    then show ?case using quiet[OF Suc.prems] by fastforce
  qed simp
  moreover have "suppression_enabled silent_encoder" "threshold_rms (silence_detector silent_encoder) = 100"
    "hangover_frames (silence_detector silent_encoder) = 0" "cn_counter silent_encoder = 0"
    by (simp_all add: silent_encoder_def call_encoder_new_def call_config_default_def detector_new_def)
  ultimately obtain outs e' where r: "encode_run copy_lib plain_fountain (replicate 10 [0]) silent_encoder = (Inr outs, e')"
    "frames_suppressed e' = frames_suppressed silent_encoder + 10" "cn_counter silent_encoder = 0"
    by blast
  have "length (concat outs) = length (replicate 10 [0 :: 16 word]) div 10"
    by (rule comfort_noise_rate[OF r(1,3)]) (simp_all add: r(2))
  then show ?thesis using r(1) by auto
qed

text \<open>
  Also (comfort noise and the timeline).  A comfort noise packet is stamped after the clock advanced,
  a voice packet before: the voice packet that follows carries the same timestamp.
\<close>

lemma comfort_noise_shares_timestamp:
  "suppress_frame e = ([p], e') \<Longrightarrow> timestamp (header p) = timestamp (header (source_packet b e'))"
  by (auto simp: suppress_frame_def source_packet_def Let_def split: if_splits)

text \<open>
  Also (serialization without mini frames).  With mini frames switched off the encoder writes the
  packet without the frame type byte that the receiver's \<open>deserialize_compact\<close> starts with, so every
  packet of the encoder is refused.
\<close>

theorem plain_serialization_is_refused:
  assumes "\<not> ce_mini_frames_enabled e" and "version (header p) = 2"
  shows "fst (decode_compact (fst (serialize_compact p e)) ctx) = None"
  using assms by (simp add: serialize_compact_def packet_to_bytes_def header_write_to_def decode_compact_def)

theorem plain_serialization_is_refused_witness:
  "fst (decode_compact (fst (serialize_compact (source_packet [1, 2] silent_encoder)
     (silent_encoder\<lparr>ce_mini_frames_enabled := False\<rparr>))) None) = None"
  by (rule plain_serialization_is_refused) (simp_all add: source_packet_def)

end
