(* ===== verification/CallRecv.thy ===== *)
theory CallRecv
  imports Dsp Packet Jitter Fec Quality CallSend
begin

text \<open>
  The receiving side of a call, \<open>CallDecoder\<close> of \<open>crates/wzp-client/src/call.rs\<close>: FEC symbols and
  DRED side data are noted as packets come in, source packets go to the jitter buffer, and each
  playout slot is decoded, reconstructed or concealed.  The audio decoder and libopus's DRED parser
  are parameters; the random samples of comfort noise are only counted.
\<close>

section \<open>State\<close>

record ('s, 'r) decoder_lib =
  dec_packet :: "byte list \<Rightarrow> 's \<Rightarrow> pcm option \<times> 's"
  dec_lost :: "'s \<Rightarrow> pcm option \<times> 's"
  dec_dred :: "'r \<Rightarrow> int \<Rightarrow> 's \<Rightarrow> pcm option \<times> 's"
  dec_set_profile :: "QualityProfile \<Rightarrow> 's \<Rightarrow> bool \<times> 's"
  dred_parse :: "byte list \<Rightarrow> (int \<times> 'r) option"
  samples_available :: "'r \<Rightarrow> int"

record ('s, 'r) CallDecoder =
  audio_dec :: 's
  fec_dec :: FecDecoder
  cd_jitter :: JitterBuffer
  cd_quality :: AdaptiveQualityController
  cd_profile :: QualityProfile
  last_was_cn :: bool
  cd_mini_context :: MiniFrameContext
  last_good_dred :: 'r
  last_good_dred_seq :: "u32 option"
  dred_reconstructions :: nat
  classical_plc_invocations :: nat

definition create_decoder :: "QualityProfile \<Rightarrow> FecDecoder" where
  "create_decoder p = (let cfg = fec_from_profile p in decoder_new (fec_frames cfg) (fec_symbol_size cfg))"

definition call_decoder_new :: "CallConfig \<Rightarrow> 's \<Rightarrow> 'r \<Rightarrow> ('s, 'r) CallDecoder" where
  "call_decoder_new cfg dec0 dred0 =
     \<lparr>audio_dec = dec0, fec_dec = create_decoder (cfg_profile cfg),
      cd_jitter = (if cfg_adaptive_jitter cfg
                   then jitter_new_adaptive (cfg_jitter_min cfg) (cfg_jitter_max cfg)
                   else jitter_new (cfg_jitter_target cfg) (cfg_jitter_max cfg) (cfg_jitter_min cfg)),
      cd_quality = controller_new, cd_profile = cfg_profile cfg, last_was_cn = False,
      cd_mini_context = None, last_good_dred = dred0, last_good_dred_seq = None,
      dred_reconstructions = 0, classical_plc_invocations = 0\<rparr>"

definition deserialize_compact ::
  "byte list \<Rightarrow> ('s, 'r) CallDecoder \<Rightarrow> MediaPacket option \<times> ('s, 'r) CallDecoder" where
  "deserialize_compact buf d =
     (let (p, ctx) = decode_compact buf (cd_mini_context d) in (p, d\<lparr>cd_mini_context := ctx\<rparr>))"

section \<open>Ingest\<close>

definition note_symbol :: "nat \<Rightarrow> MediaPacket \<Rightarrow> ('s, 'r) CallDecoder \<Rightarrow> ('s, 'r) CallDecoder" where
  "note_symbol now pkt d =
     (let h = header pkt in
      if is_opus (codec_id h) then d
      else d\<lparr>fec_dec := add_symbol now (fec_block h) (drop_bit 8 (fec_block h)) (payload pkt) (fec_dec d)\<rparr>)"

definition note_dred :: "('s, 'r) decoder_lib \<Rightarrow> MediaPacket \<Rightarrow> ('s, 'r) CallDecoder \<Rightarrow> ('s, 'r) CallDecoder" where
  "note_dred L pkt d =
     (let h = header pkt in
      if is_opus (codec_id h) \<and> \<not> is_repair h then
        (case dred_parse L (payload pkt) of
           Some (available, st) \<Rightarrow>
             if 0 < available then d\<lparr>last_good_dred := st, last_good_dred_seq := Some (seq h)\<rparr> else d
         | None \<Rightarrow> d)
      else d)"

definition call_ingest ::
  "('s, 'r) decoder_lib \<Rightarrow> nat \<Rightarrow> MediaPacket \<Rightarrow> ('s, 'r) CallDecoder \<Rightarrow> ('s, 'r) CallDecoder" where
  "call_ingest L now pkt d =
     (let d = note_dred L pkt (note_symbol now pkt d) in
      if is_repair (header pkt) then d else d\<lparr>cd_jitter := jitter_push now pkt (cd_jitter d)\<rparr>)"

section \<open>Playout\<close>

text \<open>\<open>None\<close> is the panic on a video codec.\<close>

fun profile_for_codec :: "CodecId \<Rightarrow> QualityProfile option" where
  "profile_for_codec Opus24k = Some GOOD"
| "profile_for_codec Opus16k =
     Some (GOOD\<lparr>codec := Opus16k, fec_ratio := 3 / 10, profile_frame_ms := 20, frames_per_block := 5\<rparr>)"
| "profile_for_codec Opus6k = Some DEGRADED"
| "profile_for_codec Opus32k = Some STUDIO_32K"
| "profile_for_codec Opus48k = Some STUDIO_48K"
| "profile_for_codec Opus64k = Some STUDIO_64K"
| "profile_for_codec Codec2_3200 =
     Some (GOOD\<lparr>codec := Codec2_3200, fec_ratio := 1 / 2, profile_frame_ms := 20, frames_per_block := 5\<rparr>)"
| "profile_for_codec Codec2_1200 = Some CATASTROPHIC"
| "profile_for_codec ComfortNoise = Some GOOD"
| "profile_for_codec H264Baseline = None"
| "profile_for_codec H265Main = None"
| "profile_for_codec Av1Main = None"

definition switch_decoder_if_needed ::
  "('s, 'r) decoder_lib \<Rightarrow> CodecId \<Rightarrow> ('s, 'r) CallDecoder \<Rightarrow> ('s, 'r) CallDecoder option" where
  "switch_decoder_if_needed L incoming d =
     (if incoming = codec (cd_profile d) \<or> incoming = ComfortNoise then Some d
      else
        (case profile_for_codec incoming of None \<Rightarrow> None
         | Some p \<Rightarrow>
             let (ok, s) = dec_set_profile L p (audio_dec d); d = d\<lparr>audio_dec := s\<rparr> in
             Some (if ok then d\<lparr>fec_dec := create_decoder p, cd_profile := p\<rparr> else d)))"

datatype playout = Sound pcm | Noise nat

definition note_decoded :: "pcm option \<Rightarrow> ('s, 'r) CallDecoder \<Rightarrow> playout option \<times> ('s, 'r) CallDecoder" where
  "note_decoded res d =
     (case res of None \<Rightarrow> (None, d)
      | Some s \<Rightarrow> (Some (Sound s), d\<lparr>cd_jitter := record_decode (cd_jitter d)\<rparr>))"

definition play_packet ::
  "('s, 'r) decoder_lib \<Rightarrow> nat \<Rightarrow> MediaPacket \<Rightarrow> ('s, 'r) CallDecoder \<Rightarrow>
   (playout option \<times> ('s, 'r) CallDecoder) option" where
  "play_packet L n pkt d =
     (if codec_id (header pkt) = ComfortNoise
      then Some (Some (Noise n), d\<lparr>last_was_cn := True, cd_jitter := record_decode (cd_jitter d)\<rparr>)
      else
        (case switch_decoder_if_needed L (codec_id (header pkt)) d of None \<Rightarrow> None
         | Some d \<Rightarrow>
             let (res, s) = dec_packet L (payload pkt) (audio_dec d);
                 (res, s) = (case res of Some x \<Rightarrow> (Some x, s) | None \<Rightarrow> dec_lost L s) in
             Some (note_decoded res (d\<lparr>last_was_cn := False, audio_dec := s\<rparr>))))"

abbreviation (input) MAX_SEQ_DELTA :: u32 where "MAX_SEQ_DELTA \<equiv> 128"

text \<open>The offset into the DRED data that covers a missing packet, if they do cover it.\<close>

definition dred_offset :: "('s, 'r) decoder_lib \<Rightarrow> u32 \<Rightarrow> ('s, 'r) CallDecoder \<Rightarrow> int option" where
  "dred_offset L missing_seq d =
     (if is_opus (codec (cd_profile d)) then
        (case last_good_dred_seq d of None \<Rightarrow> None
         | Some last_seq \<Rightarrow>
             let delta = last_seq - missing_seq in
             if 0 < delta \<and> delta \<le> MAX_SEQ_DELTA then
               let frame_samples = int (48000 * profile_frame_ms (cd_profile d)) div 1000;
                   offset = int (unat delta) * frame_samples in
               if 0 < offset \<and> offset \<le> samples_available L (last_good_dred d) then Some offset else None
             else None)
      else None)"

definition play_plc ::
  "('s, 'r) decoder_lib \<Rightarrow> ('s, 'r) CallDecoder \<Rightarrow> playout option \<times> ('s, 'r) CallDecoder" where
  "play_plc L d =
     (let (res, s) = dec_lost L (audio_dec d) in
      note_decoded res (d\<lparr>audio_dec := s, classical_plc_invocations := classical_plc_invocations d + 1\<rparr>))"

definition play_missing ::
  "('s, 'r) decoder_lib \<Rightarrow> u32 \<Rightarrow> ('s, 'r) CallDecoder \<Rightarrow> playout option \<times> ('s, 'r) CallDecoder" where
  "play_missing L missing_seq d =
     (if buffer (cd_jitter d) = [] then (None, d\<lparr>cd_jitter := record_underrun (cd_jitter d)\<rparr>)
      else
        (case dred_offset L missing_seq d of
           None \<Rightarrow> play_plc L d
         | Some offset \<Rightarrow>
             (case dec_dred L (last_good_dred d) offset (audio_dec d) of
                (Some x, s) \<Rightarrow>
                  note_decoded (Some x)
                    (d\<lparr>audio_dec := s, dred_reconstructions := dred_reconstructions d + 1\<rparr>)
              | (None, s) \<Rightarrow> play_plc L (d\<lparr>audio_dec := s\<rparr>))))"

text \<open>\<open>n\<close> is the length of the caller's buffer.\<close>

definition decode_next ::
  "('s, 'r) decoder_lib \<Rightarrow> nat \<Rightarrow> ('s, 'r) CallDecoder \<Rightarrow> (playout option \<times> ('s, 'r) CallDecoder) option" where
  "decode_next L n d =
     (let (res, jb) = jitter_pop (cd_jitter d); d = d\<lparr>cd_jitter := jb\<rparr> in
      case res of
        PPacket pkt \<Rightarrow> play_packet L n pkt d
      | Missing sq \<Rightarrow> Some (play_missing L sq d)
      | NotReady \<Rightarrow> Some (None, d\<lparr>cd_jitter := record_underrun (cd_jitter d)\<rparr>))"

section \<open>Repair packets\<close>

datatype recv_op = Arrive nat MediaPacket | Play nat

text \<open>The results of the playout calls of a history and the decoder at its end; \<open>None\<close> if one panics.\<close>

fun receive ::
  "('s, 'r) decoder_lib \<Rightarrow> recv_op list \<Rightarrow> ('s, 'r) CallDecoder \<Rightarrow>
   (playout option list \<times> ('s, 'r) CallDecoder) option" where
  "receive L [] d = Some ([], d)"
| "receive L (Arrive now pkt # ops) d = receive L ops (call_ingest L now pkt d)"
| "receive L (Play n # ops) d =
     (case decode_next L n d of None \<Rightarrow> None
      | Some (r, d) \<Rightarrow> map_option (apfst ((#) r)) (receive L ops d))"

definition played ::
  "('s, 'r) decoder_lib \<Rightarrow> recv_op list \<Rightarrow> ('s, 'r) CallDecoder \<Rightarrow> playout option list option" where
  "played L ops d = map_option fst (receive L ops d)"

lemma played_simps [simp]:
  "played L [] d = Some []"
  "played L (Arrive now pkt # ops) d = played L ops (call_ingest L now pkt d)"
  "played L (Play n # ops) d =
     (case decode_next L n d of None \<Rightarrow> None | Some (r, d) \<Rightarrow> map_option ((#) r) (played L ops d))"
  by (simp_all add: played_def option.map_comp o_def split: option.split)

fun without_repairs :: "recv_op list \<Rightarrow> recv_op list" where
  "without_repairs [] = []"
| "without_repairs (Arrive now pkt # ops) =
     (if is_repair (header pkt) then without_repairs ops else Arrive now pkt # without_repairs ops)"
| "without_repairs (Play n # ops) = Play n # without_repairs ops"

definition same_but_fec :: "('s, 'r) CallDecoder \<Rightarrow> ('s, 'r) CallDecoder \<Rightarrow> bool" where
  "same_but_fec c d \<longleftrightarrow> (\<exists>f. d = c\<lparr>fec_dec := f\<rparr>)"

lemma same_but_fec_refl: "same_but_fec d d"
  unfolding same_but_fec_def by (rule exI[of _ "fec_dec d"]) simp

lemma call_ingest_same:
  assumes "same_but_fec c d"
  shows "same_but_fec (call_ingest L now pkt c) (call_ingest L now pkt d)"
    and "is_repair (header pkt) \<Longrightarrow> same_but_fec c (call_ingest L now pkt d)"
proof -
  obtain f where d: "d = c\<lparr>fec_dec := f\<rparr>" using assms by (auto simp: same_but_fec_def)
  show "is_repair (header pkt) \<Longrightarrow> same_but_fec c (call_ingest L now pkt d)"
    by (auto simp: d same_but_fec_def call_ingest_def note_dred_def note_symbol_def Let_def)
  have "call_ingest L now pkt (c\<lparr>fec_dec := f\<rparr>) = (call_ingest L now pkt c)
      \<lparr>fec_dec := fec_dec (call_ingest L now pkt (c\<lparr>fec_dec := f\<rparr>))\<rparr>"
    by (cases c) (simp add: call_ingest_def note_dred_def note_symbol_def Let_def split: option.split prod.split)
  then show "same_but_fec (call_ingest L now pkt c) (call_ingest L now pkt d)"
    unfolding d same_but_fec_def by blast
qed


lemma same_but_fecE:
  assumes "same_but_fec c d"
  obtains f where "d = c\<lparr>fec_dec := f\<rparr>"
  using assms by (auto simp: same_but_fec_def)

lemma switch_decoder_same:
  "rel_option same_but_fec (switch_decoder_if_needed L cd c)
     (switch_decoder_if_needed L cd (c\<lparr>fec_dec := f\<rparr>))"
  by (cases c) (simp add: switch_decoder_if_needed_def same_but_fec_def Let_def split: option.split prod.split)

lemma note_decoded_same:
  "rel_prod (=) same_but_fec (note_decoded res c) (note_decoded res (c\<lparr>fec_dec := f\<rparr>))"
  by (cases c) (simp add: note_decoded_def same_but_fec_def split: option.split)

lemma play_packet_same:
  "rel_option (rel_prod (=) same_but_fec) (play_packet L n pkt c) (play_packet L n pkt (c\<lparr>fec_dec := f\<rparr>))"
proof (cases "codec_id (header pkt) = ComfortNoise")
  case True
  then show ?thesis by (cases c) (simp add: play_packet_def same_but_fec_def)
next
  case False
  note sw = switch_decoder_same[of L "codec_id (header pkt)" c f]
  show ?thesis
  proof (cases "switch_decoder_if_needed L (codec_id (header pkt)) c")
    case None
    with sw False show ?thesis by (simp add: play_packet_def)
  next
    case (Some c')
    with sw obtain d' where d': "switch_decoder_if_needed L (codec_id (header pkt)) (c\<lparr>fec_dec := f\<rparr>) = Some d'"
      and "same_but_fec c' d'" by (auto simp: option_rel_Some1)
    then obtain g where g: "d' = c'\<lparr>fec_dec := g\<rparr>" by (blast elim: same_but_fecE)
    from False Some d' show ?thesis
      by (cases c') (simp add: g play_packet_def note_decoded_def same_but_fec_def Let_def split: prod.split option.split)
  qed
qed

lemma dred_offset_same: "dred_offset L sq (c\<lparr>fec_dec := f\<rparr>) = dred_offset L sq c"
  by (simp add: dred_offset_def Let_def split: option.split)

lemma play_plc_same: "rel_prod (=) same_but_fec (play_plc L c) (play_plc L (c\<lparr>fec_dec := f\<rparr>))"
  by (cases c) (simp add: play_plc_def note_decoded_def same_but_fec_def Let_def split: option.split prod.split)

lemma play_missing_same:
  "rel_prod (=) same_but_fec (play_missing L sq c) (play_missing L sq (c\<lparr>fec_dec := f\<rparr>))"
proof (cases "buffer (cd_jitter c) = []")
  case True
  then show ?thesis by (cases c) (simp add: play_missing_def same_but_fec_def)
next
  case False
  then show ?thesis
    by (cases c)
      (simp add: play_missing_def dred_offset_same[where c = c, symmetric] play_plc_def note_decoded_def
        same_but_fec_def Let_def dred_offset_def split: option.split prod.split)
qed

lemma decode_next_same:
  assumes "same_but_fec c d"
  shows "rel_option (rel_prod (=) same_but_fec) (decode_next L n c) (decode_next L n d)"
proof -
  obtain f where d: "d = c\<lparr>fec_dec := f\<rparr>" using assms by (rule same_but_fecE)
  have up: "c\<lparr>fec_dec := f, cd_jitter := j\<rparr> = c\<lparr>cd_jitter := j\<rparr>\<lparr>fec_dec := f\<rparr>" for j by (cases c) simp
  have last: "same_but_fec x (x\<lparr>fec_dec := f\<rparr>)" for x by (auto simp: same_but_fec_def)
  show ?thesis
    by (simp add: d decode_next_def Let_def up play_packet_same play_missing_same split: prod.split PlayoutResult.split)
      (simp add: up[symmetric] same_but_fec_def; cases c; simp)
qed

lemma played_same:
  "same_but_fec c d \<Longrightarrow> played L ops d = played L (without_repairs ops) c"
proof (induction L ops d arbitrary: c rule: receive.induct)
  case (2 L now pkt ops d)
  then show ?case by (auto simp: call_ingest_same)
next
  case (3 L n ops d)
  then show ?case
    using decode_next_same[OF "3.prems", of L n]
    by (cases "decode_next L n c"; cases "decode_next L n d") (auto split: prod.split)
qed simp

text \<open>
  Also (repair packets are never used).  They change nothing of what is heard: over every history of arrivals and
  playout calls, the results are the same when all repair packets are left out.  The FEC decoder only
  ever collects symbols; nothing asks it for a block, so loss of Codec2 packets is never repaired.
\<close>

theorem repairs_never_help: "played L ops d = played L (without_repairs ops) d"
  by (rule played_same[OF same_but_fec_refl])

section \<open>What a history counts\<close>

definition decoded_frames :: "('s, 'r) CallDecoder \<Rightarrow> nat" where
  "decoded_frames d = total_decoded (stats (cd_jitter d))"

definition stalls :: "('s, 'r) CallDecoder \<Rightarrow> nat" where
  "stalls d = underruns (stats (cd_jitter d))"

definition concealments :: "('s, 'r) CallDecoder \<Rightarrow> nat" where
  "concealments d = dred_reconstructions d + classical_plc_invocations d"

lemmas count_defs = decoded_frames_def stalls_def concealments_def

lemma jitter_pop_counts:
  "jitter_pop jb = (r, jb') \<Longrightarrow>
   total_decoded (stats jb') = total_decoded (stats jb) \<and> underruns (stats jb') = underruns (stats jb)"
  by (auto simp: jitter_pop_def Let_def split: if_splits option.splits)

lemma jitter_push_counts:
  "total_decoded (stats (jitter_push now p jb)) = total_decoded (stats jb) \<and>
   underruns (stats (jitter_push now p jb)) = underruns (stats jb)"
proof -
  have ev: "total_decoded (stats (evict jb)) = total_decoded (stats jb) \<and>
     underruns (stats (evict jb)) = underruns (stats jb)" for jb
  proof (induction jb rule: evict.induct)
    case (1 jb)
    have "total_decoded (stats (evict_first jb)) = total_decoded (stats jb) \<and>
       underruns (stats (evict_first jb)) = underruns (stats jb)"
      by (simp add: evict_first_def Let_def split: option.split)
    with 1 show ?case by (subst (1 2) evict.simps) simp
  qed
  have ad: "stats (adapt_push now p jb) = stats jb" for jb
    by (simp add: adapt_push_def Let_def split: option.split)
  show ?thesis
    by (simp add: jitter_push_def push_body_def note_arrival_def start_over_def store_packet_def record_depth_def
        Let_def ev ad)
qed

lemma call_ingest_counts [simp]:
  "decoded_frames (call_ingest L now p d) = decoded_frames d"
  "stalls (call_ingest L now p d) = stalls d"
  "concealments (call_ingest L now p d) = concealments d"
proof -
  have "cd_jitter (note_dred L p (note_symbol now p d)) = cd_jitter d"
    "dred_reconstructions (note_dred L p (note_symbol now p d)) = dred_reconstructions d"
    "classical_plc_invocations (note_dred L p (note_symbol now p d)) = classical_plc_invocations d"
    by (simp_all add: note_dred_def note_symbol_def Let_def split: option.split)
  then show "decoded_frames (call_ingest L now p d) = decoded_frames d"
    "stalls (call_ingest L now p d) = stalls d" "concealments (call_ingest L now p d) = concealments d"
    by (simp_all add: count_defs call_ingest_def Let_def jitter_push_counts)
qed

text \<open>What one playout call adds: a result is a decoded frame, no result a stall or a failed concealment.\<close>

definition counted ::
  "('s, 'r) decoder_lib \<Rightarrow> ('s, 'r) CallDecoder \<Rightarrow> playout option \<times> ('s, 'r) CallDecoder \<Rightarrow> bool" where
  "counted L d x \<longleftrightarrow>
     decoded_frames (snd x) = decoded_frames d + (if fst x = None then 0 else 1) \<and>
     stalls (snd x) \<le> stalls d + (if fst x = None then 1 else 0) \<and>
     ((\<forall>s. fst (dec_lost L s) \<noteq> None) \<longrightarrow> stalls (snd x) = stalls d + (if fst x = None then 1 else 0)) \<and>
     concealments (snd x) + stalls (snd x) \<le> concealments d + stalls d + 1"

lemma switch_decoder_counts:
  "switch_decoder_if_needed L cd d = Some d' \<Longrightarrow>
   cd_jitter d' = cd_jitter d \<and> dred_reconstructions d' = dred_reconstructions d \<and>
   classical_plc_invocations d' = classical_plc_invocations d"
  by (auto simp: switch_decoder_if_needed_def Let_def split: if_splits option.splits prod.splits)

lemma play_packet_counted: "play_packet L n pkt d = Some x \<Longrightarrow> counted L d x"
proof (cases "codec_id (header pkt) = ComfortNoise")
  case True
  then show "play_packet L n pkt d = Some x \<Longrightarrow> ?thesis"
    by (auto simp: play_packet_def counted_def count_defs record_decode_def)
next
  case False
  assume "play_packet L n pkt d = Some x"
  with False obtain d' where sw: "switch_decoder_if_needed L (codec_id (header pkt)) d = Some d'"
    and x: "x = (let (res, s) = dec_packet L (payload pkt) (audio_dec d');
                 (res, s) = (case res of Some x \<Rightarrow> (Some x, s) | None \<Rightarrow> dec_lost L s) in
             note_decoded res (d'\<lparr>last_was_cn := False, audio_dec := s\<rparr>))"
    by (auto simp: play_packet_def Let_def split: option.splits prod.splits)
  note k = switch_decoder_counts[OF sw]
  have lost: "(\<exists>s. dec_lost L s = (None, t)) \<Longrightarrow> \<not> (\<forall>s. fst (dec_lost L s) \<noteq> None)" for t
    by (metis fst_conv)
  show ?thesis
    using k lost
    by (auto simp: x counted_def count_defs note_decoded_def record_decode_def split: option.split prod.split)
qed

lemma play_missing_counted: "counted L d (play_missing L sq d)"
proof -
  have lost: "(\<exists>s. dec_lost L s = (None, t)) \<Longrightarrow> \<not> (\<forall>s. fst (dec_lost L s) \<noteq> None)" for t
    by (metis fst_conv)
  show ?thesis
    using lost
    by (auto simp: play_missing_def play_plc_def counted_def count_defs note_decoded_def record_decode_def
        record_underrun_def Let_def split: option.split prod.split)
qed

lemma decode_next_counted:
  assumes "decode_next L n d = Some x"
  shows "counted L d x"
proof -
  obtain r jb where pop: "jitter_pop (cd_jitter d) = (r, jb)" by fastforce
  have same: "counted L (d\<lparr>cd_jitter := jb\<rparr>) x \<Longrightarrow> counted L d x"
    using jitter_pop_counts[OF pop] by (simp add: counted_def count_defs)
  show ?thesis
  proof (cases r)
    case NotReady
    with assms pop jitter_pop_counts[OF pop] show ?thesis
      by (auto simp: decode_next_def counted_def count_defs record_underrun_def)
  next
    case (PPacket pkt)
    with assms pop show ?thesis
      by (intro same play_packet_counted[of _ n pkt]) (simp add: decode_next_def)
  next
    case (Missing sq)
    with assms pop show ?thesis
      using play_missing_counted[of L "d\<lparr>cd_jitter := jb\<rparr>" sq] by (intro same) (simp add: decode_next_def)
  qed
qed

abbreviation heard :: "playout option list \<Rightarrow> nat" where
  "heard rs \<equiv> length (filter (\<lambda>r. r \<noteq> None) rs)"

abbreviation silent :: "playout option list \<Rightarrow> nat" where
  "silent rs \<equiv> length (filter (\<lambda>r. r = None) rs)"

text \<open>
  Also (the telemetry adds up).  The receiver's telemetry adds up.  Over every history that ends without a panic, the
  decoded-frame counter grows by exactly the number of playout calls that returned audio.  The underrun
  counter grows by at most the number that returned nothing, and by exactly that number when the codec's
  loss concealment never fails.  Reconstructions, concealments and underruns together never exceed the calls.
\<close>

theorem playout_is_accounted:
  assumes "receive L ops d = Some (rs, d')"
  shows "decoded_frames d' = decoded_frames d + heard rs \<and>
     stalls d' \<le> stalls d + silent rs \<and>
     ((\<forall>s. fst (dec_lost L s) \<noteq> None) \<longrightarrow> stalls d' = stalls d + silent rs) \<and>
     concealments d' + stalls d' \<le> concealments d + stalls d + length rs"
  using assms
proof (induction L ops d arbitrary: rs rule: receive.induct)
  case (3 L n ops d)
  then obtain r e rs1 where e: "decode_next L n d = Some (r, e)" and rs: "rs = r # rs1"
    and rest: "receive L ops e = Some (rs1, d')"
    by (auto split: option.splits prod.splits)
  show ?case
    using "3.IH"[OF e refl rest] decode_next_counted[OF e] by (auto simp: counted_def rs)
qed auto

section \<open>Video packets\<close>

text \<open>
  Also (a video packet ends playout).  A packet of a video codec is stored like any other, and when its turn comes the decoder panics:
  nothing on the way from the network checks the codec, so a peer can end the receiver's playout task.
\<close>

theorem video_packet_panics:
  assumes "jitter_pop (cd_jitter d) = (PPacket pkt, jb)" "is_video (codec_id (header pkt))"
    and "\<not> is_video (codec (cd_profile d))"
  shows "decode_next L n d = None"
  using assms
  by (cases "codec_id (header pkt)")
    (auto simp: decode_next_def play_packet_def switch_decoder_if_needed_def is_video_def)

text \<open>A codec that never fails, and a stream of one codec, for examples.\<close>

definition steady_lib :: "(unit, unit) decoder_lib" where
  "steady_lib =
     \<lparr>dec_packet = (\<lambda>_ s. (Some [], s)), dec_lost = (\<lambda>s. (Some [], s)), dec_dred = (\<lambda>_ _ s. (Some [], s)),
      dec_set_profile = (\<lambda>_ s. (True, s)), dred_parse = (\<lambda>_. None), samples_available = (\<lambda>_. 0)\<rparr>"

definition heard_packet :: "CodecId \<Rightarrow> u32 \<Rightarrow> MediaPacket" where
  "heard_packet c sq =
     \<lparr>header = \<lparr>version = 2, flags = 0, media_type = Audio, codec_id = c, stream_id = 0,
        fec_ratio_wire = 0, seq = sq, timestamp = 0, fec_block = 0\<rparr>, payload = [], quality_report = None\<rparr>"

definition fixed_config :: CallConfig where
  "fixed_config = call_config_default\<lparr>cfg_adaptive_jitter := False, cfg_jitter_min := 1\<rparr>"

theorem playout_is_accounted_witness:
  "\<exists>d'. receive steady_lib [Arrive 0 (heard_packet ComfortNoise 7), Play 960, Play 960]
     (call_decoder_new fixed_config () ()) = Some ([Some (Noise 960), None], d') \<and>
   decoded_frames d' = 1 \<and> stalls d' = 1"
proof -
  let ?ops = "[Arrive 0 (heard_packet ComfortNoise 7), Play 960, Play 960]"
  let ?d = "call_decoder_new fixed_config () ()"
  have "map_option fst (receive steady_lib ?ops ?d) = Some [Some (Noise 960), None]"
    by code_simp
  then obtain d' where d': "receive steady_lib ?ops ?d = Some ([Some (Noise 960), None], d')"
    by (auto simp del: receive.simps)
  have "decoded_frames ?d = 0" "stalls ?d = 0" "\<forall>s. fst (dec_lost steady_lib s) \<noteq> None"
    by (simp_all add: count_defs call_decoder_new_def steady_lib_def fixed_config_def jitter_new_def
        stats_default_def call_config_default_def)
  with playout_is_accounted[OF d'] d' show ?thesis by (simp del: receive.simps)
qed

theorem video_packet_panics_witness:
  "let d = call_ingest steady_lib 0 (heard_packet H264Baseline 7) (call_decoder_new fixed_config () ()) in
   decode_next steady_lib 960 d = None"
proof -
  let ?d = "call_ingest steady_lib 0 (heard_packet H264Baseline 7) (call_decoder_new fixed_config () ())"
  have "fst (jitter_pop (cd_jitter ?d)) = PPacket (heard_packet H264Baseline 7)"
    by code_simp
  then obtain jb where "jitter_pop (cd_jitter ?d) = (PPacket (heard_packet H264Baseline 7), jb)"
    by (metis prod.collapse)
  then have "decode_next steady_lib 960 ?d = None"
    by (rule video_packet_panics) (simp_all add: call_ingest_def note_dred_def note_symbol_def heard_packet_def call_decoder_new_def
        fixed_config_def call_config_default_def is_video_def is_opus_def GOOD_def audio_profile_def Let_def)
  then show ?thesis by (simp only: Let_def)
qed

end
