(* ===== verification/Signalling.thy ===== *)
theory Signalling
  imports Calls Presence Federation
begin

text \<open>
  Direct calls through the relay: the hub of persistent signalling connections,
  \<open>crates/wzp-relay/src/signal_hub.rs\<close>, and the tasks of \<open>main.rs\<close> around it - the receive loop of
  a signalling connection with its registration and clean-up, the dispatcher of signals forwarded by
  federation peers, and the access check of call rooms.  A connection is a number; what a handler sends is
  its list of outputs, and sending does not fail.  A handler is one step here, although its code takes the
  locks of the hub and of the registry one after the other; the clean-up of a closed connection is modelled by
  its sections too, with any other task in between.  \<open>'x\<close> stands for the fields of a message that the
  relay passes on without reading them.
\<close>

section \<open>Messages and the hub\<close>

record Candidates =
  reflexive_addr :: "string option"
  local_addrs :: "string list"
  mapped_addr :: "string option"

datatype 'x Signal =
    DirectCallOffer (offer_caller: string) (offer_target: string) (offer_id: string) Candidates 'x
  | DirectCallAnswer string CallAcceptMode Candidates 'x
  | CallSetup (setup_id: string) (setup_room: string) (setup_relay: string) (setup_candidates: Candidates)
  | CallRinging string
  | MediaPathReport string 'x
  | CandidateUpdate string 'x
  | PeerNegotiation string 'x
  | Hangup "string option" 'x
  | HangupNormal "string option"
  | PresenceList "(string \<times> string option) list"
  | RegisterPresenceAck
  | Ping nat
  | Pong nat
  | Reflect
  | ReflectResponse string
  | OtherMessage 'x

text \<open>
  \<open>PeerNegotiation\<close> stands for the six variants one arm of the loop handles together (hard-NAT probes and
  births, upgrade proposals, responses and confirmations, quality capabilities); \<open>HangupNormal\<close> is the
  hang-up the relay itself writes, with reason \<open>Normal\<close>.
\<close>

record SignalClient =
  client_alias :: "string option"
  transport :: nat

type_synonym SignalHub = "(string, SignalClient) hashmap"

definition hub_register :: "string \<Rightarrow> nat \<Rightarrow> string option \<Rightarrow> SignalHub \<Rightarrow> SignalHub" where
  "hub_register fp conn al hub = hm_insert fp \<lparr>client_alias = al, transport = conn\<rparr> hub"

definition hub_unregister :: "string \<Rightarrow> SignalHub \<Rightarrow> SignalClient option \<times> SignalHub" where
  "hub_unregister fp hub = (hm_get hub fp, hm_remove fp hub)"

definition is_online :: "SignalHub \<Rightarrow> string \<Rightarrow> bool" where
  "is_online hub fp \<longleftrightarrow> hm_get hub fp \<noteq> None"

definition online_count :: "SignalHub \<Rightarrow> nat" where
  "online_count hub = length hub"

definition online_fingerprints :: "SignalHub \<Rightarrow> string list" where
  "online_fingerprints hub = map fst hub"

definition hub_alias :: "SignalHub \<Rightarrow> string \<Rightarrow> string option" where
  "hub_alias hub fp = Option.bind (hm_get hub fp) client_alias"

definition presence_list :: "SignalHub \<Rightarrow> 'x Signal" where
  "presence_list hub = PresenceList (map (\<lambda>(fp, c). (fp, client_alias c)) hub)"

datatype 'x RelayOut = ToClient nat "'x Signal" | ToRelay "'x Signal SignalOut"

definition hub_send_to :: "SignalHub \<Rightarrow> string \<Rightarrow> 'x Signal \<Rightarrow> 'x RelayOut list" where
  "hub_send_to hub fp msg = (case hm_get hub fp of None \<Rightarrow> [] | Some c \<Rightarrow> [ToClient (transport c) msg])"

definition hub_broadcast :: "SignalHub \<Rightarrow> 'x Signal \<Rightarrow> 'x RelayOut list" where
  "hub_broadcast hub msg = map (\<lambda>(_, c). ToClient (transport c) msg) hub"

section \<open>The relay\<close>

record Relay =
  hub :: SignalHub
  calls :: CallRegistry
  presence :: PresenceRegistry
  federation_mgr :: "FederationManager option"
  tls_fp :: string
  advertised_addr :: string

definition send_to :: "Relay \<Rightarrow> string \<Rightarrow> 'x Signal \<Rightarrow> 'x RelayOut list" where
  "send_to r = hub_send_to (hub r)"

text \<open>An envelope to all federation peers, with the number of peers, and to one of them.\<close>

definition forward_to_all :: "Relay \<Rightarrow> 'x Signal \<Rightarrow> 'x RelayOut list" where
  "forward_to_all r msg =
     (case federation_mgr r of None \<Rightarrow> []
      | Some fm \<Rightarrow> map ToRelay (broadcast_signal (FederatedSignalForward msg (tls_fp r)) fm))"

definition forward_to_relay :: "Relay \<Rightarrow> string \<Rightarrow> 'x Signal \<Rightarrow> 'x RelayOut list" where
  "forward_to_relay r fp msg =
     (case federation_mgr r of None \<Rightarrow> []
      | Some fm \<Rightarrow>
          (case send_signal_to_peer fp (FederatedSignalForward msg (tls_fp r)) fm of
             Inl _ \<Rightarrow> [] | Inr out \<Rightarrow> [ToRelay out]))"

definition place_call ::
  "nat \<Rightarrow> string \<Rightarrow> string \<Rightarrow> string \<Rightarrow> Candidates \<Rightarrow> CallRegistry \<Rightarrow> CallRegistry" where
  "place_call now cid caller target c reg =
     set_caller_mapped_addr cid (mapped_addr c)
       (set_caller_local_addrs cid (local_addrs c)
         (set_caller_reflexive_addr cid (reflexive_addr c) (create_call now cid caller target reg)))"

definition on_offer ::
  "nat \<Rightarrow> nat \<Rightarrow> string \<Rightarrow> string \<Rightarrow> string \<Rightarrow> Candidates \<Rightarrow> 'x Signal \<Rightarrow> Relay \<Rightarrow>
   'x RelayOut list \<times> Relay" where
  "on_offer now conn client_fp target cid c msg r =
     (if \<not> is_online (hub r) target then
        let forward = forward_to_all r msg in
        if forward = [] then ([ToClient conn (HangupNormal None)], r)
        else (forward @ [ToClient conn (CallRinging cid)],
              r\<lparr>calls := place_call now cid client_fp target c (calls r)\<rparr>)
      else
        (send_to r target msg @ [ToClient conn (CallRinging cid)],
         r\<lparr>calls := place_call now cid client_fp target c (calls r)\<rparr>))"

definition room_of_call :: "string \<Rightarrow> string" where
  "room_of_call cid = ''call-'' @ cid"

definition accept_call ::
  "nat \<Rightarrow> string \<Rightarrow> CallAcceptMode \<Rightarrow> Candidates \<Rightarrow> CallRegistry \<Rightarrow> CallRegistry" where
  "accept_call now cid mode c reg =
     set_callee_mapped_addr cid (mapped_addr c)
       (set_callee_local_addrs cid (local_addrs c)
         (set_callee_reflexive_addr cid (reflexive_addr c)
           (snd (set_active now cid mode (room_of_call cid) reg))))"

definition caller_candidates :: "CallRegistry \<Rightarrow> string \<Rightarrow> Candidates" where
  "caller_candidates reg cid =
     (case hm_get reg cid of None \<Rightarrow> \<lparr>reflexive_addr = None, local_addrs = [], mapped_addr = None\<rparr>
      | Some c \<Rightarrow> \<lparr>reflexive_addr = caller_reflexive_addr c, local_addrs = caller_local_addrs c,
                   mapped_addr = caller_mapped_addr c\<rparr>)"

definition callee_candidates :: "CallRegistry \<Rightarrow> string \<Rightarrow> Candidates" where
  "callee_candidates reg cid =
     (case hm_get reg cid of None \<Rightarrow> \<lparr>reflexive_addr = None, local_addrs = [], mapped_addr = None\<rparr>
      | Some c \<Rightarrow> \<lparr>reflexive_addr = callee_reflexive_addr c, local_addrs = callee_local_addrs c,
                   mapped_addr = callee_mapped_addr c\<rparr>)"

definition call_setup :: "Relay \<Rightarrow> string \<Rightarrow> Candidates \<Rightarrow> 'x Signal" where
  "call_setup r cid c = CallSetup cid (room_of_call cid) (advertised_addr r) c"

definition on_answer ::
  "nat \<Rightarrow> string \<Rightarrow> string \<Rightarrow> CallAcceptMode \<Rightarrow> Candidates \<Rightarrow> 'x Signal \<Rightarrow> Relay \<Rightarrow>
   'x RelayOut list \<times> Relay" where
  "on_answer now client_fp cid mode c msg r =
     (case hm_get (calls r) cid of None \<Rightarrow> ([], r)
      | Some entry \<Rightarrow>
          (case Calls.peer_fingerprint cid client_fp (calls r) of None \<Rightarrow> ([], r)
           | Some peer_fp \<Rightarrow>
               if mode = Reject then
                 let r = r\<lparr>calls := snd (end_call now cid (calls r))\<rparr> in
                 (case peer_relay_fp entry of
                    Some origin \<Rightarrow> (forward_to_relay r origin (HangupNormal (Some cid)), r)
                  | None \<Rightarrow> (send_to r peer_fp (HangupNormal (Some cid)), r))
               else
                 let r = r\<lparr>calls := accept_call now cid mode c (calls r)\<rparr>;
                     for_callee = call_setup r cid (caller_candidates (calls r) cid);
                     for_caller = call_setup r cid (callee_candidates (calls r) cid) in
                 (case peer_relay_fp entry of
                    Some origin \<Rightarrow> (forward_to_relay r origin msg @ send_to r client_fp for_callee, r)
                  | None \<Rightarrow>
                      (send_to r peer_fp msg @ send_to r peer_fp for_caller @
                       send_to r client_fp for_callee, r))))"

definition other_party :: "string \<Rightarrow> DirectCall \<Rightarrow> string" where
  "other_party fp c = (if caller_fingerprint c = fp then callee_fingerprint c else caller_fingerprint c)"

definition end_all :: "nat \<Rightarrow> DirectCall list \<Rightarrow> Relay \<Rightarrow> Relay" where
  "end_all now cs r = r\<lparr>calls := fold (\<lambda>c reg. snd (end_call now (call_id c) reg)) cs (calls r)\<rparr>"

definition on_hangup :: "nat \<Rightarrow> string \<Rightarrow> string option \<Rightarrow> 'x Signal \<Rightarrow> Relay \<Rightarrow> 'x RelayOut list \<times> Relay" where
  "on_hangup now client_fp cid msg r =
     (let ended = (case cid of
          Some k \<Rightarrow> (case hm_get (calls r) k of None \<Rightarrow> [] | Some c \<Rightarrow> [c])
        | None \<Rightarrow> calls_for_fingerprint client_fp (calls r)) in
      (concat (map (\<lambda>c. send_to r (other_party client_fp c) msg) ended), end_all now ended r))"

text \<open>Path reports, candidate updates and negotiations go to the other party, or to its relay.\<close>

definition pass_to_peer :: "string \<Rightarrow> string \<Rightarrow> 'x Signal \<Rightarrow> Relay \<Rightarrow> 'x RelayOut list" where
  "pass_to_peer client_fp cid msg r =
     (case hm_get (calls r) cid of None \<Rightarrow> []
      | Some entry \<Rightarrow>
          (case Calls.peer_fingerprint cid client_fp (calls r) of None \<Rightarrow> []
           | Some fp \<Rightarrow>
               (case peer_relay_fp entry of
                  Some origin \<Rightarrow> forward_to_relay r origin msg | None \<Rightarrow> send_to r fp msg)))"

definition on_signal ::
  "nat \<Rightarrow> nat \<Rightarrow> string \<Rightarrow> string \<Rightarrow> 'x Signal \<Rightarrow> Relay \<Rightarrow> 'x RelayOut list \<times> Relay" where
  "on_signal now conn addr client_fp msg r =
     (case msg of
        DirectCallOffer _ target cid c _ \<Rightarrow> on_offer now conn client_fp target cid c msg r
      | DirectCallAnswer cid mode c _ \<Rightarrow> on_answer now client_fp cid mode c msg r
      | Hangup cid _ \<Rightarrow> on_hangup now client_fp cid msg r
      | HangupNormal cid \<Rightarrow> on_hangup now client_fp cid msg r
      | MediaPathReport cid _ \<Rightarrow> (pass_to_peer client_fp cid msg r, r)
      | CandidateUpdate cid _ \<Rightarrow> (pass_to_peer client_fp cid msg r, r)
      | PeerNegotiation cid _ \<Rightarrow> (pass_to_peer client_fp cid msg r, r)
      | Ping t \<Rightarrow> ([ToClient conn (Pong t)], r)
      | Reflect \<Rightarrow> ([ToClient conn (ReflectResponse addr)], r)
      | _ \<Rightarrow> ([], r))"

section \<open>Connections\<close>

definition on_register ::
  "nat \<Rightarrow> nat \<Rightarrow> string \<Rightarrow> string option \<Rightarrow> Relay \<Rightarrow> 'x RelayOut list \<times> Relay" where
  "on_register now conn client_fp al r =
     (let r = r\<lparr>hub := hub_register client_fp conn al (hub r),
                presence := register_local now client_fp al None (presence r)\<rparr>;
          present = presence_list (hub r) in
      ([ToClient conn RegisterPresenceAck, ToClient conn present] @ hub_broadcast (hub r) present, r))"

definition on_close :: "nat \<Rightarrow> string \<Rightarrow> Relay \<Rightarrow> 'x RelayOut list \<times> Relay" where
  "on_close now client_fp r =
     (let active = calls_for_fingerprint client_fp (calls r);
          byes = concat (map (\<lambda>c. send_to r (other_party client_fp c) (HangupNormal (Some (call_id c)))) active);
          r = end_all now active r;
          r = r\<lparr>hub := snd (hub_unregister client_fp (hub r))\<rparr> in
      (byes @ hub_broadcast (hub r) (presence_list (hub r)),
       r\<lparr>presence := unregister_local client_fp (presence r)\<rparr>))"

text \<open>
  The clean-up in the sections the code has, each under one lock: the client's calls are listed, then for each the
  other party is hung up and the call ended, and then the client leaves the hub and the presence registry.
\<close>

datatype closing =
    Listing
  | Hanging string string "(string \<times> string) list"
  | Ending string "(string \<times> string) list"
  | Leaving
  | Forgetting

definition hang_next :: "(string \<times> string) list \<Rightarrow> closing" where
  "hang_next todo = (case todo of [] \<Rightarrow> Leaving | (cid, peer) # rest \<Rightarrow> Hanging cid peer rest)"

fun close_section :: "nat \<Rightarrow> string \<Rightarrow> closing \<Rightarrow> Relay \<Rightarrow> ('x RelayOut list \<times> Relay) \<times> closing option" where
  "close_section now fp Listing r =
     (([], r), Some (hang_next (map (\<lambda>c. (call_id c, other_party fp c)) (calls_for_fingerprint fp (calls r)))))"
| "close_section now fp (Hanging cid peer rest) r =
     ((send_to r peer (HangupNormal (Some cid)), r), Some (Ending cid rest))"
| "close_section now fp (Ending cid rest) r =
     (([], r\<lparr>calls := snd (end_call now cid (calls r))\<rparr>), Some (hang_next rest))"
| "close_section now fp Leaving r =
     (let r = r\<lparr>hub := snd (hub_unregister fp (hub r))\<rparr> in
      ((hub_broadcast (hub r) (presence_list (hub r)), r), Some Forgetting))"
| "close_section now fp Forgetting r =
     (([], r\<lparr>presence := unregister_local fp (presence r)\<rparr>), None)"

text \<open>
  The clean-up among other tasks: before its section number \<open>i\<close> they have changed the relay by \<open>env i\<close>, any function.
  The result is the list of its sections, each with the relay before, what it sends, and the relay after.
\<close>

record 'x turn =
  turn_before :: Relay
  turn_out :: "'x RelayOut list"
  turn_after :: Relay

fun closing_rank :: "closing \<Rightarrow> nat" where
  "closing_rank Listing = 0"
| "closing_rank (Hanging cid peer rest) = 2 * length rest + 4"
| "closing_rank (Ending cid rest) = 2 * length rest + 3"
| "closing_rank Leaving = 2"
| "closing_rank Forgetting = 1"

lemma hang_next_rank: "closing_rank (hang_next todo) \<le> 2 * length todo + 2" "hang_next todo \<noteq> Listing"
  by (auto simp: hang_next_def split: list.split)

lemma close_section_rank:
  assumes "snd (close_section now fp pc r) = Some pc'"
  shows "pc' \<noteq> Listing" "pc \<noteq> Listing \<Longrightarrow> closing_rank pc' < closing_rank pc"
  using assms hang_next_rank(2) hang_next_rank(1)[where todo = "case pc of Ending cid rest \<Rightarrow> rest | _ \<Rightarrow> []"]
  by (cases pc; force simp: Let_def)+

function close_all ::
  "nat \<Rightarrow> string \<Rightarrow> (nat \<Rightarrow> Relay \<Rightarrow> Relay) \<Rightarrow> nat \<Rightarrow> closing \<Rightarrow> Relay \<Rightarrow> 'x turn list" where
  "close_all now fp env i pc r =
     (let res = close_section now fp pc (env i r) in
      \<lparr>turn_before = env i r, turn_out = fst (fst res), turn_after = snd (fst res)\<rparr> #
      (case snd res of None \<Rightarrow> [] | Some pc' \<Rightarrow> close_all now fp env (i + 1) pc' (snd (fst res))))"
  by pat_completeness auto
termination
  by (relation "measures [\<lambda>(now, fp, env, i, pc, r). if pc = Listing then 1 else 0,
      \<lambda>(now, fp, env, i, pc, r). closing_rank pc]")
    (auto dest: close_section_rank)

declare close_all.simps [simp del]

section \<open>Signals from federation peers\<close>

definition cross_relay :: "nat \<Rightarrow> 'x Signal \<Rightarrow> string \<Rightarrow> Relay \<Rightarrow> 'x RelayOut list \<times> Relay" where
  "cross_relay now inner origin r =
     (case inner of
        DirectCallOffer caller target cid c _ \<Rightarrow>
          if \<not> is_online (hub r) target then ([], r)
          else
            let r = r\<lparr>calls := set_peer_relay_fp cid (Some origin) (place_call now cid caller target c (calls r))\<rparr> in
            (send_to r target inner, r)
      | DirectCallAnswer cid mode c _ \<Rightarrow>
          (case hm_get (calls r) cid of None \<Rightarrow> ([], r)
           | Some entry \<Rightarrow>
               if mode = Reject then
                 (send_to r (caller_fingerprint entry) (HangupNormal None),
                  r\<lparr>calls := snd (end_call now cid (calls r))\<rparr>)
               else
                 let reg = snd (set_active now cid mode (room_of_call cid) (calls r));
                     reg = set_callee_mapped_addr cid (mapped_addr c)
                             (set_callee_local_addrs cid (local_addrs c)
                               (set_callee_reflexive_addr cid (reflexive_addr c)
                                 (set_peer_relay_fp cid (Some origin) reg)));
                     r = r\<lparr>calls := reg\<rparr> in
                 (send_to r (caller_fingerprint entry) inner @
                  send_to r (caller_fingerprint entry) (call_setup r cid (callee_candidates reg cid)), r))
      | CallRinging cid \<Rightarrow>
          (case hm_get (calls r) cid of None \<Rightarrow> ([], r)
           | Some entry \<Rightarrow> (send_to r (caller_fingerprint entry) inner, r))
      | MediaPathReport cid _ \<Rightarrow>
          (case hm_get (calls r) cid of None \<Rightarrow> ([], r)
           | Some entry \<Rightarrow>
               (send_to r (caller_fingerprint entry) inner @ send_to r (callee_fingerprint entry) inner, r))
      | _ \<Rightarrow> ([], r))"

section \<open>Call rooms\<close>

text \<open>\<open>None\<close> where the room is not a call room and the check does not apply.\<close>

definition call_of_room :: "string \<Rightarrow> string option" where
  "call_of_room rname = (if take 5 rname = ''call-'' then Some (drop 5 rname) else None)"

definition room_admits :: "CallRegistry \<Rightarrow> string \<Rightarrow> string \<Rightarrow> bool" where
  "room_admits reg rname fp =
     (case call_of_room rname of None \<Rightarrow> True
      | Some cid \<Rightarrow>
          (case hm_get reg cid of None \<Rightarrow> False
           | Some c \<Rightarrow> caller_fingerprint c = fp \<or> callee_fingerprint c = fp))"

section \<open>Histories\<close>

text \<open>
  A connection task knows the fingerprint its client registered under and the client's address; they are
  the entries of \<open>sessions\<close>.
\<close>

datatype 'x event =
    Connect nat string string "string option"
  | Receive nat "'x Signal"
  | Disconnect nat
  | FromPeer "'x Signal" string

type_synonym sessions = "(nat, string \<times> string) hashmap"

fun relay_step :: "nat \<Rightarrow> 'x event \<Rightarrow> sessions \<times> Relay \<Rightarrow> 'x RelayOut list \<times> sessions \<times> Relay" where
  "relay_step now (Connect conn addr fp al) (ss, r) =
     (let (out, r) = on_register now conn fp al r in (out, hm_insert conn (fp, addr) ss, r))"
| "relay_step now (Receive conn msg) (ss, r) =
     (case hm_get ss conn of None \<Rightarrow> ([], ss, r)
      | Some (fp, addr) \<Rightarrow> let (out, r) = on_signal now conn addr fp msg r in (out, ss, r))"
| "relay_step now (Disconnect conn) (ss, r) =
     (case hm_get ss conn of None \<Rightarrow> ([], ss, r)
      | Some (fp, addr) \<Rightarrow> let (out, r) = on_close now fp r in (out, hm_remove conn ss, r))"
| "relay_step now (FromPeer inner origin) (ss, r) =
     (let (out, r) = cross_relay now inner origin r in (out, ss, r))"

fun relay_run :: "(nat \<times> 'x event) list \<Rightarrow> sessions \<times> Relay \<Rightarrow> 'x RelayOut list list \<times> sessions \<times> Relay" where
  "relay_run [] s = ([], s)"
| "relay_run ((now, e) # es) s =
     (let (out, s) = relay_step now e s; (outs, s) = relay_run es s in (out # outs, s))"

section \<open>The registry behind the signals\<close>

text \<open>Every handler changes the call registry by operations of the registry only.\<close>

definition registry_reaches :: "CallRegistry \<Rightarrow> CallRegistry \<Rightarrow> bool" where
  "registry_reaches a b \<longleftrightarrow> (\<exists>ops. b = registry_run ops a)"

lemma reaches_refl [intro]: "registry_reaches a a"
  unfolding registry_reaches_def registry_run_def by (intro exI[of _ "[]"]) simp

lemma reaches_op: "registry_reaches a (registry_step now op a)"
  unfolding registry_reaches_def registry_run_def by (intro exI[of _ "[(now, op)]"]) simp

lemma reaches_trans: "registry_reaches a b \<Longrightarrow> registry_reaches b c \<Longrightarrow> registry_reaches a c"
proof -
  assume "registry_reaches a b" "registry_reaches b c"
  then obtain xs ys where "b = registry_run xs a" "c = registry_run ys b"
    by (auto simp: registry_reaches_def)
  then have "c = registry_run (xs @ ys) a" by (simp add: registry_run_def)
  then show ?thesis by (auto simp: registry_reaches_def)
qed

lemma reaches_place: "registry_reaches reg (place_call now cid caller target c reg)"
proof -
  let ?ops = "[(now, CreateCall cid caller target), (now, SetCallerReflexive cid (reflexive_addr c)),
     (now, SetCallerLocal cid (local_addrs c)), (now, SetCallerMapped cid (mapped_addr c))]"
  have "place_call now cid caller target c reg = registry_run ?ops reg"
    by (simp add: registry_run_def place_call_def)
  then show ?thesis by (auto simp: registry_reaches_def)
qed

lemma reaches_set_callee:
  "registry_reaches reg (set_callee_mapped_addr cid m (set_callee_local_addrs cid l (set_callee_reflexive_addr cid a reg)))"
proof -
  let ?ops = "[(0, SetCalleeReflexive cid a), (0, SetCalleeLocal cid l), (0, SetCalleeMapped cid m)]"
  have "set_callee_mapped_addr cid m (set_callee_local_addrs cid l (set_callee_reflexive_addr cid a reg)) =
      registry_run ?ops reg"
    by (simp add: registry_run_def)
  then show ?thesis by (auto simp: registry_reaches_def)
qed

lemmas reaches_ops = reaches_op[where op = "Answer cid mode rname" for cid mode rname, simplified]
  reaches_op[where op = "End cid" for cid, simplified]
  reaches_op[where op = "SetPeerRelay cid fp" for cid fp, simplified]

lemma reaches_end_all: "registry_reaches (calls r) (calls (end_all now cs r))"
proof -
  have "registry_reaches reg (fold (\<lambda>c reg. snd (end_call now (call_id c) reg)) cs reg)" for reg
    by (induction cs arbitrary: reg) (auto intro: reaches_ops reaches_trans)
  then show ?thesis by (simp add: end_all_def)
qed

lemma reaches_accept: "registry_reaches reg (accept_call now cid mode c reg)"
  unfolding accept_call_def by (rule reaches_trans[OF reaches_ops(1) reaches_set_callee])

lemma reaches_signal: "registry_reaches (calls r) (calls (snd (on_signal now conn addr fp msg r)))"
  by (cases msg)
    (auto simp: on_signal_def on_offer_def on_answer_def on_hangup_def Let_def
      intro: reaches_place reaches_accept reaches_end_all reaches_ops split: option.split)

lemma reaches_cross: "registry_reaches (calls r) (calls (snd (cross_relay now msg origin r)))"
proof (cases msg)
  case (DirectCallOffer caller target cid c x)
  then show ?thesis
    by (auto simp: cross_relay_def Let_def intro: reaches_trans[OF reaches_place reaches_ops(3)])
next
  case (DirectCallAnswer cid mode c x)
  then show ?thesis
    by (auto simp: cross_relay_def Let_def split: option.split
        intro: reaches_ops reaches_trans[OF reaches_ops(1) reaches_trans[OF reaches_ops(3) reaches_set_callee]])
qed (auto simp: cross_relay_def split: option.split)

lemma reaches_step: "registry_reaches (calls (snd s)) (calls (snd (snd (relay_step now e s))))"
  by (cases s; cases e)
    (auto simp: on_register_def on_close_def hub_unregister_def Let_def split_beta reaches_signal reaches_cross
      intro: reaches_end_all split: option.split)

lemma relay_run_wf:
  "registry_wf (calls r) \<Longrightarrow> relay_run es (ss, r) = (outs, ss', r') \<Longrightarrow> registry_wf (calls r')"
proof (induction es arbitrary: ss r outs)
  case (Cons te es)
  obtain t e where te: "te = (t, e)" by fastforce
  obtain o1 s1 r1 where step: "relay_step t e (ss, r) = (o1, s1, r1)" by (metis prod_cases3)
  have "registry_reaches (calls r) (calls r1)" using reaches_step[of "(ss, r)" t e] step by simp
  then have "registry_wf (calls r1)"
    using Cons.prems(1) by (auto simp: registry_reaches_def intro: registry_wf_run)
  then show ?case using Cons.IH Cons.prems(2) by (auto simp: te step split: prod.splits)
qed simp

section \<open>Setting up a local call\<close>

definition signal_call :: "'x Signal \<Rightarrow> string option" where
  "signal_call msg =
     (case msg of DirectCallOffer _ _ cid _ _ \<Rightarrow> Some cid | DirectCallAnswer cid _ _ _ \<Rightarrow> Some cid
      | Hangup cid _ \<Rightarrow> cid | HangupNormal cid \<Rightarrow> cid | _ \<Rightarrow> None)"

definition hangs_up_all :: "'x Signal \<Rightarrow> bool" where
  "hangs_up_all msg \<longleftrightarrow> (case msg of Hangup None _ \<Rightarrow> True | HangupNormal None \<Rightarrow> True | _ \<Rightarrow> False)"

text \<open>
  An event that does not concern a call: it neither names its id nor comes from one of its parties' connections
  to hang up everything or to close, nor registers anyone under a party's name.
\<close>

fun unrelated :: "string \<Rightarrow> string set \<Rightarrow> nat set \<Rightarrow> 'x event \<Rightarrow> bool" where
  "unrelated cid fps conns (Connect conn _ fp _) \<longleftrightarrow> fp \<notin> fps \<and> conn \<notin> conns"
| "unrelated cid fps conns (Receive conn msg) \<longleftrightarrow>
     signal_call msg \<noteq> Some cid \<and> (hangs_up_all msg \<longrightarrow> conn \<notin> conns)"
| "unrelated cid fps conns (Disconnect conn) \<longleftrightarrow> conn \<notin> conns"
| "unrelated cid fps conns (FromPeer msg _) \<longleftrightarrow> signal_call msg \<noteq> Some cid"

definition parties_online :: "string \<Rightarrow> nat \<Rightarrow> string \<Rightarrow> nat \<Rightarrow> sessions \<times> Relay \<Rightarrow> bool" where
  "parties_online a ca b cb s \<longleftrightarrow>
     (let (ss, r) = s in
      registry_wf (calls r) \<and>
      map_option transport (hm_get (hub r) a) = Some ca \<and> map_option transport (hm_get (hub r) b) = Some cb \<and>
      map_option fst (hm_get ss ca) = Some a \<and> map_option fst (hm_get ss cb) = Some b \<and>
      (\<forall>c fp x. hm_get ss c = Some (fp, x) \<longrightarrow> fp \<in> {a, b} \<longrightarrow> c \<in> {ca, cb}))"

lemma end_call_get [simp]: "hm_get (snd (end_call now k reg)) j = (if j = k then None else hm_get reg j)"
  by (simp add: end_call_def Let_def)

lemma end_all_get: "hm_get (calls (end_all now cs r)) k = (if k \<in> call_id ` set cs then None else hm_get (calls r) k)"
proof -
  have "hm_get (fold (\<lambda>c reg. snd (end_call now (call_id c) reg)) cs reg) k =
      (if k \<in> call_id ` set cs then None else hm_get reg k)" for reg
    by (induction cs arbitrary: reg) auto
  then show ?thesis by (simp add: end_all_def)
qed

lemma calls_for_in:
  assumes "registry_wf reg" "c \<in> set (calls_for_fingerprint fp reg)"
  shows "hm_get reg (call_id c) = Some c" "caller_fingerprint c = fp \<or> callee_fingerprint c = fp"
proof -
  have "c \<in> snd ` set reg" using assms(2) by (auto simp: calls_for_fingerprint_def)
  then obtain k where k: "(k, c) \<in> set reg" by auto
  then have "hm_get reg k = Some c" using assms(1) by (simp add: registry_wf_def hm_ok_def)
  moreover then have "call_id c = k" using registry_wfD[OF assms(1)] by (simp add: call_wf_def)
  ultimately show "hm_get reg (call_id c) = Some c" by simp
  show "caller_fingerprint c = fp \<or> callee_fingerprint c = fp"
    using assms(2) by (auto simp: calls_for_fingerprint_def)
qed

lemma end_for_keeps:
  assumes "registry_wf (calls r)" "hm_get (calls r) k = Some e"
    and "fp \<noteq> caller_fingerprint e" "fp \<noteq> callee_fingerprint e"
  shows "hm_get (calls (end_all now (calls_for_fingerprint fp (calls r)) r)) k = Some e"
proof -
  have "k \<notin> call_id ` set (calls_for_fingerprint fp (calls r))"
    using calls_for_in[OF assms(1)] assms(2-) by fastforce
  then show ?thesis using assms(2) by (simp add: end_all_get)
qed

lemma end_all_hub [simp]: "hub (end_all now cs r) = hub r"
  "presence (end_all now cs r) = presence r" "advertised_addr (end_all now cs r) = advertised_addr r"
  by (simp_all add: end_all_def)

lemma place_get [simp]:
  "k \<noteq> cid \<Longrightarrow> hm_get (place_call now cid a b c reg) k = hm_get reg k"
  by (simp add: place_call_def setter_defs create_call_def)

lemma set_active_get: "k \<noteq> cid \<Longrightarrow> hm_get (snd (set_active now cid m rn reg)) k = hm_get reg k"
  by (simp add: set_active_def split: option.split)

lemma accept_get [simp]: "k \<noteq> cid \<Longrightarrow> hm_get (accept_call now cid m c reg) k = hm_get reg k"
  by (simp add: accept_call_def setter_defs set_active_get)

lemma signal_hub [simp]:
  "hub (snd (on_signal now conn addr fp msg r)) = hub r"
  "advertised_addr (snd (on_signal now conn addr fp msg r)) = advertised_addr r"
  by (cases msg; auto simp: on_signal_def on_offer_def on_answer_def on_hangup_def Let_def split: option.split)+

lemma cross_hub [simp]:
  "hub (snd (cross_relay now msg origin r)) = hub r"
  "advertised_addr (snd (cross_relay now msg origin r)) = advertised_addr r"
  by (cases msg; auto simp: cross_relay_def Let_def split: option.split)+

lemma signal_keeps_call:
  assumes "signal_call msg \<noteq> Some cid" "registry_wf (calls r)" "hm_get (calls r) cid = Some e"
    and "hangs_up_all msg \<Longrightarrow> fp \<noteq> caller_fingerprint e \<and> fp \<noteq> callee_fingerprint e"
  shows "hm_get (calls (snd (on_signal now conn addr fp msg r))) cid = Some e"
proof -
  have hang: "hm_get (calls (snd (on_hangup now fp k m r))) cid = Some e"
    if "k \<noteq> Some cid" "k = None \<Longrightarrow> fp \<noteq> caller_fingerprint e \<and> fp \<noteq> callee_fingerprint e" for k and m :: "'a Signal"
  proof (cases k)
    case None
    then show ?thesis using end_for_keeps[OF assms(2,3)] that by (simp add: on_hangup_def Let_def)
  next
    case (Some j)
    have "hm_get (calls r) j = Some c \<Longrightarrow> call_id c = j" for c
      using registry_wfD[OF assms(2)] by (simp add: call_wf_def)
    then show ?thesis
      using that Some assms(3) by (auto simp: on_hangup_def Let_def end_all_get split: option.split)
  qed
  show ?thesis
  proof (cases msg)
    case (DirectCallOffer a t k c x)
    then show ?thesis using assms(1,3) by (auto simp: on_signal_def on_offer_def signal_call_def Let_def)
  next
    case (DirectCallAnswer k m c x)
    then show ?thesis
      using assms(1,3) by (auto simp: on_signal_def on_answer_def signal_call_def Let_def split: option.split)
  next
    case (Hangup k x)
    then show ?thesis
      using assms(1,4) hang[of k msg]
      by (cases k) (auto simp: on_signal_def signal_call_def hangs_up_all_def)
  next
    case (HangupNormal k)
    then show ?thesis
      using assms(1,4) hang[of k msg]
      by (cases k) (auto simp: on_signal_def signal_call_def hangs_up_all_def)
  qed (use assms(3) in \<open>simp_all add: on_signal_def\<close>)
qed

lemma cross_keeps_call:
  assumes "signal_call msg \<noteq> Some cid"
  shows "hm_get (calls (snd (cross_relay now msg origin r))) cid = hm_get (calls r) cid"
  using assms
  by (cases msg) (auto simp: cross_relay_def signal_call_def Let_def set_peer_relay_fp_def setter_defs
      set_active_get split: option.split)

lemma unrelated_step:
  assumes s: "parties_online a ca b cb (ss, r)" and e: "hm_get (calls r) cid = Some e"
    and ab: "caller_fingerprint e = a" "callee_fingerprint e = b"
    and ev: "unrelated cid {a, b} {ca, cb} ev"
    and step: "relay_step now ev (ss, r) = (out, ss', r')"
  shows "parties_online a ca b cb (ss', r')" "hm_get (calls r') cid = Some e"
    "advertised_addr r' = advertised_addr r"
proof -
  have wf: "registry_wf (calls r)" using s by (simp add: parties_online_def)
  have wf': "registry_wf (calls r')"
    using wf reaches_step[of "(ss, r)" now ev] step by (auto simp: registry_reaches_def intro: registry_wf_run)
  have other: "fp \<noteq> a \<and> fp \<noteq> b" if "hm_get ss c = Some (fp, x)" "c \<notin> {ca, cb}" for c fp x
    using s that by (auto simp: parties_online_def)
  have "parties_online a ca b cb (ss', r') \<and> hm_get (calls r') cid = Some e \<and>
      advertised_addr r' = advertised_addr r"
  proof (cases ev)
    case (Connect conn addr fp al)
    have "\<forall>c fp x. hm_get ss c = Some (fp, x) \<longrightarrow> fp \<in> {a, b} \<longrightarrow> c \<in> {ca, cb}"
      using s by (simp add: parties_online_def)
    moreover have "ss' = hm_insert conn (fp, addr) ss" "fp \<notin> {a, b}"
      using step ev Connect by (auto simp: Let_def split: prod.splits)
    ultimately have "\<forall>c fp x. hm_get ss' c = Some (fp, x) \<longrightarrow> fp \<in> {a, b} \<longrightarrow> c \<in> {ca, cb}"
      by (simp only: hm_get_insert) (metis option.inject prod.inject)
    then show ?thesis
      using s e ev step wf' Connect
      by (auto simp: parties_online_def on_register_def hub_register_def Let_def simp del: insert_iff)
  next
    case (Receive conn msg)
    show ?thesis
    proof (cases "hm_get ss conn")
      case None
      with Receive s e step show ?thesis by simp
    next
      case (Some fx)
      obtain fp x where fx: "fx = (fp, x)" by fastforce
      have r': "r' = snd (on_signal now conn x fp msg r)" "ss' = ss"
        using step Receive Some fx by (auto simp: split_beta)
      have "hangs_up_all msg \<Longrightarrow> fp \<noteq> caller_fingerprint e \<and> fp \<noteq> callee_fingerprint e"
        using other[of conn fp x] Some fx ev Receive ab by auto
      then have "hm_get (calls r') cid = Some e"
        using ev Receive by (simp add: r' signal_keeps_call[OF _ wf e])
      then show ?thesis using s wf' by (auto simp: r' parties_online_def)
    qed
  next
    case (Disconnect conn)
    show ?thesis
    proof (cases "hm_get ss conn")
      case None
      with Disconnect s e step show ?thesis by simp
    next
      case (Some fx)
      obtain fp x where fx: "fx = (fp, x)" by fastforce
      have fp: "fp \<noteq> a" "fp \<noteq> b" using other[of conn fp x] Some fx ev Disconnect by auto
      then have "hm_get (calls r') cid = Some e"
        using step Disconnect Some fx end_for_keeps[OF wf e, of fp now] ab
        by (auto simp: on_close_def hub_unregister_def Let_def)
      moreover have "\<forall>c fp x. hm_get ss c = Some (fp, x) \<longrightarrow> fp \<in> {a, b} \<longrightarrow> c \<in> {ca, cb}"
        using s by (simp add: parties_online_def)
      moreover have "ss' = hm_remove conn ss"
        using step Disconnect Some fx by (auto simp: Let_def split: prod.splits)
      ultimately have "hm_get (calls r') cid = Some e \<and>
          (\<forall>c fp x. hm_get ss' c = Some (fp, x) \<longrightarrow> fp \<in> {a, b} \<longrightarrow> c \<in> {ca, cb})"
        by (simp only: hm_get_remove) (metis option.distinct(1))
      then show ?thesis
        using s wf' step Disconnect Some fx fp ev
        by (auto simp: parties_online_def on_close_def hub_unregister_def Let_def simp del: insert_iff)
    qed
  next
    case (FromPeer msg origin)
    then show ?thesis
      using s e ev step wf' cross_keeps_call[of msg cid now origin r]
      by (auto simp: parties_online_def split_beta)
  qed
  then show "parties_online a ca b cb (ss', r')" "hm_get (calls r') cid = Some e"
    "advertised_addr r' = advertised_addr r" by blast+
qed

lemma unrelated_run:
  assumes "parties_online a ca b cb (ss, r)" "hm_get (calls r) cid = Some e"
    and "caller_fingerprint e = a" "callee_fingerprint e = b"
    and "\<forall>(_, ev) \<in> set es. unrelated cid {a, b} {ca, cb} ev"
    and "relay_run es (ss, r) = (outs, ss', r')"
  shows "parties_online a ca b cb (ss', r') \<and> hm_get (calls r') cid = Some e \<and>
    advertised_addr r' = advertised_addr r"
  using assms
proof (induction es arbitrary: ss r outs)
  case (Cons te es)
  obtain t ev where te: "te = (t, ev)" by fastforce
  obtain o1 s1 r1 where step: "relay_step t ev (ss, r) = (o1, s1, r1)" by (metis prod_cases3)
  have "unrelated cid {a, b} {ca, cb} ev" using Cons.prems(5) by (simp add: te)
  note u = unrelated_step[OF Cons.prems(1-4) this step]
  obtain os where "relay_run es (s1, r1) = (os, ss', r')"
    using Cons.prems(6) by (auto simp: te step split: prod.splits)
  then show ?case
    using Cons.IH[OF u(1,2) Cons.prems(3,4)] Cons.prems(5) u(3) by simp
qed simp

lemma set_active_pending:
  "hm_get reg cid = Some e \<Longrightarrow> call_state e \<in> {Pending, Ringing} \<Longrightarrow>
   hm_get (snd (set_active now cid m rn reg)) cid =
     Some (e\<lparr>call_state := Active, accept_mode := Some m, room_name := Some rn, answered_at := Some now\<rparr>)"
  by (auto simp: set_active_def)

definition placed :: "nat \<Rightarrow> string \<Rightarrow> string \<Rightarrow> string \<Rightarrow> Candidates \<Rightarrow> DirectCall" where
  "placed now cid a b c =
     \<lparr>call_id = cid, caller_fingerprint = a, callee_fingerprint = b, call_state = Pending, accept_mode = None,
      room_name = None, created_at = now, answered_at = None, ended_at = None,
      caller_reflexive_addr = reflexive_addr c, callee_reflexive_addr = None, peer_relay_fp = None,
      caller_local_addrs = local_addrs c, callee_local_addrs = [], caller_mapped_addr = mapped_addr c,
      callee_mapped_addr = None\<rparr>"

lemma place_same: "hm_get (place_call now cid a b c reg) cid = Some (placed now cid a b c)"
  by (simp add: place_call_def setter_defs create_call_def placed_def)

definition accepted :: "nat \<Rightarrow> CallAcceptMode \<Rightarrow> Candidates \<Rightarrow> DirectCall \<Rightarrow> DirectCall" where
  "accepted now m c e =
     e\<lparr>call_state := Active, accept_mode := Some m, room_name := Some (room_of_call (call_id e)),
       answered_at := Some now, callee_reflexive_addr := reflexive_addr c, callee_local_addrs := local_addrs c,
       callee_mapped_addr := mapped_addr c\<rparr>"

lemma accept_same:
  "hm_get reg cid = Some e \<Longrightarrow> call_id e = cid \<Longrightarrow> call_state e \<in> {Pending, Ringing} \<Longrightarrow>
   hm_get (accept_call now cid m c reg) cid = Some (accepted now m c e)"
  by (simp add: accept_call_def setter_defs set_active_pending accepted_def)

lemma run_snoc:
  "relay_run (es @ [(t, e)]) s =
     (let (outs, s) = relay_run es s; (out, s) = relay_step t e s in (outs @ [out], s))"
proof (induction es arbitrary: s)
  case (Cons te es)
  then show ?case by (cases te) (simp only: append_Cons relay_run.simps case_prod_unfold Let_def fst_conv snd_conv)
qed (simp add: case_prod_unfold Let_def)

lemma call_of_room_call [simp]: "call_of_room (room_of_call cid) = Some cid"
  by (simp add: call_of_room_def room_of_call_def)

text \<open>
  C8 (a call is set up with crosswise addresses).  When a client with a live connection offers a call to
  another, and the other accepts it after any number of events that do not concern the call, then the offer
  reaches the callee, the answer reaches the caller, and both are told the same room and the addresses that the
  other one advertised.  The room then admits these two fingerprints and no other.
\<close>

theorem call_setup_crosswires:
  assumes "parties_online a ca b cb (ss, r)" "a \<noteq> b" "m \<noteq> Reject"
    and quiet: "\<forall>(_, ev) \<in> set es. unrelated cid {a, b} {ca, cb} ev"
    and run: "relay_run ((t0, Receive ca (DirectCallOffer a0 b cid c x)) # es @
        [(t1, Receive cb (DirectCallAnswer cid m d y))]) (ss, r) = (outs, ss', r')"
  shows "hd outs = [ToClient cb (DirectCallOffer a0 b cid c x), ToClient ca (CallRinging cid)] \<and>
    last outs = [ToClient ca (DirectCallAnswer cid m d y),
                 ToClient ca (CallSetup cid (room_of_call cid) (advertised_addr r) d),
                 ToClient cb (CallSetup cid (room_of_call cid) (advertised_addr r) c)] \<and>
    (\<forall>fp. room_admits (calls r') (room_of_call cid) fp \<longleftrightarrow> fp = a \<or> fp = b)"
proof -
  let ?offer = "DirectCallOffer a0 b cid c x" and ?answer = "DirectCallAnswer cid m d y"
  from assms(1) obtain A B xa xb where hub: "hm_get (hub r) a = Some A" "transport A = ca"
    "hm_get (hub r) b = Some B" "transport B = cb" and ss: "hm_get ss ca = Some (a, xa)" "hm_get ss cb = Some (b, xb)"
    and wf: "registry_wf (calls r)"
    by (auto simp: parties_online_def)
  define r1 where "r1 = r\<lparr>calls := place_call t0 cid a b c (calls r)\<rparr>"
  have offer: "relay_step t0 (Receive ca ?offer) (ss, r) =
      ([ToClient cb ?offer, ToClient ca (CallRinging cid)], ss, r1)"
    using hub ss by (simp add: on_signal_def on_offer_def is_online_def send_to_def hub_send_to_def r1_def)
  have "registry_wf (calls r1)"
    using reaches_place[of "calls r" t0 cid a b c] wf
    by (auto simp: r1_def registry_reaches_def intro: registry_wf_run)
  then have p1: "parties_online a ca b cb (ss, r1)" using assms(1) by (auto simp: parties_online_def r1_def)
  have e1: "hm_get (calls r1) cid = Some (placed t0 cid a b c)" by (simp add: r1_def place_same)
  obtain os s2 r2 where mid: "relay_run es (ss, r1) = (os, s2, r2)" by (metis prod_cases3)
  have p2: "parties_online a ca b cb (s2, r2)" and e2: "hm_get (calls r2) cid = Some (placed t0 cid a b c)"
    and adv: "advertised_addr r2 = advertised_addr r"
    using unrelated_run[OF p1 e1 _ _ quiet mid] by (simp_all add: placed_def r1_def)
  from p2 obtain A B xb where hub2: "hm_get (hub r2) a = Some A" "transport A = ca"
    "hm_get (hub r2) b = Some B" "transport B = cb" and s2: "hm_get s2 cb = Some (b, xb)"
    by (auto simp: parties_online_def)
  define e3 where "e3 = accepted t1 m d (placed t0 cid a b c)"
  define r3 where "r3 = r2\<lparr>calls := accept_call t1 cid m d (calls r2)\<rparr>"
  have e3: "hm_get (calls r3) cid = Some e3"
    unfolding r3_def e3_def by (simp add: accept_same[OF e2] placed_def)
  have peer: "Calls.peer_fingerprint cid b (calls r2) = Some a" "peer_relay_fp (placed t0 cid a b c) = None"
    using e2 assms(2) by (simp_all add: Calls.peer_fingerprint_def placed_def)
  have cands: "caller_candidates (calls r3) cid = c" "callee_candidates (calls r3) cid = d"
    using e3 by (simp_all add: caller_candidates_def callee_candidates_def e3_def accepted_def placed_def)
  have answer: "relay_step t1 (Receive cb ?answer) (s2, r2) =
      ([ToClient ca ?answer, ToClient ca (CallSetup cid (room_of_call cid) (advertised_addr r) d),
        ToClient cb (CallSetup cid (room_of_call cid) (advertised_addr r) c)], s2, r3)"
    using hub2 s2 assms(3) e2 peer cands adv
    by (simp add: on_signal_def on_answer_def send_to_def hub_send_to_def call_setup_def r3_def)
  have admits: "room_admits (calls r3) (room_of_call cid) fp \<longleftrightarrow> fp = a \<or> fp = b" for fp
    using e3 by (auto simp: room_admits_def e3_def accepted_def placed_def)
  have "outs = [ToClient cb ?offer, ToClient ca (CallRinging cid)] # os @
      [[ToClient ca ?answer, ToClient ca (CallSetup cid (room_of_call cid) (advertised_addr r) d),
        ToClient cb (CallSetup cid (room_of_call cid) (advertised_addr r) c)]]" "r' = r3"
    using run by (simp_all add: offer mid answer run_snoc del: relay_step.simps)
  then show ?thesis using admits by simp
qed

section \<open>Across two relays\<close>

text \<open>
  A federation peer's link delivers an envelope: the federation manager opens it and hands the message to the
  dispatcher.
\<close>

definition take_envelope ::
  "(byte list \<Rightarrow> byte list) \<Rightarrow> nat \<Rightarrow> string \<Rightarrow> 'x Signal FedSignal \<Rightarrow> Relay \<Rightarrow> 'x RelayOut list \<times> Relay" where
  "take_envelope sha now src sig r =
     (case federation_mgr r of None \<Rightarrow> ([], r)
      | Some fm \<Rightarrow>
          (let (outs, fm) = handle_signal sha now src sig fm; r = r\<lparr>federation_mgr := Some fm\<rparr> in
           case outs of [ToDispatcher m origin] \<Rightarrow> cross_relay now m origin r | _ \<Rightarrow> (map ToRelay outs, r)))"

definition linked :: "Relay \<Rightarrow> Relay \<Rightarrow> bool" where
  "linked r r' \<longleftrightarrow> (\<exists>fm. federation_mgr r = Some fm \<and> local_tls_fp fm = tls_fp r \<and> dispatcher_wired fm \<and>
     hm_get (peer_links fm) (normalize_fp (tls_fp r')) \<noteq> None \<and> tls_fp r \<noteq> tls_fp r')"

lemma take_forward:
  assumes "linked r r'"
  shows "\<exists>fm. take_envelope sha now src (FederatedSignalForward msg (tls_fp r')) r =
    cross_relay now msg (tls_fp r') (r\<lparr>federation_mgr := Some fm\<rparr>) \<and> linked (r\<lparr>federation_mgr := Some fm\<rparr>) r'"
proof -
  obtain fm where fm: "federation_mgr r = Some fm" "local_tls_fp fm = tls_fp r" "dispatcher_wired fm"
    "hm_get (peer_links fm) (normalize_fp (tls_fp r')) \<noteq> None" "tls_fp r \<noteq> tls_fp r'"
    using assms by (auto simp: linked_def)
  let ?fm = "note_seen now src fm"
  have same: "local_tls_fp ?fm = tls_fp r" "dispatcher_wired ?fm"
    "hm_get (peer_links ?fm) (normalize_fp (tls_fp r')) \<noteq> None"
    using fm by (auto simp: note_seen_def)
  then have "take_envelope sha now src (FederatedSignalForward msg (tls_fp r')) r =
      cross_relay now msg (tls_fp r') (r\<lparr>federation_mgr := Some ?fm\<rparr>)"
    using fm by (simp add: take_envelope_def handle_signal_def)
  then show ?thesis using same fm(5) by (intro exI[of _ ?fm]) (simp add: linked_def)
qed

lemma forward_linked:
  "linked r r' \<Longrightarrow> forward_to_relay r (tls_fp r') msg =
     [ToRelay (ToPeer (normalize_fp (tls_fp r')) (FederatedSignalForward msg (tls_fp r)))]"
  by (auto simp: linked_def forward_to_relay_def send_signal_to_peer_def Let_def)

lemma forward_all_linked:
  assumes "linked r r'"
  shows "ToRelay (ToPeer (normalize_fp (tls_fp r')) (FederatedSignalForward msg (tls_fp r))) \<in> set (forward_to_all r msg)"
    and "forward_to_all r msg \<noteq> []"
proof -
  obtain fm l where "federation_mgr r = Some fm" "hm_get (peer_links fm) (normalize_fp (tls_fp r')) = Some l"
    using assms by (auto simp: linked_def)
  then show *: "ToRelay (ToPeer (normalize_fp (tls_fp r')) (FederatedSignalForward msg (tls_fp r))) \<in> set (forward_to_all r msg)"
    by (auto simp: forward_to_all_def broadcast_signal_def dest!: map_of_SomeD intro!: imageI rev_image_eqI)
  then show "forward_to_all r msg \<noteq> []" by auto
qed

definition offered :: "nat \<Rightarrow> string \<Rightarrow> string \<Rightarrow> string \<Rightarrow> Candidates \<Rightarrow> string \<Rightarrow> DirectCall" where
  "offered now cid a b c origin = (placed now cid a b c)\<lparr>peer_relay_fp := Some origin\<rparr>"

lemma send_online: "map_option transport (hm_get (hub r) fp) = Some c \<Longrightarrow> send_to r fp msg = [ToClient c msg]"
  by (auto simp: send_to_def hub_send_to_def)

lemma answer_remote:
  assumes "hm_get (calls r) cid = Some e" "peer_relay_fp e = Some origin" "m \<noteq> Reject"
  shows "on_answer now fp cid m d msg r =
    (let s = r\<lparr>calls := accept_call now cid m d (calls r)\<rparr> in
     (forward_to_relay s origin msg @ send_to s fp (call_setup s cid (caller_candidates (calls s) cid)), s))"
  using assms by (simp add: on_answer_def Calls.peer_fingerprint_def Let_def)

lemma on_offer_remote:
  assumes "linked r r'" "\<not> is_online (hub r) b"
  shows "on_offer now ca a b cid c msg r =
    (forward_to_all r msg @ [ToClient ca (CallRinging cid)], r\<lparr>calls := place_call now cid a b c (calls r)\<rparr>)"
  using assms forward_all_linked(2)[OF assms(1), of msg] by (simp add: on_offer_def Let_def)

lemma cross_offer:
  assumes "map_option transport (hm_get (hub r) b) = Some cb"
  shows "cross_relay now (DirectCallOffer a b cid c x) origin r =
    ([ToClient cb (DirectCallOffer a b cid c x)],
     r\<lparr>calls := set_peer_relay_fp cid (Some origin) (place_call now cid a b c (calls r))\<rparr>)"
  using assms by (auto simp: cross_relay_def is_online_def send_to_def hub_send_to_def)

lemma offered_get:
  "hm_get (set_peer_relay_fp cid (Some origin) (place_call now cid a b c reg)) cid = Some (offered now cid a b c origin)"
  by (simp add: set_peer_relay_fp_def place_same offered_def)

text \<open>
  Also (a call between two relays).  The caller is connected to one relay, the callee to another, and the two are
  federation peers.  The offer goes out to the callee's relay and is delivered there; the answer goes back
  through the same link; each party is told the same room, its own relay and the addresses that the other party
  advertised, and each relay admits the two of them to the room and no one else.
\<close>

theorem cross_relay_call_setup:
  fixes x y :: 'x
  assumes "linked r1 r2" "linked r2 r1" "a \<noteq> b" "m \<noteq> Reject"
    and "map_option transport (hm_get (hub r1) a) = Some ca" "\<not> is_online (hub r1) b"
    and "map_option transport (hm_get (hub r2) b) = Some cb"
  shows "let offer = DirectCallOffer a b cid c x; answer = DirectCallAnswer cid m d y;
      (o1, s1) = on_offer t1 ca a b cid c offer r1;
      (o2, s2) = take_envelope sha t2 k1 (FederatedSignalForward offer (tls_fp r1)) r2;
      (o3, s3) = on_answer t3 b cid m d answer s2;
      (o4, s4) = take_envelope sha t4 k2 (FederatedSignalForward answer (tls_fp r2)) s1 in
    ToRelay (ToPeer (normalize_fp (tls_fp r2)) (FederatedSignalForward offer (tls_fp r1))) \<in> set o1 \<and>
    o2 = [ToClient cb offer] \<and>
    o3 = [ToRelay (ToPeer (normalize_fp (tls_fp r1)) (FederatedSignalForward answer (tls_fp r2))),
          ToClient cb (CallSetup cid (room_of_call cid) (advertised_addr r2) c)] \<and>
    o4 = [ToClient ca answer, ToClient ca (CallSetup cid (room_of_call cid) (advertised_addr r1) d)] \<and>
    (\<forall>fp. (room_admits (calls s3) (room_of_call cid) fp \<longleftrightarrow> fp = a \<or> fp = b) \<and>
          (room_admits (calls s4) (room_of_call cid) fp \<longleftrightarrow> fp = a \<or> fp = b))"
proof -
  define offer where "offer = DirectCallOffer a b cid c x"
  define answer where "answer = DirectCallAnswer cid m d y"
  define s1 where "s1 = r1\<lparr>calls := place_call t1 cid a b c (calls r1)\<rparr>"
  obtain fm2 where te: "take_envelope sha t2 k1 (FederatedSignalForward offer (tls_fp r1)) r2 =
      cross_relay t2 offer (tls_fp r1) (r2\<lparr>federation_mgr := Some fm2\<rparr>)"
    and l2: "linked (r2\<lparr>federation_mgr := Some fm2\<rparr>) r1"
    using take_forward[OF assms(2)] by blast
  define s2 where "s2 = r2\<lparr>federation_mgr := Some fm2,
    calls := set_peer_relay_fp cid (Some (tls_fp r1)) (place_call t2 cid a b c (calls r2))\<rparr>"
  have "linked s1 r2" using assms(1) by (simp add: linked_def s1_def)
  then obtain fm1 where te1: "take_envelope sha t4 k2 (FederatedSignalForward answer (tls_fp r2)) s1 =
      cross_relay t4 answer (tls_fp r2) (s1\<lparr>federation_mgr := Some fm1\<rparr>)"
    using take_forward by blast
  have o2: "take_envelope sha t2 k1 (FederatedSignalForward offer (tls_fp r1)) r2 = ([ToClient cb offer], s2)"
    unfolding te unfolding offer_def using assms(7) by (subst cross_offer[where cb = cb]) (simp_all add: s2_def)
  have e2: "hm_get (calls s2) cid = Some (offered t2 cid a b c (tls_fp r1))"
    by (simp add: s2_def offered_get)
  define s3 where "s3 = s2\<lparr>calls := accept_call t3 cid m d (calls s2)\<rparr>"
  have "linked s3 r1" using l2 by (simp add: linked_def s3_def s2_def)
  then have fwd: "forward_to_relay s3 (tls_fp r1) answer =
      [ToRelay (ToPeer (normalize_fp (tls_fp r1)) (FederatedSignalForward answer (tls_fp r2)))]"
    using forward_linked[of s3 r1 answer] by (simp add: s3_def s2_def)
  have e3: "hm_get (calls s3) cid = Some (accepted t3 m d (offered t2 cid a b c (tls_fp r1)))"
    unfolding s3_def by (simp add: accept_same[OF e2] offered_def placed_def)
  have "caller_candidates (calls s3) cid = c"
    by (simp add: caller_candidates_def e3 accepted_def offered_def placed_def)
  moreover have "advertised_addr s3 = advertised_addr r2" "peer_relay_fp (offered t2 cid a b c (tls_fp r1)) = Some (tls_fp r1)"
    by (simp_all add: s3_def s2_def offered_def)
  moreover have "send_to s3 b msg = [ToClient cb msg]" for msg :: "'x Signal"
    using assms(7) by (intro send_online) (simp add: s3_def s2_def)
  ultimately have o3: "on_answer t3 b cid m d answer s2 =
      ([ToRelay (ToPeer (normalize_fp (tls_fp r1)) (FederatedSignalForward answer (tls_fp r2))),
        ToClient cb (CallSetup cid (room_of_call cid) (advertised_addr r2) c)], s3)"
    using answer_remote[OF e2 _ assms(4), of "tls_fp r1" t3 b d answer] fwd
    by (simp add: s3_def[symmetric] call_setup_def)
  have e1: "hm_get (calls s1) cid = Some (placed t1 cid a b c)" by (simp add: s1_def place_same)
  obtain s4 where o4: "take_envelope sha t4 k2 (FederatedSignalForward answer (tls_fp r2)) s1 =
      ([ToClient ca answer, ToClient ca (CallSetup cid (room_of_call cid) (advertised_addr r1) d)], s4)"
    and e4: "\<exists>e. hm_get (calls s4) cid = Some e \<and> caller_fingerprint e = a \<and> callee_fingerprint e = b"
    using assms(4,5) e1 unfolding te1 unfolding answer_def
    by (auto simp: cross_relay_def placed_def s1_def set_active_pending callee_candidates_def
        call_setup_def send_to_def hub_send_to_def setter_defs Let_def)
  have o1: "on_offer t1 ca a b cid c offer r1 = (forward_to_all r1 offer @ [ToClient ca (CallRinging cid)], s1)"
    using on_offer_remote[OF assms(1,6)] by (simp add: s1_def)
  have adm: "room_admits (calls s3) (room_of_call cid) fp \<longleftrightarrow> fp = a \<or> fp = b"
    "room_admits (calls s4) (room_of_call cid) fp \<longleftrightarrow> fp = a \<or> fp = b" for fp
    using e3 e4 by (auto simp: room_admits_def accepted_def offered_def placed_def)
  show ?thesis
    unfolding Let_def offer_def[symmetric] answer_def[symmetric] o1 o2 o3 o4 case_prod_conv
    using forward_all_linked(1)[OF assms(1), of offer] adm by (simp add: o3 o4)
qed

section \<open>Connections and hang-ups\<close>

definition relay_new :: "FederationManager option \<Rightarrow> string \<Rightarrow> string \<Rightarrow> Relay" where
  "relay_new fm fp adv =
     \<lparr>hub = [], calls = [], presence = presence_new, federation_mgr = fm, tls_fp = fp, advertised_addr = adv\<rparr>"

fun connects :: "(nat \<times> 'x event) list \<Rightarrow> nat list" where
  "connects [] = []"
| "connects ((_, Connect c _ _ _) # es) = c # connects es"
| "connects (_ # es) = connects es"

definition hub_live :: "sessions \<Rightarrow> SignalHub \<Rightarrow> bool" where
  "hub_live ss h \<longleftrightarrow> hm_ok h \<and>
     (\<forall>fp c. hm_get h fp = Some c \<longrightarrow> (\<exists>a. hm_get ss (transport c) = Some (fp, a)))"

definition live_targets :: "nat set \<Rightarrow> 'x RelayOut list \<Rightarrow> bool" where
  "live_targets L out \<longleftrightarrow> (\<forall>c m. ToClient c m \<in> set out \<longrightarrow> c \<in> L)"

definition live :: "sessions \<Rightarrow> nat set" where
  "live ss = {c. hm_get ss c \<noteq> None}"

lemma live_targets_simps [simp]:
  "live_targets L []" "live_targets L (o1 @ o2) \<longleftrightarrow> live_targets L o1 \<and> live_targets L o2"
  "live_targets L (ToClient c m # out) \<longleftrightarrow> c \<in> L \<and> live_targets L out"
  "live_targets L (ToRelay z # out) \<longleftrightarrow> live_targets L out"
  by (auto simp: live_targets_def)

lemma live_send: "hub_live ss (hub r) \<Longrightarrow> live_targets (live ss) (send_to r fp msg)"
proof (cases "hm_get (hub r) fp")
  case (Some c)
  assume "hub_live ss (hub r)"
  then obtain a where "hm_get ss (transport c) = Some (fp, a)" using Some by (auto simp: hub_live_def)
  then show ?thesis using Some by (simp add: send_to_def hub_send_to_def live_def)
qed (simp add: send_to_def hub_send_to_def)

lemma live_broadcast: "hub_live ss h \<Longrightarrow> live_targets (live ss) (hub_broadcast h msg)"
  by (fastforce simp: hub_live_def hub_broadcast_def live_targets_def live_def hm_ok_def map_of_eq_Some_iff)

lemma live_forward:
  "live_targets L (forward_to_all r msg)" "live_targets L (forward_to_relay r fp msg)"
  by (auto simp: live_targets_def forward_to_all_def forward_to_relay_def split: option.split sum.split)

lemma live_concat: "(\<And>x. x \<in> set xs \<Longrightarrow> live_targets L (f x)) \<Longrightarrow> live_targets L (concat (map f xs))"
  by (auto simp: live_targets_def)

lemma live_signal:
  assumes "hub_live ss (hub r)" "conn \<in> live ss"
  shows "live_targets (live ss) (fst (on_signal now conn addr fp msg r))"
proof -
  have "live_targets (live ss) (send_to (r\<lparr>calls := reg\<rparr>) f m)" for reg f and m :: "'a Signal"
    using assms(1) by (intro live_send) simp
  then show ?thesis
    using assms live_send[OF assms(1)]
    by (cases msg)
      (auto simp: on_signal_def on_offer_def on_answer_def on_hangup_def pass_to_peer_def Let_def live_forward
        intro!: live_concat split: option.split)
qed

lemma live_cross:
  assumes "hub_live ss (hub r)"
  shows "live_targets (live ss) (fst (cross_relay now msg origin r))"
proof -
  have "live_targets (live ss) (send_to (r\<lparr>calls := reg\<rparr>) f m)" for reg f and m :: "'a Signal"
    using assms(1) by (intro live_send) simp
  then show ?thesis
    using live_send[OF assms(1)] by (cases msg) (auto simp: cross_relay_def Let_def split: option.split)
qed

lemma hub_live_connect:
  assumes "hub_live ss h" "hm_get ss conn = None"
  shows "hub_live (hm_insert conn (fp, addr) ss) (hub_register fp conn al h)"
  using assms by (fastforce simp: hub_live_def hub_register_def hm_ok_insert)

lemma hub_live_close:
  assumes "hub_live ss h" "hm_get ss conn = Some (fp, addr)"
  shows "hub_live (hm_remove conn ss) (hm_remove fp h)"
  using assms by (fastforce simp: hub_live_def hm_ok_remove)

lemma live_step:
  assumes "hub_live ss (hub r)" "\<And>c a fp al. ev = Connect c a fp al \<Longrightarrow> hm_get ss c = None"
    and "relay_step now ev (ss, r) = (out, ss', r')"
  shows "hub_live ss' (hub r') \<and> live_targets (live ss \<union> live ss') out \<and>
    live ss' \<subseteq> live ss \<union> set (connects [(now, ev)])"
proof -
  have mono: "live_targets A o1 \<Longrightarrow> A \<subseteq> B \<Longrightarrow> live_targets B o1" for A B and o1 :: "'a RelayOut list"
    by (auto simp: live_targets_def)
  show ?thesis
  proof (cases ev)
    case (Connect conn addr fp al)
    define h where "h = hub_register fp conn al (hub r)"
    have l: "hub_live ss' h" and ss': "ss' = hm_insert conn (fp, addr) ss"
      using hub_live_connect[OF assms(1), of conn fp addr al] assms(2,3) Connect
      by (auto simp: on_register_def h_def Let_def)
    have "out = [ToClient conn RegisterPresenceAck, ToClient conn (presence_list h)] @ hub_broadcast h (presence_list h)"
      "hub r' = h"
      using assms(3) Connect by (auto simp: on_register_def h_def Let_def)
    moreover have "live_targets (live ss \<union> live ss') (hub_broadcast h (presence_list h) :: 'a RelayOut list)"
      by (rule mono[OF live_broadcast[OF l]]) simp
    moreover have "conn \<in> live ss'" "live ss' \<subseteq> live ss \<union> {conn}" by (auto simp: ss' live_def)
    ultimately show ?thesis using l Connect by simp
  next
    case (Receive conn msg)
    show ?thesis
    proof (cases "hm_get ss conn")
      case (Some fx)
      then have "out = fst (on_signal now conn (snd fx) (fst fx) msg r)" "ss' = ss" "hub r' = hub r"
        using assms(3) Receive by (auto simp: split_beta split: prod.splits)
      moreover have "conn \<in> live ss" using Some by (simp add: live_def)
      ultimately show ?thesis using live_signal[OF assms(1)] assms(1) by simp
    qed (use assms Receive in auto)
  next
    case (Disconnect conn)
    show ?thesis
    proof (cases "hm_get ss conn")
      case (Some fx)
      obtain fp a where fx: "fx = (fp, a)" by fastforce
      have l: "hub_live ss' (hm_remove fp (hub r))" and ss': "ss' = hm_remove conn ss"
        using hub_live_close[OF assms(1)] Some fx assms(3) Disconnect
        by (auto simp: on_close_def Let_def)
      have "out = concat (map (\<lambda>c. send_to r (other_party fp c) (HangupNormal (Some (call_id c))))
            (calls_for_fingerprint fp (calls r))) @
          hub_broadcast (hm_remove fp (hub r)) (presence_list (hm_remove fp (hub r)))"
        "hub r' = hm_remove fp (hub r)"
        using assms(3) Disconnect Some fx by (auto simp: on_close_def hub_unregister_def Let_def)
      moreover have "live_targets (live ss) (concat (map (\<lambda>c. send_to r (other_party fp c) (HangupNormal (Some (call_id c)) :: 'a Signal))
            (calls_for_fingerprint fp (calls r))))"
        by (intro live_concat live_send assms(1))
      moreover have "live_targets (live ss \<union> live ss') (hub_broadcast (hm_remove fp (hub r)) m)" for m :: "'a Signal"
        by (rule mono[OF live_broadcast[OF l]]) simp
      moreover have "live ss' \<subseteq> live ss" by (auto simp: ss' live_def)
      ultimately show ?thesis using l mono by auto
    qed (use assms Disconnect in auto)
  next
    case (FromPeer msg origin)
    then have "out = fst (cross_relay now msg origin r)" "ss' = ss" "hub r' = hub r"
      using assms(3) by (auto simp: split_beta split: prod.splits)
    then show ?thesis using live_cross[OF assms(1)] assms(1) by simp
  qed
qed

lemma live_run:
  assumes "hub_live ss (hub r)" "distinct (connects es)" "set (connects es) \<inter> live ss = {}"
    and "relay_run es (ss, r) = (outs, ss', r')"
  shows "hub_live ss' (hub r') \<and> live ss' \<subseteq> live ss \<union> set (connects es)"
  using assms
proof (induction es arbitrary: ss r outs)
  case (Cons te es)
  obtain t ev where te: "te = (t, ev)" by fastforce
  obtain o1 s1 r1 where step: "relay_step t ev (ss, r) = (o1, s1, r1)" by (metis prod_cases3)
  have split: "connects (te # es) = connects [(t, ev)] @ connects es" by (cases ev) (simp_all add: te)
  have fresh: "hm_get ss c = None" if "ev = Connect c a fp al" for c a fp al
    using Cons.prems(3) that by (auto simp: split live_def)
  have l: "hub_live s1 (hub r1)" "live s1 \<subseteq> live ss \<union> set (connects [(t, ev)])"
    using live_step[OF Cons.prems(1) fresh step] by auto
  obtain os where "relay_run es (s1, r1) = (os, ss', r')"
    using Cons.prems(4) by (auto simp: te step split: prod.splits)
  then show ?case
    using Cons.IH[of s1 r1 os] Cons.prems(2,3) l unfolding split distinct_append set_append by blast
qed simp

text \<open>
  C9 (signals go to open connections).  As long as connection numbers are not reused, every message the relay
  sends in any step of any history goes to a connection whose task is running when the step begins or ends.
\<close>

theorem signals_reach_live_connections:
  assumes "relay_run es ([], relay_new fm fp adv) = (outs, ss, r)"
    and "distinct (connects (es @ [(t, ev)]))"
    and "relay_step t ev (ss, r) = (out, ss', r')" "ToClient c msg \<in> set out"
  shows "hm_get ss c \<noteq> None \<or> hm_get ss' c \<noteq> None"
proof -
  have split: "connects (es @ [(t, ev)]) = connects es @ connects [(t, ev)]"
    by (induction es rule: connects.induct) simp_all
  have d: "distinct (connects es)" "set (connects es) \<inter> set (connects [(t, ev)]) = {}"
    using assms(2) unfolding split by simp_all
  have l: "hub_live ss (hub r)" "live ss \<subseteq> live [] \<union> set (connects es)"
    using live_run[OF _ d(1) _ assms(1)] by (simp_all add: relay_new_def hub_live_def live_def)
  then have fresh: "hm_get ss c' = None" if "ev = Connect c' a f al" for c' a f al
    using that d(2) by (force simp: live_def)
  have "live_targets (live ss \<union> live ss') out"
    using live_step[OF l(1) _ assms(3)] fresh by blast
  then show ?thesis using assms(4) by (auto simp: live_targets_def live_def)
qed

text \<open>Two turns of the clean-up: the other party is hung up if it is online then; the call is ended.\<close>

definition hung_up :: "string \<times> string \<Rightarrow> 'x turn \<Rightarrow> bool" where
  "hung_up cp t \<longleftrightarrow> turn_after t = turn_before t \<and>
     turn_out t = (case hm_get (hub (turn_before t)) (snd cp) of None \<Rightarrow> []
                   | Some p \<Rightarrow> [ToClient (transport p) (HangupNormal (Some (fst cp)))])"

definition call_ended :: "string \<Rightarrow> 'x turn \<Rightarrow> bool" where
  "call_ended cid t \<longleftrightarrow> turn_out t = [] \<and> hub (turn_after t) = hub (turn_before t) \<and>
     (\<forall>k. hm_get (calls (turn_after t)) k = (if k = cid then None else hm_get (calls (turn_before t)) k))"

definition signed_off :: "string \<Rightarrow> 'x turn \<Rightarrow> 'x turn \<Rightarrow> bool" where
  "signed_off fp t u \<longleftrightarrow> calls (turn_after t) = calls (turn_before t) \<and> calls (turn_after u) = calls (turn_before u) \<and>
     (\<forall>k. hm_get (hub (turn_after t)) k = (if k = fp then None else hm_get (hub (turn_before t)) k)) \<and>
     turn_out t = hub_broadcast (hub (turn_after t)) (presence_list (hub (turn_after t))) \<and>
     turn_out u = [] \<and> hm_get (locals (presence (turn_after u))) fp = None"

lemma close_all_unfold:
  "close_all now fp env i Listing r =
     \<lparr>turn_before = env i r, turn_out = [], turn_after = env i r\<rparr> #
     close_all now fp env (i + 1)
       (hang_next (map (\<lambda>c. (call_id c, other_party fp c)) (calls_for_fingerprint fp (calls (env i r))))) (env i r)"
  "close_all now fp env i (Hanging cid peer rest) r =
     \<lparr>turn_before = env i r, turn_out = send_to (env i r) peer (HangupNormal (Some cid)), turn_after = env i r\<rparr> #
     close_all now fp env (i + 1) (Ending cid rest) (env i r)"
  "close_all now fp env i (Ending cid rest) r =
     (let after = (env i r)\<lparr>calls := snd (end_call now cid (calls (env i r)))\<rparr> in
      \<lparr>turn_before = env i r, turn_out = [], turn_after = after\<rparr> #
      close_all now fp env (i + 1) (hang_next rest) after)"
  "close_all now fp env i Leaving r =
     (let after = (env i r)\<lparr>hub := hm_remove fp (hub (env i r))\<rparr> in
      \<lparr>turn_before = env i r, turn_out = hub_broadcast (hub after) (presence_list (hub after)), turn_after = after\<rparr> #
      close_all now fp env (i + 1) Forgetting after)"
  "close_all now fp env i Forgetting r =
     [\<lparr>turn_before = env i r, turn_out = [],
       turn_after = (env i r)\<lparr>presence := unregister_local fp (presence (env i r))\<rparr>\<rparr>]"
  by (subst close_all.simps, simp add: Let_def hub_unregister_def)+

lemma close_signs_off:
  "\<exists>t u. close_all now fp env i Leaving r = [t, u] \<and> signed_off fp t u"
  by (simp add: close_all_unfold Let_def signed_off_def unregister_local_def)

lemma close_one:
  "\<exists>t u. close_all now fp env i (Hanging cid peer rest) r =
       t # u # close_all now fp env (i + 2) (hang_next rest) (turn_after u) \<and>
     hung_up (cid, peer) t \<and> call_ended cid u"
  by (simp add: close_all_unfold(2,3) Let_def hung_up_def call_ended_def send_to_def hub_send_to_def
      eval_nat_numeral split: option.split)

lemma close_todo:
  "\<exists>hs es t (u :: 'x turn). close_all now fp env i (hang_next todo) r = concat (map2 (\<lambda>h e. [h, e]) hs es) @ [t, u] \<and>
     list_all2 hung_up todo hs \<and> list_all2 (\<lambda>cp. call_ended (fst cp)) todo es \<and> signed_off fp t u"
proof (induction todo arbitrary: i r)
  case Nil
  obtain t u :: "'x turn" where "close_all now fp env i Leaving r = [t, u]" "signed_off fp t u"
    using close_signs_off by blast
  then show ?case by (intro exI[of _ "[]"] exI[of _ t] exI[of _ u]) (simp add: hang_next_def)
next
  case (Cons cp todo)
  obtain cid peer where cp: "cp = (cid, peer)" by fastforce
  obtain h e :: "'x turn" where he: "close_all now fp env i (Hanging cid peer todo) r =
      h # e # close_all now fp env (i + 2) (hang_next todo) (turn_after e)"
    "hung_up (cid, peer) h" "call_ended cid e"
    using close_one by blast
  obtain hs es and t u :: "'x turn" where rest: "close_all now fp env (i + 2) (hang_next todo) (turn_after e) =
      concat (map2 (\<lambda>h e. [h, e]) hs es) @ [t, u]"
    "list_all2 hung_up todo hs" "list_all2 (\<lambda>cp. call_ended (fst cp)) todo es" "signed_off fp t u"
    using Cons.IH by blast
  have "hang_next (cp # todo) = Hanging cid peer todo" by (simp add: hang_next_def cp)
  then show ?case
    using he rest
    by (intro exI[of _ "h # hs"] exI[of _ "e # es"] exI[of _ t] exI[of _ u]) (simp add: cp)
qed

text \<open>
  C10 (a lost connection ends the calls it finds).  The clean-up of a closed connection always comes to its end,
  whatever other tasks do to the relay before each of its sections.  It lists the client's calls once; then, call
  after call, it sends the other party a hang-up with the id of the call if that party is online at that time, and
  takes exactly that call out of the registry; and at last it takes the client, and no one else, out of the hub,
  tells everyone left, and out of the presence registry.
\<close>

theorem disconnect_ends_calls:
  "\<exists>first hs es t (u :: 'x turn).
     close_all now fp env 0 Listing r = first # concat (map2 (\<lambda>h e. [h, e]) hs es) @ [t, u] \<and>
     turn_out first = [] \<and> turn_before first = env 0 r \<and> turn_after first = env 0 r \<and>
     list_all2 (\<lambda>c. hung_up (call_id c, other_party fp c)) (calls_for_fingerprint fp (calls (env 0 r))) hs \<and>
     list_all2 (\<lambda>c. call_ended (call_id c)) (calls_for_fingerprint fp (calls (env 0 r))) es \<and>
     signed_off fp t u"
proof -
  let ?cs = "calls_for_fingerprint fp (calls (env 0 r))"
  let ?todo = "map (\<lambda>c. (call_id c, other_party fp c)) ?cs"
  let ?first = "\<lparr>turn_before = env 0 r, turn_out = [], turn_after = env 0 r\<rparr> :: 'x turn"
  have "close_all now fp env 0 Listing r = ?first # close_all now fp env 1 (hang_next ?todo) (env 0 r)"
    by (simp add: close_all_unfold(1))
  moreover obtain hs es and t u :: "'x turn" where "close_all now fp env 1 (hang_next ?todo) (env 0 r) =
      concat (map2 (\<lambda>h e. [h, e]) hs es) @ [t, u]"
    "list_all2 hung_up ?todo hs" "list_all2 (\<lambda>cp. call_ended (fst cp)) ?todo es" "signed_off fp t u"
    using close_todo by blast
  ultimately show ?thesis
    by - (rule exI[of _ ?first], rule exI[of _ hs], rule exI[of _ es], rule exI[of _ t], rule exI[of _ u],
        simp add: list_all2_map1)
qed

text \<open>With no other task in between, the clean-up is \<open>on_close\<close>.\<close>

lemma close_todo_alone:
  fixes tr :: "'x turn list"
  shows "tr = close_all now fp (\<lambda>_ r. r) i (hang_next (map (\<lambda>c. (call_id c, other_party fp c)) cs)) r \<Longrightarrow>
    tr \<noteq> [] \<and>
    concat (map turn_out tr) =
      concat (map (\<lambda>c. send_to r (other_party fp c) (HangupNormal (Some (call_id c)))) cs) @
      hub_broadcast (hm_remove fp (hub r)) (presence_list (hm_remove fp (hub r))) \<and>
    turn_after (last tr) =
      (end_all now cs r)\<lparr>hub := hm_remove fp (hub r), presence := unregister_local fp (presence r)\<rparr>"
proof (induction cs arbitrary: i r tr)
  case Nil
  then show ?case by (simp add: hang_next_def close_all_unfold Let_def end_all_def)
next
  case (Cons c cs)
  let ?r = "r\<lparr>calls := snd (end_call now (call_id c) (calls r))\<rparr>"
  define tl where
    "tl = (close_all now fp (\<lambda>_ r. r) (i + 2) (hang_next (map (\<lambda>c. (call_id c, other_party fp c)) cs)) ?r :: 'x turn list)"
  have "tr = \<lparr>turn_before = r, turn_out = send_to r (other_party fp c) (HangupNormal (Some (call_id c))), turn_after = r\<rparr> #
      \<lparr>turn_before = r, turn_out = [], turn_after = ?r\<rparr> # tl"
    unfolding Cons.prems tl_def by (simp add: hang_next_def[of "_ # _"] close_all_unfold(2,3) Let_def eval_nat_numeral)
  then show ?case using Cons.IH[OF tl_def] by (simp add: send_to_def end_all_def)
qed

lemma close_alone:
  fixes tr :: "'x turn list"
  assumes "tr = close_all now fp (\<lambda>_ r. r) i Listing r"
  shows "concat (map turn_out tr) = fst (on_close now fp r) \<and> turn_after (last tr) = snd (on_close now fp r)"
proof -
  define tl where "tl = (close_all now fp (\<lambda>_ r. r) (i + 1)
      (hang_next (map (\<lambda>c. (call_id c, other_party fp c)) (calls_for_fingerprint fp (calls r)))) r :: 'x turn list)"
  have "tr = \<lparr>turn_before = r, turn_out = [], turn_after = r\<rparr> # tl"
    by (simp add: assms tl_def close_all_unfold(1))
  then show ?thesis
    using close_todo_alone[OF tl_def] by (simp add: on_close_def Let_def hub_unregister_def)
qed

text \<open>
  Also (safety; a call to a leaving client is orphaned).  The client is in the hub until the end of the clean-up, but its calls are
  listed at the start.  An offer that is handled in between is taken: the caller hears it ring, the closed
  connection is sent the offer, and when the clean-up is over the call is still in the registry, although the client is
  gone and nobody was hung up.
\<close>

theorem offer_during_close_is_orphaned:
  fixes msg :: "'x Signal"
  assumes "calls_for_fingerprint b (calls r) = []" and "map_option transport (hm_get (hub r) b) = Some cb"
  shows "fst (on_offer t ca a b cid c msg r) = [ToClient cb msg, ToClient ca (CallRinging cid)] \<and>
    (\<exists>first leaving forgetting :: 'x turn.
      close_all now b (\<lambda>i. if i = 1 then snd \<circ> on_offer t ca a b cid c msg else id) 0 Listing r =
        [first, leaving, forgetting] \<and>
      (\<forall>x \<in> {first, leaving, forgetting}. \<forall>conn cid. ToClient conn (HangupNormal cid) \<notin> set (turn_out x)) \<and>
      hm_get (hub (turn_after forgetting)) b = None \<and>
      hm_get (calls (turn_after forgetting)) cid = Some (placed t cid a b c))"
proof -
  have online: "is_online (hub r) b" using assms(2) by (auto simp: is_online_def)
  have offer: "on_offer t ca a b cid c msg r =
      ([ToClient cb msg, ToClient ca (CallRinging cid)], r\<lparr>calls := place_call t cid a b c (calls r)\<rparr>)"
    using online assms(2) by (simp add: on_offer_def send_online)
  let ?env = "\<lambda>i. if i = 1 then snd \<circ> on_offer t ca a b cid c msg else id"
  have "close_all now b ?env 0 Listing r =
      (let r1 = r\<lparr>calls := place_call t cid a b c (calls r)\<rparr>; r2 = r1\<lparr>hub := hm_remove b (hub r)\<rparr> in
       [\<lparr>turn_before = r, turn_out = [], turn_after = r\<rparr>,
        \<lparr>turn_before = r1, turn_out = hub_broadcast (hub r2) (presence_list (hub r2)), turn_after = r2\<rparr>,
        \<lparr>turn_before = r2, turn_out = [], turn_after = r2\<lparr>presence := unregister_local b (presence r)\<rparr>\<rparr>])"
    by (simp add: close_all_unfold assms(1) hang_next_def offer Let_def)
  note run = this
  show ?thesis
    unfolding run Let_def
    by (auto simp: offer hub_broadcast_def presence_list_def place_same intro!: exI)
qed

section \<open>What the signalling does not guarantee\<close>

lemma end_call_all: "calls (end_all now [e] r) = snd (end_call now (call_id e) (calls r))"
  by (simp add: end_all_def)

text \<open>
  C11 (endings do not cross relays).  When the callee of a call between two relays rejects it, its relay sends
  a hang-up through the federation link - and the caller's relay ignores it: the caller hears nothing and the
  call stays in the registry.  A hang-up of the caller, even after the call was accepted, is sent to no one.
\<close>

theorem cross_relay_endings_are_lost:
  fixes msg :: "'x Signal"
  assumes "linked r1 r2" "linked r2 r1"
    and "hm_get (calls r2) cid = Some e2" "peer_relay_fp e2 = Some (tls_fp r1)"
    and "hm_get (calls r1) cid = Some e1" "caller_fingerprint e1 = a" "\<not> is_online (hub r1) (callee_fingerprint e1)"
  shows "fst (on_answer t b cid Reject d msg r2) =
      [ToRelay (ToPeer (normalize_fp (tls_fp r1)) (FederatedSignalForward (HangupNormal (Some cid)) (tls_fp r2)))] \<and>
    fst (take_envelope sha t k (FederatedSignalForward (HangupNormal (Some cid) :: 'x Signal) (tls_fp r2)) r1) = [] \<and>
    calls (snd (take_envelope sha t k (FederatedSignalForward (HangupNormal (Some cid) :: 'x Signal) (tls_fp r2)) r1)) =
      calls r1 \<and>
    fst (on_hangup t a (Some cid) msg r1) = []"
proof -
  let ?bye = "HangupNormal (Some cid) :: 'x Signal"
  have "linked (r2\<lparr>calls := reg\<rparr>) r1" for reg using assms(2) by (simp add: linked_def)
  then have "fst (on_answer t b cid Reject d msg r2) =
      [ToRelay (ToPeer (normalize_fp (tls_fp r1)) (FederatedSignalForward ?bye (tls_fp r2)))]"
    using assms(3,4) forward_linked[of "r2\<lparr>calls := reg\<rparr>" r1 ?bye for reg]
    by (simp add: on_answer_def Calls.peer_fingerprint_def Let_def)
  moreover obtain fm where "take_envelope sha t k (FederatedSignalForward ?bye (tls_fp r2)) r1 =
      cross_relay t ?bye (tls_fp r2) (r1\<lparr>federation_mgr := Some fm\<rparr>)"
    using take_forward[OF assms(1)] by blast
  then have "take_envelope sha t k (FederatedSignalForward ?bye (tls_fp r2)) r1 = ([], r1\<lparr>federation_mgr := Some fm\<rparr>)"
    by (simp add: cross_relay_def)
  moreover have "fst (on_hangup t a (Some cid) msg r1) = []"
    using assms(5-7) by (simp add: on_hangup_def other_party_def send_to_def hub_send_to_def is_online_def Let_def)
  ultimately show ?thesis by simp
qed

text \<open>
  Also (forwarded negotiation is dropped).  Candidate updates and the negotiation messages of a call between
  relays are wrapped and sent to the other relay, whose dispatcher drops every one of them.
\<close>

theorem forwarded_negotiation_is_dropped:
  fixes x :: 'x
  assumes "linked r1 r2" and "msg = CandidateUpdate cid x \<or> msg = PeerNegotiation cid x"
  shows "fst (take_envelope sha t k (FederatedSignalForward msg (tls_fp r2)) r1) = []"
  using take_forward[OF assms(1), of sha t k msg] assms(2) by (auto simp: cross_relay_def)

text \<open>
  Also (a reconnect is undone by the old connection).  A client that registers again over a new connection and
  whose old connection is noticed to be gone only afterwards is taken off the hub, although its new connection
  is open and its task still serves it: calls to it are answered as if it were offline.
\<close>

theorem stale_close_unregisters:
  assumes "relay_run [(t1, Connect c1 a1 fp al), (t2, Connect c2 a2 fp al), (t3, Disconnect c1)] (ss, r) =
      (outs, ss', r')" and "c1 \<noteq> c2"
  shows "hm_get ss' c2 = Some (fp, a2) \<and> \<not> is_online (hub r') fp"
  using assms
  by (auto simp: on_register_def on_close_def hub_unregister_def hub_register_def is_online_def Let_def)

text \<open>
  Also (a call id is a claim on its room).  A client that offers a call under the id of a running call, to anyone
  online, replaces the entry of the registry: the room then admits the newcomer and shuts out the parties whose
  call it was.
\<close>

theorem reused_call_id_takes_the_room:
  assumes "hm_get ss cm = Some (mallory, am)" "is_online (hub r) target"
    and "relay_run [(t, Receive cm (DirectCallOffer x target cid c y))] (ss, r) = (outs, ss', r')"
  shows "room_admits (calls r') (room_of_call cid) fp \<longleftrightarrow> fp = mallory \<or> fp = target"
proof -
  have "calls r' = place_call t cid mallory target c (calls r)"
    using assms by (auto simp: on_signal_def on_offer_def)
  then show ?thesis using place_same[of t cid mallory target c "calls r"]
    by (auto simp: room_admits_def placed_def)
qed

text \<open>
  Also (anyone can answer).  The relay does not ask whether an answer comes from the callee.  A third client that
  knows the id of a pending call and accepts it makes the relay send the caller that client's addresses as the
  callee's, and that client the caller's.
\<close>

theorem anyone_answers:
  assumes "hm_get (calls r) cid = Some e" "peer_relay_fp e = None" "call_id e = cid"
    and "call_state e \<in> {Pending, Ringing}" "mallory \<noteq> caller_fingerprint e" "mode \<noteq> Reject"
    and "map_option transport (hm_get (hub r) (caller_fingerprint e)) = Some ca"
    and "map_option transport (hm_get (hub r) mallory) = Some cm"
  shows "fst (on_signal now cm am mallory (DirectCallAnswer cid mode d y) r) =
    [ToClient ca (DirectCallAnswer cid mode d y),
     ToClient ca (CallSetup cid (room_of_call cid) (advertised_addr r) d),
     ToClient cm (CallSetup cid (room_of_call cid) (advertised_addr r)
       \<lparr>reflexive_addr = caller_reflexive_addr e, local_addrs = caller_local_addrs e, mapped_addr = caller_mapped_addr e\<rparr>)]"
proof -
  let ?s = "r\<lparr>calls := accept_call now cid mode d (calls r)\<rparr>"
  have get: "hm_get (accept_call now cid mode d (calls r)) cid = Some (accepted now mode d e)"
    using assms(1,3,4) by (rule accept_same)
  have "Calls.peer_fingerprint cid mallory (calls r) = Some (caller_fingerprint e)"
    using assms(1,5) by (simp add: Calls.peer_fingerprint_def)
  moreover have "send_to ?s (caller_fingerprint e) m = [ToClient ca m]" "send_to ?s mallory m = [ToClient cm m]"
    for m :: "'a Signal"
    using assms(7,8) by (simp_all add: send_online)
  moreover have "callee_candidates (calls ?s) cid = d"
    "caller_candidates (calls ?s) cid =
      \<lparr>reflexive_addr = caller_reflexive_addr e, local_addrs = caller_local_addrs e, mapped_addr = caller_mapped_addr e\<rparr>"
    using get by (simp_all add: callee_candidates_def caller_candidates_def accepted_def)
  ultimately show ?thesis
    using assms(1,2,6) by (simp add: on_signal_def on_answer_def call_setup_def Let_def)
qed

section \<open>Examples\<close>

definition no_addr :: Candidates where
  "no_addr = \<lparr>reflexive_addr = None, local_addrs = [], mapped_addr = None\<rparr>"

definition relay_fm :: "string \<Rightarrow> string \<Rightarrow> FederationManager" where
  "relay_fm own other = (demo_fm [other])\<lparr>local_tls_fp := own, dispatcher_wired := True\<rparr>"

definition two_online :: "sessions \<times> Relay" where
  "two_online = snd (relay_run
     [(1, Connect 1 ''1.1.1.1'' ''a'' None :: unit event), (2, Connect 2 ''2.2.2.2'' ''b'' None),
      (3, Connect 3 ''3.3.3.3'' ''m'' None)] ([], relay_new None ''r'' ''relay''))"

lemma two_online_eq: "\<exists>p. two_online =
  ([(1, ''a'', ''1.1.1.1''), (2, ''b'', ''2.2.2.2''), (3, ''m'', ''3.3.3.3'')],
   \<lparr>hub = [(''a'', \<lparr>client_alias = None, transport = 1\<rparr>), (''b'', \<lparr>client_alias = None, transport = 2\<rparr>),
      (''m'', \<lparr>client_alias = None, transport = 3\<rparr>)], calls = [], presence = p, federation_mgr = None,
    tls_fp = ''r'', advertised_addr = ''relay''\<rparr>)"
  by (simp add: two_online_def relay_new_def on_register_def hub_register_def Let_def)

lemma two_online_simps:
  "fst two_online = [(1, ''a'', ''1.1.1.1''), (2, ''b'', ''2.2.2.2''), (3, ''m'', ''3.3.3.3'')]"
  "hub (snd two_online) = [(''a'', \<lparr>client_alias = None, transport = 1\<rparr>),
     (''b'', \<lparr>client_alias = None, transport = 2\<rparr>), (''m'', \<lparr>client_alias = None, transport = 3\<rparr>)]"
  by (simp_all add: two_online_def relay_new_def on_register_def hub_register_def Let_def)

theorem call_setup_crosswires_witness:
  "let (outs, ss, r) = relay_run
      [(4, Receive 1 (DirectCallOffer ''a'' ''b'' ''c'' no_addr ())), (5, Receive 3 (Ping 7)),
       (6, Receive 2 (DirectCallAnswer ''c'' AcceptGeneric no_addr ()))] two_online in
   length (last outs) = 3 \<and> room_admits (calls r) (room_of_call ''c'') ''a'' \<and>
   \<not> room_admits (calls r) (room_of_call ''c'') ''m''"
proof -
  obtain p where two: "two_online =
      ([(1, ''a'', ''1.1.1.1''), (2, ''b'', ''2.2.2.2''), (3, ''m'', ''3.3.3.3'')],
       \<lparr>hub = [(''a'', \<lparr>client_alias = None, transport = 1\<rparr>), (''b'', \<lparr>client_alias = None, transport = 2\<rparr>),
          (''m'', \<lparr>client_alias = None, transport = 3\<rparr>)], calls = [], presence = p, federation_mgr = None,
        tls_fp = ''r'', advertised_addr = ''relay''\<rparr>)" (is "_ = (?ss, ?r)")
    using two_online_eq by blast
  have "parties_online ''a'' 1 ''b'' 2 (?ss, ?r)"
    by (simp add: parties_online_def registry_wf_def)
  note cross = call_setup_crosswires[OF this, where m = AcceptGeneric and es = "[(5, Receive 3 (Ping 7))]"
      and cid = "''c''" and ?t0.0 = 4 and ?t1.0 = 6 and x = "()" and y = "()" and c = no_addr and d = no_addr]
  obtain outs ss r where run: "relay_run
      [(4, Receive 1 (DirectCallOffer ''a'' ''b'' ''c'' no_addr ())), (5, Receive 3 (Ping 7)),
       (6, Receive 2 (DirectCallAnswer ''c'' AcceptGeneric no_addr ()))] (?ss, ?r) = (outs, ss, r)"
    by (metis prod_cases3)
  show ?thesis
    using cross[of "''a''" outs ss r] run by (simp add: two signal_call_def hangs_up_all_def del: relay_run.simps)
qed

definition relay_with :: "string \<Rightarrow> string \<Rightarrow> nat \<Rightarrow> string \<Rightarrow> Relay" where
  "relay_with own other conn fp =
     (relay_new (Some (relay_fm own other)) own (''addr-'' @ own))
       \<lparr>hub := [(fp, \<lparr>client_alias = None, transport = conn\<rparr>)]\<rparr>"

lemma relay_with_linked: "linked (relay_with ''r1'' ''r2'' n f) (relay_with ''r2'' ''r1'' n' f')"
  "linked (relay_with ''r2'' ''r1'' n' f') (relay_with ''r1'' ''r2'' n f)"
  by (simp_all add: linked_def relay_with_def relay_new_def relay_fm_def demo_fm_def normalize_fp_def to_lower_def)

theorem cross_relay_call_setup_witness:
  "let r1 = relay_with ''r1'' ''r2'' 1 ''a''; r2 = relay_with ''r2'' ''r1'' 2 ''b'';
       (o2, s2) = take_envelope demo_sha 2 ''r1''
          (FederatedSignalForward (DirectCallOffer ''a'' ''b'' ''c'' no_addr ()) ''r1'') r2 in
   o2 = [ToClient 2 (DirectCallOffer ''a'' ''b'' ''c'' no_addr ())]"
proof -
  let ?r1 = "relay_with ''r1'' ''r2'' 1 ''a''" and ?r2 = "relay_with ''r2'' ''r1'' 2 ''b''"
  have "map_option transport (hm_get (hub ?r1) ''a'') = Some 1" "\<not> is_online (hub ?r1) ''b''"
    "map_option transport (hm_get (hub ?r2) ''b'') = Some 2" "tls_fp ?r1 = ''r1''"
    by (simp_all add: relay_with_def is_online_def relay_new_def)
  with cross_relay_call_setup[OF relay_with_linked(1)[of 1 "''a''" 2 "''b''"] relay_with_linked(2)[of 2 "''b''" 1 "''a''"], where a = "''a''" and b = "''b''" and m = AcceptGeneric
      and cid = "''c''" and x = "()" and y = "()" and c = no_addr and d = no_addr and sha = demo_sha
      and ?t2.0 = 2 and ?k1.0 = "''r1''"]
  show ?thesis by (simp add: split_beta Let_def)
qed

theorem cross_relay_endings_are_lost_witness:
  "let r1 = (relay_with ''r1'' ''r2'' 1 ''a'')\<lparr>calls := [(''c'', placed 0 ''c'' ''a'' ''b'' no_addr)]\<rparr>;
       r2 = (relay_with ''r2'' ''r1'' 2 ''b'')\<lparr>calls := [(''c'', offered 0 ''c'' ''a'' ''b'' no_addr ''r1'')]\<rparr>;
       (out, s) = take_envelope demo_sha 5 ''r2''
          (FederatedSignalForward (HangupNormal (Some ''c'') :: unit Signal) ''r2'') r1 in
   out = [] \<and> hm_get (calls s) ''c'' \<noteq> None"
proof -
  let ?r1 = "(relay_with ''r1'' ''r2'' 1 ''a'')\<lparr>calls := [(''c'', placed 0 ''c'' ''a'' ''b'' no_addr)]\<rparr>"
  let ?r2 = "(relay_with ''r2'' ''r1'' 2 ''b'')\<lparr>calls := [(''c'', offered 0 ''c'' ''a'' ''b'' no_addr ''r1'')]\<rparr>"
  have l: "linked ?r1 ?r2" "linked ?r2 ?r1"
    using relay_with_linked(1)[of 1 "''a''" 2 "''b''"] relay_with_linked(2)[of 2 "''b''" 1 "''a''"]
    by (simp_all add: linked_def)
  have "tls_fp ?r1 = ''r1''" "tls_fp ?r2 = ''r2''" "\<not> is_online (hub ?r1) ''b''"
    by (simp_all add: relay_with_def relay_new_def is_online_def)
  then show ?thesis
    using cross_relay_endings_are_lost[OF l, where cid = "''c''" and ?e2.0 = "offered 0 ''c'' ''a'' ''b'' no_addr ''r1''"
        and ?e1.0 = "placed 0 ''c'' ''a'' ''b'' no_addr" and a = "''a''" and sha = demo_sha and t = 5 and k = "''r2''"
        and msg = "HangupNormal (Some ''c'') :: unit Signal"]
    by (simp add: offered_def placed_def split_beta Let_def)
qed

theorem stale_close_unregisters_witness:
  "let (outs, ss, r) = relay_run
      [(1, Connect 1 ''x'' ''a'' None :: unit event), (2, Connect 2 ''y'' ''a'' None), (3, Disconnect 1)]
      ([], relay_new None ''r'' ''relay'') in
   \<not> is_online (hub r) ''a''"
proof -
  obtain outs ss r where run: "relay_run
      [(1, Connect 1 ''x'' ''a'' None :: unit event), (2, Connect 2 ''y'' ''a'' None), (3, Disconnect 1)]
      ([], relay_new None ''r'' ''relay'') = (outs, ss, r)"
    by (metis prod_cases3)
  then show ?thesis using stale_close_unregisters[OF run] by simp
qed

theorem reused_call_id_takes_the_room_witness:
  "let (outs, ss, r) = relay_run [(4, Receive 3 (DirectCallOffer ''m'' ''b'' ''c'' no_addr ()))]
      (fst two_online, (snd two_online)\<lparr>calls := [(''c'', placed 0 ''c'' ''a'' ''b'' no_addr)]\<rparr>) in
   room_admits (calls r) (room_of_call ''c'') ''m'' \<and> \<not> room_admits (calls r) (room_of_call ''c'') ''a''"
proof -
  let ?r = "(snd two_online)\<lparr>calls := [(''c'', placed 0 ''c'' ''a'' ''b'' no_addr)]\<rparr>"
  obtain outs ss r where run: "relay_run [(4, Receive 3 (DirectCallOffer ''m'' ''b'' ''c'' no_addr ()))]
      (fst two_online, ?r) = (outs, ss, r)" by (metis prod_cases3)
  have "hm_get (fst two_online) 3 = Some (''m'', ''3.3.3.3'')" "is_online (hub ?r) ''b''"
    by (simp_all add: two_online_simps is_online_def)
  note take = reused_call_id_takes_the_room[OF this run]
  show ?thesis using take[of "''m''"] take[of "''a''"] run by simp
qed

theorem anyone_answers_witness:
  "length (fst (on_signal 9 3 ''3.3.3.3'' ''m'' (DirectCallAnswer ''c'' AcceptGeneric no_addr ())
     ((snd two_online)\<lparr>calls := [(''c'', placed 0 ''c'' ''a'' ''b'' no_addr)]\<rparr>))) = 3"
proof -
  let ?r = "(snd two_online)\<lparr>calls := [(''c'', placed 0 ''c'' ''a'' ''b'' no_addr)]\<rparr>"
  have "hm_get (calls ?r) ''c'' = Some (placed 0 ''c'' ''a'' ''b'' no_addr)" by simp
  moreover have "map_option transport (hm_get (hub ?r) ''a'') = Some 1"
    "map_option transport (hm_get (hub ?r) ''m'') = Some 3"
    by (simp_all add: two_online_simps)
  ultimately show ?thesis
    using anyone_answers[of ?r "''c''" "placed 0 ''c'' ''a'' ''b'' no_addr" "''m''" AcceptGeneric 1 3 9 "''3.3.3.3''" no_addr "()"]
    by (simp add: placed_def)
qed

theorem signals_reach_live_connections_witness:
  "let (outs, ss, r) = relay_run [(1, Connect 1 ''x'' ''a'' None :: unit event)] ([], relay_new None ''r'' ''relay'');
       (out, ss', r') = relay_step 2 (Receive 1 (Ping 7) :: unit event) (ss, r) in
   out = [ToClient 1 (Pong 7)] \<and> hm_get ss 1 \<noteq> None"
proof -
  obtain outs ss r where run:
    "relay_run [(1, Connect 1 ''x'' ''a'' None :: unit event)] ([], relay_new None ''r'' ''relay'') = (outs, ss, r)"
    by (metis prod_cases3)
  then have ss: "hm_get ss 1 = Some (''a'', ''x'')" by (auto simp: on_register_def Let_def)
  then have step: "relay_step 2 (Receive 1 (Ping 7) :: unit event) (ss, r) = ([ToClient 1 (Pong 7)], ss, r)"
    by (simp add: on_signal_def)
  have "hm_get ss 1 \<noteq> None \<or> hm_get ss 1 \<noteq> None"
    by (rule signals_reach_live_connections[OF run _ step]) simp_all
  then show ?thesis using run step by (simp del: relay_run.simps relay_step.simps)
qed

theorem offer_during_close_is_orphaned_witness:
  "\<exists>first leaving forgetting :: unit turn.
     close_all 9 ''b'' (\<lambda>i. if i = 1 then snd \<circ> on_offer 8 1 ''a'' ''b'' ''c'' no_addr (DirectCallOffer ''a'' ''b'' ''c'' no_addr ())
         else id) 0 Listing (snd two_online) = [first, leaving, forgetting] \<and>
     hm_get (calls (turn_after forgetting)) ''c'' = Some (placed 8 ''c'' ''a'' ''b'' no_addr)"
proof -
  have "calls (snd two_online) = []" using two_online_eq by (metis Relay.select_convs(2) snd_conv)
  then have "calls_for_fingerprint ''b'' (calls (snd two_online)) = []"
    "map_option transport (hm_get (hub (snd two_online)) ''b'') = Some 2"
    by (simp_all add: two_online_simps calls_for_fingerprint_def)
  from offer_during_close_is_orphaned[OF this, of 8 1 "''a''" "''c''" no_addr
      "DirectCallOffer ''a'' ''b'' ''c'' no_addr ()" 9]
  show ?thesis by blast
qed

end
