(* ===== verification/Handshake.thy ===== *)
theory Handshake
  imports Crypto Signalling
begin

text \<open>
  Who is calling: identities and fingerprints, \<open>crates/wzp-crypto/src/identity.rs\<close> and the identity half
  of \<open>handshake.rs\<close>, and the two sides of the signed key exchange, \<open>crates/wzp-client/src/handshake.rs\<close>
  and \<open>crates/wzp-relay/src/handshake.rs\<close>.  Ed25519 joins the primitives of \<open>Crypto\<close> as a
  parameter; hexadecimal decoding is the parameter \<open>hex_decode\<close>.  The outcome of waiting for the other
  side's signal is an argument.
\<close>

section \<open>Identities\<close>

record identity_primitives = primitives +
  ed_public :: "byte list \<Rightarrow> byte list"
  ed_sign :: "byte list \<Rightarrow> byte list \<Rightarrow> byte list"
  ed_key_ok :: "byte list \<Rightarrow> bool"
  ed_verify :: "byte list \<Rightarrow> byte list \<Rightarrow> byte list \<Rightarrow> bool"

text \<open>What Ed25519 promises of honest signatures.\<close>

definition signatures_verify :: "identity_primitives \<Rightarrow> bool" where
  "signatures_verify P \<longleftrightarrow>
     (\<forall>k m. ed_key_ok P (ed_public P k) \<and> length (ed_sign P k m) = 64 \<and>
            ed_verify P (ed_public P k) m (ed_sign P k m))"

abbreviation (input) base :: "identity_primitives \<Rightarrow> primitives" where
  "base P \<equiv> primitives.truncate P"

record Identity =
  signing_key :: "byte list"
  x25519_static_secret :: "byte list"
  x25519_static_public :: "byte list"

definition from_identity_seed :: "identity_primitives \<Rightarrow> byte list \<Rightarrow> Identity \<times> WarzoneKeyExchange" where
  "from_identity_seed P seed =
     (let sk = hkdf P None seed ''warzone-ed25519'' 32; x = hkdf P None seed ''warzone-x25519'' 32 in
      (\<lparr>signing_key = sk, x25519_static_secret = x, x25519_static_public = x25519_public P x\<rparr>,
       \<lparr>ephemeral_secret = None\<rparr>))"

definition identity_public_key :: "identity_primitives \<Rightarrow> Identity \<Rightarrow> byte list" where
  "identity_public_key P i = ed_public P (signing_key i)"

definition id_fingerprint :: "identity_primitives \<Rightarrow> Identity \<Rightarrow> byte list" where
  "id_fingerprint P i = take 16 (sha256 P (identity_public_key P i))"

definition id_sign :: "identity_primitives \<Rightarrow> Identity \<Rightarrow> byte list \<Rightarrow> byte list" where
  "id_sign P i m = ed_sign P (signing_key i) m"

definition id_verify :: "identity_primitives \<Rightarrow> byte list \<Rightarrow> byte list \<Rightarrow> byte list \<Rightarrow> bool" where
  "id_verify P pub m sig =
     (if \<not> ed_key_ok P pub then False else if length sig \<noteq> 64 then False else ed_verify P pub m sig)"

definition hex_u16 :: "byte \<Rightarrow> byte \<Rightarrow> string" where
  "hex_u16 a b = hex_encode [a, b]"

definition fingerprint_to_string :: "byte list \<Rightarrow> string" where
  "fingerprint_to_string f =
     hex_u16 (f ! 0) (f ! 1) @ '':'' @ hex_u16 (f ! 2) (f ! 3) @ '':'' @ hex_u16 (f ! 4) (f ! 5) @ '':'' @
     hex_u16 (f ! 6) (f ! 7) @ '':'' @ hex_u16 (f ! 8) (f ! 9) @ '':'' @ hex_u16 (f ! 10) (f ! 11) @ '':'' @
     hex_u16 (f ! 12) (f ! 13) @ '':'' @ hex_u16 (f ! 14) (f ! 15)"

definition is_hexdigit :: "char \<Rightarrow> bool" where
  "is_hexdigit c \<longleftrightarrow> (let n = of_char c :: nat in
     (48 \<le> n \<and> n \<le> 57) \<or> (65 \<le> n \<and> n \<le> 70) \<or> (97 \<le> n \<and> n \<le> 102))"

datatype FingerprintError = InvalidHex | FingerprintTooShort

definition fingerprint_from_hex ::
  "(string \<Rightarrow> byte list option) \<Rightarrow> string \<Rightarrow> FingerprintError + byte list" where
  "fingerprint_from_hex hex_decode s =
     (case hex_decode (filter is_hexdigit s) of None \<Rightarrow> Inl InvalidHex
      | Some bytes \<Rightarrow> if length bytes < 16 then Inl FingerprintTooShort else Inr (take 16 bytes))"

definition fingerprint_of_key :: "identity_primitives \<Rightarrow> byte list \<Rightarrow> string" where
  "fingerprint_of_key P pub = fingerprint_to_string (take 16 (sha256 P pub))"

section \<open>Messages\<close>

record CallOffer =
  of_identity_pub :: "byte list"
  of_ephemeral_pub :: "byte list"
  of_signature :: "byte list"
  of_supported_profiles :: "QualityProfile list"
  of_alias :: "string option"
  of_protocol_version :: u8
  of_supported_versions :: "u8 list"
  of_video_codecs :: "CodecId list"

record CallAnswer =
  an_identity_pub :: "byte list"
  an_ephemeral_pub :: "byte list"
  an_signature :: "byte list"
  an_chosen_profile :: QualityProfile
  an_video_codec :: "CodecId option"

datatype hs_signal =
    OfferSignal CallOffer
  | AnswerSignal CallAnswer
  | VersionMismatch "u8 list"
  | OtherHsSignal

datatype arrival = Arrived hs_signal | ConnClosed | RecvFailed | RecvTimeout

definition offer_data :: "byte list \<Rightarrow> byte list" where
  "offer_data eph = eph @ bytes_of ''call-offer''"

definition answer_data :: "byte list \<Rightarrow> byte list" where
  "answer_data eph = eph @ bytes_of ''call-answer''"

section \<open>The client\<close>

datatype HandshakeError =
    ConnectionClosed
  | ProtocolVersionMismatch "u8 list"
  | UnexpectedSignal
  | SignatureVerificationFailed
  | KeyDerivation CryptoError
  | TransportFailed

record HandshakeResult =
  hs_session :: ChaChaSession
  hs_video_codec :: "CodecId option"

definition client_offer ::
  "identity_primitives \<Rightarrow> byte list \<Rightarrow> byte list \<Rightarrow> string option \<Rightarrow> CodecId list \<Rightarrow>
   CallOffer \<times> WarzoneKeyExchange" where
  "client_offer P seed secret al codecs =
     (let (ident, kx) = from_identity_seed P seed;
          (eph, kx) = generate_ephemeral (base P) secret kx in
      (\<lparr>of_identity_pub = identity_public_key P ident, of_ephemeral_pub = eph,
        of_signature = id_sign P ident (offer_data eph),
        of_supported_profiles = [STUDIO_64K, STUDIO_48K, STUDIO_32K, GOOD, DEGRADED, CATASTROPHIC],
        of_alias = al, of_protocol_version = 2, of_supported_versions = [2], of_video_codecs = codecs\<rparr>, kx))"

definition client_finish ::
  "identity_primitives \<Rightarrow> WarzoneKeyExchange \<Rightarrow> arrival \<Rightarrow> HandshakeError + HandshakeResult" where
  "client_finish P kx arr =
     (case arr of
        RecvTimeout \<Rightarrow> Inl TransportFailed
      | RecvFailed \<Rightarrow> Inl TransportFailed
      | ConnClosed \<Rightarrow> Inl ConnectionClosed
      | Arrived (AnswerSignal a) \<Rightarrow>
          if \<not> id_verify P (an_identity_pub a) (answer_data (an_ephemeral_pub a)) (an_signature a)
          then Inl SignatureVerificationFailed
          else (case derive_session (base P) kx (an_ephemeral_pub a) of
                  Inl e \<Rightarrow> Inl (KeyDerivation e)
                | Inr s \<Rightarrow> Inr \<lparr>hs_session = s, hs_video_codec = an_video_codec a\<rparr>)
      | Arrived (VersionMismatch vs) \<Rightarrow> Inl (ProtocolVersionMismatch vs)
      | Arrived _ \<Rightarrow> Inl UnexpectedSignal)"

section \<open>The relay\<close>

datatype RelayHsError =
    NoOffer | ExpectedOffer | WrongVersion u8 | BadCallerSignature | RelayKeyDerivation CryptoError

definition choose_profile :: "QualityProfile list \<Rightarrow> QualityProfile" where
  "choose_profile supported = GOOD"

text \<open>The signals sent and the result; sending does not fail.\<close>

definition accept_handshake ::
  "identity_primitives \<Rightarrow> byte list \<Rightarrow> byte list \<Rightarrow> arrival \<Rightarrow>
   hs_signal list \<times> (RelayHsError + ChaChaSession \<times> QualityProfile \<times> string \<times> string option)" where
  "accept_handshake P seed secret arr =
     (case arr of
        Arrived (OfferSignal f) \<Rightarrow>
          if of_protocol_version f \<noteq> 2
          then ([VersionMismatch [2]], Inl (WrongVersion (of_protocol_version f)))
          else if \<not> id_verify P (of_identity_pub f) (offer_data (of_ephemeral_pub f)) (of_signature f)
          then ([], Inl BadCallerSignature)
          else
            let (ident, kx) = from_identity_seed P seed;
                (eph, kx) = generate_ephemeral (base P) secret kx;
                sig = id_sign P ident (answer_data eph) in
            (case derive_session (base P) kx (of_ephemeral_pub f) of
               Inl e \<Rightarrow> ([], Inl (RelayKeyDerivation e))
             | Inr s \<Rightarrow>
                 let profile = choose_profile (of_supported_profiles f);
                     video = (case of_video_codecs f of [] \<Rightarrow> None | c # _ \<Rightarrow> Some c) in
                 ([AnswerSignal \<lparr>an_identity_pub = identity_public_key P ident, an_ephemeral_pub = eph,
                     an_signature = sig, an_chosen_profile = profile, an_video_codec = video\<rparr>],
                  Inr (s, profile, fingerprint_of_key P (of_identity_pub f), of_alias f)))
      | Arrived _ \<Rightarrow> ([], Inl ExpectedOffer)
      | _ \<Rightarrow> ([], Inl NoOffer))"

section \<open>Fingerprints\<close>

lemma unat_nibble: "unat (drop_bit 4 (b :: byte)) < 16" "unat (b AND 15 :: byte) < 16"
proof -
  show "unat (drop_bit 4 b) < 16"
    using unsigned_less[of b, where 'a = nat] by (simp add: drop_bit_eq_div unat_div)
  have "b AND 15 = take_bit 4 b" by (simp add: take_bit_eq_mask mask_eq_exp_minus_1)
  then show "unat (b AND 15) < 16" by (simp add: take_bit_eq_mod unat_mod)
qed

lemma hex_digit_ok: "unat b < 16 \<Longrightarrow> is_hexdigit (hex_digit b)"
  by (simp add: is_hexdigit_def hex_digit_def word_less_nat_alt Let_def)

lemma colon_no_hexdigit [simp]: "\<not> is_hexdigit (CHR '':'')"
  by (simp add: is_hexdigit_def)

lemma filter_hex [simp]: "filter is_hexdigit (hex_encode bs) = hex_encode bs"
  by (induction bs) (simp_all add: hex_encode_def hex_digit_ok unat_nibble)

lemma hex_encode_append: "hex_encode (a @ b) = hex_encode a @ hex_encode b"
  by (simp add: hex_encode_def)

lemma list16: "length f = 16 \<Longrightarrow> f = map ((!) f) [0..<16]"
  by (metis map_nth)

lemma filter_fingerprint:
  assumes "length f = 16"
  shows "filter is_hexdigit (fingerprint_to_string f) = hex_encode f"
proof -
  have "[0..<16] = [0, 1, 2, 3, 4, 5, 6, 7, 8, 9, 10, 11, 12, 13, 14, 15 :: nat]" by code_simp
  then have "filter is_hexdigit (fingerprint_to_string f) = hex_encode (map ((!) f) [0..<16])"
    by (simp add: fingerprint_to_string_def hex_u16_def) (simp add: hex_encode_def)
  then show ?thesis using list16[OF assms] by simp
qed

text \<open>What the code uses of the decoder: it reads back what the encoder wrote.\<close>

definition hex_decodes :: "(string \<Rightarrow> byte list option) \<Rightarrow> bool" where
  "hex_decodes hex_decode \<longleftrightarrow> (\<forall>bs. hex_decode (hex_encode bs) = Some bs)"

text \<open>
  Also (fingerprints survive display).  The printed form of a fingerprint reads back as the fingerprint, so two
  fingerprints that print alike are the same.
\<close>

theorem fingerprint_roundtrip:
  assumes "hex_decodes hex_decode" "length f = 16"
  shows "fingerprint_from_hex hex_decode (fingerprint_to_string f) = Inr f \<and>
    (length g = 16 \<and> fingerprint_to_string g = fingerprint_to_string f \<longrightarrow> g = f)"
proof -
  have reads: "fingerprint_from_hex hex_decode (fingerprint_to_string h) = Inr h" if "length h = 16" for h
    using assms(1) that by (simp add: fingerprint_from_hex_def filter_fingerprint hex_decodes_def)
  then show ?thesis using assms(2) by (metis sum.inject(2))
qed

section \<open>An honest handshake\<close>

lemma generate_eph: "generate_ephemeral P e kx = (x25519_public P e, kx\<lparr>ephemeral_secret := Some e\<rparr>)"
  by (simp add: generate_ephemeral_def)

lemma verify_own:
  "signatures_verify P \<Longrightarrow> id_verify P (identity_public_key P i) m (id_sign P i m)"
  by (simp add: signatures_verify_def id_verify_def identity_public_key_def id_sign_def)

lemma derive_ok: "\<exists>s. derive_session P \<lparr>ephemeral_secret = Some e\<rparr> pub = Inr s"
  by (simp add: derive_session_def Let_def)

lemma client_offer_eq:
  "client_offer P seed e al codecs =
    (\<lparr>of_identity_pub = identity_public_key P (fst (from_identity_seed P seed)),
      of_ephemeral_pub = x25519_public P e,
      of_signature = id_sign P (fst (from_identity_seed P seed)) (offer_data (x25519_public P e)),
      of_supported_profiles = [STUDIO_64K, STUDIO_48K, STUDIO_32K, GOOD, DEGRADED, CATASTROPHIC],
      of_alias = al, of_protocol_version = 2, of_supported_versions = [2], of_video_codecs = codecs\<rparr>,
     \<lparr>ephemeral_secret = Some e\<rparr>)"
  by (simp add: client_offer_def from_identity_seed_def generate_eph primitives.defs Let_def)

definition first_codec :: "CodecId list \<Rightarrow> CodecId option" where
  "first_codec cs = (case cs of [] \<Rightarrow> None | c # _ \<Rightarrow> Some c)"

lemma accept_eq:
  assumes "of_protocol_version f = 2" "id_verify P (of_identity_pub f) (offer_data (of_ephemeral_pub f)) (of_signature f)"
    and "derive_session (base P) \<lparr>ephemeral_secret = Some e\<rparr> (of_ephemeral_pub f) = Inr s"
  shows "accept_handshake P seed e (Arrived (OfferSignal f)) =
    ([AnswerSignal \<lparr>an_identity_pub = identity_public_key P (fst (from_identity_seed P seed)),
        an_ephemeral_pub = x25519_public P e,
        an_signature = id_sign P (fst (from_identity_seed P seed)) (answer_data (x25519_public P e)),
        an_chosen_profile = GOOD, an_video_codec = first_codec (of_video_codecs f)\<rparr>],
     Inr (s, GOOD, fingerprint_of_key P (of_identity_pub f), of_alias f))"
  using assms
  by (simp add: accept_handshake_def from_identity_seed_def generate_eph choose_profile_def first_codec_def
      primitives.defs Let_def)

lemma honest_handshake:
  assumes "signatures_verify P" "dh_commutes (base P)"
    and "client_offer P seed a al codecs = (f, kx)"
    and "accept_handshake P seed' b (Arrived (OfferSignal f)) = (out, res)"
  shows "\<exists>ans s. out = [AnswerSignal ans] \<and>
    res = Inr (s, GOOD, fingerprint_to_string (id_fingerprint P (fst (from_identity_seed P seed))), al) \<and>
    client_finish P kx (Arrived (AnswerSignal ans)) = Inr \<lparr>hs_session = s, hs_video_codec = first_codec codecs\<rparr>"
proof -
  have f: "of_protocol_version f = 2" "of_identity_pub f = identity_public_key P (fst (from_identity_seed P seed))"
    "of_ephemeral_pub f = x25519_public P a" "of_alias f = al" "of_video_codecs f = codecs"
    "of_signature f = id_sign P (fst (from_identity_seed P seed)) (offer_data (x25519_public P a))"
    and kx: "kx = \<lparr>ephemeral_secret = Some a\<rparr>"
    using assms(3) by (auto simp: client_offer_eq)
  obtain s where s: "derive_session (base P) \<lparr>ephemeral_secret = Some b\<rparr> (x25519_public (base P) a) = Inr s"
    using derive_ok by blast
  have pub: "x25519_public (base P) = x25519_public P" by (simp add: primitives.defs)
  have "derive_session (base P) \<lparr>ephemeral_secret = Some a\<rparr> (x25519_public (base P) b) = Inr s"
    using derive_session_pair[OF assms(2), of a b] s by simp
  then have fin: "client_finish P kx (Arrived (AnswerSignal \<lparr>an_identity_pub = identity_public_key P i,
        an_ephemeral_pub = x25519_public P b, an_signature = id_sign P i (answer_data (x25519_public P b)),
        an_chosen_profile = GOOD, an_video_codec = v\<rparr>)) = Inr \<lparr>hs_session = s, hs_video_codec = v\<rparr>" for i v
    by (simp add: client_finish_def verify_own[OF assms(1)] kx pub)
  show ?thesis
    using assms(4) accept_eq[OF f(1), of P b s seed'] s fin
    by (simp add: f pub verify_own[OF assms(1)] id_fingerprint_def fingerprint_of_key_def)
qed

text \<open>
  C12 (an honest handshake agrees).  When client and relay exchange their signals unaltered, both end with the
  same session - key, session id and short authentication string -, the relay knows the client by the
  fingerprint of its identity, and the codec is the first the client offered.
\<close>

theorem handshake_agrees:
  assumes "signatures_verify P" "dh_commutes (base P)"
    and "client_offer P seed a al codecs = (f, kx)"
    and "accept_handshake P seed' b (Arrived (OfferSignal f)) = (out, res)"
  shows "\<exists>ans s. out = [AnswerSignal ans] \<and>
    res = Inr (s, GOOD, fingerprint_to_string (id_fingerprint P (fst (from_identity_seed P seed))), al) \<and>
    client_finish P kx (Arrived (AnswerSignal ans)) = Inr \<lparr>hs_session = s, hs_video_codec = first_codec codecs\<rparr>"
  by (rule honest_handshake[OF assms])

text \<open>
  Also (other protocol versions are turned away).  A relay answers an offer of any version but 2 with the versions
  it speaks and nothing else, whatever the signature; the client then reports exactly those versions.
\<close>

theorem version_mismatch_is_told:
  assumes "of_protocol_version f \<noteq> 2"
  shows "accept_handshake P seed e (Arrived (OfferSignal f)) =
      ([VersionMismatch [2]], Inl (WrongVersion (of_protocol_version f))) \<and>
    client_finish P kx (Arrived (VersionMismatch [2])) = Inl (ProtocolVersionMismatch [2])"
  using assms by (simp add: accept_handshake_def client_finish_def)

section \<open>What the signatures do not bind\<close>

text \<open>
  Also (a recorded offer is as good as the caller).  The signature of an offer covers the ephemeral key and a
  constant.  Whoever recorded an offer that one relay accepted can send it again, to any relay and at any time,
  and is taken for the caller: the fingerprint is the same, so is what it opens - a call room that admits the
  caller admits the replay.
\<close>

theorem replayed_offer_is_accepted:
  assumes "accept_handshake P seed e (Arrived (OfferSignal f)) = (out, Inr (s, q, fp, al))"
  shows "\<exists>out' s'. accept_handshake P seed' e' (Arrived (OfferSignal f)) = (out', Inr (s', q, fp, al)) \<and>
    (room_admits reg rname (fingerprint_of_key P (of_identity_pub f)) \<longleftrightarrow> room_admits reg rname fp)"
proof -
  have v: "of_protocol_version f = 2" "id_verify P (of_identity_pub f) (offer_data (of_ephemeral_pub f)) (of_signature f)"
    using assms by (auto simp: accept_handshake_def split: if_splits)
  obtain s0 where s0: "derive_session (base P) \<lparr>ephemeral_secret = Some e\<rparr> (of_ephemeral_pub f) = Inr s0"
    using derive_ok by blast
  obtain s1 where s1: "derive_session (base P) \<lparr>ephemeral_secret = Some e'\<rparr> (of_ephemeral_pub f) = Inr s1"
    using derive_ok by blast
  from assms have "q = GOOD" "fp = fingerprint_of_key P (of_identity_pub f)" "al = of_alias f"
    unfolding accept_eq[OF v s0] by simp_all
  then show ?thesis unfolding accept_eq[OF v s1] by simp
qed

text \<open>
  Also (the client does not know its relay).  The answer is checked against the identity that comes with it, and
  that identity is then forgotten.  Anyone between client and relay can answer under an identity of its own: the
  client finishes the handshake with a session it shares with that third party.
\<close>

theorem anyone_is_the_relay:
  assumes "signatures_verify P" "dh_commutes (base P)"
    and "client_offer P seed a al codecs = (f, kx)"
    and "m = \<lparr>an_identity_pub = identity_public_key P mallory, an_ephemeral_pub = x25519_public P b,
         an_signature = id_sign P mallory (answer_data (x25519_public P b)), an_chosen_profile = q,
         an_video_codec = v\<rparr>"
  shows "\<exists>s. client_finish P kx (Arrived (AnswerSignal m)) = Inr \<lparr>hs_session = s, hs_video_codec = v\<rparr> \<and>
    derive_session (base P) \<lparr>ephemeral_secret = Some b\<rparr> (of_ephemeral_pub f) = Inr s"
proof -
  have kx: "kx = \<lparr>ephemeral_secret = Some a\<rparr>" "of_ephemeral_pub f = x25519_public P a"
    using assms(3) by (auto simp: client_offer_eq)
  have pub: "x25519_public (base P) = x25519_public P" by (simp add: primitives.defs)
  obtain s where s: "derive_session (base P) \<lparr>ephemeral_secret = Some b\<rparr> (x25519_public P a) = Inr s"
    using derive_ok by blast
  then have "derive_session (base P) \<lparr>ephemeral_secret = Some a\<rparr> (x25519_public P b) = Inr s"
    using derive_session_pair[OF assms(2), of a b] by (simp add: pub)
  then show ?thesis using s by (simp add: client_finish_def assms(4) verify_own[OF assms(1)] kx)
qed

section \<open>Examples\<close>

definition toy_id :: identity_primitives where
  "toy_id = primitives.extend toy
     \<lparr>ed_public = (\<lambda>k. k), ed_sign = (\<lambda>k m. take 64 (k @ m @ replicate 64 0)), ed_key_ok = (\<lambda>_. True),
      ed_verify = (\<lambda>k m s. s = take 64 (k @ m @ replicate 64 0))\<rparr>"

lemma toy_id_signs: "signatures_verify toy_id"
  by (simp add: signatures_verify_def toy_id_def primitives.defs min_def)

lemma toy_id_base: "base toy_id = toy"
  by (simp add: toy_id_def primitives.defs)

fun read_hex :: "string \<Rightarrow> byte list option" where
  "read_hex [] = Some []"
| "read_hex [c] = None"
| "read_hex (c # d # s) =
     (let v = (\<lambda>c. let n = of_char c :: nat in if n < 58 then n - 48 else n - 87) in
      map_option ((#) (of_nat (16 * v c + v d))) (read_hex s))"

lemma read_digit:
  "unat b < 16 \<Longrightarrow>
   (let n = of_char (hex_digit b) :: nat in if n < 58 then n - 48 else n - 87) = unat b"
  by (simp add: hex_digit_def word_less_nat_alt Let_def)

lemma read_hex_decodes: "hex_decodes read_hex"
proof -
  have nibbles: "of_nat (16 * unat (drop_bit 4 b) + unat (b AND 15)) = b" for b :: byte
  proof -
    have "b AND 15 = take_bit 4 b" by (simp add: take_bit_eq_mask mask_eq_exp_minus_1)
    then have "16 * unat (drop_bit 4 b) + unat (b AND 15) = unat b"
      by (simp add: drop_bit_eq_div unat_div take_bit_eq_mod unat_mod)
    then show ?thesis by simp
  qed
  have "read_hex (hex_encode bs) = Some bs" for bs
  proof (induction bs)
    case (Cons b bs)
    have "hex_encode (b # bs) = hex_digit (drop_bit 4 b) # hex_digit (b AND 15) # hex_encode bs"
      by (simp add: hex_encode_def)
    then show ?case
      using Cons read_digit[OF unat_nibble(1)[of b]] read_digit[OF unat_nibble(2)[of b]] nibbles[of b]
      by (simp only: read_hex.simps Let_def) simp
  qed (simp add: hex_encode_def)
  then show ?thesis by (simp add: hex_decodes_def)
qed

theorem fingerprint_roundtrip_witness:
  "fingerprint_from_hex read_hex (fingerprint_to_string (replicate 16 171)) = Inr (replicate 16 171)"
  using fingerprint_roundtrip[OF read_hex_decodes, of "replicate 16 171"] by (simp only: length_replicate)

definition toy_offer :: CallOffer where
  "toy_offer = fst (client_offer toy_id [1] [3] (Some ''Alice'') [H264Baseline])"

lemma toy_accepts: "\<exists>out s. accept_handshake toy_id [2] [4] (Arrived (OfferSignal toy_offer)) =
    (out, Inr (s, GOOD, fingerprint_to_string (id_fingerprint toy_id (fst (from_identity_seed toy_id [1]))), Some ''Alice''))"
proof -
  obtain out res where acc: "accept_handshake toy_id [2] [4] (Arrived (OfferSignal toy_offer)) = (out, res)" by fastforce
  have "dh_commutes (base toy_id)" by (simp add: toy_id_base toy_commutes)
  then show ?thesis
    using honest_handshake[OF toy_id_signs _ prod.collapse[symmetric] acc[unfolded toy_offer_def]] acc
    by auto 
qed

theorem handshake_agrees_witness:
  "\<exists>ans s. accept_handshake toy_id [2] [4] (Arrived (OfferSignal toy_offer)) = ([AnswerSignal ans],
      Inr (s, GOOD, fingerprint_to_string (id_fingerprint toy_id (fst (from_identity_seed toy_id [1]))), Some ''Alice'')) \<and>
    client_finish toy_id \<lparr>ephemeral_secret = Some [3]\<rparr> (Arrived (AnswerSignal ans)) =
      Inr \<lparr>hs_session = s, hs_video_codec = Some H264Baseline\<rparr>"
proof -
  obtain out res where acc: "accept_handshake toy_id [2] [4] (Arrived (OfferSignal toy_offer)) = (out, res)" by fastforce
  have "client_offer toy_id [1] [3] (Some ''Alice'') [H264Baseline] = (toy_offer, \<lparr>ephemeral_secret = Some [3]\<rparr>)"
    by (simp add: toy_offer_def client_offer_eq)
  from handshake_agrees[OF toy_id_signs _ this acc] show ?thesis
    by (auto simp: acc toy_id_base toy_commutes first_codec_def)
qed

theorem version_mismatch_is_told_witness:
  "accept_handshake toy_id [2] [4] (Arrived (OfferSignal (toy_offer\<lparr>of_protocol_version := 1\<rparr>))) =
     ([VersionMismatch [2]], Inl (WrongVersion 1))"
  using version_mismatch_is_told[of "toy_offer\<lparr>of_protocol_version := 1\<rparr>" toy_id "[2]" "[4]"] by simp

theorem replayed_offer_is_accepted_witness:
  "\<exists>out s. accept_handshake toy_id [7] [8] (Arrived (OfferSignal toy_offer)) =
    (out, Inr (s, GOOD, fingerprint_to_string (id_fingerprint toy_id (fst (from_identity_seed toy_id [1]))), Some ''Alice''))"
proof -
  obtain out s where "accept_handshake toy_id [2] [4] (Arrived (OfferSignal toy_offer)) =
    (out, Inr (s, GOOD, fingerprint_to_string (id_fingerprint toy_id (fst (from_identity_seed toy_id [1]))), Some ''Alice''))"
    using toy_accepts by blast
  from replayed_offer_is_accepted[OF this] show ?thesis by blast
qed

theorem anyone_is_the_relay_witness:
  "\<exists>s m. an_identity_pub m = identity_public_key toy_id (fst (from_identity_seed toy_id [9])) \<and>
    client_finish toy_id \<lparr>ephemeral_secret = Some [3]\<rparr> (Arrived (AnswerSignal m)) =
      Inr \<lparr>hs_session = s, hs_video_codec = None\<rparr>"
proof -
  have "client_offer toy_id [1] [3] (Some ''Alice'') [H264Baseline] = (toy_offer, \<lparr>ephemeral_secret = Some [3]\<rparr>)"
    by (simp add: toy_offer_def client_offer_eq)
  from anyone_is_the_relay[OF toy_id_signs _ this refl, of "fst (from_identity_seed toy_id [9])" "[5]" GOOD None]
  obtain s where "client_finish toy_id \<lparr>ephemeral_secret = Some [3]\<rparr> (Arrived (AnswerSignal
      \<lparr>an_identity_pub = identity_public_key toy_id (fst (from_identity_seed toy_id [9])),
       an_ephemeral_pub = x25519_public toy_id [5],
       an_signature = id_sign toy_id (fst (from_identity_seed toy_id [9])) (answer_data (x25519_public toy_id [5])),
       an_chosen_profile = GOOD, an_video_codec = None\<rparr>)) = Inr \<lparr>hs_session = s, hs_video_codec = None\<rparr>"
    by (auto simp: toy_id_base toy_commutes)
  then show ?thesis by (intro exI conjI) (rule CallAnswer.select_convs)
qed

end
