(* ===== verification/Admission.thy ===== *)
theory Admission
  imports Handshake SessionMgr Room
begin

text \<open>
  How a client gets into a room, and out of it: the connection task of \<open>crates/wzp-relay/src/main.rs\<close>
  (token, signed handshake, access check of call rooms, presence, session limit, limit of call rooms,
  join, departure) and the WebSocket task of \<open>ws.rs\<close>.  Each task holds one lock at a time; a step of a
  task is one section under a lock, so the sections of different tasks interleave.  The answer of the
  token service and the signals that arrive are arguments; the broadcast of the room list, the replay of
  keyframes, metrics and logs are left out.
\<close>

section \<open>Connections and shared state\<close>

record Ticket =
  token_fp :: "string option"
  part_fp :: string
  part_alias :: "string option"

datatype quic_stage =
    Connected
  | Authenticated "string option"
  | Identified Ticket
  | Permitted Ticket
  | Listed Ticket
  | Forwarding Ticket
  | Seated Ticket session_key
  | Checked Ticket session_key
  | Refused session_key
  | Joined Ticket session_key ParticipantId
  | Departed Ticket session_key
  | Delisted session_key
  | Closed

datatype ws_stage =
    WsConnected
  | WsOpen "string option"
  | WsSeated "string option" session_key
  | WsRefused session_key
  | WsJoined "string option" session_key ParticipantId
  | WsPlaying "string option" session_key ParticipantId
  | WsLeaving "string option" session_key ParticipantId
  | WsDelisted session_key
  | WsClosed

datatype conn = QuicConn string string quic_stage | WsConn string ws_stage

record Shared =
  rl_calls :: CallRegistry
  rl_presence :: PresenceRegistry
  rl_sessions :: SessionManager
  rl_rooms :: RoomManager

record AdmissionConfig =
  auth_required :: bool
  forward_mode :: bool
  relay_seed :: "byte list"

text \<open>What a task waits for: the token service's verdict, a handshake signal, the end of its media.\<close>

datatype token_outcome = TokenValid string | TokenInvalid | OtherFirstSignal | NoSignal

datatype stimulus = Token token_outcome | Shake "byte list" arrival | Proceed | Ended

section \<open>The steps of a connection\<close>

definition authenticate :: "bool \<Rightarrow> stimulus \<Rightarrow> (unit + string option) option" where
  "authenticate needed stim =
     (if \<not> needed then Some (Inr None)
      else (case stim of
              Token (TokenValid fp) \<Rightarrow> Some (Inr (Some fp))
            | Token _ \<Rightarrow> Some (Inl ())
            | _ \<Rightarrow> None))"

definition identify ::
  "identity_primitives \<Rightarrow> byte list \<Rightarrow> string option \<Rightarrow> byte list \<Rightarrow> arrival \<Rightarrow> Ticket option" where
  "identify P seed tok secret arr =
     (case snd (accept_handshake P seed secret arr) of
        Inl _ \<Rightarrow> None
      | Inr (_, _, fp, al) \<Rightarrow>
          Some \<lparr>token_fp = tok, part_fp = (case tok of Some t \<Rightarrow> t | None \<Rightarrow> fp), part_alias = al\<rparr>)"

definition open_seat ::
  "nat \<Rightarrow> u64 \<Rightarrow> string \<Rightarrow> string option \<Rightarrow> Shared \<Rightarrow> session_key option \<times> Shared" where
  "open_seat now nanos rname fp sh =
     (let (res, m) = create_session now nanos rname fp (rl_sessions sh) in
      (case res of Inl _ \<Rightarrow> None | Inr sid \<Rightarrow> Some sid, sh\<lparr>rl_sessions := m\<rparr>))"

definition close_seat :: "session_key \<Rightarrow> Shared \<Rightarrow> Shared" where
  "close_seat sid sh = sh\<lparr>rl_sessions := remove_session sid (rl_sessions sh)\<rparr>"

definition enter_room ::
  "string \<Rightarrow> string \<Rightarrow> ParticipantSender \<Rightarrow> string option \<Rightarrow> string option \<Rightarrow> Shared \<Rightarrow>
   ParticipantId option \<times> Shared" where
  "enter_room rname addr sender fp al sh =
     (let (res, rm) = join rname addr sender fp al (rl_rooms sh) in
      (case res of Inl _ \<Rightarrow> None | Inr j \<Rightarrow> Some (joined_id j), sh\<lparr>rl_rooms := rm\<rparr>))"

definition exit_room :: "string \<Rightarrow> ParticipantId \<Rightarrow> Shared \<Rightarrow> Shared" where
  "exit_room rname pid sh = sh\<lparr>rl_rooms := snd (leave rname pid (rl_rooms sh))\<rparr>"

definition list_present :: "nat \<Rightarrow> string option \<Rightarrow> string \<Rightarrow> Shared \<Rightarrow> Shared" where
  "list_present now fp rname sh =
     (case fp of None \<Rightarrow> sh
      | Some f \<Rightarrow> sh\<lparr>rl_presence := register_local now f None (Some rname) (rl_presence sh)\<rparr>)"

definition delist_present :: "string option \<Rightarrow> Shared \<Rightarrow> Shared" where
  "delist_present fp sh =
     (case fp of None \<Rightarrow> sh | Some f \<Rightarrow> sh\<lparr>rl_presence := unregister_local f (rl_presence sh)\<rparr>)"

definition call_room_full :: "string \<Rightarrow> Shared \<Rightarrow> bool" where
  "call_room_full rname sh \<longleftrightarrow> call_of_room rname \<noteq> None \<and> 2 \<le> room_size (rl_rooms sh) rname"

text \<open>Connection \<open>i\<close> of a client at \<open>addr\<close> that named the room \<open>rname\<close>.\<close>

definition quic_step ::
  "identity_primitives \<Rightarrow> AdmissionConfig \<Rightarrow> nat \<Rightarrow> u64 \<Rightarrow> nat \<Rightarrow> string \<Rightarrow> string \<Rightarrow> stimulus \<Rightarrow>
   quic_stage \<Rightarrow> Shared \<Rightarrow> quic_stage \<times> Shared" where
  "quic_step P cfg now nanos i addr rname stim st sh =
     (case st of
        Connected \<Rightarrow>
          (case authenticate (auth_required cfg) stim of
             None \<Rightarrow> (st, sh) | Some (Inl _) \<Rightarrow> (Closed, sh) | Some (Inr tok) \<Rightarrow> (Authenticated tok, sh))
      | Authenticated tok \<Rightarrow>
          (case stim of
             Shake secret arr \<Rightarrow>
               (case identify P (relay_seed cfg) tok secret arr of
                  None \<Rightarrow> (Closed, sh) | Some t \<Rightarrow> (Identified t, sh))
           | _ \<Rightarrow> (st, sh))
      | Identified t \<Rightarrow>
          if room_admits (rl_calls sh) rname (part_fp t) then (Permitted t, sh) else (Closed, sh)
      | Permitted t \<Rightarrow> (Listed t, list_present now (Some (part_fp t)) rname sh)
      | Listed t \<Rightarrow>
          if forward_mode cfg then (Forwarding t, sh)
          else (case open_seat now nanos rname (token_fp t) sh of
                  (None, sh) \<Rightarrow> (Closed, sh) | (Some sid, sh) \<Rightarrow> (Seated t sid, sh))
      | Forwarding t \<Rightarrow> if stim = Ended then (Closed, sh) else (st, sh)
      | Seated t sid \<Rightarrow> if call_room_full rname sh then (Refused sid, sh) else (Checked t sid, sh)
      | Checked t sid \<Rightarrow>
          (case enter_room rname addr (Quic i) (Some (part_fp t)) (part_alias t) sh of
             (None, sh) \<Rightarrow> (Refused sid, sh) | (Some pid, sh) \<Rightarrow> (Joined t sid pid, sh))
      | Refused sid \<Rightarrow> (Closed, close_seat sid sh)
      | Joined t sid pid \<Rightarrow> if stim = Ended then (Departed t sid, exit_room rname pid sh) else (st, sh)
      | Departed t sid \<Rightarrow> (Delisted sid, delist_present (token_fp t) sh)
      | Delisted sid \<Rightarrow> (Closed, close_seat sid sh)
      | Closed \<Rightarrow> (st, sh))"

definition ws_step ::
  "AdmissionConfig \<Rightarrow> nat \<Rightarrow> u64 \<Rightarrow> nat \<Rightarrow> string \<Rightarrow> stimulus \<Rightarrow> ws_stage \<Rightarrow> Shared \<Rightarrow> ws_stage \<times> Shared" where
  "ws_step cfg now nanos i rname stim st sh =
     (case st of
        WsConnected \<Rightarrow>
          (case authenticate (auth_required cfg) stim of
             None \<Rightarrow> (st, sh) | Some (Inl _) \<Rightarrow> (WsClosed, sh) | Some (Inr fp) \<Rightarrow> (WsOpen fp, sh))
      | WsOpen fp \<Rightarrow>
          (case open_seat now nanos rname fp sh of
             (None, sh) \<Rightarrow> (WsClosed, sh) | (Some sid, sh) \<Rightarrow> (WsSeated fp sid, sh))
      | WsSeated fp sid \<Rightarrow>
          (case enter_room rname ''0.0.0.0:0'' (WebSocket i) fp None sh of
             (None, sh) \<Rightarrow> (WsRefused sid, sh) | (Some pid, sh) \<Rightarrow> (WsJoined fp sid pid, sh))
      | WsRefused sid \<Rightarrow> (WsClosed, close_seat sid sh)
      | WsJoined fp sid pid \<Rightarrow> (WsPlaying fp sid pid, list_present now fp rname sh)
      | WsPlaying fp sid pid \<Rightarrow>
          if stim = Ended then (WsLeaving fp sid pid, delist_present fp sh) else (st, sh)
      | WsLeaving fp sid pid \<Rightarrow> (WsDelisted sid, exit_room rname pid sh)
      | WsDelisted sid \<Rightarrow> (WsClosed, close_seat sid sh)
      | WsClosed \<Rightarrow> (st, sh))"

section \<open>The relay\<close>

text \<open>
  Names that are no rooms: their connections are served elsewhere.  The signal tasks rewrite the call
  registry, and members of a room send packets and requests for pictures.
\<close>

definition reserved_names :: "string list" where
  "reserved_names = [''ping'', ''version'', ''_probe'', ''_federation'', ''_signal'']"

datatype relay_event =
    DialQuic string string
  | DialWs string
  | Turn nat nat u64 stimulus
  | Registry CallRegistry
  | Traffic room_op

type_synonym Relay = "conn list \<times> Shared"

definition turn ::
  "identity_primitives \<Rightarrow> AdmissionConfig \<Rightarrow> nat \<Rightarrow> nat \<Rightarrow> u64 \<Rightarrow> stimulus \<Rightarrow> conn \<Rightarrow> Shared \<Rightarrow> conn \<times> Shared" where
  "turn P cfg i now nanos stim c sh =
     (case c of
        QuicConn addr rname st \<Rightarrow> apfst (QuicConn addr rname) (quic_step P cfg now nanos i addr rname stim st sh)
      | WsConn rname st \<Rightarrow> apfst (WsConn rname) (ws_step cfg now nanos i rname stim st sh))"

fun admission_step :: "identity_primitives \<Rightarrow> AdmissionConfig \<Rightarrow> relay_event \<Rightarrow> Relay \<Rightarrow> Relay" where
  "admission_step P cfg (DialQuic addr rname) (cs, sh) =
     (if rname \<in> set reserved_names then (cs, sh) else (cs @ [QuicConn addr rname Connected], sh))"
| "admission_step P cfg (DialWs rname) (cs, sh) = (cs @ [WsConn rname WsConnected], sh)"
| "admission_step P cfg (Turn i now nanos stim) (cs, sh) =
     (if i < length cs
      then let (c, sh) = turn P cfg i now nanos stim (cs ! i) sh in (cs[i := c], sh)
      else (cs, sh))"
| "admission_step P cfg (Registry reg) (cs, sh) = (cs, sh\<lparr>rl_calls := reg\<rparr>)"
| "admission_step P cfg (Traffic op) (cs, sh) =
     (case op of
        Media n p t k \<Rightarrow> (cs, sh\<lparr>rl_rooms := room_step op (rl_rooms sh)\<rparr>)
      | Pli n s t \<Rightarrow> (cs, sh\<lparr>rl_rooms := room_step op (rl_rooms sh)\<rparr>)
      | _ \<Rightarrow> (cs, sh))"

definition admission_run :: "identity_primitives \<Rightarrow> AdmissionConfig \<Rightarrow> relay_event list \<Rightarrow> Relay \<Rightarrow> Relay" where
  "admission_run P cfg es r = fold (admission_step P cfg) es r"

definition relay_start :: "CallRegistry \<Rightarrow> nat \<Rightarrow> (string, string set) hashmap option \<Rightarrow> Relay" where
  "relay_start reg limit rooms_acl =
     ([], \<lparr>rl_calls = reg, rl_presence = presence_new, rl_sessions = session_manager_new limit,
           rl_rooms = manager_new\<lparr>acl := rooms_acl\<rparr>\<rparr>)"

section \<open>Members of rooms\<close>

definition members :: "RoomManager \<Rightarrow> string \<Rightarrow> Participant list" where
  "members rm name = (case hm_get (rooms rm) name of None \<Rightarrow> [] | Some r \<Rightarrow> participants r)"

lemma room_size_members: "room_size rm name = length (members rm name)"
  by (simp add: room_size_def members_def split: option.split)

lemma members_frame: "rooms rm' = rooms rm \<Longrightarrow> members rm' = members rm"
  by (intro ext) (simp add: members_def)

lemma members_join:
  assumes "p \<in> set (members (snd (join n a s fp al rm)) m)"
  shows "p \<in> set (members rm m) \<or>
    (\<exists>j. fst (join n a s fp al rm) = Inr j \<and> m = n \<and> p_id p = joined_id j \<and> p_fingerprint p = fp \<and> p_sender p = s)"
proof (cases "is_authorized rm n fp")
  case True
  define room where "room = (case hm_get (rooms rm) n of None \<Rightarrow> room_new | Some r \<Rightarrow> r)"
  obtain removed room1 where rem:
    "(case fp of None \<Rightarrow> ([], room) | Some f \<Rightarrow> remove_by_fingerprint f room) = (removed, room1)"
    by fastforce
  have old: "set (participants room1) \<subseteq> set (members rm n)"
    using rem by (auto simp: members_def room_def room_new_def remove_by_fingerprint_def Let_def
        split: option.splits)
  show ?thesis
    using assms True rem old
    by (auto simp: join_def Let_def room_def[symmetric] members_def room_add_def split: if_splits)
next
  case False
  then show ?thesis using assms by (simp add: join_def)
qed

lemma members_leave:
  "set (members (snd (leave n pid rm)) m) \<subseteq>
     {p \<in> set (members rm m). m = n \<longrightarrow> p_id p \<noteq> pid}"
  by (cases "hm_get (rooms rm) n")
    (auto simp: leave_as_one Let_def members_def room_remove_def split: option.splits if_splits)

lemma members_other_room:
  assumes "n \<noteq> m"
  shows "members (snd (join n a s fp al rm)) m = members rm m" and "members (snd (leave n pid rm)) m = members rm m"
proof -
  obtain removed room1 where rem:
    "(case fp of None \<Rightarrow> ([], case hm_get (rooms rm) n of None \<Rightarrow> room_new | Some r \<Rightarrow> r)
      | Some f \<Rightarrow> remove_by_fingerprint f (case hm_get (rooms rm) n of None \<Rightarrow> room_new | Some r \<Rightarrow> r)) = (removed, room1)"
    by fastforce
  then show "members (snd (join n a s fp al rm)) m = members rm m"
    using assms by (simp add: join_def Let_def members_def)
  show "members (snd (leave n pid rm)) m = members rm m"
    using assms by (cases "hm_get (rooms rm) n") (simp_all add: leave_as_one Let_def members_def)
qed

lemma members_leave_absent:
  assumes "pid \<notin> p_id ` set (members rm n)"
  shows "members (snd (leave n pid rm)) m = members rm m"
proof (cases "m = n")
  case True
  have "filter (\<lambda>p. p_id p \<noteq> pid) (members rm n) = members rm n"
    using assms by (intro filter_True) auto
  then show ?thesis
    using True by (cases "hm_get (rooms rm) n") (auto simp: leave_as_one Let_def members_def room_remove_def)
next
  case False
  then show ?thesis by (simp add: members_other_room)
qed

lemma members_observe_quality:
  "members (snd (observe_quality now n pid q rm)) = members rm"
proof (cases "\<exists>r pq. hm_get (rooms rm) n = Some r \<and> hm_get (qualities r) pid = Some pq")
  case True
  then obtain r pq where r: "hm_get (rooms rm) n = Some r" "hm_get (qualities r) pid = Some pq" by blast
  from observe_quality_form[OF this, of now q] obtain pq' t where
    "snd (observe_quality now n pid q rm) =
     rm\<lparr>rooms := hm_insert n (r\<lparr>qualities := hm_insert pid pq' (qualities r), room_tier := t\<rparr>) (rooms rm)\<rparr>"
    by blast
  then show ?thesis using r by (auto simp: members_def intro!: ext)
next
  case False
  then show ?thesis by (auto simp: observe_quality_def split: option.split)
qed

lemma members_noted: "members (packet_noted n pid now pkt rm) = members rm"
proof -
  have "members (register_owner n pid pkt (update_keyframe_cache n pid pkt rm)) = members rm"
    by (rule members_frame) simp
  moreover have "members (update_receiver_state now n pid b l rm') = members rm'" for b l rm'
    by (rule members_frame) simp
  ultimately show ?thesis
    by (simp add: packet_noted_def Let_def members_observe_quality split: option.split)
qed

lemma traffic_keeps_members: "members (room_step (Media n pid now pkt) rm) m = members rm m"
proof (cases "contains_participant rm n pid")
  case True
  show ?thesis using forward_member[OF True, of now pkt] by (auto simp: members_noted)
next
  case False
  then have "pid \<notin> p_id ` set (members rm n)"
    by (auto simp: contains_participant_def room_contains_def members_def split: option.splits)
  then show ?thesis using False members_leave_absent by (auto simp: forward_packet_def)
qed

lemma members_traffic:
  "set (members (room_step (Media n pid now pkt) rm) m) \<subseteq> set (members rm m)"
proof (cases "contains_participant rm n pid")
  case True
  show ?thesis using forward_member[OF True, of now pkt] by (auto simp: members_noted)
next
  case False
  then show ?thesis using members_leave[of n pid rm m] by (auto simp: forward_packet_def)
qed

lemma members_pli [simp]: "members (room_step (Pli n s now) rm) = members rm"
  by (rule members_frame) simp

text \<open>The seat a connection holds in a room: the room, its participant id and its fingerprint.\<close>

fun quic_seat :: "string \<Rightarrow> quic_stage \<Rightarrow> (string \<times> ParticipantId \<times> string option) option" where
  "quic_seat r (Joined t sid pid) = Some (r, pid, Some (part_fp t))"
| "quic_seat r _ = None"

fun ws_seat :: "string \<Rightarrow> ws_stage \<Rightarrow> (string \<times> ParticipantId \<times> string option) option" where
  "ws_seat r (WsJoined fp sid pid) = Some (r, pid, fp)"
| "ws_seat r (WsPlaying fp sid pid) = Some (r, pid, fp)"
| "ws_seat r (WsLeaving fp sid pid) = Some (r, pid, fp)"
| "ws_seat r _ = None"

fun seat_of :: "conn \<Rightarrow> (string \<times> ParticipantId \<times> string option) option" where
  "seat_of (QuicConn a r st) = quic_seat r st"
| "seat_of (WsConn r st) = ws_seat r st"

lemma shared_rooms [simp]:
  "rl_rooms (list_present now fp r sh) = rl_rooms sh" "rl_rooms (delist_present fp sh) = rl_rooms sh"
  "rl_rooms (close_seat sid sh) = rl_rooms sh"
  by (simp_all add: list_present_def delist_present_def close_seat_def split: option.split)

lemma open_seat_rooms: "open_seat now nanos r fp sh = (res, sh') \<Longrightarrow> rl_rooms sh' = rl_rooms sh"
  by (auto simp: open_seat_def split: prod.splits)

lemma enter_room_members:
  assumes "enter_room r addr sender fp al sh = (res, sh')" and "p \<in> set (members (rl_rooms sh') name)"
  shows "p \<in> set (members (rl_rooms sh) name) \<or>
    (\<exists>pid. res = Some pid \<and> name = r \<and> p_id p = pid \<and> p_fingerprint p = fp \<and> p_sender p = sender)"
  using assms members_join[of p r addr sender fp al "rl_rooms sh" name]
  by (auto simp: enter_room_def split: prod.splits sum.splits)

lemma exit_room_members:
  "p \<in> set (members (rl_rooms (exit_room r pid sh)) name) \<Longrightarrow>
     p \<in> set (members (rl_rooms sh) name) \<and> (name = r \<longrightarrow> p_id p \<noteq> pid)"
  using members_leave[of r pid "rl_rooms sh" name] by (auto simp: exit_room_def)

text \<open>Whoever is in a room after a step was there before, or has just sat down.\<close>

lemma quic_step_seats:
  assumes "quic_step P cfg now nanos i addr r stim st sh = (st', sh')"
    and "p \<in> set (members (rl_rooms sh') name)"
  shows "p \<in> set (members (rl_rooms sh) name) \<and>
      (quic_seat r st = Some (name, p_id p, p_fingerprint p) \<longrightarrow>
       quic_seat r st' = Some (name, p_id p, p_fingerprint p)) \<or>
    quic_seat r st' = Some (name, p_id p, p_fingerprint p) \<and> p_sender p = Quic i"
  using assms
  by (cases st)
    (auto simp: quic_step_def dest!: enter_room_members exit_room_members dest: open_seat_rooms
      split: option.splits sum.splits stimulus.splits if_splits prod.splits)

lemma ws_step_seats:
  assumes "ws_step cfg now nanos i r stim st sh = (st', sh')"
    and "p \<in> set (members (rl_rooms sh') name)"
  shows "p \<in> set (members (rl_rooms sh) name) \<and>
      (ws_seat r st = Some (name, p_id p, p_fingerprint p) \<longrightarrow>
       ws_seat r st' = Some (name, p_id p, p_fingerprint p)) \<or>
    ws_seat r st' = Some (name, p_id p, p_fingerprint p) \<and> p_sender p = WebSocket i"
  using assms
  by (cases st)
    (auto simp: ws_step_def dest!: enter_room_members exit_room_members dest: open_seat_rooms
      split: option.splits sum.splits stimulus.splits if_splits prod.splits)

text \<open>Where the media of a member goes that connection \<open>i\<close> has brought in.\<close>

fun sender_of :: "nat \<Rightarrow> conn \<Rightarrow> ParticipantSender" where
  "sender_of i (QuicConn a r st) = Quic i"
| "sender_of i (WsConn r st) = WebSocket i"

lemma turn_sender: "turn P cfg i now nanos stim c sh = (c', sh') \<Longrightarrow> sender_of j c' = sender_of j c"
  by (cases c) (auto simp: turn_def apfst_def map_prod_def split: prod.splits)

lemma turn_seats:
  assumes "turn P cfg i now nanos stim c sh = (c', sh')" and "p \<in> set (members (rl_rooms sh') name)"
  shows "p \<in> set (members (rl_rooms sh) name) \<and>
      (seat_of c = Some (name, p_id p, p_fingerprint p) \<longrightarrow>
       seat_of c' = Some (name, p_id p, p_fingerprint p)) \<or>
    seat_of c' = Some (name, p_id p, p_fingerprint p) \<and> p_sender p = sender_of i c'"
proof (cases c)
  case (QuicConn a r st)
  then obtain st' where "quic_step P cfg now nanos i a r stim st sh = (st', sh')" "c' = QuicConn a r st'"
    using assms(1) by (auto simp: turn_def apfst_def map_prod_def split: prod.splits)
  then show ?thesis using quic_step_seats[OF _ assms(2)] QuicConn by simp
next
  case (WsConn r st)
  then obtain st' where "ws_step cfg now nanos i r stim st sh = (st', sh')" "c' = WsConn r st'"
    using assms(1) by (auto simp: turn_def apfst_def map_prod_def split: prod.splits)
  then show ?thesis using ws_step_seats[OF _ assms(2)] WsConn by simp
qed

definition members_seated :: "Relay \<Rightarrow> bool" where
  "members_seated r \<longleftrightarrow> (\<forall>name p. p \<in> set (members (rl_rooms (snd r)) name) \<longrightarrow>
     (\<exists>i < length (fst r). seat_of (fst r ! i) = Some (name, p_id p, p_fingerprint p) \<and>
        p_sender p = sender_of i (fst r ! i)))"

lemma members_seated_frame:
  assumes "members_seated (cs, sh)"
    and "\<And>name. set (members (rl_rooms sh') name) \<subseteq> set (members (rl_rooms sh) name)"
  shows "members_seated (cs @ new, sh')"
  unfolding members_seated_def
proof (intro allI impI)
  fix name p assume "p \<in> set (members (rl_rooms (snd (cs @ new, sh'))) name)"
  then have "p \<in> set (members (rl_rooms sh) name)" using assms(2) by auto
  then obtain i where "i < length cs" "seat_of (cs ! i) = Some (name, p_id p, p_fingerprint p)"
    "p_sender p = sender_of i (cs ! i)"
    using assms(1) by (auto simp: members_seated_def)
  then show "\<exists>i < length (fst (cs @ new, sh')). seat_of (fst (cs @ new, sh') ! i) =
      Some (name, p_id p, p_fingerprint p) \<and> p_sender p = sender_of i (fst (cs @ new, sh') ! i)"
    by (intro exI[of _ i]) (simp add: nth_append)
qed

lemma members_seated_turn:
  assumes inv: "members_seated (cs, sh)" and i: "i < length cs"
    and t: "turn P cfg i now nanos stim (cs ! i) sh = (c', sh')"
  shows "members_seated (cs[i := c'], sh')"
  unfolding members_seated_def
proof (intro allI impI)
  fix name p assume p: "p \<in> set (members (rl_rooms (snd (cs[i := c'], sh'))) name)"
  let ?s = "Some (name, p_id p, p_fingerprint p)"
  consider (old) "p \<in> set (members (rl_rooms sh) name)" "seat_of (cs ! i) = ?s \<longrightarrow> seat_of c' = ?s"
    | (new) "seat_of c' = ?s" "p_sender p = sender_of i c'"
    using turn_seats[OF t] p by auto
  then show "\<exists>j < length (fst (cs[i := c'], sh')). seat_of (fst (cs[i := c'], sh') ! j) = ?s \<and>
      p_sender p = sender_of j (fst (cs[i := c'], sh') ! j)"
  proof cases
    case old
    then obtain j where "j < length cs" "seat_of (cs ! j) = ?s" "p_sender p = sender_of j (cs ! j)"
      using inv by (auto simp: members_seated_def)
    then show ?thesis
      using old(2) i turn_sender[OF t, of j] by (intro exI[of _ j]) (simp add: nth_list_update)
  next
    case new
    then show ?thesis using i by (intro exI[of _ i]) simp
  qed
qed

lemma members_seated_step:
  assumes "members_seated r"
  shows "members_seated (admission_step P cfg e r)"
proof (cases r)
  case (Pair cs sh)
  have inv: "members_seated (cs, sh)" using assms Pair by simp
  note frame = members_seated_frame[OF inv]
  show ?thesis
  proof (cases e)
    case (Turn i now nanos stim)
    obtain c' sh' where t: "turn P cfg i now nanos stim (cs ! i) sh = (c', sh')" by fastforce
    show ?thesis
      using inv members_seated_turn[OF inv _ t] t by (cases "i < length cs") (simp_all add: Pair Turn)
  next
    case (Traffic op)
    then show ?thesis
      using inv frame[where new = "[]"] members_traffic by (cases op) (simp_all add: Pair del: room_step.simps)
  qed (use inv frame[of sh] frame[where new = "[]"] in \<open>simp_all add: Pair\<close>)
qed

lemma members_seated_run: "members_seated r \<Longrightarrow> members_seated (admission_run P cfg es r)"
  unfolding admission_run_def by (induction es arbitrary: r) (simp_all add: members_seated_step)

lemma members_start [simp]: "members (rl_rooms (snd (relay_start reg limit a))) name = []"
  by (simp add: relay_start_def members_def manager_new_def)

lemma members_seated_start: "members_seated (relay_start reg limit a)"
  by (simp add: members_seated_def)

section \<open>Who is in a room has shown who it is\<close>

definition token_shown :: "AdmissionConfig \<Rightarrow> relay_event list \<Rightarrow> nat \<Rightarrow> string option \<Rightarrow> bool" where
  "token_shown cfg es i tok \<longleftrightarrow>
     (if auth_required cfg
      then \<exists>fp now nanos. tok = Some fp \<and> Turn i now nanos (Token (TokenValid fp)) \<in> set es
      else tok = None)"

definition offer_shown :: "identity_primitives \<Rightarrow> relay_event list \<Rightarrow> nat \<Rightarrow> CallOffer \<Rightarrow> bool" where
  "offer_shown P es i f \<longleftrightarrow> of_protocol_version f = 2 \<and>
     id_verify P (of_identity_pub f) (offer_data (of_ephemeral_pub f)) (of_signature f) \<and>
     (\<exists>now nanos secret. Turn i now nanos (Shake secret (Arrived (OfferSignal f))) \<in> set es)"

definition ticket_shown :: "identity_primitives \<Rightarrow> AdmissionConfig \<Rightarrow> relay_event list \<Rightarrow> nat \<Rightarrow> Ticket \<Rightarrow> bool" where
  "ticket_shown P cfg es i t \<longleftrightarrow> token_shown cfg es i (token_fp t) \<and>
     (\<exists>f. offer_shown P es i f \<and> part_fp t =
        (case token_fp t of Some fp \<Rightarrow> fp | None \<Rightarrow> fingerprint_of_key P (of_identity_pub f)))"

fun quic_shown :: "identity_primitives \<Rightarrow> AdmissionConfig \<Rightarrow> relay_event list \<Rightarrow> nat \<Rightarrow> quic_stage \<Rightarrow> bool" where
  "quic_shown P cfg es i (Authenticated tok) = token_shown cfg es i tok"
| "quic_shown P cfg es i (Identified t) = ticket_shown P cfg es i t"
| "quic_shown P cfg es i (Permitted t) = ticket_shown P cfg es i t"
| "quic_shown P cfg es i (Listed t) = ticket_shown P cfg es i t"
| "quic_shown P cfg es i (Forwarding t) = ticket_shown P cfg es i t"
| "quic_shown P cfg es i (Seated t sid) = ticket_shown P cfg es i t"
| "quic_shown P cfg es i (Checked t sid) = ticket_shown P cfg es i t"
| "quic_shown P cfg es i (Joined t sid pid) = ticket_shown P cfg es i t"
| "quic_shown P cfg es i (Departed t sid) = ticket_shown P cfg es i t"
| "quic_shown P cfg es i _ = True"

fun ws_shown :: "AdmissionConfig \<Rightarrow> relay_event list \<Rightarrow> nat \<Rightarrow> ws_stage \<Rightarrow> bool" where
  "ws_shown cfg es i (WsOpen fp) = token_shown cfg es i fp"
| "ws_shown cfg es i (WsSeated fp sid) = token_shown cfg es i fp"
| "ws_shown cfg es i (WsJoined fp sid pid) = token_shown cfg es i fp"
| "ws_shown cfg es i (WsPlaying fp sid pid) = token_shown cfg es i fp"
| "ws_shown cfg es i (WsLeaving fp sid pid) = token_shown cfg es i fp"
| "ws_shown cfg es i _ = True"

fun conn_shown :: "identity_primitives \<Rightarrow> AdmissionConfig \<Rightarrow> relay_event list \<Rightarrow> nat \<Rightarrow> conn \<Rightarrow> bool" where
  "conn_shown P cfg es i (QuicConn a r st) = quic_shown P cfg es i st"
| "conn_shown P cfg es i (WsConn r st) = ws_shown cfg es i st"

lemma token_shown_mono: "token_shown cfg es i tok \<Longrightarrow> token_shown cfg (es @ fs) i tok"
  unfolding token_shown_def set_append by (metis UnI1)

lemma ticket_shown_mono:
  assumes "ticket_shown P cfg es i t"
  shows "ticket_shown P cfg (es @ fs) i t"
proof -
  have "offer_shown P es i f \<Longrightarrow> offer_shown P (es @ fs) i f" for f
    unfolding offer_shown_def set_append by blast
  then show ?thesis using assms token_shown_mono by (auto simp: ticket_shown_def)
qed

lemma conn_shown_mono:
  assumes "conn_shown P cfg es i c"
  shows "conn_shown P cfg (es @ fs) i c"
proof (cases c)
  case (QuicConn a r st)
  then show ?thesis using assms by (cases st) (simp_all add: token_shown_mono ticket_shown_mono)
next
  case (WsConn r st)
  then show ?thesis using assms by (cases st) (simp_all add: token_shown_mono)
qed

lemma authenticate_shown:
  "authenticate (auth_required cfg) stim = Some (Inr tok) \<Longrightarrow>
     token_shown cfg (es @ [Turn i now nanos stim]) i tok"
  by (auto simp: authenticate_def token_shown_def split: if_splits stimulus.splits token_outcome.splits)

lemma accepted_offer:
  assumes "snd (accept_handshake P seed secret arr) = Inr (s, prof, fp, al)"
  obtains f where "arr = Arrived (OfferSignal f)" and "of_protocol_version f = 2"
    and "id_verify P (of_identity_pub f) (offer_data (of_ephemeral_pub f)) (of_signature f)"
    and "fp = fingerprint_of_key P (of_identity_pub f)"
  using assms
  by (auto simp: accept_handshake_def Let_def split: arrival.splits hs_signal.splits if_splits
      prod.splits sum.splits)

lemma identify_shown:
  assumes "identify P (relay_seed cfg) tok secret arr = Some t" and "token_shown cfg es i tok"
  shows "ticket_shown P cfg (es @ [Turn i now nanos (Shake secret arr)]) i t"
proof -
  obtain s prof fp al where acc: "snd (accept_handshake P (relay_seed cfg) secret arr) = Inr (s, prof, fp, al)"
    and t: "t = \<lparr>token_fp = tok, part_fp = (case tok of Some t \<Rightarrow> t | None \<Rightarrow> fp), part_alias = al\<rparr>"
    using assms(1) by (auto simp: identify_def split: sum.splits)
  obtain f where "arr = Arrived (OfferSignal f)" "of_protocol_version f = 2"
    "id_verify P (of_identity_pub f) (offer_data (of_ephemeral_pub f)) (of_signature f)"
    "fp = fingerprint_of_key P (of_identity_pub f)"
    using accepted_offer[OF acc] by metis
  then show ?thesis
    using assms(2) by (auto simp: ticket_shown_def offer_shown_def t intro: token_shown_mono)
qed

lemma quic_step_shown:
  assumes "quic_step P cfg now nanos i addr r stim st sh = (st', sh')" and "quic_shown P cfg es i st"
  shows "quic_shown P cfg (es @ [Turn i now nanos stim]) i st'"
  using assms
  by (cases st)
    (auto simp: quic_step_def authenticate_shown identify_shown token_shown_mono ticket_shown_mono
      split: option.splits sum.splits stimulus.splits if_splits prod.splits)

lemma ws_step_shown:
  assumes "ws_step cfg now nanos i r stim st sh = (st', sh')" and "ws_shown cfg es i st"
  shows "ws_shown cfg (es @ [Turn i now nanos stim]) i st'"
  using assms
  by (cases st)
    (auto simp: ws_step_def authenticate_shown token_shown_mono
      split: option.splits sum.splits stimulus.splits if_splits prod.splits)

lemma turn_shown:
  assumes "turn P cfg i now nanos stim c sh = (c', sh')" and "conn_shown P cfg es i c"
  shows "conn_shown P cfg (es @ [Turn i now nanos stim]) i c'"
  using assms
  by (cases c) (auto simp: turn_def apfst_def map_prod_def split: prod.splits
      dest: quic_step_shown ws_step_shown)


definition all_shown :: "identity_primitives \<Rightarrow> AdmissionConfig \<Rightarrow> relay_event list \<Rightarrow> conn list \<Rightarrow> bool" where
  "all_shown P cfg es cs \<longleftrightarrow> (\<forall>i < length cs. conn_shown P cfg es i (cs ! i))"

lemma all_shown_new:
  "all_shown P cfg es cs \<Longrightarrow> (\<And>i. conn_shown P cfg es i c) \<Longrightarrow> all_shown P cfg (es @ [e]) (cs @ [c])"
  by (auto simp: all_shown_def nth_append intro: conn_shown_mono)

lemma all_shown_step:
  assumes "all_shown P cfg es (fst r)"
  shows "all_shown P cfg (es @ [e]) (fst (admission_step P cfg e r))"
proof (cases r)
  case (Pair cs sh)
  have inv: "all_shown P cfg es cs" using assms Pair by simp
  then have inv': "all_shown P cfg (es @ [e]) cs" by (auto simp: all_shown_def intro: conn_shown_mono)
  show ?thesis
  proof (cases e)
    case (Turn i now nanos stim)
    obtain c' sh' where t: "turn P cfg i now nanos stim (cs ! i) sh = (c', sh')" by fastforce
    show ?thesis
    proof (cases "i < length cs")
      case True
      then have "conn_shown P cfg (es @ [e]) i c'"
        using turn_shown[OF t, of es] inv Turn by (simp add: all_shown_def)
      then show ?thesis
        using inv' True t Turn Pair by (auto simp: all_shown_def nth_list_update)
    qed (use inv' in \<open>simp add: Pair Turn\<close>)
  next
    case (Traffic op)
    then show ?thesis using inv' Pair by (cases op) (simp_all del: room_step.simps)
  qed (use inv inv' all_shown_new[OF inv] in \<open>simp_all add: Pair\<close>)
qed

lemma admission_run_snoc:
  "admission_run P cfg (es @ [e]) r = admission_step P cfg e (admission_run P cfg es r)"
  by (simp add: admission_run_def)

lemma admission_run_Nil [simp]: "admission_run P cfg [] r = r"
  by (simp add: admission_run_def)

lemma all_shown_run:
  "fst r = [] \<Longrightarrow> all_shown P cfg es (fst (admission_run P cfg es r))"
  by (induction es rule: rev_induct) (simp_all add: admission_run_snoc all_shown_step all_shown_def[of P cfg "[]"])

text \<open>
  C27 (safety). Every member of a room is there through a connection of its own that proved who it is.  There is
  a connection of this relay that named this room, holds the seat with the member's id, and is the one the
  member's media goes to.  If the relay asks for tokens, that very connection showed a valid one.  A QUIC
  connection also sent an offer of protocol version 2 whose signature verifies under the key in it, and the
  member's fingerprint is the token's, or else that of the key; a WebSocket member has the fingerprint of the
  connection's token, or none.
\<close>

theorem members_are_authenticated:
  assumes "p \<in> set (members (rl_rooms (snd (admission_run P cfg es (relay_start reg limit a)))) name)"
  shows "\<exists>i < length (fst (admission_run P cfg es (relay_start reg limit a))). \<exists>tok. token_shown cfg es i tok \<and>
    (case fst (admission_run P cfg es (relay_start reg limit a)) ! i of
       QuicConn addr r st \<Rightarrow>
         r = name \<and> p_sender p = Quic i \<and>
         (\<exists>t sid. st = Joined t sid (p_id p) \<and> token_fp t = tok \<and> p_fingerprint p = Some (part_fp t)) \<and>
         (\<exists>f. offer_shown P es i f \<and> p_fingerprint p =
            Some (case tok of Some fp \<Rightarrow> fp | None \<Rightarrow> fingerprint_of_key P (of_identity_pub f)))
     | WsConn r st \<Rightarrow>
         r = name \<and> p_sender p = WebSocket i \<and> p_fingerprint p = tok \<and>
         (\<exists>sid. st \<in> {WsJoined tok sid (p_id p), WsPlaying tok sid (p_id p), WsLeaving tok sid (p_id p)}))"
proof -
  let ?r = "admission_run P cfg es (relay_start reg limit a)"
  have "members_seated ?r" by (intro members_seated_run members_seated_start)
  then obtain i where i: "i < length (fst ?r)" "seat_of (fst ?r ! i) = Some (name, p_id p, p_fingerprint p)"
    "p_sender p = sender_of i (fst ?r ! i)"
    using assms by (auto simp: members_seated_def)
  have shown: "conn_shown P cfg es i (fst ?r ! i)"
    using all_shown_run[of "relay_start reg limit a" P cfg es] i(1) by (simp add: all_shown_def relay_start_def)
  show ?thesis
  proof (cases "fst ?r ! i")
    case (QuicConn ad r st)
    then obtain t sid where "st = Joined t sid (p_id p)" "p_fingerprint p = Some (part_fp t)" "r = name"
      using i(2) by (cases st) auto
    then show ?thesis
      using shown QuicConn i(1,3) by (intro exI[of _ i] conjI exI[of _ "token_fp t"]) (auto simp: ticket_shown_def)
  next
    case (WsConn r st)
    then show ?thesis
      using i shown by (intro exI[of _ i] conjI exI[of _ "p_fingerprint p"]; cases st) auto
  qed
qed

section \<open>Call rooms\<close>

text \<open>The registry knows the call, if at all, with these two parties.\<close>

definition call_parties :: "string \<Rightarrow> string \<Rightarrow> string \<Rightarrow> CallRegistry \<Rightarrow> bool" where
  "call_parties cid a b reg \<longleftrightarrow>
     (case hm_get reg cid of None \<Rightarrow> True
      | Some c \<Rightarrow> caller_fingerprint c \<in> {a, b} \<and> callee_fingerprint c \<in> {a, b})"

fun ticket_of :: "quic_stage \<Rightarrow> Ticket option" where
  "ticket_of (Permitted t) = Some t"
| "ticket_of (Listed t) = Some t"
| "ticket_of (Forwarding t) = Some t"
| "ticket_of (Seated t sid) = Some t"
| "ticket_of (Checked t sid) = Some t"
| "ticket_of (Joined t sid pid) = Some t"
| "ticket_of _ = None"

definition conn_private :: "string \<Rightarrow> string \<Rightarrow> string \<Rightarrow> conn \<Rightarrow> bool" where
  "conn_private cid a b c \<longleftrightarrow>
     (case c of
        QuicConn ad r st \<Rightarrow> r = ''call-'' @ cid \<longrightarrow> (\<forall>t. ticket_of st = Some t \<longrightarrow> part_fp t \<in> {a, b})
      | WsConn r st \<Rightarrow> r \<noteq> ''call-'' @ cid)"

lemma admitted_party:
  "call_parties cid a b reg \<Longrightarrow> room_admits reg (''call-'' @ cid) fp \<Longrightarrow> fp \<in> {a, b}"
  by (auto simp: call_parties_def room_admits_def call_of_room_def split: option.splits)

lemma quic_step_private:
  assumes "quic_step P cfg now nanos i addr r stim st sh = (st', sh')"
    and "call_parties cid a b (rl_calls sh)" and "r = ''call-'' @ cid"
    and "\<forall>t. ticket_of st = Some t \<longrightarrow> part_fp t \<in> {a, b}"
  shows "\<forall>t. ticket_of st' = Some t \<longrightarrow> part_fp t \<in> {a, b}"
proof -
  have "\<forall>fp. room_admits (rl_calls sh) r fp \<longrightarrow> fp = a \<or> fp = b"
    using admitted_party[OF assms(2)] assms(3) by blast
  then show ?thesis
    using assms(1,4)
    by (cases st)
      (auto simp: quic_step_def split: option.splits sum.splits stimulus.splits if_splits prod.splits)
qed

lemma shared_calls [simp]:
  "rl_calls (list_present now fp r sh) = rl_calls sh" "rl_calls (delist_present fp sh) = rl_calls sh"
  "rl_calls (close_seat sid sh) = rl_calls sh" "rl_calls (exit_room r pid sh) = rl_calls sh"
  by (simp_all add: list_present_def delist_present_def close_seat_def exit_room_def split: option.split)

text \<open>What every locked section keeps, every turn keeps.\<close>

definition sections_keep :: "(Shared \<Rightarrow> bool) \<Rightarrow> bool" where
  "sections_keep Q \<longleftrightarrow> (\<forall>sh. Q sh \<longrightarrow>
     (\<forall>now fp r. Q (list_present now fp r sh)) \<and> (\<forall>fp. Q (delist_present fp sh)) \<and>
     (\<forall>sid. Q (close_seat sid sh)) \<and> (\<forall>r pid. Q (exit_room r pid sh)) \<and>
     (\<forall>now nanos r fp. Q (snd (open_seat now nanos r fp sh))) \<and>
     (\<forall>r addr sender fp al. Q (snd (enter_room r addr sender fp al sh))))"

lemma sections_keepD:
  assumes "sections_keep Q" and "Q sh"
  shows "Q (list_present now fp r sh)" "Q (delist_present fp sh)" "Q (close_seat sid sh)" "Q (exit_room r pid sh)"
    "open_seat now nanos r fp sh = (sid', sh') \<Longrightarrow> Q sh'"
    "enter_room r addr sender fp al sh = (pid', sh') \<Longrightarrow> Q sh'"
  using assms unfolding sections_keep_def by (metis snd_conv)+

lemma quic_step_keeps:
  assumes "quic_step P cfg now nanos i addr r stim st sh = (st', sh')" and Q: "sections_keep Q" "Q sh"
  shows "Q sh'"
  using assms(1) Q(2) sections_keepD[OF Q]
  by (cases st)
    (auto simp: quic_step_def split: option.splits sum.splits stimulus.splits if_splits prod.splits)

lemma ws_step_keeps:
  assumes "ws_step cfg now nanos i r stim st sh = (st', sh')" and Q: "sections_keep Q" "Q sh"
  shows "Q sh'"
  using assms(1) Q(2) sections_keepD[OF Q]
  by (cases st)
    (auto simp: ws_step_def split: option.splits sum.splits stimulus.splits if_splits prod.splits)

lemma turn_keeps:
  assumes "turn P cfg i now nanos stim c sh = (c', sh')" and Q: "sections_keep Q" "Q sh"
  shows "Q sh'"
  using assms(1) quic_step_keeps[OF _ Q] ws_step_keeps[OF _ Q]
  by (cases c) (auto simp: turn_def apfst_def map_prod_def split: prod.splits)

lemma section_results:
  "snd (open_seat now nanos r fp sh) =
     sh\<lparr>rl_sessions := snd (create_session now nanos r fp (rl_sessions sh))\<rparr>"
  "snd (enter_room r addr sender fp al sh) = sh\<lparr>rl_rooms := snd (join r addr sender fp al (rl_rooms sh))\<rparr>"
  by (simp_all add: open_seat_def enter_room_def split_beta)

lemma turn_calls:
  assumes "turn P cfg i now nanos stim c sh = (c', sh')"
  shows "rl_calls sh' = rl_calls sh"
proof -
  have "sections_keep (\<lambda>s. rl_calls s = rl_calls sh)" by (simp add: sections_keep_def section_results)
  from turn_keeps[OF assms this] show ?thesis by simp
qed

lemma turn_rooms:
  assumes "turn P cfg i now nanos stim c sh = (c', sh')" and "room_inv (rl_rooms sh)"
  shows "room_inv (rl_rooms sh')"
proof -
  have "sections_keep (\<lambda>s. room_inv (rl_rooms s))"
    by (simp add: sections_keep_def section_results exit_room_def leave_inv join_inv)
  then show ?thesis using turn_keeps[OF assms(1)] assms(2) by blast
qed

lemma turn_private:
  assumes "turn P cfg i now nanos stim c sh = (c', sh')"
    and "call_parties cid a b (rl_calls sh)" and "conn_private cid a b c"
  shows "conn_private cid a b c'"
proof (cases c)
  case (QuicConn ad r st)
  then obtain st' where st': "quic_step P cfg now nanos i ad r stim st sh = (st', sh')" "c' = QuicConn ad r st'"
    using assms(1) by (auto simp: turn_def apfst_def map_prod_def split: prod.splits)
  have "\<forall>t. ticket_of st' = Some t \<longrightarrow> part_fp t \<in> {a, b}" if "r = ''call-'' @ cid"
    by (rule quic_step_private[OF st'(1) assms(2) that])
      (use assms(3) that in \<open>unfold conn_private_def QuicConn conn.case, blast\<close>)
  then show ?thesis using st'(2) by (simp only: conn_private_def conn.case) blast
next
  case (WsConn r st)
  then obtain st' where "c' = WsConn r st'"
    using assms(1) by (auto simp: turn_def apfst_def map_prod_def split: prod.splits)
  then show ?thesis using assms(3) WsConn by (simp only: conn_private_def conn.case not_False_eq_True)
qed

definition private_inv :: "string \<Rightarrow> string \<Rightarrow> string \<Rightarrow> Relay \<Rightarrow> bool" where
  "private_inv cid a b r \<longleftrightarrow> call_parties cid a b (rl_calls (snd r)) \<and> room_inv (rl_rooms (snd r)) \<and>
     members_seated r \<and> (\<forall>c \<in> set (fst r). conn_private cid a b c)"

text \<open>Events that keep to the call: no WebSocket asks for its room, and the registry keeps its parties.\<close>

fun event_private :: "string \<Rightarrow> string \<Rightarrow> string \<Rightarrow> relay_event \<Rightarrow> bool" where
  "event_private cid a b (DialWs r) = (r \<noteq> ''call-'' @ cid)"
| "event_private cid a b (Registry reg) = call_parties cid a b reg"
| "event_private cid a b _ = True"

lemma private_step:
  assumes inv: "private_inv cid a b r" and e: "event_private cid a b e"
  shows "private_inv cid a b (admission_step P cfg e r)"
proof (cases r)
  case (Pair cs sh)
  have seated: "members_seated (admission_step P cfg e r)"
    using inv by (intro members_seated_step) (simp add: private_inv_def)
  have p: "call_parties cid a b (rl_calls sh)" "room_inv (rl_rooms sh)" "\<forall>c \<in> set cs. conn_private cid a b c"
    using inv Pair by (simp_all add: private_inv_def)
  show ?thesis
  proof (cases e)
    case (Turn i now nanos stim)
    obtain c' sh' where t: "turn P cfg i now nanos stim (cs ! i) sh = (c', sh')" by fastforce
    show ?thesis
    proof (cases "i < length cs")
      case True
      then have "conn_private cid a b c'" using turn_private[OF t p(1)] p(3) by simp
      then have "\<forall>c \<in> set (cs[i := c']). conn_private cid a b c"
        using p(3) set_update_subset_insert[of cs i c'] by auto
      then show ?thesis
        using seated True t p turn_calls[OF t] turn_rooms[OF t] Turn Pair by (simp add: private_inv_def)
    qed (use inv in \<open>simp add: Pair Turn\<close>)
  next
    case (Traffic op)
    then show ?thesis
      using seated p room_step_inv[OF p(2), of op] Pair
      by (cases op) (simp_all add: private_inv_def del: room_step.simps)
  qed (use seated p e Pair in \<open>auto simp: private_inv_def conn_private_def\<close>)
qed

lemma private_run:
  "private_inv cid a b r \<Longrightarrow> list_all (event_private cid a b) es \<Longrightarrow>
     private_inv cid a b (admission_run P cfg es r)"
  unfolding admission_run_def by (induction es arbitrary: r) (simp_all add: private_step)

lemma private_start: "call_parties cid a b reg \<Longrightarrow> private_inv cid a b (relay_start reg limit rooms_acl)"
  using manager_new_inv members_seated_start[of reg limit rooms_acl]
  by (auto simp: private_inv_def relay_start_def room_inv_def rooms_ok_def contains_participant_def
      state_within_def manager_new_def)

text \<open>Members with a fingerprint each have their own.\<close>

lemma members_distinct_fps:
  assumes "room_inv rm" and "\<forall>p \<in> set (members rm name). p_fingerprint p \<noteq> None"
  shows "distinct (map p_fingerprint (members rm name))"
proof (cases "hm_get (rooms rm) name")
  case (Some r)
  have ok: "room_ok (next_participant_id rm) r"
    using assms(1) Some by (auto simp: room_inv_def rooms_ok_def dest: hm_allD)
  have d: "distinct (map p_id (participants r))" using ok by (simp add: room_ok_def)
  have "p = q" if "p \<in> set (participants r)" "q \<in> set (participants r)" "p_fingerprint p = p_fingerprint q"
    for p q
  proof -
    have "p_fingerprint p \<noteq> None" using assms(2) that(1) Some by (simp add: members_def del: not_None_eq)
    then obtain fp where "p_fingerprint p = Some fp" by blast
    then have "p_id p = p_id q" using ok that unfolding room_ok_def by metis
    then show ?thesis using d that(1,2) by (auto simp: distinct_map inj_on_def)
  qed
  then show ?thesis using d Some by (auto simp: members_def distinct_map inj_on_def)
qed (simp add: members_def)

lemma private_members:
  assumes inv: "private_inv cid a b r" and ms: "ms = members (rl_rooms (snd r)) (''call-'' @ cid)"
  shows "set (map p_fingerprint ms) \<subseteq> {Some a, Some b} \<and> distinct (map p_fingerprint ms) \<and> length ms \<le> 2"
proof -
  let ?n = "''call-'' @ cid"
  have fps: "p_fingerprint p \<in> {Some a, Some b}" if mem: "p \<in> set ms" for p
  proof -
    obtain i where i: "i < length (fst r)" "seat_of (fst r ! i) = Some (?n, p_id p, p_fingerprint p)"
      using inv mem unfolding ms private_inv_def members_seated_def by blast
    then have priv: "conn_private cid a b (fst r ! i)" using inv by (auto simp: private_inv_def)
    show ?thesis
    proof (cases "fst r ! i")
      case (QuicConn ad rn st)
      then show ?thesis using i(2) priv by (cases st) (auto simp: conn_private_def)
    next
      case (WsConn rn st)
      then show ?thesis using i(2) priv by (cases st) (auto simp: conn_private_def)
    qed
  qed
  then have sub: "set (map p_fingerprint ms) \<subseteq> {Some a, Some b}" by auto
  have d: "distinct (map p_fingerprint ms)"
    using inv fps unfolding ms by (intro members_distinct_fps) (auto simp: private_inv_def)
  have "length ms = card (set (map p_fingerprint ms))" using distinct_card[OF d] by simp
  also have "\<dots> \<le> card {Some a, Some b}" using sub by (intro card_mono) auto
  also have "\<dots> \<le> 2" by (simp add: card_insert_if)
  finally show ?thesis using sub d by simp
qed

text \<open>
  The check that a call room has fewer than two members and the join are separate sections.  A connection that
  is between them may still join a room that has become full; no other connection does.
\<close>

fun room_of :: "conn \<Rightarrow> string" where
  "room_of (QuicConn ad r st) = r"
| "room_of (WsConn r st) = r"

fun past_check :: "conn \<Rightarrow> bool" where
  "past_check (QuicConn ad r (Checked t sid)) = True"
| "past_check _ = False"

text \<open>An event by which no connection that has a seat in room \<open>name\<close> gives it up.\<close>

fun nobody_leaves :: "string \<Rightarrow> conn list \<Rightarrow> relay_event \<Rightarrow> bool" where
  "nobody_leaves name cs (Turn i now nanos stim) \<longleftrightarrow>
     stim \<noteq> Ended \<or> \<not> (i < length cs \<and> room_of (cs ! i) = name \<and> seat_of (cs ! i) \<noteq> None)"
| "nobody_leaves name cs _ \<longleftrightarrow> True"

text \<open>No connection of the room is on its way in, and those that have a seat had it at \<open>cs\<close>.\<close>

definition settled_conn :: "string \<Rightarrow> conn list \<Rightarrow> nat \<Rightarrow> conn \<Rightarrow> bool" where
  "settled_conn name cs i c \<longleftrightarrow> room_of c = name \<longrightarrow>
     (\<exists>ad st. c = QuicConn ad name st) \<and> \<not> past_check c \<and>
     (seat_of c \<noteq> None \<longrightarrow> i < length cs \<and> room_of (cs ! i) = name \<and> seat_of (cs ! i) \<noteq> None)"

definition settled_room :: "string \<Rightarrow> conn list \<Rightarrow> Participant list \<Rightarrow> Relay \<Rightarrow> bool" where
  "settled_room name cs ms r \<longleftrightarrow> members (rl_rooms (snd r)) name = ms \<and>
     (\<forall>i < length (fst r). settled_conn name cs i (fst r ! i))"

lemma section_members:
  "n \<noteq> m \<Longrightarrow> enter_room n addr s fp al sh = (res, sh') \<Longrightarrow> members (rl_rooms sh') m = members (rl_rooms sh) m"
  "n \<noteq> m \<Longrightarrow> members (rl_rooms (exit_room n pid sh)) m = members (rl_rooms sh) m"
  using members_other_room(1)[of n m addr s fp al "rl_rooms sh"] members_other_room(2)[of n m pid "rl_rooms sh"]
  by (auto simp: enter_room_def exit_room_def split: prod.splits)

lemma quic_other_room:
  assumes "quic_step P cfg now nanos i addr r stim st sh = (st', sh')" and "r \<noteq> name"
  shows "members (rl_rooms sh') name = members (rl_rooms sh) name"
  using assms
  by (cases st) (auto simp: quic_step_def section_members dest: open_seat_rooms section_members(1)
      split: option.splits sum.splits stimulus.splits if_splits prod.splits)

lemma ws_other_room:
  assumes "ws_step cfg now nanos i r stim st sh = (st', sh')" and "r \<noteq> name"
  shows "members (rl_rooms sh') name = members (rl_rooms sh) name"
  using assms
  by (cases st) (auto simp: ws_step_def section_members dest: open_seat_rooms section_members(1)
      split: option.splits sum.splits stimulus.splits if_splits prod.splits)

lemma quic_full_room:
  assumes "quic_step P cfg now nanos i addr r stim st sh = (st', sh')"
    and "call_of_room r \<noteq> None" and "length (members (rl_rooms sh) r) = 2" and "\<not> past_check (QuicConn ad r st)"
    and "stim \<noteq> Ended \<or> quic_seat r st = None"
  shows "members (rl_rooms sh') r = members (rl_rooms sh) r \<and> \<not> past_check (QuicConn ad r st') \<and>
    (quic_seat r st' \<noteq> None \<longrightarrow> quic_seat r st \<noteq> None)"
proof -
  have "call_room_full r sh" using assms(2,3) by (simp add: call_room_full_def room_size_members)
  then show ?thesis
    using assms(1,4,5)
    by (cases st) (auto simp: quic_step_def dest: open_seat_rooms
        split: option.splits sum.splits stimulus.splits if_splits prod.splits)
qed

lemma settled_turn:
  assumes "turn P cfg i now nanos stim c sh = (c', sh')" and "settled_conn name cs i c"
    and "call_of_room name \<noteq> None" and "length (members (rl_rooms sh) name) = 2"
    and "nobody_leaves name cs (Turn i now nanos stim)"
  shows "members (rl_rooms sh') name = members (rl_rooms sh) name \<and> settled_conn name cs i c'"
proof (cases c)
  case (QuicConn ad r st)
  then obtain st' where st': "quic_step P cfg now nanos i ad r stim st sh = (st', sh')" "c' = QuicConn ad r st'"
    using assms(1) by (auto simp: turn_def apfst_def map_prod_def split: prod.splits)
  show ?thesis
  proof (cases "r = name")
    case True
    then have "stim \<noteq> Ended \<or> quic_seat name st = None"
      using assms(2,5) QuicConn unfolding settled_conn_def nobody_leaves.simps by fastforce
    then show ?thesis
      using quic_full_room[of P cfg now nanos i ad name stim st sh st' sh' ad] st' True assms(2-4) QuicConn
      by (auto simp: settled_conn_def)
  next
    case False
    then show ?thesis using quic_other_room[OF st'(1) False] st'(2) by (simp add: settled_conn_def)
  qed
next
  case (WsConn r st)
  then obtain st' where st': "ws_step cfg now nanos i r stim st sh = (st', sh')" "c' = WsConn r st'"
    using assms(1) by (auto simp: turn_def apfst_def map_prod_def split: prod.splits)
  have "r \<noteq> name" using assms(2) WsConn by (auto simp: settled_conn_def)
  then show ?thesis using ws_other_room[OF st'(1)] st'(2) by (simp add: settled_conn_def)
qed

lemma settled_step:
  assumes "settled_room name cs ms r" and "call_of_room name \<noteq> None" and "length ms = 2"
    and "nobody_leaves name cs e" and "\<forall>n. e = DialWs n \<longrightarrow> n \<noteq> name"
  shows "settled_room name cs ms (admission_step P cfg e r)"
proof (cases r)
  case (Pair cs' sh)
  have inv: "members (rl_rooms sh) name = ms" "\<forall>i < length cs'. settled_conn name cs i (cs' ! i)"
    using assms(1) Pair by (simp_all add: settled_room_def)
  have new: "settled_conn name cs i ((cs' @ [c]) ! i)"
    if "i < Suc (length cs')" "\<And>i. settled_conn name cs i c" for i c
    using that inv(2) by (auto simp: nth_append)
  show ?thesis
  proof (cases e)
    case (Turn i now nanos stim)
    obtain c' sh' where t: "turn P cfg i now nanos stim (cs' ! i) sh = (c', sh')" by fastforce
    show ?thesis
    proof (cases "i < length cs'")
      case True
      have "members (rl_rooms sh') name = members (rl_rooms sh) name \<and> settled_conn name cs i c'"
        using settled_turn[OF t _ assms(2), of cs] inv True assms(3,4) Turn by blast
      then show ?thesis using inv True t Turn Pair by (simp add: settled_room_def nth_list_update)
    qed (use assms(1) in \<open>simp add: Pair Turn\<close>)
  next
    case (Traffic op)
    then show ?thesis
      using inv traffic_keeps_members Pair by (cases op) (simp_all add: settled_room_def del: room_step.simps)
  next
    case (DialQuic ad n)
    have "settled_conn name cs i (QuicConn ad n Connected)" for i by (simp add: settled_conn_def)
    then show ?thesis using inv new[of _ "QuicConn ad n Connected"] DialQuic Pair by (simp add: settled_room_def)
  next
    case (DialWs n)
    have "settled_conn name cs i (WsConn n WsConnected)" for i using assms(5) DialWs by (simp add: settled_conn_def)
    then show ?thesis using inv new[of _ "WsConn n WsConnected"] DialWs Pair by (simp add: settled_room_def)
  qed (use inv Pair in \<open>simp_all add: settled_room_def\<close>)
qed

lemma settled_run:
  assumes "settled_room (''call-'' @ cid) cs ms r" and "length ms = 2"
    and "list_all (nobody_leaves (''call-'' @ cid) cs) es" and "list_all (event_private cid a b) es"
  shows "settled_room (''call-'' @ cid) cs ms (admission_run P cfg es r)"
  using assms(1,3,4)
proof (induction es arbitrary: r)
  case (Cons e es)
  have "call_of_room (''call-'' @ cid) \<noteq> None" by (simp add: call_of_room_def)
  then have "settled_room (''call-'' @ cid) cs ms (admission_step P cfg e r)"
    using Cons.prems assms(2) by (intro settled_step) auto
  from Cons.IH[OF this] show ?case using Cons.prems(2,3) by (simp add: admission_run_def)
qed simp

lemma settled_start:
  assumes "private_inv cid a b (cs, sh)" and "list_all (\<lambda>c. room_of c = ''call-'' @ cid \<longrightarrow> \<not> past_check c) cs"
  shows "settled_room (''call-'' @ cid) cs (members (rl_rooms sh) (''call-'' @ cid)) (cs, sh)"
proof -
  have "settled_conn (''call-'' @ cid) cs i (cs ! i)" if "i < length cs" for i
  proof (cases "cs ! i")
    case (QuicConn ad r st)
    then show ?thesis using assms(2) that by (auto simp: settled_conn_def list_all_length)
  next
    case (WsConn r st)
    have "conn_private cid a b (cs ! i)" using assms(1) that by (simp add: private_inv_def)
    then have "r \<noteq> ''call-'' @ cid" unfolding conn_private_def WsConn conn.case .
    then show ?thesis unfolding settled_conn_def WsConn room_of.simps by blast
  qed
  then show ?thesis by (simp add: settled_room_def)
qed


section \<open>Sessions\<close>

text \<open>The session a connection holds.\<close>

fun quic_held :: "quic_stage \<Rightarrow> session_key multiset" where
  "quic_held (Seated t sid) = {#sid#}"
| "quic_held (Checked t sid) = {#sid#}"
| "quic_held (Refused sid) = {#sid#}"
| "quic_held (Joined t sid pid) = {#sid#}"
| "quic_held (Departed t sid) = {#sid#}"
| "quic_held (Delisted sid) = {#sid#}"
| "quic_held _ = {#}"

fun ws_held :: "ws_stage \<Rightarrow> session_key multiset" where
  "ws_held (WsSeated fp sid) = {#sid#}"
| "ws_held (WsRefused sid) = {#sid#}"
| "ws_held (WsJoined fp sid pid) = {#sid#}"
| "ws_held (WsPlaying fp sid pid) = {#sid#}"
| "ws_held (WsLeaving fp sid pid) = {#sid#}"
| "ws_held (WsDelisted sid) = {#sid#}"
| "ws_held _ = {#}"

fun held_by :: "conn \<Rightarrow> session_key multiset" where
  "held_by (QuicConn a r st) = quic_held st"
| "held_by (WsConn r st) = ws_held st"

definition held_ids :: "conn list \<Rightarrow> session_key multiset" where
  "held_ids cs = sum_list (map held_by cs)"

lemma held_ids_snoc [simp]: "held_ids (cs @ [c]) = held_ids cs + held_by c"
  by (simp add: held_ids_def)

lemma held_ids_update:
  assumes "i < length cs"
  shows "held_ids (cs[i := c]) + held_by (cs ! i) = held_ids cs + held_by c"
proof -
  have "held_ids cs = held_ids (take i cs) + held_by (cs ! i) + held_ids (drop (Suc i) cs)"
    using id_take_nth_drop[OF assms] unfolding held_ids_def
    by (metis (no_types, lifting) add.assoc list.simps(9) map_append sum_list.Cons sum_list_append)
  moreover have "held_ids (cs[i := c]) = held_ids (take i cs) + held_by c + held_ids (drop (Suc i) cs)"
    using assms by (simp add: held_ids_def upd_conv_take_nth_drop)
  ultimately show ?thesis by simp
qed

lemma shared_sessions [simp]:
  "rl_sessions (list_present now fp r sh) = rl_sessions sh" "rl_sessions (delist_present fp sh) = rl_sessions sh"
  "rl_sessions (exit_room r pid sh) = rl_sessions sh"
  "rl_sessions (close_seat sid sh) = remove_session sid (rl_sessions sh)"
  by (simp_all add: list_present_def delist_present_def close_seat_def exit_room_def split: option.split)

lemma enter_room_sessions: "enter_room r addr sender fp al sh = (pid', sh') \<Longrightarrow> rl_sessions sh' = rl_sessions sh"
  by (auto simp: enter_room_def split: prod.splits)

lemma open_seat_None: "open_seat now nanos r fp sh = (None, sh') \<Longrightarrow> rl_sessions sh' = rl_sessions sh"
  by (auto simp: open_seat_def create_session_def Let_def split: prod.splits sum.splits if_splits)

lemma open_seat_Some:
  "open_seat now nanos r fp sh = (Some sid, sh') \<Longrightarrow>
     create_session now nanos r fp (rl_sessions sh) = (Inr sid, rl_sessions sh')"
  by (auto simp: open_seat_def split: prod.splits sum.splits)

text \<open>A turn opens a session for its connection, closes the one it has, or leaves the sessions alone.\<close>

definition session_change :: "session_key multiset \<Rightarrow> SessionManager \<Rightarrow> session_key multiset \<Rightarrow> SessionManager \<Rightarrow> bool" where
  "session_change h m h' m' \<longleftrightarrow> (h' = h \<and> m' = m) \<or>
     (\<exists>now nanos r fp sid. h = {#} \<and> h' = {#sid#} \<and> create_session now nanos r fp m = (Inr sid, m')) \<or>
     (\<exists>sid. h = {#sid#} \<and> h' = {#} \<and> m' = remove_session sid m)"

lemma quic_step_sessions:
  assumes "quic_step P cfg now nanos i addr r stim st sh = (st', sh')"
  shows "session_change (quic_held st) (rl_sessions sh) (quic_held st') (rl_sessions sh')"
  using assms
  by (cases st)
    (auto simp: quic_step_def session_change_def dest: enter_room_sessions open_seat_None
      dest!: open_seat_Some split: option.splits sum.splits stimulus.splits if_splits prod.splits)

lemma ws_step_sessions:
  assumes "ws_step cfg now nanos i r stim st sh = (st', sh')"
  shows "session_change (ws_held st) (rl_sessions sh) (ws_held st') (rl_sessions sh')"
  using assms
  by (cases st)
    (auto simp: ws_step_def session_change_def dest: enter_room_sessions open_seat_None
      dest!: open_seat_Some split: option.splits sum.splits stimulus.splits if_splits prod.splits)

lemma turn_sessions:
  assumes "turn P cfg i now nanos stim c sh = (c', sh')"
  shows "session_change (held_by c) (rl_sessions sh) (held_by c') (rl_sessions sh')"
  using assms
  by (cases c) (auto simp: turn_def apfst_def map_prod_def split: prod.splits
      dest: quic_step_sessions ws_step_sessions)

text \<open>Every key carries the count at which it was made.\<close>

definition seats_inv :: "nat \<Rightarrow> nat \<Rightarrow> session_key multiset \<Rightarrow> SessionManager \<Rightarrow> bool" where
  "seats_inv limit n held m \<longleftrightarrow> mset (map fst (tracked m)) = held \<and> hm_ok (tracked m) \<and> sessions m = [] \<and>
     max_sessions m = limit \<and> length (tracked m) \<le> limit \<and>
     (\<exists>k \<le> n. id_counter m = of_nat (1 + k) \<and>
        (\<forall>sid \<in> set (map fst (tracked m)). \<exists>j. 1 \<le> j \<and> j \<le> k \<and> take 8 sid = le_bytes (of_nat j)))"

lemma seats_inv_mono: "seats_inv limit n h m \<Longrightarrow> n \<le> n' \<Longrightarrow> seats_inv limit n' h m"
  unfolding seats_inv_def by (meson le_trans)

lemma update_new: "k \<notin> fst ` set al \<Longrightarrow> AList.update k v al = al @ [(k, v)]"
  by (induction al) auto

lemma seats_inv_open:
  assumes inv: "seats_inv limit n h m" and n: "n + 1 < 2 ^ 64"
    and create: "create_session now nanos r fp m = (Inr sid, m')"
  shows "seats_inv limit (n + 1) (h + {#sid#}) m'"
proof -
  obtain k where k: "k \<le> n" "id_counter m = of_nat (1 + k)"
    "\<forall>sid \<in> set (map fst (tracked m)). \<exists>j. 1 \<le> j \<and> j \<le> k \<and> take 8 sid = le_bytes (of_nat j)"
    using inv by (auto simp: seats_inv_def)
  have room: "length (tracked m) < limit" and sid: "sid = le_bytes (id_counter m) @ le_bytes nanos"
    and m': "tracked m' = hm_insert sid
        \<lparr>info_room = r, info_fingerprint = fp, connected_at = now, info_state = TsActive\<rparr> (tracked m)"
      "sessions m' = sessions m" "max_sessions m' = max_sessions m" "id_counter m' = id_counter m + 1"
    using create inv
    by (auto simp: create_session_def rand_session_id_def total_count_def seats_inv_def split: if_splits)
  have prefix: "take 8 sid = le_bytes (of_nat (1 + k))" by (simp add: sid k(2))
  have fresh: "sid \<notin> fst ` set (tracked m)"
  proof
    assume "sid \<in> fst ` set (tracked m)"
    then obtain j where j: "1 \<le> j" "j \<le> k" "le_bytes (of_nat (1 + k)) = le_bytes (of_nat j)"
      using k(3) prefix by force
    then have "(of_nat (1 + k) :: u64) = of_nat j" by (simp only: le_bytes_inj)
    from arg_cong[where f = unat, OF this] have "(1 + k) mod 2 ^ 64 = j mod 2 ^ 64"
      by (simp only: unat_of_nat take_bit_eq_mod) simp
    then show False using j k(1) n by simp
  qed
  note tr = m'(1)[unfolded update_new[OF fresh]]
  have "\<forall>s \<in> set (map fst (tracked m')). \<exists>j. 1 \<le> j \<and> j \<le> k + 1 \<and> take 8 s = le_bytes (of_nat j)"
  proof
    fix s assume "s \<in> set (map fst (tracked m'))"
    then consider "s = sid" | "s \<in> set (map fst (tracked m))" by (auto simp: tr)
    then show "\<exists>j. 1 \<le> j \<and> j \<le> k + 1 \<and> take 8 s = le_bytes (of_nat j)"
    proof cases
      case 1
      then show ?thesis using prefix by (intro exI[of _ "1 + k"]) simp
    next
      case 2
      then show ?thesis using k(3) by (meson le_add1 le_trans)
    qed
  qed
  moreover have "hm_ok (tracked m')" using inv by (simp add: m'(1) seats_inv_def hm_ok_insert)
  moreover have "id_counter m' = of_nat (1 + (k + 1))" by (simp add: m'(4) k(2))
  moreover have "mset (map fst (tracked m')) = h + {#sid#}" using inv by (simp add: tr seats_inv_def)
  moreover have "length (tracked m') \<le> limit" using room by (simp add: tr)
  moreover have "sessions m' = []" "max_sessions m' = limit" using inv m'(2,3) by (simp_all add: seats_inv_def)
  ultimately show ?thesis
    unfolding seats_inv_def using k(1) by (metis add_le_mono1)
qed

lemma seats_inv_close:
  assumes "seats_inv limit n (h + {#sid#}) m"
  shows "seats_inv limit n h (remove_session sid m)"
proof -
  have keys: "map fst (AList.delete sid (tracked m)) = removeAll sid (map fst (tracked m))"
    by (rule delete_keys)
  have d: "distinct (map fst (tracked m))" using assms by (simp add: seats_inv_def hm_ok_def)
  have "mset (map fst (AList.delete sid (tracked m))) = h"
    unfolding keys distinct_remove1_removeAll[OF d, symmetric] using assms by (simp add: seats_inv_def)
  moreover have "length (AList.delete sid (tracked m)) \<le> length (tracked m)" by (rule length_hm_remove)
  moreover have "set (map fst (AList.delete sid (tracked m))) \<subseteq> set (map fst (tracked m))"
    unfolding keys by auto
  ultimately show ?thesis
    using assms unfolding seats_inv_def remove_session_def
    by (auto simp: hm_ok_remove simp del: set_map)
qed

lemma session_change_inv:
  assumes "session_change h m h' m'" and "seats_inv limit n (rest + h) m" and "n + 1 < 2 ^ 64"
  shows "seats_inv limit (n + 1) (rest + h') m'"
  using assms(1) unfolding session_change_def
proof (elim disjE exE conjE)
  fix now nanos r fp sid assume "h = {#}" "h' = {#sid#}" "create_session now nanos r fp m = (Inr sid, m')"
  then show ?thesis using seats_inv_open[of limit n rest m] assms by simp
next
  fix sid assume "h = {#sid#}" "h' = {#}" "m' = remove_session sid m"
  then show ?thesis using seats_inv_close[of limit n rest sid m] assms(2) seats_inv_mono by fastforce
qed (use assms(2) seats_inv_mono in fastforce)

lemma seats_step:
  assumes inv: "seats_inv limit n (held_ids (fst r)) (rl_sessions (snd r))" and n: "n + 1 < 2 ^ 64"
  shows "seats_inv limit (n + 1) (held_ids (fst (admission_step P cfg e r)))
    (rl_sessions (snd (admission_step P cfg e r)))"
proof (cases r)
  case (Pair cs sh)
  have same: "seats_inv limit (n + 1) (held_ids cs) (rl_sessions sh)"
    using inv Pair seats_inv_mono by fastforce
  show ?thesis
  proof (cases e)
    case (Turn i now nanos stim)
    obtain c' sh' where t: "turn P cfg i now nanos stim (cs ! i) sh = (c', sh')" by fastforce
    show ?thesis
    proof (cases "i < length cs")
      case True
      obtain rest where rest: "held_ids cs = rest + held_by (cs ! i)"
        using held_ids_update[OF True, of "WsConn [] WsClosed"] by (metis add.right_neutral held_by.simps(2) ws_held.simps(9))
      then have "held_ids (cs[i := c']) = rest + held_by c'"
        using held_ids_update[OF True, of c'] by (simp add: add.commute add.left_commute)
      then show ?thesis
        using session_change_inv[OF turn_sessions[OF t] _ n, of limit rest] inv rest True t Turn Pair by simp
    qed (use same in \<open>simp add: Pair Turn\<close>)
  next
    case (Traffic op)
    then show ?thesis using same Pair by (cases op) (simp_all del: room_step.simps)
  qed (use same in \<open>simp_all add: Pair\<close>)
qed

lemma seats_run:
  "length es + 1 < 2 ^ 64 \<Longrightarrow>
     seats_inv limit (length es) (held_ids (fst (admission_run P cfg es (relay_start reg limit a))))
       (rl_sessions (snd (admission_run P cfg es (relay_start reg limit a))))"
proof (induction es rule: rev_induct)
  case Nil
  then show ?case by (simp add: seats_inv_def relay_start_def session_manager_new_def held_ids_def)
next
  case (snoc e es)
  then show ?case using seats_step[OF snoc.IH] by (simp add: admission_run_snoc)
qed

text \<open>
  C28 (invariant). Sessions are accounted for.  In every state that fewer than \<open>2 ^ 64 - 1\<close> steps of any
  connections reach, the sessions the manager tracks are exactly those that connections hold, each held
  by one connection, and there are never more than the limit: none is shared, none outlives its
  connection, none is lost while its connection lives.
\<close>

theorem sessions_are_accounted:
  assumes "length es + 1 < 2 ^ 64"
  shows "let (cs, sh) = admission_run P cfg es (relay_start reg limit rooms_acl) in
    mset (map fst (tracked (rl_sessions sh))) = held_ids cs \<and> distinct (map fst (tracked (rl_sessions sh))) \<and>
    size (held_ids cs) \<le> limit"
proof -
  obtain cs sh where r: "admission_run P cfg es (relay_start reg limit rooms_acl) = (cs, sh)" by fastforce
  have inv: "seats_inv limit (length es) (held_ids cs) (rl_sessions sh)"
    using seats_run[OF assms, of limit P cfg reg rooms_acl] by (simp add: r)
  then have "size (held_ids cs) = length (tracked (rl_sessions sh))"
    unfolding seats_inv_def by (metis length_map size_mset)
  then show ?thesis using inv r by (simp add: seats_inv_def hm_ok_def)
qed

section \<open>What goes wrong\<close>

lemma join_authorized: "is_authorized rm n fp \<Longrightarrow> \<exists>j rm'. join n a s fp al rm = (Inr j, rm')"
  by (simp add: join_def Let_def split_beta)

lemma members_joined:
  assumes "fst (join n a s fp al rm) = Inr j"
  shows "\<exists>p \<in> set (members (snd (join n a s fp al rm)) n). p_id p = joined_id j \<and> p_fingerprint p = fp"
proof -
  have auth: "is_authorized rm n fp" using assms by (cases "is_authorized rm n fp") (simp_all add: join_def)
  define room where "room = (case hm_get (rooms rm) n of None \<Rightarrow> room_new | Some r \<Rightarrow> r)"
  obtain removed room1 where rem:
    "(case fp of None \<Rightarrow> ([], room) | Some f \<Rightarrow> remove_by_fingerprint f room) = (removed, room1)"
    by fastforce
  have j: "joined_id j = next_participant_id rm"
    using assms auth rem by (auto simp: join_def Let_def room_def[symmetric])
  show ?thesis
    using auth rem by (simp add: join_def Let_def room_def[symmetric] members_def room_add_def j)
qed

text \<open>
  Also (safety). The WebSocket door has no lock.  On a relay without tokens and without access lists, a
  WebSocket connection may name the room of any call, known to the registry or not, full or not: three
  turns later it is a member, without a fingerprint.  The check of call rooms guards QUIC only.
\<close>

theorem websocket_enters_call_room:
  assumes "\<not> auth_required cfg" and "acl (rl_rooms sh) = None"
    and "total_count (rl_sessions sh) < max_sessions (rl_sessions sh)"
  shows "\<exists>p \<in> set (members (rl_rooms (snd (admission_run P cfg
      (DialWs (''call-'' @ cid) # replicate 3 (Turn (length cs) now nanos Proceed)) (cs, sh)))) (''call-'' @ cid)).
    p_fingerprint p = None"
proof -
  let ?r = "''call-'' @ cid"
  obtain sid m where create: "create_session now nanos ?r None (rl_sessions sh) = (Inr sid, m)"
    using assms(3) by (auto simp: create_session_def rand_session_id_def)
  let ?j = "join ?r ''0.0.0.0:0'' (WebSocket (length cs)) None None (rl_rooms sh)"
  obtain j rm where joined: "?j = (Inr j, rm)"
  proof -
    have "is_authorized (rl_rooms sh) ?r None" using assms(2) by (simp add: is_authorized_def)
    then show ?thesis using join_authorized that by blast
  qed
  have "admission_run P cfg (DialWs ?r # replicate 3 (Turn (length cs) now nanos Proceed)) (cs, sh) =
      (cs @ [WsConn ?r (WsJoined None sid (joined_id j))], sh\<lparr>rl_sessions := m, rl_rooms := rm\<rparr>)"
    using assms(1) create joined
    by (simp add: admission_run_def numeral_3_eq_3 turn_def ws_step_def authenticate_def open_seat_def
        enter_room_def nth_append list_update_append)
  moreover have "\<exists>p \<in> set (members rm ?r). p_fingerprint p = None"
    using members_joined[of ?r "''0.0.0.0:0''" "WebSocket (length cs)" None None "rl_rooms sh" j]
    unfolding joined by auto
  ultimately show ?thesis by (simp only: snd_conv) simp
qed

text \<open>
  Also (liveness). A caller cannot come back.  With both parties of a call in its room, a new connection
  of one of them is refused, because the room counts two members; yet joining would have replaced the
  old membership of the same fingerprint and left two.
\<close>

theorem reconnect_is_refused:
  assumes "call_of_room r \<noteq> None" and "acl (rl_rooms sh) = None" and "a \<noteq> b"
    and "map p_fingerprint (members (rl_rooms sh) r) = [Some a, Some b]" and "part_fp t \<in> {a, b}"
  shows "quic_step P cfg now nanos i addr r stim (Seated t sid) sh = (Refused sid, sh) \<and>
    length (members (snd (join r addr s (Some (part_fp t)) al (rl_rooms sh))) r) = 2"
proof -
  obtain room where room: "hm_get (rooms (rl_rooms sh)) r = Some room"
    "map p_fingerprint (participants room) = [Some a, Some b]"
    using assms(4) by (auto simp: members_def split: option.splits)
  obtain p q where ps: "participants room = [p, q]" "p_fingerprint p = Some a" "p_fingerprint q = Some b"
    using room(2) by (auto simp: map_eq_Cons_conv)
  have "room_size (rl_rooms sh) r = 2" using ps room(1) by (simp add: room_size_def)
  moreover have "length (members (snd (join r addr s (Some (part_fp t)) al (rl_rooms sh))) r) = 2"
    using assms(2,3,5) room(1) ps
    by (auto simp: join_def is_authorized_def Let_def members_def remove_by_fingerprint_def room_add_def)
  ultimately show ?thesis using assms(1) by (simp add: quic_step_def call_room_full_def)
qed

text \<open>Nobody is ever taken off the presence list when no token was asked for.\<close>

definition listed :: "string \<Rightarrow> Shared \<Rightarrow> bool" where
  "listed fp sh \<longleftrightarrow> hm_get (locals (rl_presence sh)) fp \<noteq> None"

lemma listed_keeps:
  "listed fp sh \<Longrightarrow> listed fp (list_present now f r sh)" "delist_present None sh = sh"
  "listed fp (close_seat sid sh) = listed fp sh" "listed fp (exit_room r pid sh) = listed fp sh"
  "open_seat now nanos r f sh = (res, sh') \<Longrightarrow> listed fp sh \<Longrightarrow> listed fp sh'"
  "enter_room r addr sender f al sh = (pid', sh') \<Longrightarrow> listed fp sh \<Longrightarrow> listed fp sh'"
  by (auto simp: listed_def list_present_def register_local_def delist_present_def close_seat_def
      exit_room_def open_seat_def enter_room_def split: option.splits prod.splits)

lemma turn_listed:
  assumes "turn P cfg i now nanos stim c sh = (c', sh')" and "conn_shown P cfg es i c"
    and "\<not> auth_required cfg" and "listed fp sh"
  shows "listed fp sh'"
proof (cases c)
  case (QuicConn ad r st)
  then obtain st' where "quic_step P cfg now nanos i ad r stim st sh = (st', sh')"
    using assms(1) by (auto simp: turn_def apfst_def map_prod_def split: prod.splits)
  then show ?thesis
    using assms(2-4) QuicConn
    by (cases st) (auto simp: quic_step_def listed_keeps ticket_shown_def token_shown_def
        dest: listed_keeps(5,6) split: option.splits sum.splits stimulus.splits if_splits prod.splits)
next
  case (WsConn r st)
  then obtain st' where "ws_step cfg now nanos i r stim st sh = (st', sh')"
    using assms(1) by (auto simp: turn_def apfst_def map_prod_def split: prod.splits)
  then show ?thesis
    using assms(2-4) WsConn
    by (cases st) (auto simp: ws_step_def listed_keeps token_shown_def
        dest: listed_keeps(5,6) split: option.splits sum.splits stimulus.splits if_splits prod.splits)
qed

lemma listed_step:
  assumes "all_shown P cfg es (fst r)" and "\<not> auth_required cfg" and "listed fp (snd r)"
  shows "listed fp (snd (admission_step P cfg e r))"
proof (cases r)
  case (Pair cs sh)
  show ?thesis
  proof (cases e)
    case (Turn i now nanos stim)
    obtain c' sh' where t: "turn P cfg i now nanos stim (cs ! i) sh = (c', sh')" by fastforce
    show ?thesis
      using turn_listed[OF t, of es] assms t Pair Turn by (auto simp: all_shown_def)
  next
    case (Traffic op)
    then show ?thesis using assms Pair by (cases op) (simp_all add: listed_def del: room_step.simps)
  qed (use assms Pair in \<open>simp_all add: listed_def\<close>)
qed

text \<open>
  Also (safety). Without tokens the presence list never forgets.  On a relay that asks for no token, a
  fingerprint that a handshake has put on the local presence list stays there, whatever happens next,
  also after its connection was refused a session or has left: the relay goes on telling its peers that
  the client is here.  Departure takes off only fingerprints that came with a token.
\<close>

theorem presence_never_forgets:
  assumes "\<not> auth_required cfg"
    and "listed fp (snd (admission_run P cfg es (relay_start reg limit rooms_acl)))"
  shows "listed fp (snd (admission_run P cfg (es @ fs) (relay_start reg limit rooms_acl)))"
proof (induction fs rule: rev_induct)
  case (snoc f fs)
  have "all_shown P cfg (es @ fs) (fst (admission_run P cfg (es @ fs) (relay_start reg limit rooms_acl)))"
    by (rule all_shown_run) (simp add: relay_start_def)
  from listed_step[OF this assms(1) snoc.IH, of f] show ?case
    by (simp add: admission_run_snoc flip: append_assoc)
qed (use assms(2) in simp)

section \<open>Examples\<close>

definition toy_config :: AdmissionConfig where
  "toy_config = \<lparr>auth_required = False, forward_mode = False, relay_seed = [2]\<rparr>"

definition toy_fp :: string where
  "toy_fp = fingerprint_to_string (id_fingerprint toy_id (fst (from_identity_seed toy_id [1])))"

definition toy_ticket :: Ticket where
  "toy_ticket = \<lparr>token_fp = None, part_fp = toy_fp, part_alias = Some ''Alice''\<rparr>"

lemma toy_identified: "identify toy_id [2] None [4] (Arrived (OfferSignal toy_offer)) = Some toy_ticket"
proof -
  obtain out s where "accept_handshake toy_id [2] [4] (Arrived (OfferSignal toy_offer)) =
    (out, Inr (s, GOOD, toy_fp, Some ''Alice''))"
    using toy_accepts unfolding toy_fp_def by blast
  then show ?thesis by (simp add: identify_def toy_ticket_def)
qed

definition toy_entry :: "relay_event list" where
  "toy_entry =
     [DialQuic ''1.2.3.4:5'' ''lobby'', Turn 0 1 1 Proceed,
      Turn 0 1 1 (Shake [4] (Arrived (OfferSignal toy_offer))), Turn 0 1 1 Proceed, Turn 0 1 1 Proceed,
      Turn 0 1 1 Proceed, Turn 0 1 1 Proceed, Turn 0 1 1 Proceed]"

lemma toy_entry_run:
  "\<exists>sid pid sh. admission_run toy_id toy_config toy_entry (relay_start [] 5 None) =
     ([QuicConn ''1.2.3.4:5'' ''lobby'' (Joined toy_ticket sid pid)], sh) \<and> listed toy_fp sh \<and>
     (\<exists>p \<in> set (members (rl_rooms sh) ''lobby''). p_fingerprint p = Some toy_fp)"
proof -
  define cs where "cs = (\<lambda>st. [QuicConn ''1.2.3.4:5'' ''lobby'' st])"
  define sh0 where "sh0 = snd (relay_start [] 5 None)"
  define sh1 where "sh1 = list_present 1 (Some toy_fp) ''lobby'' sh0"
  obtain sid m where create: "create_session 1 1 ''lobby'' None (rl_sessions sh1) = (Inr sid, m)"
    by (auto simp: create_session_def rand_session_id_def sh1_def sh0_def relay_start_def
        list_present_def session_manager_new_def total_count_def)
  let ?join = "join ''lobby'' ''1.2.3.4:5'' (Quic 0) (Some toy_fp) (Some ''Alice'') (rl_rooms sh1)"
  obtain j rm where joined: "?join = (Inr j, rm)"
  proof -
    have "is_authorized (rl_rooms sh1) ''lobby'' (Some toy_fp)"
      by (simp add: is_authorized_def sh1_def sh0_def relay_start_def)
    then show ?thesis using join_authorized that by blast
  qed
  have full: "\<not> call_room_full ''lobby'' sh" for sh
    by (simp add: call_room_full_def call_of_room_def)
  have admits: "room_admits reg ''lobby'' fp" for reg fp
    by (simp add: room_admits_def call_of_room_def)
  have dial: "admission_step toy_id toy_config (DialQuic ''1.2.3.4:5'' ''lobby'') (relay_start [] 5 None) =
      (cs Connected, sh0)"
    by (simp add: relay_start_def sh0_def cs_def reserved_names_def)
  have turns: "admission_step toy_id toy_config (Turn 0 1 1 stim) (cs st, sh) =
      apfst cs (quic_step toy_id toy_config 1 1 0 ''1.2.3.4:5'' ''lobby'' stim st sh)" for stim st sh
    by (simp add: cs_def turn_def apfst_def map_prod_def split: prod.split)
  have config: "\<not> auth_required toy_config" "\<not> forward_mode toy_config" "relay_seed toy_config = [2]"
    by (simp_all add: toy_config_def)
  have ticket: "token_fp toy_ticket = None" "part_fp toy_ticket = toy_fp" "part_alias toy_ticket = Some ''Alice''"
    by (simp_all add: toy_ticket_def)
  note steps = turns quic_step_def config ticket authenticate_def toy_identified admits full open_seat_def
    enter_room_def
  have "admission_run toy_id toy_config toy_entry (relay_start [] 5 None) =
      (cs (Joined toy_ticket sid (joined_id j)), sh1\<lparr>rl_sessions := m, rl_rooms := rm\<rparr>)"
    unfolding admission_run_def toy_entry_def
    by (simp only: fold.simps comp_apply id_apply dial)
      (simp add: steps sh1_def[symmetric] create joined del: admission_step.simps One_nat_def)
  moreover have "listed toy_fp (sh1\<lparr>rl_sessions := m, rl_rooms := rm\<rparr>)"
    by (simp add: sh1_def listed_def list_present_def register_local_def)
  moreover have "\<exists>p \<in> set (members rm ''lobby''). p_fingerprint p = Some toy_fp"
    using members_joined[of "''lobby''" "''1.2.3.4:5''" "Quic 0" "Some toy_fp" "Some ''Alice''" "rl_rooms sh1" j]
    unfolding joined by auto
  ultimately show ?thesis unfolding cs_def by (intro exI conjI) auto
qed

theorem members_are_authenticated_witness:
  "\<exists>f. offer_shown toy_id toy_entry 0 f \<and> toy_fp = fingerprint_of_key toy_id (of_identity_pub f)"
proof -
  let ?r = "admission_run toy_id toy_config toy_entry (relay_start [] 5 None)"
  obtain sid pid where conns: "fst ?r = [QuicConn ''1.2.3.4:5'' ''lobby'' (Joined toy_ticket sid pid)]"
    using toy_entry_run by fastforce
  obtain p where p: "p \<in> set (members (rl_rooms (snd ?r)) ''lobby'')" "p_fingerprint p = Some toy_fp"
    using toy_entry_run by fastforce
  show ?thesis
    using members_are_authenticated[OF p(1)] p(2) unfolding conns by (force simp: toy_ticket_def)
qed

text \<open>Both parties of a call walk into its room; then one of them dials again.\<close>

definition call_config :: AdmissionConfig where
  "call_config = toy_config\<lparr>auth_required := True\<rparr>"

definition call_registry :: CallRegistry where
  "call_registry = place_call 0 ''X'' ''ann'' ''bob'' \<lparr>reflexive_addr = None, local_addrs = [], mapped_addr = None\<rparr> []"

definition walk_in :: "nat \<Rightarrow> string \<Rightarrow> relay_event list" where
  "walk_in i fp = [Turn i 1 1 (Token (TokenValid fp)), Turn i 1 1 (Shake [4] (Arrived (OfferSignal toy_offer))),
     Turn i 1 1 Proceed, Turn i 1 1 Proceed, Turn i 1 1 Proceed, Turn i 1 1 Proceed, Turn i 1 1 Proceed]"

definition both_walk_in :: "relay_event list" where
  "both_walk_in = DialQuic ''1.2.3.4:5'' (''call-'' @ ''X'') # DialQuic ''5.6.7.8:9'' (''call-'' @ ''X'') #
     walk_in 0 ''ann'' @ walk_in 1 ''bob''"

definition call_under_way :: Relay where
  "call_under_way = admission_run toy_id call_config both_walk_in (relay_start call_registry 5 None)"

lemma call_under_way_facts:
  "map p_fingerprint (members (rl_rooms (snd call_under_way)) (''call-'' @ ''X'')) = [Some ''ann'', Some ''bob'']"
  "list_all (\<lambda>c. room_of c = ''call-'' @ ''X'' \<longrightarrow> \<not> past_check c) (fst call_under_way)"
  by code_simp+


theorem sessions_are_accounted_witness:
  "let (cs, sh) = admission_run toy_id toy_config toy_entry (relay_start [] 5 None) in
    mset (map fst (tracked (rl_sessions sh))) = held_ids cs \<and> distinct (map fst (tracked (rl_sessions sh))) \<and>
    size (held_ids cs) \<le> 5"
  by (rule sessions_are_accounted) (simp add: toy_entry_def)

theorem websocket_enters_call_room_witness:
  "\<exists>p \<in> set (members (rl_rooms (snd (admission_run toy_id toy_config
      (DialWs (''call-'' @ ''X'') # replicate 3 (Turn 0 1 1 Proceed)) (relay_start [] 5 None)))) (''call-'' @ ''X'')).
    p_fingerprint p = None"
  using websocket_enters_call_room[of toy_config "snd (relay_start [] 5 None)" toy_id "''X''" "[]" 1 1]
  by (simp add: toy_config_def relay_start_def session_manager_new_def total_count_def manager_new_def
      del: append.simps append_Cons)

theorem presence_never_forgets_witness:
  "listed toy_fp (snd (admission_run toy_id toy_config
     (toy_entry @ [Turn 0 2 2 Ended, Turn 0 2 2 Proceed, Turn 0 2 2 Proceed]) (relay_start [] 5 None)))"
proof (rule presence_never_forgets)
  show "\<not> auth_required toy_config" by (simp add: toy_config_def)
  show "listed toy_fp (snd (admission_run toy_id toy_config toy_entry (relay_start [] 5 None)))"
    using toy_entry_run by fastforce
qed

definition full_call :: Shared where
  "full_call = (snd (relay_start [] 5 None))\<lparr>rl_rooms := manager_new\<lparr>rooms :=
     [(''call-X'', \<lparr>participants =
         [\<lparr>p_id = 1, p_addr = [], p_sender = Quic 0, p_fingerprint = Some ''a'', p_alias = None\<rparr>,
          \<lparr>p_id = 2, p_addr = [], p_sender = Quic 1, p_fingerprint = Some ''b'', p_alias = None\<rparr>],
        qualities = [(1, pq_new), (2, pq_new)], room_tier = Good\<rparr>)], next_participant_id := 3\<rparr>\<rparr>"

theorem reconnect_is_refused_witness:
  "quic_step toy_id toy_config 1 1 2 [] ''call-X'' Proceed (Seated \<lparr>token_fp = None, part_fp = ''a'', part_alias = None\<rparr> [7])
      full_call = (Refused [7], full_call) \<and>
   length (members (snd (join ''call-X'' [] (Quic 2) (Some ''a'') None (rl_rooms full_call))) ''call-X'') = 2"
  using reconnect_is_refused[of "''call-X''" full_call "''a''" "''b''"
      "\<lparr>token_fp = None, part_fp = ''a'', part_alias = None\<rparr>" toy_id toy_config 1 1 2 "[]" Proceed "[7]" "Quic 2" None]
  by (simp add: full_call_def call_of_room_def members_def manager_new_def relay_start_def)

end
