(* ===== verification/Stun.thy ===== *)
theory Stun
  imports Prelude "HOL-Library.Multiset"
begin

text \<open>
  Address discovery over STUN, \<open>crates/wzp-client/src/stun.rs\<close>: the binding request, the response
  parser with both address attributes, one exchange with its retry, the choice among servers, and the
  classification of a NAT's port allocation with the prediction of its next ports.  What a socket
  delivers, what DNS answers, the transaction id and the iteration order of a hash map are arguments.
  Signed 16-bit numbers are integers, wrapped by \<open>as_i16\<close> where the code casts or subtracts.
\<close>

section \<open>Addresses and errors\<close>

datatype IpAddr = V4 "byte list" | V6 "byte list"

record SocketAddr =
  sa_ip :: IpAddr
  sa_port :: u16

datatype StunError =
    StunIo
  | StunTimeout
  | Malformed
  | TxnMismatch
  | ErrorResponse u16
  | NoMappedAddress
  | DnsError

abbreviation (input) MAGIC_COOKIE :: u32 where "MAGIC_COOKIE \<equiv> 0x2112A442"
abbreviation (input) BINDING_REQUEST :: u16 where "BINDING_REQUEST \<equiv> 1"
abbreviation (input) BINDING_RESPONSE :: u16 where "BINDING_RESPONSE \<equiv> 0x0101"
abbreviation (input) ATTR_MAPPED_ADDRESS :: u16 where "ATTR_MAPPED_ADDRESS \<equiv> 1"
abbreviation (input) ATTR_XOR_MAPPED_ADDRESS :: u16 where "ATTR_XOR_MAPPED_ADDRESS \<equiv> 0x20"
abbreviation (input) HEADER_LEN :: nat where "HEADER_LEN \<equiv> 20"
abbreviation (input) MAX_RESPONSE :: nat where "MAX_RESPONSE \<equiv> 576"

section \<open>Packets\<close>

definition encode_binding_request :: "byte list \<Rightarrow> byte list" where
  "encode_binding_request txn = put_u16 BINDING_REQUEST @ put_u16 0 @ put_u32 MAGIC_COOKIE @ txn"

definition be16 :: "byte list \<Rightarrow> nat \<Rightarrow> u16" where
  "be16 b i = u16_of_be (b ! i) (b ! (i + 1))"

definition be32 :: "byte list \<Rightarrow> nat \<Rightarrow> u32" where
  "be32 b i = u32_of_be (b ! i) (b ! (i + 1)) (b ! (i + 2)) (b ! (i + 3))"

definition parse_mapped_address :: "byte list \<Rightarrow> StunError + SocketAddr" where
  "parse_mapped_address v =
     (if length v < 4 then Inl Malformed
      else
        let port = be16 v 2 in
        if v ! 1 = 1 then
          (if length v < 8 then Inl Malformed
           else Inr \<lparr>sa_ip = V4 [v ! 4, v ! 5, v ! 6, v ! 7], sa_port = port\<rparr>)
        else if v ! 1 = 2 then
          (if length v < 20 then Inl Malformed
           else Inr \<lparr>sa_ip = V6 (take 16 (drop 4 v)), sa_port = port\<rparr>)
        else Inl Malformed)"

definition xor_key :: "byte list \<Rightarrow> byte list" where
  "xor_key txn = put_u32 MAGIC_COOKIE @ txn"

definition parse_xor_mapped_address :: "byte list \<Rightarrow> byte list \<Rightarrow> StunError + SocketAddr" where
  "parse_xor_mapped_address v txn =
     (if length v < 4 then Inl Malformed
      else
        let port = be16 v 2 XOR ucast (drop_bit 16 MAGIC_COOKIE); key = xor_key txn in
        if v ! 1 = 1 then
          (if length v < 8 then Inl Malformed
           else Inr \<lparr>sa_ip = V4 [v ! 4 XOR key ! 0, v ! 5 XOR key ! 1, v ! 6 XOR key ! 2, v ! 7 XOR key ! 3],
                     sa_port = port\<rparr>)
        else if v ! 1 = 2 then
          (if length v < 20 then Inl Malformed
           else Inr \<lparr>sa_ip = V6 (map (\<lambda>i. v ! (4 + i) XOR key ! i) [0..<16]), sa_port = port\<rparr>)
        else Inl Malformed)"

definition ok_of :: "'e + 'a \<Rightarrow> 'a option" where
  "ok_of r = (case r of Inl _ \<Rightarrow> None | Inr a \<Rightarrow> Some a)"

text \<open>The attribute loop: position, and the last address seen in either attribute.\<close>

definition attr_padding :: "nat \<Rightarrow> nat" where
  "attr_padding n = (4 - n mod 4) mod 4"

function walk_attrs ::
  "byte list \<Rightarrow> byte list \<Rightarrow> nat \<Rightarrow> SocketAddr option \<Rightarrow> SocketAddr option \<Rightarrow>
   SocketAddr option \<times> SocketAddr option" where
  "walk_attrs attrs txn pos mapped xor_mapped =
     (if pos + 4 \<le> length attrs then
        let attr_type = be16 attrs pos; attr_len = unat (be16 attrs (pos + 2));
            value_start = pos + 4; value_end = value_start + attr_len in
        if length attrs < value_end then (mapped, xor_mapped)
        else
          let v = take attr_len (drop value_start attrs);
              next_pos = value_end + attr_padding attr_len in
          if attr_type = ATTR_XOR_MAPPED_ADDRESS
          then walk_attrs attrs txn next_pos mapped (ok_of (parse_xor_mapped_address v txn))
          else if attr_type = ATTR_MAPPED_ADDRESS
          then walk_attrs attrs txn next_pos (ok_of (parse_mapped_address v)) xor_mapped
          else walk_attrs attrs txn next_pos mapped xor_mapped
      else (mapped, xor_mapped))"
  by pat_completeness auto

termination
  by (relation "measure (\<lambda>(attrs, _, pos, _). length attrs - pos)") auto

declare walk_attrs.simps [simp del]

definition or_else :: "'a option \<Rightarrow> 'a option \<Rightarrow> 'a option" where
  "or_else a b = (case a of Some x \<Rightarrow> Some x | None \<Rightarrow> b)"

definition parse_binding_response :: "byte list \<Rightarrow> byte list \<Rightarrow> StunError + SocketAddr" where
  "parse_binding_response buf txn =
     (if length buf < HEADER_LEN then Inl Malformed
      else
        let msg_type = be16 buf 0; msg_len = unat (be16 buf 2); cookie = be32 buf 4 in
        if cookie \<noteq> MAGIC_COOKIE then Inl Malformed
        else if msg_type = 0x0111 then Inl (ErrorResponse 0)
        else if msg_type \<noteq> BINDING_RESPONSE then Inl Malformed
        else if take 12 (drop 8 buf) \<noteq> txn then Inl TxnMismatch
        else if length buf < HEADER_LEN + msg_len then Inl Malformed
        else
          (let (mapped, xor_mapped) = walk_attrs (take msg_len (drop HEADER_LEN buf)) txn 0 None None in
           case or_else xor_mapped mapped of None \<Rightarrow> Inl NoMappedAddress | Some a \<Rightarrow> Inr a))"

section \<open>One exchange, one server, several servers\<close>

text \<open>What \<open>recv_from\<close> does within its time: the datagram and its source, an error, or nothing.\<close>

datatype receipt = Datagram "byte list" SocketAddr | RecvError | Silence

text \<open>
  The requests sent and the result.  A datagram longer than the buffer is cut; the two waits have
  half the timeout each; the second one looks at no source.
\<close>

definition stun_reflect ::
  "byte list \<Rightarrow> SocketAddr \<Rightarrow> bool \<Rightarrow> receipt \<Rightarrow> bool \<Rightarrow> receipt \<Rightarrow>
   (SocketAddr \<times> byte list) list \<times> (StunError + SocketAddr)" where
  "stun_reflect txn server sent1 r1 sent2 r2 =
     (let request = (server, encode_binding_request txn) in
      if \<not> sent1 then ([], Inl StunIo)
      else (case r1 of
          Datagram d from_addr \<Rightarrow>
            ([request],
             if sa_ip from_addr \<noteq> sa_ip server then Inl Malformed
             else parse_binding_response (take MAX_RESPONSE d) txn)
        | RecvError \<Rightarrow> ([request], Inl StunIo)
        | Silence \<Rightarrow>
            if \<not> sent2 then ([request], Inl StunIo)
            else ([request, request],
              (case r2 of
                 Silence \<Rightarrow> Inl StunTimeout
               | RecvError \<Rightarrow> Inl StunIo
               | Datagram d _ \<Rightarrow> parse_binding_response (take MAX_RESPONSE d) txn))))"

definition is_ipv4 :: "SocketAddr \<Rightarrow> bool" where
  "is_ipv4 a = (case sa_ip a of V4 _ \<Rightarrow> True | V6 _ \<Rightarrow> False)"

fun pick_addr :: "SocketAddr option \<Rightarrow> SocketAddr list \<Rightarrow> StunError + SocketAddr" where
  "pick_addr first_v6 [] = (case first_v6 of None \<Rightarrow> Inl DnsError | Some a \<Rightarrow> Inr a)"
| "pick_addr first_v6 (a # as) =
     (if is_ipv4 a then Inr a
      else pick_addr (case first_v6 of None \<Rightarrow> Some a | Some b \<Rightarrow> Some b) as)"

definition resolve_stun_server :: "SocketAddr list option \<Rightarrow> StunError + SocketAddr" where
  "resolve_stun_server answer = (case answer of None \<Rightarrow> Inl DnsError | Some as \<Rightarrow> pick_addr None as)"

text \<open>The tasks in the order they finish; \<open>None\<close> is one that panicked.\<close>

fun first_success :: "StunError option \<Rightarrow> (StunError + SocketAddr) option list \<Rightarrow> StunError + SocketAddr" where
  "first_success last_err [] = Inl (case last_err of None \<Rightarrow> StunIo | Some e \<Rightarrow> e)"
| "first_success last_err (Some (Inr a) # rs) = Inr a"
| "first_success last_err (Some (Inl e) # rs) = first_success (Some e) rs"
| "first_success last_err (None # rs) = first_success (Some StunIo) rs"

definition discover_reflexive :: "(StunError + SocketAddr) option list \<Rightarrow> StunError + SocketAddr" where
  "discover_reflexive outcomes = (if outcomes = [] then Inl StunIo else first_success None outcomes)"

section \<open>Port allocation\<close>

datatype PortAllocation = PortPreserving | Sequential int | RandomPorts | UnknownPorts

definition as_i16 :: "int \<Rightarrow> int" where
  "as_i16 d = (d + 32768) mod 65536 - 32768"

definition port_delta :: "int \<Rightarrow> int" where
  "port_delta d = (if d > 32768 then as_i16 (d - 65536) else if d < -32768 then as_i16 (d + 65536) else as_i16 d)"

definition port_deltas :: "u16 list \<Rightarrow> int list" where
  "port_deltas ports =
     map (\<lambda>(a, b). port_delta (int (unat b) - int (unat a))) (zip ports (tl ports))"

definition delta_counts :: "int list \<Rightarrow> (int \<times> nat) list" where
  "delta_counts ds = map (\<lambda>d. (d, count_list ds d)) (remdups ds)"

text \<open>\<open>max_by_key\<close> keeps the last of the greatest; the map is iterated in the order \<open>shuffle\<close> gives.\<close>

fun max_by_count :: "(int \<times> nat) list \<Rightarrow> (int \<times> nat) option" where
  "max_by_count [] = None"
| "max_by_count (x # xs) =
     (case max_by_count xs of None \<Rightarrow> Some x | Some y \<Rightarrow> if snd y < snd x then Some x else Some y)"

text \<open>The threshold is three fifths of the deltas, rounded up.\<close>

definition classify_port_allocation ::
  "((int \<times> nat) list \<Rightarrow> (int \<times> nat) list) \<Rightarrow> u16 list \<Rightarrow> PortAllocation" where
  "classify_port_allocation shuffle ports =
     (if length ports < 2 then UnknownPorts
      else if \<forall>p \<in> set ports. p = ports ! 0 then PortPreserving
      else if length ports < 3 then UnknownPorts
      else
        let deltas = port_deltas ports; first_delta = deltas ! 0 in
        if first_delta = 0 then RandomPorts
        else if \<forall>d \<in> set deltas. \<bar>as_i16 (d - first_delta)\<bar> \<le> 1 then Sequential first_delta
        else (case max_by_count (shuffle (delta_counts deltas)) of
            None \<Rightarrow> RandomPorts
          | Some (common, n) \<Rightarrow>
              if (3 * length deltas + 4) div 5 \<le> n \<and> common \<noteq> 0
              then Sequential common else RandomPorts))"

definition predict_ports :: "u16 \<Rightarrow> int \<Rightarrow> u16 \<Rightarrow> u16 \<Rightarrow> u16 list" where
  "predict_ports last_port delta offset spread =
     (let base = int (unat last_port) + delta * (int (unat offset) + 1);
          ps = map (\<lambda>i. (base + i * delta) mod 65536) [- int (unat spread)..int (unat spread)] in
      map of_int (remdups_adj (sort (filter (\<lambda>p. 0 < p \<and> p \<le> 65535) ps))))"

record PortAllocationResult =
  allocation :: PortAllocation
  observed_ports :: "u16 list"
  external_ip :: "IpAddr option"

text \<open>One outcome per server, resolving and probing together.\<close>

definition detect_port_allocation ::
  "((int \<times> nat) list \<Rightarrow> (int \<times> nat) list) \<Rightarrow> bool \<Rightarrow> (StunError + SocketAddr) list \<Rightarrow> PortAllocationResult" where
  "detect_port_allocation shuffle bound outcomes =
     (if length outcomes < 2 \<or> \<not> bound
      then \<lparr>allocation = UnknownPorts, observed_ports = [], external_ip = None\<rparr>
      else
        let observed = List.map_filter ok_of outcomes; ports = map sa_port observed in
        \<lparr>allocation = classify_port_allocation shuffle ports, observed_ports = ports,
         external_ip = (case observed of [] \<Rightarrow> None | a # _ \<Rightarrow> Some (sa_ip a))\<rparr>)"

section \<open>Responses as attribute lists\<close>

type_synonym attribute = "u16 \<times> byte list"

definition attr_bytes :: "attribute \<Rightarrow> byte list" where
  "attr_bytes a = put_u16 (fst a) @ put_u16 (of_nat (length (snd a))) @ snd a @
     replicate (4 * ((length (snd a) + 3) div 4) - length (snd a)) 0"

lemma attr_bytes_padded:
  "attr_bytes a = put_u16 (fst a) @ put_u16 (of_nat (length (snd a))) @ snd a @
     replicate (attr_padding (length (snd a))) 0"
proof -
  have "4 * ((n + 3) div 4) - n = attr_padding n" for n
  proof -
    define q where "q = n div 4"
    have "n mod 4 = 0 \<or> n mod 4 = 1 \<or> n mod 4 = 2 \<or> n mod 4 = 3" by auto
    moreover have "n = 4 * q + n mod 4" by (simp add: q_def)
    ultimately have "n = 4 * q \<or> n = 4 * q + 1 \<or> n = 4 * q + 2 \<or> n = 4 * q + 3" by (elim disjE) simp_all
    then show ?thesis by (auto simp: attr_padding_def mod_Suc)
  qed
  then show ?thesis by (simp only: attr_bytes_def)
qed

definition binding_response :: "byte list \<Rightarrow> attribute list \<Rightarrow> byte list" where
  "binding_response txn as =
     (let body = concat (map attr_bytes as) in
      put_u16 BINDING_RESPONSE @ put_u16 (of_nat (length body)) @ put_u32 MAGIC_COOKIE @ txn @ body)"

text \<open>The value of the last attribute of a type, read.\<close>

definition last_read :: "u16 \<Rightarrow> (byte list \<Rightarrow> 'a option) \<Rightarrow> attribute list \<Rightarrow> 'a option" where
  "last_read t f as =
     (let bs = filter (\<lambda>a. fst a = t) as in if bs = [] then None else f (snd (last bs)))"

definition attrs_fit :: "attribute list \<Rightarrow> bool" where
  "attrs_fit as \<longleftrightarrow> length (concat (map attr_bytes as)) < 2 ^ 16"

lemma attrs_fit_Cons: "attrs_fit (a # as) \<Longrightarrow> attrs_fit as \<and> length (snd a) < 2 ^ 16"
  by (simp add: attrs_fit_def attr_bytes_padded)

lemma be16_put: "be16 (pre @ put_u16 w @ r) (length pre) = w"
  by (simp add: be16_def put_u16_def nth_append u16_of_be_put)

text \<open>The loop over bytes is a fold over attributes.\<close>

fun read_attrs ::
  "byte list \<Rightarrow> attribute list \<Rightarrow> SocketAddr option \<Rightarrow> SocketAddr option \<Rightarrow>
   SocketAddr option \<times> SocketAddr option" where
  "read_attrs txn [] m x = (m, x)"
| "read_attrs txn (a # as) m x =
     (if fst a = ATTR_XOR_MAPPED_ADDRESS
      then read_attrs txn as m (ok_of (parse_xor_mapped_address (snd a) txn))
      else if fst a = ATTR_MAPPED_ADDRESS then read_attrs txn as (ok_of (parse_mapped_address (snd a))) x
      else read_attrs txn as m x)"

lemma walk_read_attrs:
  "attrs_fit as \<Longrightarrow>
     walk_attrs (pre @ concat (map attr_bytes as)) txn (length pre) m x = read_attrs txn as m x"
proof (induction as arbitrary: pre m x)
  case Nil
  then show ?case by (simp add: walk_attrs.simps)
next
  case (Cons a as)
  obtain t v where a: "a = (t, v)" by fastforce
  let ?rest = "concat (map attr_bytes as)" and ?pad = "replicate (attr_padding (length v)) (0 :: byte)"
  have fit: "attrs_fit as" "length v < 2 ^ 16" using attrs_fit_Cons[OF Cons.prems] a by simp_all
  define n where "n = length pre"
  define b where "b = pre @ concat (map attr_bytes (a # as))"
  have b: "b = pre @ put_u16 t @ put_u16 (of_nat (length v)) @ v @ ?pad @ ?rest"
    by (simp add: b_def attr_bytes_padded a)
  have ty: "be16 b n = t" unfolding b n_def by (rule be16_put)
  have len: "be16 b (n + 2) = of_nat (length v)"
    unfolding b n_def using be16_put[of "pre @ put_u16 t"] by simp
  have val_eq: "take (length v) (drop (n + 4) b) = v" by (simp add: b n_def)
  have bound: "n + 4 + length v \<le> length b" by (simp add: b n_def)
  have IH: "walk_attrs b txn (n + 4 + length v + attr_padding (length v)) m x = read_attrs txn as m x" for m x
  proof -
    have "(pre @ attr_bytes a) @ ?rest = b" by (simp add: b_def)
    moreover have "length (pre @ attr_bytes a) = n + 4 + length v + attr_padding (length v)"
      by (simp add: n_def attr_bytes_padded a)
    ultimately show ?thesis using Cons.IH[OF fit(1), of "pre @ attr_bytes a" m x] by simp
  qed
  show ?case
    unfolding b_def[symmetric] n_def[symmetric]
    by (subst walk_attrs.simps)
      (use bound fit(2) in \<open>simp add: Let_def ty len val_eq IH a del: add_2_eq_Suc'\<close>)
qed

lemma last_read_Cons:
  "last_read t f (a # as) =
     (if filter (\<lambda>a. fst a = t) as = [] then (if fst a = t then f (snd a) else None) else last_read t f as)"
  by (auto simp: last_read_def Let_def)

lemma last_read_last: "\<forall>b \<in> set after. fst b \<noteq> t \<Longrightarrow> last_read t f (before @ (t, v) # after) = f v"
proof -
  assume "\<forall>b \<in> set after. fst b \<noteq> t"
  then have "filter (\<lambda>a. fst a = t) (before @ (t, v) # after) = filter (\<lambda>a. fst a = t) before @ [(t, v)]"
    by (simp add: filter_empty_conv)
  then show ?thesis by (simp add: last_read_def)
qed

lemma read_attrs_last:
  "read_attrs txn as m x =
     (if filter (\<lambda>a. fst a = ATTR_MAPPED_ADDRESS) as = [] then m
      else last_read ATTR_MAPPED_ADDRESS (\<lambda>v. ok_of (parse_mapped_address v)) as,
      if filter (\<lambda>a. fst a = ATTR_XOR_MAPPED_ADDRESS) as = [] then x
      else last_read ATTR_XOR_MAPPED_ADDRESS (\<lambda>v. ok_of (parse_xor_mapped_address v txn)) as)"
  by (induction as arbitrary: m x) (auto simp: last_read_Cons)

lemma last_read_none: "filter (\<lambda>a. fst a = t) as = [] \<Longrightarrow> last_read t f as = None"
  by (simp add: last_read_def)

lemma read_attrs_None:
  "read_attrs txn as None None =
     (last_read ATTR_MAPPED_ADDRESS (\<lambda>v. ok_of (parse_mapped_address v)) as,
      last_read ATTR_XOR_MAPPED_ADDRESS (\<lambda>v. ok_of (parse_xor_mapped_address v txn)) as)"
  unfolding read_attrs_last by (auto simp: last_read_none)

lemma response_fields:
  assumes "length txn = 12" and "attrs_fit as"
  shows "be16 (binding_response txn as @ junk) 0 = BINDING_RESPONSE"
    and "unat (be16 (binding_response txn as @ junk) 2) = length (concat (map attr_bytes as))"
    and "be32 (binding_response txn as @ junk) 4 = MAGIC_COOKIE"
    and "take 12 (drop 8 (binding_response txn as @ junk)) = txn"
    and "drop 20 (binding_response txn as @ junk) = concat (map attr_bytes as) @ junk"
    and "length (binding_response txn as @ junk) = 20 + length (concat (map attr_bytes as)) + length junk"
proof -
  let ?body = "concat (map attr_bytes as)"
  have whole: "binding_response txn as @ junk =
      put_u16 BINDING_RESPONSE @ put_u16 (of_nat (length ?body)) @ put_u32 MAGIC_COOKIE @ txn @ ?body @ junk"
    by (simp add: binding_response_def Let_def)
  show "be16 (binding_response txn as @ junk) 0 = BINDING_RESPONSE"
    unfolding whole using be16_put[of "[]"] by simp
  have "be16 (binding_response txn as @ junk) 2 = of_nat (length ?body)"
    unfolding whole using be16_put[of "put_u16 BINDING_RESPONSE"] by simp
  then show "unat (be16 (binding_response txn as @ junk) 2) = length ?body"
    using assms(2) by (simp add: attrs_fit_def)
  show "be32 (binding_response txn as @ junk) 4 = MAGIC_COOKIE"
    unfolding whole by (simp add: be32_def put_u16_def put_u32_def u32_of_be_def)
  show "take 12 (drop 8 (binding_response txn as @ junk)) = txn"
    unfolding whole using assms(1) by simp
  show "drop 20 (binding_response txn as @ junk) = ?body @ junk"
    unfolding whole using assms(1) by simp
  show "length (binding_response txn as @ junk) = 20 + length ?body + length junk"
    unfolding whole using assms(1) by simp
qed

definition answered :: "byte list \<Rightarrow> attribute list \<Rightarrow> StunError + SocketAddr" where
  "answered txn as =
     (case or_else (last_read ATTR_XOR_MAPPED_ADDRESS (\<lambda>v. ok_of (parse_xor_mapped_address v txn)) as)
             (last_read ATTR_MAPPED_ADDRESS (\<lambda>v. ok_of (parse_mapped_address v)) as) of
        None \<Rightarrow> Inl NoMappedAddress | Some a \<Rightarrow> Inr a)"

lemma parse_answered:
  assumes "length txn = 12" and "attrs_fit as"
  shows "parse_binding_response (binding_response txn as @ junk) txn = answered txn as"
proof -
  define b where "b = binding_response txn as @ junk"
  note f = response_fields[OF assms, of junk, folded b_def]
  have "walk_attrs (concat (map attr_bytes as)) txn 0 None None = read_attrs txn as None None"
    using walk_read_attrs[OF assms(2), of "[]" txn None None] by simp
  then show ?thesis
    unfolding read_attrs_None b_def[symmetric]
    by (simp add: parse_binding_response_def f Let_def answered_def)
qed

text \<open>
  C29 (equivalence). The byte loop of the response parser is a search in the attribute list.  For a
  binding response with any attributes, of known and unknown types and with their padding, followed by
  any bytes, the parser answers the address in the last XOR-MAPPED-ADDRESS attribute if that is well
  formed, else that in the last MAPPED-ADDRESS attribute if that is well formed, else that there is none.
\<close>

theorem response_parser_is_search:
  assumes "length txn = 12" and "attrs_fit as"
  shows "parse_binding_response (binding_response txn as @ junk) txn =
    (case or_else (last_read ATTR_XOR_MAPPED_ADDRESS (\<lambda>v. ok_of (parse_xor_mapped_address v txn)) as)
            (last_read ATTR_MAPPED_ADDRESS (\<lambda>v. ok_of (parse_mapped_address v)) as) of
       None \<Rightarrow> Inl NoMappedAddress | Some a \<Rightarrow> Inr a)"
  using parse_answered[OF assms] by (simp add: answered_def)

section \<open>Round trips\<close>

text \<open>What a server writes for the address it sees.\<close>

definition octets :: "IpAddr \<Rightarrow> byte list" where
  "octets ip = (case ip of V4 os \<Rightarrow> os | V6 os \<Rightarrow> os)"

definition addr_ok :: "SocketAddr \<Rightarrow> bool" where
  "addr_ok a \<longleftrightarrow> (case sa_ip a of V4 os \<Rightarrow> length os = 4 | V6 os \<Rightarrow> length os = 16)"

definition family :: "IpAddr \<Rightarrow> byte" where
  "family ip = (case ip of V4 _ \<Rightarrow> 1 | V6 _ \<Rightarrow> 2)"

definition mapped_value :: "SocketAddr \<Rightarrow> byte list" where
  "mapped_value a = [0, family (sa_ip a)] @ put_u16 (sa_port a) @ octets (sa_ip a)"

definition xor_value :: "byte list \<Rightarrow> SocketAddr \<Rightarrow> byte list" where
  "xor_value txn a = [0, family (sa_ip a)] @ put_u16 (sa_port a XOR 0x2112) @
     map (\<lambda>(o', k). o' XOR k) (zip (octets (sa_ip a)) (xor_key txn))"

lemma list_4_nth: "length os = 4 \<Longrightarrow> [os ! 0, os ! 1, os ! 2, os ! 3] = os"
  by (cases os; cases "tl os"; cases "tl (tl os)"; cases "tl (tl (tl os))") auto

lemma be16_value: "be16 (x # y # put_u16 w @ r) 2 = w"
  using be16_put[of "[x, y]"] by (simp add: numeral_2_eq_2)

lemma parse_mapped_value: "addr_ok a \<Longrightarrow> parse_mapped_address (mapped_value a) = Inr a"
  using list_4_nth[of "octets (sa_ip a)"]
  by (cases a; cases "sa_ip a")
    (auto simp: parse_mapped_address_def mapped_value_def family_def octets_def addr_ok_def Let_def
      be16_value nth_append put_u16_def be16_def u16_of_be_put)

lemma length_xor_key [simp]: "length txn = 12 \<Longrightarrow> length (xor_key txn) = 16"
  by (simp add: xor_key_def)

lemma port_mask: "(ucast (drop_bit 16 (MAGIC_COOKIE :: u32)) :: u16) = 0x2112"
  by simp

lemma parse_xor_value:
  assumes "addr_ok a" and "length txn = 12"
  shows "parse_xor_mapped_address (xor_value txn a) txn = Inr a"
proof -
  let ?os = "octets (sa_ip a)" and ?key = "xor_key txn"
  let ?v = "xor_value txn a"
  have len: "length ?v = 4 + length ?os"
    using assms by (auto simp: xor_value_def addr_ok_def octets_def split: IpAddr.splits)
  have port: "be16 ?v 2 XOR ucast (drop_bit 16 (MAGIC_COOKIE :: u32)) = sa_port a"
    unfolding port_mask by (simp add: xor_value_def be16_value xor.assoc)
  have fam: "?v ! 1 = family (sa_ip a)" by (simp add: xor_value_def)
  have oct: "?v ! (4 + i) XOR ?key ! i = ?os ! i" if "i < length ?os" for i
  proof -
    have "i < length ?key"
      using that assms by (auto simp: addr_ok_def octets_def split: IpAddr.splits)
    then have "?v ! (4 + i) = ?os ! i XOR ?key ! i"
      using that by (simp add: xor_value_def nth_append put_u16_def)
    then show ?thesis by (simp add: xor.assoc)
  qed
  show ?thesis
  proof (cases "sa_ip a")
    case (V4 os)
    then have "os \<noteq> []" using assms(1) by (auto simp: addr_ok_def)
    with V4 have "[?v ! 4 XOR ?key ! 0, ?v ! 5 XOR ?key ! 1, ?v ! 6 XOR ?key ! 2, ?v ! 7 XOR ?key ! 3] = os"
      using oct[of 0] oct[of 1] oct[of 2] oct[of 3] assms(1) list_4_nth[of os]
      by (simp add: octets_def addr_ok_def)
    then show ?thesis
      using V4 len port fam assms(1)
      by (cases a) (simp add: parse_xor_mapped_address_def Let_def family_def octets_def addr_ok_def)
  next
    case (V6 os)
    then have "map (\<lambda>i. ?v ! (4 + i) XOR ?key ! i) [0..<16] = map ((!) os) [0..<16]"
      using oct assms(1) by (intro map_cong) (simp_all add: octets_def addr_ok_def)
    also have "\<dots> = os" using V6 assms(1) map_nth[of os] by (simp add: addr_ok_def)
    finally show ?thesis
      using V6 len port fam assms(1)
      by (cases a) (simp add: parse_xor_mapped_address_def Let_def family_def octets_def addr_ok_def)
  qed
qed

text \<open>
  Also (roundtrip). A server's view of the client arrives unchanged.  Whatever other attributes stand
  before and after it, an address written into an XOR-MAPPED-ADDRESS attribute that no second one
  follows is what the client reads, for IPv4 and for IPv6.
\<close>

theorem reflexive_address_roundtrip:
  assumes "length txn = 12" and "addr_ok a"
    and "attrs_fit (before @ (ATTR_XOR_MAPPED_ADDRESS, xor_value txn a) # after)"
    and "\<forall>b \<in> set after. fst b \<noteq> ATTR_XOR_MAPPED_ADDRESS"
  shows "parse_binding_response
    (binding_response txn (before @ (ATTR_XOR_MAPPED_ADDRESS, xor_value txn a) # after)) txn = Inr a"
proof -
  have "last_read ATTR_XOR_MAPPED_ADDRESS (\<lambda>v. ok_of (parse_xor_mapped_address v txn))
      (before @ (ATTR_XOR_MAPPED_ADDRESS, xor_value txn a) # after) = Some a"
    by (subst last_read_last[OF assms(4)]) (simp add: parse_xor_value[OF assms(2,1)] ok_of_def)
  then show ?thesis
    using parse_answered[OF assms(1,3), of "[]"] by (simp add: answered_def or_else_def)
qed

text \<open>
  Also (error). The retry trusts anybody.  A datagram that answers the first request is refused when its
  source is not the server; if the first wait ends in silence, the answer to the second request is
  taken from any source, with the address it claims.
\<close>

theorem retry_accepts_any_source:
  assumes "length txn = 12" and "addr_ok a" and "sa_ip liar \<noteq> sa_ip server"
  shows "snd (stun_reflect txn server True
      (Datagram (binding_response txn [(ATTR_XOR_MAPPED_ADDRESS, xor_value txn a)]) liar) s2 r2) = Inl Malformed \<and>
    snd (stun_reflect txn server True Silence True
      (Datagram (binding_response txn [(ATTR_XOR_MAPPED_ADDRESS, xor_value txn a)]) liar)) = Inr a"
proof -
  let ?as = "[(ATTR_XOR_MAPPED_ADDRESS, xor_value txn a)]"
  have n: "length (xor_value txn a) \<le> 20"
    using assms(1,2) by (auto simp: xor_value_def addr_ok_def octets_def split: IpAddr.splits)
  then have fit: "attrs_fit ?as" by (simp add: attrs_fit_def attr_bytes_padded attr_padding_def)
  have "length (binding_response txn ?as) \<le> 576"
    using response_fields(6)[OF assms(1) fit, of "[]"] n by (simp add: attr_bytes_padded attr_padding_def)
  moreover have "parse_binding_response (binding_response txn ?as) txn = Inr a"
    using parse_answered[OF assms(1) fit, of "[]"] parse_xor_value[OF assms(2,1)]
    by (simp add: answered_def last_read_def ok_of_def or_else_def)
  ultimately show ?thesis using assms(3) by (simp add: stun_reflect_def Let_def)
qed

text \<open>Also (error). a malformed attribute after a good one takes the address away.\<close>

lemma bad_attribute_hides_address:
  assumes "length txn = 12" and "addr_ok a"
  shows "parse_binding_response (binding_response txn
    [(ATTR_XOR_MAPPED_ADDRESS, xor_value txn a), (ATTR_XOR_MAPPED_ADDRESS, [])]) txn = Inl NoMappedAddress"
proof -
  have "length (xor_value txn a) \<le> 20"
    using assms by (auto simp: xor_value_def addr_ok_def octets_def split: IpAddr.splits)
  then have "attrs_fit [(ATTR_XOR_MAPPED_ADDRESS, xor_value txn a), (ATTR_XOR_MAPPED_ADDRESS, [])]"
    by (simp add: attrs_fit_def attr_bytes_padded attr_padding_def)
  from parse_answered[OF assms(1) this, of "[]"] show ?thesis
    by (simp add: answered_def last_read_def ok_of_def parse_xor_mapped_address_def or_else_def)
qed

section \<open>Predicting ports\<close>

lemma as_i16_id: "-32768 \<le> d \<Longrightarrow> d < 32768 \<Longrightarrow> as_i16 d = d"
  by (simp add: as_i16_def)

lemma port_delta_mod:
  assumes "d mod 65536 = \<delta> mod 65536" and "\<bar>d\<bar> < 65536" and "\<bar>\<delta>\<bar> < 32768"
  shows "port_delta d = \<delta>"
proof -
  obtain k where k: "d = \<delta> + 65536 * k" using assms(1) by (metis mod_eqE mult.commute)
  then have "k = -1 \<or> k = 0 \<or> k = 1" using assms(2,3) by linarith
  then show ?thesis using k assms(3) by (auto simp: port_delta_def as_i16_id)
qed

text \<open>A NAT that adds \<open>\<delta>\<close> for every new flow: its \<open>k\<close>-th port.\<close>

definition flow_port :: "u16 \<Rightarrow> int \<Rightarrow> nat \<Rightarrow> u16" where
  "flow_port p0 \<delta> k = of_int (int (unat p0) + int k * \<delta>)"

lemma unat_flow_port: "int (unat (flow_port p0 \<delta> k)) = (int (unat p0) + int k * \<delta>) mod 65536"
proof -
  have "uint (of_int z :: u16) = z mod 65536" for z by (simp add: unsigned_of_int take_bit_eq_mod)
  then show ?thesis unfolding flow_port_def by (simp only: uint_nat[symmetric])
qed

lemma flow_delta:
  assumes "\<bar>\<delta>\<bar> < 32768"
  shows "port_delta (int (unat (flow_port p0 \<delta> (Suc k))) - int (unat (flow_port p0 \<delta> k))) = \<delta>"
proof (rule port_delta_mod[OF _ _ assms])
  show "(int (unat (flow_port p0 \<delta> (Suc k))) - int (unat (flow_port p0 \<delta> k))) mod 65536 = \<delta> mod 65536"
    unfolding unat_flow_port by (subst mod_diff_eq) (simp add: algebra_simps)
  have "int (unat w) < 65536" for w :: u16 using unsigned_less[of w, where 'a = int] by simp
  then show "\<bar>int (unat (flow_port p0 \<delta> (Suc k))) - int (unat (flow_port p0 \<delta> k))\<bar> < 65536"
    by (simp only: abs_less_iff) (smt (verit) of_nat_0_le_iff)
qed

lemma flow_deltas:
  assumes "\<bar>\<delta>\<bar> < 32768"
  shows "port_deltas (map (flow_port p0 \<delta>) [0..<Suc n]) = replicate n \<delta>"
proof -
  have "port_deltas (map (flow_port p0 \<delta>) [0..<Suc n]) ! i = \<delta>" if "i < n" for i
    using that flow_delta[OF assms, of p0 i] by (simp add: port_deltas_def nth_tl del: upt_Suc)
  then show ?thesis
    by (intro nth_equalityI) (simp_all add: port_deltas_def del: upt_Suc)
qed

lemma flow_classified:
  assumes "2 \<le> n" and "\<delta> \<noteq> 0" and "\<bar>\<delta>\<bar> < 32768"
  shows "classify_port_allocation shuffle (map (flow_port p0 \<delta>) [0..<Suc n]) = Sequential \<delta>"
proof -
  let ?ps = "map (flow_port p0 \<delta>) [0..<Suc n]"
  have d: "port_deltas ?ps = replicate n \<delta>" by (rule flow_deltas[OF assms(3)])
  have differ: "flow_port p0 \<delta> 1 \<noteq> flow_port p0 \<delta> 0"
  proof
    assume "flow_port p0 \<delta> 1 = flow_port p0 \<delta> 0"
    then have "port_delta 0 = \<delta>" using flow_delta[OF assms(3), of p0 0] by simp
    then show False using assms(2) by (simp add: port_delta_def as_i16_def)
  qed
  have "flow_port p0 \<delta> 1 \<in> set ?ps" using assms(1) by (simp del: upt_Suc)
  moreover have "?ps ! 0 = flow_port p0 \<delta> 0" by (simp del: upt_Suc)
  ultimately have "\<not> (\<forall>p \<in> set ?ps. p = ?ps ! 0)" using differ by metis
  then show ?thesis
    unfolding classify_port_allocation_def d Let_def using assms(1,2)
    by (simp add: as_i16_def del: upt_Suc)
qed

lemma set_predict_ports:
  "set (predict_ports last_port delta offset spread) =
     of_int ` {p. 0 < p \<and> (\<exists>i. \<bar>i\<bar> \<le> int (unat spread) \<and>
       p = (int (unat last_port) + delta * (int (unat offset) + 1 + i)) mod 65536)}"
proof -
  let ?base = "int (unat last_port) + delta * (int (unat offset) + 1)" and ?s = "int (unat spread)"
  have "set (map (\<lambda>i. (?base + i * delta) mod 65536) [- ?s..?s]) =
      {p. \<exists>i. \<bar>i\<bar> \<le> ?s \<and> p = (?base + i * delta) mod 65536}"
    by (auto simp: abs_le_iff)
  moreover have "?base + i * delta = int (unat last_port) + delta * (int (unat offset) + 1 + i)" for i
    by (simp add: algebra_simps)
  moreover have "x mod 65536 \<le> (65535 :: int)" for x
    using pos_mod_bound[of 65536 x] by simp
  ultimately show ?thesis
    by (simp only: predict_ports_def Let_def set_map remdups_adj_set set_sort set_filter)
      (intro arg_cong[where f = "image of_int"], auto)
qed

text \<open>
  Also (functional). A sequential NAT is found out and predicted.  Probed at least three times in a row, a
  NAT that moves its port by a fixed nonzero step below \<open>2 ^ 15\<close> for every new flow, with wrap-around
  at \<open>2 ^ 16\<close>, is classified as sequential with exactly that step, whatever order the hash map has; and
  if up to \<open>spread\<close> flows more or fewer than the expected \<open>offset\<close> have come between, its next port,
  unless it is 0, is among the predicted ones.
\<close>

theorem sequential_nat_is_predicted:
  assumes "2 \<le> n" and "\<delta> \<noteq> 0" and "\<bar>\<delta>\<bar> < 32768"
    and "\<bar>int flows - int (unat offset)\<bar> \<le> int (unat spread)" and "flow_port p0 \<delta> (n + 1 + flows) \<noteq> 0"
  shows "let ports = map (flow_port p0 \<delta>) [0..<Suc n] in
    classify_port_allocation shuffle ports = Sequential \<delta> \<and>
    flow_port p0 \<delta> (n + 1 + flows) \<in> set (predict_ports (last ports) \<delta> offset spread)"
proof -
  let ?q = "flow_port p0 \<delta> (n + 1 + flows)" and ?i = "int flows - int (unat offset)"
  have last: "last (map (flow_port p0 \<delta>) [0..<Suc n]) = flow_port p0 \<delta> n" by (simp add: last_map)
  have q: "int (unat ?q) = (int (unat (flow_port p0 \<delta> n)) + \<delta> * (int (unat offset) + 1 + ?i)) mod 65536"
    unfolding unat_flow_port by (subst mod_add_left_eq) (simp add: algebra_simps)
  have "unat ?q \<noteq> 0" using assms(5) unat_eq_0 by blast
  then have "0 < int (unat ?q)" by linarith
  then have "of_int (int (unat ?q)) \<in> set (predict_ports (flow_port p0 \<delta> n) \<delta> offset spread)"
    unfolding set_predict_ports using q assms(4) by blast
  then show ?thesis using flow_classified[OF assms(1-3)] last by (simp add: Let_def)
qed

section \<open>Hash order\<close>

lemma max_by_count_greatest:
  "max_by_count xs = Some y \<Longrightarrow> y \<in> set xs \<and> (\<forall>z \<in> set xs. snd z \<le> snd y)"
proof (induction xs arbitrary: y)
  case (Cons x xs)
  show ?case
  proof (cases "max_by_count xs")
    case None
    then show ?thesis using Cons.prems by (cases xs) (auto split: option.splits if_splits)
  next
    case (Some z)
    then show ?thesis using Cons.prems Cons.IH[OF Some] by (auto split: if_splits)
  qed
qed simp

lemma max_by_count_None: "max_by_count xs = None \<longleftrightarrow> xs = []"
  by (cases xs) (auto split: option.splits)

lemma two_counts:
  assumes "d \<noteq> e"
  shows "count_list ds d + count_list ds e \<le> length ds"
  using assms by (induction ds) auto

lemma majority_unique:
  assumes "(d, m) \<in> set (delta_counts ds)" and "(e, m) \<in> set (delta_counts ds)"
    and "(3 * length ds + 4) div 5 \<le> m"
  shows "d = e"
proof (rule ccontr)
  assume "d \<noteq> e"
  have m: "m = count_list ds d" "m = count_list ds e" "d \<in> set ds"
    using assms(1,2) by (auto simp: delta_counts_def)
  then have "2 * m \<le> length ds" using two_counts[OF \<open>d \<noteq> e\<close>, of ds] by simp
  moreover have "0 < length ds" using m(3) by (cases ds) auto
  ultimately show False using assms(3) by linarith
qed

text \<open>
  Also (equivalence). The classification does not depend on the hash map.  The most common step is taken
  from a map whose iteration order is arbitrary, and ties go to the last; but a step that reaches the
  threshold is the only one that does, so every order gives the same class.
\<close>

theorem classification_ignores_hash_order:
  assumes "\<And>l. mset (shuffle l) = mset l"
  shows "classify_port_allocation shuffle ports = classify_port_allocation (\<lambda>l. l) ports"
proof -
  let ?ds = "port_deltas ports"
  have sets: "set (shuffle (delta_counts ?ds)) = set (delta_counts ?ds)"
    using assms mset_eq_setD by blast
  have "(case max_by_count (shuffle (delta_counts ?ds)) of None \<Rightarrow> RandomPorts
      | Some (common, n) \<Rightarrow> if (3 * length ?ds + 4) div 5 \<le> n \<and> common \<noteq> 0 then Sequential common else RandomPorts) =
    (case max_by_count (delta_counts ?ds) of None \<Rightarrow> RandomPorts
      | Some (common, n) \<Rightarrow> if (3 * length ?ds + 4) div 5 \<le> n \<and> common \<noteq> 0 then Sequential common else RandomPorts)"
  proof (cases "max_by_count (delta_counts ?ds)")
    case None
    then show ?thesis using sets by (simp add: max_by_count_None)
  next
    case (Some y)
    then obtain x where x: "max_by_count (shuffle (delta_counts ?ds)) = Some x"
      using sets by (metis max_by_count_None not_None_eq set_empty)
    have "x \<in> set (delta_counts ?ds)" "y \<in> set (delta_counts ?ds)" "snd x = snd y"
      using max_by_count_greatest[OF x] max_by_count_greatest[OF Some] sets by (auto intro: le_antisym)
    then have "x = y \<or> \<not> (3 * length ?ds + 4) div 5 \<le> snd x"
      using majority_unique[of "fst x" "snd x" ?ds "fst y"] by (metis prod.collapse)
    then show ?thesis using x Some \<open>snd x = snd y\<close> by (auto split: prod.split)
  qed
  then show ?thesis by (simp only: classify_port_allocation_def Let_def)
qed

text \<open>
  Also (functional). with jitter of one port the first step is taken, although most steps are another.
\<close>

lemma jitter_takes_first_delta:
  "classify_port_allocation shuffle [100, 101, 103, 105, 107, 109] = Sequential 1"
  by (simp add: classify_port_allocation_def port_deltas_def port_delta_def as_i16_def)

section \<open>Examples\<close>

definition demo_txn :: "byte list" where
  "demo_txn = [1, 2, 3, 4, 5, 6, 7, 8, 9, 10, 11, 12]"

definition demo_addr :: SocketAddr where
  "demo_addr = \<lparr>sa_ip = V4 [203, 0, 113, 7], sa_port = 40000\<rparr>"

definition demo_addr6 :: SocketAddr where
  "demo_addr6 = \<lparr>sa_ip = V6 (replicate 16 0xFE), sa_port = 4433\<rparr>"

theorem response_parser_is_search_witness:
  "parse_binding_response (binding_response demo_txn
      [(0x8022, [115, 116, 117]), (1, mapped_value demo_addr), (0x20, [])] @ [9, 9]) demo_txn = Inr demo_addr"
proof -
  have "addr_ok demo_addr" by (simp add: addr_ok_def demo_addr_def)
  from parse_mapped_value[OF this]
  show ?thesis
    by (subst response_parser_is_search)
      (simp_all add: demo_txn_def attrs_fit_def attr_bytes_padded attr_padding_def mapped_value_def
        demo_addr_def octets_def last_read_def ok_of_def or_else_def parse_xor_mapped_address_def)
qed

theorem reflexive_address_roundtrip_witness:
  "parse_binding_response (binding_response demo_txn
      ([(0x8022, [115, 116, 117])] @ (0x20, xor_value demo_txn demo_addr6) # [(1, [])])) demo_txn = Inr demo_addr6"
  by (rule reflexive_address_roundtrip)
    (simp_all add: demo_txn_def demo_addr6_def addr_ok_def attrs_fit_def attr_bytes_padded attr_padding_def
      xor_value_def octets_def xor_key_def)

theorem retry_accepts_any_source_witness:
  "snd (stun_reflect demo_txn demo_addr True Silence True
     (Datagram (binding_response demo_txn [(0x20, xor_value demo_txn demo_addr6)]) demo_addr6)) = Inr demo_addr6"
  using retry_accepts_any_source[of demo_txn demo_addr6 demo_addr6 demo_addr False RecvError]
  by (simp add: demo_txn_def demo_addr6_def demo_addr_def addr_ok_def)

theorem sequential_nat_is_predicted_witness:
  "let ports = map (flow_port 65530 5) [0..<Suc 2] in
    classify_port_allocation rev ports = Sequential 5 \<and>
    flow_port 65530 5 (2 + 1 + 1) \<in> set (predict_ports (last ports) 5 0 2)"
  by (rule sequential_nat_is_predicted) (simp_all add: flow_port_def)

theorem classification_ignores_hash_order_witness:
  "classify_port_allocation rev [1, 2, 3, 10, 11] = classify_port_allocation (\<lambda>l. l) [1, 2, 3, 10, 11]"
  by (rule classification_ignores_hash_order) simp

end
