(* ===== verification/Candidates.thy ===== *)
theory Candidates
  imports Stun
begin

text \<open>
  How a client finds and uses addresses for a direct call: the classification of its NAT and its host
  candidates (\<open>crates/wzp-client/src/reflect.rs\<close>), the exchange of candidates with generations
  (\<open>ice_agent.rs\<close>), the order in which a peer's candidates are dialled and the race of the direct path
  against the relay (\<open>dual_path.rs\<close>), the targets of the birthday attack (\<open>birthday.rs\<close>) and the map of
  relays by round-trip time (\<open>relay_map.rs\<close>).  Reading and printing of socket addresses, the interface
  table, random numbers and the clock are arguments; the race is modelled by the times, in milliseconds
  from its start, at which its parts would finish.
\<close>

section \<open>Kinds of addresses\<close>

definition v4_private :: "byte list \<Rightarrow> bool" where
  "v4_private o4 \<longleftrightarrow> o4 ! 0 = 10 \<or> (o4 ! 0 = 172 \<and> o4 ! 1 AND 0xF0 = 16) \<or> (o4 ! 0 = 192 \<and> o4 ! 1 = 168)"

definition v4_loopback :: "byte list \<Rightarrow> bool" where
  "v4_loopback o4 \<longleftrightarrow> o4 ! 0 = 127"

definition v4_link_local :: "byte list \<Rightarrow> bool" where
  "v4_link_local o4 \<longleftrightarrow> o4 ! 0 = 169 \<and> o4 ! 1 = 254"

definition v4_cgnat :: "byte list \<Rightarrow> bool" where
  "v4_cgnat o4 \<longleftrightarrow> o4 ! 0 = 100 \<and> o4 ! 1 AND 0xC0 = 0x40"

definition v6_segment :: "byte list \<Rightarrow> u16" where
  "v6_segment o6 = u16_of_be (o6 ! 0) (o6 ! 1)"

definition v6_loopback :: "byte list \<Rightarrow> bool" where
  "v6_loopback o6 \<longleftrightarrow> o6 = replicate 15 0 @ [1]"

definition v6_unspecified :: "byte list \<Rightarrow> bool" where
  "v6_unspecified o6 \<longleftrightarrow> o6 = replicate 16 0"

definition v6_link_local :: "byte list \<Rightarrow> bool" where
  "v6_link_local o6 \<longleftrightarrow> v6_segment o6 AND 0xFFC0 = 0xFE80"

definition is_private_or_loopback :: "SocketAddr \<Rightarrow> bool" where
  "is_private_or_loopback a =
     (case sa_ip a of
        V4 o4 \<Rightarrow> v4_loopback o4 \<or> v4_private o4 \<or> v4_link_local o4 \<or> v4_cgnat o4
      | V6 o6 \<Rightarrow> v6_loopback o6 \<or> v6_unspecified o6 \<or> v6_link_local o6)"

definition is_ipv6 :: "SocketAddr \<Rightarrow> bool" where
  "is_ipv6 a = (case sa_ip a of V4 _ \<Rightarrow> False | V6 _ \<Rightarrow> True)"

section \<open>The type of the NAT\<close>

record NatProbeResult =
  relay_name :: string
  probed_addr :: string
  observed_addr :: "string option"
  latency_ms :: "u32 option"
  probe_error :: "string option"

datatype NatType = Cone | SymmetricPort | Multiple | UnknownNat

record NatDetection =
  probes :: "NatProbeResult list"
  nat_type :: NatType
  consensus_addr :: "string option"

definition public_observations :: "(string \<Rightarrow> SocketAddr option) \<Rightarrow> NatProbeResult list \<Rightarrow> SocketAddr list" where
  "public_observations parse ps =
     filter (\<lambda>a. \<not> is_private_or_loopback a)
       (List.map_filter (\<lambda>p. case observed_addr p of None \<Rightarrow> None | Some s \<Rightarrow> parse s) ps)"

definition classify_nat ::
  "(string \<Rightarrow> SocketAddr option) \<Rightarrow> (SocketAddr \<Rightarrow> string) \<Rightarrow> NatProbeResult list \<Rightarrow> NatType \<times> string option" where
  "classify_nat parse show_addr ps =
     (let successes = public_observations parse ps in
      if length successes < 2 then (UnknownNat, None)
      else
        let first = hd successes in
        if \<not> (\<forall>a \<in> set successes. sa_ip a = sa_ip first) then (Multiple, None)
        else if \<forall>a \<in> set successes. sa_port a = sa_port first then (Cone, Some (show_addr first))
        else (SymmetricPort, None))"

text \<open>The probes in the order they finish; \<open>None\<close> is a task that panicked.\<close>

definition probe_result ::
  "(SocketAddr \<Rightarrow> string) \<Rightarrow> (string \<times> SocketAddr \<times> (string + SocketAddr \<times> u32)) option \<Rightarrow> NatProbeResult" where
  "probe_result show_addr r =
     (case r of
        None \<Rightarrow> \<lparr>relay_name = ''<panicked>'', probed_addr = ''unknown'', observed_addr = None,
                 latency_ms = None, probe_error = Some ''probe task panicked''\<rparr>
      | Some (name, addr, Inr (seen, ms)) \<Rightarrow>
          \<lparr>relay_name = name, probed_addr = show_addr addr, observed_addr = Some (show_addr seen),
           latency_ms = Some ms, probe_error = None\<rparr>
      | Some (name, addr, Inl e) \<Rightarrow>
          \<lparr>relay_name = name, probed_addr = show_addr addr, observed_addr = None,
           latency_ms = None, probe_error = Some e\<rparr>)"

definition detect_nat_type ::
  "(string \<Rightarrow> SocketAddr option) \<Rightarrow> (SocketAddr \<Rightarrow> string) \<Rightarrow>
   (string \<times> SocketAddr \<times> (string + SocketAddr \<times> u32)) option list \<Rightarrow> NatDetection" where
  "detect_nat_type parse show_addr outcomes =
     (let ps = map (probe_result show_addr) outcomes; (t, c) = classify_nat parse show_addr ps in
      \<lparr>probes = ps, nat_type = t, consensus_addr = c\<rparr>)"

definition detect_nat_type_with_stun ::
  "(string \<Rightarrow> SocketAddr option) \<Rightarrow> (SocketAddr \<Rightarrow> string) \<Rightarrow>
   (string \<times> SocketAddr \<times> (string + SocketAddr \<times> u32)) option list \<Rightarrow> NatProbeResult list \<Rightarrow> NatDetection" where
  "detect_nat_type_with_stun parse show_addr outcomes stun_probes =
     (let ps = probes (detect_nat_type parse show_addr outcomes) @ stun_probes;
          (t, c) = classify_nat parse show_addr ps in
      \<lparr>probes = ps, nat_type = t, consensus_addr = c\<rparr>)"

section \<open>Host candidates\<close>

text \<open>The interface table: loopback flag and address of each entry, or a failed call.\<close>

definition host_candidate :: "u16 \<Rightarrow> u16 option \<Rightarrow> bool \<times> IpAddr \<Rightarrow> SocketAddr option" where
  "host_candidate v4_port v6_port iface =
     (if fst iface then None
      else (case snd iface of
          V4 o4 \<Rightarrow>
            if v4_link_local o4 then None
            else if v4_private o4 then Some \<lparr>sa_ip = V4 o4, sa_port = v4_port\<rparr>
            else if v4_cgnat o4 then Some \<lparr>sa_ip = V4 o4, sa_port = v4_port\<rparr>
            else None
        | V6 o6 \<Rightarrow>
            (case v6_port of
               None \<Rightarrow> None
             | Some port \<Rightarrow>
                 if v6_loopback o6 \<or> v6_unspecified o6 then None
                 else if v6_link_local o6 then None
                 else if v6_segment o6 AND 0xE000 = 0x2000 \<or> v6_segment o6 AND 0xFE00 = 0xFC00
                 then Some \<lparr>sa_ip = V6 o6, sa_port = port\<rparr>
                 else None)))"

definition local_host_candidates ::
  "(bool \<times> IpAddr) list option \<Rightarrow> u16 \<Rightarrow> u16 option \<Rightarrow> SocketAddr list" where
  "local_host_candidates ifaces v4_port v6_port =
     (case ifaces of None \<Rightarrow> [] | Some is \<Rightarrow> List.map_filter (host_candidate v4_port v6_port) is)"

section \<open>Roles\<close>

datatype Role = Acceptor | Dialer

text \<open>Rust compares strings by their bytes.\<close>

fun str_less :: "string \<Rightarrow> string \<Rightarrow> bool" where
  "str_less [] [] = False"
| "str_less [] (b # bs) = True"
| "str_less (a # as) [] = False"
| "str_less (a # as) (b # bs) =
     (let m = of_char a :: nat; n = of_char b in m < n \<or> (m = n \<and> str_less as bs))"

definition determine_role :: "string option \<Rightarrow> string option \<Rightarrow> Role option" where
  "determine_role own peer =
     (case (own, peer) of
        (Some a, Some b) \<Rightarrow>
          if str_less a b then Some Acceptor else if a = b then None else Some Dialer
      | _ \<Rightarrow> None)"

section \<open>Dialling the candidates of the peer\<close>

record PeerCandidates =
  pc_reflexive :: "SocketAddr option"
  pc_local :: "SocketAddr list"
  pc_mapped :: "SocketAddr option"

definition push_new :: "SocketAddr option \<Rightarrow> SocketAddr list \<Rightarrow> SocketAddr list" where
  "push_new a out = (case a of None \<Rightarrow> out | Some a \<Rightarrow> if a \<in> set out then out else out @ [a])"

definition dial_order :: "PeerCandidates \<Rightarrow> SocketAddr list" where
  "dial_order c = push_new (pc_reflexive c) (push_new (pc_mapped c) (pc_local c))"

definition drop_ipv6 :: "SocketAddr option \<Rightarrow> SocketAddr option" where
  "drop_ipv6 a = (case a of None \<Rightarrow> None | Some a \<Rightarrow> if is_ipv6 a then None else Some a)"

definition same_network :: "PeerCandidates \<Rightarrow> SocketAddr option \<Rightarrow> bool" where
  "same_network c own =
     (case (own, pc_reflexive c) of (Some a, Some b) \<Rightarrow> sa_ip a = sa_ip b | _ \<Rightarrow> False)"

definition smart_dial_order :: "PeerCandidates \<Rightarrow> SocketAddr option \<Rightarrow> SocketAddr list" where
  "smart_dial_order c own =
     (let out = (if same_network c own then filter (\<lambda>a. \<not> is_ipv6 a) (pc_local c) else []) in
      push_new (drop_ipv6 (pc_reflexive c)) (push_new (drop_ipv6 (pc_mapped c)) out))"

definition candidates_empty :: "PeerCandidates \<Rightarrow> bool" where
  "candidates_empty c \<longleftrightarrow> pc_reflexive c = None \<and> pc_local c = [] \<and> pc_mapped c = None"

text \<open>
  The direct path of the dialler: the attempts in the order they finish, each with its time and whether
  it connected; with nothing to dial it stays pending.  The acceptor takes connections one by one; three
  stale ones end its loop.
\<close>

datatype path_end = Connected nat | Failed nat | Pending

fun dial_first :: "nat option \<Rightarrow> (nat \<times> bool) list \<Rightarrow> path_end" where
  "dial_first last_time [] = (case last_time of None \<Rightarrow> Pending | Some t \<Rightarrow> Failed t)"
| "dial_first last_time ((t, ok) # rest) = (if ok then Connected t else dial_first (Some t) rest)"

definition dial_direct :: "PeerCandidates \<Rightarrow> SocketAddr option \<Rightarrow> (nat \<times> bool) list \<Rightarrow> path_end" where
  "dial_direct c own attempts =
     (if smart_dial_order c own = [] then Pending
      else dial_first None (take (length (smart_dial_order c own)) attempts))"

datatype incoming = AcceptError | Stale | Live

fun accept_direct :: "nat \<Rightarrow> (nat \<times> incoming) list \<Rightarrow> path_end" where
  "accept_direct stale [] = Pending"
| "accept_direct stale ((t, i) # rest) =
     (case i of
        AcceptError \<Rightarrow> Failed t
      | Live \<Rightarrow> Connected t
      | Stale \<Rightarrow> if 3 \<le> stale + 1 then Failed t else accept_direct (stale + 1) rest)"

section \<open>The race\<close>

datatype WinningPath = Direct | ViaRelay

record RaceResult =
  direct_transport :: bool
  relay_transport :: bool
  local_winner :: WinningPath

abbreviation (input) DIRECT_HEAD_START :: nat where "DIRECT_HEAD_START \<equiv> 500"
abbreviation (input) GRACE :: nat where "GRACE \<equiv> 1000"

text \<open>When a task with a time limit ends, and whether it has a transport then.\<close>

definition limited :: "nat \<Rightarrow> path_end \<Rightarrow> nat \<times> bool" where
  "limited limit p =
     (case p of
        Connected t \<Rightarrow> if t \<le> limit then (t, True) else (limit, False)
      | Failed t \<Rightarrow> if t \<le> limit then (t, False) else (limit, False)
      | Pending \<Rightarrow> (limit, False))"

definition delayed :: "nat \<Rightarrow> path_end \<Rightarrow> path_end" where
  "delayed d p = (case p of Connected t \<Rightarrow> Connected (d + t) | Failed t \<Rightarrow> Failed (d + t) | Pending \<Rightarrow> Pending)"

definition direct_task :: "path_end \<Rightarrow> nat \<times> bool" where
  "direct_task p = limited 4000 p"

text \<open>The relay task sleeps, then runs, with five seconds, a future that sleeps again before it dials.\<close>

definition relay_task :: "path_end \<Rightarrow> nat \<times> bool" where
  "relay_task p = apfst ((+) 500) (limited 5000 (delayed DIRECT_HEAD_START p))"

definition in_grace :: "nat \<Rightarrow> nat \<times> bool \<Rightarrow> bool" where
  "in_grace start r \<longleftrightarrow> fst r \<le> start + GRACE \<and> snd r"

definition race :: "path_end \<Rightarrow> path_end \<Rightarrow> RaceResult option" where
  "race direct relay =
     (let d = direct_task direct; r = relay_task relay;
          (direct_ok, relay_ok, winner) =
            (if fst d \<le> fst r
             then (snd d, in_grace (fst d) r, if snd d then Direct else ViaRelay)
             else (in_grace (fst r) d, snd r, if snd r then ViaRelay else Direct)) in
      if \<not> direct_ok \<and> \<not> relay_ok then None
      else Some \<lparr>direct_transport = direct_ok, relay_transport = relay_ok, local_winner = winner\<rparr>)"

section \<open>Candidate updates\<close>

record CandidateSet =
  cs_reflexive :: "SocketAddr option"
  cs_local :: "SocketAddr list"
  cs_mapped :: "SocketAddr option"
  cs_generation :: u32

record IceAgent =
  ia_call_id :: string
  ia_generation :: u32
  ia_peer_generation :: u32

definition ice_new :: "string \<Rightarrow> IceAgent" where
  "ice_new cid = \<lparr>ia_call_id = cid, ia_generation = 0, ia_peer_generation = 0\<rparr>"

text \<open>What STUN, the port mapper and the interfaces answer within the gathering time.\<close>

definition gather ::
  "SocketAddr option \<Rightarrow> SocketAddr list \<Rightarrow> SocketAddr option \<Rightarrow> IceAgent \<Rightarrow> CandidateSet \<times> IceAgent" where
  "gather reflexive hosts mapped ag =
     (\<lparr>cs_reflexive = reflexive, cs_local = hosts, cs_mapped = mapped, cs_generation = ia_generation ag\<rparr>,
      ag\<lparr>ia_generation := ia_generation ag + 1\<rparr>)"

record CandidateUpdate =
  cu_call_id :: string
  cu_reflexive :: "string option"
  cu_local :: "string list"
  cu_mapped :: "string option"
  cu_generation :: u32

definition re_gather ::
  "(SocketAddr \<Rightarrow> string) \<Rightarrow> SocketAddr option \<Rightarrow> SocketAddr list \<Rightarrow> SocketAddr option \<Rightarrow> IceAgent \<Rightarrow>
   (CandidateSet \<times> CandidateUpdate) \<times> IceAgent" where
  "re_gather show_addr reflexive hosts mapped ag =
     (let (c, ag') = gather reflexive hosts mapped ag in
      ((c, \<lparr>cu_call_id = ia_call_id ag, cu_reflexive = map_option show_addr (cs_reflexive c),
            cu_local = map show_addr (cs_local c), cu_mapped = map_option show_addr (cs_mapped c),
            cu_generation = cs_generation c\<rparr>), ag'))"

definition apply_peer_update ::
  "(string \<Rightarrow> SocketAddr option) \<Rightarrow> CandidateUpdate option \<Rightarrow> IceAgent \<Rightarrow> PeerCandidates option \<times> IceAgent" where
  "apply_peer_update parse update ag =
     (case update of
        None \<Rightarrow> (None, ag)
      | Some u \<Rightarrow>
          let prev = ia_peer_generation ag;
              ag = ag\<lparr>ia_peer_generation := max prev (cu_generation u)\<rparr> in
          if cu_generation u \<le> prev then (None, ag)
          else (Some \<lparr>pc_reflexive = Option.bind (cu_reflexive u) parse,
                      pc_local = List.map_filter parse (cu_local u),
                      pc_mapped = Option.bind (cu_mapped u) parse\<rparr>, ag))"

section \<open>Birthday attack\<close>

text \<open>The random ports are an argument, one per draw.\<close>

fun fill_targets :: "IpAddr \<Rightarrow> u16 list \<Rightarrow> SocketAddr list \<Rightarrow> SocketAddr list" where
  "fill_targets ip [] targets = targets"
| "fill_targets ip (p # ps) targets =
     (let a = \<lparr>sa_ip = ip, sa_port = p\<rparr> in
      fill_targets ip ps (if a \<in> set targets then targets else targets @ [a]))"

definition generate_dialer_targets :: "IpAddr \<Rightarrow> u16 list \<Rightarrow> u16 \<Rightarrow> (nat \<Rightarrow> u16) \<Rightarrow> SocketAddr list" where
  "generate_dialer_targets ip known total_probes draw =
     (let targets = map (\<lambda>p. \<lparr>sa_ip = ip, sa_port = p\<rparr>) known;
          remaining = unat total_probes - unat (of_nat (length known) :: u16) in
      fill_targets ip (map draw [0..<remaining]) targets)"

section \<open>The relay map\<close>

record RelayEntry =
  re_name :: string
  re_addr :: SocketAddr
  re_region :: "string option"
  re_rtt_ms :: "u32 option"
  re_last_probed :: "nat option"
  re_reachable :: bool

text \<open>\<open>iter_mut().find\<close>: the first entry of an address.\<close>

fun adjust_entry :: "SocketAddr \<Rightarrow> (RelayEntry \<Rightarrow> RelayEntry) \<Rightarrow> RelayEntry list \<Rightarrow> RelayEntry list" where
  "adjust_entry a f [] = []"
| "adjust_entry a f (e # es) = (if re_addr e = a then f e # es else e # adjust_entry a f es)"

definition rtt_key :: "RelayEntry \<Rightarrow> u32" where
  "rtt_key e =
     (if re_reachable e then (case re_rtt_ms e of None \<Rightarrow> 0xFFFFFFFF | Some r \<Rightarrow> r) else 0xFFFFFFFF)"

definition upsert :: "string \<Rightarrow> SocketAddr \<Rightarrow> string option \<Rightarrow> RelayEntry list \<Rightarrow> RelayEntry list" where
  "upsert name a region es =
     (if a \<in> re_addr ` set es
      then adjust_entry a (\<lambda>e. (if region \<noteq> None then e\<lparr>re_region := region\<rparr> else e)\<lparr>re_name := name\<rparr>) es
      else es @ [\<lparr>re_name = name, re_addr = a, re_region = region, re_rtt_ms = None,
                  re_last_probed = None, re_reachable = False\<rparr>])"

definition update_rtt :: "nat \<Rightarrow> SocketAddr \<Rightarrow> u32 \<Rightarrow> RelayEntry list \<Rightarrow> RelayEntry list" where
  "update_rtt now a rtt es =
     sort_key rtt_key (adjust_entry a
       (\<lambda>e. e\<lparr>re_rtt_ms := Some rtt, re_last_probed := Some now, re_reachable := True\<rparr>) es)"

definition mark_unreachable :: "nat \<Rightarrow> SocketAddr \<Rightarrow> RelayEntry list \<Rightarrow> RelayEntry list" where
  "mark_unreachable now a es =
     sort_key rtt_key (adjust_entry a (\<lambda>e. e\<lparr>re_reachable := False, re_last_probed := Some now\<rparr>) es)"

definition preferred :: "RelayEntry list \<Rightarrow> RelayEntry option" where
  "preferred es = List.find (\<lambda>e. re_reachable e \<and> re_rtt_ms e \<noteq> None) es"

text \<open>\<open>split_once('|')\<close>.\<close>

fun split_bar :: "string \<Rightarrow> (string \<times> string) option" where
  "split_bar [] = None"
| "split_bar (c # cs) = (if c = CHR ''|'' then Some ([], cs) else map_option (apfst ((#) c)) (split_bar cs))"

fun populate_from_ack ::
  "(string \<Rightarrow> SocketAddr option) \<Rightarrow> string list \<Rightarrow> RelayEntry list \<Rightarrow> RelayEntry list" where
  "populate_from_ack parse [] es = es"
| "populate_from_ack parse (s # ss) es =
     populate_from_ack parse ss
       (case split_bar s of
          None \<Rightarrow> es
        | Some (name, a) \<Rightarrow> (case parse a of None \<Rightarrow> es | Some a \<Rightarrow> upsert name a None es))"

definition is_stale :: "nat \<Rightarrow> nat \<Rightarrow> RelayEntry \<Rightarrow> bool" where
  "is_stale now max_age e = (case re_last_probed e of None \<Rightarrow> True | Some t \<Rightarrow> max_age < now - t)"

definition needs_reprobe :: "nat \<Rightarrow> nat \<Rightarrow> RelayEntry list \<Rightarrow> bool" where
  "needs_reprobe now max_age es = (\<exists>e \<in> set es. is_stale now max_age e)"

definition stale_entries :: "nat \<Rightarrow> nat \<Rightarrow> RelayEntry list \<Rightarrow> (string \<times> SocketAddr) list" where
  "stale_entries now max_age es = map (\<lambda>e. (re_name e, re_addr e)) (filter (is_stale now max_age) es)"

section \<open>The NAT type is a property of the public observations\<close>

lemma observations_mset:
  "mset ps = mset qs \<Longrightarrow> mset (public_observations parse ps) = mset (public_observations parse qs)"
  by (simp add: public_observations_def List.map_filter_def)

definition nat_class :: "SocketAddr multiset \<Rightarrow> NatType" where
  "nat_class obs =
     (if size obs < 2 then UnknownNat
      else if \<exists>a \<in># obs. \<exists>b \<in># obs. sa_ip a \<noteq> sa_ip b then Multiple
      else if \<exists>a \<in># obs. \<exists>b \<in># obs. sa_port a \<noteq> sa_port b then SymmetricPort
      else Cone)"

lemma all_equal_hd: "xs \<noteq> [] \<Longrightarrow> (\<forall>a \<in> set xs. f a = f (hd xs)) \<longleftrightarrow> \<not> (\<exists>a \<in> set xs. \<exists>b \<in> set xs. f a \<noteq> f b)"
  by (metis hd_in_set)

text \<open>
  Also (equivalence). What the NAT is called depends on the public observations alone.  The probes may
  come in any order, and failed ones and those answered from the client's own network count for nothing:
  with fewer than two public observations the type is unknown, with two different addresses it is
  multiple, with two different ports symmetric, and only if all agree it is a cone, whose consensus is
  the one address that every public probe saw.
\<close>

theorem nat_type_is_order_free:
  "fst (classify_nat parse show_addr ps) = nat_class (mset (public_observations parse ps)) \<and>
   (\<forall>s. snd (classify_nat parse show_addr ps) = Some s \<longrightarrow>
     fst (classify_nat parse show_addr ps) = Cone \<and>
     (\<forall>a \<in> set (public_observations parse ps). show_addr a = s))"
proof -
  let ?obs = "public_observations parse ps"
  show ?thesis
  proof (cases "length ?obs < 2")
    case False
    then have ne: "?obs \<noteq> []" by auto
    define ip where "ip = (\<forall>a \<in> set ?obs. sa_ip a = sa_ip (hd ?obs))"
    define port where "port = (\<forall>a \<in> set ?obs. sa_port a = sa_port (hd ?obs))"
    have parts: "(\<exists>a \<in># mset ?obs. \<exists>b \<in># mset ?obs. sa_ip a \<noteq> sa_ip b) = (\<not> ip)"
      "(\<exists>a \<in># mset ?obs. \<exists>b \<in># mset ?obs. sa_port a \<noteq> sa_port b) = (\<not> port)"
      unfolding ip_def port_def set_mset_mset all_equal_hd[OF ne] by blast+
    have one: "a = hd ?obs" if "ip" "port" "a \<in> set ?obs" for a
      using that by (intro SocketAddr.equality) (simp_all add: ip_def port_def)
    have class': "nat_class (mset ?obs) = (if \<not> ip then Multiple else if \<not> port then SymmetricPort else Cone)"
      unfolding nat_class_def parts using False by simp
    have eq: "classify_nat parse show_addr ps =
        (if \<not> ip then (Multiple, None)
         else if port then (Cone, Some (show_addr (hd ?obs))) else (SymmetricPort, None))"
      unfolding classify_nat_def Let_def ip_def port_def using False by simp
    show ?thesis unfolding class' eq using one by (cases ip; cases port) auto
  qed (simp add: classify_nat_def nat_class_def)
qed

text \<open>Also (safety). an advertised IPv4 host candidate is never a public, loopback or link-local address.\<close>

lemma host_candidates_are_local:
  "a \<in> set (local_host_candidates ifaces v4_port v6_port) \<Longrightarrow> sa_ip a = V4 o4 \<Longrightarrow>
     is_private_or_loopback a \<and> \<not> v4_link_local o4 \<and> sa_port a = v4_port"
  by (auto simp: local_host_candidates_def List.map_filter_def host_candidate_def
      is_private_or_loopback_def split: option.splits IpAddr.splits if_splits)

section \<open>Roles and orders\<close>

lemma str_less_irrefl [simp]: "\<not> str_less a a"
  by (induction a) auto

lemma str_less_asym: "str_less a b \<Longrightarrow> \<not> str_less b a"
  by (induction a b rule: str_less.induct) (auto simp: Let_def)

lemma str_less_total: "a \<noteq> b \<Longrightarrow> str_less a b \<or> str_less b a"
proof (induction a b rule: str_less.induct)
  case (4 a as b bs)
  then show ?case
    by (cases "of_char a < (of_char b :: nat)"; cases "of_char b < (of_char a :: nat)") (auto simp: Let_def)
qed auto

text \<open>
  Also (functional). The two ends choose opposite roles.  Without a message between them, of two peers
  with different reflexive addresses exactly one becomes the acceptor and the other the dialler; with
  equal addresses, or when either is missing, neither attempts a direct path.
\<close>

theorem roles_are_opposite:
  "(determine_role own peer = Some Acceptor \<longleftrightarrow> determine_role peer own = Some Dialer) \<and>
   (determine_role own peer = None \<longleftrightarrow> own = None \<or> peer = None \<or> own = peer)"
  using str_less_asym str_less_total by (cases own; cases peer) (auto simp: determine_role_def)

lemma set_push_new [simp]: "set (push_new a out) = set_option a \<union> set out"
  by (auto simp: push_new_def split: option.split)

lemma distinct_push_new [simp]: "distinct (push_new a out) = distinct out"
  by (auto simp: push_new_def split: option.split)

lemma set_drop_ipv6 [simp]: "set_option (drop_ipv6 a) = {x \<in> set_option a. \<not> is_ipv6 x}"
  by (auto simp: drop_ipv6_def split: option.split)

text \<open>
  Also (functional). the addresses that are dialled are the IPv4 candidates of the peer, each once, and its
  local ones only if both ends have the same public address.
\<close>

lemma smart_order_exact:
  assumes "distinct (pc_local c)"
  shows "distinct (smart_dial_order c own) \<and> set (smart_dial_order c own) =
    {a. \<not> is_ipv6 a \<and> (pc_reflexive c = Some a \<or> pc_mapped c = Some a \<or>
       (same_network c own \<and> a \<in> set (pc_local c)))} \<and>
    set (smart_dial_order c own) \<subseteq> set (dial_order c)"
  using assms by (auto simp: smart_dial_order_def Let_def dial_order_def elem_set)

section \<open>The race\<close>

lemma limited_time: "fst (limited n p) \<le> n"
  by (auto simp: limited_def split: path_end.split)

lemma relay_task_simps:
  "relay_task (Connected t) = (if t \<le> 4500 then (1000 + t, True) else (5500, False))"
  "relay_task (Failed t) = (if t \<le> 4500 then (1000 + t, False) else (5500, False))"
  "relay_task Pending = (5500, False)"
  by (simp_all add: relay_task_def delayed_def limited_def)

lemma relay_not_before: "1000 \<le> fst (relay_task p)"
  by (cases p) (simp_all add: relay_task_simps)

text \<open>
  Also (functional). A direct connection within the first second wins.  Whatever the relay does, a direct
  path that connects within 1000 ms is the local winner, with its transport at hand: the two sleeps in
  front of the relay dial add up to one second of head start.
\<close>

theorem direct_head_start_wins:
  assumes "t \<le> 1000"
  shows "\<exists>x. race (Connected t) relay = Some x \<and> local_winner x = Direct \<and> direct_transport x"
  using assms relay_not_before[of relay]
  by (auto simp: race_def direct_task_def limited_def Let_def)

text \<open>Also (safety). the winner of a race has a transport.\<close>

lemma race_winner_lives:
  "race direct relay = Some x \<Longrightarrow>
     (case local_winner x of Direct \<Rightarrow> direct_transport x | ViaRelay \<Rightarrow> relay_transport x)"
  by (auto simp: race_def Let_def split: prod.splits if_splits WinningPath.splits)

text \<open>
  Also (liveness). A quick failure of the direct path loses the call.  When every direct attempt has failed
  after \<open>t\<close> ms and the relay would connect \<open>r\<close> ms after it is dialled, the race fails although the relay
  works, exactly if \<open>t < r\<close>: the relay is given one second from the failure, and it has spent that second
  asleep.
\<close>

theorem fast_failure_loses_relay:
  assumes "t \<le> 4000" and "r \<le> 4500"
  shows "race (Failed t) (Connected r) = None \<longleftrightarrow> t < r"
  using assms
  by (auto simp: race_def direct_task_def limited_def Let_def relay_task_simps in_grace_def)

section \<open>Candidate updates converge\<close>

fun deliver_updates ::
  "(string \<Rightarrow> SocketAddr option) \<Rightarrow> CandidateUpdate list \<Rightarrow> IceAgent \<Rightarrow> PeerCandidates list \<times> IceAgent" where
  "deliver_updates parse [] ag = ([], ag)"
| "deliver_updates parse (u # us) ag =
     (let (res, ag) = apply_peer_update parse (Some u) ag; (rest, ag) = deliver_updates parse us ag in
      (case res of None \<Rightarrow> rest | Some c \<Rightarrow> c # rest, ag))"

definition candidates_of :: "(string \<Rightarrow> SocketAddr option) \<Rightarrow> CandidateUpdate \<Rightarrow> PeerCandidates" where
  "candidates_of parse u =
     \<lparr>pc_reflexive = Option.bind (cu_reflexive u) parse, pc_local = List.map_filter parse (cu_local u),
      pc_mapped = Option.bind (cu_mapped u) parse\<rparr>"

text \<open>The first update of every new maximum of the generations above \<open>g\<close>.\<close>

fun records :: "u32 \<Rightarrow> CandidateUpdate list \<Rightarrow> CandidateUpdate list" where
  "records g [] = []"
| "records g (u # us) = (if g < cu_generation u then u # records (cu_generation u) us else records g us)"

lemma deliver_records:
  "fst (deliver_updates parse us ag) = map (candidates_of parse) (records (ia_peer_generation ag) us) \<and>
   ia_peer_generation (snd (deliver_updates parse us ag)) = fold max (map cu_generation us) (ia_peer_generation ag)"
proof (induction us arbitrary: ag)
  case (Cons u us)
  let ?ag = "ag\<lparr>ia_peer_generation := max (ia_peer_generation ag) (cu_generation u)\<rparr>"
  have "apply_peer_update parse (Some u) ag =
      (if cu_generation u \<le> ia_peer_generation ag then None else Some (candidates_of parse u), ?ag)"
    by (simp add: apply_peer_update_def Let_def candidates_of_def)
  then have step: "deliver_updates parse (u # us) ag =
      (if cu_generation u \<le> ia_peer_generation ag then deliver_updates parse us ?ag
       else apfst ((#) (candidates_of parse u)) (deliver_updates parse us ?ag))"
    by (simp add: split_beta Let_def apfst_def map_prod_def)
  show ?case
  proof (cases "cu_generation u \<le> ia_peer_generation ag")
    case True
    then have "?ag = ag" by (simp add: max_absorb1)
    then show ?thesis using Cons.IH[of ag] True step by (auto simp: max_absorb2 simp del: deliver_updates.simps dest: leD)
  next
    case False
    then show ?thesis using Cons.IH[of ?ag] step False[unfolded not_le]
      by (simp add: max_absorb1 max_absorb2 max.commute del: deliver_updates.simps)
  qed
qed simp

lemma records_last:
  "(\<exists>u \<in> set us. g < cu_generation u) \<Longrightarrow>
     records g us \<noteq> [] \<and> last (records g us) \<in> set us \<and>
     (\<forall>v \<in> set us. cu_generation v \<le> cu_generation (last (records g us))) \<and>
     g < cu_generation (last (records g us))"
proof (induction us arbitrary: g)
  case (Cons u us)
  show ?case
  proof (cases "g < cu_generation u")
    case True
    show ?thesis
    proof (cases "\<exists>v \<in> set us. cu_generation u < cu_generation v")
      case more: True
      then show ?thesis using Cons.IH[OF more] True by auto
    next
      case False
      then have "records (cu_generation u) us = []"
        by (induction us) (auto simp: not_less)
      then show ?thesis using False True by (auto simp: not_less)
    qed
  next
    case False
    then have "\<exists>v \<in> set us. g < cu_generation v" using Cons.prems by auto
    then show ?thesis using Cons.IH[of g] False by (auto simp: not_less)
  qed
qed simp

text \<open>
  Also (functional). The newest candidates win.  However the updates of a peer are delayed, reordered or
  repeated, as soon as one of a positive generation has arrived, the candidates applied last are those of
  an update of the greatest generation delivered, and that generation is what is remembered.
\<close>

theorem newest_candidates_win:
  assumes "\<exists>u \<in> set us. 0 < cu_generation u"
  shows "let (applied, ag) = deliver_updates parse us (ice_new cid) in
    \<exists>u \<in> set us. (\<forall>v \<in> set us. cu_generation v \<le> cu_generation u) \<and> applied \<noteq> [] \<and>
      last applied = candidates_of parse u \<and> ia_peer_generation ag = cu_generation u"
proof -
  obtain applied ag where d: "deliver_updates parse us (ice_new cid) = (applied, ag)" by fastforce
  let ?u = "last (records 0 us)"
  note l = records_last[OF assms]
  have a: "applied = map (candidates_of parse) (records 0 us)"
    "ia_peer_generation ag = fold max (map cu_generation us) 0"
    using deliver_records[of parse us "ice_new cid"] unfolding d by (simp_all add: ice_new_def)
  have "fold max (map cu_generation us) 0 = Max (insert 0 (set (map cu_generation us)))"
    by (metis Max.set_eq_fold list.simps(15))
  also have "\<dots> = cu_generation ?u"
    using l by (intro Max_eqI) auto
  finally show ?thesis using l a d by (auto simp: last_map intro!: bexI[of _ ?u])
qed

text \<open>
  Also (error). The first update is never applied.  Generations start at 0 on both sides and an update must
  be newer than the last: what an agent sends the first time it gathers is taken by its peer for stale.
\<close>

theorem first_update_is_ignored:
  "apply_peer_update parse (Some (snd (fst (re_gather show_addr reflexive hosts mapped (ice_new cid))))) (ice_new cid') =
     (None, ice_new cid')"
  by (simp add: re_gather_def gather_def apply_peer_update_def ice_new_def)

section \<open>The relay map\<close>

datatype map_op =
    Upsert string SocketAddr "string option"
  | MeasuredRtt nat SocketAddr u32
  | Lost nat SocketAddr
  | FromAck "string list"

fun map_step :: "(string \<Rightarrow> SocketAddr option) \<Rightarrow> map_op \<Rightarrow> RelayEntry list \<Rightarrow> RelayEntry list" where
  "map_step parse (Upsert n a r) es = upsert n a r es"
| "map_step parse (MeasuredRtt now a rtt) es = update_rtt now a rtt es"
| "map_step parse (Lost now a) es = mark_unreachable now a es"
| "map_step parse (FromAck ss) es = populate_from_ack parse ss es"

definition map_inv :: "RelayEntry list \<Rightarrow> bool" where
  "map_inv es \<longleftrightarrow> distinct (map re_addr es) \<and> sorted (map rtt_key es) \<and>
     (\<forall>e \<in> set es. re_reachable e \<longrightarrow> re_rtt_ms e \<noteq> None)"

lemma adjust_entry_addrs: "(\<And>e. re_addr (f e) = re_addr e) \<Longrightarrow> map re_addr (adjust_entry a f es) = map re_addr es"
  by (induction es) auto

lemma adjust_entry_mem: "e \<in> set (adjust_entry a f es) \<Longrightarrow> e \<in> set es \<or> (\<exists>d \<in> set es. e = f d)"
  by (induction es) (auto split: if_splits)

lemma adjust_entry_keys: "(\<And>e. g (f e) = g e) \<Longrightarrow> map g (adjust_entry a f es) = map g es"
  by (induction es) auto

lemma sorted_insort: "distinct (map re_addr (sort_key rtt_key es)) = distinct (map re_addr es)"
  by (simp add: distinct_map)

lemma map_inv_sort:
  assumes "distinct (map re_addr es)" and "\<forall>e \<in> set es. re_reachable e \<longrightarrow> re_rtt_ms e \<noteq> None"
  shows "map_inv (sort_key rtt_key es)"
  using assms by (simp add: map_inv_def sorted_insort)

lemma adjust_entry_inv:
  assumes "map_inv es" and addr: "\<And>e. re_addr (f e) = re_addr e"
    and reach: "\<And>e. (re_reachable e \<longrightarrow> re_rtt_ms e \<noteq> None) \<Longrightarrow> re_reachable (f e) \<longrightarrow> re_rtt_ms (f e) \<noteq> None"
  shows "distinct (map re_addr (adjust_entry a f es))"
    and "\<forall>e \<in> set (adjust_entry a f es). re_reachable e \<longrightarrow> re_rtt_ms e \<noteq> None"
proof -
  show "distinct (map re_addr (adjust_entry a f es))"
    unfolding adjust_entry_addrs[OF addr] using assms(1) by (simp add: map_inv_def)
  have old: "re_reachable e \<longrightarrow> re_rtt_ms e \<noteq> None" if "e \<in> set es" for e
    using assms(1) that by (simp add: map_inv_def)
  show "\<forall>e \<in> set (adjust_entry a f es). re_reachable e \<longrightarrow> re_rtt_ms e \<noteq> None"
  proof
    fix e assume "e \<in> set (adjust_entry a f es)"
    from adjust_entry_mem[OF this] show "re_reachable e \<longrightarrow> re_rtt_ms e \<noteq> None"
      using old reach by blast
  qed
qed

lemma map_inv_upsert:
  assumes "map_inv es"
  shows "map_inv (upsert n a r es)"
proof (cases "a \<in> re_addr ` set es")
  case True
  define f :: "RelayEntry \<Rightarrow> RelayEntry" where "f = (\<lambda>e. (if r \<noteq> None then e\<lparr>re_region := r\<rparr> else e)\<lparr>re_name := n\<rparr>)"
  have f: "re_addr (f e) = re_addr e" "rtt_key (f e) = rtt_key e" "re_reachable (f e) = re_reachable e"
    "re_rtt_ms (f e) = re_rtt_ms e" for e
    by (simp_all add: rtt_key_def f_def)
  have eq: "upsert n a r es = adjust_entry a f es" using True by (simp add: upsert_def f_def)
  have "sorted (map rtt_key (adjust_entry a f es))"
    unfolding adjust_entry_keys[where g = rtt_key, OF f(2)] using assms by (simp add: map_inv_def)
  then show ?thesis
    unfolding eq map_inv_def using adjust_entry_inv[OF assms f(1), of a] by (simp add: f)
next
  case False
  have "x \<le> (0xFFFFFFFF :: u32)" for x
    using unsigned_less[of x, where 'a = nat] by (simp add: word_le_nat_alt)
  then show ?thesis
    using False assms by (auto simp: upsert_def map_inv_def sorted_append rtt_key_def)
qed

lemma map_inv_step: "map_inv es \<Longrightarrow> map_inv (map_step parse op es)"
proof (induction op arbitrary: es)
  case (MeasuredRtt now a rtt)
  then show ?case
    unfolding map_step.simps update_rtt_def by (intro map_inv_sort adjust_entry_inv) simp_all
next
  case (Lost now a)
  then show ?case
    unfolding map_step.simps mark_unreachable_def by (intro map_inv_sort adjust_entry_inv) simp_all
next
  case (FromAck ss)
  then show ?case
    by (induction ss arbitrary: es) (auto simp: map_inv_upsert split: option.split)
qed (simp_all add: map_inv_upsert)

text \<open>
  C30 (invariant). The preferred relay is the fastest reachable one.  After any sequence of insertions,
  measurements, failures and acknowledgements, relays are listed once each, in the order of their
  round-trip times, and the preferred relay is reachable and no reachable relay is faster; there is none
  only if none is reachable.
\<close>

theorem preferred_is_fastest:
  assumes "es = fold (map_step parse) ops []"
  shows "distinct (map re_addr es) \<and> sorted (map rtt_key es) \<and>
    (case preferred es of
       None \<Rightarrow> \<forall>e \<in> set es. \<not> re_reachable e
     | Some e \<Rightarrow> e \<in> set es \<and> re_reachable e \<and>
         (\<forall>d \<in> set es. re_reachable d \<longrightarrow> the (re_rtt_ms e) \<le> the (re_rtt_ms d)))"
proof -
  have "map_inv es' \<Longrightarrow> map_inv (fold (map_step parse) ops es')" for es'
    by (induction ops arbitrary: es') (simp_all add: map_inv_step)
  from this[of "[]"] have inv: "map_inv es" unfolding assms by (simp add: map_inv_def)
  have key: "rtt_key e = the (re_rtt_ms e)" if "e \<in> set es" "re_reachable e" for e
    using inv that by (auto simp: map_inv_def rtt_key_def)
  have "case preferred es of None \<Rightarrow> \<forall>e \<in> set es. \<not> re_reachable e
     | Some e \<Rightarrow> e \<in> set es \<and> re_reachable e \<and>
         (\<forall>d \<in> set es. re_reachable d \<longrightarrow> the (re_rtt_ms e) \<le> the (re_rtt_ms d))"
  proof (cases "preferred es")
    case None
    then have "\<forall>e \<in> set es. \<not> re_reachable e"
      using inv by (auto simp: preferred_def find_None_iff map_inv_def)
    then show ?thesis using None by simp
  next
    case (Some e)
    then obtain i where i: "i < length es" "e = es ! i" "re_reachable e"
      "\<forall>j < i. \<not> (re_reachable (es ! j) \<and> re_rtt_ms (es ! j) \<noteq> None)"
      by (auto simp: preferred_def find_Some_iff)
    have "the (re_rtt_ms e) \<le> the (re_rtt_ms d)" if d: "d \<in> set es" "re_reachable d" for d
    proof -
      obtain j where j: "j < length es" "d = es ! j" using d(1) by (auto simp: in_set_conv_nth)
      have "re_rtt_ms d \<noteq> None" using inv d by (auto simp: map_inv_def)
      then have "i \<le> j" using i(4) d(2) j(2) by (meson not_le)
      then have "rtt_key e \<le> rtt_key d"
        using inv i(1,2) j sorted_nth_mono[of "map rtt_key es" i j] by (simp add: map_inv_def)
      then show ?thesis using key[of e] key[OF d] i(1-3) by simp
    qed
    then show ?thesis using Some i by auto
  qed
  then show ?thesis using inv by (simp add: map_inv_def)
qed

section \<open>Birthday targets\<close>

lemma fill_targets_prefix: "\<exists>new. fill_targets ip ps ts = ts @ new \<and> length new \<le> length ps \<and> distinct new \<and>
    set new \<inter> set ts = {} \<and> (\<forall>p \<in> set ps. \<lparr>sa_ip = ip, sa_port = p\<rparr> \<in> set ts \<union> set new)"
proof (induction ps arbitrary: ts)
  case (Cons p ps)
  let ?a = "\<lparr>sa_ip = ip, sa_port = p\<rparr>"
  obtain new where new: "fill_targets ip ps (if ?a \<in> set ts then ts else ts @ [?a]) =
      (if ?a \<in> set ts then ts else ts @ [?a]) @ new" "length new \<le> length ps" "distinct new"
    "set new \<inter> set (if ?a \<in> set ts then ts else ts @ [?a]) = {}"
    "\<forall>p \<in> set ps. \<lparr>sa_ip = ip, sa_port = p\<rparr> \<in> set (if ?a \<in> set ts then ts else ts @ [?a]) \<union> set new"
    using Cons.IH by blast
  show ?case
  proof (cases "?a \<in> set ts")
    case True
    then show ?thesis using new by (intro exI[of _ new]) (auto simp: Let_def)
  next
    case False
    then show ?thesis using new by (intro exI[of _ "?a # new"]) (auto simp: Let_def)
  qed
qed simp

text \<open>
  Also (bounds). the known ports come first and in order, the random ones after them are new, and there are
  no more targets than probes asked for or ports known.
\<close>

lemma birthday_targets:
  assumes "length known < 2 ^ 16"
  shows "\<exists>new. generate_dialer_targets ip known total_probes draw =
      map (\<lambda>p. \<lparr>sa_ip = ip, sa_port = p\<rparr>) known @ new \<and> distinct new \<and>
    length known + length new \<le> max (length known) (unat total_probes)"
proof -
  let ?n = "unat total_probes - unat (of_nat (length known) :: u16)"
  have n: "?n = unat total_probes - length known" using assms by simp
  from fill_targets_prefix[of ip "map draw [0..<?n]" "map (\<lambda>p. \<lparr>sa_ip = ip, sa_port = p\<rparr>) known"]
  obtain new where "generate_dialer_targets ip known total_probes draw =
      map (\<lambda>p. \<lparr>sa_ip = ip, sa_port = p\<rparr>) known @ new" "length new \<le> ?n" "distinct new"
    unfolding generate_dialer_targets_def Let_def by auto
  then show ?thesis using n by (intro exI[of _ new]) auto
qed

section \<open>Examples\<close>

theorem direct_head_start_wins_witness:
  "\<exists>x. race (Connected 80) (Connected 5) = Some x \<and> local_winner x = Direct \<and> direct_transport x"
  by (rule direct_head_start_wins) simp

theorem fast_failure_loses_relay_witness: "race (Failed 30) (Connected 60) = None \<longleftrightarrow> (30 :: nat) < 60"
  by (rule fast_failure_loses_relay) simp_all

definition demo_update :: "u32 \<Rightarrow> CandidateUpdate" where
  "demo_update g = \<lparr>cu_call_id = ''c'', cu_reflexive = None, cu_local = [], cu_mapped = None, cu_generation = g\<rparr>"

theorem newest_candidates_win_witness:
  "let (applied, ag) = deliver_updates (\<lambda>_. None) [demo_update 1, demo_update 3, demo_update 2] (ice_new ''c'') in
    \<exists>u \<in> set [demo_update 1, demo_update 3, demo_update 2].
      (\<forall>v \<in> set [demo_update 1, demo_update 3, demo_update 2]. cu_generation v \<le> cu_generation u) \<and> applied \<noteq> [] \<and>
      last applied = candidates_of (\<lambda>_. None) u \<and> ia_peer_generation ag = cu_generation u"
  by (rule newest_candidates_win) (simp add: demo_update_def)

theorem preferred_is_fastest_witness:
  "let es = fold (map_step (\<lambda>_. None)) [Upsert ''a'' demo_addr None, Upsert ''b'' demo_addr6 None,
      MeasuredRtt 1 demo_addr 80, MeasuredRtt 2 demo_addr6 20] [] in
   distinct (map re_addr es) \<and> sorted (map rtt_key es) \<and>
    (case preferred es of
       None \<Rightarrow> \<forall>e \<in> set es. \<not> re_reachable e
     | Some e \<Rightarrow> e \<in> set es \<and> re_reachable e \<and>
         (\<forall>d \<in> set es. re_reachable d \<longrightarrow> the (re_rtt_ms e) \<le> the (re_rtt_ms d)))"
  unfolding Let_def by (rule preferred_is_fastest) (rule refl)

end
