(* ===== verification/RelayMesh.thy ===== *)
theory RelayMesh
  imports Presence
begin

text \<open>
  The mesh of relays: the health probe that pings a peer once a second and gossips presence over the same
  connection (\<open>crates/wzp-relay/src/probe.rs\<close>), the responder at the other end of it (the \<open>_probe\<close> branch of
  \<open>main.rs\<close>), and the table of links for chained relays (\<open>relay_link.rs\<close>).  Times are milliseconds since
  the epoch and arguments; \<open>f64\<close> values are reals.  Connecting, the Prometheus registry and the summary table
  printed from it are not modelled.
\<close>

section \<open>The window of pings\<close>

record SlidingWindow =
  win_capacity :: nat
  win_sent :: "nat list"
  win_rtts :: "real option list"

definition window_new :: "nat \<Rightarrow> SlidingWindow" where
  "window_new cap = \<lparr>win_capacity = cap, win_sent = [], win_rtts = []\<rparr>"

definition record_sent :: "nat \<Rightarrow> SlidingWindow \<Rightarrow> SlidingWindow" where
  "record_sent ts w =
     (let w = (if win_capacity w \<le> length (win_sent w)
               then w\<lparr>win_sent := tl (win_sent w), win_rtts := tl (win_rtts w)\<rparr> else w) in
      w\<lparr>win_sent := win_sent w @ [ts], win_rtts := win_rtts w @ [None]\<rparr>)"

fun find_sent :: "nat \<Rightarrow> nat list \<Rightarrow> nat option" where
  "find_sent ts [] = None"
| "find_sent ts (s # ss) = (if s = ts then Some 0 else map_option Suc (find_sent ts ss))"

definition record_pong :: "nat \<Rightarrow> nat \<Rightarrow> SlidingWindow \<Rightarrow> real option \<times> SlidingWindow" where
  "record_pong ts now w =
     (case find_sent ts (win_sent w) of
        Some i \<Rightarrow> (let rtt = real now - real (win_sent w ! i) in
                  (Some rtt, w\<lparr>win_rtts := (win_rtts w)[i := Some rtt]\<rparr>))
      | None \<Rightarrow> (None, w))"

definition loss_pct :: "SlidingWindow \<Rightarrow> real" where
  "loss_pct w =
     (if win_sent w = [] then 0
      else real (length (filter (\<lambda>r. r = None) (win_rtts w))) / real (length (win_rtts w)) * 100)"

definition received_rtts :: "SlidingWindow \<Rightarrow> real list" where
  "received_rtts w = List.map_filter (\<lambda>r. r) (win_rtts w)"

definition jitter_ms :: "SlidingWindow \<Rightarrow> real" where
  "jitter_ms w =
     (let rs = received_rtts w in
      if length rs < 2 then 0
      else (let mean = sum_list rs / real (length rs);
                variance = sum_list (map (\<lambda>r. (r - mean)\<^sup>2) rs) / real (length rs) in
            sqrt variance))"

definition latest_rtt :: "SlidingWindow \<Rightarrow> real option" where
  "latest_rtt w = (case received_rtts w of [] \<Rightarrow> None | rs \<Rightarrow> Some (last rs))"

section \<open>The prober\<close>

text \<open>
  The signals of a probe connection.  Addresses travel as text; \<open>parse\<close> is Rust's parser of socket addresses
  on the texts that occur.
\<close>

datatype ProbeSignal =
    Ping nat
  | Pong nat
  | PresenceUpdate "string list" string
  | RouteQuery string nat
  | RouteResponse string bool "addr list"
  | OtherSignal

record ProbeMetrics =
  g_rtt_ms :: real
  g_loss_pct :: real
  g_jitter_ms :: real
  g_up :: int

definition metrics_register :: ProbeMetrics where
  "metrics_register = \<lparr>g_rtt_ms = 0, g_loss_pct = 0, g_jitter_ms = 0, g_up = 0\<rparr>"

text \<open>A runner with its current session: the window, the ping counter and whether the receive task lives.\<close>

record ProbeRunner =
  target :: addr
  metrics :: ProbeMetrics
  presence :: "PresenceRegistry option"
  window :: SlidingWindow
  ping_count :: nat
  recv_alive :: bool

definition probe_new :: "addr \<Rightarrow> PresenceRegistry option \<Rightarrow> ProbeRunner" where
  "probe_new a reg = \<lparr>target = a, metrics = metrics_register, presence = reg, window = window_new 60,
     ping_count = 0, recv_alive = False\<rparr>"

text \<open>A connection is up: \<open>run_session\<close> up to its loops.\<close>

definition session_begin :: "ProbeRunner \<Rightarrow> ProbeRunner" where
  "session_begin p = p\<lparr>metrics := (metrics p)\<lparr>g_up := 1\<rparr>, window := window_new 60, ping_count := 0,
     recv_alive := True\<rparr>"

text \<open>What \<open>run\<close> does when a session has ended, with or without an error.\<close>

definition session_end :: "ProbeRunner \<Rightarrow> ProbeRunner" where
  "session_end p = p\<lparr>metrics := (metrics p)\<lparr>g_up := 0, g_rtt_ms := 0\<rparr>\<rparr>"

datatype received = Signal ProbeSignal | Closed | RecvError

definition probe_recv :: "(string \<Rightarrow> addr option) \<Rightarrow> nat \<Rightarrow> received \<Rightarrow> ProbeRunner \<Rightarrow> ProbeRunner" where
  "probe_recv parse now r p =
     (case r of
        Signal (Pong ts) \<Rightarrow>
          (case record_pong ts now (window p) of (rtt, w) \<Rightarrow>
             let m = (case rtt of Some x \<Rightarrow> (metrics p)\<lparr>g_rtt_ms := x\<rparr> | None \<Rightarrow> metrics p) in
             p\<lparr>window := w, metrics := m\<lparr>g_loss_pct := loss_pct w, g_jitter_ms := jitter_ms w\<rparr>\<rparr>)
      | Signal (PresenceUpdate fps a) \<Rightarrow>
          (case presence p of
             Some reg \<Rightarrow>
               (let peer = (case parse a of Some x \<Rightarrow> x | None \<Rightarrow> target p) in
                p\<lparr>presence := Some (update_peer now peer fps reg)\<rparr>)
           | None \<Rightarrow> p)
      | Signal _ \<Rightarrow> p
      | Closed \<Rightarrow> p\<lparr>metrics := (metrics p)\<lparr>g_up := 0\<rparr>, recv_alive := False\<rparr>
      | RecvError \<Rightarrow> p\<lparr>metrics := (metrics p)\<lparr>g_up := 0\<rparr>, recv_alive := False\<rparr>)"

text \<open>
  One tick of the send loop.  \<open>ok\<close> tells whether the ping can be sent (a failing presence update is only
  logged).  The result says whether the session goes on, and what was sent.
\<close>

datatype tick_result = Continues | EndsOk | EndsErr

definition probe_tick :: "nat \<Rightarrow> bool \<Rightarrow> ProbeRunner \<Rightarrow> tick_result \<times> ProbeSignal list \<times> ProbeRunner" where
  "probe_tick ts ok p =
     (if \<not> recv_alive p then (EndsOk, [], p)
      else (let p = p\<lparr>window := record_sent ts (window p)\<rparr> in
            if \<not> ok then (EndsErr, [], p\<lparr>recv_alive := False\<rparr>)
            else (let p = p\<lparr>ping_count := ping_count p + 1\<rparr>;
                      gossip = (if ping_count p mod 10 = 0
                                then (case presence p of
                                        Some reg \<Rightarrow> [PresenceUpdate (map fst (locals reg)) (target p)]
                                      | None \<Rightarrow> [])
                                else []) in
                  (Continues, Ping ts # gossip, p))))"

section \<open>The responder\<close>

text \<open>
  The loop of a \<open>_probe\<close> connection in \<open>main.rs\<close>: \<open>addr\<close> is the address the connection comes from.
\<close>

definition probe_respond :: "(string \<Rightarrow> addr option) \<Rightarrow> RouteResolver \<Rightarrow> addr \<Rightarrow> nat \<Rightarrow> ProbeSignal \<Rightarrow>
    PresenceRegistry \<Rightarrow> ProbeSignal option \<times> PresenceRegistry" where
  "probe_respond parse rr a now s reg =
     (case s of
        Ping ts \<Rightarrow> (Some (Pong ts), reg)
      | PresenceUpdate fps ra \<Rightarrow>
          (let peer = (case parse ra of Some x \<Rightarrow> x | None \<Rightarrow> a);
               reg = update_peer now peer fps reg in
           (Some (PresenceUpdate (map fst (locals reg)) a), reg))
      | RouteQuery fp ttl \<Rightarrow>
          (let (found, chain) = (case resolve rr reg fp of
                 RouteLocal \<Rightarrow> (True, [local_addr rr])
               | DirectPeer pa \<Rightarrow> (True, [local_addr rr, pa])
               | _ \<Rightarrow> (False, [])) in
           (Some (RouteResponse fp found chain), reg))
      | _ \<Rightarrow> (None, reg))"

text \<open>
  \<open>handle_ping\<close> answers a ping and nothing else.
\<close>

definition handle_ping :: "ProbeSignal \<Rightarrow> ProbeSignal option \<times> bool" where
  "handle_ping s = (case s of Ping ts \<Rightarrow> (Some (Pong ts), True) | _ \<Rightarrow> (None, False))"

text \<open>
  A tick and all it causes over a connection that loses nothing: the responder takes the messages in order,
  the prober its answers.
\<close>

fun exchange :: "(string \<Rightarrow> addr option) \<Rightarrow> RouteResolver \<Rightarrow> addr \<Rightarrow> nat \<Rightarrow> ProbeSignal list \<Rightarrow>
    ProbeRunner \<times> PresenceRegistry \<Rightarrow> ProbeRunner \<times> PresenceRegistry" where
  "exchange parse rr a now [] st = st"
| "exchange parse rr a now (s # ss) (p, reg) =
     (case probe_respond parse rr a now s reg of (reply, reg) \<Rightarrow>
        let p = (case reply of Some r \<Rightarrow> probe_recv parse now (Signal r) p | None \<Rightarrow> p) in
        exchange parse rr a now ss (p, reg))"

definition probe_round :: "(string \<Rightarrow> addr option) \<Rightarrow> RouteResolver \<Rightarrow> addr \<Rightarrow> nat \<Rightarrow> nat \<Rightarrow>
    ProbeRunner \<times> PresenceRegistry \<Rightarrow> ProbeRunner \<times> PresenceRegistry" where
  "probe_round parse rr a ts now st =
     (case probe_tick ts True (fst st) of (_, ss, p) \<Rightarrow> exchange parse rr a now ss (p, snd st))"

section \<open>Links for chained relays\<close>

text \<open>
  A link is a connection (\<open>'t\<close>) with the sessions it carries.  \<open>conn\<close> is the outcome of connecting; the
  operations that close connections return the addresses they close.
\<close>

record 't RelayLink =
  target_addr :: addr
  transport :: "'t option"
  active_sessions :: "string set"

type_synonym 't RelayLinkManager = "(addr, 't RelayLink) hashmap"

definition from_transport :: "addr \<Rightarrow> 't \<Rightarrow> 't RelayLink" where
  "from_transport a t = \<lparr>target_addr = a, transport = Some t, active_sessions = {}\<rparr>"

definition link_connect :: "(addr \<Rightarrow> 't option) \<Rightarrow> addr \<Rightarrow> 't RelayLink option" where
  "link_connect conn a = (case conn a of Some t \<Rightarrow> Some (from_transport a t) | None \<Rightarrow> None)"

definition add_session :: "string \<Rightarrow> 't RelayLink \<Rightarrow> 't RelayLink" where
  "add_session s l = l\<lparr>active_sessions := insert s (active_sessions l)\<rparr>"

definition remove_session :: "string \<Rightarrow> 't RelayLink \<Rightarrow> 't RelayLink" where
  "remove_session s l = l\<lparr>active_sessions := active_sessions l - {s}\<rparr>"

definition is_idle :: "'t RelayLink \<Rightarrow> bool" where
  "is_idle l = (active_sessions l = {})"

definition link_session_count :: "'t RelayLink \<Rightarrow> nat" where
  "link_session_count l = card (active_sessions l)"

definition has_session :: "string \<Rightarrow> 't RelayLink \<Rightarrow> bool" where
  "has_session s l = (s \<in> active_sessions l)"

definition link_forward :: "('t \<Rightarrow> 'p \<Rightarrow> bool) \<Rightarrow> 't RelayLink \<Rightarrow> 'p \<Rightarrow> bool" where
  "link_forward send l pkt = (case transport l of Some t \<Rightarrow> send t pkt | None \<Rightarrow> False)"

definition get_or_connect :: "(addr \<Rightarrow> 't option) \<Rightarrow> addr \<Rightarrow> 't RelayLinkManager \<Rightarrow>
    't RelayLink option \<times> 't RelayLinkManager" where
  "get_or_connect conn a m =
     (case hm_get m a of
        Some l \<Rightarrow> (Some l, m)
      | None \<Rightarrow> (case link_connect conn a of
                  Some l \<Rightarrow> (Some l, hm_insert a l m)
                | None \<Rightarrow> (None, m)))"

definition forward_to :: "('t \<Rightarrow> 'p \<Rightarrow> bool) \<Rightarrow> addr \<Rightarrow> 'p \<Rightarrow> 't RelayLinkManager \<Rightarrow> bool" where
  "forward_to send a pkt m = (case hm_get m a of Some l \<Rightarrow> link_forward send l pkt | None \<Rightarrow> False)"

definition register_session :: "addr \<Rightarrow> string \<Rightarrow> 't RelayLinkManager \<Rightarrow> 't RelayLinkManager" where
  "register_session a s m = hm_adjust a (add_session s) m"

definition unregister_session :: "addr \<Rightarrow> string \<Rightarrow> 't RelayLinkManager \<Rightarrow> addr list \<times> 't RelayLinkManager" where
  "unregister_session a s m =
     (case hm_get m a of
        Some l \<Rightarrow>
          (let m = hm_adjust a (remove_session s) m in
           if is_idle (remove_session s l) then ([target_addr l], hm_remove a m) else ([], m))
      | None \<Rightarrow> ([], m))"

definition close_all :: "'t RelayLinkManager \<Rightarrow> addr list \<times> 't RelayLinkManager" where
  "close_all m = (map fst m, [])"

definition link_count :: "'t RelayLinkManager \<Rightarrow> nat" where
  "link_count m = length m"

definition session_count :: "'t RelayLinkManager \<Rightarrow> nat" where
  "session_count m = sum_list (map (\<lambda>(_, l). link_session_count l) m)"

definition insert_link :: "'t RelayLink \<Rightarrow> 't RelayLinkManager \<Rightarrow> 't RelayLinkManager" where
  "insert_link l m = hm_insert (target_addr l) l m"

section \<open>The window is the recent past\<close>

datatype probe_event = PingSent nat | PongReceived nat nat

fun window_step :: "probe_event \<Rightarrow> SlidingWindow \<Rightarrow> SlidingWindow" where
  "window_step (PingSent ts) w = record_sent ts w"
| "window_step (PongReceived ts now) w = snd (record_pong ts now w)"

definition window_run :: "nat \<Rightarrow> probe_event list \<Rightarrow> SlidingWindow" where
  "window_run cap es = fold window_step es (window_new cap)"

fun pings :: "probe_event list \<Rightarrow> nat list" where
  "pings [] = []"
| "pings (PingSent ts # es) = ts # pings es"
| "pings (PongReceived _ _ # es) = pings es"

text \<open>The round trip of the last answer to a ping, over a history that has its latest event in front.\<close>

fun last_answer :: "probe_event list \<Rightarrow> nat \<Rightarrow> real option" where
  "last_answer [] ts = None"
| "last_answer (PingSent _ # es) ts = last_answer es ts"
| "last_answer (PongReceived t now # es) ts =
     (if t = ts \<and> ts \<in> set (pings es) then Some (real now - real ts) else last_answer es ts)"

definition recent :: "nat \<Rightarrow> 'a list \<Rightarrow> 'a list" where
  "recent n xs = drop (length xs - n) xs"

lemma recent_snoc: "0 < n \<Longrightarrow> recent n (xs @ [x]) =
    (if n \<le> length (recent n xs) then tl (recent n xs) else recent n xs) @ [x]"
  by (auto simp: recent_def tl_drop drop_Suc [symmetric] Suc_diff_le)

lemma set_recent: "set (recent n xs) \<subseteq> set xs"
  by (simp add: recent_def set_drop_subset)

lemma pings_append [simp]: "pings (xs @ ys) = pings xs @ pings ys"
  by (induction xs rule: pings.induct) auto

lemma set_pings_rev [simp]: "set (pings (rev es)) = set (pings es)"
  by (induction es rule: pings.induct) auto

lemma last_answer_fresh: "ts \<notin> set (pings es) \<Longrightarrow> last_answer es ts = None"
  by (induction es rule: pings.induct) auto

lemma find_sent_None: "find_sent ts ss = None \<longleftrightarrow> ts \<notin> set ss"
  by (induction ss) auto

lemma find_sent_Some: "find_sent ts ss = Some i \<Longrightarrow> i < length ss \<and> ss ! i = ts"
  by (induction ss arbitrary: i) (auto split: if_splits)

lemma map_update_distinct:
  assumes "distinct xs" and "i < length xs"
  shows "(map f xs)[i := y] = map (f(xs ! i := y)) xs"
  using assms by (auto intro!: nth_equalityI simp: nth_list_update nth_eq_iff_index_eq)

lemma window_run_exact:
  assumes "0 < cap" and "distinct (pings es)"
  shows "window_run cap es = \<lparr>win_capacity = cap, win_sent = recent cap (pings es),
     win_rtts = map (last_answer (rev es)) (recent cap (pings es))\<rparr>"
  using assms(2)
proof (induction es rule: rev_induct)
  case Nil
  then show ?case by (simp add: window_run_def window_new_def recent_def)
next
  case (snoc e es)
  let ?r = "recent cap (pings es)"
  have IH: "window_run cap es = \<lparr>win_capacity = cap, win_sent = ?r, win_rtts = map (last_answer (rev es)) ?r\<rparr>"
    using snoc by simp
  have step: "window_run cap (es @ [x]) = window_step x (window_run cap es)" for x
    by (simp add: window_run_def)
  show ?case
  proof (cases e)
    case (PingSent ts)
    then have "last_answer (rev es) ts = None" using snoc.prems by (intro last_answer_fresh) simp
    then show ?thesis
      using PingSent assms(1)
      by (simp add: step IH record_sent_def recent_snoc map_tl)
  next
    case (PongReceived ts now)
    have d: "distinct ?r" using snoc.prems by (simp add: recent_def PongReceived)
    show ?thesis
    proof (cases "find_sent ts ?r")
      case None
      then have "ts \<notin> set ?r" by (simp add: find_sent_None)
      then show ?thesis
        using PongReceived None by (auto simp: step IH record_pong_def)
    next
      case (Some i)
      then have i: "i < length ?r" "?r ! i = ts" using find_sent_Some by auto
      then have "ts \<in> set (pings es)" using set_recent [of cap "pings es"] nth_mem by blast
      then have "last_answer (rev (es @ [e])) = (last_answer (rev es))(ts := Some (real now - real ts))"
        by (auto simp: PongReceived)
      then have "map (last_answer (rev (es @ [e]))) ?r =
          (map (last_answer (rev es)) ?r)[i := Some (real now - real ts)]"
        by (simp only: map_update_distinct [OF d i(1)] i(2))
      then show ?thesis
        using PongReceived Some i by (simp add: step IH record_pong_def Let_def del: rev_append)
    qed
  qed
qed

section \<open>What an update of a peer does to lookups\<close>

lemma lookup_update_peer:
  "lookup (update_peer now a fps reg) fp =
     (if is_here reg fp then Some LocalRelay
      else if fp \<in> set fps then Some (Remote a)
      else (case hm_get (hm_retain (\<lambda>_ rp. relay_addr rp \<noteq> a) (remote reg)) fp of
              Some rp \<Rightarrow> Some (Remote (relay_addr rp)) | None \<Rightarrow> None))"
  by (simp add: lookup_def update_peer_def Let_def insert_remotes_get is_here_get)

lemma known_is_here: "fp \<in> set (map fst (locals reg)) \<longleftrightarrow> is_here reg fp"
  by (simp add: is_here_def local_fingerprints_def)

section \<open>Properties\<close>

text \<open>
  C24 (equivalence). The probe measures what happened.  When the pings of a session have distinct times, then
  after any history of pings and of answers, late, repeated or forged, the loss it shows is the share of the
  last \<open>cap\<close> pings that have not been answered since they were sent, and the round trips behind its
  jitter are those of the last answers to these pings, in the order of the pings.
\<close>

theorem probe_window_exact:
  assumes "0 < cap" and "distinct (pings es)"
  defines "last_pings \<equiv> recent cap (pings es)"
    and "w \<equiv> window_run cap es"
  shows "loss_pct w = (if last_pings = [] then 0
           else 100 * real (length (filter (\<lambda>ts. last_answer (rev es) ts = None) last_pings))
                    / real (length last_pings))
    \<and> received_rtts w = List.map_filter (last_answer (rev es)) last_pings"
  unfolding w_def window_run_exact [OF assms(1,2)] last_pings_def
  by (simp add: loss_pct_def received_rtts_def List.map_filter_def filter_map comp_def)

theorem probe_window_exact_witness:
  "loss_pct (window_run 2 [PingSent 10, PingSent 20, PongReceived 10 13, PongReceived 99 100, PingSent 30]) = 100"
  using probe_window_exact [of 2 "[PingSent 10, PingSent 20, PongReceived 10 13, PongReceived 99 100, PingSent 30]"]
  by (simp add: recent_def)

text \<open>
  Also (bounds). Pings in the same millisecond, as the send loop makes them when it catches up after a stall,
  count as lost all but one, even when each of them is answered.
\<close>

theorem burst_counts_as_loss:
  "loss_pct (window_run 60 [PingSent t, PingSent t, PongReceived t now, PongReceived t now]) = 50"
  by (simp add: window_run_def window_new_def record_sent_def record_pong_def loss_pct_def Let_def)

definition round_window :: "nat \<Rightarrow> nat \<Rightarrow> SlidingWindow \<Rightarrow> SlidingWindow" where
  "round_window ts now w = snd (record_pong ts now (record_sent ts w))"

lemma exchange_gossip:
  "\<exists>reg'. fst (exchange parse rr a now (case presence p of
       Some reg \<Rightarrow> [PresenceUpdate (f reg) ra] | None \<Rightarrow> []) (p, reg)) = p\<lparr>presence := reg'\<rparr>"
  "\<exists>reg'. p = p\<lparr>presence := reg'\<rparr>"
proof -
  show "\<exists>reg'. p = p\<lparr>presence := reg'\<rparr>" by (rule exI [of _ "presence p"]) simp
  then show "\<exists>reg'. fst (exchange parse rr a now (case presence p of
       Some reg \<Rightarrow> [PresenceUpdate (f reg) ra] | None \<Rightarrow> []) (p, reg)) = p\<lparr>presence := reg'\<rparr>"
    by (auto simp: probe_respond_def probe_recv_def Let_def split: option.splits)
qed

lemma record_pong_sent:
  assumes "ts \<notin> set (win_sent w)"
  shows "\<exists>w'. record_pong ts now (record_sent ts w) = (Some (real now - real ts), w')"
proof -
  have "ts \<notin> set (tl (win_sent w))" using assms by (cases "win_sent w") auto
  then have "find_sent ts (win_sent (record_sent ts w)) \<noteq> None"
    by (simp add: find_sent_None record_sent_def Let_def)
  then obtain i where "find_sent ts (win_sent (record_sent ts w)) = Some i" by auto
  then show ?thesis using find_sent_Some by (fastforce simp: record_pong_def Let_def)
qed

lemma probe_round_effect:
  assumes "recv_alive p" and "ts \<notin> set (win_sent (window p))"
  shows "\<exists>reg'. fst (probe_round parse rr a ts now (p, reg)) =
     p\<lparr>ping_count := ping_count p + 1, window := round_window ts now (window p),
       metrics := (metrics p)\<lparr>g_rtt_ms := real now - real ts,
         g_loss_pct := loss_pct (round_window ts now (window p)),
         g_jitter_ms := jitter_ms (round_window ts now (window p))\<rparr>,
       presence := reg'\<rparr>"
proof -
  obtain w' where w': "record_pong ts now (record_sent ts (window p)) = (Some (real now - real ts), w')"
    using record_pong_sent [OF assms(2)] by blast
  let ?q = "p\<lparr>ping_count := ping_count p + 1, window := w',
       metrics := (metrics p)\<lparr>g_rtt_ms := real now - real ts, g_loss_pct := loss_pct w', g_jitter_ms := jitter_ms w'\<rparr>\<rparr>"
  have "fst (probe_round parse rr a ts now (p, reg)) =
      (if Suc (ping_count p) mod 10 = 0
       then fst (exchange parse rr a now (case presence ?q of
         Some reg \<Rightarrow> [PresenceUpdate (map fst (locals reg)) (target p)] | None \<Rightarrow> []) (?q, reg)) else ?q)"
    using assms(1) w'
    by (simp add: probe_round_def probe_tick_def probe_respond_def probe_recv_def Let_def cong: option.case_cong)
  then have "\<exists>reg'. fst (probe_round parse rr a ts now (p, reg)) = ?q\<lparr>presence := reg'\<rparr>"
    using exchange_gossip(1) [where p = ?q] exchange_gossip(2) [where p = ?q]
    by (cases "Suc (ping_count p) mod 10 = 0") presburger+
  moreover have "round_window ts now (window p) = w'" by (simp add: round_window_def w')
  ultimately show ?thesis by auto
qed

definition round_history :: "(nat \<times> nat) list \<Rightarrow> probe_event list" where
  "round_history rs = concat (map (\<lambda>(ts, now). [PingSent ts, PongReceived ts now]) rs)"

lemma pings_round_history [simp]: "pings (round_history rs) = map fst rs"
  by (induction rs) (auto simp: round_history_def)

lemma answers_round_history:
  "ts \<in> set (map fst rs) \<Longrightarrow> last_answer (rev (round_history rs)) ts \<noteq> None"
proof (induction rs rule: rev_induct)
  case (snoc r rs)
  obtain t now where r: "r = (t, now)" by (cases r)
  have "round_history (rs @ [r]) = round_history rs @ [PingSent t, PongReceived t now]"
    by (simp add: round_history_def r)
  then show ?case using snoc r by auto
qed simp

lemma window_run_rounds:
  "window_run cap (round_history (rs @ [(ts, now)])) = round_window ts now (window_run cap (round_history rs))"
  by (simp add: window_run_def round_history_def round_window_def)

lemma loss_after_rounds:
  assumes "distinct (map fst rs)"
  shows "loss_pct (window_run 60 (round_history rs)) = 0"
proof -
  have "filter (\<lambda>ts. last_answer (rev (round_history rs)) ts = None) (recent 60 (map fst rs)) = []"
    using answers_round_history [of _ rs] set_recent [of 60 "map fst rs"]
    by (auto simp: filter_empty_conv simp del: set_map)
  then show ?thesis
    using assms by (simp add: window_run_exact loss_pct_def filter_map comp_def)
qed

lemma rounds_invariant:
  assumes "distinct (map fst rs)"
  shows "let p' = fst (fold (\<lambda>(ts, now). probe_round parse rr a ts now) rs (session_begin p, reg)) in
    recv_alive p' \<and> window p' = window_run 60 (round_history rs) \<and> g_up (metrics p') = 1 \<and>
    (rs \<noteq> [] \<longrightarrow> g_loss_pct (metrics p') = 0 \<and>
       g_rtt_ms (metrics p') = real (snd (last rs)) - real (fst (last rs)))"
  using assms
proof (induction rs rule: rev_induct)
  case Nil
  then show ?case by (simp add: session_begin_def window_run_def round_history_def)
next
  case (snoc r rs)
  obtain ts now where r: "r = (ts, now)" by (cases r)
  obtain p' reg' where st: "fold (\<lambda>(ts, now). probe_round parse rr a ts now) rs (session_begin p, reg) = (p', reg')"
    by fastforce
  have IH: "recv_alive p'" "window p' = window_run 60 (round_history rs)" "g_up (metrics p') = 1"
    using snoc st by (simp_all add: Let_def)
  have "ts \<notin> set (win_sent (window p'))"
    using snoc.prems set_recent [of 60 "map fst rs"] by (auto simp: IH(2) window_run_exact r)
  from probe_round_effect [OF IH(1) this, of parse rr a now reg'] show ?case
    using IH loss_after_rounds [OF snoc.prems]
    by (auto simp: st r Let_def window_run_rounds)
qed

text \<open>
  Also (functional). A healthy peer is seen healthy.  Over a connection that loses nothing, to a peer that
  answers, pings at different times leave the probe up with no loss and the round trip of the last of them,
  whatever presence gossip travels between them.
\<close>

theorem healthy_peer_is_seen_healthy:
  assumes "distinct (map fst rs)" and "rs \<noteq> []"
  shows "let m = metrics (fst (fold (\<lambda>(ts, now). probe_round parse rr a ts now) rs (session_begin p, reg))) in
    g_up m = 1 \<and> g_loss_pct m = 0 \<and> g_rtt_ms m = real (snd (last rs)) - real (fst (last rs))"
  using rounds_invariant [OF assms(1)] assms(2) by (simp add: Let_def)

theorem healthy_peer_is_seen_healthy_witness:
  "g_rtt_ms (metrics (fst (fold (\<lambda>(ts, now). probe_round Some \<lparr>local_addr = ''b''\<rparr> ''a'' ts now)
     [(1000, 1020), (2000, 2031)] (session_begin (probe_new ''b'' None), presence_new)))) = 31"
  using healthy_peer_is_seen_healthy [of "[(1000, 1020), (2000, 2031)]" Some "\<lparr>local_addr = ''b''\<rparr>" "''a''"
      "probe_new ''b'' None" presence_new]
  by (simp add: Let_def)

text \<open>
  Also (safety). Gossip names the wrong relay.  A relay announces its clients under the address it dialled, which
  is the address of the relay it talks to, and the answer carries the address the request came from.  After
  one round of gossip between any two relays, each of them holds the other's clients to be at its own
  address, and tells so to whoever asks for a route.
\<close>

theorem gossip_names_wrong_relay:
  assumes "recv_alive p" and "ping_count p mod 10 = 9" and "presence p = Some regA"
    and "parse (target p) = Some (target p)" and "parse a = Some a"
    and "probe_round parse rr a ts now (p, regB) = (p', regB')"
  shows "(is_here regA fp \<and> \<not> is_here regB fp \<longrightarrow>
      fst (probe_respond parse rr a later (RouteQuery fp ttl) regB') =
        Some (RouteResponse fp True [local_addr rr, target p])) \<and>
    (is_here regB fp \<and> \<not> is_here regA fp \<longrightarrow>
      (\<exists>regA'. presence p' = Some regA' \<and> lookup regA' fp = Some (Remote a)))"
proof -
  let ?B = "update_peer now (target p) (map fst (locals regA)) regB"
  have ten: "Suc (ping_count p) mod 10 = 0" using assms(2) by presburger
  have "regB' = ?B \<and> presence p' = Some (update_peer now a (map fst (locals ?B)) regA)"
    using assms ten
    by (auto simp: probe_round_def probe_tick_def probe_respond_def probe_recv_def Let_def
        split: prod.splits option.splits)
  moreover have "locals ?B = locals regB" by (simp add: update_peer_def Let_def)
  ultimately show ?thesis
    by (simp add: probe_respond_def resolve_def lookup_update_peer known_is_here del: set_map)
qed

definition mesh_client :: "string \<Rightarrow> PresenceRegistry" where
  "mesh_client fp = register_local 0 fp None None presence_new"

definition mesh_prober :: ProbeRunner where
  "mesh_prober = (session_begin (probe_new ''10.0.0.2:4433'' (Some (mesh_client ''ann''))))\<lparr>ping_count := 9\<rparr>"

theorem gossip_names_wrong_relay_witness:
  "lookup (snd (probe_round Some \<lparr>local_addr = ''10.0.0.2:4433''\<rparr> ''10.0.0.1:50000'' 1000 1020
      (mesh_prober, mesh_client ''bob''))) ''ann'' = Some (Remote ''10.0.0.2:4433'')"
proof -
  let ?rr = "\<lparr>local_addr = ''10.0.0.2:4433''\<rparr>" and ?a = "''10.0.0.1:50000''"
  obtain p' reg' where r: "probe_round Some ?rr ?a 1000 1020 (mesh_prober, mesh_client ''bob'') = (p', reg')"
    by fastforce
  have "fst (probe_respond Some ?rr ?a 0 (RouteQuery ''ann'' 0) reg') =
      Some (RouteResponse ''ann'' True [''10.0.0.2:4433'', ''10.0.0.2:4433''])"
    using gossip_names_wrong_relay [OF _ _ _ _ _ r, of "mesh_client ''ann''" "''ann''" 0 0]
    by (simp add: mesh_prober_def session_begin_def probe_new_def mesh_client_def register_local_def
        presence_new_def is_here_get)
  then show ?thesis
    by (simp add: r probe_respond_def resolve_def split: option.splits PresenceLocation.splits)
qed

text \<open>
  Also (functional). Only the last prober is known.  Relays that probe the same relay all report under its address,
  and a report replaces what was reported under its address before: however many relays report, the
  relay finds the clients of the last of them only, and those of the others are unknown to it.
\<close>

definition hear_report :: "(string \<Rightarrow> addr option) \<Rightarrow> RouteResolver \<Rightarrow> addr \<Rightarrow> addr \<times> nat \<times> string list \<Rightarrow>
    PresenceRegistry \<Rightarrow> PresenceRegistry" where
  "hear_report parse rr b r reg =
     (case r of (c, now, fps) \<Rightarrow> snd (probe_respond parse rr c now (PresenceUpdate fps b) reg))"

definition only_from :: "addr \<Rightarrow> PresenceRegistry \<Rightarrow> bool" where
  "only_from b reg = (\<forall>rp \<in> snd ` set (remote reg). relay_addr rp = b)"

lemma set_hm_insert: "snd ` set (hm_insert k v m) \<subseteq> insert v (snd ` set m)"
  by (induction m) auto

lemma insert_remotes_from:
  "\<forall>rp \<in> snd ` set m. relay_addr rp = b \<Longrightarrow> \<forall>rp \<in> snd ` set (insert_remotes now b fps m). relay_addr rp = b"
  unfolding insert_remotes_def
proof (induction fps arbitrary: m)
  case (Cons fp fps)
  have "\<forall>rp \<in> snd ` set (hm_insert fp \<lparr>remote_fp = fp, relay_addr = b, last_seen = now\<rparr> m). relay_addr rp = b"
    using set_hm_insert [of fp "\<lparr>remote_fp = fp, relay_addr = b, last_seen = now\<rparr>" m] Cons.prems by force
  then show ?case using Cons.IH by simp
qed simp

lemma only_from_drop: "only_from b reg \<Longrightarrow> hm_retain (\<lambda>_ rp. relay_addr rp \<noteq> b) (remote reg) = []"
proof -
  assume a: "only_from b reg"
  have "relay_addr (snd e) = b" if "e \<in> set (remote reg)" for e
    using a that by (simp add: only_from_def)
  then show "hm_retain (\<lambda>_ rp. relay_addr rp \<noteq> b) (remote reg) = []"
    by (simp add: hm_retain_def filter_empty_conv case_prod_beta)
qed

lemma only_from_update: "only_from b reg \<Longrightarrow> only_from b (update_peer now b fps reg)"
proof -
  assume "only_from b reg"
  then have "remote (update_peer now b fps reg) = insert_remotes now b fps []"
    by (simp add: update_peer_def Let_def only_from_drop)
  then show "only_from b (update_peer now b fps reg)"
    using insert_remotes_from [of "[]" b now fps] by (simp only: only_from_def) simp
qed

lemma hear_report_eq:
  "parse b = Some b \<Longrightarrow> hear_report parse rr b (c, now, fps) reg = update_peer now b fps reg"
  by (simp add: hear_report_def probe_respond_def Let_def)

lemma hear_reports_from:
  assumes "parse b = Some b" and "only_from b reg"
  shows "only_from b (fold (hear_report parse rr b) rs reg) \<and>
    is_here (fold (hear_report parse rr b) rs reg) fp = is_here reg fp"
  using assms(2)
proof (induction rs arbitrary: reg)
  case (Cons r rs)
  obtain c now fps where r: "r = (c, now, fps)" by (cases r) auto
  have "is_here (update_peer now b fps reg) fp = is_here reg fp"
    by (simp add: is_here_get update_peer_def Let_def)
  then show ?case
    using Cons.IH [OF only_from_update [OF Cons.prems]] using assms(1) by (simp add: r hear_report_eq)
qed simp

theorem only_the_last_prober_is_known:
  assumes "parse b = Some b" and "remote reg = []"
  shows "lookup (fold (hear_report parse rr b) (rs @ [(c, now, fps)]) reg) fp =
    (if is_here reg fp then Some LocalRelay else if fp \<in> set fps then Some (Remote b) else None)"
  using hear_reports_from [of parse b reg rr rs fp] assms
  by (simp add: hear_report_eq lookup_update_peer only_from_drop only_from_def)

theorem only_the_last_prober_is_known_witness:
  "lookup (fold (hear_report Some \<lparr>local_addr = ''b''\<rparr> ''b'')
     ([(''a:1'', 10, [''ann''])] @ [(''c:1'', 20, [''cid''])]) presence_new) ''ann'' = None"
  using only_the_last_prober_is_known [of Some "''b''" presence_new "\<lparr>local_addr = ''b''\<rparr>"
      "[(''a:1'', 10, [''ann''])]" "''c:1''" 20 "[''cid'']" "''ann''"]
  by (simp add: presence_new_def is_here_get)

text \<open>
  Also (error). When a session ends the probe shows the relay as down and its round trip as zero, but loss and
  jitter keep the values of the dead session.
\<close>

theorem down_probe_keeps_loss:
  "metrics (session_end p) = (metrics p)\<lparr>g_up := 0, g_rtt_ms := 0\<rparr> \<and>
   g_loss_pct (metrics (session_end (probe_recv parse now Closed p))) = g_loss_pct (metrics p)"
  by (simp add: session_end_def probe_recv_def)

section \<open>The links are a map from relays to sessions\<close>

datatype 't link_op =
    Connect addr
  | Register addr string
  | Unregister addr string
  | Insert "'t RelayLink"
  | CloseAll

fun link_step :: "(addr \<Rightarrow> 't option) \<Rightarrow> 't link_op \<Rightarrow> 't RelayLinkManager \<Rightarrow> addr list \<times> 't RelayLinkManager" where
  "link_step conn (Connect a) m = ([], snd (get_or_connect conn a m))"
| "link_step conn (Register a s) m = ([], register_session a s m)"
| "link_step conn (Unregister a s) m = unregister_session a s m"
| "link_step conn (Insert l) m = ([], insert_link l m)"
| "link_step conn CloseAll m = close_all m"

definition link_inv :: "'t RelayLinkManager \<Rightarrow> bool" where
  "link_inv m \<longleftrightarrow> hm_ok m \<and> hm_all (\<lambda>a l. target_addr l = a) m"

definition sessions_of :: "'t RelayLinkManager \<Rightarrow> addr \<rightharpoonup> string set" where
  "sessions_of m a = map_option active_sessions (hm_get m a)"

fun spec_link_step :: "(addr \<Rightarrow> 't option) \<Rightarrow> 't link_op \<Rightarrow> (addr \<rightharpoonup> string set) \<Rightarrow> (addr \<rightharpoonup> string set)" where
  "spec_link_step conn (Connect a) S = (if S a = None \<and> conn a \<noteq> None then S(a \<mapsto> {}) else S)"
| "spec_link_step conn (Register a s) S = S(a := map_option (insert s) (S a))"
| "spec_link_step conn (Unregister a s) S =
     S(a := (case S a of None \<Rightarrow> None | Some X \<Rightarrow> if X \<subseteq> {s} then None else Some (X - {s})))"
| "spec_link_step conn (Insert l) S = S(target_addr l \<mapsto> active_sessions l)"
| "spec_link_step conn CloseAll S = Map.empty"

lemma link_inv_empty: "link_inv []"
  by (simp add: link_inv_def)

lemma hm_all_adjust: "hm_all P m \<Longrightarrow> (\<And>v. P k v \<Longrightarrow> P k (f v)) \<Longrightarrow> hm_all P (hm_adjust k f m)"
  by (auto simp: hm_all_def hm_adjust_def map_of_map split: if_splits option.splits)

lemma link_inv_step:
  assumes "link_inv m"
  shows "link_inv (snd (link_step conn op m))"
proof (cases op)
  case (Connect a)
  then show ?thesis
    using assms by (auto simp: link_inv_def get_or_connect_def link_connect_def from_transport_def
        hm_ok_insert hm_all_insert split: option.splits)
next
  case (Register a s)
  then show ?thesis
    using assms by (simp add: link_inv_def register_session_def hm_ok_adjust hm_all_adjust add_session_def)
next
  case (Unregister a s)
  then show ?thesis
    using assms by (auto simp: link_inv_def unregister_session_def Let_def hm_ok_adjust hm_ok_remove
        hm_all_adjust hm_all_remove remove_session_def split: option.splits)
qed (use assms in \<open>simp_all add: link_inv_def insert_link_def close_all_def hm_ok_insert hm_all_insert\<close>)

text \<open>
  C23 (refinement). The link table is a map from relays to sets of sessions.  Every operation acts on the
  sessions per relay as its specification does: connecting adds an empty set unless the relay is known,
  registering with an unknown relay does nothing, and removing the last session removes the relay.  The
  operation closes the connections of exactly the relays that leave the table, each once.
\<close>

theorem links_refine_map:
  assumes "link_inv m"
  shows "sessions_of (snd (link_step conn op m)) = spec_link_step conn op (sessions_of m) \<and>
    distinct (fst (link_step conn op m)) \<and>
    set (fst (link_step conn op m)) = dom (sessions_of m) - dom (sessions_of (snd (link_step conn op m)))"
proof (cases op)
  case (Connect a)
  have "sessions_of (snd (link_step conn op m)) = spec_link_step conn op (sessions_of m)"
    by (rule ext) (auto simp: Connect get_or_connect_def link_connect_def from_transport_def
        sessions_of_def split: option.splits)
  then show ?thesis by (auto simp: Connect)
next
  case (Register a s)
  have "sessions_of (snd (link_step conn op m)) = spec_link_step conn op (sessions_of m)"
    by (rule ext) (auto simp: Register register_session_def sessions_of_def add_session_def
        map_option_case split: option.splits)
  then show ?thesis by (auto simp: Register)
next
  case (Unregister a s)
  show ?thesis
  proof (cases "hm_get m a")
    case None
    then have "sessions_of m a = None" by (simp add: sessions_of_def)
    then show ?thesis using None by (auto simp: Unregister unregister_session_def)
  next
    case (Some l)
    then have a: "target_addr l = a" using assms by (auto simp: link_inv_def dest: hm_allD)
    have S: "sessions_of m a = Some (active_sessions l)" using Some by (simp add: sessions_of_def)
    have idle: "is_idle (remove_session s l) \<longleftrightarrow> active_sessions l \<subseteq> {s}"
      by (auto simp: is_idle_def remove_session_def)
    have rest: "active_sessions (remove_session s l) = active_sessions l - {s}"
      by (simp add: remove_session_def)
    have "sessions_of (snd (link_step conn op m)) = spec_link_step conn op (sessions_of m)"
      by (rule ext) (auto simp: Unregister unregister_session_def Some S Let_def idle sessions_of_def rest)
    then show ?thesis using Some a S by (auto simp: Unregister unregister_session_def Let_def idle)
  qed
next
  case (Insert l)
  have "sessions_of (snd (link_step conn op m)) = spec_link_step conn op (sessions_of m)"
    by (rule ext) (simp add: Insert insert_link_def sessions_of_def)
  then show ?thesis by (auto simp: Insert)
next
  case CloseAll
  have "dom (sessions_of m) = fst ` set m"
    using dom_map_of_conv_image_fst [of m] by (simp add: sessions_of_def dom_def)
  then show ?thesis
    using assms by (auto simp: CloseAll close_all_def sessions_of_def link_inv_def hm_ok_def)
qed

theorem links_refine_map_witness:
  "fst (link_step (\<lambda>_. Some ()) (Unregister ''r'' ''s'')
     (register_session ''r'' ''s'' [(''r'', from_transport ''r'' ())])) = [''r''] \<and>
   distinct [''r'']"
  using links_refine_map [of "register_session ''r'' ''s'' [(''r'', from_transport ''r'' ())]" "\<lambda>_. Some ()"
      "Unregister ''r'' ''s''"]
  by (simp add: link_inv_def hm_ok_def hm_all_def register_session_def hm_adjust_def from_transport_def
      add_session_def unregister_session_def is_idle_def remove_session_def Let_def)

end
