(* ===== verification/AppEngine.thy ===== *)
theory AppEngine
  imports CallRecv Reassembly
begin

text \<open>
  The call engine of the desktop and Android application, \<open>desktop/src-tauri/src/engine.rs\<close>: the audio send
  loop over the call encoder, the receive loop that conceals losses and plays directly, the video loops, and
  the task that takes the relay's signals during a call.  One definition is one turn of a loop.  The audio
  devices, codecs and video encoders are parameters; logging, debug events and dumps are left out.
\<close>

section \<open>Loss over a window\<close>

record LossWindow =
  prev_sent :: nat
  prev_lost :: nat

definition loss_window_default :: LossWindow where
  "loss_window_default = \<lparr>prev_sent = 0, prev_lost = 0\<rparr>"

text \<open>\<open>saturating_sub\<close> on \<open>u64\<close> is subtraction of naturals; \<open>f32\<close> is rational.\<close>

definition loss_observe :: "nat \<Rightarrow> nat \<Rightarrow> rat \<Rightarrow> LossWindow \<Rightarrow> rat \<times> LossWindow" where
  "loss_observe sent lost cumulative_pct w =
     (let d_sent = sent - prev_sent w; d_lost = lost - prev_lost w;
          w = w\<lparr>prev_sent := sent, prev_lost := lost\<rparr> in
      (if 20 \<le> d_sent then of_nat d_lost / of_nat d_sent * 100 else cumulative_pct, w))"

section \<open>Profiles by number, name and codec\<close>

abbreviation (input) PROFILE_NO_CHANGE :: u8 where "PROFILE_NO_CHANGE \<equiv> 0xFF"

definition profile_to_index :: "QualityProfile \<Rightarrow> u8" where
  "profile_to_index p =
     (case codec p of
        Opus64k \<Rightarrow> 0 | Opus48k \<Rightarrow> 1 | Opus32k \<Rightarrow> 2 | Opus24k \<Rightarrow> 3 | Opus6k \<Rightarrow> 4 | Codec2_1200 \<Rightarrow> 5
      | _ \<Rightarrow> 3)"

definition index_to_profile :: "u8 \<Rightarrow> QualityProfile option" where
  "index_to_profile i =
     (if i = 0 then Some STUDIO_64K else if i = 1 then Some STUDIO_48K else if i = 2 then Some STUDIO_32K
      else if i = 3 then Some GOOD else if i = 4 then Some DEGRADED else if i = 5 then Some CATASTROPHIC
      else None)"

definition codec2_3200_profile :: QualityProfile where
  "codec2_3200_profile =
     GOOD\<lparr>codec := Codec2_3200, fec_ratio := 1 / 2, profile_frame_ms := 20, frames_per_block := 5\<rparr>"

definition resolve_quality :: "string \<Rightarrow> QualityProfile option" where
  "resolve_quality q =
     (if q = ''good'' \<or> q = ''opus'' then Some GOOD
      else if q = ''degraded'' \<or> q = ''opus6k'' then Some DEGRADED
      else if q = ''catastrophic'' \<or> q = ''codec2-1200'' then Some CATASTROPHIC
      else if q = ''codec2-3200'' then Some codec2_3200_profile
      else if q = ''studio-32k'' then Some STUDIO_32K
      else if q = ''studio-48k'' then Some STUDIO_48K
      else if q = ''studio-64k'' then Some STUDIO_64K
      else None)"

definition build_call_config :: "string \<Rightarrow> CallConfig" where
  "build_call_config q =
     (case resolve_quality q of
        Some p \<Rightarrow> (call_config_from_profile p)\<lparr>cfg_noise_suppression := False, cfg_suppression_enabled := False\<rparr>
      | None \<Rightarrow> call_config_default\<lparr>cfg_noise_suppression := False, cfg_suppression_enabled := False\<rparr>)"

definition codec_to_profile :: "CodecId \<Rightarrow> QualityProfile" where
  "codec_to_profile c =
     (case c of
        Opus24k \<Rightarrow> GOOD | Opus6k \<Rightarrow> DEGRADED | Opus32k \<Rightarrow> STUDIO_32K | Opus48k \<Rightarrow> STUDIO_48K
      | Opus64k \<Rightarrow> STUDIO_64K | Codec2_1200 \<Rightarrow> CATASTROPHIC | Codec2_3200 \<Rightarrow> codec2_3200_profile
      | other \<Rightarrow> GOOD\<lparr>codec := other\<rparr>)"

definition ascii_lower :: "char \<Rightarrow> char" where
  "ascii_lower c = (let n = of_char c :: nat in if 65 \<le> n \<and> n \<le> 90 then char_of (n + 32) else c)"

definition parse_video_codec :: "string \<Rightarrow> CodecId" where
  "parse_video_codec s =
     (let l = map ascii_lower s in
      if l = ''h265'' \<or> l = ''h265main'' \<or> l = ''hevc'' then H265Main
      else if l = ''av1'' \<or> l = ''av1main'' then Av1Main
      else H264Baseline)"

definition clamp_video_dimension :: "u32 \<Rightarrow> u32 \<Rightarrow> u32" where
  "clamp_video_dimension v fallback =
     (let v = (if v = 0 then fallback else v) in min (max v 160) 1920 AND NOT 1)"

section \<open>Continuity of the video stream\<close>

record VideoContinuity =
  vc_expected_seq :: "u32 option"
  wait_for_keyframe :: bool
  last_pli_sent :: "nat option"
  gaps :: nat
  dropped_frames :: nat

definition continuity_default :: VideoContinuity where
  "continuity_default = \<lparr>vc_expected_seq = None, wait_for_keyframe = False, last_pli_sent = None, gaps = 0,
     dropped_frames = 0\<rparr>"

definition observe_packet :: "u32 \<Rightarrow> VideoContinuity \<Rightarrow> u32 option \<times> VideoContinuity" where
  "observe_packet sq c =
     (case vc_expected_seq c of
        None \<Rightarrow> (None, c\<lparr>vc_expected_seq := Some (sq + 1)\<rparr>)
      | Some expected \<Rightarrow>
          (let delta = sq - expected in
           if 10000 \<le> delta then (None, c)
           else (let c = c\<lparr>vc_expected_seq := Some (sq + 1)\<rparr> in
                 if 0 < delta then (Some delta, c\<lparr>gaps := gaps c + 1, wait_for_keyframe := True\<rparr>)
                 else (None, c))))"

definition should_decode :: "bool \<Rightarrow> VideoContinuity \<Rightarrow> bool \<times> VideoContinuity" where
  "should_decode kf c =
     (if kf then (True, c\<lparr>wait_for_keyframe := False\<rparr>)
      else if wait_for_keyframe c then (False, c\<lparr>dropped_frames := dropped_frames c + 1\<rparr>)
      else (True, c))"

abbreviation (input) VIDEO_PLI_MIN_INTERVAL_MS :: nat where "VIDEO_PLI_MIN_INTERVAL_MS \<equiv> 250"

definition should_send_pli :: "nat \<Rightarrow> VideoContinuity \<Rightarrow> bool \<times> VideoContinuity" where
  "should_send_pli now c =
     (if (case last_pli_sent c of None \<Rightarrow> True | Some t \<Rightarrow> VIDEO_PLI_MIN_INTERVAL_MS \<le> now - t)
      then (True, c\<lparr>last_pli_sent := Some now\<rparr>) else (False, c))"

definition is_startup_black_i420 :: "byte list \<Rightarrow> nat \<Rightarrow> nat \<Rightarrow> bool" where
  "is_startup_black_i420 d w h =
     (let y_size = w * h; uv_size = y_size div 4 in
      if length d < y_size + uv_size * 2 then False
      else (\<not> list_ex (\<lambda>b. 3 < b) (take y_size d)) \<and>
           (\<not> list_ex (\<lambda>b. \<not> (124 \<le> b \<and> b \<le> 132)) (take uv_size (drop y_size d))) \<and>
           (\<not> list_ex (\<lambda>b. \<not> (124 \<le> b \<and> b \<le> 132)) (take uv_size (drop (y_size + uv_size) d))))"

section \<open>Signals during a call\<close>

record ParticipantInfo =
  pi_fingerprint :: string
  pi_alias :: "string option"
  pi_relay_label :: "string option"

text \<open>What the tasks of a call share.\<close>

record EngineShared =
  running :: bool
  mic_muted :: bool
  spk_muted :: bool
  participants :: "ParticipantInfo list"
  frames_sent :: nat
  frames_received :: nat
  force_video_keyframe :: bool
  pending_index :: u8

definition engine_shared_new :: EngineShared where
  "engine_shared_new = \<lparr>running = True, mic_muted = False, spk_muted = False, participants = [], frames_sent = 0,
     frames_received = 0, force_video_keyframe = False, pending_index = PROFILE_NO_CHANGE\<rparr>"

datatype CallSignal =
    RoomUpdate "ParticipantInfo list"
  | QualityDirective QualityProfile
  | PictureLossIndication u8
  | OtherSignal

datatype signal_result = Received CallSignal | SignalClosed | SignalError | SignalTimeout

fun unique_participants :: "(string \<times> string option) set \<Rightarrow> ParticipantInfo list \<Rightarrow> ParticipantInfo list" where
  "unique_participants seen [] = []"
| "unique_participants seen (p # ps) =
     (if (pi_fingerprint p, pi_alias p) \<in> seen then unique_participants seen ps
      else p # unique_participants (insert (pi_fingerprint p, pi_alias p) seen) ps)"

text \<open>One turn of \<open>run_signal_task\<close>; the flag says whether the task goes on.\<close>

definition signal_turn :: "signal_result \<Rightarrow> EngineShared \<Rightarrow> bool \<times> EngineShared" where
  "signal_turn r s =
     (if \<not> running s then (False, s)
      else (case r of
              Received (RoomUpdate ps) \<Rightarrow> (True, s\<lparr>participants := unique_participants {} ps\<rparr>)
            | Received (QualityDirective p) \<Rightarrow> (True, s\<lparr>pending_index := profile_to_index p\<rparr>)
            | Received (PictureLossIndication _) \<Rightarrow> (True, s\<lparr>force_video_keyframe := True\<rparr>)
            | Received OtherSignal \<Rightarrow> (True, s)
            | SignalClosed \<Rightarrow> (False, s)
            | SignalError \<Rightarrow> (False, s)
            | SignalTimeout \<Rightarrow> (True, s)))"

definition toggle_mic :: "EngineShared \<Rightarrow> bool \<times> EngineShared" where
  "toggle_mic s = (\<not> mic_muted s, s\<lparr>mic_muted := \<not> mic_muted s\<rparr>)"

definition toggle_speaker :: "EngineShared \<Rightarrow> bool \<times> EngineShared" where
  "toggle_speaker s = (\<not> spk_muted s, s\<lparr>spk_muted := \<not> spk_muted s\<rparr>)"

definition engine_stop :: "EngineShared \<Rightarrow> EngineShared" where
  "engine_stop s = s\<lparr>running := False\<rparr>"

section \<open>Concealment in the receive loop\<close>

text \<open>The sequence state of \<open>DredRecvState\<close> with the cached DRED data \<open>'r\<close> of libopus.\<close>

record 'r DredRecvState =
  dr_last_good :: 'r
  dr_last_good_seq :: "u32 option"
  dr_expected_seq :: "u32 option"
  dr_reconstructions :: nat
  dr_plc :: nat
  dr_parses_total :: nat
  dr_parses_with_data :: nat

definition dred_recv_new :: "'r \<Rightarrow> 'r DredRecvState" where
  "dred_recv_new r = \<lparr>dr_last_good = r, dr_last_good_seq = None, dr_expected_seq = None,
     dr_reconstructions = 0, dr_plc = 0, dr_parses_total = 0, dr_parses_with_data = 0\<rparr>"

definition ingest_opus :: "('s, 'r) decoder_lib \<Rightarrow> u32 \<Rightarrow> byte list \<Rightarrow> 'r DredRecvState \<Rightarrow> 'r DredRecvState" where
  "ingest_opus L sq pl d =
     (let d = d\<lparr>dr_parses_total := dr_parses_total d + 1\<rparr> in
      case dred_parse L pl of
        Some (available, st) \<Rightarrow>
          if 0 < available
          then d\<lparr>dr_parses_with_data := dr_parses_with_data d + 1, dr_last_good := st, dr_last_good_seq := Some sq\<rparr>
          else d
      | None \<Rightarrow> d)"

definition reset_on_profile_switch :: "'r DredRecvState \<Rightarrow> 'r DredRecvState" where
  "reset_on_profile_switch d = d\<lparr>dr_last_good_seq := None, dr_expected_seq := None\<rparr>"

text \<open>
  The playout side of the task: the decoder, the gain control, the scratch buffer, and the frames written to
  the playout ring.
\<close>

record 's Playback =
  pb_decoder :: 's
  pb_agc :: AutoGainControl
  pb_pcm :: pcm
  pb_written :: "pcm list"

text \<open>\<open>x\<close> is in the buffer; \<open>n\<close> samples of it are levelled in place and played unless the speaker is off.\<close>

definition play_out :: "bool \<Rightarrow> pcm \<Rightarrow> nat \<Rightarrow> 's Playback \<Rightarrow> 's Playback" where
  "play_out muted x n p =
     (let buf = x @ drop (length x) (pb_pcm p);
          (frame, ag) = agc_process (take n buf) (pb_agc p) in
      p\<lparr>pb_agc := ag, pb_pcm := frame @ drop n buf,
        pb_written := (if muted then pb_written p else pb_written p @ [frame])\<rparr>)"

abbreviation (input) MAX_GAP_FRAMES :: u32 where "MAX_GAP_FRAMES \<equiv> 16"

definition gap_offset :: "nat \<Rightarrow> u32 \<Rightarrow> 'r DredRecvState \<Rightarrow> int" where
  "gap_offset frame_samples missing d =
     (case dr_last_good_seq d of
        Some anchor \<Rightarrow>
          (let delta = anchor - missing in
           if delta = 0 \<or> MAX_GAP_FRAMES < delta then -1 else int (unat delta) * int frame_samples)
      | None \<Rightarrow> -1)"

definition fill_frame :: "('s, 'r) decoder_lib \<Rightarrow> bool \<Rightarrow> nat \<Rightarrow> u32 \<Rightarrow>
    'r DredRecvState \<times> 's Playback \<Rightarrow> 'r DredRecvState \<times> 's Playback" where
  "fill_frame L muted frame_samples missing st =
     (case st of (d, p) \<Rightarrow>
        let offset = gap_offset frame_samples missing d;
            (reconstructed, dec) = (if 0 < offset \<and> offset \<le> samples_available L (dr_last_good d)
              then dec_dred L (dr_last_good d) offset (pb_decoder p) else (None, pb_decoder p));
            p = p\<lparr>pb_decoder := dec\<rparr> in
        (case reconstructed of
           Some x \<Rightarrow> (d\<lparr>dr_reconstructions := dr_reconstructions d + 1\<rparr>, play_out muted x frame_samples p)
         | None \<Rightarrow>
             (case dec_lost L dec of
                (Some x, dec) \<Rightarrow>
                  (d\<lparr>dr_plc := dr_plc d + 1\<rparr>, play_out muted x frame_samples (p\<lparr>pb_decoder := dec\<rparr>))
              | (None, dec) \<Rightarrow> (d, p\<lparr>pb_decoder := dec\<rparr>))))"

definition fill_gap_to :: "('s, 'r) decoder_lib \<Rightarrow> bool \<Rightarrow> nat \<Rightarrow> u32 \<Rightarrow>
    'r DredRecvState \<times> 's Playback \<Rightarrow> 'r DredRecvState \<times> 's Playback" where
  "fill_gap_to L muted frame_samples current st =
     (let (d, p) = (case dr_expected_seq (fst st) of
            Some expected \<Rightarrow>
              (let gap = current - expected in
               if 0 < gap \<and> gap \<le> MAX_GAP_FRAMES
               then fold (\<lambda>i. fill_frame L muted frame_samples (expected + of_nat i)) [0..<unat gap] st
               else st)
          | None \<Rightarrow> st) in
      (d\<lparr>dr_expected_seq := Some (current + 1)\<rparr>, p))"

section \<open>The audio receive loop\<close>

text \<open>A snapshot of the QUIC path and the jitter of the path monitor, read together.\<close>

record PathSnapshot =
  snap_sent :: nat
  snap_lost :: nat
  snap_loss_pct :: rat
  snap_rtt_ms :: nat
  snap_jitter_ms :: nat

definition report_from_path_stats :: "rat \<Rightarrow> nat \<Rightarrow> nat \<Rightarrow> QualityReport" where
  "report_from_path_stats loss rtt jit =
     \<lparr>loss_pct = of_nat (nat \<lfloor>max 0 (min 255 (loss / 100 * 255))\<rfloor>), rtt_4ms = of_nat (min (rtt div 4) 255),
      jitter_ms = of_nat (min jit 255), bitrate_cap_kbps = 200\<rparr>"

abbreviation (input) QUALITY_REPORT_INTERVAL :: nat where "QUALITY_REPORT_INTERVAL \<equiv> 50"
abbreviation (input) DRED_POLL_INTERVAL :: nat where "DRED_POLL_INTERVAL \<equiv> 25"

record ('s, 'r) RecvTask =
  rt_playback :: "'s Playback"
  rt_profile :: QualityProfile
  rt_codec :: CodecId
  rt_dred :: "'r DredRecvState"
  rt_quality :: AdaptiveQualityController
  rt_counter :: nat
  rt_loss :: LossWindow
  rt_decoded_frames :: nat
  rt_decode_errs :: nat

definition recv_task_new :: "string \<Rightarrow> 's \<Rightarrow> 'r \<Rightarrow> ('s, 'r) RecvTask" where
  "recv_task_new q dec0 dred0 =
     (let p = (case resolve_quality q of Some p \<Rightarrow> p | None \<Rightarrow> GOOD) in
      \<lparr>rt_playback = \<lparr>pb_decoder = dec0, pb_agc = agc_new, pb_pcm = replicate 1920 0, pb_written = []\<rparr>,
       rt_profile = p, rt_codec = codec p, rt_dred = dred_recv_new dred0, rt_quality = controller_new,
       rt_counter = 0, rt_loss = loss_window_default, rt_decoded_frames = 0, rt_decode_errs = 0\<rparr>)"

definition recv_switch :: "('s, 'r) decoder_lib \<Rightarrow> CodecId \<Rightarrow> ('s, 'r) RecvTask \<Rightarrow> ('s, 'r) RecvTask" where
  "recv_switch L c t =
     (if c = rt_codec t then t
      else (let np = codec_to_profile c; pb = rt_playback t in
            t\<lparr>rt_playback := pb\<lparr>pb_decoder := snd (dec_set_profile L np (pb_decoder pb))\<rparr>,
              rt_profile := np, rt_codec := c, rt_dred := reset_on_profile_switch (rt_dred t)\<rparr>))"

definition recv_conceal :: "('s, 'r) decoder_lib \<Rightarrow> bool \<Rightarrow> MediaPacket \<Rightarrow> ('s, 'r) RecvTask \<Rightarrow> ('s, 'r) RecvTask" where
  "recv_conceal L muted pkt t =
     (if is_opus (codec_id (header pkt)) then
        (let d = ingest_opus L (seq (header pkt)) (payload pkt) (rt_dred t);
             n = 48000 * profile_frame_ms (rt_profile t) div 1000;
             (d, pb) = fill_gap_to L muted n (seq (header pkt)) (d, rt_playback t) in
         t\<lparr>rt_dred := d, rt_playback := pb\<rparr>)
      else t)"

definition recv_observe :: "nat \<Rightarrow> QualityReport \<Rightarrow> ('s, 'r) RecvTask \<times> EngineShared \<Rightarrow>
    ('s, 'r) RecvTask \<times> EngineShared" where
  "recv_observe now r st =
     (case st of (t, s) \<Rightarrow>
        (case observe now None r (rt_quality t) of
           (Some p, q) \<Rightarrow> (t\<lparr>rt_quality := q\<rparr>, s\<lparr>pending_index := profile_to_index p\<rparr>)
         | (None, q) \<Rightarrow> (t\<lparr>rt_quality := q\<rparr>, s)))"

definition recv_self_observe :: "nat \<Rightarrow> bool \<Rightarrow> PathSnapshot \<Rightarrow> ('s, 'r) RecvTask \<times> EngineShared \<Rightarrow>
    ('s, 'r) RecvTask \<times> EngineShared" where
  "recv_self_observe now auto snap st =
     (case st of (t, s) \<Rightarrow>
        let t = t\<lparr>rt_counter := rt_counter t + 1\<rparr> in
        if QUALITY_REPORT_INTERVAL \<le> rt_counter t then
          (let (win_loss, lw) = loss_observe (snap_sent snap) (snap_lost snap) (snap_loss_pct snap) (rt_loss t);
               t = t\<lparr>rt_counter := 0, rt_loss := lw\<rparr>;
               r = report_from_path_stats win_loss (snap_rtt_ms snap) (snap_jitter_ms snap) in
           if auto then recv_observe now r (t, s) else (t, s))
        else (t, s))"

definition recv_decode :: "('s, 'r) decoder_lib \<Rightarrow> bool \<Rightarrow> byte list \<Rightarrow> ('s, 'r) RecvTask \<Rightarrow> ('s, 'r) RecvTask" where
  "recv_decode L muted pl t =
     (let pb = rt_playback t in
      case dec_packet L pl (pb_decoder pb) of
        (Some x, dec) \<Rightarrow>
          t\<lparr>rt_decoded_frames := rt_decoded_frames t + 1,
            rt_playback := play_out muted x (length x) (pb\<lparr>pb_decoder := dec\<rparr>)\<rparr>
      | (None, dec) \<Rightarrow>
          t\<lparr>rt_decode_errs := rt_decode_errs t + 1, rt_playback := pb\<lparr>pb_decoder := dec\<rparr>\<rparr>)"

text \<open>An audio packet in the receive loop.\<close>

definition recv_audio :: "('s, 'r) decoder_lib \<Rightarrow> bool \<Rightarrow> nat \<Rightarrow> PathSnapshot \<Rightarrow> MediaPacket \<Rightarrow>
    ('s, 'r) RecvTask \<times> EngineShared \<Rightarrow> ('s, 'r) RecvTask \<times> EngineShared" where
  "recv_audio L auto now snap pkt st =
     (let (t, s) =
        (if \<not> is_repair (header pkt) \<and> codec_id (header pkt) \<noteq> ComfortNoise then
           (let (t, s) = st;
                t = recv_conceal L (spk_muted s) pkt (recv_switch L (codec_id (header pkt)) t);
                (t, s) = (case quality_report pkt of Some r \<Rightarrow> recv_observe now r (t, s) | None \<Rightarrow> (t, s));
                (t, s) = recv_self_observe now auto snap (t, s) in
            (recv_decode L (spk_muted s) (payload pkt) t, s))
         else st) in
      (t, s\<lparr>frames_received := frames_received s + 1\<rparr>))"

section \<open>The video receive loop\<close>

text \<open>
  Decoders of the platform: creating one may fail; decoding answers an error, nothing yet, or a picture.
\<close>

datatype 'f decode_result = DecodeErr | Buffering | Picture 'f

record ('v, 'f) video_dec_lib =
  vd_create :: "CodecId \<Rightarrow> u32 \<Rightarrow> u32 \<Rightarrow> 'v option"
  vd_decode :: "byte list \<Rightarrow> 'v \<Rightarrow> 'f decode_result \<times> 'v"

record ('v, 'f) VideoRecv =
  vr_reassembler :: VideoReassembler
  vr_decoder :: "'v option"
  vr_decoder_key :: "(CodecId \<times> u32 \<times> u32) option"
  vr_continuity :: VideoContinuity
  vr_shown :: "'f list"
  vr_plis :: "u8 list"

definition video_recv_new :: "('v, 'f) VideoRecv" where
  "video_recv_new = \<lparr>vr_reassembler = reassembler_new, vr_decoder = None, vr_decoder_key = None,
     vr_continuity = continuity_default, vr_shown = [], vr_plis = []\<rparr>"

definition video_note_gap :: "nat \<Rightarrow> MediaPacket \<Rightarrow> ('v, 'f) VideoRecv \<Rightarrow> ('v, 'f) VideoRecv" where
  "video_note_gap now pkt r =
     (case observe_packet (seq (header pkt)) (vr_continuity r) of
        (Some gap, c) \<Rightarrow>
          (let (pli, c) = should_send_pli now c in
           r\<lparr>vr_continuity := c, vr_plis := (if pli then vr_plis r @ [stream_id (header pkt)] else vr_plis r)\<rparr>)
      | (None, c) \<Rightarrow> r\<lparr>vr_continuity := c\<rparr>)"

definition video_select_decoder :: "('v, 'f) video_dec_lib \<Rightarrow> CodecId \<times> u32 \<times> u32 \<Rightarrow>
    ('v, 'f) VideoRecv \<Rightarrow> ('v, 'f) VideoRecv" where
  "video_select_decoder V key r =
     (if vr_decoder_key r = Some key then r
      else (case key of (c, w, h) \<Rightarrow>
             (case vd_create V c w h of
                Some d \<Rightarrow> r\<lparr>vr_decoder := Some d, vr_decoder_key := Some key\<rparr>
              | None \<Rightarrow> r)))"

definition video_decode :: "('v, 'f) video_dec_lib \<Rightarrow> byte list \<Rightarrow> ('v, 'f) VideoRecv \<times> EngineShared \<Rightarrow>
    ('v, 'f) VideoRecv \<times> EngineShared" where
  "video_decode V fr st =
     (case st of (r, s) \<Rightarrow>
        (case vr_decoder r of
           None \<Rightarrow> (r, s)
         | Some d \<Rightarrow>
             (case vd_decode V fr d of
                (Picture f, d) \<Rightarrow>
                  (r\<lparr>vr_decoder := Some d, vr_shown := vr_shown r @ [f]\<rparr>, s\<lparr>frames_received := frames_received s + 1\<rparr>)
              | (_, d) \<Rightarrow> (r\<lparr>vr_decoder := Some d\<rparr>, s))))"

text \<open>A video packet in the receive loop; \<open>w0\<close> and \<open>h0\<close> are the sizes the call was started with.\<close>

definition recv_video :: "('v, 'f) video_dec_lib \<Rightarrow> u32 \<Rightarrow> u32 \<Rightarrow> nat \<Rightarrow> MediaPacket \<Rightarrow>
    ('v, 'f) VideoRecv \<times> EngineShared \<Rightarrow> ('v, 'f) VideoRecv \<times> EngineShared" where
  "recv_video V w0 h0 now pkt st =
     (let (r, s) = st; r = video_note_gap now pkt r;
          (fr, ra) = reassembler_push pkt (vr_reassembler r); r = r\<lparr>vr_reassembler := ra\<rparr> in
      case fr of
        None \<Rightarrow> (r, s)
      | Some f \<Rightarrow>
          (let w = ucast (case rf_width f of Some w \<Rightarrow> w | None \<Rightarrow> ucast w0);
               h = ucast (case rf_height f of Some h \<Rightarrow> h | None \<Rightarrow> ucast h0);
               (go, c) = should_decode (rf_is_keyframe f) (vr_continuity r); r = r\<lparr>vr_continuity := c\<rparr>;
               (r, s) = (if go then video_decode V (rf_data f) (video_select_decoder V (rf_codec_id f, w, h) r, s)
                         else (r, s)) in
           (r\<lparr>vr_reassembler := evict_stale (timestamp (header pkt)) 5000 (vr_reassembler r)\<rparr>, s)))"

section \<open>The media watchdog\<close>

record Watchdog =
  wd_last_fr :: nat
  no_recv_ticks :: nat
  media_degraded :: bool

definition watchdog_new :: Watchdog where
  "watchdog_new = \<lparr>wd_last_fr = 0, no_recv_ticks = 0, media_degraded = False\<rparr>"

datatype media_event = MediaDegraded | MediaRecovered

text \<open>One heartbeat, every two seconds, with the frame count \<open>fr\<close> at that time.\<close>

definition watchdog_tick :: "nat \<Rightarrow> Watchdog \<Rightarrow> media_event list \<times> Watchdog" where
  "watchdog_tick fr w =
     (let (ev1, w) =
        (if fr = wd_last_fr w then ([], w\<lparr>no_recv_ticks := no_recv_ticks w + 1\<rparr>)
         else (if media_degraded w then [MediaRecovered] else [],
               w\<lparr>no_recv_ticks := 0, media_degraded := False\<rparr>));
          w = w\<lparr>wd_last_fr := fr\<rparr> in
      if 3 \<le> no_recv_ticks w \<and> \<not> media_degraded w
      then (ev1 @ [MediaDegraded], w\<lparr>media_degraded := True\<rparr>) else (ev1, w))"

section \<open>The audio send loop\<close>

record ('a, 'd, 'e) SendTask =
  sd_encoder :: "('a, 'd, 'e) CallEncoder"
  sd_frame_samples :: nat
  sd_tuner :: DredTuner
  sd_since_dred_poll :: nat
  sd_since_report :: nat
  sd_loss :: LossWindow
  sd_last_applied :: "QualityProfile option"
  sd_tx_codec :: CodecId
  sd_short_reads :: nat

definition frame_len :: "QualityProfile \<Rightarrow> nat" where
  "frame_len p = profile_frame_ms p * 48"

definition send_task_new :: "string \<Rightarrow> 'a \<Rightarrow> 'd \<Rightarrow> 'e \<Rightarrow> ('a, 'd, 'e) SendTask" where
  "send_task_new q a0 d0 e0 =
     (let cfg = build_call_config q in
      \<lparr>sd_encoder = call_encoder_new cfg a0 d0 e0, sd_frame_samples = frame_len (cfg_profile cfg),
       sd_tuner = tuner_new (codec (cfg_profile cfg)), sd_since_dred_poll = 0, sd_since_report = 0,
       sd_loss = loss_window_default, sd_last_applied = None, sd_tx_codec = codec (cfg_profile cfg),
       sd_short_reads = 0\<rparr>)"

definition effective_profile :: "QualityProfile \<Rightarrow> QualityProfile option \<Rightarrow> QualityProfile" where
  "effective_profile active cap =
     (case cap of
        Some c \<Rightarrow> if bitrate_bps (codec c) < bitrate_bps (codec active) then c else active
      | None \<Rightarrow> active)"

definition send_switch :: "('a, 'd, 'e) audio_lib \<Rightarrow> QualityProfile \<Rightarrow> ('a, 'd, 'e) SendTask \<Rightarrow>
    bool \<times> ('a, 'd, 'e) SendTask" where
  "send_switch L p t =
     (let (ok, e) = set_call_profile L p (sd_encoder t); t = t\<lparr>sd_encoder := e\<rparr> in
      if ok then (True, t\<lparr>sd_frame_samples := frame_len p, sd_tuner := set_tuner_codec (codec p) (sd_tuner t),
                          sd_tx_codec := codec p\<rparr>)
      else (False, t))"

definition send_apply_effective :: "('a, 'd, 'e) audio_lib \<Rightarrow> QualityProfile \<Rightarrow> QualityProfile option \<Rightarrow>
    ('a, 'd, 'e) SendTask \<Rightarrow> ('a, 'd, 'e) SendTask" where
  "send_apply_effective L active cap t =
     (let p = effective_profile active cap in
      if Some p = sd_last_applied t then t
      else (case send_switch L p t of (ok, t) \<Rightarrow> if ok then t\<lparr>sd_last_applied := Some p\<rparr> else t))"

definition send_apply_pending :: "('a, 'd, 'e) audio_lib \<Rightarrow> bool \<Rightarrow> ('a, 'd, 'e) SendTask \<times> EngineShared \<Rightarrow>
    ('a, 'd, 'e) SendTask \<times> EngineShared" where
  "send_apply_pending L auto st =
     (case st of (t, s) \<Rightarrow>
        if auto then
          (let i = pending_index s; s = s\<lparr>pending_index := PROFILE_NO_CHANGE\<rparr> in
           if i = PROFILE_NO_CHANGE then (t, s)
           else (case index_to_profile i of
                   Some p \<Rightarrow> (snd (send_switch L p t), s)
                 | None \<Rightarrow> (t, s)))
        else (t, s))"

text \<open>\<open>tune\<close> hands a tuning to the audio codec.\<close>

definition send_poll_dred :: "(DredTuning \<Rightarrow> 'e \<Rightarrow> 'e) \<Rightarrow> PathSnapshot \<Rightarrow> ('a, 'd, 'e) SendTask \<Rightarrow>
    ('a, 'd, 'e) SendTask" where
  "send_poll_dred tune snap t =
     (let t = t\<lparr>sd_since_dred_poll := sd_since_dred_poll t + 1\<rparr> in
      if DRED_POLL_INTERVAL \<le> sd_since_dred_poll t then
        (let (win_loss, lw) = loss_observe (snap_sent snap) (snap_lost snap) (snap_loss_pct snap) (sd_loss t);
             (tuning, tn) = tuner_update win_loss (snap_rtt_ms snap) (snap_jitter_ms snap) (sd_tuner t);
             t = t\<lparr>sd_since_dred_poll := 0, sd_loss := lw, sd_tuner := tn\<rparr> in
         case tuning of
           Some x \<Rightarrow> t\<lparr>sd_encoder := (sd_encoder t)\<lparr>audio_enc := tune x (audio_enc (sd_encoder t))\<rparr>\<rparr>
         | None \<Rightarrow> t)
      else t)"

definition send_report :: "PathSnapshot \<Rightarrow> ('a, 'd, 'e) SendTask \<Rightarrow> ('a, 'd, 'e) SendTask" where
  "send_report snap t =
     (let t = t\<lparr>sd_since_report := sd_since_report t + 1\<rparr> in
      if QUALITY_REPORT_INTERVAL \<le> sd_since_report t then
        (let (win_loss, lw) = loss_observe (snap_sent snap) (snap_lost snap) (snap_loss_pct snap) (sd_loss t);
             r = report_from_path_stats win_loss (snap_rtt_ms snap) (snap_jitter_ms snap) in
         t\<lparr>sd_since_report := 0, sd_loss := lw, sd_encoder := set_pending_quality_report r (sd_encoder t)\<rparr>)
      else t)"

text \<open>
  One turn of the loop.  \<open>active\<close> and \<open>cap\<close> are the profiles the signalling side holds, \<open>captured\<close> what the
  microphone ring holds, and \<open>snap1\<close> and \<open>snap2\<close> the path snapshots of the two polls.  \<open>SendPanic\<close> is the slice
  of the 1920-sample buffer that is too long.
\<close>

datatype send_result = SendStops | SendWaits | SendPanic | SendFrame "EncodeError + MediaPacket list"

definition send_turn :: "('a, 'd, 'e) audio_lib \<Rightarrow> fountain \<Rightarrow> (DredTuning \<Rightarrow> 'e \<Rightarrow> 'e) \<Rightarrow> bool \<Rightarrow>
    QualityProfile \<Rightarrow> QualityProfile option \<Rightarrow> PathSnapshot \<Rightarrow> PathSnapshot \<Rightarrow> pcm \<Rightarrow>
    ('a, 'd, 'e) SendTask \<times> EngineShared \<Rightarrow> send_result \<times> pcm \<times> ('a, 'd, 'e) SendTask \<times> EngineShared" where
  "send_turn L F tune auto active cap snap1 snap2 captured st =
     (let (t, s) = st; t = send_apply_effective L active cap t; n = sd_frame_samples t in
      if \<not> running s then (SendStops, captured, t, s)
      else if length captured < n then (SendWaits, captured, t\<lparr>sd_short_reads := sd_short_reads t + 1\<rparr>, s)
      else if 1920 < n then (SendPanic, captured, t, s)
      else
        let frame = (if mic_muted s then replicate n 0 else take n captured);
            (res, e) = encode_frame L F frame (sd_encoder t);
            t = t\<lparr>sd_encoder := e\<rparr>;
            s = (case res of Inr _ \<Rightarrow> s\<lparr>frames_sent := frames_sent s + 1\<rparr> | Inl _ \<Rightarrow> s);
            (t, s) = send_apply_pending L auto (t, s);
            t = send_report snap2 (send_poll_dred tune snap1 t) in
        (SendFrame res, drop n captured, t, s))"

section \<open>The video send loop\<close>

record ('x, 'f) video_enc_lib =
  ve_request_keyframe :: "'x \<Rightarrow> 'x"
  ve_encode :: "'f \<Rightarrow> 'x \<Rightarrow> byte list option \<times> 'x"
  ve_is_keyframe :: "byte list \<Rightarrow> 'x \<Rightarrow> bool"

record 'x VideoSend =
  vs_encoder :: 'x
  vs_seq :: u32
  frames_since_keyframe :: nat
  first_send_done :: bool
  skipped_black :: nat

definition video_send_new :: "('x, 'f) video_enc_lib \<Rightarrow> 'x \<Rightarrow> 'x VideoSend" where
  "video_send_new E x = \<lparr>vs_encoder = ve_request_keyframe E x, vs_seq = 0, frames_since_keyframe = 0,
     first_send_done = False, skipped_black = 0\<rparr>"

text \<open>A camera frame: what the encoder takes, its raw planes and its size.\<close>

record 'f CameraFrame =
  cf_frame :: 'f
  cf_data :: "byte list"
  cf_width :: u32
  cf_height :: u32

abbreviation (input) VIDEO_KEYFRAME_INTERVAL_FRAMES :: nat where "VIDEO_KEYFRAME_INTERVAL_FRAMES \<equiv> 120"

datatype keyframe_reason = Pli | Periodic

definition video_keyframe :: "('x, 'f) video_enc_lib \<Rightarrow> 'x VideoSend \<times> EngineShared \<Rightarrow>
    keyframe_reason option \<times> 'x VideoSend \<times> EngineShared" where
  "video_keyframe E st =
     (case st of (v, s) \<Rightarrow>
        let reason = (if force_video_keyframe s then Some Pli
                      else if VIDEO_KEYFRAME_INTERVAL_FRAMES \<le> frames_since_keyframe v then Some Periodic
                      else None);
            s = s\<lparr>force_video_keyframe := False\<rparr> in
        (case reason of
           Some r \<Rightarrow> (Some r, v\<lparr>vs_encoder := ve_request_keyframe E (vs_encoder v), frames_since_keyframe := 0\<rparr>, s)
         | None \<Rightarrow> (None, v, s)))"

text \<open>The frame that a turn takes from the camera; the result is what it sends.\<close>

definition video_send_turn :: "('x, 'f) video_enc_lib \<Rightarrow> CodecId \<Rightarrow> u32 \<Rightarrow> 'f CameraFrame \<Rightarrow>
    'x VideoSend \<times> EngineShared \<Rightarrow> MediaPacket list \<times> 'x VideoSend \<times> EngineShared" where
  "video_send_turn E c ts f st =
     (let (v, s) = st in
      if \<not> first_send_done v \<and> skipped_black v < 30 \<and>
         is_startup_black_i420 (cf_data f) (unat (cf_width f)) (unat (cf_height f))
      then ([], v\<lparr>skipped_black := skipped_black v + 1,
                  vs_encoder := ve_request_keyframe E (vs_encoder v)\<rparr>, s)
      else
        let (_, v, s) = video_keyframe E (v, s);
            (enc, x) = ve_encode E (cf_frame f) (vs_encoder v); v = v\<lparr>vs_encoder := x\<rparr> in
        (case enc of
           None \<Rightarrow> ([], v, s)
         | Some b \<Rightarrow>
             if b = [] then ([], v, s)
             else
               let (pkts, sq) = packetize_video_frame b c (ve_is_keyframe E b (vs_encoder v)) (vs_seq v) ts
                     (cf_width f) (cf_height f) in
               (pkts, v\<lparr>vs_seq := sq, first_send_done := first_send_done v \<or> pkts \<noteq> [],
                        frames_since_keyframe := frames_since_keyframe v + 1\<rparr>, s)))"

section \<open>Runs of the send loop\<close>

text \<open>
  Other tasks write the shared state and the microphone fills its ring between two turns, so a run takes both
  afresh for every turn.
\<close>

record turn_input =
  in_snap1 :: PathSnapshot
  in_snap2 :: PathSnapshot
  in_captured :: pcm
  in_shared :: EngineShared

definition send_one :: "('a, 'd, 'e) audio_lib \<Rightarrow> fountain \<Rightarrow> (DredTuning \<Rightarrow> 'e \<Rightarrow> 'e) \<Rightarrow> bool \<Rightarrow>
    QualityProfile \<Rightarrow> QualityProfile option \<Rightarrow> turn_input \<Rightarrow> ('a, 'd, 'e) SendTask \<Rightarrow>
    send_result \<times> pcm \<times> ('a, 'd, 'e) SendTask \<times> EngineShared" where
  "send_one L F tune auto active cap i t =
     send_turn L F tune auto active cap (in_snap1 i) (in_snap2 i) (in_captured i) (t, in_shared i)"

fun send_turns :: "('a, 'd, 'e) audio_lib \<Rightarrow> fountain \<Rightarrow> (DredTuning \<Rightarrow> 'e \<Rightarrow> 'e) \<Rightarrow> bool \<Rightarrow>
    QualityProfile \<Rightarrow> QualityProfile option \<Rightarrow> turn_input list \<Rightarrow> ('a, 'd, 'e) SendTask \<Rightarrow> ('a, 'd, 'e) SendTask" where
  "send_turns L F tune auto active cap [] t = t"
| "send_turns L F tune auto active cap (i # is) t =
     send_turns L F tune auto active cap is (fst (snd (snd (send_one L F tune auto active cap i t))))"

lemma send_turns_snoc:
  "send_turns L F tune auto active cap (is @ [i]) t =
   fst (snd (snd (send_one L F tune auto active cap i (send_turns L F tune auto active cap is t))))"
  by (induction "is" arbitrary: t) simp_all

lemma send_turns_invariant:
  assumes "P t" and "\<And>i t. P t \<Longrightarrow> P (fst (snd (snd (send_one L F tune auto active cap i t))))"
  shows "P (send_turns L F tune auto active cap is t)"
  using assms(1) by (induction "is" arbitrary: t) (simp_all add: assms(2))

text \<open>What a turn does to the parts of the task that are not the encoder.\<close>

lemma suppress_frame_profile: "ce_profile (snd (suppress_frame e)) = ce_profile e"
  by (simp add: suppress_frame_def Let_def)

lemma close_block_profile: "ce_profile (snd (close_block F e)) = ce_profile e"
  by (simp add: close_block_def split: prod.split)

lemma send_voice_profile: "ce_profile (snd (send_voice F b e)) = ce_profile e"
  by (simp add: send_voice_def Let_def case_prod_beta close_block_profile split: sum.split)

lemma clean_up_profile: "ce_profile (snd (clean_up L p e)) = ce_profile e"
  by (simp add: clean_up_def split: prod.split)

lemma encode_frame_profile: "ce_profile (snd (encode_frame L F p e)) = ce_profile e"
  by (simp add: encode_frame_def Let_def case_prod_beta clean_up_profile suppress_frame_profile
      send_voice_profile split: option.split)

lemma set_call_profile_cases:
  "set_call_profile L p e = (ok, e') \<Longrightarrow> ce_profile e' = (if ok then p else ce_profile e)"
  by (auto simp: set_call_profile_def Let_def split: prod.splits if_splits)

definition counters :: "('a, 'd, 'e) SendTask \<Rightarrow> nat \<times> nat" where
  "counters t = (sd_since_dred_poll t, sd_since_report t)"

lemma send_switch_counters [simp]: "counters (snd (send_switch L p t)) = counters t"
  by (auto simp: send_switch_def counters_def Let_def split: prod.splits)

lemma send_apply_effective_counters [simp]: "counters (send_apply_effective L active cap t) = counters t"
  using send_switch_counters [of L "effective_profile active cap" t]
  by (auto simp: send_apply_effective_def counters_def Let_def split: prod.splits)

lemma send_apply_pending_counters [simp]: "counters (fst (send_apply_pending L auto (t, s))) = counters t"
  by (auto simp: send_apply_pending_def Let_def split: option.splits)

lemma send_poll_dred_counters:
  "counters (send_poll_dred tune snap t) =
     (if DRED_POLL_INTERVAL \<le> sd_since_dred_poll t + 1 then 0 else sd_since_dred_poll t + 1, sd_since_report t)"
  by (auto simp: send_poll_dred_def counters_def Let_def split: prod.splits option.splits)

lemma send_report_counters:
  "counters (send_report snap t) =
     (sd_since_dred_poll t, if QUALITY_REPORT_INTERVAL \<le> sd_since_report t + 1 then 0 else sd_since_report t + 1)"
  by (auto simp: send_report_def counters_def Let_def split: prod.splits)

lemmas counters_eqs = counters_def prod_eq_iff

text \<open>A turn that sends a frame, taken apart.\<close>

lemma send_one_frame:
  assumes "send_one L F tune auto active cap i t = (SendFrame res, rest, t', s')"
  obtains t1 e s1 where "t1 = send_apply_effective L active cap t"
    and "encode_frame L F (if mic_muted (in_shared i) then replicate (sd_frame_samples t1) 0
           else take (sd_frame_samples t1) (in_captured i)) (sd_encoder t1) = (res, e)"
    and "(t', s') = (let (t, s) = send_apply_pending L auto (t1\<lparr>sd_encoder := e\<rparr>, s1) in
           (send_report (in_snap2 i) (send_poll_dred tune (in_snap1 i) t), s))"
    and "pending_index s1 = pending_index (in_shared i)"
proof -
  define t1 where "t1 = send_apply_effective L active cap t"
  obtain res1 e where e: "encode_frame L F (if mic_muted (in_shared i) then replicate (sd_frame_samples t1) 0
           else take (sd_frame_samples t1) (in_captured i)) (sd_encoder t1) = (res1, e)"
    by fastforce
  define s1 where "s1 = (case res1 of Inr _ \<Rightarrow> (in_shared i)\<lparr>frames_sent := frames_sent (in_shared i) + 1\<rparr>
      | Inl _ \<Rightarrow> in_shared i)"
  have "pending_index s1 = pending_index (in_shared i)" by (simp add: s1_def split: sum.split)
  moreover have "res1 = res \<and> (t', s') = (let (t, s) = send_apply_pending L auto (t1\<lparr>sd_encoder := e\<rparr>, s1) in
           (send_report (in_snap2 i) (send_poll_dred tune (in_snap1 i) t), s))"
    using assms e
    by (auto simp: send_one_def send_turn_def t1_def [symmetric] s1_def Let_def split: prod.splits if_splits)
  ultimately show thesis using that [of t1 e s1] e t1_def by blast
qed

lemma send_one_other:
  assumes "send_one L F tune auto active cap i t = (r, rest, t', s')" and "\<And>res. r \<noteq> SendFrame res"
  shows "\<exists>n. t' = (send_apply_effective L active cap t)\<lparr>sd_short_reads := n\<rparr>"
proof -
  have "\<exists>n. x = x\<lparr>sd_short_reads := n\<rparr>" for x :: "('a, 'd, 'e) SendTask"
    by (rule exI [of _ "sd_short_reads x"]) simp
  then show ?thesis using assms
    by (auto simp: send_one_def send_turn_def Let_def split: prod.splits if_splits)
qed

definition accepts :: "('a, 'd, 'e) audio_lib \<Rightarrow> QualityProfile \<Rightarrow> bool" where
  "accepts L p \<longleftrightarrow> (\<forall>e. fst (audio_set_profile L p e))"

definition profile_view :: "('a, 'd, 'e) SendTask \<Rightarrow> QualityProfile \<times> CodecId \<times> nat \<times> QualityProfile option" where
  "profile_view t = (ce_profile (sd_encoder t), sd_tx_codec t, sd_frame_samples t, sd_last_applied t)"

definition settled :: "QualityProfile \<Rightarrow> ('a, 'd, 'e) SendTask \<Rightarrow> bool" where
  "settled p t \<longleftrightarrow> profile_view t = (p, codec p, frame_len p, Some p)"

lemma send_switch_accepted:
  assumes "accepts L p"
  shows "fst (send_switch L p t)"
    and "profile_view (snd (send_switch L p t)) = (p, codec p, frame_len p, sd_last_applied t)"
  using assms
  by (auto simp: accepts_def send_switch_def set_call_profile_def profile_view_def Let_def split: prod.split)
    (metis fst_conv)+

lemma send_apply_effective_settles:
  assumes "accepts L (effective_profile active cap)"
    and "sd_last_applied t = Some (effective_profile active cap) \<Longrightarrow> settled (effective_profile active cap) t"
  shows "settled (effective_profile active cap) (send_apply_effective L active cap t)"
  using assms(2) send_switch_accepted [OF assms(1), of t]
  by (auto simp: send_apply_effective_def Let_def settled_def profile_view_def split: prod.split)

lemma polls_keep_view [simp]:
  "profile_view (send_report snap t) = profile_view t"
  "profile_view (send_poll_dred tune snap t) = profile_view t"
  by (auto simp: send_report_def send_poll_dred_def profile_view_def set_pending_quality_report_def Let_def
      split: prod.split option.split)

lemma polls_keep_settled [simp]:
  "settled p (send_report snap t) = settled p t"
  "settled p (send_poll_dred tune snap t) = settled p t"
  by (simp_all add: settled_def)

lemma manual_turn_settles:
  assumes "accepts L (effective_profile active cap)"
    and "sd_last_applied t = Some (effective_profile active cap) \<Longrightarrow> settled (effective_profile active cap) t"
  shows "settled (effective_profile active cap) (fst (snd (snd (send_one L F tune False active cap i t))))"
proof -
  let ?p = "effective_profile active cap"
  obtain r rest t' s' where o1: "send_one L F tune False active cap i t = (r, rest, t', s')"
    by (metis prod_cases4)
  have st: "settled ?p (send_apply_effective L active cap t)"
    by (rule send_apply_effective_settles [OF assms])
  have "settled ?p t'"
  proof (cases r)
    case (SendFrame res)
    from o1 [unfolded this] show ?thesis
    proof (cases rule: send_one_frame)
      case (1 t1 e s1)
      have "ce_profile e = ce_profile (sd_encoder t1)"
        using encode_frame_profile [of L F _ "sd_encoder t1"] 1(2) by (metis snd_conv)
      then have "settled ?p (t1\<lparr>sd_encoder := e\<rparr>)"
        using st 1(1) by (simp add: settled_def profile_view_def)
      then show ?thesis using 1(3) by (simp add: send_apply_pending_def)
    qed
  next
    case SendStops
    then show ?thesis using st send_one_other [OF o1] by (auto simp: settled_def profile_view_def)
  next
    case SendWaits
    then show ?thesis using st send_one_other [OF o1] by (auto simp: settled_def profile_view_def)
  next
    case SendPanic
    then show ?thesis using st send_one_other [OF o1] by (auto simp: settled_def profile_view_def)
  qed
  then show ?thesis by (simp add: o1)
qed

text \<open>
  Also (functional). The chosen quality is overridden.  Whatever quality the user has picked, if the audio
  codec can be switched to the default profile, the send loop is on that profile from its first turn on, for
  as long as the signalling side holds the profile it starts with and no cap of the peer: nothing ever sets
  it to the user's choice.
\<close>

theorem chosen_quality_is_overridden:
  assumes "resolve_quality q = Some p" and "accepts L GOOD" and "is \<noteq> []"
  shows "settled GOOD (send_turns L F tune (resolve_quality q = None) GOOD None is (send_task_new q a0 d0 e0))"
proof -
  have eff: "effective_profile GOOD None = GOOD" by (simp add: effective_profile_def)
  note turn = manual_turn_settles [of L GOOD None, unfolded eff, OF assms(2)]
  obtain i js where split: "is = i # js" using assms(3) by (cases "is") auto
  have "settled GOOD (fst (snd (snd (send_one L F tune False GOOD None i (send_task_new q a0 d0 e0)))))"
    by (rule turn) (simp add: send_task_new_def Let_def)
  then have "settled GOOD (send_turns L F tune False GOOD None js
      (fst (snd (snd (send_one L F tune False GOOD None i (send_task_new q a0 d0 e0))))))"
    by (rule send_turns_invariant) (rule turn, assumption)
  then show ?thesis using assms(1) by (simp add: split)
qed

definition in_step :: "('a, 'd, 'e) SendTask \<Rightarrow> bool" where
  "in_step t \<longleftrightarrow> sd_since_report t < QUALITY_REPORT_INTERVAL \<and>
     sd_since_dred_poll t = sd_since_report t mod DRED_POLL_INTERVAL"

lemma frame_counters:
  assumes "send_one L F tune auto active cap i t = (SendFrame res, rest, t', s')"
  obtains u where "counters u = counters t"
    and "t' = send_report (in_snap2 i) (send_poll_dred tune (in_snap1 i) u)"
  using assms
proof (cases rule: send_one_frame)
  case (1 t1 e s1)
  have "counters (t1\<lparr>sd_encoder := e\<rparr>) = counters t"
    using send_apply_effective_counters [of L active cap t] 1(1) by (simp add: counters_def)
  then show ?thesis
    using that [of "fst (send_apply_pending L auto (t1\<lparr>sd_encoder := e\<rparr>, s1))"] 1(3)
    by (simp add: Let_def case_prod_beta)
qed

lemma in_step_frame:
  assumes "counters u = counters t" and "in_step t"
  shows "in_step (send_report snap2 (send_poll_dred tune snap1 u))"
proof -
  let ?v = "send_poll_dred tune snap1 u"
  have u: "sd_since_dred_poll u = sd_since_dred_poll t" "sd_since_report u = sd_since_report t"
    using assms(1) by (simp_all add: counters_def)
  have v: "sd_since_dred_poll ?v = (if 24 \<le> sd_since_dred_poll t then 0 else sd_since_dred_poll t + 1)"
    "sd_since_report ?v = sd_since_report t"
    using send_poll_dred_counters [of tune snap1 u] by (auto simp: counters_def u)
  have "sd_since_dred_poll (send_report snap2 ?v) = sd_since_dred_poll ?v"
    "sd_since_report (send_report snap2 ?v) = (if 49 \<le> sd_since_report t then 0 else sd_since_report t + 1)"
    using send_report_counters [of snap2 ?v] by (auto simp: counters_def v(2))
  then show ?thesis
    using assms(2) v(1) by (auto simp: in_step_def mod_Suc) presburger+
qed

lemma in_step_turn:
  assumes "in_step t"
  shows "in_step (fst (snd (snd (send_one L F tune auto active cap i t))))"
proof -
  obtain r rest t' s' where o1: "send_one L F tune auto active cap i t = (r, rest, t', s')"
    by (metis prod_cases4)
  have "in_step t'"
  proof (cases "\<exists>res. r = SendFrame res")
    case True
    then obtain res where "r = SendFrame res" ..
    from o1 [unfolded this] show ?thesis
      by (cases rule: frame_counters) (simp add: in_step_frame [OF _ assms])
  next
    case False
    then show ?thesis
      using send_one_other [OF o1] send_apply_effective_counters [of L active cap t] assms
      by (auto simp: in_step_def counters_def)
  qed
  then show ?thesis by (simp add: o1)
qed

text \<open>
  Also (safety). Quality reports tell the loss since the call began.  The loss window was made so that they tell
  that of the last second, but the tuner of the redundancy reads it every 25 frames and the report every 50,
  so each report is computed right after another reading: unless 20 packets were sent between the two, the
  report of every run of the send loop carries the cumulative loss.
\<close>

theorem reports_tell_cumulative_loss:
  assumes "t = send_turns L F tune auto active cap is (send_task_new q a0 d0 e0)"
    and "send_one L F tune auto active cap i t = (SendFrame res, rest, t', s')"
    and "sd_since_report t' = 0"
    and "snap_sent (in_snap2 i) < snap_sent (in_snap1 i) + 20"
  shows "pending_quality_report (sd_encoder t') = Some (report_from_path_stats
    (snap_loss_pct (in_snap2 i)) (snap_rtt_ms (in_snap2 i)) (snap_jitter_ms (in_snap2 i)))"
proof -
  have "in_step (send_task_new q a0 d0 e0)" by (simp add: in_step_def send_task_new_def Let_def)
  then have "in_step t" unfolding assms(1) by (rule send_turns_invariant) (rule in_step_turn)
  from assms(2) show ?thesis
  proof (cases rule: frame_counters)
    case (1 u)
    let ?v = "send_poll_dred tune (in_snap1 i) u"
    have "sd_since_report ?v = sd_since_report t" "sd_since_dred_poll u = sd_since_dred_poll t"
      using send_poll_dred_counters [of tune "in_snap1 i" u] 1(1) by (auto simp: counters_def)
    moreover from this have "sd_since_report t = 49"
      using assms(3) \<open>in_step t\<close> send_report_counters [of "in_snap2 i" ?v] 1(2)
      by (auto simp: in_step_def counters_def split: if_splits)
    ultimately have due: "sd_since_report ?v = 49" "sd_since_dred_poll u = 24"
      using \<open>in_step t\<close> by (simp_all add: in_step_def)
    have "prev_sent (sd_loss ?v) = snap_sent (in_snap1 i)"
      using due(2) by (auto simp: send_poll_dred_def loss_observe_def Let_def split: prod.split option.split)
    then show ?thesis
      using assms(4) due(1)
      by (simp add: 1(2) send_report_def loss_observe_def set_pending_quality_report_def Let_def)
  qed
qed

text \<open>
  Also (error). A long frame stops the sender.  The profile that a peer confirms in the upgrade handshake is taken
  as it is: one with frames of more than 40 milliseconds makes the loop slice past the end of its buffer as
  soon as that much sound is captured, and the send task dies.
\<close>

theorem long_frames_panic:
  assumes "accepts L p" and "40 < profile_frame_ms p" and "sd_last_applied t \<noteq> Some p"
    and "running s" and "frame_len p \<le> length captured"
  shows "fst (send_turn L F tune auto p None snap1 snap2 captured (t, s)) = SendPanic"
proof -
  have "sd_frame_samples (send_apply_effective L p None t) = frame_len p"
    using send_switch_accepted [OF assms(1), of t] assms(3)
    by (auto simp: send_apply_effective_def effective_profile_def profile_view_def Let_def split: prod.split)
  then show ?thesis using assms(2,4,5) by (simp add: send_turn_def Let_def frame_len_def)
qed

section \<open>What the receive loop plays\<close>

definition conceals :: "('s, 'r) decoder_lib \<Rightarrow> bool" where
  "conceals L \<longleftrightarrow> (\<forall>s. fst (dec_lost L s) \<noteq> None) \<and> (\<forall>b s. fst (dec_packet L b s) \<noteq> None)"

definition expects :: "('s, 'r) RecvTask \<Rightarrow> u32 option" where
  "expects t = dr_expected_seq (rt_dred t)"

definition frames_played :: "('s, 'r) RecvTask \<Rightarrow> nat" where
  "frames_played t = length (pb_written (rt_playback t))"

lemma play_out_written [simp]: "length (pb_written (play_out False x n p)) = Suc (length (pb_written p))"
  by (simp add: play_out_def Let_def split: prod.split)

lemma fill_frame_effect:
  assumes "conceals L"
  shows "dr_expected_seq (fst (fill_frame L False n m st)) = dr_expected_seq (fst st)"
    and "length (pb_written (snd (fill_frame L False n m st))) = Suc (length (pb_written (snd st)))"
proof -
  obtain d p where st: "st = (d, p)" by (cases st)
  have lost: "\<exists>x s'. dec_lost L s = (Some x, s')" for s
    using assms by (metis conceals_def option.exhaust surjective_pairing)
  obtain x s' where x: "dec_lost L (pb_decoder p) = (Some x, s')" using lost by blast
  obtain r dec where r: "dec_dred L (dr_last_good d) (gap_offset n m d) (pb_decoder p) = (r, dec)" by fastforce
  obtain y s'' where y: "dec_lost L dec = (Some y, s'')" using lost by blast
  show "dr_expected_seq (fst (fill_frame L False n m st)) = dr_expected_seq (fst st)"
    and "length (pb_written (snd (fill_frame L False n m st))) = Suc (length (pb_written (snd st)))"
    using x r y by (auto simp: fill_frame_def st Let_def split: option.split)
qed

lemma fill_frames_effect:
  assumes "conceals L"
  shows "length (pb_written (snd (fold (\<lambda>i. fill_frame L False n (f i)) is st))) =
     length (pb_written (snd st)) + length is"
  by (induction "is" arbitrary: st) (simp_all add: fill_frame_effect(2) [OF assms])

lemma fill_gap_to_effect:
  assumes "conceals L"
  shows "dr_expected_seq (fst (fill_gap_to L False n sq st)) = Some (sq + 1)"
    and "length (pb_written (snd (fill_gap_to L False n sq st))) = length (pb_written (snd st)) +
       (case dr_expected_seq (fst st) of
          Some e \<Rightarrow> if 0 < sq - e \<and> sq - e \<le> MAX_GAP_FRAMES then unat (sq - e) else 0
        | None \<Rightarrow> 0)"
  by (simp_all add: fill_gap_to_def case_prod_beta Let_def fill_frames_effect [OF assms] split: option.split)

lemma ingest_opus_expected [simp]: "dr_expected_seq (ingest_opus L sq pl d) = dr_expected_seq d"
  by (simp add: ingest_opus_def Let_def split: option.split prod.split)

lemma recv_observe_keeps [simp]:
  "rt_dred (fst (recv_observe now r (t, s))) = rt_dred t"
  "rt_playback (fst (recv_observe now r (t, s))) = rt_playback t"
  "rt_codec (fst (recv_observe now r (t, s))) = rt_codec t"
  "spk_muted (snd (recv_observe now r (t, s))) = spk_muted s"
  by (simp_all add: recv_observe_def split: prod.split option.split)

lemma recv_self_observe_keeps [simp]:
  "rt_dred (fst (recv_self_observe now auto snap st)) = rt_dred (fst st)"
  "rt_playback (fst (recv_self_observe now auto snap st)) = rt_playback (fst st)"
  "rt_codec (fst (recv_self_observe now auto snap st)) = rt_codec (fst st)"
  "spk_muted (snd (recv_self_observe now auto snap st)) = spk_muted (snd st)"
  by (cases st; simp add: recv_self_observe_def Let_def case_prod_beta)+

lemma recv_decode_effect:
  assumes "conceals L"
  shows "frames_played (recv_decode L False pl t) = Suc (frames_played t)"
    and "expects (recv_decode L m pl t) = expects t" and "rt_codec (recv_decode L m pl t) = rt_codec t"
proof -
  obtain x s' where "dec_packet L pl (pb_decoder (rt_playback t)) = (Some x, s')"
    using assms by (metis conceals_def option.exhaust surjective_pairing)
  then show "frames_played (recv_decode L False pl t) = Suc (frames_played t)"
    and "expects (recv_decode L m pl t) = expects t" and "rt_codec (recv_decode L m pl t) = rt_codec t"
    by (simp_all add: recv_decode_def frames_played_def expects_def Let_def)
qed

definition voice :: "CodecId \<Rightarrow> u32 \<Rightarrow> MediaPacket \<Rightarrow> bool" where
  "voice c sq pkt \<longleftrightarrow> \<not> is_repair (header pkt) \<and> codec_id (header pkt) = c \<and> seq (header pkt) = sq"

text \<open>The number the loop expects when a packet of codec \<open>c\<close> arrives: a switch of the codec forgets it.\<close>

definition expects_for :: "CodecId \<Rightarrow> ('s, 'r) RecvTask \<Rightarrow> u32 option" where
  "expects_for c t = (if rt_codec t = c then expects t else None)"

lemma recv_switch_effect [simp]:
  "rt_codec (recv_switch L c t) = c" "frames_played (recv_switch L c t) = frames_played t"
  "expects (recv_switch L c t) = expects_for c t"
  by (auto simp: recv_switch_def frames_played_def expects_def expects_for_def reset_on_profile_switch_def Let_def)

lemma recv_packet_effect:
  assumes "conceals L" and "c \<noteq> ComfortNoise" and "voice c sq pkt" and "\<not> spk_muted s"
    and "recv_audio L auto now snap pkt (t, s) = (t', s')"
  shows "expects t' = (if is_opus c then Some (sq + 1) else expects_for c t)" and "rt_codec t' = c" and "\<not> spk_muted s'"
    and "frames_played t' = frames_played t + 1 +
       (if is_opus c then case expects_for c t of
          Some e \<Rightarrow> if 0 < sq - e \<and> sq - e \<le> MAX_GAP_FRAMES then unat (sq - e) else 0
        | None \<Rightarrow> 0 else 0)"
proof -
  have v: "\<not> is_repair (header pkt)" "codec_id (header pkt) = c" "seq (header pkt) = sq"
    using assms(3) by (auto simp: voice_def)
  define t1 where "t1 = recv_conceal L False pkt (recv_switch L c t)"
  define st2 where "st2 = recv_self_observe now auto snap
     (case quality_report pkt of Some r \<Rightarrow> recv_observe now r (t1, s) | None \<Rightarrow> (t1, s))"
  have m: "spk_muted s = False" using assms(4) by simp
  have "recv_audio L auto now snap pkt (t, s) = (recv_decode L False (payload pkt) (fst st2),
      (snd st2)\<lparr>frames_received := frames_received (snd st2) + 1\<rparr>)"
    using v(1) assms(2) unfolding recv_audio_def v(2) Let_def st2_def
    by (cases "quality_report pkt") (simp_all add: case_prod_beta m t1_def)
  then have eq: "t' = recv_decode L False (payload pkt) (fst st2)" "spk_muted s' = spk_muted (snd st2)"
    using assms(5) by auto
  have st2: "rt_dred (fst st2) = rt_dred t1" "rt_playback (fst st2) = rt_playback t1"
    "rt_codec (fst st2) = rt_codec t1" "spk_muted (snd st2) = spk_muted s"
    by (simp_all add: st2_def split: option.split)
  have sw: "dr_expected_seq (rt_dred (recv_switch L c t)) = expects_for c t"
    "length (pb_written (rt_playback (recv_switch L c t))) = frames_played t"
    using recv_switch_effect(2,3)[of L c t] unfolding frames_played_def expects_def by simp_all
  have t1: "expects t1 = (if is_opus c then Some (sq + 1) else expects_for c t)" "rt_codec t1 = c"
    "frames_played t1 = frames_played t + (if is_opus c then case expects_for c t of
          Some e \<Rightarrow> if 0 < sq - e \<and> sq - e \<le> MAX_GAP_FRAMES then unat (sq - e) else 0
        | None \<Rightarrow> 0 else 0)"
    using v by (simp_all add: t1_def recv_conceal_def expects_def[of "_ :: ('s, 'r) RecvTask"]
        frames_played_def[of "recv_switch L c t"] frames_played_def[of "_\<lparr>rt_dred := _, rt_playback := _\<rparr>"]
        Let_def case_prod_beta sw fill_gap_to_effect [OF assms(1)])
  have same: "expects (fst st2) = expects t1" "frames_played (fst st2) = frames_played t1"
    using st2 by (simp_all add: expects_def frames_played_def)
  show "expects t' = (if is_opus c then Some (sq + 1) else expects_for c t)" "rt_codec t' = c" "\<not> spk_muted s'"
    "frames_played t' = frames_played t + 1 +
       (if is_opus c then case expects_for c t of
          Some e \<Rightarrow> if 0 < sq - e \<and> sq - e \<le> MAX_GAP_FRAMES then unat (sq - e) else 0
        | None \<Rightarrow> 0 else 0)"
    using t1 st2(3,4) assms(4) same by (simp_all add: eq recv_decode_effect [OF assms(1)])
qed

lemma opus_voice: "is_opus c \<Longrightarrow> c \<noteq> ComfortNoise"
  by (auto simp: is_opus_def)

lemma recv_audio_effect:
  assumes "conceals L" and "is_opus c" and "rt_codec t = c" and "voice c sq pkt" and "\<not> spk_muted s"
    and "recv_audio L auto now snap pkt (t, s) = (t', s')"
  shows "expects t' = Some (sq + 1)" and "rt_codec t' = c" and "\<not> spk_muted s'"
    and "frames_played t' = frames_played t + 1 +
       (case expects t of
          Some e \<Rightarrow> if 0 < sq - e \<and> sq - e \<le> MAX_GAP_FRAMES then unat (sq - e) else 0
        | None \<Rightarrow> 0)"
  using recv_packet_effect[OF assms(1) opus_voice[OF assms(2)] assms(4,5,6)] assms(2,3)
  by (simp_all add: expects_for_def)

record arrival =
  ar_auto :: bool
  ar_now :: nat
  ar_snap :: PathSnapshot
  ar_packet :: MediaPacket

definition receive_all :: "('s, 'r) decoder_lib \<Rightarrow> arrival list \<Rightarrow> ('s, 'r) RecvTask \<times> EngineShared \<Rightarrow>
    ('s, 'r) RecvTask \<times> EngineShared" where
  "receive_all L as st = fold (\<lambda>a. recv_audio L (ar_auto a) (ar_now a) (ar_snap a) (ar_packet a)) as st"

text \<open>Numbers that grow by at most the longest gap that is filled, and one.\<close>

fun close_numbers :: "nat \<Rightarrow> nat list \<Rightarrow> bool" where
  "close_numbers n [] = True"
| "close_numbers n (m # ms) \<longleftrightarrow> n \<le> m \<and> m \<le> n + 16 \<and> close_numbers (m + 1) ms"

lemma gap_word:
  assumes "e \<le> n" and "n \<le> e + 16"
  shows "unat (of_nat n - of_nat e :: u32) = n - e"
proof -
  have "(of_nat n - of_nat e :: u32) = of_nat (n - e)" using assms(1) by (simp add: of_nat_diff)
  moreover have "unat (of_nat (n - e) :: u32) = n - e" using assms(2) by (simp add: unat_of_nat)
  ultimately show ?thesis by simp
qed

fun next_number :: "nat \<Rightarrow> nat list \<Rightarrow> nat" where
  "next_number e [] = e"
| "next_number e (n # ns) = next_number (n + 1) ns"

lemma next_number_last: "next_number e ns = (if ns = [] then e else last ns + 1)"
  by (induction ns arbitrary: e) auto

lemma receive_close:
  assumes "conceals L" and "is_opus c" and "rt_codec t = c" and "\<not> spk_muted s"
    and "expects t = Some (of_nat e)" and "close_numbers e ns"
    and "list_all2 (\<lambda>n a. voice c (of_nat n) (ar_packet a)) ns as"
    and "receive_all L as (t, s) = (t', s')"
  shows "frames_played t' + e = frames_played t + next_number e ns \<and> rt_codec t' = c \<and> \<not> spk_muted s'"
  using assms(3-)
proof (induction ns arbitrary: as t s e)
  case Nil
  then show ?case by (simp add: receive_all_def)
next
  case (Cons n ns)
  obtain a bs where as: "as = a # bs" and va: "voice c (of_nat n) (ar_packet a)"
    and vs: "list_all2 (\<lambda>n a. voice c (of_nat n) (ar_packet a)) ns bs"
    using Cons.prems(5) by (auto simp: list_all2_Cons1)
  obtain t1 s1 where r: "recv_audio L (ar_auto a) (ar_now a) (ar_snap a) (ar_packet a) (t, s) = (t1, s1)"
    by fastforce
  have n: "e \<le> n" "n \<le> e + 16" "close_numbers (n + 1) ns" using Cons.prems(4) by simp_all
  note eff = recv_audio_effect [OF assms(1,2) Cons.prems(1) va Cons.prems(2) r]
  have g: "unat (of_nat n - of_nat e :: u32) = n - e" by (rule gap_word [OF n(1,2)])
  have "(0 < (of_nat n - of_nat e :: u32) \<and> (of_nat n - of_nat e :: u32) \<le> 16) = (e < n)"
    using g n(2) by (simp add: word_less_nat_alt word_le_nat_alt) (use n in linarith)
  then have played: "frames_played t1 = frames_played t + 1 + (n - e)"
    using eff(4) g Cons.prems(3) by auto
  have "receive_all L bs (t1, s1) = (t', s')" using Cons.prems(6) r by (simp add: as receive_all_def)
  moreover have "expects t1 = Some (of_nat (n + 1))" using eff(1) by (simp add: add.commute)
  ultimately have "frames_played t' + (n + 1) = frames_played t1 + next_number (n + 1) ns \<and> rt_codec t' = c \<and> \<not> spk_muted s'"
    using Cons.IH [OF eff(2,3) _ n(3) vs] by simp
  then show ?case unfolding next_number.simps using played n(1) by linarith
qed

text \<open>
  A stretch of voice of one codec, with the numbers of its packets: those of Opus leave at most 16 out between
  two of them.  Opus stretches are played with their gaps, Codec2 stretches packet by packet.
\<close>

definition close_run :: "CodecId \<times> nat list \<Rightarrow> bool" where
  "close_run r \<longleftrightarrow> fst r \<noteq> ComfortNoise \<and> snd r \<noteq> [] \<and>
     (is_opus (fst r) \<longrightarrow> close_numbers (hd (snd r) + 1) (tl (snd r)))"

definition run_frames :: "CodecId \<times> nat list \<Rightarrow> nat" where
  "run_frames r = (if is_opus (fst r) then last (snd r) + 1 - hd (snd r) else length (snd r))"

definition run_packets :: "CodecId \<times> nat list \<Rightarrow> (CodecId \<times> nat) list" where
  "run_packets r = map (Pair (fst r)) (snd r)"

abbreviation carries_voice :: "CodecId \<times> nat \<Rightarrow> arrival \<Rightarrow> bool" where
  "carries_voice cn a \<equiv> voice (fst cn) (of_nat (snd cn)) (ar_packet a)"

lemma close_numbers_last: "close_numbers e ns \<Longrightarrow> ns \<noteq> [] \<Longrightarrow> e \<le> last ns"
  by (induction e ns rule: close_numbers.induct) force+

lemma receive_packets:
  assumes "conceals L" and "c \<noteq> ComfortNoise" and "\<not> is_opus c" and "\<not> spk_muted s" and "rt_codec t = c \<or> ns \<noteq> []"
    and "list_all2 (\<lambda>n a. voice c (of_nat n) (ar_packet a)) ns as"
    and "receive_all L as (t, s) = (t', s')"
  shows "frames_played t' = frames_played t + length ns \<and> rt_codec t' = c \<and> \<not> spk_muted s'"
  using assms(4-)
proof (induction ns arbitrary: as t s)
  case Nil
  then show ?case by (simp add: receive_all_def)
next
  case (Cons n ns)
  obtain a bs where as: "as = a # bs" and va: "voice c (of_nat n) (ar_packet a)"
    and vs: "list_all2 (\<lambda>n a. voice c (of_nat n) (ar_packet a)) ns bs"
    using Cons.prems(3) by (auto simp: list_all2_Cons1)
  obtain t1 s1 where r: "recv_audio L (ar_auto a) (ar_now a) (ar_snap a) (ar_packet a) (t, s) = (t1, s1)"
    by fastforce
  note eff = recv_packet_effect [OF assms(1,2) va Cons.prems(1) r]
  have "receive_all L bs (t1, s1) = (t', s')" using Cons.prems(4) r by (simp add: as receive_all_def)
  from Cons.IH [OF eff(3) _ vs this] show ?case using eff(2,4) assms(3) by simp
qed

lemma receive_run:
  assumes "conceals L" and "\<not> spk_muted s" and "expects t = None \<or> rt_codec t \<noteq> fst r" and "close_run r"
    and "list_all2 carries_voice (run_packets r) as" and "receive_all L as (t, s) = (t', s')"
  shows "frames_played t' = frames_played t + run_frames r \<and> rt_codec t' = fst r \<and> \<not> spk_muted s'"
proof -
  obtain c n ns where rr: "r = (c, n # ns)" using assms(4) by (cases r; cases "snd r") (auto simp: close_run_def)
  have vs: "list_all2 (\<lambda>n a. voice c (of_nat n) (ar_packet a)) (n # ns) as"
    using assms(5) unfolding rr run_packets_def list_all2_map1 fst_conv snd_conv .
  have cn: "c \<noteq> ComfortNoise" using assms(4) by (simp add: rr close_run_def)
  show ?thesis
  proof (cases "is_opus c")
    case False
    then show ?thesis
      using receive_packets [OF assms(1) cn False assms(2) _ vs assms(6)] by (simp add: rr run_frames_def)
  next
    case True
    have close: "close_numbers (n + 1) ns" using assms(4) True by (simp add: rr close_run_def)
    obtain a bs where as: "as = a # bs" and va: "voice c (of_nat n) (ar_packet a)"
      and vb: "list_all2 (\<lambda>n a. voice c (of_nat n) (ar_packet a)) ns bs"
      using vs by (auto simp: list_all2_Cons1)
    obtain t1 s1 where ra: "recv_audio L (ar_auto a) (ar_now a) (ar_snap a) (ar_packet a) (t, s) = (t1, s1)"
      by fastforce
    note eff = recv_packet_effect [OF assms(1) cn va assms(2) ra]
    have fresh: "expects_for c t = None" using assms(3) by (auto simp: rr expects_for_def)
    have "expects t1 = Some (of_nat (n + 1))" using eff(1) True by (simp add: add.commute)
    moreover have "receive_all L bs (t1, s1) = (t', s')" using assms(6) ra by (simp add: as receive_all_def)
    ultimately have "frames_played t' + (n + 1) = frames_played t1 + next_number (n + 1) ns \<and> rt_codec t' = c \<and>
        \<not> spk_muted s'"
      by (rule receive_close [OF assms(1) True eff(2,3) _ close vb])
    moreover have "ns \<noteq> [] \<Longrightarrow> n + 1 \<le> last ns" using close_numbers_last [OF close] .
    ultimately show ?thesis using eff(4) True fresh by (auto simp: rr run_frames_def next_number_last)
  qed
qed

text \<open>
  C22 (functional). Losses are filled one for one, within a codec.  With a decoder that never fails and the
  speaker on, let voice arrive in order, in stretches of one codec each, with at most 16 numbers missing between
  two Opus packets of a stretch.  For a stretch of Opus the loop plays exactly as many frames as there are
  numbers from its first packet to its last, one for each packet and one for each that is missing,
  reconstructed or concealed.  For a stretch of Codec2 it plays one frame for each packet, whatever is missing,
  and nothing is filled in where the codec changes.
\<close>

theorem gaps_are_filled_exactly:
  assumes "conceals L" and "\<not> spk_muted s" and "expects t = None"
    and "list_all close_run runs" and "distinct_adj (map fst runs)"
    and "list_all2 carries_voice (concat (map run_packets runs)) as"
    and "receive_all L as (t, s) = (t', s')"
  shows "frames_played t' = frames_played t + sum_list (map run_frames runs)"
proof -
  have "expects t = None \<or> runs = [] \<or> rt_codec t \<noteq> fst (hd runs)" using assms(3) by simp
  then show ?thesis using assms(2,4-)
  proof (induction runs arbitrary: as t s)
    case Nil
    then show ?case by (simp add: receive_all_def)
  next
    case (Cons r runs)
    from Cons.prems(5) obtain xs ys where as: "as = xs @ ys" "list_all2 carries_voice (run_packets r) xs"
      "list_all2 carries_voice (concat (map run_packets runs)) ys"
      by (auto simp: list_all2_append1)
    obtain t1 s1 where r1: "receive_all L xs (t, s) = (t1, s1)" by fastforce
    have run: "frames_played t1 = frames_played t + run_frames r \<and> rt_codec t1 = fst r \<and> \<not> spk_muted s1"
      using receive_run [OF assms(1) Cons.prems(2) _ _ as(2) r1] Cons.prems(1,3) by simp
    have rest: "receive_all L ys (t1, s1) = (t', s')" using Cons.prems(6) r1 by (simp add: as(1) receive_all_def)
    have fresh: "expects t1 = None \<or> runs = [] \<or> rt_codec t1 \<noteq> fst (hd runs)"
      using run Cons.prems(4) by (cases runs) auto
    have "frames_played t' = frames_played t1 + sum_list (map run_frames runs)"
      by (rule Cons.IH [OF fresh _ _ _ as(3) rest]) (use run Cons.prems(3,4) in \<open>auto simp: distinct_adj_Cons\<close>)
    then show ?case using run by simp
  qed
qed

text \<open>
  Also (error). A late packet repeats what was played.  A packet that comes \<open>k\<close> numbers late sets the expected
  number back behind itself; the next packet in order then looks like the end of a gap, and \<open>k - 1\<close> frames
  that were played before are filled in once more.
\<close>

theorem late_packet_repeats_frames:
  assumes "conceals L" and "is_opus c" and "rt_codec t = c" and "\<not> spk_muted s"
    and "expects t = Some (of_nat e)" and "2 \<le> k" and "k \<le> 17" and "k \<le> e"
    and "voice c (of_nat (e - k)) (ar_packet late)" and "voice c (of_nat e) (ar_packet due)"
    and "receive_all L [late, due] (t, s) = (t', s')"
  shows "frames_played t' = frames_played t + 2 + (k - 1)"
proof -
  obtain t1 s1 where r1: "recv_audio L (ar_auto late) (ar_now late) (ar_snap late) (ar_packet late) (t, s) = (t1, s1)"
    by fastforce
  have r2: "recv_audio L (ar_auto due) (ar_now due) (ar_snap due) (ar_packet due) (t1, s1) = (t', s')"
    using assms(11) r1 by (simp add: receive_all_def)
  note eff1 = recv_audio_effect [OF assms(1,2,3,9,4) r1]
  note eff2 = recv_audio_effect [OF assms(1,2) eff1(2) assms(10) eff1(3) r2]
  have "(of_nat (e - k) - of_nat e :: u32) = - of_nat k" using assms(8) by (simp add: of_nat_diff)
  moreover have "\<not> (- of_nat k :: u32) \<le> 16"
  proof -
    have "(of_nat (2 ^ 32 - k) :: u32) = - of_nat k" using assms(7) by (subst of_nat_diff) simp_all
    moreover have "unat (of_nat (2 ^ 32 - k) :: u32) = 2 ^ 32 - k"
      using assms(6,7) by (subst unat_of_nat) simp
    ultimately have "unat (- of_nat k :: u32) = 2 ^ 32 - k" by simp
    then show ?thesis using assms(7) by (simp add: word_le_nat_alt)
  qed
  ultimately have "frames_played t1 = frames_played t + 1" using eff1(4) assms(5) by simp
  moreover have "unat (of_nat e - of_nat (e - k + 1) :: u32) = k - 1"
    using gap_word [of "e - k + 1" e] assms(6-8) by simp
  moreover have "expects t1 = Some (of_nat (e - k + 1))" using eff1(1) by (simp add: add.commute)
  moreover have "0 < (of_nat e - of_nat (e - k + 1) :: u32)" "(of_nat e - of_nat (e - k + 1) :: u32) \<le> 16"
    unfolding word_less_nat_alt word_le_nat_alt calculation(2) using assms(6,7) by simp_all
  ultimately show ?thesis using eff2(4) by simp
qed

section \<open>The relay's signals\<close>

text \<open>
  Also (functional). A directive of the relay reaches the encoder.  In automatic mode, the profile of a tier that
  the relay recommends is what the encoder runs after the next frame, whatever the receive loop had
  recommended before.
\<close>

theorem directive_reaches_encoder:
  assumes "accepts L (tier_profile T)"
    and "signal_turn (Received (QualityDirective (tier_profile T))) s = (True, in_shared i)"
    and "send_one L F tune True active cap i t = (SendFrame res, rest, t', s')"
  shows "ce_profile (sd_encoder t') = tier_profile T \<and> sd_tx_codec t' = codec (tier_profile T) \<and>
    sd_frame_samples t' = frame_len (tier_profile T)"
proof -
  have "in_shared i = s\<lparr>pending_index := profile_to_index (tier_profile T)\<rparr>"
    using assms(2) by (simp add: signal_turn_def split: if_splits)
  then have idx: "pending_index (in_shared i) = profile_to_index (tier_profile T)" by simp
  have tier: "profile_to_index (tier_profile T) \<noteq> PROFILE_NO_CHANGE"
    "index_to_profile (profile_to_index (tier_profile T)) = Some (tier_profile T)"
    by (cases T; simp add: profile_to_index_def index_to_profile_def profile_defs)+
  from assms(3) show ?thesis
  proof (cases rule: send_one_frame)
    case (1 t1 e s1)
    let ?u = "snd (send_switch L (tier_profile T) (t1\<lparr>sd_encoder := e\<rparr>))"
    have "t' = send_report (in_snap2 i) (send_poll_dred tune (in_snap1 i) ?u)"
      using 1(3,4) idx tier by (auto simp: send_apply_pending_def Let_def)
    then have "profile_view t' = profile_view ?u" by simp
    then show ?thesis
      using send_switch_accepted(2) [OF assms(1), of "t1\<lparr>sd_encoder := e\<rparr>"] by (simp add: profile_view_def)
  qed
qed

text \<open>
  Also (invariant). The room list names everyone once.  The list shown after a room update has no two entries with
  the same fingerprint and alias, and an entry for every fingerprint and alias that the relay listed.
\<close>

lemma unique_participants_props:
  "distinct (map (\<lambda>p. (pi_fingerprint p, pi_alias p)) (unique_participants seen ps)) \<and>
   (\<lambda>p. (pi_fingerprint p, pi_alias p)) ` set (unique_participants seen ps) =
     (\<lambda>p. (pi_fingerprint p, pi_alias p)) ` set ps - seen"
  by (induction seen ps rule: unique_participants.induct) auto

theorem room_list_is_unique:
  assumes "signal_turn (Received (RoomUpdate ps)) s = (True, s')"
  shows "distinct (map (\<lambda>p. (pi_fingerprint p, pi_alias p)) (participants s')) \<and>
    (\<lambda>p. (pi_fingerprint p, pi_alias p)) ` set (participants s') = (\<lambda>p. (pi_fingerprint p, pi_alias p)) ` set ps"
proof -
  have "s' = s\<lparr>participants := unique_participants {} ps\<rparr>"
    using assms by (simp add: signal_turn_def split: if_splits)
  then show ?thesis using unique_participants_props [of "{}" ps] by simp
qed

section \<open>The watchdog\<close>

fun watchdog_events :: "nat list \<Rightarrow> Watchdog \<Rightarrow> media_event list \<times> Watchdog" where
  "watchdog_events [] w = ([], w)"
| "watchdog_events (fr # frs) w =
     (let (es, w) = watchdog_tick fr w; (fs, w) = watchdog_events frs w in (es @ fs, w))"

fun alternates :: "bool \<Rightarrow> media_event list \<Rightarrow> bool" where
  "alternates d [] = True"
| "alternates d (MediaDegraded # es) \<longleftrightarrow> \<not> d \<and> alternates True es"
| "alternates d (MediaRecovered # es) \<longleftrightarrow> d \<and> alternates False es"

lemma watchdog_tick_cases:
  assumes "watchdog_tick fr w = (es, w')" and "media_degraded w = (3 \<le> no_recv_ticks w)"
  shows "es = (if media_degraded w' = media_degraded w then []
           else if media_degraded w' then [MediaDegraded] else [MediaRecovered])
    \<and> media_degraded w' = (3 \<le> no_recv_ticks w') \<and> wd_last_fr w' = fr
    \<and> no_recv_ticks w' = (if fr = wd_last_fr w then no_recv_ticks w + 1 else 0)"
  using assms by (auto simp: watchdog_tick_def Let_def split: if_splits)

lemma watchdog_events_ok:
  assumes "watchdog_events frs w = (es, w')" and "media_degraded w = (3 \<le> no_recv_ticks w)"
  shows "alternates (media_degraded w) es \<and> media_degraded w' = (3 \<le> no_recv_ticks w')"
  using assms
proof (induction frs arbitrary: w es w')
  case (Cons fr frs)
  obtain e1 w1 where t: "watchdog_tick fr w = (e1, w1)" by fastforce
  obtain e2 w2 where r: "watchdog_events frs w1 = (e2, w2)" by fastforce
  have es: "es = e1 @ e2" "w' = w2" using Cons.prems(1) t r by (simp_all add: Let_def)
  note c = watchdog_tick_cases [OF t Cons.prems(2)]
  have "alternates (media_degraded w1) e2 \<and> media_degraded w2 = (3 \<le> no_recv_ticks w2)"
    using Cons.IH [OF r] c by blast
  then show ?case using c es by auto
qed simp

text \<open>
  Also (liveness). The user is told once when the media stop and once when they come back.  Over any sequence of
  heartbeats the two events alternate, beginning with the stop, and the engine takes the media for stopped
  exactly when the last three heartbeats or more saw no new frame.
\<close>

fun idle_beats :: "nat list \<Rightarrow> nat" where
  "idle_beats [] = 0"
| "idle_beats [x] = (if x = 0 then 1 else 0)"
| "idle_beats (x # y # xs) = (if x = y then idle_beats (y # xs) + 1 else 0)"

lemma watchdog_events_snoc:
  "watchdog_events (frs @ [fr]) w =
     (let (es, w) = watchdog_events frs w; (fs, w) = watchdog_tick fr w in (es @ fs, w))"
  by (induction frs arbitrary: w) (auto simp: Let_def split: prod.split)

lemma watchdog_idle:
  "snd (watchdog_events frs watchdog_new) = w \<Longrightarrow>
     no_recv_ticks w = idle_beats (rev frs) \<and> wd_last_fr w = (if frs = [] then 0 else last frs) \<and>
     media_degraded w = (3 \<le> no_recv_ticks w)"
proof (induction frs arbitrary: w rule: rev_induct)
  case Nil
  then show ?case by (auto simp: watchdog_new_def)
next
  case (snoc fr frs)
  obtain es w1 where e: "watchdog_events frs watchdog_new = (es, w1)" by fastforce
  obtain fs w2 where t: "watchdog_tick fr w1 = (fs, w2)" by fastforce
  have IH: "no_recv_ticks w1 = idle_beats (rev frs)" "wd_last_fr w1 = (if frs = [] then 0 else last frs)"
    "media_degraded w1 = (3 \<le> no_recv_ticks w1)" using snoc.IH e by simp_all
  have "w = w2" using snoc.prems e t by (simp add: watchdog_events_snoc Let_def)
  then show ?case
    using watchdog_tick_cases [OF t IH(3)] IH
    by (cases frs rule: rev_cases) auto
qed

theorem watchdog_tells_once:
  "alternates False (fst (watchdog_events frs watchdog_new)) \<and>
   (media_degraded (snd (watchdog_events frs watchdog_new)) \<longleftrightarrow> 3 \<le> idle_beats (rev frs))"
proof -
  obtain es w where e: "watchdog_events frs watchdog_new = (es, w)" by fastforce
  then show ?thesis
    using watchdog_events_ok [OF e] watchdog_idle [of frs w] by (auto simp: watchdog_new_def)
qed

section \<open>What the video receiver shows and asks for\<close>

fun video_run :: "('v, 'f) video_dec_lib \<Rightarrow> u32 \<Rightarrow> u32 \<Rightarrow> (nat \<times> MediaPacket) list \<Rightarrow>
    ('v, 'f) VideoRecv \<times> EngineShared \<Rightarrow> ('v, 'f) VideoRecv \<times> EngineShared" where
  "video_run V w0 h0 [] st = st"
| "video_run V w0 h0 ((now, pkt) # ps) st = video_run V w0 h0 ps (recv_video V w0 h0 now pkt st)"

text \<open>Do the packets complete a keyframe in the reassembler?\<close>

fun completes_keyframe :: "MediaPacket list \<Rightarrow> VideoReassembler \<Rightarrow> bool" where
  "completes_keyframe [] ra = False"
| "completes_keyframe (pkt # ps) ra =
     (case reassembler_push pkt ra of
        (None, ra) \<Rightarrow> completes_keyframe ps ra
      | (Some f, ra) \<Rightarrow>
          rf_is_keyframe f \<or> completes_keyframe ps (evict_stale (timestamp (header pkt)) 5000 ra))"

fun after_push :: "MediaPacket \<Rightarrow> VideoReassembler \<Rightarrow> VideoReassembler" where
  "after_push pkt ra =
     (case reassembler_push pkt ra of
        (None, ra) \<Rightarrow> ra
      | (Some f, ra) \<Rightarrow> evict_stale (timestamp (header pkt)) 5000 ra)"

lemma observe_packet_waits: "wait_for_keyframe c \<Longrightarrow> wait_for_keyframe (snd (observe_packet sq c))"
  by (simp add: observe_packet_def Let_def split: option.split)

lemma should_send_pli_waits [simp]: "wait_for_keyframe (snd (should_send_pli now c)) = wait_for_keyframe c"
  by (simp add: should_send_pli_def)

lemma note_gap_waits:
  assumes "wait_for_keyframe (vr_continuity r)"
  shows "wait_for_keyframe (vr_continuity (video_note_gap now pkt r))"
  using observe_packet_waits [OF assms, of "seq (header pkt)"]
    should_send_pli_waits [of now "snd (observe_packet (seq (header pkt)) (vr_continuity r))"]
  by (auto simp: video_note_gap_def Let_def case_prod_beta simp del: should_send_pli_waits split: option.split)

lemma note_gap_keeps [simp]:
  "vr_shown (video_note_gap now pkt r) = vr_shown r"
  "vr_reassembler (video_note_gap now pkt r) = vr_reassembler r"
  by (auto simp: video_note_gap_def Let_def split: prod.split option.split)

lemma waiting_step:
  assumes "wait_for_keyframe (vr_continuity (video_note_gap now pkt r))"
    and "\<not> completes_keyframe [pkt] (vr_reassembler r)"
    and "recv_video V w0 h0 now pkt (r, s) = (r', s')"
  shows "vr_shown r' = vr_shown r" and "wait_for_keyframe (vr_continuity r')"
    and "vr_reassembler r' = after_push pkt (vr_reassembler r)" and "s' = s"
    and "vr_plis r' = vr_plis (video_note_gap now pkt r)"
    and "vc_expected_seq (vr_continuity r') = vc_expected_seq (vr_continuity (video_note_gap now pkt r))"
    and "last_pli_sent (vr_continuity r') = last_pli_sent (vr_continuity (video_note_gap now pkt r))"
proof -
  obtain fr ra where p: "reassembler_push pkt (vr_reassembler r) = (fr, ra)" by fastforce
  have "vr_shown r' = vr_shown r \<and> wait_for_keyframe (vr_continuity r') \<and>
      vr_reassembler r' = after_push pkt (vr_reassembler r) \<and> s' = s \<and>
      vr_plis r' = vr_plis (video_note_gap now pkt r) \<and>
      vc_expected_seq (vr_continuity r') = vc_expected_seq (vr_continuity (video_note_gap now pkt r)) \<and>
      last_pli_sent (vr_continuity r') = last_pli_sent (vr_continuity (video_note_gap now pkt r))"
  proof (cases fr)
    case None
    then have "r' = (video_note_gap now pkt r)\<lparr>vr_reassembler := ra\<rparr>" "s' = s"
      using assms(3) p by (simp_all add: recv_video_def Let_def)
    then show ?thesis using assms(1) p None by simp
  next
    case (Some f)
    then have kf: "\<not> rf_is_keyframe f" using assms(2) p by simp
    have "should_decode (rf_is_keyframe f) (vr_continuity (video_note_gap now pkt r)) =
        (False, (vr_continuity (video_note_gap now pkt r))
          \<lparr>dropped_frames := dropped_frames (vr_continuity (video_note_gap now pkt r)) + 1\<rparr>)"
      using assms(1) kf by (simp add: should_decode_def)
    then show ?thesis using assms(1,3) p Some by (auto simp: recv_video_def Let_def)
  qed
  then show "vr_shown r' = vr_shown r" "wait_for_keyframe (vr_continuity r')"
    "vr_reassembler r' = after_push pkt (vr_reassembler r)" "s' = s"
    "vr_plis r' = vr_plis (video_note_gap now pkt r)"
    "vc_expected_seq (vr_continuity r') = vc_expected_seq (vr_continuity (video_note_gap now pkt r))"
    "last_pli_sent (vr_continuity r') = last_pli_sent (vr_continuity (video_note_gap now pkt r))"
    by blast+
qed

lemma completes_keyframe_Cons:
  "completes_keyframe (pkt # ps) ra \<longleftrightarrow> completes_keyframe [pkt] ra \<or> completes_keyframe ps (after_push pkt ra)"
  by (simp split: prod.split option.split)

text \<open>
  Also (safety). After a gap nothing is shown until a keyframe.  Once the receiver waits for a keyframe, no packets
  make it show a picture as long as they complete no keyframe, however many frames they complete.
\<close>

theorem nothing_shown_until_keyframe:
  assumes "wait_for_keyframe (vr_continuity r)"
    and "\<not> completes_keyframe (map snd ps) (vr_reassembler r)"
    and "video_run V w0 h0 ps (r, s) = (r', s')"
  shows "vr_shown r' = vr_shown r \<and> wait_for_keyframe (vr_continuity r')"
  using assms
proof (induction ps arbitrary: r s)
  case (Cons e ps)
  obtain now pkt where e: "e = (now, pkt)" by (cases e)
  obtain r1 s1 where r1: "recv_video V w0 h0 now pkt (r, s) = (r1, s1)" by fastforce
  have nk: "\<not> completes_keyframe [pkt] (vr_reassembler r)"
    "\<not> completes_keyframe (map snd ps) (after_push pkt (vr_reassembler r))"
    using Cons.prems(2) completes_keyframe_Cons [of pkt "map snd ps" "vr_reassembler r"] by (auto simp: e)
  note w = waiting_step [OF note_gap_waits [OF Cons.prems(1)] nk(1) r1]
  show ?case using Cons.IH [OF w(2), of s1] w(1,3) nk(2) Cons.prems(3) r1 by (simp add: e)
qed simp

text \<open>
  Also (liveness). A second gap asks nobody.  A gap within 250 milliseconds of the last request is not reported to
  the sender.  If the packets after it arrive without further loss but complete no keyframe, no request is
  ever sent and nothing is shown again, however long the stream goes on: the picture stays frozen until the
  sender's periodic keyframe.
\<close>

fun consecutive :: "u32 \<Rightarrow> MediaPacket list \<Rightarrow> bool" where
  "consecutive sq [] = True"
| "consecutive sq (p # ps) \<longleftrightarrow> seq (header p) = sq \<and> consecutive (sq + 1) ps"

lemma in_order_waits:
  assumes "wait_for_keyframe (vr_continuity r)" and "vc_expected_seq (vr_continuity r) = Some sq"
    and "consecutive sq (map snd ps)"
    and "\<not> completes_keyframe (map snd ps) (vr_reassembler r)"
    and "video_run V w0 h0 ps (r, s) = (r', s')"
  shows "vr_shown r' = vr_shown r \<and> vr_plis r' = vr_plis r"
  using assms
proof (induction ps arbitrary: r s sq)
  case (Cons e ps)
  obtain now pkt where e: "e = (now, pkt)" by (cases e)
  obtain r1 s1 where r1: "recv_video V w0 h0 now pkt (r, s) = (r1, s1)" by fastforce
  have sq: "seq (header pkt) = sq" "consecutive (sq + 1) (map snd ps)" using Cons.prems(3) by (simp_all add: e)
  have g: "video_note_gap now pkt r = r\<lparr>vr_continuity := (vr_continuity r)\<lparr>vc_expected_seq := Some (sq + 1)\<rparr>\<rparr>"
    using Cons.prems(2) sq(1) by (simp add: video_note_gap_def observe_packet_def)
  have nk: "\<not> completes_keyframe [pkt] (vr_reassembler r)"
    "\<not> completes_keyframe (map snd ps) (after_push pkt (vr_reassembler r))"
    using Cons.prems(4) completes_keyframe_Cons [of pkt "map snd ps" "vr_reassembler r"] by (auto simp: e)
  note w = waiting_step [OF note_gap_waits [OF Cons.prems(1)] nk(1) r1]
  have "vr_plis r1 = vr_plis r" "vc_expected_seq (vr_continuity r1) = Some (sq + 1)"
    using w(5,6) by (simp_all add: g)
  then show ?case
    using Cons.IH [OF w(2) _ sq(2), of s1] w(1,3) nk(2) Cons.prems(5) r1 by (simp add: e)
qed simp

theorem second_gap_asks_nobody:
  assumes "vc_expected_seq (vr_continuity r) = Some expected"
    and "last_pli_sent (vr_continuity r) = Some t0" and "now < t0 + 250"
    and "0 < seq (header pkt) - expected" and "seq (header pkt) - expected < 10000"
    and "consecutive (seq (header pkt) + 1) (map snd ps)"
    and "\<not> completes_keyframe (pkt # map snd ps) (vr_reassembler r)"
    and "video_run V w0 h0 ((now, pkt) # ps) (r, s) = (r', s')"
  shows "vr_shown r' = vr_shown r \<and> vr_plis r' = vr_plis r"
proof -
  obtain r1 s1 where r1: "recv_video V w0 h0 now pkt (r, s) = (r1, s1)" by fastforce
  have g: "video_note_gap now pkt r = r\<lparr>vr_continuity := (vr_continuity r)\<lparr>vc_expected_seq := Some (seq (header pkt) + 1),
      gaps := gaps (vr_continuity r) + 1, wait_for_keyframe := True\<rparr>\<rparr>"
    using assms(1-5) by (simp add: video_note_gap_def observe_packet_def should_send_pli_def Let_def)
  have nk: "\<not> completes_keyframe [pkt] (vr_reassembler r)"
    "\<not> completes_keyframe (map snd ps) (after_push pkt (vr_reassembler r))"
    using assms(7) completes_keyframe_Cons [of pkt "map snd ps" "vr_reassembler r"] by auto
  have "wait_for_keyframe (vr_continuity (video_note_gap now pkt r))" by (simp add: g)
  note w = waiting_step [OF this nk(1) r1]
  have "vr_plis r1 = vr_plis r" "vc_expected_seq (vr_continuity r1) = Some (seq (header pkt) + 1)"
    using w(5,6) by (simp_all add: g)
  moreover have "video_run V w0 h0 ps (r1, s1) = (r', s')" using assms(8) r1 by simp
  ultimately show ?thesis
    using in_order_waits [OF w(2) _ assms(6), of V w0 h0 s1 r' s'] w(1,3) nk(2) by simp
qed

section \<open>Examples\<close>

definition echo_lib :: "(unit, unit) decoder_lib" where
  "echo_lib = \<lparr>dec_packet = (\<lambda>b s. (Some [1], s)), dec_lost = (\<lambda>s. (Some [2], s)),
     dec_dred = (\<lambda>r i s. (None, s)), dec_set_profile = (\<lambda>p s. (True, s)), dred_parse = (\<lambda>b. None),
     samples_available = (\<lambda>r. 0)\<rparr>"

definition voice_packet :: "u32 \<Rightarrow> MediaPacket" where
  "voice_packet sq = \<lparr>header = \<lparr>version = 2, flags = 0, media_type = Audio, codec_id = Opus24k, stream_id = 0,
     fec_ratio_wire = 0, seq = sq, timestamp = 0, fec_block = 0\<rparr>, payload = [7], quality_report = None\<rparr>"

definition quiet_snap :: PathSnapshot where
  "quiet_snap = \<lparr>snap_sent = 0, snap_lost = 0, snap_loss_pct = 7, snap_rtt_ms = 40, snap_jitter_ms = 3\<rparr>"

definition plain_arrival :: "u32 \<Rightarrow> arrival" where
  "plain_arrival sq = \<lparr>ar_auto = False, ar_now = 0, ar_snap = quiet_snap, ar_packet = voice_packet sq\<rparr>"

definition count_lib :: "(nat, nat, nat) audio_lib" where
  "count_lib =
     \<lparr>aec_process = Pair, denoise_process = Pair,
      audio_encode = (\<lambda>p n. (Some [7], n + 1)), audio_set_profile = (\<lambda>_ n. (True, n))\<rparr>"

lemma example_facts:
  "conceals echo_lib" "accepts count_lib p" "voice Opus24k sq (ar_packet (plain_arrival sq))"
  by (simp_all add: conceals_def echo_lib_def accepts_def count_lib_def voice_def plain_arrival_def
      voice_packet_def is_repair_def FLAG_REPAIR_def)

definition note_tuning :: "DredTuning \<Rightarrow> nat \<Rightarrow> nat" where
  "note_tuning x e = e + dred_frames x"

definition plain_input :: turn_input where
  "plain_input = \<lparr>in_snap1 = quiet_snap, in_snap2 = quiet_snap, in_captured = [], in_shared = engine_shared_new\<rparr>"

theorem chosen_quality_is_overridden_witness:
  "sd_tx_codec (send_turns count_lib plain_fountain note_tuning (resolve_quality ''studio-64k'' = None) GOOD None
     [plain_input] (send_task_new ''studio-64k'' 0 0 0)) = Opus24k"
  using chosen_quality_is_overridden [of "''studio-64k''" STUDIO_64K count_lib "[plain_input]" plain_fountain
      note_tuning 0 0 0]
  by (simp add: example_facts settled_def profile_view_def resolve_quality_def GOOD_def audio_profile_def)

theorem long_frames_panic_witness:
  "fst (send_turn count_lib plain_fountain note_tuning True (GOOD\<lparr>profile_frame_ms := 60\<rparr>) None quiet_snap quiet_snap
     (replicate 2880 0) (send_task_new ''auto'' 0 0 0, engine_shared_new)) = SendPanic"
  by (rule long_frames_panic)
    (simp_all add: example_facts send_task_new_def engine_shared_new_def frame_len_def Let_def)

definition arrival_of :: "CodecId \<times> nat \<Rightarrow> arrival" where
  "arrival_of cn = (plain_arrival (of_nat (snd cn)))\<lparr>ar_packet :=
     (voice_packet (of_nat (snd cn)))\<lparr>header := (header (voice_packet (of_nat (snd cn))))\<lparr>codec_id := fst cn\<rparr>\<rparr>\<rparr>"

lemma arrival_of_carries: "carries_voice cn (arrival_of cn)"
  by (simp add: arrival_of_def plain_arrival_def voice_packet_def voice_def is_repair_def FLAG_REPAIR_def)

definition mixed_runs :: "(CodecId \<times> nat list) list" where
  "mixed_runs = [(Opus24k, [5, 6, 9]), (Codec2_1200, [12, 14]), (Opus6k, [17, 20])]"

theorem gaps_are_filled_exactly_witness:
  "frames_played (fst (receive_all echo_lib (map arrival_of (concat (map run_packets mixed_runs)))
     (recv_task_new ''good'' () (), engine_shared_new))) = 5 + 2 + 4"
proof -
  let ?as = "map arrival_of (concat (map run_packets mixed_runs))"
  obtain t' s' where r: "receive_all echo_lib ?as
      (recv_task_new ''good'' () (), engine_shared_new) = (t', s')" by fastforce
  have "list_all2 carries_voice (concat (map run_packets mixed_runs)) ?as"
    by (simp add: list_all2_map2 list_all2_same arrival_of_carries)
  from gaps_are_filled_exactly [OF example_facts(1) _ _ _ _ this r]
  have "frames_played t' = frames_played (recv_task_new ''good'' () () :: (unit, unit) RecvTask) +
      sum_list (map run_frames mixed_runs)"
    by (simp add: mixed_runs_def close_run_def is_opus_def engine_shared_new_def expects_def dred_recv_new_def
        recv_task_new_def Let_def)
  moreover have "frames_played (recv_task_new ''good'' () () :: (unit, unit) RecvTask) = 0"
    by (simp add: recv_task_new_def frames_played_def Let_def)
  ultimately show ?thesis unfolding r by (simp add: mixed_runs_def run_frames_def is_opus_def)
qed

definition waiting_at_ten :: "(unit, unit) RecvTask" where
  "waiting_at_ten = (recv_task_new ''good'' () ())\<lparr>rt_dred := (dred_recv_new ())\<lparr>dr_expected_seq := Some 10\<rparr>\<rparr>"

theorem late_packet_repeats_frames_witness:
  "frames_played (fst (receive_all echo_lib [plain_arrival 7, plain_arrival 10] (waiting_at_ten, engine_shared_new))) = 4"
proof -
  obtain t' s' where r: "receive_all echo_lib [plain_arrival 7, plain_arrival 10]
      (waiting_at_ten, engine_shared_new) = (t', s')" by fastforce
  have "frames_played t' = frames_played waiting_at_ten + 2 + (3 - 1)"
    by (rule late_packet_repeats_frames [OF example_facts(1) _ _ _ _ _ _ _ _ _ r, of Opus24k 10 3])
      (simp_all add: is_opus_def waiting_at_ten_def recv_task_new_def resolve_quality_def GOOD_def audio_profile_def
        engine_shared_new_def expects_def example_facts(3) Let_def)
  moreover have "frames_played waiting_at_ten = 0"
    by (simp add: waiting_at_ten_def recv_task_new_def frames_played_def Let_def)
  ultimately show ?thesis unfolding r by simp
qed

lemma empty_frame_sent:
  assumes "settled (GOOD\<lparr>profile_frame_ms := 0\<rparr>) t \<or> sd_last_applied t = None"
  shows "\<exists>res rest t' s'. send_one count_lib plain_fountain note_tuning False (GOOD\<lparr>profile_frame_ms := 0\<rparr>) None plain_input t
      = (SendFrame res, rest, t', s') \<and> settled (GOOD\<lparr>profile_frame_ms := 0\<rparr>) t'
      \<and> sd_since_report t' = (if 49 \<le> sd_since_report t then 0 else sd_since_report t + 1)"
proof -
  let ?p = "GOOD\<lparr>profile_frame_ms := 0\<rparr>"
  have eff: "effective_profile ?p None = ?p" by (simp add: effective_profile_def)
  have "settled ?p (send_apply_effective count_lib ?p None t)"
    using send_apply_effective_settles [of count_lib ?p None t] assms by (auto simp: eff example_facts(2))
  then have "sd_frame_samples (send_apply_effective count_lib ?p None t) = 0"
    by (simp add: settled_def profile_view_def frame_len_def)
  then have "\<exists>res. fst (send_one count_lib plain_fountain note_tuning False ?p None plain_input t) = SendFrame res"
    by (simp add: send_one_def send_turn_def plain_input_def engine_shared_new_def Let_def case_prod_beta)
  then obtain res rest t' s' where o1: "send_one count_lib plain_fountain note_tuning False ?p None plain_input t
      = (SendFrame res, rest, t', s')"
    by (metis prod.collapse)
  have "settled ?p t'"
    using manual_turn_settles [of count_lib ?p None t plain_fountain note_tuning plain_input] assms
    by (auto simp: eff example_facts(2) o1)
  moreover have "sd_since_report t' = (if 49 \<le> sd_since_report t then 0 else sd_since_report t + 1)"
    using o1
  proof (cases rule: frame_counters)
    case (1 u)
    then show ?thesis
      using send_poll_dred_counters [of note_tuning "in_snap1 plain_input" u]
        send_report_counters [of "in_snap2 plain_input" "send_poll_dred note_tuning (in_snap1 plain_input) u"]
      by (auto simp: counters_def)
  qed
  ultimately show ?thesis using o1 by blast
qed

lemma empty_frames_counted:
  "n \<le> 49 \<Longrightarrow> let t = send_turns count_lib plain_fountain note_tuning False (GOOD\<lparr>profile_frame_ms := 0\<rparr>) None
      (replicate n plain_input) (send_task_new q 0 0 0) in
    (settled (GOOD\<lparr>profile_frame_ms := 0\<rparr>) t \<or> sd_last_applied t = None) \<and> sd_since_report t = n"
proof (induction n)
  case 0
  then show ?case by (simp add: send_task_new_def Let_def)
next
  case (Suc n)
  let ?t = "send_turns count_lib plain_fountain note_tuning False (GOOD\<lparr>profile_frame_ms := 0\<rparr>) None
      (replicate n plain_input) (send_task_new q 0 0 0)"
  have "replicate (Suc n) plain_input = replicate n plain_input @ [plain_input]"
    by (simp add: replicate_append_same)
  then show ?case
    using Suc empty_frame_sent [of ?t] by (auto simp: send_turns_snoc Let_def simp del: replicate_Suc)
qed

theorem reports_tell_cumulative_loss_witness:
  "pending_quality_report (sd_encoder (send_turns count_lib plain_fountain note_tuning False
      (GOOD\<lparr>profile_frame_ms := 0\<rparr>) None (replicate 49 plain_input @ [plain_input]) (send_task_new ''good'' 0 0 0))) =
    Some (report_from_path_stats 7 40 3)"
proof -
  define t where "t = send_turns count_lib plain_fountain note_tuning False (GOOD\<lparr>profile_frame_ms := 0\<rparr>) None
      (replicate 49 plain_input) (send_task_new ''good'' 0 0 0)"
  have t: "settled (GOOD\<lparr>profile_frame_ms := 0\<rparr>) t \<or> sd_last_applied t = None" "sd_since_report t = 49"
    using empty_frames_counted [of 49 "''good''"] by (simp_all only: Let_def t_def [symmetric])
  from empty_frame_sent [OF t(1)] t(2) obtain res rest t' s' where
    o1: "send_one count_lib plain_fountain note_tuning False (GOOD\<lparr>profile_frame_ms := 0\<rparr>) None plain_input t
      = (SendFrame res, rest, t', s')" and z: "sd_since_report t' = 0" by auto
  have "pending_quality_report (sd_encoder t') = Some (report_from_path_stats 7 40 3)"
    using reports_tell_cumulative_loss [OF t_def o1 z] by (simp add: plain_input_def quiet_snap_def)
  then show ?thesis by (simp only: send_turns_snoc t_def [symmetric] o1 fst_conv snd_conv)
qed

definition video_fragment :: "u32 \<Rightarrow> MediaPacket" where
  "video_fragment sq = \<lparr>header = \<lparr>version = 2, flags = 0, media_type = Video, codec_id = H264Baseline,
     stream_id = 0, fec_ratio_wire = 0, seq = sq, timestamp = 0, fec_block = 2\<rparr>, payload = [1],
     quality_report = None\<rparr>"

definition blind_lib :: "(unit, nat) video_dec_lib" where
  "blind_lib = \<lparr>vd_create = (\<lambda>_ _ _. Some ()), vd_decode = (\<lambda>b v. (Picture (length b), v))\<rparr>"

definition after_request :: "(unit, nat) VideoRecv" where
  "after_request = video_recv_new\<lparr>vr_continuity := continuity_default\<lparr>vc_expected_seq := Some 5,
     wait_for_keyframe := True, last_pli_sent := Some 1000\<rparr>, vr_plis := [0]\<rparr>"

lemma fragments_complete_nothing:
  "(case hm_get ra 0 of None \<Rightarrow> True | Some e \<Rightarrow> \<not> saw_frame_end e) \<Longrightarrow>
   \<not> completes_keyframe (map video_fragment sqs) ra"
proof (induction sqs arbitrary: ra)
  case (Cons sq sqs)
  define e where "e = note_fragment (video_fragment sq) (case hm_get ra 0 of None \<Rightarrow> pending_default | Some e \<Rightarrow> e)"
  have "\<not> saw_frame_end e"
    using Cons.prems by (auto simp: e_def note_fragment_def video_fragment_def pending_default_def is_frame_end_def
        FLAG_FRAME_END_def is_keyframe_def Let_def split: option.splits)
  moreover from this have "reassembler_push (video_fragment sq) ra = (None, hm_insert 0 e ra)"
    by (simp add: reassembler_push_def e_def Let_def) (simp add: video_fragment_def)
  ultimately show ?case using Cons.IH by simp
qed simp

theorem second_gap_asks_nobody_witness:
  "vr_plis (fst (video_run blind_lib 1280 720 [(1100, video_fragment 8), (9000, video_fragment 9), (99000, video_fragment 10)]
     (after_request, engine_shared_new))) = [0]"
proof -
  let ?ps = "[(9000, video_fragment 9), (99000, video_fragment 10)]"
  obtain r' s' where r: "video_run blind_lib 1280 720 ((1100, video_fragment 8) # ?ps) (after_request, engine_shared_new) = (r', s')"
    by fastforce
  have "\<not> completes_keyframe (video_fragment 8 # map snd ?ps) (vr_reassembler after_request)"
    using fragments_complete_nothing [of "vr_reassembler after_request" "[8, 9, 10]"]
    by (simp add: after_request_def video_recv_new_def reassembler_new_def del: completes_keyframe.simps)
  from second_gap_asks_nobody [OF _ _ _ _ _ _ this r, of 5 1000]
  have "vr_plis r' = vr_plis after_request"
    by (simp add: after_request_def continuity_default_def video_fragment_def)
  then show ?thesis unfolding r by (simp add: after_request_def)
qed

end
