(* ===== verification/History.thy ===== *)
theory History
  imports Prelude "HOL-Library.Sublist"
begin

text \<open>
  The call history of the desktop app (\<open>desktop/src-tauri/src/history.rs\<close>): the list of the last
  direct calls, kept in memory and written to one file after every change.  The file is the bytes it holds,
  \<open>None\<close> when it is missing; JSON is a pair of parameters, and a write may fail.
\<close>

datatype CallDirection = Placed | Received | Missed

record CallHistoryEntry =
  he_call_id :: string
  he_peer_fp :: string
  he_peer_alias :: "string option"
  he_direction :: CallDirection
  he_timestamp :: nat

record History =
  store :: "CallHistoryEntry list"
  disk :: "byte list option"

abbreviation (input) MAX_ENTRIES :: nat where "MAX_ENTRIES \<equiv> 200"

definition load_from_disk :: "(byte list \<Rightarrow> CallHistoryEntry list option) \<Rightarrow> byte list option \<Rightarrow> CallHistoryEntry list" where
  "load_from_disk from_json d =
     (case d of None \<Rightarrow> [] | Some bytes \<Rightarrow> (case from_json bytes of None \<Rightarrow> [] | Some es \<Rightarrow> es))"

text \<open>The file is replaced by a rename; when writing or renaming fails the old one stays.\<close>

definition save_to_disk :: "(CallHistoryEntry list \<Rightarrow> byte list option) \<Rightarrow> bool \<Rightarrow> History \<Rightarrow> History" where
  "save_to_disk to_json written h =
     (case to_json (store h) of None \<Rightarrow> h | Some json \<Rightarrow> if written then h\<lparr>disk := Some json\<rparr> else h)"

text \<open>The newest entry that satisfies a test is changed in place.\<close>

definition update_newest ::
  "(CallHistoryEntry \<Rightarrow> bool) \<Rightarrow> (CallHistoryEntry \<Rightarrow> CallHistoryEntry) \<Rightarrow> CallHistoryEntry list \<Rightarrow>
   CallHistoryEntry list option" where
  "update_newest test f es =
     (case List.extract test (rev es) of None \<Rightarrow> None | Some (newer, e, older) \<Rightarrow> Some (rev (newer @ f e # older)))"

definition log_call ::
  "(CallHistoryEntry list \<Rightarrow> byte list option) \<Rightarrow> bool \<Rightarrow> nat \<Rightarrow> string \<Rightarrow> string \<Rightarrow> string option \<Rightarrow> CallDirection \<Rightarrow>
   History \<Rightarrow> History" where
  "log_call to_json written now cid peer alias dir h =
     (case update_newest (\<lambda>e. he_call_id e = cid) (\<lambda>e. e\<lparr>he_direction := dir, he_timestamp := now\<rparr>) (store h) of
        Some es \<Rightarrow> save_to_disk to_json written (h\<lparr>store := es\<rparr>)
      | None \<Rightarrow>
          let es = store h @ [\<lparr>he_call_id = cid, he_peer_fp = peer, he_peer_alias = alias, he_direction = dir,
                               he_timestamp = now\<rparr>];
              es = (if length es > MAX_ENTRIES then drop (length es - MAX_ENTRIES) es else es) in
          save_to_disk to_json written (h\<lparr>store := es\<rparr>))"

definition all_entries :: "History \<Rightarrow> CallHistoryEntry list" where
  "all_entries h = rev (store h)"

fun first_of_peers :: "string set \<Rightarrow> CallHistoryEntry list \<Rightarrow> CallHistoryEntry list" where
  "first_of_peers seen [] = []"
| "first_of_peers seen (e # es) =
     (if he_peer_fp e \<in> seen then first_of_peers seen es
      else e # first_of_peers (insert (he_peer_fp e) seen) es)"

definition contacts :: "History \<Rightarrow> CallHistoryEntry list" where
  "contacts h = first_of_peers {} (rev (store h))"

definition clear_history :: "(CallHistoryEntry list \<Rightarrow> byte list option) \<Rightarrow> bool \<Rightarrow> History \<Rightarrow> History" where
  "clear_history to_json written h = save_to_disk to_json written (h\<lparr>store := []\<rparr>)"

definition mark_received_if_pending ::
  "(CallHistoryEntry list \<Rightarrow> byte list option) \<Rightarrow> bool \<Rightarrow> string \<Rightarrow> History \<Rightarrow> bool \<times> History" where
  "mark_received_if_pending to_json written cid h =
     (case update_newest (\<lambda>e. he_call_id e = cid \<and> he_direction e = Missed) (\<lambda>e. e\<lparr>he_direction := Received\<rparr>) (store h) of
        None \<Rightarrow> (False, h)
      | Some es \<Rightarrow> (True, save_to_disk to_json written (h\<lparr>store := es\<rparr>)))"

section \<open>The store as a map\<close>

datatype history_op =
    LogCall nat string string "string option" CallDirection
  | MarkReceived string
  | ClearHistory

fun history_step :: "(CallHistoryEntry list \<Rightarrow> byte list option) \<Rightarrow> bool \<times> history_op \<Rightarrow> History \<Rightarrow> History" where
  "history_step to_json (w, LogCall now cid peer alias dir) h = log_call to_json w now cid peer alias dir h"
| "history_step to_json (w, MarkReceived cid) h = snd (mark_received_if_pending to_json w cid h)"
| "history_step to_json (w, ClearHistory) h = clear_history to_json w h"

definition history_inv :: "CallHistoryEntry list \<Rightarrow> bool" where
  "history_inv es \<longleftrightarrow> length es \<le> MAX_ENTRIES \<and> distinct (map he_call_id es)"

lemma store_save [simp]: "store (save_to_disk j w h) = store h"
  by (simp add: save_to_disk_def split: option.splits)

lemma update_newest_None [simp]: "update_newest t f es = None \<longleftrightarrow> (\<forall>e \<in> set es. \<not> t e)"
proof (cases "List.extract t (rev es)")
  case None
  then have "\<forall>e \<in> set es. \<not> t e" by (simp add: extract_None_iff)
  then show ?thesis by (simp add: update_newest_def None)
next
  case (Some x)
  then obtain newer e older where x: "x = (newer, e, older)" "rev es = newer @ e # older" "t e"
    by (cases x) (auto simp: extract_Some_iff)
  then have "e \<in> set (rev es)" by simp
  then have "\<exists>d \<in> set es. t d" using x(3) by auto
  moreover have "update_newest t f es \<noteq> None" by (simp add: update_newest_def Some x(1))
  ultimately show ?thesis by blast
qed

lemma update_newest_Some:
  assumes "update_newest t f es = Some es'"
  obtains older e newer where "es = older @ e # newer" "es' = older @ f e # newer" "t e" "\<forall>d \<in> set newer. \<not> t d"
proof -
  obtain ys e zs where x: "List.extract t (rev es) = Some (ys, e, zs)" and es': "es' = rev (ys @ f e # zs)"
    using assms by (auto simp: update_newest_def split: option.splits)
  from x have "rev es = ys @ e # zs" "t e" "\<forall>d \<in> set ys. \<not> t d"
    by (auto simp: extract_Some_iff)
  then have "es = rev zs @ e # rev ys"
    by (metis append.assoc append_Cons append_Nil rev.simps(2) rev_append rev_rev_ident)
  then show thesis
    using that[of "rev zs" e "rev ys"] es' \<open>t e\<close> \<open>\<forall>d \<in> set ys. \<not> t d\<close> by simp
qed

lemma update_newest_ids:
  assumes "update_newest t f es = Some es'" "\<And>e. he_call_id (f e) = he_call_id e"
  shows "map he_call_id es' = map he_call_id es"
  using assms(1) by (rule update_newest_Some) (simp add: assms(2))

lemma map_drop_distinct: "distinct (map f es) \<Longrightarrow> distinct (map f (drop n es))"
  by (simp add: drop_map[symmetric])

lemma history_inv_step: "history_inv (store h) \<Longrightarrow> history_inv (store (history_step j op h))"
proof (induction j "op" h rule: history_step.induct)
  case (1 j w now cid peer al dir h)
  show ?case
  proof (cases "update_newest (\<lambda>e. he_call_id e = cid) (\<lambda>e. e\<lparr>he_direction := dir, he_timestamp := now\<rparr>) (store h)")
    case None
    then have "cid \<notin> he_call_id ` set (store h)" by auto
    then show ?thesis
      using 1 by (auto simp: log_call_def None history_inv_def Let_def map_drop_distinct dest: in_set_dropD)
  next
    case (Some es)
    then show ?thesis
      using 1 update_newest_ids[OF Some] by (auto simp: log_call_def history_inv_def dest: map_eq_imp_length_eq)
  qed
next
  case (2 j w cid h)
  then show ?case
    by (auto simp: mark_received_if_pending_def history_inv_def split: option.splits
        dest!: update_newest_ids[where f = "\<lambda>e. e\<lparr>he_direction := Received\<rparr>"] dest: map_eq_imp_length_eq)
next
  case (3 j w h)
  then show ?case by (simp add: clear_history_def history_inv_def)
qed

text \<open>
  Also (invariant).  However calls are placed, offered, accepted and cleared, the history has at most 200
  entries and at most one for each call, provided the file it was loaded from had.
\<close>

theorem history_has_one_entry_per_call:
  assumes "history_inv (store h)"
  shows "history_inv (store (fold (history_step to_json) ops h))"
  using assms by (induction ops arbitrary: h) (simp_all add: history_inv_step del: history_step.simps)

lemma first_of_peers_set:
  "e \<in> set (first_of_peers seen es) \<longleftrightarrow>
     he_peer_fp e \<notin> seen \<and> (\<exists>newer older. es = newer @ e # older \<and> he_peer_fp e \<notin> he_peer_fp ` set newer)"
proof (induction seen es rule: first_of_peers.induct)
  case (2 seen d es)
  show ?case
  proof (cases "e = d")
    case True
    then show ?thesis using 2 by (auto intro: exI[of _ "[]"])
  next
    case False
    have "(\<exists>newer older. d # es = newer @ e # older \<and> he_peer_fp e \<notin> he_peer_fp ` set newer) \<longleftrightarrow>
          he_peer_fp e \<noteq> he_peer_fp d \<and>
          (\<exists>newer older. es = newer @ e # older \<and> he_peer_fp e \<notin> he_peer_fp ` set newer)" (is "?L \<longleftrightarrow> ?R")
    proof
      assume ?L
      then obtain newer older where n: "d # es = newer @ e # older" "he_peer_fp e \<notin> he_peer_fp ` set newer" by blast
      then show ?R using False by (cases newer) auto
    next
      assume ?R
      then obtain newer older where "es = newer @ e # older" "he_peer_fp e \<notin> he_peer_fp ` set newer"
        "he_peer_fp e \<noteq> he_peer_fp d" by blast
      then show ?L by (intro exI[of _ "d # newer"] exI[of _ older]) auto
    qed
    then show ?thesis using 2 False by auto
  qed
qed simp

lemma first_of_peers_distinct:
  "distinct (map he_peer_fp (first_of_peers seen es)) \<and> he_peer_fp ` set (first_of_peers seen es) = he_peer_fp ` set es - seen"
proof (induction seen es rule: first_of_peers.induct)
  case (2 seen e es)
  then show ?case by (cases "he_peer_fp e \<in> seen") auto
qed simp

lemma first_of_peers_order: "subseq (first_of_peers seen es) es"
  by (induction seen es rule: first_of_peers.induct) auto

text \<open>
  Also (equivalence).  The contact list has every peer of the history exactly once, each with its last entry in
  the list, in the reversed order of the list.  The last entry is the one that was added last; since an entry
  that is logged again keeps its place (\<open>repeated_offer_turns_received_to_missed\<close>), it need not be the newest
  in time, as the documentation of the function says.
\<close>

theorem contacts_are_last_entries:
  shows "distinct (map he_peer_fp (contacts h)) \<and>
    he_peer_fp ` set (contacts h) = he_peer_fp ` set (store h) \<and>
    subseq (contacts h) (rev (store h)) \<and>
    (e \<in> set (contacts h) \<longleftrightarrow>
      (\<exists>older newer. store h = older @ e # newer \<and> he_peer_fp e \<notin> he_peer_fp ` set newer))"
proof (intro conjI)
  show "distinct (map he_peer_fp (contacts h))" "he_peer_fp ` set (contacts h) = he_peer_fp ` set (store h)"
    "subseq (contacts h) (rev (store h))"
    by (simp_all add: contacts_def first_of_peers_distinct first_of_peers_order)
  have "(\<exists>newer older. rev (store h) = newer @ e # older \<and> he_peer_fp e \<notin> he_peer_fp ` set newer) \<longleftrightarrow>
        (\<exists>older newer. store h = older @ e # newer \<and> he_peer_fp e \<notin> he_peer_fp ` set newer)" (is "?L \<longleftrightarrow> ?R")
  proof
    assume ?L
    then obtain newer older where n: "rev (store h) = newer @ e # older" "he_peer_fp e \<notin> he_peer_fp ` set newer" by blast
    from n(1) have "store h = rev older @ e # rev newer" by (simp add: rev_swap)
    then show ?R using n(2) by (intro exI[of _ "rev older"] exI[of _ "rev newer"]) simp
  next
    assume ?R
    then obtain older newer where "store h = older @ e # newer" "he_peer_fp e \<notin> he_peer_fp ` set newer" by blast
    then show ?L by (intro exI[of _ "rev newer"] exI[of _ "rev older"]) simp
  qed
  then show "e \<in> set (contacts h) \<longleftrightarrow>
      (\<exists>older newer. store h = older @ e # newer \<and> he_peer_fp e \<notin> he_peer_fp ` set newer)"
    by (simp add: contacts_def first_of_peers_set)
qed

lemma save_in_sync:
  assumes "\<And>es. \<exists>bytes. to_json es = Some bytes \<and> from_json bytes = Some es"
  shows "load_from_disk from_json (disk (save_to_disk to_json True h)) = store h"
  using assms[of "store h"] by (auto simp: save_to_disk_def load_from_disk_def)

lemma step_in_sync:
  assumes "\<And>es. \<exists>bytes. to_json es = Some bytes \<and> from_json bytes = Some es"
    and "load_from_disk from_json (disk h) = store h"
  shows "load_from_disk from_json (disk (history_step to_json (True, op) h)) = store (history_step to_json (True, op) h)"
  using assms(2)
  by (cases op) (auto simp: log_call_def mark_received_if_pending_def clear_history_def Let_def
      save_in_sync[of to_json from_json, OF assms(1)] split: option.splits)

text \<open>
  Also (roundtrip).  As long as every list can be encoded, decoding undoes encoding and no write fails, a
  restart finds the history as it was.
\<close>

theorem history_survives_restart:
  assumes "\<And>es. \<exists>bytes. to_json es = Some bytes \<and> from_json bytes = Some es"
    and "load_from_disk from_json (disk h) = store h"
  shows "load_from_disk from_json (disk (fold (\<lambda>op. history_step to_json (True, op)) ops h)) =
         store (fold (\<lambda>op. history_step to_json (True, op)) ops h)"
  using assms(2)
  by (induction ops arbitrary: h) (simp_all add: step_in_sync[OF assms(1)] del: history_step.simps)

text \<open>
  Also (functional).  An offer that reaches the app again after the call was answered turns the entry from
  received to missed and moves its time, but not its place in the list: the list is no longer in the order
  of its times.
\<close>

theorem repeated_offer_turns_received_to_missed:
  assumes "store h = older @ e # newer" "he_call_id e = cid" "he_direction e = Received"
    and "cid \<notin> he_call_id ` set newer"
  shows "store (log_call to_json w now cid peer who Missed h) =
         older @ e\<lparr>he_direction := Missed, he_timestamp := now\<rparr> # newer"
proof -
  let ?t = "\<lambda>d. he_call_id d = cid"
  have "List.extract ?t (rev (store h)) = Some (rev newer, e, rev older)"
    unfolding extract_Some_iff using assms by auto (metis rev_image_eqI)
  then show ?thesis by (simp add: log_call_def update_newest_def)
qed

section \<open>Witnesses\<close>

definition demo_entry :: "string \<Rightarrow> CallDirection \<Rightarrow> nat \<Rightarrow> CallHistoryEntry" where
  "demo_entry cid dir t =
     \<lparr>he_call_id = cid, he_peer_fp = ''bob'', he_peer_alias = None, he_direction = dir, he_timestamp = t\<rparr>"

definition demo_history :: "CallHistoryEntry list \<Rightarrow> History" where
  "demo_history es = \<lparr>store = es, disk = None\<rparr>"

theorem history_has_one_entry_per_call_witness:
  "history_inv (store (fold (history_step (\<lambda>es. None))
     [(True, LogCall 5 ''1'' ''bob'' None Missed), (True, MarkReceived ''1'')] (demo_history [])))"
  by (rule history_has_one_entry_per_call) (simp add: demo_history_def history_inv_def)

theorem repeated_offer_turns_received_to_missed_witness:
  "store (log_call (\<lambda>es. None) True 9 ''1'' ''bob'' None Missed
     (demo_history [demo_entry ''1'' Received 5, demo_entry ''2'' Placed 7])) =
   [demo_entry ''1'' Missed 9, demo_entry ''2'' Placed 7]"
  using repeated_offer_turns_received_to_missed
    [where h = "demo_history [demo_entry ''1'' Received 5, demo_entry ''2'' Placed 7]" and older = "[]"
       and e = "demo_entry ''1'' Received 5" and newer = "[demo_entry ''2'' Placed 7]" and cid = "''1''"
       and now = 9 and to_json = "\<lambda>es. None" and w = True and peer = "''bob''" and who = None]
  by (simp add: demo_history_def demo_entry_def)

end
