(* ===== verification/AppSignal.thy ===== *)
theory AppSignal
  imports Signalling Candidates History Codec
begin

text \<open>
  The signalling side of the desktop app (\<open>desktop/src-tauri/src/lib.rs\<close>): the state behind the signal
  connection, the commands of the user interface, the arms of the receive loop and the choice of the media
  path.  Connections are numbers in the order they are opened; a waiting request (a oneshot channel) is the
  number of its ticket, and dropping its sender is the ticket's disappearance from the state.  Addresses
  travel as text; \<open>parse\<close>, \<open>parse_ip\<close> and \<open>show_addr\<close> are Rust's readers and writer of them.
\<close>

section \<open>State\<close>

datatype payload =
    NoPayload
  | CallerAlias "string option"
  | PathOk bool
  | HardNatProbe "u16 list" string string
  | BirthdayStart "u16 list" string
  | UpgradeProposal string QualityProfile
  | UpgradeResponse string bool
  | UpgradeConfirm string QualityProfile
  | QualityCapability QualityProfile

record PeerHardNatInfo =
  hn_external_ip :: IpAddr
  hn_port_sequence :: "u16 list"
  hn_allocation :: string

record PeerBirthdayInfo =
  pb_external_ip :: IpAddr
  pb_ports :: "u16 list"

record SignalState =
  conn :: "nat option"
  endpoint_port :: "u16 option"
  ipv6_port :: "u16 option"
  own_fingerprint :: string
  signal_status :: string
  incoming_call_id :: "string option"
  incoming_caller_fp :: "string option"
  incoming_caller_alias :: "string option"
  pending_reflect :: "nat option"
  own_reflex_addr :: "string option"
  desired_relay_addr :: "string option"
  reconnect_in_progress :: bool
  pending_path_report :: "nat option"
  peer_hard_nat_probe :: "PeerHardNatInfo option"
  peer_birthday_ports :: "PeerBirthdayInfo option"
  active_quality :: QualityProfile
  peer_max_quality :: "QualityProfile option"
  pending_upgrade :: "(string \<times> string \<times> QualityProfile) option"

definition signal_state_new :: SignalState where
  "signal_state_new =
     \<lparr>conn = None, endpoint_port = None, ipv6_port = None, own_fingerprint = [], signal_status = ''idle'',
      incoming_call_id = None, incoming_caller_fp = None, incoming_caller_alias = None, pending_reflect = None,
      own_reflex_addr = None, desired_relay_addr = None, reconnect_in_progress = False,
      pending_path_report = None, peer_hard_nat_probe = None, peer_birthday_ports = None,
      active_quality = GOOD, peer_max_quality = None, pending_upgrade = None\<rparr>"

record AppState =
  app_signal :: SignalState
  app_engine :: bool
  app_history :: History

definition app_state_new :: "History \<Rightarrow> AppState" where
  "app_state_new h = \<lparr>app_signal = signal_state_new, app_engine = False, app_history = h\<rparr>"

text \<open>
  What an operation does to the world: messages, answers to waiting requests, tasks, events of the UI, and the
  questions by which it learns an address: to the STUN servers, to the system for its interfaces and for an
  endpoint, to the router for a mapping.
\<close>

datatype app_out =
    Send nat "payload Signal"
  | CloseConn nat
  | FireReflect nat SocketAddr
  | FirePathReport nat bool
  | OpenBirthdayPorts string
  | DetectPorts string
  | StopEngine
  | UiEvent string
  | QueryStun
  | QueryInterfaces
  | OpenIpv6 u16
  | QueryRouter u16

section \<open>The receive loop\<close>

definition handle_upgrade_proposal :: "nat \<Rightarrow> string \<Rightarrow> string \<Rightarrow> app_out list" where
  "handle_upgrade_proposal c cid pid = [Send c (PeerNegotiation cid (UpgradeResponse pid True))]"

text \<open>\<open>sent\<close> tells whether the transport takes the confirmation.\<close>

definition handle_upgrade_response ::
  "bool \<Rightarrow> nat \<Rightarrow> string \<Rightarrow> string \<Rightarrow> bool \<Rightarrow> SignalState \<Rightarrow> app_out list \<times> SignalState" where
  "handle_upgrade_response sent c cid pid yes st =
     (if \<not> yes then ([], st)
      else
        let st' = st\<lparr>pending_upgrade := None\<rparr> in
        (case pending_upgrade st of
           None \<Rightarrow> ([], st')
         | Some (_, pid', profile) \<Rightarrow>
             if pid' = pid
             then ([Send c (PeerNegotiation cid (UpgradeConfirm pid profile))],
                   if sent then st'\<lparr>active_quality := profile\<rparr> else st')
             else ([], st')))"

definition handle_upgrade_confirm :: "QualityProfile \<Rightarrow> SignalState \<Rightarrow> SignalState" where
  "handle_upgrade_confirm p st = st\<lparr>active_quality := p\<rparr>"

definition handle_quality_capability :: "QualityProfile \<Rightarrow> SignalState \<Rightarrow> SignalState" where
  "handle_quality_capability p st = st\<lparr>peer_max_quality := Some p\<rparr>"

definition strip_prefix :: "string \<Rightarrow> string \<Rightarrow> string option" where
  "strip_prefix p s = (if take (length p) s = p then Some (drop (length p) s) else None)"

definition strip_suffix :: "string \<Rightarrow> string \<Rightarrow> string option" where
  "strip_suffix p s = map_option rev (strip_prefix (rev p) (rev s))"

definition on_hard_nat_probe ::
  "(string \<Rightarrow> IpAddr option) \<Rightarrow> string \<Rightarrow> u16 list \<Rightarrow> string \<Rightarrow> string \<Rightarrow> SignalState \<Rightarrow> app_out list \<times> SignalState" where
  "on_hard_nat_probe parse_ip cid ports alloc ip st =
     (if alloc = ''random'' \<or> strip_prefix ''sequential'' alloc \<noteq> None then [OpenBirthdayPorts cid] else [],
      case parse_ip ip of
        Some a \<Rightarrow> st\<lparr>peer_hard_nat_probe := Some \<lparr>hn_external_ip = a, hn_port_sequence = ports, hn_allocation = alloc\<rparr>\<rparr>
      | None \<Rightarrow> st)"

text \<open>The task behind \<open>OpenBirthdayPorts\<close>, when the ports are open.\<close>

definition birthday_opened :: "string \<Rightarrow> u16 list \<Rightarrow> string \<Rightarrow> SignalState \<Rightarrow> app_out list" where
  "birthday_opened cid ports ip st =
     (if ports = [] then []
      else (case conn st of None \<Rightarrow> [] | Some c \<Rightarrow> [Send c (PeerNegotiation cid (BirthdayStart ports ip))]))"

definition on_negotiation ::
  "(string \<Rightarrow> IpAddr option) \<Rightarrow> bool \<Rightarrow> nat \<Rightarrow> string \<Rightarrow> payload \<Rightarrow> SignalState \<Rightarrow> app_out list \<times> SignalState" where
  "on_negotiation parse_ip sent c cid p st =
     (case p of
        HardNatProbe ports alloc ip \<Rightarrow> on_hard_nat_probe parse_ip cid ports alloc ip st
      | BirthdayStart ports ip \<Rightarrow>
          ([], case parse_ip ip of
                 Some a \<Rightarrow> st\<lparr>peer_birthday_ports := Some \<lparr>pb_external_ip = a, pb_ports = ports\<rparr>\<rparr>
               | None \<Rightarrow> st)
      | UpgradeProposal pid _ \<Rightarrow> (handle_upgrade_proposal c cid pid, st)
      | UpgradeResponse pid yes \<Rightarrow> handle_upgrade_response sent c cid pid yes st
      | UpgradeConfirm _ profile \<Rightarrow> ([], handle_upgrade_confirm profile st)
      | QualityCapability profile \<Rightarrow> ([], handle_quality_capability profile st)
      | _ \<Rightarrow> ([], st))"

definition on_reflect_response ::
  "(string \<Rightarrow> SocketAddr option) \<Rightarrow> string \<Rightarrow> SignalState \<Rightarrow> app_out list \<times> SignalState" where
  "on_reflect_response parse observed st =
     (let st' = st\<lparr>pending_reflect := None\<rparr> in
      (case parse observed of
         None \<Rightarrow> ([], st')
       | Some a \<Rightarrow> ((case pending_reflect st of Some t \<Rightarrow> [FireReflect t a] | None \<Rightarrow> []) @ [UiEvent ''reflect''], st')))"

definition on_path_report :: "bool \<Rightarrow> SignalState \<Rightarrow> app_out list \<times> SignalState" where
  "on_path_report ok st =
     (case pending_path_report st of
        None \<Rightarrow> ([], st)
      | Some t \<Rightarrow> ([FirePathReport t ok], st\<lparr>pending_path_report := None\<rparr>))"

definition on_peer_hangup :: "SignalState \<Rightarrow> app_out list \<times> SignalState" where
  "on_peer_hangup st =
     ([UiEvent ''hangup''],
      st\<lparr>signal_status := ''registered'', incoming_call_id := None, ipv6_port := None, pending_path_report := None\<rparr>)"

definition on_incoming ::
  "(History \<Rightarrow> History) \<Rightarrow> string \<Rightarrow> string \<Rightarrow> string option \<Rightarrow> AppState \<Rightarrow> app_out list \<times> AppState" where
  "on_incoming record_call caller cid who a =
     ([UiEvent ''incoming'', UiEvent ''history-changed''],
      a\<lparr>app_signal := (app_signal a)\<lparr>signal_status := ''incoming'', incoming_call_id := Some cid,
                        incoming_caller_fp := Some caller, incoming_caller_alias := who\<rparr>,
        app_history := record_call (app_history a)\<rparr>)"

definition with_signal :: "(SignalState \<Rightarrow> app_out list \<times> SignalState) \<Rightarrow> AppState \<Rightarrow> app_out list \<times> AppState" where
  "with_signal f a = (let (outs, st) = f (app_signal a) in (outs, a\<lparr>app_signal := st\<rparr>))"

text \<open>One message on connection \<open>c\<close>.  The history is written as in \<^theory_text>\<open>History\<close>.\<close>

definition recv_signal ::
  "(string \<Rightarrow> SocketAddr option) \<Rightarrow> (string \<Rightarrow> IpAddr option) \<Rightarrow> (CallHistoryEntry list \<Rightarrow> byte list option) \<Rightarrow> bool \<Rightarrow>
   nat \<Rightarrow> bool \<Rightarrow> nat \<Rightarrow> payload Signal \<Rightarrow> AppState \<Rightarrow> app_out list \<times> AppState" where
  "recv_signal parse parse_ip to_json written now sent c msg a =
     (case msg of
        CallRinging _ \<Rightarrow> with_signal (\<lambda>st. ([UiEvent ''ringing''], st\<lparr>signal_status := ''ringing''\<rparr>)) a
      | DirectCallOffer caller _ cid _ p \<Rightarrow>
          (let who = (case p of CallerAlias al \<Rightarrow> al | _ \<Rightarrow> None) in
           on_incoming (log_call to_json written now cid caller who Missed) caller cid who a)
      | CallSetup _ _ _ _ \<Rightarrow> with_signal (\<lambda>st. ([UiEvent ''setup''], st\<lparr>signal_status := ''setup''\<rparr>)) a
      | Hangup _ _ \<Rightarrow> with_signal on_peer_hangup a
      | HangupNormal _ \<Rightarrow> with_signal on_peer_hangup a
      | MediaPathReport _ p \<Rightarrow>
          (case p of PathOk ok \<Rightarrow> with_signal (on_path_report ok) a | _ \<Rightarrow> ([], a))
      | CandidateUpdate _ _ \<Rightarrow> ([UiEvent ''candidate_update''], a)
      | PeerNegotiation cid p \<Rightarrow> with_signal (on_negotiation parse_ip sent c cid p) a
      | PresenceList _ \<Rightarrow> ([UiEvent ''presence_list''], a)
      | ReflectResponse observed \<Rightarrow> with_signal (on_reflect_response parse observed) a
      | _ \<Rightarrow> ([], a))"

section \<open>Asking for the own address\<close>

datatype reflect_outcome = SendFails | ReflectAnswered SocketAddr | ReflectCancelled | ReflectTimeout

definition try_stun_fallback ::
  "(SocketAddr \<Rightarrow> string) \<Rightarrow> StunError + SocketAddr \<Rightarrow> SignalState \<Rightarrow> app_out list \<times> string option \<times> SignalState" where
  "try_stun_fallback show_addr stun st =
     ([QueryStun],
      case stun of
        Inr a \<Rightarrow> (Some (show_addr a), st\<lparr>own_reflex_addr := Some (show_addr a)\<rparr>)
      | Inl _ \<Rightarrow> (None, st))"

text \<open>
  The request is under way while the lock is free; \<open>outcome\<close> is how it ends when nothing else touches the
  ticket.  \<open>None\<close> stands for the error of a client that is not registered and for no address alike, as the
  callers treat them.
\<close>

definition try_reflect_own_addr ::
  "(SocketAddr \<Rightarrow> string) \<Rightarrow> nat \<Rightarrow> reflect_outcome \<Rightarrow> StunError + SocketAddr \<Rightarrow> SignalState \<Rightarrow>
   app_out list \<times> string option \<times> SignalState" where
  "try_reflect_own_addr show_addr ticket outcome stun st =
     (case conn st of
        None \<Rightarrow> ([], None, st\<lparr>pending_reflect := Some ticket\<rparr>)
      | Some c \<Rightarrow>
          let st' = st\<lparr>pending_reflect := None\<rparr> in
          (case outcome of
             SendFails \<Rightarrow> try_stun_fallback show_addr stun st'
           | ReflectAnswered a \<Rightarrow>
               ([Send c Reflect], Some (show_addr a), st'\<lparr>own_reflex_addr := Some (show_addr a)\<rparr>)
           | ReflectCancelled \<Rightarrow> apfst ((#) (Send c Reflect)) (try_stun_fallback show_addr stun st')
           | ReflectTimeout \<Rightarrow> apfst ((#) (Send c Reflect)) (try_stun_fallback show_addr stun st')))"

definition get_reflected_address ::
  "(SocketAddr \<Rightarrow> string) \<Rightarrow> nat \<Rightarrow> reflect_outcome \<Rightarrow> SignalState \<Rightarrow> app_out list \<times> (string + string) \<times> SignalState" where
  "get_reflected_address show_addr ticket outcome st =
     (case conn st of
        None \<Rightarrow> ([], Inl ''not registered'', st\<lparr>pending_reflect := Some ticket\<rparr>)
      | Some c \<Rightarrow>
          let st' = st\<lparr>pending_reflect := None\<rparr> in
          (case outcome of
             SendFails \<Rightarrow> ([], Inl ''send Reflect'', st')
           | ReflectAnswered a \<Rightarrow> ([Send c Reflect], Inr (show_addr a), st')
           | ReflectCancelled \<Rightarrow> ([Send c Reflect], Inl ''reflect channel canceled'', st')
           | ReflectTimeout \<Rightarrow> ([Send c Reflect], Inl ''reflect timeout'', st')))"

section \<open>Placing and answering a call\<close>

text \<open>
  What the network tells while a call is placed or answered: the outcome of the address request, the answer
  of STUN, the interface table, the port of a new IPv6 endpoint, the mapped address of the router (within
  750 ms) and whether the transport takes the message.
\<close>

record environment =
  en_reflect :: reflect_outcome
  en_stun :: "StunError + SocketAddr"
  en_ifaces :: "(bool \<times> IpAddr) list option"
  en_v6 :: "u16 \<Rightarrow> u16 option"
  en_mapping :: "u16 \<Rightarrow> SocketAddr option"
  en_sent :: bool

definition v4_port :: "SignalState \<Rightarrow> u16" where
  "v4_port st = (case endpoint_port st of Some p \<Rightarrow> p | None \<Rightarrow> 0)"

definition gather_hosts ::
  "(SocketAddr \<Rightarrow> string) \<Rightarrow> environment \<Rightarrow> SignalState \<Rightarrow> app_out list \<times> string list \<times> SignalState" where
  "gather_hosts show_addr en st =
     (let v6 = en_v6 en (v4_port st) in
      ([OpenIpv6 (v4_port st), QueryInterfaces],
       map show_addr (local_host_candidates (en_ifaces en) (v4_port st) v6), st\<lparr>ipv6_port := v6\<rparr>))"

definition map_port ::
  "(SocketAddr \<Rightarrow> string) \<Rightarrow> environment \<Rightarrow> SignalState \<Rightarrow> app_out list \<times> string option" where
  "map_port show_addr en st =
     (if 0 < v4_port st then ([QueryRouter (v4_port st)], map_option show_addr (en_mapping en (v4_port st)))
      else ([], None))"

text \<open>The clock gives the call id; the probe of the router runs afterwards as a task (\<open>DetectPorts\<close>).\<close>

definition app_place_call ::
  "(SocketAddr \<Rightarrow> string) \<Rightarrow> (History \<Rightarrow> History) \<Rightarrow> environment \<Rightarrow> nat \<Rightarrow> string \<Rightarrow> string \<Rightarrow> AppState \<Rightarrow>
   app_out list \<times> (string + unit) \<times> AppState" where
  "app_place_call show_addr record_call en ticket cid target a =
     (let (asked, reflex, st) = try_reflect_own_addr show_addr ticket (en_reflect en) (en_stun en) (app_signal a);
          (listed, hosts, st) = gather_hosts show_addr en st;
          (routed, mapped) = map_port show_addr en st;
          asked = asked @ listed @ routed;
          a = a\<lparr>app_signal := st\<rparr> in
      (case conn st of
         None \<Rightarrow> (asked, Inl ''not registered'', a)
       | Some c \<Rightarrow>
           if \<not> en_sent en then (asked, Inl ''send failed'', a)
           else (asked @
                 [Send c (DirectCallOffer (own_fingerprint st) target cid
                    \<lparr>reflexive_addr = reflex, local_addrs = hosts, mapped_addr = mapped\<rparr> (CallerAlias None)),
                  DetectPorts cid, UiEvent ''history-changed''],
                 Inr (), a\<lparr>app_history := record_call (app_history a)\<rparr>)))"

definition answer_mode :: "int \<Rightarrow> CallAcceptMode" where
  "answer_mode mode = (if mode = 0 then Reject else if mode = 1 then AcceptTrusted else AcceptGeneric)"

definition app_answer_call ::
  "(SocketAddr \<Rightarrow> string) \<Rightarrow> (History \<Rightarrow> bool \<times> History) \<Rightarrow> environment \<Rightarrow> nat \<Rightarrow> string \<Rightarrow> int \<Rightarrow> AppState \<Rightarrow>
   app_out list \<times> (string + unit) \<times> AppState" where
  "app_answer_call show_addr mark en ticket cid mode a =
     (let trusted = (answer_mode mode = AcceptTrusted);
          (asked, reflex, st) =
            (if trusted then try_reflect_own_addr show_addr ticket (en_reflect en) (en_stun en) (app_signal a)
             else ([], None, app_signal a));
          (listed, hosts, st) = (if trusted then gather_hosts show_addr en st else ([], [], st));
          (routed, mapped) = (if trusted then map_port show_addr en st else ([], None));
          asked = asked @ listed @ routed;
          a = a\<lparr>app_signal := st\<rparr> in
      (case conn st of
         None \<Rightarrow> (asked, Inl ''not registered'', a)
       | Some c \<Rightarrow>
           if \<not> en_sent en then (asked, Inl ''send failed'', a)
           else
             let (changed, h) = (if mode \<noteq> 0 then mark (app_history a) else (False, app_history a)) in
             (asked @
              [Send c (DirectCallAnswer cid (answer_mode mode)
                 \<lparr>reflexive_addr = reflex, local_addrs = hosts, mapped_addr = mapped\<rparr> NoPayload)] @
              (if changed then [UiEvent ''history-changed''] else []) @
              (if trusted then [DetectPorts cid] else []),
              Inr (), a\<lparr>app_history := h\<rparr>)))"

text \<open>The text of an allocation and its reader; numbers are Rust's \<open>i16\<close>.\<close>

fun show_digits :: "nat \<Rightarrow> string" where
  "show_digits n = (if n < 10 then [char_of (48 + n)] else show_digits (n div 10) @ [char_of (48 + n mod 10)])"

declare show_digits.simps [simp del]

definition show_i16 :: "int \<Rightarrow> string" where
  "show_i16 d = (if d < 0 then CHR ''-'' # show_digits (nat (- d)) else show_digits (nat d))"

definition digit_of :: "char \<Rightarrow> nat option" where
  "digit_of c = (let n = of_char c :: nat in if 48 \<le> n \<and> n \<le> 57 then Some (n - 48) else None)"

fun read_digits :: "nat \<Rightarrow> string \<Rightarrow> nat option" where
  "read_digits acc [] = Some acc"
| "read_digits acc (c # cs) = (case digit_of c of None \<Rightarrow> None | Some d \<Rightarrow> read_digits (10 * acc + d) cs)"

definition parse_i16 :: "string \<Rightarrow> int option" where
  "parse_i16 s =
     (let (neg, ds) = (case s of c # cs \<Rightarrow> if c = CHR ''-'' then (True, cs) else if c = CHR ''+'' then (False, cs)
                                           else (False, s)
                       | [] \<Rightarrow> (False, s)) in
      if ds = [] then None
      else (case read_digits 0 ds of
              None \<Rightarrow> None
            | Some n \<Rightarrow> let d = (if neg then - int n else int n) in if - 32768 \<le> d \<and> d \<le> 32767 then Some d else None))"

definition show_allocation :: "PortAllocation \<Rightarrow> string" where
  "show_allocation p =
     (case p of
        PortPreserving \<Rightarrow> ''port-preserving''
      | Sequential d \<Rightarrow> ''sequential(delta='' @ show_i16 d @ '')''
      | RandomPorts \<Rightarrow> ''random''
      | UnknownPorts \<Rightarrow> ''unknown'')"

definition parse_sequential_delta :: "string \<Rightarrow> int option" where
  "parse_sequential_delta alloc =
     Option.bind (strip_prefix ''sequential(delta='' alloc) (\<lambda>s. Option.bind (strip_suffix '')'' s) parse_i16)"

definition ports_detected ::
  "(IpAddr \<Rightarrow> string) \<Rightarrow> string \<Rightarrow> PortAllocationResult \<Rightarrow> SignalState \<Rightarrow> app_out list" where
  "ports_detected show_ip cid r st =
     (case conn st of
        None \<Rightarrow> []
      | Some c \<Rightarrow>
          [Send c (PeerNegotiation cid (HardNatProbe (observed_ports r) (show_allocation (allocation r))
             (case external_ip r of Some ip \<Rightarrow> show_ip ip | None \<Rightarrow> [])))])"

section \<open>Connecting the media\<close>

definition predicted_addrs :: "SignalState \<Rightarrow> SocketAddr list" where
  "predicted_addrs st =
     (case peer_hard_nat_probe st of
        None \<Rightarrow> []
      | Some hn \<Rightarrow>
          (case parse_sequential_delta (hn_allocation hn) of
             None \<Rightarrow> []
           | Some delta \<Rightarrow>
               (case hn_port_sequence hn of
                  [] \<Rightarrow> []
                | last_port # _ \<Rightarrow>
                    map (\<lambda>p. \<lparr>sa_ip = hn_external_ip hn, sa_port = p\<rparr>) (predict_ports last_port delta 1 3))))"

definition birthday_addrs :: "(nat \<Rightarrow> u16) \<Rightarrow> SignalState \<Rightarrow> SocketAddr list" where
  "birthday_addrs draw st =
     (case peer_birthday_ports st of
        None \<Rightarrow> []
      | Some b \<Rightarrow>
          generate_dialer_targets (case pb_external_ip b of V4 ip \<Rightarrow> V4 ip | V6 _ \<Rightarrow> V4 [0, 0, 0, 0]) (pb_ports b) 64 draw)"

text \<open>Before the targets are built the command waits, at most six times 500 ms, for the peer's ports.\<close>

definition waits_for_birthday :: "bool \<Rightarrow> SignalState \<Rightarrow> bool" where
  "waits_for_birthday birthday_enabled st \<longleftrightarrow>
     birthday_enabled \<and>
     (case peer_hard_nat_probe st of Some p \<Rightarrow> hn_allocation p \<noteq> ''port-preserving'' | None \<Rightarrow> False) \<and>
     peer_birthday_ports st = None"

text \<open>What the user interface passes on from the call setup.\<close>

record connect_args =
  ca_relay :: string
  ca_room :: string
  ca_peer_direct :: "string option"
  ca_peer_local :: "string list"
  ca_peer_mapped :: "string option"
  ca_direct_only :: bool

definition connect_candidates ::
  "(string \<Rightarrow> SocketAddr option) \<Rightarrow> (nat \<Rightarrow> u16) \<Rightarrow> connect_args \<Rightarrow> SignalState \<Rightarrow> PeerCandidates" where
  "connect_candidates parse draw ca st =
     \<lparr>pc_reflexive = Option.bind (ca_peer_direct ca) parse,
      pc_local = List.map_filter parse (ca_peer_local ca) @ predicted_addrs st @ birthday_addrs draw st,
      pc_mapped = Option.bind (ca_peer_mapped ca) parse\<rparr>"

text \<open>The role of a race, when there is one.\<close>

definition connect_role :: "(string \<Rightarrow> SocketAddr option) \<Rightarrow> connect_args \<Rightarrow> SignalState \<Rightarrow> Role option" where
  "connect_role parse ca st =
     (if parse (ca_relay ca) \<noteq> None \<and>
         (Option.bind (ca_peer_direct ca) parse \<noteq> None \<or> List.map_filter parse (ca_peer_local ca) \<noteq> [])
      then determine_role (own_reflex_addr st) (ca_peer_direct ca) else None)"

text \<open>
  The media transport the engine starts with: whether the two agreed on the direct path, and the transport
  of the race that goes on; \<open>None\<close> is a fresh connection to the relay.
\<close>

definition path_agreed :: "bool \<Rightarrow> RaceResult \<Rightarrow> bool \<Rightarrow> string + bool \<times> WinningPath option" where
  "path_agreed force_direct r peer_ok =
     (let use_direct = (direct_transport r \<and> peer_ok) in
      if force_direct \<and> \<not> use_direct then Inl ''direct_only: P2P failed''
      else Inr (use_direct, if use_direct then Some Direct
                            else if relay_transport r then Some ViaRelay else None))"

definition report_call_id :: "string \<Rightarrow> string" where
  "report_call_id rname = (case strip_prefix ''call-'' rname of Some s \<Rightarrow> s | None \<Rightarrow> rname)"

definition path_report :: "string \<Rightarrow> RaceResult \<Rightarrow> payload Signal" where
  "path_report rname r = MediaPathReport (report_call_id rname) (PathOk (direct_transport r))"

text \<open>
  The race and its report; \<open>result\<close> is \<open>None\<close> when the race fails, \<open>peer\<close> the report that reaches the ticket
  within three seconds.
\<close>

definition negotiate ::
  "nat \<Rightarrow> connect_args \<Rightarrow> RaceResult option \<Rightarrow> bool option \<Rightarrow> SignalState \<Rightarrow>
   app_out list \<times> (string + bool \<times> WinningPath option) \<times> SignalState" where
  "negotiate ticket ca result peer st =
     (case result of
        None \<Rightarrow> ([], Inr (False, None), st\<lparr>pending_path_report := Some ticket\<rparr>)
      | Some r \<Rightarrow>
          ((case conn st of Some c \<Rightarrow> [Send c (path_report (ca_room ca) r)] | None \<Rightarrow> []),
           path_agreed (ca_direct_only ca) r (case peer of Some ok \<Rightarrow> ok | None \<Rightarrow> False),
           st\<lparr>pending_path_report := None\<rparr>))"

text \<open>The whole command: the engine it starts gets the path and the quality of the signalling side.\<close>

record engine_start =
  es_direct :: bool
  es_transport :: "WinningPath option"
  es_endpoint :: "u16 option"
  es_active_quality :: QualityProfile
  es_peer_max :: "QualityProfile option"

definition app_connect ::
  "(string \<Rightarrow> SocketAddr option) \<Rightarrow> nat \<Rightarrow> connect_args \<Rightarrow> RaceResult option \<Rightarrow> bool option \<Rightarrow> bool \<Rightarrow> AppState \<Rightarrow>
   app_out list \<times> (string + engine_start) \<times> AppState" where
  "app_connect parse ticket ca result peer engine_ok a =
     (if app_engine a then ([], Inl ''already connected'', a)
      else
        let st = (app_signal a)\<lparr>ipv6_port := None\<rparr>;
            (outs, path, st) =
              (if connect_role parse ca st \<noteq> None then negotiate ticket ca result peer st else ([], Inr (False, None), st));
            a = a\<lparr>app_signal := st\<rparr> in
        (case path of
           Inl e \<Rightarrow> (outs, Inl e, a)
         | Inr (direct, via) \<Rightarrow>
             if engine_ok
             then (outs, Inr \<lparr>es_direct = direct, es_transport = via, es_endpoint = endpoint_port st,
                              es_active_quality = active_quality st, es_peer_max = peer_max_quality st\<rparr>,
                   a\<lparr>app_engine := True\<rparr>)
             else (outs, Inl ''call engine failed'', a)))"

definition app_disconnect :: "AppState \<Rightarrow> app_out list \<times> (string + string) \<times> AppState" where
  "app_disconnect a =
     (if app_engine a then ([StopEngine], Inr ''disconnected'', a\<lparr>app_engine := False\<rparr>)
      else ([], Inl ''not connected'', a))"

definition app_hangup_call :: "AppState \<Rightarrow> app_out list \<times> AppState" where
  "app_hangup_call a =
     ((case conn (app_signal a) of Some c \<Rightarrow> [Send c (HangupNormal None)] | None \<Rightarrow> []) @
      (if app_engine a then [StopEngine] else []), a\<lparr>app_engine := False\<rparr>)"

section \<open>Registration\<close>

definition internal_deregister :: "bool \<Rightarrow> SignalState \<Rightarrow> SignalState" where
  "internal_deregister keep_desired st =
     st\<lparr>conn := None, endpoint_port := None, ipv6_port := None, signal_status := ''idle'',
        incoming_call_id := None, incoming_caller_fp := None, incoming_caller_alias := None,
        pending_reflect := None, pending_path_report := None, own_reflex_addr := None,
        desired_relay_addr := (if keep_desired then desired_relay_addr st else None)\<rparr>"

text \<open>
  What a successful connection and acknowledged registration leave behind, and what the receive loop of a
  connection does when it ends.
\<close>

definition registered :: "nat \<Rightarrow> u16 \<Rightarrow> string \<Rightarrow> SignalState \<Rightarrow> SignalState" where
  "registered c port fp st =
     st\<lparr>conn := Some c, endpoint_port := Some port, own_fingerprint := fp, signal_status := ''registered''\<rparr>"

definition loop_ended :: "SignalState \<Rightarrow> string option \<times> SignalState" where
  "loop_ended st =
     (if reconnect_in_progress st then None else desired_relay_addr st,
      st\<lparr>signal_status := ''idle'', conn := None\<rparr>)"

definition already_same :: "string \<Rightarrow> SignalState \<Rightarrow> bool" where
  "already_same relay st \<longleftrightarrow> conn st \<noteq> None \<and> desired_relay_addr st = Some relay"

definition backoff_ms :: "nat \<Rightarrow> nat" where
  "backoff_ms attempt = [1000, 2000, 4000, 8000, 15000, 30000] ! min (attempt - 1) 5"

text \<open>
  The tasks that work on the state, each at the point where it next takes the lock: a receive loop of a
  connection, a supervisor, a run of the command \<open>register_signal\<close>.
\<close>

datatype task =
    Loop nat
  | SupStart string
  | SupCheck string nat
  | SupSleep string nat
  | SupRelease string nat
  | SupDial string nat
  | SupReclaim string nat
  | SupExit
  | CmdStart string
  | CmdDeregister string
  | CmdDesire string
  | CmdDial string

record System =
  sys :: SignalState
  tasks :: "task list"
  opened :: nat
  closed :: "nat set"

text \<open>
  One step of a task, with the outcome of a dial: port and fingerprint, or a failure.  The result is the
  tasks that go on in its place.  A loop steps only when its connection is closed.
\<close>

definition dial_done :: "string \<Rightarrow> (u16 \<times> string) option \<Rightarrow> task list \<Rightarrow> System \<Rightarrow> task list \<times> System" where
  "dial_done relay dial failed s =
     (case dial of
        Some (port, fp) \<Rightarrow> ([Loop (opened s)], s\<lparr>sys := registered (opened s) port fp (sys s), opened := opened s + 1\<rparr>)
      | None \<Rightarrow> (failed, s))"

fun task_step :: "(u16 \<times> string) option \<Rightarrow> task \<Rightarrow> System \<Rightarrow> task list \<times> System" where
  "task_step dial (Loop c) s =
     (if c \<notin> closed s then ([Loop c], s)
      else let (relay, st) = loop_ended (sys s) in
        ((case relay of Some r \<Rightarrow> [SupStart r] | None \<Rightarrow> []), s\<lparr>sys := st\<rparr>))"
| "task_step dial (SupStart r) s =
     (if reconnect_in_progress (sys s) then ([], s)
      else ([SupCheck r 0], s\<lparr>sys := (sys s)\<lparr>reconnect_in_progress := True\<rparr>\<rparr>))"
| "task_step dial (SupCheck r n) s =
     (case desired_relay_addr (sys s) of
        None \<Rightarrow> ([SupExit], s)
      | Some d \<Rightarrow>
          if conn (sys s) \<noteq> None then ([SupExit], s)
          else let n = (if d \<noteq> r then 0 else n) in
            ([if 0 < n then SupSleep d n else SupRelease d n], s))"
| "task_step dial (SupSleep r n) s = ([SupRelease r n], s)"
| "task_step dial (SupRelease r n) s =
     ([SupDial r (n + 1)], s\<lparr>sys := (sys s)\<lparr>reconnect_in_progress := False\<rparr>\<rparr>)"
| "task_step dial (SupDial r n) s = dial_done r dial [SupReclaim r n] s"
| "task_step dial (SupReclaim r n) s = ([SupCheck r n], s\<lparr>sys := (sys s)\<lparr>reconnect_in_progress := True\<rparr>\<rparr>)"
| "task_step dial SupExit s = ([], s\<lparr>sys := (sys s)\<lparr>reconnect_in_progress := False\<rparr>\<rparr>)"
| "task_step dial (CmdStart r) s = (if already_same r (sys s) then [] else [CmdDeregister r], s)"
| "task_step dial (CmdDeregister r) s =
     ([CmdDesire r], s\<lparr>sys := internal_deregister False (sys s), closed := closed s \<union> set_option (conn (sys s))\<rparr>)"
| "task_step dial (CmdDesire r) s = ([CmdDial r], s\<lparr>sys := (sys s)\<lparr>desired_relay_addr := Some r\<rparr>\<rparr>)"
| "task_step dial (CmdDial r) s = dial_done r dial [] s"

text \<open>
  A step of the system: some task runs, a connection breaks, or the user presses a button.  Registering
  starts a task of its own, deregistering is one critical section.
\<close>

datatype sys_event =
    Run nat "(u16 \<times> string) option"
  | Breaks nat
  | UserRegisters string
  | UserDeregisters

fun sys_step :: "sys_event \<Rightarrow> System \<Rightarrow> System" where
  "sys_step (Run i dial) s =
     (if i < length (tasks s)
      then let (ts, s') = task_step dial (tasks s ! i) s in
        s'\<lparr>tasks := take i (tasks s) @ ts @ drop (i + 1) (tasks s)\<rparr>
      else s)"
| "sys_step (Breaks c) s = s\<lparr>closed := insert c (closed s)\<rparr>"
| "sys_step (UserRegisters r) s = s\<lparr>tasks := tasks s @ [CmdStart r]\<rparr>"
| "sys_step UserDeregisters s =
     s\<lparr>sys := internal_deregister False (sys s), closed := closed s \<union> set_option (conn (sys s))\<rparr>"

section \<open>One registration\<close>

text \<open>
  The states between two presses of a button: exactly one task works on the registration, and the state is
  what that task expects.
\<close>

fun expected_by :: "task \<Rightarrow> string \<Rightarrow> System \<Rightarrow> bool" where
  "expected_by (Loop c) d s \<longleftrightarrow> conn (sys s) = Some c \<and> signal_status (sys s) = ''registered'' \<and>
     \<not> reconnect_in_progress (sys s)"
| "expected_by (SupStart r) d s \<longleftrightarrow> r = d \<and> conn (sys s) = None \<and> \<not> reconnect_in_progress (sys s)"
| "expected_by (SupCheck r n) d s \<longleftrightarrow> r = d \<and> conn (sys s) = None \<and> reconnect_in_progress (sys s)"
| "expected_by (SupSleep r n) d s \<longleftrightarrow> r = d \<and> conn (sys s) = None \<and> reconnect_in_progress (sys s)"
| "expected_by (SupRelease r n) d s \<longleftrightarrow> r = d \<and> conn (sys s) = None \<and> reconnect_in_progress (sys s)"
| "expected_by (SupDial r n) d s \<longleftrightarrow> r = d \<and> conn (sys s) = None \<and> \<not> reconnect_in_progress (sys s)"
| "expected_by (SupReclaim r n) d s \<longleftrightarrow> r = d \<and> conn (sys s) = None \<and> \<not> reconnect_in_progress (sys s)"
| "expected_by _ d s \<longleftrightarrow> False"

definition one_registration :: "string \<Rightarrow> System \<Rightarrow> bool" where
  "one_registration d s \<longleftrightarrow>
     desired_relay_addr (sys s) = Some d \<and> (\<exists>t. tasks s = [t] \<and> expected_by t d s)"

fun by_user :: "sys_event \<Rightarrow> bool" where
  "by_user (UserRegisters r) = True"
| "by_user UserDeregisters = True"
| "by_user _ = False"

lemma expected_by_tasks [simp]: "expected_by t d (s\<lparr>tasks := ts\<rparr>) = expected_by t d s"
  by (cases t) simp_all

lemma expected_by_closed [simp]: "expected_by t d (s\<lparr>closed := C\<rparr>) = expected_by t d s"
  by (cases t) simp_all

lemma one_registration_task:
  assumes "expected_by t d s" "desired_relay_addr (sys s) = Some d"
  obtains t' s' where "task_step dial t s = ([t'], s')" "expected_by t' d s'" "desired_relay_addr (sys s') = Some d"
proof (cases t)
  case (Loop c)
  show ?thesis
  proof (cases "c \<in> closed s")
    case True
    then show ?thesis
      using that[of "SupStart d" "s\<lparr>sys := (sys s)\<lparr>signal_status := ''idle'', conn := None\<rparr>\<rparr>"] assms Loop
      by (simp add: loop_ended_def)
  next
    case False
    then show ?thesis using that[of t s] assms Loop by simp
  qed
next
  case (SupCheck r n)
  then show ?thesis using that[of "if 0 < n then SupSleep d n else SupRelease d n" s] assms by auto
next
  case (SupDial r n)
  then show ?thesis
    using that[of "SupReclaim r n" s]
      that[of "Loop (opened s)" "s\<lparr>sys := registered (opened s) (fst (the dial)) (snd (the dial)) (sys s), opened := opened s + 1\<rparr>"]
      assms
    by (cases dial) (auto simp: dial_done_def registered_def)
qed (use assms that in \<open>auto\<close>)

lemma fold_keeps:
  "P s \<Longrightarrow> \<forall>e \<in> set es. Q e \<Longrightarrow> (\<And>e k. P k \<Longrightarrow> Q e \<Longrightarrow> P (f e k)) \<Longrightarrow> P (fold f es s)"
  by (induction es arbitrary: s) simp_all

lemma one_registration_step:
  assumes "one_registration d s" "\<not> by_user e"
  shows "one_registration d (sys_step e s)"
proof (cases e)
  case (Run i dial)
  from assms(1) obtain t where t: "tasks s = [t]" "expected_by t d s" "desired_relay_addr (sys s) = Some d"
    by (auto simp: one_registration_def)
  then obtain t' s' where "task_step dial t s = ([t'], s')" "expected_by t' d s'" "desired_relay_addr (sys s') = Some d"
    using one_registration_task by blast
  then show ?thesis using Run t assms(1) by (auto simp: one_registration_def)
next
  case (Breaks c)
  then show ?thesis using assms(1) by (auto simp: one_registration_def)
qed (use assms in auto)

text \<open>
  Also (liveness).  Start with exactly one task that works on the registration, in the state that task expects,
  and let connections break and dials fail as often as they like.  As long as the user presses no button there
  is still exactly one such task: the receive loop of the connection that the state holds, or a supervisor on
  its way to dial the relay the user wants.
\<close>

theorem drops_keep_one_registration:
  assumes "one_registration d s" and "\<forall>e \<in> set es. \<not> by_user e"
  shows "\<exists>t. tasks (fold sys_step es s) = [t] \<and>
           desired_relay_addr (sys (fold sys_step es s)) = Some d \<and>
           (case t of Loop c \<Rightarrow> conn (sys (fold sys_step es s)) = Some c
            | SupDial r n \<Rightarrow> r = d \<and> conn (sys (fold sys_step es s)) = None
            | _ \<Rightarrow> conn (sys (fold sys_step es s)) = None)"
proof -
  have "one_registration d (fold sys_step es s)"
    using assms by (rule fold_keeps) (rule one_registration_step)
  then obtain t where "tasks (fold sys_step es s) = [t]" "expected_by t d (fold sys_step es s)"
    "desired_relay_addr (sys (fold sys_step es s)) = Some d"
    by (auto simp: one_registration_def)
  then show ?thesis by (cases t) auto
qed

section \<open>The three guards\<close>

text \<open>
  What may run beside a live connection \<open>c\<close> to relay \<open>d\<close>: its receive loop, supervisors that have not begun
  to wait or dial, repeated presses of the button for the same relay.
\<close>

fun calm :: "string \<Rightarrow> nat \<Rightarrow> task \<Rightarrow> bool" where
  "calm d c (Loop c') \<longleftrightarrow> c' = c"
| "calm d c (SupStart r) \<longleftrightarrow> True"
| "calm d c (SupCheck r n) \<longleftrightarrow> True"
| "calm d c (SupReclaim r n) \<longleftrightarrow> True"
| "calm d c SupExit \<longleftrightarrow> True"
| "calm d c (CmdStart r) \<longleftrightarrow> r = d"
| "calm d c _ \<longleftrightarrow> False"

definition live_on :: "string \<Rightarrow> nat \<Rightarrow> System \<Rightarrow> bool" where
  "live_on d c s \<longleftrightarrow>
     desired_relay_addr (sys s) = Some d \<and> conn (sys s) = Some c \<and> c \<notin> closed s \<and> list_all (calm d c) (tasks s)"

fun leaves_alone :: "string \<Rightarrow> nat \<Rightarrow> sys_event \<Rightarrow> bool" where
  "leaves_alone d c (Run i dial) \<longleftrightarrow> True"
| "leaves_alone d c (Breaks c') \<longleftrightarrow> c' \<noteq> c"
| "leaves_alone d c (UserRegisters r) \<longleftrightarrow> r = d"
| "leaves_alone d c UserDeregisters \<longleftrightarrow> False"

lemma calm_task:
  assumes "calm d c t" "desired_relay_addr (sys s) = Some d" "conn (sys s) = Some c" "c \<notin> closed s"
  shows "case task_step dial t s of (ts, s') \<Rightarrow>
    list_all (calm d c) ts \<and> desired_relay_addr (sys s') = Some d \<and> conn (sys s') = Some c \<and>
    closed s' = closed s \<and> opened s' = opened s"
  using assms by (cases t) (simp_all add: already_same_def)

lemma list_all_around:
  assumes "list_all P ts" "list_all P new"
  shows "list_all P (take i ts @ new @ drop j ts)"
  using assms by (auto simp: list_all_iff dest: in_set_takeD in_set_dropD)

lemma live_on_step:
  assumes "live_on d c s \<and> opened s = k" "leaves_alone d c e"
  shows "live_on d c (sys_step e s) \<and> opened (sys_step e s) = k"
proof (cases e)
  case (Run i dial)
  obtain ts s' where t: "task_step dial (tasks s ! i) s = (ts, s')" by (cases "task_step dial (tasks s ! i) s")
  show ?thesis
  proof (cases "i < length (tasks s)")
    case True
    then have "calm d c (tasks s ! i)" using assms(1) by (simp add: live_on_def list_all_length)
    then have "list_all (calm d c) ts \<and> desired_relay_addr (sys s') = Some d \<and> conn (sys s') = Some c \<and>
        closed s' = closed s \<and> opened s' = opened s"
      using calm_task[of d c "tasks s ! i" s dial] assms(1) t by (simp add: live_on_def)
    then show ?thesis using assms(1) Run True t list_all_around[of "calm d c" "tasks s" ts i "i + 1"]
      by (simp add: live_on_def)
  next
    case False
    then show ?thesis using assms(1) Run by simp
  qed
qed (use assms in \<open>auto simp: live_on_def\<close>)

text \<open>
  C25 (safety).  Beside a live connection nobody dials.  Take a state with a live connection to the relay the user wants,
  whose tasks are the receive loop of that connection, supervisors that have not begun to wait or to dial, and
  presses of the button for that same relay.  However often the user presses it again, however the supervisors
  run, and whatever other connections break: no connection is opened, the state keeps the one it has and the
  relay, and no task gets as far as waiting, dialling or deregistering.
\<close>

theorem live_connection_is_not_replaced:
  assumes "live_on d c s" and "\<forall>e \<in> set es. leaves_alone d c e"
  shows "opened (fold sys_step es s) = opened s \<and> conn (sys (fold sys_step es s)) = Some c \<and>
    desired_relay_addr (sys (fold sys_step es s)) = Some d \<and> list_all (calm d c) (tasks (fold sys_step es s))"
proof -
  have "live_on d c s \<and> opened s = opened s" using assms(1) by simp
  then have "live_on d c (fold sys_step es s) \<and> opened (fold sys_step es s) = opened s"
    using assms(2) by (rule fold_keeps) (rule live_on_step)
  then show ?thesis by (simp add: live_on_def)
qed

text \<open>
  A supervisor that holds the slot \<open>reconnect_in_progress\<close>, and what may run beside it: the receive loops of
  other connections, which may end at any time, and supervisors that have been started and not run yet.
\<close>

fun holds_slot :: "string \<Rightarrow> task \<Rightarrow> bool" where
  "holds_slot d (SupCheck r n) \<longleftrightarrow> True"
| "holds_slot d (SupSleep r n) \<longleftrightarrow> r = d"
| "holds_slot d (SupRelease r n) \<longleftrightarrow> r = d"
| "holds_slot d _ \<longleftrightarrow> False"

fun dials :: "string \<Rightarrow> task \<Rightarrow> bool" where
  "dials d (SupDial r n) \<longleftrightarrow> r = d"
| "dials d _ \<longleftrightarrow> False"

fun bystander :: "task \<Rightarrow> bool" where
  "bystander (Loop c) \<longleftrightarrow> True"
| "bystander (SupStart r) \<longleftrightarrow> True"
| "bystander _ \<longleftrightarrow> False"

definition one_among :: "(task \<Rightarrow> bool) \<Rightarrow> task list \<Rightarrow> bool" where
  "one_among P ts \<longleftrightarrow> (\<exists>pre t post. ts = pre @ t # post \<and> P t \<and> list_all bystander (pre @ post))"

definition slot_held :: "string \<Rightarrow> System \<Rightarrow> bool" where
  "slot_held d s \<longleftrightarrow>
     desired_relay_addr (sys s) = Some d \<and> conn (sys s) = None \<and> reconnect_in_progress (sys s) \<and>
     one_among (holds_slot d) (tasks s)"

definition slot_released :: "string \<Rightarrow> System \<Rightarrow> bool" where
  "slot_released d s \<longleftrightarrow>
     desired_relay_addr (sys s) = Some d \<and> conn (sys s) = None \<and> \<not> reconnect_in_progress (sys s) \<and>
     one_among (dials d) (tasks s)"

text \<open>How many supervisors have been started and not run yet.\<close>

fun is_start :: "task \<Rightarrow> bool" where
  "is_start (SupStart r) \<longleftrightarrow> True"
| "is_start _ \<longleftrightarrow> False"

definition starting :: "System \<Rightarrow> nat" where
  "starting s = length (filter is_start (tasks s))"

lemma bystander_task:
  assumes "bystander t" "conn (sys s) = None" "reconnect_in_progress (sys s)"
  shows "case task_step dial t s of (ts, s') \<Rightarrow>
    list_all bystander ts \<and> length (filter is_start ts) \<le> (if is_start t then 1 else 0) \<and> desired_relay_addr (sys s') = desired_relay_addr (sys s) \<and> conn (sys s') = None \<and>
    reconnect_in_progress (sys s') \<and> opened s' = opened s"
  using assms by (cases t) (simp_all add: loop_ended_def)

lemma holder_task:
  assumes "holds_slot d t" "desired_relay_addr (sys s) = Some d" "conn (sys s) = None" "reconnect_in_progress (sys s)"
  obtains t' where "holds_slot d t'" "task_step dial t s = ([t'], s)"
    | t' where "dials d t'" "task_step dial t s = ([t'], s\<lparr>sys := (sys s)\<lparr>reconnect_in_progress := False\<rparr>\<rparr>)"
proof (cases t)
  case (SupCheck r n)
  then show ?thesis
    using that(1)[of "let n = (if d \<noteq> r then 0 else n) in if 0 < n then SupSleep d n else SupRelease d n"] assms
    by (simp add: Let_def)
next
  case (SupSleep r n)
  then show ?thesis using that(1)[of "SupRelease d n"] assms(1) by simp
next
  case (SupRelease r n)
  then show ?thesis using that(2)[of "SupDial d (n + 1)"] assms(1) by simp
qed (use assms(1) in simp_all)

lemma one_among_replace:
  assumes "list_all bystander ts" "i < length pre + length post + 1" "i \<noteq> length pre" "list_all bystander (pre @ post)" "P t"
  shows "one_among P (take i (pre @ t # post) @ ts @ drop (i + 1) (pre @ t # post))"
proof (cases "i < length pre")
  case True
  let ?pre = "take i pre @ ts @ drop (i + 1) pre"
  have "take i (pre @ t # post) @ ts @ drop (i + 1) (pre @ t # post) = ?pre @ t # post" using True by simp
  moreover have "list_all bystander (?pre @ post)"
    using assms(1,4) by (auto simp: list_all_iff dest: in_set_takeD in_set_dropD)
  ultimately show ?thesis using assms(5) unfolding one_among_def by blast
next
  case False
  then obtain j where j: "i = length pre + 1 + j" using assms(3) by (metis Suc_eq_plus1 less_iff_Suc_add linorder_neqE_nat add_Suc_right add_Suc)
  let ?post = "take j post @ ts @ drop (j + 1) post"
  have "take i (pre @ t # post) @ ts @ drop (i + 1) (pre @ t # post) = pre @ t # ?post" using j by simp
  moreover have "list_all bystander (pre @ ?post)"
    using assms(1,4) by (auto simp: list_all_iff dest: in_set_takeD in_set_dropD)
  ultimately show ?thesis using assms(5) unfolding one_among_def by blast
qed

lemma starting_replace:
  assumes "i < length ts" "length (filter is_start new) \<le> (if is_start (ts ! i) then 1 else 0)"
  shows "length (filter is_start (take i ts @ new @ drop (i + 1) ts)) \<le> length (filter is_start ts)"
proof -
  have "filter is_start ts = filter is_start (take i ts @ ts ! i # drop (i + 1) ts)"
    using id_take_nth_drop[OF assms(1)] by simp
  then show ?thesis using assms(2) by (simp split: if_splits)
qed

lemma slot_step:
  assumes "slot_held d s" "\<not> by_user e"
  shows "opened (sys_step e s) = opened s \<and> starting (sys_step e s) \<le> starting s \<and>
    (slot_held d (sys_step e s) \<or> slot_released d (sys_step e s))"
proof (cases e)
  case (Run i dial)
  from assms(1) obtain pre t post where
    st: "desired_relay_addr (sys s) = Some d" "conn (sys s) = None" "reconnect_in_progress (sys s)"
    and ts: "tasks s = pre @ t # post" "holds_slot d t" "list_all bystander (pre @ post)"
    by (auto simp: slot_held_def one_among_def)
  consider "i = length pre" | "i < length (tasks s)" "i \<noteq> length pre" | "\<not> i < length (tasks s)"
    using ts(1) by fastforce
  then show ?thesis
  proof cases
    case 1
    have repl: "take i (tasks s) @ [t'] @ drop (i + 1) (tasks s) = pre @ t' # post" for t' using 1 ts(1) by simp
    have run: "sys_step e s = s'\<lparr>tasks := pre @ t' # post\<rparr>" if "task_step dial t s = ([t'], s')" for t' s'
      using that Run 1 ts(1) repl by simp
    have stay: "\<not> is_start t' \<and> \<not> is_start t" if "holds_slot d t' \<or> dials d t'" for t'
      using that ts(2) by (cases t'; cases t) simp_all
    from ts(2) st show ?thesis
    proof (rule holder_task[of d t s dial])
      fix t' assume "holds_slot d t'" "task_step dial t s = ([t'], s)"
      then show ?thesis using run[of t' s] ts st stay[of t'] by (auto simp: slot_held_def one_among_def starting_def)
    next
      fix t' assume "dials d t'" "task_step dial t s = ([t'], s\<lparr>sys := (sys s)\<lparr>reconnect_in_progress := False\<rparr>\<rparr>)"
      then show ?thesis using run[of t' "s\<lparr>sys := (sys s)\<lparr>reconnect_in_progress := False\<rparr>\<rparr>"] ts st stay[of t']
        by (auto simp: slot_released_def one_among_def starting_def)
    qed
  next
    case 2
    obtain new s' where n: "task_step dial (tasks s ! i) s = (new, s')" by (cases "task_step dial (tasks s ! i) s")
    have "tasks s ! i \<in> set (pre @ post)" using 2 ts(1) by (auto simp: nth_append nth_Cons split: nat.splits)
    then have "bystander (tasks s ! i)" using ts(3) by (auto simp: list_all_iff)
    then have b: "list_all bystander new \<and> length (filter is_start new) \<le> (if is_start (tasks s ! i) then 1 else 0) \<and>
        desired_relay_addr (sys s') = Some d \<and> conn (sys s') = None \<and>
        reconnect_in_progress (sys s') \<and> opened s' = opened s"
      using bystander_task[of "tasks s ! i" s dial] st n by simp
    have "starting (sys_step e s) \<le> starting s"
      using starting_replace[of i "tasks s" new] b 2 n Run by (simp add: starting_def)
    moreover have "opened (sys_step e s) = opened s \<and> slot_held d (sys_step e s)"
      using b Run 2 n ts one_among_replace[of new i pre post "holds_slot d" t] by (simp add: slot_held_def)
    ultimately show ?thesis by blast
  next
    case 3
    then show ?thesis using Run assms(1) by simp
  qed
next
  case (Breaks c)
  then show ?thesis using assms(1) by (simp add: slot_held_def starting_def)
qed (use assms in auto)

lemma slot_runs:
  assumes "slot_held d s" "\<forall>e \<in> set es. \<not> by_user e"
  shows "slot_held d (fold sys_step es s) \<and> opened (fold sys_step es s) = opened s \<and>
      starting (fold sys_step es s) \<le> starting s \<or>
    (\<exists>es1 e es2. es = es1 @ e # es2 \<and> slot_held d (fold sys_step es1 s) \<and>
       slot_released d (fold sys_step (es1 @ [e]) s) \<and> opened (fold sys_step (es1 @ [e]) s) = opened s \<and>
       starting (fold sys_step (es1 @ [e]) s) \<le> starting s)"
  using assms
proof (induction es arbitrary: s)
  case Nil
  then show ?case by simp
next
  case (Cons e es)
  have step: "opened (sys_step e s) = opened s" "starting (sys_step e s) \<le> starting s" "slot_held d (sys_step e s) \<or> slot_released d (sys_step e s)"
    using slot_step[of d s e] Cons.prems by auto
  show ?case
  proof (cases "slot_released d (sys_step e s)")
    case True
    then have "slot_held d (fold sys_step [] s) \<and> slot_released d (fold sys_step ([] @ [e]) s) \<and>
        opened (fold sys_step ([] @ [e]) s) = opened s \<and> starting (fold sys_step ([] @ [e]) s) \<le> starting s"
      using Cons.prems step by simp
    moreover have "e # es = [] @ e # es" by simp
    ultimately show ?thesis by blast
  next
    case False
    then have "slot_held d (sys_step e s)" using step(3) by simp
    from Cons.IH[OF this] Cons.prems(2) step(1,2) consider
        "slot_held d (fold sys_step es (sys_step e s))" "opened (fold sys_step es (sys_step e s)) = opened s"
        "starting (fold sys_step es (sys_step e s)) \<le> starting s"
      | es1 e' es2 where "es = es1 @ e' # es2" "slot_held d (fold sys_step es1 (sys_step e s))"
          "slot_released d (fold sys_step (es1 @ [e']) (sys_step e s))"
          "opened (fold sys_step (es1 @ [e']) (sys_step e s)) = opened s"
          "starting (fold sys_step (es1 @ [e']) (sys_step e s)) \<le> starting s"
      by fastforce
    then show ?thesis
    proof cases
      case 1
      then show ?thesis by simp
    next
      case 2
      then have "e # es = (e # es1) @ e' # es2 \<and> slot_held d (fold sys_step (e # es1) s) \<and>
          slot_released d (fold sys_step ((e # es1) @ [e']) s) \<and>
          opened (fold sys_step ((e # es1) @ [e']) s) = opened s \<and>
          starting (fold sys_step ((e # es1) @ [e']) s) \<le> starting s" by simp
      then show ?thesis by blast
    qed
  qed
qed

text \<open>
  C15 (safety).  Reconnecting is single-flight while the slot is held.  Take a state without a connection in which a
  supervisor holds the slot \<open>reconnect_in_progress\<close>, for the relay the user wants, and beside it there are only
  receive loops and supervisors that have not run yet, any number of each; and let the user press no button.
  Loops may end and supervisors may start in any order: none of these gets the slot or dials, no connection is
  opened, no loop that ends starts a supervisor, and the slot is given up in one way only, by its holder, which
  is then alone in dialling the relay the user wants.  From there on the slot is free and nothing is claimed, see
  \<open>relay_swap_leaks_registration\<close>.
\<close>

theorem reconnection_is_single_flight:
  assumes "slot_held d s" and "\<forall>e \<in> set es. \<not> by_user e"
  shows "slot_held d (fold sys_step es s) \<and> opened (fold sys_step es s) = opened s \<and>
      starting (fold sys_step es s) \<le> starting s \<or>
    (\<exists>es1 e es2. es = es1 @ e # es2 \<and> slot_held d (fold sys_step es1 s) \<and>
       slot_released d (fold sys_step (es1 @ [e]) s) \<and> opened (fold sys_step (es1 @ [e]) s) = opened s \<and>
       starting (fold sys_step (es1 @ [e]) s) \<le> starting s)"
  using assms by (rule slot_runs)

lemma sys_step_one:
  "tasks s = [t] \<Longrightarrow> task_step dial t s = (ts, s') \<Longrightarrow> sys_step (Run 0 dial) s = s'\<lparr>tasks := ts\<rparr>"
  by simp

text \<open>One failed attempt and the way to the next: dial, reclaim, check, sleep, release.\<close>

lemma failed_attempt:
  assumes "tasks s = [SupDial d (n + 1)]" "desired_relay_addr (sys s) = Some d" "conn (sys s) = None"
    "\<not> reconnect_in_progress (sys s)"
  shows "fold sys_step (replicate 5 (Run 0 None)) s = s\<lparr>tasks := [SupDial d (n + 2)]\<rparr>"
proof -
  have "(sys s)\<lparr>reconnect_in_progress := False\<rparr> = sys s" using assms(4) by (cases "sys s") simp
  then have "s\<lparr>sys := (sys s)\<lparr>reconnect_in_progress := False\<rparr>\<rparr> = s" by simp
  then show ?thesis using assms(1-3) by (simp add: numeral_eq_Suc dial_done_def)
qed

lemma failed_attempts:
  assumes "tasks s = [SupDial d (n + 1)]" "desired_relay_addr (sys s) = Some d" "conn (sys s) = None"
    "\<not> reconnect_in_progress (sys s)"
  shows "fold sys_step (replicate (5 * f) (Run 0 None)) s = s\<lparr>tasks := [SupDial d (n + 1 + f)]\<rparr>"
  using assms
proof (induction f arbitrary: n s)
  case 0
  then show ?case by (cases s) simp
next
  case (Suc f)
  have "replicate (5 * Suc f) (Run 0 None) = replicate 5 (Run 0 None) @ replicate (5 * f) (Run 0 None)"
    by (simp add: replicate_add[symmetric])
  then show ?case
    using failed_attempt[OF Suc.prems] Suc.IH[of "s\<lparr>tasks := [SupDial d (n + 2)]\<rparr>" "n + 1"] Suc.prems
    by simp
qed

definition recovery :: "nat \<Rightarrow> u16 \<Rightarrow> string \<Rightarrow> sys_event list" where
  "recovery f port fp = replicate (4 + 5 * f) (Run 0 None) @ [Run 0 (Some (port, fp))]"

text \<open>
  C16 (liveness).  When the only connection of a registered client breaks and the relay then refuses any
  number of attempts, the client is registered again with the first attempt that succeeds.
\<close>

theorem broken_registration_recovers:
  assumes "one_registration d s" "tasks s = [Loop c]" "c \<in> closed s"
  shows "tasks (fold sys_step (recovery f port fp) s) = [Loop (opened s)] \<and>
    conn (sys (fold sys_step (recovery f port fp) s)) = Some (opened s) \<and>
    endpoint_port (sys (fold sys_step (recovery f port fp) s)) = Some port \<and>
    signal_status (sys (fold sys_step (recovery f port fp) s)) = ''registered'' \<and>
    one_registration d (fold sys_step (recovery f port fp) s)"
proof -
  have one: "one_registration d (fold sys_step (recovery f port fp) s)"
  proof -
    have "\<forall>e \<in> set (recovery f port fp). \<not> by_user e" by (auto simp: recovery_def)
    with assms(1) show ?thesis by (rule fold_keeps) (rule one_registration_step)
  qed
  from assms have st: "desired_relay_addr (sys s) = Some d" "\<not> reconnect_in_progress (sys s)"
    by (auto simp: one_registration_def)
  define st1 where "st1 = (sys s)\<lparr>signal_status := ''idle'', conn := None, reconnect_in_progress := False\<rparr>"
  have four: "fold sys_step (replicate 4 (Run 0 None)) s = s\<lparr>sys := st1, tasks := [SupDial d (0 + 1)]\<rparr>"
    using assms(2,3) st by (simp add: numeral_eq_Suc loop_ended_def st1_def)
  have "fold sys_step (replicate (5 * f) (Run 0 None)) (s\<lparr>sys := st1, tasks := [SupDial d (0 + 1)]\<rparr>) =
      s\<lparr>sys := st1, tasks := [SupDial d (0 + 1 + f)]\<rparr>"
    using st by (subst failed_attempts[where d = d and n = 0]) (simp_all add: st1_def)
  then have "fold sys_step (recovery f port fp) s =
      sys_step (Run 0 (Some (port, fp))) (s\<lparr>sys := st1, tasks := [SupDial d (0 + 1 + f)]\<rparr>)"
    by (simp only: recovery_def replicate_add fold_append comp_apply four fold.simps id_apply)
  then show ?thesis using one by (simp add: dial_done_def registered_def)
qed

section \<open>Buttons pressed while a supervisor works\<close>

text \<open>
  The old loop ends after the command has named the new relay, so it starts a supervisor beside the command;
  both dial.
\<close>

definition swap_schedule :: "string \<Rightarrow> u16 \<times> string \<Rightarrow> sys_event list" where
  "swap_schedule b dial =
     [UserRegisters b, Run 1 None, Run 1 None, Run 1 None,
      Run 0 None, Run 0 None, Run 0 None, Run 0 None, Run 1 (Some dial), Run 0 (Some dial)]"

text \<open>
  C19 (safety).  A registered client that switches to another relay can end up registered there twice, the
  command and a supervisor each holding a connection.  Deregistering then closes only the second one: the
  first stays open, with its receive loop, although the client takes itself for deregistered.
\<close>

theorem relay_swap_leaks_registration:
  assumes "one_registration a s" "tasks s = [Loop c]" "a \<noteq> b" "closed s \<subseteq> {..<opened s}" "c < opened s"
  shows "tasks (fold sys_step (swap_schedule b dial) s) = [Loop (opened s + 1), Loop (opened s)] \<and>
    (let s' = fold sys_step (swap_schedule b dial @ [UserDeregisters, Run 0 None]) s in
         tasks s' = [Loop (opened s)] \<and> opened s \<notin> closed s' \<and>
         conn (sys s') = None \<and> desired_relay_addr (sys s') = None \<and> signal_status (sys s') = ''idle'')"
proof (intro conjI)
  from assms have st: "conn (sys s) = Some c" "desired_relay_addr (sys s) = Some a" "\<not> reconnect_in_progress (sys s)"
    by (auto simp: one_registration_def)
  define k where "k = fold sys_step (swap_schedule b dial) s"
  have k: "tasks k = [Loop (opened s + 1), Loop (opened s)]" "closed k = insert c (closed s)"
    "conn (sys k) = Some (opened s + 1)" "\<not> reconnect_in_progress (sys k)"
    unfolding k_def using assms(2,3) st
    by (cases dial, simp add: swap_schedule_def already_same_def internal_deregister_def loop_ended_def dial_done_def
        registered_def)+
  then show "tasks (fold sys_step (swap_schedule b dial) s) = [Loop (opened s + 1), Loop (opened s)]"
    by (simp add: k_def)
  show "let s' = fold sys_step (swap_schedule b dial @ [UserDeregisters, Run 0 None]) s in
         tasks s' = [Loop (opened s)] \<and> opened s \<notin> closed s' \<and>
         conn (sys s') = None \<and> desired_relay_addr (sys s') = None \<and> signal_status (sys s') = ''idle''"
    using assms(4,5) k
    by (auto simp: fold_append k_def[symmetric] internal_deregister_def loop_ended_def)
qed

text \<open>
  Also (safety).  A supervisor that waits for its next attempt does not look at the state again before it dials.
  If the user deregisters during the pause, the client is registered again after it, and nothing will ever close
  that connection but the user.
\<close>

theorem deregister_during_backoff_is_undone:
  assumes "tasks s = [SupSleep d n]" and "c = opened s"
  shows "let s' = fold sys_step [UserDeregisters, Run 0 None, Run 0 None, Run 0 (Some (port, fp))] s in
         tasks s' = [Loop c] \<and> conn (sys s') = Some c \<and> signal_status (sys s') = ''registered'' \<and>
         desired_relay_addr (sys s') = None"
  using assms by (simp add: internal_deregister_def dial_done_def registered_def)

fun may_dial :: "task \<Rightarrow> bool" where
  "may_dial (SupSleep r n) = True"
| "may_dial (SupRelease r n) = True"
| "may_dial (SupDial r n) = True"
| "may_dial (CmdStart r) = True"
| "may_dial (CmdDeregister r) = True"
| "may_dial (CmdDesire r) = True"
| "may_dial (CmdDial r) = True"
| "may_dial _ = False"

lemma no_dial_step:
  assumes "desired_relay_addr (sys s) = None" "\<not> may_dial t"
  shows "desired_relay_addr (sys (snd (task_step dial t s))) = None \<and> opened (snd (task_step dial t s)) = opened s \<and>
    (conn (sys s) = None \<longrightarrow> conn (sys (snd (task_step dial t s))) = None) \<and>
    (\<forall>u \<in> set (fst (task_step dial t s)). \<not> may_dial u) \<and> length (fst (task_step dial t s)) \<le> 1"
  using assms by (cases t) (auto simp: loop_ended_def)

text \<open>
  C20 (safety).  If no task is past its last look at the state when the user deregisters, the client opens no
  connection any more and stays deregistered until the user registers again.
\<close>

theorem deregister_ends_reconnection:
  assumes "\<forall>t \<in> set (tasks s). \<not> may_dial t" and "\<forall>e \<in> set es. \<not> by_user e"
  shows "opened (fold sys_step (UserDeregisters # es) s) = opened s \<and>
    conn (sys (fold sys_step (UserDeregisters # es) s)) = None \<and>
    desired_relay_addr (sys (fold sys_step (UserDeregisters # es) s)) = None"
proof -
  let ?P = "\<lambda>k. opened k = opened s \<and> conn (sys k) = None \<and> desired_relay_addr (sys k) = None \<and>
    (\<forall>t \<in> set (tasks k). \<not> may_dial t)"
  have "?P (sys_step UserDeregisters s)" using assms(1) by (simp add: internal_deregister_def)
  note start = this
  have "?P (sys_step e k)" if "?P k" "\<not> by_user e" for e k
  proof (cases e)
    case (Run i dial)
    show ?thesis
    proof (cases "i < length (tasks k)")
      case True
      then have "\<not> may_dial (tasks k ! i)" using that(1) by simp
      obtain ts k' where step: "task_step dial (tasks k ! i) k = (ts, k')" by fastforce
      have ts: "set (take i (tasks k) @ ts @ drop (i + 1) (tasks k)) \<subseteq> set (tasks k) \<union> set ts"
        by (auto dest: in_set_takeD in_set_dropD)
      have "sys_step e k = k'\<lparr>tasks := take i (tasks k) @ ts @ drop (i + 1) (tasks k)\<rparr>"
        using Run True step by simp
      moreover have "desired_relay_addr (sys k') = None" "opened k' = opened s" "conn (sys k') = None"
        "\<forall>u \<in> set ts. \<not> may_dial u"
        using no_dial_step[OF _ \<open>\<not> may_dial (tasks k ! i)\<close>, of k dial] that(1) by (simp_all add: step)
      ultimately show ?thesis using ts that(1) by auto
    qed (use that Run in simp)
  qed (use that in auto)
  note keeps = this
  have "?P (fold sys_step es (sys_step UserDeregisters s))"
    using start assms(2) keeps by (rule fold_keeps)
  then show ?thesis by simp
qed

section \<open>Privacy\<close>

definition no_addresses :: Candidates where
  "no_addresses = \<lparr>reflexive_addr = None, local_addrs = [], mapped_addr = None\<rparr>"

text \<open>
  C17 (safety).  When the user accepts a call without trusting the caller, or rejects it, the app asks nobody
  for an address: not the relay, no STUN server, not the system, not the router, and it starts no probe of its
  ports.  Registered and with a transport that takes the message, it sends exactly one message, an answer with
  the user's decision and without any address; otherwise it sends nothing and reports the error.  The signalling
  state stays as it was in every case, and the history is marked for an accepted call only.
\<close>

theorem private_answer_hides_addresses:
  assumes "app_answer_call show_addr mark en ticket cid mode a = (outs, res, a')"
    and "answer_mode mode \<noteq> AcceptTrusted"
  shows "app_signal a' = app_signal a \<and>
    (case conn (app_signal a) of
       None \<Rightarrow> outs = [] \<and> res = Inl ''not registered'' \<and> a' = a
     | Some c \<Rightarrow>
         if en_sent en
         then res = Inr () \<and>
              outs = Send c (DirectCallAnswer cid (answer_mode mode) no_addresses NoPayload) #
                (if mode \<noteq> 0 \<and> fst (mark (app_history a)) then [UiEvent ''history-changed''] else []) \<and>
              app_history a' = (if mode \<noteq> 0 then snd (mark (app_history a)) else app_history a)
         else outs = [] \<and> res = Inl ''send failed'' \<and> a' = a)"
  using assms
  by (auto simp: app_answer_call_def Let_def case_prod_beta no_addresses_def split: option.splits if_splits)

text \<open>
  C18 (safety).  A caller learns the address of the callee in spite of that, at any point of the call and
  whatever the answer: it sends a probe that claims an unpredictable NAT.  The relay passes it on, the callee's
  app opens ports and answers with its public address and those ports, and the relay brings the answer back.
\<close>

theorem probe_defeats_privacy:
  assumes call: "hm_get (calls r) cid = Some e" "caller_fingerprint e = a" "callee_fingerprint e = b" "a \<noteq> b"
      "peer_relay_fp e = None"
    and hub: "map_option transport (hm_get (hub r) a) = Some ca" "map_option transport (hm_get (hub r) b) = Some cb"
    and app: "conn (app_signal p) = Some k" "recv_signal parse parse_ip to_json written now sent k
      (PeerNegotiation cid (HardNatProbe ports ''random'' ip)) p = (outs, p')"
    and opened: "ports' \<noteq> []"
  shows "on_signal now ca addr a (PeerNegotiation cid (HardNatProbe ports ''random'' ip)) r =
      ([ToClient cb (PeerNegotiation cid (HardNatProbe ports ''random'' ip))], r) \<and>
    outs = [OpenBirthdayPorts cid] \<and>
    birthday_opened cid ports' own_ip (app_signal p') = [Send k (PeerNegotiation cid (BirthdayStart ports' own_ip))] \<and>
    on_signal now' cb addr' b (PeerNegotiation cid (BirthdayStart ports' own_ip)) r =
      ([ToClient ca (PeerNegotiation cid (BirthdayStart ports' own_ip))], r)"
proof (intro conjI)
  have peers: "Calls.peer_fingerprint cid a (calls r) = Some b" "Calls.peer_fingerprint cid b (calls r) = Some a"
    using call by (simp_all add: Calls.peer_fingerprint_def)
  show "on_signal now ca addr a (PeerNegotiation cid (HardNatProbe ports ''random'' ip)) r =
      ([ToClient cb (PeerNegotiation cid (HardNatProbe ports ''random'' ip))], r)"
    "on_signal now' cb addr' b (PeerNegotiation cid (BirthdayStart ports' own_ip)) r =
      ([ToClient ca (PeerNegotiation cid (BirthdayStart ports' own_ip))], r)"
    using call(1,5) peers hub by (simp_all add: on_signal_def pass_to_peer_def send_online)
  show "outs = [OpenBirthdayPorts cid]"
    using app(2) by (auto simp: recv_signal_def with_signal_def on_negotiation_def on_hard_nat_probe_def)
  have "conn (app_signal p') = Some k"
    using app by (auto simp: recv_signal_def with_signal_def on_negotiation_def on_hard_nat_probe_def split: option.splits)
  then show "birthday_opened cid ports' own_ip (app_signal p') =
      [Send k (PeerNegotiation cid (BirthdayStart ports' own_ip))]"
    using opened by (simp add: birthday_opened_def)
qed

section \<open>Ports that are predicted and not dialled\<close>

text \<open>
  C21 (equivalence).  Between two networks with different public addresses, what the peer told of its port
  allocation and of the ports it opened makes no difference to the addresses that are dialled: they are put
  among the local addresses, and those are tried within one network only.
\<close>

theorem hard_nat_ports_are_not_dialled:
  assumes "Option.bind (ca_peer_direct ca) parse = Some peer" "sa_ip own \<noteq> sa_ip peer"
  shows "smart_dial_order (connect_candidates parse draw ca st) (Some own) =
         push_new (drop_ipv6 (Some peer)) (push_new (drop_ipv6 (Option.bind (ca_peer_mapped ca) parse)) [])"
  using assms by (simp add: smart_dial_order_def connect_candidates_def same_network_def)

text \<open>
  Also (functional).  A peer that opened its ports on an IPv6 address makes the app dial those ports at the
  unspecified IPv4 address instead.
\<close>

theorem ipv6_birthday_targets_unspecified:
  assumes "peer_birthday_ports st = Some \<lparr>pb_external_ip = V6 ip, pb_ports = ports\<rparr>" "p \<in> set ports"
  shows "\<lparr>sa_ip = V4 [0, 0, 0, 0], sa_port = p\<rparr> \<in> set (birthday_addrs draw st)"
  using assms fill_targets_prefix[of "V4 [0, 0, 0, 0]" "map draw [0..<64 - unat (of_nat (length ports) :: u16)]"
      "map (\<lambda>q. \<lparr>sa_ip = V4 [0, 0, 0, 0], sa_port = q\<rparr>) ports"]
  by (auto simp: birthday_addrs_def generate_dialer_targets_def)

section \<open>Agreeing on the path\<close>

text \<open>
  Two apps connect to the same call, \<open>True\<close> and \<open>False\<close>.  Each installs its ticket and races, sends its
  report when the race ends, and decides on the report that fired the ticket or, after three seconds, without
  one.  Reports travel in the inboxes; one that arrives before the ticket is installed is dropped by the
  receive loop.  The inboxes start empty and hold the reports of this call only; the receive loop itself does
  not look at the call of a report (\<open>report_of_any_call_is_taken\<close>).
\<close>

record side =
  sd_state :: SignalState
  sd_ticket :: nat
  sd_result :: "RaceResult option"
  sd_received :: "bool option"
  sd_decision :: "(string + bool \<times> WinningPath option) option"

record parties =
  side_of :: "bool \<Rightarrow> side"
  inbox :: "bool \<Rightarrow> bool list"

definition receives :: "bool \<Rightarrow> side \<Rightarrow> side" where
  "receives ok s =
     (let (outs, st) = on_path_report ok (sd_state s) in
      s\<lparr>sd_state := st,
        sd_received := (if FirePathReport (sd_ticket s) ok \<in> set outs then Some ok else sd_received s)\<rparr>)"

inductive negotiation_step :: "bool \<Rightarrow> bool \<Rightarrow> parties \<Rightarrow> parties \<Rightarrow> bool" for force where
  begins: "sd_result (side_of w x) = None \<Longrightarrow>
    negotiation_step force in_time w
      (w\<lparr>side_of := (side_of w)(x := (side_of w x)\<lparr>sd_state := (sd_state (side_of w x))\<lparr>
           pending_path_report := Some (sd_ticket (side_of w x))\<rparr>\<rparr>)\<rparr>)"
| race_ends: "sd_result (side_of w x) = None \<Longrightarrow>
    negotiation_step force in_time w
      (w\<lparr>side_of := (side_of w)(x := (side_of w x)\<lparr>sd_result := Some r\<rparr>),
         inbox := (inbox w)(\<not> x := inbox w (\<not> x) @ [direct_transport r])\<rparr>)"
| delivered: "inbox w x = ok # rest \<Longrightarrow>
    negotiation_step force in_time w
      (w\<lparr>side_of := (side_of w)(x := receives ok (side_of w x)), inbox := (inbox w)(x := rest)\<rparr>)"
| decides: "sd_result (side_of w x) = Some r \<Longrightarrow> sd_received (side_of w x) = Some ok \<Longrightarrow>
    negotiation_step force in_time w
      (w\<lparr>side_of := (side_of w)(x := (side_of w x)\<lparr>sd_decision := Some (path_agreed force r ok)\<rparr>)\<rparr>)"
| gives_up: "sd_result (side_of w x) = Some r \<Longrightarrow> sd_received (side_of w x) = None \<Longrightarrow> \<not> in_time \<Longrightarrow>
    negotiation_step force in_time w
      (w\<lparr>side_of := (side_of w)(x := (side_of w x)\<lparr>sd_decision := Some (path_agreed force r False),
           sd_state := (sd_state (side_of w x))\<lparr>pending_path_report := None\<rparr>\<rparr>)\<rparr>)"

inductive negotiation :: "bool \<Rightarrow> bool \<Rightarrow> parties \<Rightarrow> bool" for force in_time where
  start: "(\<And>x. sd_result (side_of w x) = None \<and> sd_received (side_of w x) = None \<and> sd_decision (side_of w x) = None \<and>
             inbox w x = []) \<Longrightarrow> negotiation force in_time w"
| step: "negotiation force in_time w \<Longrightarrow> negotiation_step force in_time w w' \<Longrightarrow> negotiation force in_time w'"

definition told :: "parties \<Rightarrow> bool \<Rightarrow> bool \<Rightarrow> bool" where
  "told w x ok \<longleftrightarrow> map_option direct_transport (sd_result (side_of w (\<not> x))) = Some ok"

definition honest :: "bool \<Rightarrow> parties \<Rightarrow> bool" where
  "honest force w \<longleftrightarrow>
     (\<forall>x. (\<forall>ok \<in> set (inbox w x). told w x ok) \<and>
          (\<forall>ok. sd_received (side_of w x) = Some ok \<longrightarrow> told w x ok) \<and>
          (\<forall>d. sd_decision (side_of w x) = Some d \<longrightarrow>
             (\<exists>r ok. sd_result (side_of w x) = Some r \<and> told w x ok \<and> d = path_agreed force r ok)))"

lemma receives_simps [simp]:
  "sd_result (receives ok s) = sd_result s" "sd_decision (receives ok s) = sd_decision s"
  "sd_received (receives ok s) \<in> {Some ok, sd_received s}"
  by (auto simp: receives_def case_prod_beta Let_def)

lemma honest_grows:
  assumes "honest force w"
    and result: "\<And>y r. sd_result (side_of w y) = Some r \<Longrightarrow> sd_result (side_of w' y) = Some r"
    and inbox: "\<And>y ok. ok \<in> set (inbox w' y) \<Longrightarrow> ok \<in> set (inbox w y) \<or> told w' y ok"
    and received: "\<And>y ok. sd_received (side_of w' y) = Some ok \<Longrightarrow> sd_received (side_of w y) = Some ok \<or> told w y ok"
    and decision: "\<And>y d. sd_decision (side_of w' y) = Some d \<Longrightarrow> sd_decision (side_of w y) = Some d \<or>
      (\<exists>r ok. sd_result (side_of w y) = Some r \<and> sd_received (side_of w y) = Some ok \<and> d = path_agreed force r ok)"
  shows "honest force w'"
proof -
  have told: "told w' y ok" if "told w y ok" for y ok
    using that result by (auto simp: told_def)
  note h = assms(1)[unfolded honest_def, rule_format]
  have "told w' y ok" if "ok \<in> set (inbox w' y)" for y ok
    using inbox[OF that] h told by blast
  moreover have "told w' y ok" if "sd_received (side_of w' y) = Some ok" for y ok
    using received[OF that] h told by blast
  moreover have "\<exists>r ok. sd_result (side_of w' y) = Some r \<and> told w' y ok \<and> d = path_agreed force r ok"
    if "sd_decision (side_of w' y) = Some d" for y d
    using decision[OF that] h told result by blast
  ultimately show ?thesis by (auto simp: honest_def)
qed

lemma honest_step:
  assumes "negotiation_step force True w w'" "honest force w"
  shows "honest force w'"
  using assms(2)
proof (rule honest_grows)
  fix y
  show "sd_result (side_of w y) = Some r \<Longrightarrow> sd_result (side_of w' y) = Some r" for r
    using assms(1) by (cases; cases y; auto split: if_splits)
  show "ok \<in> set (inbox w' y) \<Longrightarrow> ok \<in> set (inbox w y) \<or> told w' y ok" for ok
    using assms(1) by (cases; cases y; auto simp: told_def split: if_splits)
  show "sd_received (side_of w' y) = Some ok \<Longrightarrow> sd_received (side_of w y) = Some ok \<or> told w y ok" for ok
    using assms(1)
  proof cases
    case (delivered x ok' rest)
    assume "sd_received (side_of w' y) = Some ok"
    moreover have "told w x ok'" using assms(2) delivered(2) by (simp add: honest_def)
    ultimately show ?thesis
      using delivered(1) receives_simps(3)[of ok' "side_of w x"] by (cases y; cases x; auto)
  qed (cases y; auto split: if_splits)+
  show "sd_decision (side_of w' y) = Some d \<Longrightarrow> sd_decision (side_of w y) = Some d \<or>
      (\<exists>r ok. sd_result (side_of w y) = Some r \<and> sd_received (side_of w y) = Some ok \<and> d = path_agreed force r ok)" for d
    using assms(1) by (cases; cases y; auto split: if_splits)
qed

lemma negotiation_honest: "negotiation force True w \<Longrightarrow> honest force w"
proof (induction rule: negotiation.induct)
  case (start w)
  then show ?case by (auto simp: honest_def)
qed (rule honest_step)


text \<open>
  Also (safety).  The app takes the report of any call for the one it waits for: whatever call id a report
  carries, it settles the ticket of the call that is being connected.
\<close>

theorem report_of_any_call_is_taken:
  assumes "pending_path_report (app_signal a) = Some t"
  shows "recv_signal parse parse_ip to_json w now sent c (MediaPathReport cid (PathOk ok)) a =
    ([FirePathReport t ok], a\<lparr>app_signal := (app_signal a)\<lparr>pending_path_report := None\<rparr>\<rparr>)"
  using assms by (simp add: recv_signal_def with_signal_def on_path_report_def)

definition new_side :: "SignalState \<Rightarrow> nat \<Rightarrow> side" where
  "new_side st t = \<lparr>sd_state = st, sd_ticket = t, sd_result = None, sd_received = None, sd_decision = None\<rparr>"

definition new_parties :: "SignalState \<Rightarrow> SignalState \<Rightarrow> parties" where
  "new_parties st1 st2 = \<lparr>side_of = (\<lambda>x. new_side (if x then st1 else st2) 0), inbox = (\<lambda>_. [])\<rparr>"

lemma receives_installed:
  "pending_path_report (sd_state s) = Some (sd_ticket s) \<Longrightarrow> sd_received (receives ok s) = Some ok"
  by (simp add: receives_def on_path_report_def)

text \<open>
  Also (safety).  When one side's race takes three seconds longer than the other's, the two decide differently,
  although both reached each other: the first gives up on the report and takes the relay, the second, which has
  the first one's report, the direct path.  Neither hears the other.
\<close>

theorem late_report_splits_call:
  assumes "direct_transport r1" "relay_transport r1" "direct_transport r2"
  shows "\<exists>w. negotiation force False w \<and>
    sd_result (side_of w True) = Some r1 \<and> sd_result (side_of w False) = Some r2 \<and>
    sd_decision (side_of w True) =
      Some (if force then Inl ''direct_only: P2P failed'' else Inr (False, Some ViaRelay)) \<and>
    sd_decision (side_of w False) = Some (Inr (True, Some Direct))"
proof -
  let ?n = "negotiation force False"
  let ?i = "\<lambda>s. s\<lparr>sd_state := (sd_state s)\<lparr>pending_path_report := Some (sd_ticket s)\<rparr>\<rparr>"
  define s1 where "s1 = ?i (new_side st1 0)"
  define s2 where "s2 = ?i (new_side st2 0)"
  define w0 where "w0 = new_parties st1 st2"
  have "?n w0" by (rule negotiation.start) (simp add: w0_def new_parties_def new_side_def)
  then have "?n (w0\<lparr>side_of := (side_of w0)(True := ?i (side_of w0 True))\<rparr>)"
    by (rule negotiation.step) (rule negotiation_step.begins, simp add: w0_def new_parties_def new_side_def)
  moreover define w1 where "w1 = w0\<lparr>side_of := (side_of w0)(True := ?i (side_of w0 True))\<rparr>"
  ultimately have "?n w1" by simp
  then have "?n (w1\<lparr>side_of := (side_of w1)(False := ?i (side_of w1 False))\<rparr>)"
    by (rule negotiation.step)
      (rule negotiation_step.begins, simp add: w1_def w0_def new_parties_def new_side_def)
  moreover define w2 where "w2 = w1\<lparr>side_of := (side_of w1)(False := ?i (side_of w1 False))\<rparr>"
  ultimately have n2: "?n w2" by simp
  have w2: "side_of w2 True = s1" "side_of w2 False = s2" "inbox w2 = (\<lambda>_. [])"
    by (simp_all add: w2_def w1_def w0_def new_parties_def new_side_def s1_def s2_def)
  have none: "sd_result s1 = None" "sd_result s2 = None" "sd_received s1 = None"
    by (simp_all add: s1_def s2_def new_side_def)
  define w3 where "w3 = w2\<lparr>side_of := (side_of w2)(True := s1\<lparr>sd_result := Some r1\<rparr>),
      inbox := (inbox w2)(False := [True])\<rparr>"
  have "negotiation_step force False w2 w3"
    using negotiation_step.race_ends[of w2 True force False r1] assms none by (simp add: w2 w3_def)
  with n2 have n3: "?n w3" by (rule negotiation.step)
  define d1 where "d1 = s1\<lparr>sd_result := Some r1, sd_decision := Some (path_agreed force r1 False),
      sd_state := (sd_state s1)\<lparr>pending_path_report := None\<rparr>\<rparr>"
  define w4 where "w4 = w3\<lparr>side_of := (side_of w3)(True := d1)\<rparr>"
  have "negotiation_step force False w3 w4"
    using negotiation_step.gives_up[of w3 True r1 False force] none by (simp add: w2 w3_def w4_def d1_def)
  with n3 have n4: "?n w4" by (rule negotiation.step)
  define w5 where "w5 = w4\<lparr>side_of := (side_of w4)(False := receives True s2), inbox := (inbox w4)(False := [])\<rparr>"
  have "negotiation_step force False w4 w5"
    using negotiation_step.delivered[of w4 False True "[]" force False] by (simp add: w2 w3_def w4_def w5_def)
  with n4 have n5: "?n w5" by (rule negotiation.step)
  define w6 where "w6 = w5\<lparr>side_of := (side_of w5)(False := (receives True s2)\<lparr>sd_result := Some r2\<rparr>),
      inbox := (inbox w5)(True := [True])\<rparr>"
  have "negotiation_step force False w5 w6"
    using negotiation_step.race_ends[of w5 False force False r2] assms none
    by (simp add: w2 w3_def w4_def w5_def w6_def)
  with n5 have n6: "?n w6" by (rule negotiation.step)
  define w7 where "w7 = w6\<lparr>side_of := (side_of w6)(False :=
      (receives True s2)\<lparr>sd_result := Some r2, sd_decision := Some (path_agreed force r2 True)\<rparr>)\<rparr>"
  have "sd_received (receives True s2) = Some True"
    by (rule receives_installed) (simp add: s2_def)
  then have "negotiation_step force False w6 w7"
    using negotiation_step.decides[of w6 False r2 True force False] by (simp add: w6_def w7_def)
  with n6 have "?n w7" by (rule negotiation.step)
  moreover have "side_of w7 True = d1" by (simp add: w7_def w6_def w5_def w4_def)
  ultimately show ?thesis
    using assms by (intro exI[of _ w7]) (simp add: w7_def d1_def path_agreed_def)
qed

text \<open>
  Also (functional).  A call that the user wants direct or not at all is connected through the relay when the
  race fails, or when there is nothing to race.
\<close>

theorem direct_only_falls_back_to_relay:
  assumes "ca_direct_only ca" "\<not> app_engine a" "result = None \<or> connect_role parse ca (app_signal a) = None"
  shows "\<exists>es. fst (snd (app_connect parse ticket ca result peer True a)) = Inr es \<and>
           \<not> es_direct es \<and> es_transport es = None"
proof -
  have "connect_role parse ca ((app_signal a)\<lparr>ipv6_port := None\<rparr>) = connect_role parse ca (app_signal a)"
    by (simp add: connect_role_def)
  then show ?thesis
    using assms by (auto simp: app_connect_def negotiate_def Let_def)
qed

section \<open>What outlives a call\<close>

definition negotiated :: "SignalState \<Rightarrow>
    PeerHardNatInfo option \<times> PeerBirthdayInfo option \<times> QualityProfile \<times> QualityProfile option" where
  "negotiated st = (peer_hard_nat_probe st, peer_birthday_ports st, active_quality st, peer_max_quality st)"

lemma negotiated_commands [simp]:
  "negotiated (snd (snd (try_reflect_own_addr show_addr ticket outcome stun st))) = negotiated st"
  "negotiated (snd (snd (gather_hosts show_addr en st))) = negotiated st"
  "negotiated (internal_deregister keep st) = negotiated st"
  "negotiated (registered c port fp st) = negotiated st"
  "negotiated (snd (loop_ended st)) = negotiated st"
  "negotiated (snd (on_peer_hangup st)) = negotiated st"
  by (auto simp: negotiated_def try_reflect_own_addr_def try_stun_fallback_def gather_hosts_def internal_deregister_def
      registered_def loop_ended_def on_peer_hangup_def Let_def split: option.splits reflect_outcome.splits sum.splits)

text \<open>
  Also (functional).  Nothing that ends a call or begins the next one clears what the last peer negotiated: its
  port allocation, its opened ports, the quality it confirmed and its limit.  The next call starts with them,
  whoever the peer is.
\<close>

theorem negotiation_outlives_call:
  "negotiated (app_signal (snd (recv_signal parse parse_ip to_json w now sent k (Hangup cid p) a))) =
     negotiated (app_signal a)"
  "negotiated (app_signal (snd (app_hangup_call a))) = negotiated (app_signal a)"
  "negotiated (app_signal (snd (snd (app_disconnect a)))) = negotiated (app_signal a)"
  "negotiated (internal_deregister keep st) = negotiated st"
  "negotiated (app_signal (snd (snd (app_place_call show_addr record_call en ticket cid' target a)))) =
     negotiated (app_signal a)"
  "negotiated (app_signal (snd (snd (app_answer_call show_addr mark en ticket cid' mode a)))) =
     negotiated (app_signal a)"
  "fst (snd (app_connect parse ticket ca result peer ok a)) = Inr es \<longrightarrow>
     (es_active_quality es, es_peer_max es) = (active_quality (app_signal a), peer_max_quality (app_signal a))"
proof -
  show "negotiated (app_signal (snd (recv_signal parse parse_ip to_json w now sent k (Hangup cid p) a))) =
     negotiated (app_signal a)"
    by (simp add: recv_signal_def with_signal_def case_prod_beta)
  show "negotiated (app_signal (snd (snd (app_place_call show_addr record_call en ticket cid' target a)))) =
     negotiated (app_signal a)"
    by (simp add: app_place_call_def Let_def case_prod_beta split: option.splits)
  show "negotiated (app_signal (snd (snd (app_answer_call show_addr mark en ticket cid' mode a)))) =
     negotiated (app_signal a)"
    by (simp add: app_answer_call_def Let_def case_prod_beta split: option.splits)
  show "fst (snd (app_connect parse ticket ca result peer ok a)) = Inr es \<longrightarrow>
     (es_active_quality es, es_peer_max es) = (active_quality (app_signal a), peer_max_quality (app_signal a))"
    by (auto simp: app_connect_def negotiate_def Let_def case_prod_beta split: option.splits sum.splits if_splits)
qed (simp_all add: app_hangup_call_def app_disconnect_def)

section \<open>Quality upgrades\<close>

text \<open>Everything that changes the state of the app, one critical section after the other.\<close>

datatype app_op =
    ReceiveMsg nat bool nat "payload Signal"
  | PlaceOp environment nat string string nat
  | AnswerOp environment nat string int
  | ConnectOp nat connect_args "RaceResult option" "bool option" bool
  | DisconnectOp
  | HangupOp
  | AskAddress nat reflect_outcome
  | DeregisterOp
  | RegisteredOp string nat u16 string
  | LoopEndedOp
  | BirthdayOp string "u16 list" string
  | DetectedOp string PortAllocationResult

record app_world =
  aw_parse :: "string \<Rightarrow> SocketAddr option"
  aw_parse_ip :: "string \<Rightarrow> IpAddr option"
  aw_show :: "SocketAddr \<Rightarrow> string"
  aw_show_ip :: "IpAddr \<Rightarrow> string"
  aw_json :: "CallHistoryEntry list \<Rightarrow> byte list option"

fun app_step :: "app_world \<Rightarrow> app_op \<Rightarrow> AppState \<Rightarrow> app_out list \<times> AppState" where
  "app_step w (ReceiveMsg now sent c msg) a = recv_signal (aw_parse w) (aw_parse_ip w) (aw_json w) True now sent c msg a"
| "app_step w (PlaceOp en t cid target now) a =
     (let (outs, _, a') = app_place_call (aw_show w) (log_call (aw_json w) True now cid target None Placed) en t cid target a
      in (outs, a'))"
| "app_step w (AnswerOp en t cid mode) a =
     (let (outs, _, a') = app_answer_call (aw_show w) (mark_received_if_pending (aw_json w) True cid) en t cid mode a
      in (outs, a'))"
| "app_step w (ConnectOp t ca result peer ok) a =
     (let (outs, _, a') = app_connect (aw_parse w) t ca result peer ok a in (outs, a'))"
| "app_step w DisconnectOp a = (let (outs, _, a') = app_disconnect a in (outs, a'))"
| "app_step w HangupOp a = app_hangup_call a"
| "app_step w (AskAddress t outcome) a =
     (let (outs, _, st) = get_reflected_address (aw_show w) t outcome (app_signal a) in (outs, a\<lparr>app_signal := st\<rparr>))"
| "app_step w DeregisterOp a =
     (case conn (app_signal a) of Some c \<Rightarrow> [CloseConn c] | None \<Rightarrow> [],
      a\<lparr>app_signal := internal_deregister False (app_signal a)\<rparr>)"
| "app_step w (RegisteredOp relay c port fp) a =
     ([UiEvent ''registered''], a\<lparr>app_signal := registered c port fp ((app_signal a)\<lparr>desired_relay_addr := Some relay\<rparr>)\<rparr>)"
| "app_step w LoopEndedOp a = ([], a\<lparr>app_signal := snd (loop_ended (app_signal a))\<rparr>)"
| "app_step w (BirthdayOp cid ports ip) a = (birthday_opened cid ports ip (app_signal a), a)"
| "app_step w (DetectedOp cid r) a = (ports_detected (aw_show_ip w) cid r (app_signal a), a)"

fun app_run :: "app_world \<Rightarrow> app_op list \<Rightarrow> AppState \<Rightarrow> app_out list \<times> AppState" where
  "app_run w [] a = ([], a)"
| "app_run w (e # es) a = (let (o1, a') = app_step w e a; (o2, a'') = app_run w es a' in (o1 @ o2, a''))"

definition no_upgrade :: "app_out list \<Rightarrow> bool" where
  "no_upgrade outs \<longleftrightarrow> (\<forall>c cid pid p. Send c (PeerNegotiation cid (UpgradeConfirm pid p)) \<notin> set outs \<and>
                                  Send c (PeerNegotiation cid (UpgradeProposal pid p)) \<notin> set outs)"

lemma no_upgrade_append [simp]: "no_upgrade (xs @ ys) \<longleftrightarrow> no_upgrade xs \<and> no_upgrade ys"
  by (auto simp: no_upgrade_def)

lemma upgrade_commands:
  "pending_upgrade (snd (snd (try_reflect_own_addr show_addr ticket outcome stun st))) = pending_upgrade st"
  "pending_upgrade (snd (snd (gather_hosts show_addr en st))) = pending_upgrade st"
  "no_upgrade (fst (try_reflect_own_addr show_addr ticket outcome stun st))"
  "no_upgrade (fst (gather_hosts show_addr en st))"
  "no_upgrade (fst (map_port show_addr en st))"
  by (auto simp: no_upgrade_def try_reflect_own_addr_def try_stun_fallback_def gather_hosts_def map_port_def Let_def
      split: option.splits reflect_outcome.splits sum.splits)

lemma negotiation_no_upgrade:
  assumes "pending_upgrade st = None"
  shows "no_upgrade (fst (on_negotiation parse_ip sent c cid p st)) \<and>
         pending_upgrade (snd (on_negotiation parse_ip sent c cid p st)) = None"
  using assms
  by (cases p) (auto simp: on_negotiation_def on_hard_nat_probe_def handle_upgrade_proposal_def handle_upgrade_confirm_def
      handle_upgrade_response_def handle_quality_capability_def no_upgrade_def split: option.splits)

lemma receive_no_upgrade:
  assumes "pending_upgrade (app_signal a) = None"
  shows "no_upgrade (fst (recv_signal parse parse_ip j w now sent c msg a)) \<and>
         pending_upgrade (app_signal (snd (recv_signal parse parse_ip j w now sent c msg a))) = None"
  using assms negotiation_no_upgrade[OF assms]
  by (cases msg) (auto simp: recv_signal_def with_signal_def case_prod_beta on_incoming_def on_peer_hangup_def
      on_path_report_def on_reflect_response_def no_upgrade_def Let_def split: option.splits payload.splits)

lemma place_no_upgrade:
  "pending_upgrade (app_signal a) = None \<Longrightarrow>
   no_upgrade (fst (app_place_call show_addr record_call en t cid target a)) \<and>
   pending_upgrade (app_signal (snd (snd (app_place_call show_addr record_call en t cid target a)))) = None"
  using upgrade_commands
  by (auto simp: app_place_call_def Let_def case_prod_beta no_upgrade_def split: option.splits)

lemma answer_no_upgrade:
  "pending_upgrade (app_signal a) = None \<Longrightarrow>
   no_upgrade (fst (app_answer_call show_addr mark en t cid mode a)) \<and>
   pending_upgrade (app_signal (snd (snd (app_answer_call show_addr mark en t cid mode a)))) = None"
  using upgrade_commands
  by (auto simp: app_answer_call_def Let_def case_prod_beta no_upgrade_def split: option.splits)

lemma step_no_upgrade:
  assumes "pending_upgrade (app_signal a) = None"
  shows "no_upgrade (fst (app_step w e a)) \<and> pending_upgrade (app_signal (snd (app_step w e a))) = None"
proof (cases e)
  case (ReceiveMsg now sent c msg)
  then show ?thesis using receive_no_upgrade[OF assms] by simp
next
  case (PlaceOp en t cid target now)
  then show ?thesis using place_no_upgrade[OF assms] by (simp add: case_prod_beta)
next
  case (AnswerOp en t cid mode)
  then show ?thesis using answer_no_upgrade[OF assms] by (simp add: case_prod_beta)
next
  case (ConnectOp t ca result peer ok)
  then show ?thesis using assms
    by (auto simp: app_connect_def negotiate_def no_upgrade_def path_report_def Let_def case_prod_beta
        split: option.splits sum.splits)
next
  case (AskAddress t outcome)
  then show ?thesis using assms
    by (auto simp: get_reflected_address_def no_upgrade_def Let_def split: option.splits reflect_outcome.splits)
qed (use assms in \<open>auto simp: app_disconnect_def app_hangup_call_def no_upgrade_def internal_deregister_def registered_def
      loop_ended_def birthday_opened_def ports_detected_def split: option.splits\<close>)

text \<open>
  Also (safety).  The app never proposes a quality upgrade and never confirms one: no operation stores a
  proposal, so an accepted one finds none to confirm.
\<close>

theorem upgrades_are_never_confirmed:
  "no_upgrade (fst (app_run w es (app_state_new h)))"
proof -
  have "no_upgrade (fst (app_run w es a))" if "pending_upgrade (app_signal a) = None" for a
    using that
  proof (induction es arbitrary: a)
    case (Cons e es)
    then show ?case using step_no_upgrade[OF Cons.prems, of w e] by (simp add: case_prod_beta del: app_step.simps)
  qed (simp add: no_upgrade_def)
  then show ?thesis by (simp add: app_state_new_def signal_state_new_def)
qed

section \<open>The text of a port allocation\<close>

lemma digit_of_char: "d < 10 \<Longrightarrow> digit_of (char_of (48 + d)) = Some d"
  by (simp add: digit_of_def)

lemma read_digits_append: "read_digits acc (xs @ ys) = Option.bind (read_digits acc xs) (\<lambda>n. read_digits n ys)"
  by (induction acc xs rule: read_digits.induct) (auto split: option.splits)

lemma read_show_digits: "\<exists>k. \<forall>acc. read_digits acc (show_digits n) = Some (acc * 10 ^ k + n)"
proof (induction n rule: show_digits.induct)
  case (1 n)
  show ?case
  proof (cases "n < 10")
    case True
    then show ?thesis by (intro exI[of _ 1]) (simp add: show_digits.simps[of n] digit_of_char)
  next
    case False
    then obtain k where k: "\<forall>acc. read_digits acc (show_digits (n div 10)) = Some (acc * 10 ^ k + n div 10)"
      using 1 by blast
    have "read_digits acc (show_digits n) = Some (acc * 10 ^ Suc k + n)" for acc
      using False k by (simp add: show_digits.simps[of n] read_digits_append digit_of_char algebra_simps)
    then show ?thesis by blast
  qed
qed

lemma show_digits_nonempty [simp]: "show_digits n \<noteq> []"
  by (simp add: show_digits.simps[of n])

lemma show_digits_hd: "hd (show_digits n) \<noteq> CHR ''-'' \<and> hd (show_digits n) \<noteq> CHR ''+''"
proof (induction n rule: show_digits.induct)
  case (1 n)
  have "char_of (48 + d) \<noteq> CHR ''-'' \<and> char_of (48 + d) \<noteq> CHR ''+''" if "d < (10 :: nat)" for d
  proof -
    have "of_char (char_of (48 + d) :: char) \<noteq> (of_char (CHR ''-'') :: nat)"
      "of_char (char_of (48 + d) :: char) \<noteq> (of_char (CHR ''+'') :: nat)"
      using that by simp_all
    then show ?thesis by metis
  qed
  then show ?case using 1 by (auto simp: show_digits.simps[of n] hd_append)
qed

lemma parse_show_i16:
  assumes "-32768 \<le> d" "d < 32768"
  shows "parse_i16 (show_i16 d) = Some d"
proof -
  have read: "read_digits 0 (show_digits n) = Some n" for n
    using read_show_digits[of n] by auto
  obtain c cs where c: "show_digits (nat d) = c # cs" by (cases "show_digits (nat d)") auto
  then have "c \<noteq> CHR ''-''" "c \<noteq> CHR ''+''" using show_digits_hd[of "nat d"] by auto
  then show ?thesis
    using assms c read[of "nat d"] read[of "nat (- d)"]
    by (auto simp: parse_i16_def show_i16_def Let_def)
qed

text \<open>
  Also (roundtrip).  The step of a sequential allocation survives its way through the text of a probe, and no
  other allocation is taken for a sequential one.
\<close>

theorem allocation_text_roundtrip:
  assumes "\<And>d. p = Sequential d \<Longrightarrow> -32768 \<le> d \<and> d < 32768"
  shows "parse_sequential_delta (show_allocation p) = (case p of Sequential d \<Rightarrow> Some d | _ \<Rightarrow> None)"
proof (cases p)
  case (Sequential d)
  then show ?thesis
    using assms by (simp add: parse_sequential_delta_def show_allocation_def strip_prefix_def strip_suffix_def parse_show_i16)
qed (simp_all add: parse_sequential_delta_def show_allocation_def strip_prefix_def)

section \<open>Witnesses\<close>

definition demo_system :: System where
  "demo_system =
     \<lparr>sys = registered 0 5000 ''me'' (signal_state_new\<lparr>desired_relay_addr := Some ''relay''\<rparr>), tasks = [Loop 0],
      opened = 1, closed = {}\<rparr>"

lemma demo_registered: "one_registration ''relay'' demo_system"
  by (simp add: one_registration_def demo_system_def registered_def signal_state_new_def)

theorem drops_keep_one_registration_witness:
  "\<exists>t. tasks (fold sys_step [Breaks 0, Run 0 None, Run 0 None] demo_system) = [t] \<and>
     desired_relay_addr (sys (fold sys_step [Breaks 0, Run 0 None, Run 0 None] demo_system)) = Some ''relay'' \<and>
     (case t of Loop c \<Rightarrow> conn (sys (fold sys_step [Breaks 0, Run 0 None, Run 0 None] demo_system)) = Some c
      | SupDial r n \<Rightarrow> r = ''relay'' \<and> conn (sys (fold sys_step [Breaks 0, Run 0 None, Run 0 None] demo_system)) = None
      | _ \<Rightarrow> conn (sys (fold sys_step [Breaks 0, Run 0 None, Run 0 None] demo_system)) = None)"
  by (rule drops_keep_one_registration[OF demo_registered]) simp

definition pressed_again :: System where
  "pressed_again = demo_system\<lparr>tasks := [Loop 0, SupStart ''old'', SupReclaim ''old'' 3]\<rparr>"

theorem live_connection_is_not_replaced_witness:
  "opened (fold sys_step [UserRegisters ''relay'', Run 3 None, Run 1 None, Run 1 None, Breaks 5, Run 1 None] pressed_again) = 1 \<and>
   tasks (fold sys_step [UserRegisters ''relay'', Run 3 None, Run 1 None, Run 1 None, Breaks 5, Run 1 None] pressed_again) =
     [Loop 0, SupReclaim ''old'' 3]"
  using live_connection_is_not_replaced[of "''relay''" 0 pressed_again
      "[UserRegisters ''relay'', Run 3 None, Run 1 None, Run 1 None, Breaks 5, Run 1 None]"]
  by (simp add: pressed_again_def demo_system_def live_on_def registered_def signal_state_new_def already_same_def)

definition crowd :: System where
  "crowd =
     \<lparr>sys = signal_state_new\<lparr>desired_relay_addr := Some ''relay'', reconnect_in_progress := True\<rparr>,
      tasks = [Loop 0, SupCheck ''old'' 3, SupStart ''other''], opened = 2, closed = {0}\<rparr>"

lemma crowd_held: "slot_held ''relay'' crowd"
proof -
  have "one_among (holds_slot ''relay'') ([Loop 0] @ SupCheck ''old'' 3 # [SupStart ''other''])"
    unfolding one_among_def by (rule exI[of _ "[Loop 0]"]) fastforce
  then show ?thesis by (simp add: slot_held_def crowd_def signal_state_new_def)
qed

theorem reconnection_is_single_flight_witness:
  "tasks (fold sys_step [Run 2 None, Run 0 None, Run 0 None] crowd) = [SupRelease ''relay'' 0] \<and>
   opened (fold sys_step [Run 2 None, Run 0 None, Run 0 None] crowd) = 2 \<and>
   starting (fold sys_step [Run 2 None, Run 0 None, Run 0 None] crowd) \<le> 1"
proof -
  let ?es = "[Run 2 None, Run 0 None, Run 0 None]"
  have "\<not> slot_released ''relay'' (fold sys_step (es1 @ [e]) crowd)" if "?es = es1 @ e # es2" for es1 e es2
    using that by (auto simp: Cons_eq_append_conv crowd_def slot_released_def signal_state_new_def loop_ended_def)
  then have "opened (fold sys_step ?es crowd) = opened crowd \<and> starting (fold sys_step ?es crowd) \<le> starting crowd"
    using reconnection_is_single_flight[OF crowd_held, of ?es] by auto
  then show ?thesis by (simp add: crowd_def signal_state_new_def loop_ended_def starting_def)
qed

theorem broken_registration_recovers_witness:
  "tasks (fold sys_step (recovery 3 5001 ''me'') (demo_system\<lparr>closed := {0}\<rparr>)) = [Loop 1]"
  using broken_registration_recovers[of "''relay''" "demo_system\<lparr>closed := {0}\<rparr>" 0 3 5001 "''me''"] demo_registered
  by (simp add: one_registration_def demo_system_def)

theorem relay_swap_leaks_registration_witness:
  "tasks (fold sys_step (swap_schedule ''other'' (5001, ''me'')) demo_system) = [Loop 2, Loop 1]"
  using relay_swap_leaks_registration[OF demo_registered, of 0 "''other''" "(5001, ''me'')"]
  by (simp add: demo_system_def)

theorem deregister_during_backoff_is_undone_witness:
  "conn (sys (fold sys_step [UserDeregisters, Run 0 None, Run 0 None, Run 0 (Some (5001, ''me''))]
     (demo_system\<lparr>tasks := [SupSleep ''relay'' 2]\<rparr>))) = Some 1"
  using deregister_during_backoff_is_undone[of "demo_system\<lparr>tasks := [SupSleep ''relay'' 2]\<rparr>" "''relay''" 2 1 5001 "''me''"]
  by (simp add: demo_system_def Let_def)

theorem deregister_ends_reconnection_witness:
  "opened (fold sys_step [UserDeregisters, Run 0 None, Run 0 None] demo_system) = 1"
  using deregister_ends_reconnection[of demo_system "[Run 0 None, Run 0 None]"]
  by (simp add: demo_system_def)

definition demo_env :: environment where
  "demo_env = \<lparr>en_reflect = ReflectTimeout, en_stun = Inl StunTimeout, en_ifaces = None, en_v6 = (\<lambda>_. None),
     en_mapping = (\<lambda>_. None), en_sent = True\<rparr>"

definition demo_app :: AppState where
  "demo_app = (app_state_new \<lparr>store = [], disk = None\<rparr>)\<lparr>app_signal := registered 0 5000 ''me'' signal_state_new\<rparr>"

theorem private_answer_hides_addresses_witness:
  "fst (app_answer_call (\<lambda>_. ''x'') (\<lambda>h. (True, h)) demo_env 1 ''c'' 2 demo_app) =
     [Send 0 (DirectCallAnswer ''c'' AcceptGeneric no_addresses NoPayload), UiEvent ''history-changed'']"
  using private_answer_hides_addresses[where show_addr = "\<lambda>_. ''x''" and mark = "\<lambda>h. (True, h)" and en = demo_env
      and ticket = 1 and cid = "''c''" and mode = 2 and a = demo_app, OF prod.collapse[symmetric, THEN trans]]
  by (simp add: answer_mode_def app_answer_call_def Let_def demo_app_def registered_def demo_env_def)

definition demo_relay :: Relay where
  "demo_relay = (relay_with ''r1'' ''r2'' 1 ''ann'')\<lparr>
     hub := [(''ann'', \<lparr>client_alias = None, transport = 1\<rparr>), (''bob'', \<lparr>client_alias = None, transport = 2\<rparr>)],
     calls := place_call 0 ''c'' ''ann'' ''bob'' no_addresses []\<rparr>"

theorem probe_defeats_privacy_witness:
  "on_signal 7 2 ''x'' ''bob'' (PeerNegotiation ''c'' (BirthdayStart [4000] ''203.0.113.9'')) demo_relay =
     ([ToClient 1 (PeerNegotiation ''c'' (BirthdayStart [4000] ''203.0.113.9''))], demo_relay)"
proof (rule probe_defeats_privacy [THEN conjunct2, THEN conjunct2, THEN conjunct2])
  show "hm_get (calls demo_relay) ''c'' = Some (placed 0 ''c'' ''ann'' ''bob'' no_addresses)"
    by (simp add: demo_relay_def place_same)
  show "recv_signal (\<lambda>_. None) (\<lambda>_. None) (\<lambda>_. None) True 0 True 0
      (PeerNegotiation ''c'' (HardNatProbe [1] ''random'' ''x'')) demo_app = ([OpenBirthdayPorts ''c''], demo_app)"
    by (simp add: recv_signal_def with_signal_def on_negotiation_def on_hard_nat_probe_def)
qed (simp_all add: placed_def demo_relay_def demo_app_def registered_def)

definition addr_of :: "byte \<Rightarrow> SocketAddr" where
  "addr_of b = \<lparr>sa_ip = V4 [203, 0, 113, b], sa_port = 4000\<rparr>"

theorem hard_nat_ports_are_not_dialled_witness:
  "smart_dial_order (connect_candidates (\<lambda>_. Some (addr_of 9)) (\<lambda>_. 0)
     \<lparr>ca_relay = [], ca_room = [], ca_peer_direct = Some ''p'', ca_peer_local = [], ca_peer_mapped = None,
      ca_direct_only = False\<rparr>
     (signal_state_new\<lparr>peer_birthday_ports := Some \<lparr>pb_external_ip = sa_ip (addr_of 9), pb_ports = [4001]\<rparr>\<rparr>))
     (Some (addr_of 8)) = [addr_of 9]"
  by (subst hard_nat_ports_are_not_dialled[where peer = "addr_of 9"])
    (simp_all add: addr_of_def push_new_def drop_ipv6_def is_ipv6_def)

theorem ipv6_birthday_targets_unspecified_witness:
  "\<lparr>sa_ip = V4 [0, 0, 0, 0], sa_port = 4001\<rparr> \<in> set (birthday_addrs (\<lambda>_. 0)
     (signal_state_new\<lparr>peer_birthday_ports := Some \<lparr>pb_external_ip = V6 [], pb_ports = [4001]\<rparr>\<rparr>))"
  by (rule ipv6_birthday_targets_unspecified[where ports = "[4001]" and ip = "[]"]) simp_all

definition both_ways :: RaceResult where
  "both_ways = \<lparr>direct_transport = True, relay_transport = True, local_winner = Direct\<rparr>"

theorem report_of_any_call_is_taken_witness:
  "fst (recv_signal (\<lambda>_. None) (\<lambda>_. None) (\<lambda>_. None) True 0 True 0 (MediaPathReport ''other'' (PathOk False))
     (demo_app\<lparr>app_signal := signal_state_new\<lparr>pending_path_report := Some 7\<rparr>\<rparr>)) = [FirePathReport 7 False]"
  by (subst report_of_any_call_is_taken[where t = 7]) simp_all

theorem late_report_splits_call_witness:
  "\<exists>w. negotiation False False w \<and>
     sd_decision (side_of w True) = Some (Inr (False, Some ViaRelay)) \<and>
     sd_decision (side_of w False) = Some (Inr (True, Some Direct))"
  using late_report_splits_call[of both_ways both_ways False] by (auto simp: both_ways_def)

text \<open>A run in which both reports arrive in time.\<close>

definition two :: "'a \<Rightarrow> 'a \<Rightarrow> bool \<Rightarrow> 'a" where
  "two a b x = (if x then a else b)"

lemma two_simps [simp]:
  "two a b True = a" "two a b False = b" "(two a b)(True := c) = two c b" "(two a b)(False := c) = two a c"
  by (auto simp: two_def fun_eq_iff)

lemma timely_run:
  fixes r r' :: RaceResult
  assumes "direct_transport r" "direct_transport r'"
  shows "\<exists>w. negotiation False True w \<and> sd_decision (side_of w True) = Some (Inr (True, Some Direct)) \<and>
             sd_decision (side_of w False) = Some (Inr (True, Some Direct))"
proof -
  let ?n = "negotiation False True"
  define s where "s = (new_side signal_state_new 0)"
  define i where "i = s\<lparr>sd_state := (sd_state s)\<lparr>pending_path_report := Some (sd_ticket s)\<rparr>\<rparr>"
  let ?w = "\<lambda>a b m n. \<lparr>side_of = two a b, inbox = two m n\<rparr>"
  have "?n (?w s s [] [])" by (rule negotiation.start) (simp add: s_def new_side_def two_def)
  from negotiation.step[OF this negotiation_step.begins[of _ True]]
  have "?n (?w i s [] [])" by (simp add: i_def s_def new_side_def)
  from negotiation.step[OF this negotiation_step.begins[of _ False]]
  have "?n (?w i i [] [])" by (simp add: i_def s_def new_side_def)
  from negotiation.step[OF this negotiation_step.race_ends[of _ True _ _ r]]
  have "?n (?w (i\<lparr>sd_result := Some r\<rparr>) i [] [True])"
    using assms by (simp add: i_def s_def new_side_def)
  from negotiation.step[OF this negotiation_step.race_ends[of _ False _ _ r']]
  have "?n (?w (i\<lparr>sd_result := Some r\<rparr>) (i\<lparr>sd_result := Some r'\<rparr>) [True] [True])"
    using assms by (simp add: i_def s_def new_side_def)
  from negotiation.step[OF this negotiation_step.delivered[of _ True True "[]"]]
  have "?n (?w (receives True (i\<lparr>sd_result := Some r\<rparr>)) (i\<lparr>sd_result := Some r'\<rparr>) [] [True])"
    by simp
  from negotiation.step[OF this negotiation_step.delivered[of _ False True "[]"]]
  have n: "?n (?w (receives True (i\<lparr>sd_result := Some r\<rparr>)) (receives True (i\<lparr>sd_result := Some r'\<rparr>)) [] [])"
    by simp
  have rec: "sd_received (receives True (i\<lparr>sd_result := q\<rparr>)) = Some True" for q
    by (rule receives_installed) (simp add: i_def)
  from negotiation.step[OF n negotiation_step.decides[of _ True r True]]
  have "?n (?w ((receives True (i\<lparr>sd_result := Some r\<rparr>))\<lparr>sd_decision := Some (Inr (True, Some Direct))\<rparr>)
      (receives True (i\<lparr>sd_result := Some r'\<rparr>)) [] [])"
    using assms rec by (simp add: path_agreed_def)
  from negotiation.step[OF this negotiation_step.decides[of _ False r' True]]
  have "?n (?w ((receives True (i\<lparr>sd_result := Some r\<rparr>))\<lparr>sd_decision := Some (Inr (True, Some Direct))\<rparr>)
      ((receives True (i\<lparr>sd_result := Some r'\<rparr>))\<lparr>sd_decision := Some (Inr (True, Some Direct))\<rparr>) [] [])"
    using assms rec by (simp add: path_agreed_def)
  then show ?thesis by (intro exI conjI) (assumption, simp_all)
qed


theorem direct_only_falls_back_to_relay_witness:
  "\<exists>es. fst (snd (app_connect (\<lambda>_. None) 0
       \<lparr>ca_relay = [], ca_room = [], ca_peer_direct = None, ca_peer_local = [], ca_peer_mapped = None,
        ca_direct_only = True\<rparr> None None True demo_app)) = Inr es \<and> \<not> es_direct es \<and> es_transport es = None"
  by (rule direct_only_falls_back_to_relay) (simp_all add: demo_app_def app_state_new_def)

theorem allocation_text_roundtrip_witness:
  "parse_sequential_delta (show_allocation (Sequential (- 3))) = Some (- 3)"
  by (subst allocation_text_roundtrip) simp_all

end
