(* ===== verification/Transport.thy ===== *)
theory Transport
  imports Trunk Complex_Main
begin

text \<open>
  The media side of a QUIC connection (\<open>wzp-transport/src/quic.rs\<close>, \<open>datagram.rs\<close>) and the estimates it keeps
  of its path (\<open>path_monitor.rs\<close>).  The connection is what the library shows of it: the largest datagram it takes
  now, whether it takes the next one, and the reads in the order they complete.  Floats are reals; the casts to
  integers round towards zero and saturate.
\<close>

section \<open>The path monitor\<close>

abbreviation (input) ALPHA :: real where "ALPHA \<equiv> 1 / 10"
abbreviation (input) JITTER_VARIANCE_WINDOW_SIZE :: nat where "JITTER_VARIANCE_WINDOW_SIZE \<equiv> 10"

record PathMonitor =
  loss_ewma :: real
  rtt_ewma :: real
  jitter_ewma :: real
  bytes_sent :: nat
  bytes_received :: nat
  first_send_time :: "nat option"
  last_send_time :: "nat option"
  first_recv_time :: "nat option"
  last_recv_time :: "nat option"
  highest_sent_seq :: "u32 option"
  total_sent :: nat
  total_received :: nat
  last_rtt :: "real option"
  initialized :: bool
  rtt_window :: "real list"

definition path_monitor_new :: PathMonitor where
  "path_monitor_new =
     \<lparr>loss_ewma = 0, rtt_ewma = 0, jitter_ewma = 0, bytes_sent = 0, bytes_received = 0, first_send_time = None,
      last_send_time = None, first_recv_time = None, last_recv_time = None, highest_sent_seq = None,
      total_sent = 0, total_received = 0, last_rtt = None, initialized = False, rtt_window = []\<rparr>"

definition observe_sent :: "u32 \<Rightarrow> nat \<Rightarrow> PathMonitor \<Rightarrow> PathMonitor" where
  "observe_sent sq t m =
     m\<lparr>total_sent := total_sent m + 1, highest_sent_seq := Some sq,
       first_send_time := (case first_send_time m of None \<Rightarrow> Some t | Some t0 \<Rightarrow> Some t0),
       last_send_time := Some t, bytes_sent := bytes_sent m + 100\<rparr>"

definition instant_loss :: "nat \<Rightarrow> nat \<Rightarrow> real" where
  "instant_loss expected received =
     (if received < expected then real (expected - received) / real expected * 100 else 0)"

definition observe_received :: "u32 \<Rightarrow> nat \<Rightarrow> PathMonitor \<Rightarrow> PathMonitor" where
  "observe_received sq t m =
     (let m = m\<lparr>total_received := total_received m + 1,
                first_recv_time := (case first_recv_time m of None \<Rightarrow> Some t | Some t0 \<Rightarrow> Some t0),
                last_recv_time := Some t, bytes_received := bytes_received m + 100\<rparr> in
      if total_sent m = 0 then m
      else
        let inst_loss = instant_loss (total_sent m) (total_received m) in
        if \<not> initialized m then m\<lparr>loss_ewma := inst_loss, initialized := True\<rparr>
        else m\<lparr>loss_ewma := ALPHA * inst_loss + (1 - ALPHA) * loss_ewma m\<rparr>)"

definition observe_rtt :: "nat \<Rightarrow> PathMonitor \<Rightarrow> PathMonitor" where
  "observe_rtt r m =
     (let rtt = real r;
          m = (case last_rtt m of
                 None \<Rightarrow> m
               | Some l \<Rightarrow>
                   (let diff = \<bar>rtt - l\<bar> in
                    m\<lparr>jitter_ewma := (if jitter_ewma m = 0 then diff
                                      else ALPHA * diff + (1 - ALPHA) * jitter_ewma m)\<rparr>));
          m = m\<lparr>last_rtt := Some rtt\<rparr>;
          m = m\<lparr>rtt_ewma := (if rtt_ewma m = 0 then rtt else ALPHA * rtt + (1 - ALPHA) * rtt_ewma m)\<rparr>;
          w = (if JITTER_VARIANCE_WINDOW_SIZE \<le> length (rtt_window m) then tl (rtt_window m) else rtt_window m) in
      m\<lparr>rtt_window := w @ [rtt]\<rparr>)"

definition as_u32 :: "real \<Rightarrow> nat" where
  "as_u32 x = min (2 ^ 32 - 1) (nat \<lfloor>x\<rfloor>)"

definition estimate_bandwidth_kbps :: "PathMonitor \<Rightarrow> nat" where
  "estimate_bandwidth_kbps m =
     (case (first_recv_time m, last_recv_time m) of
        (Some t0, Some t1) \<Rightarrow>
          (let d = t1 - t0 in if 0 < d then as_u32 (real (bytes_received m * 8) / real d) else 0)
      | _ \<Rightarrow> 0)"

record PathQuality =
  pq_loss_pct :: real
  pq_rtt_ms :: nat
  pq_jitter_ms :: nat
  pq_bandwidth_kbps :: nat

definition path_quality :: "PathMonitor \<Rightarrow> PathQuality" where
  "path_quality m =
     \<lparr>pq_loss_pct = loss_ewma m, pq_rtt_ms = as_u32 (rtt_ewma m), pq_jitter_ms = as_u32 (jitter_ewma m),
      pq_bandwidth_kbps = estimate_bandwidth_kbps m\<rparr>"

definition counts :: "PathMonitor \<Rightarrow> nat \<times> nat" where
  "counts m = (total_sent m, total_received m)"

definition jitter_variance_ms :: "PathMonitor \<Rightarrow> real" where
  "jitter_variance_ms m =
     (let w = rtt_window m; n = real (length w); mean = sum_list w / n in
      if length w < 2 then 0 else sqrt (sum_list (map (\<lambda>r. (r - mean) ^ 2) w) / n))"

definition detect_handoff :: "PathMonitor \<Rightarrow> bool" where
  "detect_handoff m \<longleftrightarrow>
     \<not> jitter_ewma m \<le> 0 \<and>
     (case last_rtt m of Some l \<Rightarrow> jitter_ewma m * 3 < \<bar>l - rtt_ewma m\<bar> | None \<Rightarrow> False)"

section \<open>Media datagrams\<close>

datatype read = Datagram "byte list" | ClosedByApp | LocallyClosed | ReadFails

text \<open>The monitor counts a packet before the library is asked to take it, but after the check of its size.\<close>

definition send_media_datagram ::
  "connection \<Rightarrow> MediaPacket \<Rightarrow> PathMonitor \<Rightarrow> (TransportError + byte list) \<times> PathMonitor" where
  "send_media_datagram c pkt m =
     (let bytes = packet_to_bytes pkt;
          sent = (if send_datagram c bytes then Inr bytes else Inl (TransportInternal ''send datagram error''));
          m' = observe_sent (seq (header pkt)) (unat (timestamp (header pkt))) m in
      case max_datagram_size c of
        Some n \<Rightarrow> if n < length bytes then (Inl (DatagramTooLarge (length bytes) n), m) else (sent, m')
      | None \<Rightarrow> (sent, m'))"

text \<open>One call reads on over malformed datagrams; \<open>None\<close> is a call that still waits.\<close>

fun recv_media_datagram ::
  "read list \<Rightarrow> PathMonitor \<Rightarrow> ((TransportError + MediaPacket option) \<times> read list) option \<times> PathMonitor" where
  "recv_media_datagram [] m = (None, m)"
| "recv_media_datagram (r # rs) m =
     (case r of
        ClosedByApp \<Rightarrow> (Some (Inr None, rs), m)
      | LocallyClosed \<Rightarrow> (Some (Inr None, rs), m)
      | ReadFails \<Rightarrow> (Some (Inl (TransportInternal ''recv datagram error''), rs), m)
      | Datagram bytes \<Rightarrow>
          (case packet_from_bytes bytes of
             Some pkt \<Rightarrow>
               (Some (Inr (Some pkt), rs), observe_received (seq (header pkt)) (unat (timestamp (header pkt))) m)
           | None \<Rightarrow> recv_media_datagram rs m))"

definition recv_trunk :: "read list \<Rightarrow> ((TransportError + TrunkFrame option) \<times> read list) option" where
  "recv_trunk rs =
     (case rs of
        [] \<Rightarrow> None
      | r # rest \<Rightarrow>
          Some (case r of
                  ClosedByApp \<Rightarrow> Inr None
                | LocallyClosed \<Rightarrow> Inr None
                | ReadFails \<Rightarrow> Inl (TransportInternal ''recv trunk datagram error'')
                | Datagram bytes \<Rightarrow>
                    (case trunk_decode bytes of
                       Some f \<Rightarrow> Inr (Some f)
                     | None \<Rightarrow> Inl (TransportInternal ''malformed trunk frame'')), rest))"

text \<open>
  Also (functional).  A media packet that was sent is received as it was, and the malformed datagrams in front
  of it are passed over without ending the connection.
\<close>

theorem media_survives_garbage:
  assumes "packet_wf pkt" "fst (send_media_datagram c pkt m1) = Inr bytes"
    and "\<forall>b \<in> set garbage. packet_from_bytes b = None"
  shows "recv_media_datagram (map Datagram garbage @ Datagram bytes # rest) m =
    (Some (Inr (Some pkt), rest), observe_received (seq (header pkt)) (unat (timestamp (header pkt))) m)"
proof -
  have "bytes = packet_to_bytes pkt"
    using assms(2) by (auto simp: send_media_datagram_def Let_def split: option.splits if_splits)
  then have "recv_media_datagram (Datagram bytes # rest) m =
    (Some (Inr (Some pkt), rest), observe_received (seq (header pkt)) (unat (timestamp (header pkt))) m)"
    using packet_from_to[OF assms(1)] by simp
  then show ?thesis using assms(3) by (induction garbage) simp_all
qed

section \<open>Trunks between the two ends of a connection\<close>

text \<open>Calls of \<open>recv_trunk\<close> until no datagram is left.\<close>

function recv_trunks :: "read list \<Rightarrow> (TransportError + TrunkFrame option) list" where
  "recv_trunks rs = (case recv_trunk rs of None \<Rightarrow> [] | Some (r, rest) \<Rightarrow> r # recv_trunks rest)"
  by pat_completeness auto

termination
  by (relation "measure length") (auto simp: recv_trunk_def split: list.splits)

declare recv_trunks.simps [simp del]

lemma recv_trunks_simps [simp]:
  "recv_trunks [] = []"
  "recv_trunks (Datagram d # rs) =
     (case trunk_decode d of Some f \<Rightarrow> Inr (Some f) | None \<Rightarrow> Inl (TransportInternal ''malformed trunk frame'')) #
     recv_trunks rs"
  by (subst recv_trunks.simps, simp add: recv_trunk_def)+

lemma recv_trunks_frames:
  "\<forall>f \<in> set fs. trunk_fits f \<Longrightarrow>
   recv_trunks (map Datagram (map trunk_encode fs)) = map (\<lambda>f. Inr (Some f)) fs"
proof (induction fs)
  case (Cons f fs)
  then show ?case using trunk_decode_encode [of f "[]"] by simp
qed simp


lemma trunk_is_no_packet:
  assumes "length f \<le> 10"
  shows "packet_from_bytes (trunk_encode f) = None"
proof -
  have "unat (of_nat (length f) :: u16) = length f"
    using assms by (simp add: unat_of_nat take_bit_nat_eq_self)
  then have "unat (drop_bit 8 (of_nat (length f) :: u16)) = length f div 2 ^ 8"
    by (simp only: unat_drop_bit_eq) (simp only: drop_bit_eq_div)
  also have "\<dots> = 0" using assms by simp
  finally have "drop_bit 8 (of_nat (length f) :: u16) = 0" by (simp only: unat_eq_zero)
  then show ?thesis
    by (simp add: packet_from_bytes_def header_read_from_def trunk_encode_def put_u16_def get_u8_def)
qed

text \<open>
  Also (safety).  Nothing calls \<open>recv_trunk\<close>: the receivers of a room read media packets, and to them every
  trunk frame is a malformed datagram.  With trunking on, whatever packets a participant sends, and even
  over a perfect connection, the QUIC peers it forwards to receive none of them.
\<close>

theorem trunked_media_never_arrives:
  assumes "open_conn m conn" and "\<forall>p \<in> set (sent_packets ops). 6 + length (packet_to_bytes p) \<le> m"
    and "fst (fw_run conn (forwarder_new conn sid) (ops @ [Tick])) = rs"
  shows "recv_media_datagram (map Datagram (datagrams rs) @ later) pm = recv_media_datagram later pm"
proof -
  obtain fs where fs: "datagrams rs = map trunk_encode fs" "\<forall>f \<in> set fs. length f \<le> 10"
    using flushed_run_delivers [OF assms] by auto
  have "recv_media_datagram (map Datagram (map trunk_encode fs) @ later) pm = recv_media_datagram later pm"
    using fs(2) by (induction fs) (simp_all add: trunk_is_no_packet)
  then show ?thesis by (simp only: fs(1))
qed

section \<open>What the estimates say\<close>

datatype monitor_event = SentPacket u32 nat | ReceivedPacket u32 nat | RttSample nat

fun monitor_step :: "monitor_event \<Rightarrow> PathMonitor \<Rightarrow> PathMonitor" where
  "monitor_step (SentPacket sq t) m = observe_sent sq t m"
| "monitor_step (ReceivedPacket sq t) m = observe_received sq t m"
| "monitor_step (RttSample r) m = observe_rtt r m"

definition monitor_run :: "monitor_event list \<Rightarrow> PathMonitor" where
  "monitor_run es = fold monitor_step es path_monitor_new"

lemma monitor_run_snoc [simp]: "monitor_run (es @ [e]) = monitor_step e (monitor_run es)"
  by (simp add: monitor_run_def)

lemma observe_sent_simps [simp]:
  "loss_ewma (observe_sent sq t m) = loss_ewma m" "rtt_ewma (observe_sent sq t m) = rtt_ewma m"
  "jitter_ewma (observe_sent sq t m) = jitter_ewma m" "initialized (observe_sent sq t m) = initialized m"
  "total_sent (observe_sent sq t m) = total_sent m + 1" "total_received (observe_sent sq t m) = total_received m"
  "last_rtt (observe_sent sq t m) = last_rtt m" "rtt_window (observe_sent sq t m) = rtt_window m"
  by (simp_all add: observe_sent_def)

lemma observe_received_simps [simp]:
  "rtt_ewma (observe_received sq t m) = rtt_ewma m" "jitter_ewma (observe_received sq t m) = jitter_ewma m"
  "total_sent (observe_received sq t m) = total_sent m" "total_received (observe_received sq t m) = total_received m + 1"
  "last_rtt (observe_received sq t m) = last_rtt m" "rtt_window (observe_received sq t m) = rtt_window m"
  "initialized (observe_received sq t m) = (initialized m \<or> total_sent m \<noteq> 0)"
  "loss_ewma (observe_received sq t m) =
     (if total_sent m = 0 then loss_ewma m
      else if initialized m
      then ALPHA * instant_loss (total_sent m) (total_received m + 1) + (1 - ALPHA) * loss_ewma m
      else instant_loss (total_sent m) (total_received m + 1))"
  by (simp_all add: observe_received_def Let_def)

lemma observe_rtt_simps [simp]:
  "loss_ewma (observe_rtt r m) = loss_ewma m" "initialized (observe_rtt r m) = initialized m"
  "total_sent (observe_rtt r m) = total_sent m" "total_received (observe_rtt r m) = total_received m"
  "last_rtt (observe_rtt r m) = Some (real r)"
  "rtt_ewma (observe_rtt r m) = (if rtt_ewma m = 0 then real r else ALPHA * real r + (1 - ALPHA) * rtt_ewma m)"
  "rtt_window (observe_rtt r m) =
     (if JITTER_VARIANCE_WINDOW_SIZE \<le> length (rtt_window m) then tl (rtt_window m) else rtt_window m) @ [real r]"
  by (simp_all add: observe_rtt_def Let_def split: option.splits)

lemma observe_rtt_jitter:
  "jitter_ewma (observe_rtt r m) =
     (case last_rtt m of None \<Rightarrow> jitter_ewma m
      | Some l \<Rightarrow> if jitter_ewma m = 0 then \<bar>real r - l\<bar> else ALPHA * \<bar>real r - l\<bar> + (1 - ALPHA) * jitter_ewma m)"
  by (simp add: observe_rtt_def Let_def split: option.splits)

lemma instant_loss_bounds: "0 \<le> instant_loss n k \<and> instant_loss n k \<le> 100"
  by (auto simp: instant_loss_def field_simps)

lemma ewma_bounds:
  fixes a b x y :: real
  shows "a \<le> x \<Longrightarrow> x \<le> b \<Longrightarrow> a \<le> y \<Longrightarrow> y \<le> b \<Longrightarrow> a \<le> ALPHA * x + (1 - ALPHA) * y \<and> ALPHA * x + (1 - ALPHA) * y \<le> b"
  by (simp add: field_simps)

definition rtts :: "monitor_event list \<Rightarrow> nat list" where
  "rtts es = List.map_filter (\<lambda>e. case e of RttSample r \<Rightarrow> Some r | _ \<Rightarrow> None) es"

lemma rtts_snoc [simp]:
  "rtts [] = []" "rtts (es @ [SentPacket sq t]) = rtts es" "rtts (es @ [ReceivedPacket sq t]) = rtts es"
  "rtts (es @ [RttSample r]) = rtts es @ [r]"
  by (simp_all add: rtts_def List.map_filter_def)

text \<open>
  Also (bounds).  The loss estimate is a percentage, the estimated round trip lies between the shortest and the
  longest sample, and the jitter is at most their difference.
\<close>

theorem estimates_are_bounded:
  assumes "\<forall>r \<in> set (rtts es). lo \<le> r \<and> r \<le> hi" "0 < lo"
  shows "0 \<le> loss_ewma (monitor_run es) \<and> loss_ewma (monitor_run es) \<le> 100"
    and "rtts es \<noteq> [] \<Longrightarrow> real lo \<le> rtt_ewma (monitor_run es) \<and> rtt_ewma (monitor_run es) \<le> real hi"
    and "0 \<le> jitter_ewma (monitor_run es)"
    and "rtts es \<noteq> [] \<Longrightarrow> jitter_ewma (monitor_run es) \<le> real hi - real lo"
proof -
  let ?m = "monitor_run es"
  have "(0 \<le> loss_ewma ?m \<and> loss_ewma ?m \<le> 100) \<and>
    (if rtts es = [] then rtt_ewma ?m = 0 \<and> last_rtt ?m = None \<and> jitter_ewma ?m = 0
     else real lo \<le> rtt_ewma ?m \<and> rtt_ewma ?m \<le> real hi \<and> last_rtt ?m = Some (real (last (rtts es))) \<and>
          0 \<le> jitter_ewma ?m \<and> jitter_ewma ?m \<le> real hi - real lo)"
    using assms(1)
  proof (induction es rule: rev_induct)
    case Nil
    then show ?case by (simp add: monitor_run_def path_monitor_new_def)
  next
    case (snoc e es)
    show ?case
    proof (cases e)
      case (SentPacket sq t)
      then show ?thesis using snoc by simp
    next
      case (ReceivedPacket sq t)
      then show ?thesis
        using snoc instant_loss_bounds[of "total_sent (monitor_run es)" "total_received (monitor_run es) + 1"]
          ewma_bounds[of 0 "instant_loss (total_sent (monitor_run es)) (total_received (monitor_run es) + 1)" 100
            "loss_ewma (monitor_run es)"]
        by simp
    next
      case (RttSample r)
      have r: "lo \<le> r" "r \<le> hi" and old: "\<forall>q \<in> set (rtts es). lo \<le> q \<and> q \<le> hi"
        using snoc.prems RttSample by auto
      note IH = snoc.IH[OF old]
      show ?thesis
      proof (cases "rtts es = []")
        case True
        then show ?thesis using IH r RttSample by (simp add: observe_rtt_jitter)
      next
        case False
        then have l: "lo \<le> last (rtts es)" "last (rtts es) \<le> hi" using old last_in_set by blast+
        have d: "0 \<le> \<bar>real r - real (last (rtts es))\<bar>" "\<bar>real r - real (last (rtts es))\<bar> \<le> real hi - real lo"
          using r l by auto
        then show ?thesis
          using IH False r RttSample assms(2)
            ewma_bounds[of "real lo" "real r" "real hi" "rtt_ewma (monitor_run es)"]
            ewma_bounds[of 0 "\<bar>real r - real (last (rtts es))\<bar>" "real hi - real lo" "jitter_ewma (monitor_run es)"]
          by (simp add: observe_rtt_jitter)
      qed
    qed
  qed
  then show "0 \<le> loss_ewma ?m \<and> loss_ewma ?m \<le> 100"
    "rtts es \<noteq> [] \<Longrightarrow> real lo \<le> rtt_ewma ?m \<and> rtt_ewma ?m \<le> real hi"
    "0 \<le> jitter_ewma ?m" "rtts es \<noteq> [] \<Longrightarrow> jitter_ewma ?m \<le> real hi - real lo"
    by (auto split: if_splits)
qed

text \<open>
  Also (safety).  Without round-trip samples, and nothing on the desktop feeds any, the monitor reports no
  round trip, no jitter and no handoff, whatever the path does.
\<close>

theorem unfed_monitor_sees_no_jitter:
  assumes "rtts es = []"
  shows "pq_rtt_ms (path_quality (monitor_run es)) = 0 \<and> pq_jitter_ms (path_quality (monitor_run es)) = 0 \<and>
    jitter_variance_ms (monitor_run es) = 0 \<and> \<not> detect_handoff (monitor_run es)"
proof -
  have "rtt_ewma (monitor_run es) = 0 \<and> jitter_ewma (monitor_run es) = 0 \<and> rtt_window (monitor_run es) = []"
    using assms
  proof (induction es rule: rev_induct)
    case (snoc e es)
    then show ?case by (cases e) auto
  qed (simp add: monitor_run_def path_monitor_new_def)
  then show ?thesis
    by (simp add: path_quality_def as_u32_def jitter_variance_ms_def detect_handoff_def)
qed

text \<open>
  Also (safety).  The loss estimate compares what this side sent with what it received.  A side that never
  sends more than it has received measures no loss, however many packets of the other are lost; a side that
  sends two packets for each that it receives measures half its packets lost although none is.
\<close>

theorem loss_estimate_is_imbalance:
  "(\<And>before sq t after. es = before @ ReceivedPacket sq t # after \<Longrightarrow>
      total_sent (monitor_run before) \<le> total_received (monitor_run before) + 1) \<Longrightarrow>
    loss_ewma (monitor_run es) = 0"
  "0 < n \<Longrightarrow> loss_ewma (monitor_run (concat (replicate n [SentPacket a s, SentPacket b t, ReceivedPacket c u]))) = 50"
proof -
  show "loss_ewma (monitor_run es) = 0"
    if "\<And>before sq t after. es = before @ ReceivedPacket sq t # after \<Longrightarrow>
      total_sent (monitor_run before) \<le> total_received (monitor_run before) + 1"
    using that
  proof (induction es rule: rev_induct)
    case (snoc e es)
    have IH: "loss_ewma (monitor_run es) = 0"
      by (rule snoc.IH) (rule snoc.prems, simp)
    show ?case
    proof (cases e)
      case (ReceivedPacket sq t)
      then have "total_sent (monitor_run es) \<le> total_received (monitor_run es) + 1"
        using snoc.prems[of es sq t "[]"] by simp
      then show ?thesis using IH ReceivedPacket by (simp add: instant_loss_def)
    qed (simp_all add: IH)
  qed (simp add: monitor_run_def path_monitor_new_def)
next
  let ?es = "\<lambda>n. concat (replicate n [SentPacket a s, SentPacket b t, ReceivedPacket c u])"
  have snoc: "?es (Suc n) = ?es n @ [SentPacket a s] @ [SentPacket b t] @ [ReceivedPacket c u]" for n
    by (induction n) simp_all
  have "total_sent (monitor_run (?es n)) = 2 * n \<and> total_received (monitor_run (?es n)) = n \<and>
      initialized (monitor_run (?es n)) = (0 < n) \<and> (0 < n \<longrightarrow> loss_ewma (monitor_run (?es n)) = 50)" for n
  proof (induction n)
    case (Suc n)
    then show ?case
      unfolding snoc append_assoc[symmetric] monitor_run_snoc
      by (cases "n = 0") (simp_all add: instant_loss_def field_simps)
  qed (simp add: monitor_run_def path_monitor_new_def)
  then show "loss_ewma (monitor_run (?es n)) = 50" if "0 < n" using that by blast
qed

section \<open>Witnesses\<close>

theorem estimates_are_bounded_witness:
  "30 \<le> rtt_ewma (monitor_run [RttSample 30, RttSample 50])"
  using estimates_are_bounded(2)[of "[RttSample 30, RttSample 50]" 30 50] by (simp add: rtts_def List.map_filter_def)

theorem unfed_monitor_sees_no_jitter_witness:
  "pq_jitter_ms (path_quality (monitor_run [SentPacket 0 0, ReceivedPacket 5 900])) = 0"
  using unfed_monitor_sees_no_jitter[of "[SentPacket 0 0, ReceivedPacket 5 900]"]
  by (simp add: rtts_def List.map_filter_def)

theorem loss_estimate_is_imbalance_witness:
  "loss_ewma (monitor_run (concat (replicate 3 [SentPacket 0 0, SentPacket 1 20, ReceivedPacket 7 20]))) = 50"
  by (rule loss_estimate_is_imbalance(2)) simp

lemma open_60: "open_conn 60 \<lparr>max_datagram_size = Some 60, send_datagram = (\<lambda>_. True)\<rparr>"
  by (simp add: open_conn_def)


theorem trunked_media_never_arrives_witness:
  "fst (recv_media_datagram (map Datagram (datagrams (fst (fw_run
     \<lparr>max_datagram_size = Some 60, send_datagram = (\<lambda>_. True)\<rparr>
     (forwarder_new \<lparr>max_datagram_size = Some 60, send_datagram = (\<lambda>_. True)\<rparr> (0, 1))
     ([SendPkt (sample_packet [1])] @ [Tick])))) @ []) path_monitor_new) = None"
proof -
  have "\<forall>p \<in> set (sent_packets [SendPkt (sample_packet [1])]). 6 + length (packet_to_bytes p) \<le> 60"
    by (simp add: sample_packet_wf)
  from trunked_media_never_arrives [OF open_60 this refl, of "(0, 1)" "[]" path_monitor_new]
  show ?thesis by (simp only: recv_media_datagram.simps fst_conv)
qed

end
