(* ===== verification/Portmap.thy ===== *)
theory Portmap
  imports Stun
begin

text \<open>
  Port mapping by the router (\<open>wzp-client/src/portmap.rs\<close>): discovery of the gateway, NAT-PMP, PCP and UPnP, and
  the order in which they are tried.  What arrives on a socket is an argument, with the milliseconds it takes;
  the HTTP exchanges of UPnP are arguments too, and so is Rust's reader of IPv4 addresses.
\<close>

section \<open>Types\<close>

datatype PortMapProtocol = NatPmp | Pcp | UPnP

datatype PortMapError =
    NoGateway
  | ProtocolError string
  | IoError
  | PmTimeout
  | AllFailed "(PortMapProtocol \<times> PortMapError) list"

record PortMapping =
  pm_external :: SocketAddr
  pm_protocol :: PortMapProtocol
  pm_expires_at :: nat
  pm_refresh_interval :: nat
  pm_gateway :: "byte list"
  pm_internal_port :: u16

section \<open>The gateway of a Linux host\<close>

definition hex_value :: "char \<Rightarrow> nat option" where
  "hex_value c =
     (let n = of_char c :: nat in
      if 48 \<le> n \<and> n \<le> 57 then Some (n - 48)
      else if 65 \<le> n \<and> n \<le> 70 then Some (n - 55)
      else if 97 \<le> n \<and> n \<le> 102 then Some (n - 87) else None)"

fun read_hex :: "nat \<Rightarrow> string \<Rightarrow> nat option" where
  "read_hex acc [] = Some acc"
| "read_hex acc (c # cs) = (case hex_value c of None \<Rightarrow> None | Some d \<Rightarrow> read_hex (16 * acc + d) cs)"

text \<open>\<open>u32::from_str_radix\<close> takes one leading plus and refuses what does not fit.\<close>

definition u32_from_hex :: "string \<Rightarrow> u32 option" where
  "u32_from_hex s =
     (let ds = (case s of c # cs \<Rightarrow> if c = CHR ''+'' then cs else s | [] \<Rightarrow> s) in
      if ds = [] then None
      else (case read_hex 0 ds of None \<Rightarrow> None | Some n \<Rightarrow> if n < 2 ^ 32 then Some (of_nat n) else None))"

text \<open>On a little-endian host \<open>to_be\<close> swaps the bytes, and the address takes them from the most significant.\<close>

definition v4_of_native :: "u32 \<Rightarrow> byte list" where
  "v4_of_native w = rev (put_u32 w)"

text \<open>The lines of \<open>/proc/net/route\<close> after the first, each split at its white space.\<close>

fun default_gateway_linux :: "string list list \<Rightarrow> PortMapError + byte list" where
  "default_gateway_linux [] = Inl NoGateway"
| "default_gateway_linux (cols # lines) =
     (if length cols < 3 then default_gateway_linux lines
      else if cols ! 1 = ''00000000''
      then (case u32_from_hex (cols ! 2) of
              None \<Rightarrow> Inl (ProtocolError ''parse gateway hex'')
            | Some w \<Rightarrow> Inr (v4_of_native w))
      else default_gateway_linux lines)"

section \<open>NAT-PMP\<close>

text \<open>The next datagram on a socket, with its time; nothing at all; an error.\<close>

datatype udp = UdpBytes nat "byte list" | UdpSilence | UdpFails nat

definition recv_within :: "nat \<Rightarrow> nat \<Rightarrow> udp \<Rightarrow> nat \<times> (PortMapError + byte list)" where
  "recv_within limit cap u =
     (case u of
        UdpBytes t bytes \<Rightarrow> if t \<le> limit then (t, Inr (take cap bytes)) else (limit, Inl PmTimeout)
      | UdpSilence \<Rightarrow> (limit, Inl PmTimeout)
      | UdpFails t \<Rightarrow> if t \<le> limit then (t, Inl IoError) else (limit, Inl PmTimeout))"

definition natpmp_external_request :: "byte list" where
  "natpmp_external_request = [0, 0]"

definition parse_natpmp_external :: "byte list \<Rightarrow> PortMapError + byte list" where
  "parse_natpmp_external buf =
     (if length buf < 12 then Inl (ProtocolError ''NAT-PMP external addr response too short'')
      else if u16_of_be (buf ! 2) (buf ! 3) \<noteq> 0 then Inl (ProtocolError ''NAT-PMP error'')
      else Inr [buf ! 8, buf ! 9, buf ! 10, buf ! 11])"

definition natpmp_map_request :: "u16 \<Rightarrow> u16 \<Rightarrow> u32 \<Rightarrow> byte list" where
  "natpmp_map_request internal external lifetime = [0, 1, 0, 0] @ put_u16 internal @ put_u16 external @ put_u32 lifetime"

definition parse_natpmp_map :: "byte list \<Rightarrow> PortMapError + u16 \<times> u32" where
  "parse_natpmp_map buf =
     (if length buf < 16 then Inl (ProtocolError ''NAT-PMP map response too short'')
      else if u16_of_be (buf ! 2) (buf ! 3) \<noteq> 0 then Inl (ProtocolError ''NAT-PMP map error'')
      else Inr (u16_of_be (buf ! 10) (buf ! 11), u32_of_be (buf ! 12) (buf ! 13) (buf ! 14) (buf ! 15)))"

definition bind_sum :: "'e + 'a \<Rightarrow> ('a \<Rightarrow> 'e + 'b) \<Rightarrow> 'e + 'b" where
  "bind_sum x f = (case x of Inl e \<Rightarrow> Inl e | Inr a \<Rightarrow> f a)"

definition lease :: "nat \<Rightarrow> PortMapProtocol \<Rightarrow> byte list \<Rightarrow> u16 \<Rightarrow> SocketAddr \<Rightarrow> nat \<Rightarrow> PortMapping" where
  "lease now proto gateway internal external secs =
     \<lparr>pm_external = external, pm_protocol = proto, pm_expires_at = now + 1000 * secs,
      pm_refresh_interval = 500 * secs, pm_gateway = gateway, pm_internal_port = internal\<rparr>"

text \<open>Both requests go over one socket; \<open>u1\<close> and \<open>u2\<close> are what it receives, from whomever.\<close>

definition try_natpmp :: "nat \<Rightarrow> byte list \<Rightarrow> u16 \<Rightarrow> nat \<Rightarrow> udp \<Rightarrow> udp \<Rightarrow> nat \<times> (PortMapError + PortMapping)" where
  "try_natpmp now gateway internal limit u1 u2 =
     (let (t1, r1) = recv_within limit 12 u1 in
      case bind_sum r1 parse_natpmp_external of
        Inl e \<Rightarrow> (t1, Inl e)
      | Inr ip \<Rightarrow>
          (let (t2, r2) = recv_within limit 16 u2 in
           (t1 + t2,
            bind_sum (bind_sum r2 parse_natpmp_map) (\<lambda>(port, secs).
              Inr (lease (now + t1 + t2) NatPmp gateway internal \<lparr>sa_ip = V4 ip, sa_port = port\<rparr> (unat secs))))))"

section \<open>PCP\<close>

definition pcp_request :: "u16 \<Rightarrow> byte list \<Rightarrow> byte list \<Rightarrow> byte list" where
  "pcp_request internal local_ip nonce =
     [2, 1, 0, 0] @ put_u32 7200 @ replicate 10 0 @ [0xff, 0xff] @ local_ip @ nonce @ [17, 0, 0, 0] @
     put_u16 internal @ put_u16 internal @ replicate 16 0"

definition parse_pcp :: "byte list \<Rightarrow> byte list \<Rightarrow> PortMapError + SocketAddr \<times> u32" where
  "parse_pcp nonce buf =
     (if length buf < 60 then Inl (ProtocolError ''PCP response too short'')
      else if buf ! 1 AND 0x80 = 0 then Inl (ProtocolError ''PCP: not a response'')
      else if buf ! 3 \<noteq> 0 then Inl (ProtocolError ''PCP error'')
      else if take 12 (drop 24 buf) \<noteq> nonce then Inl (ProtocolError ''PCP nonce mismatch'')
      else Inr (\<lparr>sa_ip = V4 [buf ! 56, buf ! 57, buf ! 58, buf ! 59], sa_port = u16_of_be (buf ! 42) (buf ! 43)\<rparr>,
                u32_of_be (buf ! 4) (buf ! 5) (buf ! 6) (buf ! 7)))"

definition try_pcp :: "nat \<Rightarrow> byte list \<Rightarrow> u16 \<Rightarrow> byte list \<Rightarrow> nat \<Rightarrow> udp \<Rightarrow> nat \<times> (PortMapError + PortMapping)" where
  "try_pcp now gateway internal nonce limit u =
     (let (t, r) = recv_within limit 60 u in
      (t, bind_sum (bind_sum r (parse_pcp nonce)) (\<lambda>(external, secs).
            Inr (lease (now + t) Pcp gateway internal external (unat secs)))))"

section \<open>UPnP\<close>

text \<open>The text before and after the first occurrence of a pattern.\<close>

fun find_sub :: "string \<Rightarrow> string \<Rightarrow> (string \<times> string) option" where
  "find_sub pat [] = (if pat = [] then Some ([], []) else None)"
| "find_sub pat (c # cs) =
     (if take (length pat) (c # cs) = pat then Some ([], drop (length pat) (c # cs))
      else map_option (apfst ((#) c)) (find_sub pat cs))"

definition has_prefix :: "string \<Rightarrow> string \<Rightarrow> bool" where
  "has_prefix p s \<longleftrightarrow> take (length p) s = p"

definition without_prefix :: "string \<Rightarrow> string \<Rightarrow> string" where
  "without_prefix p s = (if has_prefix p s then drop (length p) s else s)"

definition up_to :: "char \<Rightarrow> string \<Rightarrow> string" where
  "up_to c s = takeWhile (\<lambda>d. d \<noteq> c) s"

definition control_url :: "string \<Rightarrow> string \<Rightarrow> string" where
  "control_url base_url path =
     (if has_prefix ''http://'' path \<or> has_prefix ''https://'' path then path
      else ''http://'' @ up_to (CHR ''/'') (without_prefix ''http://'' base_url) @ path)"

definition service_control_url :: "string \<Rightarrow> string \<Rightarrow> string \<Rightarrow> string option" where
  "service_control_url xml base_url st =
     Option.bind (find_sub st xml) (\<lambda>(_, after).
       Option.bind (find_sub ''<controlURL>'' (st @ after)) (\<lambda>(_, r).
         map_option (\<lambda>(path, _). control_url base_url path) (find_sub ''</controlURL>'' r)))"

fun first_some :: "('a \<Rightarrow> 'b option) \<Rightarrow> 'a list \<Rightarrow> 'b option" where
  "first_some f [] = None"
| "first_some f (x # xs) = (case f x of Some y \<Rightarrow> Some y | None \<Rightarrow> first_some f xs)"

definition extract_control_url :: "string \<Rightarrow> string \<Rightarrow> PortMapError + string" where
  "extract_control_url xml base_url =
     (case first_some (service_control_url xml base_url)
             [''WANIPConnection:1'', ''WANIPConnection:2'', ''WANPPPConnection:1''] of
        Some u \<Rightarrow> Inr u
      | None \<Rightarrow> Inl (ProtocolError ''no WANIPConnection/WANPPPConnection service in device description''))"

text \<open>ASCII white space; \<open>lines\<close> splits at line feeds and drops a carriage return before one.\<close>

definition white :: "char \<Rightarrow> bool" where
  "white c \<longleftrightarrow> c \<in> {CHR 0x09, CHR 0x0A, CHR 0x0B, CHR 0x0C, CHR 0x0D, CHR '' ''}"

definition trimmed :: "string \<Rightarrow> string" where
  "trimmed s = rev (dropWhile white (rev (dropWhile white s)))"

fun lines_of :: "string \<Rightarrow> string \<Rightarrow> string list" where
  "lines_of acc [] = (if acc = [] then [] else [rev acc])"
| "lines_of acc (c # cs) =
     (if c = CHR 0x0A then rev (case acc of d # ds \<Rightarrow> if d = CHR 0x0D then ds else acc | [] \<Rightarrow> []) # lines_of [] cs
      else lines_of (c # acc) cs)"

definition lower_char :: "char \<Rightarrow> char" where
  "lower_char c = (let n = of_char c :: nat in if 65 \<le> n \<and> n \<le> 90 then char_of (n + 32) else c)"

definition ssdp_location :: "string \<Rightarrow> string option" where
  "ssdp_location response =
     map_option (\<lambda>l. trimmed (drop 1 (dropWhile (\<lambda>c. c \<noteq> CHR '':'') l)))
       (List.find (\<lambda>l. has_prefix ''location:'' (map lower_char l)) (lines_of [] response))"

text \<open>Host and path of a URL, and the text an HTTP exchange takes as its body.\<close>

definition split_url :: "string \<Rightarrow> PortMapError + string \<times> string" where
  "split_url url =
     (let url = trimmed url in
      if \<not> has_prefix ''http://'' url then Inl (ProtocolError ''non-HTTP URL'')
      else let rest = drop 7 url in
        Inr (up_to (CHR ''/'') rest,
             if CHR ''/'' \<in> set rest then dropWhile (\<lambda>d. d \<noteq> CHR ''/'') rest else ''/''))"

definition http_body :: "string \<Rightarrow> string" where
  "http_body full =
     (case find_sub [CHR 0x0D, CHR 0x0A, CHR 0x0D, CHR 0x0A] full of Some (_, b) \<Rightarrow> b | None \<Rightarrow> full)"

definition parse_external_ip :: "(string \<Rightarrow> byte list option) \<Rightarrow> string \<Rightarrow> PortMapError + byte list" where
  "parse_external_ip parse_v4 response =
     (case find_sub ''<NewExternalIPAddress>'' response of
        None \<Rightarrow> Inl (ProtocolError ''no NewExternalIPAddress in response'')
      | Some (_, r) \<Rightarrow>
          (case find_sub ''</NewExternalIPAddress>'' r of
             None \<Rightarrow> Inl (ProtocolError ''malformed NewExternalIPAddress'')
           | Some (ip, _) \<Rightarrow>
               (case parse_v4 ip of None \<Rightarrow> Inl (ProtocolError ''parse external IP'') | Some o4 \<Rightarrow> Inr o4)))"

definition mapping_refused :: "string \<Rightarrow> bool" where
  "mapping_refused response \<longleftrightarrow> find_sub ''<s:Fault>'' response \<noteq> None \<or> find_sub ''errorCode'' response \<noteq> None"

definition url_host_to_ip :: "(string \<Rightarrow> byte list option) \<Rightarrow> string \<Rightarrow> byte list option" where
  "url_host_to_ip parse_v4 url =
     parse_v4 (up_to (CHR '':'') (up_to (CHR ''/'') (without_prefix ''http://'' url)))"

text \<open>
  What the network does during one attempt: the two datagrams the NAT-PMP socket receives, the one of PCP, the one
  of the search, each with its time from the wait's start; the raw answers of the description's host and of the two
  SOAP requests, by host and path.  Each exchange ends with bytes or an error and the time it took.
\<close>

record world =
  w_gateway :: "PortMapError + byte list"
  w_natpmp1 :: udp
  w_natpmp2 :: udp
  w_nonce :: "byte list"
  w_pcp :: udp
  w_ssdp :: udp
  w_get :: "string \<times> string \<Rightarrow> nat \<times> (PortMapError + string)"
  w_external :: "string \<times> string \<Rightarrow> nat \<times> (PortMapError + string)"
  w_add :: "string \<times> string \<Rightarrow> nat \<times> (PortMapError + string)"
  w_parse_v4 :: "string \<Rightarrow> byte list option"

definition http_exchange ::
  "(string \<times> string \<Rightarrow> nat \<times> (PortMapError + string)) \<Rightarrow> string \<Rightarrow> nat \<times> (PortMapError + string)" where
  "http_exchange net url =
     (case split_url url of Inl e \<Rightarrow> (0, Inl e)
      | Inr target \<Rightarrow> let (t, r) = net target in (t, bind_sum r (\<lambda>full. Inr (http_body full))))"

definition try_upnp :: "world \<Rightarrow> nat \<Rightarrow> u16 \<Rightarrow> nat \<Rightarrow> nat \<times> (PortMapError + PortMapping)" where
  "try_upnp w now internal limit =
     (let (t1, r1) = recv_within limit 2048 (w_ssdp w) in
      case bind_sum r1 (\<lambda>b. case ssdp_location (map (\<lambda>x. char_of (unat x)) b) of
                                None \<Rightarrow> Inl (ProtocolError ''no LOCATION in SSDP response'') | Some l \<Rightarrow> Inr l) of
        Inl e \<Rightarrow> (t1, Inl e)
      | Inr location \<Rightarrow>
          let (t2, r2) = http_exchange (w_get w) location in
          (case bind_sum r2 (\<lambda>xml. extract_control_url xml location) of Inl e \<Rightarrow> (t1 + t2, Inl e)
           | Inr url \<Rightarrow>
               let (t3, r3) = http_exchange (w_external w) url in
               (case bind_sum r3 (parse_external_ip (w_parse_v4 w)) of Inl e \<Rightarrow> (t1 + t2 + t3, Inl e)
                | Inr ip \<Rightarrow>
                    let (t4, r4) = http_exchange (w_add w) url; t = t1 + t2 + t3 + t4 in
                    (t, bind_sum r4 (\<lambda>d.
                          if mapping_refused d then Inl (ProtocolError ''AddPortMapping SOAP fault'')
                          else Inr (lease (now + t) UPnP
                                 (case url_host_to_ip (w_parse_v4 w) location of Some g \<Rightarrow> g | None \<Rightarrow> [0, 0, 0, 0])
                                 internal \<lparr>sa_ip = V4 ip, sa_port = internal\<rparr> 7200))))))"

section \<open>Acquiring and refreshing\<close>

text \<open>
  The protocols are tried one after the other, each from the time the one before it failed and with three seconds
  for every wait.  The errors are kept as they are, where the code keeps their texts.
\<close>

definition acquire_port_mapping :: "world \<Rightarrow> nat \<Rightarrow> u16 \<Rightarrow> nat \<times> (PortMapError + PortMapping)" where
  "acquire_port_mapping w now internal =
     (case w_gateway w of Inl e \<Rightarrow> (0, Inl e)
      | Inr g \<Rightarrow>
          let (t1, r1) = try_natpmp now g internal 3000 (w_natpmp1 w) (w_natpmp2 w) in
          (case r1 of Inr m \<Rightarrow> (t1, Inr m)
           | Inl e1 \<Rightarrow>
               let (t2, r2) = try_pcp (now + t1) g internal (w_nonce w) 3000 (w_pcp w) in
               (case r2 of Inr m \<Rightarrow> (t1 + t2, Inr m)
                | Inl e2 \<Rightarrow>
                    let (t3, r3) = try_upnp w (now + t1 + t2) internal 3000 in
                    (t1 + t2 + t3,
                     case r3 of Inr m \<Rightarrow> Inr m
                     | Inl e3 \<Rightarrow> Inl (AllFailed [(NatPmp, e1), (Pcp, e2), (UPnP, e3)])))))"

text \<open>What a call takes of it: the address, if it comes within 750 ms.\<close>

definition quick_mapping :: "nat \<times> (PortMapError + PortMapping) \<Rightarrow> SocketAddr option" where
  "quick_mapping r = (case snd r of Inr m \<Rightarrow> if fst r \<le> 750 then Some (pm_external m) else None | Inl _ \<Rightarrow> None)"

definition release_request :: "PortMapping \<Rightarrow> byte list option" where
  "release_request m =
     (case pm_protocol m of
        NatPmp \<Rightarrow> Some (natpmp_map_request (pm_internal_port m) 0 0)
      | Pcp \<Rightarrow> None
      | UPnP \<Rightarrow> None)"

text \<open>One turn of the refresh task: it goes on with the mapping it was started with, whatever it was granted.\<close>

definition refresh_turn :: "world \<Rightarrow> PortMapping \<times> nat \<Rightarrow> PortMapping \<times> nat" where
  "refresh_turn w s =
     (let (m, now) = s; t = now + pm_refresh_interval m in
      (m, t + fst (acquire_port_mapping w t (pm_internal_port m))))"

section \<open>Round trips\<close>

lemma bind_sum_simps [simp]: "bind_sum (Inl e) f = Inl e" "bind_sum (Inr a) f = f a"
  by (simp_all add: bind_sum_def)

lemma bind_sum_Inr: "bind_sum x f = Inr b \<longleftrightarrow> (\<exists>a. x = Inr a \<and> f a = Inr b)"
  by (cases x) auto

text \<open>How the kernel prints a byte: two upper-case hexadecimal digits.\<close>

definition hex_digit :: "nat \<Rightarrow> char" where
  "hex_digit n = (if n < 10 then char_of (48 + n) else char_of (55 + n))"

definition hex_byte :: "byte \<Rightarrow> string" where
  "hex_byte b = [hex_digit (unat b div 16), hex_digit (unat b mod 16)]"

lemma hex_value_digit:
  assumes "n < 16"
  shows "hex_value (hex_digit n) = Some n"
  using assms by (auto simp: hex_value_def hex_digit_def)

lemma hex_digit_not_plus:
  assumes "n < 16"
  shows "hex_digit n \<noteq> CHR ''+''"
  using hex_value_digit [OF assms] by (auto simp: hex_value_def)

lemma unat_byte_less: "unat (b :: byte) < 256"
  using unsigned_less [of b] by simp

lemma read_hex_byte: "read_hex acc (hex_byte b @ s) = read_hex (256 * acc + unat b) s"
proof -
  have "unat b < 256" by (rule unat_byte_less)
  then have "unat b div 16 < 16" by (simp add: less_mult_imp_div_less)
  moreover have "16 * (16 * acc + unat b div 16) + unat b mod 16 = 256 * acc + unat b"
    by (simp add: algebra_simps)
  ultimately show ?thesis by (simp add: hex_byte_def hex_value_digit add.commute)
qed

lemma byte_of_nat:
  assumes "n < 2 ^ 32" "n div 2 ^ k mod 256 = unat (b :: byte)"
  shows "ucast (drop_bit k (of_nat n :: u32)) = b"
proof (rule unsigned_word_eqI)
  have "unat (of_nat n :: u32) = n" using assms(1) by (simp add: unat_of_nat take_bit_nat_eq_self)
  then have "unat (drop_bit k (of_nat n :: u32)) = n div 2 ^ k"
    by (simp only: unat_drop_bit_eq) (simp only: drop_bit_eq_div)
  then show "unat (ucast (drop_bit k (of_nat n :: u32)) :: byte) = unat b"
    using assms(2) by (simp only: unsigned_ucast_eq) (simp add: take_bit_eq_mod)
qed

lemma put_u32_of_nat:
  "put_u32 (of_nat (2 ^ 24 * unat a + 2 ^ 16 * unat b + 2 ^ 8 * unat c + unat d)) = [a, b, c, d]"
    (is "put_u32 (of_nat ?n) = _")
proof -
  have le: "unat a < 256" "unat b < 256" "unat c < 256" "unat d < 256" by (rule unat_byte_less)+
  then have n: "?n < 2 ^ 32" by simp
  have "?n div 2 ^ 24 = unat a" "?n div 2 ^ 16 = 256 * unat a + unat b"
    "?n div 2 ^ 8 = 256 * (256 * unat a + unat b) + unat c"
    "?n div 2 ^ 0 = 256 * (256 * (256 * unat a + unat b) + unat c) + unat d"
    by (rule div_nat_eqI; use le in simp)+
  then have "ucast (drop_bit 24 (of_nat ?n :: u32)) = a" "ucast (drop_bit 16 (of_nat ?n :: u32)) = b"
    "ucast (drop_bit 8 (of_nat ?n :: u32)) = c" "ucast (drop_bit 0 (of_nat ?n :: u32)) = d"
    using le by (simp_all only: byte_of_nat [OF n] mod_mult_self4 mod_less)
  then show ?thesis by (simp add: put_u32_def)
qed

text \<open>
  Also (roundtrip). The gateway the kernel prints in \<open>/proc/net/route\<close> is the gateway read: its four bytes come
  last first, each as two digits, because the word is in network order and printed in the host's.
\<close>

theorem printed_gateway_is_read:
  "default_gateway_linux ([iface, ''00000000'', hex_byte d @ hex_byte c @ hex_byte b @ hex_byte a] # routes) =
   Inr [a, b, c, d]"
proof -
  let ?n = "2 ^ 24 * unat d + 2 ^ 16 * unat c + 2 ^ 8 * unat b + unat a"
  have "read_hex 0 (hex_byte d @ hex_byte c @ hex_byte b @ hex_byte a @ []) = Some ?n"
    by (simp only: read_hex_byte) simp
  moreover have "?n < 2 ^ 32"
    using unat_byte_less [of a] unat_byte_less [of b] unat_byte_less [of c] unat_byte_less [of d] by simp
  moreover have "hex_digit (unat d div 16) \<noteq> CHR ''+''"
    by (rule hex_digit_not_plus) (use unat_byte_less [of d] in \<open>simp add: less_mult_imp_div_less\<close>)
  ultimately show ?thesis
    using put_u32_of_nat [of d c b a]
    by (simp add: u32_from_hex_def v4_of_native_def hex_byte_def)
qed

text \<open>
  Also (roundtrip). A router that answers in the format of NAT-PMP is understood: the address, the port and the
  lifetime it granted are the ones taken, whatever its version, epoch and operation bytes say.
\<close>

theorem natpmp_answers_are_understood:
  "parse_natpmp_external ([v, op, 0, 0] @ put_u32 epoch @ [a, b, c, d]) = Inr [a, b, c, d] \<and>
   parse_natpmp_map ([v, op, 0, 0] @ put_u32 epoch @ put_u16 internal @ put_u16 mapped @ put_u32 secs) = Inr (mapped, secs)"
  by (simp add: parse_natpmp_external_def parse_natpmp_map_def put_u16_def put_u32_def u16_of_be_put u32_of_be_put)
    (simp add: u16_of_be_def)

text \<open>
  Also (safety). A PCP answer is taken only if it carries the request's own nonce, so a host that has not seen the
  request cannot plant a mapping; NAT-PMP has no such guard.
\<close>

theorem pcp_answers_need_the_nonce:
  assumes "parse_pcp nonce buf = Inr (external, secs)"
  shows "take 12 (drop 24 buf) = nonce \<and> 60 \<le> length buf \<and> buf ! 3 = 0"
  using assms by (auto simp: parse_pcp_def split: if_splits)

theorem pcp_answers_need_the_nonce_witness:
  "take 12 (drop 24 ([2, 0x81, 0, 0] @ replicate 20 0 @ replicate 12 7 @ replicate 24 0)) = replicate 12 (7 :: byte)"
  using pcp_answers_need_the_nonce
    [of "replicate 12 7" "[2, 0x81, 0, 0] @ replicate 20 0 @ replicate 12 7 @ replicate 24 0"
        "\<lparr>sa_ip = V4 [0, 0, 0, 0], sa_port = 0\<rparr>" 0]
  by (simp add: parse_pcp_def numeral_eq_Suc u16_of_be_def u32_of_be_def)

text \<open>
  Also (functional). A relative control path is appended to the host and port as it stands: without a leading slash
  it becomes part of them.
\<close>

lemma up_to_append: "c \<notin> set s \<Longrightarrow> up_to c (s @ c # r) = s"
  unfolding up_to_def by (induction s) auto

theorem relative_control_path_is_glued:
  assumes "CHR ''/'' \<notin> set host" "\<not> has_prefix ''http://'' path" "\<not> has_prefix ''https://'' path"
  shows "control_url (''http://'' @ host @ CHR ''/'' # file) path = ''http://'' @ host @ path"
  using assms by (simp add: control_url_def without_prefix_def has_prefix_def up_to_append)

theorem relative_control_path_is_glued_witness:
  "control_url ''http://10.0.0.1:5000/d.xml'' ''ctl'' = ''http://10.0.0.1:5000ctl''"
  using relative_control_path_is_glued [of "''10.0.0.1:5000''" "''ctl''" "''d.xml''"] by (simp add: has_prefix_def)

section \<open>The order of the protocols\<close>

lemma recv_within_bound: "fst (recv_within limit cap u) \<le> limit"
  by (simp add: recv_within_def split: udp.split)

lemma try_natpmp_bound: "fst (try_natpmp now g internal limit u1 u2) \<le> 2 * limit"
  using recv_within_bound [of limit 12 u1] recv_within_bound [of limit 16 u2]
  by (auto simp: try_natpmp_def Let_def split: prod.split sum.split)

lemma try_pcp_bound: "fst (try_pcp now g internal nonce limit u) \<le> limit"
  using recv_within_bound [of limit 60 u] by (auto simp: try_pcp_def split: prod.split)

lemma lease_simps [simp]:
  "pm_external (lease now p g i e s) = e" "pm_protocol (lease now p g i e s) = p"
  "pm_expires_at (lease now p g i e s) = now + 1000 * s" "pm_refresh_interval (lease now p g i e s) = 500 * s"
  "pm_gateway (lease now p g i e s) = g" "pm_internal_port (lease now p g i e s) = i"
  by (simp_all add: lease_def)

text \<open>A mapping that holds from a time on for this port, renewed when half of it is over.\<close>

definition granted_at :: "nat \<Rightarrow> u16 \<Rightarrow> PortMapProtocol \<Rightarrow> PortMapping \<Rightarrow> bool" where
  "granted_at t internal p m \<longleftrightarrow>
     pm_protocol m = p \<and> pm_internal_port m = internal \<and> pm_expires_at m = t + 2 * pm_refresh_interval m"

lemma try_natpmp_granted:
  assumes "try_natpmp now g internal limit u1 u2 = (t, Inr m)"
  shows "granted_at (now + t) internal NatPmp m"
  using assms by (auto simp: try_natpmp_def granted_at_def bind_sum_Inr split: prod.splits sum.splits)

lemma try_pcp_granted:
  assumes "try_pcp now g internal nonce limit u = (t, Inr m)"
  shows "granted_at (now + t) internal Pcp m"
  using assms by (auto simp: try_pcp_def granted_at_def bind_sum_Inr split: prod.splits)

lemma try_upnp_granted:
  assumes "try_upnp w now internal limit = (t, Inr m)"
  shows "granted_at (now + t) internal UPnP m"
  using assms
  by (auto simp: try_upnp_def granted_at_def bind_sum_Inr Let_def split: prod.splits sum.splits if_splits option.splits)

text \<open>
  Also (functional). The mapping is the first one granted: a protocol is tried only after those before it failed, and
  whichever grants, the mapping is for the asked port, holds from the end of the attempt and is renewed at half time.
\<close>

theorem first_granted_mapping_wins:
  assumes "acquire_port_mapping w now internal = (t, Inr m)"
  shows "\<exists>g. w_gateway w = Inr g \<and> granted_at (now + t) internal (pm_protocol m) m \<and>
    (pm_protocol m \<noteq> NatPmp \<longrightarrow> (\<exists>e. snd (try_natpmp now g internal 3000 (w_natpmp1 w) (w_natpmp2 w)) = Inl e)) \<and>
    (pm_protocol m = UPnP \<longrightarrow> (\<exists>t1 e. snd (try_pcp t1 g internal (w_nonce w) 3000 (w_pcp w)) = Inl e))"
proof -
  obtain g where g: "w_gateway w = Inr g"
    using assms by (cases "w_gateway w") (auto simp: acquire_port_mapping_def)
  obtain t1 r1 where n: "try_natpmp now g internal 3000 (w_natpmp1 w) (w_natpmp2 w) = (t1, r1)" by fastforce
  obtain t2 r2 where p: "try_pcp (now + t1) g internal (w_nonce w) 3000 (w_pcp w) = (t2, r2)" by fastforce
  obtain t3 r3 where u: "try_upnp w (now + t1 + t2) internal 3000 = (t3, r3)" by fastforce
  show ?thesis
  proof (cases r1)
    case (Inr m1)
    then have "acquire_port_mapping w now internal = (t1, Inr m1)"
      by (simp only: acquire_port_mapping_def g n sum.case Let_def prod.case)
    then have "try_natpmp now g internal 3000 (w_natpmp1 w) (w_natpmp2 w) = (t, Inr m)" using assms n Inr by simp
    from try_natpmp_granted [OF this] show ?thesis using g by (simp add: granted_at_def)
  next
    case e1: (Inl e1)
    show ?thesis
    proof (cases r2)
      case (Inr m2)
      with e1 have "acquire_port_mapping w now internal = (t1 + t2, Inr m2)"
        by (simp only: acquire_port_mapping_def g n p sum.case Let_def prod.case)
      then have t: "t = t1 + t2" "m2 = m" using assms by simp_all
      from try_pcp_granted [OF p [unfolded Inr]] show ?thesis
        using g n e1 t by (simp add: granted_at_def)
    next
      case e2: (Inl e2)
      with e1 have "acquire_port_mapping w now internal =
          (t1 + t2 + t3, case r3 of Inr m \<Rightarrow> Inr m | Inl e3 \<Rightarrow> Inl (AllFailed [(NatPmp, e1), (Pcp, e2), (UPnP, e3)]))"
        by (simp only: acquire_port_mapping_def g n p u sum.case Let_def prod.case)
      then have t: "t = t1 + t2 + t3" "r3 = Inr m" using assms by (cases r3; simp)+
      have "\<exists>t1 e. snd (try_pcp t1 g internal (w_nonce w) 3000 (w_pcp w)) = Inl e" using p e2 by (metis snd_conv)
      moreover from try_upnp_granted [OF u [unfolded t]] have "granted_at (now + t) internal UPnP m"
        by (simp only: t add.assoc)
      ultimately show ?thesis using g n e1 by (simp add: granted_at_def)
    qed
  qed
qed

text \<open>A router that has no NAT-PMP but grants by PCP at once.\<close>

definition pcp_only :: world where
  "pcp_only =
     \<lparr>w_gateway = Inr [192, 168, 1, 1], w_natpmp1 = UdpSilence, w_natpmp2 = UdpSilence, w_nonce = replicate 12 7,
      w_pcp = UdpBytes 5 ([2, 0x81, 0, 0, 0, 0, 0, 60] @ replicate 16 0 @ replicate 12 7 @ replicate 8 0 @ replicate 16 1),
      w_ssdp = UdpSilence, w_get = (\<lambda>_. (0, Inl IoError)), w_external = (\<lambda>_. (0, Inl IoError)),
      w_add = (\<lambda>_. (0, Inl IoError)), w_parse_v4 = (\<lambda>_. None)\<rparr>"

definition pcp_grant :: PortMapping where
  "pcp_grant = lease 3005 Pcp [192, 168, 1, 1] 4433 \<lparr>sa_ip = V4 [1, 1, 1, 1], sa_port = 0\<rparr> 60"

lemma pcp_only_grants: "acquire_port_mapping pcp_only 0 4433 = (3005, Inr pcp_grant)"
proof -
  let ?b = "[2, 0x81, 0, 0, 0, 0, 0, 60] @ replicate 16 0 @ replicate 12 7 @ replicate 8 0 @ replicate 16 (1 :: byte)"
  have "parse_pcp (replicate 12 7) ?b = Inr (\<lparr>sa_ip = V4 [1, 1, 1, 1], sa_port = 0\<rparr>, 60)"
    by (simp add: parse_pcp_def nth_append nth_Cons' u16_of_be_def u32_of_be_def)
  moreover have "take 60 ?b = ?b" by simp
  ultimately have p: "try_pcp 3000 [192, 168, 1, 1] 4433 (w_nonce pcp_only) 3000 (w_pcp pcp_only) = (5, Inr pcp_grant)"
    by (simp only: try_pcp_def pcp_only_def world.simps recv_within_def udp.case) (simp add: pcp_grant_def)
  have n: "try_natpmp 0 [192, 168, 1, 1] 4433 3000 (w_natpmp1 pcp_only) (w_natpmp2 pcp_only) = (3000, Inl PmTimeout)"
    by (simp add: try_natpmp_def pcp_only_def recv_within_def)
  have "w_gateway pcp_only = Inr [192, 168, 1, 1]" by (simp add: pcp_only_def)
  then show ?thesis using n p by (simp add: acquire_port_mapping_def)
qed

theorem first_granted_mapping_wins_witness:
  "granted_at 3005 4433 Pcp pcp_grant"
  using first_granted_mapping_wins [OF pcp_only_grants] by (auto simp: pcp_grant_def)

text \<open>
  Also (liveness). A call waits 750 ms for a mapping, but the first protocol alone is given 3 s: where nothing
  answers NAT-PMP, a call never gets a mapping, whatever PCP and UPnP would grant.
\<close>

theorem silent_natpmp_hides_the_others:
  assumes "w_natpmp1 w = UdpSilence"
  shows "quick_mapping (acquire_port_mapping w now internal) = None"
  using assms
  by (auto simp: quick_mapping_def acquire_port_mapping_def try_natpmp_def recv_within_def Let_def
      split: sum.splits prod.splits)

theorem silent_natpmp_hides_the_others_witness:
  "quick_mapping (acquire_port_mapping pcp_only 0 4433) = None \<and> snd (acquire_port_mapping pcp_only 0 4433) = Inr pcp_grant"
  using silent_natpmp_hides_the_others [of pcp_only 0 4433] by (simp add: pcp_only_grants) (simp add: pcp_only_def)

end
