(* ===== verification/Spec2Isabelle.thy ===== *)
theory Spec2Isabelle
  imports Packet Session Crypto Trunk Jitter Fec Calls Presence Policy Quality Room H264 Av1
    Nack Reassembly VideoControl Scorers Federation Pipeline SessionMgr AudioRing CallRecv Signalling Handshake Admission
    Candidates RelayMesh AppEngine AppSignal Transport Portmap
begin

text \<open>
  A verification library for WarzonePhone (wzp), an encrypted voice and video calling system in Rust: clients
  that encode, protect and encrypt media, relays that forward it without reading it, and relays joined into a
  federation.  Every definition that models code is translated from it; the theories open with what they leave out.

  \<^bold>\<open>The program and its model.\<close>  Paths are under \<open>src/crates\<close> unless they start with \<open>desktop\<close>.

  Wire formats and cryptography.
  \<^item> \<open>Prelude\<close>: machine integers, byte strings and readers; the interfaces \<open>wire_codec\<close> and \<open>fifo_stage\<close>.
    \<open>Errors\<close>, \<open>Codec\<close>: the error and codec enumerations of \<open>wzp-proto\<close>.
  \<^item> \<open>Packet\<close> (\<open>wzp-proto/src/packet.rs\<close>): header, quality report, packet, mini frames and their context.  Round
    trips, lengths, rejection of short and unknown input, a whole stream through the compression.
  \<^item> \<open>Session\<close> (\<open>wzp-proto/src/session.rs\<close>): the call state machine, its reachable states and what they require.
  \<^item> \<open>AntiReplay\<close>, \<open>Crypto\<close>, \<open>Handshake\<close> (\<open>wzp-crypto\<close>, both \<open>handshake.rs\<close>, \<open>encrypted_transport.rs\<close>): the
    replay window refines a filter over unbounded numbers; a session returns every authentic packet once and as it
    was sent; two peers derive one session; both ends of the signed key exchange agree.

  Media processing.
  \<^item> \<open>BTree\<close>: Rust's ordered and hash maps as association lists (\<open>bt_\<close>, \<open>hm_\<close>) under the laws of \<open>keyed_map\<close>.
  \<^item> \<open>Jitter\<close>, \<open>Fec\<close>, \<open>Trunk\<close>, \<open>Quality\<close>, \<open>Bandwidth\<close>, \<open>Dred\<close>, \<open>Dsp\<close>, \<open>AudioRing\<close>: playout buffer, block code
    around RaptorQ, trunk frames with batcher and forwarder, adaptation, estimators, resamplers with gain and silence,
    and the lock-free ring with its two interleaved threads.
  \<^item> \<open>CallSend\<close>, \<open>CallRecv\<close> (\<open>wzp-client/src/call.rs\<close>): encoder and decoder of a call over those parts.
  \<^item> \<open>H264\<close>, \<open>Av1\<close>, \<open>Nack\<close>, \<open>Reassembly\<close>, \<open>VideoControl\<close> (\<open>wzp-video\<close>): framing and depacketizing, requests for
    lost packets, frames over datagrams, rate control and simulcast.
  \<^item> \<open>Transport\<close> (\<open>wzp-transport\<close>): media datagrams and trunk frames over a connection, and the monitor of its path.

  The relay (\<open>wzp-relay\<close>).
  \<^item> \<open>Room\<close>, \<open>SessionMgr\<close>, \<open>Pipeline\<close>: rooms with the forwarding of one packet, sessions and their limit, and the
    forwarding mode that repairs blocks.
  \<^item> \<open>Calls\<close>, \<open>Presence\<close>, \<open>Signalling\<close>, \<open>Admission\<close>: the call registry, who is where, the signal loop of a connection
    with the dispatcher of federated signals, and how clients enter and leave rooms.
  \<^item> \<open>Federation\<close>, \<open>RelayMesh\<close>: peer relays, duplicate and rate filters, presence signals, probes and links.
  \<^item> \<open>Policy\<close>, \<open>Scorers\<close>: conformance meter, token bucket, verdicts, behavioural scores.

  The clients.
  \<^item> \<open>Stun\<close>, \<open>Portmap\<close>, \<open>Candidates\<close> (\<open>wzp-client\<close>): address discovery, port mapping by the router, NAT types,
    candidates and their order, the race of the direct path against the relay.
  \<^item> \<open>AppEngine\<close>, \<open>AppSignal\<close>, \<open>History\<close> (\<open>desktop/src-tauri/src\<close>: \<open>engine.rs\<close>, \<open>lib.rs\<close>, \<open>history.rs\<close>): the tasks of
    a call, the signalling connection with its reconnecting tasks and the agreement on a path, the call history.

  \<^bold>\<open>How the parts meet.\<close>  A sender's frames go through \<open>CallSend\<close> (codec, \<open>Fec\<close>), \<open>Packet\<close> and \<open>Crypto\<close>; the relay
  forwards them by \<open>Room\<close>, in batches by \<open>Trunk\<close>, or to its peers by \<open>Federation\<close>; the receiver goes back through \<open>Crypto\<close>,
  \<open>CallRecv\<close> (\<open>Jitter\<close>, \<open>Fec\<close>) or \<open>AppEngine\<close>.  A call is placed by \<open>AppSignal\<close> through \<open>Signalling\<close> and \<open>Calls\<close>, its parties are
  admitted to a room by \<open>Admission\<close>, with addresses from \<open>Stun\<close>, \<open>Portmap\<close> and \<open>Candidates\<close>.

  \<^bold>\<open>Conventions.\<close>  A struct is a record with the source's fields, an enum a datatype.  Integers keep their width as
  words where they wrap; counters and times that cannot reach it are natural numbers, and casts are written out
  (\<open>as_i16\<close>, \<open>as_u32\<close>).  Floats are exact rationals or reals.  An operation is a function from the state to the new state
  and its result, \<open>Inl\<close> an error, or to its list of outputs; \<open>None\<close> stands for a panic, or for a loop that does not end.
  The clock, random values, sockets, name resolution, codecs, RaptorQ, the cryptographic primitives, JSON and files
  are arguments; what is relied on of them is a named hypothesis (\<open>aead_opens\<close>, \<open>dh_commutes\<close>, \<open>rq_correct\<close>), met by a
  concrete instance in the witnesses.

  \<^bold>\<open>Concurrency.\<close>  A handler that runs under one lock is one step.  Tasks that take locks in turn are split into the
  sections between them, and their steps interleave: the threads of \<open>AudioRing\<close>, the connection tasks of \<open>Admission\<close>, the
  registration tasks of \<open>AppSignal\<close> and the two apps that agree on a path, an inductive relation there.  The clean-up of
  a signalling connection is given in its sections with any interference between them (\<open>Signalling.close_all\<close>); the other
  signal handlers, and leaving a room and forwarding a packet in \<open>Room\<close>, are one step in the theorems about histories,
  though the code releases locks within them.  \<open>Room\<close> and \<open>Signalling\<close> show what goes wrong in those gaps
  (\<open>join_into_closing_room_is_lost\<close>, \<open>replaced_loop_reclaims_stream\<close>, \<open>offer_during_close_is_orphaned\<close>).

  \<^bold>\<open>Loops and bounds.\<close>  Recursion over data is structural or has a measure.  \<open>Pipeline.drain\<close> is a partial function and its
  theorems say when it has a value and that it has none once playout has begun.  The datagrams
  and presence signals between federated relays are inductive relations, the first with a bound on its length.
  No definition uses fuel.

  \<^bold>\<open>Interfaces.\<close>  \<open>wire_codec\<close> (headers, reports and mini headers of \<open>Packet\<close>), \<open>fifo_stage\<close> (the batcher of \<open>Trunk\<close>),
  \<open>keyed_map\<close> (both maps of \<open>BTree\<close>), \<open>replay_filter\<close> (the window of \<open>AntiReplay\<close>), \<open>presence_index\<close> (\<open>Presence\<close>) and
  \<open>streaming\<close> (both resamplers of \<open>Dsp\<close>) are locales, interpreted on the models of the code; the tiers of \<open>Quality\<close> are a
  linear order.

  \<^bold>\<open>Theorems.\<close>  The principal properties are numbered C1 to C40 and have a kind; they are preceded by their statement
  in words, as are the further ones, marked with \<open>Also\<close>.  A theorem with hypotheses has a witness, its instance at
  concrete input.  Several of them show behaviour the code does not intend: what a reader sees as the claim is
  what the code does.

  \<^bold>\<open>Not modelled.\<close>  Bodies that only call a library or the platform: QUIC endpoints and streams, codecs, audio and video
  devices, echo cancellation and denoising, the command line and measuring tools, metrics and logs, the web bridge, the
  old Android engine, and the user interface.  Of the modelled files: the Android branch of \<open>engine.rs\<close>, the socket
  loops around the steps of \<open>room.rs\<close> and \<open>main.rs\<close>, and the dials of \<open>dual_path.rs\<close>.
\<close>

end
